(* ===== verification/Go_Prelude.thy ===== *)
theory Go_Prelude
  imports Main "HOL-Library.AList" "HOL-Library.Multiset"
begin

text \<open>
  The vocabulary every component shares: Go panics as values, Go maps as association lists
  (the order of the list is the iteration order of one \<open>range\<close> loop), slices sorted with
  \<open>sort.Sort\<close>, and the string operations the loaders use. The lemma collections
  \<open>gomap_simps\<close> and \<open>go_simps\<close> carry the component proofs.
\<close>

named_theorems gomap_simps \<open>lookup after update, keys of an updated map\<close>
named_theorems go_simps \<open>unfolding of the panic monad\<close>

section \<open>Panics\<close>

datatype go_panic =
    IndexOutOfRange
  | NilDereference
  | TypeAssertion
  | ExplicitPanic string

type_synonym 'a go = "go_panic + 'a"

text \<open>Sequencing of computations that panic, or that return an error value.\<close>

definition go_bind :: "'e + 'a \<Rightarrow> ('a \<Rightarrow> 'e + 'b) \<Rightarrow> 'e + 'b" where
  "go_bind m f = (case m of Inl p \<Rightarrow> Inl p | Inr x \<Rightarrow> f x)"

definition go_index :: "'a list \<Rightarrow> nat \<Rightarrow> 'a go" where
  "go_index xs i = (if i < length xs then Inr (xs ! i) else Inl IndexOutOfRange)"

primrec go_fold :: "('a \<Rightarrow> 's \<Rightarrow> 'e + 's) \<Rightarrow> 'a list \<Rightarrow> 's \<Rightarrow> 'e + 's" where
  "go_fold f [] s = Inr s"
| "go_fold f (x # xs) s = go_bind (f x s) (go_fold f xs)"

lemma go_bind_simps [simp, go_simps]:
  "go_bind (Inl p) f = Inl p"
  "go_bind (Inr x) f = f x"
  by (simp_all add: go_bind_def)

lemma go_bind_cong [fundef_cong]:
  "m = m' \<Longrightarrow> (\<And>x. m' = Inr x \<Longrightarrow> f x = g x) \<Longrightarrow> go_bind m f = go_bind m' g"
  by (cases m') simp_all

lemma go_bind_Inr_iff: "go_bind m f = Inr y \<longleftrightarrow> (\<exists>x. m = Inr x \<and> f x = Inr y)"
  by (cases m) auto

lemma go_bind_InrE:
  assumes "go_bind m f = Inr y"
  obtains x where "m = Inr x" and "f x = Inr y"
  using assms by (auto simp: go_bind_Inr_iff)

lemma go_index_Inr_iff: "go_index xs i = Inr x \<longleftrightarrow> i < length xs \<and> xs ! i = x"
  by (auto simp: go_index_def)

lemma go_fold_append: "go_fold f (xs @ ys) s = go_bind (go_fold f xs s) (go_fold f ys)"
proof (induction xs arbitrary: s)
  case (Cons x xs)
  then show ?case by (cases "f x s") simp_all
qed simp

lemma go_fold_cong [fundef_cong]:
  "xs = ys \<Longrightarrow> s = t \<Longrightarrow> (\<And>x s. x \<in> set ys \<Longrightarrow> f x s = g x s) \<Longrightarrow> go_fold f xs s = go_fold g ys t"
proof (induction ys arbitrary: xs s t)
  case (Cons y ys)
  then have "go_fold f ys s' = go_fold g ys s'" for s' by auto
  with Cons.prems show ?case by (simp cong: go_bind_cong)
qed simp

lemma go_fold_concat: "go_fold f (concat xss) = go_fold (go_fold f) xss"
  by (induction xss) (auto intro!: ext simp: go_fold_append)

lemma go_fold_map: "go_fold f (map g xs) = go_fold (\<lambda>x. f (g x)) xs"
  by (induction xs) (auto intro!: ext)

text \<open>A loop invariant for the panic fold: it holds after every run that does not panic.\<close>

lemma go_fold_invariant:
  assumes "go_fold f xs s = Inr s'" and "P s"
    and "\<And>x s s'. x \<in> set xs \<Longrightarrow> P s \<Longrightarrow> f x s = Inr s' \<Longrightarrow> P s'"
  shows "P s'"
  using assms
proof (induction xs arbitrary: s)
  case (Cons x xs)
  from Cons.prems(1) obtain t where "f x s = Inr t" and "go_fold f xs t = Inr s'"
    by (auto elim: go_bind_InrE)
  moreover from this(1) Cons.prems(2,3) have "P t" by auto
  ultimately show ?case using Cons.prems(3) by (intro Cons.IH) auto
qed simp

lemma go_fold_total:
  assumes "\<And>x s. x \<in> set xs \<Longrightarrow> f x s = Inr (g x s)"
  shows "go_fold f xs s = Inr (fold g xs s)"
  using assms by (induction xs arbitrary: s) auto

lemma fold_invariant_gen:
  assumes "P s" and "\<And>x s. x \<in> set xs \<Longrightarrow> P s \<Longrightarrow> P (f x s)"
  shows "P (fold f xs s)"
  using assms by (induction xs arbitrary: s) auto

section \<open>Maps\<close>

type_synonym ('k, 'v) gomap = "('k \<times> 'v) list"

definition gomap_ok :: "('k, 'v) gomap \<Rightarrow> bool" where
  "gomap_ok m \<longleftrightarrow> distinct (map fst m)"

abbreviation mkeys :: "('k, 'v) gomap \<Rightarrow> 'k list" where
  "mkeys m \<equiv> map fst m"

text \<open>\<open>v, ok := m[k]\<close>, \<open>m[k]\<close> with the zero value of its type, \<open>m[k] = v\<close>, \<open>m[k] += n\<close>.\<close>

definition mhas :: "('k, 'v) gomap \<Rightarrow> 'k \<Rightarrow> bool" where
  "mhas m k \<longleftrightarrow> (case map_of m k of None \<Rightarrow> False | Some _ \<Rightarrow> True)"

definition mget :: "'v \<Rightarrow> ('k, 'v) gomap \<Rightarrow> 'k \<Rightarrow> 'v" where
  "mget z m k = (case map_of m k of None \<Rightarrow> z | Some v \<Rightarrow> v)"

abbreviation mput :: "'k \<Rightarrow> 'v \<Rightarrow> ('k, 'v) gomap \<Rightarrow> ('k, 'v) gomap" where
  "mput \<equiv> AList.update"

definition mincr :: "'k \<Rightarrow> ('k, 'n::{zero,one,plus}) gomap \<Rightarrow> ('k, 'n) gomap" where
  "mincr k m = mput k (mget 0 m k + 1) m"

lemma mhas_iff: "mhas m k \<longleftrightarrow> k \<in> set (mkeys m)"
  by (auto simp: mhas_def map_of_eq_None_iff weak_map_of_SomeI split: option.splits
      dest: map_of_SomeD intro: image_eqI [rotated])

lemma mhas_mput [gomap_simps]: "mhas (mput k v m) k' \<longleftrightarrow> k' = k \<or> mhas m k'"
  by (auto simp: mhas_def update_conv')

lemma mget_mput [gomap_simps]: "mget z (mput k v m) k' = (if k' = k then v else mget z m k')"
  by (auto simp: mget_def update_conv')

lemma mhas_Nil [simp]: "\<not> mhas [] k" and mget_Nil [simp]: "mget z [] k = z"
  by (simp_all add: mhas_def mget_def)

lemma mget_Cons [gomap_simps]: "mget z ((a, b) # m) k = (if k = a then b else mget z m k)"
  and mhas_Cons [gomap_simps]: "mhas ((a, b) # m) k \<longleftrightarrow> k = a \<or> mhas m k"
  by (simp_all add: mhas_def mget_def)

lemma mget_absent: "\<not> mhas m k \<Longrightarrow> mget z m k = z"
  by (auto simp: mhas_def mget_def split: option.splits)

lemma map_of_mget: "mhas m k \<Longrightarrow> map_of m k = Some (mget z m k)"
  by (auto simp: mhas_def mget_def split: option.splits)

lemma gomap_ok_Nil [simp, intro]: "gomap_ok []"
  by (simp add: gomap_ok_def)

lemma gomap_ok_mput [intro, simp]: "gomap_ok m \<Longrightarrow> gomap_ok (mput k v m)"
  by (simp add: gomap_ok_def distinct_update)

lemma gomap_ok_mincr [intro, simp]: "gomap_ok m \<Longrightarrow> gomap_ok (mincr k m)"
  by (simp add: mincr_def)

lemma set_mkeys_mput [gomap_simps]: "set (mkeys (mput k v m)) = insert k (set (mkeys m))"
  using mhas_mput [of k v m] by (auto simp: mhas_iff)

lemma mget_mem:
  assumes "gomap_ok m" and "(k, v) \<in> set m"
  shows "mget z m k = v" "mhas m k"
  using assms by (auto simp: gomap_ok_def mget_def mhas_def)

lemma mget_in_set:
  assumes "mhas m k"
  shows "(k, mget z m k) \<in> set m"
  using map_of_mget [OF assms, of z] by (rule map_of_SomeD)

text \<open>
  The contract of a Go map as its clients use it. Lookup is observed through \<open>get\<close> (zero
  value for an absent key) and \<open>has\<close>.
\<close>

locale go_map =
  fixes get :: "'v \<Rightarrow> 'm \<Rightarrow> 'k \<Rightarrow> 'v"
    and has :: "'m \<Rightarrow> 'k \<Rightarrow> bool"
    and put :: "'k \<Rightarrow> 'v \<Rightarrow> 'm \<Rightarrow> 'm"
    and emp :: "'m"
    and ok :: "'m \<Rightarrow> bool"
  assumes get_put: "ok m \<Longrightarrow> get z (put k v m) k' = (if k' = k then v else get z m k')"
    and has_put: "ok m \<Longrightarrow> has (put k v m) k' \<longleftrightarrow> k' = k \<or> has m k'"
    and get_absent: "ok m \<Longrightarrow> \<not> has m k \<Longrightarrow> get z m k = z"
    and has_emp: "\<not> has emp k"
    and ok_emp: "ok emp"
    and ok_put: "ok m \<Longrightarrow> ok (put k v m)"
begin

text \<open>Writing every element of a list under its own key: a Go set built by a loop.\<close>

lemma ok_fold_put: "ok m \<Longrightarrow> ok (fold (\<lambda>x. put (f x) (g x)) xs m)"
  by (induction xs arbitrary: m) (auto simp: ok_put)

lemma has_fold_put:
  "ok m \<Longrightarrow> has (fold (\<lambda>x. put (f x) (g x)) xs m) k \<longleftrightarrow> k \<in> f ` set xs \<or> has m k"
  by (induction xs arbitrary: m) (auto simp: has_put ok_put)

lemma get_fold_put_const:
  "ok m \<Longrightarrow> get z (fold (\<lambda>x. put (f x) c) xs m) k = (if k \<in> f ` set xs then c else get z m k)"
  by (induction xs arbitrary: m) (auto simp: get_put ok_put)

end

text \<open>A map of counters: the client of \<open>m[k] += 1\<close>.\<close>

locale go_counter = go_map get has put emp ok
  for get :: "'n::{comm_semiring_1} \<Rightarrow> 'm \<Rightarrow> 'k \<Rightarrow> 'n" and has :: "'m \<Rightarrow> 'k \<Rightarrow> bool"
    and put :: "'k \<Rightarrow> 'n \<Rightarrow> 'm \<Rightarrow> 'm" and emp :: "'m" and ok :: "'m \<Rightarrow> bool" +
  fixes incr :: "'k \<Rightarrow> 'm \<Rightarrow> 'm"
  assumes incr_put: "incr k m = put k (get 0 m k + 1) m"
begin

lemma ok_incr: "ok m \<Longrightarrow> ok (incr k m)"
  by (simp add: incr_put ok_put)

lemma get_incr: "ok m \<Longrightarrow> get 0 (incr k m) k' = get 0 m k' + (if k' = k then 1 else 0)"
  by (simp add: incr_put get_put)

lemma has_incr: "ok m \<Longrightarrow> has (incr k m) k' \<longleftrightarrow> k' = k \<or> has m k'"
  by (simp add: incr_put has_put)

lemma ok_fold_incr: "ok m \<Longrightarrow> ok (fold incr ks m)"
  by (induction ks arbitrary: m) (auto simp: ok_incr)

text \<open>A loop of increments counts occurrences.\<close>

lemma get_fold_incr: "ok m \<Longrightarrow> get 0 (fold incr ks m) k = get 0 m k + of_nat (count_list ks k)"
  by (induction ks arbitrary: m) (auto simp: get_incr ok_incr algebra_simps)

lemma has_fold_incr: "ok m \<Longrightarrow> has (fold incr ks m) k \<longleftrightarrow> k \<in> set ks \<or> has m k"
  by (induction ks arbitrary: m) (auto simp: has_incr ok_incr)

end

interpretation alist_map: go_map mget mhas mput "[]" gomap_ok
  by unfold_locales (auto simp: gomap_simps mget_absent)

interpretation alist_counter: go_counter mget mhas mput "[]" gomap_ok mincr
  by unfold_locales (simp add: mincr_def)

section \<open>Sorting\<close>

text \<open>
  \<open>sort.Sort\<close> needs a strict weak order and returns a sorted permutation of the slice.
  \<open>sort_by\<close> is one such sort. The package does not promise stability, so what is used of
  a sorted list is that it is a sorted permutation; where the keys of the elements are
  pairwise comparable that determines the list (\<open>sorted_perm_unique\<close> below).
\<close>

fun insert_by :: "('a \<Rightarrow> 'a \<Rightarrow> bool) \<Rightarrow> 'a \<Rightarrow> 'a list \<Rightarrow> 'a list" where
  "insert_by lt x [] = [x]"
| "insert_by lt x (y # ys) = (if lt y x then y # insert_by lt x ys else x # y # ys)"

fun sort_by :: "('a \<Rightarrow> 'a \<Rightarrow> bool) \<Rightarrow> 'a list \<Rightarrow> 'a list" where
  "sort_by lt [] = []"
| "sort_by lt (x # xs) = insert_by lt x (sort_by lt xs)"

abbreviation sorted_less :: "('a \<Rightarrow> 'a \<Rightarrow> bool) \<Rightarrow> 'a list \<Rightarrow> bool" where
  "sorted_less lt \<equiv> sorted_wrt (\<lambda>a b. \<not> lt b a)"

lemma mset_insert_by [simp]: "mset (insert_by lt x xs) = add_mset x (mset xs)"
  by (induction xs) auto

lemma mset_sort_by [simp]: "mset (sort_by lt xs) = mset xs"
  by (induction xs) auto

lemma set_insert_by [simp]: "set (insert_by lt x xs) = insert x (set xs)"
  by (metis mset_insert_by set_mset_add_mset_insert set_mset_mset)

lemma set_sort_by [simp]: "set (sort_by lt xs) = set xs"
  by (metis mset_sort_by set_mset_mset)

lemma length_sort_by [simp]: "length (sort_by lt xs) = length xs"
  by (metis mset_sort_by size_mset)

lemma sort_by_Nil_iff [simp]: "sort_by lt xs = [] \<longleftrightarrow> xs = []"
  by (metis length_0_conv length_sort_by)

lemma distinct_sort_by [simp]: "distinct (sort_by lt xs) \<longleftrightarrow> distinct xs"
  by (metis mset_sort_by mset_eq_imp_distinct_iff)

locale slice_sort =
  fixes lt :: "'a \<Rightarrow> 'a \<Rightarrow> bool"
  assumes less_asym: "lt a b \<Longrightarrow> \<not> lt b a"
    and less_neg_trans: "\<not> lt a b \<Longrightarrow> \<not> lt b c \<Longrightarrow> \<not> lt a c"
begin

lemma less_irrefl: "\<not> lt a a"
  using less_asym by blast

lemma less_trans: "lt a b \<Longrightarrow> lt b c \<Longrightarrow> lt a c"
  using less_asym less_neg_trans by blast

lemma sorted_insert_by: "sorted_less lt xs \<Longrightarrow> sorted_less lt (insert_by lt x xs)"
proof (induction xs)
  case (Cons y ys)
  show ?case
  proof (cases "lt y x")
    case True
    with Cons less_asym show ?thesis by auto
  next
    case False
    with Cons.prems less_neg_trans show ?thesis by auto
  qed
qed simp

lemma sorted_sort_by: "sorted_less lt (sort_by lt xs)"
  by (induction xs) (auto intro: sorted_insert_by)

lemma sort_by_sorted: "sorted_less lt xs \<Longrightarrow> sort_by lt xs = xs"
proof (induction xs)
  case (Cons x xs)
  then have "sort_by lt xs = xs" by simp
  with Cons.prems show ?case by (cases xs) auto
qed simp

lemma sort_by_idem: "sort_by lt (sort_by lt xs) = sort_by lt xs"
  by (rule sort_by_sorted) (rule sorted_sort_by)

text \<open>
  Any two sorted permutations of a slice whose elements are pairwise comparable are equal:
  the result does not depend on the sorting algorithm.
\<close>

lemma sorted_perm_unique:
  assumes "mset xs = mset ys" and "sorted_less lt xs" and "sorted_less lt ys"
    and "\<And>a b. a \<in> set xs \<Longrightarrow> b \<in> set xs \<Longrightarrow> a \<noteq> b \<Longrightarrow> lt a b \<or> lt b a"
  shows "xs = ys"
  using assms
proof (induction xs arbitrary: ys)
  case (Cons x xs)
  from Cons.prems(1) obtain y ys' where ys: "ys = y # ys'"
    by (cases ys) auto
  have "y \<in> set (x # xs)" and "x \<in> set ys"
    using Cons.prems(1) ys by (metis list.set_intros(1) set_mset_mset)+
  then have xy: "x = y"
    using Cons.prems(2,3,4) ys by auto
  moreover have "xs = ys'"
    using Cons.prems xy ys by (intro Cons.IH) auto
  ultimately show ?case using ys by simp
qed simp

corollary sort_by_unique:
  assumes "mset ys = mset xs" and "sorted_less lt ys"
    and "\<And>a b. a \<in> set xs \<Longrightarrow> b \<in> set xs \<Longrightarrow> a \<noteq> b \<Longrightarrow> lt a b \<or> lt b a"
  shows "ys = sort_by lt xs"
proof (rule sorted_perm_unique)
  show "mset ys = mset (sort_by lt xs)" using assms(1) by simp
  show "sorted_less lt ys" by (rule assms(2))
  show "sorted_less lt (sort_by lt xs)" by (rule sorted_sort_by)
  show "lt a b \<or> lt b a" if "a \<in> set ys" "b \<in> set ys" "a \<noteq> b" for a b
    using assms(3) that mset_eq_setD [OF assms(1)] by blast
qed

end

section \<open>Strings\<close>

text \<open>
  \<open>strings.ToLower\<close>, \<open>strings.TrimSpace\<close> and \<open>strings.Split\<close> on ASCII text, and
  \<open>strings.Contains\<close>.
\<close>

definition char_in :: "char \<Rightarrow> char \<Rightarrow> char \<Rightarrow> bool" where
  "char_in lo hi c \<longleftrightarrow> (of_char lo :: nat) \<le> of_char c \<and> (of_char c :: nat) \<le> of_char hi"

definition char_lower :: "char \<Rightarrow> char" where
  "char_lower c = (if char_in (CHR ''A'') (CHR ''Z'') c then char_of ((of_char c :: nat) + 32) else c)"

definition ToLower :: "string \<Rightarrow> string" where
  "ToLower s = map char_lower s"

definition is_space :: "char \<Rightarrow> bool" where
  "is_space c \<longleftrightarrow> (of_char c :: nat) \<in> {9, 10, 11, 12, 13, 32}"

definition TrimSpace :: "string \<Rightarrow> string" where
  "TrimSpace s = rev (dropWhile is_space (rev (dropWhile is_space s)))"

fun Split_acc :: "char \<Rightarrow> string \<Rightarrow> string \<Rightarrow> string list" where
  "Split_acc sep acc [] = [rev acc]"
| "Split_acc sep acc (c # cs) =
     (if c = sep then rev acc # Split_acc sep [] cs else Split_acc sep (c # acc) cs)"

definition Split :: "string \<Rightarrow> char \<Rightarrow> string list" where
  "Split s sep = Split_acc sep [] s"

fun has_prefix :: "string \<Rightarrow> string \<Rightarrow> bool" where
  "has_prefix s [] = True"
| "has_prefix [] (p # ps) = False"
| "has_prefix (c # cs) (p # ps) = (c = p \<and> has_prefix cs ps)"

fun Contains :: "string \<Rightarrow> string \<Rightarrow> bool" where
  "Contains [] p = (p = [])"
| "Contains (c # cs) p = (has_prefix (c # cs) p \<or> Contains cs p)"

lemma has_prefix_append [simp]: "has_prefix (p @ s) p"
  by (induction p) (cases s, auto)

lemma Contains_self_append: "Contains (u @ p @ s) p"
proof (induction u)
  case Nil
  show ?case
  proof (cases "p @ s")
    case (Cons c cs)
    then show ?thesis using has_prefix_append [of p s] by simp
  qed simp
qed simp

lemma Split_acc_nonempty [simp]: "Split_acc sep acc s \<noteq> []"
  by (induction sep acc s rule: Split_acc.induct) auto

lemma Split_nonempty [simp]: "Split s sep \<noteq> []"
  by (simp add: Split_def)

lemma Split_acc_no_sep: "sep \<notin> set acc \<Longrightarrow> \<forall>p \<in> set (Split_acc sep acc s). sep \<notin> set p"
  by (induction sep acc s rule: Split_acc.induct) auto

text \<open>Splitting text joined with a separator its parts do not contain gives the parts back.\<close>

lemma Split_acc_join:
  "sep \<notin> set u \<Longrightarrow> Split_acc sep acc (u @ sep # v) = (rev acc @ u) # Split_acc sep [] v"
  by (induction u arbitrary: acc) auto

lemma Split_acc_single: "sep \<notin> set u \<Longrightarrow> Split_acc sep acc u = [rev acc @ u]"
  by (induction u arbitrary: acc) auto

lemma Split_pair: "sep \<notin> set u \<Longrightarrow> sep \<notin> set v \<Longrightarrow> Split (u @ sep # v) sep = [u, v]"
  by (simp add: Split_def Split_acc_join Split_acc_single)

end
