(* ===== verification/Common_Types.thy ===== *)
theory Common_Types
  imports Go_Prelude "HOL-Library.Word"
begin

unbundle bit_operations_syntax

text \<open>
  Bytes, hexadecimal text, hashes and addresses: \<open>common/bytes.go\<close> and the part of
  \<open>common/types.go\<close> the analysis uses. A fixed-size byte array is the word of the same
  width (an address is 20 bytes, a hash 32), read big-endian; \<open>SetBytes\<close> is written on
  byte lists, as in the source, and \<open>Bytes_BytesToAddress\<close> ties the two views together.
\<close>

type_synonym byte = "8 word"
type_synonym bytes = "8 word list"
type_synonym Address = "160 word"
type_synonym Hash = "256 word"
type_synonym uint64 = "64 word"

section \<open>Big-endian numbers\<close>

definition be_val :: "bytes \<Rightarrow> nat" where
  "be_val bs = fold (\<lambda>b n. n * 256 + unat b) bs 0"

fun be_bytes :: "nat \<Rightarrow> nat \<Rightarrow> bytes" where
  "be_bytes 0 n = []"
| "be_bytes (Suc k) n = be_bytes k (n div 256) @ [of_nat n]"

lemma word_unat_less: "unat (w :: 'a::len word) < 2 ^ LENGTH('a)"
  by (rule unsigned_less)

lemma be_val_Nil [simp]: "be_val [] = 0"
  by (simp add: be_val_def)

lemma be_val_snoc [simp]: "be_val (bs @ [b]) = be_val bs * 256 + unat b"
  by (simp add: be_val_def)

lemma length_be_bytes [simp]: "length (be_bytes k n) = k"
  by (induction k arbitrary: n) auto

lemma be_val_less: "be_val bs < 256 ^ length bs"
proof (induction bs rule: rev_induct)
  case (snoc b bs)
  have "unat b < 256" using word_unat_less [of b] by simp
  with snoc show ?case by simp
qed simp

lemma unat_of_nat_byte [simp]: "unat (of_nat n :: byte) = n mod 256"
  by (simp add: unat_of_nat)

lemma word_eqI_byte: "unat (v :: byte) = unat w \<Longrightarrow> v = w"
  by (rule unsigned_word_eqI)

lemma of_nat_mod_byte: "(of_nat (n mod 256) :: byte) = of_nat n"
  by (rule word_eqI_byte) simp

lemma be_val_be_bytes: "be_val (be_bytes k n) = n mod 256 ^ k"
proof (induction k arbitrary: n)
  case (Suc k)
  have "n mod (256 * 256 ^ k) = 256 * (n div 256 mod 256 ^ k) + n mod 256"
    by (rule mod_mult2_eq)
  with Suc show ?case by (simp add: mult.commute)
qed simp

lemma be_bytes_be_val: "be_bytes (length bs) (be_val bs) = bs"
proof (induction bs rule: rev_induct)
  case (snoc b bs)
  have b: "unat b < 256" using word_unat_less [of b] by simp
  then have "(be_val bs * 256 + unat b) div 256 = be_val bs" by simp
  moreover have "(of_nat (be_val bs * 256 + unat b) :: byte) = b"
    using of_nat_mod_byte [of "be_val bs * 256 + unat b"] b by simp
  ultimately show ?case using snoc by simp
qed simp

lemma be_val_zeros [simp]: "be_val (replicate k 0 @ bs) = be_val bs"
proof -
  have "fold (\<lambda>b n. n * 256 + unat b) (replicate k (0::byte)) 0 = 0"
    by (induction k) auto
  then show ?thesis by (simp add: be_val_def)
qed

section \<open>Byte slices\<close>

definition LeftPadBytes :: "bytes \<Rightarrow> nat \<Rightarrow> bytes" where
  "LeftPadBytes sl l =
     (if l \<le> length sl then sl else replicate (l - length sl) 0 @ sl)"

definition RightPadBytes :: "bytes \<Rightarrow> nat \<Rightarrow> bytes" where
  "RightPadBytes sl l =
     (if l \<le> length sl then sl else sl @ replicate (l - length sl) 0)"

definition TrimLeftZeroes :: "bytes \<Rightarrow> bytes" where
  "TrimLeftZeroes s = dropWhile (\<lambda>b. b = 0) s"

definition TrimRightZeroes :: "bytes \<Rightarrow> bytes" where
  "TrimRightZeroes s = rev (dropWhile (\<lambda>b. b = 0) (rev s))"

text \<open>\<open>Hash.SetBytes\<close> and \<open>Address.SetBytes\<close>: crop from the left, then fill from the right.\<close>

definition SetBytes :: "nat \<Rightarrow> bytes \<Rightarrow> bytes" where
  "SetBytes n b =
     (let b = (if length b > n then drop (length b - n) b else b)
      in replicate (n - length b) 0 @ b)"

lemma length_SetBytes [simp]: "length (SetBytes n b) = n"
  by (simp add: SetBytes_def Let_def)

lemma SetBytes_id: "length b = n \<Longrightarrow> SetBytes n b = b"
  by (simp add: SetBytes_def)

lemma LeftPadBytes_SetBytes: "length b \<le> n \<Longrightarrow> SetBytes n b = LeftPadBytes b n"
  by (auto simp: SetBytes_def LeftPadBytes_def Let_def)

lemma be_val_LeftPadBytes [simp]: "be_val (LeftPadBytes b n) = be_val b"
  by (simp add: LeftPadBytes_def)

section \<open>Hexadecimal text\<close>

definition has0xPrefix :: "string \<Rightarrow> bool" where
  "has0xPrefix str \<longleftrightarrow> length str \<ge> 2 \<and> str ! 0 = CHR ''0'' \<and>
     (str ! 1 = CHR ''x'' \<or> str ! 1 = CHR ''X'')"

definition isHexCharacter :: "char \<Rightarrow> bool" where
  "isHexCharacter c \<longleftrightarrow> char_in (CHR ''0'') (CHR ''9'') c \<or> char_in (CHR ''a'') (CHR ''f'') c
     \<or> char_in (CHR ''A'') (CHR ''F'') c"

definition isHex :: "string \<Rightarrow> bool" where
  "isHex str \<longleftrightarrow> length str mod 2 = 0 \<and> list_all isHexCharacter str"

text \<open>
  \<open>hex.EncodeToString\<close>, and \<open>hex.DecodeString\<close> with the error dropped, as \<open>Hex2Bytes\<close> does:
  the bytes decoded before the first invalid digit.
\<close>

definition hex_digit :: "nat \<Rightarrow> char" where
  "hex_digit n = (if n < 10 then char_of (48 + n) else char_of (87 + n))"

definition fromHexChar :: "char \<Rightarrow> nat option" where
  "fromHexChar c =
     (if char_in (CHR ''0'') (CHR ''9'') c then Some (of_char c - 48)
      else if char_in (CHR ''a'') (CHR ''f'') c then Some (of_char c - 87)
      else if char_in (CHR ''A'') (CHR ''F'') c then Some (of_char c - 55)
      else None)"

definition Bytes2Hex :: "bytes \<Rightarrow> string" where
  "Bytes2Hex d = concat (map (\<lambda>b. [hex_digit (unat b div 16), hex_digit (unat b mod 16)]) d)"

fun Hex2Bytes :: "string \<Rightarrow> bytes" where
  "Hex2Bytes (c # d # s) =
     (case (fromHexChar c, fromHexChar d) of
        (Some a, Some b) \<Rightarrow> of_nat (a * 16 + b) # Hex2Bytes s
      | _ \<Rightarrow> [])"
| "Hex2Bytes _ = []"

definition FromHex :: "string \<Rightarrow> bytes" where
  "FromHex s =
     (let s = (if has0xPrefix s then drop 2 s else s);
          s = (if length s mod 2 = 1 then CHR ''0'' # s else s)
      in Hex2Bytes s)"

definition Hex2BytesFixed :: "string \<Rightarrow> nat \<Rightarrow> bytes" where
  "Hex2BytesFixed str flen =
     (let h = Hex2Bytes str
      in if length h = flen then h
         else if length h > flen then drop (length h - flen) h
         else replicate (flen - length h) 0 @ h)"

lemma Hex2BytesFixed_SetBytes: "Hex2BytesFixed str n = SetBytes n (Hex2Bytes str)"
  by (auto simp: Hex2BytesFixed_def SetBytes_def Let_def)

lemma hex_digit_table:
  "hex_digit 0 = CHR ''0''" "hex_digit (Suc 0) = CHR ''1''" "hex_digit 2 = CHR ''2''" "hex_digit 3 = CHR ''3''"
  "hex_digit 4 = CHR ''4''" "hex_digit 5 = CHR ''5''" "hex_digit 6 = CHR ''6''" "hex_digit 7 = CHR ''7''"
  "hex_digit 8 = CHR ''8''" "hex_digit 9 = CHR ''9''" "hex_digit 10 = CHR ''a''" "hex_digit 11 = CHR ''b''"
  "hex_digit 12 = CHR ''c''" "hex_digit 13 = CHR ''d''" "hex_digit 14 = CHR ''e''" "hex_digit 15 = CHR ''f''"
  by (simp_all add: hex_digit_def char_of_def bit_0)

lemma hex_digit_code: "n < 16 \<Longrightarrow> (of_char (hex_digit n) :: nat) = (if n < 10 then 48 + n else 87 + n)"
  by (auto simp: hex_digit_def)

lemma fromHexChar_hex_digit [simp]: "n < 16 \<Longrightarrow> fromHexChar (hex_digit n) = Some n"
  by (auto simp: fromHexChar_def char_in_def hex_digit_code)

lemma length_Bytes2Hex [simp]: "length (Bytes2Hex d) = 2 * length d"
  by (induction d) (auto simp: Bytes2Hex_def)

lemma Bytes2Hex_Cons:
  "Bytes2Hex (b # d) = hex_digit (unat b div 16) # hex_digit (unat b mod 16) # Bytes2Hex d"
  by (simp add: Bytes2Hex_def)

lemma byte_div_less [simp]: "unat (b :: byte) div 16 < 16"
  using word_unat_less [of b] by simp

lemma Hex2Bytes_Bytes2Hex [simp]: "Hex2Bytes (Bytes2Hex d) = d"
proof (induction d)
  case (Cons b d)
  have "(of_nat (unat b div 16 * 16 + unat b mod 16) :: byte) = b" by simp
  with Cons show ?case by (simp add: Bytes2Hex_Cons)
qed (simp add: Bytes2Hex_def)

lemma FromHex_prefixed [simp]: "FromHex (CHR ''0'' # CHR ''x'' # Bytes2Hex d) = d"
  by (simp add: FromHex_def has0xPrefix_def)

section \<open>Hashes and addresses\<close>

definition Address_Bytes :: "Address \<Rightarrow> bytes" where
  "Address_Bytes a = be_bytes 20 (unat a)"

definition BytesToAddress :: "bytes \<Rightarrow> Address" where
  "BytesToAddress b = of_nat (be_val (SetBytes 20 b))"

definition HexToAddress :: "string \<Rightarrow> Address" where
  "HexToAddress s = BytesToAddress (FromHex s)"

definition IsHexAddress :: "string \<Rightarrow> bool" where
  "IsHexAddress s =
     (let s = (if has0xPrefix s then drop 2 s else s) in length s = 2 * 20 \<and> isHex s)"

definition Hash_Bytes :: "Hash \<Rightarrow> bytes" where
  "Hash_Bytes h = be_bytes 32 (unat h)"

definition BytesToHash :: "bytes \<Rightarrow> Hash" where
  "BytesToHash b = of_nat (be_val (SetBytes 32 b))"

definition HexToHash :: "string \<Rightarrow> Hash" where
  "HexToHash s = BytesToHash (FromHex s)"

definition Hash_Hex :: "Hash \<Rightarrow> string" where
  "Hash_Hex h = ''0x'' @ Bytes2Hex (Hash_Bytes h)"

text \<open>\<open>Address.hex\<close>, and the EIP-55 text \<open>Address.checksumHex\<close> for a Keccak-256 function.\<close>

definition Address_hex :: "Address \<Rightarrow> string" where
  "Address_hex a = ''0x'' @ Bytes2Hex (Address_Bytes a)"

definition checksum_char :: "bytes \<Rightarrow> nat \<Rightarrow> char \<Rightarrow> char" where
  "checksum_char hash i c =
     (if i < 2 then c
      else let hashByte = hash ! ((i - 2) div 2);
               hashByte = (if i mod 2 = 0 then drop_bit 4 hashByte else hashByte AND 15)
           in if (of_char c :: nat) > of_char (CHR ''9'') \<and> 7 < hashByte
              then char_of (of_char c - 32 :: nat) else c)"

definition checksumHex :: "(string \<Rightarrow> bytes) \<Rightarrow> Address \<Rightarrow> string" where
  "checksumHex keccak a =
     (let buf = Address_hex a; hash = keccak (drop 2 buf)
      in map (\<lambda>(i, c). checksum_char hash i c) (List.enumerate 0 buf))"

lemma of_nat_unat_be:
  fixes a :: "'a::len word"
  assumes "LENGTH('a) = 8 * k"
  shows "of_nat (be_val (be_bytes k (unat a))) = a"
proof -
  have "unat a < 256 ^ k"
    using word_unat_less [of a] by (simp add: assms power_mult)
  then show ?thesis by (simp add: be_val_be_bytes)
qed

lemma unat_of_be_val:
  assumes "LENGTH('a::len) = 8 * length bs"
  shows "unat (of_nat (be_val bs) :: 'a word) = be_val bs"
  using be_val_less [of bs] by (simp add: unat_of_nat assms power_mult)

lemma Bytes_BytesToAddress [simp]: "Address_Bytes (BytesToAddress b) = SetBytes 20 b"
  using be_bytes_be_val [of "SetBytes 20 b"]
  by (simp add: Address_Bytes_def BytesToAddress_def unat_of_be_val)

lemma BytesToAddress_Bytes [simp]: "BytesToAddress (Address_Bytes a) = a"
  by (simp add: Address_Bytes_def BytesToAddress_def SetBytes_id of_nat_unat_be)

lemma Bytes_BytesToHash [simp]: "Hash_Bytes (BytesToHash b) = SetBytes 32 b"
  using be_bytes_be_val [of "SetBytes 32 b"]
  by (simp add: Hash_Bytes_def BytesToHash_def unat_of_be_val)

lemma BytesToHash_Bytes [simp]: "BytesToHash (Hash_Bytes h) = h"
  by (simp add: Hash_Bytes_def BytesToHash_def SetBytes_id of_nat_unat_be)

lemma HexToAddress_hex [simp]: "HexToAddress (Address_hex a) = a"
  by (simp add: HexToAddress_def Address_hex_def)

lemma HexToHash_Hex [simp]: "HexToHash (Hash_Hex h) = h"
  by (simp add: HexToHash_def Hash_Hex_def)

text \<open>
  Every character of an address text is \<open>x\<close> or a lower-case digit, and upper-casing a
  letter is undone by \<open>strings.ToLower\<close>.
\<close>

lemma ToLower_hex_digit: "n < 16 \<Longrightarrow> char_lower (hex_digit n) = hex_digit n"
  by (auto simp: char_lower_def char_in_def hex_digit_code)

lemma char_lower_upper_hex:
  assumes "n < 16" and "(of_char (hex_digit n) :: nat) > of_char (CHR ''9'')"
  shows "char_lower (char_of (of_char (hex_digit n) - 32 :: nat)) = hex_digit n"
proof -
  have "n \<in> {10..<16}" using assms by (auto simp: hex_digit_code split: if_splits)
  then show ?thesis by (auto simp: char_lower_def char_in_def hex_digit_def)
qed

lemma Bytes2Hex_digits: "c \<in> set (Bytes2Hex d) \<Longrightarrow> \<exists>n < 16. c = hex_digit n"
proof -
  assume "c \<in> set (Bytes2Hex d)"
  then obtain b :: byte where "c = hex_digit (unat b div 16) \<or> c = hex_digit (unat b mod 16)"
    by (auto simp: Bytes2Hex_def)
  then show ?thesis by (metis byte_div_less mod_less_divisor zero_less_numeral)
qed

lemma checksum_char_lower:
  "n < 16 \<Longrightarrow> char_lower (checksum_char hash i (hex_digit n)) = hex_digit n"
  unfolding checksum_char_def Let_def
  using ToLower_hex_digit [of n] char_lower_upper_hex [of n] by (auto simp only: split: if_split)

lemma ToLower_checksumHex: "ToLower (checksumHex keccak a) = Address_hex a"
proof -
  have gen: "map char_lower (map (\<lambda>(i, c). checksum_char hash i c) (List.enumerate k (Bytes2Hex d)))
      = Bytes2Hex d" for hash k d
  proof (rule nth_equalityI)
    fix i assume "i < length (map char_lower (map (\<lambda>(i, c). checksum_char hash i c) (List.enumerate k (Bytes2Hex d))))"
    then have i: "i < length (Bytes2Hex d)" by simp
    from Bytes2Hex_digits [OF nth_mem [OF this]]
    obtain n where "n < 16" "Bytes2Hex d ! i = hex_digit n" by blast
    with i show "map char_lower (map (\<lambda>(i, c). checksum_char hash i c) (List.enumerate k (Bytes2Hex d))) ! i
        = Bytes2Hex d ! i"
      by (simp add: nth_enumerate_eq checksum_char_lower)
  qed simp
  have "char_lower (CHR ''0'') = CHR ''0''" "char_lower (CHR ''x'') = CHR ''x''"
    by (simp_all add: char_lower_def char_in_def)
  moreover have "checksum_char hash 0 c = c" "checksum_char hash (Suc 0) c = c" for hash c
    by (simp_all add: checksum_char_def)
  ultimately show ?thesis
    unfolding ToLower_def checksumHex_def Let_def Address_hex_def using gen by simp
qed

lemma Address_hex_inj: "Address_hex a = Address_hex b \<longleftrightarrow> a = b"
  by (metis HexToAddress_hex)

lemma Hash_Hex_inj [simp]: "Hash_Hex h = Hash_Hex h' \<longleftrightarrow> h = h'"
  by (metis HexToHash_Hex)

text \<open>
  The address in an indexed event topic, \<open>HexToAddress(topic.String())\<close>: the low 20 bytes.
\<close>

lemma be_val_append: "be_val (xs @ ys) = be_val xs * 256 ^ length ys + be_val ys"
proof (induction ys rule: rev_induct)
  case (snoc y ys)
  then show ?case
    using be_val_snoc [of "xs @ ys" y] by (simp add: algebra_simps)
qed simp

lemma HexToAddress_Hash_Hex: "HexToAddress (Hash_Hex h) = of_nat (unat h mod 2 ^ 160)"
proof -
  have "take 12 (Hash_Bytes h) @ drop 12 (Hash_Bytes h) = Hash_Bytes h" by simp
  then have "be_val (Hash_Bytes h) = be_val (take 12 (Hash_Bytes h)) * 256 ^ 20 + be_val (drop 12 (Hash_Bytes h))"
    using be_val_append [of "take 12 (Hash_Bytes h)" "drop 12 (Hash_Bytes h)"]
    by (simp add: Hash_Bytes_def)
  moreover have "be_val (Hash_Bytes h) = unat h"
    using word_unat_less [of h] by (simp add: Hash_Bytes_def be_val_be_bytes)
  moreover have "be_val (drop 12 (Hash_Bytes h)) < 256 ^ 20"
    using be_val_less [of "drop 12 (Hash_Bytes h)"] by (simp add: Hash_Bytes_def)
  ultimately have "be_val (drop 12 (Hash_Bytes h)) = unat h mod 2 ^ 160" by simp
  then show ?thesis
    by (simp add: HexToAddress_def Hash_Hex_def BytesToAddress_def SetBytes_def Hash_Bytes_def)
qed

text \<open>
  Addresses survive their textual forms: the lower-case hexadecimal form and the
  checksummed form (whatever the hash function is) both parse back to the address, lowering
  the checksummed form gives the plain one, and the form is the key under which history
  directories and price files are found, so different addresses have different ones.
\<close>

theorem Address_text_roundtrip:
  "HexToAddress (Address_hex a) = a \<and> ToLower (checksumHex keccak a) = Address_hex a \<and>
   HexToAddress (ToLower (checksumHex keccak a)) = a \<and> Hex2Bytes (Bytes2Hex d) = d \<and>
   (Address_hex a = Address_hex b \<longleftrightarrow> a = b)"
  by (simp add: ToLower_checksumHex Address_hex_inj)

end
