(* ===== verification/Call_Tree.thy ===== *)
theory Call_Tree
  imports Common_Types
begin

text \<open>
  The recorded transaction: \<open>core/vm/tx.go\<close>. An external transaction holds the tree of its
  internal calls, each with the events its own frame emitted. The printing traversal
  \<open>ParseTxTree\<close> gives the list of its lines; every analysis in \<open>hunter/defi\<close> walks the tree
  in the same order (sub-calls first, then the frame's own events), which is what
  \<open>tree_calls\<close> and \<open>tree_events\<close> state once for all of them.
\<close>

record Event =
  ev_Address :: Address
  Topics :: "Hash list"
  ev_Data :: bytes
  ev_Index :: nat

datatype InternalTx = InternalTx
  (itx_From: Address)
  (itx_To: Address)
  (IsContract: bool)
  (itx_Value: "int option")
  (CallType: string)
  (Input: bytes)
  (Events: "Event list")
  (InTxs: "InternalTx list")

record ExternalTx =
  ex_BlockNumber :: int
  ex_Timestamp :: int
  ex_TxIndex :: int
  ex_InTxs :: "InternalTx list"

text \<open>
  The value of a zero \<open>InternalTx\<close> field is kept as \<open>None\<close> for the \<open>nil\<close> \<open>*big.Int\<close> of the
  call kinds that carry no value.
\<close>

lemma InTxs_size [termination_simp]: "x \<in> set (InTxs t) \<Longrightarrow> size x < size t"
  by (cases t) (auto dest!: size_list_estimation' [of _ _ _ size, OF _ order_refl])

section \<open>Traversal order\<close>

fun tree_calls :: "nat \<Rightarrow> InternalTx \<Rightarrow> (nat \<times> InternalTx) list" where
  "tree_calls d t = (d, t) # concat (map (tree_calls (d + 1)) (InTxs t))"

fun tree_events :: "nat \<Rightarrow> InternalTx \<Rightarrow> (nat \<times> Event) list" where
  "tree_events d t = concat (map (tree_events (d + 1)) (InTxs t)) @ map (Pair d) (Events t)"

declare tree_calls.simps [simp del] tree_events.simps [simp del]

text \<open>
  The same traversal as one list of steps, a call or an event of a call. An analysis that
  threads a state through the tree is a fold over this list (\<open>go_fold_tree\<close>).
\<close>

datatype tree_step = CallStep InternalTx | EventStep Event

fun tree_steps :: "InternalTx \<Rightarrow> tree_step list" where
  "tree_steps t = CallStep t # concat (map tree_steps (InTxs t)) @ map EventStep (Events t)"

declare tree_steps.simps [simp del]

lemma go_fold_tree:
  assumes "\<And>t s. F t s = go_bind (f (CallStep t) s) (\<lambda>s.
      go_bind (go_fold F (InTxs t) s) (go_fold (\<lambda>e. f (EventStep e)) (Events t)))"
  shows "F t s = go_fold f (tree_steps t) s"
proof (induction t arbitrary: s rule: tree_steps.induct)
  case (1 t)
  have "go_fold F (InTxs t) s' = go_fold (\<lambda>x. go_fold f (tree_steps x)) (InTxs t) s'" for s'
    by (rule go_fold_cong) (auto simp: 1)
  then show ?case
    by (subst assms, subst tree_steps.simps)
      (simp add: go_fold_append go_fold_concat go_fold_map cong: go_bind_cong)
qed

lemma tree_steps_calls: "CallStep c \<in> set (tree_steps t) \<longleftrightarrow> c \<in> snd ` set (tree_calls d t)"
proof (induction d t rule: tree_calls.induct)
  case (1 d t)
  then show ?case
    by (subst tree_steps.simps, subst tree_calls.simps) (auto simp: image_iff)
qed

lemma tree_steps_events: "EventStep e \<in> set (tree_steps t) \<longleftrightarrow> e \<in> snd ` set (tree_events d t)"
proof (induction d t rule: tree_events.induct)
  case (1 d t)
  then show ?case
    by (subst tree_steps.simps, subst tree_events.simps) (force simp: image_iff)
qed

text \<open>The lines \<open>ParseTxTree\<close> prints: one per call, then one per event of the call.\<close>

datatype tree_line =
    CallLine nat string Address "string option"
  | EventLine nat nat

definition vm_parseEvent :: "Event \<Rightarrow> nat \<Rightarrow> tree_line" where
  "vm_parseEvent event depth = EventLine (depth + 1) (ev_Index event)"

fun vm_parseTxTreeUtil :: "InternalTx \<Rightarrow> nat \<Rightarrow> tree_line list" where
  "vm_parseTxTreeUtil t depth =
     CallLine depth (CallType t) (itx_To t)
       (if length (Input t) \<ge> 4 then Some (''0x'' @ Bytes2Hex (take 4 (Input t))) else None)
     # concat (map (\<lambda>Tx. vm_parseTxTreeUtil Tx (depth + 1)) (InTxs t))
     @ map (\<lambda>event. vm_parseEvent event depth) (Events t)"

declare vm_parseTxTreeUtil.simps [simp del]

definition ParseTxTree :: "ExternalTx \<Rightarrow> (Address \<times> tree_line list) go" where
  "ParseTxTree ex =
     go_bind (go_index (ex_InTxs ex) 0) (\<lambda>t. Inr (itx_From t, vm_parseTxTreeUtil t 0))"

text \<open>The event lines are the events of the tree in traversal order, one deeper than their call.\<close>

lemma filter_concat_map: "filter P (concat (map f xs)) = concat (map (\<lambda>x. filter P (f x)) xs)"
  by (simp add: filter_concat comp_def)

fun is_event_line :: "tree_line \<Rightarrow> bool" where
  "is_event_line (EventLine _ _) = True"
| "is_event_line (CallLine _ _ _ _) = False"

lemma parse_tree_events:
  "filter is_event_line (vm_parseTxTreeUtil t d) =
     map (\<lambda>(k, e). EventLine (k + 1) (ev_Index e)) (tree_events d t)"
proof (induction d t rule: tree_events.induct)
  case (1 d t)
  then show ?case
    by (subst vm_parseTxTreeUtil.simps, subst tree_events.simps)
      (simp add: filter_concat_map filter_map o_def vm_parseEvent_def map_concat cong: map_cong)
qed

lemma parse_tree_calls:
  "filter (\<lambda>l. \<not> is_event_line l) (vm_parseTxTreeUtil t d) =
     map (\<lambda>(k, x). CallLine k (CallType x) (itx_To x)
       (if length (Input x) \<ge> 4 then Some (''0x'' @ Bytes2Hex (take 4 (Input x))) else None))
     (tree_calls d t)"
proof (induction d t rule: tree_calls.induct)
  case (1 d t)
  then show ?case
    by (subst vm_parseTxTreeUtil.simps, subst tree_calls.simps)
      (simp add: filter_concat_map filter_map o_def vm_parseEvent_def map_concat cong: map_cong)
qed

text \<open>
  Printing a transaction tree loses nothing: its event lines are the events of the tree
  in traversal order, and its call lines are the calls in pre-order, each with its depth.
\<close>

theorem parseTxTree_lines:
  "map (\<lambda>l. case l of EventLine d i \<Rightarrow> (d, i) | _ \<Rightarrow> (0, 0)) (filter is_event_line (vm_parseTxTreeUtil t d)) =
     map (\<lambda>(k, e). (k + 1, ev_Index e)) (tree_events d t) \<and>
   map (\<lambda>l. case l of CallLine d c a s \<Rightarrow> (d, c, a) | _ \<Rightarrow> (0, [], 0)) (filter (\<lambda>l. \<not> is_event_line l) (vm_parseTxTreeUtil t d)) =
     map (\<lambda>(k, x). (k, CallType x, itx_To x)) (tree_calls d t)"
  unfolding parse_tree_events parse_tree_calls by (auto simp: comp_def split: prod.splits)

end
