(* ===== verification/Abi_Decode.thy ===== *)
theory Abi_Decode
  imports Common_Types
begin

text \<open>
  Decoding of ABI-encoded call data and event data: \<open>accounts/abi/unpack.go\<close>, the size and
  dynamism predicates of \<open>type.go\<close>, the argument list of \<open>argument.go\<close> and the lookups of
  \<open>abi.go\<close>. A \<open>Type\<close> is the datatype of its kinds, with the size and the element types the
  kind uses; a decoded value keeps the Go type the decoder returns (\<open>uint8\<close> and
  \<open>*big.Int\<close> are different values for the type assertions of its callers). A tuple type
  carries \<open>TupleRawNames\<close> and \<open>TupleElems\<close>. An error return is a left value.
\<close>

section \<open>Types\<close>

datatype abi_type =
    IntTy nat
  | UintTy nat
  | BoolTy
  | StringTy
  | SliceTy abi_type
  | ArrayTy nat abi_type
  | TupleTy "string list" "abi_type list"
  | AddressTy
  | FixedBytesTy nat
  | BytesTy
  | HashTy
  | FixedPointTy
  | FunctionTy

datatype abi_value =
    VUint nat nat
  | VInt nat int
  | VBig int
  | VBool bool
  | VString bytes
  | VSlice "abi_value list"
  | VArray "abi_value list"
  | VTuple "abi_value list"
  | VAddress Address
  | VFixedBytes bytes
  | VBytes bytes
  | VHash Hash
  | VFunction bytes

datatype abi_error =
    LengthInsufficient
  | OffsetOverBoundary
  | OffsetTooLarge
  | BadBool
  | BadFunctionType
  | UnknownType
  | EmptyData
  | ImproperlyFormatted
  | NotLocated
  | DataTooShort
  | NoMethod
  | SlicePanic

type_synonym 'a abi_res = "abi_error + 'a"

fun requiresLengthPrefix :: "abi_type \<Rightarrow> bool" where
  "requiresLengthPrefix StringTy = True"
| "requiresLengthPrefix BytesTy = True"
| "requiresLengthPrefix (SliceTy _) = True"
| "requiresLengthPrefix _ = False"

fun isDynamicType :: "abi_type \<Rightarrow> bool" where
  "isDynamicType (TupleTy _ elems) = list_ex isDynamicType elems"
| "isDynamicType StringTy = True"
| "isDynamicType BytesTy = True"
| "isDynamicType (SliceTy _) = True"
| "isDynamicType (ArrayTy _ e) = isDynamicType e"
| "isDynamicType _ = False"

fun is_array :: "abi_type \<Rightarrow> bool" where
  "is_array (ArrayTy _ _) = True"
| "is_array _ = False"

fun is_tuple :: "abi_type \<Rightarrow> bool" where
  "is_tuple (TupleTy _ _) = True"
| "is_tuple _ = False"

fun getTypeSize :: "abi_type \<Rightarrow> nat" where
  "getTypeSize (ArrayTy n e) =
     (if \<not> isDynamicType e
      then if is_array e \<or> is_tuple e then n * getTypeSize e else n * 32
      else 32)"
| "getTypeSize (TupleTy names elems) =
     (if \<not> isDynamicType (TupleTy names elems) then sum_list (map getTypeSize elems) else 32)"
| "getTypeSize _ = 32"

section \<open>Words\<close>

definition abi_word :: "bytes \<Rightarrow> nat \<Rightarrow> bytes" where
  "abi_word output index = take 32 (drop index output)"

definition signed_of :: "nat \<Rightarrow> nat \<Rightarrow> int" where
  "signed_of w n = (if n < 2 ^ (w - 1) then int n else int n - 2 ^ w)"

text \<open>
  \<open>ReadInteger\<close> on a 32-byte word. The negation for \<open>int256\<close> is written with
  \<open>MaxUint256\<close>, as in the source.
\<close>

definition ReadInteger :: "abi_type \<Rightarrow> bytes \<Rightarrow> abi_value" where
  "ReadInteger typ b =
     (case typ of
        UintTy sz \<Rightarrow>
          if sz \<in> {8, 16, 32, 64}
          then VUint sz (be_val (drop (length b - sz div 8) b))
          else VBig (int (be_val b))
      | IntTy sz \<Rightarrow>
          if sz \<in> {8, 16, 32, 64}
          then VInt sz (signed_of sz (be_val (drop (length b - sz div 8) b)))
          else let ret = int (be_val b)
               in VBig (if bit ret 255 then - (((2 ^ 256 - 1) + (- ret)) + 1) else ret)
      | _ \<Rightarrow> VBig (int (be_val b)))"

definition readBool :: "bytes \<Rightarrow> bool abi_res" where
  "readBool word =
     (if list_ex (\<lambda>b. b \<noteq> 0) (take 31 word) then Inl BadBool
      else if word ! 31 = 0 then Inr False
      else if word ! 31 = 1 then Inr True
      else Inl BadBool)"

definition readFunctionType :: "bytes \<Rightarrow> bytes abi_res" where
  "readFunctionType word =
     (if be_val (take 8 (drop 24 word)) \<noteq> 0 then Inl BadFunctionType else Inr (take 24 word))"

text \<open>
  \<open>ReadFixedBytes\<close> slices the word to the size of the type. The slice may go past the 32 bytes of the word, up to the
  end of the data it is part of (\<open>rest\<close>, which starts with the word): a \<open>bytes40\<close>, which Solidity does not have but
  \<open>NewType\<close> accepts, is read over its successor. Past the end the slice panics, which is the
  left value \<open>SlicePanic\<close> here; the data is taken to end where its array ends.
\<close>

definition ReadFixedBytes :: "nat \<Rightarrow> bytes \<Rightarrow> bytes abi_res" where
  "ReadFixedBytes n rest = (if n > length rest then Inl SlicePanic else Inr (take n rest))"

definition lengthPrefixPointsTo :: "nat \<Rightarrow> bytes \<Rightarrow> (nat \<times> nat) abi_res" where
  "lengthPrefixPointsTo index output =
     (let bigOffsetEnd = be_val (abi_word output index) + 32
      in if bigOffsetEnd > length output then Inl OffsetOverBoundary
         else if bigOffsetEnd \<ge> 2 ^ 63 then Inl OffsetTooLarge
         else let lengthBig = be_val (abi_word output (bigOffsetEnd - 32));
                  totalSize = bigOffsetEnd + lengthBig
              in if totalSize \<ge> 2 ^ 63 then Inl OffsetTooLarge
                 else if totalSize > length output then Inl LengthInsufficient
                 else Inr (bigOffsetEnd, lengthBig))"

definition tuplePointsTo :: "nat \<Rightarrow> bytes \<Rightarrow> nat abi_res" where
  "tuplePointsTo index output =
     (let offset = be_val (abi_word output index)
      in if offset > length output then Inl OffsetOverBoundary
         else if offset \<ge> 2 ^ 63 then Inl OffsetTooLarge
         else Inr offset)"

section \<open>The decoder\<close>

text \<open>
  \<open>forEachUnpack\<close> checks the range and then decodes the elements one after the other
  (\<open>unpack_elems\<close> is its loop); \<open>forTupleUnpack\<close> is the loop over the fields, with the
  position of the next head slot. \<open>virtualArgs\<close> is signed: an array of length zero counts
  \<open>- 1\<close>, and \<open>index + virtualArgs\<close> is never negative.
\<close>

definition virtualArgs_step :: "abi_type \<Rightarrow> int" where
  "virtualArgs_step t =
     (if (is_array t \<or> is_tuple t) \<and> \<not> isDynamicType t then int (getTypeSize t div 32) - 1 else 0)"

definition tail_begin :: "abi_type \<Rightarrow> nat \<Rightarrow> bytes \<Rightarrow> (nat \<times> nat) abi_res" where
  "tail_begin t index output =
     (if requiresLengthPrefix t then lengthPrefixPointsTo index output else Inr (0, 0))"

function toGoType :: "nat \<Rightarrow> abi_type \<Rightarrow> bytes \<Rightarrow> abi_value abi_res"
  and unpack_elems :: "nat \<Rightarrow> abi_type \<Rightarrow> bytes \<Rightarrow> nat \<Rightarrow> abi_value list abi_res"
  and forTupleUnpack :: "abi_type list \<Rightarrow> bytes \<Rightarrow> nat \<Rightarrow> int \<Rightarrow> abi_value list abi_res" where
  "toGoType index t output =
     (if index + 32 > length output then Inl LengthInsufficient
      else go_bind (tail_begin t index output) (\<lambda>(begin, len).
        let returnOutput = abi_word output index
        in case t of
             TupleTy _ elems \<Rightarrow>
               if isDynamicType t
               then go_bind (tuplePointsTo index output) (\<lambda>begin.
                      go_bind (forTupleUnpack elems (drop begin output) 0 0) (\<lambda>vs. Inr (VTuple vs)))
               else go_bind (forTupleUnpack elems (drop index output) 0 0) (\<lambda>vs. Inr (VTuple vs))
           | SliceTy e \<Rightarrow>
               let output = drop begin output
               in if 32 * len > length output then Inl OffsetOverBoundary
                  else go_bind (unpack_elems 0 e output len) (\<lambda>vs. Inr (VSlice vs))
           | ArrayTy n e \<Rightarrow>
               if isDynamicType e
               then let offset = be_val (drop (length returnOutput - 8) returnOutput)
                    in if offset > length output then Inl OffsetOverBoundary
                       else let output = drop offset output
                            in if 32 * n > length output then Inl OffsetOverBoundary
                               else go_bind (unpack_elems 0 e output n) (\<lambda>vs. Inr (VArray vs))
               else let output = drop index output
                    in if 32 * n > length output then Inl OffsetOverBoundary
                       else go_bind (unpack_elems 0 e output n) (\<lambda>vs. Inr (VArray vs))
           | StringTy \<Rightarrow> Inr (VString (take len (drop begin output)))
           | IntTy _ \<Rightarrow> Inr (ReadInteger t returnOutput)
           | UintTy _ \<Rightarrow> Inr (ReadInteger t returnOutput)
           | BoolTy \<Rightarrow> go_bind (readBool returnOutput) (\<lambda>b. Inr (VBool b))
           | AddressTy \<Rightarrow> Inr (VAddress (BytesToAddress returnOutput))
           | HashTy \<Rightarrow> Inr (VHash (BytesToHash returnOutput))
           | BytesTy \<Rightarrow> Inr (VBytes (take len (drop begin output)))
           | FixedBytesTy n \<Rightarrow> go_bind (ReadFixedBytes n (drop index output)) (\<lambda>b. Inr (VFixedBytes b))
           | FunctionTy \<Rightarrow> go_bind (readFunctionType returnOutput) (\<lambda>f. Inr (VFunction f))
           | FixedPointTy \<Rightarrow> Inl UnknownType))"
| "unpack_elems i e output 0 = Inr []"
| "unpack_elems i e output (Suc j) =
     go_bind (toGoType i e output) (\<lambda>v.
       go_bind (unpack_elems (i + getTypeSize e) e output j) (\<lambda>vs. Inr (v # vs)))"
| "forTupleUnpack [] output index virtualArgs = Inr []"
| "forTupleUnpack (e # es) output index virtualArgs =
     go_bind (toGoType (nat (int index + virtualArgs) * 32) e output) (\<lambda>v.
       go_bind (forTupleUnpack es output (index + 1) (virtualArgs + virtualArgs_step e))
         (\<lambda>vs. Inr (v # vs)))"
  by pat_completeness auto
termination
  by (relation "measures
        [\<lambda>x. case x of Inl (i, t, b) \<Rightarrow> 2 * size t
                 | Inr (Inl (i, e, b, j)) \<Rightarrow> 2 * size e + 1
                 | Inr (Inr (es, b, i, v)) \<Rightarrow> 2 * size_list size es + 1,
         \<lambda>x. case x of Inl _ \<Rightarrow> 0 | Inr (Inl (i, e, b, j)) \<Rightarrow> j | Inr (Inr (es, b, i, v)) \<Rightarrow> length es]")
    auto

declare toGoType.simps [simp del]

section \<open>Arguments, methods and lookups\<close>

record Argument =
  arg_Name :: string
  arg_Type :: abi_type
  Indexed :: bool

definition NonIndexed :: "Argument list \<Rightarrow> Argument list" where
  "NonIndexed arguments = filter (\<lambda>arg. \<not> Indexed arg) arguments"

definition UnpackValues :: "Argument list \<Rightarrow> bytes \<Rightarrow> abi_value list abi_res" where
  "UnpackValues arguments d = forTupleUnpack (map arg_Type (NonIndexed arguments)) d 0 0"

text \<open>
  \<open>Arguments.Unpack\<close>. On empty data it is an error unless there are no arguments at all,
  and then the list of default values is empty too.
\<close>

definition Unpack :: "Argument list \<Rightarrow> bytes \<Rightarrow> abi_value list abi_res" where
  "Unpack arguments d =
     (if d = [] then (if arguments \<noteq> [] then Inl EmptyData else Inr [])
      else UnpackValues arguments d)"

text \<open>\<open>Outputs\<close> of a method and \<open>Inputs\<close> of an event may be \<open>nil\<close> slices (\<open>None\<close>).\<close>

record Method =
  m_Name :: string
  m_ID :: bytes
  m_Inputs :: "Argument list"
  m_Outputs :: "Argument list option"
  StateMutability :: string
  Payable :: bool

record ABI =
  Methods :: "(string, Method) gomap"
  abi_Events :: "(string, Argument list option) gomap"

definition getArguments :: "ABI \<Rightarrow> string \<Rightarrow> bytes \<Rightarrow> Argument list abi_res" where
  "getArguments abi name d =
     go_bind
       (case map_of (Methods abi) name of
          Some m \<Rightarrow> if length d mod 32 \<noteq> 0 then Inl ImproperlyFormatted else Inr (m_Outputs m)
        | None \<Rightarrow> Inr None)
       (\<lambda>args.
          let args = (case map_of (abi_Events abi) name of Some inputs \<Rightarrow> inputs | None \<Rightarrow> args)
          in case args of None \<Rightarrow> Inl NotLocated | Some args \<Rightarrow> Inr args)"

definition ABI_Unpack :: "ABI \<Rightarrow> string \<Rightarrow> bytes \<Rightarrow> abi_value list abi_res" where
  "ABI_Unpack abi name d = go_bind (getArguments abi name d) (\<lambda>args. Unpack args d)"

definition MethodById :: "ABI \<Rightarrow> bytes \<Rightarrow> Method abi_res" where
  "MethodById abi sigdata =
     (if length sigdata < 4 then Inl DataTooShort
      else case find (\<lambda>(_, m). m_ID m = take 4 sigdata) (Methods abi) of
             Some (_, m) \<Rightarrow> Inr m
           | None \<Rightarrow> Inl NoMethod)"

section \<open>What the decoder returns\<close>

text \<open>
  A decoded value has the Go type of its ABI type: integers of 8, 16, 32 and 64 bits within their width, those of any
  other width, which are big integers, within 256 bits, arrays and byte arrays with their length, tuples with a value per
  field.
\<close>

primrec val_ok :: "abi_type \<Rightarrow> abi_value \<Rightarrow> bool" where
  "val_ok (UintTy n) v =
     (case v of VUint m k \<Rightarrow> m = n \<and> n \<in> {8, 16, 32, 64} \<and> k < 2 ^ n
      | VBig i \<Rightarrow> n \<notin> {8, 16, 32, 64} \<and> 0 \<le> i \<and> i < 2 ^ 256 | _ \<Rightarrow> False)"
| "val_ok (IntTy n) v =
     (case v of VInt m k \<Rightarrow> m = n \<and> n \<in> {8, 16, 32, 64} \<and> - (2 ^ (n - 1)) \<le> k \<and> k < 2 ^ (n - 1)
      | VBig i \<Rightarrow> n \<notin> {8, 16, 32, 64} \<and> - (2 ^ 255) \<le> i \<and> i < 2 ^ 255 | _ \<Rightarrow> False)"
| "val_ok BoolTy v = (case v of VBool b \<Rightarrow> True | _ \<Rightarrow> False)"
| "val_ok StringTy v = (case v of VString s \<Rightarrow> True | _ \<Rightarrow> False)"
| "val_ok (SliceTy e) v = (case v of VSlice vs \<Rightarrow> list_all (val_ok e) vs | _ \<Rightarrow> False)"
| "val_ok (ArrayTy n e) v =
     (case v of VArray vs \<Rightarrow> length vs = n \<and> list_all (val_ok e) vs | _ \<Rightarrow> False)"
| "val_ok (TupleTy names es) v =
     (case v of VTuple vs \<Rightarrow> list_all2 (\<lambda>p v. p v) (map val_ok es) vs | _ \<Rightarrow> False)"
| "val_ok AddressTy v = (case v of VAddress a \<Rightarrow> True | _ \<Rightarrow> False)"
| "val_ok (FixedBytesTy n) v = (case v of VFixedBytes b \<Rightarrow> length b = n | _ \<Rightarrow> False)"
| "val_ok BytesTy v = (case v of VBytes b \<Rightarrow> True | _ \<Rightarrow> False)"
| "val_ok HashTy v = (case v of VHash h \<Rightarrow> True | _ \<Rightarrow> False)"
| "val_ok FixedPointTy v = False"
| "val_ok FunctionTy v = (case v of VFunction f \<Rightarrow> length f = 24 | _ \<Rightarrow> False)"

abbreviation vals_ok :: "abi_type list \<Rightarrow> abi_value list \<Rightarrow> bool" where
  "vals_ok es vs \<equiv> list_all2 (\<lambda>p v. p v) (map val_ok es) vs"

lemma length_abi_word: "index + 32 \<le> length output \<Longrightarrow> length (abi_word output index) = 32"
  by (simp add: abi_word_def)

lemma be_val_tail_less: "length b = 32 \<Longrightarrow> k \<le> 32 \<Longrightarrow> be_val (drop (32 - k) b) < 256 ^ k"
  using be_val_less [of "drop (32 - k) b"] by simp

lemma be_val_word_less: "length b = 32 \<Longrightarrow> int (be_val b) < 2 ^ 256"
  using be_val_less [of b] by simp

lemma signed_of_bounds:
  assumes "0 < w" and "n < 2 ^ w"
  shows "- (2 ^ (w - 1)) \<le> signed_of w n" and "signed_of w n < 2 ^ (w - 1)"
proof -
  obtain k where k: "w = Suc k" using assms(1) by (cases w) auto
  have "int n < 2 ^ w" using assms(2) by (metis of_nat_less_iff of_nat_numeral of_nat_power)
  then show "- (2 ^ (w - 1)) \<le> signed_of w n" and "signed_of w n < 2 ^ (w - 1)"
    by (auto simp: signed_of_def k)
qed

text \<open>The \<open>int256\<close> branch computes the two's complement reading of the word.\<close>

lemma bit_255_iff:
  assumes "0 \<le> n" and "n < (2 ^ 256 :: int)"
  shows "bit n 255 \<longleftrightarrow> 2 ^ 255 \<le> n"
proof -
  have "n div 2 ^ 255 < 2" using assms by (simp add: div_less_iff_less_mult)
  moreover have "0 \<le> n div 2 ^ 255" using assms(1) by (simp add: pos_imp_zdiv_nonneg_iff)
  ultimately have "n div 2 ^ 255 = 0 \<or> n div 2 ^ 255 = 1" by linarith
  moreover have "n div 2 ^ 255 = 0 \<longleftrightarrow> n < 2 ^ 255"
    using assms(1) by (auto simp: zdiv_eq_0_iff)
  ultimately show ?thesis by (auto simp: bit_iff_odd)
qed

lemma ReadInteger_ok:
  assumes "length b = 32"
  shows "val_ok (UintTy n) (ReadInteger (UintTy n) b)" and "val_ok (IntTy n) (ReadInteger (IntTy n) b)"
proof -
  note w = be_val_word_less [OF assms]
  have t: "be_val (drop (length b - n div 8) b) < 2 ^ n" if "n \<in> {8, 16, 32, 64}"
    using that be_val_tail_less [OF assms, of "n div 8"] by (auto simp: assms)
  show "val_ok (UintTy n) (ReadInteger (UintTy n) b)"
    using t w by (simp add: ReadInteger_def)
  have "val_ok (IntTy n) (ReadInteger (IntTy n) b)" if n: "n \<in> {8, 16, 32, 64}"
  proof -
    have "0 < n" using n by auto
    from signed_of_bounds [OF this t [OF n]] show ?thesis
      using n unfolding ReadInteger_def by simp
  qed
  moreover have "val_ok (IntTy n) (ReadInteger (IntTy n) b)" if n: "n \<notin> {8, 16, 32, 64}"
    using n w bit_255_iff [of "int (be_val b)"] unfolding ReadInteger_def Let_def by simp
  ultimately show "val_ok (IntTy n) (ReadInteger (IntTy n) b)" by blast
qed

lemma toGoType_ok:
  "toGoType index t outp = Inr v \<Longrightarrow> val_ok t v"
  "unpack_elems i e out' j = Inr vs \<Longrightarrow> length vs = j \<and> list_all (val_ok e) vs"
  "forTupleUnpack es out'' k va = Inr vs' \<Longrightarrow> vals_ok es vs'"
proof (induction index t outp and i e out' j and es out'' k va
    arbitrary: v and vs and vs' rule: toGoType_unpack_elems_forTupleUnpack.induct)
  case (1 index t outp)
  have i: "index + 32 \<le> length outp"
    using "1.prems" by (auto simp: toGoType.simps split: if_splits)
  note l = length_abi_word [OF i]
  from "1.prems" i show ?case using "1.IH"
    by (subst (asm) toGoType.simps, cases t)
      (auto simp: Let_def go_bind_Inr_iff ReadInteger_ok l ReadFixedBytes_def
        readFunctionType_def simp del: val_ok.simps(1,2) split: if_splits)
qed (auto simp: go_bind_Inr_iff)

text \<open>
  A method is found only by its own selector; when no two methods share a selector the
  result does not depend on the order in which the map is ranged over.
\<close>

lemma MethodById_sound:
  assumes "MethodById abi sigdata = Inr m"
  shows "m_ID m = take 4 sigdata" and "m \<in> snd ` set (Methods abi)" and "4 \<le> length sigdata"
  using assms by (auto simp: MethodById_def find_Some_iff split: if_splits option.splits
      intro!: image_eqI [of _ snd] nth_mem)

lemma MethodById_order:
  assumes "set (Methods abi) = set (Methods abi')"
    and "\<And>k m k' m'. (k, m) \<in> set (Methods abi) \<Longrightarrow> (k', m') \<in> set (Methods abi) \<Longrightarrow>
           m_ID m = m_ID m' \<Longrightarrow> m = m'"
  shows "MethodById abi sigdata = MethodById abi' sigdata"
proof -
  let ?P = "\<lambda>(k::string, m). m_ID m = take 4 sigdata"
  have "find ?P (Methods abi) = None \<longleftrightarrow> find ?P (Methods abi') = None"
    using assms(1) by (simp add: find_None_iff)
  moreover have "m = m'" if "find ?P (Methods abi) = Some (k, m)"
    and "find ?P (Methods abi') = Some (k', m')" for k m k' m'
  proof -
    have "(k, m) \<in> set (Methods abi)" "m_ID m = take 4 sigdata"
      and "(k', m') \<in> set (Methods abi)" "m_ID m' = take 4 sigdata"
      using that assms(1) by (auto simp: find_Some_iff) (metis nth_mem)+
    with assms(2) show ?thesis by metis
  qed
  ultimately show ?thesis
    unfolding MethodById_def by (auto split: option.splits)
qed

section \<open>The ERC-20 transfer event\<close>

text \<open>
  The event \<open>Transfer(address indexed, address indexed, uint256)\<close> of \<open>hunter/abi/erc20.json\<close>,
  the only entry of that file the analyses unpack.
\<close>

definition erc20_abi :: ABI where
  "erc20_abi = \<lparr>Methods = [], abi_Events = [(''Transfer'', Some
     [\<lparr>arg_Name = ''from'', arg_Type = AddressTy, Indexed = True\<rparr>,
      \<lparr>arg_Name = ''to'', arg_Type = AddressTy, Indexed = True\<rparr>,
      \<lparr>arg_Name = ''value'', arg_Type = UintTy 256, Indexed = False\<rparr>])]\<rparr>"

lemma erc20_Transfer_Unpack:
  "ABI_Unpack erc20_abi ''Transfer'' d =
     (if d = [] then Inl EmptyData
      else if length d < 32 then Inl LengthInsufficient
      else Inr [VBig (int (be_val (take 32 d)))])"
  by (simp add: ABI_Unpack_def getArguments_def erc20_abi_def Unpack_def UnpackValues_def
      NonIndexed_def toGoType.simps tail_begin_def ReadInteger_def abi_word_def)

text \<open>
  The decoder does not look at the width of a big integer: the comment in \<open>ReadInteger\<close> says that only 256 bits are left
  in that branch, but the widths between reach it too, and a word that is no \<open>uint24\<close> or \<open>int24\<close> is returned as it is.
\<close>

lemma narrow_integers_unchecked:
  "UnpackValues [\<lparr>arg_Name = [], arg_Type = UintTy 24, Indexed = False\<rparr>] (replicate 28 0 @ [1, 0, 0, 0]) = Inr [VBig (2 ^ 24)]"
  "UnpackValues [\<lparr>arg_Name = [], arg_Type = IntTy 24, Indexed = False\<rparr>] (replicate 28 0 @ [1, 0, 0, 0]) = Inr [VBig (2 ^ 24)]"
proof -
  have v: "be_val (replicate n 0 @ [1, 0, 0, 0]) = 2 ^ 24" for n
    by (induction n) (simp_all add: be_val_def)
  have "\<not> bit (2 ^ 24 :: int) 255" by (simp add: bit_iff_odd)
  then show "UnpackValues [\<lparr>arg_Name = [], arg_Type = UintTy 24, Indexed = False\<rparr>] (replicate 28 0 @ [1, 0, 0, 0]) = Inr [VBig (2 ^ 24)]"
    "UnpackValues [\<lparr>arg_Name = [], arg_Type = IntTy 24, Indexed = False\<rparr>] (replicate 28 0 @ [1, 0, 0, 0]) = Inr [VBig (2 ^ 24)]"
    using v [of 28] by (simp_all add: UnpackValues_def NonIndexed_def toGoType.simps tail_begin_def ReadInteger_def abi_word_def Let_def)
qed

text \<open>
  C40: what the decoder returns is well typed: a decoded argument list has a value for every argument that is not indexed,
  of the Go type of its ABI type, whatever the bytes are. An integer of 8, 16, 32 or 64 bits is in the range of its
  type; an integer of another width is a big integer of which only the 256-bit range is known, which is its own
  range for \<open>uint256\<close> and \<open>int256\<close> only, since the decoder does not check the others
  (\<open>narrow_integers_unchecked\<close>). Arrays have the length and tuples the number of fields of their type, \<open>bytesN\<close> has
  \<open>N\<close> bytes. Bytes that do not encode such a list give an error value instead.
\<close>

theorem Unpack_well_typed:
  assumes "UnpackValues arguments d = Inr vs"
  shows "vals_ok (map arg_Type (NonIndexed arguments)) vs"
  using toGoType_ok(3) [of "map arg_Type (NonIndexed arguments)" d 0 0 vs] assms by (simp add: UnpackValues_def)

theorem Unpack_well_typed_witness:
  "UnpackValues [\<lparr>arg_Name = [], arg_Type = UintTy 8, Indexed = False\<rparr>, \<lparr>arg_Name = [], arg_Type = FixedBytesTy 2, Indexed = False\<rparr>]
      (replicate 31 0 @ [7] @ [9, 8] @ replicate 30 0) = Inr [VUint 8 7, VFixedBytes [9, 8]] \<and>
   vals_ok [UintTy 8, FixedBytesTy 2] [VUint 8 7, VFixedBytes [9, 8]]"
proof -
  have "UnpackValues [\<lparr>arg_Name = [], arg_Type = UintTy 8, Indexed = False\<rparr>, \<lparr>arg_Name = [], arg_Type = FixedBytesTy 2, Indexed = False\<rparr>]
      (replicate 31 0 @ [7] @ [9, 8] @ replicate 30 0) = Inr [VUint 8 7, VFixedBytes [9, 8]]"
    by code_simp
  with Unpack_well_typed [OF this] show ?thesis by (simp add: NonIndexed_def)
qed

text \<open>
  A method is found only by its own four-byte selector, and when no two methods share
  a selector the one found does not depend on the order in which the method map is ranged over.
\<close>

theorem MethodById_unique:
  assumes "set (Methods abi) = set (Methods abi')"
    and "\<forall>(k, m) \<in> set (Methods abi). \<forall>(k', m') \<in> set (Methods abi). m_ID m = m_ID m' \<longrightarrow> m = m'"
    and "MethodById abi sigdata = Inr m"
  shows "m_ID m = take 4 sigdata \<and> m \<in> snd ` set (Methods abi) \<and> MethodById abi' sigdata = Inr m"
proof -
  have "MethodById abi sigdata = MethodById abi' sigdata"
    using assms(2) by (intro MethodById_order [OF assms(1)]) fastforce
  with assms(3) MethodById_sound [OF assms(3)] show ?thesis by auto
qed

definition sample_method :: "bytes \<Rightarrow> Method" where
  "sample_method sel = \<lparr>m_Name = ''m'', m_ID = sel, m_Inputs = [], m_Outputs = None, StateMutability = [], Payable = False\<rparr>"

theorem MethodById_unique_witness:
  "MethodById \<lparr>Methods = [(''b'', sample_method [5, 6, 7, 8]), (''a'', sample_method [1, 2, 3, 4])], abi_Events = []\<rparr> [1, 2, 3, 4]
     = Inr (sample_method [1, 2, 3, 4])"
  by (rule MethodById_unique [of "\<lparr>Methods = [(''a'', sample_method [1, 2, 3, 4]), (''b'', sample_method [5, 6, 7, 8])], abi_Events = []\<rparr>",
        THEN conjunct2, THEN conjunct2])
    (auto simp: MethodById_def sample_method_def)

end
