(* ===== verification/Go_Float.thy ===== *)
theory Go_Float
  imports Complex_Main "HOL-Library.Log_Nat" Go_Prelude
begin

text \<open>
  The arithmetic of \<open>math/big.Float\<close> and \<open>float64\<close> as the detector uses it. A \<open>big.Float\<close>
  is a value together with a precision in bits; every operation computes the exact result
  and rounds it to the precision of its receiver, to nearest, ties to even (the default
  rounding mode). Values are exact rationals, so the definitions compute. Infinities of
  \<open>big.Float\<close> (an exponent beyond 2 to the 31) are out of reach of the quantities involved
  and are not represented; the signs of zeros are not represented either, since no
  comparison distinguishes them.
\<close>

section \<open>Rounding\<close>

definition round_even :: "rat \<Rightarrow> int" where
  "round_even q =
     (let f = \<lfloor>q\<rfloor>; d = q - of_int f
      in if d < 1/2 then f else if d > 1/2 then f + 1 else if even f then f else f + 1)"

definition rat_exp :: "rat \<Rightarrow> int" where
  "rat_exp q =
     (case quotient_of q of (a, b) \<Rightarrow>
        (let k = bitlen \<bar>a\<bar> - bitlen b in if 2 powi k \<le> \<bar>q\<bar> then k else k - 1))"

definition round_at :: "int \<Rightarrow> rat \<Rightarrow> rat" where
  "round_at e q = of_int (round_even (q / 2 powi e)) * 2 powi e"

definition round_prec :: "nat \<Rightarrow> rat \<Rightarrow> rat" where
  "round_prec p q = (if p = 0 \<or> q = 0 then 0 else round_at (rat_exp q - int p + 1) q)"

lemma round_even_of_int [simp]: "round_even (of_int n) = n"
  by (simp add: round_even_def)

lemma round_even_cases:
  obtains "round_even q = \<lfloor>q\<rfloor>" "q - of_int \<lfloor>q\<rfloor> \<le> 1/2"
  | "round_even q = \<lfloor>q\<rfloor> + 1" "1/2 \<le> q - of_int \<lfloor>q\<rfloor>"
  unfolding round_even_def Let_def by (metis linorder_le_less_linear order_less_imp_le)

lemma round_even_err: "\<bar>of_int (round_even q) - q\<bar> \<le> 1/2"
  by (rule round_even_cases [of q]) (use floor_correct [of q] in auto)

lemma round_even_mono: "x \<le> y \<Longrightarrow> round_even x \<le> round_even y"
proof -
  assume le: "x \<le> y"
  consider "\<lfloor>x\<rfloor> = \<lfloor>y\<rfloor>" | "\<lfloor>x\<rfloor> < \<lfloor>y\<rfloor>"
    using floor_mono [OF le] by linarith
  then show ?thesis
  proof cases
    case 1
    with le show ?thesis by (auto simp: round_even_def Let_def)
  next
    case 2
    have "round_even x \<le> \<lfloor>x\<rfloor> + 1" and "\<lfloor>y\<rfloor> \<le> round_even y"
      by (auto simp: round_even_def Let_def)
    with 2 show ?thesis by linarith
  qed
qed

lemma round_even_between:
  "of_int a \<le> q \<Longrightarrow> q \<le> of_int b \<Longrightarrow> a \<le> round_even q \<and> round_even q \<le> b"
  using round_even_mono [of "of_int a" q] round_even_mono [of q "of_int b"] by simp

lemma powi_pos [simp]: "(0::rat) < 2 powi k"
  by simp

lemma powi_less_iff: "(2::rat) powi a < 2 powi b \<longleftrightarrow> a < b"
proof
  assume "a < b"
  then show "(2::rat) powi a < 2 powi b" by (intro power_int_strict_increasing) auto
next
  assume lt: "(2::rat) powi a < 2 powi b"
  have "(2::rat) powi b \<le> 2 powi a" if "b \<le> a"
    using that by (intro power_int_increasing) auto
  with lt show "a < b" by (meson linorder_not_less)
qed

lemma powi_le_iff: "(2::rat) powi a \<le> 2 powi b \<longleftrightarrow> a \<le> b"
  using powi_less_iff [of b a] by (simp add: linorder_not_less [symmetric])

lemma powi_diff: "(2::rat) powi (a - b) = 2 powi a / 2 powi b"
  by (simp add: power_int_diff)

lemma bitlen_bounds_rat:
  assumes "0 < a"
  shows "(2::rat) powi (bitlen a - 1) \<le> of_int a" and "of_int a < (2::rat) powi (bitlen a)"
proof -
  from bitlen_bounds [OF assms] have
    b: "2 ^ nat (bitlen a - 1) \<le> a" "a < 2 ^ nat (bitlen a)" by auto
  have pos: "0 < bitlen a"
    using assms bitlen_nonneg [of a] bitlen_eq_zero_iff [of a] by linarith
  have "(of_int (2 ^ nat (bitlen a - 1)) :: rat) \<le> of_int a"
    and "of_int a < (of_int (2 ^ nat (bitlen a)) :: rat)"
    using b by (simp_all only: of_int_le_iff of_int_less_iff)
  then show "(2::rat) powi (bitlen a - 1) \<le> of_int a" and "of_int a < (2::rat) powi (bitlen a)"
    using pos by (simp_all add: power_int_def)
qed

lemma rat_exp_bounds:
  assumes "q \<noteq> 0"
  shows "2 powi rat_exp q \<le> \<bar>q\<bar>" and "\<bar>q\<bar> < 2 powi (rat_exp q + 1)"
proof -
  obtain a b where ab: "quotient_of q = (a, b)" by (cases "quotient_of q")
  have b: "0 < b" by (rule quotient_of_denom_pos [OF ab])
  have q: "q = of_int a / of_int b" by (rule quotient_of_div [OF ab])
  have a: "0 < \<bar>a\<bar>" using assms q by auto
  let ?k = "bitlen \<bar>a\<bar> - bitlen b"
  have qa: "\<bar>q\<bar> = of_int \<bar>a\<bar> / of_int b" unfolding q using b by simp
  note A = bitlen_bounds_rat [OF a] and B = bitlen_bounds_rat [OF b]
  have "\<bar>q\<bar> < 2 powi (bitlen \<bar>a\<bar>) / 2 powi (bitlen b - 1)"
    unfolding qa using A B by (intro frac_less) auto
  then have hi: "\<bar>q\<bar> < 2 powi (?k + 1)"
    by (simp add: powi_diff [symmetric] algebra_simps)
  have "2 powi (bitlen \<bar>a\<bar> - 1) / 2 powi (bitlen b) < \<bar>q\<bar>"
    unfolding qa using A B b by (intro frac_less2) auto
  then have lo: "2 powi (?k - 1) \<le> \<bar>q\<bar>"
    by (simp add: powi_diff [symmetric] algebra_simps)
  show "2 powi rat_exp q \<le> \<bar>q\<bar>" and "\<bar>q\<bar> < 2 powi (rat_exp q + 1)"
    using hi lo by (auto simp: rat_exp_def ab Let_def)
qed

lemma rat_exp_mono:
  assumes "x \<noteq> 0" and "\<bar>x\<bar> \<le> \<bar>y\<bar>"
  shows "rat_exp x \<le> rat_exp y"
proof -
  from assms have "y \<noteq> 0" by auto
  have "(2::rat) powi rat_exp x < 2 powi (rat_exp y + 1)"
    using rat_exp_bounds(1) [OF assms(1)] rat_exp_bounds(2) [OF \<open>y \<noteq> 0\<close>] assms(2) by linarith
  then show ?thesis by (simp add: powi_less_iff)
qed

lemma round_at_mono: "x \<le> y \<Longrightarrow> round_at e x \<le> round_at e y"
  by (simp add: round_at_def round_even_mono divide_right_mono)

lemma round_at_exact: "round_at e (of_int m * 2 powi e) = of_int m * 2 powi e"
  by (simp add: round_at_def)

lemma round_at_powi:
  assumes "e \<le> k"
  shows "round_at e (2 powi k) = 2 powi k"
proof -
  have "(2::rat) powi k = 2 powi (k - e) * 2 powi e" by (simp add: powi_diff)
  also have "(2::rat) powi (k - e) = of_int (2 ^ nat (k - e))"
    using assms by (simp add: power_int_def)
  finally have "(2::rat) powi k = of_int (2 ^ nat (k - e)) * 2 powi e" .
  then show ?thesis by (metis round_at_exact)
qed

lemma round_at_err: "\<bar>round_at e q - q\<bar> \<le> 2 powi e / 2"
proof -
  let ?n = "round_even (q / 2 powi e)"
  have "\<bar>of_int ?n - q / 2 powi e\<bar> * 2 powi e \<le> 1/2 * 2 powi e"
    by (rule mult_right_mono [OF round_even_err]) simp
  moreover have "\<bar>of_int ?n - q / 2 powi e\<bar> * 2 powi e = \<bar>(of_int ?n - q / 2 powi e) * 2 powi e\<bar>"
    by (simp add: abs_mult)
  moreover have "(of_int ?n - q / 2 powi e) * 2 powi e = round_at e q - q"
    by (simp add: round_at_def left_diff_distrib)
  ultimately show ?thesis by simp
qed

lemma round_prec_zero [simp]: "round_prec p 0 = 0" "round_prec 0 q = 0"
  by (simp_all add: round_prec_def)

lemma round_prec_pow_bounds:
  assumes "0 < p" and "0 < q"
  shows "2 powi rat_exp q \<le> round_prec p q" and "round_prec p q \<le> 2 powi (rat_exp q + 1)"
proof -
  let ?e = "rat_exp q - int p + 1"
  have "2 powi rat_exp q \<le> q" and "q \<le> 2 powi (rat_exp q + 1)"
    using rat_exp_bounds [of q] assms(2) by auto
  then have "round_at ?e (2 powi rat_exp q) \<le> round_at ?e q"
    and "round_at ?e q \<le> round_at ?e (2 powi (rat_exp q + 1))"
    by (auto intro: round_at_mono)
  then show "2 powi rat_exp q \<le> round_prec p q" and "round_prec p q \<le> 2 powi (rat_exp q + 1)"
    using assms by (simp_all add: round_prec_def round_at_powi)
qed

lemma round_prec_pos: "0 < p \<Longrightarrow> 0 < q \<Longrightarrow> 0 < round_prec p q"
  using round_prec_pow_bounds(1) [of p q] powi_pos [of "rat_exp q"] by linarith

lemma round_prec_mono:
  assumes "0 \<le> x" and "x \<le> y"
  shows "round_prec p x \<le> round_prec p y"
proof (cases "p = 0 \<or> x = 0")
  case True
  with assms show ?thesis by (cases "p = 0"; cases "y = 0") (auto dest: round_prec_pos [of p y])
next
  case False
  with assms have x: "0 < x" and y: "0 < y" and p: "0 < p" by auto
  from rat_exp_mono [of x y] assms x have "rat_exp x \<le> rat_exp y" by simp
  then consider "rat_exp x = rat_exp y" | "rat_exp x + 1 \<le> rat_exp y" by linarith
  then show ?thesis
  proof cases
    case 1
    with assms x y show ?thesis by (simp add: round_prec_def round_at_mono)
  next
    case 2
    have "round_prec p x \<le> 2 powi (rat_exp x + 1)" using round_prec_pow_bounds(2) [OF p x] .
    also have "\<dots> \<le> 2 powi rat_exp y" using 2 by (simp add: powi_le_iff)
    also have "\<dots> \<le> round_prec p y" using round_prec_pow_bounds(1) [OF p y] .
    finally show ?thesis .
  qed
qed

lemma round_prec_exact:
  assumes "q = of_int m * 2 powi e" and "\<bar>m\<bar> < 2 ^ p"
  shows "round_prec p q = q"
proof (cases "q = 0 \<or> p = 0")
  case True
  with assms show ?thesis by (cases "p = 0") auto
next
  case False
  have "(of_int \<bar>m\<bar> :: rat) < of_int (2 ^ p)" using assms(2) by (simp only: of_int_less_iff)
  then have "\<bar>q\<bar> < 2 powi (e + int p)"
    using assms(1) by (simp add: abs_mult power_int_add mult.commute)
  with rat_exp_bounds(1) [of q] False have "(2::rat) powi rat_exp q < 2 powi (e + int p)" by linarith
  then have le: "rat_exp q - int p + 1 \<le> e" by (simp add: powi_less_iff)
  let ?e = "rat_exp q - int p + 1"
  have "(2::rat) powi e = 2 powi (e - ?e) * 2 powi ?e"
    by (simp add: powi_diff)
  moreover have "(2::rat) powi (e - ?e) = of_int (2 ^ nat (e - ?e))"
    using le by (simp add: power_int_def)
  ultimately have "q = of_int (m * 2 ^ nat (e - ?e)) * 2 powi ?e"
    unfolding assms(1) by (simp only: of_int_mult mult.assoc)
  then have "round_at ?e q = q" by (metis round_at_exact)
  with False show ?thesis by (simp add: round_prec_def)
qed

corollary round_prec_int_exact: "\<bar>n\<bar> < 2 ^ p \<Longrightarrow> round_prec p (of_int n) = of_int n"
  by (rule round_prec_exact [where e = 0]) auto

lemma round_prec_err:
  assumes "0 < p"
  shows "\<bar>round_prec p q - q\<bar> \<le> \<bar>q\<bar> / 2 ^ p"
proof (cases "q = 0")
  case False
  have e: "(2::rat) powi (rat_exp q - int p + 1) / 2 = 2 powi rat_exp q / 2 ^ p"
    by (simp add: power_int_add power_int_diff)
  have "\<bar>round_prec p q - q\<bar> \<le> 2 powi (rat_exp q - int p + 1) / 2"
    using False assms round_at_err by (simp add: round_prec_def)
  also have "\<dots> \<le> \<bar>q\<bar> / 2 ^ p"
    unfolding e using rat_exp_bounds(1) [OF False] by (intro divide_right_mono) auto
  finally show ?thesis .
qed simp

lemma round_at_le_powi: "q \<le> 2 powi k \<Longrightarrow> e \<le> k \<Longrightarrow> round_at e q \<le> 2 powi k"
  using round_at_mono [of q "2 powi k" e] round_at_powi by simp

lemma powi_le_round_at: "2 powi k \<le> q \<Longrightarrow> e \<le> k \<Longrightarrow> 2 powi k \<le> round_at e q"
  using round_at_mono [of "2 powi k" q e] round_at_powi by simp

text \<open>
  What the totals of the detector need of a rounding function, and what follows for sums
  accumulated with it: integer sums below the precision are exact, and in general every
  addition costs a relative error of one unit in the last place.
\<close>

locale rounding =
  fixes rnd :: "nat \<Rightarrow> rat \<Rightarrow> rat"
  assumes rnd_zero: "rnd p 0 = 0"
    and rnd_mono: "0 \<le> x \<Longrightarrow> x \<le> y \<Longrightarrow> rnd p x \<le> rnd p y"
    and rnd_int: "\<bar>n\<bar> < 2 ^ p \<Longrightarrow> rnd p (of_int n) = of_int n"
    and rnd_err: "0 < p \<Longrightarrow> \<bar>rnd p x - x\<bar> \<le> \<bar>x\<bar> / 2 ^ p"
begin

lemma rnd_nonneg: "0 \<le> x \<Longrightarrow> 0 \<le> rnd p x"
  using rnd_mono [of 0 x p] by (simp add: rnd_zero)

lemma rnd_int_at_least:
  assumes "\<bar>n\<bar> < 2 ^ k" and "k \<le> p"
  shows "rnd p (of_int n) = of_int n"
proof (rule rnd_int)
  have "(2::int) ^ k \<le> 2 ^ p" using assms(2) by simp
  with assms(1) show "\<bar>n\<bar> < 2 ^ p" by linarith
qed

text \<open>Adding a non-negative amount never makes an exactly represented total smaller.\<close>

lemma rnd_add_ge: "0 \<le> x \<Longrightarrow> rnd p x = x \<Longrightarrow> 0 \<le> a \<Longrightarrow> x \<le> rnd p (x + a)"
  using rnd_mono [of x "x + a" p] by simp

lemma rnd_bounds:
  assumes "0 \<le> x" and "k \<le> p" and "0 < k"
  shows "x * (1 - 1 / 2 ^ k) \<le> rnd p x" and "rnd p x \<le> x * (1 + 1 / 2 ^ k)"
proof -
  have "(2::rat) ^ k \<le> 2 ^ p" using assms(2) by simp
  then have "x / 2 ^ p \<le> x / 2 ^ k" using assms(1) by (intro divide_left_mono) auto
  with rnd_err [of p x] assms have "\<bar>rnd p x - x\<bar> \<le> x / 2 ^ k" by simp
  then show "x * (1 - 1 / 2 ^ k) \<le> rnd p x" and "rnd p x \<le> x * (1 + 1 / 2 ^ k)"
    by (auto simp: algebra_simps)
qed

text \<open>A running total over a list of precisions and amounts.\<close>

lemma fold_rnd_exact:
  assumes "\<forall>(p, a) \<in> set pas. k \<le> p \<and> 0 \<le> a" and "0 \<le> n"
    and "n + sum_list (map snd pas) < 2 ^ k"
  shows "fold (\<lambda>(p, a) t. rnd p (t + of_int a)) pas (of_int n) = of_int (n + sum_list (map snd pas))"
  using assms
proof (induction pas arbitrary: n)
  case (Cons pa pas)
  obtain p a where pa: "pa = (p, a)" by (cases pa)
  have "0 \<le> sum_list (map snd pas)"
    using Cons.prems(1) by (intro sum_list_nonneg) auto
  then have "rnd p (of_int (n + a)) = of_int (n + a)"
    using Cons.prems pa by (intro rnd_int_at_least [of _ k]) auto
  then show ?case
    using Cons.prems pa Cons.IH [of "n + a"] by (simp add: algebra_simps)
qed simp

end

interpretation prec_round: rounding round_prec
  by unfold_locales (auto intro: round_prec_mono round_prec_int_exact round_prec_err)

section \<open>big.Float\<close>

record big_float =
  fl_prec :: nat
  fl_val :: rat

definition fl_new :: big_float where
  "fl_new = \<lparr>fl_prec = 0, fl_val = 0\<rparr>"

text \<open>
  An operation \<open>z.Op(x, y)\<close> takes the receiver's precision, or the larger precision of its
  arguments when the receiver has none.
\<close>

definition recv_prec :: "big_float \<Rightarrow> big_float \<Rightarrow> big_float \<Rightarrow> nat" where
  "recv_prec z x y = (if fl_prec z = 0 then max (fl_prec x) (fl_prec y) else fl_prec z)"

definition Float_Add :: "big_float \<Rightarrow> big_float \<Rightarrow> big_float \<Rightarrow> big_float" where
  "Float_Add z x y = (let p = recv_prec z x y in
     \<lparr>fl_prec = p, fl_val = round_prec p (fl_val x + fl_val y)\<rparr>)"

definition Float_Sub :: "big_float \<Rightarrow> big_float \<Rightarrow> big_float \<Rightarrow> big_float" where
  "Float_Sub z x y = (let p = recv_prec z x y in
     \<lparr>fl_prec = p, fl_val = round_prec p (fl_val x - fl_val y)\<rparr>)"

definition Float_Mul :: "big_float \<Rightarrow> big_float \<Rightarrow> big_float \<Rightarrow> big_float" where
  "Float_Mul z x y = (let p = recv_prec z x y in
     \<lparr>fl_prec = p, fl_val = round_prec p (fl_val x * fl_val y)\<rparr>)"

text \<open>Division; every caller divides by a value it has compared positive.\<close>

definition Float_Quo :: "big_float \<Rightarrow> big_float \<Rightarrow> big_float \<Rightarrow> big_float" where
  "Float_Quo z x y = (let p = recv_prec z x y in
     \<lparr>fl_prec = p, fl_val = round_prec p (fl_val x / fl_val y)\<rparr>)"

definition SetInt :: "int \<Rightarrow> big_float" where
  "SetInt n = \<lparr>fl_prec = max (nat (bitlen \<bar>n\<bar>)) 64, fl_val = of_int n\<rparr>"

definition SetInt64 :: "int \<Rightarrow> big_float" where
  "SetInt64 n = \<lparr>fl_prec = 64, fl_val = of_int n\<rparr>"

definition NewFloat :: "rat \<Rightarrow> big_float" where
  "NewFloat q = \<lparr>fl_prec = 53, fl_val = q\<rparr>"

definition Float_Cmp :: "big_float \<Rightarrow> big_float \<Rightarrow> int" where
  "Float_Cmp x y =
     (if fl_val x < fl_val y then -1 else if fl_val x > fl_val y then 1 else 0)"

lemma Float_Cmp_simps [simp]:
  "Float_Cmp x y = 1 \<longleftrightarrow> fl_val y < fl_val x"
  "Float_Cmp x y = -1 \<longleftrightarrow> fl_val x < fl_val y"
  "Float_Cmp x y = 0 \<longleftrightarrow> fl_val x = fl_val y"
  by (auto simp: Float_Cmp_def)

lemmas fl_defs = Float_Add_def Float_Sub_def Float_Mul_def Float_Quo_def recv_prec_def Let_def
  SetInt_def SetInt64_def NewFloat_def fl_new_def

lemma fl_val_simps [simp]:
  "fl_val fl_new = 0" "fl_val (SetInt n) = of_int n" "fl_val (SetInt64 n) = of_int n"
  "fl_val (NewFloat q) = q" "fl_prec fl_new = 0" "64 \<le> fl_prec (SetInt n)"
  "fl_prec (SetInt64 n) = 64" "fl_prec (NewFloat q) = 53"
  by (simp_all add: fl_defs)

text \<open>
  A representable number: it is its own rounding. Everything an operation returns is
  representable, so copying with \<open>new(big.Float).Add(x, new(big.Float))\<close> changes nothing.
\<close>

definition fl_rep :: "big_float \<Rightarrow> bool" where
  "fl_rep x \<longleftrightarrow> round_prec (fl_prec x) (fl_val x) = fl_val x"

definition fl_copy :: "big_float \<Rightarrow> big_float" where
  "fl_copy x = Float_Add fl_new x fl_new"

lemma abs_signed:
  fixes n :: int
  assumes "\<bar>n\<bar> = m * 2"
  shows "\<exists>s. \<bar>s\<bar> = 1 \<and> n = s * m * 2"
proof (cases "n < 0")
  case True
  then show ?thesis using assms by (intro exI [of _ "-1"]) simp
next
  case False
  then show ?thesis using assms by (intro exI [of _ 1]) simp
qed

lemma round_prec_idem: "round_prec p (round_prec p q) = round_prec p q"
proof (cases "p = 0 \<or> q = 0")
  case False
  let ?e = "rat_exp q - int p + 1"
  let ?n = "round_even (q / 2 powi ?e)"
  have r: "round_prec p q = of_int ?n * 2 powi ?e"
    using False by (simp add: round_prec_def round_at_def)
  have "\<bar>q / 2 powi ?e\<bar> \<le> of_int (2 ^ p)"
  proof -
    have "\<bar>q\<bar> \<le> 2 powi (rat_exp q + 1)" using rat_exp_bounds(2) [of q] False by simp
    also have "\<dots> = 2 ^ p * 2 powi ?e"
      using power_int_add [of "2::rat" "int p" ?e] by simp
    finally show ?thesis by (simp add: divide_le_eq)
  qed
  then have "of_int (- (2 ^ p)) \<le> q / 2 powi ?e" and "q / 2 powi ?e \<le> of_int (2 ^ p)"
    unfolding of_int_minus by linarith+
  from round_even_between [OF this] have n: "\<bar>?n\<bar> \<le> 2 ^ p" by linarith
  show ?thesis
  proof (cases "\<bar>?n\<bar> < 2 ^ p")
    case True
    then show ?thesis using r by (intro round_prec_exact)
  next
    case no: False
    obtain k where k: "p = Suc k" using False by (cases p) auto
    have "\<bar>?n\<bar> = 2 ^ k * 2" using no n by (simp add: k)
    from abs_signed [OF this] obtain s :: int where s: "\<bar>s\<bar> = 1" and ns: "?n = s * 2 ^ k * 2"
      by blast
    define e where "e = ?e"
    have "round_prec p q = of_int (s * 2 ^ k * 2) * 2 powi e"
      unfolding r ns e_def ..
    also have "\<dots> = of_int (s * 2 ^ k) * 2 powi (e + 1)"
      by (simp add: power_int_add_1)
    finally show ?thesis
    proof (rule round_prec_exact)
      show "\<bar>s * 2 ^ k\<bar> < 2 ^ p" using s by (simp add: k abs_mult)
    qed
  qed
qed auto

lemma fl_rep_ops [simp, intro]:
  "fl_rep (Float_Add z x y)" "fl_rep (Float_Sub z x y)"
  "fl_rep (Float_Mul z x y)" "fl_rep (Float_Quo z x y)" "fl_rep fl_new"
  by (simp_all add: fl_rep_def fl_defs round_prec_idem)

lemma bitlen_bound: "\<bar>n\<bar> < 2 ^ nat (bitlen \<bar>n\<bar>)"
  using bitlen_bounds [of "\<bar>n\<bar>"] by (cases "n = 0") auto

lemma fl_rep_SetInt [simp, intro]: "fl_rep (SetInt n)"
  using prec_round.rnd_int_at_least [OF bitlen_bound [of n], of "max (nat (bitlen \<bar>n\<bar>)) 64"]
  by (simp add: fl_rep_def SetInt_def)

lemma fl_copy_id [simp]: "fl_rep x \<Longrightarrow> fl_copy x = x"
  by (simp add: fl_copy_def fl_rep_def fl_defs)

lemma fl_rep_copy [simp, intro]: "fl_rep (fl_copy x)"
  by (simp add: fl_copy_def)

lemma Float_Add_nonneg [simp]:
  "0 \<le> fl_val x \<Longrightarrow> 0 \<le> fl_val y \<Longrightarrow> 0 \<le> fl_val (Float_Add z x y)"
  by (simp add: fl_defs prec_round.rnd_nonneg)

lemma Float_Mul_nonneg [simp]:
  "0 \<le> fl_val x \<Longrightarrow> 0 \<le> fl_val y \<Longrightarrow> 0 \<le> fl_val (Float_Mul z x y)"
  by (simp add: fl_defs prec_round.rnd_nonneg)

text \<open>Adding a non-negative amount to a total into a fresh float never decreases the total.\<close>

lemma fl_rep_at_least:
  assumes "fl_rep x" and "fl_prec x \<le> p" and "0 \<le> fl_val x"
  shows "round_prec p (fl_val x) = fl_val x"
proof (cases "fl_prec x = 0 \<or> fl_val x = 0")
  case True
  with assms show ?thesis by (auto simp: fl_rep_def)
next
  case False
  let ?q = "fl_val x" and ?k = "fl_prec x"
  let ?e = "rat_exp ?q - int ?k + 1"
  have q: "?q = of_int (round_even (?q / 2 powi ?e)) * 2 powi ?e"
    using False assms(1) by (simp add: fl_rep_def round_prec_def round_at_def)
  have "?q < 2 powi (rat_exp ?q + 1)" using rat_exp_bounds(2) [of ?q] False by simp
  also have "\<dots> = 2 ^ ?k * 2 powi ?e"
    using power_int_add [of "2::rat" "int ?k" ?e] by simp
  finally have "of_int (round_even (?q / 2 powi ?e)) * 2 powi ?e < 2 ^ ?k * (2::rat) powi ?e"
    using q by simp
  then have "of_int (round_even (?q / 2 powi ?e)) < (of_int (2 ^ ?k) :: rat)"
    by (simp add: mult_less_cancel_right)
  then have "round_even (?q / 2 powi ?e) < 2 ^ ?k" by (simp only: of_int_less_iff)
  moreover have "0 \<le> round_even (?q / 2 powi ?e)"
    using round_even_mono [of 0 "?q / 2 powi ?e"] assms(3) round_even_of_int [of 0] by simp
  moreover have "(2::int) ^ ?k \<le> 2 ^ p" using assms(2) by simp
  ultimately have "\<bar>round_even (?q / 2 powi ?e)\<bar> < 2 ^ p" by linarith
  with q show ?thesis by (rule round_prec_exact)
qed

lemma Float_Add_fresh_ge:
  assumes "fl_rep x" and "0 \<le> fl_val x" and "0 \<le> fl_val y"
  shows "fl_val x \<le> fl_val (Float_Add fl_new x y)"
  using assms fl_rep_at_least [of x "max (fl_prec x) (fl_prec y)"]
    prec_round.rnd_add_ge [of "fl_val x" "max (fl_prec x) (fl_prec y)" "fl_val y"]
  by (simp add: fl_defs)

section \<open>float64\<close>

datatype float64 = F64 rat | F64Inf bool | F64NaN

definition to_float64 :: "rat \<Rightarrow> float64" where
  "to_float64 q =
     (if q = 0 then F64 0
      else let r = round_at (max (rat_exp q - 52) (-1074)) q
           in if 2 ^ 1024 \<le> \<bar>r\<bar> then F64Inf (0 < q) else F64 r)"

definition Float_Float64 :: "big_float \<Rightarrow> float64" where
  "Float_Float64 x = to_float64 (fl_val x)"

fun f64_le :: "float64 \<Rightarrow> float64 \<Rightarrow> bool" where
  "f64_le F64NaN y = False"
| "f64_le x F64NaN = False"
| "f64_le (F64 a) (F64 b) = (a \<le> b)"
| "f64_le (F64Inf s) (F64 b) = (\<not> s)"
| "f64_le (F64 a) (F64Inf t) = t"
| "f64_le (F64Inf s) (F64Inf t) = (s \<longrightarrow> t)"

definition f64_less :: "float64 \<Rightarrow> float64 \<Rightarrow> bool" where
  "f64_less x y \<longleftrightarrow> f64_le x y \<and> \<not> f64_le y x"

lemma round64_mono:
  assumes "0 < x" and "x \<le> y"
  shows "round_at (max (rat_exp x - 52) (-1074)) x \<le> round_at (max (rat_exp y - 52) (-1074)) y"
    (is "round_at ?ex x \<le> round_at ?ey y")
proof (cases "?ex = ?ey")
  case True
  with assms show ?thesis by (simp add: round_at_mono)
next
  case False
  have le: "rat_exp x \<le> rat_exp y" using assms by (intro rat_exp_mono) auto
  with False have lt: "rat_exp x + 1 \<le> rat_exp y" and ey: "?ey \<le> rat_exp y" by auto
  have "x \<le> 2 powi (rat_exp x + 1)" using rat_exp_bounds(2) [of x] assms by simp
  also have "\<dots> \<le> 2 powi rat_exp y" using lt by (simp add: powi_le_iff)
  finally have "round_at ?ex x \<le> 2 powi rat_exp y"
    using le ey by (intro round_at_le_powi) auto
  also have "\<dots> \<le> round_at ?ey y"
    using rat_exp_bounds(1) [of y] assms ey by (intro powi_le_round_at) auto
  finally show ?thesis .
qed

lemma round_at_nonneg: "0 \<le> q \<Longrightarrow> 0 \<le> round_at e q"
  using round_at_mono [of 0 q e] round_at_exact [of e 0] by simp

lemma to_float64_mono:
  assumes "0 \<le> x" and "x \<le> y"
  shows "f64_le (to_float64 x) (to_float64 y)"
proof (cases "x = 0")
  case True
  have "0 \<le> round_at (max (rat_exp y - 52) (-1074)) y"
    using assms by (intro round_at_nonneg) auto
  with True assms show ?thesis by (auto simp: to_float64_def Let_def)
next
  case False
  with assms have x: "0 < x" and y: "0 < y" by auto
  note m = round64_mono [OF x assms(2)]
  have "0 \<le> round_at (max (rat_exp x - 52) (-1074)) x"
    using x by (intro round_at_nonneg) auto
  with m x y show ?thesis by (auto simp: to_float64_def Let_def)
qed

lemma f64_le_trans: "f64_le x y \<Longrightarrow> f64_le y z \<Longrightarrow> f64_le x z"
  by (cases x; cases y; cases z) auto

text \<open>
  A rate between 1 and 4 with 53 significant bits is a threshold that neither the division
  nor the conversion of a quotient to \<open>float64\<close> can move a value across.
\<close>

definition rate64 :: "rat \<Rightarrow> bool" where
  "rate64 c \<longleftrightarrow> (\<exists>m e. c = of_int m * 2 powi e \<and> \<bar>m\<bar> < 2 ^ 53) \<and> 1 \<le> c \<and> c \<le> 4"

lemma rate64_float: "rate64 c \<Longrightarrow> to_float64 c = F64 c"
proof -
  assume c: "rate64 c"
  then obtain m e where m: "c = of_int m * 2 powi e" "\<bar>m\<bar> < 2 ^ 53" and "1 \<le> c" "c \<le> 4" by (auto simp: rate64_def)
  have "rat_exp 1 \<le> rat_exp c" using \<open>1 \<le> c\<close> by (intro rat_exp_mono) auto
  then have "0 \<le> rat_exp c" by (simp add: rat_exp_def)
  then have "round_at (max (rat_exp c - 52) (-1074)) c = round_prec 53 c"
    using \<open>1 \<le> c\<close> by (simp add: round_prec_def max_def)
  also have "\<dots> = c" by (rule round_prec_exact [OF m])
  finally have r: "round_at (max (rat_exp c - 52) (-1074)) c = c" .
  have "c < 2 ^ 1024" using \<open>c \<le> 4\<close> by (rule le_less_trans) simp
  with r \<open>1 \<le> c\<close> show ?thesis by (simp add: to_float64_def Let_def)
qed

lemma rate64_exact: "rate64 c \<Longrightarrow> 53 \<le> p \<Longrightarrow> round_prec p c = c"
proof -
  assume "rate64 c" and p: "53 \<le> p"
  then obtain m e where m: "c = of_int m * 2 powi e" "\<bar>m\<bar> < 2 ^ 53" by (auto simp: rate64_def)
  have "(2::int) ^ 53 \<le> 2 ^ p" using p by (intro power_increasing) auto
  with m(2) have "\<bar>m\<bar> < 2 ^ p" by linarith
  then show ?thesis by (rule round_prec_exact [OF m(1)])
qed

lemma rate64_below: "rate64 c \<Longrightarrow> 53 \<le> p \<Longrightarrow> c \<le> q \<Longrightarrow> f64_le (F64 c) (to_float64 (round_prec p q))"
proof -
  assume c: "rate64 c" "53 \<le> p" "c \<le> q"
  then have "c \<le> round_prec p q" "0 \<le> c" using round_prec_mono [of c q p] rate64_exact [of c p] by (auto simp: rate64_def)
  then show ?thesis using to_float64_mono [of c "round_prec p q"] rate64_float [OF c(1)] by simp
qed

lemma rate64_above: "rate64 c \<Longrightarrow> 53 \<le> p \<Longrightarrow> 0 \<le> q \<Longrightarrow> q \<le> c \<Longrightarrow> f64_le (to_float64 (round_prec p q)) (F64 c)"
proof -
  assume c: "rate64 c" "53 \<le> p" "0 \<le> q" "q \<le> c"
  then have "round_prec p q \<le> c" "0 \<le> round_prec p q"
    using round_prec_mono [of q c p] round_prec_mono [of 0 q p] rate64_exact [of c p] by auto
  then show ?thesis using to_float64_mono [of "round_prec p q" c] rate64_float [OF c(1)] by simp
qed

end
