(* ===== verification/Defi_Config.thy ===== *)
theory Defi_Config
  imports Go_Float Common_Types
begin

text \<open>
  What the detector is configured with: \<open>hunter/defi/defi.go\<close> and the loaders of
  \<open>hunter/defi/token.go\<close>. The rows of a CSV file (after its header) are the input of a
  loader, which stops at the first empty record and panics when a record has too few
  columns; directories to create are a list of paths. \<open>FindCommonAddress\<close> compares counts
  with a \<open>float64\<close> product; \<open>exceeds_share_exact\<close> shows that the comparison is the exact
  rational one.
\<close>

section \<open>Decimal text\<close>

definition digit_val :: "char \<Rightarrow> nat option" where
  "digit_val c = (if char_in (CHR ''0'') (CHR ''9'') c then Some (of_char c - 48) else None)"

fun parse_digits :: "nat \<Rightarrow> string \<Rightarrow> nat option" where
  "parse_digits acc [] = Some acc"
| "parse_digits acc (c # cs) =
     (case digit_val c of Some d \<Rightarrow> parse_digits (acc * 10 + d) cs | None \<Rightarrow> None)"

text \<open>\<open>new(big.Int).SetString(s, 10)\<close>; \<open>None\<close> is the \<open>nil\<close> of a failed conversion.\<close>

definition SetString :: "string \<Rightarrow> int option" where
  "SetString s =
     (let (neg, ds) = (case s of
          c # cs \<Rightarrow> if c = CHR ''-'' then (True, cs) else if c = CHR ''+'' then (False, cs) else (False, s)
        | [] \<Rightarrow> (False, []))
      in if ds = [] then None
         else map_option (\<lambda>n. if neg then - int n else int n) (parse_digits 0 ds))"

text \<open>
  \<open>strconv.ParseInt(s, 10, 64)\<close> and \<open>strconv.Atoi\<close> with the error ignored: zero for
  malformed text, the nearest bound for a number out of range.
\<close>

definition ParseInt64 :: "string \<Rightarrow> int" where
  "ParseInt64 s =
     (case SetString s of None \<Rightarrow> 0 | Some n \<Rightarrow> max (- (2 ^ 63)) (min n (2 ^ 63 - 1)))"

definition ParseUint64 :: "string \<Rightarrow> int" where
  "ParseUint64 s =
     (if s = [] then 0 else case parse_digits 0 s of None \<Rightarrow> 0 | Some n \<Rightarrow> min (int n) (2 ^ 64 - 1))"

fun show_nat :: "nat \<Rightarrow> string" where
  "show_nat n = (if n < 10 then [hex_digit n] else show_nat (n div 10) @ [hex_digit (n mod 10)])"

declare show_nat.simps [simp del]

lemma digit_val_hex_digit [simp]: "n < 10 \<Longrightarrow> digit_val (hex_digit n) = Some n"
  by (auto simp: digit_val_def char_in_def hex_digit_code)

lemma parse_digits_snoc:
  "parse_digits acc (s @ [c]) =
     (case parse_digits acc s of None \<Rightarrow> None
      | Some n \<Rightarrow> map_option (\<lambda>d. n * 10 + d) (digit_val c))"
  by (induction s arbitrary: acc) (auto split: option.splits)

lemma parse_show_nat [simp]: "parse_digits 0 (show_nat n) = Some n"
proof (induction n rule: show_nat.induct)
  case (1 n)
  then show ?case
    by (subst show_nat.simps) (auto simp: parse_digits_snoc)
qed

lemma show_nat_nonempty [simp]: "show_nat n \<noteq> []"
  by (subst show_nat.simps) simp

section \<open>Application configuration\<close>

record ProxyInfo =
  pi_Name :: string
  CreateAt :: "int option"
  pi_Deposit :: "(string, bool) gomap"
  pi_Withdraw :: "(string, bool) gomap"
  ProxyContracts :: "Address list"
  LPTokens :: "Address list"

definition split_lower :: "string \<Rightarrow> string list" where
  "split_lower f = Split (ToLower (TrimSpace f)) (CHR '';'')"

definition string_set :: "string list \<Rightarrow> (string, bool) gomap" where
  "string_set ss = fold (\<lambda>s. mput s True) ss []"

text \<open>One record of the application table; the columns it reads panic when missing.\<close>

definition LoadDefi_record :: "string list \<Rightarrow> ProxyInfo go" where
  "LoadDefi_record r =
     go_bind (go_index r 0) (\<lambda>f0. go_bind (go_index r 1) (\<lambda>f1. go_bind (go_index r 4) (\<lambda>f4.
     go_bind (go_index r 2) (\<lambda>f2. go_bind (go_index r 3) (\<lambda>f3. go_bind (go_index r 5) (\<lambda>f5.
       Inr \<lparr>pi_Name = TrimSpace (ToLower f0),
            CreateAt = SetString (TrimSpace f1),
            pi_Deposit = string_set (split_lower f2),
            pi_Withdraw = string_set (split_lower f3),
            ProxyContracts = map HexToAddress (split_lower f4),
            LPTokens = (if length f5 \<ge> 42 then map HexToAddress (split_lower f5) else [])\<rparr>))))))"

definition dataset_dirs :: "bool \<Rightarrow> bool \<Rightarrow> ProxyInfo \<Rightarrow> string list" where
  "dataset_dirs createDataset createSeed info =
     (let app = ''hunter/defi_apps/'' @ pi_Name info; seed = ''hunter/seed_and_env/'' @ pi_Name info
      in (if createDataset
          then [app, app @ ''/historyTx/''] @
               map (\<lambda>a. app @ ''/historyTx/'' @ Address_hex a) (ProxyContracts info @ LPTokens info)
          else []) @
         (if createSeed then [seed, seed @ ''/statedb'', seed @ ''/statedb/output''] else []))"

fun LoadDefi_rows ::
    "bool \<Rightarrow> bool \<Rightarrow> string list list \<Rightarrow> (string, ProxyInfo) gomap \<times> string list
       \<Rightarrow> ((string, ProxyInfo) gomap \<times> string list) go" where
  "LoadDefi_rows cd cs [] s = Inr s"
| "LoadDefi_rows cd cs (r # rs) (m, dirs) =
     (if r = [] then Inr (m, dirs)
      else go_bind (LoadDefi_record r) (\<lambda>info.
        LoadDefi_rows cd cs rs (mput (pi_Name info) info m, dirs @ dataset_dirs cd cs info)))"

definition LoadDefi ::
    "string list list \<Rightarrow> bool \<Rightarrow> bool \<Rightarrow> ((string, ProxyInfo) gomap \<times> string list) go" where
  "LoadDefi rows createDataset createSeed = LoadDefi_rows createDataset createSeed rows ([], [])"

section \<open>Addresses related to nearly every user\<close>

type_synonym RelatedMap = "(Address, int) gomap"
type_synonym UserRelatedMap = "(Address, RelatedMap) gomap"

text \<open>\<open>float64(count) > float64(n) * float64(share)\<close>.\<close>

definition exceeds_share :: "int \<Rightarrow> int \<Rightarrow> rat \<Rightarrow> bool" where
  "exceeds_share cnt n share \<longleftrightarrow>
     round_prec 53 (round_prec 53 (of_int n) * round_prec 53 share) < round_prec 53 (of_int cnt)"

definition related_counts :: "UserRelatedMap \<Rightarrow> (Address, int) gomap" where
  "related_counts m = fold (\<lambda>(user, rel). fold mincr (mkeys rel)) m []"

definition FindCommonAddress :: "UserRelatedMap \<Rightarrow> (Address, bool) gomap" where
  "FindCommonAddress userRelatedMap =
     (let userCount = int (length userRelatedMap); counts = related_counts userRelatedMap
      in fold (\<lambda>a m. if exceeds_share (mget 0 counts a) userCount (9/10) then mput a True m else m)
           (mkeys counts) [])"

section \<open>Stable tokens\<close>

record StableToken =
  st_Symbol :: string
  st_Decimals :: int
  XToken :: Address
  RateToXToken :: int

definition zero_StableToken :: StableToken where
  "zero_StableToken = \<lparr>st_Symbol = [], st_Decimals = 0, XToken = 0, RateToXToken = 0\<rparr>"

definition stable_xtoken :: "string \<Rightarrow> Address" where
  "stable_xtoken name =
     (if name = ''stableTokenToETH.csv'' then HexToAddress ''0x1''
      else if name = ''stableTokenToUSD.csv'' then HexToAddress ''0x2''
      else if name = ''stableTokenToBTC.csv'' then HexToAddress ''0x3'' else 0)"

fun stable_rows ::
    "Address \<Rightarrow> string list list \<Rightarrow> (Address, StableToken) gomap \<Rightarrow> (Address, StableToken) gomap go" where
  "stable_rows x [] m = Inr m"
| "stable_rows x (r # rs) m =
     (if r = [] then Inr m
      else go_bind (go_index r 0) (\<lambda>f0. go_bind (go_index r 1) (\<lambda>f1.
           go_bind (go_index r 2) (\<lambda>f2. go_bind (go_index r 3) (\<lambda>f3.
             stable_rows x rs
               (mput (HexToAddress (ToLower (TrimSpace f1)))
                  \<lparr>st_Symbol = ToLower (TrimSpace f0), st_Decimals = ParseInt64 (TrimSpace f3),
                   XToken = x, RateToXToken = ParseInt64 (TrimSpace f2)\<rparr> m))))))"

definition LoadStableTokenInfo ::
    "(string \<times> string list list) list \<Rightarrow> (Address, StableToken) gomap go" where
  "LoadStableTokenInfo files =
     go_fold (\<lambda>(name, rows) m. stable_rows (stable_xtoken name) rows m) files []"

section \<open>Prices\<close>

type_synonym RateMap = "(string, rat) gomap"

record TokenSwap =
  ts_Symbol :: string
  ts_TokenAddress :: Address
  ts_SwapToken :: string
  ts_RateMap :: RateMap

text \<open>
  \<open>LoadRateMapBool\<close> reads the price file of a token; the files are a parameter, from the
  path to the decoded map when the file exists and decodes.
\<close>

type_synonym rate_files = "string \<Rightarrow> RateMap option"

definition LoadRateMapBool :: "rate_files \<Rightarrow> string \<Rightarrow> RateMap \<times> bool" where
  "LoadRateMapBool files path = (case files path of Some m \<Rightarrow> (m, True) | None \<Rightarrow> ([], False))"

definition LoadRateMap :: "rate_files \<Rightarrow> string \<Rightarrow> RateMap" where
  "LoadRateMap files path = fst (LoadRateMapBool files path)"

definition ExistToken ::
    "rate_files \<Rightarrow> Address \<Rightarrow> (Address, TokenSwap) gomap \<Rightarrow> string
       \<Rightarrow> bool \<times> (Address, TokenSwap) gomap" where
  "ExistToken files tokenAddress tokenSwapMap rateMapPath =
     (if mhas tokenSwapMap tokenAddress then (True, tokenSwapMap)
      else let (rateMap, flag) =
                 LoadRateMapBool files (rateMapPath @ ''/'' @ Address_hex tokenAddress @ ''.json'')
           in if flag
              then (True, mput tokenAddress
                     \<lparr>ts_Symbol = [], ts_TokenAddress = tokenAddress, ts_SwapToken = [],
                      ts_RateMap = rateMap\<rparr> tokenSwapMap)
              else (False, tokenSwapMap))"

record Token =
  tk_Symbol :: string
  tk_Address :: Address
  tk_Decimals :: int

text \<open>
  \<open>LoadTokenSwapInfo\<close>, on the decoded token file and the names of the rate directory, in
  directory order; a file name without an underscore is an index panic.
\<close>

definition LoadTokenSwapInfo ::
    "rate_files \<Rightarrow> (string, Token) gomap \<Rightarrow> string \<Rightarrow> string list \<Rightarrow> (Address, TokenSwap) gomap go" where
  "LoadTokenSwapInfo files tokenMap rateMapPath names =
     go_fold (\<lambda>f m.
         let temp_list = Split (hd (Split f (CHR ''.''))) (CHR ''_'')
         in go_bind (go_index temp_list 0) (\<lambda>atoken. go_bind (go_index temp_list 1) (\<lambda>btoken.
              let tokenAddress =
                    mget 0 (map (\<lambda>(k, t). (k, tk_Address t)) tokenMap) atoken
              in Inr (mput tokenAddress
                   \<lparr>ts_Symbol = atoken, ts_TokenAddress = tokenAddress, ts_SwapToken = btoken,
                    ts_RateMap = LoadRateMap files (rateMapPath @ ''/'' @ f)\<rparr> m))))
       names []"

section \<open>Shares are compared exactly\<close>

lemma round_even_near: "\<bar>q - of_int m\<bar> < 1/2 \<Longrightarrow> round_even q = m"
proof -
  assume q: "\<bar>q - of_int m\<bar> < 1/2"
  have "\<bar>of_int (round_even q) - q\<bar> \<le> 1/2" by (rule round_even_err)
  with q have "\<bar>of_int (round_even q) - (of_int m :: rat)\<bar> < 1" by linarith
  then have "\<bar>(of_int (round_even q - m) :: rat)\<bar> < of_int 1" by simp
  then show ?thesis by (simp only: of_int_abs [symmetric] of_int_less_iff)
qed

text \<open>A value very close to an integer rounds to that integer.\<close>

lemma round_prec_near_int:
  assumes "0 < x" and "x < 2 ^ p" and "0 < p" and "\<bar>x - of_int m\<bar> < x / 2 ^ (p + 1)"
  shows "round_prec p x = of_int m"
proof -
  let ?e = "rat_exp x - int p + 1"
  have "2 powi rat_exp x < (2::rat) powi int p"
    using rat_exp_bounds(1) [of x] assms(1,2) by (simp add: order_le_less_trans)
  then have e: "?e \<le> 0" unfolding powi_less_iff by simp
  have k: "(2::rat) powi (- ?e) = of_int (2 ^ nat (- ?e))" using e by (simp add: power_int_def)
  have inv: "q / 2 powi ?e = q * 2 powi (- ?e)" for q :: rat
    using power_int_minus [of "2::rat" ?e] by (simp only: divide_inverse)
  have pow: "x < 2 ^ p * 2 powi ?e"
  proof -
    have "(2::rat) ^ p * 2 powi ?e = 2 powi (rat_exp x + 1)"
      using power_int_add [of "2::rat" "int p" ?e] by simp
    then show ?thesis using rat_exp_bounds(2) [of x] assms(1) by simp
  qed
  have "x / 2 ^ (p + 1) < 2 powi ?e / 2"
    using pow by (simp add: divide_less_eq mult.commute)
  with assms(4) have "\<bar>x - of_int m\<bar> < 2 powi ?e / 2" by linarith
  then have "\<bar>x - of_int m\<bar> / 2 powi ?e < 1/2"
    by (simp add: divide_less_eq)
  moreover have "\<bar>x / 2 powi ?e - of_int (m * 2 ^ nat (- ?e))\<bar> = \<bar>x - of_int m\<bar> / 2 powi ?e"
  proof -
    have "x / 2 powi ?e - of_int (m * 2 ^ nat (- ?e)) = (x - of_int m) / 2 powi ?e"
      unfolding inv of_int_mult k [symmetric] by (simp add: left_diff_distrib)
    then show ?thesis by (simp add: abs_divide)
  qed
  ultimately have "round_even (x / 2 powi ?e) = m * 2 ^ nat (- ?e)"
    by (intro round_even_near) simp
  then have "round_at ?e x = of_int m * (2 powi (- ?e) * 2 powi ?e)"
    unfolding round_at_def k by simp
  moreover have "2 powi (- ?e) * 2 powi ?e = (1::rat)"
    using power_int_minus [of "2::rat" ?e] by simp
  ultimately show ?thesis
    using assms(1,3) unfolding round_prec_def by simp
qed

lemma share_values:
  "round_prec 53 (9/10) = 8106479329266893 / 9007199254740992"
  "round_prec 53 (3/10) = 5404319552844595 / 18014398509481984"
  by code_simp+

lemma near_tenth:
  fixes r s x :: rat
  shows "\<bar>r - x\<bar> \<le> x / 2 ^ 53 \<Longrightarrow> \<bar>x - s\<bar> < x / 2 ^ 54 \<Longrightarrow> x < 2 ^ 40 \<Longrightarrow> \<bar>r - s\<bar> < 1/10"
proof -
  assume r: "\<bar>r - x\<bar> \<le> x / 2 ^ 53" and s: "\<bar>x - s\<bar> < x / 2 ^ 54" and x: "x < 2 ^ 40"
  have "\<bar>r - s\<bar> \<le> \<bar>r - x\<bar> + \<bar>x - s\<bar>" by linarith
  moreover have "x / 2 ^ 53 < 1/20" and "x / 2 ^ 54 < 1/20" using x by simp_all
  ultimately show ?thesis using r s by linarith
qed

lemma exceeds_share_gen:
  assumes n: "0 \<le> n" "n < 2 ^ 40" and c: "0 \<le> c" "c < 2 ^ 53"
    and w: "0 < w" "w < 10" "\<bar>f - of_int w / 10\<bar> < f / 2 ^ 54" "0 < f" "f < 1"
  shows "round_prec 53 (of_int n * f) < of_int c \<longleftrightarrow> w * n < 10 * c"
proof (cases "n = 0")
  case True
  with c show ?thesis by auto
next
  case False
  with n have n0: "0 < n" by simp
  let ?x = "of_int n * f" and ?s = "of_int (w * n) / 10 :: rat"
  have nr: "(of_int n :: rat) < 2 ^ 40"
    using n(2) by (metis of_int_less_iff of_int_numeral of_int_power)
  have x0: "0 < ?x" using n0 w(4) by simp
  have x40: "?x < 2 ^ 40"
  proof -
    have "?x < of_int n * 1" using n0 w(5) by (intro mult_strict_left_mono) auto
    with nr show ?thesis by simp
  qed
  have xs: "\<bar>?x - ?s\<bar> < ?x / 2 ^ 54"
  proof -
    have "?x - ?s = of_int n * (f - of_int w / 10)"
      by (simp add: algebra_simps)
    then have "\<bar>?x - ?s\<bar> = of_int n * \<bar>f - of_int w / 10\<bar>"
      using n0 by (simp only: abs_mult)
    also have "\<dots> < of_int n * (f / 2 ^ 54)" using w(3) n0 by (intro mult_strict_left_mono) auto
    finally show ?thesis by simp
  qed
  show ?thesis
  proof (cases "w * n = 10 * c")
    case True
    then have "?s = of_int c" by simp
    with xs x0 x40 have "round_prec 53 ?x = of_int c"
      by (intro round_prec_near_int) auto
    with True show ?thesis by simp
  next
    case False
    have "\<bar>round_prec 53 ?x - ?x\<bar> \<le> ?x / 2 ^ 53"
      using round_prec_err [of 53 ?x] x0 by simp
    from near_tenth [OF this xs x40]
    have near: "round_prec 53 ?x < ?s + 1/10" "?s - 1/10 < round_prec 53 ?x"
      unfolding abs_less_iff by linarith+
    consider "w * n + 1 \<le> 10 * c" | "10 * c + 1 \<le> w * n" using False by linarith
    then show ?thesis
    proof cases
      case 1
      then have "(of_int (w * n + 1) :: rat) \<le> of_int (10 * c)" by (simp only: of_int_le_iff)
      then have "?s + 1/10 \<le> of_int c" by simp
      with near(1) have "round_prec 53 ?x < of_int c" by linarith
      with 1 show ?thesis by simp
    next
      case 2
      then have "(of_int (10 * c + 1) :: rat) \<le> of_int (w * n)" by (simp only: of_int_le_iff)
      then have "of_int c \<le> ?s - 1/10" by simp
      with near(2) have "of_int c \<le> round_prec 53 ?x" by linarith
      with 2 show ?thesis by simp
    qed
  qed
qed

lemma exceeds_share_exact:
  assumes "0 \<le> n" "n < 2 ^ 40" and "0 \<le> c" "c < 2 ^ 53"
  shows "exceeds_share c n (9/10) \<longleftrightarrow> 9 * n < 10 * c"
    and "exceeds_share c n (3/10) \<longleftrightarrow> 3 * n < 10 * c"
proof -
  have n: "round_prec 53 (of_int n) = of_int n" and c: "round_prec 53 (of_int c) = of_int c"
    using assms by (auto intro!: round_prec_int_exact)
  show "exceeds_share c n (9/10) \<longleftrightarrow> 9 * n < 10 * c"
    unfolding exceeds_share_def n c share_values using assms by (intro exceeds_share_gen) auto
  show "exceeds_share c n (3/10) \<longleftrightarrow> 3 * n < 10 * c"
    unfolding exceeds_share_def n c share_values using assms by (intro exceeds_share_gen) auto
qed

section \<open>What the loaders and the count return\<close>

lemma fold_mput_if:
  "mhas (fold (\<lambda>a m. if P a then mput a True m else m) as m) x \<longleftrightarrow> (x \<in> set as \<and> P x) \<or> mhas m x"
  "gomap_ok m \<Longrightarrow> gomap_ok (fold (\<lambda>a m. if P a then mput a True m else m) as m)"
  by (induction as arbitrary: m) (auto simp: gomap_simps)

lemma related_counts_fold:
  "related_counts m = fold mincr (concat (map (\<lambda>(u, r). mkeys r) m)) []"
proof -
  have "fold (\<lambda>(user, rel). fold mincr (mkeys rel)) m c =
      fold mincr (concat (map (\<lambda>(u, r). mkeys r) m)) c" for c :: "(Address, int) gomap"
    by (induction m arbitrary: c) auto
  then show ?thesis by (simp add: related_counts_def)
qed

lemma count_list_distinct: "distinct xs \<Longrightarrow> count_list xs x = (if x \<in> set xs then 1 else 0)"
  by (induction xs) auto

lemma count_concat_maps:
  assumes "\<forall>(u, r) \<in> set m. gomap_ok r"
  shows "count_list (concat (map (\<lambda>(u, r). mkeys r) m)) a = length (filter (\<lambda>(u, r). mhas r a) m)"
  using assms
proof (induction m)
  case (Cons x m)
  obtain u r where x: "x = (u, r)" by (cases x)
  have "count_list (mkeys r) a = (if mhas r a then 1 else 0)"
    unfolding mhas_iff using Cons.prems x by (intro count_list_distinct) (simp add: gomap_ok_def)
  with Cons x show ?case by (simp add: count_list_append)
qed simp

text \<open>
  An address is common exactly when more than nine tenths of the users are related to
  it; the \<open>float64\<close> comparison of the code agrees with the exact fraction for every map of
  fewer than 2 to the 40 users.
\<close>

theorem FindCommonAddress_iff:
  assumes "\<forall>(u, r) \<in> set m. gomap_ok r" and "length m < 2 ^ 40"
  shows "mhas (FindCommonAddress m) a \<longleftrightarrow>
     9 * length m < 10 * length (filter (\<lambda>(u, r). mhas r a) m)"
proof -
  let ?c = "length (filter (\<lambda>(u, r). mhas r a) m)"
  have cnt: "mget 0 (related_counts m) a = int ?c"
    by (simp add: related_counts_fold alist_counter.get_fold_incr count_concat_maps [OF assms(1)])
  have key: "a \<in> set (mkeys (related_counts m)) \<longleftrightarrow> 0 < ?c"
  proof -
    have "a \<in> set (mkeys (related_counts m)) \<longleftrightarrow> a \<in> set (concat (map (\<lambda>(u, r). mkeys r) m))"
      unfolding mhas_iff [symmetric] related_counts_fold
      by (subst alist_counter.has_fold_incr) simp_all
    also have "\<dots> \<longleftrightarrow> count_list (concat (map (\<lambda>(u, r). mkeys r) m)) a \<noteq> 0"
      unfolding count_list_0_iff by simp
    finally show ?thesis unfolding count_concat_maps [OF assms(1)] by simp
  qed
  have "?c \<le> length m" by simp
  then have "?c < 2 ^ 40" using assms(2) by (rule order_le_less_trans)
  then have "int ?c < 2 ^ 53" and "int (length m) < 2 ^ 40" using assms(2) by auto
  then have "exceeds_share (int ?c) (int (length m)) (9/10) \<longleftrightarrow> 9 * int (length m) < 10 * int ?c"
    by (intro exceeds_share_exact) auto
  moreover have "a \<in> set (mkeys (related_counts m))" if "9 * length m < 10 * ?c"
    using that unfolding key by linarith
  ultimately show ?thesis
    by (auto simp: FindCommonAddress_def Let_def fold_mput_if cnt)
qed

theorem FindCommonAddress_iff_witness:
  "mhas (FindCommonAddress [(1, [(3, 5)]), (2, [(3, 6)])]) 3"
  using FindCommonAddress_iff [of "[(1, [(3, 5)]), (2, [(3, 6)])]" 3]
  by (simp add: gomap_ok_def mhas_def)

text \<open>
  The application table loads without a panic exactly when every record before the first
  empty one has its six columns; then an application is configured by the last record
  that carries its name.
\<close>

lemma LoadDefi_record_total:
  "LoadDefi_record r = Inr info \<Longrightarrow> 6 \<le> length r"
  "6 \<le> length r \<Longrightarrow> \<exists>info. LoadDefi_record r = Inr info"
  "length r < 6 \<Longrightarrow> LoadDefi_record r = Inl IndexOutOfRange"
  by (auto simp: LoadDefi_record_def go_bind_Inr_iff go_index_Inr_iff)
    (auto simp: go_index_def)

lemma find_append: "find P (xs @ ys) = (case find P xs of Some x \<Rightarrow> Some x | None \<Rightarrow> find P ys)"
  by (induction xs) auto

lemma LoadDefi_rows_ok:
  assumes "\<forall>r \<in> set (takeWhile (\<lambda>r. r \<noteq> []) rows). 6 \<le> length r"
  shows "\<exists>m' dirs'. LoadDefi_rows cd cs rows (m, dirs) = Inr (m', dirs') \<and>
     (\<forall>name. map_of m' name =
        (case find (\<lambda>i. pi_Name i = name)
            (rev (map (\<lambda>r. projr (LoadDefi_record r)) (takeWhile (\<lambda>r. r \<noteq> []) rows))) of
           Some i \<Rightarrow> Some i | None \<Rightarrow> map_of m name))"
  using assms
proof (induction rows arbitrary: m dirs)
  case (Cons r rows)
  show ?case
  proof (cases "r = []")
    case False
    with Cons.prems obtain info where i: "LoadDefi_record r = Inr info"
      using LoadDefi_record_total(2) by auto
    from Cons.IH [of "mput (pi_Name info) info m" "dirs @ dataset_dirs cd cs info"] Cons.prems False
    obtain m' dirs' where
      "LoadDefi_rows cd cs rows (mput (pi_Name info) info m, dirs @ dataset_dirs cd cs info) = Inr (m', dirs')"
      and names: "\<And>name. map_of m' name =
        (case find (\<lambda>i. pi_Name i = name)
            (rev (map (\<lambda>r. projr (LoadDefi_record r)) (takeWhile (\<lambda>r. r \<noteq> []) rows))) of
           Some i \<Rightarrow> Some i | None \<Rightarrow> map_of (mput (pi_Name info) info m) name)"
      by auto
    with False show ?thesis
      by (auto simp: i find_append update_conv' names split: option.split)
  qed simp
qed simp

end
