(* ===== verification/Tx_Collect.thy ===== *)
theory Tx_Collect
  imports Call_Tree Abi_Decode Defi_Config
begin

text \<open>
  The collectors that decide which recorded transactions belong to which application:
  \<open>TxCollector\<close> (\<open>hunter/defi/collector.go\<close>) and \<open>TokenCollector\<close> (\<open>hunter/defi/token.go\<close>).
  Files to write are returned as a list of paths. The maps are keyed with the lower-case
  text of an address, \<open>strings.ToLower(address.String())\<close>, which is \<open>Address_hex\<close> by
  \<open>ToLower_checksumHex\<close>.
\<close>

definition show_int :: "int \<Rightarrow> string" where
  "show_int n = (if n < 0 then CHR ''-'' # show_nat (nat (- n)) else show_nat (nat n))"

definition DumpTree_path :: "ExternalTx \<Rightarrow> string \<Rightarrow> string" where
  "DumpTree_path ex dumpPath =
     dumpPath @ ''/'' @ show_int (ex_BlockNumber ex) @ ''_'' @ show_int (ex_TxIndex ex) @ ''.json''"

section \<open>Transfer events\<close>

definition transfer_topic :: string where
  "transfer_topic = ''0xddf252ad1be2c89b69c2b068fc378daa952ba7f163c4a11628f55a4df523b3ef''"

definition is_transfer :: "Event \<Rightarrow> bool" where
  "is_transfer event \<longleftrightarrow> length (Topics event) > 0 \<and> Hash_Hex (Topics event ! 0) = transfer_topic
     \<and> length (Topics event) = 3"

text \<open>The same hash as a word: comparing the text is comparing the topic.\<close>

definition transfer_hash :: Hash where
  "transfer_hash = BytesToHash
     [0xdd, 0xf2, 0x52, 0xad, 0x1b, 0xe2, 0xc8, 0x9b, 0x69, 0xc2, 0xb0, 0x68, 0xfc, 0x37, 0x8d,
      0xaa, 0x95, 0x2b, 0xa7, 0xf1, 0x63, 0xc4, 0xa1, 0x16, 0x28, 0xf5, 0x5a, 0x4d, 0xf5, 0x23,
      0xb3, 0xef]"

lemma Hash_Hex_transfer: "Hash_Hex transfer_hash = transfer_topic"
  by (simp add: transfer_hash_def Hash_Hex_def SetBytes_id transfer_topic_def Bytes2Hex_def hex_digit_table)

lemma is_transfer_iff:
  "is_transfer event \<longleftrightarrow> length (Topics event) = 3 \<and> Topics event ! 0 = transfer_hash"
  by (auto simp: is_transfer_def Hash_Hex_transfer [symmetric])

definition topic_address :: "Event \<Rightarrow> nat \<Rightarrow> Address" where
  "topic_address event i = HexToAddress (Hash_Hex (Topics event ! i))"

text \<open>
  \<open>res, err := parsed.Unpack("Transfer", event.Data)\<close> followed by \<open>res[0]\<close>: the error is
  only printed, so data that does not decode is an index panic on the \<open>nil\<close> result.
\<close>

definition transfer_value :: "Event \<Rightarrow> abi_value go" where
  "transfer_value event =
     (case ABI_Unpack erc20_abi ''Transfer'' (ev_Data event) of
        Inl _ \<Rightarrow> Inl IndexOutOfRange
      | Inr res \<Rightarrow> go_index res 0)"

lemma topic_address_eq: "topic_address event i = of_nat (unat (Topics event ! i) mod 2 ^ 160)"
  by (simp add: topic_address_def HexToAddress_Hash_Hex)

lemma transfer_value_eq:
  "transfer_value event =
     (if length (ev_Data event) < 32 then Inl IndexOutOfRange
      else Inr (VBig (int (be_val (take 32 (ev_Data event))))))"
  by (auto simp: transfer_value_def erc20_Transfer_Unpack go_index_def)

section \<open>TxCollector\<close>

type_synonym dump_dict = "(string, string) gomap"

definition parseEvent :: "(string, string) gomap \<Rightarrow> Event \<Rightarrow> dump_dict \<Rightarrow> dump_dict go" where
  "parseEvent AddressMap event dict =
     (if is_transfer event
      then go_bind (transfer_value event) (\<lambda>amount.
             let sender = Address_hex (topic_address event 1);
                 to = Address_hex (topic_address event 2)
             in Inr (if mhas AddressMap sender then mput sender (mget [] AddressMap sender) dict
                     else if mhas AddressMap to then mput to (mget [] AddressMap to) dict
                     else dict))
      else Inr dict)"

fun ParseTxTreeUtil :: "(string, string) gomap \<Rightarrow> InternalTx \<Rightarrow> dump_dict \<Rightarrow> dump_dict go" where
  "ParseTxTreeUtil AddressMap t dict =
     (let callTo = Address_hex (itx_To t);
          dict = (if mhas AddressMap callTo \<and> CallType t \<noteq> ''StaticCall''
                  then mput callTo (mget [] AddressMap callTo) dict else dict)
      in go_bind (go_fold (ParseTxTreeUtil AddressMap) (InTxs t) dict)
           (go_fold (parseEvent AddressMap) (Events t)))"

declare ParseTxTreeUtil.simps [simp del]

text \<open>
  \<open>printCall\<close> is the package flag set by \<open>SetCallVisibility\<close>: with it the first internal
  transaction is read before its existence is checked.
\<close>

definition ParseTxAndDump ::
    "bool \<Rightarrow> (string, string) gomap \<Rightarrow> ExternalTx \<Rightarrow> bool \<Rightarrow> string list go" where
  "ParseTxAndDump printCall AddressMap ex dumpBool =
     go_bind (if printCall then go_bind (go_index (ex_InTxs ex) 0) (\<lambda>_. Inr ()) else Inr ()) (\<lambda>_.
     go_bind (if length (ex_InTxs ex) = 1 then ParseTxTreeUtil AddressMap (ex_InTxs ex ! 0) [] else Inr [])
       (\<lambda>dict. Inr (if dumpBool
          then map (\<lambda>(proxy, dapp). DumpTree_path ex (''hunter/defi_apps/'' @ dapp @ ''/historyTx/'' @ proxy)) dict
          else [])))"

text \<open>The traversal as a fold over the steps of the tree.\<close>

fun collect_step :: "(string, string) gomap \<Rightarrow> tree_step \<Rightarrow> dump_dict \<Rightarrow> dump_dict go" where
  "collect_step AM (CallStep t) dict =
     Inr (if mhas AM (Address_hex (itx_To t)) \<and> CallType t \<noteq> ''StaticCall''
          then mput (Address_hex (itx_To t)) (mget [] AM (Address_hex (itx_To t))) dict else dict)"
| "collect_step AM (EventStep e) dict = parseEvent AM e dict"

lemma ParseTxTreeUtil_fold:
  "ParseTxTreeUtil AM t dict = go_fold (collect_step AM) (tree_steps t) dict"
proof (rule go_fold_tree)
  fix t dict
  have "(\<lambda>e. collect_step AM (EventStep e)) = parseEvent AM" by (intro ext) simp
  then show "ParseTxTreeUtil AM t dict = go_bind (collect_step AM (CallStep t) dict) (\<lambda>dict.
      go_bind (go_fold (ParseTxTreeUtil AM) (InTxs t) dict)
        (go_fold (\<lambda>e. collect_step AM (EventStep e)) (Events t)))"
    by (subst ParseTxTreeUtil.simps) (simp add: Let_def)
qed

text \<open>The keys one step adds.\<close>

fun step_key :: "(string, string) gomap \<Rightarrow> tree_step \<Rightarrow> string \<Rightarrow> bool" where
  "step_key AM (CallStep t) k \<longleftrightarrow>
     mhas AM k \<and> k = Address_hex (itx_To t) \<and> CallType t \<noteq> ''StaticCall''"
| "step_key AM (EventStep e) k \<longleftrightarrow> mhas AM k \<and> is_transfer e \<and>
     (k = Address_hex (topic_address e 1) \<or>
      \<not> mhas AM (Address_hex (topic_address e 1)) \<and> k = Address_hex (topic_address e 2))"

fun step_decodes :: "tree_step \<Rightarrow> bool" where
  "step_decodes (CallStep t) = True"
| "step_decodes (EventStep e) = (is_transfer e \<longrightarrow> 32 \<le> length (ev_Data e))"

lemma collect_step_result:
  assumes "collect_step AM st dict = Inr dict'"
  shows "mhas dict' k \<longleftrightarrow> mhas dict k \<or> step_key AM st k"
    and "(\<forall>k. mhas dict k \<longrightarrow> map_of dict k = map_of AM k) \<Longrightarrow>
         (\<forall>k. mhas dict' k \<longrightarrow> map_of dict' k = map_of AM k)"
    and "gomap_ok dict \<Longrightarrow> gomap_ok dict'"
  using assms
  by (cases st; auto simp: parseEvent_def go_bind_Inr_iff Let_def gomap_simps update_conv'
        map_of_mget [of AM _ "[]"] split: if_splits)+

lemma collect_fold_keys:
  assumes "go_fold (collect_step AM) sts dict = Inr dict'"
  shows "mhas dict' k \<longleftrightarrow> mhas dict k \<or> (\<exists>st \<in> set sts. step_key AM st k)"
  using assms
proof (induction sts arbitrary: dict)
  case (Cons st sts)
  from Cons.prems obtain d where d: "collect_step AM st dict = Inr d"
    and "go_fold (collect_step AM) sts d = Inr dict'"
    by (auto elim: go_bind_InrE)
  from Cons.IH [OF this(2)] collect_step_result(1) [OF d, of k] show ?case by auto
qed simp

lemma collect_fold_total:
  assumes "\<forall>st \<in> set sts. step_decodes st"
  shows "\<exists>dict'. go_fold (collect_step AM) sts dict = Inr dict'"
  using assms
proof (induction sts arbitrary: dict)
  case (Cons st sts)
  then have "\<exists>d. collect_step AM st dict = Inr d"
    by (cases st) (auto simp: parseEvent_def transfer_value_eq Let_def)
  with Cons show ?case by auto
qed simp

lemma collect_fold_values:
  assumes "go_fold (collect_step AM) sts [] = Inr dict"
  shows "gomap_ok dict \<and> (\<forall>k. mhas dict k \<longrightarrow> map_of dict k = map_of AM k)"
  by (rule go_fold_invariant [OF assms]) (auto dest: collect_step_result(2,3))

text \<open>
  C38: which addresses the collector finds. On a tree whose transfer events carry their 32-byte amount it returns
  normally, and an address is in the result exactly when it is registered and either called other than statically, or the
  sender of a transfer, or the recipient of a transfer whose sender is not registered; every entry names the application
  the address is registered for. So an address that is only called statically is not found, nor one that
  only receives transfers from registered senders, although the comment in \<open>parseEvent\<close> says that the sender or
  the recipient is added.
\<close>

theorem ParseTxTreeUtil_collects:
  assumes "\<forall>(d, e) \<in> set (tree_events 0 t). is_transfer e \<longrightarrow> 32 \<le> length (ev_Data e)"
  shows "\<exists>dict. ParseTxTreeUtil AM t [] = Inr dict \<and> gomap_ok dict \<and>
    (\<forall>k. mhas dict k \<longrightarrow> map_of dict k = map_of AM k) \<and>
    (\<forall>k. mhas dict k \<longleftrightarrow> mhas AM k \<and>
       ((\<exists>(d, c) \<in> set (tree_calls 0 t). k = Address_hex (itx_To c) \<and> CallType c \<noteq> ''StaticCall'') \<or>
        (\<exists>(d, e) \<in> set (tree_events 0 t). is_transfer e \<and>
           (k = Address_hex (topic_address e 1) \<or>
            \<not> mhas AM (Address_hex (topic_address e 1)) \<and> k = Address_hex (topic_address e 2)))))"
proof -
  have "step_decodes st" if "st \<in> set (tree_steps t)" for st
  proof (cases st)
    case (EventStep e)
    with that tree_steps_events [of e t 0] obtain d where "(d, e) \<in> set (tree_events 0 t)" by auto
    with assms EventStep show ?thesis by auto
  qed simp
  then obtain dict where d: "go_fold (collect_step AM) (tree_steps t) [] = Inr dict"
    using collect_fold_total [of "tree_steps t" AM "[]"] by blast
  have "mhas dict k \<longleftrightarrow> (\<exists>c. CallStep c \<in> set (tree_steps t) \<and> step_key AM (CallStep c) k) \<or>
      (\<exists>e. EventStep e \<in> set (tree_steps t) \<and> step_key AM (EventStep e) k)" for k
    using collect_fold_keys [OF d, of k] by (metis mhas_Nil tree_step.exhaust)
  then have "mhas dict k \<longleftrightarrow> mhas AM k \<and>
       ((\<exists>(d, c) \<in> set (tree_calls 0 t). k = Address_hex (itx_To c) \<and> CallType c \<noteq> ''StaticCall'') \<or>
        (\<exists>(d, e) \<in> set (tree_events 0 t). is_transfer e \<and>
           (k = Address_hex (topic_address e 1) \<or>
            \<not> mhas AM (Address_hex (topic_address e 1)) \<and> k = Address_hex (topic_address e 2))))" for k
    unfolding tree_steps_calls [where d = 0] tree_steps_events [where d = 0]
    by (auto simp: image_iff) fastforce+
  with d collect_fold_values [OF d] show ?thesis
    by (auto simp: ParseTxTreeUtil_fold)
qed

theorem ParseTxTreeUtil_collects_witness:
  "\<exists>dict. ParseTxTreeUtil [(Address_hex 7, ''app'')]
      (InternalTx 1 7 True None ''Call'' [] [] []) [] = Inr dict \<and>
    mhas dict (Address_hex 7) \<and> map_of dict (Address_hex 7) = Some ''app''"
  using ParseTxTreeUtil_collects [of "InternalTx 1 7 True None ''Call'' [] [] []" "[(Address_hex 7, ''app'')]"]
  by (auto simp: tree_events.simps tree_calls.simps mhas_def)

section \<open>TokenCollector\<close>

record TokenInfo =
  ti_Symbol :: string
  SwapToWeth :: Address

record TokenCollector =
  tc_TokenSwapMap :: "(string, string) gomap"
  DumpPath :: string
  TokenMap :: "(Address, bool) gomap"

record SwapEvent =
  se_BlockNumber :: int
  se_TxIndex :: int
  se_EventIndex :: nat
  se_Event :: Event

fun LoadInitTokenInfo_rows ::
    "string \<Rightarrow> string list list \<Rightarrow> TokenCollector \<times> (Address, TokenInfo) gomap \<times> string list
       \<Rightarrow> (TokenCollector \<times> (Address, TokenInfo) gomap \<times> string list) go" where
  "LoadInitTokenInfo_rows dumpPath [] s = Inr s"
| "LoadInitTokenInfo_rows dumpPath (r # rs) (tc, infos, dirs) =
     (if r = [] then Inr (tc, infos, dirs)
      else go_bind (go_index r 0) (\<lambda>f0. go_bind (go_index r 3) (\<lambda>f3.
           go_bind (go_index r 4) (\<lambda>f4. go_bind (go_index r 2) (\<lambda>f2.
             let symbol = TrimSpace (ToLower f0); btoken = TrimSpace (ToLower f3);
                 swap = ToLower (TrimSpace f4); weth = ToLower (TrimSpace f2);
                 tc = (if weth \<noteq> ''0x0000000000000000000000000000000000000000''
                       then tc\<lparr>tc_TokenSwapMap := mput swap (symbol @ ''_'' @ btoken) (tc_TokenSwapMap tc)\<rparr>
                       else tc)
             in LoadInitTokenInfo_rows dumpPath rs
                  (tc,
                   mput (HexToAddress swap) \<lparr>ti_Symbol = symbol, SwapToWeth = HexToAddress weth\<rparr> infos,
                   dirs @ [dumpPath @ ''/'' @ symbol @ ''_'' @ btoken]))))))"

definition LoadInitTokenInfo ::
    "TokenCollector \<Rightarrow> string list list \<Rightarrow> string
       \<Rightarrow> (TokenCollector \<times> (Address, TokenInfo) gomap \<times> string list) go" where
  "LoadInitTokenInfo tc rows dumpPath =
     LoadInitTokenInfo_rows dumpPath rows
       (tc\<lparr>tc_TokenSwapMap := [], DumpPath := dumpPath\<rparr>, [], [dumpPath])"

definition swap_topic :: string where
  "swap_topic = ''0xd78ad95fa46c994b6551d0da85fc275fe613ce37657fb8d5e3d130840159d822''"

definition DumpSwapEvent_path :: "SwapEvent \<Rightarrow> string \<Rightarrow> string" where
  "DumpSwapEvent_path s dumpPath =
     dumpPath @ ''/'' @ Address_hex (ev_Address (se_Event s)) @ ''/'' @ show_int (se_BlockNumber s)
     @ ''_'' @ show_int (se_TxIndex s) @ ''_'' @ show_nat (se_EventIndex s) @ ''.json''"

definition extractSwapEvent :: "TokenCollector \<Rightarrow> ExternalTx \<Rightarrow> Event \<Rightarrow> SwapEvent list" where
  "extractSwapEvent tc ex event =
     (if length (Topics event) > 0 \<and> Hash_Hex (Topics event ! 0) = swap_topic
         \<and> length (Topics event) = 3 \<and> mhas (TokenMap tc) (ev_Address event)
      then [\<lparr>se_BlockNumber = ex_BlockNumber ex, se_TxIndex = ex_TxIndex ex,
             se_EventIndex = ev_Index event, se_Event = event\<rparr>]
      else [])"

definition selector_text :: "bytes \<Rightarrow> string" where
  "selector_text b = (if length (Bytes2Hex b) \<ge> 8 then ''0x'' @ take 8 (Bytes2Hex b) else [])"

text \<open>The dictionary of swaps called, and the swap events written on the way.\<close>

fun collectTokenSwapUtil ::
    "TokenCollector \<Rightarrow> ExternalTx \<Rightarrow> InternalTx \<Rightarrow> dump_dict \<times> SwapEvent list \<Rightarrow> dump_dict \<times> SwapEvent list" where
  "collectTokenSwapUtil tc ex t (dict, evs) =
     (let callTo = Address_hex (itx_To t);
          dict = (if mhas (tc_TokenSwapMap tc) callTo \<and> selector_text (Input t) = ''0x022c0d9f''
                  then mput callTo (mget [] (tc_TokenSwapMap tc) callTo) dict else dict);
          (dict, evs) = fold (collectTokenSwapUtil tc ex) (InTxs t) (dict, evs)
      in (dict, evs @ concat (map (extractSwapEvent tc ex) (Events t))))"

declare collectTokenSwapUtil.simps [simp del]

definition CollectTokenSwap :: "TokenCollector \<Rightarrow> ExternalTx \<Rightarrow> bool \<Rightarrow> string list" where
  "CollectTokenSwap tc ex dumpBool =
     (let (dict, evs) = (if length (ex_InTxs ex) = 1
                         then collectTokenSwapUtil tc ex (ex_InTxs ex ! 0) ([], []) else ([], []))
      in map (\<lambda>e. DumpSwapEvent_path e ''hunter/tokenSwapEvents'') evs @
         (if dumpBool then map (\<lambda>(token, pair). DumpTree_path ex (DumpPath tc @ ''/'' @ pair)) dict else []))"

end
