(* ===== verification/Tx_Extract.thy ===== *)
theory Tx_Extract
  imports Tx_Collect
begin

text \<open>
  \<open>TxExtractor\<close> (\<open>hunter/defi/extractor.go\<close>): the walk over a recorded transaction that
  collects token transfers, attributes them to user actions on the application, and
  classifies them as deposits and withdrawals; the relation between users it maintains;
  and the choice of the merge mode. The mutable maps of the extractor are fields of a
  record that every operation returns updated. \<open>ActionInfo\<close> keeps references to the two
  address maps of its transaction, which grow until the walk ends: \<open>ExtractTokenTx\<close> gives
  the actions of the transaction the final maps.
\<close>

section \<open>Data\<close>

text \<open>The index of a transfer counts the transfers of one transaction (a \<open>uint\<close>, which no transaction makes overflow).\<close>

record TokenTx =
  tt_BlockNumber :: int
  tt_TxIndex :: int
  TransferIndex :: nat
  Sender :: Address
  tt_To :: Address
  tt_Amount :: int
  TokenAddress :: Address
  tt_Action :: string

type_synonym TokenTxMap = "(Address, TokenTx list) gomap"
type_synonym UserTokenTxMap = "(Address, TokenTxMap) gomap"
type_synonym addr_set = "(Address, bool) gomap"
type_synonym LogicABIMap = "(Address, ABI) gomap"

record ActionInfo =
  ai_Action :: string
  ai_Function :: string
  Initiator :: Address
  ai_BlockNumber :: int
  ai_TxIndex :: int
  TokenTxList :: "TokenTx list"
  UserSuppliedAddress :: addr_set
  ProxyRelatedAddress :: addr_set

record InputData =
  id_Data :: bytes
  id_Name :: string
  id_Args :: "abi_value list option"

record TxExtractor =
  Dapp :: string
  te_ProxyInfo :: ProxyInfo
  ProxyABIMap :: "(Address, LogicABIMap) gomap"
  te_UserTokenTxMap :: UserTokenTxMap
  te_UserRelatedMap :: UserRelatedMap
  ProxyRelatedAddresses :: addr_set
  ActionInfoList :: "(nat, ActionInfo) gomap"
  AddressCountMap :: "(Address, int) gomap"
  CommonAddressMap :: addr_set
  CommonRelatedUser :: addr_set
  RelatedToken :: "(Address, int) gomap"
  FlowMergeMode :: string
  LPTokenMap :: addr_set
  StableTokenMap :: "(Address, StableToken) gomap"
  te_TokenSwapMap :: "(Address, TokenSwap) gomap"
  MethodCountMap :: "(string, nat) gomap"
  RoleMap :: "(Address, string) gomap"
  RateMapPath :: string

abbreviation in_set :: "addr_set \<Rightarrow> Address \<Rightarrow> bool" where
  "in_set m a \<equiv> mget False m a"

abbreviation is_manager :: "TxExtractor \<Rightarrow> Address \<Rightarrow> bool" where
  "is_manager ex a \<equiv> mget [] (RoleMap ex) a = ''manager''"

definition LoadActionMap :: "(string, string list) gomap \<Rightarrow> (string, string) gomap" where
  "LoadActionMap temp_map = fold (\<lambda>(action, names). fold (\<lambda>name. mput name action) names) temp_map []"

text \<open>
  \<open>Init\<close>: the ABI files of a proxy are a parameter, from the directory of the proxy to its
  file names and from a file to its ABI.
\<close>

definition TxExtractor_Init ::
    "(string \<Rightarrow> string list) \<Rightarrow> (string \<Rightarrow> ABI) \<Rightarrow> string \<Rightarrow> TxExtractor \<Rightarrow> TxExtractor" where
  "TxExtractor_Init ReadDir LoadABIJSON defiPath ex =
     ex\<lparr>ProxyABIMap :=
          fold (\<lambda>proxy m.
              let dirPath = defiPath @ ''/'' @ Dapp ex @ ''/abi/'' @ Address_hex proxy
              in mput proxy
                   (fold (\<lambda>f l.
                        let addressString = hd (Split f (CHR ''.''))
                        in mput (HexToAddress addressString)
                             (LoadABIJSON (dirPath @ ''/'' @ addressString @ ''.json'')) l)
                      (ReadDir dirPath) []) m)
            (ProxyContracts (te_ProxyInfo ex)) [],
        LPTokenMap := fold (\<lambda>token. mput token True) (LPTokens (te_ProxyInfo ex)) []\<rparr>"

section \<open>Relations between users\<close>

definition updateUserRelatedMap :: "Address \<Rightarrow> Address \<Rightarrow> int \<Rightarrow> UserRelatedMap \<Rightarrow> UserRelatedMap" where
  "updateUserRelatedMap mainUser relatedUser blockNumber m =
     (if mainUser \<noteq> relatedUser
      then let m = (if \<not> mhas m mainUser then mput mainUser [] m else m);
               rel = mget [] m mainUser
           in if \<not> mhas rel relatedUser then mput mainUser (mput relatedUser blockNumber rel) m
              else if mget 0 rel relatedUser > blockNumber
              then mput mainUser (mput relatedUser blockNumber rel) m
              else m
      else m)"

section \<open>Events\<close>

text \<open>A \<open>TokenTx\<close> without block and transaction index, or no transfer.\<close>

definition extractEvent :: "Event \<Rightarrow> TokenTx option go" where
  "extractEvent event =
     (if is_transfer event
      then go_bind (transfer_value event) (\<lambda>v.
             Inr (Some \<lparr>tt_BlockNumber = 0, tt_TxIndex = 0, TransferIndex = 0,
                        Sender = topic_address event 1, tt_To = topic_address event 2,
                        tt_Amount = (case v of VBig n \<Rightarrow> n | _ \<Rightarrow> 0),
                        TokenAddress = ev_Address event, tt_Action = []\<rparr>))
      else Inr None)"

text \<open>A transfer of a liquidity token between two users relates the recipient to the sender.\<close>

definition relate_lp_transfer :: "int \<Rightarrow> TokenTx \<Rightarrow> TxExtractor \<Rightarrow> TxExtractor" where
  "relate_lp_transfer block tt ex =
     (if mhas (LPTokenMap ex) (TokenAddress tt) \<and> Sender tt \<noteq> 0 \<and> tt_To tt \<noteq> 0
         \<and> \<not> mhas (ProxyABIMap ex) (Sender tt) \<and> \<not> mhas (ProxyABIMap ex) (tt_To tt)
      then ex\<lparr>te_UserRelatedMap :=
                updateUserRelatedMap (tt_To tt) (Sender tt) block (te_UserRelatedMap ex)\<rparr>
      else ex)"

section \<open>The walk over a transaction\<close>

record walk =
  w_ex :: TxExtractor
  w_user :: addr_set
  w_proxy :: addr_set
  w_index :: nat

definition extractAction :: "bytes \<Rightarrow> ABI \<Rightarrow> TxExtractor \<Rightarrow> (InputData \<times> Method) option \<times> TxExtractor" where
  "extractAction input abi ex =
     (case MethodById abi input of
        Inl _ \<Rightarrow> (None, ex)
      | Inr method \<Rightarrow>
          let methodString = m_Name method @ ''(0x'' @ Bytes2Hex (m_ID method) @ '')'';
              args = (case Unpack (m_Inputs method) (drop 4 input) of Inl _ \<Rightarrow> None | Inr vs \<Rightarrow> Some vs)
          in (Some (\<lparr>id_Data = input, id_Name = methodString, id_Args = args\<rparr>, method),
              ex\<lparr>MethodCountMap := mincr methodString (MethodCountMap ex)\<rparr>))"

text \<open>\<open>inputData.Args[index].(common.Address)\<close>.\<close>

definition arg_address :: "abi_value list option \<Rightarrow> nat \<Rightarrow> Address go" where
  "arg_address args index =
     go_bind (go_index (case args of None \<Rightarrow> [] | Some vs \<Rightarrow> vs) index) (\<lambda>v.
       case v of VAddress a \<Rightarrow> Inr a | _ \<Rightarrow> Inl TypeAssertion)"

text \<open>One address argument of a call to the application: who it makes a user or a manager.\<close>

definition supply_argument :: "Address \<Rightarrow> InputData \<Rightarrow> nat \<Rightarrow> walk \<Rightarrow> walk go" where
  "supply_argument from d index w =
     go_bind
       (if in_set (w_user w) from
        then go_bind (arg_address (id_Args d) index) (\<lambda>a.
               Inr (if \<not> in_set (w_proxy w) a \<and> \<not> is_manager (w_ex w) a
                    then w\<lparr>w_user := mput a True (w_user w)\<rparr> else w))
        else Inr w)
       (\<lambda>w.
        if is_manager (w_ex w) from \<and> id_Name d \<noteq> ''transferFrom(0x23b872dd)''
           \<and> id_Name d \<noteq> ''transfer(0xa9059cbb)''
        then go_bind (arg_address (id_Args d) index) (\<lambda>a.
               Inr (w\<lparr>w_ex := (w_ex w)\<lparr>RoleMap := mput a ''manager'' (RoleMap (w_ex w))\<rparr>\<rparr>))
        else Inr w)"

definition supply_arguments :: "Address \<Rightarrow> InputData \<Rightarrow> Method \<Rightarrow> walk \<Rightarrow> walk go" where
  "supply_arguments from d method w =
     go_fold (\<lambda>(index, arg) w. if arg_Type arg = AddressTy then supply_argument from d index w else Inr w)
       (List.enumerate 0 (NonIndexed (m_Inputs method))) w"

text \<open>The loop over the logic contracts of a proxy, up to the first that has the method.\<close>

fun match_method :: "InternalTx \<Rightarrow> (Address \<times> ABI) list \<Rightarrow> string \<Rightarrow> walk \<Rightarrow> (string \<times> walk) go" where
  "match_method t [] methodString w = Inr (methodString, w)"
| "match_method t ((logic, abi) # rest) methodString w =
     (case extractAction (Input t) abi (w_ex w) of
        (None, ex) \<Rightarrow> match_method t rest [] (w\<lparr>w_ex := ex\<rparr>)
      | (Some (d, method), ex) \<Rightarrow>
          go_bind (supply_arguments (itx_From t) d method (w\<lparr>w_ex := ex\<rparr>)) (\<lambda>w. Inr (id_Name d, w)))"

text \<open>A call to a proxy of the application: is it a user action, and of which method.\<close>

definition visit_proxy_call :: "InternalTx \<Rightarrow> walk \<Rightarrow> (bool \<times> string \<times> walk) go" where
  "visit_proxy_call t w =
     (if mhas (ProxyABIMap (w_ex w)) (itx_To t) \<and> CallType t \<noteq> ''StaticCall''
      then let w = (if CallType t = ''Create''
                    then w\<lparr>w_ex := (w_ex w)\<lparr>RoleMap := mput (itx_From t) ''manager'' (RoleMap (w_ex w))\<rparr>\<rparr>
                    else w);
               action = in_set (w_user w) (itx_From t)
           in go_bind
                (if length (Input t) \<ge> 4
                 then match_method t (mget [] (ProxyABIMap (w_ex w)) (itx_To t)) ''none'' w
                 else Inr (''none'', w))
                (\<lambda>(methodString, w).
                   Inr (action, methodString, w\<lparr>w_proxy := mput (itx_To t) True (w_proxy w)\<rparr>))
      else Inr (False, ''none'', w))"

definition mark_callee :: "InternalTx \<Rightarrow> walk \<Rightarrow> walk" where
  "mark_callee t w =
     (if CallType t \<noteq> ''StaticCall'' \<and> CallType t \<noteq> ''DelegateCall''
         \<and> \<not> in_set (w_user w) (itx_To t) \<and> \<not> in_set (w_proxy w) (itx_To t)
      then if in_set (w_user w) (itx_From t) \<and> \<not> is_manager (w_ex w) (itx_To t)
           then w\<lparr>w_user := mput (itx_To t) True (w_user w)\<rparr>
           else if in_set (w_proxy w) (itx_From t)
           then w\<lparr>w_proxy := mput (itx_To t) True (w_proxy w)\<rparr>
           else w
      else w)"

definition ether_transfer :: "ExternalTx \<Rightarrow> InternalTx \<Rightarrow> walk \<Rightarrow> TokenTx list \<times> walk" where
  "ether_transfer ex t w =
     (case itx_Value t of
        Some v \<Rightarrow>
          if v > 0
          then ([\<lparr>tt_BlockNumber = ex_BlockNumber ex, tt_TxIndex = ex_TxIndex ex,
                  TransferIndex = w_index w, Sender = itx_From t, tt_To = itx_To t,
                  tt_Amount = v, TokenAddress = HexToAddress ''0x0'', tt_Action = []\<rparr>],
                w\<lparr>w_index := w_index w + 1\<rparr>)
          else ([], w)
      | None \<Rightarrow> ([], w))"

definition own_event :: "ExternalTx \<Rightarrow> Event \<Rightarrow> TokenTx list \<times> walk \<Rightarrow> (TokenTx list \<times> walk) go" where
  "own_event ex event s =
     (case s of (l, w) \<Rightarrow>
        go_bind (extractEvent event) (\<lambda>r.
          let i = w_index w; w = w\<lparr>w_index := i + 1\<rparr>
          in Inr (case r of
               None \<Rightarrow> (l, w)
             | Some tt \<Rightarrow>
                 let tt = tt\<lparr>TransferIndex := i, tt_BlockNumber := ex_BlockNumber ex,
                             tt_TxIndex := ex_TxIndex ex\<rparr>
                 in (l @ [tt], w\<lparr>w_ex := relate_lp_transfer (ex_BlockNumber ex) tt (w_ex w)\<rparr>))))"

text \<open>The end of a user action: count its addresses and append it to the action list.\<close>

definition count_addresses :: "TokenTx list \<Rightarrow> TxExtractor \<Rightarrow> TxExtractor" where
  "count_addresses l ex =
     ex\<lparr>AddressCountMap :=
          fold (\<lambda>tt c.
              if \<not> mhas (ProxyABIMap ex) (TokenAddress tt) \<and> Sender tt \<noteq> 0 \<and> tt_To tt \<noteq> 0
              then mincr (tt_To tt) (mincr (Sender tt) c) else c)
            l (AddressCountMap ex)\<rparr>"

definition close_action ::
    "ExternalTx \<Rightarrow> InternalTx \<Rightarrow> string \<Rightarrow> TokenTx list \<Rightarrow> walk \<Rightarrow> walk" where
  "close_action ex t methodString l w =
     (let x = count_addresses l (w_ex w)
      in w\<lparr>w_ex := x\<lparr>ActionInfoList :=
             mput (length (ActionInfoList x))
               \<lparr>ai_Action = ''none'', ai_Function = methodString, Initiator = itx_From t,
                ai_BlockNumber = ex_BlockNumber ex, ai_TxIndex = ex_TxIndex ex, TokenTxList = l,
                UserSuppliedAddress = w_user w, ProxyRelatedAddress = w_proxy w\<rparr>
               (ActionInfoList x)\<rparr>\<rparr>)"

fun extractInTxInfo :: "ExternalTx \<Rightarrow> InternalTx \<Rightarrow> walk \<Rightarrow> (TokenTx list \<times> walk) go" where
  "extractInTxInfo ex t w =
     go_bind (visit_proxy_call t w) (\<lambda>(action, methodString, w).
     go_bind
       (go_fold (\<lambda>Tx (l, w). go_bind (extractInTxInfo ex Tx w) (\<lambda>(l', w). Inr (l @ l', w)))
          (InTxs t) (ether_transfer ex t (mark_callee t w))) (\<lambda>s.
     go_bind (go_fold (own_event ex) (Events t) s) (\<lambda>(l, w).
       Inr (if action then ([], close_action ex t methodString l w) else (l, w)))))"

declare extractInTxInfo.simps [simp del]

text \<open>The shared address maps of the actions of the transaction are final when the walk ends.\<close>

definition settle_actions :: "nat \<Rightarrow> walk \<Rightarrow> TxExtractor" where
  "settle_actions n w =
     (w_ex w)\<lparr>ActionInfoList :=
        map (\<lambda>(k, a). (k, if n \<le> k then a\<lparr>UserSuppliedAddress := w_user w,
                                         ProxyRelatedAddress := w_proxy w\<rparr> else a))
          (ActionInfoList (w_ex w))\<rparr>"

definition ExtractTokenTx :: "ExternalTx \<Rightarrow> TxExtractor \<Rightarrow> TxExtractor go" where
  "ExtractTokenTx ex x =
     (if length (ex_InTxs ex) = 1
      then let t = ex_InTxs ex ! 0;
               w = \<lparr>w_ex = x, w_user = [(itx_From t, True)],
                    w_proxy = fold (\<lambda>proxy. mput proxy True) (mkeys (ProxyABIMap x)) [], w_index = 0\<rparr>
           in go_bind (extractInTxInfo ex t w) (\<lambda>(l, w).
                let x = settle_actions (length (ActionInfoList x)) w
                in Inr (x\<lparr>ProxyRelatedAddresses :=
                     fold (\<lambda>a. mput a True) (mkeys (w_proxy w)) (ProxyRelatedAddresses x)\<rparr>))
      else Inr x)"

section \<open>Liquidity token transactions\<close>

fun extractInTxForStake :: "ExternalTx \<Rightarrow> InternalTx \<Rightarrow> TxExtractor \<Rightarrow> TxExtractor go" where
  "extractInTxForStake ex t x =
     go_bind (go_fold (extractInTxForStake ex) (InTxs t) x)
       (go_fold (\<lambda>event x. go_bind (extractEvent event) (\<lambda>r.
            Inr (case r of None \<Rightarrow> x | Some tt \<Rightarrow> relate_lp_transfer (ex_BlockNumber ex) tt x)))
          (Events t))"

declare extractInTxForStake.simps [simp del]

definition ExtractStakeTokenTx :: "ExternalTx \<Rightarrow> TxExtractor \<Rightarrow> TxExtractor go" where
  "ExtractStakeTokenTx ex x =
     (if length (ex_InTxs ex) = 1 then extractInTxForStake ex (ex_InTxs ex ! 0) x else Inr x)"

section \<open>Reading the recorded transactions\<close>

text \<open>
  The transaction files are a parameter: the names in a directory, and the transaction of
  a path. The block of a file is the decimal text before the underscore of its name.
\<close>

definition file_block :: "string \<Rightarrow> int" where
  "file_block name = ParseUint64 (hd (Split (hd (Split name (CHR ''.''))) (CHR ''_'')))"

definition InitTokenUserTxMap ::
    "(string \<Rightarrow> string list) \<Rightarrow> (string \<Rightarrow> ExternalTx) \<Rightarrow> int \<Rightarrow> int \<Rightarrow> string \<Rightarrow> TxExtractor \<Rightarrow> TxExtractor go" where
  "InitTokenUserTxMap ReadDir LoadTx startBlock endBlock path x =
     go_bind
       (go_fold (\<lambda>proxy s.
            let proxy_tx_path = path @ Dapp x @ ''/historyTx/'' @ Address_hex proxy @ ''/''
            in go_fold (\<lambda>f (used, x).
                 if mhas used f then Inr (used, x)
                 else let used = mput f True used
                      in if file_block f \<le> endBlock \<and> file_block f \<ge> startBlock
                         then go_bind (ExtractTokenTx (LoadTx (proxy_tx_path @ f)) x) (\<lambda>x. Inr (used, x))
                         else Inr (used, x))
               (ReadDir proxy_tx_path) s)
          (ProxyContracts (te_ProxyInfo x)) ([] :: (string, bool) gomap, x))
       (\<lambda>(used, x). Inr x)"

definition InitUserRelatedMapWithStake ::
    "(string \<Rightarrow> string list) \<Rightarrow> (string \<Rightarrow> ExternalTx) \<Rightarrow> int \<Rightarrow> int \<Rightarrow> string \<Rightarrow> TxExtractor \<Rightarrow> TxExtractor go" where
  "InitUserRelatedMapWithStake ReadDir LoadTx startBlock endBlock path x =
     go_fold (\<lambda>stake x.
         let stake_tx_path = path @ Dapp x @ ''/historyTx/'' @ Address_hex stake @ ''/''
         in go_fold (\<lambda>f x.
              if file_block f \<le> endBlock \<and> file_block f \<ge> startBlock
              then ExtractStakeTokenTx (LoadTx (stake_tx_path @ f)) x else Inr x)
            (ReadDir stake_tx_path) x)
       (LPTokens (te_ProxyInfo x)) x"

section \<open>The relation of users keeps the earliest block\<close>

text \<open>
  Seen through lookups, \<open>updateUserRelatedMap\<close> takes a minimum: a pair of different users is
  related from the earliest block in which any update related them.
\<close>

definition related_from :: "UserRelatedMap \<Rightarrow> Address \<Rightarrow> Address \<Rightarrow> int option" where
  "related_from m u r = map_of (mget [] m u) r"

definition min_opt :: "int option \<Rightarrow> int \<Rightarrow> int option" where
  "min_opt o' b = Some (case o' of None \<Rightarrow> b | Some c \<Rightarrow> min c b)"

lemma related_from_update:
  "related_from (updateUserRelatedMap u r b m) u' r' =
     (if u \<noteq> r \<and> u' = u \<and> r' = r then min_opt (related_from m u r) b else related_from m u' r')"
  by (auto simp: updateUserRelatedMap_def Let_def related_from_def min_opt_def gomap_simps
      update_conv' mhas_def mget_def [of 0] min_def split: option.splits)
    (auto simp: mget_def split: option.splits)

definition update_blocks :: "(Address \<times> Address \<times> int) list \<Rightarrow> Address \<Rightarrow> Address \<Rightarrow> int list" where
  "update_blocks us u r = map (\<lambda>(_, _, b). b) (filter (\<lambda>(u', r', _). u' = u \<and> r' = r) us)"

lemma related_from_fold:
  "related_from (fold (\<lambda>(u, r, b). updateUserRelatedMap u r b) us m) u r =
     (if u = r then related_from m u r else fold (\<lambda>b o'. min_opt o' b) (update_blocks us u r) (related_from m u r))"
  by (induction us arbitrary: m) (auto simp: update_blocks_def related_from_update)

lemma fold_min_opt_Some: "fold (\<lambda>b o'. min_opt o' b) bs (Some c) = Some (Min (insert c (set bs)))"
proof (induction bs arbitrary: c)
  case (Cons b bs)
  then show ?case
    by (cases "bs = []") (simp_all add: min_opt_def insert_commute min.assoc)
qed simp

text \<open>
  C37: after any sequence of updates that starts from an empty relation, two different users
  are related exactly when some update related them, and the recorded block is the
  earliest of those updates; no user is ever related to itself.
\<close>

theorem updateUserRelatedMap_earliest:
  "related_from (fold (\<lambda>(u, r, b). updateUserRelatedMap u r b) us []) u r =
     (if u = r \<or> update_blocks us u r = [] then None else Some (Min (set (update_blocks us u r))))"
proof -
  have e: "related_from [] u' r' = None" for u' r' by (simp add: related_from_def)
  show ?thesis
  proof (cases "update_blocks us u r")
    case (Cons b bs)
    then have "fold (\<lambda>b o'. min_opt o' b) (update_blocks us u r) None = Some (Min (set (update_blocks us u r)))"
      using fold_min_opt_Some [of bs b] by (simp add: min_opt_def)
    with Cons show ?thesis by (simp add: related_from_fold e)
  qed (simp add: related_from_fold e)
qed

section \<open>The transfers of a transaction\<close>

text \<open>
  A segment of the walk: the transfers it returns and the actions it appends carry the
  block and index of the transaction, their transfer indices are increasing within a list,
  pairwise different overall, and lie between the counters before and after.
\<close>

abbreviation acts :: "walk \<Rightarrow> (nat, ActionInfo) gomap" where
  "acts w \<equiv> ActionInfoList (w_ex w)"

definition keys_ok :: "(nat, 'a) gomap \<Rightarrow> bool" where
  "keys_ok m \<longleftrightarrow> mkeys m = [0..<length m]"

definition action_txs :: "(nat, ActionInfo) gomap \<Rightarrow> TokenTx list" where
  "action_txs m = concat (map (\<lambda>(k, a). TokenTxList a) m)"

definition increasing :: "TokenTx list \<Rightarrow> bool" where
  "increasing l \<longleftrightarrow> sorted_wrt (<) (map TransferIndex l)"

definition of_tx :: "ExternalTx \<Rightarrow> TokenTx \<Rightarrow> bool" where
  "of_tx ex tt \<longleftrightarrow> tt_BlockNumber tt = ex_BlockNumber ex \<and> tt_TxIndex tt = ex_TxIndex ex"

definition actions_of :: "ExternalTx \<Rightarrow> (nat, ActionInfo) gomap \<Rightarrow> bool" where
  "actions_of ex new \<longleftrightarrow> (\<forall>(k, a) \<in> set new. increasing (TokenTxList a) \<and>
     ai_BlockNumber a = ex_BlockNumber ex \<and> ai_TxIndex a = ex_TxIndex ex)"

definition spans :: "ExternalTx \<Rightarrow> nat \<Rightarrow> nat \<Rightarrow> TokenTx list \<Rightarrow> bool" where
  "spans ex lo hi l \<longleftrightarrow> distinct (map TransferIndex l) \<and>
     (\<forall>tt \<in> set l. of_tx ex tt \<and> lo \<le> TransferIndex tt \<and> TransferIndex tt < hi)"

definition segment :: "ExternalTx \<Rightarrow> walk \<Rightarrow> TokenTx list \<Rightarrow> walk \<Rightarrow> bool" where
  "segment ex w l w' \<longleftrightarrow> (keys_ok (acts w) \<longrightarrow> keys_ok (acts w')) \<and> w_index w \<le> w_index w' \<and>
     (keys_ok (acts w) \<longrightarrow> (\<exists>new. acts w' = acts w @ new \<and> actions_of ex new \<and> increasing l \<and>
        spans ex (w_index w) (w_index w') (l @ action_txs new)))"

lemma action_txs_append [simp]: "action_txs (m @ m') = action_txs m @ action_txs m'"
  by (simp add: action_txs_def)

lemma action_txs_Nil [simp]: "action_txs [] = []"
  by (simp add: action_txs_def)

lemma segmentI_quiet:
  "acts w' = acts w \<Longrightarrow> w_index w' = w_index w \<Longrightarrow> segment ex w [] w'"
  by (auto simp: segment_def actions_of_def increasing_def spans_def)

lemma spans_less:
  "spans ex a b l \<Longrightarrow> spans ex b c l' \<Longrightarrow> x \<in> set l \<Longrightarrow> y \<in> set l' \<Longrightarrow> TransferIndex x < TransferIndex y"
  unfolding spans_def by (meson less_le_trans)

lemma spans_append:
  assumes "spans ex a b l" and "spans ex b c l'" and "a \<le> b" and "b \<le> c"
  shows "spans ex a c (l @ l')"
proof -
  have "TransferIndex x \<noteq> TransferIndex y" if "x \<in> set l" "y \<in> set l'" for x y
    using spans_less [OF assms(1,2) that] by simp
  then have "distinct (map TransferIndex (l @ l'))"
    using assms(1,2) by (auto simp: spans_def)
  moreover have "of_tx ex tt \<and> a \<le> TransferIndex tt \<and> TransferIndex tt < c" if "tt \<in> set (l @ l')" for tt
    using that assms unfolding spans_def by (metis Un_iff le_trans less_le_trans set_append)
  ultimately show ?thesis by (simp add: spans_def)
qed

lemma spans_perm: "spans ex a b l \<Longrightarrow> mset l' = mset l \<Longrightarrow> spans ex a b l'"
  unfolding spans_def by (metis mset_eq_imp_distinct_iff mset_eq_setD mset_map)

lemma segment_trans:
  assumes "segment ex w l w'" and "segment ex w' l' w''"
  shows "segment ex w (l @ l') w''"
proof (cases "keys_ok (acts w)")
  case True
  with assms obtain new new' where n: "acts w' = acts w @ new" "actions_of ex new" "increasing l"
      "spans ex (w_index w) (w_index w') (l @ action_txs new)"
    and n': "acts w'' = acts w' @ new'" "actions_of ex new'" "increasing l'"
      "spans ex (w_index w') (w_index w'') (l' @ action_txs new')"
    unfolding segment_def by blast
  have le: "w_index w \<le> w_index w'" "w_index w' \<le> w_index w''" using assms by (auto simp: segment_def)
  have "increasing (l @ l')"
    using n(3) n'(3) spans_less [OF n(4) n'(4)] by (auto simp: increasing_def sorted_wrt_append)
  moreover have "spans ex (w_index w) (w_index w'') ((l @ l') @ action_txs (new @ new'))"
    by (rule spans_perm [OF spans_append [OF n(4) n'(4) le]]) simp
  ultimately show ?thesis
    using True assms n(1,2) n'(1,2) le unfolding segment_def
    by (intro conjI impI exI [of _ "new @ new'"]) (auto simp: actions_of_def)
next
  case False
  with assms show ?thesis by (auto simp: segment_def)
qed

lemma segmentI_single:
  "acts w' = acts w \<Longrightarrow> w_index w' = w_index w + 1 \<Longrightarrow> of_tx ex tt \<Longrightarrow>
     TransferIndex tt = w_index w \<Longrightarrow> segment ex w [tt] w'"
  by (auto simp: segment_def actions_of_def increasing_def spans_def intro!: exI [of _ "[]"])

lemma segment_event:
  assumes "own_event ex e (l, w) = Inr (l', w')"
  shows "\<exists>l''. l' = l @ l'' \<and> segment ex w l'' w'"
proof -
  from assms obtain r where r: "extractEvent e = Inr r"
    and s: "own_event ex e (l, w) = Inr (l', w')" by (auto simp: own_event_def elim: go_bind_InrE)
  have acts_rel: "ActionInfoList (relate_lp_transfer b tt x) = ActionInfoList x" for b tt x
    by (simp add: relate_lp_transfer_def)
  show ?thesis
  proof (cases r)
    case None
    with r s have "l' = l" "w' = w\<lparr>w_index := w_index w + 1\<rparr>" by (auto simp: own_event_def Let_def)
    then show ?thesis
      by (auto simp: segment_def actions_of_def increasing_def spans_def intro!: exI [of _ "[]"])
  next
    case (Some tt)
    with r s show ?thesis
      by (auto simp: own_event_def Let_def of_tx_def acts_rel intro!: segmentI_single)
  qed
qed

lemma segment_events:
  assumes "go_fold (own_event ex) es (l, w) = Inr (l', w')"
  shows "\<exists>l''. l' = l @ l'' \<and> segment ex w l'' w'"
  using assms
proof (induction es arbitrary: l w)
  case Nil
  then show ?case by (auto intro!: segmentI_quiet)
next
  case (Cons e es)
  then obtain l1 w1 where s: "own_event ex e (l, w) = Inr (l1, w1)"
    and "go_fold (own_event ex) es (l1, w1) = Inr (l', w')"
    by (auto elim!: go_bind_InrE)
  from segment_event [OF s] Cons.IH [OF this(2)] show ?case
    by (metis append.assoc segment_trans)
qed

lemma segment_ether:
  "ether_transfer ex t w = (l, w') \<Longrightarrow> segment ex w l w'"
  by (auto simp: ether_transfer_def of_tx_def split: option.splits if_splits
      intro!: segmentI_single segmentI_quiet)

lemma segment_mark_callee: "segment ex w [] (mark_callee t w)"
  by (rule segmentI_quiet) (auto simp: mark_callee_def)

text \<open>Nothing in the visit of a proxy call touches the actions or the transfer counter.\<close>

definition quiet :: "walk \<Rightarrow> walk \<Rightarrow> bool" where
  "quiet w w' \<longleftrightarrow> acts w' = acts w \<and> w_index w' = w_index w"

lemma quiet_refl [simp]: "quiet w w"
  by (simp add: quiet_def)

lemma quiet_trans: "quiet w w' \<Longrightarrow> quiet w' w'' \<Longrightarrow> quiet w w''"
  by (simp add: quiet_def)

lemma quiet_updates [simp]:
  "quiet w (w\<lparr>w_user := u\<rparr>)" "quiet w (w\<lparr>w_ex := (w_ex w)\<lparr>RoleMap := r\<rparr>\<rparr>)"
  by (simp_all add: quiet_def)

lemma if_InrE:
  assumes "(if P then a else b) = Inr x"
  obtains "P" "a = Inr x" | "\<not> P" "b = Inr x"
  using assms by (auto split: if_splits)

lemma quiet_supply_argument:
  assumes "supply_argument f d i w = Inr w'"
  shows "quiet w w'"
proof -
  from assms obtain v where
    "(if in_set (w_user w) f
      then go_bind (arg_address (id_Args d) i) (\<lambda>a.
             Inr (if \<not> in_set (w_proxy w) a \<and> \<not> is_manager (w_ex w) a
                  then w\<lparr>w_user := mput a True (w_user w)\<rparr> else w))
      else Inr w) = Inr v"
    and 2: "(if is_manager (w_ex v) f \<and> id_Name d \<noteq> ''transferFrom(0x23b872dd)''
        \<and> id_Name d \<noteq> ''transfer(0xa9059cbb)''
      then go_bind (arg_address (id_Args d) i) (\<lambda>a.
             Inr (v\<lparr>w_ex := (w_ex v)\<lparr>RoleMap := mput a ''manager'' (RoleMap (w_ex v))\<rparr>\<rparr>))
      else Inr v) = Inr w'"
    unfolding supply_argument_def by (erule go_bind_InrE)
  from this(1) have "quiet w v"
    by (elim if_InrE go_bind_InrE) (auto split: if_splits)
  moreover from 2 have "quiet v w'"
    by (elim if_InrE go_bind_InrE) auto
  ultimately show ?thesis by (rule quiet_trans)
qed

lemma quiet_supply_arguments:
  assumes "supply_arguments f d m w = Inr w'"
  shows "quiet w w'"
proof (rule go_fold_invariant [OF assms [unfolded supply_arguments_def]])
  fix x v v'
  assume v: "quiet w v"
    and "(case x of (i, arg) \<Rightarrow> \<lambda>w. if arg_Type arg = AddressTy then supply_argument f d i w else Inr w) v = Inr v'"
  then have "quiet v v'"
    by (auto split: prod.splits if_splits dest: quiet_supply_argument)
  with v show "quiet w v'" by (rule quiet_trans)
qed simp

lemma quiet_match_method: "match_method t logics s w = Inr (s', w') \<Longrightarrow> quiet w w'"
proof (induction t logics s w rule: match_method.induct)
  case (2 t logic abi rest s w)
  from "2.prems" consider
    "\<exists>ex. extractAction (Input t) abi (w_ex w) = (None, ex)"
    | d m ex where "extractAction (Input t) abi (w_ex w) = (Some (d, m), ex)"
    by (cases "extractAction (Input t) abi (w_ex w)") (metis option.exhaust surj_pair)
  then show ?case
  proof cases
    case 1
    then obtain ex where e: "extractAction (Input t) abi (w_ex w) = (None, ex)" by blast
    then have "ex = w_ex w" by (auto simp: extractAction_def Let_def split: sum.splits)
    with "2.IH" [OF e [symmetric]] e "2.prems" show ?thesis by (simp add: quiet_def)
  next
    case 2
    then have "ActionInfoList ex = acts w"
      by (auto simp: extractAction_def Let_def split: sum.splits)
    with 2 "2.prems" show ?thesis
      by (auto simp: go_bind_Inr_iff quiet_def dest!: quiet_supply_arguments)
  qed
qed (simp add: quiet_def)

lemma quiet_visit: "visit_proxy_call t w = Inr (a, s, w') \<Longrightarrow> quiet w w'"
  by (auto simp: visit_proxy_call_def Let_def go_bind_Inr_iff quiet_def
      split: if_splits dest!: quiet_match_method)

lemma update_append_fresh: "k \<notin> set (mkeys m) \<Longrightarrow> mput k v m = m @ [(k, v)]"
  by (induction m) auto

lemma segment_close:
  assumes "segment ex w l w'"
  shows "segment ex w [] (close_action ex t s l w')"
proof (cases "keys_ok (acts w)")
  case True
  with assms obtain new where n: "acts w' = acts w @ new" "actions_of ex new" "increasing l"
    "spans ex (w_index w) (w_index w') (l @ action_txs new)" and k: "keys_ok (acts w')"
    unfolding segment_def by blast
  let ?a = "\<lparr>ai_Action = ''none'', ai_Function = s, Initiator = itx_From t,
      ai_BlockNumber = ex_BlockNumber ex, ai_TxIndex = ex_TxIndex ex, TokenTxList = l,
      UserSuppliedAddress = w_user w', ProxyRelatedAddress = w_proxy w'\<rparr>"
  have "length (acts w') \<notin> set (mkeys (acts w'))" using k unfolding keys_ok_def by simp
  then have c: "acts (close_action ex t s l w') = acts w' @ [(length (acts w'), ?a)]"
    by (simp add: close_action_def count_addresses_def update_append_fresh)
  have "spans ex (w_index w) (w_index w') (action_txs (new @ [(length (acts w'), ?a)]))"
    by (rule spans_perm [OF n(4)]) (simp add: action_txs_def)
  with c n(1-3) k show ?thesis using assms
    by (auto simp: segment_def keys_ok_def actions_of_def increasing_def close_action_def Let_def)
next
  case False
  with assms show ?thesis by (simp add: segment_def close_action_def Let_def)
qed

lemma segment_children:
  assumes "\<And>x w l w'. x \<in> set ts \<Longrightarrow> F x w = Inr (l, w') \<Longrightarrow> segment ex w l w'"
    and "go_fold (\<lambda>Tx (l, w). go_bind (F Tx w) (\<lambda>(l', w). Inr (l @ l', w))) ts (l, w) = Inr (l', w')"
  shows "\<exists>l''. l' = l @ l'' \<and> segment ex w l'' w'"
  using assms
proof (induction ts arbitrary: l w)
  case Nil
  then show ?case by (auto intro!: segmentI_quiet)
next
  case (Cons t ts)
  from Cons.prems(2) obtain l1 w1 where s: "F t w = Inr (l1, w1)"
    and f: "go_fold (\<lambda>Tx (l, w). go_bind (F Tx w) (\<lambda>(l', w). Inr (l @ l', w))) ts (l @ l1, w1) = Inr (l', w')"
    by (auto simp: go_bind_Inr_iff)
  from Cons.IH [OF _ f] Cons.prems(1) obtain l2 where "l' = (l @ l1) @ l2" "segment ex w1 l2 w'"
    by (metis list.set_intros(2))
  moreover have "segment ex w l1 w1" by (rule Cons.prems(1) [OF _ s]) simp
  ultimately show ?case by (auto intro: segment_trans)
qed

lemma segment_walk: "extractInTxInfo ex t w = Inr (l, w') \<Longrightarrow> segment ex w l w'"
proof (induction t arbitrary: w l w' rule: tree_steps.induct)
  case (1 t)
  from "1.prems" obtain a s w1 l2 w2 l3 w3 where
    v: "visit_proxy_call t w = Inr (a, s, w1)" and
    c: "go_fold (\<lambda>Tx (l, w). go_bind (extractInTxInfo ex Tx w) (\<lambda>(l', w). Inr (l @ l', w)))
          (InTxs t) (ether_transfer ex t (mark_callee t w1)) = Inr (l2, w2)" and
    e: "go_fold (own_event ex) (Events t) (l2, w2) = Inr (l3, w3)" and
    r: "(l, w') = (if a then ([], close_action ex t s l3 w3) else (l3, w3))"
    by (subst (asm) extractInTxInfo.simps) (auto simp: go_bind_Inr_iff)
  obtain l0 w0 where m: "ether_transfer ex t (mark_callee t w1) = (l0, w0)" by (meson surj_pair)
  have q: "segment ex w [] w1" using quiet_visit [OF v] by (auto simp: quiet_def intro: segmentI_quiet)
  have s0: "segment ex w l0 w0"
    using segment_trans [OF segment_trans [OF q segment_mark_callee] segment_ether [OF m]] by simp
  obtain l2' where "l2 = l0 @ l2'" "segment ex w0 l2' w2"
    using segment_children [where F = "extractInTxInfo ex", OF _ c [unfolded m]] "1.IH" by blast
  moreover obtain l3' where "l3 = l2 @ l3'" "segment ex w2 l3' w3"
    using segment_events [OF e] by blast
  ultimately have "segment ex w l3 w3" using s0 by (metis segment_trans)
  with r segment_close [OF this, of t s] show ?case by (cases a) simp_all
qed

lemma keys_ok_appended:
  assumes "keys_ok m" and "keys_ok (m @ new)"
  shows "mkeys new = [length m..<length m + length new]"
proof -
  have m: "mkeys m = [0..<length m]" using assms(1) by (simp add: keys_ok_def)
  have "mkeys m @ mkeys new = [0..<length m + length new]"
    using assms(2) by (simp add: keys_ok_def)
  also have "\<dots> = mkeys m @ [length m..<length m + length new]"
    unfolding m using upt_add_eq_append [of 0 "length m" "length new"] by simp
  finally show ?thesis by simp
qed

lemma mem_mkeys: "(k, a) \<in> set m \<Longrightarrow> k \<in> set (mkeys m)"
  by force

lemma keys_ok_split:
  assumes "keys_ok m" and "keys_ok (m @ new)"
  shows "(k, a) \<in> set m \<Longrightarrow> k < length m" and "(k, a) \<in> set new \<Longrightarrow> length m \<le> k"
  using assms(1) keys_ok_appended [OF assms] mem_mkeys [of k a m] mem_mkeys [of k a new]
  by (simp_all add: keys_ok_def del: set_map)

text \<open>
  C3: extracting a transaction appends user actions and changes none that were there. The
  token transfers of the new actions carry the block and the index of the transaction;
  their transfer indices are pairwise different over the whole transaction and increase
  within every action, so that block, transaction index and transfer index order them
  strictly. Actions stay numbered from zero without gaps.
\<close>

theorem ExtractTokenTx_actions:
  assumes "ExtractTokenTx ex x = Inr x'" and "keys_ok (ActionInfoList x)"
  shows "\<exists>new. ActionInfoList x' = ActionInfoList x @ new \<and> keys_ok (ActionInfoList x') \<and>
     distinct (map TransferIndex (action_txs new)) \<and>
     (\<forall>tt \<in> set (action_txs new). tt_BlockNumber tt = ex_BlockNumber ex \<and> tt_TxIndex tt = ex_TxIndex ex) \<and>
     (\<forall>(k, a) \<in> set new. increasing (TokenTxList a) \<and> ai_BlockNumber a = ex_BlockNumber ex
        \<and> ai_TxIndex a = ex_TxIndex ex)"
proof (cases "length (ex_InTxs ex) = 1")
  case False
  with assms show ?thesis by (simp add: ExtractTokenTx_def)
next
  case True
  define w where "w = \<lparr>w_ex = x, w_user = [(itx_From (ex_InTxs ex ! 0), True)],
      w_proxy = fold (\<lambda>proxy. mput proxy True) (mkeys (ProxyABIMap x)) [], w_index = 0\<rparr>"
  from True assms(1) obtain l w' where r: "extractInTxInfo ex (ex_InTxs ex ! 0) w = Inr (l, w')"
    and x': "ActionInfoList x' = ActionInfoList (settle_actions (length (ActionInfoList x)) w')"
    by (auto simp: ExtractTokenTx_def w_def Let_def go_bind_Inr_iff)
  from segment_walk [OF r] assms(2) obtain new where
    n: "acts w' = ActionInfoList x @ new" "actions_of ex new" "spans ex 0 (w_index w') (l @ action_txs new)"
    and k: "keys_ok (acts w')"
    by (auto simp: segment_def w_def)
  define f :: "nat \<times> ActionInfo \<Rightarrow> nat \<times> ActionInfo"
    where "f = (\<lambda>(k, a). (k, a\<lparr>UserSuppliedAddress := w_user w', ProxyRelatedAddress := w_proxy w'\<rparr>))"
  have "map (\<lambda>(k, a). (k, if length (ActionInfoList x) \<le> k
        then a\<lparr>UserSuppliedAddress := w_user w', ProxyRelatedAddress := w_proxy w'\<rparr> else a))
      (ActionInfoList x @ new) = ActionInfoList x @ map f new"
    using keys_ok_split [OF assms(2) k [unfolded n(1)]]
    by (fastforce simp: f_def intro!: map_idI)
  then have "ActionInfoList x' = ActionInfoList x @ map f new"
    by (simp add: x' settle_actions_def n(1))
  moreover have "keys_ok (ActionInfoList x @ map f new)"
    using k unfolding n(1) keys_ok_def f_def by (auto simp: o_def split_def)
  moreover have "action_txs (map f new) = action_txs new"
    by (simp add: action_txs_def f_def o_def split_def)
  ultimately show ?thesis
    using n(2,3) by (auto simp: actions_of_def spans_def of_tx_def f_def)
qed

text \<open>A small extractor with one proxy, and a deposit of ether to it, for the examples below.\<close>

definition sample_extractor :: TxExtractor where
  "sample_extractor = \<lparr>Dapp = ''app'',
     te_ProxyInfo = \<lparr>pi_Name = ''app'', CreateAt = Some 0, pi_Deposit = [], pi_Withdraw = [],
       ProxyContracts = [7], LPTokens = [9]\<rparr>,
     ProxyABIMap = [(7, [])], te_UserTokenTxMap = [], te_UserRelatedMap = [],
     ProxyRelatedAddresses = [], ActionInfoList = [], AddressCountMap = [], CommonAddressMap = [],
     CommonRelatedUser = [], RelatedToken = [], FlowMergeMode = [], LPTokenMap = [(9, True)],
     StableTokenMap = [], te_TokenSwapMap = [], MethodCountMap = [], RoleMap = [],
     RateMapPath = ''rates''\<rparr>"

definition sample_tx :: ExternalTx where
  "sample_tx = \<lparr>ex_BlockNumber = 12, ex_Timestamp = 0, ex_TxIndex = 3,
     ex_InTxs = [InternalTx 5 7 True (Some 100) ''Call'' [] [] [InternalTx 7 6 True (Some 40) ''Call'' [] [] []]]\<rparr>"

lemmas walk_defs = ExtractTokenTx_def extractInTxInfo.simps [of _ "InternalTx f t c v k i e s" for f t c v k i e s]
  visit_proxy_call_def mark_callee_def
  ether_transfer_def close_action_def count_addresses_def settle_actions_def mhas_def mget_def Let_def

lemma sample_runs:
  "\<not> isl (ExtractTokenTx sample_tx sample_extractor)"
  "map (\<lambda>(k, a). map TransferIndex (TokenTxList a))
     (ActionInfoList (projr (ExtractTokenTx sample_tx sample_extractor))) = [[0, 1]]"
  by (simp_all add: sample_tx_def sample_extractor_def walk_defs)

theorem ExtractTokenTx_actions_witness:
  "\<exists>new. ActionInfoList (projr (ExtractTokenTx sample_tx sample_extractor)) = new \<and> length new = 1 \<and>
     distinct (map TransferIndex (action_txs new)) \<and> keys_ok new"
proof -
  have "keys_ok (ActionInfoList sample_extractor)" and e: "ActionInfoList sample_extractor = []"
    by (simp_all add: keys_ok_def sample_extractor_def)
  with ExtractTokenTx_actions [of sample_tx sample_extractor "projr (ExtractTokenTx sample_tx sample_extractor)"]
    sample_runs(1) arg_cong [OF sample_runs(2), of length]
  show ?thesis by (auto simp: sum.collapse)
qed

section \<open>When the walk cannot panic\<close>

text \<open>
  The walk reads the amount of a transfer event and the address arguments of a call
  without looking at the decoding error. It returns normally when every transfer event
  carries its amount and the input of every call decodes for every method it matches.
\<close>

definition input_decodes :: "bytes \<Rightarrow> ABI \<Rightarrow> bool" where
  "input_decodes input abi \<longleftrightarrow>
     (case MethodById abi input of
        Inl _ \<Rightarrow> True
      | Inr m \<Rightarrow> \<not> isl (Unpack (m_Inputs m) (drop 4 input)))"

definition call_decodes :: "(Address, LogicABIMap) gomap \<Rightarrow> InternalTx \<Rightarrow> bool" where
  "call_decodes P t \<longleftrightarrow>
     (\<forall>logics \<in> snd ` set P. \<forall>abi \<in> snd ` set logics. input_decodes (Input t) abi)"

definition event_decodes :: "Event \<Rightarrow> bool" where
  "event_decodes e \<longleftrightarrow> is_transfer e \<longrightarrow> 32 \<le> length (ev_Data e)"

definition runs :: "(Address, LogicABIMap) gomap \<Rightarrow> walk go \<Rightarrow> bool" where
  "runs P r \<longleftrightarrow> (\<exists>w. r = Inr w \<and> ProxyABIMap (w_ex w) = P)"

lemma runsI [simp]: "runs P (Inr w) \<longleftrightarrow> ProxyABIMap (w_ex w) = P"
  by (simp add: runs_def)

lemma runs_bind: "runs P m \<Longrightarrow> (\<And>w. ProxyABIMap (w_ex w) = P \<Longrightarrow> runs Q (f w)) \<Longrightarrow> runs Q (go_bind m f)"
  by (auto simp: runs_def)

lemma runs_go_fold:
  "ProxyABIMap (w_ex w) = P \<Longrightarrow> (\<And>x w. x \<in> set xs \<Longrightarrow> ProxyABIMap (w_ex w) = P \<Longrightarrow> runs P (f x w)) \<Longrightarrow>
     runs P (go_fold f xs w)"
proof (induction xs arbitrary: w)
  case (Cons x xs)
  have "runs P (f x w)" using Cons.prems by simp
  then show ?case using Cons.IH Cons.prems(2) by (auto intro!: runs_bind)
qed simp

lemma Unpack_vals_ok:
  "Unpack args d = Inr vs \<Longrightarrow> vals_ok (map arg_Type (NonIndexed args)) vs"
  by (auto simp: Unpack_def UnpackValues_def NonIndexed_def dest: toGoType_ok(3) split: if_splits)

lemma arg_address_total:
  assumes "Unpack args d = Inr vs" and "i < length (NonIndexed args)"
    and "arg_Type (NonIndexed args ! i) = AddressTy"
  shows "\<exists>a. arg_address (Some vs) i = Inr a"
proof -
  from Unpack_vals_ok [OF assms(1)] assms(2)
  have "i < length vs" and "val_ok (arg_Type (NonIndexed args ! i)) (vs ! i)"
    by (auto simp: list_all2_conv_all_nth)
  with assms(3) show ?thesis
    by (cases "vs ! i") (auto simp: arg_address_def go_index_def)
qed

lemma runs_supply_argument:
  assumes "ProxyABIMap (w_ex w) = P" and "arg_address (id_Args d) i = Inr a"
  shows "runs P (supply_argument f d i w)"
  unfolding supply_argument_def assms(2)
  by (rule runs_bind [of P]) (use assms(1) in auto)

lemma runs_supply_arguments:
  assumes "ProxyABIMap (w_ex w) = P" and "id_Args d = Some vs" and "Unpack (m_Inputs m) b = Inr vs"
  shows "runs P (supply_arguments f d m w)"
  unfolding supply_arguments_def
proof (rule runs_go_fold [OF assms(1)])
  fix x and v :: walk
  assume "x \<in> set (List.enumerate 0 (NonIndexed (m_Inputs m)))" and v: "ProxyABIMap (w_ex v) = P"
  then obtain i where "x = (i, NonIndexed (m_Inputs m) ! i)" and "i < length (NonIndexed (m_Inputs m))"
    by (auto simp: in_set_enumerate_eq prod_eq_iff)
  then show "runs P ((case x of (i, arg) \<Rightarrow> \<lambda>w. if arg_Type arg = AddressTy then supply_argument f d i w else Inr w) v)"
    using v arg_address_total [OF assms(3), of i] assms(2) runs_supply_argument [OF v, of d i]
    by (cases "arg_Type (NonIndexed (m_Inputs m) ! i) = AddressTy") auto
qed

lemma runs_match_method:
  assumes "ProxyABIMap (w_ex w) = P" and "\<And>a abi. (a, abi) \<in> set logics \<Longrightarrow> input_decodes (Input t) abi"
  shows "\<exists>s' w'. match_method t logics s w = Inr (s', w') \<and> ProxyABIMap (w_ex w') = P"
  using assms
proof (induction t logics s w rule: match_method.induct)
  case (2 t logic abi rest s w)
  have dec: "input_decodes (Input t) abi" using "2.prems"(2) by auto
  show ?case
  proof (cases "MethodById abi (Input t)")
    case (Inl e)
    then have e: "extractAction (Input t) abi (w_ex w) = (None, w_ex w)" by (simp add: extractAction_def)
    have "\<exists>s' w'. match_method t rest [] w = Inr (s', w') \<and> ProxyABIMap (w_ex w') = P"
      using "2.IH" [OF e [symmetric] refl] "2.prems" by auto
    then show ?thesis by (simp add: e)
  next
    case (Inr m)
    with dec obtain vs where vs: "Unpack (m_Inputs m) (drop 4 (Input t)) = Inr vs"
      by (auto simp: input_decodes_def isl_def) (metis isl_def sum.exhaust_sel)
    obtain d ex where e: "extractAction (Input t) abi (w_ex w) = (Some (d, m), ex)"
      "id_Args d = Some vs" "ProxyABIMap ex = P"
      using Inr vs "2.prems"(1) by (simp add: extractAction_def Let_def)
    then have "runs P (supply_arguments (itx_From t) d m (w\<lparr>w_ex := ex\<rparr>))"
      using vs by (intro runs_supply_arguments) auto
    then show ?thesis by (auto simp: e(1) runs_def)
  qed
qed simp

lemma mget_abis_decode:
  assumes "call_decodes P t" and "(a, abi) \<in> set (mget [] P p)"
  shows "input_decodes (Input t) abi"
proof -
  have "(p, mget [] P p) \<in> set P"
    using assms(2) by (auto simp: mget_def split: option.splits dest: map_of_SomeD)
  with assms show ?thesis unfolding call_decodes_def by force
qed

lemma visit_total:
  assumes "ProxyABIMap (w_ex w) = P" and "call_decodes P t"
  shows "\<exists>a s w'. visit_proxy_call t w = Inr (a, s, w') \<and> ProxyABIMap (w_ex w') = P"
proof -
  define w1 where "w1 = (if CallType t = ''Create''
      then w\<lparr>w_ex := (w_ex w)\<lparr>RoleMap := mput (itx_From t) ''manager'' (RoleMap (w_ex w))\<rparr>\<rparr> else w)"
  have p: "ProxyABIMap (w_ex w1) = P" using assms(1) by (simp add: w1_def)
  obtain s w2 where "match_method t (mget [] P (itx_To t)) ''none'' w1 = Inr (s, w2)"
    and "ProxyABIMap (w_ex w2) = P"
    using runs_match_method [OF p, of "mget [] P (itx_To t)" t "''none''"]
      mget_abis_decode [OF assms(2)] by blast
  then show ?thesis using p assms(1)
    unfolding visit_proxy_call_def w1_def [symmetric] Let_def by auto
qed

lemma extractEvent_total: "event_decodes e \<Longrightarrow> \<exists>r. extractEvent e = Inr r"
  by (cases "is_transfer e") (simp_all add: extractEvent_def event_decodes_def transfer_value_eq)

lemma own_events_total:
  assumes "\<forall>e \<in> set es. event_decodes e" and "ProxyABIMap (w_ex w) = P"
  shows "\<exists>l' w'. go_fold (own_event ex) es (l, w) = Inr (l', w') \<and> ProxyABIMap (w_ex w') = P"
  using assms
proof (induction es arbitrary: l w)
  case (Cons e es)
  have rel: "ProxyABIMap (relate_lp_transfer b tt x) = ProxyABIMap x" for b tt x
    by (simp add: relate_lp_transfer_def)
  obtain r where "extractEvent e = Inr r"
    using Cons.prems(1) extractEvent_total by auto
  then obtain l1 w1 where "own_event ex e (l, w) = Inr (l1, w1)" "ProxyABIMap (w_ex w1) = P"
    using Cons.prems(2) by (cases r) (auto simp: own_event_def Let_def rel)
  with Cons.IH [of w1 l1] Cons.prems(1) show ?case by simp
qed simp

lemma ether_proxies:
  "ProxyABIMap (w_ex (snd (ether_transfer ex t (mark_callee t w)))) = ProxyABIMap (w_ex w)"
proof -
  have "ProxyABIMap (w_ex (snd (ether_transfer ex t v))) = ProxyABIMap (w_ex v)" for v
    by (simp add: ether_transfer_def split: option.split)
  then show ?thesis by (simp add: mark_callee_def)
qed

lemma children_total:
  assumes "\<And>x w. x \<in> set ts \<Longrightarrow> ProxyABIMap (w_ex w) = P \<Longrightarrow>
      \<exists>l w'. F x w = Inr (l, w') \<and> ProxyABIMap (w_ex w') = P"
    and "ProxyABIMap (w_ex w) = P"
  shows "\<exists>l' w'. go_fold (\<lambda>Tx (l, w). go_bind (F Tx w) (\<lambda>(l', w). Inr (l @ l', w))) ts (l, w) = Inr (l', w')
      \<and> ProxyABIMap (w_ex w') = P"
  using assms
proof (induction ts arbitrary: l w)
  case (Cons x ts)
  from Cons.prems(1) [of x w] Cons.prems(2) obtain l1 w1 where
    "F x w = Inr (l1, w1)" "ProxyABIMap (w_ex w1) = P" by auto
  with Cons.IH [of w1 "l @ l1"] Cons.prems(1) show ?case by simp
qed simp

abbreviation step_ok :: "(Address, LogicABIMap) gomap \<Rightarrow> tree_step \<Rightarrow> bool" where
  "step_ok P s \<equiv> (case s of CallStep c \<Rightarrow> call_decodes P c | EventStep e \<Rightarrow> event_decodes e)"

lemma walk_total:
  assumes "\<forall>s \<in> set (tree_steps t). step_ok P s" and "ProxyABIMap (w_ex w) = P"
  shows "\<exists>l w'. extractInTxInfo ex t w = Inr (l, w') \<and> ProxyABIMap (w_ex w') = P"
  using assms
proof (induction t arbitrary: w rule: tree_steps.induct)
  case (1 t)
  from "1.prems"(1) have call: "call_decodes P t" and ev: "\<forall>e \<in> set (Events t). event_decodes e"
    and sub: "\<And>x. x \<in> set (InTxs t) \<Longrightarrow> \<forall>s \<in> set (tree_steps x). step_ok P s"
    by (simp_all add: tree_steps.simps [of t] ball_Un)
  obtain a s w1 where v: "visit_proxy_call t w = Inr (a, s, w1)" "ProxyABIMap (w_ex w1) = P"
    using visit_total [OF "1.prems"(2) call] by blast
  obtain l0 w0 where m: "ether_transfer ex t (mark_callee t w1) = (l0, w0)" "ProxyABIMap (w_ex w0) = P"
    using v(2) ether_proxies [of ex t w1] by (metis prod.collapse)
  obtain l2 w2 where
    c: "go_fold (\<lambda>Tx (l, w). go_bind (extractInTxInfo ex Tx w) (\<lambda>(l', w). Inr (l @ l', w))) (InTxs t) (l0, w0)
      = Inr (l2, w2)" "ProxyABIMap (w_ex w2) = P"
    using children_total [of "InTxs t" P "extractInTxInfo ex" w0 l0, OF "1.IH" [OF _ sub] m(2)] by blast
  obtain l3 w3 where e: "go_fold (own_event ex) (Events t) (l2, w2) = Inr (l3, w3)" "ProxyABIMap (w_ex w3) = P"
    using own_events_total [OF ev c(2)] by blast
  show ?case
    by (subst extractInTxInfo.simps)
      (simp add: v m c(1) e close_action_def count_addresses_def Let_def)
qed

lemma steps_ok:
  assumes "\<forall>(d, c) \<in> set (tree_calls 0 t). call_decodes P c"
    and "\<forall>(d, e) \<in> set (tree_events 0 t). event_decodes e" and "s \<in> set (tree_steps t)"
  shows "step_ok P s"
proof (cases s)
  case (CallStep c)
  with assms(3) tree_steps_calls [of c t 0] obtain d where "(d, c) \<in> set (tree_calls 0 t)" by auto
  with assms(1) CallStep show ?thesis by auto
next
  case (EventStep e)
  with assms(3) tree_steps_events [of e t 0] obtain d where "(d, e) \<in> set (tree_events 0 t)" by auto
  with assms(2) EventStep show ?thesis by auto
qed

text \<open>
  C35: extracting a transaction never panics when its transfer events carry their amount and
  the inputs of its calls decode for the methods they match: every read of a decoded
  argument is in range and has the type the code asserts.
\<close>

theorem ExtractTokenTx_total:
  assumes "\<forall>t \<in> set (ex_InTxs ex). \<forall>(d, c) \<in> set (tree_calls 0 t). call_decodes (ProxyABIMap x) c"
    and "\<forall>t \<in> set (ex_InTxs ex). \<forall>(d, e) \<in> set (tree_events 0 t). event_decodes e"
  shows "\<exists>x'. ExtractTokenTx ex x = Inr x' \<and> ProxyABIMap x' = ProxyABIMap x"
proof (cases "length (ex_InTxs ex) = 1")
  case True
  then have t: "ex_InTxs ex ! 0 \<in> set (ex_InTxs ex)" by simp
  let ?w = "\<lparr>w_ex = x, w_user = [(itx_From (ex_InTxs ex ! 0), True)],
      w_proxy = fold (\<lambda>proxy. mput proxy True) (mkeys (ProxyABIMap x)) [], w_index = 0\<rparr>"
  have "\<forall>s \<in> set (tree_steps (ex_InTxs ex ! 0)). step_ok (ProxyABIMap x) s"
    using steps_ok [OF bspec [OF assms(1) t] bspec [OF assms(2) t]] by blast
  from walk_total [OF this, of ?w ex]
  obtain l w' where "extractInTxInfo ex (ex_InTxs ex ! 0) ?w = Inr (l, w')"
    and "ProxyABIMap (w_ex w') = ProxyABIMap x" by auto
  with True show ?thesis by (simp add: ExtractTokenTx_def Let_def settle_actions_def)
qed (simp add: ExtractTokenTx_def)

theorem ExtractTokenTx_total_witness:
  "\<exists>x'. ExtractTokenTx sample_tx sample_extractor = Inr x' \<and> ProxyABIMap x' = [(7, [])]"
  using ExtractTokenTx_total [of sample_tx sample_extractor]
  by (simp add: sample_tx_def sample_extractor_def tree_calls.simps [of _ "InternalTx f t c v k i e s" for f t c v k i e s]
      tree_events.simps [of _ "InternalTx f t c v k i e s" for f t c v k i e s] call_decodes_def)

section \<open>Transfers of liquidity tokens relate users\<close>

definition lp_transfer :: "TxExtractor \<Rightarrow> Event \<Rightarrow> Address \<Rightarrow> Address \<Rightarrow> bool" where
  "lp_transfer x e u r \<longleftrightarrow> is_transfer e \<and> mhas (LPTokenMap x) (ev_Address e) \<and>
     u = topic_address e 2 \<and> r = topic_address e 1 \<and> u \<noteq> 0 \<and> r \<noteq> 0 \<and> u \<noteq> r \<and>
     \<not> mhas (ProxyABIMap x) u \<and> \<not> mhas (ProxyABIMap x) r"

definition stake_event :: "ExternalTx \<Rightarrow> Event \<Rightarrow> TxExtractor \<Rightarrow> TxExtractor go" where
  "stake_event ex event x = go_bind (extractEvent event) (\<lambda>r.
     Inr (case r of None \<Rightarrow> x | Some tt \<Rightarrow> relate_lp_transfer (ex_BlockNumber ex) tt x))"

lemma stake_event_result:
  assumes "event_decodes e"
  shows "\<exists>x'. stake_event ex e x = Inr x' \<and> LPTokenMap x' = LPTokenMap x \<and> ProxyABIMap x' = ProxyABIMap x \<and>
     (\<forall>u r. related_from (te_UserRelatedMap x') u r =
        (if lp_transfer x e u r then min_opt (related_from (te_UserRelatedMap x) u r) (ex_BlockNumber ex)
         else related_from (te_UserRelatedMap x) u r))"
proof (cases "is_transfer e")
  case True
  with assms show ?thesis
    by (auto simp: stake_event_def extractEvent_def event_decodes_def transfer_value_eq
        relate_lp_transfer_def lp_transfer_def related_from_update)
next
  case False
  then show ?thesis by (simp add: stake_event_def extractEvent_def lp_transfer_def)
qed

lemma min_opt_idem [simp]: "min_opt (min_opt o' b) b = min_opt o' b"
  by (cases o') (simp_all add: min_opt_def)

lemma stake_events_result:
  assumes "\<forall>e \<in> set es. event_decodes e"
  shows "\<exists>x'. go_fold (stake_event ex) es x = Inr x' \<and>
     (\<forall>u r. related_from (te_UserRelatedMap x') u r =
        (if \<exists>e \<in> set es. lp_transfer x e u r
         then min_opt (related_from (te_UserRelatedMap x) u r) (ex_BlockNumber ex)
         else related_from (te_UserRelatedMap x) u r))"
  using assms
proof (induction es arbitrary: x)
  case (Cons e es)
  obtain y where y: "stake_event ex e x = Inr y" "LPTokenMap y = LPTokenMap x" "ProxyABIMap y = ProxyABIMap x"
    "\<And>u r. related_from (te_UserRelatedMap y) u r =
        (if lp_transfer x e u r then min_opt (related_from (te_UserRelatedMap x) u r) (ex_BlockNumber ex)
         else related_from (te_UserRelatedMap x) u r)"
    using stake_event_result [of e ex x] Cons.prems by auto
  have "lp_transfer y = lp_transfer x" by (simp add: fun_eq_iff lp_transfer_def y(2,3))
  with Cons.IH [of y] Cons.prems y(1,4) show ?case by auto
qed simp

lemma stake_walk: "extractInTxForStake ex t x = go_fold (stake_event ex) (map snd (tree_events d t)) x"
proof (induction d t arbitrary: x rule: tree_events.induct)
  case (1 d t)
  have "go_fold (extractInTxForStake ex) (InTxs t) x =
      go_fold (\<lambda>t. go_fold (stake_event ex) (map snd (tree_events (d + 1) t))) (InTxs t) x"
    by (rule go_fold_cong) (auto simp: 1)
  then show ?case
    by (subst extractInTxForStake.simps, subst tree_events.simps)
      (simp add: go_fold_append go_fold_concat go_fold_map map_concat o_def stake_event_def [abs_def])
qed

definition sample_lp_call :: InternalTx where
  "sample_lp_call = InternalTx 5 9 True None ''Call'' []
     [\<lparr>ev_Address = 9, Topics = [transfer_hash, 5, 6], ev_Data = replicate 32 1, ev_Index = 0\<rparr>] []"

text \<open>
  C36: a recorded transaction of a liquidity token relates the recipient of each of its
  transfers to the sender, from the block of the transaction or earlier, unless one of them
  is the zero address or a proxy; it changes no other relation. It returns normally when
  every transfer event carries its amount.
\<close>

theorem ExtractStakeTokenTx_relates:
  assumes "ex_InTxs ex = [t]" and "\<forall>(d, e) \<in> set (tree_events 0 t). event_decodes e"
  shows "\<exists>x'. ExtractStakeTokenTx ex x = Inr x' \<and>
     (\<forall>u r. related_from (te_UserRelatedMap x') u r =
        (if \<exists>(d, e) \<in> set (tree_events 0 t). lp_transfer x e u r
         then min_opt (related_from (te_UserRelatedMap x) u r) (ex_BlockNumber ex)
         else related_from (te_UserRelatedMap x) u r))"
proof -
  have "\<forall>e \<in> set (map snd (tree_events 0 t)). event_decodes e" using assms(2) by auto
  from stake_events_result [OF this, of ex x] show ?thesis
    by (simp add: ExtractStakeTokenTx_def assms(1) stake_walk [of ex t x 0] split_def)
qed

theorem ExtractStakeTokenTx_relates_witness:
  "\<exists>x'. ExtractStakeTokenTx (sample_tx\<lparr>ex_InTxs := [sample_lp_call]\<rparr>) sample_extractor = Inr x' \<and>
     related_from (te_UserRelatedMap x') 6 5 = Some 12 \<and> related_from (te_UserRelatedMap x') 5 6 = None"
  using ExtractStakeTokenTx_relates [of "sample_tx\<lparr>ex_InTxs := [sample_lp_call]\<rparr>" sample_lp_call sample_extractor]
  by (auto simp: sample_tx_def sample_extractor_def sample_lp_call_def related_from_def lp_transfer_def
      event_decodes_def is_transfer_iff topic_address_eq min_opt_def mhas_def
      tree_events.simps [of _ "InternalTx f t c v k i e s" for f t c v k i e s])

end
