(* ===== verification/Tx_Classify.thy ===== *)
theory Tx_Classify
  imports Tx_Extract
begin

text \<open>
  The second half of \<open>hunter/defi/extractor.go\<close>: which addresses are common, the
  classification of the transfers of every action into deposits and withdrawals of a user
  (\<open>ExtractActionInfoListNew\<close>, and the older \<open>ExtractActionInfoList\<close>), and the merge mode
  that follows from the tokens involved.
\<close>

section \<open>Common addresses\<close>

definition UpdateCommonRelatedUser :: "TxExtractor \<Rightarrow> TxExtractor" where
  "UpdateCommonRelatedUser ex =
     ex\<lparr>CommonRelatedUser :=
          fold (\<lambda>(user, rel) m. if length rel > 50 then mput user True m else m)
            (te_UserRelatedMap ex) (CommonRelatedUser ex)\<rparr>"

definition UpdateCommonAddressMap :: "TxExtractor \<Rightarrow> TxExtractor" where
  "UpdateCommonAddressMap ex =
     (let len = length (ActionInfoList ex);
          common = fold (\<lambda>proxy. mput proxy True) (mkeys (ProxyABIMap ex)) []
      in ex\<lparr>CommonAddressMap :=
           (if len > 100
            then fold (\<lambda>a m. if exceeds_share (mget 0 (AddressCountMap ex) a) (int len) (3/10)
                              then mput a True m else m)
                   (mkeys (AddressCountMap ex)) common
            else common)\<rparr>)"

section \<open>Classification\<close>

definition append_user_tx :: "Address \<Rightarrow> TokenTx \<Rightarrow> UserTokenTxMap \<Rightarrow> UserTokenTxMap" where
  "append_user_tx user tt m =
     (let tm = mget [] m user
      in mput user (mput (TokenAddress tt) (mget [] tm (TokenAddress tt) @ [tt]) tm) m)"

text \<open>
  The first loop over the transfers of an action: recipients of minted and senders of
  burnt liquidity tokens, and the other transfers between two addresses.
\<close>

definition split_lp ::
    "TxExtractor \<Rightarrow> TokenTx list \<Rightarrow> Address list \<times> Address list \<times> TokenTx list" where
  "split_lp ex l =
     fold (\<lambda>tt (depositTo, withdrawFrom, rest).
         if mhas (LPTokenMap ex) (TokenAddress tt)
         then if \<not> mhas (CommonAddressMap ex) (tt_To tt) \<and> Sender tt = 0
              then (depositTo @ [tt_To tt], withdrawFrom, rest)
              else if \<not> mhas (CommonAddressMap ex) (Sender tt) \<and> tt_To tt = 0
              then (depositTo, withdrawFrom @ [Sender tt], rest)
              else (depositTo, withdrawFrom, rest)
         else if Sender tt \<noteq> 0 \<and> tt_To tt \<noteq> 0
         then (depositTo, withdrawFrom, rest @ [tt])
         else (depositTo, withdrawFrom, rest))
       l ([], [], [])"

definition is_deposit :: "TxExtractor \<Rightarrow> ActionInfo \<Rightarrow> TokenTx \<Rightarrow> bool" where
  "is_deposit ex a tt \<longleftrightarrow>
     in_set (UserSuppliedAddress a) (Sender tt) \<and> \<not> in_set (CommonAddressMap ex) (Sender tt)
     \<and> \<not> in_set (UserSuppliedAddress a) (tt_To tt)
     \<and> (in_set (CommonAddressMap ex) (tt_To tt) \<or> in_set (ProxyRelatedAddress a) (tt_To tt)
        \<or> Sender tt = Initiator a)"

definition is_withdraw :: "TxExtractor \<Rightarrow> ActionInfo \<Rightarrow> TokenTx \<Rightarrow> bool" where
  "is_withdraw ex a tt \<longleftrightarrow>
     in_set (UserSuppliedAddress a) (tt_To tt) \<and> \<not> in_set (CommonAddressMap ex) (tt_To tt)
     \<and> \<not> in_set (UserSuppliedAddress a) (Sender tt)
     \<and> (in_set (CommonAddressMap ex) (Sender tt) \<or> in_set (ProxyRelatedAddress a) (Sender tt)
        \<or> tt_To tt = Initiator a)"

definition record_deposit :: "ActionInfo \<Rightarrow> Address list \<Rightarrow> TokenTx \<Rightarrow> TxExtractor \<Rightarrow> TxExtractor" where
  "record_deposit a depositTo tt ex =
     (let tt = tt\<lparr>tt_Action := ''deposit''\<rparr>; user = Sender tt;
          rel = fold (\<lambda>relatedUser. updateUserRelatedMap relatedUser user (ai_BlockNumber a))
                  depositTo (te_UserRelatedMap ex);
          rel = (if in_set (UserSuppliedAddress a) user \<and> \<not> in_set (ProxyRelatedAddress a) user
                    \<and> \<not> is_manager ex user
                 then updateUserRelatedMap (Initiator a) user (ai_BlockNumber a) rel else rel)
      in ex\<lparr>te_UserTokenTxMap := append_user_tx user tt (te_UserTokenTxMap ex),
            te_UserRelatedMap := rel,
            RelatedToken := mincr (TokenAddress tt) (RelatedToken ex)\<rparr>)"

definition record_withdraw :: "ActionInfo \<Rightarrow> Address list \<Rightarrow> TokenTx \<Rightarrow> TxExtractor \<Rightarrow> TxExtractor" where
  "record_withdraw a withdrawFrom tt ex =
     (let tt = tt\<lparr>tt_Action := ''withdraw''\<rparr>; user = tt_To tt;
          rel = fold (\<lambda>relatedUser. updateUserRelatedMap user relatedUser (ai_BlockNumber a))
                  withdrawFrom (te_UserRelatedMap ex);
          rel = (if in_set (UserSuppliedAddress a) user \<and> \<not> in_set (ProxyRelatedAddress a) user
                    \<and> \<not> is_manager ex user
                 then updateUserRelatedMap user (Initiator a) (ai_BlockNumber a) rel else rel)
      in ex\<lparr>te_UserTokenTxMap := append_user_tx user tt (te_UserTokenTxMap ex),
            te_UserRelatedMap := rel,
            RelatedToken := mincr (TokenAddress tt) (RelatedToken ex)\<rparr>)"

definition classify_tx ::
    "ActionInfo \<Rightarrow> Address list \<Rightarrow> Address list \<Rightarrow> TokenTx \<Rightarrow> TxExtractor \<Rightarrow> TxExtractor" where
  "classify_tx a depositTo withdrawFrom tt ex =
     (if is_deposit ex a tt then record_deposit a depositTo tt ex
      else if is_withdraw ex a tt then record_withdraw a withdrawFrom tt ex
      else ex)"

definition classify_action :: "ActionInfo \<Rightarrow> TxExtractor \<Rightarrow> TxExtractor" where
  "classify_action a ex =
     (case split_lp ex (TokenTxList a) of (depositTo, withdrawFrom, rest) \<Rightarrow>
        fold (classify_tx a depositTo withdrawFrom) rest ex)"

section \<open>Merge mode\<close>

definition mode_kind :: "TxExtractor \<Rightarrow> Address \<Rightarrow> string" where
  "mode_kind ex token =
     (let x = XToken (mget zero_StableToken (StableTokenMap ex) token)
      in if x = HexToAddress ''0x1'' then ''eth''
         else if x = HexToAddress ''0x2'' then ''usd''
         else if x = HexToAddress ''0x3'' then ''btc''
         else ''others'')"

definition merge_mode :: "TxExtractor \<Rightarrow> string" where
  "merge_mode ex =
     (let modeMap = fold (\<lambda>token. mincr (mode_kind ex token)) (mkeys (RelatedToken ex))
                      ([] :: (string, int) gomap)
      in if length modeMap = 1
         then if mget 0 modeMap ''eth'' > 0 then ''eth''
              else if mget 0 modeMap ''usd'' > 0 then ''usd''
              else if mget 0 modeMap ''btc'' > 0 then ''btc''
              else if mget 0 modeMap ''others'' > 1 then ''mix''
              else ''single''
         else ''mix'')"

definition ExtractActionInfoListNew :: "TxExtractor \<Rightarrow> TxExtractor" where
  "ExtractActionInfoListNew ex =
     (let ex = fold (\<lambda>(k, a). classify_action a) (ActionInfoList ex) ex
      in ex\<lparr>FlowMergeMode := merge_mode ex\<rparr>)"

section \<open>The older classification by action name\<close>

definition split_lp_old ::
    "TxExtractor \<Rightarrow> TokenTx list \<Rightarrow> Address list \<times> Address list \<times> TokenTx list" where
  "split_lp_old ex l =
     fold (\<lambda>tt (depositTo, withdrawFrom, rest).
         if mhas (LPTokenMap ex) (TokenAddress tt)
         then if Sender tt = 0 then (depositTo @ [tt_To tt], withdrawFrom, rest)
              else if tt_To tt = 0 then (depositTo, withdrawFrom @ [Sender tt], rest)
              else (depositTo, withdrawFrom, rest)
         else (depositTo, withdrawFrom, rest @ [tt]))
       l ([], [], [])"

definition record_tx :: "Address \<Rightarrow> TokenTx \<Rightarrow> TxExtractor \<Rightarrow> TxExtractor" where
  "record_tx user tt ex =
     ex\<lparr>te_UserTokenTxMap := append_user_tx user tt (te_UserTokenTxMap ex),
        RelatedToken := mincr (TokenAddress tt) (RelatedToken ex)\<rparr>"

definition classify_tx_old ::
    "ActionInfo \<Rightarrow> Address list \<Rightarrow> Address list \<Rightarrow> TokenTx \<Rightarrow> TxExtractor \<Rightarrow> TxExtractor" where
  "classify_tx_old a depositTo withdrawFrom tt ex =
     (let tt = tt\<lparr>tt_TxIndex := ai_TxIndex a, tt_BlockNumber := ai_BlockNumber a\<rparr>;
          inward = in_set (CommonAddressMap ex) (tt_To tt) \<and> Sender tt \<noteq> 0;
          outward = in_set (CommonAddressMap ex) (Sender tt) \<and> tt_To tt \<noteq> 0
      in if ai_Action a = ''deposit''
         then if inward
              then (record_tx (Sender tt) (tt\<lparr>tt_Action := ai_Action a\<rparr>) ex)
                     \<lparr>te_UserRelatedMap :=
                        fold (\<lambda>relatedUser. updateUserRelatedMap relatedUser (Sender tt) (ai_BlockNumber a))
                          depositTo (te_UserRelatedMap ex)\<rparr>
              else ex
         else if ai_Action a = ''withdraw''
         then if outward
              then (record_tx (tt_To tt) (tt\<lparr>tt_Action := ai_Action a\<rparr>) ex)
                     \<lparr>te_UserRelatedMap :=
                        fold (\<lambda>relatedUser. updateUserRelatedMap (tt_To tt) relatedUser (ai_BlockNumber a))
                          withdrawFrom (te_UserRelatedMap ex)\<rparr>
              else ex
         else if ai_Action a = ''borrow''
         then if inward then record_tx (Sender tt) (tt\<lparr>tt_Action := ''borrow-in''\<rparr>) ex
              else if outward then record_tx (tt_To tt) (tt\<lparr>tt_Action := ''borrow-out''\<rparr>) ex
              else ex
         else if ai_Action a = ''swap''
         then if inward then record_tx (Sender tt) (tt\<lparr>tt_Action := ''swap-in''\<rparr>) ex
              else if outward then record_tx (tt_To tt) (tt\<lparr>tt_Action := ''swap-out''\<rparr>) ex
              else ex
         else ex)"

definition ExtractActionInfoList :: "TxExtractor \<Rightarrow> TxExtractor" where
  "ExtractActionInfoList ex =
     (let ex = fold (\<lambda>(k, a) ex.
                 case split_lp_old ex (TokenTxList a) of (depositTo, withdrawFrom, rest) \<Rightarrow>
                   fold (classify_tx_old a depositTo withdrawFrom) rest ex)
               (ActionInfoList ex) ex
      in ex\<lparr>FlowMergeMode := merge_mode ex\<rparr>)"

section \<open>Copies\<close>

definition DeepCpUserTokenTxMap :: "UserTokenTxMap \<Rightarrow> UserTokenTxMap" where
  "DeepCpUserTokenTxMap m =
     fold (\<lambda>(user, tm) new.
         mput user (fold (\<lambda>(token, l) tm'.
             fold (\<lambda>tt tm'. mput token (mget [] tm' token @ [tt]) tm') l tm') tm []) new) m []"

definition DeepCpUserRelatedMap :: "UserRelatedMap \<Rightarrow> UserRelatedMap" where
  "DeepCpUserRelatedMap m =
     fold (\<lambda>(user, rel) new. mput user (fold (\<lambda>(r, b). mput r b) rel []) new) m []"

section \<open>Which addresses are common\<close>

lemma fold_mput_True: "mhas (fold (\<lambda>x. mput x True) xs m) a \<longleftrightarrow> a \<in> set xs \<or> mhas m a"
  by (induction xs arbitrary: m) (auto simp: gomap_simps)

text \<open>
  The common addresses are the proxies of the application and, once more than a hundred
  actions are known, the addresses that took part in more than three tenths as many counted
  transfers as there are actions; the \<open>float64\<close> comparison decides the exact fraction.
\<close>

theorem UpdateCommonAddressMap_iff:
  assumes "length (ActionInfoList ex) < 2 ^ 40"
    and "\<forall>(b, n) \<in> set (AddressCountMap ex). 0 \<le> n \<and> n < 2 ^ 53"
  shows "mhas (CommonAddressMap (UpdateCommonAddressMap ex)) a \<longleftrightarrow> mhas (ProxyABIMap ex) a \<or>
     100 < length (ActionInfoList ex) \<and> mhas (AddressCountMap ex) a \<and>
     3 * int (length (ActionInfoList ex)) < 10 * mget 0 (AddressCountMap ex) a"
proof -
  have "0 \<le> mget 0 (AddressCountMap ex) a \<and> mget 0 (AddressCountMap ex) a < 2 ^ 53"
    if "mhas (AddressCountMap ex) a"
    using assms(2) mget_in_set [OF that, of 0] by auto
  then have "mhas (AddressCountMap ex) a \<Longrightarrow>
      exceeds_share (mget 0 (AddressCountMap ex) a) (int (length (ActionInfoList ex))) (3/10) \<longleftrightarrow>
      3 * int (length (ActionInfoList ex)) < 10 * mget 0 (AddressCountMap ex) a"
    using assms(1) by (intro exceeds_share_exact(2)) auto
  then show ?thesis
    unfolding UpdateCommonAddressMap_def Let_def
    by (auto simp: fold_mput_True fold_mput_if mhas_iff [symmetric] simp del: set_map)
qed

theorem UpdateCommonAddressMap_iff_witness:
  "mhas (CommonAddressMap (UpdateCommonAddressMap sample_extractor)) 7
   \<and> \<not> mhas (CommonAddressMap (UpdateCommonAddressMap sample_extractor)) 5"
  using UpdateCommonAddressMap_iff [of sample_extractor 7] UpdateCommonAddressMap_iff [of sample_extractor 5]
  by (simp add: sample_extractor_def mhas_def)

section \<open>The merge mode\<close>

lemma length_counts:
  "length (fold (\<lambda>x. mincr (f x)) xs ([] :: ('k, int) gomap)) = card (f ` set xs)"
proof -
  let ?m = "fold (\<lambda>x. mincr (f x)) xs ([] :: ('k, int) gomap)"
  have e: "?m = fold mincr (map f xs) []" by (simp add: fold_map o_def)
  have "distinct (mkeys ?m)"
    using alist_counter.ok_fold_incr [OF gomap_ok_Nil, of "map f xs"] unfolding e gomap_ok_def .
  moreover have "k \<in> set (mkeys ?m) \<longleftrightarrow> k \<in> f ` set xs" for k
    unfolding e mhas_iff [symmetric] by (subst alist_counter.has_fold_incr) simp_all
  then have "set (mkeys ?m) = f ` set xs" by blast
  ultimately show ?thesis by (metis distinct_card length_map)
qed

lemma mget_counts:
  "mget 0 (fold (\<lambda>x. mincr (f x)) xs ([] :: ('k, int) gomap)) k = int (count_list (map f xs) k)"
proof -
  have "fold (\<lambda>x. mincr (f x)) xs [] = fold mincr (map f xs) ([] :: ('k, int) gomap)"
    by (simp add: fold_map o_def)
  then show ?thesis by (simp add: alist_counter.get_fold_incr)
qed

lemma count_list_const: "count_list (map (\<lambda>_. c) xs) k = (if k = c then length xs else 0)"
  by (induction xs) auto

text \<open>
  The merge mode is a stable unit exactly when every token of the application is
  pegged to that unit; otherwise it is \<open>single\<close> for one unpegged token and \<open>mix\<close> in every
  other case, including no token at all.
\<close>

theorem merge_mode_spec:
  "merge_mode ex =
     (let kinds = mode_kind ex ` set (mkeys (RelatedToken ex))
      in if kinds = {''eth''} then ''eth'' else if kinds = {''usd''} then ''usd''
         else if kinds = {''btc''} then ''btc''
         else if kinds = {''others''} \<and> length (RelatedToken ex) = 1 then ''single''
         else ''mix'')"
proof -
  let ?ks = "mkeys (RelatedToken ex)"
  let ?m = "fold (\<lambda>token. mincr (mode_kind ex token)) ?ks ([] :: (string, int) gomap)"
  have range: "mode_kind ex t \<in> {''eth'', ''usd'', ''btc'', ''others''}" for t
    by (simp add: mode_kind_def Let_def)
  show ?thesis
  proof (cases "length ?m = 1")
    case False
    then have "mode_kind ex ` set ?ks \<noteq> {k}" for k
      using length_counts [of "mode_kind ex" ?ks] by (metis is_singletonI is_singleton_altdef)
    with False show ?thesis by (simp add: merge_mode_def Let_def)
  next
    case True
    then obtain k where k: "mode_kind ex ` set ?ks = {k}"
      using length_counts [of "mode_kind ex" ?ks] by (metis card_1_singletonE)
    then have const: "map (mode_kind ex) ?ks = map (\<lambda>_. k) ?ks" by (intro map_cong) auto
    have cnt: "mget 0 ?m x = (if x = k then int (length (RelatedToken ex)) else 0)" for x
      unfolding mget_counts const count_list_const by simp
    from k have ne: "RelatedToken ex \<noteq> []" by auto
    have "k \<in> mode_kind ex ` set ?ks" unfolding k by (rule singletonI)
    then obtain t where "k = mode_kind ex t" by (rule imageE)
    then have "k \<in> {''eth'', ''usd'', ''btc'', ''others''}" using range by simp
    then consider "k = ''eth''" | "k = ''usd''" | "k = ''btc''" | "k = ''others''" by blast
    then show ?thesis
      unfolding merge_mode_def Let_def k cnt using True ne by cases (auto simp: Suc_lessI)
  qed
qed

section \<open>The classification of transfers\<close>

text \<open>
  What a user did with a token is the list \<open>user_txs m user token\<close>. The transfers of an
  action that are looked at are those of other tokens between two real addresses; one of
  them is recorded for its sender when it is a deposit, for its recipient when it is a
  withdrawal, and otherwise not at all.
\<close>

definition user_txs :: "UserTokenTxMap \<Rightarrow> Address \<Rightarrow> Address \<Rightarrow> TokenTx list" where
  "user_txs m user token = mget [] (mget [] m user) token"

definition plain_txs :: "TxExtractor \<Rightarrow> TokenTx list \<Rightarrow> TokenTx list" where
  "plain_txs ex l = filter (\<lambda>tt. \<not> mhas (LPTokenMap ex) (TokenAddress tt) \<and> Sender tt \<noteq> 0 \<and> tt_To tt \<noteq> 0) l"

definition recorded :: "TxExtractor \<Rightarrow> ActionInfo \<Rightarrow> Address \<Rightarrow> Address \<Rightarrow> TokenTx list" where
  "recorded ex a user token =
     concat (map (\<lambda>tt.
         if TokenAddress tt \<noteq> token then []
         else if is_deposit ex a tt then (if Sender tt = user then [tt\<lparr>tt_Action := ''deposit''\<rparr>] else [])
         else if is_withdraw ex a tt then (if tt_To tt = user then [tt\<lparr>tt_Action := ''withdraw''\<rparr>] else [])
         else [])
       (plain_txs ex (TokenTxList a)))"

lemma deposit_withdraw_exclusive: "is_deposit ex a tt \<Longrightarrow> \<not> is_withdraw ex a tt"
  by (simp add: is_deposit_def is_withdraw_def)

lemma user_txs_append [simp]:
  "user_txs (append_user_tx user tt m) u k =
     user_txs m u k @ (if u = user \<and> k = TokenAddress tt then [tt] else [])"
  by (simp add: user_txs_def append_user_tx_def Let_def gomap_simps)

lemma split_lp_rest: "snd (snd (split_lp ex l)) = plain_txs ex l"
proof -
  let ?f = "\<lambda>tt (depositTo, withdrawFrom, rest).
         if mhas (LPTokenMap ex) (TokenAddress tt)
         then if \<not> mhas (CommonAddressMap ex) (tt_To tt) \<and> Sender tt = 0
              then (depositTo @ [tt_To tt], withdrawFrom, rest)
              else if \<not> mhas (CommonAddressMap ex) (Sender tt) \<and> tt_To tt = 0
              then (depositTo, withdrawFrom @ [Sender tt], rest)
              else (depositTo, withdrawFrom, rest)
         else if Sender tt \<noteq> 0 \<and> tt_To tt \<noteq> 0
         then (depositTo, withdrawFrom, rest @ [tt])
         else (depositTo, withdrawFrom, rest)"
  have "snd (snd (fold ?f l s)) = snd (snd s) @ plain_txs ex l" for s
    by (induction l arbitrary: s) (auto simp: plain_txs_def)
  then show ?thesis by (simp add: split_lp_def)
qed

text \<open>What the classification never changes, and what it decides with.\<close>

definition same_setup :: "TxExtractor \<Rightarrow> TxExtractor \<Rightarrow> bool" where
  "same_setup ex ex' \<longleftrightarrow> LPTokenMap ex' = LPTokenMap ex \<and> CommonAddressMap ex' = CommonAddressMap ex"

lemma classify_tx_result:
  shows "same_setup ex (classify_tx a ds ws tt ex)"
    and "user_txs (te_UserTokenTxMap (classify_tx a ds ws tt ex)) u k = user_txs (te_UserTokenTxMap ex) u k @
     (if TokenAddress tt \<noteq> k then []
      else if is_deposit ex a tt then (if Sender tt = u then [tt\<lparr>tt_Action := ''deposit''\<rparr>] else [])
      else if is_withdraw ex a tt then (if tt_To tt = u then [tt\<lparr>tt_Action := ''withdraw''\<rparr>] else [])
      else [])"
  by (auto simp: classify_tx_def record_deposit_def record_withdraw_def Let_def same_setup_def)

lemma classify_txs_result:
  assumes "same_setup x ex"
  shows "same_setup x (fold (classify_tx a ds ws) l ex)"
    and "user_txs (te_UserTokenTxMap (fold (classify_tx a ds ws) l ex)) u k =
      user_txs (te_UserTokenTxMap ex) u k @ concat (map (\<lambda>tt.
         if TokenAddress tt \<noteq> k then []
         else if is_deposit x a tt then (if Sender tt = u then [tt\<lparr>tt_Action := ''deposit''\<rparr>] else [])
         else if is_withdraw x a tt then (if tt_To tt = u then [tt\<lparr>tt_Action := ''withdraw''\<rparr>] else [])
         else []) l)"
proof -
  have trans: "same_setup x y \<Longrightarrow> same_setup y z \<Longrightarrow> same_setup x z" for x y z
    by (simp add: same_setup_def)
  have dec: "is_deposit ex' a tt = is_deposit x a tt \<and> is_withdraw ex' a tt = is_withdraw x a tt"
    if "same_setup x ex'" for ex' tt
    using that by (simp add: same_setup_def is_deposit_def is_withdraw_def)
  show "same_setup x (fold (classify_tx a ds ws) l ex)"
    using assms by (rule fold_invariant_gen) (auto intro: trans classify_tx_result(1))
  show "user_txs (te_UserTokenTxMap (fold (classify_tx a ds ws) l ex)) u k =
      user_txs (te_UserTokenTxMap ex) u k @ concat (map (\<lambda>tt.
         if TokenAddress tt \<noteq> k then []
         else if is_deposit x a tt then (if Sender tt = u then [tt\<lparr>tt_Action := ''deposit''\<rparr>] else [])
         else if is_withdraw x a tt then (if tt_To tt = u then [tt\<lparr>tt_Action := ''withdraw''\<rparr>] else [])
         else []) l)"
    using assms
  proof (induction l arbitrary: ex)
    case (Cons tt l)
    from Cons.IH [OF trans [OF Cons.prems classify_tx_result(1)]] dec [OF Cons.prems]
    show ?case by (simp add: classify_tx_result(2))
  qed simp
qed

lemma classify_action_result:
  assumes "same_setup x ex"
  shows "same_setup x (classify_action a ex)"
    and "user_txs (te_UserTokenTxMap (classify_action a ex)) u k =
      user_txs (te_UserTokenTxMap ex) u k @ recorded x a u k"
proof -
  obtain ds ws where s: "split_lp ex (TokenTxList a) = (ds, ws, plain_txs ex (TokenTxList a))"
    using split_lp_rest [of ex "TokenTxList a"] by (metis prod.collapse)
  have p: "plain_txs ex = plain_txs x" using assms by (simp add: fun_eq_iff plain_txs_def same_setup_def)
  show "same_setup x (classify_action a ex)"
    and "user_txs (te_UserTokenTxMap (classify_action a ex)) u k =
      user_txs (te_UserTokenTxMap ex) u k @ recorded x a u k"
    using classify_txs_result [OF assms] by (simp_all add: classify_action_def s recorded_def p)
qed

text \<open>
  C4: the classification records exactly the deposits and withdrawals of the actions. For
  every user and token the list of transactions grows by the recorded transfers of each
  action in turn: a transfer is listed for its sender as a deposit, for its recipient as a
  withdrawal, never for both and never twice, and liquidity tokens, mints and burns are
  left out.
\<close>

theorem ExtractActionInfoListNew_records:
  "user_txs (te_UserTokenTxMap (ExtractActionInfoListNew ex)) user token =
     user_txs (te_UserTokenTxMap ex) user token @
     concat (map (\<lambda>(i, a). recorded ex a user token) (ActionInfoList ex))"
proof -
  have "user_txs (te_UserTokenTxMap (fold (\<lambda>(k, a). classify_action a) l y)) user token =
      user_txs (te_UserTokenTxMap y) user token @ concat (map (\<lambda>(i, a). recorded ex a user token) l)"
    if "same_setup ex y" for l :: "(nat, ActionInfo) gomap" and y
    using that
  proof (induction l arbitrary: y)
    case (Cons ka l)
    then show ?case by (cases ka) (simp add: classify_action_result)
  qed simp
  then show ?thesis
    by (simp add: ExtractActionInfoListNew_def Let_def same_setup_def)
qed

section \<open>Copies\<close>

lemma fold_append_token:
  "mget [] (fold (\<lambda>tt tm'. mput token (mget [] tm' token @ [tt]) tm') l tm) k =
     (if k = token then mget [] tm k @ l else mget [] tm k)"
  by (induction l arbitrary: tm) (auto simp: gomap_simps)

lemma copy_tokens:
  assumes "gomap_ok tm"
  shows "mget [] (fold (\<lambda>(token, l) tm'.
      fold (\<lambda>tt tm'. mput token (mget [] tm' token @ [tt]) tm') l tm') tm []) k = mget [] tm k"
proof -
  have "mget [] (fold (\<lambda>(token, l) tm'.
      fold (\<lambda>tt tm'. mput token (mget [] tm' token @ [tt]) tm') l tm') tm s) k = mget [] s k @ mget [] tm k"
    if "gomap_ok tm" for s
    using that
  proof (induction tm arbitrary: s)
    case (Cons x tm)
    obtain token l where x: "x = (token, l)" by (cases x)
    have "gomap_ok tm" and "\<not> mhas tm token"
      using Cons.prems x by (auto simp: gomap_ok_def mhas_iff)
    with Cons.IH x show ?case
      by (auto simp: fold_append_token mget_Cons mget_absent)
  qed simp
  from this [OF assms, of "[]"] show ?thesis by simp
qed

lemma mget_fold_mput:
  assumes "gomap_ok m"
  shows "mget z (fold (\<lambda>(u, v). mput u (f v)) m s) k = (if mhas m k then f (mget z m k) else mget z s k)"
  using assms
proof (induction m arbitrary: s)
  case (Cons x m)
  obtain u v where x: "x = (u, v)" by (cases x)
  have "gomap_ok m" and "\<not> mhas m u"
    using Cons.prems x by (auto simp: gomap_ok_def mhas_iff)
  with Cons.IH x show ?case by (auto simp: gomap_simps)
qed simp

lemma map_of_fold_mput:
  assumes "gomap_ok m"
  shows "map_of (fold (\<lambda>(u, v). mput u v) m s) k = (if mhas m k then map_of m k else map_of s k)"
  using assms
proof (induction m arbitrary: s)
  case (Cons x m)
  obtain u v where x: "x = (u, v)" by (cases x)
  have "gomap_ok m" and "\<not> mhas m u"
    using Cons.prems x by (auto simp: gomap_ok_def mhas_iff)
  with Cons.IH x show ?case by (auto simp: mhas_def update_conv' split: option.splits)
qed simp

text \<open>
  The deep copies answer every lookup like the map they copy: the same transactions for
  every user and token, the same block for every pair of users.
\<close>

theorem DeepCp_same:
  assumes "gomap_ok m" and "\<forall>(u, tm) \<in> set m. gomap_ok tm"
    and "gomap_ok rm" and "\<forall>(u, rel) \<in> set rm. gomap_ok rel"
  shows "user_txs (DeepCpUserTokenTxMap m) u k = user_txs m u k \<and>
    related_from (DeepCpUserRelatedMap rm) u r = related_from rm u r"
proof
  let ?f = "\<lambda>tm. fold (\<lambda>(token, l) tm'. fold (\<lambda>tt tm'. mput token (mget [] tm' token @ [tt]) tm') l tm') tm []"
  have "gomap_ok (mget [] m u)"
    using assms(2) by (auto simp: mget_def split: option.splits dest!: map_of_SomeD)
  then have "mget [] (?f (mget [] m u)) k = mget [] (mget [] m u) k" by (rule copy_tokens)
  then show "user_txs (DeepCpUserTokenTxMap m) u k = user_txs m u k"
    using mget_fold_mput [OF assms(1), of "[]" ?f "[]" u]
    by (simp add: user_txs_def DeepCpUserTokenTxMap_def split_def mget_absent)
  have "gomap_ok (mget [] rm u)"
    using assms(4) by (auto simp: mget_def split: option.splits dest!: map_of_SomeD)
  then have "map_of (fold (\<lambda>(r, b). mput r b) (mget [] rm u) []) r = map_of (mget [] rm u) r"
    by (auto simp: map_of_fold_mput mhas_def split: option.splits)
  then show "related_from (DeepCpUserRelatedMap rm) u r = related_from rm u r"
    using mget_fold_mput [OF assms(3), of "[]" "\<lambda>rel. fold (\<lambda>(r, b). mput r b) rel []" "[]" u]
    by (simp add: related_from_def DeepCpUserRelatedMap_def split_def mget_absent)
qed

theorem DeepCp_same_witness:
  "related_from (DeepCpUserRelatedMap [(1, [(2, 5)]), (2, [])]) 1 2 = Some 5"
  using DeepCp_same [of "[]" "[(1, [(2, 5)]), (2, [])]" 1 3 2]
  by (simp add: gomap_ok_def related_from_def mget_def)

end
