(* ===== verification/Token_Flow.thy ===== *)
theory Token_Flow
  imports Tx_Classify
begin

text \<open>
  \<open>GenerateUserFlow\<close> (\<open>hunter/defi/check.go\<close>): from the classified transfers of every user
  to running totals of deposits and withdrawals, per token, per stable unit, and merged
  over all tokens with prices. Amounts and totals are \<open>big.Float\<close> values. Slices are sorted
  in place, so the extractor is returned with its sorted lists and with the price files
  that were loaded on the way.
\<close>

section \<open>Order of transactions\<close>

record TokenFlow =
  tf_Action :: string
  tf_BlockNumber :: int
  tf_TxIndex :: int
  tf_TransferIndex :: nat
  tf_Amount :: big_float
  tf_TotalDeposit :: big_float
  tf_TotalWithdraw :: big_float
  tf_Balance :: big_float

type_synonym TokenFlowMap = "(Address, TokenFlow list) gomap"
type_synonym UserTokenFlowMap = "(Address, TokenFlowMap) gomap"

definition TokenTxList_Less :: "TokenTx \<Rightarrow> TokenTx \<Rightarrow> bool" where
  "TokenTxList_Less a b =
     (if tt_BlockNumber a < tt_BlockNumber b then True
      else if tt_BlockNumber a = tt_BlockNumber b
      then if tt_TxIndex a < tt_TxIndex b then True
           else if tt_TxIndex a = tt_TxIndex b then TransferIndex a < TransferIndex b
           else False
      else False)"

definition TokenFlowList_Less :: "TokenFlow \<Rightarrow> TokenFlow \<Rightarrow> bool" where
  "TokenFlowList_Less a b =
     (if tf_BlockNumber a < tf_BlockNumber b then True
      else if tf_BlockNumber a = tf_BlockNumber b
      then if tf_TxIndex a < tf_TxIndex b then True
           else if tf_TxIndex a = tf_TxIndex b then tf_TransferIndex a < tf_TransferIndex b
           else False
      else False)"

abbreviation sort_txs :: "TokenTx list \<Rightarrow> TokenTx list" where
  "sort_txs \<equiv> sort_by TokenTxList_Less"

abbreviation sort_flows :: "TokenFlow list \<Rightarrow> TokenFlow list" where
  "sort_flows \<equiv> sort_by TokenFlowList_Less"

section \<open>Running totals\<close>

definition init_flow :: TokenFlow where
  "init_flow = \<lparr>tf_Action = ''deposit'', tf_BlockNumber = 0, tf_TxIndex = 0, tf_TransferIndex = 0,
     tf_Amount = fl_new, tf_TotalDeposit = fl_new, tf_TotalWithdraw = fl_new, tf_Balance = NewFloat 0\<rparr>"

definition balance_of :: "big_float \<Rightarrow> big_float \<Rightarrow> big_float" where
  "balance_of totalDeposit totalWithdraw =
     (if Float_Cmp totalDeposit totalWithdraw = 1 then Float_Sub fl_new totalDeposit totalWithdraw
      else NewFloat 0)"

definition flow_of :: "TokenTx \<Rightarrow> big_float \<Rightarrow> big_float \<Rightarrow> big_float \<Rightarrow> TokenFlow" where
  "flow_of tt amount d w =
     \<lparr>tf_Action = tt_Action tt, tf_BlockNumber = tt_BlockNumber tt, tf_TxIndex = tt_TxIndex tt,
      tf_TransferIndex = TransferIndex tt, tf_Amount = amount, tf_TotalDeposit = d,
      tf_TotalWithdraw = w, tf_Balance = balance_of d w\<rparr>"

type_synonym totals = "TokenFlow list \<times> big_float \<times> big_float"

text \<open>The flow of one token.\<close>

definition token_step :: "TokenTx \<Rightarrow> totals \<Rightarrow> totals" where
  "token_step tt s =
     (case s of (l, d, w) \<Rightarrow>
        if tt_Amount tt > 0
        then let amount = SetInt (tt_Amount tt);
                 d' = (if tt_Action tt = ''deposit'' \<or> tt_Action tt = ''borrow-in'' \<or> tt_Action tt = ''swap-in''
                       then Float_Add fl_new d amount else d);
                 w' = (if tt_Action tt = ''deposit'' \<or> tt_Action tt = ''borrow-in'' \<or> tt_Action tt = ''swap-in''
                       then w
                       else if tt_Action tt = ''withdraw'' \<or> tt_Action tt = ''borrow-out'' \<or> tt_Action tt = ''swap-out''
                       then Float_Add fl_new w amount else w)
             in (l @ [flow_of tt (Float_Add fl_new amount fl_new) d' w'], d', w')
        else (l, d, w))"

text \<open>The flow of a token, for any way of sorting its transactions, and for the sort of the model.\<close>

definition token_flow_with :: "(TokenTx list \<Rightarrow> TokenTx list) \<Rightarrow> TokenTx list \<Rightarrow> TokenFlow list" where
  "token_flow_with srt l = fst (fold token_step (srt l) ([init_flow], fl_new, fl_new))"

definition token_flow :: "TokenTx list \<Rightarrow> TokenFlow list" where
  "token_flow = token_flow_with sort_txs"

text \<open>
  \<open>int64(math.Pow(10, k))\<close>: a negative exponent truncates to zero, and a power beyond the
  range of \<open>int64\<close> converts to its smallest value; \<open>int64\<close> arithmetic wraps around.
\<close>

definition wrap64 :: "int \<Rightarrow> int" where
  "wrap64 n = (n + 2 ^ 63) mod 2 ^ 64 - 2 ^ 63"

definition pow10_int64 :: "int \<Rightarrow> int" where
  "pow10_int64 k = (if k < 0 then 0 else if k \<le> 18 then 10 ^ nat k else - (2 ^ 63))"

definition stable_rate :: "StableToken \<Rightarrow> big_float" where
  "stable_rate st = SetInt64 (wrap64 (RateToXToken st * pow10_int64 (wrap64 (18 - st_Decimals st))))"

definition stable_step :: "(Address, StableToken) gomap \<Rightarrow> TokenTx \<Rightarrow> totals \<Rightarrow> totals" where
  "stable_step stables tt s =
     (case s of (l, d, w) \<Rightarrow>
        if tt_Amount tt > 0
        then let amount = Float_Mul fl_new (SetInt (tt_Amount tt))
                            (stable_rate (mget zero_StableToken stables (TokenAddress tt)));
                 d' = (if tt_Action tt = ''deposit'' then Float_Add fl_new d amount else d);
                 w' = (if tt_Action tt = ''deposit'' then w
                       else if tt_Action tt = ''withdraw'' then Float_Add fl_new w amount else w)
             in (l @ [flow_of tt amount d' w'], d', w')
        else (l, d, w))"

definition stable_flow_with ::
    "(TokenTx list \<Rightarrow> TokenTx list) \<Rightarrow> (Address, StableToken) gomap \<Rightarrow> TokenTx list \<Rightarrow> TokenFlow list" where
  "stable_flow_with srt stables l = fst (fold (stable_step stables) (srt l) ([init_flow], fl_new, fl_new))"

definition stable_flow :: "(Address, StableToken) gomap \<Rightarrow> TokenTx list \<Rightarrow> TokenFlow list" where
  "stable_flow = stable_flow_with sort_txs"

section \<open>Merged flow with prices\<close>

record merge_state =
  m_list :: "TokenFlow list"
  m_txs :: "TokenFlow list"
  m_cur :: TokenFlow
  m_deposit :: big_float
  m_withdraw :: big_float
  m_swaps :: "(Address, TokenSwap) gomap"
  m_unsupported :: "(Address, int) gomap"
  m_exist :: bool

definition WETH :: Address where
  "WETH = HexToAddress ''0xC02aaA39b223FE8D0A0e5C4F27eAD9083C756Cc2''"

definition DAI :: Address where
  "DAI = HexToAddress ''0x6b175474e89094c44da98b954eedeac495271d0f''"

definition WBTC :: Address where
  "WBTC = HexToAddress ''0x2260FAC5E5542a773Aa44fBCfeDf7C193bc2C599''"

text \<open>The addresses \<open>0x0\<close> to \<open>0x7\<close> that name units and merged flows are small numbers.\<close>

lemmas hex_eval = HexToAddress_def BytesToAddress_def SetBytes_def FromHex_def has0xPrefix_def
  fromHexChar_def char_in_def

lemma unit_addresses:
  "HexToAddress ''0x0'' = 0" "HexToAddress ''0x1'' = 1" "HexToAddress ''0x2'' = 2"
  "HexToAddress ''0x3'' = 3" "HexToAddress ''0x4'' = 4" "HexToAddress ''0x5'' = 5"
  "HexToAddress ''0x6'' = 6" "HexToAddress ''0x7'' = 7"
  using be_val_zeros [of 19 "[]"] by (simp_all add: hex_eval)

lemma token_addresses:
  "WETH = 0xC02aaA39b223FE8D0A0e5C4F27eAD9083C756Cc2"
  "DAI = 0x6b175474e89094c44da98b954eedeac495271d0f"
  "WBTC = 0x2260FAC5E5542a773Aa44fBCfeDf7C193bc2C599"
  by (simp_all add: WETH_def DAI_def WBTC_def hex_eval be_val_def)

text \<open>The key of the price of a block: its 500-block bucket.\<close>

definition rate_key :: "int \<Rightarrow> string" where
  "rate_key block = show_nat ((nat \<bar>block\<bar> mod 2 ^ 64) div 500 * 500)"

definition zero_TokenSwap :: TokenSwap where
  "zero_TokenSwap = \<lparr>ts_Symbol = [], ts_TokenAddress = 0, ts_SwapToken = [], ts_RateMap = []\<rparr>"

definition price_at :: "(Address, TokenSwap) gomap \<Rightarrow> Address \<Rightarrow> int \<Rightarrow> rat" where
  "price_at swaps token block = mget 0 (ts_RateMap (mget zero_TokenSwap swaps token)) (rate_key block)"

text \<open>
  The amount and the price of a transfer, or no price. A stable token that is pegged neither
  to the dollar nor to bitcoin leaves \<open>decimalsRate\<close> \<open>nil\<close>, and the multiplication panics.
\<close>

definition priced_amount ::
    "rate_files \<Rightarrow> string \<Rightarrow> (Address, StableToken) gomap \<Rightarrow> TokenTx \<Rightarrow> (Address, TokenSwap) gomap
       \<Rightarrow> ((big_float \<times> big_float) option \<times> (Address, TokenSwap) gomap) go" where
  "priced_amount files path stables tt swaps =
     (let token = TokenAddress tt; amount = SetInt (tt_Amount tt); isETH = (token = 0 \<or> token = WETH)
      in if isETH then Inr (Some (amount, NewFloat 1), swaps)
         else case ExistToken files token swaps path of
           (False, swaps) \<Rightarrow> Inr (None, swaps)
         | (True, swaps) \<Rightarrow>
             (case map_of stables token of
                None \<Rightarrow> Inr (Some (amount, NewFloat (price_at swaps token (tt_BlockNumber tt))), swaps)
              | Some st \<Rightarrow>
                  if XToken st = 2
                  then let swaps = snd (ExistToken files DAI swaps path)
                       in Inr (Some (Float_Mul fl_new amount (SetInt64 (pow10_int64 (wrap64 (18 - st_Decimals st)))),
                                     NewFloat (price_at swaps DAI (tt_BlockNumber tt))), swaps)
                  else if XToken st = 3
                  then let swaps = snd (ExistToken files WBTC swaps path)
                       in Inr (Some (Float_Mul fl_new amount (SetInt64 (pow10_int64 (wrap64 (8 - st_Decimals st)))),
                                     NewFloat (price_at swaps WBTC (tt_BlockNumber tt))), swaps)
                  else Inl NilDereference))"

text \<open>A transfer in a later block than the current merged entry closes the entry.\<close>

definition roll_block :: "TokenTx \<Rightarrow> merge_state \<Rightarrow> merge_state" where
  "roll_block tt s =
     (if tt_BlockNumber tt > tf_BlockNumber (m_cur s)
      then s\<lparr>m_txs := m_txs s @ [m_cur s],
             m_cur := \<lparr>tf_Action = [], tf_BlockNumber = tt_BlockNumber tt, tf_TxIndex = tt_TxIndex tt,
                       tf_TransferIndex = 0, tf_Amount = fl_new, tf_TotalDeposit = m_deposit s,
                       tf_TotalWithdraw = m_withdraw s, tf_Balance = NewFloat 0\<rparr>\<rparr>
      else s)"

definition add_action :: "string \<Rightarrow> string \<Rightarrow> string" where
  "add_action act name = (if Contains act name then act else act @ name)"

definition merge_amount :: "TokenTx \<Rightarrow> big_float \<Rightarrow> merge_state \<Rightarrow> merge_state" where
  "merge_amount tt amount s =
     (let isDeposit = (tt_Action tt = ''deposit'');
          isWithdraw = (\<not> isDeposit \<and> tt_Action tt = ''withdraw'');
          d = (if isDeposit then Float_Add fl_new (m_deposit s) amount else m_deposit s);
          w = (if isWithdraw then Float_Add fl_new (m_withdraw s) amount else m_withdraw s);
          cur = m_cur s;
          cur_amount = (if isDeposit then Float_Add fl_new (tf_Amount cur) amount
                        else if isWithdraw then Float_Sub fl_new (tf_Amount cur) amount
                        else tf_Amount cur);
          act = (if isDeposit then add_action (tf_Action cur) ''deposit'' else tf_Action cur);
          act = (if isWithdraw then add_action act ''withdraw'' else act)
      in s\<lparr>m_deposit := d, m_withdraw := w,
           m_list := m_list s @ [flow_of tt amount d w],
           m_cur := cur\<lparr>tf_Action := act, tf_Amount := cur_amount,
                        tf_TotalDeposit := Float_Add fl_new d (NewFloat 0),
                        tf_TotalWithdraw := Float_Add fl_new w (NewFloat 0),
                        tf_Balance := Float_Add fl_new (balance_of d w) (NewFloat 0)\<rparr>\<rparr>)"

definition note_unsupported :: "TokenTx \<Rightarrow> merge_state \<Rightarrow> merge_state" where
  "note_unsupported tt s =
     s\<lparr>m_unsupported := mincr (TokenAddress tt) (m_unsupported s), m_exist := True\<rparr>"

definition merge_step ::
    "rate_files \<Rightarrow> string \<Rightarrow> (Address, StableToken) gomap \<Rightarrow> TokenTx \<Rightarrow> merge_state \<Rightarrow> merge_state go" where
  "merge_step files path stables tt s =
     (let s = roll_block tt s
      in if tt_Amount tt > 0
         then go_bind (priced_amount files path stables tt (m_swaps s)) (\<lambda>(p, swaps).
                let s = s\<lparr>m_swaps := swaps\<rparr>
                in Inr (case p of
                     None \<Rightarrow> note_unsupported tt s
                   | Some (amount, rate) \<Rightarrow>
                       if Float_Cmp rate (NewFloat 0) = 1
                       then merge_amount tt (Float_Mul fl_new amount rate) s
                       else note_unsupported tt s))
         else Inr s)"

section \<open>Flows of a user\<close>

definition is_lp :: "TxExtractor \<Rightarrow> Address \<Rightarrow> bool" where
  "is_lp ex token \<longleftrightarrow> \<not> mhas (StableTokenMap ex) token \<and> in_set (LPTokenMap ex) token"

definition stable_lists :: "TxExtractor \<Rightarrow> TokenTxMap \<Rightarrow> (Address, TokenTx list) gomap" where
  "stable_lists ex tm =
     fold (\<lambda>(token, l) m.
         case map_of (StableTokenMap ex) token of
           Some st \<Rightarrow> mput (XToken st) (mget [] m (XToken st) @ l) m
         | None \<Rightarrow> m) tm []"

definition own_flows :: "TxExtractor \<Rightarrow> TokenTxMap \<Rightarrow> TokenFlowMap" where
  "own_flows ex tm =
     fold (\<lambda>(token, l) m. if is_lp ex token then m else mput token (token_flow l) m) tm []"

definition init_merge :: "(Address, TokenSwap) gomap \<Rightarrow> (Address, int) gomap \<Rightarrow> merge_state" where
  "init_merge swaps unsupported =
     \<lparr>m_list = [init_flow], m_txs = [], m_cur = init_flow, m_deposit = fl_new, m_withdraw = fl_new,
      m_swaps = swaps, m_unsupported = unsupported, m_exist = False\<rparr>"

text \<open>
  The flows of a user under their addresses: every token, every stable unit, \<open>0x4\<close> and \<open>0x5\<close>
  for the merged flow, and \<open>0x6\<close> for a single token or \<open>0x7\<close> for an unsupported one.
\<close>

definition assemble_flows :: "TxExtractor \<Rightarrow> TokenTxMap \<Rightarrow> merge_state \<Rightarrow> TokenFlowMap" where
  "assemble_flows ex tm ms =
     (let fm = own_flows ex tm;
          fm = fold (\<lambda>(xToken, l). mput xToken (stable_flow (StableTokenMap ex) l)) (stable_lists ex tm) fm;
          fm = mput 5 (m_txs ms @ [m_cur ms]) (mput 4 (m_list ms) fm)
      in if length tm = 1 then mput 6 (mget [] fm (fst (hd tm))) fm
         else if m_exist ms then mput 7 [] fm
         else fm)"

definition user_flow ::
    "rate_files \<Rightarrow> TxExtractor \<Rightarrow> TokenTxMap \<Rightarrow> (Address, TokenSwap) gomap \<times> (Address, int) gomap
       \<Rightarrow> (TokenFlowMap \<times> (Address, TokenSwap) gomap \<times> (Address, int) gomap) go" where
  "user_flow files ex tm s =
     (case s of (swaps, unsupported) \<Rightarrow>
        go_bind
          (go_fold (merge_step files (RateMapPath ex) (StableTokenMap ex))
             (sort_txs (concat (map snd tm))) (init_merge swaps unsupported))
          (\<lambda>ms. Inr (assemble_flows ex tm ms, m_swaps ms, m_unsupported ms)))"

text \<open>\<open>sort.Sort\<close> works on the slices of the extractor's own map, liquidity tokens apart.\<close>

definition sort_user_txs :: "TxExtractor \<Rightarrow> UserTokenTxMap \<Rightarrow> UserTokenTxMap" where
  "sort_user_txs ex m =
     map (\<lambda>(user, tm). (user, map (\<lambda>(token, l). (token, if is_lp ex token then l else sort_txs l)) tm)) m"

definition add_user_flow ::
    "rate_files \<Rightarrow> TxExtractor \<Rightarrow> Address \<times> TokenTxMap
       \<Rightarrow> UserTokenFlowMap \<times> (Address, TokenSwap) gomap \<times> (Address, int) gomap
       \<Rightarrow> (UserTokenFlowMap \<times> (Address, TokenSwap) gomap \<times> (Address, int) gomap) go" where
  "add_user_flow files ex entry s =
     go_bind (user_flow files ex (snd entry) (snd s)) (\<lambda>(f, rest). Inr (mput (fst entry) f (fst s), rest))"

definition GenerateUserFlow ::
    "rate_files \<Rightarrow> TxExtractor \<Rightarrow> (UserTokenFlowMap \<times> (Address, int) gomap \<times> TxExtractor) go" where
  "GenerateUserFlow files ex =
     go_bind
       (go_fold (add_user_flow files ex) (te_UserTokenTxMap ex) ([], te_TokenSwapMap ex, []))
       (\<lambda>(fm, swaps, unsupported).
          Inr (fm, unsupported,
               ex\<lparr>te_UserTokenTxMap := sort_user_txs ex (te_UserTokenTxMap ex), te_TokenSwapMap := swaps\<rparr>))"

section \<open>The order is a strict weak order\<close>

interpretation tx_order: slice_sort TokenTxList_Less
  by unfold_locales (auto simp: TokenTxList_Less_def split: if_splits)

interpretation flow_order: slice_sort TokenFlowList_Less
  by unfold_locales (auto simp: TokenFlowList_Less_def split: if_splits)

definition tx_key :: "TokenTx \<Rightarrow> int \<times> int \<times> nat" where
  "tx_key tt = (tt_BlockNumber tt, tt_TxIndex tt, TransferIndex tt)"

lemma tx_less_total: "tx_key a \<noteq> tx_key b \<Longrightarrow> TokenTxList_Less a b \<or> TokenTxList_Less b a"
  by (auto simp: tx_key_def TokenTxList_Less_def)

lemma sorted_txs_unique:
  assumes "mset ys = mset l" and "sorted_less TokenTxList_Less ys" and "inj_on tx_key (set l)"
  shows "ys = sort_txs l"
  using assms(1,2) by (rule tx_order.sort_by_unique) (use assms(3) tx_less_total in \<open>metis inj_on_eq_iff\<close>)

lemma sort_txs_unique:
  assumes "mset l = mset l'" and "inj_on tx_key (set l)"
  shows "sort_txs l = sort_txs l'"
  by (rule sorted_txs_unique [OF _ tx_order.sorted_sort_by]) (use assms mset_eq_setD [OF assms(1)] in simp_all)

lemma tx_sorted_strict:
  assumes "inj_on tx_key (set l)" and "distinct l"
  shows "sorted_wrt TokenTxList_Less (sort_txs l)"
  unfolding sorted_wrt_iff_nth_less
proof (intro allI impI)
  let ?s = "sort_txs l"
  fix i j assume ij: "i < j" "j < length ?s"
  have "sorted_less TokenTxList_Less ?s" by (rule tx_order.sorted_sort_by)
  with ij have "\<not> TokenTxList_Less (?s ! j) (?s ! i)" by (simp add: sorted_wrt_iff_nth_less)
  moreover have "?s ! i \<noteq> ?s ! j"
    using ij assms(2) nth_eq_iff_index_eq [of ?s i j] by simp
  moreover have "?s ! i \<in> set l" and "?s ! j \<in> set l"
    using ij by (metis nth_mem order_less_trans set_sort_by)+
  ultimately show "TokenTxList_Less (?s ! i) (?s ! j)"
    using tx_less_total assms(1) by (metis inj_on_eq_iff)
qed

text \<open>
  C32: the flow of a token does not depend on the order in which its transactions were collected nor on the sorting
  algorithm. Take two lists of the same transactions, with pairwise different block, transaction and transfer index,
  and any function that sorts the second one: that returns its elements in some order in which no later one is less
  than an earlier one, the promise of \<open>sort.Sort\<close>, which need not be stable. The flow computed with that function
  from the second list is the flow of the first, for the flows of tokens and for those of stable units; so the model,
  which sorts by insertion, gives the flow that the program gives with any implementation of the package.
\<close>

theorem token_flow_order:
  assumes "mset l = mset l'" and "inj_on tx_key (set l)" and "mset (srt l') = mset l'" and "sorted_less TokenTxList_Less (srt l')"
  shows "token_flow_with srt l' = token_flow l \<and> stable_flow_with srt stables l' = stable_flow stables l \<and>
    token_flow l = token_flow l' \<and> stable_flow stables l = stable_flow stables l'"
proof -
  have "srt l' = sort_txs l'"
    using assms(3,4) by (rule sorted_txs_unique) (use assms(2) mset_eq_setD [OF assms(1)] in simp)
  then show ?thesis
    by (simp add: token_flow_def stable_flow_def token_flow_with_def stable_flow_with_def sort_txs_unique [OF assms(1,2)])
qed

definition sample_transfer :: "int \<Rightarrow> int \<Rightarrow> nat \<Rightarrow> Address \<Rightarrow> string \<Rightarrow> int \<Rightarrow> TokenTx" where
  "sample_transfer block index transfer token act amount =
     \<lparr>tt_BlockNumber = block, tt_TxIndex = index, TransferIndex = transfer, Sender = 1, tt_To = 2,
      tt_Amount = amount, TokenAddress = token, tt_Action = act\<rparr>"

theorem token_flow_order_witness:
  "token_flow_with rev [sample_transfer 2 0 0 3 ''withdraw'' 7, sample_transfer 1 0 0 3 ''deposit'' 5] =
   token_flow [sample_transfer 1 0 0 3 ''deposit'' 5, sample_transfer 2 0 0 3 ''withdraw'' 7]"
  using token_flow_order [of "[sample_transfer 1 0 0 3 ''deposit'' 5, sample_transfer 2 0 0 3 ''withdraw'' 7]"
      "[sample_transfer 2 0 0 3 ''withdraw'' 7, sample_transfer 1 0 0 3 ''deposit'' 5]" rev "[]"]
  by (simp add: sample_transfer_def tx_key_def TokenTxList_Less_def)

section \<open>Running totals in general\<close>

text \<open>
  A total accumulated in fresh floats from amounts of at least 64 bits: it is within one
  relative rounding error per addition of the exact sum.
\<close>

definition running :: "(TokenTx \<Rightarrow> bool) \<Rightarrow> (TokenTx \<Rightarrow> big_float) \<Rightarrow> TokenTx list \<Rightarrow> big_float" where
  "running sel amount ys = fold (\<lambda>tt d. if sel tt then Float_Add fl_new d (amount tt) else d) ys fl_new"

definition exact_sum :: "(TokenTx \<Rightarrow> bool) \<Rightarrow> (TokenTx \<Rightarrow> big_float) \<Rightarrow> TokenTx list \<Rightarrow> rat" where
  "exact_sum sel amount ys = sum_list (map (\<lambda>tt. if sel tt then fl_val (amount tt) else 0) ys)"

definition wide_amounts :: "(TokenTx \<Rightarrow> big_float) \<Rightarrow> TokenTx list \<Rightarrow> bool" where
  "wide_amounts amount ys \<longleftrightarrow> (\<forall>y \<in> set ys. 0 \<le> fl_val (amount y) \<and> 64 \<le> fl_prec (amount y))"

lemma running_snoc:
  "running sel amount (ys @ [y]) =
     (if sel y then Float_Add fl_new (running sel amount ys) (amount y) else running sel amount ys)"
  by (simp add: running_def)

lemma running_rep [simp]: "fl_rep (running sel amount ys)"
  by (induction ys rule: rev_induct) (auto simp: running_snoc running_def [of _ _ "[]"])

lemma running_nonneg: "wide_amounts amount ys \<Longrightarrow> 0 \<le> fl_val (running sel amount ys)"
  by (induction ys rule: rev_induct) (auto simp: running_snoc running_def [of _ _ "[]"] wide_amounts_def)

lemma running_step_mono:
  "wide_amounts amount (ys @ [y]) \<Longrightarrow>
     fl_val (running sel amount ys) \<le> fl_val (running sel amount (ys @ [y]))"
  using running_nonneg [of amount ys sel]
  by (auto simp: running_snoc wide_amounts_def intro!: Float_Add_fresh_ge)

lemma running_mono:
  "wide_amounts amount (ys @ zs) \<Longrightarrow>
     fl_val (running sel amount ys) \<le> fl_val (running sel amount (ys @ zs))"
proof (induction zs rule: rev_induct)
  case (snoc z zs)
  then have "fl_val (running sel amount ys) \<le> fl_val (running sel amount (ys @ zs))"
    by (simp add: wide_amounts_def)
  also have "\<dots> \<le> fl_val (running sel amount ((ys @ zs) @ [z]))"
    using snoc.prems by (intro running_step_mono) (simp add: wide_amounts_def)
  finally show ?case by simp
qed simp

abbreviation ulp :: rat where
  "ulp \<equiv> 1 / 2 ^ 64"

lemma exact_sum_nonneg: "wide_amounts amount ys \<Longrightarrow> 0 \<le> exact_sum sel amount ys"
  by (auto simp: exact_sum_def wide_amounts_def intro!: sum_list_nonneg)

lemma Float_Add_bounds:
  assumes "0 \<le> fl_val x" and "0 \<le> fl_val y" and "64 \<le> fl_prec y"
  shows "(fl_val x + fl_val y) * (1 - ulp) \<le> fl_val (Float_Add fl_new x y)"
    and "fl_val (Float_Add fl_new x y) \<le> (fl_val x + fl_val y) * (1 + ulp)"
  using prec_round.rnd_bounds [of "fl_val x + fl_val y" 64 "max (fl_prec x) (fl_prec y)"] assms
  by (simp_all add: fl_defs)

lemma running_bounds:
  assumes "wide_amounts amount ys"
  shows "exact_sum sel amount ys * (1 - ulp) ^ length ys \<le> fl_val (running sel amount ys) \<and>
    fl_val (running sel amount ys) \<le> exact_sum sel amount ys * (1 + ulp) ^ length ys"
  using assms
proof (induction ys rule: rev_induct)
  case Nil
  show ?case by (simp add: running_def exact_sum_def)
next
  case (snoc y ys)
  let ?n = "length ys" and ?S = "exact_sum sel amount ys" and ?d = "fl_val (running sel amount ys)"
    and ?a = "fl_val (amount y)"
  have w: "wide_amounts amount ys" and a: "0 \<le> ?a" "64 \<le> fl_prec (amount y)"
    using snoc.prems by (auto simp: wide_amounts_def)
  note IH = snoc.IH [OF w] and S = exact_sum_nonneg [OF w, of sel] and d = running_nonneg [OF w, of sel]
  have lo: "(1 - ulp :: rat) ^ Suc ?n \<le> (1 - ulp) ^ ?n" "(1 - ulp :: rat) ^ ?n \<le> 1"
    and hi: "(1 + ulp :: rat) ^ ?n \<le> (1 + ulp) ^ Suc ?n" "1 \<le> (1 + ulp :: rat) ^ ?n"
    by (auto intro!: power_decreasing power_increasing power_le_one one_le_power)
  show ?case
  proof (cases "sel y")
    case True
    have "(?S + ?a) * (1 - ulp) ^ ?n \<le> ?d + ?a"
      using IH mult_left_le [OF lo(2) a(1)] by (simp add: distrib_right)
    then have "(?S + ?a) * (1 - ulp) ^ ?n * (1 - ulp) \<le> (?d + ?a) * (1 - ulp)"
      by (rule mult_right_mono) simp
    moreover have "?d + ?a \<le> (?S + ?a) * (1 + ulp) ^ ?n"
      using IH mult_left_mono [OF hi(2) a(1)] by (simp add: distrib_right)
    then have "(?d + ?a) * (1 + ulp) \<le> (?S + ?a) * (1 + ulp) ^ ?n * (1 + ulp)"
      by (rule mult_right_mono) simp
    ultimately show ?thesis
      using Float_Add_bounds [OF d a] True
      by (simp add: running_snoc exact_sum_def mult.assoc mult.commute [of "1 - ulp"] mult.commute [of "1 + ulp"])
  next
    case False
    have "?S * (1 - ulp) ^ Suc ?n \<le> ?S * (1 - ulp) ^ ?n" "?S * (1 + ulp) ^ ?n \<le> ?S * (1 + ulp) ^ Suc ?n"
      using lo(1) hi(1) S by (auto intro: mult_left_mono)
    with IH have "?S * (1 - ulp) ^ Suc ?n \<le> ?d" "?d \<le> ?S * (1 + ulp) ^ Suc ?n" by linarith+
    with False show ?thesis by (simp add: running_snoc exact_sum_def)
  qed
qed

definition raw_amount :: "TokenTx \<Rightarrow> big_float" where
  "raw_amount tt = SetInt (tt_Amount tt)"

lemma raw_amount_simps [simp]: "fl_val (raw_amount tt) = of_int (tt_Amount tt)" "64 \<le> fl_prec (raw_amount tt)"
  by (simp_all add: raw_amount_def)

lemma exact_sum_int: "\<exists>n. exact_sum sel raw_amount ys = of_int n"
proof (induction ys)
  case (Cons y ys)
  then obtain n where "exact_sum sel raw_amount ys = of_int n" by blast
  then show ?case
    by (intro exI [of _ "(if sel y then tt_Amount y else 0) + n"]) (simp add: exact_sum_def)
qed (auto simp: exact_sum_def intro: exI [of _ 0])

text \<open>Integer amounts whose sum stays below 2 to the 64 are added exactly.\<close>

lemma running_exact:
  assumes "\<forall>y \<in> set ys. 0 \<le> tt_Amount y" and "exact_sum sel raw_amount ys < 2 ^ 64"
  shows "fl_val (running sel raw_amount ys) = exact_sum sel raw_amount ys"
  using assms
proof (induction ys rule: rev_induct)
  case Nil
  show ?case by (simp add: running_def exact_sum_def)
next
  case (snoc y ys)
  let ?am = raw_amount
  have w: "wide_amounts ?am ys" and y: "0 \<le> tt_Amount y"
    using snoc.prems(1) by (auto simp: wide_amounts_def)
  have s: "exact_sum sel ?am (ys @ [y]) = exact_sum sel ?am ys + (if sel y then of_int (tt_Amount y) else 0)"
    by (simp add: exact_sum_def)
  with snoc.prems(2) y have "exact_sum sel ?am ys < 2 ^ 64" by (auto split: if_splits)
  with snoc have IH: "fl_val (running sel ?am ys) = exact_sum sel ?am ys" by simp
  show ?case
  proof (cases "sel y")
    case True
    obtain n where n: "exact_sum sel ?am ys + of_int (tt_Amount y) = of_int n"
      using exact_sum_int by (metis of_int_add)
    have "0 \<le> exact_sum sel ?am ys" by (rule exact_sum_nonneg [OF w])
    with n y snoc.prems(2) s True have "\<bar>(of_int n :: rat)\<bar> < 2 ^ 64" by (simp add: abs_of_nonneg)
    then have "\<bar>n\<bar> < 2 ^ 64" by (metis of_int_abs of_int_less_iff of_int_numeral of_int_power)
    then have "round_prec (max (fl_prec (running sel ?am ys)) (fl_prec (raw_amount y))) (of_int n) = of_int n"
      by (rule prec_round.rnd_int_at_least) (simp add: max.coboundedI2)
    with True IH n s show ?thesis by (simp add: running_snoc fl_defs)
  qed (simp add: running_snoc IH s)
qed

section \<open>Flow lists\<close>

text \<open>
  What a step of a flow does: a transfer with a positive amount appends one entry with the
  totals after it; other transfers do nothing. The per-token and the per-unit flow are both
  instances.
\<close>

abbreviation positive :: "TokenTx list \<Rightarrow> TokenTx list" where
  "positive xs \<equiv> filter (\<lambda>tt. tt_Amount tt > 0) xs"

locale flow_steps =
  fixes step :: "TokenTx \<Rightarrow> totals \<Rightarrow> totals"
    and amount :: "TokenTx \<Rightarrow> big_float"
    and shown :: "TokenTx \<Rightarrow> big_float"
    and dep :: "TokenTx \<Rightarrow> bool"
    and wd :: "TokenTx \<Rightarrow> bool"
  assumes step_pos: "tt_Amount tt > 0 \<Longrightarrow> step tt (l, d, w) =
      (let d' = (if dep tt then Float_Add fl_new d (amount tt) else d);
           w' = (if wd tt then Float_Add fl_new w (amount tt) else w)
       in (l @ [flow_of tt (shown tt) d' w'], d', w'))"
    and step_zero: "\<not> tt_Amount tt > 0 \<Longrightarrow> step tt s = s"
begin

definition run :: "TokenTx list \<Rightarrow> totals" where
  "run xs = fold step xs ([init_flow], fl_new, fl_new)"

lemma run_snoc: "run (xs @ [x]) = step x (run xs)"
  by (simp add: run_def)

lemma run_totals:
  "snd (run xs) = (running dep amount (positive xs), running wd amount (positive xs))"
proof (induction xs rule: rev_induct)
  case Nil
  show ?case by (simp add: run_def running_def)
next
  case (snoc x xs)
  obtain l d w where r: "run xs = (l, d, w)" by (cases "run xs")
  with snoc show ?case
    by (cases "tt_Amount x > 0") (simp_all add: run_snoc step_pos step_zero running_snoc Let_def)
qed

lemma run_list:
  "fst (run xs) = init_flow # map (\<lambda>k.
     flow_of (positive xs ! k) (shown (positive xs ! k))
       (running dep amount (take (Suc k) (positive xs))) (running wd amount (take (Suc k) (positive xs))))
     [0..<length (positive xs)]"
proof (induction xs rule: rev_induct)
  case Nil
  show ?case by (simp add: run_def)
next
  case (snoc x xs)
  obtain l d w where r: "run xs = (l, d, w)" by (cases "run xs")
  have dw: "d = running dep amount (positive xs)" "w = running wd amount (positive xs)"
    using run_totals [of xs] r by simp_all
  show ?case
  proof (cases "tt_Amount x > 0")
    case True
    have "take (Suc (length (positive xs))) (positive xs @ [x]) = positive xs @ [x]" by simp
    with True snoc r dw show ?thesis
      by (simp add: run_snoc step_pos Let_def running_snoc nth_append cong: map_cong)
  next
    case False
    with snoc show ?thesis by (simp add: run_snoc step_zero)
  qed
qed

text \<open>Entry \<open>k\<close> of the flow has the totals of the first \<open>k\<close> transfers.\<close>

lemma run_nth:
  assumes "k \<le> length (positive xs)"
  shows "tf_TotalDeposit (fst (run xs) ! k) = running dep amount (take k (positive xs))"
    and "tf_TotalWithdraw (fst (run xs) ! k) = running wd amount (take k (positive xs))"
    and "0 \<le> fl_val (tf_Balance (fst (run xs) ! k))"
proof -
  show "tf_TotalDeposit (fst (run xs) ! k) = running dep amount (take k (positive xs))"
    and "tf_TotalWithdraw (fst (run xs) ! k) = running wd amount (take k (positive xs))"
    using assms by (cases k; simp add: run_list flow_of_def init_flow_def running_def)+
  have "0 \<le> fl_val (balance_of d w)" for d w
    by (auto simp: balance_of_def fl_defs intro: prec_round.rnd_nonneg)
  then show "0 \<le> fl_val (tf_Balance (fst (run xs) ! k))"
    using assms by (cases k) (simp_all add: run_list flow_of_def init_flow_def)
qed

lemma run_length: "length (fst (run xs)) = length (positive xs) + 1"
  by (simp add: run_list)

lemma run_keys:
  "map (\<lambda>f. (tf_BlockNumber f, tf_TxIndex f, tf_TransferIndex f, tf_Action f)) (fst (run xs)) =
     (0, 0, 0, ''deposit'') # map (\<lambda>tt. (tt_BlockNumber tt, tt_TxIndex tt, TransferIndex tt, tt_Action tt)) (positive xs)"
  by (rule nth_equalityI) (auto simp: run_list flow_of_def init_flow_def nth_Cons split: nat.splits)

lemma run_mono:
  assumes "wide_amounts amount (positive xs)" and "i \<le> j" and "j \<le> length (positive xs)"
  shows "fl_val (tf_TotalDeposit (fst (run xs) ! i)) \<le> fl_val (tf_TotalDeposit (fst (run xs) ! j)) \<and>
    fl_val (tf_TotalWithdraw (fst (run xs) ! i)) \<le> fl_val (tf_TotalWithdraw (fst (run xs) ! j))"
proof -
  let ?p = "positive xs"
  have j: "take j ?p = take i ?p @ drop i (take j ?p)"
    using assms(2) by (metis append_take_drop_id min.absorb1 take_take)
  have "wide_amounts amount (take i ?p @ drop i (take j ?p))"
    unfolding j [symmetric] using assms(1) by (auto simp: wide_amounts_def dest: in_set_takeD)
  from running_mono [OF this] show ?thesis
    using assms(2,3) unfolding j [symmetric] by (simp add: run_nth)
qed

end

definition adds_deposit :: "TokenTx \<Rightarrow> bool" where
  "adds_deposit tt \<longleftrightarrow> tt_Action tt \<in> {''deposit'', ''borrow-in'', ''swap-in''}"

definition adds_withdraw :: "TokenTx \<Rightarrow> bool" where
  "adds_withdraw tt \<longleftrightarrow> tt_Action tt \<in> {''withdraw'', ''borrow-out'', ''swap-out''}"

interpretation own: flow_steps token_step raw_amount "\<lambda>tt. Float_Add fl_new (raw_amount tt) fl_new"
  adds_deposit adds_withdraw
  by unfold_locales (auto simp: token_step_def raw_amount_def adds_deposit_def adds_withdraw_def Let_def)

definition stable_amount :: "(Address, StableToken) gomap \<Rightarrow> TokenTx \<Rightarrow> big_float" where
  "stable_amount stables tt = Float_Mul fl_new (SetInt (tt_Amount tt))
     (stable_rate (mget zero_StableToken stables (TokenAddress tt)))"

interpretation unit: flow_steps "stable_step stables" "stable_amount stables" "stable_amount stables"
  "\<lambda>tt. tt_Action tt = ''deposit''" "\<lambda>tt. tt_Action tt = ''withdraw''" for stables
  by unfold_locales (auto simp: stable_step_def stable_amount_def Let_def)

lemma token_flow_run: "token_flow l = fst (own.run (sort_txs l))"
  by (simp add: token_flow_def token_flow_with_def own.run_def)

lemma stable_flow_run: "stable_flow stables l = fst (unit.run stables (sort_txs l))"
  by (simp add: stable_flow_def stable_flow_with_def unit.run_def)

lemma wide_positive: "wide_amounts raw_amount (positive xs)"
  by (auto simp: wide_amounts_def)

lemma wide_take: "wide_amounts am ys \<Longrightarrow> wide_amounts am (take k ys)"
  by (auto simp: wide_amounts_def dest: in_set_takeD)

text \<open>
  C30: the totals of a token flow are the sums of its transfers up to floating-point rounding.
  Entry \<open>k\<close> covers the first \<open>k\<close> positive transfers in transaction order; its deposit and
  withdrawal totals differ from the exact sums by at most a factor of one part in 2 to the
  64 per transfer.
\<close>

theorem token_flow_totals:
  assumes "k \<le> length (positive (sort_txs l))"
  defines "first_txs \<equiv> take k (positive (sort_txs l))" and "f \<equiv> token_flow l ! k"
  shows "exact_sum adds_deposit raw_amount first_txs * (1 - 1 / 2 ^ 64) ^ k \<le> fl_val (tf_TotalDeposit f) \<and>
    fl_val (tf_TotalDeposit f) \<le> exact_sum adds_deposit raw_amount first_txs * (1 + 1 / 2 ^ 64) ^ k \<and>
    exact_sum adds_withdraw raw_amount first_txs * (1 - 1 / 2 ^ 64) ^ k \<le> fl_val (tf_TotalWithdraw f) \<and>
    fl_val (tf_TotalWithdraw f) \<le> exact_sum adds_withdraw raw_amount first_txs * (1 + 1 / 2 ^ 64) ^ k"
proof -
  have len: "length first_txs = k" using assms(1) by (simp add: first_txs_def)
  have w: "wide_amounts raw_amount first_txs"
    unfolding first_txs_def by (rule wide_take [OF wide_positive])
  have "tf_TotalDeposit f = running adds_deposit raw_amount first_txs"
    and "tf_TotalWithdraw f = running adds_withdraw raw_amount first_txs"
    using own.run_nth [OF assms(1)] by (simp_all add: f_def first_txs_def token_flow_run)
  with running_bounds [OF w, of adds_deposit] running_bounds [OF w, of adds_withdraw] len
  show ?thesis by simp
qed

theorem token_flow_totals_witness:
  "fl_val (tf_TotalDeposit (token_flow [sample_transfer 1 0 0 3 ''deposit'' 5] ! 1)) \<le> 5 * (1 + 1 / 2 ^ 64) ^ 1"
  using token_flow_totals [of 1 "[sample_transfer 1 0 0 3 ''deposit'' 5]"]
  by (simp add: sample_transfer_def exact_sum_def adds_deposit_def)

text \<open>
  When the deposits (or withdrawals) of a token sum up to less than 2 to the 64, their
  running totals are exact.
\<close>

theorem token_flow_exact:
  assumes "k \<le> length (positive (sort_txs l))"
    and "exact_sum adds_deposit raw_amount (take k (positive (sort_txs l))) < 2 ^ 64"
    and "exact_sum adds_withdraw raw_amount (take k (positive (sort_txs l))) < 2 ^ 64"
  shows "fl_val (tf_TotalDeposit (token_flow l ! k)) = exact_sum adds_deposit raw_amount (take k (positive (sort_txs l)))
    \<and> fl_val (tf_TotalWithdraw (token_flow l ! k)) = exact_sum adds_withdraw raw_amount (take k (positive (sort_txs l)))"
proof -
  have "\<forall>y \<in> set (take k (positive (sort_txs l))). 0 \<le> tt_Amount y"
    by (auto dest!: in_set_takeD)
  with assms running_exact show ?thesis by (simp add: token_flow_run own.run_nth)
qed

theorem token_flow_exact_witness:
  "fl_val (tf_TotalDeposit (token_flow
     [sample_transfer 1 0 0 3 ''deposit'' 5, sample_transfer 2 0 0 3 ''deposit'' 6] ! 2)) = 11"
  using token_flow_exact [of 2 "[sample_transfer 1 0 0 3 ''deposit'' 5, sample_transfer 2 0 0 3 ''deposit'' 6]"]
  by (simp add: sample_transfer_def exact_sum_def adds_deposit_def adds_withdraw_def TokenTxList_Less_def)

lemma flow_less_flow_of:
  "TokenFlowList_Less (flow_of a x d w) (flow_of b x' d' w') \<longleftrightarrow> TokenTxList_Less a b"
  by (simp add: TokenFlowList_Less_def TokenTxList_Less_def flow_of_def)

text \<open>
  C31: a token flow is well formed: the zero entry followed by one entry per positive
  transfer, in strict transaction order when the transfers have different positions, with
  totals that never decrease and balances that are never negative.
\<close>

theorem token_flow_wf:
  assumes "\<forall>tt \<in> set l. 0 < tt_BlockNumber tt" and "inj_on tx_key (set l)" and "distinct l"
  shows "length (token_flow l) = length (positive l) + 1 \<and> hd (token_flow l) = init_flow \<and>
    sorted_wrt TokenFlowList_Less (token_flow l) \<and>
    sorted_wrt (\<lambda>f g. fl_val (tf_TotalDeposit f) \<le> fl_val (tf_TotalDeposit g) \<and>
       fl_val (tf_TotalWithdraw f) \<le> fl_val (tf_TotalWithdraw g)) (token_flow l) \<and>
    (\<forall>f \<in> set (token_flow l). 0 \<le> fl_val (tf_Balance f))"
proof (intro conjI)
  let ?P = "positive (sort_txs l)"
  have P: "length ?P = length (positive l)"
    by (metis mset_filter mset_sort_by size_mset)
  show "length (token_flow l) = length (positive l) + 1"
    by (simp add: token_flow_run own.run_length P)
  show "hd (token_flow l) = init_flow" by (simp add: token_flow_run own.run_list)
  show "\<forall>f \<in> set (token_flow l). 0 \<le> fl_val (tf_Balance f)"
    using own.run_nth(3) [of _ "sort_txs l"]
    by (auto simp: token_flow_run in_set_conv_nth own.run_length less_Suc_eq_le)
  show "sorted_wrt (\<lambda>f g. fl_val (tf_TotalDeposit f) \<le> fl_val (tf_TotalDeposit g) \<and>
       fl_val (tf_TotalWithdraw f) \<le> fl_val (tf_TotalWithdraw g)) (token_flow l)"
    using own.run_mono [OF wide_positive, of _ _ "sort_txs l"]
    by (auto simp: sorted_wrt_iff_nth_less token_flow_run own.run_length less_Suc_eq_le)
  have "sorted_wrt TokenTxList_Less (sort_txs l)"
    by (rule tx_sorted_strict) (use assms(2,3) in auto)
  then have s: "sorted_wrt TokenTxList_Less ?P" by (rule sorted_wrt_filter)
  have "0 < tt_BlockNumber (?P ! k)" if "k < length ?P" for k
    using nth_mem [OF that] assms(1) by auto
  then have "TokenFlowList_Less init_flow (flow_of (?P ! k) a d w)" if "k < length ?P" for k a d w
    using that by (simp add: TokenFlowList_Less_def flow_of_def init_flow_def)
  moreover have "TokenFlowList_Less (flow_of (?P ! i) a d w) (flow_of (?P ! j) a' d' w')"
    if "i < j" "j < length ?P" for i j a d w a' d' w'
    using that s unfolding sorted_wrt_iff_nth_less flow_less_flow_of by blast
  ultimately show "sorted_wrt TokenFlowList_Less (token_flow l)"
    unfolding token_flow_run own.run_list
    by (simp add: sorted_wrt_map) (simp add: sorted_wrt_iff_nth_less)
qed

theorem token_flow_wf_witness:
  "length (token_flow [sample_transfer 1 0 0 3 ''deposit'' 5, sample_transfer 2 0 0 3 ''withdraw'' 6]) = 3"
  using token_flow_wf [of "[sample_transfer 1 0 0 3 ''deposit'' 5, sample_transfer 2 0 0 3 ''withdraw'' 6]"]
  by (simp add: sample_transfer_def tx_key_def)

end
