(* ===== verification/Merged_Flow.thy ===== *)
theory Merged_Flow
  imports Token_Flow
begin

text \<open>
  What the merged flow of \<open>GenerateUserFlow\<close> (\<open>hunter/defi/check.go\<close>) promises: which
  transfers have a price, when the merge panics, which users are set aside for unsupported
  tokens, and how transfers are grouped. Prices are read through a cache of price files; a
  cache that holds only what the files say (\<open>cache_ok\<close>) never changes an answer.
\<close>

section \<open>Prices through the cache\<close>

definition price_path :: "string \<Rightarrow> Address \<Rightarrow> string" where
  "price_path path token = path @ ''/'' @ Address_hex token @ ''.json''"

definition cache_ok :: "rate_files \<Rightarrow> string \<Rightarrow> (Address, TokenSwap) gomap \<Rightarrow> bool" where
  "cache_ok files path swaps \<longleftrightarrow>
     (\<forall>token ts. map_of swaps token = Some ts \<longrightarrow> files (price_path path token) = Some (ts_RateMap ts))"

definition file_price :: "rate_files \<Rightarrow> string \<Rightarrow> Address \<Rightarrow> int \<Rightarrow> rat" where
  "file_price files path token block =
     (case files (price_path path token) of None \<Rightarrow> 0 | Some m \<Rightarrow> mget 0 m (rate_key block))"

lemma ExistToken_result:
  assumes "cache_ok files path swaps" and "ExistToken files token swaps path = (b, swaps')"
  shows "b \<longleftrightarrow> files (price_path path token) \<noteq> None" and "cache_ok files path swaps'"
    and "b \<Longrightarrow> mhas swaps' token" and "mhas swaps t \<Longrightarrow> mhas swaps' t"
  using assms
  by (auto simp: ExistToken_def LoadRateMapBool_def cache_ok_def price_path_def mhas_def gomap_simps
      update_conv' split: if_splits option.splits)

lemma price_at_cached:
  assumes "cache_ok files path swaps" and "mhas swaps token"
  shows "price_at swaps token block = file_price files path token block"
proof -
  obtain ts where ts: "map_of swaps token = Some ts" using assms(2) by (auto simp: mhas_def split: option.splits)
  with assms(1) have "files (price_path path token) = Some (ts_RateMap ts)" by (auto simp: cache_ok_def)
  with ts show ?thesis by (simp add: price_at_def file_price_def mget_def [of zero_TokenSwap])
qed

lemma price_at_loaded:
  assumes "cache_ok files path swaps"
  shows "price_at (snd (ExistToken files token swaps path)) token block = file_price files path token block"
proof -
  obtain b s where e: "ExistToken files token swaps path = (b, s)" by (cases "ExistToken files token swaps path")
  note r = ExistToken_result [OF assms e]
  show ?thesis
  proof (cases b)
    case True
    with e r price_at_cached show ?thesis by simp
  next
    case False
    with r(1) have n: "files (price_path path token) = None" by simp
    with r(2) have "map_of s token = None" by (cases "map_of s token") (auto simp: cache_ok_def)
    with e n show ?thesis by (simp add: price_at_def file_price_def mget_def zero_TokenSwap_def)
  qed
qed

section \<open>Which transfers have a price\<close>

text \<open>
  The unit a token is priced in, the scaling of its decimals to that unit, and the two
  outcomes that are not a price.
\<close>

definition is_eth :: "Address \<Rightarrow> bool" where
  "is_eth token \<longleftrightarrow> token = 0 \<or> token = WETH"

definition price_unit :: "(Address, StableToken) gomap \<Rightarrow> Address \<Rightarrow> Address" where
  "price_unit stables token =
     (case map_of stables token of None \<Rightarrow> token
      | Some st \<Rightarrow> if XToken st = 2 then DAI else if XToken st = 3 then WBTC else token)"

definition unscalable :: "(Address, StableToken) gomap \<Rightarrow> Address \<Rightarrow> bool" where
  "unscalable stables token \<longleftrightarrow>
     (case map_of stables token of None \<Rightarrow> False | Some st \<Rightarrow> XToken st \<notin> {2, 3})"

definition has_file :: "rate_files \<Rightarrow> string \<Rightarrow> Address \<Rightarrow> bool" where
  "has_file files path token \<longleftrightarrow> files (price_path path token) \<noteq> None"

definition supported :: "rate_files \<Rightarrow> string \<Rightarrow> (Address, StableToken) gomap \<Rightarrow> TokenTx \<Rightarrow> bool" where
  "supported files path stables tt \<longleftrightarrow> is_eth (TokenAddress tt) \<or>
     has_file files path (TokenAddress tt) \<and>
     0 < file_price files path (price_unit stables (TokenAddress tt)) (tt_BlockNumber tt)"

lemma priced_amount_Inl: "priced_amount files path stables tt swaps = Inl p \<Longrightarrow> p = NilDereference"
  by (auto simp: priced_amount_def Let_def split: if_splits prod.splits bool.splits option.splits)

lemma priced_amount_panics:
  assumes "cache_ok files path swaps"
  shows "priced_amount files path stables tt swaps = Inl NilDereference \<longleftrightarrow>
     \<not> is_eth (TokenAddress tt) \<and> has_file files path (TokenAddress tt) \<and> unscalable stables (TokenAddress tt)"
proof -
  obtain b s where e: "ExistToken files (TokenAddress tt) swaps path = (b, s)"
    by (cases "ExistToken files (TokenAddress tt) swaps path")
  from ExistToken_result(1) [OF assms e] e show ?thesis
    by (cases b) (auto simp: priced_amount_def Let_def is_eth_def has_file_def unscalable_def split: option.splits)
qed

text \<open>
  C39: valuing a transfer panics exactly when its token is neither ether nor wrapped ether,
  has a price file, and is a stable token pegged to something other than the dollar or
  bitcoin: then the scaling factor was never set. This is the case for the tokens pegged to
  ether in \<open>stableTokenToETH.csv\<close> other than wrapped ether.
\<close>

theorem priced_amount_panics_iff:
  assumes "cache_ok files path swaps"
  shows "priced_amount files path stables tt swaps = Inl NilDereference \<longleftrightarrow>
     \<not> is_eth (TokenAddress tt) \<and> has_file files path (TokenAddress tt) \<and> unscalable stables (TokenAddress tt)"
  by (rule priced_amount_panics [OF assms])

definition sample_files :: rate_files where
  "sample_files p = (if p = price_path ''rates'' 11 then Some [(rate_key 700, 2)] else None)"

definition sample_stables :: "(Address, StableToken) gomap" where
  "sample_stables = [(11, \<lparr>st_Symbol = ''steth'', st_Decimals = 18, XToken = 1, RateToXToken = 1\<rparr>)]"

theorem priced_amount_panics_iff_witness:
  "priced_amount sample_files ''rates'' sample_stables (sample_transfer 700 0 0 11 ''deposit'' 5) [] = Inl NilDereference"
  using priced_amount_panics_iff [of sample_files "''rates''" "[]" sample_stables "sample_transfer 700 0 0 11 ''deposit'' 5"]
  by (simp add: cache_ok_def sample_transfer_def is_eth_def token_addresses has_file_def sample_files_def
      unscalable_def sample_stables_def)

lemma priced_amount_result:
  assumes "cache_ok files path swaps" and "priced_amount files path stables tt swaps = Inr (p, swaps')"
  shows "cache_ok files path swaps'"
    and "(\<exists>amount rate. p = Some (amount, rate) \<and> Float_Cmp rate (NewFloat 0) = 1) \<longleftrightarrow> supported files path stables tt"
proof -
  let ?t = "TokenAddress tt"
  obtain b s where e: "ExistToken files ?t swaps path = (b, s)" by (cases "ExistToken files ?t swaps path")
  note r = ExistToken_result [OF assms(1) e]
  have dai: "cache_ok files path (snd (ExistToken files x s path))" for x
    using ExistToken_result(2) [OF r(2)] by (metis prod.collapse)
  show "cache_ok files path swaps'"
    using assms e r(2) dai by (auto simp: priced_amount_def Let_def split: if_splits bool.splits option.splits)
  have own: "b \<Longrightarrow> price_at s ?t (tt_BlockNumber tt) = file_price files path ?t (tt_BlockNumber tt)"
    using r price_at_cached by blast
  show "(\<exists>amount rate. p = Some (amount, rate) \<and> Float_Cmp rate (NewFloat 0) = 1) \<longleftrightarrow> supported files path stables tt"
    using assms(2) e r(1) own price_at_loaded [OF r(2)]
    by (auto simp: priced_amount_def Let_def supported_def is_eth_def has_file_def price_unit_def
        split: if_splits bool.splits option.splits)
qed

section \<open>The merge\<close>

lemma merge_fields [simp]:
  "m_swaps (roll_block tt s) = m_swaps s" "m_exist (roll_block tt s) = m_exist s"
  "m_swaps (merge_amount tt a s) = m_swaps s" "m_exist (merge_amount tt a s) = m_exist s"
  "m_swaps (note_unsupported tt s) = m_swaps s" "m_exist (note_unsupported tt s)"
  by (simp_all add: roll_block_def merge_amount_def note_unsupported_def Let_def)

lemma merge_step_cases:
  assumes "merge_step files path stables tt s = Inr s'"
  obtains (skip) "\<not> 0 < tt_Amount tt" "s' = roll_block tt s"
  | (add) amount rate swaps where "0 < tt_Amount tt"
      "priced_amount files path stables tt (m_swaps s) = Inr (Some (amount, rate), swaps)"
      "Float_Cmp rate (NewFloat 0) = 1"
      "s' = merge_amount tt (Float_Mul fl_new amount rate) ((roll_block tt s)\<lparr>m_swaps := swaps\<rparr>)"
  | (drop) p swaps where "0 < tt_Amount tt" "priced_amount files path stables tt (m_swaps s) = Inr (p, swaps)"
      "\<nexists>amount rate. p = Some (amount, rate) \<and> Float_Cmp rate (NewFloat 0) = 1"
      "s' = note_unsupported tt ((roll_block tt s)\<lparr>m_swaps := swaps\<rparr>)"
proof (cases "0 < tt_Amount tt")
  case False
  with assms skip show ?thesis by (simp add: merge_step_def Let_def)
next
  case True
  from True assms obtain p swaps where pr: "priced_amount files path stables tt (m_swaps s) = Inr (p, swaps)"
    and s': "s' = (let s = (roll_block tt s)\<lparr>m_swaps := swaps\<rparr> in case p of
        None \<Rightarrow> note_unsupported tt s
      | Some (amount, rate) \<Rightarrow> if Float_Cmp rate (NewFloat 0) = 1
          then merge_amount tt (Float_Mul fl_new amount rate) s else note_unsupported tt s)"
    by (auto simp: merge_step_def Let_def go_bind_Inr_iff)
  show ?thesis
  proof (cases "\<exists>amount rate. p = Some (amount, rate) \<and> Float_Cmp rate (NewFloat 0) = 1")
    case pos: True
    then obtain amount rate where "p = Some (amount, rate)" "Float_Cmp rate (NewFloat 0) = 1" by blast
    with True pr s' show ?thesis by (intro add) (simp_all add: Let_def)
  next
    case neg: False
    then have "s' = note_unsupported tt ((roll_block tt s)\<lparr>m_swaps := swaps\<rparr>)"
      unfolding s' by (auto simp: Let_def split: option.split)
    with True pr neg show ?thesis by (intro drop)
  qed
qed

lemma merge_step_result:
  assumes "merge_step files path stables tt s = Inr s'" and "cache_ok files path (m_swaps s)"
  shows "cache_ok files path (m_swaps s') \<and>
    (m_exist s' \<longleftrightarrow> m_exist s \<or> (0 < tt_Amount tt \<and> \<not> supported files path stables tt))"
  using assms(1)
proof (cases rule: merge_step_cases)
  case skip
  with assms(2) show ?thesis by simp
next
  case (add amount rate swaps)
  with priced_amount_result [OF assms(2) add(2)] show ?thesis by simp
next
  case (drop p swaps)
  with priced_amount_result [OF assms(2) drop(2)] show ?thesis by simp
qed

lemma merge_step_blocks:
  assumes "merge_step files path stables tt s = Inr s'"
  shows "map tf_BlockNumber (m_txs s' @ [m_cur s']) = map tf_BlockNumber (m_txs s @ [m_cur s]) @
     (if tf_BlockNumber (m_cur s) < tt_BlockNumber tt then [tt_BlockNumber tt] else [])"
  using assms
  by (cases rule: merge_step_cases) (simp_all add: roll_block_def merge_amount_def note_unsupported_def Let_def)

lemma merge_run_result:
  assumes "go_fold (merge_step files path stables) xs s = Inr s'" and "cache_ok files path (m_swaps s)"
  shows "cache_ok files path (m_swaps s')"
    and "m_exist s' \<longleftrightarrow> m_exist s \<or> (\<exists>tt \<in> set xs. 0 < tt_Amount tt \<and> \<not> supported files path stables tt)"
proof -
  have "cache_ok files path (m_swaps s') \<and>
     (m_exist s' \<longleftrightarrow> m_exist s \<or> (\<exists>tt \<in> set xs. 0 < tt_Amount tt \<and> \<not> supported files path stables tt))"
    using assms
  proof (induction xs arbitrary: s)
    case (Cons x xs)
    from Cons.prems(1) obtain v where v: "merge_step files path stables x s = Inr v"
      and r: "go_fold (merge_step files path stables) xs v = Inr s'" by (auto elim: go_bind_InrE)
    note m = merge_step_result [OF v Cons.prems(2)]
    from Cons.IH [OF r] m show ?case by auto
  qed simp
  then show "cache_ok files path (m_swaps s')"
    and "m_exist s' \<longleftrightarrow> m_exist s \<or> (\<exists>tt \<in> set xs. 0 < tt_Amount tt \<and> \<not> supported files path stables tt)"
    by blast+
qed

text \<open>The merge does not stop early unless a transfer cannot be scaled.\<close>

lemma merge_run_total:
  assumes "\<forall>tt \<in> set xs. 0 < tt_Amount tt \<longrightarrow>
      is_eth (TokenAddress tt) \<or> \<not> has_file files path (TokenAddress tt) \<or> \<not> unscalable stables (TokenAddress tt)"
    and "cache_ok files path (m_swaps s)"
  shows "\<exists>s'. go_fold (merge_step files path stables) xs s = Inr s'"
  using assms
proof (induction xs arbitrary: s)
  case (Cons x xs)
  have "\<exists>v. merge_step files path stables x s = Inr v"
  proof (cases "0 < tt_Amount x")
    case True
    then have "priced_amount files path stables x (m_swaps s) \<noteq> Inl NilDereference"
      using True Cons.prems priced_amount_panics by auto
    then show ?thesis
      using priced_amount_Inl [of files path stables x "m_swaps s"] True
      by (cases "priced_amount files path stables x (m_swaps s)") (auto simp: merge_step_def Let_def)
  qed (simp add: merge_step_def Let_def)
  then obtain v where v: "merge_step files path stables x s = Inr v" by blast
  from Cons.IH [of v] merge_step_result [OF v Cons.prems(2)] Cons.prems(1) v show ?case by simp
qed simp

section \<open>The flows of a user\<close>

definition all_txs :: "TokenTxMap \<Rightarrow> TokenTx list" where
  "all_txs tm = concat (map snd tm)"

lemma user_flow_Inr:
  assumes "user_flow files ex tm (swaps, uns) = Inr (fm, swaps', uns')"
  obtains ms where
    "go_fold (merge_step files (RateMapPath ex) (StableTokenMap ex)) (sort_txs (all_txs tm)) (init_merge swaps uns) = Inr ms"
    "fm = assemble_flows ex tm ms" "swaps' = m_swaps ms" "uns' = m_unsupported ms"
  using assms by (auto simp: user_flow_def go_bind_Inr_iff all_txs_def)

abbreviation plain_flows :: "TxExtractor \<Rightarrow> TokenTxMap \<Rightarrow> TokenFlowMap" where
  "plain_flows ex tm \<equiv>
     fold (\<lambda>(xToken, l). mput xToken (stable_flow (StableTokenMap ex) l)) (stable_lists ex tm) (own_flows ex tm)"

lemma assemble_lookup:
  "mget [] (assemble_flows ex tm ms) 5 = m_txs ms @ [m_cur ms]"
  "token \<notin> {4, 5, 6, 7} \<Longrightarrow> mget [] (assemble_flows ex tm ms) token = mget [] (plain_flows ex tm) token"
  "\<not> mhas (plain_flows ex tm) 6 \<Longrightarrow> mhas (assemble_flows ex tm ms) 6 \<longleftrightarrow> length tm = 1"
  "\<not> mhas (plain_flows ex tm) 7 \<Longrightarrow> mhas (assemble_flows ex tm ms) 7 \<longleftrightarrow> length tm \<noteq> 1 \<and> m_exist ms"
  by (auto simp: assemble_flows_def Let_def gomap_simps)

lemma flow_keys:
  assumes "mhas (plain_flows ex tm) k"
  shows "k \<in> set (mkeys tm) \<union> set (mkeys (stable_lists ex tm))"
proof -
  have 1: "mhas (fold (\<lambda>(x, l). mput x (f l)) ys m) k \<Longrightarrow> k \<in> set (mkeys ys) \<or> mhas m k" for f ys m
    by (induction ys arbitrary: m) (fastforce simp: gomap_simps)+
  have "mhas (fold (\<lambda>(token, l) m. if is_lp ex token then m else mput token (token_flow l) m) ys m) k \<Longrightarrow>
      k \<in> set (mkeys ys) \<or> mhas m k" for ys m
    by (induction ys arbitrary: m) (fastforce simp: gomap_simps split: if_splits)+
  from this [of tm "[]"] 1 [OF assms] show ?thesis by (auto simp: own_flows_def)
qed

lemma merge_blocks_run:
  assumes "go_fold (merge_step files path stables) xs s = Inr s'"
    and "sorted (tf_BlockNumber (m_cur s) # map tt_BlockNumber xs)"
  shows "map tf_BlockNumber (m_txs s' @ [m_cur s']) =
     map tf_BlockNumber (m_txs s) @ remdups_adj (tf_BlockNumber (m_cur s) # map tt_BlockNumber xs)"
  using assms
proof (induction xs arbitrary: s)
  case (Cons x xs)
  from Cons.prems(1) obtain v where v: "merge_step files path stables x s = Inr v"
    and r: "go_fold (merge_step files path stables) xs v = Inr s'" by (auto elim: go_bind_InrE)
  have le: "tf_BlockNumber (m_cur s) \<le> tt_BlockNumber x" using Cons.prems(2) by simp
  from merge_step_blocks [OF v] le
  have c: "tf_BlockNumber (m_cur v) = tt_BlockNumber x"
    and m: "map tf_BlockNumber (m_txs v) = map tf_BlockNumber (m_txs s) @
       (if tf_BlockNumber (m_cur s) < tt_BlockNumber x then [tf_BlockNumber (m_cur s)] else [])"
    by (auto split: if_splits)
  have "sorted (tf_BlockNumber (m_cur v) # map tt_BlockNumber xs)" using Cons.prems(2) c by simp
  from Cons.IH [OF r this] c m le show ?case by auto
qed simp

lemma sort_txs_blocks: "sorted (map tt_BlockNumber (sort_txs l))"
  unfolding sorted_map
  by (rule sorted_wrt_mono_rel [OF _ tx_order.sorted_sort_by])
    (auto simp: TokenTxList_Less_def split: if_splits)

text \<open>
  The merged per-transaction list has one entry per block, not per transaction: the
  block numbers of its entries are zero followed by the different blocks of the transfers
  in increasing order. Transfers of different transactions of a block are merged into one
  entry.
\<close>

theorem merged_entry_per_block:
  assumes "user_flow files ex tm (swaps, uns) = Inr (fm, swaps', uns')"
    and "\<forall>tt \<in> set (all_txs tm). 0 < tt_BlockNumber tt"
  shows "map tf_BlockNumber (mget [] fm 5) = 0 # remdups_adj (map tt_BlockNumber (sort_txs (all_txs tm)))"
proof -
  obtain ms where ms: "go_fold (merge_step files (RateMapPath ex) (StableTokenMap ex)) (sort_txs (all_txs tm))
      (init_merge swaps uns) = Inr ms" and fm: "mget [] fm 5 = m_txs ms @ [m_cur ms]"
    using assms(1) by (auto elim: user_flow_Inr simp: assemble_lookup)
  have pos: "\<forall>b \<in> set (map tt_BlockNumber (sort_txs (all_txs tm))). 0 < b" using assms(2) by simp
  then have "sorted (0 # map tt_BlockNumber (sort_txs (all_txs tm)))"
    using sort_txs_blocks by (simp add: order_less_imp_le)
  from merge_blocks_run [OF ms] this have "map tf_BlockNumber (mget [] fm 5) =
      remdups_adj (0 # map tt_BlockNumber (sort_txs (all_txs tm)))"
    by (simp add: fm init_merge_def init_flow_def)
  then show ?thesis
    using pos by (cases "map tt_BlockNumber (sort_txs (all_txs tm))") auto
qed

lemma user_flow_total:
  assumes "\<forall>tt \<in> set (all_txs tm). 0 < tt_Amount tt \<longrightarrow> is_eth (TokenAddress tt) \<or>
      \<not> has_file files (RateMapPath ex) (TokenAddress tt) \<or> \<not> unscalable (StableTokenMap ex) (TokenAddress tt)"
    and "cache_ok files (RateMapPath ex) swaps"
  shows "\<exists>ms fm swaps' uns'.
     go_fold (merge_step files (RateMapPath ex) (StableTokenMap ex)) (sort_txs (all_txs tm)) (init_merge swaps uns) = Inr ms \<and>
     user_flow files ex tm (swaps, uns) = Inr (fm, swaps', uns')"
proof -
  have "cache_ok files (RateMapPath ex) (m_swaps (init_merge swaps uns))" using assms(2) by (simp add: init_merge_def)
  from merge_run_total [of "sort_txs (all_txs tm)", OF _ this] assms(1) obtain ms where
    "go_fold (merge_step files (RateMapPath ex) (StableTokenMap ex)) (sort_txs (all_txs tm)) (init_merge swaps uns) = Inr ms"
    by auto
  then show ?thesis by (simp add: user_flow_def all_txs_def)
qed

text \<open>
  C34: generating the flows of a user returns normally when no positive transfer is of an
  unscalable token with a price file, and then the user is set aside (the empty list under
  \<open>0x7\<close>) exactly when it has not a single token and some positive transfer has no price,
  and is checked on its single token (\<open>0x6\<close>) exactly when it has one.
\<close>

theorem user_flow_marks:
  assumes "\<forall>tt \<in> set (all_txs tm). 0 < tt_Amount tt \<longrightarrow> is_eth (TokenAddress tt) \<or>
      \<not> has_file files (RateMapPath ex) (TokenAddress tt) \<or> \<not> unscalable (StableTokenMap ex) (TokenAddress tt)"
    and "cache_ok files (RateMapPath ex) swaps"
    and "\<forall>token \<in> set (mkeys tm) \<union> set (mkeys (stable_lists ex tm)). token \<noteq> 6 \<and> token \<noteq> 7"
  shows "\<exists>fm swaps' uns'. user_flow files ex tm (swaps, uns) = Inr (fm, swaps', uns') \<and>
     cache_ok files (RateMapPath ex) swaps' \<and>
     (mhas fm 6 \<longleftrightarrow> length tm = 1) \<and>
     (mhas fm 7 \<longleftrightarrow> length tm \<noteq> 1 \<and>
        (\<exists>tt \<in> set (all_txs tm). 0 < tt_Amount tt \<and> \<not> supported files (RateMapPath ex) (StableTokenMap ex) tt))"
proof -
  let ?s = "init_merge swaps uns"
  have c: "cache_ok files (RateMapPath ex) (m_swaps ?s)" using assms(2) by (simp add: init_merge_def)
  obtain ms fm swaps' uns' where
    ms: "go_fold (merge_step files (RateMapPath ex) (StableTokenMap ex)) (sort_txs (all_txs tm)) ?s = Inr ms"
    and u: "user_flow files ex tm (swaps, uns) = Inr (fm, swaps', uns')"
    using user_flow_total [OF assms(1,2)] by blast
  from u ms have sw: "swaps' = m_swaps ms" and fm: "fm = assemble_flows ex tm ms"
    by (auto elim: user_flow_Inr)
  have "\<not> mhas (plain_flows ex tm) 6" "\<not> mhas (plain_flows ex tm) 7"
    using assms(3) flow_keys by blast+
  from assemble_lookup(3) [OF this(1)] assemble_lookup(4) [OF this(2)] u sw fm merge_run_result [OF ms c]
  show ?thesis by (simp add: init_merge_def)
qed

definition sample_txs :: TokenTxMap where
  "sample_txs = [(0, [sample_transfer 700 1 0 0 ''deposit'' 5, sample_transfer 700 2 0 0 ''withdraw'' 7]),
     (13, [sample_transfer 800 1 0 13 ''deposit'' 5])]"

lemma sample_keys: "stable_lists sample_extractor sample_txs = []"
  by (simp add: stable_lists_def sample_extractor_def sample_txs_def)

lemma sample_supported:
  "\<forall>tt \<in> set (all_txs sample_txs). 0 < tt_Amount tt \<longrightarrow> is_eth (TokenAddress tt) \<or>
      \<not> has_file sample_files (RateMapPath sample_extractor) (TokenAddress tt) \<or>
      \<not> unscalable (StableTokenMap sample_extractor) (TokenAddress tt)"
  "cache_ok sample_files (RateMapPath sample_extractor) []"
  by (auto simp: all_txs_def sample_txs_def sample_transfer_def sample_extractor_def unscalable_def cache_ok_def)

theorem user_flow_marks_witness:
  "\<exists>fm swaps' uns'. user_flow sample_files sample_extractor sample_txs ([], []) = Inr (fm, swaps', uns') \<and>
     \<not> mhas fm 6 \<and> mhas fm 7"
proof -
  have "\<forall>token \<in> set (mkeys sample_txs) \<union> set (mkeys (stable_lists sample_extractor sample_txs)). token \<noteq> 6 \<and> token \<noteq> 7"
    unfolding sample_keys by (simp add: sample_txs_def)
  moreover have "\<exists>tt \<in> set (all_txs sample_txs). 0 < tt_Amount tt \<and>
      \<not> supported sample_files (RateMapPath sample_extractor) (StableTokenMap sample_extractor) tt"
    by (simp add: all_txs_def sample_txs_def sample_transfer_def supported_def is_eth_def token_addresses
        has_file_def sample_files_def sample_extractor_def price_path_def Address_hex_inj)
  moreover have "length sample_txs \<noteq> 1" by (simp add: sample_txs_def)
  ultimately show ?thesis using user_flow_marks [OF sample_supported, of "[]"] by blast
qed

theorem merged_entry_per_block_witness:
  "\<exists>fm swaps' uns'. user_flow sample_files sample_extractor sample_txs ([], []) = Inr (fm, swaps', uns') \<and>
     map tf_BlockNumber (mget [] fm 5) = [0, 700, 800]"
proof -
  obtain fm swaps' uns' where u: "user_flow sample_files sample_extractor sample_txs ([], []) = Inr (fm, swaps', uns')"
    using user_flow_total [OF sample_supported] by blast
  have "sort_txs (all_txs sample_txs) = all_txs sample_txs"
    by (simp add: all_txs_def sample_txs_def sample_transfer_def TokenTxList_Less_def)
  with merged_entry_per_block [OF u] u show ?thesis
    by (simp add: all_txs_def sample_txs_def sample_transfer_def)
qed

section \<open>Values\<close>

text \<open>
  A transfer of a token pegged to bitcoin with more than 8 decimals is merged with the
  value zero: the power of ten that should scale it down truncates to zero.
\<close>

theorem btc_decimals_lost:
  assumes "priced_amount files path stables tt swaps = Inr (Some (amount, rate), swaps')"
    and "\<not> is_eth (TokenAddress tt)" and "map_of stables (TokenAddress tt) = Some st"
    and "XToken st = 3" and "8 < st_Decimals st" and "st_Decimals st < 2 ^ 62"
  shows "fl_val (Float_Mul fl_new amount rate) = 0"
proof -
  have "wrap64 (8 - st_Decimals st) = 8 - st_Decimals st"
    using assms(5,6) by (simp add: wrap64_def)
  then have "pow10_int64 (wrap64 (8 - st_Decimals st)) = 0"
    using assms(5) by (simp add: pow10_int64_def)
  with assms(1-4) have "fl_val amount = 0"
    by (auto simp: priced_amount_def Let_def is_eth_def fl_defs split: prod.splits bool.splits if_splits)
  then show ?thesis by (simp add: fl_defs)
qed

definition sample_btc :: "(Address, StableToken) gomap" where
  "sample_btc = [(11, \<lparr>st_Symbol = ''hbtc'', st_Decimals = 18, XToken = 3, RateToXToken = 1\<rparr>)]"

theorem btc_decimals_lost_witness:
  "\<exists>amount rate swaps. priced_amount sample_files ''rates'' sample_btc (sample_transfer 700 0 0 11 ''deposit'' 5) []
      = Inr (Some (amount, rate), swaps) \<and> fl_val (Float_Mul fl_new amount rate) = 0"
proof -
  have "\<exists>amount rate swaps. priced_amount sample_files ''rates'' sample_btc (sample_transfer 700 0 0 11 ''deposit'' 5) []
      = Inr (Some (amount, rate), swaps)"
    by (simp add: priced_amount_def Let_def sample_transfer_def token_addresses ExistToken_def LoadRateMapBool_def
        sample_files_def price_path_def sample_btc_def)
  then obtain amount rate swaps where
    "priced_amount sample_files ''rates'' sample_btc (sample_transfer 700 0 0 11 ''deposit'' 5) []
      = Inr (Some (amount, rate), swaps)" by blast
  with btc_decimals_lost [OF this] show ?thesis
    by (simp add: is_eth_def token_addresses sample_transfer_def sample_btc_def)
qed

section \<open>All users\<close>

lemma go_fold_flows:
  assumes "go_fold (add_user_flow files ex) m (fm, swaps, uns) = Inr (fm', swaps', uns')"
    and "gomap_ok m"
  shows "(\<forall>(user, tm) \<in> set m. \<exists>f sw un sw' un'. user_flow files ex tm (sw, un) = Inr (f, sw', un') \<and> map_of fm' user = Some f)
    \<and> (\<forall>user. user \<notin> set (mkeys m) \<longrightarrow> map_of fm' user = map_of fm user)"
  using assms
proof (induction m arbitrary: fm swaps uns)
  case (Cons x m)
  obtain user tm where x: "x = (user, tm)" by (cases x)
  from Cons.prems(1) x obtain f sw un where f: "user_flow files ex tm (swaps, uns) = Inr (f, sw, un)"
    and r: "go_fold (add_user_flow files ex) m (mput user f fm, sw, un) = Inr (fm', swaps', uns')"
    by (auto simp: go_bind_Inr_iff add_user_flow_def [of _ _ "(user, tm)"])
  have ok: "gomap_ok m" "user \<notin> set (mkeys m)" using Cons.prems(2) x by (auto simp: gomap_ok_def)
  note IH = Cons.IH [OF r ok(1)]
  have "map_of fm' user = Some f" using IH ok(2) by (simp add: update_conv')
  with IH f x show ?case by (fastforce simp: update_conv')
qed simp

lemma own_flows_lookup:
  assumes "gomap_ok tm" and "(token, l) \<in> set tm" and "\<not> is_lp ex token"
  shows "mget [] (own_flows ex tm) token = token_flow l"
proof -
  let ?f = "\<lambda>(token, l) m. if is_lp ex token then m else mput token (token_flow l) m"
  have "mget [] (fold ?f ys m) k = mget [] m k" if "k \<notin> set (mkeys ys)" for ys m k
    using that by (induction ys arbitrary: m) (auto simp: gomap_simps split: if_splits)
  then have "mget [] (fold ?f tm m) token = token_flow l" for m
    using assms
  proof (induction tm arbitrary: m)
    case (Cons y tm)
    then show ?case
      by (cases "y = (token, l)") (auto simp: gomap_ok_def gomap_simps)
  qed simp
  then show ?thesis by (simp add: own_flows_def)
qed

text \<open>
  C33: when the flows of all users are generated, the flow listed for a user and one of its
  tokens is the token flow of the transactions recorded for them, unless the token is a
  liquidity token or its address names a unit or a merged flow.
\<close>

theorem GenerateUserFlow_tokens:
  assumes "GenerateUserFlow files ex = Inr (fm, uns, ex')" and "gomap_ok (te_UserTokenTxMap ex)"
    and "(user, tm) \<in> set (te_UserTokenTxMap ex)" and "gomap_ok tm" and "(token, l) \<in> set tm"
    and "\<not> is_lp ex token" and "token \<notin> {4, 5, 6, 7}" and "\<not> mhas (stable_lists ex tm) token"
  shows "mget [] (mget [] fm user) token = token_flow l"
proof -
  from assms(1) obtain swaps where "go_fold (add_user_flow files ex) (te_UserTokenTxMap ex) ([], te_TokenSwapMap ex, []) = Inr (fm, swaps, uns)"
    by (auto simp: GenerateUserFlow_def go_bind_Inr_iff)
  from go_fold_flows [OF this assms(2)] assms(3) obtain f sw un sw' un' where
    u: "user_flow files ex tm (sw, un) = Inr (f, sw', un')" and f: "map_of fm user = Some f" by fastforce
  have keep: "mget [] (fold (\<lambda>(x, l). mput x (g l)) ys m) token = mget [] m token" if "\<not> mhas ys token" for g ys m
    using that by (induction ys arbitrary: m) (auto simp: gomap_simps)
  obtain ms where "f = assemble_flows ex tm ms" by (rule user_flow_Inr [OF u])
  moreover have "mget [] (plain_flows ex tm) token = token_flow l"
    by (simp add: keep [OF assms(8)] own_flows_lookup [OF assms(4-6)])
  ultimately have "mget [] f token = token_flow l" using assms(7) by (simp add: assemble_lookup)
  with f show ?thesis by (simp add: mget_def)
qed

definition sample_users :: TxExtractor where
  "sample_users = sample_extractor\<lparr>te_UserTokenTxMap := [(9, sample_txs)]\<rparr>"

theorem GenerateUserFlow_tokens_witness:
  "\<exists>fm uns ex'. GenerateUserFlow sample_files sample_users = Inr (fm, uns, ex') \<and>
     mget [] (mget [] fm 9) 13 = token_flow [sample_transfer 800 1 0 13 ''deposit'' 5]"
proof -
  have same: "RateMapPath sample_users = RateMapPath sample_extractor"
    "StableTokenMap sample_users = StableTokenMap sample_extractor"
    and keys: "stable_lists sample_users sample_txs = []"
    by (simp_all add: sample_users_def sample_extractor_def stable_lists_def sample_txs_def)
  have "te_TokenSwapMap sample_users = []" by (simp add: sample_users_def sample_extractor_def)
  with user_flow_total [of sample_txs sample_files sample_users "[]" "[]"] sample_supported
  obtain fm uns ex' where g: "GenerateUserFlow sample_files sample_users = Inr (fm, uns, ex')"
    by (auto simp: same GenerateUserFlow_def add_user_flow_def sample_users_def)
  have "gomap_ok (te_UserTokenTxMap sample_users)" "(9, sample_txs) \<in> set (te_UserTokenTxMap sample_users)"
    "gomap_ok sample_txs" "(13, [sample_transfer 800 1 0 13 ''deposit'' 5]) \<in> set sample_txs"
    "\<not> is_lp sample_users 13"
    by (simp_all add: sample_users_def gomap_ok_def sample_txs_def is_lp_def sample_extractor_def gomap_simps)
  from GenerateUserFlow_tokens [OF g this] keys g show ?thesis by simp
qed

end
