(* ===== verification/User_Search.thy ===== *)
theory User_Search
  imports Merged_Flow
begin

text \<open>
  The recursive walk over related users that \<open>CheckAttack\<close>, \<open>RecordRate\<close>,
  \<open>GetRelatedTokenFlow\<close>, \<open>CheckAttackInTx\<close> and \<open>GetRelatedTokenFlowInTx\<close> of
  \<open>hunter/defi/check.go\<close> share. The loop over the relations of a user skips common
  addresses, users met before and relations younger than the block in question; it marks
  every other related user in \<open>usedAddress\<close>, descends into it and adds its result. What is
  done on entering a user and how results are added differs between the callers and is a
  parameter, as is the further state (\<open>'x\<close>) they change. The recursion of the code is bounded
  by fuel; the locale below shows that one more than the number of related addresses not
  yet used is enough.
\<close>

section \<open>The loop and the recursion\<close>

text \<open>\<open>add r r'\<close> is \<open>Inl\<close> of the result when the loop is left, and \<open>Inr\<close> when it goes on.\<close>

fun related_loop ::
    "(Address \<Rightarrow> addr_set \<Rightarrow> 'x \<Rightarrow> ('r \<times> addr_set \<times> 'x) option) \<Rightarrow> ('r \<Rightarrow> 'r \<Rightarrow> 'r + 'r)
       \<Rightarrow> addr_set \<Rightarrow> int \<Rightarrow> RelatedMap \<Rightarrow> 'r \<Rightarrow> addr_set \<Rightarrow> 'x \<Rightarrow> ('r \<times> addr_set \<times> 'x) option" where
  "related_loop visit add commonAddressMap block [] r usedAddress x = Some (r, usedAddress, x)"
| "related_loop visit add commonAddressMap block ((relatedUser, since) # rel) r usedAddress x =
     (if mhas commonAddressMap relatedUser then related_loop visit add commonAddressMap block rel r usedAddress x
      else if mhas usedAddress relatedUser then related_loop visit add commonAddressMap block rel r usedAddress x
      else if since \<le> block
      then case visit relatedUser (mput relatedUser True usedAddress) x of
             None \<Rightarrow> None
           | Some (r', usedAddress', x') \<Rightarrow>
               (case add r r' of
                  Inl r'' \<Rightarrow> Some (r'', usedAddress', x')
                | Inr r'' \<Rightarrow> related_loop visit add commonAddressMap block rel r'' usedAddress' x')
      else related_loop visit add commonAddressMap block rel r usedAddress x)"

text \<open>\<open>enter u x\<close> is \<open>Inl\<close> when the call returns at once, and \<open>Inr\<close> when it goes on to the relations.\<close>

primrec related_search ::
    "nat \<Rightarrow> (Address \<Rightarrow> 'x \<Rightarrow> 'r \<times> 'x + 'r \<times> 'x) \<Rightarrow> ('r \<Rightarrow> 'r \<Rightarrow> 'r + 'r) \<Rightarrow> UserRelatedMap \<Rightarrow> addr_set
       \<Rightarrow> int \<Rightarrow> Address \<Rightarrow> addr_set \<Rightarrow> 'x \<Rightarrow> ('r \<times> addr_set \<times> 'x) option" where
  "related_search 0 enter add userRelatedMap commonAddressMap block user usedAddress x = None"
| "related_search (Suc fuel) enter add userRelatedMap commonAddressMap block user usedAddress x =
     (case enter user x of
        Inl (r, x) \<Rightarrow> Some (r, usedAddress, x)
      | Inr (r, x) \<Rightarrow>
          related_loop (related_search fuel enter add userRelatedMap commonAddressMap block)
            add commonAddressMap block (mget [] userRelatedMap user) r usedAddress x)"

text \<open>Enough fuel for any search: one more than the related addresses there are.\<close>

definition related_fuel :: "UserRelatedMap \<Rightarrow> nat" where
  "related_fuel userRelatedMap = Suc (length (concat (map (\<lambda>(u, rel). mkeys rel) userRelatedMap)))"

section \<open>Reached users\<close>

definition related_users :: "UserRelatedMap \<Rightarrow> Address set" where
  "related_users m = (\<Union>(u, rel) \<in> set m. set (mkeys rel))"

text \<open>One step of the search: \<open>v\<close> is related to \<open>u\<close> since \<open>block\<close> at the latest, and is not common.\<close>

definition follows :: "UserRelatedMap \<Rightarrow> addr_set \<Rightarrow> int \<Rightarrow> (Address \<times> Address) set" where
  "follows m commonAddressMap block =
     {(u, v). \<not> mhas commonAddressMap v \<and> (\<exists>since. (v, since) \<in> set (mget [] m u) \<and> since \<le> block)}"

lemma finite_related_users [simp]: "finite (related_users m)"
  by (auto simp: related_users_def)

lemma related_fuel_enough: "card (related_users m - A) < related_fuel m"
proof -
  have "related_users m = set (concat (map (\<lambda>(u, rel). mkeys rel) m))"
    by (auto simp: related_users_def)
  then have "card (related_users m) \<le> length (concat (map (\<lambda>(u, rel). mkeys rel) m))"
    by (metis card_length)
  moreover have "card (related_users m - A) \<le> card (related_users m)" by (auto intro: card_mono)
  ultimately show ?thesis by (simp add: related_fuel_def)
qed

lemma follows_related: "(u, v) \<in> follows m c b \<Longrightarrow> v \<in> related_users m"
proof -
  assume "(u, v) \<in> follows m c b"
  then obtain since where "(v, since) \<in> set (mget [] m u)" by (auto simp: follows_def)
  moreover from this have "mhas m u" using mget_absent [of m u "[]"] by (cases "mhas m u") auto
  ultimately show ?thesis
    using mget_in_set [of m u "[]"] by (force simp: related_users_def)
qed

text \<open>Steps of a relation that do not enter the set \<open>A\<close>.\<close>

definition avoiding :: "('a \<times> 'a) set \<Rightarrow> 'a set \<Rightarrow> ('a \<times> 'a) set" where
  "avoiding E A = {(u, v) \<in> E. v \<notin> A}"

text \<open>\<open>B\<close> extends \<open>A\<close> by users reached from \<open>u\<close> outside \<open>A\<close>, with all successors of what it adds.\<close>

definition explored :: "('a \<times> 'a) set \<Rightarrow> 'a set \<Rightarrow> 'a \<Rightarrow> 'a set \<Rightarrow> bool" where
  "explored E A u B \<longleftrightarrow> A \<subseteq> B \<and> B \<subseteq> A \<union> (avoiding E A)\<^sup>+ `` {u} \<and> (\<forall>w \<in> B - A. E `` {w} \<subseteq> B)"

lemma avoiding_mono: "A \<subseteq> B \<Longrightarrow> (avoiding E B)\<^sup>+ \<subseteq> (avoiding E A)\<^sup>+"
  by (intro subsetI, erule trancl_mono) (auto simp: avoiding_def)

lemma avoiding_empty [simp]: "avoiding E {} = E"
  by (simp add: avoiding_def)

lemma explored_refl: "explored E A u A"
  by (simp add: explored_def)

lemma explored_step:
  assumes "(u, v) \<in> E" and "v \<notin> A" and "explored E (insert v A) v B" and "E `` {v} \<subseteq> B" and "explored E B u C"
  shows "explored E A u C"
proof -
  have uv: "(u, v) \<in> (avoiding E A)\<^sup>+" using assms(1,2) by (auto simp: avoiding_def)
  have B: "A \<subseteq> B" "v \<in> B" "B \<subseteq> insert v A \<union> (avoiding E (insert v A))\<^sup>+ `` {v}"
    using assms(3) by (auto simp: explored_def)
  have C: "B \<subseteq> C" "C \<subseteq> B \<union> (avoiding E B)\<^sup>+ `` {u}" using assms(5) by (auto simp: explored_def)
  have "B \<subseteq> A \<union> (avoiding E A)\<^sup>+ `` {u}"
  proof
    fix w assume "w \<in> B"
    with B(3) consider "w \<in> A" | "w = v" | "(v, w) \<in> (avoiding E (insert v A))\<^sup>+" by blast
    then show "w \<in> A \<union> (avoiding E A)\<^sup>+ `` {u}"
    proof cases
      case 3
      then have "(v, w) \<in> (avoiding E A)\<^sup>+" using avoiding_mono [of A "insert v A" E] by blast
      with uv show ?thesis by (auto intro: trancl_trans)
    qed (use uv in auto)
  qed
  then have "C \<subseteq> A \<union> (avoiding E A)\<^sup>+ `` {u}" using C(2) avoiding_mono [OF B(1), of E] by blast
  moreover have "\<forall>w \<in> C - A. E `` {w} \<subseteq> C"
    using assms(3-5) C(1) unfolding explored_def by blast
  ultimately show ?thesis using B(1) C(1) by (auto simp: explored_def)
qed

lemma explored_reach:
  assumes "explored E A u B" and "E `` {u} \<subseteq> B"
  shows "B = A \<union> (avoiding E A)\<^sup>+ `` {u}"
proof -
  have "v \<in> B - A" if "(u, v) \<in> (avoiding E A)\<^sup>+" for v
    using that
  proof induction
    case (base y)
    with assms(2) show ?case by (auto simp: avoiding_def)
  next
    case (step y z)
    with assms(1) show ?case by (auto simp: avoiding_def explored_def)
  qed
  with assms(1) show ?thesis by (auto simp: explored_def)
qed

section \<open>The contract of a search\<close>

text \<open>
  A client supplies what is done on entering a user and how results are added. \<open>leaf\<close> are
  the users at which the call returns at once; \<open>inv\<close> is what the client keeps of its state,
  and \<open>open\<close> of its result while the loop runs. The recursive calls never leave the loop.
\<close>

locale user_search =
  fixes enter :: "Address \<Rightarrow> 'x \<Rightarrow> 'r \<times> 'x + 'r \<times> 'x"
    and add :: "'r \<Rightarrow> 'r \<Rightarrow> 'r + 'r"
    and userRelatedMap :: UserRelatedMap
    and commonAddressMap :: addr_set
    and block :: int
    and inv :: "'x \<Rightarrow> bool"
    and going :: "'r \<Rightarrow> bool"
    and leaf :: "Address \<Rightarrow> bool"
  assumes enter_leaf: "inv x \<Longrightarrow> leaf u \<Longrightarrow> \<exists>r x'. enter u x = Inl (r, x') \<and> inv x'"
    and enter_open: "inv x \<Longrightarrow> \<not> leaf u \<Longrightarrow> \<exists>r x'. enter u x = Inr (r, x') \<and> inv x' \<and> going r"
    and add_goes_on: "going r \<Longrightarrow> \<exists>r''. add r r' = Inr r'' \<and> going r''"
begin

definition steps :: "(Address \<times> Address) set" where
  "steps = {(u, v) \<in> follows userRelatedMap commonAddressMap block. \<not> leaf u}"

definition visits :: "(Address \<Rightarrow> addr_set \<Rightarrow> 'x \<Rightarrow> ('r \<times> addr_set \<times> 'x) option) \<Rightarrow> nat \<Rightarrow> bool" where
  "visits visit fuel \<longleftrightarrow> (\<forall>u used x. inv x \<longrightarrow> card (related_users userRelatedMap - set (mkeys used)) < fuel \<longrightarrow>
     (\<exists>r used' x'. visit u used x = Some (r, used', x') \<and> inv x' \<and>
        (leaf u \<or> going r) \<and>
        explored steps (set (mkeys used)) u (set (mkeys used')) \<and> steps `` {u} \<subseteq> set (mkeys used')))"

lemma loop_visits:
  assumes "visits visit fuel" and "inv x" and "keep r" and "\<not> leaf u"
    and "card (related_users userRelatedMap - set (mkeys used)) < Suc fuel"
    and "set rel \<subseteq> set (mget [] userRelatedMap u)"
    and "\<And>r r' r''. keep r \<Longrightarrow> join r r' = Inr r'' \<Longrightarrow> keep r''"
    and "\<And>r r' r''. keep r \<Longrightarrow> join r r' = Inl r'' \<Longrightarrow> left r''"
  shows "\<exists>r' used' x'. related_loop visit join commonAddressMap block rel r used x = Some (r', used', x') \<and>
     inv x' \<and> explored steps (set (mkeys used)) u (set (mkeys used')) \<and>
     (left r' \<or> keep r' \<and>
       (\<forall>(v, since) \<in> set rel. \<not> mhas commonAddressMap v \<longrightarrow> since \<le> block \<longrightarrow> v \<in> set (mkeys used')))"
  using assms(2,3,5,6)
proof (induction rel arbitrary: r used x)
  case Nil
  then show ?case by (simp add: explored_refl)
next
  case (Cons y rel)
  obtain v since where y: "y = (v, since)" by (cases y)
  let ?A = "set (mkeys used)"
  note IH = Cons.IH [OF _ _ _ subset_trans [OF _ Cons.prems(4)]]
  show ?case
  proof (cases "mhas commonAddressMap v \<or> mhas used v \<or> \<not> since \<le> block")
    case True
    with IH [OF Cons.prems(1-3)] obtain r' used' x' where
      "related_loop visit join commonAddressMap block rel r used x = Some (r', used', x')" "inv x'"
      "explored steps ?A u (set (mkeys used'))"
      "left r' \<or> keep r' \<and>
         (\<forall>(v, since) \<in> set rel. \<not> mhas commonAddressMap v \<longrightarrow> since \<le> block \<longrightarrow> v \<in> set (mkeys used'))"
      by auto
    moreover from this(3) have "?A \<subseteq> set (mkeys used')" by (simp add: explored_def)
    ultimately show ?thesis using True by (auto simp: y mhas_iff)
  next
    case False
    then have v: "v \<notin> ?A" and uv: "(u, v) \<in> steps"
      using Cons.prems(4) assms(4) by (auto simp: y mhas_iff steps_def follows_def)
    then have "v \<in> related_users userRelatedMap" by (auto simp: steps_def dest: follows_related)
    with v have "card (related_users userRelatedMap - insert v ?A) < card (related_users userRelatedMap - ?A)"
      by (intro psubset_card_mono) auto
    with Cons.prems(3) have "card (related_users userRelatedMap - set (mkeys (mput v True used))) < fuel"
      unfolding set_mkeys_mput by linarith
    with assms(1) Cons.prems(1) obtain r1 used1 x1 where
      visit: "visit v (mput v True used) x = Some (r1, used1, x1)" "inv x1"
      and ex: "explored steps (insert v ?A) v (set (mkeys used1))" "steps `` {v} \<subseteq> set (mkeys used1)"
      unfolding visits_def by (metis set_mkeys_mput)
    show ?thesis
    proof (cases "join r r1")
      case (Inl r2)
      have "explored steps ?A u (set (mkeys used1))" by (rule explored_step [OF uv v ex explored_refl])
      with Inl visit assms(8) [OF Cons.prems(2) Inl] False show ?thesis by (auto simp: y)
    next
      case (Inr r2)
      have "?A \<subseteq> set (mkeys used1)" using ex(1) by (auto simp: explored_def)
      then have "card (related_users userRelatedMap - set (mkeys used1)) < Suc fuel"
        using Cons.prems(3) by (intro le_less_trans [OF card_mono Cons.prems(3)]) auto
      from IH [OF visit(2) assms(7) [OF Cons.prems(2) Inr] this] obtain r' used' x' where
        loop: "related_loop visit join commonAddressMap block rel r2 used1 x1 = Some (r', used', x')" "inv x'"
        and ex2: "explored steps (set (mkeys used1)) u (set (mkeys used'))"
        and mem: "left r' \<or> keep r' \<and>
          (\<forall>(v, since) \<in> set rel. \<not> mhas commonAddressMap v \<longrightarrow> since \<le> block \<longrightarrow> v \<in> set (mkeys used'))"
        by auto
      have "explored steps ?A u (set (mkeys used'))" by (rule explored_step [OF uv v ex ex2])
      moreover have "v \<in> set (mkeys used')" using ex(1) ex2 by (auto simp: explored_def)
      ultimately show ?thesis using loop mem visit Inr False by (auto simp: y)
    qed
  qed
qed

lemma search_visits: "visits (related_search fuel enter add userRelatedMap commonAddressMap block) fuel"
proof (induction fuel)
  case 0
  then show ?case by (simp add: visits_def)
next
  case (Suc fuel)
  show ?case unfolding visits_def
  proof (intro allI impI)
    fix u x and used :: addr_set
    assume x: "inv x" and f: "card (related_users userRelatedMap - set (mkeys used)) < Suc fuel"
    show "\<exists>r used' x'. related_search (Suc fuel) enter add userRelatedMap commonAddressMap block u used x = Some (r, used', x') \<and>
        inv x' \<and> (leaf u \<or> going r) \<and>
        explored steps (set (mkeys used)) u (set (mkeys used')) \<and> steps `` {u} \<subseteq> set (mkeys used')"
    proof (cases "leaf u")
      case True
      then obtain r x' where "enter u x = Inl (r, x')" "inv x'" using enter_leaf [OF x] by blast
      with True show ?thesis by (simp add: explored_refl) (simp add: steps_def)
    next
      case False
      then obtain r x' where e: "enter u x = Inr (r, x')" "inv x'" "going r" using enter_open [OF x] by blast
      have add: "False" if "going r" "add r r' = Inl r''" for r r' r'' using add_goes_on [OF that(1), of r'] that(2) by auto
      have keep: "going r''" if "going r" "add r r' = Inr r''" for r r' r'' using add_goes_on [OF that(1), of r'] that(2) by auto
      note visited = loop_visits [where keep = going and join = add and left = "\<lambda>_. False", OF Suc.IH e(2,3) False f subset_refl]
      have "\<exists>r' used' x''. related_loop (related_search fuel enter add userRelatedMap commonAddressMap block) add
          commonAddressMap block (mget [] userRelatedMap u) r used x' = Some (r', used', x'') \<and> inv x'' \<and>
        explored steps (set (mkeys used)) u (set (mkeys used')) \<and>
        (False \<or> going r' \<and> (\<forall>(v, since) \<in> set (mget [] userRelatedMap u). \<not> mhas commonAddressMap v \<longrightarrow>
           since \<le> block \<longrightarrow> v \<in> set (mkeys used')))"
        by (rule visited) (use add keep in blast)+
      then obtain r' used' x'' where
        "related_loop (related_search fuel enter add userRelatedMap commonAddressMap block) add
          commonAddressMap block (mget [] userRelatedMap u) r used x' = Some (r', used', x'')" "inv x''"
        "going r'" "explored steps (set (mkeys used)) u (set (mkeys used'))"
        "\<forall>(v, since) \<in> set (mget [] userRelatedMap u). \<not> mhas commonAddressMap v \<longrightarrow> since \<le> block \<longrightarrow> v \<in> set (mkeys used')"
        by blast
      moreover from this(5) have "steps `` {u} \<subseteq> set (mkeys used')" by (auto simp: steps_def follows_def)
      ultimately show ?thesis unfolding related_search.simps e(1) by auto
    qed
  qed
qed

text \<open>The search returns, and has marked exactly the users it can reach outside those marked before.\<close>

lemma search_reaches:
  assumes "inv x" and "card (related_users userRelatedMap - set (mkeys used)) < fuel"
  shows "\<exists>r used' x'. related_search fuel enter add userRelatedMap commonAddressMap block u used x = Some (r, used', x') \<and>
     inv x' \<and> (leaf u \<or> going r) \<and> set (mkeys used') = set (mkeys used) \<union> (avoiding steps (set (mkeys used)))\<^sup>+ `` {u}"
proof -
  from search_visits [of fuel, unfolded visits_def] assms obtain r used' x' where
    s: "related_search fuel enter add userRelatedMap commonAddressMap block u used x = Some (r, used', x')" "inv x'" "leaf u \<or> going r"
    and e: "explored steps (set (mkeys used)) u (set (mkeys used'))" "steps `` {u} \<subseteq> set (mkeys used')" by blast
  from explored_reach [OF e] s show ?thesis by blast
qed

text \<open>
  The loop of a caller that may leave it: it returns, and unless it was left it has marked
  exactly the users reached from the caller's user.
\<close>

lemma loop_reaches:
  assumes "inv x" and "keep r" and "\<not> leaf u"
    and "card (related_users userRelatedMap) < Suc fuel"
    and "\<And>r r' r''. keep r \<Longrightarrow> join r r' = Inr r'' \<Longrightarrow> keep r''"
    and "\<And>r r' r''. keep r \<Longrightarrow> join r r' = Inl r'' \<Longrightarrow> left r''"
  shows "\<exists>r' used' x'. related_loop (related_search fuel enter add userRelatedMap commonAddressMap block)
       join commonAddressMap block (mget [] userRelatedMap u) r [] x = Some (r', used', x') \<and> inv x' \<and>
     set (mkeys used') \<subseteq> steps\<^sup>+ `` {u} \<and> (left r' \<or> keep r' \<and> set (mkeys used') = steps\<^sup>+ `` {u})"
proof -
  have "card (related_users userRelatedMap - set (mkeys ([] :: addr_set))) < Suc fuel" using assms(4) by simp
  note visited = loop_visits [where keep = keep and join = join and left = left,
      OF search_visits assms(1-3) this subset_refl]
  have "\<exists>r' used' x'. related_loop (related_search fuel enter add userRelatedMap commonAddressMap block)
       join commonAddressMap block (mget [] userRelatedMap u) r [] x = Some (r', used', x') \<and> inv x' \<and>
     explored steps (set (mkeys ([] :: addr_set))) u (set (mkeys used')) \<and>
     (left r' \<or> keep r' \<and> (\<forall>(v, since) \<in> set (mget [] userRelatedMap u). \<not> mhas commonAddressMap v \<longrightarrow>
        since \<le> block \<longrightarrow> v \<in> set (mkeys used')))"
    by (rule visited) (use assms(5,6) in blast)+
  then obtain r' used' x' where
    l: "related_loop (related_search fuel enter add userRelatedMap commonAddressMap block)
       join commonAddressMap block (mget [] userRelatedMap u) r [] x = Some (r', used', x')" "inv x'"
    and e: "explored steps (set (mkeys ([] :: addr_set))) u (set (mkeys used'))"
    and m: "left r' \<or> keep r' \<and> (\<forall>(v, since) \<in> set (mget [] userRelatedMap u). \<not> mhas commonAddressMap v \<longrightarrow>
        since \<le> block \<longrightarrow> v \<in> set (mkeys used'))"
    by blast
  from e have sub: "set (mkeys used') \<subseteq> steps\<^sup>+ `` {u}" by (simp add: explored_def)
  show ?thesis
  proof (cases "left r'")
    case False
    with m have "steps `` {u} \<subseteq> set (mkeys used')" by (fastforce simp: steps_def follows_def)
    from explored_reach [OF e this] l m False show ?thesis by auto
  qed (use l sub in blast)
qed

end

end
