(* ===== verification/Leak_Check.thy ===== *)
theory Leak_Check
  imports User_Search
begin

text \<open>
  The detection of token leaks (\<open>hunter/defi/check.go\<close>): for every withdrawal of a user its
  running totals are joined with those of the users related to it, and a user that took
  out abnormally more than was put in is reported. The flow lists are sorted in place while
  they are read, so the flow map is a state that every operation returns. Reads of a nil
  \<open>big.Float\<close> of a zero \<open>TokenFlow\<close> do not occur: of \<open>firstDeposit\<close> only the block and the
  transaction index are read.
\<close>

section \<open>Data\<close>

record AttackInfo =
  at_BlockNumber :: int
  at_TotalDeposit :: big_float
  at_TotalWithdraw :: big_float
  TokenFlowList :: "TokenFlow list"
  RelatedUserMap :: RelatedMap
  RelatedTokenFlowMap :: TokenFlowMap

record RateRecord =
  rr_UserAddress :: Address
  rr_TokenAddress :: Address
  rr_TotalDeposit :: big_float
  rr_TotalWithdraw :: big_float
  IsSingleTx :: bool
  rr_BlockNumber :: int
  rr_TxIndex :: int

record LeakingChecker =
  lc_UserTokenFlowMap :: UserTokenFlowMap
  TokenRateMap :: "(Address, RateRecord list) gomap"

text \<open>What a (related) user contributes: totals, first deposit, and whether it is unsupported.\<close>

record related =
  r_deposit :: big_float
  r_withdraw :: big_float
  r_first :: TokenFlow
  r_unsupported :: bool

abbreviation zero_flow :: TokenFlow where
  "zero_flow \<equiv> \<lparr>tf_Action = [], tf_BlockNumber = 0, tf_TxIndex = 0, tf_TransferIndex = 0,
     tf_Amount = fl_new, tf_TotalDeposit = fl_new, tf_TotalWithdraw = fl_new, tf_Balance = fl_new\<rparr>"

abbreviation flows_of :: "UserTokenFlowMap \<Rightarrow> Address \<Rightarrow> Address \<Rightarrow> TokenFlow list" where
  "flows_of m user token \<equiv> mget [] (mget [] m user) token"

text \<open>\<open>sort.Sort(TokenFlowList(userTokenFlowMap[user][token]))\<close>; a nil slice stays absent.\<close>

definition sort_entry :: "Address \<Rightarrow> Address \<Rightarrow> UserTokenFlowMap \<Rightarrow> UserTokenFlowMap" where
  "sort_entry user token m =
     (if mhas m user \<and> mhas (mget [] m user) token
      then mput user (mput token (sort_flows (flows_of m user token)) (mget [] m user)) m
      else m)"

section \<open>Flows of related users\<close>

text \<open>The loop over the sorted flows of a related user, up to the transaction in question.\<close>

fun upto_flow :: "TokenFlow \<Rightarrow> TokenFlow list \<Rightarrow> related \<Rightarrow> big_float \<Rightarrow> related" where
  "upto_flow thisTokenFlow [] r lastBalance = r"
| "upto_flow thisTokenFlow (tokenFlow # l) r lastBalance =
     (let r = (if tf_BlockNumber (r_first r) = 0
                  \<or> Float_Cmp lastBalance (NewFloat (10 ^ 18)) = -1 \<and> Contains (tf_Action tokenFlow) ''deposit''
               then r\<lparr>r_first := tokenFlow\<rparr> else r)
      in if tf_BlockNumber tokenFlow > tf_BlockNumber thisTokenFlow
            \<or> tf_BlockNumber tokenFlow = tf_BlockNumber thisTokenFlow \<and> tf_TxIndex tokenFlow > tf_TxIndex thisTokenFlow
         then r
         else upto_flow thisTokenFlow l
                (r\<lparr>r_deposit := fl_copy (tf_TotalDeposit tokenFlow), r_withdraw := fl_copy (tf_TotalWithdraw tokenFlow)\<rparr>)
                (Float_Add fl_new (tf_Balance tokenFlow) (NewFloat 0)))"

definition no_flow :: related where
  "no_flow = \<lparr>r_deposit = fl_new, r_withdraw = fl_new, r_first = zero_flow, r_unsupported = False\<rparr>"

text \<open>\<open>GetRelatedTokenFlow\<close> up to its loop over the relations.\<close>

definition enter_related ::
    "Address \<Rightarrow> TokenFlow \<Rightarrow> Address \<Rightarrow> UserTokenFlowMap \<Rightarrow> related \<times> UserTokenFlowMap + related \<times> UserTokenFlowMap" where
  "enter_related token thisTokenFlow user m =
     (if mhas (mget [] m user) 7 then Inl (no_flow\<lparr>r_unsupported := True\<rparr>, m)
      else if token = 6 \<and> \<not> mhas (mget [] m user) 6 \<and> length (mget [] m user) > 0
      then Inl (no_flow\<lparr>r_unsupported := True\<rparr>, m)
      else let m = sort_entry user token m
           in Inr (upto_flow thisTokenFlow (drop 1 (flows_of m user token)) no_flow (NewFloat 0), m))"

definition earlier_first :: "TokenFlow \<Rightarrow> TokenFlow \<Rightarrow> TokenFlow" where
  "earlier_first relatedFirst first =
     (if tf_BlockNumber relatedFirst < tf_BlockNumber first
         \<or> tf_BlockNumber relatedFirst = tf_BlockNumber first \<and> tf_TxIndex relatedFirst < tf_TxIndex first
      then first\<lparr>tf_BlockNumber := tf_BlockNumber relatedFirst, tf_TxIndex := tf_TxIndex relatedFirst\<rparr>
      else first)"

definition add_totals :: "related \<Rightarrow> related \<Rightarrow> related" where
  "add_totals r r' =
     r\<lparr>r_deposit := Float_Add (r_deposit r) (r_deposit r) (r_deposit r'),
       r_withdraw := Float_Add (r_withdraw r) (r_withdraw r) (r_withdraw r')\<rparr>"

text \<open>
  Adding inside \<open>GetRelatedTokenFlow\<close>. The loop is left when \<open>existUnSupportToken\<close> is set, the
  result variable of the call itself and not the flag of the related user.
\<close>

definition add_nested :: "related \<Rightarrow> related \<Rightarrow> related + related" where
  "add_nested r r' =
     (let r = r\<lparr>r_first := earlier_first (r_first r') (r_first r)\<rparr>
      in if r_unsupported r then Inl (r\<lparr>r_unsupported := r_unsupported r'\<rparr>)
         else Inr (add_totals r r'))"

definition GetRelatedTokenFlow ::
    "nat \<Rightarrow> UserTokenFlowMap \<Rightarrow> Address \<Rightarrow> Address \<Rightarrow> UserRelatedMap \<Rightarrow> addr_set \<Rightarrow> addr_set \<Rightarrow> TokenFlow
       \<Rightarrow> (related \<times> addr_set \<times> UserTokenFlowMap) option" where
  "GetRelatedTokenFlow fuel userTokenFlowMap userAddress tokenAddress userRelatedMap usedAddress commonAddressMap
       thisTokenFlow =
     related_search fuel (enter_related tokenAddress thisTokenFlow) add_nested userRelatedMap commonAddressMap
       (tf_BlockNumber thisTokenFlow) userAddress usedAddress userTokenFlowMap"

text \<open>Adding inside \<open>CheckAttack\<close> and \<open>RecordRate\<close>: an unsupported related user ends the loop.\<close>

definition add_direct :: "related \<Rightarrow> related \<Rightarrow> related + related" where
  "add_direct r r' =
     (let r = r\<lparr>r_first := earlier_first (r_first r') (r_first r)\<rparr>
      in if r_unsupported r' then Inl (r\<lparr>r_unsupported := True\<rparr>)
         else Inr (add_totals r r'))"

text \<open>The totals of a user at one of its flows, joined with its related users.\<close>

definition related_totals ::
    "TxExtractor \<Rightarrow> Address \<Rightarrow> Address \<Rightarrow> TokenFlow \<Rightarrow> TokenFlow \<Rightarrow> bool \<Rightarrow> UserTokenFlowMap
       \<Rightarrow> (related \<times> addr_set \<times> UserTokenFlowMap) option" where
  "related_totals ex user token tokenFlow first unsupported m =
     related_loop
       (\<lambda>relatedUser used m. GetRelatedTokenFlow (related_fuel (te_UserRelatedMap ex)) m relatedUser token
          (te_UserRelatedMap ex) used (CommonAddressMap ex) tokenFlow)
       add_direct (CommonAddressMap ex) (tf_BlockNumber tokenFlow) (mget [] (te_UserRelatedMap ex) user)
       \<lparr>r_deposit = fl_copy (tf_TotalDeposit tokenFlow), r_withdraw = fl_copy (tf_TotalWithdraw tokenFlow),
        r_first = first, r_unsupported = unsupported\<rparr> [] m"

section \<open>Detection\<close>

definition SINGLE_ABNORMAL_RATE :: float64 where
  "SINGLE_ABNORMAL_RATE = to_float64 (10001 / 10000)"

definition ABNORMAL_RATE :: float64 where
  "ABNORMAL_RATE = F64 3"

definition calRate :: "big_float \<Rightarrow> big_float \<Rightarrow> float64" where
  "calRate totalDeposit totalWithdraw =
     (if Float_Cmp totalDeposit fl_new = 1 then Float_Float64 (Float_Quo fl_new totalWithdraw totalDeposit)
      else if Float_Cmp totalDeposit fl_new = 0 \<and> Float_Cmp totalWithdraw fl_new = 1 then F64 (-1)
      else F64 0)"

definition abnormal :: "big_float \<Rightarrow> big_float \<Rightarrow> bool \<Rightarrow> bool" where
  "abnormal totalDeposit totalWithdraw isSingleTx =
     (if Float_Cmp totalDeposit fl_new = 1
      then let rate = Float_Float64 (Float_Quo fl_new totalWithdraw totalDeposit)
           in if isSingleTx then f64_le SINGLE_ABNORMAL_RATE rate else f64_le ABNORMAL_RATE rate
      else Float_Cmp totalDeposit fl_new = 0 \<and> Float_Cmp totalWithdraw fl_new = 1)"

definition abnormalDetection ::
    "big_float \<Rightarrow> big_float \<Rightarrow> UserTokenFlowMap \<Rightarrow> Address \<Rightarrow> Address \<Rightarrow> addr_set \<Rightarrow> UserRelatedMap \<Rightarrow> bool
       \<Rightarrow> TokenFlow \<Rightarrow> AttackInfo option" where
  "abnormalDetection totalDeposit totalWithdraw m user token usedAddress userRelatedMap isSingleTx thisTokenFlow =
     (if abnormal totalDeposit totalWithdraw isSingleTx
      then Some \<lparr>at_BlockNumber = tf_BlockNumber thisTokenFlow, at_TotalDeposit = totalDeposit,
             at_TotalWithdraw = totalWithdraw, TokenFlowList = flows_of m user token,
             RelatedUserMap = mget [] userRelatedMap user,
             RelatedTokenFlowMap = fold (\<lambda>u. mput u (flows_of m u token)) (mkeys usedAddress) []\<rparr>
      else None)"

definition same_tx :: "TokenFlow \<Rightarrow> TokenFlow \<Rightarrow> bool" where
  "same_tx a b \<longleftrightarrow> tf_BlockNumber a = tf_BlockNumber b \<and> tf_TxIndex a = tf_TxIndex b"

text \<open>The loop of \<open>CheckAttack\<close> over the sorted flows: the first report ends it.\<close>

fun check_flows ::
    "TxExtractor \<Rightarrow> Address \<Rightarrow> Address \<Rightarrow> TokenFlow list \<Rightarrow> TokenFlow \<Rightarrow> big_float \<Rightarrow> bool \<Rightarrow> UserTokenFlowMap
       \<Rightarrow> (AttackInfo option \<times> UserTokenFlowMap) option" where
  "check_flows ex user token [] first lastBalance unsupported m = Some (None, m)"
| "check_flows ex user token (tokenFlow # l) first lastBalance unsupported m =
     (let first = (if tf_BlockNumber first = 0
                      \<or> Float_Cmp lastBalance (NewFloat (10 ^ 18)) = -1 \<and> Contains (tf_Action tokenFlow) ''deposit''
                   then tokenFlow else first)
      in if \<not> Contains (tf_Action tokenFlow) ''withdraw''
         then check_flows ex user token l first lastBalance unsupported m
         else case related_totals ex user token tokenFlow first unsupported m of
                None \<Rightarrow> None
              | Some (r, used, m) \<Rightarrow>
                  (case if r_unsupported r then None
                        else abnormalDetection (r_deposit r) (r_withdraw r) m user token used
                               (te_UserRelatedMap ex) (same_tx tokenFlow (r_first r)) tokenFlow of
                     Some info \<Rightarrow> Some (Some info, m)
                   | None \<Rightarrow>
                       check_flows ex user token l (r_first r)
                         (Float_Add fl_new (tf_Balance tokenFlow) (NewFloat 0)) (r_unsupported r) m))"

text \<open>The flow a user is checked on: its only token, or the merged flow.\<close>

definition token_to_check :: "TokenFlowMap \<Rightarrow> Address" where
  "token_to_check fm = (if mhas fm 6 then 6 else 5)"

definition CheckAttack ::
    "Address \<Rightarrow> UserTokenFlowMap \<Rightarrow> TxExtractor \<Rightarrow> ((Address, AttackInfo) gomap \<times> bool \<times> UserTokenFlowMap) option" where
  "CheckAttack user m ex =
     (if mhas (CommonAddressMap ex) user then Some ([], False, m)
      else if mhas (mget [] m user) 7 then Some ([], False, m)
      else let token = token_to_check (mget [] m user)
           in if \<not> mhas m user then Some ([], False, m)
              else if mhas (StableTokenMap ex) token then Some ([], False, m)
              else let m = sort_entry user token m
                   in case check_flows ex user token (drop 1 (flows_of m user token)) zero_flow (NewFloat 0) False m of
                        None \<Rightarrow> None
                      | Some (None, m) \<Rightarrow> Some ([], False, m)
                      | Some (Some info, m) \<Rightarrow> Some ([(token, info)], True, m))"

section \<open>Recording rates\<close>

text \<open>The loop of \<open>RecordRate\<close> over the flows of a user; it differs in when a first deposit is taken.\<close>

fun record_flows ::
    "TxExtractor \<Rightarrow> Address \<Rightarrow> Address \<Rightarrow> TokenFlow list \<Rightarrow> TokenFlow \<Rightarrow> big_float \<Rightarrow> bool \<Rightarrow> LeakingChecker
       \<Rightarrow> LeakingChecker option" where
  "record_flows ex user token [] first lastBalance unsupported checker = Some checker"
| "record_flows ex user token (tokenFlow # l) first lastBalance unsupported checker =
     (let first = (if tf_BlockNumber first = 0
                      \<or> Float_Cmp lastBalance (NewFloat 0) = 0 \<and> Contains (tf_Action tokenFlow) ''deposit''
                   then tokenFlow else first)
      in if \<not> Contains (tf_Action tokenFlow) ''withdraw''
         then record_flows ex user token l first lastBalance unsupported checker
         else case related_totals ex user token tokenFlow first unsupported (lc_UserTokenFlowMap checker) of
                None \<Rightarrow> None
              | Some (r, used, m) \<Rightarrow>
                  (let checker = checker\<lparr>lc_UserTokenFlowMap := m\<rparr>;
                       rate = \<lparr>rr_UserAddress = user, rr_TokenAddress = token,
                         rr_TotalDeposit = Float_Add fl_new (r_deposit r) (NewFloat 0),
                         rr_TotalWithdraw = Float_Add fl_new (r_withdraw r) (NewFloat 0),
                         IsSingleTx = same_tx tokenFlow (r_first r),
                         rr_BlockNumber = tf_BlockNumber tokenFlow, rr_TxIndex = tf_TxIndex tokenFlow\<rparr>;
                       checker = (if r_unsupported r then checker
                         else checker\<lparr>TokenRateMap :=
                                mput token (mget [] (TokenRateMap checker) token @ [rate]) (TokenRateMap checker)\<rparr>)
                   in record_flows ex user token l (r_first r)
                        (Float_Add fl_new (tf_Balance tokenFlow) (NewFloat 0)) (r_unsupported r) checker))"

text \<open>The loop over the users; \<open>None\<close> of a flow loop apart, it is left early only by a common address set to false.\<close>

fun record_users :: "TxExtractor \<Rightarrow> Address list \<Rightarrow> LeakingChecker \<Rightarrow> LeakingChecker option" where
  "record_users ex [] checker = Some checker"
| "record_users ex (user # users) checker =
     (let fm = mget [] (lc_UserTokenFlowMap checker) user; token = token_to_check fm
      in if is_manager ex user then record_users ex users checker
         else if in_set (CommonAddressMap ex) user \<or> mget 0 (RelatedToken ex) user \<noteq> 0
         then record_users ex users checker
         else if mhas fm 7 then record_users ex users checker
         else if mhas (CommonAddressMap ex) user then Some checker
         else if \<not> mhas (lc_UserTokenFlowMap checker) user then record_users ex users checker
         else if mhas (StableTokenMap ex) token then record_users ex users checker
         else let checker = checker\<lparr>lc_UserTokenFlowMap := sort_entry user token (lc_UserTokenFlowMap checker)\<rparr>
              in case record_flows ex user token (drop 1 (flows_of (lc_UserTokenFlowMap checker) user token))
                        zero_flow (NewFloat 0) False checker of
                   None \<Rightarrow> None
                 | Some checker \<Rightarrow> record_users ex users checker)"

definition RecordRate :: "TxExtractor \<Rightarrow> LeakingChecker \<Rightarrow> LeakingChecker option" where
  "RecordRate ex checker = record_users ex (mkeys (lc_UserTokenFlowMap checker)) checker"

section \<open>Leaks within one transaction\<close>

record TokenFlowTx =
  tx_BlockNumber :: int
  tx_TxIndex :: int
  tx_TotalDeposit :: big_float
  tx_TotalWithdraw :: big_float

type_synonym FlowTxMap = "(string, TokenFlowTx) gomap"
type_synonym TokenFlowTxMap = "(Address, FlowTxMap) gomap"
type_synonym UserTokenFlowTxMap = "(Address, TokenFlowTxMap) gomap"

definition block_tx :: "TokenFlow \<Rightarrow> string" where
  "block_tx tokenFlow = show_int (tf_BlockNumber tokenFlow) @ ''_'' @ show_int (tf_TxIndex tokenFlow)"

text \<open>The entry is a copy, but its totals are pointers that \<open>Add\<close> changes in place.\<close>

definition merge_flow_tx :: "TokenFlow \<Rightarrow> FlowTxMap \<Rightarrow> FlowTxMap" where
  "merge_flow_tx tokenFlow m =
     (let k = block_tx tokenFlow;
          empty = \<lparr>tx_BlockNumber = tf_BlockNumber tokenFlow, tx_TxIndex = tf_TxIndex tokenFlow,
                   tx_TotalDeposit = fl_new, tx_TotalWithdraw = fl_new\<rparr>;
          m = (if \<not> mhas m k then mput k empty m else m);
          e = mget empty m k
      in if tf_Action tokenFlow = ''deposit''
         then mput k (e\<lparr>tx_TotalDeposit := Float_Add (tx_TotalDeposit e) (tx_TotalDeposit e) (tf_Amount tokenFlow)\<rparr>) m
         else if tf_Action tokenFlow = ''withdraw''
         then mput k (e\<lparr>tx_TotalWithdraw := Float_Add (tx_TotalWithdraw e) (tx_TotalWithdraw e) (tf_Amount tokenFlow)\<rparr>) m
         else m)"

definition MergeFlowInTx :: "UserTokenFlowMap \<Rightarrow> UserTokenFlowTxMap" where
  "MergeFlowInTx m = map (\<lambda>(user, fm). (user, map (\<lambda>(token, l). (token, fold merge_flow_tx l [])) fm)) m"

text \<open>Totals of a user in the transaction \<open>key\<close>, and the walk over its relations.\<close>

definition enter_in_tx ::
    "UserTokenFlowTxMap \<Rightarrow> Address \<Rightarrow> string \<Rightarrow> Address \<Rightarrow> unit
       \<Rightarrow> (big_float \<times> big_float) \<times> unit + (big_float \<times> big_float) \<times> unit" where
  "enter_in_tx m token key user x =
     Inr ((case map_of (mget [] (mget [] m user) token) key of
             Some e \<Rightarrow> (fl_copy (tx_TotalDeposit e), fl_copy (tx_TotalWithdraw e))
           | None \<Rightarrow> (fl_new, fl_new)), x)"

definition add_in_tx :: "big_float \<times> big_float \<Rightarrow> big_float \<times> big_float \<Rightarrow> (big_float \<times> big_float) + (big_float \<times> big_float)" where
  "add_in_tx r r' = Inr (Float_Add (fst r) (fst r) (fst r'), Float_Add (snd r) (snd r) (snd r'))"

definition GetRelatedTokenFlowInTx ::
    "nat \<Rightarrow> UserTokenFlowTxMap \<Rightarrow> Address \<Rightarrow> Address \<Rightarrow> UserRelatedMap \<Rightarrow> addr_set \<Rightarrow> addr_set \<Rightarrow> string \<Rightarrow> int
       \<Rightarrow> ((big_float \<times> big_float) \<times> addr_set \<times> unit) option" where
  "GetRelatedTokenFlowInTx fuel m user token userRelatedMap usedAddress commonAddressMap key blockNumber =
     related_search fuel (enter_in_tx m token key) add_in_tx userRelatedMap commonAddressMap blockNumber
       user usedAddress ()"

text \<open>What \<open>CheckAttackInTx\<close> prints: user, token, totals, block and transaction index.\<close>

definition check_in_tx ::
    "UserTokenFlowTxMap \<Rightarrow> TxExtractor \<Rightarrow> Address \<Rightarrow> Address \<Rightarrow> string \<times> TokenFlowTx
       \<Rightarrow> (Address \<times> Address \<times> big_float \<times> big_float \<times> int \<times> int) list option" where
  "check_in_tx m ex user token entry =
     (case entry of (key, e) \<Rightarrow>
        if Float_Cmp (tx_TotalDeposit e) fl_new = 1
        then case related_loop
                    (\<lambda>relatedUser used x. GetRelatedTokenFlowInTx (related_fuel (te_UserRelatedMap ex)) m relatedUser
                       token (te_UserRelatedMap ex) used (CommonAddressMap ex) key (tx_BlockNumber e))
                    add_in_tx (CommonAddressMap ex) (tx_BlockNumber e) (mget [] (te_UserRelatedMap ex) user)
                    (fl_copy (tx_TotalDeposit e), fl_copy (tx_TotalWithdraw e)) [] () of
               None \<Rightarrow> None
             | Some ((totalDeposit, totalWithdraw), used, x) \<Rightarrow>
                 Some (if f64_less SINGLE_ABNORMAL_RATE (Float_Float64 (Float_Quo fl_new totalWithdraw totalDeposit))
                       then [(user, token, totalDeposit, totalWithdraw, tx_BlockNumber e, tx_TxIndex e)] else [])
        else Some [])"

fun concat_options :: "'a list option list \<Rightarrow> 'a list option" where
  "concat_options [] = Some []"
| "concat_options (None # l) = None"
| "concat_options (Some x # l) = map_option (\<lambda>y. x @ y) (concat_options l)"

definition CheckAttackInTx ::
    "UserTokenFlowMap \<Rightarrow> TxExtractor \<Rightarrow> (Address \<times> Address \<times> big_float \<times> big_float \<times> int \<times> int) list option" where
  "CheckAttackInTx flows ex =
     (let m = MergeFlowInTx flows
      in concat_options
           (concat (map (\<lambda>(user, fm).
              if mhas (CommonAddressMap ex) user then []
              else if mget 0 (RelatedToken ex) user > 0 then []
              else concat (map (\<lambda>(token, txs). map (check_in_tx m ex user token) txs) fm)) m)))"

section \<open>Thresholds\<close>

lemma rate64_thresholds:
  "rate64 3" "rate64 (3 - 1 / 2 ^ 51)" "rate64 (4504049987333233 / 2 ^ 52)" "rate64 (4504049987333232 / 2 ^ 52)"
proof -
  show "rate64 3" unfolding rate64_def by (rule conjI, rule exI [of _ 3], rule exI [of _ 0]) auto
  show "rate64 (3 - 1 / 2 ^ 51)" unfolding rate64_def
    by (rule conjI, rule exI [of _ "3 * 2 ^ 51 - 1"], rule exI [of _ "-51"]) (auto simp: power_int_def field_simps)
  show "rate64 (4504049987333233 / 2 ^ 52)" unfolding rate64_def
    by (rule conjI, rule exI [of _ "4504049987333233"], rule exI [of _ "-52"]) (auto simp: power_int_def field_simps)
  show "rate64 (4504049987333232 / 2 ^ 52)" unfolding rate64_def
    by (rule conjI, rule exI [of _ "4504049987333232"], rule exI [of _ "-52"]) (auto simp: power_int_def field_simps)
qed

lemma SINGLE_ABNORMAL_RATE_value: "SINGLE_ABNORMAL_RATE = F64 (4504049987333233 / 2 ^ 52)"
proof -
  have e: "rat_exp (10001 / 10000) = 0" by code_simp
  show ?thesis unfolding SINGLE_ABNORMAL_RATE_def to_float64_def e by code_simp
qed

text \<open>
  C6: on totals of at least 53 bits the detection does not miss by rounding, and is exact
  up to one unit in the last place: a quotient of at least 3 (over several transactions)
  or 1.0001 (within one) is always flagged, and whatever is flagged has a quotient above
  that threshold less \<open>2\<^sup>-\<^sup>5\<^sup>1\<close>.
\<close>

theorem abnormal_exact:
  assumes "53 \<le> max (fl_prec w) (fl_prec d)" and "0 < fl_val d" and "0 \<le> fl_val w"
  shows "(3 \<le> fl_val w / fl_val d \<longrightarrow> abnormal d w False) \<and>
    (abnormal d w False \<longrightarrow> 3 - 1 / 2 ^ 51 < fl_val w / fl_val d) \<and>
    (10001 / 10000 \<le> fl_val w / fl_val d \<longrightarrow> abnormal d w True) \<and>
    (abnormal d w True \<longrightarrow> 10001 / 10000 - 1 / 2 ^ 51 < fl_val w / fl_val d)"
proof -
  let ?p = "max (fl_prec w) (fl_prec d)" and ?q = "fl_val w / fl_val d"
  let ?f = "to_float64 (round_prec ?p ?q)"
  have q: "0 \<le> ?q" using assms by simp
  have ab: "abnormal d w b = f64_le (if b then F64 (4504049987333233 / 2 ^ 52) else F64 3) ?f" for b
    using assms(2) by (simp add: abnormal_def Float_Float64_def fl_defs ABNORMAL_RATE_def SINGLE_ABNORMAL_RATE_value)
  have below: "c \<le> ?q \<Longrightarrow> f64_le (F64 c) ?f" if "rate64 c" for c using rate64_below [OF that assms(1)] .
  have above: "c' < ?q" if "rate64 c'" "f64_le (F64 c) ?f" "c' < c" for c c'
  proof (rule ccontr)
    assume "\<not> c' < ?q"
    with rate64_above [OF that(1) assms(1) q] have "f64_le ?f (F64 c')" by simp
    with f64_le_trans [OF that(2)] that(3) show False by fastforce
  qed
  note r = rate64_thresholds
  have "3 \<le> ?q \<longrightarrow> abnormal d w False" using below [OF r(1)] by (simp add: ab)
  moreover have "abnormal d w False \<longrightarrow> 3 - 1 / 2 ^ 51 < ?q" using above [OF r(2), of 3] by (simp add: ab)
  moreover have "10001 / 10000 \<le> ?q \<longrightarrow> abnormal d w True"
  proof
    assume "10001 / 10000 \<le> ?q"
    moreover have "4504049987333233 / 2 ^ 52 \<le> (10001 / 10000 :: rat)" by simp
    ultimately show "abnormal d w True" unfolding ab using below [OF r(3)] by simp
  qed
  moreover have "abnormal d w True \<longrightarrow> 10001 / 10000 - 1 / 2 ^ 51 < ?q"
  proof
    assume "abnormal d w True"
    then have "4504049987333232 / 2 ^ 52 < ?q" unfolding ab using above [OF r(4), of "4504049987333233 / 2 ^ 52"] by simp
    moreover have "10001 / 10000 - 1 / 2 ^ 51 \<le> (4504049987333232 / 2 ^ 52 :: rat)" by simp
    ultimately show "10001 / 10000 - 1 / 2 ^ 51 < ?q" by linarith
  qed
  ultimately show ?thesis by blast
qed

theorem abnormal_exact_witness: "abnormal (SetInt 10) (SetInt 31) False"
  using abnormal_exact [of "SetInt 31" "SetInt 10"] by (simp add: SetInt_def)

section \<open>Flow maps up to sorting\<close>

definition same_flows :: "UserTokenFlowMap \<Rightarrow> UserTokenFlowMap \<Rightarrow> bool" where
  "same_flows m0 m \<longleftrightarrow> mkeys m = mkeys m0 \<and> (\<forall>u. mkeys (mget [] m u) = mkeys (mget [] m0 u)) \<and>
     (\<forall>u t. flows_of m u t = flows_of m0 u t \<or> flows_of m u t = sort_flows (flows_of m0 u t))"

lemma same_flows_refl [simp, intro]: "same_flows m m"
  by (simp add: same_flows_def)

lemma same_flows_sorted: "same_flows m0 m \<Longrightarrow> sort_flows (flows_of m u t) = sort_flows (flows_of m0 u t)"
  unfolding same_flows_def by (metis flow_order.sort_by_idem)

lemma mkeys_mput: "mhas m k \<Longrightarrow> mkeys (mput k v m) = mkeys m"
  by (induction m) (auto simp: mhas_iff)

lemma same_flows_sort_entry: "same_flows m0 m \<Longrightarrow> same_flows m0 (sort_entry u t m)"
proof -
  assume s: "same_flows m0 m"
  show ?thesis
  proof (cases "mhas m u \<and> mhas (mget [] m u) t")
    case True
    let ?e = "mput t (sort_flows (flows_of m u t)) (mget [] m u)"
    have e: "sort_entry u t m = mput u ?e m" using True by (simp add: sort_entry_def)
    have "mkeys (sort_entry u t m) = mkeys m0"
      unfolding e using s True mkeys_mput [of m u ?e] by (simp add: same_flows_def)
    moreover have "mkeys (mget [] (sort_entry u t m) v) = mkeys (mget [] m0 v)" for v
      using s True mkeys_mput [of "mget [] m u" t "sort_flows (flows_of m u t)"]
      by (cases "v = u") (simp_all add: e mget_mput same_flows_def)
    moreover have "flows_of (sort_entry u t m) v t' = flows_of m0 v t' \<or>
        flows_of (sort_entry u t m) v t' = sort_flows (flows_of m0 v t')" for v t'
      using s same_flows_sorted [OF s, of u t]
      by (cases "v = u"; cases "t' = t") (simp_all add: e mget_mput same_flows_def)
    ultimately show ?thesis by (simp add: same_flows_def)
  qed (use s in \<open>auto simp: sort_entry_def\<close>)
qed

lemma flows_of_sort_entry: "flows_of (sort_entry u t m) u t = sort_flows (flows_of m u t)"
proof (cases "mhas m u \<and> mhas (mget [] m u) t")
  case False
  then have "flows_of m u t = []" by (auto simp: mget_absent)
  with False show ?thesis by (auto simp: sort_entry_def)
qed (simp add: sort_entry_def mget_mput)

section \<open>Related users\<close>

text \<open>A user that \<open>GetRelatedTokenFlow\<close> turns down at once.\<close>

definition unsupported_user :: "UserTokenFlowMap \<Rightarrow> Address \<Rightarrow> Address \<Rightarrow> bool" where
  "unsupported_user m token user \<longleftrightarrow>
     mhas (mget [] m user) 7 \<or> token = 6 \<and> \<not> mhas (mget [] m user) 6 \<and> mget [] m user \<noteq> []"

text \<open>The steps of the search: from users that are not turned down, along the relations in force.\<close>

definition related_steps ::
    "UserTokenFlowMap \<Rightarrow> Address \<Rightarrow> UserRelatedMap \<Rightarrow> addr_set \<Rightarrow> int \<Rightarrow> (Address \<times> Address) set" where
  "related_steps m token rel commonAddressMap block =
     {(u, v) \<in> follows rel commonAddressMap block. \<not> unsupported_user m token u}"

lemma unsupported_same: "same_flows m0 m \<Longrightarrow> unsupported_user m token u \<longleftrightarrow> unsupported_user m0 token u"
proof -
  assume "same_flows m0 m"
  then have k: "mkeys (mget [] m u) = mkeys (mget [] m0 u)" by (simp add: same_flows_def)
  then have "mget [] m u = [] \<longleftrightarrow> mget [] m0 u = []" by (metis map_is_Nil_conv)
  with k show ?thesis by (simp only: unsupported_user_def mhas_iff)
qed

lemma upto_flow_supported [simp]: "r_unsupported (upto_flow this l r lb) = r_unsupported r"
  by (induction this l r lb rule: upto_flow.induct) (auto simp: Let_def)

lemma enter_related_cases:
  "unsupported_user m token u \<Longrightarrow> enter_related token this u m = Inl (no_flow\<lparr>r_unsupported := True\<rparr>, m)"
  "\<not> unsupported_user m token u \<Longrightarrow> enter_related token this u m =
     Inr (upto_flow this (drop 1 (sort_flows (flows_of m u token))) no_flow (NewFloat 0), sort_entry u token m)"
  by (auto simp: enter_related_def unsupported_user_def Let_def flows_of_sort_entry)

interpretation related: user_search "enter_related token this" add_nested rel commonAddressMap block "same_flows m0"
    "\<lambda>r. \<not> r_unsupported r" "unsupported_user m0 token"
  for token this rel commonAddressMap block m0
proof unfold_locales
  fix x u assume s: "same_flows m0 x"
  show "\<exists>r x'. enter_related token this u x = Inl (r, x') \<and> same_flows m0 x'" if "unsupported_user m0 token u"
    using that s by (simp add: enter_related_cases unsupported_same)
  show "\<exists>r x'. enter_related token this u x = Inr (r, x') \<and> same_flows m0 x' \<and> \<not> r_unsupported r"
    if "\<not> unsupported_user m0 token u"
    using that s by (simp add: enter_related_cases unsupported_same same_flows_sort_entry no_flow_def)
qed (simp add: add_nested_def add_totals_def Let_def)

lemma related_steps_eq: "related.steps rel commonAddressMap block m0 token = related_steps m0 token rel commonAddressMap block"
  by (simp add: related.steps_def related_steps_def)

text \<open>
  C5: the recursion over related users returns (with fuel for every related address), and
  has then marked exactly the users reached from the given one by relations in force, over
  users that were neither common, marked before, nor turned down.
\<close>

theorem GetRelatedTokenFlow_reaches:
  assumes "related_fuel rel \<le> fuel"
  shows "\<exists>r used' m'. GetRelatedTokenFlow fuel m user token rel used commonAddressMap this = Some (r, used', m') \<and>
    same_flows m m' \<and>
    set (mkeys used') = set (mkeys used) \<union>
      (avoiding (related_steps m token rel commonAddressMap (tf_BlockNumber this)) (set (mkeys used)))\<^sup>+ `` {user}"
proof -
  have "card (related_users rel - set (mkeys used)) < fuel"
    using related_fuel_enough assms by (rule less_le_trans)
  from related.search_reaches [OF same_flows_refl [of m] this, where token = token and this = this and u = user and
      commonAddressMap = commonAddressMap and block = "tf_BlockNumber this"]
  show ?thesis unfolding GetRelatedTokenFlow_def related_steps_eq by blast
qed

definition sample_flows :: UserTokenFlowMap where
  "sample_flows = [(1, [(5, [init_flow])]), (2, [(7, [])])]"

definition sample_relations :: UserRelatedMap where
  "sample_relations = [(1, [(2, 600)])]"

theorem GetRelatedTokenFlow_reaches_witness:
  "\<exists>r used' m'. GetRelatedTokenFlow 2 sample_flows 1 5 sample_relations [] [] (init_flow\<lparr>tf_BlockNumber := 700\<rparr>)
       = Some (r, used', m') \<and>
     set (mkeys used') = (related_steps sample_flows 5 sample_relations [] 700)\<^sup>+ `` {1} \<and> 2 \<in> set (mkeys used')"
proof -
  have "related_fuel sample_relations \<le> 2" by (simp add: related_fuel_def sample_relations_def)
  from GetRelatedTokenFlow_reaches [OF this, of sample_flows 1 5 "[]" "[]" "init_flow\<lparr>tf_BlockNumber := 700\<rparr>"]
  obtain r used' m' where "GetRelatedTokenFlow 2 sample_flows 1 5 sample_relations [] [] (init_flow\<lparr>tf_BlockNumber := 700\<rparr>)
       = Some (r, used', m')"
    and u: "set (mkeys used') = (related_steps sample_flows 5 sample_relations [] 700)\<^sup>+ `` {1}" by auto
  moreover have "(1, 2) \<in> related_steps sample_flows 5 sample_relations [] 700"
    by (simp add: related_steps_def follows_def sample_relations_def sample_flows_def unsupported_user_def gomap_simps)
  ultimately show ?thesis by blast
qed

text \<open>
  The flag that \<open>GetRelatedTokenFlow\<close> returns says only whether the user itself is turned
  down. An unsupported user further along the relations does not set it: the loop tests the
  flag of the caller instead of the one returned.
\<close>

theorem GetRelatedTokenFlow_flag:
  assumes "GetRelatedTokenFlow fuel m user token rel used commonAddressMap this = Some (r, used', m')"
    and "related_fuel rel \<le> fuel"
  shows "r_unsupported r \<longleftrightarrow> unsupported_user m token user"
proof (cases "unsupported_user m token user")
  case True
  with assms(2) obtain n where "fuel = Suc n" by (cases fuel) (auto simp: related_fuel_def)
  with assms(1) True show ?thesis by (auto simp: GetRelatedTokenFlow_def enter_related_cases)
next
  case False
  have "card (related_users rel - set (mkeys used)) < fuel"
    using related_fuel_enough assms(2) by (rule less_le_trans)
  from related.search_reaches [OF same_flows_refl [of m] this, where token = token and this = this and u = user and
      commonAddressMap = commonAddressMap and block = "tf_BlockNumber this"]
    assms(1) False show ?thesis unfolding GetRelatedTokenFlow_def by auto
qed

theorem GetRelatedTokenFlow_flag_witness:
  "\<exists>r used' m'. GetRelatedTokenFlow 2 sample_flows 1 5 sample_relations [] [] (init_flow\<lparr>tf_BlockNumber := 700\<rparr>)
       = Some (r, used', m') \<and> unsupported_user sample_flows 5 2 \<and> mhas used' 2 \<and> \<not> r_unsupported r"
proof -
  have f: "related_fuel sample_relations \<le> 2" by (simp add: related_fuel_def sample_relations_def)
  have "\<exists>r m'. GetRelatedTokenFlow 2 sample_flows 1 5 sample_relations [] [] (init_flow\<lparr>tf_BlockNumber := 700\<rparr>)
       = Some (r, [(2, True)], m')"
    by (simp add: GetRelatedTokenFlow_def numeral_2_eq_2 enter_related_def sample_flows_def sample_relations_def
        gomap_simps add_nested_def Let_def no_flow_def add_totals_def)
  then obtain r m' where g: "GetRelatedTokenFlow 2 sample_flows 1 5 sample_relations [] []
      (init_flow\<lparr>tf_BlockNumber := 700\<rparr>) = Some (r, [(2, True)], m')" by blast
  from GetRelatedTokenFlow_flag [OF g f] g show ?thesis
    by (simp add: unsupported_user_def sample_flows_def gomap_simps)
qed

end
