(* ===== verification/Leak_Report.thy ===== *)
theory Leak_Report
  imports Leak_Check
begin

text \<open>
  What \<open>CheckAttack\<close>, \<open>RecordRate\<close> and \<open>CheckAttackInTx\<close> report: that they return, that a
  report is justified by the flows, and which leaks are never missed.
\<close>

section \<open>The joined totals\<close>

abbreviation reached :: "UserTokenFlowMap \<Rightarrow> TxExtractor \<Rightarrow> Address \<Rightarrow> Address \<Rightarrow> int \<Rightarrow> Address set" where
  "reached m ex user token block \<equiv>
     (related_steps m token (te_UserRelatedMap ex) (CommonAddressMap ex) block)\<^sup>+ `` {user}"

lemma related_totals_reaches:
  assumes "same_flows m0 m" and "\<not> unsupported_user m0 token user"
  shows "\<exists>r used m'. related_totals ex user token tf first unsupported m = Some (r, used, m') \<and> same_flows m0 m' \<and>
     set (mkeys used) \<subseteq> reached m0 ex user token (tf_BlockNumber tf) \<and>
     (r_unsupported r \<or> set (mkeys used) = reached m0 ex user token (tf_BlockNumber tf))"
proof -
  let ?rel = "te_UserRelatedMap ex"
  have "card (related_users ?rel) < Suc (related_fuel ?rel)"
    using related_fuel_enough [of ?rel "{}"] by simp
  note reach = related.loop_reaches [where keep = "\<lambda>_. True" and left = r_unsupported and join = add_direct and this = tf
      and commonAddressMap = "CommonAddressMap ex" and block = "tf_BlockNumber tf", OF assms(1) TrueI assms(2) this]
  have stop: "r_unsupported r''" if "add_direct r r' = Inl r''" for r r' r''
    using that by (auto simp: add_direct_def Let_def split: if_splits)
  let ?r = "\<lparr>r_deposit = fl_copy (tf_TotalDeposit tf), r_withdraw = fl_copy (tf_TotalWithdraw tf),
        r_first = first, r_unsupported = unsupported\<rparr>"
  have "\<exists>r' used' x'. related_loop (related_search (related_fuel ?rel) (enter_related token tf) add_nested ?rel
        (CommonAddressMap ex) (tf_BlockNumber tf)) add_direct (CommonAddressMap ex) (tf_BlockNumber tf)
        (mget [] ?rel user) ?r [] m = Some (r', used', x') \<and> same_flows m0 x' \<and>
      set (mkeys used') \<subseteq> (related.steps ?rel (CommonAddressMap ex) (tf_BlockNumber tf) m0 token)\<^sup>+ `` {user} \<and>
      (r_unsupported r' \<or> True \<and>
        set (mkeys used') = (related.steps ?rel (CommonAddressMap ex) (tf_BlockNumber tf) m0 token)\<^sup>+ `` {user})"
    by (rule reach) (use stop in blast)+
  then show ?thesis
    unfolding related_totals_def GetRelatedTokenFlow_def related_steps_eq by simp
qed

lemma related_totals_lone:
  assumes "mget [] (te_UserRelatedMap ex) user = []"
  shows "related_totals ex user token tf first unsupported m =
    Some (\<lparr>r_deposit = fl_copy (tf_TotalDeposit tf), r_withdraw = fl_copy (tf_TotalWithdraw tf),
       r_first = first, r_unsupported = unsupported\<rparr>, [], m)"
  by (simp add: related_totals_def assms)

lemma abnormal_single: "abnormal d w False \<Longrightarrow> abnormal d w b"
proof -
  have "f64_le SINGLE_ABNORMAL_RATE ABNORMAL_RATE" by (simp add: ABNORMAL_RATE_def SINGLE_ABNORMAL_RATE_value)
  moreover assume "abnormal d w False"
  ultimately show ?thesis
    by (cases b) (auto simp: abnormal_def Let_def intro: f64_le_trans [of SINGLE_ABNORMAL_RATE ABNORMAL_RATE] split: if_splits)
qed

lemma abnormal_any: "abnormal d w b \<Longrightarrow> abnormal d w True"
  using abnormal_single by (cases b) auto

section \<open>Reports\<close>

text \<open>A report of a user at one of the flows \<open>l\<close>.\<close>

definition justified :: "UserTokenFlowMap \<Rightarrow> TxExtractor \<Rightarrow> Address \<Rightarrow> Address \<Rightarrow> TokenFlow list \<Rightarrow> AttackInfo \<Rightarrow> bool" where
  "justified m ex user token l info \<longleftrightarrow>
     (\<exists>tf \<in> set l. Contains (tf_Action tf) ''withdraw'' \<and> at_BlockNumber info = tf_BlockNumber tf \<and>
        abnormal (at_TotalDeposit info) (at_TotalWithdraw info) True \<and>
        RelatedUserMap info = mget [] (te_UserRelatedMap ex) user \<and>
        set (mkeys (RelatedTokenFlowMap info)) = reached m ex user token (tf_BlockNumber tf))"

lemma mkeys_fold_mput: "set (mkeys (fold (\<lambda>u. mput u (f u)) us m)) = set us \<union> set (mkeys m)"
proof (induction us arbitrary: m)
  case (Cons u us)
  have "set (mkeys (fold (\<lambda>u. mput u (f u)) (u # us) m)) = set us \<union> insert u (set (mkeys m))"
    using Cons.IH [of "mput u (f u) m"] by (simp only: fold_simps comp_def set_mkeys_mput)
  then show ?case by auto
qed simp

lemma check_flows_justified:
  assumes "same_flows m0 m" and "\<not> unsupported_user m0 token user"
  shows "\<exists>res m'. check_flows ex user token l first lb unsupported m = Some (res, m') \<and> same_flows m0 m' \<and>
     (\<forall>info. res = Some info \<longrightarrow> justified m0 ex user token l info)"
  using assms(1)
proof (induction l arbitrary: first lb unsupported m)
  case (Cons tf l)
  have weaken: "justified m0 ex user token l info \<Longrightarrow> justified m0 ex user token (tf # l) info" for info
    by (auto simp: justified_def)
  define first' where "first' = (if tf_BlockNumber first = 0 \<or>
      Float_Cmp lb (NewFloat (10 ^ 18)) = -1 \<and> Contains (tf_Action tf) ''deposit'' then tf else first)"
  show ?case
  proof (cases "Contains (tf_Action tf) ''withdraw''")
    case False
    from Cons.IH [OF Cons.prems, of first' lb unsupported] obtain res m' where
      "check_flows ex user token l first' lb unsupported m = Some (res, m')" "same_flows m0 m'"
      "\<forall>info. res = Some info \<longrightarrow> justified m0 ex user token l info" by blast
    moreover from this(1) False have "check_flows ex user token (tf # l) first lb unsupported m = Some (res, m')"
      unfolding check_flows.simps Let_def first'_def by simp
    ultimately show ?thesis using weaken by blast
  next
    case True
    obtain r used m1 where r: "related_totals ex user token tf first' unsupported m = Some (r, used, m1)"
      "same_flows m0 m1" "r_unsupported r \<or> set (mkeys used) = reached m0 ex user token (tf_BlockNumber tf)"
      using related_totals_reaches [OF Cons.prems assms(2), of ex tf first' unsupported] by blast
    define found where "found = (if r_unsupported r then None
      else abnormalDetection (r_deposit r) (r_withdraw r) m1 user token used (te_UserRelatedMap ex)
             (same_tx tf (r_first r)) tf)"
    have step: "check_flows ex user token (tf # l) first lb unsupported m = (case found of
        Some info \<Rightarrow> Some (Some info, m1)
      | None \<Rightarrow> check_flows ex user token l (r_first r) (Float_Add fl_new (tf_Balance tf) (NewFloat 0)) (r_unsupported r) m1)"
      using True r(1) unfolding check_flows.simps Let_def first'_def found_def by simp
    show ?thesis
    proof (cases found)
      case None
      with Cons.IH [OF r(2), of "r_first r" _ "r_unsupported r"] weaken show ?thesis unfolding step by fastforce
    next
      case (Some info)
      then have s: "\<not> r_unsupported r" "abnormal (r_deposit r) (r_withdraw r) (same_tx tf (r_first r))"
        by (auto simp: found_def abnormalDetection_def split: if_splits)
      then have i: "info = \<lparr>at_BlockNumber = tf_BlockNumber tf, at_TotalDeposit = r_deposit r,
             at_TotalWithdraw = r_withdraw r, TokenFlowList = flows_of m1 user token,
             RelatedUserMap = mget [] (te_UserRelatedMap ex) user,
             RelatedTokenFlowMap = fold (\<lambda>u. mput u (flows_of m1 u token)) (mkeys used) []\<rparr>"
        using Some by (simp add: found_def abnormalDetection_def)
      have "set (mkeys (RelatedTokenFlowMap info)) = reached m0 ex user token (tf_BlockNumber tf)"
        unfolding i using mkeys_fold_mput [of "\<lambda>u. flows_of m1 u token" "mkeys used" "[]"] r(3) s(1) by simp
      then have "justified m0 ex user token (tf # l) info"
        unfolding justified_def using True abnormal_any [OF s(2)]
        by (intro bexI [of _ tf]) (simp_all add: i)
      with Some r(2) show ?thesis unfolding step by simp
    qed
  qed
qed simp

lemma check_flows_lone:
  assumes "mget [] (te_UserRelatedMap ex) user = []" and "tf \<in> set l" and "Contains (tf_Action tf) ''withdraw''"
    and "abnormal (fl_copy (tf_TotalDeposit tf)) (fl_copy (tf_TotalWithdraw tf)) False"
  shows "\<exists>info. check_flows ex user token l first lb False m = Some (Some info, m)"
  using assms(2)
proof (induction l arbitrary: first lb)
  case (Cons tf' l)
  show ?case
  proof (cases "tf' = tf")
    case True
    with assms(3) abnormal_single [OF assms(4)] show ?thesis
      by (simp add: related_totals_lone [OF assms(1)] Let_def abnormalDetection_def)
  next
    case False
    with Cons.prems have "tf \<in> set l" by auto
    note IH = Cons.IH [OF this]
    show ?thesis
      using IH by (simp add: related_totals_lone [OF assms(1)] Let_def abnormalDetection_def split: option.splits)
  qed
qed simp

lemma to_check_supported:
  assumes "\<not> mhas (mget [] m user) 7"
  shows "\<not> unsupported_user m (token_to_check (mget [] m user)) user"
  using assms by (simp add: unsupported_user_def token_to_check_def)

text \<open>
  C1: \<open>CheckAttack\<close> always returns, changes the flows only by sorting them, and reports
  a user at most once, under the flow it is checked on; a report is of a withdrawal of
  that flow whose totals are abnormal, lists exactly the users reached over the relations
  in force at its block, and is never made of a common address or of a user set aside
  for an unsupported token.
\<close>

theorem CheckAttack_justified:
  "\<exists>attacks flag m'. CheckAttack user m ex = Some (attacks, flag, m') \<and> same_flows m m' \<and>
     (flag \<longleftrightarrow> attacks \<noteq> []) \<and>
     (flag \<longrightarrow> \<not> mhas (CommonAddressMap ex) user \<and> \<not> mhas (mget [] m user) 7 \<and>
        (\<exists>info. attacks = [(token_to_check (mget [] m user), info)] \<and>
           justified m ex user (token_to_check (mget [] m user)) (flows_of m user (token_to_check (mget [] m user))) info))"
proof (cases "mhas (CommonAddressMap ex) user \<or> mhas (mget [] m user) 7 \<or> \<not> mhas m user \<or>
    mhas (StableTokenMap ex) (token_to_check (mget [] m user))")
  case True
  then show ?thesis by (auto simp: CheckAttack_def Let_def)
next
  case False
  let ?token = "token_to_check (mget [] m user)" let ?m = "sort_entry user ?token m"
  let ?l = "drop 1 (flows_of ?m user ?token)"
  have supported: "\<not> unsupported_user m ?token user" using False to_check_supported by blast
  obtain res m' where c: "check_flows ex user ?token ?l zero_flow (NewFloat 0) False ?m = Some (res, m')"
    and s: "same_flows m m'" and j: "\<forall>info. res = Some info \<longrightarrow> justified m ex user ?token ?l info"
    using check_flows_justified [OF same_flows_sort_entry [OF same_flows_refl] supported] by blast
  have sub: "set ?l \<subseteq> set (flows_of m user ?token)"
    unfolding flows_of_sort_entry using set_drop_subset [of 1 "sort_flows (flows_of m user ?token)"] by simp
  have run: "CheckAttack user m ex = (case res of None \<Rightarrow> Some ([], False, m') | Some info \<Rightarrow> Some ([(?token, info)], True, m'))"
    using False c by (simp add: CheckAttack_def Let_def split: option.splits)
  show ?thesis
  proof (cases res)
    case (Some info)
    then have "justified m ex user ?token (flows_of m user ?token) info"
      using j sub unfolding justified_def by blast
    with Some s False show ?thesis unfolding run by simp
  qed (use run s in simp)
qed

definition sample_withdrawal :: TokenFlow where
  "sample_withdrawal = init_flow\<lparr>tf_Action := ''withdraw'', tf_BlockNumber := 700, tf_TotalWithdraw := SetInt 7\<rparr>"

definition sample_leak :: UserTokenFlowMap where
  "sample_leak = [(9, [(6, [init_flow, sample_withdrawal])])]"

lemma sample_leak_simps:
  "token_to_check (mget [] sample_leak 9) = 6" "flows_of sample_leak 9 6 = [init_flow, sample_withdrawal]"
  "mhas sample_leak 9" "\<not> mhas (mget [] sample_leak 9) 7"
  "sort_flows [init_flow, sample_withdrawal] = [init_flow, sample_withdrawal]"
  "mget [] (te_UserRelatedMap sample_extractor) 9 = []"
  "\<not> mhas (CommonAddressMap sample_extractor) 9" "\<not> mhas (StableTokenMap sample_extractor) 6"
  "Contains (tf_Action sample_withdrawal) ''withdraw''"
  by (simp_all add: sample_leak_def sample_withdrawal_def token_to_check_def gomap_simps init_flow_def
      TokenFlowList_Less_def sample_extractor_def)

lemma sample_abnormal: "abnormal (fl_copy (tf_TotalDeposit sample_withdrawal)) (fl_copy (tf_TotalWithdraw sample_withdrawal)) False"
  by (simp add: sample_withdrawal_def init_flow_def abnormal_def fl_new_def fl_copy_def fl_defs SetInt_def round_prec_pos)

theorem CheckAttack_justified_witness:
  "\<exists>info m'. CheckAttack 9 sample_leak sample_extractor = Some ([(6, info)], True, m') \<and>
     justified sample_leak sample_extractor 9 6 [init_flow, sample_withdrawal] info"
proof -
  obtain info where "check_flows sample_extractor 9 6 [sample_withdrawal] zero_flow (NewFloat 0) False (sort_entry 9 6 sample_leak)
      = Some (Some info, sort_entry 9 6 sample_leak)"
    using check_flows_lone [OF sample_leak_simps(6) _ sample_leak_simps(9) sample_abnormal, of "[sample_withdrawal]"]
    unfolding set_simps by blast
  then have "CheckAttack 9 sample_leak sample_extractor = Some ([(6, info)], True, sort_entry 9 6 sample_leak)"
    unfolding CheckAttack_def Let_def sample_leak_simps flows_of_sort_entry
    by (simp del: check_flows.simps add: sample_leak_simps)
  with CheckAttack_justified [of 9 sample_leak sample_extractor] show ?thesis
    by (auto simp: sample_leak_simps)
qed

text \<open>
  C2: no leak of a user without relations is missed: if a withdrawal of its checked flow,
  the entry that opens it apart, brings the withdrawals to three times the deposits, or
  withdraws without any deposit, then it is reported.
\<close>

theorem CheckAttack_complete:
  assumes "mget [] (te_UserRelatedMap ex) user = []" and "\<not> mhas (CommonAddressMap ex) user"
    and "mhas m user" and "\<not> mhas (mget [] m user) 7" and "token = token_to_check (mget [] m user)"
    and "\<not> mhas (StableTokenMap ex) token"
    and "tf \<in> set (drop 1 (sort_flows (flows_of m user token)))" and "Contains (tf_Action tf) ''withdraw''"
    and "fl_rep (tf_TotalDeposit tf)" and "fl_rep (tf_TotalWithdraw tf)"
    and "53 \<le> max (fl_prec (tf_TotalWithdraw tf)) (fl_prec (tf_TotalDeposit tf))"
    and "0 \<le> fl_val (tf_TotalDeposit tf)" and "0 < fl_val (tf_TotalWithdraw tf)"
    and "3 * fl_val (tf_TotalDeposit tf) \<le> fl_val (tf_TotalWithdraw tf)"
  shows "\<exists>info m'. CheckAttack user m ex = Some ([(token, info)], True, m')"
proof -
  have ab: "abnormal (tf_TotalDeposit tf) (tf_TotalWithdraw tf) False"
  proof (cases "fl_val (tf_TotalDeposit tf) = 0")
    case True
    with assms(13) show ?thesis by (simp add: abnormal_def fl_new_def)
  next
    case False
    with assms(12) have d: "0 < fl_val (tf_TotalDeposit tf)" by simp
    with assms(14) have q: "3 \<le> fl_val (tf_TotalWithdraw tf) / fl_val (tf_TotalDeposit tf)" by (simp add: field_simps)
    from rate64_below [OF rate64_thresholds(1) assms(11) q] d show ?thesis
      by (simp add: abnormal_def Float_Float64_def fl_defs ABNORMAL_RATE_def)
  qed
  then have "abnormal (fl_copy (tf_TotalDeposit tf)) (fl_copy (tf_TotalWithdraw tf)) False"
    using assms(9,10) by simp
  from check_flows_lone [OF assms(1,7,8) this] obtain info where
    "check_flows ex user token (drop 1 (flows_of (sort_entry user token m) user token)) zero_flow (NewFloat 0) False
       (sort_entry user token m) = Some (Some info, sort_entry user token m)"
    unfolding flows_of_sort_entry by blast
  with assms(2-6) show ?thesis by (simp add: CheckAttack_def Let_def)
qed

theorem CheckAttack_complete_witness:
  "\<exists>info m'. CheckAttack 9 sample_leak sample_extractor = Some ([(6, info)], True, m')"
proof (rule CheckAttack_complete [where tf = sample_withdrawal])
  show "sample_withdrawal \<in> set (drop 1 (sort_flows (flows_of sample_leak 9 6)))"
    unfolding sample_leak_simps by simp
  show "fl_rep (tf_TotalWithdraw sample_withdrawal)" by (simp add: sample_withdrawal_def)
  show "fl_rep (tf_TotalDeposit sample_withdrawal)"
    by (simp add: sample_withdrawal_def init_flow_def fl_rep_def fl_new_def)
qed (simp_all add: sample_leak_simps, simp_all add: sample_withdrawal_def init_flow_def SetInt_def fl_new_def)

section \<open>What relations do to a report\<close>

text \<open>
  Two users related to each other count the flow of the first one twice: \<open>usedAddress\<close>
  does not hold the user that is checked, so the walk comes back to it and adds its own
  totals to those it started with.
\<close>

theorem mutual_relation_counts_twice:
  assumes "te_UserRelatedMap ex = [(user, [(v, b)]), (v, [(user, b')])]" and "user \<noteq> v"
    and "b \<le> tf_BlockNumber tf" and "b' \<le> tf_BlockNumber tf"
    and "\<not> mhas (CommonAddressMap ex) user" and "\<not> mhas (CommonAddressMap ex) v"
    and "\<not> unsupported_user m token user" and "\<not> unsupported_user m token v"
  shows "\<exists>r m'. related_totals ex user token tf first False m = Some (r, [(v, True), (user, True)], m') \<and>
    (let own = fl_copy (tf_TotalWithdraw tf);
         w = (\<lambda>u. r_withdraw (upto_flow tf (drop 1 (sort_flows (flows_of m u token))) no_flow (NewFloat 0)))
     in r_withdraw r = Float_Add own own (Float_Add (w v) (w v) (w user)))"
proof -
  let ?m = "sort_entry v token m"
  have s: "same_flows m ?m" by (intro same_flows_sort_entry same_flows_refl)
  have ev: "enter_related token tf v m =
     Inr (upto_flow tf (drop 1 (sort_flows (flows_of m v token))) no_flow (NewFloat 0), ?m)"
    by (rule enter_related_cases(2) [OF assms(8)])
  have eu: "enter_related token tf user ?m =
     Inr (upto_flow tf (drop 1 (sort_flows (flows_of m user token))) no_flow (NewFloat 0), sort_entry user token ?m)"
    using enter_related_cases(2) [of ?m token user tf] assms(7) unsupported_same [OF s] same_flows_sorted [OF s] by simp
  have f: "related_fuel (te_UserRelatedMap ex) = Suc (Suc (Suc 0))" by (simp add: assms(1) related_fuel_def)
  show ?thesis
    unfolding related_totals_def GetRelatedTokenFlow_def f unfolding assms(1)
    using assms(2-6)
    by (simp add: gomap_simps ev eu add_nested_def add_direct_def add_totals_def Let_def no_flow_def)
qed

definition mutual_extractor :: TxExtractor where
  "mutual_extractor = sample_extractor\<lparr>te_UserRelatedMap := [(9, [(8, 600)]), (8, [(9, 650)])]\<rparr>"

theorem mutual_relation_counts_twice_witness:
  "\<exists>r m'. related_totals mutual_extractor 9 6 sample_withdrawal init_flow False sample_leak = Some (r, [(8, True), (9, True)], m') \<and>
     fl_val (r_withdraw r) = 2 * fl_val (tf_TotalWithdraw sample_withdrawal)"
proof -
  have s: "drop 1 (sort_flows (flows_of sample_leak 9 6)) = [sample_withdrawal]"
    "drop 1 (sort_flows (flows_of sample_leak 8 6)) = []"
    unfolding sample_leak_simps by (simp_all add: sample_leak_def gomap_simps)
  have u: "\<not> unsupported_user sample_leak 6 9" "\<not> unsupported_user sample_leak 6 8"
    by (simp_all add: unsupported_user_def sample_leak_def gomap_simps)
  have f: "fl_copy (SetInt 7) = SetInt 7" by simp
  have seven: "round_prec 64 7 = 7" "round_prec 64 14 = 14"
    using round_prec_int_exact [of 7 64] round_prec_int_exact [of 14 64] by simp_all
  have "SetInt 7 = \<lparr>fl_prec = 64, fl_val = 7\<rparr>" by code_simp
  then have "Float_Add (SetInt 7) (SetInt 7) (Float_Add fl_new fl_new (SetInt 7)) = \<lparr>fl_prec = 64, fl_val = 14\<rparr>"
    by (simp add: fl_defs fl_new_def seven)
  moreover have "\<exists>r m'. related_totals mutual_extractor 9 6 sample_withdrawal init_flow False sample_leak = Some (r, [(8, True), (9, True)], m') \<and>
    (let own = fl_copy (tf_TotalWithdraw sample_withdrawal);
         w = (\<lambda>u. r_withdraw (upto_flow sample_withdrawal (drop 1 (sort_flows (flows_of sample_leak u 6))) no_flow (NewFloat 0)))
     in r_withdraw r = Float_Add own own (Float_Add (w 8) (w 8) (w 9)))"
    by (rule mutual_relation_counts_twice [where b = 600 and b' = 650])
      (use u in \<open>simp_all add: mutual_extractor_def sample_extractor_def sample_withdrawal_def\<close>)
  moreover have "r_withdraw (upto_flow sample_withdrawal (drop 1 (sort_flows (flows_of sample_leak 9 6))) no_flow (NewFloat 0)) = SetInt 7"
    "r_withdraw (upto_flow sample_withdrawal (drop 1 (sort_flows (flows_of sample_leak 8 6))) no_flow (NewFloat 0)) = fl_new"
    unfolding s by (simp_all add: sample_withdrawal_def no_flow_def)
  moreover have "tf_TotalWithdraw sample_withdrawal = SetInt 7" by (simp add: sample_withdrawal_def)
  ultimately show ?thesis unfolding Let_def by (simp only: f) (auto simp: SetInt_def)
qed

text \<open>
  A related user without any flow stands for a first deposit at block 0, which is
  earlier than any other; a withdrawal of a user whose only relation is such a user is
  never taken to be in the transaction of the first deposit, and so is held only against
  the threshold for several transactions.
\<close>

theorem idle_relation_hides_single_tx:
  assumes "mget [] (te_UserRelatedMap ex) user = [(v, b)]" and "mget [] (te_UserRelatedMap ex) v = []"
    and "b \<le> tf_BlockNumber tf" and "\<not> mhas (CommonAddressMap ex) v" and "\<not> mhas m v"
    and "0 < tf_BlockNumber first" and "0 < tf_BlockNumber tf"
  shows "\<exists>r m'. related_totals ex user token tf first False m = Some (r, [(v, True)], m') \<and>
    \<not> same_tx tf (r_first r)"
proof -
  have "mget [] m v = []" using assms(5) by (rule mget_absent)
  then have "enter_related token tf v m = Inr (no_flow, m)"
    using enter_related_cases(2) [of m token v tf] assms(5) by (simp add: unsupported_user_def sort_entry_def)
  moreover obtain n where "related_fuel (te_UserRelatedMap ex) = Suc n" by (simp add: related_fuel_def)
  ultimately show ?thesis
    using assms by (simp add: related_totals_def GetRelatedTokenFlow_def add_direct_def add_totals_def Let_def no_flow_def
        earlier_first_def same_tx_def)
qed

theorem idle_relation_hides_single_tx_witness:
  "\<exists>r m'. related_totals (sample_extractor\<lparr>te_UserRelatedMap := [(9, [(8, 600)])]\<rparr>) 9 6 sample_withdrawal sample_withdrawal
       False sample_leak = Some (r, [(8, True)], m') \<and> \<not> same_tx sample_withdrawal (r_first r)"
  by (rule idle_relation_hides_single_tx [where b = 600])
    (simp_all add: sample_extractor_def sample_withdrawal_def sample_leak_def gomap_simps)

section \<open>Recorded rates\<close>

text \<open>A record of a user at a withdrawal of its checked flow.\<close>

definition rate_recorded :: "UserTokenFlowMap \<Rightarrow> RateRecord \<Rightarrow> bool" where
  "rate_recorded m rate \<longleftrightarrow> rr_TokenAddress rate = token_to_check (mget [] m (rr_UserAddress rate)) \<and>
     (\<exists>tf \<in> set (flows_of m (rr_UserAddress rate) (rr_TokenAddress rate)). Contains (tf_Action tf) ''withdraw'' \<and>
        rr_BlockNumber rate = tf_BlockNumber tf \<and> rr_TxIndex rate = tf_TxIndex tf)"

abbreviation records :: "LeakingChecker \<Rightarrow> RateRecord set" where
  "records checker \<equiv> \<Union>(token, l) \<in> set (TokenRateMap checker). set l"

lemma records_append:
  assumes "\<And>rate. rate \<in> (\<Union>(token, l) \<in> set m. set l) \<Longrightarrow> P rate" and "P rate"
    and "r \<in> (\<Union>(token, l) \<in> set (mput token (mget [] m token @ [rate]) m). set l)"
  shows "P r"
proof -
  from assms(3) obtain t l where tl: "(t, l) \<in> set (mput token (mget [] m token @ [rate]) m)" "r \<in> set l" by auto
  have "(t, l) \<in> set m \<or> l = mget [] m token @ [rate]"
    using tl(1) by (induction m) (auto simp: gomap_simps split: if_splits)
  then consider "(t, l) \<in> set m" | "r \<in> set (mget [] m token)" | "r = rate" using tl(2) by auto
  then show ?thesis
  proof cases
    case 2
    then have "mhas m token" using mget_absent [of m token "[]"] by (cases "mhas m token") auto
    with 2 mget_in_set [of m token "[]"] assms(1) show ?thesis by auto
  qed (use assms tl(2) in auto)
qed

lemma record_flows_recorded:
  assumes "same_flows m0 (lc_UserTokenFlowMap checker)" and "\<not> unsupported_user m0 token user"
    and "token = token_to_check (mget [] m0 user)" and "set l \<subseteq> set (flows_of m0 user token)"
    and "\<And>rate. rate \<in> records checker \<Longrightarrow> rate_recorded m0 rate"
  shows "\<exists>checker'. record_flows ex user token l first lb unsupported checker = Some checker' \<and>
     same_flows m0 (lc_UserTokenFlowMap checker') \<and> (\<forall>rate \<in> records checker'. rate_recorded m0 rate)"
  using assms(1,4,5)
proof (induction l arbitrary: first lb unsupported checker)
  case (Cons tf l)
  have l: "set l \<subseteq> set (flows_of m0 user token)" using Cons.prems(2) by simp
  define first' where "first' = (if tf_BlockNumber first = 0 \<or>
      Float_Cmp lb (NewFloat 0) = 0 \<and> Contains (tf_Action tf) ''deposit'' then tf else first)"
  show ?case
  proof (cases "Contains (tf_Action tf) ''withdraw''")
    case False
    have "record_flows ex user token (tf # l) first lb unsupported checker = record_flows ex user token l first' lb unsupported checker"
      using False unfolding record_flows.simps Let_def first'_def by simp
    with Cons.IH [OF Cons.prems(1) l Cons.prems(3)] show ?thesis by simp
  next
    case True
    obtain r used m1 where r: "related_totals ex user token tf first' unsupported (lc_UserTokenFlowMap checker) = Some (r, used, m1)"
      "same_flows m0 m1"
      using related_totals_reaches [OF Cons.prems(1) assms(2), of ex tf first' unsupported] by blast
    define rate where "rate = \<lparr>rr_UserAddress = user, rr_TokenAddress = token,
      rr_TotalDeposit = Float_Add fl_new (r_deposit r) (NewFloat 0),
      rr_TotalWithdraw = Float_Add fl_new (r_withdraw r) (NewFloat 0),
      IsSingleTx = same_tx tf (r_first r), rr_BlockNumber = tf_BlockNumber tf, rr_TxIndex = tf_TxIndex tf\<rparr>"
    define next' where "next' = (if r_unsupported r then checker\<lparr>lc_UserTokenFlowMap := m1\<rparr>
      else checker\<lparr>lc_UserTokenFlowMap := m1,
             TokenRateMap := mput token (mget [] (TokenRateMap checker) token @ [rate]) (TokenRateMap checker)\<rparr>)"
    have step: "record_flows ex user token (tf # l) first lb unsupported checker =
       record_flows ex user token l (r_first r) (Float_Add fl_new (tf_Balance tf) (NewFloat 0)) (r_unsupported r) next'"
      using True r(1) unfolding record_flows.simps Let_def first'_def next'_def rate_def by simp
    have "rate_recorded m0 rate"
      unfolding rate_recorded_def rate_def using True Cons.prems(2) assms(3) by auto
    then have "rate_recorded m0 r'" if "r' \<in> records next'" for r'
      using that Cons.prems(3) records_append [of "TokenRateMap checker" "rate_recorded m0" rate r' token]
      by (auto simp: next'_def split: if_splits)
    moreover have "same_flows m0 (lc_UserTokenFlowMap next')" using r(2) by (simp add: next'_def)
    ultimately show ?thesis unfolding step using Cons.IH [OF _ l] by blast
  qed
qed auto

lemma record_users_recorded:
  assumes "same_flows m0 (lc_UserTokenFlowMap checker)" and "\<And>rate. rate \<in> records checker \<Longrightarrow> rate_recorded m0 rate"
  shows "\<exists>checker'. record_users ex users checker = Some checker' \<and>
     same_flows m0 (lc_UserTokenFlowMap checker') \<and> (\<forall>rate \<in> records checker'. rate_recorded m0 rate)"
  using assms
proof (induction users arbitrary: checker)
  case (Cons user users)
  let ?m = "lc_UserTokenFlowMap checker"
  let ?token = "token_to_check (mget [] ?m user)"
  have keys: "mhas (mget [] ?m user) k \<longleftrightarrow> mhas (mget [] m0 user) k" for k
    using Cons.prems(1) by (simp only: same_flows_def mhas_iff)
  then have token: "?token = token_to_check (mget [] m0 user)" by (simp add: token_to_check_def)
  show ?case
  proof (cases "is_manager ex user \<or> in_set (CommonAddressMap ex) user \<or> mget 0 (RelatedToken ex) user \<noteq> 0 \<or>
      mhas (mget [] ?m user) 7 \<or> mhas (CommonAddressMap ex) user \<or> \<not> mhas ?m user \<or> mhas (StableTokenMap ex) ?token")
    case True
    then have "record_users ex (user # users) checker = record_users ex users checker \<or>
        record_users ex (user # users) checker = Some checker"
      unfolding record_users.simps Let_def by (elim disjE; simp split: if_split)
    with Cons.IH [OF Cons.prems] Cons.prems show ?thesis by auto
  next
    case False
    let ?c = "checker\<lparr>lc_UserTokenFlowMap := sort_entry user ?token ?m\<rparr>"
    have u: "\<not> unsupported_user m0 ?token user" using False keys to_check_supported token by simp
    have l: "set (drop 1 (flows_of (sort_entry user ?token ?m) user ?token)) \<subseteq> set (flows_of m0 user ?token)"
      unfolding flows_of_sort_entry same_flows_sorted [OF Cons.prems(1)]
      using set_drop_subset [of 1 "sort_flows (flows_of m0 user ?token)"] by simp
    have s: "same_flows m0 (lc_UserTokenFlowMap ?c)" using Cons.prems(1) by (simp add: same_flows_sort_entry)
    have r: "rate \<in> records ?c \<Longrightarrow> rate_recorded m0 rate" for rate using Cons.prems(2) by simp
    obtain checker' where c: "record_flows ex user ?token
        (drop 1 (flows_of (sort_entry user ?token ?m) user ?token)) zero_flow (NewFloat 0) False ?c = Some checker'"
      "same_flows m0 (lc_UserTokenFlowMap checker')" "\<forall>rate \<in> records checker'. rate_recorded m0 rate"
      using record_flows_recorded [OF s u token l r] by blast
    have "record_users ex (user # users) checker = record_users ex users checker'"
      using False c(1) by (simp add: Let_def)
    with Cons.IH [OF c(2)] c(3) show ?thesis by simp
  qed
qed auto

text \<open>
  \<open>RecordRate\<close> returns, changes the flows only by sorting them, and when it starts with
  an empty table every record in it is of a withdrawal of the flow its user is checked on.
\<close>

theorem RecordRate_recorded:
  assumes "TokenRateMap checker = []"
  shows "\<exists>checker'. RecordRate ex checker = Some checker' \<and>
    same_flows (lc_UserTokenFlowMap checker) (lc_UserTokenFlowMap checker') \<and>
    (\<forall>rate \<in> records checker'. rate_recorded (lc_UserTokenFlowMap checker) rate)"
  unfolding RecordRate_def using assms by (intro record_users_recorded) auto

theorem RecordRate_recorded_witness:
  "\<exists>checker'. RecordRate sample_extractor \<lparr>lc_UserTokenFlowMap = sample_leak, TokenRateMap = []\<rparr> = Some checker' \<and>
     (\<forall>rate \<in> records checker'. rate_recorded sample_leak rate)"
  using RecordRate_recorded [of "\<lparr>lc_UserTokenFlowMap = sample_leak, TokenRateMap = []\<rparr>" sample_extractor] by auto

section \<open>Within one transaction\<close>

interpretation in_tx: user_search "enter_in_tx m token key" add_in_tx rel commonAddressMap block "\<lambda>_. True" "\<lambda>_. True" "\<lambda>_. False"
  for m token key rel commonAddressMap block
  by unfold_locales (auto simp: enter_in_tx_def add_in_tx_def)

lemma in_tx_steps: "in_tx.steps rel commonAddressMap block = follows rel commonAddressMap block"
  by (simp add: in_tx.steps_def)

text \<open>
  The recursion within one transaction returns, and marks exactly the users reached
  over relations in force, outside those marked before.
\<close>

theorem GetRelatedTokenFlowInTx_reaches:
  assumes "related_fuel rel \<le> fuel"
  shows "\<exists>r used'. GetRelatedTokenFlowInTx fuel m user token rel used commonAddressMap key block = Some (r, used', ()) \<and>
    set (mkeys used') = set (mkeys used) \<union> (avoiding (follows rel commonAddressMap block) (set (mkeys used)))\<^sup>+ `` {user}"
proof -
  have "card (related_users rel - set (mkeys used)) < fuel"
    using related_fuel_enough assms by (rule less_le_trans)
  from in_tx.search_reaches [OF TrueI this, where m = m and token = token and key = key and u = user and
      commonAddressMap = commonAddressMap and block = block and x = "()"]
  show ?thesis unfolding GetRelatedTokenFlowInTx_def in_tx_steps by simp
qed

theorem GetRelatedTokenFlowInTx_reaches_witness:
  "\<exists>r used'. GetRelatedTokenFlowInTx 2 [] 1 5 sample_relations [] [] ''700_0'' 700 = Some (r, used', ()) \<and>
     set (mkeys used') = (follows sample_relations [] 700)\<^sup>+ `` {1}"
  using GetRelatedTokenFlowInTx_reaches [of sample_relations 2 "[]" 1 5 "[]" "[]" "''700_0''" 700]
  by (simp add: related_fuel_def sample_relations_def)

lemma check_in_tx_total: "\<exists>reports. check_in_tx m ex user token (key, e) = Some reports"
proof -
  let ?rel = "te_UserRelatedMap ex"
  have f: "card (related_users ?rel) < Suc (related_fuel ?rel)"
    using related_fuel_enough [of ?rel "{}"] by simp
  obtain r used where "related_loop (related_search (related_fuel ?rel) (enter_in_tx m token key) add_in_tx ?rel
        (CommonAddressMap ex) (tx_BlockNumber e)) add_in_tx (CommonAddressMap ex) (tx_BlockNumber e)
        (mget [] ?rel user) (fl_copy (tx_TotalDeposit e), fl_copy (tx_TotalWithdraw e)) [] () = Some (r, used, ())"
    using in_tx.loop_reaches [where keep = "\<lambda>_. True" and left = "\<lambda>_. True" and x = "()" and join = add_in_tx,
        OF TrueI TrueI not_False_eq_True [THEN iffD2, OF TrueI] f] by fastforce
  then show ?thesis
    by (cases r) (simp add: check_in_tx_def GetRelatedTokenFlowInTx_def)
qed

lemma concat_options_Some:
  assumes "\<And>x. x \<in> set xs \<Longrightarrow> \<exists>l. x = Some l \<and> (\<forall>r \<in> set l. P r)"
  shows "\<exists>l. concat_options xs = Some l \<and> (\<forall>r \<in> set l. P r)"
  using assms
proof (induction xs)
  case (Cons x xs)
  then obtain l where "x = Some l" "\<forall>r \<in> set l. P r" by fastforce
  with Cons show ?case by fastforce
qed simp

text \<open>
  \<open>CheckAttackInTx\<close> returns, and reports only users with flows that are neither common
  nor related tokens.
\<close>

theorem CheckAttackInTx_reports:
  "\<exists>reports. CheckAttackInTx flows ex = Some reports \<and>
     (\<forall>(user, token, totalDeposit, totalWithdraw, block, index) \<in> set reports.
        mhas flows user \<and> \<not> mhas (CommonAddressMap ex) user \<and> mget 0 (RelatedToken ex) user \<le> 0)"
  unfolding CheckAttackInTx_def Let_def
proof (rule concat_options_Some)
  fix x assume "x \<in> set (concat (map (\<lambda>(user, fm).
      if mhas (CommonAddressMap ex) user then []
      else if mget 0 (RelatedToken ex) user > 0 then []
      else concat (map (\<lambda>(token, txs). map (check_in_tx (MergeFlowInTx flows) ex user token) txs) fm)) (MergeFlowInTx flows)))"
  then obtain user fm token txs key e where "(user, fm) \<in> set (MergeFlowInTx flows)"
    and u: "\<not> mhas (CommonAddressMap ex) user" "\<not> mget 0 (RelatedToken ex) user > 0"
    and x: "x = check_in_tx (MergeFlowInTx flows) ex user token (key, e)"
    by (auto split: if_splits)
  then have m: "mhas flows user" by (auto simp: MergeFlowInTx_def mhas_iff intro: rev_image_eqI)
  obtain l where l: "x = Some l" using check_in_tx_total x by blast
  then have "\<forall>(v, token, totalDeposit, totalWithdraw, block, index) \<in> set l. v = user"
    using x by (auto simp: check_in_tx_def split: if_splits option.splits)
  with l m u show "\<exists>l. x = Some l \<and> (\<forall>(user, token, totalDeposit, totalWithdraw, block, index) \<in> set l.
      mhas flows user \<and> \<not> mhas (CommonAddressMap ex) user \<and> mget 0 (RelatedToken ex) user \<le> 0)" by fastforce
qed

theorem CheckAttackInTx_reports_witness:
  "\<exists>reports. CheckAttackInTx sample_leak sample_extractor = Some reports \<and>
     (\<forall>(user, token, totalDeposit, totalWithdraw, block, index) \<in> set reports. mhas sample_leak user)"
  using CheckAttackInTx_reports [of sample_leak sample_extractor] by fastforce

end
