(* ===== verification/Access_List.thy ===== *)
theory Access_List
  imports Common_Types
begin

text \<open>
  The access list of a transaction (\<open>core/state/access_list.go\<close>): addresses with an index into a
  slice of slot sets, \<open>-1\<close> for an address without slots. Entries are taken out again only by the
  journal, in the reverse order of their insertion. The theory shows that the list is a set of
  addresses and of pairs of an address and a slot, and that the two deletions undo the two
  insertions exactly.
\<close>

section \<open>The list\<close>

record accessList =
  al_addresses :: "(Address, int) gomap"
  al_slots :: "(Hash, unit) gomap list"

definition newAccessList :: accessList where
  "newAccessList = \<lparr>al_addresses = [], al_slots = []\<rparr>"

definition ContainsAddress :: "accessList \<Rightarrow> Address \<Rightarrow> bool" where
  "ContainsAddress al address \<longleftrightarrow> mhas (al_addresses al) address"

text \<open>An index into the slice panics when it is negative or too large.\<close>

definition slot_index :: "'a list \<Rightarrow> int \<Rightarrow> 'a go" where
  "slot_index xs i = (if i < 0 then Inl IndexOutOfRange else go_index xs (nat i))"

definition AL_Contains :: "accessList \<Rightarrow> Address \<Rightarrow> Hash \<Rightarrow> (bool \<times> bool) go" where
  "AL_Contains al address slot =
     (case map_of (al_addresses al) address of
        None \<Rightarrow> Inr (False, False)
      | Some idx \<Rightarrow>
          if idx = -1 then Inr (True, False)
          else go_bind (slot_index (al_slots al) idx) (\<lambda>slotmap. Inr (True, mhas slotmap slot)))"

definition AL_Copy :: "accessList \<Rightarrow> accessList" where
  "AL_Copy a =
     \<lparr>al_addresses = fold (\<lambda>(k, v). mput k v) (al_addresses a) [],
      al_slots = map (\<lambda>slotMap. fold (\<lambda>(k, _). mput k ()) slotMap []) (al_slots a)\<rparr>"

definition AddAddress :: "Address \<Rightarrow> accessList \<Rightarrow> bool \<times> accessList" where
  "AddAddress address al =
     (if mhas (al_addresses al) address then (False, al)
      else (True, al\<lparr>al_addresses := mput address (-1) (al_addresses al)\<rparr>))"

definition AddSlot :: "Address \<Rightarrow> Hash \<Rightarrow> accessList \<Rightarrow> ((bool \<times> bool) \<times> accessList) go" where
  "AddSlot address slot al =
     (let addrPresent = mhas (al_addresses al) address; idx = mget 0 (al_addresses al) address
      in if \<not> addrPresent \<or> idx = -1
         then Inr ((\<not> addrPresent, True),
                al\<lparr>al_addresses := mput address (int (length (al_slots al))) (al_addresses al),
                   al_slots := al_slots al @ [[(slot, ())]]\<rparr>)
         else go_bind (slot_index (al_slots al) idx) (\<lambda>slotmap.
                if \<not> mhas slotmap slot
                then Inr ((False, True), al\<lparr>al_slots := (al_slots al)[nat idx := mput slot () slotmap]\<rparr>)
                else Inr ((False, False), al)))"

definition DeleteSlot :: "Address \<Rightarrow> Hash \<Rightarrow> accessList \<Rightarrow> accessList go" where
  "DeleteSlot address slot al =
     (case map_of (al_addresses al) address of
        None \<Rightarrow> Inl (ExplicitPanic ''reverting slot change, address not present in list'')
      | Some idx \<Rightarrow>
          go_bind (slot_index (al_slots al) idx) (\<lambda>slotmap.
            let slotmap = AList.delete slot slotmap; sl = (al_slots al)[nat idx := slotmap]
            in if length slotmap = 0
               then Inr (al\<lparr>al_slots := take (nat idx) sl, al_addresses := mput address (-1) (al_addresses al)\<rparr>)
               else Inr (al\<lparr>al_slots := sl\<rparr>)))"

definition DeleteAddress :: "Address \<Rightarrow> accessList \<Rightarrow> accessList" where
  "DeleteAddress address al = al\<lparr>al_addresses := AList.delete address (al_addresses al)\<rparr>"

section \<open>Well-formed lists and what they mean\<close>

text \<open>Every index is \<open>-1\<close> or in range, and no two addresses share a slot set.\<close>

definition al_ok :: "accessList \<Rightarrow> bool" where
  "al_ok al \<longleftrightarrow>
     (\<forall>a i. map_of (al_addresses al) a = Some i \<longrightarrow> i = -1 \<or> 0 \<le> i \<and> nat i < length (al_slots al)) \<and>
     (\<forall>a b i. map_of (al_addresses al) a = Some i \<longrightarrow> map_of (al_addresses al) b = Some i \<longrightarrow> i \<noteq> -1 \<longrightarrow> a = b) \<and>
     (\<forall>sl \<in> set (al_slots al). sl \<noteq> [])"

definition has_slot :: "accessList \<Rightarrow> Address \<Rightarrow> Hash \<Rightarrow> bool" where
  "has_slot al a k \<longleftrightarrow>
     (case map_of (al_addresses al) a of
        None \<Rightarrow> False
      | Some i \<Rightarrow> i \<noteq> -1 \<and> mhas (al_slots al ! nat i) k)"

text \<open>The abstract list: addresses, and pairs of an address and a slot.\<close>

definition al_abs :: "accessList \<Rightarrow> Address set \<times> (Address \<times> Hash) set" where
  "al_abs al = (set (mkeys (al_addresses al)), {(a, k). has_slot al a k})"

lemma al_ok_new: "al_ok newAccessList"
  by (simp add: al_ok_def newAccessList_def)

lemma al_okD:
  assumes "al_ok al" and "map_of (al_addresses al) a = Some i" and "i \<noteq> -1"
  shows "0 \<le> i" "nat i < length (al_slots al)" "slot_index (al_slots al) i = Inr (al_slots al ! nat i)"
proof -
  show b: "0 \<le> i" "nat i < length (al_slots al)" using assms unfolding al_ok_def by blast+
  then show "slot_index (al_slots al) i = Inr (al_slots al ! nat i)" by (simp add: slot_index_def go_index_def)
qed

lemma mhas_map_of: "mhas m k \<longleftrightarrow> map_of m k \<noteq> None"
  by (simp add: mhas_def split: option.splits)

lemma map_of_mput: "map_of (mput k v m) = (map_of m)(k \<mapsto> v)"
  by (rule update_conv')

lemma delete_mput_absent: "\<not> mhas m k \<Longrightarrow> AList.delete k (mput k v m) = m"
  by (induction m) (auto simp: mhas_iff AList.delete_eq)

lemma mput_same: "map_of m k = Some v \<Longrightarrow> mput k v m = m"
  by (induction m) (auto split: if_splits)

lemma mput_mput: "mput k v (mput k w m) = mput k v m"
  by (induction m) auto

section \<open>Insertions\<close>

lemma AL_Contains_abs:
  assumes "al_ok al"
  shows "AL_Contains al a k = Inr (a \<in> fst (al_abs al), (a, k) \<in> snd (al_abs al))"
proof (cases "map_of (al_addresses al) a")
  case (Some i)
  then have "a \<in> set (mkeys (al_addresses al))" using mhas_iff [of "al_addresses al" a] by (simp add: mhas_map_of)
  with Some al_okD [OF assms Some] show ?thesis
    by (auto simp: AL_Contains_def al_abs_def has_slot_def)
next
  case None
  then have "a \<notin> set (mkeys (al_addresses al))" using mhas_iff [of "al_addresses al" a] by (simp add: mhas_map_of)
  with None show ?thesis by (simp add: AL_Contains_def al_abs_def has_slot_def)
qed

lemma AddAddress_abs:
  assumes "al_ok al" and "AddAddress a al = (changed, al')"
  shows "al_ok al'" "al_abs al' = (insert a (fst (al_abs al)), snd (al_abs al))"
    "changed \<longleftrightarrow> a \<notin> fst (al_abs al)" "changed \<Longrightarrow> DeleteAddress a al' = al" "\<not> changed \<Longrightarrow> al' = al"
proof -
  have "al_ok al' \<and> al_abs al' = (insert a (fst (al_abs al)), snd (al_abs al)) \<and>
    (changed \<longleftrightarrow> a \<notin> fst (al_abs al)) \<and> (changed \<longrightarrow> DeleteAddress a al' = al) \<and> (\<not> changed \<longrightarrow> al' = al)"
  proof (cases "mhas (al_addresses al) a")
    case True
    with assms show ?thesis
      by (auto simp: AddAddress_def al_abs_def mhas_iff)
  next
    case False
    then have e: "changed" "al' = al\<lparr>al_addresses := mput a (-1) (al_addresses al)\<rparr>"
      using assms(2) by (auto simp: AddAddress_def)
    have n: "map_of (al_addresses al) a = None" using False by (simp add: mhas_map_of)
    have "al_ok al'" using assms(1) unfolding al_ok_def e by (auto simp: map_of_mput)
    moreover have "has_slot al' b k \<longleftrightarrow> has_slot al b k" for b k
      using n by (simp add: has_slot_def e map_of_mput split: option.split)
    moreover have "a \<notin> set (mkeys (al_addresses al))" using False by (simp add: mhas_iff)
    ultimately show ?thesis
      using False by (simp add: al_abs_def e DeleteAddress_def delete_mput_absent set_mkeys_mput del: set_map)
  qed
  then show "al_ok al'" "al_abs al' = (insert a (fst (al_abs al)), snd (al_abs al))"
    "changed \<longleftrightarrow> a \<notin> fst (al_abs al)" "changed \<Longrightarrow> DeleteAddress a al' = al" "\<not> changed \<Longrightarrow> al' = al"
    by blast+
qed

text \<open>A new slot set for an address that had none.\<close>

lemma AddSlot_fresh:
  assumes "al_ok al" and "map_of (al_addresses al) a = None \<or> map_of (al_addresses al) a = Some (-1)"
    and "al' = al\<lparr>al_addresses := mput a (int (length (al_slots al))) (al_addresses al),
                  al_slots := al_slots al @ [[(k, ())]]\<rparr>"
  shows "al_ok al'" "al_abs al' = (insert a (fst (al_abs al)), insert (a, k) (snd (al_abs al)))"
    "DeleteSlot a k al' = Inr (al\<lparr>al_addresses := mput a (-1) (al_addresses al)\<rparr>)"
proof -
  have range: "nat i < length (al_slots al)" "0 \<le> i" if "map_of (al_addresses al) b = Some i" "i \<noteq> -1" for b i
    using al_okD [OF assms(1) that] by simp_all
  have inj: "b = c" if "map_of (al_addresses al) b = Some i" "map_of (al_addresses al) c = Some i" "i \<noteq> -1" for b c i
    using assms(1) that unfolding al_ok_def by blast
  have look: "map_of (al_addresses al') b =
      (if b = a then Some (int (length (al_slots al))) else map_of (al_addresses al) b)" for b
    by (simp add: assms(3) map_of_mput)
  have slots': "al_slots al' = al_slots al @ [[(k, ())]]" by (simp add: assms(3))
  have fresh: "map_of (al_addresses al) b \<noteq> Some (int (length (al_slots al)))" for b
    using range [of b "int (length (al_slots al))"] by auto
  show "al_ok al'"
    unfolding al_ok_def
  proof (intro conjI allI impI)
    fix b i assume "map_of (al_addresses al') b = Some i"
    then show "i = -1 \<or> 0 \<le> i \<and> nat i < length (al_slots al')"
      using range [of b i] by (cases "i = -1") (auto simp: look slots' split: if_splits)
  next
    fix b c i assume "map_of (al_addresses al') b = Some i" "map_of (al_addresses al') c = Some i" "i \<noteq> -1"
    then show "b = c" using inj [of b i c] fresh by (auto simp: look split: if_splits)
  next
    show "\<forall>sl \<in> set (al_slots al'). sl \<noteq> []" using assms(1) by (auto simp: al_ok_def slots')
  qed
  have "has_slot al' b h \<longleftrightarrow> b = a \<and> h = k \<or> has_slot al b h" for b h
  proof (cases "b = a")
    case True
    have "\<not> has_slot al a h" using assms(2) by (auto simp: has_slot_def)
    moreover have "has_slot al' a h \<longleftrightarrow> h = k"
      by (simp add: has_slot_def look slots' mhas_def nth_append)
    ultimately show ?thesis using True by simp
  next
    case False
    show ?thesis
      using False range [of b] by (auto simp: has_slot_def look slots' nth_append split: option.splits)
  qed
  then show "al_abs al' = (insert a (fst (al_abs al)), insert (a, k) (snd (al_abs al)))"
    by (auto simp: al_abs_def assms(3) set_mkeys_mput simp del: set_map)
  have "slot_index (al_slots al') (int (length (al_slots al))) = Inr [(k, ())]"
    by (simp add: slot_index_def go_index_def assms(3) nth_append)
  then show "DeleteSlot a k al' = Inr (al\<lparr>al_addresses := mput a (-1) (al_addresses al)\<rparr>)"
    by (simp add: DeleteSlot_def look) (simp add: assms(3) mput_mput AList.delete_eq)
qed

text \<open>One more slot for an address that has some.\<close>

lemma AddSlot_more:
  assumes "al_ok al" and "map_of (al_addresses al) a = Some i" and "i \<noteq> -1" and "\<not> mhas (al_slots al ! nat i) k"
    and "al' = al\<lparr>al_slots := (al_slots al)[nat i := mput k () (al_slots al ! nat i)]\<rparr>"
  shows "al_ok al'" "al_abs al' = (insert a (fst (al_abs al)), insert (a, k) (snd (al_abs al)))"
    "DeleteSlot a k al' = Inr al"
proof -
  note i = al_okD [OF assms(1-3)]
  have nonempty: "al_slots al ! nat i \<noteq> []" using assms(1) i(2) by (auto simp: al_ok_def)
  have "mput k () (al_slots al ! nat i) \<noteq> []" by (cases "al_slots al ! nat i") auto
  moreover have "set (al_slots al') \<subseteq> insert (mput k () (al_slots al ! nat i)) (set (al_slots al))"
    using set_update_subset_insert by (simp add: assms(5))
  moreover have "\<forall>sl \<in> set (al_slots al). sl \<noteq> []" using assms(1) by (simp add: al_ok_def)
  ultimately have "sl \<noteq> []" if "sl \<in> set (al_slots al')" for sl using subsetD [OF _ that] by (metis insertE)
  then show "al_ok al'" using assms(1) unfolding al_ok_def by (simp add: assms(5))
  have "has_slot al' b h \<longleftrightarrow> b = a \<and> h = k \<or> has_slot al b h" for b h
  proof (cases "b = a")
    case True
    then show ?thesis using assms(2,3) i by (auto simp: has_slot_def assms(5) mhas_mput)
  next
    case False
    have "nat j \<noteq> nat i" if "map_of (al_addresses al) b = Some j" "j \<noteq> -1" for j
    proof
      assume "nat j = nat i"
      then have "j = i" using al_okD(1) [OF assms(1) that] i(1) by simp
      then show False using assms(1,2,3) that False unfolding al_ok_def by blast
    qed
    then show ?thesis using False by (auto simp: has_slot_def assms(5) split: option.splits)
  qed
  moreover have "a \<in> set (mkeys (al_addresses al))"
    using assms(2) mhas_iff [of "al_addresses al" a] by (simp add: mhas_map_of)
  ultimately show "al_abs al' = (insert a (fst (al_abs al)), insert (a, k) (snd (al_abs al)))"
    by (auto simp: al_abs_def assms(5) simp del: set_map)
  have "slot_index (al_slots al') i = Inr (mput k () (al_slots al ! nat i))"
    using i by (simp add: slot_index_def go_index_def assms(5))
  then show "DeleteSlot a k al' = Inr al"
    using nonempty assms(2,4) by (simp add: DeleteSlot_def assms(5) delete_mput_absent)
qed

lemma AddSlot_abs:
  assumes "al_ok al"
  shows "\<exists>ac sc al'. AddSlot a k al = Inr ((ac, sc), al') \<and> al_ok al' \<and>
    al_abs al' = (insert a (fst (al_abs al)), insert (a, k) (snd (al_abs al))) \<and>
    (ac \<longleftrightarrow> a \<notin> fst (al_abs al)) \<and> (sc \<longleftrightarrow> (a, k) \<notin> snd (al_abs al)) \<and>
    (if sc then \<exists>d. DeleteSlot a k al' = Inr d \<and> (if ac then DeleteAddress a d else d) = al else \<not> ac \<and> al' = al)"
proof -
  consider (absent) "map_of (al_addresses al) a = None" | (bare) "map_of (al_addresses al) a = Some (-1)"
    | (slots) i where "map_of (al_addresses al) a = Some i" "i \<noteq> -1" by (cases "map_of (al_addresses al) a") auto
  then show ?thesis
  proof cases
    case absent
    then have "\<not> mhas (al_addresses al) a" by (simp add: mhas_map_of)
    moreover from this have "a \<notin> fst (al_abs al)" by (simp add: al_abs_def mhas_iff)
    moreover have "(a, k) \<notin> snd (al_abs al)" using absent by (simp add: al_abs_def has_slot_def)
    ultimately show ?thesis
      using AddSlot_fresh [OF assms disjI1 [OF absent] refl, of k]
      by (simp add: AddSlot_def DeleteAddress_def delete_mput_absent) blast
  next
    case bare
    then have "mhas (al_addresses al) a" "mget 0 (al_addresses al) a = -1" by (simp_all add: mhas_map_of mget_def)
    moreover from this(1) have "a \<in> fst (al_abs al)" by (simp add: al_abs_def mhas_iff)
    moreover have "(a, k) \<notin> snd (al_abs al)" using bare by (simp add: al_abs_def has_slot_def)
    ultimately show ?thesis
      using AddSlot_fresh [OF assms disjI2 [OF bare] refl, of k] mput_same [OF bare]
      by (simp add: AddSlot_def) blast
  next
    case (slots i)
    then have h: "mhas (al_addresses al) a" "mget 0 (al_addresses al) a = i" by (simp_all add: mhas_map_of mget_def)
    then have a: "a \<in> fst (al_abs al)" by (simp add: al_abs_def mhas_iff)
    have k: "(a, k) \<in> snd (al_abs al) \<longleftrightarrow> mhas (al_slots al ! nat i) k" using slots by (simp add: al_abs_def has_slot_def)
    note i = al_okD [OF assms slots]
    show ?thesis
    proof (cases "mhas (al_slots al ! nat i) k")
      case True
      then have "AddSlot a k al = Inr ((False, False), al)" using h slots(2) i(3) by (simp add: AddSlot_def)
      moreover have "al_abs al = (insert a (fst (al_abs al)), insert (a, k) (snd (al_abs al)))"
        using a k True by (simp add: insert_absorb)
      ultimately show ?thesis using a k True assms by simp blast
    next
      case False
      then show ?thesis
        using AddSlot_more [OF assms slots False refl] h slots(2) i(3) a k by (simp add: AddSlot_def) blast
    qed
  qed
qed

end
