(* ===== verification/Substate.thy ===== *)
theory Substate
  imports Common_Types
begin

text \<open>
  The recorded input and output of one transaction: \<open>research/substate.go\<close>, with the part of
  \<open>types.Message\<close>, \<open>types.Block\<close>, \<open>types.Receipt\<close> and \<open>types.Log\<close> it is made from. A \<open>uint64\<close> is a
  64-bit word, a \<open>*big.Int\<close> that may be nil an option. The \<open>Equal\<close> functions compare two
  recorded states field by field and map by map; a nil pointer on one side only is unequal,
  and \<open>big.Int.Cmp\<close> of nil with a number is a nil dereference.
\<close>

section \<open>Transactions, blocks and receipts\<close>

type_synonym AccessList = "(Address \<times> Hash list) list"

record Log =
  lg_Address :: Address
  lg_Topics :: "Hash list"
  lg_Data :: bytes
  lg_BlockNumber :: uint64
  lg_TxHash :: Hash
  lg_TxIndex :: nat
  lg_BlockHash :: Hash
  lg_Index :: nat
  lg_Removed :: bool

record Message =
  m_from :: Address
  m_to :: "Address option"
  m_nonce :: uint64
  m_amount :: int
  m_gasLimit :: uint64
  m_gasPrice :: int
  m_gasFeeCap :: int
  m_gasTipCap :: int
  m_data :: bytes
  m_accessList :: AccessList
  m_isFake :: bool

record Block =
  b_Coinbase :: Address
  b_Difficulty :: int
  b_GasLimit :: uint64
  b_Number :: uint64
  b_Time :: uint64
  b_BaseFee :: "int option"

record Receipt =
  rc_Status :: uint64
  rc_Bloom :: bytes
  rc_Logs :: "Log list"
  rc_ContractAddress :: Address
  rc_GasUsed :: uint64

section \<open>Accounts\<close>

record SubstateAccount =
  acc_Nonce :: uint64
  acc_Balance :: int
  acc_Storage :: "(Hash, Hash) gomap"
  acc_Code :: bytes

definition NewSubstateAccount :: "uint64 \<Rightarrow> int \<Rightarrow> bytes \<Rightarrow> SubstateAccount" where
  "NewSubstateAccount nonce balance code =
     \<lparr>acc_Nonce = nonce, acc_Balance = balance, acc_Storage = [], acc_Code = code\<rparr>"

definition SubstateAccount_EqualState :: "SubstateAccount option \<Rightarrow> SubstateAccount option \<Rightarrow> bool" where
  "SubstateAccount_EqualState x y =
     (case (x, y) of
        (None, None) \<Rightarrow> True
      | (Some x, Some y) \<Rightarrow>
          list_all (\<lambda>(k, xv). case map_of (acc_Storage y) k of None \<Rightarrow> True | Some yv \<Rightarrow> xv = yv) (acc_Storage x)
      | _ \<Rightarrow> False)"

text \<open>The comparison of two maps that every \<open>Equal\<close> repeats: the same length, and every entry of one in the other.\<close>

definition map_Equal :: "('v \<Rightarrow> 'w \<Rightarrow> bool) \<Rightarrow> ('k, 'v) gomap \<Rightarrow> ('k, 'w) gomap \<Rightarrow> bool" where
  "map_Equal eq x y \<longleftrightarrow>
     length x = length y \<and> list_all (\<lambda>(k, xv). case map_of y k of None \<Rightarrow> False | Some yv \<Rightarrow> eq xv yv) x"

definition SubstateAccount_Equal :: "SubstateAccount option \<Rightarrow> SubstateAccount option \<Rightarrow> bool" where
  "SubstateAccount_Equal x y =
     (case (x, y) of
        (None, None) \<Rightarrow> True
      | (Some x, Some y) \<Rightarrow>
          acc_Nonce x = acc_Nonce y \<and> acc_Balance x = acc_Balance y \<and> acc_Code x = acc_Code y
            \<and> map_Equal (=) (acc_Storage x) (acc_Storage y)
      | _ \<Rightarrow> False)"

definition SubstateAccount_Copy :: "SubstateAccount \<Rightarrow> SubstateAccount" where
  "SubstateAccount_Copy sa =
     (NewSubstateAccount (acc_Nonce sa) (acc_Balance sa) (acc_Code sa))
       \<lparr>acc_Storage := fold (\<lambda>(k, v). mput k v) (acc_Storage sa) []\<rparr>"

definition SubstateAccount_CodeHash :: "(bytes \<Rightarrow> Hash) \<Rightarrow> SubstateAccount \<Rightarrow> Hash" where
  "SubstateAccount_CodeHash keccak sa = keccak (acc_Code sa)"

type_synonym SubstateAlloc = "(Address, SubstateAccount option) gomap"

text \<open>The first address at which two allocations differ in storage, or none.\<close>

fun SubstateAlloc_EqualState :: "SubstateAlloc \<Rightarrow> SubstateAlloc \<Rightarrow> Address option" where
  "SubstateAlloc_EqualState [] y = None"
| "SubstateAlloc_EqualState ((k, xv) # x) y =
     (case map_of y k of
        None \<Rightarrow> Some k
      | Some yv \<Rightarrow> if SubstateAccount_EqualState xv yv then SubstateAlloc_EqualState x y else Some k)"

definition SubstateAlloc_Equal :: "SubstateAlloc \<Rightarrow> SubstateAlloc \<Rightarrow> bool" where
  "SubstateAlloc_Equal x y = map_Equal SubstateAccount_Equal x y"

definition SubstateAlloc_Copy :: "SubstateAlloc \<Rightarrow> SubstateAlloc go" where
  "SubstateAlloc_Copy sa =
     go_fold (\<lambda>(addr, account) m.
         case account of
           None \<Rightarrow> Inl NilDereference
         | Some account \<Rightarrow> Inr (mput addr (Some (SubstateAccount_Copy account)) m)) sa []"

section \<open>Block environment\<close>

record SubstateEnv =
  env_Coinbase :: Address
  env_Difficulty :: int
  env_GasLimit :: uint64
  env_Number :: uint64
  env_Timestamp :: uint64
  env_BlockHashes :: "(uint64, Hash) gomap"
  env_BaseFee :: "int option"

definition NewSubstateEnv :: "Block \<Rightarrow> (uint64, Hash) gomap \<Rightarrow> SubstateEnv" where
  "NewSubstateEnv b blockHashes =
     \<lparr>env_Coinbase = b_Coinbase b, env_Difficulty = b_Difficulty b, env_GasLimit = b_GasLimit b,
      env_Number = b_Number b, env_Timestamp = b_Time b,
      env_BlockHashes = fold (\<lambda>(num64, bhash). mput num64 bhash) blockHashes [],
      env_BaseFee = b_BaseFee b\<rparr>"

text \<open>\<open>x.Cmp(y) == 0\<close> on \<open>*big.Int\<close>: the same pointer, nil included, compares equal.\<close>

definition big_Cmp_eq :: "int option \<Rightarrow> int option \<Rightarrow> bool go" where
  "big_Cmp_eq x y =
     (case (x, y) of
        (None, None) \<Rightarrow> Inr True
      | (Some a, Some b) \<Rightarrow> Inr (a = b)
      | _ \<Rightarrow> Inl NilDereference)"

definition SubstateEnv_Equal :: "SubstateEnv \<Rightarrow> SubstateEnv \<Rightarrow> bool go" where
  "SubstateEnv_Equal x y =
     (if env_Coinbase x = env_Coinbase y \<and> env_Difficulty x = env_Difficulty y \<and> env_GasLimit x = env_GasLimit y
         \<and> env_Number x = env_Number y \<and> env_Timestamp x = env_Timestamp y
         \<and> length (env_BlockHashes x) = length (env_BlockHashes y)
      then go_bind (big_Cmp_eq (env_BaseFee x) (env_BaseFee y)) (\<lambda>eq.
             Inr (eq \<and> map_Equal (=) (env_BlockHashes x) (env_BlockHashes y)))
      else Inr False)"

section \<open>Messages\<close>

record SubstateMessage =
  msg_Nonce :: uint64
  msg_CheckNonce :: bool
  msg_GasPrice :: int
  msg_Gas :: uint64
  msg_From :: Address
  msg_To :: "Address option"
  msg_Value :: int
  msg_Data :: bytes
  msg_dataHash :: "Hash option"
  msg_AccessList :: AccessList
  msg_GasFeeCap :: int
  msg_GasTipCap :: int

definition NewSubstateMessage :: "Message \<Rightarrow> SubstateMessage" where
  "NewSubstateMessage msg =
     \<lparr>msg_Nonce = m_nonce msg, msg_CheckNonce = (\<not> m_isFake msg), msg_GasPrice = m_gasPrice msg, msg_Gas = m_gasLimit msg,
      msg_From = m_from msg, msg_To = m_to msg, msg_Value = m_amount msg, msg_Data = m_data msg, msg_dataHash = None,
      msg_AccessList = m_accessList msg, msg_GasFeeCap = m_gasFeeCap msg, msg_GasTipCap = m_gasTipCap msg\<rparr>"

definition SubstateMessage_Equal :: "SubstateMessage \<Rightarrow> SubstateMessage \<Rightarrow> bool" where
  "SubstateMessage_Equal x y \<longleftrightarrow>
     msg_Nonce x = msg_Nonce y \<and> msg_CheckNonce x = msg_CheckNonce y \<and> msg_GasPrice x = msg_GasPrice y
       \<and> msg_Gas x = msg_Gas y \<and> msg_From x = msg_From y
       \<and> (case (msg_To x, msg_To y) of (None, None) \<Rightarrow> True | (Some a, Some b) \<Rightarrow> a = b | _ \<Rightarrow> False)
       \<and> msg_Value x = msg_Value y \<and> msg_Data x = msg_Data y
       \<and> length (msg_AccessList x) = length (msg_AccessList y)
       \<and> msg_GasFeeCap x = msg_GasFeeCap y \<and> msg_GasTipCap x = msg_GasTipCap y
       \<and> list_all2 (\<lambda>xa ya. fst xa = fst ya \<and> length (snd xa) = length (snd ya) \<and> list_all2 (=) (snd xa) (snd ya))
           (msg_AccessList x) (msg_AccessList y)"

definition DataHash :: "(bytes \<Rightarrow> Hash) \<Rightarrow> SubstateMessage \<Rightarrow> Hash \<times> SubstateMessage" where
  "DataHash keccak msg =
     (case msg_dataHash msg of
        Some h \<Rightarrow> (h, msg)
      | None \<Rightarrow> (keccak (msg_Data msg), msg\<lparr>msg_dataHash := Some (keccak (msg_Data msg))\<rparr>))"

definition AsMessage :: "SubstateMessage \<Rightarrow> Message" where
  "AsMessage msg =
     \<lparr>m_from = msg_From msg, m_to = msg_To msg, m_nonce = msg_Nonce msg, m_amount = msg_Value msg,
      m_gasLimit = msg_Gas msg, m_gasPrice = msg_GasPrice msg, m_gasFeeCap = msg_GasFeeCap msg,
      m_gasTipCap = msg_GasTipCap msg, m_data = msg_Data msg, m_accessList = msg_AccessList msg,
      m_isFake = (\<not> msg_CheckNonce msg)\<rparr>"

section \<open>Results\<close>

record SubstateResult =
  res_Status :: uint64
  res_Bloom :: bytes
  res_Logs :: "Log list"
  res_ContractAddress :: Address
  res_GasUsed :: uint64

definition NewSubstateResult :: "Receipt \<Rightarrow> SubstateResult" where
  "NewSubstateResult receipt =
     \<lparr>res_Status = rc_Status receipt, res_Bloom = rc_Bloom receipt, res_Logs = rc_Logs receipt,
      res_ContractAddress = rc_ContractAddress receipt, res_GasUsed = rc_GasUsed receipt\<rparr>"

definition results_Equal :: "(Log \<Rightarrow> Log \<Rightarrow> bool) \<Rightarrow> SubstateResult \<Rightarrow> SubstateResult \<Rightarrow> bool" where
  "results_Equal log_eq x y \<longleftrightarrow>
     res_Status x = res_Status y \<and> res_Bloom x = res_Bloom y \<and> length (res_Logs x) = length (res_Logs y)
       \<and> res_ContractAddress x = res_ContractAddress y \<and> res_GasUsed x = res_GasUsed y
       \<and> list_all2 log_eq (res_Logs x) (res_Logs y)"

definition SubstateResult_EqualState :: "SubstateResult \<Rightarrow> SubstateResult \<Rightarrow> bool" where
  "SubstateResult_EqualState =
     results_Equal (\<lambda>xl yl. lg_Address xl = lg_Address yl \<and> list_all2 (=) (lg_Topics xl) (lg_Topics yl))"

definition SubstateResult_Equal :: "SubstateResult \<Rightarrow> SubstateResult \<Rightarrow> bool" where
  "SubstateResult_Equal =
     results_Equal (\<lambda>xl yl. lg_Address xl = lg_Address yl \<and> list_all2 (=) (lg_Topics xl) (lg_Topics yl)
       \<and> lg_Data xl = lg_Data yl)"

section \<open>Substates\<close>

record Substate =
  InputAlloc :: SubstateAlloc
  OutputAlloc :: SubstateAlloc
  Env :: SubstateEnv
  ss_Message :: SubstateMessage
  Result :: SubstateResult

definition NewSubstate ::
    "SubstateAlloc \<Rightarrow> SubstateAlloc \<Rightarrow> SubstateEnv \<Rightarrow> SubstateMessage \<Rightarrow> SubstateResult \<Rightarrow> Substate" where
  "NewSubstate inputAlloc outputAlloc env message result =
     \<lparr>InputAlloc = inputAlloc, OutputAlloc = outputAlloc, Env = env, ss_Message = message, Result = result\<rparr>"

definition Substate_Equal :: "Substate \<Rightarrow> Substate \<Rightarrow> bool go" where
  "Substate_Equal x y =
     (if SubstateAlloc_Equal (InputAlloc x) (InputAlloc y) \<and> SubstateAlloc_Equal (OutputAlloc x) (OutputAlloc y)
      then go_bind (SubstateEnv_Equal (Env x) (Env y)) (\<lambda>eq.
             Inr (eq \<and> SubstateMessage_Equal (ss_Message x) (ss_Message y) \<and> SubstateResult_Equal (Result x) (Result y)))
      else Inr False)"

section \<open>What the comparisons compare\<close>

text \<open>
  The contents of a recorded state: maps as functions of their keys, the message without its
  memoised hash, the logs with the fields a node does not derive.
\<close>

definition account_view :: "SubstateAccount \<Rightarrow> uint64 \<times> int \<times> bytes \<times> (Hash \<rightharpoonup> Hash)" where
  "account_view a = (acc_Nonce a, acc_Balance a, acc_Code a, map_of (acc_Storage a))"

definition alloc_view :: "SubstateAlloc \<Rightarrow> Address \<Rightarrow> (uint64 \<times> int \<times> bytes \<times> (Hash \<rightharpoonup> Hash)) option option" where
  "alloc_view sa addr = map_option (map_option account_view) (map_of sa addr)"

definition env_view where
  "env_view e = (env_Coinbase e, env_Difficulty e, env_GasLimit e, env_Number e, env_Timestamp e,
     map_of (env_BlockHashes e), env_BaseFee e)"

definition msg_view :: "SubstateMessage \<Rightarrow> SubstateMessage" where
  "msg_view m = m\<lparr>msg_dataHash := None\<rparr>"

definition log_view :: "Log \<Rightarrow> Address \<times> Hash list \<times> bytes" where
  "log_view l = (lg_Address l, lg_Topics l, lg_Data l)"

definition res_view where
  "res_view r = (res_Status r, res_Bloom r, map log_view (res_Logs r), res_ContractAddress r, res_GasUsed r)"

definition substate_view where
  "substate_view s = (alloc_view (InputAlloc s), alloc_view (OutputAlloc s), env_view (Env s),
     msg_view (ss_Message s), res_view (Result s))"

definition alloc_ok :: "SubstateAlloc \<Rightarrow> bool" where
  "alloc_ok sa \<longleftrightarrow> gomap_ok sa \<and> list_all (\<lambda>(_, a). case a of None \<Rightarrow> True | Some a \<Rightarrow> gomap_ok (acc_Storage a)) sa"

definition substate_ok :: "Substate \<Rightarrow> bool" where
  "substate_ok s \<longleftrightarrow> alloc_ok (InputAlloc s) \<and> alloc_ok (OutputAlloc s) \<and> gomap_ok (env_BlockHashes (Env s))"

lemma map_Equal_iff:
  assumes "gomap_ok x" and "gomap_ok y"
  shows "map_Equal eq x y \<longleftrightarrow> (\<forall>k. rel_option eq (map_of x k) (map_of y k))"
proof
  assume eq: "map_Equal eq x y"
  have sub: "\<exists>yv. map_of y k = Some yv \<and> eq xv yv" if "map_of x k = Some xv" for k xv
    using eq map_of_SomeD [OF that] by (fastforce simp: map_Equal_def list_all_iff split: option.splits)
  have "set (mkeys x) \<subseteq> set (mkeys y)"
    using sub by (metis map_of_eq_None_iff option.distinct(1) option.exhaust subsetI set_map)
  moreover have "card (set (mkeys x)) = card (set (mkeys y))"
    using assms eq by (simp add: gomap_ok_def distinct_card map_Equal_def del: set_map)
  ultimately have keys: "set (mkeys x) = set (mkeys y)" by (simp add: card_subset_eq)
  show "\<forall>k. rel_option eq (map_of x k) (map_of y k)"
  proof
    fix k
    show "rel_option eq (map_of x k) (map_of y k)"
    proof (cases "map_of x k")
      case None
      then have "map_of y k = None" using keys by (simp add: map_of_eq_None_iff)
      with None show ?thesis by simp
    next
      case (Some xv)
      then show ?thesis using sub by fastforce
    qed
  qed
next
  assume rel: "\<forall>k. rel_option eq (map_of x k) (map_of y k)"
  have "map_of x k = None \<longleftrightarrow> map_of y k = None" for k using rel by (metis option.rel_distinct(1,2) option.exhaust)
  then have "set (mkeys x) = set (mkeys y)" by (auto simp: map_of_eq_None_iff)
  then have "length x = length y"
    using assms by (metis distinct_card gomap_ok_def length_map)
  moreover have "case map_of y k of None \<Rightarrow> False | Some yv \<Rightarrow> eq xv yv" if "(k, xv) \<in> set x" for k xv
  proof -
    have "map_of x k = Some xv" using that assms(1) by (simp add: gomap_ok_def)
    then show ?thesis using rel by (metis option.rel_cases option.simps(5) option.inject option.distinct(1))
  qed
  ultimately show "map_Equal eq x y" by (auto simp: map_Equal_def list_all_iff)
qed

lemma rel_option_eq_iff: "(\<forall>k. rel_option (=) (f k) (g k)) \<longleftrightarrow> f = g"
  by (auto simp: option.rel_eq)

lemma account_Equal_iff:
  assumes "case x of None \<Rightarrow> True | Some a \<Rightarrow> gomap_ok (acc_Storage a)" and "case y of None \<Rightarrow> True | Some a \<Rightarrow> gomap_ok (acc_Storage a)"
  shows "SubstateAccount_Equal x y \<longleftrightarrow> map_option account_view x = map_option account_view y"
  using assms
  by (cases x; cases y) (auto simp: SubstateAccount_Equal_def account_view_def map_Equal_iff rel_option_eq_iff)

lemma alloc_Equal_iff:
  assumes "alloc_ok x" and "alloc_ok y"
  shows "SubstateAlloc_Equal x y \<longleftrightarrow> alloc_view x = alloc_view y"
proof -
  have ok: "case a of None \<Rightarrow> True | Some a \<Rightarrow> gomap_ok (acc_Storage a)" if "alloc_ok z" "map_of z k = Some a" for z k a
    using that map_of_SomeD [OF that(2)] by (fastforce simp: alloc_ok_def list_all_iff)
  have "rel_option SubstateAccount_Equal (map_of x k) (map_of y k)
      \<longleftrightarrow> map_option (map_option account_view) (map_of x k) = map_option (map_option account_view) (map_of y k)" for k
    using account_Equal_iff ok [OF assms(1)] ok [OF assms(2)] by (cases "map_of x k"; cases "map_of y k") simp_all
  then show ?thesis
    using assms by (simp add: SubstateAlloc_Equal_def alloc_ok_def map_Equal_iff alloc_view_def fun_eq_iff)
qed

lemma msg_Equal_iff: "SubstateMessage_Equal x y \<longleftrightarrow> msg_view x = msg_view y"
proof -
  have "list_all2 (\<lambda>xa ya. fst xa = fst ya \<and> length (snd xa) = length (snd ya) \<and> list_all2 (=) (snd xa) (snd ya)) u v \<longleftrightarrow> u = v"
    for u v :: AccessList
  proof -
    have "(\<lambda>xa ya. fst xa = fst ya \<and> length (snd xa) = length (snd ya) \<and> list_all2 (=) (snd xa) (snd ya))
        = ((=) :: Address \<times> Hash list \<Rightarrow> Address \<times> Hash list \<Rightarrow> bool)"
      by (auto simp: fun_eq_iff list.rel_eq prod_eq_iff)
    then show ?thesis by (simp add: list.rel_eq)
  qed
  moreover have "(case (p, q) of (None, None) \<Rightarrow> True | (Some a, Some b) \<Rightarrow> a = b | _ \<Rightarrow> False) \<longleftrightarrow> p = q"
    for p q :: "Address option" by (cases p; cases q) simp_all
  ultimately show ?thesis by (cases x; cases y) (auto simp: SubstateMessage_Equal_def msg_view_def)
qed

lemma res_Equal_iff: "SubstateResult_Equal x y \<longleftrightarrow> res_view x = res_view y"
proof -
  have logs: "list_all2 (\<lambda>xl yl. lg_Address xl = lg_Address yl \<and> list_all2 (=) (lg_Topics xl) (lg_Topics yl) \<and> lg_Data xl = lg_Data yl) u v
      \<longleftrightarrow> map log_view u = map log_view v" for u v
    by (induction u v rule: list_induct2') (auto simp: log_view_def list.rel_eq)
  have len: "map log_view u = map log_view v \<Longrightarrow> length u = length v" for u v by (metis length_map)
  show ?thesis
    unfolding SubstateResult_Equal_def results_Equal_def res_view_def prod.inject logs
    using len [of "res_Logs x" "res_Logs y"] by blast
qed

lemma env_Equal_cases:
  assumes "gomap_ok (env_BlockHashes x)" and "gomap_ok (env_BlockHashes y)"
  shows "SubstateEnv_Equal x y = Inr (env_view x = env_view y) \<or>
    SubstateEnv_Equal x y = Inl NilDereference \<and> (env_BaseFee x = None \<longleftrightarrow> env_BaseFee y \<noteq> None)"
proof -
  let ?m = "map_of (env_BlockHashes x) = map_of (env_BlockHashes y)"
  have e: "map_Equal (=) (env_BlockHashes x) (env_BlockHashes y) \<longleftrightarrow> ?m"
    using map_Equal_iff [OF assms, of "(=)"] by (simp only: rel_option_eq_iff)
  then have len: "?m \<Longrightarrow> length (env_BlockHashes x) = length (env_BlockHashes y)" by (simp add: map_Equal_def)
  consider "env_BaseFee x = None \<longleftrightarrow> env_BaseFee y \<noteq> None"
    | "big_Cmp_eq (env_BaseFee x) (env_BaseFee y) = Inr (env_BaseFee x = env_BaseFee y)"
    by (cases "env_BaseFee x"; cases "env_BaseFee y") (simp_all add: big_Cmp_eq_def)
  then show ?thesis
  proof cases
    case 1
    then have "big_Cmp_eq (env_BaseFee x) (env_BaseFee y) = Inl NilDereference" and "env_view x \<noteq> env_view y"
      by (auto simp: big_Cmp_eq_def env_view_def split: option.splits)
    with 1 show ?thesis by (simp add: SubstateEnv_Equal_def)
  next
    case 2
    then have "SubstateEnv_Equal x y = Inr (env_view x = env_view y)"
      unfolding SubstateEnv_Equal_def env_view_def e prod.inject using len by auto
    then show ?thesis ..
  qed
qed

text \<open>
  C29: \<open>Substate.Equal\<close> decides equality of contents: for substates whose maps have no repeated
  keys and whose blocks agree on having a base fee, it returns true exactly when the two
  agree on every account, storage slot and block hash, whatever the order of the maps, on
  every message field but the memoised hash, and on the status, bloom, logs, contract address
  and gas of the result. When only one of the two has a base fee, the comparison never
  reports equality.
\<close>

theorem Substate_Equal_exact:
  assumes "substate_ok x" and "substate_ok y"
  shows "((env_BaseFee (Env x) = None \<longleftrightarrow> env_BaseFee (Env y) = None) \<longrightarrow>
            Substate_Equal x y = Inr (substate_view x = substate_view y)) \<and>
         (Substate_Equal x y = Inr True \<longrightarrow> substate_view x = substate_view y)"
proof -
  have allocs: "SubstateAlloc_Equal (InputAlloc x) (InputAlloc y) \<longleftrightarrow> alloc_view (InputAlloc x) = alloc_view (InputAlloc y)"
      "SubstateAlloc_Equal (OutputAlloc x) (OutputAlloc y) \<longleftrightarrow> alloc_view (OutputAlloc x) = alloc_view (OutputAlloc y)"
    using assms alloc_Equal_iff by (simp_all add: substate_ok_def)
  have "SubstateEnv_Equal (Env x) (Env y) = Inr (env_view (Env x) = env_view (Env y)) \<or>
      SubstateEnv_Equal (Env x) (Env y) = Inl NilDereference \<and>
        (env_BaseFee (Env x) = None \<longleftrightarrow> env_BaseFee (Env y) \<noteq> None)"
    using assms by (intro env_Equal_cases) (simp_all add: substate_ok_def)
  then show ?thesis
    by (elim disjE)
       (auto simp: Substate_Equal_def substate_view_def allocs msg_Equal_iff res_Equal_iff)
qed

definition sample_account :: SubstateAccount where
  "sample_account = \<lparr>acc_Nonce = 1, acc_Balance = 10, acc_Storage = [(1, 2), (3, 4)], acc_Code = [96]\<rparr>"

definition sample_substate :: "(Hash, Hash) gomap \<Rightarrow> Substate" where
  "sample_substate st =
     NewSubstate [(7, Some (sample_account\<lparr>acc_Storage := st\<rparr>))] []
       (NewSubstateEnv \<lparr>b_Coinbase = 9, b_Difficulty = 0, b_GasLimit = 30, b_Number = 5, b_Time = 6, b_BaseFee = Some 3\<rparr> [(4, 11)])
       (NewSubstateMessage \<lparr>m_from = 7, m_to = Some 8, m_nonce = 1, m_amount = 2, m_gasLimit = 21, m_gasPrice = 3,
          m_gasFeeCap = 3, m_gasTipCap = 3, m_data = [1, 2], m_accessList = [], m_isFake = False\<rparr>)
       (NewSubstateResult \<lparr>rc_Status = 1, rc_Bloom = [], rc_Logs = [], rc_ContractAddress = 0, rc_GasUsed = 21\<rparr>)"

theorem Substate_Equal_exact_witness:
  "Substate_Equal (sample_substate [(1, 2), (3, 4)]) (sample_substate [(3, 4), (1, 2)]) = Inr True"
proof -
  let ?x = "sample_substate [(1, 2), (3, 4)]" and ?y = "sample_substate [(3, 4), (1, 2)]"
  have "substate_ok ?x" "substate_ok ?y" "env_BaseFee (Env ?x) = None \<longleftrightarrow> env_BaseFee (Env ?y) = None"
    by (simp_all add: sample_substate_def NewSubstate_def NewSubstateEnv_def substate_ok_def alloc_ok_def gomap_ok_def)
  moreover have "substate_view ?x = substate_view ?y"
    by (simp add: sample_substate_def NewSubstate_def substate_view_def alloc_view_def account_view_def fun_eq_iff)
  ultimately show ?thesis using Substate_Equal_exact [of ?x ?y] by simp
qed

lemma map_of_fold_mput_add: "gomap_ok xs \<Longrightarrow> map_of (fold (\<lambda>(k, v). mput k v) xs m) = map_of m ++ map_of xs"
proof (induction xs arbitrary: m)
  case (Cons x xs)
  obtain a b where x: "x = (a, b)" by (cases x)
  have ok: "gomap_ok xs" and "a \<notin> fst ` set xs" using Cons.prems x by (auto simp: gomap_ok_def)
  then have "map_of xs a = None" by (simp add: map_of_eq_None_iff)
  then have "map_of (mput a b m) ++ map_of xs = map_of m ++ map_of (x # xs)"
    by (auto simp: fun_eq_iff map_add_def update_conv' x split: option.splits)
  moreover have "fold (\<lambda>(k, v). mput k v) (x # xs) m = fold (\<lambda>(k, v). mput k v) xs (mput a b m)" by (simp add: x)
  ultimately show ?case using Cons.IH [OF ok, of "mput a b m"] by (simp only:)
qed simp

lemma gomap_ok_fold_mput: "gomap_ok m \<Longrightarrow> gomap_ok (fold (\<lambda>(k, v). mput k v) xs m)"
  by (induction xs arbitrary: m) auto

lemma Copy_account_view: "gomap_ok (acc_Storage a) \<Longrightarrow> account_view (SubstateAccount_Copy a) = account_view a"
  by (simp add: account_view_def SubstateAccount_Copy_def NewSubstateAccount_def map_of_fold_mput_add)

lemma Copy_alloc_aux:
  assumes "go_fold (\<lambda>(addr, account) m. case account of None \<Rightarrow> Inl NilDereference
      | Some account \<Rightarrow> Inr (mput addr (Some (SubstateAccount_Copy account)) m)) sa m = Inr c" and "alloc_ok sa"
  shows "alloc_view c = (\<lambda>addr. if map_of sa addr = None then alloc_view m addr else alloc_view sa addr)"
  using assms
proof (induction sa arbitrary: m)
  case (Cons x sa)
  obtain addr a where x: "x = (addr, Some a)"
    using Cons.prems(1) by (cases x) (auto split: option.splits)
  have ok: "alloc_ok sa" "gomap_ok (acc_Storage a)" "map_of sa addr = None"
    using Cons.prems(2) x by (auto simp: alloc_ok_def gomap_ok_def map_of_eq_None_iff)
  have "go_fold (\<lambda>(addr, account) m. case account of None \<Rightarrow> Inl NilDereference
      | Some account \<Rightarrow> Inr (mput addr (Some (SubstateAccount_Copy account)) m)) sa
      (mput addr (Some (SubstateAccount_Copy a)) m) = Inr c"
    using Cons.prems(1) x by simp
  from Cons.IH [OF this ok(1)] show ?case
    using ok(2,3) by (auto simp: fun_eq_iff alloc_view_def update_conv' x Copy_account_view)
qed (simp add: alloc_view_def fun_eq_iff)

text \<open>
  Copies and conversions keep the contents: a copied allocation has the contents of the
  original (a nil account panics instead), a message recorded from a transaction converts back
  to that transaction's message, and \<open>DataHash\<close> returns the hash of the data, the second time
  from the memo, without changing what the message compares by.
\<close>

theorem Copy_and_conversions:
  "(alloc_ok sa \<longrightarrow> SubstateAlloc_Copy sa = Inr c \<longrightarrow> alloc_view c = alloc_view sa) \<and>
   ((\<exists>addr. (addr, None) \<in> set sa) \<longrightarrow> SubstateAlloc_Copy sa = Inl NilDereference) \<and>
   AsMessage (NewSubstateMessage msg) = msg \<and>
   (let (h, m') = DataHash keccak (NewSubstateMessage msg)
    in h = keccak (m_data msg) \<and> DataHash keccak m' = (h, m') \<and> SubstateMessage_Equal m' (NewSubstateMessage msg))"
proof (intro conjI impI)
  show "alloc_view c = alloc_view sa" if "alloc_ok sa" "SubstateAlloc_Copy sa = Inr c"
    using Copy_alloc_aux [of sa "[]" c] that by (auto simp: SubstateAlloc_Copy_def fun_eq_iff alloc_view_def)
  have "(addr, None) \<in> set sa \<Longrightarrow> go_fold (\<lambda>(addr, account) m. case account of None \<Rightarrow> Inl NilDereference
      | Some account \<Rightarrow> Inr (mput addr (Some (SubstateAccount_Copy account)) m)) sa m = Inl NilDereference" for addr m
    by (induction sa arbitrary: m) (auto split: option.splits)
  then show "SubstateAlloc_Copy sa = Inl NilDereference" if "\<exists>addr. (addr, None) \<in> set sa"
    using that by (auto simp: SubstateAlloc_Copy_def)
  show "AsMessage (NewSubstateMessage msg) = msg"
    by (simp add: AsMessage_def NewSubstateMessage_def)
  show "let (h, m') = DataHash keccak (NewSubstateMessage msg)
    in h = keccak (m_data msg) \<and> DataHash keccak m' = (h, m') \<and> SubstateMessage_Equal m' (NewSubstateMessage msg)"
    by (simp add: DataHash_def NewSubstateMessage_def msg_Equal_iff msg_view_def)
qed

theorem Copy_and_conversions_witness:
  "\<exists>c. SubstateAlloc_Copy [(7, Some sample_account)] = Inr c \<and> alloc_view c = alloc_view [(7, Some sample_account)]"
proof -
  obtain c where "SubstateAlloc_Copy [(7, Some sample_account)] = Inr c" by (simp add: SubstateAlloc_Copy_def)
  moreover have "alloc_ok [(7, Some sample_account)]" by (simp add: alloc_ok_def gomap_ok_def sample_account_def)
  ultimately show ?thesis using Copy_and_conversions [of "[(7, Some sample_account)]" c] by blast
qed

end
