(* ===== verification/Rlp_Encode.thy ===== *)
theory Rlp_Encode
  imports Common_Types
begin

text \<open>
  The RLP writer, \<open>rlp/encode.go\<close>, and the slice functions of \<open>rlp/raw.go\<close>. A Go type that
  can be serialised is an \<open>rlp_type\<close> (what \<open>reflect\<close> and the struct tags say of it), a value
  of it an \<open>rlp_val\<close>; \<open>makeWriter\<close> builds the writer of a type out of the writers of its parts,
  as the source does. A writer appends to an \<open>encbuf\<close>, which keeps the list headers beside
  the string data; \<open>toBytes\<close> puts them together. The specification is the recursive encoding
  \<open>item_enc\<close> of strings and lists, and the theorems say that the buffered writer computes it
  and that the slice functions take it apart again.
\<close>

section \<open>Errors\<close>

datatype rlp_error =
    EOL
  | ErrExpectedString
  | ErrExpectedList
  | ErrCanonInt
  | ErrCanonSize
  | ErrElemTooLarge
  | ErrValueTooLarge
  | ErrMoreThanOneValue
  | errNotInList
  | errNotAtEOL
  | errUintOverflow
  | ErrUnexpectedEOF
  | io_EOF
  | errNegativeBigInt
  | decodeError string
  | errInvalidBool
  | reflectPanic
  | OutOfFuel

section \<open>Integers and headers\<close>

definition putint :: "uint64 \<Rightarrow> bytes" where
  "putint i =
     (if i < push_bit 8 1 then be_bytes 1 (unat i)
      else if i < push_bit 16 1 then be_bytes 2 (unat i)
      else if i < push_bit 24 1 then be_bytes 3 (unat i)
      else if i < push_bit 32 1 then be_bytes 4 (unat i)
      else if i < push_bit 40 1 then be_bytes 5 (unat i)
      else if i < push_bit 48 1 then be_bytes 6 (unat i)
      else if i < push_bit 56 1 then be_bytes 7 (unat i)
      else be_bytes 8 (unat i))"

function intsize :: "uint64 \<Rightarrow> nat" where
  "intsize i = (let i = drop_bit 8 i in if i = 0 then 1 else Suc (intsize i))"
  by auto

lemma unat_drop_bit_8: "unat (drop_bit 8 (i :: uint64)) = unat i div 256"
  by (simp add: drop_bit_eq_div unat_div)

termination intsize
proof (relation "measure unat")
  fix i x :: uint64
  assume x: "x = drop_bit 8 i" and "x \<noteq> 0"
  then have "unat x \<noteq> 0" by (simp only: unat_0_iff not_False_eq_True)
  moreover have "unat x = unat i div 256" unfolding x by (rule unat_drop_bit_8)
  ultimately show "(x, i) \<in> measure unat" by auto
qed simp

declare intsize.simps [simp del]

definition headsize :: "uint64 \<Rightarrow> nat" where
  "headsize n = (if n < 56 then 1 else 1 + intsize n)"

definition puthead :: "byte \<Rightarrow> byte \<Rightarrow> uint64 \<Rightarrow> bytes" where
  "puthead smalltag largetag n =
     (if n < 56 then [smalltag + of_nat (unat n)]
      else let b = putint n in (largetag + of_nat (length b)) # b)"

section \<open>The encoding buffer\<close>

record listhead =
  offset :: nat
  lh_size :: nat

definition listhead_encode :: "listhead \<Rightarrow> bytes" where
  "listhead_encode head = puthead 0xC0 0xF7 (of_nat (lh_size head))"

record encbuf =
  str :: bytes
  lheads :: "listhead list"
  lhsize :: nat

definition encbuf_reset :: encbuf where
  "encbuf_reset = \<lparr>str = [], lheads = [], lhsize = 0\<rparr>"

definition encbuf_Write :: "bytes \<Rightarrow> encbuf \<Rightarrow> encbuf" where
  "encbuf_Write b w = w\<lparr>str := str w @ b\<rparr>"

definition encodeStringHeader :: "nat \<Rightarrow> encbuf \<Rightarrow> encbuf" where
  "encodeStringHeader n w =
     (if n < 56 then w\<lparr>str := str w @ [0x80 + of_nat n]\<rparr>
      else let b = putint (of_nat n) in w\<lparr>str := str w @ (0xB7 + of_nat (length b)) # b\<rparr>)"

definition encodeString :: "bytes \<Rightarrow> encbuf \<Rightarrow> encbuf" where
  "encodeString b w =
     (if length b = 1 \<and> b ! 0 \<le> 0x7F then w\<lparr>str := str w @ [b ! 0]\<rparr>
      else let w = encodeStringHeader (length b) w in w\<lparr>str := str w @ b\<rparr>)"

definition encodeUint :: "uint64 \<Rightarrow> encbuf \<Rightarrow> encbuf" where
  "encodeUint i w =
     (if i = 0 then w\<lparr>str := str w @ [0x80]\<rparr>
      else if i < 128 then w\<lparr>str := str w @ [of_nat (unat i)]\<rparr>
      else let b = putint i in w\<lparr>str := str w @ (0x80 + of_nat (length b)) # b\<rparr>)"

definition encbuf_size :: "encbuf \<Rightarrow> nat" where
  "encbuf_size w = length (str w) + lhsize w"

definition encbuf_list :: "encbuf \<Rightarrow> nat \<times> encbuf" where
  "encbuf_list w =
     (length (lheads w), w\<lparr>lheads := lheads w @ [\<lparr>offset = length (str w), lh_size = lhsize w\<rparr>]\<rparr>)"

definition encbuf_listEnd :: "nat \<Rightarrow> encbuf \<Rightarrow> encbuf" where
  "encbuf_listEnd index w =
     (let lh = lheads w ! index;
          n = encbuf_size w - offset lh - lh_size lh
      in w\<lparr>lheads := (lheads w)[index := lh\<lparr>lh_size := n\<rparr>],
           lhsize := (if n < 56 then lhsize w + 1 else lhsize w + 1 + intsize (of_nat n))\<rparr>)"

text \<open>
  The loop of \<open>toBytes\<close> over the headers: the string data before each header, the header, and
  after the last one the rest of the data. The output slice has the size the buffer counted,
  so bytes beyond it are not copied and bytes never written stay zero.
\<close>

fun toBytes_loop :: "nat \<Rightarrow> listhead list \<Rightarrow> bytes \<Rightarrow> bytes" where
  "toBytes_loop strpos [] s = drop strpos s"
| "toBytes_loop strpos (head # heads) s =
     take (offset head - strpos) (drop strpos s) @ listhead_encode head
       @ toBytes_loop (strpos + (offset head - strpos)) heads s"

definition toBytes :: "encbuf \<Rightarrow> bytes" where
  "toBytes w =
     (let out = toBytes_loop 0 (lheads w) (str w)
      in take (encbuf_size w) (out @ replicate (encbuf_size w - length out) 0))"

section \<open>Types and values\<close>

datatype Kind = ByteK | StringK | ListK

datatype rlp_type =
    UintT nat
  | BoolT
  | BigIntT
  | BytesT
  | ByteArrayT nat
  | SliceT rlp_type
  | ArrayT nat rlp_type
  | StructT "rlp_type list"
  | PtrT rlp_type
  | NilPtrT Kind rlp_type

text \<open>The struct, slice or array with its parts in order; a pointer is its target or nil.\<close>

datatype rlp_val =
    UintV uint64
  | BoolV bool
  | BigV int
  | BytesV bytes
  | ListV "rlp_val list"
  | NilV

section \<open>Writers\<close>

type_synonym writer = "rlp_val \<Rightarrow> encbuf \<Rightarrow> rlp_error + encbuf"

definition writeUint :: writer where
  "writeUint v w = (case v of UintV i \<Rightarrow> Inr (encodeUint i w) | _ \<Rightarrow> Inl reflectPanic)"

definition writeBool :: writer where
  "writeBool v w =
     (case v of
        BoolV b \<Rightarrow> Inr (if b then w\<lparr>str := str w @ [0x01]\<rparr> else w\<lparr>str := str w @ [0x80]\<rparr>)
      | _ \<Rightarrow> Inl reflectPanic)"

text \<open>\<open>i.BitLen()\<close> of a non-negative number.\<close>

fun BitLen :: "nat \<Rightarrow> nat" where
  "BitLen n = (if n = 0 then 0 else Suc (BitLen (n div 2)))"

declare BitLen.simps [simp del]

definition writeBigInt :: "int \<Rightarrow> encbuf \<Rightarrow> rlp_error + encbuf" where
  "writeBigInt i w =
     (if i < 0 then Inl errNegativeBigInt
      else if BitLen (nat i) \<le> 64 then Inr (encodeUint (of_int i) w)
      else let len = (BitLen (nat i) + 7) div 8;
               w = encodeStringHeader len w
           in Inr (w\<lparr>str := str w @ be_bytes len (nat i)\<rparr>))"

definition writeBigIntPtr :: writer where
  "writeBigIntPtr v w =
     (case v of
        NilV \<Rightarrow> Inr (w\<lparr>str := str w @ [0x80]\<rparr>)
      | BigV i \<Rightarrow> writeBigInt i w
      | _ \<Rightarrow> Inl reflectPanic)"

definition writeBytes :: writer where
  "writeBytes v w = (case v of BytesV b \<Rightarrow> Inr (encodeString b w) | _ \<Rightarrow> Inl reflectPanic)"

definition writeLengthOneByteArray :: "byte \<Rightarrow> encbuf \<Rightarrow> encbuf" where
  "writeLengthOneByteArray b w =
     (if b \<le> 0x7F then w\<lparr>str := str w @ [b]\<rparr> else w\<lparr>str := str w @ [0x81, b]\<rparr>)"

definition makeByteArrayWriter :: "nat \<Rightarrow> writer" where
  "makeByteArrayWriter len v w =
     (case v of
        BytesV b \<Rightarrow>
          if length b \<noteq> len then Inl reflectPanic
          else if len = 0 then Inr (w\<lparr>str := str w @ [0x80]\<rparr>)
          else if len = 1 then Inr (writeLengthOneByteArray (b ! 0) w)
          else let w = encodeStringHeader (length b) w in Inr (w\<lparr>str := str w @ b\<rparr>)
      | _ \<Rightarrow> Inl reflectPanic)"

definition makeSliceWriter :: "writer \<Rightarrow> writer" where
  "makeSliceWriter elem v w =
     (case v of
        ListV vs \<Rightarrow>
          if vs = [] then Inr (w\<lparr>str := str w @ [0xC0]\<rparr>)
          else let (listOffset, w) = encbuf_list w
               in go_bind (go_fold elem vs w) (\<lambda>w. Inr (encbuf_listEnd listOffset w))
      | _ \<Rightarrow> Inl reflectPanic)"

text \<open>An array is written like a slice of its length.\<close>

definition makeArrayWriter :: "nat \<Rightarrow> writer \<Rightarrow> writer" where
  "makeArrayWriter n elem v w =
     (case v of
        ListV vs \<Rightarrow> if length vs = n then makeSliceWriter elem v w else Inl reflectPanic
      | _ \<Rightarrow> Inl reflectPanic)"

definition makeStructWriter :: "writer list \<Rightarrow> writer" where
  "makeStructWriter fs v w =
     (case v of
        ListV vs \<Rightarrow>
          if length vs \<noteq> length fs then Inl reflectPanic
          else let (lh, w) = encbuf_list w
               in go_bind (go_fold (\<lambda>(f, x). f x) (zip fs vs) w) (\<lambda>w. Inr (encbuf_listEnd lh w))
      | _ \<Rightarrow> Inl reflectPanic)"

fun isByteArray :: "rlp_type \<Rightarrow> bool" where
  "isByteArray BytesT = True"
| "isByteArray (ByteArrayT n) = True"
| "isByteArray _ = False"

fun defaultNilKind :: "rlp_type \<Rightarrow> Kind" where
  "defaultNilKind t =
     (if isByteArray t then StringK
      else case t of UintT _ \<Rightarrow> StringK | BoolT \<Rightarrow> StringK | _ \<Rightarrow> ListK)"

definition nilEncoding :: "Kind \<Rightarrow> byte" where
  "nilEncoding nilKind = (case nilKind of StringK \<Rightarrow> 0x80 | _ \<Rightarrow> 0xC0)"

definition makePtrWriter :: "Kind \<Rightarrow> writer \<Rightarrow> writer" where
  "makePtrWriter nilKind elem v w =
     (if v \<noteq> NilV then elem v w else Inr (w\<lparr>str := str w @ [nilEncoding nilKind]\<rparr>))"

primrec makeWriter :: "rlp_type \<Rightarrow> writer" where
  "makeWriter (UintT bits) = writeUint"
| "makeWriter BoolT = writeBool"
| "makeWriter BigIntT = writeBigIntPtr"
| "makeWriter BytesT = writeBytes"
| "makeWriter (ByteArrayT n) = makeByteArrayWriter n"
| "makeWriter (SliceT t) = makeSliceWriter (makeWriter t)"
| "makeWriter (ArrayT n t) = makeArrayWriter n (makeWriter t)"
| "makeWriter (StructT ts) = makeStructWriter (map makeWriter ts)"
| "makeWriter (PtrT t) = makePtrWriter (defaultNilKind t) (makeWriter t)"
| "makeWriter (NilPtrT k t) = makePtrWriter k (makeWriter t)"

definition EncodeToBytes :: "rlp_type \<Rightarrow> rlp_val \<Rightarrow> rlp_error + bytes" where
  "EncodeToBytes t v = go_bind (makeWriter t v encbuf_reset) (\<lambda>eb. Inr (toBytes eb))"

section \<open>The encoding as a specification\<close>

text \<open>
  A string or a list of items. The header gives the size in the tag when it is below 56 and
  otherwise the length of the size, then the size; a single byte below 128 is its own encoding.
\<close>

datatype item = Str bytes | Lst "item list"

fun min_be :: "nat \<Rightarrow> bytes" where
  "min_be n = (if n = 0 then [] else min_be (n div 256) @ [of_nat n])"

declare min_be.simps [simp del]

definition hdr :: "byte \<Rightarrow> byte \<Rightarrow> nat \<Rightarrow> bytes" where
  "hdr small large n =
     (if n < 56 then [small + of_nat n] else (large + of_nat (length (min_be n))) # min_be n)"

primrec item_enc :: "item \<Rightarrow> bytes" where
  "item_enc (Str b) =
     (if length b = 1 \<and> b ! 0 < 0x80 then b else hdr 0x80 0xB7 (length b) @ b)"
| "item_enc (Lst its) =
     (let c = concat (map item_enc its) in hdr 0xC0 0xF7 (length c) @ c)"

primrec item_of :: "rlp_type \<Rightarrow> rlp_val \<Rightarrow> item" where
  "item_of (UintT bits) = (\<lambda>v. case v of UintV i \<Rightarrow> Str (min_be (unat i)) | _ \<Rightarrow> Str [])"
| "item_of BoolT = (\<lambda>v. case v of BoolV b \<Rightarrow> Str (if b then [1] else []) | _ \<Rightarrow> Str [])"
| "item_of BigIntT = (\<lambda>v. case v of BigV i \<Rightarrow> Str (min_be (nat i)) | _ \<Rightarrow> Str [])"
| "item_of BytesT = (\<lambda>v. case v of BytesV b \<Rightarrow> Str b | _ \<Rightarrow> Str [])"
| "item_of (ByteArrayT n) = (\<lambda>v. case v of BytesV b \<Rightarrow> Str b | _ \<Rightarrow> Str [])"
| "item_of (SliceT t) = (\<lambda>v. case v of ListV vs \<Rightarrow> Lst (map (item_of t) vs) | _ \<Rightarrow> Lst [])"
| "item_of (ArrayT n t) = (\<lambda>v. case v of ListV vs \<Rightarrow> Lst (map (item_of t) vs) | _ \<Rightarrow> Lst [])"
| "item_of (StructT ts) =
     (\<lambda>v. case v of ListV vs \<Rightarrow> Lst (map (\<lambda>(f, x). f x) (zip (map item_of ts) vs)) | _ \<Rightarrow> Lst [])"
| "item_of (PtrT t) =
     (\<lambda>v. if v = NilV then if defaultNilKind t = StringK then Str [] else Lst [] else item_of t v)"
| "item_of (NilPtrT k t) =
     (\<lambda>v. if v = NilV then if k = StringK then Str [] else Lst [] else item_of t v)"

text \<open>
  The values of a type, and those the writer accepts: every number non-negative.
\<close>

primrec of_type :: "rlp_type \<Rightarrow> rlp_val \<Rightarrow> bool" where
  "of_type (UintT bits) = (\<lambda>v. case v of UintV i \<Rightarrow> unat i < 2 ^ bits | _ \<Rightarrow> False)"
| "of_type BoolT = (\<lambda>v. case v of BoolV b \<Rightarrow> True | _ \<Rightarrow> False)"
| "of_type BigIntT = (\<lambda>v. case v of BigV i \<Rightarrow> i \<ge> 0 | NilV \<Rightarrow> True | _ \<Rightarrow> False)"
| "of_type BytesT = (\<lambda>v. case v of BytesV b \<Rightarrow> True | _ \<Rightarrow> False)"
| "of_type (ByteArrayT n) = (\<lambda>v. case v of BytesV b \<Rightarrow> length b = n | _ \<Rightarrow> False)"
| "of_type (SliceT t) = (\<lambda>v. case v of ListV vs \<Rightarrow> list_all (of_type t) vs | _ \<Rightarrow> False)"
| "of_type (ArrayT n t) = (\<lambda>v. case v of ListV vs \<Rightarrow> length vs = n \<and> list_all (of_type t) vs | _ \<Rightarrow> False)"
| "of_type (StructT ts) =
     (\<lambda>v. case v of ListV vs \<Rightarrow> list_all2 (\<lambda>f x. f x) (map of_type ts) vs | _ \<Rightarrow> False)"
| "of_type (PtrT t) = (\<lambda>v. v = NilV \<or> of_type t v)"
| "of_type (NilPtrT k t) = (\<lambda>v. k \<noteq> ByteK \<and> (v = NilV \<or> of_type t v))"

section \<open>Minimal big-endian numbers\<close>

lemma min_be_0 [simp]: "min_be 0 = []"
  by (simp add: min_be.simps)

lemma min_be_Nil_iff [simp]: "min_be n = [] \<longleftrightarrow> n = 0"
  by (simp add: min_be.simps [of n])

lemma min_be_be_bytes: "256 ^ k \<le> n \<Longrightarrow> n < 256 ^ Suc k \<Longrightarrow> min_be n = be_bytes (Suc k) n"
proof (induction k arbitrary: n)
  case 0
  then show ?case by (simp add: min_be.simps [of n])
next
  case (Suc k)
  have "256 ^ k \<le> n div 256" using Suc.prems(1) by (simp add: less_eq_div_iff_mult_less_eq mult.commute)
  moreover have "n div 256 < 256 ^ Suc k" using Suc.prems(2) by (simp add: less_mult_imp_div_less mult.commute)
  ultimately have "min_be (n div 256) = be_bytes (Suc k) (n div 256)" by (rule Suc.IH)
  moreover have "n \<noteq> 0" using Suc.prems(1) by (metis le_zero_eq power_eq_0_iff zero_neq_numeral)
  ultimately show ?case by (simp add: min_be.simps [of n])
qed

lemma be_val_min_be [simp]: "be_val (min_be n) = n"
proof (induction n rule: min_be.induct)
  case (1 n)
  then show ?case by (cases "n = 0") (simp_all add: min_be.simps [of n])
qed

lemma min_be_hd: "n \<noteq> 0 \<Longrightarrow> min_be n ! 0 \<noteq> 0"
proof (induction n rule: min_be.induct)
  case (1 n)
  show ?case
  proof (cases "n div 256 = 0")
    case True
    then have "n < 256" by (simp add: div_eq_0_iff)
    have "min_be n = [of_nat n]" using True 1(2) by (simp add: min_be.simps [of n])
    moreover have "unat (of_nat n :: byte) = n" using \<open>n < 256\<close> by simp
    then have "(of_nat n :: byte) \<noteq> 0" using 1(2) by (metis unat_0)
    ultimately show ?thesis by simp
  next
    case False
    then have "min_be (n div 256) ! 0 \<noteq> 0" using 1 by simp
    moreover have "min_be (n div 256) \<noteq> []" using False by simp
    ultimately show ?thesis using 1(2) by (simp add: min_be.simps [of n] nth_append)
  qed
qed

lemma length_min_be_le: "n < 256 ^ k \<Longrightarrow> length (min_be n) \<le> k"
proof (induction k arbitrary: n)
  case (Suc k)
  then have "n div 256 < 256 ^ k" by (simp add: less_mult_imp_div_less mult.commute)
  then have "length (min_be (n div 256)) \<le> k" by (rule Suc.IH)
  then show ?case by (simp add: min_be.simps [of n])
qed simp

lemma length_min_be_ge: "256 ^ k \<le> n \<Longrightarrow> k < length (min_be n)"
proof (induction k arbitrary: n)
  case 0
  then show ?case by (simp add: min_be.simps [of n])
next
  case (Suc k)
  then have "256 ^ k \<le> n div 256" by (simp add: less_eq_div_iff_mult_less_eq mult.commute)
  then have "k < length (min_be (n div 256))" by (rule Suc.IH)
  moreover have "n \<noteq> 0" using Suc.prems by (metis le_zero_eq power_eq_0_iff zero_neq_numeral)
  ultimately show ?case by (simp add: min_be.simps [of n])
qed

lemma min_be_single: "0 < n \<Longrightarrow> n < 256 \<Longrightarrow> min_be n = [of_nat n]"
  using min_be_be_bytes [of 0 n] by simp

text \<open>The byte string of a number without leading zeros is determined by the number.\<close>

lemma min_be_be_val: "b = [] \<or> b ! 0 \<noteq> 0 \<Longrightarrow> min_be (be_val b) = b"
proof (induction b rule: rev_induct)
  case (snoc x b)
  have x: "unat x < 256" using word_unat_less [of x] by simp
  show ?case
  proof (cases "b = []")
    case True
    then have "unat x \<noteq> 0" using snoc.prems by (simp add: unat_eq_zero)
    with True x show ?thesis using be_val_snoc [of "[]" x] by (simp add: min_be_single)
  next
    case False
    then have IH: "min_be (be_val b) = b" using snoc by (simp add: nth_append)
    with False have "be_val b \<noteq> 0" by (metis min_be_0)
    then have "min_be (be_val b * 256 + unat x) = min_be (be_val b) @ [of_nat (be_val b * 256 + unat x)]"
      using x by (subst min_be.simps) simp
    moreover have "(of_nat (be_val b * 256 + unat x) :: byte) = x"
      using of_nat_mod_byte [of "be_val b * 256 + unat x"] x by simp
    ultimately show ?thesis using IH by simp
  qed
qed simp

lemma push_bit_thresholds:
  "unat (push_bit 8 1 :: uint64) = 256" "unat (push_bit 16 1 :: uint64) = 65536"
  "unat (push_bit 24 1 :: uint64) = 16777216" "unat (push_bit 32 1 :: uint64) = 4294967296"
  "unat (push_bit 40 1 :: uint64) = 1099511627776" "unat (push_bit 48 1 :: uint64) = 281474976710656"
  "unat (push_bit 56 1 :: uint64) = 72057594037927936"
  by simp_all

lemma putint_min_be:
  assumes "i \<noteq> 0"
  shows "putint i = min_be (unat i)"
proof -
  have "0 < unat i" using assms by (simp add: unat_gt_0)
  moreover have "unat i < 18446744073709551616" using word_unat_less [of i] by simp
  moreover note min_be_be_bytes [of 0 "unat i", simplified] min_be_be_bytes [of 1 "unat i", simplified]
    min_be_be_bytes [of 2 "unat i", simplified] min_be_be_bytes [of 3 "unat i", simplified]
    min_be_be_bytes [of 4 "unat i", simplified] min_be_be_bytes [of 5 "unat i", simplified]
    min_be_be_bytes [of 6 "unat i", simplified] min_be_be_bytes [of 7 "unat i", simplified]
  ultimately show ?thesis
    unfolding putint_def word_less_nat_alt push_bit_thresholds
    by (simp only: numeral_2_eq_2) (simp split: if_split)
qed

lemma length_putint: "length (putint i) = max 1 (length (min_be (unat i)))"
proof (cases "i = 0")
  case False
  then have "min_be (unat i) \<noteq> []" by (simp add: unat_eq_zero)
  with False show ?thesis by (simp add: putint_min_be Suc_leI)
qed (simp add: putint_def word_less_nat_alt)

text \<open>\<open>intsize\<close> is the number of bytes \<open>putint\<close> writes.\<close>

lemma intsize_min_be: "intsize i = max 1 (length (min_be (unat i)))"
proof (induction i rule: intsize.induct)
  case (1 i)
  let ?n = "unat i"
  have d: "unat (drop_bit 8 i) = ?n div 256" by (rule unat_drop_bit_8)
  show ?case
  proof (cases "drop_bit 8 i = 0")
    case True
    then have "?n div 256 = 0" using d by (metis unat_0)
    then have "length (min_be ?n) \<le> 1" by (simp add: min_be.simps [of ?n])
    moreover have "intsize i = 1" using True by (simp add: intsize.simps [of i] Let_def)
    ultimately show ?thesis by simp
  next
    case False
    then have nz: "?n div 256 \<noteq> 0" using d by (metis unat_0_iff)
    then have "?n \<noteq> 0" by (metis div_0)
    have "intsize i = Suc (intsize (drop_bit 8 i))" using False by (simp add: intsize.simps [of i] Let_def)
    moreover have "intsize (drop_bit 8 i) = max 1 (length (min_be (?n div 256)))"
      using 1 [OF refl False] by (simp add: d)
    moreover have "length (min_be ?n) = Suc (length (min_be (?n div 256)))"
      using \<open>?n \<noteq> 0\<close> by (simp add: min_be.simps [of ?n])
    moreover have "min_be (?n div 256) \<noteq> []" using nz by simp
    ultimately show ?thesis by (cases "min_be (?n div 256)") simp_all
  qed
qed

lemma intsize_putint: "intsize i = length (putint i)"
  by (simp add: intsize_min_be length_putint)

section \<open>Headers and strings\<close>

abbreviation uint64_max_size :: nat where
  "uint64_max_size \<equiv> 18446744073709551616"

lemma unat_of_nat64: "n < uint64_max_size \<Longrightarrow> unat (of_nat n :: uint64) = n"
  by (simp add: unat_of_nat)

lemma of_nat_less_56: "n < uint64_max_size \<Longrightarrow> (of_nat n :: uint64) < 56 \<longleftrightarrow> n < 56"
  by (simp add: word_less_nat_alt unat_of_nat64)

lemma putint_of_nat: "0 < n \<Longrightarrow> n < uint64_max_size \<Longrightarrow> putint (of_nat n) = min_be n"
  using putint_min_be [of "of_nat n"] unat_of_nat64 [of n] by (metis less_irrefl unat_0)

lemma puthead_hdr: "n < uint64_max_size \<Longrightarrow> puthead small large (of_nat n) = hdr small large n"
  by (simp add: puthead_def hdr_def of_nat_less_56 unat_of_nat64 putint_of_nat Let_def)

lemma hdr_nonempty [simp]: "hdr small large n \<noteq> []"
  by (simp add: hdr_def)

lemma headsize_hdr: "n < uint64_max_size \<Longrightarrow> headsize (of_nat n) = length (hdr small large n)"
  by (auto simp: headsize_def hdr_def of_nat_less_56 intsize_putint putint_of_nat)

lemma encodeStringHeader_hdr:
  "n < uint64_max_size \<Longrightarrow> encodeStringHeader n w = w\<lparr>str := str w @ hdr 0x80 0xB7 n\<rparr>"
  by (simp add: encodeStringHeader_def hdr_def putint_of_nat Let_def)

lemma byte_le_7F: "(b :: byte) \<le> 0x7F \<longleftrightarrow> b < 0x80"
  by (simp add: word_le_nat_alt word_less_nat_alt) linarith

lemma encodeString_item:
  "length b < uint64_max_size \<Longrightarrow> encodeString b w = w\<lparr>str := str w @ item_enc (Str b)\<rparr>"
  by (cases b) (auto simp: encodeString_def encodeStringHeader_hdr byte_le_7F Let_def)

lemma of_nat_byte_less: "n < 256 \<Longrightarrow> (of_nat n :: byte) < 0x80 \<longleftrightarrow> n < 128"
  by (simp add: word_less_nat_alt)

lemma encodeUint_item: "encodeUint i w = w\<lparr>str := str w @ item_enc (Str (min_be (unat i)))\<rparr>"
proof -
  consider "i = 0" | "0 < unat i" "unat i < 128" | "128 \<le> unat i"
    by (metis leI neq0_conv unat_0_iff)
  then show ?thesis
  proof cases
    case 1
    then show ?thesis by (simp add: encodeUint_def hdr_def)
  next
    case 2
    then have "min_be (unat i) = [of_nat (unat i)]" by (simp add: min_be_single)
    moreover have "(of_nat (unat i) :: byte) < 0x80" using 2 of_nat_byte_less [of "unat i"] by simp
    moreover have "i \<noteq> 0" using 2 by auto
    moreover have "i < 128" using 2 by (simp add: word_less_nat_alt)
    ultimately show ?thesis by (simp add: encodeUint_def)
  next
    case 3
    have "i \<noteq> 0" and "\<not> i < 128" using 3 by (auto simp: word_less_nat_alt)
    moreover have "putint i = min_be (unat i)" using \<open>i \<noteq> 0\<close> by (rule putint_min_be)
    moreover have "length (min_be (unat i)) \<le> 8"
      by (rule length_min_be_le) (use word_unat_less [of i] in simp)
    moreover have "\<not> (length (min_be (unat i)) = 1 \<and> min_be (unat i) ! 0 < 0x80)"
    proof (cases "unat i < 256")
      case True
      then have "min_be (unat i) = [of_nat (unat i)]" using 3 by (simp add: min_be_single)
      then show ?thesis using 3 True of_nat_byte_less [of "unat i"] by simp
    next
      case False
      then have "1 < length (min_be (unat i))" using length_min_be_ge [of 1 "unat i"] by simp
      then show ?thesis by simp
    qed
    ultimately show ?thesis by (simp add: encodeUint_def hdr_def Let_def del: One_nat_def)
  qed
qed

lemma BitLen_le_iff: "BitLen n \<le> k \<longleftrightarrow> n < 2 ^ k"
proof (induction n arbitrary: k rule: BitLen.induct)
  case (1 n)
  show ?case
  proof (cases "n = 0 \<or> k = 0")
    case False
    then obtain j where k: "k = Suc j" by (cases k) auto
    have "BitLen n = Suc (BitLen (n div 2))" using False by (simp add: BitLen.simps [of n])
    moreover have "n div 2 < 2 ^ j \<longleftrightarrow> n < 2 ^ k" by (simp add: k) linarith
    ultimately show ?thesis using 1 [of j] False k by simp
  qed (auto simp: BitLen.simps [of n])
qed

lemma length_min_be_iff: "length (min_be n) \<le> k \<longleftrightarrow> n < 256 ^ k"
  using length_min_be_le [of n k] length_min_be_ge [of k n] by linarith

lemma BitLen_bytes: "(BitLen n + 7) div 8 = length (min_be n)"
proof -
  have "(BitLen n + 7) div 8 \<le> k \<longleftrightarrow> length (min_be n) \<le> k" for k
  proof -
    have "(BitLen n + 7) div 8 \<le> k \<longleftrightarrow> BitLen n \<le> 8 * k" by linarith
    also have "\<dots> \<longleftrightarrow> n < 256 ^ k" by (simp add: BitLen_le_iff power_mult)
    finally show ?thesis by (simp add: length_min_be_iff)
  qed
  then show ?thesis by (metis le_antisym le_refl)
qed

lemma be_bytes_length_min_be: "be_bytes (length (min_be n)) n = min_be n"
  using be_bytes_be_val [of "min_be n"] by simp

lemma writeBigInt_item:
  assumes "0 \<le> i" and "length (item_enc (Str (min_be (nat i)))) < uint64_max_size"
  shows "writeBigInt i w = Inr (w\<lparr>str := str w @ item_enc (Str (min_be (nat i)))\<rparr>)"
proof (cases "BitLen (nat i) \<le> 64")
  case True
  then have "nat i < 2 ^ 64" by (simp add: BitLen_le_iff)
  then have "unat (of_nat (nat i) :: uint64) = nat i" by (intro unat_of_nat64) simp
  then have "unat (of_int i :: uint64) = nat i" using assms(1) by (simp add: of_nat_nat)
  with True assms(1) show ?thesis by (simp add: writeBigInt_def encodeUint_item del: item_enc.simps)
next
  case False
  then have "\<not> nat i < 256 ^ 1" using BitLen_le_iff [of "nat i" 8] by simp
  then have "length (min_be (nat i)) \<noteq> 1" using length_min_be_iff [of "nat i" 1] by linarith
  then have enc: "item_enc (Str (min_be (nat i))) = hdr 0x80 0xB7 (length (min_be (nat i))) @ min_be (nat i)"
    by simp
  then have "length (min_be (nat i)) < uint64_max_size" using assms(2) by simp
  with False assms(1) enc show ?thesis
    by (simp add: writeBigInt_def BitLen_bytes be_bytes_length_min_be encodeStringHeader_hdr Let_def)
qed

section \<open>The buffer computes the encoding\<close>

definition lh_shift :: "nat \<Rightarrow> listhead \<Rightarrow> listhead" where
  "lh_shift k h = h\<lparr>offset := offset h + k\<rparr>"

lemma lh_shift_simps [simp]:
  "offset (lh_shift k h) = offset h + k" "lh_size (lh_shift k h) = lh_size h"
  "lh_shift j (lh_shift k h) = lh_shift (k + j) h" "lh_shift 0 h = h"
  "listhead_encode (lh_shift k h) = listhead_encode h"
  by (simp_all add: lh_shift_def listhead_encode_def)

definition heads_len :: "listhead list \<Rightarrow> nat" where
  "heads_len hs = sum_list (map (\<lambda>h. length (listhead_encode h)) hs)"

lemma heads_len_simps [simp]:
  "heads_len [] = 0" "heads_len (h # hs) = length (listhead_encode h) + heads_len hs"
  "heads_len (hs @ hs') = heads_len hs + heads_len hs'" "heads_len (map (lh_shift k) hs) = heads_len hs"
  by (simp_all add: heads_len_def comp_def)

text \<open>String data \<open>s\<close> with headers \<open>hs\<close> at offsets into it, in order, that stand for \<open>x\<close>.\<close>

definition heads_ok :: "listhead list \<Rightarrow> bytes \<Rightarrow> bool" where
  "heads_ok hs s \<longleftrightarrow> sorted (map offset hs) \<and> (\<forall>h \<in> set hs. offset h \<le> length s)"

lemma toBytes_loop_shift:
  "length u = k \<Longrightarrow> toBytes_loop (p + k) (map (lh_shift k) hs) (u @ s) = toBytes_loop p hs s"
proof (induction hs arbitrary: p)
  case (Cons h hs)
  have "p + k + (offset (lh_shift k h) - (p + k)) = (p + (offset h - p)) + k" by simp
  moreover have "take (offset (lh_shift k h) - (p + k)) (drop (p + k) (u @ s)) = take (offset h - p) (drop p s)"
    using Cons.prems by simp
  ultimately show ?case
    unfolding list.map toBytes_loop.simps lh_shift_simps(5)
    using Cons.IH [OF Cons.prems, of "p + (offset h - p)"] by (simp only:)
qed simp

lemma take_drop_append:
  assumes "p \<le> length s"
  shows "take (n + length s - p) (drop p (s @ s')) = drop p s @ take n s'"
proof -
  have "n + length s - p - (length s - p) = n" and "length s - p \<le> n + length s - p" using assms by simp_all
  then show ?thesis using assms by (simp only: drop_append take_append length_drop take_all) simp
qed

lemma toBytes_loop_append:
  assumes "heads_ok hs s" and "p \<le> length s" and "\<forall>h \<in> set hs. p \<le> offset h"
  shows "toBytes_loop p (hs @ map (lh_shift (length s)) hs') (s @ s') = toBytes_loop p hs s @ toBytes_loop 0 hs' s'"
  using assms
proof (induction hs arbitrary: p)
  case Nil
  show ?case
  proof (cases hs')
    case (Cons h hs'')
    have "p + (offset h + length s - p) = offset h + length s" using Nil.prems(2) by simp
    moreover have "take (offset h + length s - p) (drop p (s @ s')) = drop p s @ take (offset h) s'"
      using Nil.prems(2) by (rule take_drop_append)
    moreover have "toBytes_loop (offset h + length s) (map (lh_shift (length s)) hs'') (s @ s')
        = toBytes_loop (offset h) hs'' s'" by (rule toBytes_loop_shift) simp
    ultimately show ?thesis using Cons by simp
  qed (use Nil.prems in simp)
next
  case (Cons h hs)
  have "heads_ok hs s" "offset h \<le> length s" "\<forall>h' \<in> set hs. offset h \<le> offset h'" "p \<le> offset h"
    using Cons.prems by (auto simp: heads_ok_def)
  moreover from this have "p + (offset h - p) = offset h" by simp
  moreover have "take (offset h - p) (drop p (s @ s')) = take (offset h - p) (drop p s)"
    using \<open>offset h \<le> length s\<close> by (simp add: take_append)
  ultimately show ?case using Cons.IH [of "offset h"] by simp
qed

definition writes :: "encbuf \<Rightarrow> encbuf \<Rightarrow> bytes \<Rightarrow> bool" where
  "writes w w' x \<longleftrightarrow>
     (\<exists>s hs. w' = w\<lparr>str := str w @ s, lheads := lheads w @ map (lh_shift (length (str w))) hs,
                  lhsize := lhsize w + heads_len hs\<rparr>
        \<and> heads_ok hs s \<and> toBytes_loop 0 hs s = x \<and> length x = length s + heads_len hs)"

lemma writes_str: "writes w (w\<lparr>str := str w @ s\<rparr>) s"
  unfolding writes_def by (rule exI [where x = s], rule exI [where x = "[]"]) (simp add: heads_ok_def)

lemma writes_none: "writes w w []"
  using writes_str [of w "[]"] by simp

lemma heads_ok_append:
  "heads_ok hs s \<Longrightarrow> heads_ok hs' s' \<Longrightarrow> heads_ok (hs @ map (lh_shift (length s)) hs') (s @ s')"
  by (fastforce simp: heads_ok_def sorted_append sorted_map sorted_wrt_map)

lemma writes_trans:
  assumes "writes w w1 x" and "writes w1 w2 y"
  shows "writes w w2 (x @ y)"
proof -
  obtain s hs where 1: "w1 = w\<lparr>str := str w @ s, lheads := lheads w @ map (lh_shift (length (str w))) hs,
      lhsize := lhsize w + heads_len hs\<rparr>" "heads_ok hs s" "toBytes_loop 0 hs s = x" "length x = length s + heads_len hs"
    using assms(1) unfolding writes_def by blast
  obtain s' hs' where 2: "w2 = w1\<lparr>str := str w1 @ s', lheads := lheads w1 @ map (lh_shift (length (str w1))) hs',
      lhsize := lhsize w1 + heads_len hs'\<rparr>" "heads_ok hs' s'" "toBytes_loop 0 hs' s' = y" "length y = length s' + heads_len hs'"
    using assms(2) unfolding writes_def by blast
  have "w2 = w\<lparr>str := str w @ (s @ s'),
      lheads := lheads w @ map (lh_shift (length (str w))) (hs @ map (lh_shift (length s)) hs'),
      lhsize := lhsize w + heads_len (hs @ map (lh_shift (length s)) hs')\<rparr>"
    by (simp add: 1(1) 2(1) add.commute comp_def)
  moreover have "heads_ok (hs @ map (lh_shift (length s)) hs') (s @ s')"
    using 1(2) 2(2) by (rule heads_ok_append)
  moreover have "toBytes_loop 0 (hs @ map (lh_shift (length s)) hs') (s @ s') = x @ y"
    using toBytes_loop_append [OF 1(2), of 0] 1(3) 2(3) by simp
  moreover have "length (x @ y) = length (s @ s') + heads_len (hs @ map (lh_shift (length s)) hs')"
    using 1(4) 2(4) by simp
  ultimately show ?thesis unfolding writes_def by blast
qed

lemma writes_fold:
  assumes "\<And>x w. x \<in> set xs \<Longrightarrow> \<exists>w'. f x w = Inr w' \<and> writes w w' (g x)"
  shows "\<exists>w'. go_fold f xs w = Inr w' \<and> writes w w' (concat (map g xs))"
  using assms
proof (induction xs arbitrary: w)
  case Nil
  show ?case using writes_none by simp
next
  case (Cons x xs)
  obtain w1 where w1: "f x w = Inr w1" "writes w w1 (g x)" using Cons.prems [of x w] by auto
  obtain w2 where w2: "go_fold f xs w1 = Inr w2" "writes w1 w2 (concat (map g xs))"
    using Cons.IH [of w1] Cons.prems by auto
  show ?case using w1 w2 writes_trans by auto
qed

text \<open>
  \<open>list\<close>, the elements and \<open>listEnd\<close>: the header that \<open>list\<close> reserves holds the size of the
  headers before it until \<open>listEnd\<close> replaces it by the size of the content.
\<close>

lemma writes_list:
  assumes "encbuf_list w = (ix, w1)" and "writes w1 w2 c" and "length c < uint64_max_size"
  shows "writes w (encbuf_listEnd ix w2) (hdr 0xC0 0xF7 (length c) @ c)"
proof -
  have ix: "ix = length (lheads w)"
    and w1: "w1 = w\<lparr>lheads := lheads w @ [\<lparr>offset = length (str w), lh_size = lhsize w\<rparr>]\<rparr>"
    using assms(1) by (simp_all add: encbuf_list_def)
  obtain s hs where 2: "w2 = w1\<lparr>str := str w1 @ s, lheads := lheads w1 @ map (lh_shift (length (str w1))) hs,
      lhsize := lhsize w1 + heads_len hs\<rparr>" "heads_ok hs s" "toBytes_loop 0 hs s = c" "length c = length s + heads_len hs"
    using assms(2) unfolding writes_def by blast
  let ?h = "\<lparr>offset = 0, lh_size = length c\<rparr>"
  have enc: "listhead_encode ?h = hdr 0xC0 0xF7 (length c)"
    using assms(3) by (simp add: listhead_encode_def puthead_hdr)
  have at_ix: "lheads w2 ! ix = \<lparr>offset = length (str w), lh_size = lhsize w\<rparr>"
    by (simp add: 2(1) w1 ix nth_append)
  have n: "encbuf_size w2 - offset (lheads w2 ! ix) - lh_size (lheads w2 ! ix) = length c"
    by (simp only: at_ix) (simp add: encbuf_size_def 2(1,4) w1)
  have len: "\<not> length c < 56 \<Longrightarrow> putint (of_nat (length c)) = min_be (length c)"
    using assms(3) by (intro putint_of_nat) auto
  have hl: "(if length c < 56 then lhsize w2 + 1 else lhsize w2 + 1 + intsize (of_nat (length c)))
      = lhsize w + heads_len (?h # hs)"
    using len by (simp add: 2(1) w1 enc hdr_def intsize_putint)
  have heads: "(lheads w2)[ix := \<lparr>offset = length (str w), lh_size = length c\<rparr>]
      = lheads w @ map (lh_shift (length (str w))) (?h # hs)"
    by (simp add: 2(1) w1 ix list_update_append lh_shift_def)
  have "encbuf_listEnd ix w2 = w\<lparr>str := str w @ s, lheads := lheads w @ map (lh_shift (length (str w))) (?h # hs),
      lhsize := lhsize w + heads_len (?h # hs)\<rparr>"
    unfolding encbuf_listEnd_def Let_def n hl unfolding at_ix
    using heads by (simp add: 2(1) w1)
  moreover have "heads_ok (?h # hs) s" using 2(2) by (simp add: heads_ok_def)
  moreover have "toBytes_loop 0 (?h # hs) s = hdr 0xC0 0xF7 (length c) @ c" using 2(3) enc by simp
  moreover have "length (hdr 0xC0 0xF7 (length c) @ c) = length s + heads_len (?h # hs)"
    using 2(4) enc by simp
  ultimately show ?thesis unfolding writes_def by blast
qed

lemma writes_toBytes: "writes encbuf_reset w x \<Longrightarrow> toBytes w = x"
  unfolding writes_def
proof (elim exE conjE)
  fix s hs
  assume "w = encbuf_reset\<lparr>str := str encbuf_reset @ s,
      lheads := lheads encbuf_reset @ map (lh_shift (length (str encbuf_reset))) hs,
      lhsize := lhsize encbuf_reset + heads_len hs\<rparr>"
    and x: "toBytes_loop 0 hs s = x" "length x = length s + heads_len hs"
  then have w: "str w = s" "lheads w = hs" "lhsize w = heads_len hs"
    by (simp_all add: encbuf_reset_def map_idI)
  then show ?thesis using x by (simp add: toBytes_def encbuf_size_def)
qed

lemma length_item_enc_mem:
  assumes "it \<in> set its"
  shows "length (item_enc it) \<le> length (concat (map item_enc its))"
  using assms by (induction its) auto

text \<open>Writers of the composite types from the writers of their parts.\<close>

abbreviation writes_item :: "writer \<Rightarrow> rlp_val \<Rightarrow> item \<Rightarrow> bool" where
  "writes_item f v it \<equiv> (\<forall>w. \<exists>w'. f v w = Inr w' \<and> writes w w' (item_enc it))"

lemma makeSliceWriter_writes:
  assumes "\<And>v. v \<in> set vs \<Longrightarrow> writes_item f v (g v)" and "length (item_enc (Lst (map g vs))) < uint64_max_size"
  shows "writes_item (makeSliceWriter f) (ListV vs) (Lst (map g vs))"
proof
  fix w
  let ?c = "concat (map item_enc (map g vs))"
  show "\<exists>w'. makeSliceWriter f (ListV vs) w = Inr w' \<and> writes w w' (item_enc (Lst (map g vs)))"
  proof (cases "vs = []")
    case True
    then show ?thesis using writes_str [of w "[0xC0]"] by (simp add: makeSliceWriter_def hdr_def)
  next
    case False
    obtain ix w1 where l: "encbuf_list w = (ix, w1)" by (cases "encbuf_list w")
    obtain w2 where w2: "go_fold f vs w1 = Inr w2" "writes w1 w2 (concat (map (\<lambda>v. item_enc (g v)) vs))"
      using writes_fold [of vs f "\<lambda>v. item_enc (g v)" w1] assms(1) by blast
    have "length ?c < uint64_max_size" using assms(2) by (simp add: Let_def)
    then have "writes w (encbuf_listEnd ix w2) (item_enc (Lst (map g vs)))"
      using writes_list [OF l, of w2 ?c] w2(2) by (simp add: Let_def comp_def)
    then show ?thesis using False l w2(1) by (simp add: makeSliceWriter_def del: item_enc.simps)
  qed
qed

lemma makeStructWriter_writes:
  assumes "length fs = length vs" "length gs = length vs"
    and "\<And>i. i < length vs \<Longrightarrow> writes_item (fs ! i) (vs ! i) (gs ! i)"
    and "length (item_enc (Lst gs)) < uint64_max_size"
  shows "writes_item (makeStructWriter fs) (ListV vs) (Lst gs)"
proof
  fix w
  let ?xs = "zip (zip fs vs) gs"
  have fold: "go_fold (\<lambda>(f, x). f x) (zip fs vs) = go_fold (\<lambda>p. (\<lambda>(f, x). f x) (fst p)) ?xs"
    using assms(1,2) go_fold_map [of "\<lambda>(f, x). f x" fst ?xs] by simp
  have elem: "\<exists>w'. (\<lambda>(f, x). f x) (fst p) w = Inr w' \<and> writes w w' (item_enc (snd p))" if p: "p \<in> set ?xs" for p w
  proof -
    obtain i where "i < length vs" "p = ((fs ! i, vs ! i), gs ! i)"
      using p assms(1,2) by (auto simp: in_set_conv_nth)
    then show ?thesis using assms(3) by simp
  qed
  obtain ix w1 where l: "encbuf_list w = (ix, w1)" by (cases "encbuf_list w")
  obtain w2 where w2: "go_fold (\<lambda>(f, x). f x) (zip fs vs) w1 = Inr w2"
      "writes w1 w2 (concat (map (\<lambda>p. item_enc (snd p)) ?xs))"
    using writes_fold [of ?xs "\<lambda>p. (\<lambda>(f, x). f x) (fst p)" "\<lambda>p. item_enc (snd p)" w1, OF elem] fold by auto
  have "map (\<lambda>p. item_enc (snd p)) ?xs = map item_enc gs"
    using assms(1,2) by (simp add: comp_def flip: map_map [of item_enc snd, unfolded comp_def])
  then have "writes w (encbuf_listEnd ix w2) (item_enc (Lst gs))"
    using writes_list [OF l, of w2 "concat (map item_enc gs)"] w2(2) assms(4) by (simp add: Let_def)
  then show "\<exists>w'. makeStructWriter fs (ListV vs) w = Inr w' \<and> writes w w' (item_enc (Lst gs))"
    using l w2(1) assms(1) by (simp add: makeStructWriter_def del: item_enc.simps)
qed

lemma writes_item_str:
  "f v = (\<lambda>w. Inr (w\<lparr>str := str w @ item_enc it\<rparr>)) \<Longrightarrow> writes_item f v it"
  using writes_str by simp

lemma encodable_elem:
  assumes "length (item_enc (Lst its)) < uint64_max_size" and "it \<in> set its"
  shows "length (item_enc it) < uint64_max_size"
  using assms length_item_enc_mem [OF assms(2)] by (simp add: Let_def)

lemma makeByteArrayWriter_writes:
  assumes "length b = n" and "length b < uint64_max_size"
  shows "writes_item (makeByteArrayWriter n) (BytesV b) (Str b)"
proof (rule writes_item_str, rule ext)
  fix w
  consider "b = []" | x where "b = [x]" | "length b > 1"
    by (metis One_nat_def length_0_conv length_Suc_conv less_one linorder_neqE_nat)
  then show "makeByteArrayWriter n (BytesV b) w = Inr (w\<lparr>str := str w @ item_enc (Str b)\<rparr>)"
  proof cases
    case 1
    then show ?thesis using assms by (simp add: makeByteArrayWriter_def hdr_def)
  next
    case 2
    then have "n = 1" using assms(1) by simp
    with 2 show ?thesis
      by (simp add: makeByteArrayWriter_def writeLengthOneByteArray_def byte_le_7F hdr_def)
  next
    case 3
    then show ?thesis using assms by (auto simp: makeByteArrayWriter_def encodeStringHeader_hdr Let_def)
  qed
qed

lemma length_Str_le: "length b \<le> length (item_enc (Str b))"
  by simp

lemma makePtrWriter_writes:
  assumes "k \<noteq> ByteK" and "v \<noteq> NilV \<Longrightarrow> writes_item f v it"
  shows "writes_item (makePtrWriter k f) v (if v = NilV then if k = StringK then Str [] else Lst [] else it)"
proof (cases "v = NilV")
  case True
  have enc: "item_enc (if k = StringK then Str [] else Lst []) = [nilEncoding k]"
    using assms(1) by (cases k) (simp_all add: nilEncoding_def hdr_def)
  show ?thesis
  proof
    fix w
    show "\<exists>w'. makePtrWriter k f v w = Inr w' \<and>
        writes w w' (item_enc (if v = NilV then if k = StringK then Str [] else Lst [] else it))"
      using True enc writes_str [of w "[nilEncoding k]"] by (simp add: makePtrWriter_def del: item_enc.simps)
  qed
next
  case False
  then show ?thesis using assms(2) by (simp add: makePtrWriter_def del: item_enc.simps)
qed

lemma defaultNilKind_not_Byte: "defaultNilKind t \<noteq> ByteK"
  by (cases t) simp_all

lemma makeWriter_writes:
  "of_type t v \<Longrightarrow> length (item_enc (item_of t v)) < uint64_max_size \<Longrightarrow> writes_item (makeWriter t) v (item_of t v)"
proof (induction t arbitrary: v)
  case (UintT bits)
  then show ?case
    by (intro writes_item_str) (auto simp: writeUint_def encodeUint_item simp del: item_enc.simps split: rlp_val.splits)
next
  case BoolT
  then show ?case
    by (intro writes_item_str) (auto simp: writeBool_def hdr_def split: rlp_val.splits)
next
  case BigIntT
  show ?case
  proof (cases v)
    case (BigV i)
    with BigIntT show ?thesis
      by (intro writes_item_str) (auto simp: writeBigIntPtr_def writeBigInt_item simp del: item_enc.simps)
  qed (use BigIntT writes_str in \<open>auto simp: writeBigIntPtr_def hdr_def\<close>)
next
  case BytesT
  then obtain b where v: "v = BytesV b" by (auto split: rlp_val.splits)
  then have "length b < uint64_max_size"
    using BytesT(2) length_Str_le [of b] by (simp del: item_enc.simps)
  then show ?case
    by (intro writes_item_str) (simp add: v writeBytes_def encodeString_item del: item_enc.simps)
next
  case (ByteArrayT n)
  then obtain b where v: "v = BytesV b" "length b = n" by (auto split: rlp_val.splits)
  then have "length b < uint64_max_size"
    using ByteArrayT(2) length_Str_le [of b] by (simp del: item_enc.simps)
  then show ?case using makeByteArrayWriter_writes [OF v(2)] v by (simp del: item_enc.simps)
next
  case (SliceT t)
  then obtain vs where v: "v = ListV vs" "\<forall>x \<in> set vs. of_type t x"
    by (auto simp: list_all_iff split: rlp_val.splits)
  have "writes_item (makeWriter t) x (item_of t x)" if "x \<in> set vs" for x
    using SliceT v that encodable_elem [of "map (item_of t) vs"] by (auto simp del: item_enc.simps)
  then show ?case
    using makeSliceWriter_writes [of vs "makeWriter t" "item_of t"] SliceT(3) v by (simp del: item_enc.simps)
next
  case (ArrayT n t)
  then obtain vs where v: "v = ListV vs" "\<forall>x \<in> set vs. of_type t x" "length vs = n"
    by (auto simp: list_all_iff split: rlp_val.splits)
  have "writes_item (makeWriter t) x (item_of t x)" if "x \<in> set vs" for x
    using ArrayT v that encodable_elem [of "map (item_of t) vs"] by (auto simp del: item_enc.simps)
  then show ?case
    using makeSliceWriter_writes [of vs "makeWriter t" "item_of t"] ArrayT(3) v
    by (simp add: makeArrayWriter_def del: item_enc.simps)
next
  case (StructT ts)
  then obtain vs where v: "v = ListV vs" and lt: "list_all2 (\<lambda>f x. f x) (map of_type ts) vs"
    by (auto split: rlp_val.splits)
  let ?gs = "map (\<lambda>(f, x). f x) (zip (map item_of ts) vs)"
  have len: "length ts = length vs" using lt by (auto dest: list_all2_lengthD)
  have typed: "of_type (ts ! i) (vs ! i)" if "i < length vs" for i
    using list_all2_nthD2 [OF lt that] len that by simp
  have "writes_item (makeWriter (ts ! i)) (vs ! i) (?gs ! i)" if i: "i < length vs" for i
  proof -
    have gi: "?gs ! i = item_of (ts ! i) (vs ! i)" using i len by simp
    have "?gs ! i \<in> set ?gs" using i len by (intro nth_mem) simp
    then have "length (item_enc (?gs ! i)) < uint64_max_size"
      using encodable_elem [of ?gs] StructT(3) v by (simp del: item_enc.simps)
    then show ?thesis using StructT(1) [of "ts ! i" "vs ! i"] typed [OF i] i len gi by (simp del: item_enc.simps)
  qed
  then show ?case
    using makeStructWriter_writes [of "map makeWriter ts" vs ?gs] StructT(3) v len by (simp del: item_enc.simps)
next
  case (PtrT t)
  then show ?case
    using makePtrWriter_writes [OF defaultNilKind_not_Byte, of v "makeWriter t" "item_of t v" t]
    by (cases "v = NilV") (simp_all del: item_enc.simps defaultNilKind.simps)
next
  case (NilPtrT k t)
  then show ?case
    using makePtrWriter_writes [of k v "makeWriter t" "item_of t v"]
    by (cases "v = NilV") (simp_all del: item_enc.simps)
qed

lemma EncodeToBytes_spec:
  assumes "of_type t v" and "length (item_enc (item_of t v)) < uint64_max_size"
  shows "EncodeToBytes t v = Inr (item_enc (item_of t v))"
proof -
  from makeWriter_writes [OF assms]
  obtain w where w: "makeWriter t v encbuf_reset = Inr w" "writes encbuf_reset w (item_enc (item_of t v))"
    by blast
  then show ?thesis using writes_toBytes by (simp add: EncodeToBytes_def del: item_enc.simps)
qed

text \<open>
  C24: \<open>EncodeToBytes\<close> computes the recursive encoding: for every type and every value of it
  with no negative number, the buffered writer (string data, a list of header positions, a
  running total of header sizes, and the final merge into a slice of the counted size) returns
  the encoding of the nested item, header before content at every level.
\<close>

theorem EncodeToBytes_item:
  assumes "of_type t v" and "length (item_enc (item_of t v)) < 2 ^ 64"
  shows "EncodeToBytes t v = Inr (item_enc (item_of t v))"
  using EncodeToBytes_spec [OF assms(1)] assms(2) by (simp del: item_enc.simps)

theorem EncodeToBytes_item_witness:
  "EncodeToBytes (StructT [UintT 64, SliceT (ByteArrayT 2), NilPtrT StringK (ByteArrayT 2)])
     (ListV [UintV 1024, ListV [BytesV [7, 8], BytesV [9, 10]], NilV])
   = Inr [0xCB, 0x82, 4, 0, 0xC6, 0x82, 7, 8, 0x82, 9, 10, 0x80]"
proof -
  have m: "min_be 1024 = [4, 0]" by (simp add: min_be.simps)
  let ?t = "StructT [UintT 64, SliceT (ByteArrayT 2), NilPtrT StringK (ByteArrayT 2)]"
  let ?v = "ListV [UintV 1024, ListV [BytesV [7, 8], BytesV [9, 10]], NilV]"
  have "of_type ?t ?v" by simp
  moreover have enc: "item_enc (item_of ?t ?v) = [0xCB, 0x82, 4, 0, 0xC6, 0x82, 7, 8, 0x82, 9, 10, 0x80]"
    by (simp add: m hdr_def)
  ultimately show ?thesis using EncodeToBytes_item [of ?t ?v] unfolding enc by simp
qed

end
