(* ===== verification/Rlp_Raw.thy ===== *)
theory Rlp_Raw
  imports Rlp_Encode
begin

text \<open>
  The slice functions of \<open>rlp/raw.go\<close>: reading the tag of the first value of a byte slice,
  splitting the slice there, counting values, appending an integer. Sizes are natural numbers;
  a size read from the input is the 64-bit number of its bytes. The theorems say that
  splitting undoes the encoding and accepts nothing but encodings.
\<close>

section \<open>Definitions\<close>

definition ListSize :: "uint64 \<Rightarrow> uint64" where
  "ListSize contentSize = of_nat (headsize contentSize) + contentSize"

definition IntSize :: "uint64 \<Rightarrow> nat" where
  "IntSize x = (if x < 0x80 then 1 else 1 + intsize x)"

definition readSize :: "bytes \<Rightarrow> nat \<Rightarrow> rlp_error + nat" where
  "readSize b slen =
     (if slen > length b then Inl ErrUnexpectedEOF
      else let s = (if slen \<in> {1..8} then be_val (take slen b) else 0)
           in if s < 56 \<or> b ! 0 = 0 then Inl ErrCanonSize else Inr s)"

definition raw_readKind :: "bytes \<Rightarrow> rlp_error + (Kind \<times> nat \<times> nat)" where
  "raw_readKind buf =
     (if buf = [] then Inl ErrUnexpectedEOF
      else
        let b = buf ! 0;
            tagged =
              (if b < 0x80 then Inr (ByteK, 0, 1)
               else if b < 0xB8 then
                 let contentsize = unat (b - 0x80)
                 in if contentsize = 1 \<and> length buf > 1 \<and> buf ! 1 < 128 then Inl ErrCanonSize
                    else Inr (StringK, 1, contentsize)
               else if b < 0xC0 then
                 go_bind (readSize (drop 1 buf) (unat (b - 0xB7))) (\<lambda>n. Inr (StringK, unat (b - 0xB7) + 1, n))
               else if b < 0xF8 then Inr (ListK, 1, unat (b - 0xC0))
               else
                 go_bind (readSize (drop 1 buf) (unat (b - 0xF7))) (\<lambda>n. Inr (ListK, unat (b - 0xF7) + 1, n)))
        in go_bind tagged (\<lambda>(k, tagsize, contentsize).
             if contentsize > length buf - tagsize then Inl ErrValueTooLarge else Inr (k, tagsize, contentsize)))"

definition rlp_Split :: "bytes \<Rightarrow> rlp_error + (Kind \<times> bytes \<times> bytes)" where
  "rlp_Split b =
     go_bind (raw_readKind b) (\<lambda>(k, ts, cs). Inr (k, take cs (drop ts b), drop (ts + cs) b))"

definition SplitString :: "bytes \<Rightarrow> rlp_error + (bytes \<times> bytes)" where
  "SplitString b =
     go_bind (rlp_Split b) (\<lambda>(k, content, rest).
       if k = ListK then Inl ErrExpectedString else Inr (content, rest))"

definition SplitUint64 :: "bytes \<Rightarrow> rlp_error + (uint64 \<times> bytes)" where
  "SplitUint64 b =
     go_bind (SplitString b) (\<lambda>(content, rest).
       if length content = 0 then Inr (0, rest)
       else if length content = 1 then
         if content ! 0 = 0 then Inl ErrCanonInt else Inr (of_nat (unat (content ! 0)), rest)
       else if length content > 8 then Inl errUintOverflow
       else case readSize content (length content) of
              Inl _ \<Rightarrow> Inl ErrCanonInt
            | Inr x \<Rightarrow> Inr (of_nat x, rest))"

definition SplitList :: "bytes \<Rightarrow> rlp_error + (bytes \<times> bytes)" where
  "SplitList b =
     go_bind (rlp_Split b) (\<lambda>(k, content, rest).
       if k \<noteq> ListK then Inl ErrExpectedList else Inr (content, rest))"

definition AppendUint64 :: "bytes \<Rightarrow> uint64 \<Rightarrow> bytes" where
  "AppendUint64 b i =
     (if i = 0 then b @ [0x80]
      else if i < 128 then b @ [of_nat (unat i)]
      else if i < push_bit 8 1 then b @ 0x81 # be_bytes 1 (unat i)
      else if i < push_bit 16 1 then b @ 0x82 # be_bytes 2 (unat i)
      else if i < push_bit 24 1 then b @ 0x83 # be_bytes 3 (unat i)
      else if i < push_bit 32 1 then b @ 0x84 # be_bytes 4 (unat i)
      else if i < push_bit 40 1 then b @ 0x85 # be_bytes 5 (unat i)
      else if i < push_bit 48 1 then b @ 0x86 # be_bytes 6 (unat i)
      else if i < push_bit 56 1 then b @ 0x87 # be_bytes 7 (unat i)
      else b @ 0x88 # be_bytes 8 (unat i))"

lemma raw_readKind_progress: "raw_readKind b = Inr (k, ts, cs) \<Longrightarrow> b \<noteq> [] \<and> 0 < ts + cs"
  unfolding raw_readKind_def Let_def go_bind_def
  by (auto split: if_splits sum.splits)

function CountValues :: "bytes \<Rightarrow> rlp_error + nat" where
  "CountValues b =
     (if b = [] then Inr 0
      else case raw_readKind b of
             Inl e \<Rightarrow> Inl e
           | Inr (k, tagsize, n) \<Rightarrow> go_bind (CountValues (drop (tagsize + n) b)) (\<lambda>i. Inr (Suc i)))"
  by auto

termination CountValues
  by (relation "measure length") (auto dest!: raw_readKind_progress)

declare CountValues.simps [simp del]

section \<open>Tags\<close>

lemma unat_tag: "unat (tag :: byte) + n < 256 \<Longrightarrow> unat (tag + of_nat n) = unat tag + n"
  by (simp add: unat_word_ariths)

lemma tag_diff: "n < 256 \<Longrightarrow> unat ((tag + of_nat n) - tag :: byte) = n"
  by simp

text \<open>The size of a size: between one and eight bytes, without a leading zero.\<close>

lemma min_be_size:
  assumes "\<not> n < 56" and "n < uint64_max_size"
  shows "length (min_be n) \<in> {1..8}" "min_be n ! 0 \<noteq> 0"
proof -
  have "length (min_be n) \<le> 8" using assms(2) by (intro length_min_be_le) simp
  moreover have "min_be n \<noteq> []" using assms(1) by simp
  ultimately show "length (min_be n) \<in> {1..8}" by (simp add: Suc_leI)
  show "min_be n ! 0 \<noteq> 0" using assms(1) by (intro min_be_hd) simp
qed

lemma readSize_min_be:
  assumes "\<not> n < 56" and "n < uint64_max_size"
  shows "readSize (min_be n @ rest) (length (min_be n)) = Inr n"
proof -
  have "(min_be n @ rest) ! 0 \<noteq> 0" using min_be_size [OF assms] assms(1) by (simp add: nth_append)
  then show ?thesis using min_be_size(1) [OF assms] assms(1) by (simp add: readSize_def)
qed

lemma raw_readKind_single: "x < 0x80 \<Longrightarrow> raw_readKind (x # rest) = Inr (ByteK, 0, 1)"
  by (simp add: raw_readKind_def Let_def)

lemma raw_readKind_short_string:
  assumes "n < 56" and "n \<le> length rest" and "\<not> (n = 1 \<and> rest ! 0 < 0x80)"
  shows "raw_readKind ((0x80 + of_nat n) # rest) = Inr (StringK, 1, n)"
proof -
  let ?b = "0x80 + of_nat n :: byte"
  have u: "unat ?b = 128 + n" using unat_tag [of "0x80" n] assms(1) by simp
  then have "\<not> ?b < 0x80" "?b < 0xB8" using assms(1) by (simp_all add: word_less_nat_alt)
  then show ?thesis using assms by (auto simp: raw_readKind_def Let_def)
qed

lemma raw_readKind_short_list:
  assumes "n < 56" and "n \<le> length rest"
  shows "raw_readKind ((0xC0 + of_nat n) # rest) = Inr (ListK, 1, n)"
proof -
  let ?b = "0xC0 + of_nat n :: byte"
  have u: "unat ?b = 192 + n" using unat_tag [of "0xC0" n] assms(1) by simp
  then have "\<not> ?b < 0x80" "\<not> ?b < 0xB8" "\<not> ?b < 0xC0" "?b < 0xF8"
    using assms(1) by (simp_all add: word_less_nat_alt)
  then show ?thesis using assms by (auto simp: raw_readKind_def Let_def)
qed

lemma raw_readKind_long_string:
  assumes "\<not> n < 56" and "n < uint64_max_size" and "n \<le> length rest"
  shows "raw_readKind ((0xB7 + of_nat (length (min_be n))) # min_be n @ rest)
      = Inr (StringK, Suc (length (min_be n)), n)"
proof -
  let ?l = "length (min_be n)"
  let ?b = "0xB7 + of_nat ?l :: byte"
  have l: "1 \<le> ?l" "?l \<le> 8" using min_be_size(1) [OF assms(1,2)] by simp_all
  then have u: "unat ?b = 183 + ?l" using unat_tag [of "0xB7" ?l] by simp
  then have "\<not> ?b < 0x80" "\<not> ?b < 0xB8" "?b < 0xC0" using l assms(1) by (simp_all add: word_less_nat_alt)
  moreover have "unat (?b - 0xB7) = ?l" using tag_diff [of ?l "0xB7"] l by linarith
  ultimately show ?thesis using assms readSize_min_be [OF assms(1,2), of rest]
    by (simp add: raw_readKind_def Let_def)
qed

lemma raw_readKind_long_list:
  assumes "\<not> n < 56" and "n < uint64_max_size" and "n \<le> length rest"
  shows "raw_readKind ((0xF7 + of_nat (length (min_be n))) # min_be n @ rest)
      = Inr (ListK, Suc (length (min_be n)), n)"
proof -
  let ?l = "length (min_be n)"
  let ?b = "0xF7 + of_nat ?l :: byte"
  have l: "1 \<le> ?l" "?l \<le> 8" using min_be_size(1) [OF assms(1,2)] by simp_all
  then have u: "unat ?b = 247 + ?l" using unat_tag [of "0xF7" ?l] by simp
  then have "\<not> ?b < 0x80" "\<not> ?b < 0xB8" "\<not> ?b < 0xC0" "\<not> ?b < 0xF8"
    using l assms(1) by (simp_all add: word_less_nat_alt)
  moreover have "unat (?b - 0xF7) = ?l" using tag_diff [of ?l "0xF7"] l by linarith
  ultimately show ?thesis using assms readSize_min_be [OF assms(1,2), of rest]
    by (simp add: raw_readKind_def Let_def)
qed

section \<open>Splitting undoes encoding\<close>

primrec item_kind :: "item \<Rightarrow> Kind" where
  "item_kind (Str b) = (if length b = 1 \<and> b ! 0 < 0x80 then ByteK else StringK)"
| "item_kind (Lst its) = ListK"

primrec item_content :: "item \<Rightarrow> bytes" where
  "item_content (Str b) = b"
| "item_content (Lst its) = concat (map item_enc its)"

definition item_tag :: "item \<Rightarrow> bytes" where
  "item_tag it =
     (case item_kind it of
        ByteK \<Rightarrow> []
      | StringK \<Rightarrow> hdr 0x80 0xB7 (length (item_content it))
      | ListK \<Rightarrow> hdr 0xC0 0xF7 (length (item_content it)))"

lemma item_enc_tag: "item_enc it = item_tag it @ item_content it"
  by (cases it) (auto simp: item_tag_def Let_def)

lemma raw_readKind_item:
  assumes "length (item_content it) < uint64_max_size"
  shows "raw_readKind (item_enc it @ rest) = Inr (item_kind it, length (item_tag it), length (item_content it))"
proof (cases "item_kind it")
  case ByteK
  then obtain x where "it = Str [x]" "x < 0x80"
    by (cases it) (auto simp: length_Suc_conv split: if_splits)
  then show ?thesis by (simp add: raw_readKind_single item_tag_def)
next
  case StringK
  then obtain b where it: "it = Str b" and b: "\<not> (length b = 1 \<and> b ! 0 < 0x80)"
    by (cases it) (auto split: if_splits)
  have "\<not> (length b = 1 \<and> (b @ rest) ! 0 < 0x80)" using b by (auto simp: nth_append)
  moreover have "item_tag it = hdr 0x80 0xB7 (length b)" "item_enc it = hdr 0x80 0xB7 (length b) @ b"
    using it b StringK by (auto simp: item_tag_def)
  ultimately show ?thesis
    using it StringK assms raw_readKind_short_string [of "length b" "b @ rest"] raw_readKind_long_string [of "length b" "b @ rest"]
    by (cases "length b < 56") (simp_all add: hdr_def del: item_enc.simps item_kind.simps)
next
  case ListK
  then obtain its where it: "it = Lst its" by (cases it) (auto split: if_splits)
  let ?c = "concat (map item_enc its)"
  show ?thesis
    using it assms raw_readKind_short_list [of "length ?c" "?c @ rest"] raw_readKind_long_list [of "length ?c" "?c @ rest"]
    by (cases "length ?c < 56") (simp_all add: item_tag_def hdr_def Let_def)
qed

lemma rlp_Split_item:
  assumes "length (item_content it) < uint64_max_size"
  shows "rlp_Split (item_enc it @ rest) = Inr (item_kind it, item_content it, rest)"
  using raw_readKind_item [OF assms, of rest] by (simp add: rlp_Split_def item_enc_tag)

lemma CountValues_items:
  "\<forall>it \<in> set its. length (item_content it) < uint64_max_size \<Longrightarrow>
     CountValues (concat (map item_enc its)) = Inr (length its)"
proof (induction its)
  case Nil
  show ?case by (simp add: CountValues.simps)
next
  case (Cons it its)
  let ?rest = "concat (map item_enc its)"
  have k: "raw_readKind (item_enc it @ ?rest) = Inr (item_kind it, length (item_tag it), length (item_content it))"
    using Cons.prems by (intro raw_readKind_item) simp
  then have "item_enc it @ ?rest \<noteq> []" using raw_readKind_progress by blast
  moreover have "drop (length (item_tag it) + length (item_content it)) (item_enc it @ ?rest) = ?rest"
    by (simp add: item_enc_tag)
  ultimately show ?case using k Cons by (simp add: CountValues.simps [of "item_enc it @ ?rest"] del: append_is_Nil_conv)
qed

lemma AppendUint64_item: "AppendUint64 b i = b @ item_enc (Str (min_be (unat i)))"
proof -
  have "AppendUint64 b i = b @ str (encodeUint i encbuf_reset)"
    by (simp add: AppendUint64_def encodeUint_def encbuf_reset_def putint_def Let_def)
  then show ?thesis by (simp add: encodeUint_item encbuf_reset_def del: item_enc.simps)
qed

section \<open>Only encodings are accepted\<close>

lemma readSize_InrD:
  assumes "readSize b slen = Inr n"
  shows "\<not> n < 56" "take slen b = min_be n" "slen = length (min_be n)" "n < uint64_max_size"
proof -
  have s: "slen \<le> length b" "slen \<in> {1..8}" "n = be_val (take slen b)" "\<not> n < 56" "b ! 0 \<noteq> 0"
    using assms by (auto simp: readSize_def Let_def split: if_splits)
  show "\<not> n < 56" by (rule s(4))
  show t: "take slen b = min_be n" using s min_be_be_val [of "take slen b"] by simp
  show "slen = length (min_be n)" using s(1) by (simp flip: t)
  have "n < 256 ^ length (take slen b)" using be_val_less [of "take slen b"] s(3) by simp
  also have "\<dots> \<le> 256 ^ 8" using s(2) by (intro power_increasing) auto
  finally show "n < uint64_max_size" by simp
qed

lemma tag_split: "(b :: byte) = tag + of_nat (unat (b - tag))"
  by simp

lemma raw_readKind_canonical:
  assumes "raw_readKind b = Inr (k, ts, cs)"
  shows "ts + cs \<le> length b \<and>
    (case k of
       ByteK \<Rightarrow> ts = 0 \<and> cs = 1 \<and> b ! 0 < 0x80
     | StringK \<Rightarrow> take ts b = hdr 0x80 0xB7 cs \<and> \<not> (cs = 1 \<and> b ! ts < 0x80)
     | ListK \<Rightarrow> take ts b = hdr 0xC0 0xF7 cs)"
proof -
  obtain x xs where b: "b = x # xs" using raw_readKind_progress [OF assms] by (cases b) auto
  have long: ?thesis
    if r: "readSize xs (unat (x - tag)) = Inr cs" and k: "k = StringK \<and> tag = 0xB7 \<or> k = ListK \<and> tag = 0xF7"
      and ts: "ts = Suc (unat (x - tag))" and cs: "cs \<le> length b - ts" for tag
  proof -
    note d = readSize_InrD [OF r]
    have "x = tag + of_nat (length (min_be cs))" using tag_split [of x tag] d(3) by simp
    then have "take ts b = (tag + of_nat (length (min_be cs))) # min_be cs" using b ts d(2) by simp
    moreover have "unat (x - tag) \<le> length xs" using r by (auto simp: readSize_def split: if_splits)
    ultimately show ?thesis using k d(1) cs ts b by (auto simp: hdr_def)
  qed
  have short: "hdr tag' large (unat (x - tag')) = [x]" if "unat (x - tag') < 56" for tag' large
    using that by (simp add: hdr_def)
  consider "x < 0x80" | "\<not> x < 0x80" "x < 0xB8" | "\<not> x < 0xB8" "x < 0xC0"
    | "\<not> x < 0xC0" "x < 0xF8" | "\<not> x < 0xF8" by blast
  then show ?thesis
  proof cases
    case 1
    then show ?thesis using assms b by (auto simp: raw_readKind_def Let_def)
  next
    case 2
    have "unat (x - 0x80) < 56" using 2 by (simp add: word_less_nat_alt unat_sub_if')
    then show ?thesis
      using assms b 2 short [of "0x80" "0xB7"] by (auto simp: raw_readKind_def Let_def split: if_splits)
  next
    case 3
    have "\<not> x < 0x80" using 3 by (simp add: word_less_nat_alt)
    then show ?thesis
      using assms b 3 by (intro long [of "0xB7"]) (auto simp: raw_readKind_def Let_def elim!: go_bind_InrE split: if_splits)
  next
    case 4
    have n: "\<not> x < 0x80" "\<not> x < 0xB8" using 4 by (simp_all add: word_less_nat_alt)
    have "unat (x - 0xC0) < 56" using 4 by (simp add: word_less_nat_alt unat_sub_if')
    then show ?thesis
      using assms b 4 n short [of "0xC0" "0xF7"] by (auto simp: raw_readKind_def Let_def split: if_splits)
  next
    case 5
    have "\<not> x < 0x80" "\<not> x < 0xB8" "\<not> x < 0xC0" using 5 by (simp_all add: word_less_nat_alt)
    then show ?thesis
      using assms b 5 by (intro long [of "0xF7"]) (auto simp: raw_readKind_def Let_def elim!: go_bind_InrE split: if_splits)
  qed
qed

lemma take_content: "ts + cs \<le> length b \<Longrightarrow> b = take ts b @ take cs (drop ts b) @ drop (ts + cs) b"
  by (metis append.assoc append_take_drop_id take_add)

lemma rlp_Split_canonical:
  assumes "rlp_Split b = Inr (k, c, r)"
  shows "(k = ListK \<longrightarrow> b = hdr 0xC0 0xF7 (length c) @ c @ r) \<and>
         (k \<noteq> ListK \<longrightarrow> b = item_enc (Str c) @ r \<and> k = item_kind (Str c))"
proof -
  obtain ts cs where rk: "raw_readKind b = Inr (k, ts, cs)"
    and c: "c = take cs (drop ts b)" and r: "r = drop (ts + cs) b"
    using assms by (auto simp: rlp_Split_def elim!: go_bind_InrE)
  note can = raw_readKind_canonical [OF rk]
  then have b: "b = take ts b @ c @ r" and len: "length c = cs" using take_content [of ts cs b] c r by auto
  show ?thesis
  proof (cases k)
    case ByteK
    then have "c = [b ! 0]" and "b ! 0 < 0x80" "take ts b = []"
      using can c raw_readKind_progress [OF rk] by (auto simp: take_Suc_conv_app_nth)
    with b ByteK show ?thesis by auto
  next
    case StringK
    have "c ! 0 = b ! ts" if "cs = 1" using c len that can by simp
    then have "\<not> (length c = 1 \<and> c ! 0 < 0x80)" using can StringK len by auto
    moreover have "take ts b = hdr 0x80 0xB7 (length c)" using can StringK len by simp
    ultimately show ?thesis using b StringK by auto
  next
    case ListK
    with can b len show ?thesis by simp
  qed
qed

lemma rlp_Split_list_content:
  assumes "length c < uint64_max_size"
  shows "rlp_Split (hdr 0xC0 0xF7 (length c) @ c @ r) = Inr (ListK, c, r)"
  using assms raw_readKind_short_list [of "length c" "c @ r"] raw_readKind_long_list [of "length c" "c @ r"]
  by (cases "length c < 56") (simp_all add: rlp_Split_def hdr_def)

text \<open>
  C26: \<open>Split\<close> accepts exactly the canonical encodings: it returns a kind, a content and a rest
  if and only if the slice is the one encoding of that content followed by the rest, so no
  value has two encodings and splitting is the inverse of encoding.
\<close>

theorem rlp_Split_exact:
  assumes "length b < 2 ^ 64"
  shows "rlp_Split b = Inr (k, c, r) \<longleftrightarrow>
    (if k = ListK then b = hdr 0xC0 0xF7 (length c) @ c @ r
     else b = item_enc (Str c) @ r \<and> k = item_kind (Str c))"
proof
  assume "rlp_Split b = Inr (k, c, r)"
  from rlp_Split_canonical [OF this]
  show "if k = ListK then b = hdr 0xC0 0xF7 (length c) @ c @ r
        else b = item_enc (Str c) @ r \<and> k = item_kind (Str c)" by auto
next
  assume enc: "if k = ListK then b = hdr 0xC0 0xF7 (length c) @ c @ r
     else b = item_enc (Str c) @ r \<and> k = item_kind (Str c)"
  then have "length c \<le> length b" using length_Str_le [of c] by (auto split: if_splits simp del: item_enc.simps)
  then have "length c < uint64_max_size" using assms by simp
  then show "rlp_Split b = Inr (k, c, r)"
    using enc rlp_Split_list_content rlp_Split_item [of "Str c" r]
    by (auto split: if_splits simp del: item_enc.simps item_kind.simps)
qed

theorem rlp_Split_exact_witness:
  "rlp_Split [0x82, 1, 2, 3] = Inr (StringK, [1, 2], [3]) \<and> rlp_Split [0x81, 5] \<noteq> Inr (StringK, [5], [])"
proof
  show "rlp_Split [0x82, 1, 2, 3] = Inr (StringK, [1, 2], [3])"
    using rlp_Split_exact [of "[0x82, 1, 2, 3]" StringK "[1, 2]" "[3]"] by (simp add: hdr_def)
  show "rlp_Split [0x81, 5] \<noteq> Inr (StringK, [5], [])"
    using rlp_Split_exact [of "[0x81, 5]" StringK "[5]" "[]"] by (simp add: hdr_def)
qed

text \<open>
  Integers, sizes and value counts of the slice functions: \<open>AppendUint64\<close> appends what the
  buffered writer writes, \<open>IntSize\<close> is the length of that, \<open>ListSize\<close> the length of an encoded
  list with the given content, \<open>SplitUint64\<close> reads every 64-bit integer back with the bytes after
  it, and \<open>CountValues\<close> of a sequence of encoded values is its length.
\<close>

theorem AppendUint64_SplitUint64:
  "AppendUint64 b i = b @ str (encodeUint i encbuf_reset) \<and> IntSize i = length (AppendUint64 [] i) \<and>
   (length (item_enc (Lst its)) < 2 ^ 64 \<longrightarrow>
      unat (ListSize (of_nat (length (item_content (Lst its))))) = length (item_enc (Lst its))) \<and>
   SplitUint64 (AppendUint64 [] i @ rest) = Inr (i, rest) \<and>
   (list_all (\<lambda>it. length (item_content it) < 2 ^ 64) its \<longrightarrow> CountValues (concat (map item_enc its)) = Inr (length its))"
proof (intro conjI impI)
  show "AppendUint64 b i = b @ str (encodeUint i encbuf_reset)"
    by (simp add: AppendUint64_item encodeUint_item encbuf_reset_def del: item_enc.simps)
  show "IntSize i = length (AppendUint64 [] i)"
  proof -
    have "AppendUint64 [] i = str (encodeUint i encbuf_reset)"
      by (simp add: AppendUint64_item encodeUint_item encbuf_reset_def del: item_enc.simps)
    then show ?thesis by (auto simp: IntSize_def intsize_putint encodeUint_def Let_def encbuf_reset_def)
  qed
  show "unat (ListSize (of_nat (length (item_content (Lst its))))) = length (item_enc (Lst its))"
    if l: "length (item_enc (Lst its)) < 2 ^ 64"
  proof -
    let ?c = "item_content (Lst its)"
    have e: "length (item_enc (Lst its)) = length (hdr 0xC0 0xF7 (length ?c)) + length ?c" by (simp add: Let_def)
    have "ListSize (of_nat (length ?c)) = of_nat (length (item_enc (Lst its)))"
      using headsize_hdr [of "length ?c" "0xC0" "0xF7"] l e by (simp add: ListSize_def)
    then show ?thesis using l unat_of_nat64 [of "length (item_enc (Lst its))"] by simp
  qed
  show "SplitUint64 (AppendUint64 [] i @ rest) = Inr (i, rest)"
  proof -
    let ?m = "min_be (unat i)"
    have len: "length ?m \<le> 8" by (rule length_min_be_le) (use word_unat_less [of i] in simp)
    have split: "SplitString (AppendUint64 [] i @ rest) = Inr (?m, rest)"
      using rlp_Split_item [of "Str ?m" rest] len
      by (simp add: SplitString_def AppendUint64_item del: item_enc.simps)
    consider "i = 0" | "0 < unat i" "unat i < 256" | "256 \<le> unat i" by (metis leI neq0_conv unat_0_iff)
    then show ?thesis
    proof cases
      case 1
      then show ?thesis using split by (simp add: SplitUint64_def)
    next
      case 2
      then have m: "?m = [of_nat (unat i)]" by (rule min_be_single)
      have "?m ! 0 \<noteq> 0" using 2 by (intro min_be_hd) simp
      moreover have "unat (?m ! 0) = unat i" using 2 unat_of_nat_byte [of "unat i"] unfolding m by simp
      moreover have "length ?m = 1" unfolding m by simp
      ultimately show ?thesis using split 2(1) by (simp add: SplitUint64_def del: One_nat_def)
    next
      case 3
      then have "1 < length ?m" using length_min_be_ge [of 1 "unat i"] by simp
      moreover have "readSize ?m (length ?m) = Inr (unat i)"
        using readSize_min_be [of "unat i" "[]"] 3 word_unat_less [of i] by simp
      ultimately show ?thesis using split len 3 by (simp add: SplitUint64_def)
    qed
  qed
  show "CountValues (concat (map item_enc its)) = Inr (length its)"
    if "list_all (\<lambda>it. length (item_content it) < 2 ^ 64) its"
    using that by (intro CountValues_items) (simp add: list_all_iff)
qed

theorem AppendUint64_SplitUint64_witness:
  "SplitUint64 (AppendUint64 [] 1024 @ [7]) = Inr (1024, [7]) \<and>
   CountValues (concat (map item_enc [Str [5], Lst [Str []], Str [1, 2]])) = Inr 3"
proof
  show "SplitUint64 (AppendUint64 [] 1024 @ [7]) = Inr (1024, [7])"
    using AppendUint64_SplitUint64 [where rest = "[7]" and i = 1024] by blast
  show "CountValues (concat (map item_enc [Str [5], Lst [Str []], Str [1, 2]])) = Inr 3"
    using AppendUint64_SplitUint64 [where its = "[Str [5], Lst [Str []], Str [1, 2]]"]
    by (simp add: hdr_def)
qed

end
