(* ===== verification/Rlp_Decode.thy ===== *)
theory Rlp_Decode
  imports Rlp_Raw
begin

text \<open>
  The stream decoder of \<open>rlp/decode.go\<close>. A \<open>Stream\<close> is its input, the number of input bytes it
  may still read, the sizes of the lists it is inside of (innermost first; the numbers are
  64-bit and wrap) and the tag it has read ahead (kind, size and byte value; \<open>None\<close> is
  \<open>s.kind == -1\<close>). \<open>makeDecoder\<close> builds the decoder of a type out of those of its parts. The
  stream reads from a byte slice, so it is always limited, and an error ends the decoding, so the state after an error is
  not kept: the one error that is handled, the end of a list, is raised before the stream
  changes.
\<close>

section \<open>The stream\<close>

record Stream =
  inp :: bytes
  remaining :: uint64
  stack :: "uint64 list"
  ahead :: "(Kind \<times> uint64 \<times> byte) option"

type_synonym 'a stream_op = "Stream \<Rightarrow> rlp_error + ('a \<times> Stream)"

definition Stream_Reset :: "bytes \<Rightarrow> Stream" where
  "Stream_Reset b = \<lparr>inp = b, remaining = of_nat (length b), stack = [], ahead = None\<rparr>"

definition listLimit :: "Stream \<Rightarrow> bool \<times> uint64" where
  "listLimit s = (case stack s of [] \<Rightarrow> (False, 0) | l # _ \<Rightarrow> (True, l))"

definition willRead :: "uint64 \<Rightarrow> Stream \<Rightarrow> rlp_error + Stream" where
  "willRead n s =
     (let s = s\<lparr>ahead := None\<rparr>; (inList, limit) = listLimit s
      in if inList \<and> n > limit then Inl ErrElemTooLarge
         else let s = (if inList then s\<lparr>stack := (limit - n) # tl (stack s)\<rparr> else s)
              in if n > remaining s then Inl ErrValueTooLarge
                 else Inr (s\<lparr>remaining := remaining s - n\<rparr>))"

definition readByte :: "byte stream_op" where
  "readByte s =
     go_bind (willRead 1 s) (\<lambda>s.
       case inp s of [] \<Rightarrow> Inl ErrUnexpectedEOF | b # bs \<Rightarrow> Inr (b, s\<lparr>inp := bs\<rparr>))"

definition readFull :: "uint64 \<Rightarrow> bytes stream_op" where
  "readFull n s =
     go_bind (willRead n s) (\<lambda>s.
       if unat n > length (inp s) then Inl ErrUnexpectedEOF
       else Inr (take (unat n) (inp s), s\<lparr>inp := drop (unat n) (inp s)\<rparr>))"

definition readUint :: "nat \<Rightarrow> uint64 stream_op" where
  "readUint n s =
     (if n = 0 then Inr (0, s\<lparr>ahead := None\<rparr>)
      else if n = 1 then go_bind (readByte s) (\<lambda>(b, s). Inr (of_nat (unat b), s))
      else go_bind (readFull (of_nat n) s) (\<lambda>(buffer, s).
             if buffer ! 0 = 0 then Inl ErrCanonSize else Inr (of_nat (be_val buffer), s)))"

definition readKind :: "(Kind \<times> uint64 \<times> byte) stream_op" where
  "readKind s =
     (case readByte s of
        Inl err \<Rightarrow>
          Inl (if stack s = [] \<and> (err = ErrUnexpectedEOF \<or> err = ErrValueTooLarge) then io_EOF else err)
      | Inr (b, s) \<Rightarrow>
          if b < 0x80 then Inr ((ByteK, 0, b), s)
          else if b < 0xB8 then Inr ((StringK, of_nat (unat (b - 0x80)), 0), s)
          else if b < 0xC0 then
            go_bind (readUint (unat (b - 0xB7)) s) (\<lambda>(n, s).
              if n < 56 then Inl ErrCanonSize else Inr ((StringK, n, 0), s))
          else if b < 0xF8 then Inr ((ListK, of_nat (unat (b - 0xC0)), 0), s)
          else
            go_bind (readUint (unat (b - 0xF7)) s) (\<lambda>(n, s).
              if n < 56 then Inl ErrCanonSize else Inr ((ListK, n, 0), s)))"

definition Stream_Kind :: "(Kind \<times> uint64 \<times> byte) stream_op" where
  "Stream_Kind s =
     (case ahead s of
        Some k \<Rightarrow> Inr (k, s)
      | None \<Rightarrow>
          let (inList, limit) = listLimit s
          in if inList \<and> limit = 0 then Inl EOL
             else go_bind (readKind s) (\<lambda>((kind, n, v), s).
                    if inList \<and> n > limit then Inl ErrElemTooLarge
                    else if n > remaining s then Inl ErrValueTooLarge
                    else Inr ((kind, n, v), s\<lparr>ahead := Some (kind, n, v)\<rparr>)))"

definition Stream_Bytes :: "bytes stream_op" where
  "Stream_Bytes s =
     go_bind (Stream_Kind s) (\<lambda>((kind, n, v), s).
       case kind of
         ByteK \<Rightarrow> Inr ([v], s\<lparr>ahead := None\<rparr>)
       | StringK \<Rightarrow>
           go_bind (readFull n s) (\<lambda>(b, s).
             if n = 1 \<and> b ! 0 < 128 then Inl ErrCanonSize else Inr (b, s))
       | ListK \<Rightarrow> Inl ErrExpectedString)"

definition Stream_Raw :: "bytes stream_op" where
  "Stream_Raw s =
     go_bind (Stream_Kind s) (\<lambda>((kind, n, v), s).
       if kind = ByteK then Inr ([v], s\<lparr>ahead := None\<rparr>)
       else go_bind (readFull n s) (\<lambda>(b, s).
              Inr ((if kind = StringK then puthead 0x80 0xB7 n else puthead 0xC0 0xF7 n) @ b, s)))"

definition Stream_uint :: "nat \<Rightarrow> uint64 stream_op" where
  "Stream_uint maxbits s =
     go_bind (Stream_Kind s) (\<lambda>((kind, n, byteval), s).
       case kind of
         ByteK \<Rightarrow> if byteval = 0 then Inl ErrCanonInt else Inr (of_nat (unat byteval), s\<lparr>ahead := None\<rparr>)
       | StringK \<Rightarrow>
           if n > of_nat (maxbits div 8) then Inl errUintOverflow
           else (case readUint (unat n) s of
                   Inl err \<Rightarrow> Inl (if err = ErrCanonSize then ErrCanonInt else err)
                 | Inr (v, s) \<Rightarrow> if n > 0 \<and> v < 128 then Inl ErrCanonSize else Inr (v, s))
       | ListK \<Rightarrow> Inl ErrExpectedString)"

definition Stream_Bool :: "bool stream_op" where
  "Stream_Bool s =
     go_bind (Stream_uint 8 s) (\<lambda>(num, s).
       if num = 0 then Inr (False, s) else if num = 1 then Inr (True, s) else Inl errInvalidBool)"

definition Stream_List :: "uint64 stream_op" where
  "Stream_List s =
     go_bind (Stream_Kind s) (\<lambda>((kind, n, v), s).
       if kind \<noteq> ListK then Inl ErrExpectedList
       else let (inList, limit) = listLimit s;
                s = (if inList then s\<lparr>stack := (limit - n) # tl (stack s)\<rparr> else s)
            in Inr (n, s\<lparr>stack := n # stack s, ahead := None\<rparr>))"

definition Stream_ListEnd :: "Stream \<Rightarrow> rlp_error + Stream" where
  "Stream_ListEnd s =
     (let (inList, limit) = listLimit s
      in if \<not> inList then Inl errNotInList
         else if limit > 0 then Inl errNotAtEOL
         else Inr (s\<lparr>stack := tl (stack s), ahead := None\<rparr>))"

section \<open>Decoders\<close>

type_synonym decoder = "rlp_val stream_op"

definition wrapStreamError :: "rlp_error \<Rightarrow> rlp_error" where
  "wrapStreamError err =
     (case err of
        ErrCanonInt \<Rightarrow> decodeError ''non-canonical integer (leading zero bytes)''
      | ErrCanonSize \<Rightarrow> decodeError ''non-canonical size information''
      | ErrExpectedList \<Rightarrow> decodeError ''expected input list''
      | ErrExpectedString \<Rightarrow> decodeError ''expected input string or byte''
      | errUintOverflow \<Rightarrow> decodeError ''input string too long''
      | errNotAtEOL \<Rightarrow> decodeError ''input list has too many elements''
      | _ \<Rightarrow> err)"

definition wrapped :: "rlp_error + 'a \<Rightarrow> rlp_error + 'a" where
  "wrapped r = (case r of Inl err \<Rightarrow> Inl (wrapStreamError err) | Inr x \<Rightarrow> Inr x)"

definition decodeUint :: "nat \<Rightarrow> decoder" where
  "decodeUint bits s = go_bind (wrapped (Stream_uint bits s)) (\<lambda>(num, s). Inr (UintV num, s))"

definition decodeBool :: decoder where
  "decodeBool s = go_bind (wrapped (Stream_Bool s)) (\<lambda>(b, s). Inr (BoolV b, s))"

definition decodeBigInt :: decoder where
  "decodeBigInt s =
     go_bind (wrapped (Stream_Kind s)) (\<lambda>((kind, n, byteval), s).
       go_bind
         (if kind = ListK then Inl (wrapStreamError ErrExpectedString)
          else if kind = ByteK then Inr ([byteval], s\<lparr>ahead := None\<rparr>)
          else if n = 0 then Inr ([], s\<lparr>ahead := None\<rparr>)
          else if n \<le> 32 then
            go_bind (wrapped (readFull n s)) (\<lambda>(buffer, s).
              if n = 1 \<and> buffer ! 0 < 128 then Inl (wrapStreamError ErrCanonSize) else Inr (buffer, s))
          else wrapped (readFull n s))
         (\<lambda>(buffer, s).
            if length buffer > 0 \<and> buffer ! 0 = 0 then Inl (wrapStreamError ErrCanonInt)
            else Inr (BigV (int (be_val buffer)), s)))"

definition decodeByteSlice :: decoder where
  "decodeByteSlice s = go_bind (wrapped (Stream_Bytes s)) (\<lambda>(b, s). Inr (BytesV b, s))"

definition decodeByteArray :: "nat \<Rightarrow> decoder" where
  "decodeByteArray len s =
     go_bind (Stream_Kind s) (\<lambda>((kind, n, byteval), s).
       case kind of
         ByteK \<Rightarrow>
           if len = 0 then Inl (decodeError ''input string too long'')
           else if len > 1 then Inl (decodeError ''input string too short'')
           else Inr (BytesV [byteval], s\<lparr>ahead := None\<rparr>)
       | StringK \<Rightarrow>
           if len < unat n then Inl (decodeError ''input string too long'')
           else if len > unat n then Inl (decodeError ''input string too short'')
           else go_bind (readFull n s) (\<lambda>(slic, s).
                  if n = 1 \<and> slic ! 0 < 128 then Inl (wrapStreamError ErrCanonSize) else Inr (BytesV slic, s))
       | ListK \<Rightarrow> Inl (wrapStreamError ErrExpectedString))"

text \<open>
  The element loop ends when the element decoder reports the end of the list. An element
  takes at least one byte of the input, so one more round than there are bytes is enough.
\<close>

fun elems_loop :: "nat \<Rightarrow> decoder \<Rightarrow> rlp_val list stream_op" where
  "elems_loop 0 elemdec s = Inl OutOfFuel"
| "elems_loop (Suc fuel) elemdec s =
     (case elemdec s of
        Inl err \<Rightarrow> if err = EOL then Inr ([], s) else Inl err
      | Inr (v, s) \<Rightarrow> go_bind (elems_loop fuel elemdec s) (\<lambda>(vs, s). Inr (v # vs, s)))"

definition decodeSliceElems :: "decoder \<Rightarrow> rlp_val list stream_op" where
  "decodeSliceElems elemdec s = elems_loop (Suc (length (inp s))) elemdec s"

definition decodeListSlice :: "decoder \<Rightarrow> decoder" where
  "decodeListSlice elemdec s =
     go_bind (wrapped (Stream_List s)) (\<lambda>(n, s).
       if n = 0 then go_bind (Stream_ListEnd s) (\<lambda>s. Inr (ListV [], s))
       else go_bind (decodeSliceElems elemdec s) (\<lambda>(vs, s).
              go_bind (Stream_ListEnd s) (\<lambda>s. Inr (ListV vs, s))))"

fun array_loop :: "nat \<Rightarrow> decoder \<Rightarrow> rlp_val list stream_op" where
  "array_loop 0 elemdec s = Inr ([], s)"
| "array_loop (Suc n) elemdec s =
     (case elemdec s of
        Inl err \<Rightarrow> Inl (if err = EOL then decodeError ''input list has too few elements'' else err)
      | Inr (v, s) \<Rightarrow> go_bind (array_loop n elemdec s) (\<lambda>(vs, s). Inr (v # vs, s)))"

definition decodeListArray :: "nat \<Rightarrow> decoder \<Rightarrow> decoder" where
  "decodeListArray vlen elemdec s =
     go_bind (wrapped (Stream_List s)) (\<lambda>(n, s).
       go_bind (array_loop vlen elemdec s) (\<lambda>(vs, s).
         go_bind (wrapped (Stream_ListEnd s)) (\<lambda>s. Inr (ListV vs, s))))"

fun fields_loop :: "decoder list \<Rightarrow> rlp_val list stream_op" where
  "fields_loop [] s = Inr ([], s)"
| "fields_loop (f # fs) s =
     (case f s of
        Inl err \<Rightarrow> Inl (if err = EOL then decodeError ''too few elements'' else err)
      | Inr (v, s) \<Rightarrow> go_bind (fields_loop fs s) (\<lambda>(vs, s). Inr (v # vs, s)))"

definition makeStructDecoder :: "decoder list \<Rightarrow> decoder" where
  "makeStructDecoder fs s =
     go_bind (wrapped (Stream_List s)) (\<lambda>(n, s).
       go_bind (fields_loop fs s) (\<lambda>(vs, s).
         go_bind (wrapped (Stream_ListEnd s)) (\<lambda>s. Inr (ListV vs, s))))"

definition makeNilPtrDecoder :: "Kind \<Rightarrow> decoder \<Rightarrow> decoder" where
  "makeNilPtrDecoder nilKind elemdec s =
     go_bind (wrapped (Stream_Kind s)) (\<lambda>((kind, n, v), s).
       if kind \<noteq> ByteK \<and> n = 0 then
         if kind \<noteq> nilKind then Inl (decodeError ''wrong kind of empty value'')
         else Inr (NilV, s\<lparr>ahead := None\<rparr>)
       else elemdec s)"

primrec makeDecoder :: "rlp_type \<Rightarrow> decoder" where
  "makeDecoder (UintT bits) = decodeUint bits"
| "makeDecoder BoolT = decodeBool"
| "makeDecoder BigIntT = decodeBigInt"
| "makeDecoder BytesT = decodeByteSlice"
| "makeDecoder (ByteArrayT n) = decodeByteArray n"
| "makeDecoder (SliceT t) = decodeListSlice (makeDecoder t)"
| "makeDecoder (ArrayT n t) = decodeListArray n (makeDecoder t)"
| "makeDecoder (StructT ts) = makeStructDecoder (map makeDecoder ts)"
| "makeDecoder (PtrT t) = makeDecoder t"
| "makeDecoder (NilPtrT k t) = makeNilPtrDecoder k (makeDecoder t)"

definition DecodeBytes :: "rlp_type \<Rightarrow> bytes \<Rightarrow> rlp_error + rlp_val" where
  "DecodeBytes t b =
     go_bind (makeDecoder t (Stream_Reset b)) (\<lambda>(v, s).
       if length (inp s) > 0 then Inl ErrMoreThanOneValue else Inr v)"

section \<open>Reading\<close>

text \<open>
  \<open>room s n\<close>: the next \<open>n\<close> bytes are there and lie within the innermost list. \<open>advance n s\<close> is
  the stream after they have been read.
\<close>

definition room :: "Stream \<Rightarrow> nat \<Rightarrow> bool" where
  "room s n \<longleftrightarrow> remaining s = of_nat (length (inp s)) \<and> length (inp s) < uint64_max_size \<and> n \<le> length (inp s)
     \<and> (case stack s of [] \<Rightarrow> True | l # _ \<Rightarrow> n \<le> unat l)"

definition advance :: "nat \<Rightarrow> Stream \<Rightarrow> Stream" where
  "advance n s = s\<lparr>inp := drop n (inp s), remaining := remaining s - of_nat n,
     stack := (case stack s of [] \<Rightarrow> [] | l # ls \<Rightarrow> (l - of_nat n) # ls), ahead := None\<rparr>"

lemma advance_simps [simp]:
  "inp (advance n s) = drop n (inp s)" "remaining (advance n s) = remaining s - of_nat n"
  "stack (advance n s) = (case stack s of [] \<Rightarrow> [] | l # ls \<Rightarrow> (l - of_nat n) # ls)" "ahead (advance n s) = None"
  "advance m (s\<lparr>ahead := a\<rparr>) = advance m s" "(advance m s)\<lparr>ahead := None\<rparr> = advance m s"
  by (simp_all add: advance_def)

lemma advance_advance: "advance m (advance n s) = advance (n + m) s"
  by (cases "stack s") (simp_all add: advance_def add.commute)

lemma room_ahead [simp]: "room (s\<lparr>ahead := a\<rparr>) n = room s n"
  by (simp add: room_def)

lemma room_mono: "room s n \<Longrightarrow> m \<le> n \<Longrightarrow> room s m"
  by (auto simp: room_def split: list.splits)

lemma unat_minus_of_nat: "n \<le> unat (l :: uint64) \<Longrightarrow> unat (l - of_nat n) = unat l - n"
proof -
  assume n: "n \<le> unat l"
  then have "n < uint64_max_size" using word_unat_less [of l] by simp
  then have u: "unat (of_nat n :: uint64) = n" by (rule unat_of_nat64)
  then have "of_nat n \<le> l" using n by (simp add: word_le_nat_alt)
  then show ?thesis using u by (simp add: unat_sub)
qed

lemma room_advance: "room s (n + m) \<Longrightarrow> room (advance n s) m"
  by (cases "stack s") (auto simp: room_def of_nat_diff unat_minus_of_nat)

lemma willRead_room:
  assumes "room s n"
  shows "willRead (of_nat n) s = Inr (advance n s\<lparr>inp := inp s\<rparr>)"
proof -
  have n: "unat (of_nat n :: uint64) = n" using assms by (intro unat_of_nat64) (auto simp: room_def)
  have "\<not> of_nat n > remaining s"
    using assms n by (simp add: room_def word_less_nat_alt unat_of_nat64)
  moreover have "\<not> of_nat n > l" if "stack s = l # ls" for l ls
    using assms n that by (simp add: room_def word_less_nat_alt)
  ultimately show ?thesis
    by (cases "stack s") (simp_all add: willRead_def listLimit_def Let_def advance_def)
qed

lemma readFull_room: "room s n \<Longrightarrow> readFull (of_nat n) s = Inr (take n (inp s), advance n s)"
proof -
  assume r: "room s n"
  then have n: "unat (of_nat n :: uint64) = n" by (intro unat_of_nat64) (auto simp: room_def)
  have "n \<le> length (inp s)" using r by (simp add: room_def)
  then show ?thesis
    unfolding readFull_def willRead_room [OF r] go_bind_simps n by (simp add: advance_def)
qed

lemma readByte_room: "room s 1 \<Longrightarrow> inp s = b # bs \<Longrightarrow> readByte s = Inr (b, advance 1 s)"
  using willRead_room [of s 1] by (simp add: readByte_def advance_def)

lemma readUint_min_be:
  assumes "room s (length (min_be n))" and "inp s = min_be n @ rest" and "0 < n" and "n < uint64_max_size"
  shows "readUint (length (min_be n)) s = Inr (of_nat n, advance (length (min_be n)) s)"
proof (cases "length (min_be n) = 1")
  case True
  then obtain b where b: "min_be n = [b]" by (auto simp: length_Suc_conv)
  then have "unat b = n" using be_val_min_be [of n] be_val_snoc [of "[]" b] by simp
  then have "(of_nat n :: uint64) = ucast b" by auto
  then show ?thesis using True assms b readByte_room [of s b rest] by (simp add: readUint_def)
next
  case False
  have "min_be n ! 0 \<noteq> 0" using assms(3) by (intro min_be_hd) simp
  then show ?thesis using False assms readFull_room [OF assms(1)] by (simp add: readUint_def)
qed

section \<open>Reading a tag\<close>

text \<open>What \<open>Kind\<close> reports for the next item, and how many bytes it reads.\<close>

definition item_size :: "item \<Rightarrow> nat" where
  "item_size it = (if item_kind it = ByteK then 0 else length (item_content it))"

definition item_head :: "item \<Rightarrow> nat" where
  "item_head it = length (item_enc it) - item_size it"

definition item_ahead :: "item \<Rightarrow> Kind \<times> uint64 \<times> byte" where
  "item_ahead it =
     (item_kind it, of_nat (item_size it), if item_kind it = ByteK then item_content it ! 0 else 0)"

definition at_item :: "Stream \<Rightarrow> item \<Rightarrow> bytes \<Rightarrow> bool" where
  "at_item s it rest \<longleftrightarrow> ahead s = None \<and> inp s = item_enc it @ rest \<and> room s (length (item_enc it))"

lemma item_head_pos: "0 < item_head it" and item_head_size: "item_head it + item_size it = length (item_enc it)"
  by (cases it; auto simp: item_head_def item_size_def Let_def)+

lemma item_size_less: "length (item_enc it) < uint64_max_size \<Longrightarrow> item_size it < uint64_max_size"
  using item_head_size [of it] by linarith

text \<open>The four ranges of the tag byte.\<close>

lemma readKind_short:
  assumes "room s 1" and "inp s = (tag + of_nat n) # bs" and "n < 56" and "tag = 0x80 \<or> tag = 0xC0"
  shows "readKind s = Inr ((if tag = 0x80 then StringK else ListK, of_nat n, 0), advance 1 s)"
proof -
  let ?b = "tag + of_nat n :: byte"
  have u: "unat ?b = unat tag + n" using assms(3,4) by (intro unat_tag) auto
  have d: "unat (?b - tag) = n" using assms(3) by (intro tag_diff) simp
  have r: "readByte s = Inr (?b, advance 1 s)" using assms(1,2) by (rule readByte_room)
  from assms(4) show ?thesis
  proof
    assume t: "tag = 0x80"
    then have "\<not> ?b < 0x80" "?b < 0xB8" using u assms(3) by (simp_all add: word_less_nat_alt)
    then show ?thesis using r d t by (simp add: readKind_def)
  next
    assume t: "tag = 0xC0"
    then have "\<not> ?b < 0x80" "\<not> ?b < 0xB8" "\<not> ?b < 0xC0" "?b < 0xF8"
      using u assms(3) by (simp_all add: word_less_nat_alt)
    then show ?thesis using r d t by (simp add: readKind_def)
  qed
qed

lemma readKind_long:
  assumes "inp s = (tag + of_nat (length (min_be n))) # min_be n @ bs" and "room s (Suc (length (min_be n)))"
    and "\<not> n < 56" and "n < uint64_max_size" and "tag = 0xB7 \<or> tag = 0xF7"
  shows "readKind s = Inr ((if tag = 0xB7 then StringK else ListK, of_nat n, 0), advance (Suc (length (min_be n))) s)"
proof -
  let ?l = "length (min_be n)"
  let ?b = "tag + of_nat ?l :: byte"
  have l: "1 \<le> ?l" "?l \<le> 8" using min_be_size(1) [OF assms(3,4)] by simp_all
  have u: "unat ?b = unat tag + ?l" using l assms(5) by (intro unat_tag) auto
  have d: "unat (?b - tag) = ?l" using l by (intro tag_diff) simp
  have r: "readByte s = Inr (?b, advance 1 s)" using room_mono [OF assms(2), of 1] assms(1) by (intro readByte_room) simp_all
  have "room (advance 1 s) ?l" using assms(2) by (intro room_advance) simp
  then have ru: "readUint ?l (advance 1 s) = Inr (of_nat n, advance (Suc ?l) s)"
    using readUint_min_be [of "advance 1 s" n bs] assms(1,3,4) by (simp add: advance_advance)
  have ge: "\<not> (of_nat n :: uint64) < 56" using assms(3,4) of_nat_less_56 by simp
  from assms(5) show ?thesis
  proof
    assume t: "tag = 0xB7"
    then have "\<not> ?b < 0x80" "\<not> ?b < 0xB8" "?b < 0xC0" using u l assms(3) by (simp_all add: word_less_nat_alt)
    then show ?thesis using r d t ru ge by (simp add: readKind_def)
  next
    assume t: "tag = 0xF7"
    then have "\<not> ?b < 0x80" "\<not> ?b < 0xB8" "\<not> ?b < 0xC0" "\<not> ?b < 0xF8"
      using u l assms(3) by (simp_all add: word_less_nat_alt)
    then show ?thesis using r d t ru ge by (simp add: readKind_def)
  qed
qed

lemma readKind_item:
  assumes "at_item s it rest"
  shows "readKind s = Inr (item_ahead it, advance (item_head it) s)"
proof -
  have inp: "inp s = item_enc it @ rest" and room: "room s (length (item_enc it))"
    using assms by (auto simp: at_item_def)
  have small: "length (item_enc it) < uint64_max_size" using room inp by (simp add: room_def)
  have one: "room s 1" using room_mono [OF room] item_head_pos [of it] item_head_size [of it] by simp
  have hdrs: ?thesis
    if k: "item_kind it = k" "k = StringK \<and> sm = 0x80 \<and> la = 0xB7 \<or> k = ListK \<and> sm = 0xC0 \<and> la = 0xF7"
      and enc: "item_enc it = hdr sm la (length (item_content it)) @ item_content it" for k sm la
  proof -
    let ?n = "length (item_content it)"
    have sz: "item_size it = ?n" using k by (auto simp: item_size_def)
    have hd: "item_head it = length (hdr sm la ?n)" using enc sz by (simp add: item_head_def)
    have ah: "item_ahead it = (k, of_nat ?n, 0)" using k sz by (auto simp: item_ahead_def)
    show ?thesis
    proof (cases "?n < 56")
      case True
      then have "inp s = (sm + of_nat ?n) # item_content it @ rest" using inp enc by (simp add: hdr_def)
      from readKind_short [OF one this True] k(2) True show ?thesis by (auto simp: ah hd hdr_def)
    next
      case False
      let ?m = "min_be ?n"
      have "inp s = (la + of_nat (length ?m)) # ?m @ item_content it @ rest"
        using inp enc False by (simp add: hdr_def)
      moreover have "room s (Suc (length ?m))"
        using room_mono [OF room] enc False by (simp add: hdr_def)
      moreover have "?n < uint64_max_size" using small enc by simp
      ultimately show ?thesis using readKind_long [of s la ?n] k(2) False by (auto simp: ah hd hdr_def)
    qed
  qed
  show ?thesis
  proof (cases "item_kind it")
    case ByteK
    then obtain x where it: "it = Str [x]" "x < 0x80"
      by (cases it) (auto simp: length_Suc_conv split: if_splits)
    then have "readByte s = Inr (x, advance 1 s)" using one inp by (intro readByte_room) simp_all
    moreover have "item_head it = 1" "item_ahead it = (ByteK, 0, x)"
      using it by (simp_all add: item_head_def item_size_def item_ahead_def)
    ultimately show ?thesis using it by (simp add: readKind_def)
  next
    case StringK
    then have "item_enc it = hdr 0x80 0xB7 (length (item_content it)) @ item_content it"
      by (simp add: item_enc_tag item_tag_def)
    then show ?thesis using hdrs StringK by blast
  next
    case ListK
    then have "item_enc it = hdr 0xC0 0xF7 (length (item_content it)) @ item_content it"
      by (simp add: item_enc_tag item_tag_def)
    then show ?thesis using hdrs ListK by blast
  qed
qed

lemma Stream_Kind_item:
  assumes "at_item s it rest"
  shows "Stream_Kind s = Inr (item_ahead it, (advance (item_head it) s)\<lparr>ahead := Some (item_ahead it)\<rparr>)"
proof -
  have inp: "inp s = item_enc it @ rest" and room: "room s (length (item_enc it))" and a: "ahead s = None"
    using assms by (auto simp: at_item_def)
  obtain k n v where ah: "item_ahead it = (k, n, v)" by (cases "item_ahead it")
  have small: "length (item_enc it) < uint64_max_size" using room inp by (simp add: room_def)
  have n: "unat n = item_size it" using ah item_size_less [OF small] by (auto simp: item_ahead_def unat_of_nat64)
  have le: "item_size it \<le> length (item_enc it)" "0 < length (item_enc it)"
    using item_head_size [of it] item_head_pos [of it] by linarith+
  have rem: "room (advance (item_head it) s) (item_size it)"
    using room item_head_size [of it] by (intro room_advance) simp
  have "\<not> n > remaining (advance (item_head it) s)"
  proof -
    let ?s = "advance (item_head it) s"
    have "unat (remaining ?s) = length (inp ?s)" using rem by (simp add: room_def unat_of_nat64)
    moreover have "item_size it \<le> length (inp ?s)" using rem by (simp add: room_def)
    ultimately show ?thesis using n unfolding word_less_nat_alt by linarith
  qed
  moreover have "l \<noteq> 0 \<and> \<not> n > l" if "stack s = l # ls" for l ls
  proof -
    have "length (item_enc it) \<le> unat l" using room that by (simp add: room_def)
    then have "unat l \<noteq> 0" and "\<not> unat l < unat n" using n le by linarith+
    then show ?thesis unfolding word_less_nat_alt by auto
  qed
  ultimately show ?thesis
    using a readKind_item [OF assms] ah by (cases "stack s") (simp_all add: Stream_Kind_def listLimit_def)
qed

section \<open>Strings and numbers\<close>

text \<open>The two ways a string is stored, and the stream after its tag and after its content.\<close>

lemma at_string_cases:
  assumes "at_item s (Str b) rest"
  obtains (single) x s1 where "b = [x]" "x < 0x80" "Stream_Kind s = Inr ((ByteK, 0, x), s1)"
      "s1\<lparr>ahead := None\<rparr> = advance (length (item_enc (Str b))) s"
    | (full) s1 where "\<not> (length b = 1 \<and> b ! 0 < 0x80)"
      "Stream_Kind s = Inr ((StringK, of_nat (length b), 0), s1)" "unat (of_nat (length b) :: uint64) = length b"
      "inp s1 = b @ rest" "room s1 (length b)" "advance (length b) s1 = advance (length (item_enc (Str b))) s"
proof -
  have inp: "inp s = item_enc (Str b) @ rest" and room: "room s (length (item_enc (Str b)))"
    using assms by (auto simp: at_item_def)
  let ?s1 = "(advance (item_head (Str b)) s)\<lparr>ahead := Some (item_ahead (Str b))\<rparr>"
  note K = Stream_Kind_item [OF assms]
  show ?thesis
  proof (cases "length b = 1 \<and> b ! 0 < 0x80")
    case True
    then obtain x where x: "b = [x]" "x < 0x80" by (auto simp: length_Suc_conv)
    then have "item_head (Str b) = 1" "item_ahead (Str b) = (ByteK, 0, x)"
      by (simp_all add: item_head_def item_size_def item_ahead_def)
    with x K single [of x ?s1] show ?thesis by simp
  next
    case False
    have k: "item_kind (Str b) = StringK" using False by auto
    then have sz: "item_size (Str b) = length b" by (simp add: item_size_def)
    have ah: "item_ahead (Str b) = (StringK, of_nat (length b), 0)" using k sz by (simp add: item_ahead_def)
    have enc: "item_enc (Str b) = hdr 0x80 0xB7 (length b) @ b" using False by auto
    have hd: "item_head (Str b) = length (hdr 0x80 0xB7 (length b))" using enc sz by (simp add: item_head_def)
    have "room (advance (item_head (Str b)) s) (length b)" using room enc hd by (intro room_advance) simp
    moreover have "inp ?s1 = b @ rest" using inp enc hd by simp
    moreover have "advance (length b) ?s1 = advance (length (item_enc (Str b))) s"
      using enc hd by (simp add: advance_advance)
    moreover have "length b < uint64_max_size" using room enc by (simp add: room_def)
    ultimately show ?thesis using False K ah full [of ?s1] by (simp add: unat_of_nat64 del: item_enc.simps)
  qed
qed

lemma word_eq_1_iff: "unat (of_nat n :: uint64) = n \<Longrightarrow> (of_nat n :: uint64) = 1 \<longleftrightarrow> n = 1"
  by (auto dest: arg_cong [where f = unat])

lemma word_eq_0_iff: "unat (of_nat n :: uint64) = n \<Longrightarrow> (of_nat n :: uint64) = 0 \<longleftrightarrow> n = 0"
  by (auto dest: arg_cong [where f = unat])

lemma Stream_Bytes_item:
  assumes "at_item s (Str b) rest"
  shows "Stream_Bytes s = Inr (b, advance (length (item_enc (Str b))) s)"
  using assms
proof (cases rule: at_string_cases)
  case (single x s1)
  then show ?thesis by (simp add: Stream_Bytes_def)
next
  case (full s1)
  then show ?thesis using readFull_room [OF full(5)] word_eq_1_iff [OF full(3)]
    by (auto simp: Stream_Bytes_def simp del: item_enc.simps)
qed

lemma decodeByteArray_item:
  assumes "at_item s (Str b) rest" and "length b = n"
  shows "decodeByteArray n s = Inr (BytesV b, advance (length (item_enc (Str b))) s)"
  using assms(1)
proof (cases rule: at_string_cases)
  case (single x s1)
  then show ?thesis using assms(2) by (simp add: decodeByteArray_def)
next
  case (full s1)
  then show ?thesis using readFull_room [OF full(5)] word_eq_1_iff [OF full(3)] assms(2)
    by (auto simp: decodeByteArray_def simp del: item_enc.simps)
qed

lemma advance_0: "advance 0 s = s\<lparr>ahead := None\<rparr>"
  by (cases "stack s") (simp_all add: advance_def)

lemma Stream_uint_item:
  assumes "at_item s (Str (min_be n)) rest" and "n < 2 ^ bits" and "bits \<in> {8, 16, 32, 64}"
  shows "Stream_uint bits s = Inr (of_nat n, advance (length (item_enc (Str (min_be n)))) s)"
  using assms(1)
proof (cases rule: at_string_cases)
  case (single x s1)
  then have "unat x = n" using be_val_min_be [of n] be_val_snoc [of "[]" x] by simp
  then have "(of_nat n :: uint64) = ucast x" by auto
  moreover have "x \<noteq> 0" using single(1) min_be_hd [of n] by (cases "n = 0") auto
  ultimately show ?thesis using single by (simp add: Stream_uint_def)
next
  case (full s1)
  let ?l = "length (min_be n)"
  obtain d where bits: "bits = 8 * d" "d \<in> {1, 2, 4, 8}" using assms(3) by auto
  have "(2 :: nat) ^ bits \<le> 2 ^ 64" using assms(3) by auto
  then have small: "n < uint64_max_size" using assms(2) by simp
  have "?l \<le> d" using assms(2) bits by (intro length_min_be_le) (simp add: power_mult)
  then have fits: "\<not> of_nat ?l > (of_nat (bits div 8) :: uint64)"
    using full(3) bits by (auto simp: word_less_nat_alt)
  show ?thesis
  proof (cases "n = 0")
    case True
    then show ?thesis using full fits advance_0 [of s1] by (simp add: Stream_uint_def readUint_def del: item_enc.simps)
  next
    case False
    have big: "\<not> (of_nat n :: uint64) < 128"
    proof -
      have "\<not> n < 128"
      proof
        assume n: "n < 128"
        then have "min_be n = [of_nat n]" using False by (simp add: min_be_single)
        then show False using full(1) n of_nat_byte_less [of n] by simp
      qed
      then show ?thesis using small by (simp add: word_less_nat_alt unat_of_nat64)
    qed
    have "readUint ?l s1 = Inr (of_nat n, advance ?l s1)"
      using full False small by (intro readUint_min_be) simp_all
    then show ?thesis using full fits big by (simp add: Stream_uint_def del: item_enc.simps)
  qed
qed

lemma decodeBigInt_item:
  assumes "at_item s (Str (min_be n)) rest"
  shows "decodeBigInt s = Inr (BigV (int n), advance (length (item_enc (Str (min_be n)))) s)"
proof -
  have hd: "min_be n ! 0 \<noteq> 0" if "length (min_be n) > 0" using that by (intro min_be_hd) simp
  from assms show ?thesis
  proof (cases rule: at_string_cases)
    case (single x s1)
    then have "unat x = n" using be_val_min_be [of n] be_val_snoc [of "[]" x] by simp
    moreover have "x \<noteq> 0" using single(1) hd by simp
    ultimately show ?thesis using single be_val_snoc [of "[]" x] by (simp add: decodeBigInt_def wrapped_def)
  next
    case (full s1)
    show ?thesis
    proof (cases "n = 0")
      case True
      then show ?thesis using full advance_0 [of s1] by (simp add: decodeBigInt_def wrapped_def del: item_enc.simps)
    next
      case False
      then show ?thesis
        using full hd readFull_room [OF full(5)] word_eq_1_iff [OF full(3)] word_eq_0_iff [OF full(3)]
        by (auto simp: decodeBigInt_def wrapped_def simp del: item_enc.simps)
    qed
  qed
qed

section \<open>Lists\<close>

text \<open>The stream inside a list whose tag took \<open>h\<close> bytes and whose content is \<open>n\<close> bytes long.\<close>

definition enter :: "nat \<Rightarrow> nat \<Rightarrow> Stream \<Rightarrow> Stream" where
  "enter h n s = (advance h s)\<lparr>stack := of_nat n # stack (advance (h + n) s)\<rparr>"

abbreviation items_enc :: "item list \<Rightarrow> bytes" where
  "items_enc its \<equiv> concat (map item_enc its)"

definition at_items :: "Stream \<Rightarrow> item list \<Rightarrow> bytes \<Rightarrow> bool" where
  "at_items s its rest \<longleftrightarrow> ahead s = None \<and> inp s = items_enc its @ rest \<and> room s (length (items_enc its))"

lemma Stream_List_item:
  assumes "at_item s (Lst its) rest"
  defines "h \<equiv> item_head (Lst its)" and "n \<equiv> length (items_enc its)"
  shows "Stream_List s = Inr (of_nat n, enter h n s)" "at_items (enter h n s) its rest"
    "length (item_enc (Lst its)) = h + n" "n < uint64_max_size"
proof -
  have inp: "inp s = item_enc (Lst its) @ rest" and room: "room s (length (item_enc (Lst its)))"
    using assms(1) by (auto simp: at_item_def)
  have ah: "item_ahead (Lst its) = (ListK, of_nat n, 0)" by (simp add: item_ahead_def item_size_def n_def)
  show len: "length (item_enc (Lst its)) = h + n"
    using item_head_size [of "Lst its"] by (simp add: item_size_def h_def n_def)
  show n: "n < uint64_max_size" using room len by (simp add: room_def)
  show "Stream_List s = Inr (of_nat n, enter h n s)"
    using Stream_Kind_item [OF assms(1)] ah
    by (cases "stack s") (simp_all add: Stream_List_def listLimit_def enter_def h_def algebra_simps)
  have hl: "h = length (hdr 0xC0 0xF7 n)" using len by (simp add: n_def Let_def)
  have "inp (enter h n s) = items_enc its @ rest"
    using inp hl by (simp add: enter_def n_def Let_def)
  moreover have "room (advance h s) n" using room len by (intro room_advance) (simp del: item_enc.simps)
  then have "room (enter h n s) n" using n by (simp add: room_def enter_def unat_of_nat64)
  ultimately show "at_items (enter h n s) its rest" by (simp add: at_items_def enter_def n_def)
qed

lemma Stream_ListEnd_enter: "Stream_ListEnd (advance n (enter h n s)) = Inr (advance (h + n) s)"
  by (simp add: Stream_ListEnd_def listLimit_def enter_def advance_def add.commute diff_diff_eq)

lemma at_items_Cons:
  assumes "at_items s (it # its) rest"
  shows "at_item s it (items_enc its @ rest)" "at_items (advance (length (item_enc it)) s) its rest"
  using assms room_mono [of s "length (item_enc it) + length (items_enc its)" "length (item_enc it)"]
    room_advance [of s "length (item_enc it)" "length (items_enc its)"]
  by (simp_all add: at_items_def at_item_def)

definition decodes :: "decoder \<Rightarrow> rlp_val \<Rightarrow> item \<Rightarrow> bool" where
  "decodes dec v it \<longleftrightarrow> (\<forall>s rest. at_item s it rest \<longrightarrow> dec s = Inr (v, advance (length (item_enc it)) s))"

lemma fields_loop_items:
  "length fs = length vs \<Longrightarrow> length vs = length its \<Longrightarrow> \<forall>i < length its. decodes (fs ! i) (vs ! i) (its ! i) \<Longrightarrow>
     at_items s its rest \<Longrightarrow> fields_loop fs s = Inr (vs, advance (length (items_enc its)) s)"
proof (induction fs vs its arbitrary: s rule: list_induct3)
  case Nil
  then show ?case by (simp add: at_items_def advance_0)
next
  case (Cons f fs v vs it its)
  note at = at_items_Cons [OF Cons.prems(2)]
  have "decodes f v it" and "\<forall>i < length its. decodes (fs ! i) (vs ! i) (its ! i)"
    using Cons.prems(1) by force+
  with at have "f s = Inr (v, advance (length (item_enc it)) s)"
    and "fields_loop fs (advance (length (item_enc it)) s)
      = Inr (vs, advance (length (items_enc its)) (advance (length (item_enc it)) s))"
    using Cons.IH by (auto simp: decodes_def)
  then show ?case by (simp add: advance_advance)
qed

lemma array_loop_items:
  "length vs = length its \<Longrightarrow> \<forall>i < length its. decodes dec (vs ! i) (its ! i) \<Longrightarrow> at_items s its rest \<Longrightarrow>
     array_loop (length vs) dec s = Inr (vs, advance (length (items_enc its)) s)"
proof (induction vs its arbitrary: s rule: list_induct2)
  case Nil
  then show ?case by (simp add: at_items_def advance_0)
next
  case (Cons v vs it its)
  note at = at_items_Cons [OF Cons.prems(2)]
  have "decodes dec v it" and "\<forall>i < length its. decodes dec (vs ! i) (its ! i)"
    using Cons.prems(1) by force+
  with at have "dec s = Inr (v, advance (length (item_enc it)) s)"
    and "array_loop (length vs) dec (advance (length (item_enc it)) s)
      = Inr (vs, advance (length (items_enc its)) (advance (length (item_enc it)) s))"
    using Cons.IH by (auto simp: decodes_def)
  then show ?case by (simp add: advance_advance)
qed

text \<open>At the end of a list every decoder reports it.\<close>

definition at_end :: "Stream \<Rightarrow> bool" where
  "at_end s \<longleftrightarrow> ahead s = None \<and> stack s \<noteq> [] \<and> hd (stack s) = 0"

lemma elems_loop_items:
  "length vs = length its \<Longrightarrow> length its < fuel \<Longrightarrow> \<forall>i < length its. decodes dec (vs ! i) (its ! i) \<Longrightarrow>
   at_items s its rest \<Longrightarrow> at_end (advance (length (items_enc its)) s) \<Longrightarrow> (\<And>s. at_end s \<Longrightarrow> dec s = Inl EOL) \<Longrightarrow>
     elems_loop fuel dec s = Inr (vs, advance (length (items_enc its)) s)"
proof (induction vs its arbitrary: s fuel rule: list_induct2)
  case Nil
  then obtain n where "fuel = Suc n" by (cases fuel) auto
  moreover have "s = advance 0 s" using Nil.prems(3) by (simp add: at_items_def advance_0)
  ultimately show ?case using Nil.prems(4,5) by simp
next
  case (Cons v vs it its)
  then obtain n where n: "fuel = Suc n" by (cases fuel) auto
  note at = at_items_Cons [OF Cons.prems(3)]
  let ?s = "advance (length (item_enc it)) s"
  have "decodes dec v it" and rest: "\<forall>i < length its. decodes dec (vs ! i) (its ! i)"
    using Cons.prems(2) by force+
  with at have "dec s = Inr (v, ?s)" by (auto simp: decodes_def)
  moreover have "at_end (advance (length (items_enc its)) ?s)" using Cons.prems(4) by (simp add: advance_advance)
  with Cons.IH [OF _ rest at(2)] n Cons.prems(1,5)
  have "elems_loop n dec ?s = Inr (vs, advance (length (items_enc its)) ?s)" by simp
  ultimately show ?case using n by (simp add: advance_advance)
qed

lemma length_items_enc: "length its \<le> length (items_enc its)"
proof (induction its)
  case (Cons it its)
  have "0 < length (item_enc it)" using item_head_pos [of it] item_head_size [of it] by linarith
  with Cons show ?case unfolding list.map concat.simps length_append list.size by linarith
qed simp

section \<open>Decoding what was encoded\<close>

text \<open>
  The values a type can be read back with: a nil number or a nil pointer without the \<open>nil\<close>
  tag is written as an empty value and read back as zero, and with the tag an empty value is
  read as nil.
\<close>

primrec storable :: "rlp_type \<Rightarrow> rlp_val \<Rightarrow> bool" where
  "storable (UintT bits) = (\<lambda>v. bits \<in> {8, 16, 32, 64} \<and> of_type (UintT bits) v)"
| "storable BoolT = of_type BoolT"
| "storable BigIntT = (\<lambda>v. v \<noteq> NilV \<and> of_type BigIntT v)"
| "storable BytesT = of_type BytesT"
| "storable (ByteArrayT n) = of_type (ByteArrayT n)"
| "storable (SliceT t) = (\<lambda>v. case v of ListV vs \<Rightarrow> list_all (storable t) vs | _ \<Rightarrow> False)"
| "storable (ArrayT n t) = (\<lambda>v. case v of ListV vs \<Rightarrow> length vs = n \<and> list_all (storable t) vs | _ \<Rightarrow> False)"
| "storable (StructT ts) = (\<lambda>v. case v of ListV vs \<Rightarrow> list_all2 (\<lambda>f x. f x) (map storable ts) vs | _ \<Rightarrow> False)"
| "storable (PtrT t) = (\<lambda>v. v \<noteq> NilV \<and> storable t v)"
| "storable (NilPtrT k t) =
     (\<lambda>v. k \<noteq> ByteK \<and> (v = NilV \<or> storable t v \<and> item_of t v \<noteq> Str [] \<and> item_of t v \<noteq> Lst []))"

lemma list_all2_map_fun:
  "list_all2 (\<lambda>f x. f x) (map f ts) vs \<longleftrightarrow> length ts = length vs \<and> (\<forall>i < length vs. f (ts ! i) (vs ! i))"
  by (auto simp: list_all2_conv_all_nth)

lemma storable_of_type: "storable t v \<Longrightarrow> of_type t v"
proof (induction t arbitrary: v)
  case (StructT ts)
  then show ?case by (auto simp: list_all2_map_fun split: rlp_val.splits)
qed (auto simp: list_all_iff split: rlp_val.splits)

lemmas decoder_defs = decodeUint_def decodeBool_def decodeBigInt_def decodeByteSlice_def decodeByteArray_def
  decodeListSlice_def decodeListArray_def makeStructDecoder_def makeNilPtrDecoder_def
  Stream_uint_def Stream_Bool_def Stream_Bytes_def Stream_List_def

lemma Stream_Kind_at_end: "at_end s \<Longrightarrow> Stream_Kind s = Inl EOL"
  by (cases "stack s") (auto simp: at_end_def Stream_Kind_def listLimit_def)

lemma makeDecoder_at_end: "at_end s \<Longrightarrow> makeDecoder t s = Inl EOL"
  by (induction t) (simp_all add: decoder_defs Stream_Kind_at_end wrapped_def wrapStreamError_def)

text \<open>A decoder that starts with the tag already read does what it does without it.\<close>

lemma Stream_Kind_again: "Stream_Kind s = Inr (k, s') \<Longrightarrow> Stream_Kind s' = Inr (k, s')"
proof (cases "ahead s")
  case None
  assume "Stream_Kind s = Inr (k, s')"
  with None have "ahead s' = Some k"
    by (auto simp: Stream_Kind_def Let_def elim!: go_bind_InrE split: if_splits prod.splits)
  then show ?thesis by (simp add: Stream_Kind_def)
qed (auto simp: Stream_Kind_def)

lemma makeDecoder_again: "Stream_Kind s = Inr (k, s') \<Longrightarrow> makeDecoder t s' = makeDecoder t s"
  using Stream_Kind_again [of s k s']
  by (induction t) (simp_all add: decoder_defs wrapped_def)

lemma decodes_list:
  assumes "at_item s (Lst its) rest"
    and "\<And>s'. at_items s' its rest \<Longrightarrow> body s' = Inr (vs, advance (length (items_enc its)) s')"
  shows "go_bind (wrapped (Stream_List s)) (\<lambda>(n, s). go_bind (body s) (\<lambda>(vs, s).
      go_bind (wrapped (Stream_ListEnd s)) (\<lambda>s. Inr (ListV vs, s))))
    = Inr (ListV vs, advance (length (item_enc (Lst its))) s)"
proof -
  note L = Stream_List_item [OF assms(1)]
  show ?thesis
    using L(1) assms(2) [OF L(2)] Stream_ListEnd_enter L(3)
    by (simp add: wrapped_def del: item_enc.simps)
qed

lemma decodeListSlice_item:
  assumes "length vs = length its" and "\<forall>i < length its. decodes dec (vs ! i) (its ! i)"
    and "\<And>s. at_end s \<Longrightarrow> dec s = Inl EOL"
  shows "decodes (decodeListSlice dec) (ListV vs) (Lst its)"
  unfolding decodes_def
proof (intro allI impI)
  fix s rest assume at: "at_item s (Lst its) rest"
  note L = Stream_List_item [OF at]
  let ?n = "length (items_enc its)" and ?s = "enter (item_head (Lst its)) (length (items_enc its)) s"
  have "(of_nat ?n :: uint64) = 0 \<longleftrightarrow> ?n = 0" using L(4) unat_of_nat64 by (intro word_eq_0_iff) blast
  moreover have "?n = 0 \<longleftrightarrow> its = []" 
    using length_items_enc [of its] by (metis concat.simps(1) le_zero_eq length_0_conv list.map(1))
  ultimately have z: "(of_nat ?n :: uint64) = 0 \<longleftrightarrow> its = []" by simp
  have "length (inp ?s) \<ge> ?n" using L(2) by (simp add: at_items_def)
  then have fuel: "length its < Suc (length (inp ?s))" using length_items_enc [of its] by linarith
  have "at_end (advance ?n ?s)" by (simp add: at_end_def enter_def)
  then have "decodeSliceElems dec ?s = Inr (vs, advance ?n ?s)"
    unfolding decodeSliceElems_def
    using elems_loop_items [OF assms(1) fuel assms(2) L(2)] assms(3) by blast
  moreover have "advance 0 ?s = ?s" using L(2) by (simp add: advance_0 at_items_def)
  ultimately show "decodeListSlice dec s = Inr (ListV vs, advance (length (item_enc (Lst its))) s)"
    using L(1,3) z assms(1) Stream_ListEnd_enter [of ?n "item_head (Lst its)" s]
    by (cases "its = []") (simp_all add: decodeListSlice_def wrapped_def del: item_enc.simps)
qed

lemma decodes_struct:
  assumes "length fs = length vs" "length vs = length its" "\<forall>i < length its. decodes (fs ! i) (vs ! i) (its ! i)"
  shows "decodes (makeStructDecoder fs) (ListV vs) (Lst its)"
  unfolding decodes_def makeStructDecoder_def
  using decodes_list [of _ its _ "fields_loop fs" vs] fields_loop_items [OF assms] by blast

lemma decodes_array:
  assumes "length vs = length its" "\<forall>i < length its. decodes dec (vs ! i) (its ! i)"
  shows "decodes (decodeListArray (length vs) dec) (ListV vs) (Lst its)"
  unfolding decodes_def decodeListArray_def
  using decodes_list [of _ its _ "array_loop (length vs) dec" vs] array_loop_items [OF assms] by blast

lemma item_kind_size_nonempty:
  assumes "length (item_enc it) < uint64_max_size"
  shows "item_kind it \<noteq> ByteK \<and> (of_nat (item_size it) :: uint64) = 0 \<longleftrightarrow> it = Str [] \<or> it = Lst []"
proof -
  have z: "(of_nat (item_size it) :: uint64) = 0 \<longleftrightarrow> item_size it = 0"
    using item_size_less [OF assms] unat_of_nat64 by (intro word_eq_0_iff) blast
  have e: "length (items_enc its) = 0 \<longleftrightarrow> its = []" for its
    using length_items_enc [of its] by (metis concat.simps(1) le_zero_eq length_0_conv list.map(1))
  have "item_kind it \<noteq> ByteK \<and> item_size it = 0 \<longleftrightarrow> it = Str [] \<or> it = Lst []"
  proof (cases it)
    case (Str b)
    then show ?thesis by (auto simp: item_size_def)
  next
    case (Lst its)
    then have "item_size it = length (items_enc its)" by (simp add: item_size_def)
    then show ?thesis using e [of its] Lst by simp
  qed
  then show ?thesis unfolding z .
qed

lemma decodes_nil_ptr:
  assumes "k \<noteq> ByteK"
  shows "v = NilV \<Longrightarrow> decodes (makeNilPtrDecoder k (makeDecoder t)) v (if k = StringK then Str [] else Lst [])"
    and "it \<noteq> Str [] \<Longrightarrow> it \<noteq> Lst [] \<Longrightarrow> decodes (makeDecoder t) v it \<Longrightarrow>
      decodes (makeNilPtrDecoder k (makeDecoder t)) v it"
proof -
  show "decodes (makeNilPtrDecoder k (makeDecoder t)) v (if k = StringK then Str [] else Lst [])" if "v = NilV"
    unfolding decodes_def
  proof (intro allI impI)
    let ?it = "if k = StringK then Str [] else Lst []"
    fix s rest assume at: "at_item s ?it rest"
    have "item_ahead ?it = (k, 0, 0)" "item_head ?it = length (item_enc ?it)"
      using assms by (cases k; simp add: item_ahead_def item_size_def item_head_def)+
    then show "makeNilPtrDecoder k (makeDecoder t) s = Inr (v, advance (length (item_enc ?it)) s)"
      using Stream_Kind_item [OF at] assms that by (simp add: makeNilPtrDecoder_def wrapped_def del: item_enc.simps)
  qed
  show "decodes (makeNilPtrDecoder k (makeDecoder t)) v it"
    if ne: "it \<noteq> Str []" "it \<noteq> Lst []" and dec: "decodes (makeDecoder t) v it"
    unfolding decodes_def
  proof (intro allI impI)
    fix s rest assume at: "at_item s it rest"
    then have small: "length (item_enc it) < uint64_max_size" by (simp add: at_item_def room_def)
    note K = Stream_Kind_item [OF at]
    have "makeNilPtrDecoder k (makeDecoder t) s = makeDecoder t s"
      using K makeDecoder_again [OF K] item_kind_size_nonempty [OF small] ne
      by (auto simp: makeNilPtrDecoder_def wrapped_def item_ahead_def)
    then show "makeNilPtrDecoder k (makeDecoder t) s = Inr (v, advance (length (item_enc it)) s)"
      using dec at unfolding decodes_def by metis
  qed
qed

lemma makeDecoder_decodes: "storable t v \<Longrightarrow> decodes (makeDecoder t) v (item_of t v)"
proof (induction t arbitrary: v)
  case (UintT bits)
  then obtain i where v: "v = UintV i" "unat i < 2 ^ bits" "bits \<in> {8, 16, 32, 64}"
    by (auto split: rlp_val.splits)
  then show ?case
    using Stream_uint_item [of _ "unat i" _ bits] by (simp add: decodes_def decodeUint_def wrapped_def del: item_enc.simps)
next
  case BoolT
  then obtain b where v: "v = BoolV b" by (auto split: rlp_val.splits)
  have "min_be (if b then 1 else 0) = (if b then [1] else [])" by (simp add: min_be_single)
  then show ?case
    using Stream_uint_item [of _ "if b then 1 else 0" _ 8] v
    by (auto simp: decodes_def decodeBool_def Stream_Bool_def wrapped_def simp del: item_enc.simps)
next
  case BigIntT
  then obtain i where v: "v = BigV i" "0 \<le> i" by (auto split: rlp_val.splits)
  then show ?case using decodeBigInt_item [of _ "nat i"] by (simp add: decodes_def del: item_enc.simps)
next
  case BytesT
  then obtain b where v: "v = BytesV b" by (auto split: rlp_val.splits)
  then show ?case
    using Stream_Bytes_item by (simp add: decodes_def decodeByteSlice_def wrapped_def del: item_enc.simps)
next
  case (ByteArrayT n)
  then obtain b where "v = BytesV b" "length b = n" by (auto split: rlp_val.splits)
  then show ?case using decodeByteArray_item by (simp add: decodes_def del: item_enc.simps)
next
  case (SliceT t)
  then obtain vs where v: "v = ListV vs" "\<forall>x \<in> set vs. storable t x"
    by (auto simp: list_all_iff split: rlp_val.splits)
  then show ?case
    using decodeListSlice_item [of vs "map (item_of t) vs" "makeDecoder t"] SliceT.IH makeDecoder_at_end by simp
next
  case (ArrayT n t)
  then obtain vs where v: "v = ListV vs" "\<forall>x \<in> set vs. storable t x" "length vs = n"
    by (auto simp: list_all_iff split: rlp_val.splits)
  then show ?case using decodes_array [of vs "map (item_of t) vs" "makeDecoder t"] ArrayT.IH by simp
next
  case (StructT ts)
  then obtain vs where v: "v = ListV vs" "length ts = length vs" "\<forall>i < length vs. storable (ts ! i) (vs ! i)"
    by (auto simp: list_all2_map_fun split: rlp_val.splits)
  let ?its = "map (\<lambda>(f, x). f x) (zip (map item_of ts) vs)"
  have "decodes (map makeDecoder ts ! i) (vs ! i) (?its ! i)" if "i < length ?its" for i
  proof -
    have "i < length vs" "i < length ts" using that v(2) by simp_all
    then show ?thesis using StructT.IH [OF nth_mem, of i "vs ! i"] v(2,3) by simp
  qed
  then have "decodes (makeStructDecoder (map makeDecoder ts)) (ListV vs) (Lst ?its)"
    using v(2) by (intro decodes_struct) simp_all
  then show ?case using v(1) by simp
next
  case (PtrT t)
  then show ?case by simp
next
  case (NilPtrT k t)
  show ?case
  proof (cases "v = NilV")
    case True
    then show ?thesis using decodes_nil_ptr(1) [of k v t] NilPtrT.prems by simp
  next
    case False
    then show ?thesis using decodes_nil_ptr(2) [of k "item_of t v" t v] NilPtrT by simp
  qed
qed

lemma DecodeBytes_item:
  assumes "storable t v" and "length (item_enc (item_of t v)) < uint64_max_size"
  shows "DecodeBytes t (item_enc (item_of t v)) = Inr v"
proof -
  let ?b = "item_enc (item_of t v)"
  have "at_item (Stream_Reset ?b) (item_of t v) []"
    using assms(2) by (simp add: at_item_def room_def Stream_Reset_def)
  then have "makeDecoder t (Stream_Reset ?b) = Inr (v, advance (length ?b) (Stream_Reset ?b))"
    using makeDecoder_decodes [OF assms(1)] unfolding decodes_def by metis
  then show ?thesis by (simp add: DecodeBytes_def Stream_Reset_def)
qed

section \<open>Decoding ends\<close>

text \<open>
  No operation of the stream puts input back, reading a tag takes at least one byte, and the
  rounds of an element loop are therefore never used up, whatever the input is.
\<close>

definition keeps :: "'a stream_op \<Rightarrow> bool" where
  "keeps f \<longleftrightarrow> (\<forall>s. f s \<noteq> Inl OutOfFuel \<and> (\<forall>x s'. f s = Inr (x, s') \<longrightarrow> length (inp s') \<le> length (inp s) \<and> ahead s' = None))"

definition takes :: "'a stream_op \<Rightarrow> bool" where
  "takes f \<longleftrightarrow> (\<forall>s. f s \<noteq> Inl OutOfFuel \<and> (\<forall>x s'. f s = Inr (x, s') \<longrightarrow>
     length (inp s') + (if ahead s = None then 1 else 0) \<le> length (inp s) \<and> ahead s' = None))"

lemma willRead_keeps: "willRead n s = Inr s' \<Longrightarrow> inp s' = inp s \<and> ahead s' = None" "willRead n s \<noteq> Inl OutOfFuel"
  by (auto simp: willRead_def Let_def split: prod.splits if_splits)

lemma readByte_keeps:
  "readByte s = Inr (b, s') \<Longrightarrow> Suc (length (inp s')) = length (inp s) \<and> ahead s' = None" "readByte s \<noteq> Inl OutOfFuel"
  using willRead_keeps
  by (fastforce simp: readByte_def go_bind_def split: sum.splits list.splits)+

lemma keeps_readFull: "keeps (readFull n)"
proof -
  have "readFull n s = Inr (x, s') \<Longrightarrow> length (inp s') \<le> length (inp s) \<and> ahead s' = None" for s x s'
    using willRead_keeps(1) [of n s] by (auto simp: readFull_def elim!: go_bind_InrE split: if_splits)
  moreover have "readFull n s \<noteq> Inl OutOfFuel" for s
    using willRead_keeps(2) [of n s] by (cases "willRead n s") (auto simp: readFull_def)
  ultimately show ?thesis by (simp add: keeps_def)
qed

lemma keeps_bind:
  assumes "keeps f" and "\<And>x. \<forall>s. ahead s = None \<longrightarrow> g x s \<noteq> Inl OutOfFuel
      \<and> (\<forall>y s'. g x s = Inr (y, s') \<longrightarrow> length (inp s') \<le> length (inp s) \<and> ahead s' = None)"
  shows "keeps (\<lambda>s. go_bind (f s) (\<lambda>(x, s). g x s))"
  unfolding keeps_def
proof (intro allI conjI impI)
  fix s
  show "go_bind (f s) (\<lambda>(x, s). g x s) \<noteq> Inl OutOfFuel"
    using assms unfolding keeps_def by (cases "f s") (auto split: prod.splits)
  fix y s' assume "go_bind (f s) (\<lambda>(x, s). g x s) = Inr (y, s')"
  then obtain x s1 where "f s = Inr (x, s1)" "g x s1 = Inr (y, s')" by (auto elim!: go_bind_InrE)
  then show "length (inp s') \<le> length (inp s)" "ahead s' = None"
    using assms unfolding keeps_def by (meson le_trans)+
qed

lemma keeps_readUint: "keeps (readUint n)"
proof -
  consider "n = 0" | "n = 1" | "n > 1" by linarith
  then show ?thesis
  proof cases
    case 1
    then show ?thesis by (simp add: keeps_def readUint_def)
  next
    case 2
    have "keeps readByte" using readByte_keeps unfolding keeps_def by (metis le_SucI order_refl)
    from keeps_bind [OF this, of "\<lambda>b s. Inr (of_nat (unat b), s)"] 2 show ?thesis
      by (simp add: readUint_def [abs_def])
  next
    case 3
    have "keeps (\<lambda>s. go_bind (readFull (of_nat n) s) (\<lambda>(buffer, s).
        if buffer ! 0 = 0 then Inl ErrCanonSize else Inr (of_nat (be_val buffer) :: uint64, s)))"
      by (rule keeps_bind [OF keeps_readFull]) simp
    with 3 show ?thesis by (simp add: readUint_def [abs_def])
  qed
qed

lemma readKind_takes:
  "readKind s = Inr (k, s') \<Longrightarrow> Suc (length (inp s')) \<le> length (inp s)" "readKind s \<noteq> Inl OutOfFuel"
proof -
  have u: "readUint n s \<noteq> Inl OutOfFuel"
      "readUint n s = Inr (x, s') \<Longrightarrow> length (inp s') \<le> length (inp s)" for n s x s'
    using keeps_readUint [of n] by (auto simp: keeps_def)
  show "Suc (length (inp s')) \<le> length (inp s)" if k: "readKind s = Inr (k, s')"
  proof -
    obtain b s1 where b: "readByte s = Inr (b, s1)" using k by (auto simp: readKind_def split: sum.splits)
    have "length (inp s') \<le> length (inp s1)"
      using k u(2) b by (auto simp: readKind_def elim!: go_bind_InrE split: if_splits)
    then show ?thesis using readByte_keeps(1) [OF b] by linarith
  qed
  show "readKind s \<noteq> Inl OutOfFuel"
    using readByte_keeps(2) [of s] u(1)
    by (cases "readByte s") (auto simp: readKind_def go_bind_def split: sum.splits prod.splits if_splits)
qed

lemma Stream_Kind_takes:
  "Stream_Kind s = Inr (k, s') \<Longrightarrow> length (inp s') + (if ahead s = None then 1 else 0) \<le> length (inp s)"
  "Stream_Kind s \<noteq> Inl OutOfFuel"
proof -
  show "length (inp s') + (if ahead s = None then 1 else 0) \<le> length (inp s)" if "Stream_Kind s = Inr (k, s')"
    using that readKind_takes(1) [of s]
    by (fastforce simp: Stream_Kind_def Let_def elim!: go_bind_InrE split: option.splits if_splits prod.splits)
  show "Stream_Kind s \<noteq> Inl OutOfFuel"
    using readKind_takes(2) [of s]
    by (auto simp: Stream_Kind_def Let_def go_bind_def split: option.splits sum.splits prod.splits if_splits)
qed

text \<open>An operation that starts with the tag and goes on with operations that put nothing back.\<close>

lemma takes_Kind:
  assumes "\<And>x. keeps (g x)"
  shows "takes (\<lambda>s. go_bind (Stream_Kind s) (\<lambda>(x, s). g x s))"
  unfolding takes_def
proof (intro allI conjI impI)
  fix s
  show "go_bind (Stream_Kind s) (\<lambda>(x, s). g x s) \<noteq> Inl OutOfFuel"
    using assms Stream_Kind_takes(2) [of s] unfolding keeps_def by (cases "Stream_Kind s") (auto split: prod.splits)
  fix y s' assume "go_bind (Stream_Kind s) (\<lambda>(x, s). g x s) = Inr (y, s')"
  then obtain x s1 where x: "Stream_Kind s = Inr (x, s1)" "g x s1 = Inr (y, s')" by (auto elim!: go_bind_InrE)
  have "length (inp s') \<le> length (inp s1)" "ahead s' = None" using assms x(2) unfolding keeps_def by blast+
  with Stream_Kind_takes(1) [OF x(1)]
  show "length (inp s') + (if ahead s = None then 1 else 0) \<le> length (inp s)" "ahead s' = None" by linarith+
qed


lemma wrapStreamError_fuel: "wrapStreamError e = OutOfFuel \<longleftrightarrow> e = OutOfFuel"
  by (cases e) (simp_all add: wrapStreamError_def)

lemma wrapped_fuel: "wrapped r = Inl OutOfFuel \<longleftrightarrow> r = Inl OutOfFuel"
  and wrapped_Inr: "wrapped r = Inr x \<longleftrightarrow> r = Inr x"
  by (cases r; simp add: wrapped_def wrapStreamError_fuel)+

lemma takes_wrapped: "takes f \<Longrightarrow> takes (\<lambda>s. wrapped (f s))"
  and keeps_wrapped: "keeps f \<Longrightarrow> keeps (\<lambda>s. wrapped (f s))"
  by (simp_all add: takes_def keeps_def wrapped_fuel wrapped_Inr)

lemma takes_keeps: "takes f \<Longrightarrow> keeps f"
  unfolding takes_def keeps_def by (meson add_leD1)

text \<open>
  After a tag or a read the stream has nothing read ahead, so a step that only inspects what
  was read, or fails, keeps the stream.
\<close>

lemma keeps_step:
  assumes "keeps f" and "\<And>x s. g x s = Inr (h x, s) \<or> (\<exists>e. g x s = Inl e \<and> e \<noteq> OutOfFuel)"
  shows "keeps (\<lambda>s. go_bind (f s) (\<lambda>(x, s). g x s))"
proof (rule keeps_bind [OF assms(1)], intro allI impI)
  fix x s assume "ahead (s :: Stream) = None"
  then show "g x s \<noteq> Inl OutOfFuel \<and>
      (\<forall>y s'. g x s = Inr (y, s') \<longrightarrow> length (inp s') \<le> length (inp s) \<and> ahead s' = None)"
    using assms(2) [of x s] by auto
qed

lemma takes_step:
  assumes "takes f" and "\<And>x s. g x s = Inr (h x, s) \<or> (\<exists>e. g x s = Inl e \<and> e \<noteq> OutOfFuel)"
  shows "takes (\<lambda>s. go_bind (f s) (\<lambda>(x, s). g x s))"
  unfolding takes_def
proof (intro allI conjI impI)
  fix s
  show "go_bind (f s) (\<lambda>(x, s). g x s) \<noteq> Inl OutOfFuel"
    using assms(1) unfolding takes_def
    by (cases "f s") (use assms(2) in \<open>auto split: prod.splits, metis Inl_inject sum.distinct(1)\<close>)
  fix y s' assume "go_bind (f s) (\<lambda>(x, s). g x s) = Inr (y, s')"
  then obtain x s1 where x: "f s = Inr (x, s1)" "g x s1 = Inr (y, s')" by (auto elim!: go_bind_InrE)
  then have "s' = s1" using assms(2) [of x s1] by auto
  moreover have "length (inp s1) + (if ahead s = None then 1 else 0) \<le> length (inp s) \<and> ahead s1 = None"
    using assms(1) x(1) unfolding takes_def by blast
  ultimately show "length (inp s') + (if ahead s = None then 1 else 0) \<le> length (inp s)" "ahead s' = None" by simp_all
qed

lemma keeps_rearm: "keeps (\<lambda>s. Inr (x, s\<lparr>ahead := None\<rparr>))" and keeps_error: "e \<noteq> OutOfFuel \<Longrightarrow> keeps (\<lambda>s. Inl e)"
  by (simp_all add: keeps_def)

lemma keeps_if: "keeps f \<Longrightarrow> keeps g \<Longrightarrow> keeps (\<lambda>s. if c then f s else g s)"
  by (cases c) simp_all

lemma keeps_Kind_case:
  "keeps f \<Longrightarrow> keeps g \<Longrightarrow> keeps h \<Longrightarrow> keeps (\<lambda>s. case k of ByteK \<Rightarrow> f s | StringK \<Rightarrow> g s | ListK \<Rightarrow> h s)"
  by (cases k) simp_all

lemma takes_Kind3:
  "(\<And>k n v. keeps (g k n v)) \<Longrightarrow> takes (\<lambda>s. go_bind (Stream_Kind s) (\<lambda>((k, n, v), s). g k n v s))"
  using takes_Kind [of "\<lambda>(k, n, v). g k n v"] by (simp add: case_prod_unfold)

lemmas keeps_intros = keeps_if keeps_Kind_case keeps_rearm keeps_error keeps_readFull keeps_readUint keeps_wrapped

lemma takes_Bytes: "takes Stream_Bytes"
  unfolding Stream_Bytes_def [abs_def]
  by (intro takes_Kind3 keeps_intros keeps_step [where h = id]) simp_all

lemma takes_uint: "takes (Stream_uint bits)"
proof -
  have adj: "keeps (\<lambda>s. case readUint m s of Inl err \<Rightarrow> Inl (if err = ErrCanonSize then ErrCanonInt else err)
      | Inr (v, s) \<Rightarrow> if n > 0 \<and> v < 128 then Inl ErrCanonSize else Inr (v, s))" for m and n :: uint64
    using keeps_readUint [of m] unfolding keeps_def by (auto split: sum.splits if_splits)
  show ?thesis
    unfolding Stream_uint_def [abs_def] by (intro takes_Kind3 keeps_intros adj) simp_all
qed

lemma takes_Bool: "takes Stream_Bool"
  unfolding Stream_Bool_def [abs_def]
  by (rule takes_step [OF takes_uint, where h = "\<lambda>n. n = 1"]) simp

lemma takes_List: "takes Stream_List"
proof -
  have push: "keeps (\<lambda>s. let (inList, limit) = listLimit s;
      s = (if inList then s\<lparr>stack := (limit - n) # tl (stack s)\<rparr> else s)
    in Inr (n, s\<lparr>stack := n # stack s, ahead := None\<rparr>))" for n
    by (simp add: keeps_def listLimit_def split: list.splits)
  show ?thesis unfolding Stream_List_def [abs_def] by (intro takes_Kind3 keeps_intros push) simp
qed

lemma ListEnd_keeps: "Stream_ListEnd s = Inr s' \<Longrightarrow> inp s' = inp s \<and> ahead s' = None" "Stream_ListEnd s \<noteq> Inl OutOfFuel"
  by (auto simp: Stream_ListEnd_def Let_def split: prod.splits if_splits)

text \<open>The loops over elements, and the list decoders.\<close>

lemma takes_Inr: "takes f \<Longrightarrow> f s = Inr (x, s') \<Longrightarrow>
    length (inp s') + (if ahead s = None then 1 else 0) \<le> length (inp s) \<and> ahead s' = None"
  and keeps_Inr: "keeps f \<Longrightarrow> f s = Inr (x, s') \<Longrightarrow> length (inp s') \<le> length (inp s) \<and> ahead s' = None"
  unfolding takes_def keeps_def by blast+

lemma keeps_elems_loop:
  assumes "takes dec"
  shows "ahead s = None \<Longrightarrow> length (inp s) < fuel \<Longrightarrow> elems_loop fuel dec s \<noteq> Inl OutOfFuel
    \<and> (\<forall>vs s'. elems_loop fuel dec s = Inr (vs, s') \<longrightarrow> length (inp s') \<le> length (inp s) \<and> ahead s' = None)"
proof (induction fuel arbitrary: s)
  case (Suc n)
  show ?case
  proof (cases "dec s")
    case (Inl e)
    then have "e \<noteq> OutOfFuel" using assms unfolding takes_def by blast
    with Inl Suc.prems(1) show ?thesis by auto
  next
    case (Inr p)
    obtain v s1 where p: "p = (v, s1)" by (cases p)
    have s1: "length (inp s1) + 1 \<le> length (inp s)" "ahead s1 = None"
      using takes_Inr [OF assms, of s v s1] Inr p Suc.prems(1) by simp_all
    have IH: "elems_loop n dec s1 \<noteq> Inl OutOfFuel \<and>
        (\<forall>vs s'. elems_loop n dec s1 = Inr (vs, s') \<longrightarrow> length (inp s') \<le> length (inp s1) \<and> ahead s' = None)"
      using Suc.IH [OF s1(2)] s1(1) Suc.prems(2) by simp
    then show ?thesis using Inr p s1(1)
      by (cases "elems_loop n dec s1") (auto simp del: split_paired_All)
  qed
qed simp

lemma keeps_array_loop: "keeps dec \<Longrightarrow> ahead s = None \<Longrightarrow> array_loop n dec s \<noteq> Inl OutOfFuel
    \<and> (\<forall>vs s'. array_loop n dec s = Inr (vs, s') \<longrightarrow> length (inp s') \<le> length (inp s) \<and> ahead s' = None)"
proof (induction n arbitrary: s)
  case (Suc n)
  show ?case
  proof (cases "dec s")
    case (Inl e)
    then have "e \<noteq> OutOfFuel" using Suc.prems unfolding keeps_def by blast
    with Inl show ?thesis by auto
  next
    case (Inr p)
    obtain v s1 where p: "p = (v, s1)" by (cases p)
    have "length (inp s1) \<le> length (inp s)" "ahead s1 = None"
      using keeps_Inr [OF Suc.prems(1), of s v s1] Inr p by simp_all
    with Suc.IH [OF Suc.prems(1), of s1] Inr p show ?thesis
      by (cases "array_loop n dec s1") (auto simp del: split_paired_All)
  qed
qed simp

lemma keeps_fields_loop: "\<forall>f \<in> set fs. keeps f \<Longrightarrow> ahead s = None \<Longrightarrow> fields_loop fs s \<noteq> Inl OutOfFuel
    \<and> (\<forall>vs s'. fields_loop fs s = Inr (vs, s') \<longrightarrow> length (inp s') \<le> length (inp s) \<and> ahead s' = None)"
proof (induction fs arbitrary: s)
  case (Cons f fs)
  show ?case
  proof (cases "f s")
    case (Inl e)
    then have "e \<noteq> OutOfFuel" using Cons.prems unfolding keeps_def by auto
    with Inl show ?thesis by auto
  next
    case (Inr p)
    obtain v s1 where p: "p = (v, s1)" by (cases p)
    have "length (inp s1) \<le> length (inp s)" "ahead s1 = None"
      using Cons.prems Inr p unfolding keeps_def by auto
    with Cons.IH [of s1] Cons.prems(1) Inr p show ?thesis
      by (cases "fields_loop fs s1") (auto simp del: split_paired_All)
  qed
qed simp


definition resumes :: "'a stream_op \<Rightarrow> bool" where
  "resumes f \<longleftrightarrow> (\<forall>s. ahead s = None \<longrightarrow> f s \<noteq> Inl OutOfFuel
     \<and> (\<forall>x s'. f s = Inr (x, s') \<longrightarrow> length (inp s') \<le> length (inp s) \<and> ahead s' = None))"

lemma takes_resumes:
  assumes "takes f" and "\<And>x. resumes (g x)"
  shows "takes (\<lambda>s. go_bind (f s) (\<lambda>(x, s). g x s))"
  unfolding takes_def
proof (intro allI conjI impI)
  fix s
  show "go_bind (f s) (\<lambda>(x, s). g x s) \<noteq> Inl OutOfFuel"
    using assms unfolding takes_def resumes_def by (cases "f s") (auto split: prod.splits)
  fix y s' assume "go_bind (f s) (\<lambda>(x, s). g x s) = Inr (y, s')"
  then obtain x s1 where x: "f s = Inr (x, s1)" "g x s1 = Inr (y, s')" by (auto elim!: go_bind_InrE)
  have s1: "length (inp s1) + (if ahead s = None then 1 else 0) \<le> length (inp s) \<and> ahead s1 = None"
    using takes_Inr [OF assms(1) x(1)] .
  then have "length (inp s') \<le> length (inp s1) \<and> ahead s' = None"
    using assms(2) x(2) unfolding resumes_def by blast
  with s1 show "length (inp s') + (if ahead s = None then 1 else 0) \<le> length (inp s)" "ahead s' = None" by linarith+
qed

lemma resumes_end:
  assumes "resumes body"
    and "\<And>s s'. fin s = Inr s' \<Longrightarrow> inp s' = inp s \<and> ahead s' = None" and "\<And>s. fin s \<noteq> Inl OutOfFuel"
  shows "resumes (\<lambda>s. go_bind (body s) (\<lambda>(vs, s). go_bind (fin s) (\<lambda>s. Inr (ListV vs, s))))"
  unfolding resumes_def
proof (intro allI conjI impI)
  fix s assume a: "ahead (s :: Stream) = None"
  have b: "body s \<noteq> Inl OutOfFuel" using assms(1) a unfolding resumes_def by blast
  show "go_bind (body s) (\<lambda>(vs, s). go_bind (fin s) (\<lambda>s. Inr (ListV vs, s))) \<noteq> Inl OutOfFuel"
  proof (cases "body s")
    case (Inr p)
    then show ?thesis using assms(3) by (cases p; cases "fin (snd p)") auto
  qed (use b in simp)
  fix x s' assume "go_bind (body s) (\<lambda>(vs, s). go_bind (fin s) (\<lambda>s. Inr (ListV vs, s))) = Inr (x, s')"
  then obtain vs s1 where 1: "body s = Inr (vs, s1)" "fin s1 = Inr s'" by (auto elim!: go_bind_InrE)
  then have "length (inp s1) \<le> length (inp s)" using assms(1) a unfolding resumes_def by blast
  then show "length (inp s') \<le> length (inp s)" "ahead s' = None" using assms(2) [OF 1(2)] by simp_all
qed

lemma ListEnd_wrapped_keeps:
  "wrapped (Stream_ListEnd s) = Inr s' \<Longrightarrow> inp s' = inp s \<and> ahead s' = None" "wrapped (Stream_ListEnd s) \<noteq> Inl OutOfFuel"
  using ListEnd_keeps by (simp_all add: wrapped_fuel wrapped_Inr)

lemma takes_decodeListSlice: "takes dec \<Longrightarrow> takes (decodeListSlice dec)"
proof -
  assume dec: "takes dec"
  then have "resumes (decodeSliceElems dec)"
    using keeps_elems_loop [OF dec] unfolding resumes_def decodeSliceElems_def by blast
  then have *: "resumes (\<lambda>s. go_bind (decodeSliceElems dec s) (\<lambda>(vs, s). go_bind (Stream_ListEnd s) (\<lambda>s. Inr (ListV vs, s))))"
    by (rule resumes_end) (use ListEnd_keeps in blast)+
  have **: "resumes (\<lambda>s. go_bind (Stream_ListEnd s) (\<lambda>s. Inr (ListV [], s)))"
    unfolding resumes_def using ListEnd_keeps by (fastforce simp: go_bind_def split: sum.splits)
  have "resumes (\<lambda>s. if n = 0 then go_bind (Stream_ListEnd s) (\<lambda>s. Inr (ListV [], s))
      else go_bind (decodeSliceElems dec s) (\<lambda>(vs, s). go_bind (Stream_ListEnd s) (\<lambda>s. Inr (ListV vs, s))))" for n :: uint64
    using * ** by (cases "n = 0") simp_all
  then show ?thesis
    unfolding decodeListSlice_def [abs_def] by (rule takes_resumes [OF takes_wrapped [OF takes_List]])
qed

lemma takes_list:
  assumes "resumes body"
  shows "takes (\<lambda>s. go_bind (wrapped (Stream_List s)) (\<lambda>(n, s). go_bind (body s) (\<lambda>(vs, s).
      go_bind (wrapped (Stream_ListEnd s)) (\<lambda>s. Inr (ListV vs, s)))))"
  by (rule takes_resumes [OF takes_wrapped [OF takes_List]], rule resumes_end [OF assms])
     (use ListEnd_wrapped_keeps in blast)+

lemma takes_decodeListArray: "takes dec \<Longrightarrow> takes (decodeListArray n dec)"
proof -
  assume dec: "takes dec"
  then have "resumes (array_loop n dec)"
    using keeps_array_loop [OF takes_keeps [OF dec]] unfolding resumes_def by blast
  then show ?thesis unfolding decodeListArray_def [abs_def] by (rule takes_list)
qed

lemma takes_makeStructDecoder: "\<forall>f \<in> set fs. takes f \<Longrightarrow> takes (makeStructDecoder fs)"
proof -
  assume "\<forall>f \<in> set fs. takes f"
  then have "resumes (fields_loop fs)"
    using keeps_fields_loop [of fs] takes_keeps unfolding resumes_def by blast
  then show ?thesis unfolding makeStructDecoder_def [abs_def] by (rule takes_list)
qed


lemma takes_wrapped_Kind:
  assumes "takes (\<lambda>s. go_bind (Stream_Kind s) g)"
  shows "takes (\<lambda>s. go_bind (wrapped (Stream_Kind s)) g)"
proof -
  have eq: "go_bind (wrapped (Stream_Kind s)) g = go_bind (Stream_Kind s) g \<or>
      (\<exists>e. e \<noteq> OutOfFuel \<and> go_bind (wrapped (Stream_Kind s)) g = Inl e)" for s
    using Stream_Kind_takes(2) [of s] wrapStreamError_fuel
    by (cases "Stream_Kind s") (auto simp: wrapped_def)
  show ?thesis
    unfolding takes_def
  proof (intro allI conjI impI)
    fix s
    show "go_bind (wrapped (Stream_Kind s)) g \<noteq> Inl OutOfFuel"
      using eq [of s] assms unfolding takes_def by (metis Inl_inject)
    fix x s' assume "go_bind (wrapped (Stream_Kind s)) g = Inr (x, s')"
    then have "go_bind (Stream_Kind s) g = Inr (x, s')" using eq [of s] by auto
    then show "length (inp s') + (if ahead s = None then 1 else 0) \<le> length (inp s)" "ahead s' = None"
      using takes_Inr [OF assms] by blast+
  qed
qed

lemma takes_decodeBigInt: "takes decodeBigInt"
  unfolding decodeBigInt_def [abs_def]
  by (intro takes_wrapped_Kind takes_Kind3 keeps_step [where h = id] keeps_step [where h = "\<lambda>b. BigV (int (be_val b))"] keeps_intros)
     (auto simp: wrapStreamError_fuel)

lemma takes_decodeByteArray: "takes (decodeByteArray n)"
  unfolding decodeByteArray_def [abs_def]
  by (intro takes_Kind3 keeps_step [where h = BytesV] keeps_intros) (auto simp: wrapStreamError_fuel)

lemma takes_makeNilPtrDecoder: "takes dec \<Longrightarrow> takes (makeNilPtrDecoder k dec)"
  unfolding makeNilPtrDecoder_def [abs_def]
  by (intro takes_wrapped_Kind takes_Kind3 keeps_intros takes_keeps) auto

lemma takes_makeDecoder: "takes (makeDecoder t)"
proof (induction t)
  case (UintT bits)
  show ?case unfolding makeDecoder.simps decodeUint_def [abs_def]
    by (rule takes_step [OF takes_wrapped [OF takes_uint], where h = UintV]) simp
next
  case BoolT
  show ?case unfolding makeDecoder.simps decodeBool_def [abs_def]
    by (rule takes_step [OF takes_wrapped [OF takes_Bool], where h = BoolV]) simp
next
  case BytesT
  show ?case unfolding makeDecoder.simps decodeByteSlice_def [abs_def]
    by (rule takes_step [OF takes_wrapped [OF takes_Bytes], where h = BytesV]) simp
qed (simp_all add: takes_decodeBigInt takes_decodeByteArray takes_decodeListSlice takes_decodeListArray
       takes_makeStructDecoder takes_makeNilPtrDecoder)

text \<open>
  C25: decoding always ends: whatever the type and the input bytes are, and however the input
  nests lists or lies about their sizes, \<open>DecodeBytes\<close> returns a value or one of the decoder's
  errors; the rounds allowed to its element loops never run out, because every element takes
  at least one byte of the input.
\<close>

theorem DecodeBytes_ends: "DecodeBytes t b \<noteq> Inl OutOfFuel"
proof -
  have "makeDecoder t (Stream_Reset b) \<noteq> Inl OutOfFuel"
    using takes_makeDecoder [of t] unfolding takes_def by blast
  then show ?thesis by (auto simp: DecodeBytes_def go_bind_def split: sum.splits prod.splits)
qed


text \<open>
  C19: what \<open>EncodeToBytes\<close> writes \<open>DecodeBytes\<close> reads back: for every type built from unsigned
  integers, booleans, big integers, byte slices and arrays, slices, arrays, structs and
  pointers, and every value of it with no nil where the type has no nil, the decoder returns
  the value, with all of the input consumed and the element loops never out of rounds.
\<close>

theorem EncodeToBytes_DecodeBytes:
  assumes "storable t v" and "length (item_enc (item_of t v)) < 2 ^ 64"
  shows "\<exists>b. EncodeToBytes t v = Inr b \<and> DecodeBytes t b = Inr v"
  using EncodeToBytes_spec [OF storable_of_type [OF assms(1)]] DecodeBytes_item [OF assms(1)] assms(2)
  by (simp del: item_enc.simps)

theorem EncodeToBytes_DecodeBytes_witness:
  "\<exists>b. EncodeToBytes (StructT [BigIntT, SliceT (ArrayT 2 (ByteArrayT 2)), BoolT])
         (ListV [BigV 70000, ListV [ListV [BytesV [0, 1], BytesV [2, 3]]], BoolV True]) = Inr b
     \<and> DecodeBytes (StructT [BigIntT, SliceT (ArrayT 2 (ByteArrayT 2)), BoolT]) b
       = Inr (ListV [BigV 70000, ListV [ListV [BytesV [0, 1], BytesV [2, 3]]], BoolV True])"
proof (rule EncodeToBytes_DecodeBytes)
  have "min_be 70000 = [1, 17, 112]" by (simp add: min_be.simps)
  then show "length (item_enc (item_of (StructT [BigIntT, SliceT (ArrayT 2 (ByteArrayT 2)), BoolT])
      (ListV [BigV 70000, ListV [ListV [BytesV [0, 1], BytesV [2, 3]]], BoolV True]))) < 2 ^ 64"
    by (simp add: hdr_def)
qed simp

end
