(* ===== verification/Substate_Store.thy ===== *)
theory Substate_Store
  imports Substate Rlp_Decode
begin

text \<open>
  The database of recorded substates: \<open>research/substate_rlp.go\<close> (the serialised form of every
  part of a substate, in the three layouts the database has had) and \<open>research/substate_db.go\<close>
  (keys, contract code stored by hash, reading and writing). The key-value backend is
  \<open>ethdb/memorydb\<close>; serialisation is the modelled RLP codec, with the layout of each struct
  given as an \<open>rlp_type\<close>. Keccak-256 is a parameter.
\<close>

section \<open>The key-value store\<close>

datatype db_error = errMemorydbClosed | errMemorydbNotFound

type_synonym Database = "(bytes, bytes) gomap option"

definition db_New :: Database where
  "db_New = Some []"

definition db_Close :: "Database \<Rightarrow> Database" where
  "db_Close db = None"

definition db_Has :: "Database \<Rightarrow> bytes \<Rightarrow> db_error + bool" where
  "db_Has db key = (case db of None \<Rightarrow> Inl errMemorydbClosed | Some m \<Rightarrow> Inr (mhas m key))"

definition db_Get :: "Database \<Rightarrow> bytes \<Rightarrow> db_error + bytes" where
  "db_Get db key =
     (case db of
        None \<Rightarrow> Inl errMemorydbClosed
      | Some m \<Rightarrow> (case map_of m key of Some entry \<Rightarrow> Inr entry | None \<Rightarrow> Inl errMemorydbNotFound))"

definition db_Put :: "bytes \<Rightarrow> bytes \<Rightarrow> Database \<Rightarrow> db_error + Database" where
  "db_Put key v db = (case db of None \<Rightarrow> Inl errMemorydbClosed | Some m \<Rightarrow> Inr (Some (mput key v m)))"

definition db_Delete :: "bytes \<Rightarrow> Database \<Rightarrow> db_error + Database" where
  "db_Delete key db = (case db of None \<Rightarrow> Inl errMemorydbClosed | Some m \<Rightarrow> Inr (Some (AList.delete key m)))"

fun bytes_less :: "bytes \<Rightarrow> bytes \<Rightarrow> bool" where
  "bytes_less x [] = False"
| "bytes_less [] (y # ys) = True"
| "bytes_less (x # xs) (y # ys) = (x < y \<or> x = y \<and> bytes_less xs ys)"

definition db_NewIterator :: "Database \<Rightarrow> bytes \<Rightarrow> bytes \<Rightarrow> (bytes \<times> bytes) list" where
  "db_NewIterator db prefix start =
     (let m = (case db of None \<Rightarrow> [] | Some m \<Rightarrow> m);
          st = prefix @ start;
          keys = sort_by bytes_less
            (filter (\<lambda>key. take (length prefix) key = prefix \<and> \<not> bytes_less key st) (mkeys m))
      in map (\<lambda>key. (key, mget [] m key)) keys)"

section \<open>Keys\<close>

definition stage1SubstatePrefix :: bytes where
  "stage1SubstatePrefix = [0x31, 0x73]"

definition stage1CodePrefix :: bytes where
  "stage1CodePrefix = [0x31, 0x63]"

text \<open>A Go \<open>int\<close> is the 64-bit word of its two's complement.\<close>

definition Stage1SubstateKey :: "uint64 \<Rightarrow> uint64 \<Rightarrow> bytes" where
  "Stage1SubstateKey block tx =
     stage1SubstatePrefix @ be_bytes 8 (unat block) @ be_bytes 8 (unat tx)"

definition DecodeStage1SubstateKey :: "bytes \<Rightarrow> string + (uint64 \<times> uint64)" where
  "DecodeStage1SubstateKey key =
     (let prefix = stage1SubstatePrefix
      in if length key \<noteq> length prefix + 8 + 8 then Inl ''invalid length of stage1 substate key''
         else if take (length prefix) key \<noteq> prefix then Inl ''invalid prefix of stage1 substate key''
         else let blockTx = drop (length prefix) key
              in Inr (of_nat (be_val (take 8 blockTx)), of_nat (be_val (take 8 (drop 8 blockTx)))))"

definition Stage1SubstateBlockPrefix :: "uint64 \<Rightarrow> bytes" where
  "Stage1SubstateBlockPrefix block = stage1SubstatePrefix @ be_bytes 8 (unat block)"

definition Stage1CodeKey :: "Hash \<Rightarrow> bytes" where
  "Stage1CodeKey codeHash = stage1CodePrefix @ Hash_Bytes codeHash"

definition DecodeStage1CodeKey :: "bytes \<Rightarrow> string + Hash" where
  "DecodeStage1CodeKey key =
     (let prefix = stage1CodePrefix
      in if length key \<noteq> length prefix + 32 then Inl ''invalid length of stage1 code key''
         else if take 2 key \<noteq> prefix then Inl ''invalid prefix of stage1 code key''
         else Inr (BytesToHash (drop (length prefix) key)))"

section \<open>Contract code\<close>

text \<open>
  \<open>NewSubstateDB\<close> takes any backend with the interface of a key-value store; here it is the one of \<open>ethdb/memorydb\<close>,
  whose code the repository has.
\<close>

type_synonym SubstateDB = Database

definition CodeHash :: "(bytes \<Rightarrow> Hash) \<Rightarrow> bytes \<Rightarrow> Hash" where
  "CodeHash keccak code = keccak code"

definition EmptyCodeHash :: "(bytes \<Rightarrow> Hash) \<Rightarrow> Hash" where
  "EmptyCodeHash keccak = CodeHash keccak []"

definition or_panic :: "string \<Rightarrow> 'e + 'a \<Rightarrow> 'a go" where
  "or_panic msg r = (case r of Inl _ \<Rightarrow> Inl (ExplicitPanic msg) | Inr x \<Rightarrow> Inr x)"

definition HasCode :: "(bytes \<Rightarrow> Hash) \<Rightarrow> SubstateDB \<Rightarrow> Hash \<Rightarrow> bool go" where
  "HasCode keccak db codeHash =
     (if codeHash = EmptyCodeHash keccak then Inr False
      else or_panic ''record-replay: error checking bytecode'' (db_Has db (Stage1CodeKey codeHash)))"

definition GetCode :: "(bytes \<Rightarrow> Hash) \<Rightarrow> SubstateDB \<Rightarrow> Hash \<Rightarrow> bytes go" where
  "GetCode keccak db codeHash =
     (if codeHash = EmptyCodeHash keccak then Inr []
      else or_panic ''record-replay: error getting code'' (db_Get db (Stage1CodeKey codeHash)))"

definition PutCode :: "(bytes \<Rightarrow> Hash) \<Rightarrow> bytes \<Rightarrow> SubstateDB \<Rightarrow> SubstateDB go" where
  "PutCode keccak code db =
     (if length code = 0 then Inr db
      else or_panic ''record-replay: error putting code'' (db_Put (Stage1CodeKey (keccak code)) code db))"

section \<open>Serialised accounts\<close>

record SubstateAccountRLP =
  ar_Nonce :: uint64
  ar_Balance :: int
  ar_CodeHash :: Hash
  ar_Storage :: "(Hash \<times> Hash) list"

definition key_less :: "'a::len word \<Rightarrow> 'a word \<Rightarrow> bool" where
  "key_less a b \<longleftrightarrow> unat a < unat b"

definition NewSubstateAccountRLP :: "(bytes \<Rightarrow> Hash) \<Rightarrow> SubstateAccount \<Rightarrow> SubstateAccountRLP" where
  "NewSubstateAccountRLP keccak sa =
     \<lparr>ar_Nonce = acc_Nonce sa, ar_Balance = acc_Balance sa, ar_CodeHash = SubstateAccount_CodeHash keccak sa,
      ar_Storage = (let sortedKeys = sort_by key_less (mkeys (acc_Storage sa))
                    in map (\<lambda>key. (key, mget 0 (acc_Storage sa) key)) sortedKeys)\<rparr>"

definition SubstateAccount_SetRLP :: "(bytes \<Rightarrow> Hash) \<Rightarrow> SubstateDB \<Rightarrow> SubstateAccountRLP \<Rightarrow> SubstateAccount go" where
  "SubstateAccount_SetRLP keccak db saRLP =
     go_bind (GetCode keccak db (ar_CodeHash saRLP)) (\<lambda>code.
       Inr \<lparr>acc_Nonce = ar_Nonce saRLP, acc_Balance = ar_Balance saRLP,
            acc_Storage = fold (\<lambda>(k, v). mput k v) (ar_Storage saRLP) [], acc_Code = code\<rparr>)"

record SubstateAllocRLP =
  al_Addresses :: "Address list"
  al_Accounts :: "SubstateAccountRLP list"

definition NewSubstateAllocRLP :: "(bytes \<Rightarrow> Hash) \<Rightarrow> SubstateAlloc \<Rightarrow> SubstateAllocRLP go" where
  "NewSubstateAllocRLP keccak alloc =
     (let addrs = sort_by key_less (mkeys alloc)
      in go_bind
           (go_fold (\<lambda>addr accounts.
              case mget None alloc addr of
                None \<Rightarrow> Inl NilDereference
              | Some account \<Rightarrow> Inr (accounts @ [NewSubstateAccountRLP keccak account])) addrs [])
           (\<lambda>accounts. Inr \<lparr>al_Addresses = addrs, al_Accounts = accounts\<rparr>))"

definition SubstateAlloc_SetRLP :: "(bytes \<Rightarrow> Hash) \<Rightarrow> SubstateDB \<Rightarrow> SubstateAllocRLP \<Rightarrow> SubstateAlloc go" where
  "SubstateAlloc_SetRLP keccak db allocRLP =
     go_fold (\<lambda>(i, addr) alloc.
         go_bind (go_index (al_Accounts allocRLP) i) (\<lambda>saRLP.
           go_bind (SubstateAccount_SetRLP keccak db saRLP) (\<lambda>sa.
             Inr (mput addr (Some sa) alloc))))
       (List.enumerate 0 (al_Addresses allocRLP)) []"

section \<open>Serialised environments\<close>

record legacySubstateEnvRLP =
  er_Coinbase :: Address
  er_Difficulty :: int
  er_GasLimit :: uint64
  er_Number :: uint64
  er_Timestamp :: uint64
  er_BlockHashes :: "(Hash \<times> Hash) list"

record SubstateEnvRLP = legacySubstateEnvRLP +
  er_BaseFee :: "Hash option"

text \<open>\<open>setLegacyRLP\<close> on a fresh \<open>SubstateEnvRLP\<close>, whose base fee is nil.\<close>

definition Env_setLegacyRLP :: "legacySubstateEnvRLP \<Rightarrow> SubstateEnvRLP" where
  "Env_setLegacyRLP l =
     \<lparr>er_Coinbase = er_Coinbase l, er_Difficulty = er_Difficulty l, er_GasLimit = er_GasLimit l,
      er_Number = er_Number l, er_Timestamp = er_Timestamp l, er_BlockHashes = er_BlockHashes l,
      er_BaseFee = None\<rparr>"

text \<open>\<open>common.BigToHash\<close>: the bytes of the absolute value, cropped to 32.\<close>

definition BigToHash :: "int \<Rightarrow> Hash" where
  "BigToHash b = BytesToHash (min_be (nat \<bar>b\<bar>))"

definition NewSubstateEnvRLP :: "SubstateEnv \<Rightarrow> SubstateEnvRLP" where
  "NewSubstateEnvRLP env =
     \<lparr>er_Coinbase = env_Coinbase env, er_Difficulty = env_Difficulty env, er_GasLimit = env_GasLimit env,
      er_Number = env_Number env, er_Timestamp = env_Timestamp env,
      er_BlockHashes = map (\<lambda>num64. (BigToHash (int (unat num64)), mget 0 (env_BlockHashes env) num64))
        (mkeys (env_BlockHashes env)),
      er_BaseFee = map_option BigToHash (env_BaseFee env)\<rparr>"

definition SubstateEnv_SetRLP :: "SubstateEnvRLP \<Rightarrow> SubstateEnv" where
  "SubstateEnv_SetRLP r =
     \<lparr>env_Coinbase = er_Coinbase r, env_Difficulty = er_Difficulty r, env_GasLimit = er_GasLimit r,
      env_Number = er_Number r, env_Timestamp = er_Timestamp r,
      env_BlockHashes = fold (\<lambda>(n, bhash). mput (of_nat (unat n)) bhash) (er_BlockHashes r) [],
      env_BaseFee = map_option (\<lambda>h. int (unat h)) (er_BaseFee r)\<rparr>"

section \<open>Serialised messages\<close>

record legacySubstateMessageRLP =
  mr_Nonce :: uint64
  mr_CheckNonce :: bool
  mr_GasPrice :: int
  mr_Gas :: uint64
  mr_From :: Address
  mr_To :: "Address option"
  mr_Value :: int
  mr_Data :: bytes
  mr_InitCodeHash :: "Hash option"

record berlinSubstateMessageRLP = legacySubstateMessageRLP +
  mr_AccessList :: AccessList

record SubstateMessageRLP = berlinSubstateMessageRLP +
  mr_GasFeeCap :: int
  mr_GasTipCap :: int

definition Message_setLegacyRLP :: "legacySubstateMessageRLP \<Rightarrow> SubstateMessageRLP" where
  "Message_setLegacyRLP l =
     \<lparr>mr_Nonce = mr_Nonce l, mr_CheckNonce = mr_CheckNonce l, mr_GasPrice = mr_GasPrice l, mr_Gas = mr_Gas l,
      mr_From = mr_From l, mr_To = mr_To l, mr_Value = mr_Value l, mr_Data = mr_Data l,
      mr_InitCodeHash = mr_InitCodeHash l, mr_AccessList = [],
      mr_GasFeeCap = mr_GasPrice l, mr_GasTipCap = mr_GasPrice l\<rparr>"

definition Message_setBerlinRLP :: "berlinSubstateMessageRLP \<Rightarrow> SubstateMessageRLP" where
  "Message_setBerlinRLP b =
     \<lparr>mr_Nonce = mr_Nonce b, mr_CheckNonce = mr_CheckNonce b, mr_GasPrice = mr_GasPrice b, mr_Gas = mr_Gas b,
      mr_From = mr_From b, mr_To = mr_To b, mr_Value = mr_Value b, mr_Data = mr_Data b,
      mr_InitCodeHash = mr_InitCodeHash b, mr_AccessList = [],
      mr_GasFeeCap = mr_GasPrice b, mr_GasTipCap = mr_GasPrice b\<rparr>"

definition NewSubstateMessageRLP :: "(bytes \<Rightarrow> Hash) \<Rightarrow> SubstateMessage \<Rightarrow> SubstateMessageRLP \<times> SubstateMessage" where
  "NewSubstateMessageRLP keccak msg =
     (let r = \<lparr>mr_Nonce = msg_Nonce msg, mr_CheckNonce = msg_CheckNonce msg, mr_GasPrice = msg_GasPrice msg,
               mr_Gas = msg_Gas msg, mr_From = msg_From msg, mr_To = msg_To msg, mr_Value = msg_Value msg,
               mr_Data = msg_Data msg, mr_InitCodeHash = None, mr_AccessList = msg_AccessList msg,
               mr_GasFeeCap = msg_GasFeeCap msg, mr_GasTipCap = msg_GasTipCap msg\<rparr>
      in if mr_To r = None
         then let (dataHash, msg) = DataHash keccak msg
              in (r\<lparr>mr_Data := [], mr_InitCodeHash := Some dataHash\<rparr>, msg)
         else (r, msg))"

definition SubstateMessage_SetRLP :: "(bytes \<Rightarrow> Hash) \<Rightarrow> SubstateDB \<Rightarrow> SubstateMessageRLP \<Rightarrow> SubstateMessage go" where
  "SubstateMessage_SetRLP keccak db r =
     go_bind
       (if mr_To r = None
        then (case mr_InitCodeHash r of None \<Rightarrow> Inl NilDereference | Some h \<Rightarrow> GetCode keccak db h)
        else Inr (mr_Data r))
       (\<lambda>data. Inr \<lparr>msg_Nonce = mr_Nonce r, msg_CheckNonce = mr_CheckNonce r, msg_GasPrice = mr_GasPrice r,
          msg_Gas = mr_Gas r, msg_From = mr_From r, msg_To = mr_To r, msg_Value = mr_Value r, msg_Data = data,
          msg_dataHash = None, msg_AccessList = mr_AccessList r, msg_GasFeeCap = mr_GasFeeCap r,
          msg_GasTipCap = mr_GasTipCap r\<rparr>)"

section \<open>Serialised results and substates\<close>

record SubstateResultRLP =
  rr_Status :: uint64
  rr_Bloom :: bytes
  rr_Logs :: "Log list"
  rr_ContractAddress :: Address
  rr_GasUsed :: uint64

definition NewSubstateResultRLP :: "SubstateResult \<Rightarrow> SubstateResultRLP" where
  "NewSubstateResultRLP r =
     \<lparr>rr_Status = res_Status r, rr_Bloom = res_Bloom r, rr_Logs = res_Logs r,
      rr_ContractAddress = res_ContractAddress r, rr_GasUsed = res_GasUsed r\<rparr>"

definition SubstateResult_SetRLP :: "SubstateResultRLP \<Rightarrow> SubstateResult" where
  "SubstateResult_SetRLP r =
     \<lparr>res_Status = rr_Status r, res_Bloom = rr_Bloom r, res_Logs = rr_Logs r,
      res_ContractAddress = rr_ContractAddress r, res_GasUsed = rr_GasUsed r\<rparr>"

record ('env, 'msg) layout =
  sr_InputAlloc :: SubstateAllocRLP
  sr_OutputAlloc :: SubstateAllocRLP
  sr_Env :: 'env
  sr_Message :: 'msg
  sr_Result :: SubstateResultRLP

type_synonym legacySubstateRLP = "(legacySubstateEnvRLP, legacySubstateMessageRLP) layout"
type_synonym berlinSubstateRLP = "(legacySubstateEnvRLP, berlinSubstateMessageRLP) layout"
type_synonym SubstateRLP = "(SubstateEnvRLP, SubstateMessageRLP) layout"

definition setLegacyRLP :: "legacySubstateRLP \<Rightarrow> SubstateRLP" where
  "setLegacyRLP l =
     \<lparr>sr_InputAlloc = sr_InputAlloc l, sr_OutputAlloc = sr_OutputAlloc l,
      sr_Env = Env_setLegacyRLP (sr_Env l), sr_Message = Message_setLegacyRLP (sr_Message l), sr_Result = sr_Result l\<rparr>"

definition setBerlinRLP :: "berlinSubstateRLP \<Rightarrow> SubstateRLP" where
  "setBerlinRLP b =
     \<lparr>sr_InputAlloc = sr_InputAlloc b, sr_OutputAlloc = sr_OutputAlloc b,
      sr_Env = Env_setLegacyRLP (sr_Env b), sr_Message = Message_setBerlinRLP (sr_Message b), sr_Result = sr_Result b\<rparr>"

definition NewSubstateRLP :: "(bytes \<Rightarrow> Hash) \<Rightarrow> Substate \<Rightarrow> (SubstateRLP \<times> Substate) go" where
  "NewSubstateRLP keccak s =
     go_bind (NewSubstateAllocRLP keccak (InputAlloc s)) (\<lambda>inputAlloc.
     go_bind (NewSubstateAllocRLP keccak (OutputAlloc s)) (\<lambda>outputAlloc.
       let (msgRLP, msg) = NewSubstateMessageRLP keccak (ss_Message s)
       in Inr (\<lparr>sr_InputAlloc = inputAlloc, sr_OutputAlloc = outputAlloc, sr_Env = NewSubstateEnvRLP (Env s),
                sr_Message = msgRLP, sr_Result = NewSubstateResultRLP (Result s)\<rparr>,
               s\<lparr>ss_Message := msg\<rparr>)))"

definition Substate_SetRLP :: "(bytes \<Rightarrow> Hash) \<Rightarrow> SubstateDB \<Rightarrow> SubstateRLP \<Rightarrow> Substate go" where
  "Substate_SetRLP keccak db r =
     go_bind (SubstateAlloc_SetRLP keccak db (sr_InputAlloc r)) (\<lambda>inputAlloc.
     go_bind (SubstateAlloc_SetRLP keccak db (sr_OutputAlloc r)) (\<lambda>outputAlloc.
     go_bind (SubstateMessage_SetRLP keccak db (sr_Message r)) (\<lambda>msg.
       Inr \<lparr>InputAlloc = inputAlloc, OutputAlloc = outputAlloc, Env = SubstateEnv_SetRLP (sr_Env r),
            ss_Message = msg, Result = SubstateResult_SetRLP (sr_Result r)\<rparr>)))"

end
