(* ===== verification/Substate_DB.thy ===== *)
theory Substate_DB
  imports Substate_Store
begin

text \<open>
  Reading and writing substates: the wire layout of every struct of \<open>substate_rlp.go\<close> as an
  \<open>rlp_type\<close> with the conversion to and from the value \<open>reflect\<close> sees, and the operations of
  \<open>SubstateDB\<close>. The theorems say that a stored substate is read back with the same contents,
  that storing one leaves the others readable, that the keys of code and substates never
  clash, and what happens to records in the two older layouts.
\<close>

section \<open>Wire layouts\<close>

abbreviation hashT :: rlp_type where "hashT \<equiv> ByteArrayT 32"
abbreviation addressT :: rlp_type where "addressT \<equiv> ByteArrayT 20"
abbreviation pairT :: rlp_type where "pairT \<equiv> ArrayT 2 hashT"

definition accountT :: rlp_type where
  "accountT = StructT [UintT 64, BigIntT, hashT, SliceT pairT]"

definition allocT :: rlp_type where
  "allocT = StructT [SliceT addressT, SliceT (PtrT accountT)]"

definition envFields :: "rlp_type list" where
  "envFields = [addressT, BigIntT, UintT 64, UintT 64, UintT 64, SliceT pairT]"

definition legacyEnvT :: rlp_type where
  "legacyEnvT = StructT envFields"

definition envT :: rlp_type where
  "envT = StructT (envFields @ [NilPtrT StringK hashT])"

definition messageFields :: "rlp_type list" where
  "messageFields = [UintT 64, BoolT, BigIntT, UintT 64, addressT, NilPtrT StringK addressT, BigIntT, BytesT,
     NilPtrT StringK hashT]"

definition accessListT :: rlp_type where
  "accessListT = SliceT (StructT [addressT, SliceT hashT])"

definition legacyMessageT :: rlp_type where
  "legacyMessageT = StructT messageFields"

definition berlinMessageT :: rlp_type where
  "berlinMessageT = StructT (messageFields @ [accessListT])"

definition messageT :: rlp_type where
  "messageT = StructT (messageFields @ [accessListT, BigIntT, BigIntT])"

text \<open>A log is written and read through its consensus fields (\<open>rlpLog\<close> in \<open>core/types/log.go\<close>).\<close>

definition logT :: rlp_type where
  "logT = StructT [addressT, SliceT hashT, BytesT]"

definition resultT :: rlp_type where
  "resultT = StructT [UintT 64, ByteArrayT 256, SliceT (PtrT logT), addressT, UintT 64]"

definition layoutT :: "rlp_type \<Rightarrow> rlp_type \<Rightarrow> rlp_type" where
  "layoutT env msg = StructT [allocT, allocT, PtrT env, PtrT msg, PtrT resultT]"

definition substateT :: rlp_type where
  "substateT = layoutT envT messageT"

definition berlinSubstateT :: rlp_type where
  "berlinSubstateT = layoutT legacyEnvT berlinMessageT"

definition legacySubstateT :: rlp_type where
  "legacySubstateT = layoutT legacyEnvT legacyMessageT"

section \<open>Fields as values\<close>

definition hash_val :: "Hash \<Rightarrow> rlp_val" where
  "hash_val h = BytesV (Hash_Bytes h)"

definition address_val :: "Address \<Rightarrow> rlp_val" where
  "address_val a = BytesV (Address_Bytes a)"

definition nil_or :: "('a \<Rightarrow> rlp_val) \<Rightarrow> 'a option \<Rightarrow> rlp_val" where
  "nil_or f x = (case x of None \<Rightarrow> NilV | Some a \<Rightarrow> f a)"

definition pair_val :: "Hash \<times> Hash \<Rightarrow> rlp_val" where
  "pair_val p = ListV [hash_val (fst p), hash_val (snd p)]"

definition account_val :: "SubstateAccountRLP \<Rightarrow> rlp_val" where
  "account_val a =
     ListV [UintV (ar_Nonce a), BigV (ar_Balance a), hash_val (ar_CodeHash a), ListV (map pair_val (ar_Storage a))]"

definition alloc_val :: "SubstateAllocRLP \<Rightarrow> rlp_val" where
  "alloc_val a = ListV [ListV (map address_val (al_Addresses a)), ListV (map account_val (al_Accounts a))]"

definition env_vals :: "('a) legacySubstateEnvRLP_scheme \<Rightarrow> rlp_val list" where
  "env_vals e =
     [address_val (er_Coinbase e), BigV (er_Difficulty e), UintV (er_GasLimit e), UintV (er_Number e),
      UintV (er_Timestamp e), ListV (map pair_val (er_BlockHashes e))]"

definition legacyEnv_val :: "legacySubstateEnvRLP \<Rightarrow> rlp_val" where
  "legacyEnv_val e = ListV (env_vals e)"

definition env_val :: "SubstateEnvRLP \<Rightarrow> rlp_val" where
  "env_val e = ListV (env_vals e @ [nil_or hash_val (er_BaseFee e)])"

definition message_vals :: "('a) legacySubstateMessageRLP_scheme \<Rightarrow> rlp_val list" where
  "message_vals m =
     [UintV (mr_Nonce m), BoolV (mr_CheckNonce m), BigV (mr_GasPrice m), UintV (mr_Gas m), address_val (mr_From m),
      nil_or address_val (mr_To m), BigV (mr_Value m), BytesV (mr_Data m), nil_or hash_val (mr_InitCodeHash m)]"

definition accessList_val :: "AccessList \<Rightarrow> rlp_val" where
  "accessList_val al = ListV (map (\<lambda>(a, ks). ListV [address_val a, ListV (map hash_val ks)]) al)"

definition legacyMessage_val :: "legacySubstateMessageRLP \<Rightarrow> rlp_val" where
  "legacyMessage_val m = ListV (message_vals m)"

definition berlinMessage_val :: "berlinSubstateMessageRLP \<Rightarrow> rlp_val" where
  "berlinMessage_val m = ListV (message_vals m @ [accessList_val (mr_AccessList m)])"

definition message_val :: "SubstateMessageRLP \<Rightarrow> rlp_val" where
  "message_val m = ListV (message_vals m @ [accessList_val (mr_AccessList m), BigV (mr_GasFeeCap m), BigV (mr_GasTipCap m)])"

definition log_val :: "Log \<Rightarrow> rlp_val" where
  "log_val l = ListV [address_val (lg_Address l), ListV (map hash_val (lg_Topics l)), BytesV (lg_Data l)]"

definition result_val :: "SubstateResultRLP \<Rightarrow> rlp_val" where
  "result_val r =
     ListV [UintV (rr_Status r), BytesV (rr_Bloom r), ListV (map log_val (rr_Logs r)),
       address_val (rr_ContractAddress r), UintV (rr_GasUsed r)]"

definition layout_val :: "('env \<Rightarrow> rlp_val) \<Rightarrow> ('msg \<Rightarrow> rlp_val) \<Rightarrow> ('env, 'msg) layout \<Rightarrow> rlp_val" where
  "layout_val env msg r =
     ListV [alloc_val (sr_InputAlloc r), alloc_val (sr_OutputAlloc r), env (sr_Env r), msg (sr_Message r),
       result_val (sr_Result r)]"

section \<open>Values as fields\<close>

definition val_hash :: "rlp_val \<Rightarrow> Hash option" where
  "val_hash v = (case v of BytesV b \<Rightarrow> Some (BytesToHash b) | _ \<Rightarrow> None)"

definition val_address :: "rlp_val \<Rightarrow> Address option" where
  "val_address v = (case v of BytesV b \<Rightarrow> Some (BytesToAddress b) | _ \<Rightarrow> None)"

definition val_nil_or :: "(rlp_val \<Rightarrow> 'a option) \<Rightarrow> rlp_val \<Rightarrow> 'a option option" where
  "val_nil_or f v = (if v = NilV then Some None else map_option Some (f v))"

definition val_list :: "(rlp_val \<Rightarrow> 'a option) \<Rightarrow> rlp_val \<Rightarrow> 'a list option" where
  "val_list f v = (case v of ListV vs \<Rightarrow> those (map f vs) | _ \<Rightarrow> None)"

definition val_pair :: "rlp_val \<Rightarrow> (Hash \<times> Hash) option" where
  "val_pair v =
     (case v of
        ListV [k, w] \<Rightarrow> Option.bind (val_hash k) (\<lambda>k. map_option (Pair k) (val_hash w))
      | _ \<Rightarrow> None)"

definition val_account :: "rlp_val \<Rightarrow> SubstateAccountRLP option" where
  "val_account v =
     (case v of
        ListV [UintV nonce, BigV balance, h, st] \<Rightarrow>
          Option.bind (val_hash h) (\<lambda>h. Option.bind (val_list val_pair st) (\<lambda>st.
            Some \<lparr>ar_Nonce = nonce, ar_Balance = balance, ar_CodeHash = h, ar_Storage = st\<rparr>))
      | _ \<Rightarrow> None)"

definition val_alloc :: "rlp_val \<Rightarrow> SubstateAllocRLP option" where
  "val_alloc v =
     (case v of
        ListV [addrs, accounts] \<Rightarrow>
          Option.bind (val_list val_address addrs) (\<lambda>addrs. Option.bind (val_list val_account accounts) (\<lambda>accounts.
            Some \<lparr>al_Addresses = addrs, al_Accounts = accounts\<rparr>))
      | _ \<Rightarrow> None)"

definition vals_legacyEnv :: "rlp_val list \<Rightarrow> legacySubstateEnvRLP option" where
  "vals_legacyEnv vs =
     (case vs of
        [coinbase, BigV difficulty, UintV gasLimit, UintV number, UintV timestamp, hashes] \<Rightarrow>
          Option.bind (val_address coinbase) (\<lambda>coinbase. Option.bind (val_list val_pair hashes) (\<lambda>hashes.
            Some \<lparr>er_Coinbase = coinbase, er_Difficulty = difficulty, er_GasLimit = gasLimit, er_Number = number,
                  er_Timestamp = timestamp, er_BlockHashes = hashes\<rparr>))
      | _ \<Rightarrow> None)"

definition val_legacyEnv :: "rlp_val \<Rightarrow> legacySubstateEnvRLP option" where
  "val_legacyEnv v = (case v of ListV vs \<Rightarrow> vals_legacyEnv vs | _ \<Rightarrow> None)"

definition val_env :: "rlp_val \<Rightarrow> SubstateEnvRLP option" where
  "val_env v =
     (case v of
        ListV vs \<Rightarrow>
          if vs = [] then None
          else Option.bind (vals_legacyEnv (butlast vs)) (\<lambda>e. Option.bind (val_nil_or val_hash (last vs)) (\<lambda>fee.
            Some \<lparr>er_Coinbase = er_Coinbase e, er_Difficulty = er_Difficulty e, er_GasLimit = er_GasLimit e,
                  er_Number = er_Number e, er_Timestamp = er_Timestamp e, er_BlockHashes = er_BlockHashes e,
                  er_BaseFee = fee\<rparr>))
      | _ \<Rightarrow> None)"

definition vals_legacyMessage :: "rlp_val list \<Rightarrow> legacySubstateMessageRLP option" where
  "vals_legacyMessage vs =
     (case vs of
        [UintV nonce, BoolV check, BigV gasPrice, UintV gas, from, to, BigV v, BytesV data, init] \<Rightarrow>
          Option.bind (val_address from) (\<lambda>from. Option.bind (val_nil_or val_address to) (\<lambda>to.
          Option.bind (val_nil_or val_hash init) (\<lambda>init.
            Some \<lparr>mr_Nonce = nonce, mr_CheckNonce = check, mr_GasPrice = gasPrice, mr_Gas = gas, mr_From = from,
                  mr_To = to, mr_Value = v, mr_Data = data, mr_InitCodeHash = init\<rparr>)))
      | _ \<Rightarrow> None)"

definition val_tuple :: "rlp_val \<Rightarrow> (Address \<times> Hash list) option" where
  "val_tuple v =
     (case v of
        ListV [a, ks] \<Rightarrow> Option.bind (val_address a) (\<lambda>a. map_option (Pair a) (val_list val_hash ks))
      | _ \<Rightarrow> None)"

definition val_legacyMessage :: "rlp_val \<Rightarrow> legacySubstateMessageRLP option" where
  "val_legacyMessage v = (case v of ListV vs \<Rightarrow> vals_legacyMessage vs | _ \<Rightarrow> None)"

definition val_berlinMessage :: "rlp_val \<Rightarrow> berlinSubstateMessageRLP option" where
  "val_berlinMessage v =
     (case v of
        ListV vs \<Rightarrow>
          (case drop 9 vs of
             [al] \<Rightarrow> Option.bind (vals_legacyMessage (take 9 vs)) (\<lambda>m. Option.bind (val_list val_tuple al) (\<lambda>al.
               Some (legacySubstateMessageRLP.extend m \<lparr>mr_AccessList = al\<rparr>)))
           | _ \<Rightarrow> None)
      | _ \<Rightarrow> None)"

definition val_message :: "rlp_val \<Rightarrow> SubstateMessageRLP option" where
  "val_message v =
     (case v of
        ListV vs \<Rightarrow>
          (case drop 9 vs of
             [al, BigV feeCap, BigV tipCap] \<Rightarrow>
               Option.bind (vals_legacyMessage (take 9 vs)) (\<lambda>m. Option.bind (val_list val_tuple al) (\<lambda>al.
                 Some (legacySubstateMessageRLP.extend m
                   \<lparr>mr_AccessList = al, mr_GasFeeCap = feeCap, mr_GasTipCap = tipCap\<rparr>)))
           | _ \<Rightarrow> None)
      | _ \<Rightarrow> None)"

text \<open>A log read back has its derived fields at their zero values.\<close>

definition val_log :: "rlp_val \<Rightarrow> Log option" where
  "val_log v =
     (case v of
        ListV [a, topics, BytesV data] \<Rightarrow>
          Option.bind (val_address a) (\<lambda>a. Option.bind (val_list val_hash topics) (\<lambda>topics.
            Some \<lparr>lg_Address = a, lg_Topics = topics, lg_Data = data, lg_BlockNumber = 0, lg_TxHash = 0,
                  lg_TxIndex = 0, lg_BlockHash = 0, lg_Index = 0, lg_Removed = False\<rparr>))
      | _ \<Rightarrow> None)"

definition val_result :: "rlp_val \<Rightarrow> SubstateResultRLP option" where
  "val_result v =
     (case v of
        ListV [UintV status, BytesV bloom, logs, contract, UintV gasUsed] \<Rightarrow>
          Option.bind (val_list val_log logs) (\<lambda>logs. Option.bind (val_address contract) (\<lambda>contract.
            Some \<lparr>rr_Status = status, rr_Bloom = bloom, rr_Logs = logs, rr_ContractAddress = contract,
                  rr_GasUsed = gasUsed\<rparr>))
      | _ \<Rightarrow> None)"

definition val_layout :: "(rlp_val \<Rightarrow> 'env option) \<Rightarrow> (rlp_val \<Rightarrow> 'msg option) \<Rightarrow> rlp_val \<Rightarrow> ('env, 'msg) layout option" where
  "val_layout env msg v =
     (case v of
        ListV [i, u, e, m, r] \<Rightarrow>
          Option.bind (val_alloc i) (\<lambda>i. Option.bind (val_alloc u) (\<lambda>u. Option.bind (env e) (\<lambda>e.
          Option.bind (msg m) (\<lambda>m. Option.bind (val_result r) (\<lambda>r.
            Some \<lparr>sr_InputAlloc = i, sr_OutputAlloc = u, sr_Env = e, sr_Message = m, sr_Result = r\<rparr>)))))
      | _ \<Rightarrow> None)"

section \<open>Operations of the database\<close>

text \<open>
  Decoding into a Go struct. A decoded value always has the form of its type, so that reading the struct off it never
  fails; that case, which has no counterpart in the code, is an error value.
\<close>

definition decode_as :: "rlp_type \<Rightarrow> (rlp_val \<Rightarrow> 'a option) \<Rightarrow> bytes \<Rightarrow> rlp_error + 'a" where
  "decode_as t conv v =
     go_bind (DecodeBytes t v) (\<lambda>v. case conv v of None \<Rightarrow> Inl reflectPanic | Some x \<Rightarrow> Inr x)"

text \<open>The latest layout, then the one between Berlin and London, then the one before Berlin.\<close>

definition decode_substate :: "bytes \<Rightarrow> rlp_error + SubstateRLP" where
  "decode_substate v =
     (case decode_as substateT (val_layout val_env val_message) v of
        Inr r \<Rightarrow> Inr r
      | Inl _ \<Rightarrow>
          (case decode_as berlinSubstateT (val_layout val_legacyEnv val_berlinMessage) v of
             Inr b \<Rightarrow> Inr (setBerlinRLP b)
           | Inl _ \<Rightarrow>
               (case decode_as legacySubstateT (val_layout val_legacyEnv val_legacyMessage) v of
                  Inl err \<Rightarrow> Inl err
                | Inr l \<Rightarrow> Inr (setLegacyRLP l))))"

definition HasSubstate :: "SubstateDB \<Rightarrow> uint64 \<Rightarrow> uint64 \<Rightarrow> bool" where
  "HasSubstate db block tx =
     (case db_Has db (Stage1SubstateKey block tx) of Inl _ \<Rightarrow> False | Inr has \<Rightarrow> has)"

definition GetSubstate :: "(bytes \<Rightarrow> Hash) \<Rightarrow> SubstateDB \<Rightarrow> uint64 \<Rightarrow> uint64 \<Rightarrow> Substate go" where
  "GetSubstate keccak db block tx =
     go_bind (or_panic ''record-replay: error getting substate'' (db_Get db (Stage1SubstateKey block tx))) (\<lambda>v.
     go_bind (or_panic ''error decoding substateRLP'' (decode_substate v)) (\<lambda>substateRLP.
       Substate_SetRLP keccak db substateRLP))"

definition GetBlockSubstates :: "(bytes \<Rightarrow> Hash) \<Rightarrow> SubstateDB \<Rightarrow> uint64 \<Rightarrow> (uint64, Substate) gomap go" where
  "GetBlockSubstates keccak db block =
     go_fold (\<lambda>(key, v) txSubstate.
         case DecodeStage1SubstateKey key of
           Inl err \<Rightarrow> Inl (ExplicitPanic ''record-replay: invalid substate key found'')
         | Inr (b, tx) \<Rightarrow>
             if block \<noteq> b then Inl (ExplicitPanic ''record-replay: GetBlockSubstates iterated another block'')
             else go_bind (or_panic ''error decoding substateRLP'' (decode_substate v)) (\<lambda>substateRLP.
                  go_bind (Substate_SetRLP keccak db substateRLP) (\<lambda>substate.
                    Inr (mput tx substate txSubstate))))
       (db_NewIterator db (Stage1SubstateBlockPrefix block) []) []"

definition PutCodes :: "(bytes \<Rightarrow> Hash) \<Rightarrow> SubstateAlloc \<Rightarrow> SubstateDB \<Rightarrow> SubstateDB go" where
  "PutCodes keccak alloc =
     go_fold (\<lambda>(addr, account) db.
       case account of None \<Rightarrow> Inl NilDereference | Some account \<Rightarrow> PutCode keccak (acc_Code account) db) alloc"

definition PutSubstate ::
    "(bytes \<Rightarrow> Hash) \<Rightarrow> uint64 \<Rightarrow> uint64 \<Rightarrow> Substate \<Rightarrow> SubstateDB \<Rightarrow> (SubstateDB \<times> Substate) go" where
  "PutSubstate keccak block tx substate db =
     go_bind (PutCodes keccak (InputAlloc substate) db) (\<lambda>db.
     go_bind (PutCodes keccak (OutputAlloc substate) db) (\<lambda>db.
     go_bind (if msg_To (ss_Message substate) = None then PutCode keccak (msg_Data (ss_Message substate)) db else Inr db) (\<lambda>db.
     go_bind (NewSubstateRLP keccak substate) (\<lambda>(substateRLP, substate).
     go_bind (or_panic ''record-replay: error putting substate''
                (EncodeToBytes (PtrT substateT) (layout_val env_val message_val substateRLP))) (\<lambda>v.
     go_bind (or_panic ''record-replay: error putting substate'' (db_Put (Stage1SubstateKey block tx) v db)) (\<lambda>db.
       Inr (db, substate)))))))"

definition DeleteSubstate :: "uint64 \<Rightarrow> uint64 \<Rightarrow> SubstateDB \<Rightarrow> SubstateDB go" where
  "DeleteSubstate block tx db =
     or_panic ''record-replay: error deleting substate'' (db_Delete (Stage1SubstateKey block tx) db)"

section \<open>Values and fields\<close>

lemma val_hash_val [simp]: "val_hash (hash_val h) = Some h"
  by (simp add: val_hash_def hash_val_def)

lemma val_address_val [simp]: "val_address (address_val a) = Some a"
  by (simp add: val_address_def address_val_def)

lemma not_nil [simp]: "hash_val h \<noteq> NilV" "address_val a \<noteq> NilV"
  by (simp_all add: hash_val_def address_val_def)

lemma val_nil_or_val [simp]:
  "(\<And>a. f a \<noteq> NilV) \<Longrightarrow> (\<And>a. g (f a) = Some a) \<Longrightarrow> val_nil_or g (nil_or f x) = Some x"
  by (cases x) (simp_all add: val_nil_or_def nil_or_def)

lemma val_list_val: "(\<And>x. x \<in> set xs \<Longrightarrow> g (f x) = Some (h x)) \<Longrightarrow> val_list g (ListV (map f xs)) = Some (map h xs)"
proof -
  assume "\<And>x. x \<in> set xs \<Longrightarrow> g (f x) = Some (h x)"
  then have "those (map g (map f xs)) = Some (map h xs)" by (induction xs) auto
  then show ?thesis by (simp add: val_list_def)
qed

lemma val_list_val_id [simp]: "(\<And>x. g (f x) = Some x) \<Longrightarrow> val_list g (ListV (map f xs)) = Some xs"
  using val_list_val [of xs g f "\<lambda>x. x"] by simp

lemma val_pair_val [simp]: "val_pair (pair_val p) = Some p"
  by (simp add: val_pair_def pair_val_def)

lemma val_account_val [simp]: "val_account (account_val a) = Some a"
  by (simp add: val_account_def account_val_def)

lemma val_alloc_val [simp]: "val_alloc (alloc_val a) = Some a"
  by (simp add: val_alloc_def alloc_val_def)

lemma vals_legacyEnv_vals:
  "vals_legacyEnv (env_vals e) = Some \<lparr>er_Coinbase = er_Coinbase e, er_Difficulty = er_Difficulty e, er_GasLimit = er_GasLimit e,
     er_Number = er_Number e, er_Timestamp = er_Timestamp e, er_BlockHashes = er_BlockHashes e\<rparr>"
  by (simp add: vals_legacyEnv_def env_vals_def)

lemma val_legacyEnv_val [simp]: "val_legacyEnv (legacyEnv_val e) = Some e"
  by (simp add: val_legacyEnv_def legacyEnv_val_def vals_legacyEnv_vals)

lemma val_env_val [simp]: "val_env (env_val e) = Some e"
  by (simp add: val_env_def env_val_def vals_legacyEnv_vals)

lemma vals_legacyMessage_vals:
  "vals_legacyMessage (message_vals m) = Some \<lparr>mr_Nonce = mr_Nonce m, mr_CheckNonce = mr_CheckNonce m,
     mr_GasPrice = mr_GasPrice m, mr_Gas = mr_Gas m, mr_From = mr_From m, mr_To = mr_To m, mr_Value = mr_Value m,
     mr_Data = mr_Data m, mr_InitCodeHash = mr_InitCodeHash m\<rparr>"
  by (simp add: vals_legacyMessage_def message_vals_def)

lemma val_accessList_val [simp]: "val_list val_tuple (accessList_val al) = Some al"
  unfolding accessList_val_def by (rule val_list_val_id) (auto simp: val_tuple_def)

lemma length_message_vals [simp]: "length (message_vals m) = 9"
  by (simp add: message_vals_def)

lemma val_message_vals [simp]:
  "val_legacyMessage (legacyMessage_val l) = Some l" "val_berlinMessage (berlinMessage_val b) = Some b"
  "val_message (message_val m) = Some m"
  by (simp_all add: val_legacyMessage_def legacyMessage_val_def val_berlinMessage_def berlinMessage_val_def
      val_message_def message_val_def vals_legacyMessage_vals legacySubstateMessageRLP.defs)

definition log_stored :: "Log \<Rightarrow> Log" where
  "log_stored l = \<lparr>lg_Address = lg_Address l, lg_Topics = lg_Topics l, lg_Data = lg_Data l, lg_BlockNumber = 0,
     lg_TxHash = 0, lg_TxIndex = 0, lg_BlockHash = 0, lg_Index = 0, lg_Removed = False\<rparr>"

lemma val_log_val [simp]: "val_log (log_val l) = Some (log_stored l)"
  by (simp add: val_log_def log_val_def log_stored_def)

lemma log_view_stored [simp]: "log_view (log_stored l) = log_view l"
  by (simp add: log_view_def log_stored_def)

lemma val_result_val [simp]: "val_result (result_val r) = Some (r\<lparr>rr_Logs := map log_stored (rr_Logs r)\<rparr>)"
  using val_list_val [of "rr_Logs r" val_log log_val log_stored] by (simp add: val_result_def result_val_def)

lemma val_layout_val:
  assumes "\<And>e. val_e (e_val e) = Some e" and "\<And>m. val_m (m_val m) = Some m"
  shows "val_layout val_e val_m (layout_val e_val m_val r)
    = Some (r\<lparr>sr_Result := (sr_Result r)\<lparr>rr_Logs := map log_stored (rr_Logs (sr_Result r))\<rparr>\<rparr>)"
  by (simp add: val_layout_def layout_val_def assms)

section \<open>Every recorded substate can be stored\<close>

lemma length_word_bytes [simp]: "length (Hash_Bytes h) = 32" "length (Address_Bytes a) = 20"
  by (simp_all add: Hash_Bytes_def Address_Bytes_def)

lemma storable_leaf [simp]:
  "storable hashT (hash_val h)" "storable addressT (address_val a)" "storable (UintT 64) (UintV i)"
  using word_unat_less [of i] by (simp_all add: hash_val_def address_val_def)

lemma storable_nil_or:
  "storable (NilPtrT StringK hashT) (nil_or hash_val h)" "storable (NilPtrT StringK addressT) (nil_or address_val a)"
  by (cases h; cases a; auto simp: nil_or_def hash_val_def address_val_def dest: arg_cong [where f = length])+

lemma storable_Slice: "storable (SliceT t) (ListV (map f xs)) \<longleftrightarrow> (\<forall>x \<in> set xs. storable t (f x))"
  by (auto simp: list_all_iff)

lemma storable_Struct: "storable (StructT ts) (ListV vs) \<longleftrightarrow> list_all2 storable ts vs"
  by (simp add: list_all2_map_fun list_all2_conv_all_nth)

lemma storable_Ptr: "v \<noteq> NilV \<Longrightarrow> storable (PtrT t) v \<longleftrightarrow> storable t v"
  by simp

lemma storable_pair: "storable pairT (pair_val p)"
  by (simp add: pair_val_def hash_val_def)

lemma storable_BigV [simp]: "storable BigIntT (BigV i) \<longleftrightarrow> 0 \<le> i"
  by simp

lemmas storable_parts = storable_Slice storable_Struct storable_Ptr storable_pair storable_nil_or

lemma storable_account: "storable accountT (account_val a) \<longleftrightarrow> 0 \<le> ar_Balance a"
  by (simp add: accountT_def account_val_def storable_parts del: storable.simps)

lemma list_val_not_nil [simp]:
  "account_val a \<noteq> NilV" "log_val l \<noteq> NilV" "env_val e \<noteq> NilV" "message_val m \<noteq> NilV" "result_val r \<noteq> NilV"
  "legacyEnv_val e' \<noteq> NilV" "legacyMessage_val m' \<noteq> NilV" "berlinMessage_val b \<noteq> NilV"
  by (simp_all add: account_val_def log_val_def env_val_def message_val_def result_val_def
      legacyEnv_val_def legacyMessage_val_def berlinMessage_val_def)

definition alloc_storable :: "SubstateAllocRLP \<Rightarrow> bool" where
  "alloc_storable a \<longleftrightarrow> list_all (\<lambda>acc. 0 \<le> ar_Balance acc) (al_Accounts a)"

lemma storable_alloc: "storable allocT (alloc_val a) \<longleftrightarrow> alloc_storable a"
  by (simp add: allocT_def alloc_val_def alloc_storable_def storable_parts storable_account list_all_iff del: storable.simps)

lemma storable_env_vals: "list_all2 storable envFields (env_vals e) \<longleftrightarrow> 0 \<le> er_Difficulty e"
  by (simp add: envFields_def env_vals_def storable_parts del: storable.simps)

lemma storable_env:
  "storable envT (env_val e) \<longleftrightarrow> 0 \<le> er_Difficulty e" "storable legacyEnvT (legacyEnv_val e') \<longleftrightarrow> 0 \<le> er_Difficulty e'"
proof -
  have "length envFields = length (env_vals e)" by (simp add: envFields_def env_vals_def)
  then show "storable envT (env_val e) \<longleftrightarrow> 0 \<le> er_Difficulty e"
    by (simp add: envT_def env_val_def storable_parts list_all2_append storable_env_vals del: storable.simps)
  show "storable legacyEnvT (legacyEnv_val e') \<longleftrightarrow> 0 \<le> er_Difficulty e'"
    by (simp add: legacyEnvT_def legacyEnv_val_def storable_parts storable_env_vals del: storable.simps)
qed

lemma storable_message_vals:
  "list_all2 storable messageFields (message_vals m) \<longleftrightarrow> 0 \<le> mr_GasPrice m \<and> 0 \<le> mr_Value m"
proof -
  have "storable BytesT (BytesV b)" "storable BoolT (BoolV c)" for b c by simp_all
  then show ?thesis by (simp add: messageFields_def message_vals_def storable_parts del: storable.simps)
qed

lemma storable_accessList: "storable accessListT (accessList_val al)"
  by (auto simp: accessListT_def accessList_val_def storable_parts simp del: storable.simps split: prod.splits)

lemma storable_message:
  "storable messageT (message_val m) \<longleftrightarrow>
     0 \<le> mr_GasPrice m \<and> 0 \<le> mr_Value m \<and> 0 \<le> mr_GasFeeCap m \<and> 0 \<le> mr_GasTipCap m"
  "storable berlinMessageT (berlinMessage_val b) \<longleftrightarrow> 0 \<le> mr_GasPrice b \<and> 0 \<le> mr_Value b"
  "storable legacyMessageT (legacyMessage_val l) \<longleftrightarrow> 0 \<le> mr_GasPrice l \<and> 0 \<le> mr_Value l"
proof -
  have len: "length messageFields = length (message_vals x)" for x :: "('a) legacySubstateMessageRLP_scheme"
    by (simp add: messageFields_def)
  show "storable messageT (message_val m) \<longleftrightarrow>
     0 \<le> mr_GasPrice m \<and> 0 \<le> mr_Value m \<and> 0 \<le> mr_GasFeeCap m \<and> 0 \<le> mr_GasTipCap m"
    by (simp add: messageT_def message_val_def storable_parts list_all2_append [OF len] storable_message_vals
        storable_accessList del: storable.simps length_message_vals)
  show "storable berlinMessageT (berlinMessage_val b) \<longleftrightarrow> 0 \<le> mr_GasPrice b \<and> 0 \<le> mr_Value b"
    by (simp add: berlinMessageT_def berlinMessage_val_def storable_parts list_all2_append [OF len] storable_message_vals
        storable_accessList del: storable.simps length_message_vals)
  show "storable legacyMessageT (legacyMessage_val l) \<longleftrightarrow> 0 \<le> mr_GasPrice l \<and> 0 \<le> mr_Value l"
    by (simp add: legacyMessageT_def legacyMessage_val_def storable_parts storable_message_vals del: storable.simps)
qed

lemma storable_log: "storable logT (log_val l)"
proof -
  have "storable BytesT (BytesV b)" for b by simp
  then show ?thesis by (simp add: logT_def log_val_def storable_parts del: storable.simps)
qed

lemma storable_result: "storable resultT (result_val r) \<longleftrightarrow> length (rr_Bloom r) = 256"
proof -
  have "storable (ByteArrayT 256) (BytesV b) \<longleftrightarrow> length b = 256" for b by simp
  then show ?thesis by (simp add: resultT_def result_val_def storable_parts storable_log del: storable.simps)
qed

lemma storable_layout:
  assumes "env (sr_Env r) \<noteq> NilV" and "msg (sr_Message r) \<noteq> NilV"
  shows "storable (layoutT t u) (layout_val env msg r) \<longleftrightarrow>
    alloc_storable (sr_InputAlloc r) \<and> alloc_storable (sr_OutputAlloc r) \<and> storable t (env (sr_Env r)) \<and>
    storable u (msg (sr_Message r)) \<and> length (rr_Bloom (sr_Result r)) = 256"
  using assms
  by (simp add: layoutT_def layout_val_def storable_parts storable_alloc storable_result del: storable.simps)

section \<open>What is read back from the serialised parts\<close>

lemma map_of_keys: "map_of (map (\<lambda>k. (k, f k)) ks) k = (if k \<in> set ks then Some (f k) else None)"
  by (induction ks) auto

lemma gomap_ok_keys: "distinct ks \<Longrightarrow> gomap_ok (map (\<lambda>k. (k, f k)) ks)"
  by (simp add: gomap_ok_def comp_def)

text \<open>A map written as its key-value pairs in some order and read into a new map.\<close>

lemma map_of_rewritten:
  assumes "gomap_ok m" and "mset ks = mset (mkeys m)"
  shows "map_of (fold (\<lambda>(k, v). mput k v) (map (\<lambda>k. (k, mget z m k)) ks) []) = map_of m"
proof -
  have "distinct ks" using assms by (metis gomap_ok_def mset_eq_imp_distinct_iff)
  moreover have ks: "set ks = set (mkeys m)" using assms(2) by (rule mset_eq_setD)
  have "(if k \<in> set ks then Some (mget z m k) else None) = map_of m k" for k
    using map_of_mget [of m k z] unfolding ks mhas_iff [symmetric] by (auto simp: mhas_def split: option.splits)
  ultimately show ?thesis
    by (simp add: map_of_fold_mput_add gomap_ok_keys map_of_keys fun_eq_iff)
qed

definition code_stored :: "(bytes \<Rightarrow> Hash) \<Rightarrow> SubstateDB \<Rightarrow> bytes \<Rightarrow> bool" where
  "code_stored keccak db c \<longleftrightarrow> GetCode keccak db (keccak c) = Inr c"

lemma account_read_back:
  assumes "gomap_ok (acc_Storage a)" and "code_stored keccak db (acc_Code a)"
  shows "\<exists>a'. SubstateAccount_SetRLP keccak db (NewSubstateAccountRLP keccak a) = Inr a' \<and>
    account_view a' = account_view a \<and> gomap_ok (acc_Storage a')"
proof -
  have "map_of (fold (\<lambda>(k, v). mput k v) (ar_Storage (NewSubstateAccountRLP keccak a)) []) = map_of (acc_Storage a)"
    unfolding NewSubstateAccountRLP_def Let_def SubstateAccountRLP.simps
    by (rule map_of_rewritten [OF assms(1)]) simp
  moreover have "ar_CodeHash (NewSubstateAccountRLP keccak a) = keccak (acc_Code a)"
    "ar_Nonce (NewSubstateAccountRLP keccak a) = acc_Nonce a" "ar_Balance (NewSubstateAccountRLP keccak a) = acc_Balance a"
    by (simp_all add: NewSubstateAccountRLP_def SubstateAccount_CodeHash_def)
  ultimately show ?thesis
    using assms(2) gomap_ok_fold_mput [OF gomap_ok_Nil]
    by (simp add: SubstateAccount_SetRLP_def account_view_def code_stored_def)
qed

definition alloc_codes :: "SubstateAlloc \<Rightarrow> bytes list" where
  "alloc_codes alloc = map (\<lambda>(addr, a). acc_Code (the a)) alloc"

definition no_nil :: "SubstateAlloc \<Rightarrow> bool" where
  "no_nil alloc \<longleftrightarrow> list_all (\<lambda>(addr, a). a \<noteq> None) alloc"

lemma collect_accounts:
  assumes "\<forall>x \<in> set xs. g x \<noteq> None"
  shows "go_fold (\<lambda>x acc. case g x of None \<Rightarrow> Inl NilDereference | Some a \<Rightarrow> Inr (acc @ [f a])) xs acc
    = Inr (acc @ map (\<lambda>x. f (the (g x))) xs)"
  using assms by (induction xs arbitrary: acc) auto

lemma NewSubstateAllocRLP_no_nil:
  assumes "no_nil alloc" and "gomap_ok alloc"
  shows "NewSubstateAllocRLP keccak alloc =
    Inr \<lparr>al_Addresses = sort_by key_less (mkeys alloc),
         al_Accounts = map (\<lambda>addr. NewSubstateAccountRLP keccak (the (mget None alloc addr))) (sort_by key_less (mkeys alloc))\<rparr>"
proof -
  have "mget None alloc addr \<noteq> None" if "addr \<in> set (mkeys alloc)" for addr
    using mget_in_set [of alloc addr None] that assms(1) unfolding mhas_iff [symmetric]
    by (fastforce simp: no_nil_def list_all_iff)
  then show ?thesis
    unfolding NewSubstateAllocRLP_def Let_def
    by (subst collect_accounts) simp_all
qed

lemma SubstateAlloc_SetRLP_map:
  assumes "\<And>addr. addr \<in> set addrs \<Longrightarrow> SubstateAccount_SetRLP keccak db (F addr) = Inr (G addr)"
  shows "SubstateAlloc_SetRLP keccak db \<lparr>al_Addresses = addrs, al_Accounts = map F addrs\<rparr>
    = Inr (fold (\<lambda>(k, v). mput k v) (map (\<lambda>addr. (addr, Some (G addr))) addrs) [])"
proof -
  have "SubstateAlloc_SetRLP keccak db \<lparr>al_Addresses = addrs, al_Accounts = map F addrs\<rparr>
      = Inr (fold (\<lambda>(i, addr). mput addr (Some (G addr))) (List.enumerate 0 addrs) [])"
    unfolding SubstateAlloc_SetRLP_def SubstateAllocRLP.simps
  proof (rule go_fold_total)
    fix x s assume "x \<in> set (List.enumerate 0 addrs)"
    then obtain i where "i < length addrs" "x = (i, addrs ! i)"
      by (auto simp: in_set_conv_nth nth_enumerate_eq)
    then show "(case x of (i, addr) \<Rightarrow> \<lambda>alloc. go_bind (go_index (map F addrs) i) (\<lambda>saRLP.
        go_bind (SubstateAccount_SetRLP keccak db saRLP) (\<lambda>sa. Inr (mput addr (Some sa) alloc)))) s
      = Inr ((case x of (i, addr) \<Rightarrow> mput addr (Some (G addr))) s)"
      using assms by (simp add: go_index_def)
  qed
  also have "fold (\<lambda>(i, addr). mput addr (Some (G addr))) (List.enumerate 0 addrs)
      = fold (\<lambda>addr. mput addr (Some (G addr))) (map snd (List.enumerate 0 addrs))"
    unfolding fold_map by (simp add: comp_def case_prod_unfold)
  finally show ?thesis by (simp add: fold_map comp_def)
qed

lemma alloc_read_back:
  assumes "alloc_ok alloc" and "no_nil alloc" and "\<forall>c \<in> set (alloc_codes alloc). code_stored keccak db c"
  shows "\<exists>r alloc'. NewSubstateAllocRLP keccak alloc = Inr r \<and> SubstateAlloc_SetRLP keccak db r = Inr alloc' \<and>
    alloc_view alloc' = alloc_view alloc"
proof -
  let ?addrs = "sort_by key_less (mkeys alloc)"
  let ?acc = "\<lambda>addr. the (mget None alloc addr)"
  let ?F = "\<lambda>addr. NewSubstateAccountRLP keccak (?acc addr)"
  have ok: "gomap_ok alloc" using assms(1) by (simp add: alloc_ok_def)
  have acc: "map_of alloc addr = Some (Some (?acc addr))" "gomap_ok (acc_Storage (?acc addr))"
      "code_stored keccak db (acc_Code (?acc addr))" if "addr \<in> set ?addrs" for addr
  proof -
    have has: "mhas alloc addr" using that by (simp add: mhas_iff)
    have mem: "(addr, mget None alloc addr) \<in> set alloc" using has by (rule mget_in_set)
    then obtain a where a: "mget None alloc addr = Some a"
      using assms(2) by (fastforce simp: no_nil_def list_all_iff)
    show "map_of alloc addr = Some (Some (?acc addr))" using map_of_mget [OF has, of None] a by simp
    show "gomap_ok (acc_Storage (?acc addr))" using assms(1) mem a by (fastforce simp: alloc_ok_def list_all_iff)
    have "acc_Code a \<in> set (alloc_codes alloc)" using mem a by (force simp: alloc_codes_def)
    then show "code_stored keccak db (acc_Code (?acc addr))" using assms(3) a by simp
  qed
  define G where "G addr = (SOME a'. SubstateAccount_SetRLP keccak db (?F addr) = Inr a' \<and> account_view a' = account_view (?acc addr))" for addr
  have G: "SubstateAccount_SetRLP keccak db (?F addr) = Inr (G addr)" "account_view (G addr) = account_view (?acc addr)"
    if "addr \<in> set ?addrs" for addr
    using someI_ex [of "\<lambda>a'. SubstateAccount_SetRLP keccak db (?F addr) = Inr a' \<and> account_view a' = account_view (?acc addr)"]
      account_read_back [OF acc(2,3) [OF that]] unfolding G_def by blast+
  let ?r = "\<lparr>al_Addresses = ?addrs, al_Accounts = map ?F ?addrs\<rparr>"
  have "NewSubstateAllocRLP keccak alloc = Inr ?r" using assms(2) ok by (rule NewSubstateAllocRLP_no_nil)
  moreover have "SubstateAlloc_SetRLP keccak db ?r
      = Inr (fold (\<lambda>(k, v). mput k v) (map (\<lambda>addr. (addr, Some (G addr))) ?addrs) [])"
    using G(1) by (rule SubstateAlloc_SetRLP_map)
  moreover have "alloc_view (fold (\<lambda>(k, v). mput k v) (map (\<lambda>addr. (addr, Some (G addr))) ?addrs) []) = alloc_view alloc"
  proof
    fix addr
    have "distinct ?addrs" using ok by (simp add: gomap_ok_def)
    then have l: "map_of (fold (\<lambda>(k, v). mput k v) (map (\<lambda>addr. (addr, Some (G addr))) ?addrs) []) addr
        = (if addr \<in> set ?addrs then Some (Some (G addr)) else None)"
      by (simp add: map_of_fold_mput_add gomap_ok_keys map_of_keys)
    show "alloc_view (fold (\<lambda>(k, v). mput k v) (map (\<lambda>addr. (addr, Some (G addr))) ?addrs) []) addr = alloc_view alloc addr"
    proof (cases "addr \<in> set ?addrs")
      case True
      then show ?thesis using l acc(1) [OF True] G(2) [OF True] by (simp add: alloc_view_def)
    next
      case False
      then have "map_of alloc addr = None" by (simp add: map_of_eq_None_iff)
      then show ?thesis using l False by (simp add: alloc_view_def)
    qed
  qed
  ultimately show ?thesis by blast
qed

lemma BigToHash_nat: "n < 2 ^ 256 \<Longrightarrow> unat (BigToHash (int n)) = n"
proof -
  assume n: "n < 2 ^ 256"
  then have "length (min_be n) \<le> 32" by (intro length_min_be_le) simp
  then have "be_val (SetBytes 32 (min_be n)) = n" by (simp add: LeftPadBytes_SetBytes)
  then have "BigToHash (int n) = of_nat n" by (simp add: BigToHash_def BytesToHash_def)
  then show ?thesis using n by (simp add: unat_of_nat)
qed

lemma env_read_back:
  assumes "gomap_ok (env_BlockHashes e)" and "case env_BaseFee e of None \<Rightarrow> True | Some f \<Rightarrow> 0 \<le> f \<and> f < 2 ^ 256"
  shows "env_view (SubstateEnv_SetRLP (NewSubstateEnvRLP e)) = env_view e"
proof -
  have num: "(of_nat (unat (BigToHash (int (unat n)))) :: uint64) = n" for n :: uint64
  proof -
    have "unat n < 2 ^ 64" using word_unat_less [of n] by simp
    then have "unat n < 2 ^ 256" by (rule less_le_trans) simp
    then have "unat (BigToHash (int (unat n))) = unat n" by (rule BigToHash_nat)
    then show ?thesis by simp
  qed
  have "map_of (env_BlockHashes (SubstateEnv_SetRLP (NewSubstateEnvRLP e))) = map_of (env_BlockHashes e)"
    using map_of_rewritten [OF assms(1) refl, of 0]
    by (simp add: SubstateEnv_SetRLP_def NewSubstateEnvRLP_def fold_map comp_def num del: of_nat_unat)
  moreover have "map_option (\<lambda>h. int (unat h)) (map_option BigToHash (env_BaseFee e)) = env_BaseFee e"
  proof (cases "env_BaseFee e")
    case (Some f)
    then have "0 \<le> f" "nat f < 2 ^ 256" using assms(2) by (simp_all add: nat_less_iff)
    then have "uint (BigToHash f) = f" using BigToHash_nat [of "nat f"] by (metis nat_0_le uint_nat)
    then show ?thesis using Some by simp
  qed simp
  ultimately show ?thesis by (simp add: env_view_def SubstateEnv_SetRLP_def NewSubstateEnvRLP_def)
qed

lemma message_read_back:
  assumes "msg_To m = None \<Longrightarrow> code_stored keccak db (msg_Data m)"
    and "case msg_dataHash m of None \<Rightarrow> True | Some h \<Rightarrow> h = keccak (msg_Data m)"
  shows "\<exists>m'. SubstateMessage_SetRLP keccak db (fst (NewSubstateMessageRLP keccak m)) = Inr m' \<and> msg_view m' = msg_view m"
proof (cases "msg_To m")
  case None
  have "fst (DataHash keccak m) = keccak (msg_Data m)"
    using assms(2) by (auto simp: DataHash_def split: option.splits)
  then show ?thesis
    using None assms(1)
    by (cases "DataHash keccak m")
       (auto simp: SubstateMessage_SetRLP_def NewSubstateMessageRLP_def Let_def code_stored_def msg_view_def)
next
  case (Some a)
  then show ?thesis
    by (auto simp: SubstateMessage_SetRLP_def NewSubstateMessageRLP_def Let_def msg_view_def)
qed

lemma result_read_back:
  "res_view (SubstateResult_SetRLP ((NewSubstateResultRLP r)\<lparr>rr_Logs := map log_stored (rr_Logs (NewSubstateResultRLP r))\<rparr>)) = res_view r"
  by (simp add: res_view_def SubstateResult_SetRLP_def NewSubstateResultRLP_def comp_def)

section \<open>The store under the database\<close>

text \<open>
  The contract of the backend that the substate database relies on: a read returns what was
  last written under the key.
\<close>

locale kv_store =
  fixes get :: "'m \<Rightarrow> 'k \<Rightarrow> 'v option" and put :: "'k \<Rightarrow> 'v \<Rightarrow> 'm \<Rightarrow> 'm" and opened :: "'m \<Rightarrow> bool"
  assumes get_put: "opened m \<Longrightarrow> get (put k v m) k' = (if k' = k then Some v else get m k')"
    and opened_put: "opened m \<Longrightarrow> opened (put k v m)"
begin

lemma opened_fold: "opened m \<Longrightarrow> opened (fold (\<lambda>x. put (key x) (val x)) xs m)"
  by (induction xs arbitrary: m) (auto simp: opened_put)

lemma get_fold_other:
  "opened m \<Longrightarrow> k \<notin> key ` set xs \<Longrightarrow> get (fold (\<lambda>x. put (key x) (val x)) xs m) k = get m k"
  by (induction xs arbitrary: m) (auto simp: get_put opened_put)

text \<open>Entries written again under a key keep their value when equal keys mean equal values.\<close>

lemma get_fold_kept:
  "opened m \<Longrightarrow> get m k = Some v \<Longrightarrow> (\<And>x. x \<in> set xs \<Longrightarrow> key x = k \<Longrightarrow> val x = v) \<Longrightarrow>
     get (fold (\<lambda>x. put (key x) (val x)) xs m) k = Some v"
proof (induction xs arbitrary: m)
  case (Cons x xs)
  have "get (put (key x) (val x) m) k = Some v" using Cons.prems by (simp add: get_put)
  with Cons.IH [OF opened_put [OF Cons.prems(1)]] Cons.prems(3) show ?case by simp
qed simp

lemma get_fold_written:
  "opened m \<Longrightarrow> y \<in> set xs \<Longrightarrow> (\<And>x. x \<in> set xs \<Longrightarrow> key x = key y \<Longrightarrow> val x = val y) \<Longrightarrow>
     get (fold (\<lambda>x. put (key x) (val x)) xs m) (key y) = Some (val y)"
proof (induction xs arbitrary: m)
  case (Cons x xs)
  show ?case
  proof (cases "key x = key y")
    case True
    then have "get (put (key x) (val x) m) (key y) = Some (val y)"
      using Cons.prems(1) Cons.prems(3) [of x] by (simp add: get_put)
    then have "get (fold (\<lambda>x. put (key x) (val x)) xs (put (key x) (val x) m)) (key y) = Some (val y)"
      by (rule get_fold_kept [OF opened_put [OF Cons.prems(1)]]) (use Cons.prems(3) in simp)
    then show ?thesis by simp
  next
    case False
    then have "y \<in> set xs" using Cons.prems(2) by auto
    then have "get (fold (\<lambda>x. put (key x) (val x)) xs (put (key x) (val x) m)) (key y) = Some (val y)"
      by (rule Cons.IH [OF opened_put [OF Cons.prems(1)]]) (use Cons.prems(3) in simp)
    then show ?thesis by simp
  qed
qed simp

end

definition db_lookup :: "Database \<Rightarrow> bytes \<Rightarrow> bytes option" where
  "db_lookup db key = (case db_Get db key of Inl _ \<Rightarrow> None | Inr v \<Rightarrow> Some v)"

definition db_write :: "bytes \<Rightarrow> bytes \<Rightarrow> Database \<Rightarrow> Database" where
  "db_write key v db = (case db_Put key v db of Inl _ \<Rightarrow> db | Inr db \<Rightarrow> db)"

interpretation memdb: kv_store db_lookup db_write "\<lambda>db. db \<noteq> None"
  by unfold_locales (auto simp: db_lookup_def db_write_def db_Get_def db_Put_def update_conv' split: option.splits)

lemma db_Put_open: "db \<noteq> None \<Longrightarrow> db_Put key v db = Inr (db_write key v db)"
  by (auto simp: db_write_def db_Put_def)

lemma db_Get_lookup: "db \<noteq> None \<Longrightarrow> db_Get db key = (case db_lookup db key of None \<Rightarrow> Inl errMemorydbNotFound | Some v \<Rightarrow> Inr v)"
  by (auto simp: db_lookup_def db_Get_def split: option.splits)

text \<open>Keys of substates and of code are different, and each determines what it is the key of.\<close>

lemma length_keys [simp]: "length (Stage1SubstateKey b t) = 18" "length (Stage1CodeKey h) = 34"
  by (simp_all add: Stage1SubstateKey_def Stage1CodeKey_def stage1SubstatePrefix_def stage1CodePrefix_def)

lemma keys_differ [simp]: "Stage1SubstateKey b t \<noteq> Stage1CodeKey h" "Stage1CodeKey h \<noteq> Stage1SubstateKey b t"
  by (auto dest: arg_cong [where f = length])

lemma Stage1CodeKey_inj [simp]: "Stage1CodeKey h = Stage1CodeKey h' \<longleftrightarrow> h = h'"
  by (auto simp: Stage1CodeKey_def) (metis BytesToHash_Bytes)

lemma DecodeStage1SubstateKey_key [simp]: "DecodeStage1SubstateKey (Stage1SubstateKey b t) = Inr (b, t)"
proof -
  have "of_nat (be_val (be_bytes 8 (unat w))) = w" for w :: uint64 by (rule of_nat_unat_be) simp
  then show ?thesis
    by (simp add: DecodeStage1SubstateKey_def Stage1SubstateKey_def stage1SubstatePrefix_def Let_def)
qed

lemma Stage1SubstateKey_inj [simp]: "Stage1SubstateKey b t = Stage1SubstateKey b' t' \<longleftrightarrow> b = b' \<and> t = t'"
  by (metis DecodeStage1SubstateKey_key Inr_inject prod.inject)

section \<open>Writing a substate\<close>

definition substate_codes :: "Substate \<Rightarrow> bytes list" where
  "substate_codes s = alloc_codes (InputAlloc s) @ alloc_codes (OutputAlloc s)
     @ (if msg_To (ss_Message s) = None then [msg_Data (ss_Message s)] else [])"

definition code_writes :: "(bytes \<Rightarrow> Hash) \<Rightarrow> bytes list \<Rightarrow> Database \<Rightarrow> Database" where
  "code_writes keccak cs db = fold (\<lambda>c. db_write (Stage1CodeKey (keccak c)) c) (filter (\<lambda>c. c \<noteq> []) cs) db"

text \<open>
  A substate that can be stored: no nil account, no negative number, a base fee that fits
  256 bits, a bloom of 256 bytes, and a memoised hash, if there is one, of the message's data.
\<close>

definition balances_ok :: "SubstateAlloc \<Rightarrow> bool" where
  "balances_ok alloc \<longleftrightarrow> list_all (\<lambda>(addr, a). case a of None \<Rightarrow> False | Some a \<Rightarrow> 0 \<le> acc_Balance a) alloc"

definition recordable :: "(bytes \<Rightarrow> Hash) \<Rightarrow> Substate \<Rightarrow> bool" where
  "recordable keccak s \<longleftrightarrow> balances_ok (InputAlloc s) \<and> balances_ok (OutputAlloc s) \<and> 0 \<le> env_Difficulty (Env s)
     \<and> (case env_BaseFee (Env s) of None \<Rightarrow> True | Some f \<Rightarrow> 0 \<le> f \<and> f < 2 ^ 256)
     \<and> 0 \<le> msg_GasPrice (ss_Message s) \<and> 0 \<le> msg_Value (ss_Message s)
     \<and> 0 \<le> msg_GasFeeCap (ss_Message s) \<and> 0 \<le> msg_GasTipCap (ss_Message s)
     \<and> (case msg_dataHash (ss_Message s) of None \<Rightarrow> True | Some h \<Rightarrow> h = keccak (msg_Data (ss_Message s)))
     \<and> length (res_Bloom (Result s)) = 256"

definition encoded_size :: "(bytes \<Rightarrow> Hash) \<Rightarrow> Substate \<Rightarrow> nat" where
  "encoded_size keccak s =
     (case NewSubstateRLP keccak s of
        Inl _ \<Rightarrow> 0
      | Inr (r, _) \<Rightarrow> length (item_enc (item_of substateT (layout_val env_val message_val r))))"

lemma code_writes_open: "db \<noteq> None \<Longrightarrow> code_writes keccak cs db \<noteq> None"
  unfolding code_writes_def by (rule memdb.opened_fold)

lemma code_writes_append: "code_writes keccak (cs @ cs') db = code_writes keccak cs' (code_writes keccak cs db)"
  by (simp add: code_writes_def)

lemma PutCode_open: "db \<noteq> None \<Longrightarrow> PutCode keccak c db = Inr (code_writes keccak [c] db)"
  by (simp add: PutCode_def code_writes_def or_panic_def db_Put_open)

lemma PutCodes_open: "no_nil alloc \<Longrightarrow> db \<noteq> None \<Longrightarrow> PutCodes keccak alloc db = Inr (code_writes keccak (alloc_codes alloc) db)"
proof (induction alloc arbitrary: db)
  case Nil
  show ?case by (simp add: PutCodes_def alloc_codes_def code_writes_def)
next
  case (Cons x alloc)
  obtain addr a where x: "x = (addr, Some a)" using Cons.prems(1) by (cases x) (auto simp: no_nil_def)
  let ?db = "code_writes keccak [acc_Code a] db"
  have "no_nil alloc" "?db \<noteq> None" using Cons.prems code_writes_open by (auto simp: no_nil_def)
  with Cons.IH have "PutCodes keccak alloc ?db = Inr (code_writes keccak (alloc_codes alloc) ?db)" by blast
  then show ?case
    using x Cons.prems(2) code_writes_append [of keccak "[acc_Code a]" "alloc_codes alloc" db]
    by (simp add: PutCodes_def PutCode_open alloc_codes_def)
qed

lemma balances_no_nil: "balances_ok alloc \<Longrightarrow> no_nil alloc"
  by (auto simp: balances_ok_def no_nil_def list_all_iff split: option.splits)

lemma balances_storable:
  assumes "balances_ok alloc" and "gomap_ok alloc" and "NewSubstateAllocRLP keccak alloc = Inr r"
  shows "alloc_storable r"
proof -
  have "0 \<le> acc_Balance (the (mget None alloc addr))" if "addr \<in> set (mkeys alloc)" for addr
    using mget_in_set [of alloc addr None] that assms(1) unfolding mhas_iff [symmetric]
    by (fastforce simp: balances_ok_def list_all_iff split: option.splits)
  then have "list_all (\<lambda>acc. 0 \<le> ar_Balance acc)
      (map (\<lambda>addr. NewSubstateAccountRLP keccak (the (mget None alloc addr))) (sort_by key_less (mkeys alloc)))"
    unfolding list_all_iff set_map set_sort_by by (auto simp: NewSubstateAccountRLP_def)
  then show ?thesis
    using NewSubstateAllocRLP_no_nil [OF balances_no_nil [OF assms(1)] assms(2), of keccak] assms(3)
    by (simp add: alloc_storable_def)
qed

definition rlp_of :: "(bytes \<Rightarrow> Hash) \<Rightarrow> Substate \<Rightarrow> SubstateAllocRLP \<Rightarrow> SubstateAllocRLP \<Rightarrow> SubstateRLP" where
  "rlp_of keccak s i u =
     \<lparr>sr_InputAlloc = i, sr_OutputAlloc = u, sr_Env = NewSubstateEnvRLP (Env s),
      sr_Message = fst (NewSubstateMessageRLP keccak (ss_Message s)), sr_Result = NewSubstateResultRLP (Result s)\<rparr>"

lemma NewSubstateRLP_storable:
  assumes "substate_ok s" and "recordable keccak s"
  shows "\<exists>i u. NewSubstateAllocRLP keccak (InputAlloc s) = Inr i \<and> NewSubstateAllocRLP keccak (OutputAlloc s) = Inr u \<and>
    NewSubstateRLP keccak s =
      Inr (rlp_of keccak s i u,
           s\<lparr>ss_Message := snd (NewSubstateMessageRLP keccak (ss_Message s))\<rparr>) \<and>
    storable substateT (layout_val env_val message_val
      (rlp_of keccak s i u))"
proof -
  have ok: "gomap_ok (InputAlloc s)" "gomap_ok (OutputAlloc s)" using assms(1) by (auto simp: substate_ok_def alloc_ok_def)
  have bal: "balances_ok (InputAlloc s)" "balances_ok (OutputAlloc s)" using assms(2) by (auto simp: recordable_def)
  obtain i where i: "NewSubstateAllocRLP keccak (InputAlloc s) = Inr i"
    using NewSubstateAllocRLP_no_nil [OF balances_no_nil [OF bal(1)] ok(1)] by blast
  obtain u where u: "NewSubstateAllocRLP keccak (OutputAlloc s) = Inr u"
    using NewSubstateAllocRLP_no_nil [OF balances_no_nil [OF bal(2)] ok(2)] by blast
  let ?m = "fst (NewSubstateMessageRLP keccak (ss_Message s))"
  have "0 \<le> mr_GasPrice ?m \<and> 0 \<le> mr_Value ?m \<and> 0 \<le> mr_GasFeeCap ?m \<and> 0 \<le> mr_GasTipCap ?m"
    using assms(2) by (auto simp: recordable_def NewSubstateMessageRLP_def Let_def split: prod.splits)
  moreover have "0 \<le> er_Difficulty (NewSubstateEnvRLP (Env s))" "length (rr_Bloom (NewSubstateResultRLP (Result s))) = 256"
    using assms(2) by (simp_all add: recordable_def NewSubstateEnvRLP_def NewSubstateResultRLP_def)
  moreover note balances_storable [OF bal(1) ok(1) i] balances_storable [OF bal(2) ok(2) u]
  ultimately show ?thesis
    using i u by (simp add: NewSubstateRLP_def rlp_of_def Let_def substateT_def storable_layout storable_env storable_message
        case_prod_unfold del: storable.simps)
qed

lemma PutSubstate_open:
  assumes "substate_ok s" and "recordable keccak s" and "encoded_size keccak s < uint64_max_size" and "db \<noteq> None"
  shows "\<exists>i u r s'. NewSubstateAllocRLP keccak (InputAlloc s) = Inr i \<and> NewSubstateAllocRLP keccak (OutputAlloc s) = Inr u \<and>
    r = rlp_of keccak s i u \<and>
    storable substateT (layout_val env_val message_val r) \<and>
    length (item_enc (item_of substateT (layout_val env_val message_val r))) < uint64_max_size \<and>
    PutSubstate keccak block tx s db =
      Inr (db_write (Stage1SubstateKey block tx) (item_enc (item_of substateT (layout_val env_val message_val r)))
             (code_writes keccak (substate_codes s) db), s')"
proof -
  obtain i u where iu: "NewSubstateAllocRLP keccak (InputAlloc s) = Inr i" "NewSubstateAllocRLP keccak (OutputAlloc s) = Inr u"
    and r: "NewSubstateRLP keccak s =
      Inr (rlp_of keccak s i u,
           s\<lparr>ss_Message := snd (NewSubstateMessageRLP keccak (ss_Message s))\<rparr>)" 
    and st: "storable substateT (layout_val env_val message_val (rlp_of keccak s i u))"
    using NewSubstateRLP_storable [OF assms(1,2)] by blast
  let ?v = "layout_val env_val message_val (rlp_of keccak s i u)"
  have size: "length (item_enc (item_of substateT ?v)) < uint64_max_size"
    using assms(3) r by (simp add: encoded_size_def)
  have "?v \<noteq> NilV" by (simp add: layout_val_def)
  then have enc: "EncodeToBytes (PtrT substateT) ?v = Inr (item_enc (item_of substateT ?v))"
    using EncodeToBytes_spec [of "PtrT substateT" ?v] storable_of_type [OF st] size
    by (simp del: item_enc.simps of_type.simps(1-8,10) item_of.simps(1-8,10))
  have nn: "no_nil (InputAlloc s)" "no_nil (OutputAlloc s)"
    using assms(2) balances_no_nil by (auto simp: recordable_def)
  let ?db1 = "code_writes keccak (alloc_codes (InputAlloc s)) db"
  let ?db2 = "code_writes keccak (alloc_codes (OutputAlloc s)) ?db1"
  have open1: "?db1 \<noteq> None" "?db2 \<noteq> None" using assms(4) code_writes_open by blast+
  have msg: "(if msg_To (ss_Message s) = None then PutCode keccak (msg_Data (ss_Message s)) ?db2 else Inr ?db2)
      = Inr (code_writes keccak (substate_codes s) db)"
    using PutCode_open [OF open1(2)] by (simp add: substate_codes_def code_writes_append code_writes_def)
  have open2: "code_writes keccak (substate_codes s) db \<noteq> None" using assms(4) by (rule code_writes_open)
  have "PutSubstate keccak block tx s db =
      Inr (db_write (Stage1SubstateKey block tx) (item_enc (item_of substateT ?v)) (code_writes keccak (substate_codes s) db),
        s\<lparr>ss_Message := snd (NewSubstateMessageRLP keccak (ss_Message s))\<rparr>)"
    unfolding PutSubstate_def PutCodes_open [OF nn(1) assms(4)] go_bind_simps PutCodes_open [OF nn(2) open1(1)] msg r
      prod.case enc or_panic_def sum.case db_Put_open [OF open2] by (rule refl)
  then show ?thesis using iu st size by blast
qed

section \<open>Reading after writing\<close>

text \<open>
  Keccak-256 is assumed to have no collision among the codes at hand; the empty code counts,
  because its hash stands for "no code".
\<close>

definition collision_free :: "(bytes \<Rightarrow> Hash) \<Rightarrow> bytes set \<Rightarrow> bool" where
  "collision_free keccak cs \<longleftrightarrow> inj_on keccak (insert [] cs)"

lemma GetCode_open:
  "db \<noteq> None \<Longrightarrow> GetCode keccak db h =
     (if h = keccak [] then Inr []
      else case db_lookup db (Stage1CodeKey h) of
             None \<Rightarrow> Inl (ExplicitPanic ''record-replay: error getting code'') | Some c \<Rightarrow> Inr c)"
  by (simp add: GetCode_def EmptyCodeHash_def CodeHash_def or_panic_def db_Get_lookup split: option.splits)

lemma lookup_after_put:
  assumes "db \<noteq> None"
  shows "db_lookup (db_write (Stage1SubstateKey b t) v db) (Stage1CodeKey h) = db_lookup db (Stage1CodeKey h)"
  using memdb.get_put [OF assms] by simp

lemma code_writes_stored:
  assumes "db \<noteq> None" and "collision_free keccak (set cs)" and "c \<in> set cs"
  shows "code_stored keccak (db_write (Stage1SubstateKey b t) v (code_writes keccak cs db)) c"
proof -
  let ?db = "code_writes keccak cs db"
  have open': "?db \<noteq> None" "db_write (Stage1SubstateKey b t) v ?db \<noteq> None"
    using code_writes_open [OF assms(1)] memdb.opened_put by blast+
  have inj: "x = y" if "keccak x = keccak y" "x \<in> insert [] (set cs)" "y \<in> insert [] (set cs)" for x y
    using assms(2) that unfolding collision_free_def by (rule inj_onD)
  show ?thesis
  proof (cases "c = []")
    case True
    then show ?thesis using open'(2) by (simp add: code_stored_def GetCode_open)
  next
    case False
    then have "keccak c \<noteq> keccak []" using inj [of c "[]"] assms(3) by blast
    moreover have "db_lookup ?db (Stage1CodeKey (keccak c)) = Some c"
      unfolding code_writes_def
      by (rule memdb.get_fold_written [where key = "\<lambda>c. Stage1CodeKey (keccak c)" and val = "\<lambda>c. c"])
         (use assms(1,3) False inj in auto)
    ultimately show ?thesis
      using open' by (simp add: code_stored_def GetCode_open lookup_after_put)
  qed
qed

lemma Substate_SetRLP_read_back:
  assumes "substate_ok s" and "recordable keccak s" and "\<And>c. c \<in> set (substate_codes s) \<Longrightarrow> code_stored keccak db c"
    and "NewSubstateAllocRLP keccak (InputAlloc s) = Inr i" and "NewSubstateAllocRLP keccak (OutputAlloc s) = Inr u"
    and "r = rlp_of keccak s i u"
  shows "\<exists>g. Substate_SetRLP keccak db (r\<lparr>sr_Result := (sr_Result r)\<lparr>rr_Logs := map log_stored (rr_Logs (sr_Result r))\<rparr>\<rparr>) = Inr g
    \<and> substate_view g = substate_view s"
proof -
  have nn: "no_nil (InputAlloc s)" "no_nil (OutputAlloc s)"
    using assms(2) balances_no_nil by (auto simp: recordable_def)
  have codes: "\<forall>c \<in> set (alloc_codes (InputAlloc s)). code_stored keccak db c"
      "\<forall>c \<in> set (alloc_codes (OutputAlloc s)). code_stored keccak db c"
      "msg_To (ss_Message s) = None \<Longrightarrow> code_stored keccak db (msg_Data (ss_Message s))"
    using assms(3) by (auto simp: substate_codes_def)
  obtain i' where i': "SubstateAlloc_SetRLP keccak db i = Inr i'" "alloc_view i' = alloc_view (InputAlloc s)"
    using alloc_read_back [OF _ nn(1) codes(1)] assms(1,4) by (auto simp: substate_ok_def)
  obtain u' where u': "SubstateAlloc_SetRLP keccak db u = Inr u'" "alloc_view u' = alloc_view (OutputAlloc s)"
    using alloc_read_back [OF _ nn(2) codes(2)] assms(1,5) by (auto simp: substate_ok_def)
  obtain m' where m': "SubstateMessage_SetRLP keccak db (fst (NewSubstateMessageRLP keccak (ss_Message s))) = Inr m'"
      "msg_view m' = msg_view (ss_Message s)"
    using message_read_back [OF codes(3)] assms(2) by (auto simp: recordable_def)
  have e: "env_view (SubstateEnv_SetRLP (NewSubstateEnvRLP (Env s))) = env_view (Env s)"
    using assms(1,2) by (intro env_read_back) (simp_all add: substate_ok_def recordable_def)
  show ?thesis
    unfolding Substate_SetRLP_def substate_view_def
    using i' u' m' e result_read_back [of "Result s"] assms(6) by (simp add: rlp_of_def)
qed

lemma decode_substate_written:
  assumes "storable substateT (layout_val env_val message_val r)"
    and "length (item_enc (item_of substateT (layout_val env_val message_val r))) < uint64_max_size"
  shows "decode_substate (item_enc (item_of substateT (layout_val env_val message_val r)))
    = Inr (r\<lparr>sr_Result := (sr_Result r)\<lparr>rr_Logs := map log_stored (rr_Logs (sr_Result r))\<rparr>\<rparr>)"
  using DecodeBytes_item [OF assms] val_layout_val [of val_env env_val val_message message_val r]
  by (simp add: decode_substate_def decode_as_def del: item_enc.simps)

lemma stored_read_back:
  assumes "substate_ok s" and "recordable keccak s" and "encoded_size keccak s < 2 ^ 64"
    and "collision_free keccak (set (substate_codes s))" and "db \<noteq> None"
  shows "\<exists>db' s' g. PutSubstate keccak block tx s db = Inr (db', s') \<and> HasSubstate db' block tx \<and>
    GetSubstate keccak db' block tx = Inr g \<and> substate_view g = substate_view s"
proof -
  have "encoded_size keccak s < uint64_max_size" using assms(3) by simp
  from PutSubstate_open [OF assms(1,2) this assms(5), of block tx] obtain i u r s'
    where iu: "NewSubstateAllocRLP keccak (InputAlloc s) = Inr i" "NewSubstateAllocRLP keccak (OutputAlloc s) = Inr u"
    and r: "r = rlp_of keccak s i u"
    and st: "storable substateT (layout_val env_val message_val r)"
      "length (item_enc (item_of substateT (layout_val env_val message_val r))) < uint64_max_size"
    and put: "PutSubstate keccak block tx s db =
      Inr (db_write (Stage1SubstateKey block tx) (item_enc (item_of substateT (layout_val env_val message_val r)))
             (code_writes keccak (substate_codes s) db), s')" (is "_ = Inr (?db, _)")
    by blast
  have open1: "code_writes keccak (substate_codes s) db \<noteq> None" using assms(5) by (rule code_writes_open)
  then have open2: "?db \<noteq> None" by (rule memdb.opened_put)
  have stored: "db_lookup ?db (Stage1SubstateKey block tx) = Some (item_enc (item_of substateT (layout_val env_val message_val r)))"
    using memdb.get_put [OF open1] by simp
  then have "HasSubstate ?db block tx"
    using open2 by (auto simp: HasSubstate_def db_Has_def db_lookup_def db_Get_def mhas_def split: option.splits)
  moreover obtain g where "Substate_SetRLP keccak ?db
      (r\<lparr>sr_Result := (sr_Result r)\<lparr>rr_Logs := map log_stored (rr_Logs (sr_Result r))\<rparr>\<rparr>) = Inr g" "substate_view g = substate_view s"
    using Substate_SetRLP_read_back [OF assms(1,2) _ iu r] code_writes_stored [OF assms(5,4)] by blast
  moreover from this(1) have "GetSubstate keccak ?db block tx = Inr g"
    by (simp add: GetSubstate_def db_Get_lookup [OF open2] stored or_panic_def decode_substate_written [OF st]
        del: item_enc.simps)
  ultimately show ?thesis using put by blast
qed

text \<open>
  C7: a recorded substate is read back: after \<open>PutSubstate\<close> of a substate that can be stored,
  \<open>GetSubstate\<close> under the same block and transaction returns a substate with the same contents
  (accounts with their code and storage, environment, message, result), through the code
  store, the RLP encoding and the sorted layouts; only the derived fields of the logs and the
  memoised hash are not kept. The substate then counts as present, and it is the same whatever
  was stored before.
\<close>

theorem PutSubstate_GetSubstate:
  assumes "substate_ok s" and "recordable keccak s" and "encoded_size keccak s < 2 ^ 64"
    and "collision_free keccak (set (substate_codes s))" and "db \<noteq> None"
  shows "\<exists>db' s' g. PutSubstate keccak block tx s db = Inr (db', s') \<and> HasSubstate db' block tx \<and>
    GetSubstate keccak db' block tx = Inr g \<and> substate_view g = substate_view s"
  using assms by (rule stored_read_back)

text \<open>A bound on the size of an encoding that does not evaluate the encoding.\<close>

primrec item_bound :: "item \<Rightarrow> nat" where
  "item_bound (Str b) = 1 + 2 * length b"
| "item_bound (Lst its) = 1 + 2 * sum_list (map item_bound its)"

lemma length_hdr_le: "length (hdr sm la n) \<le> 1 + n"
proof -
  have "length (min_be n) \<le> n" by (rule length_min_be_le) (rule less_le_trans [OF less_exp], simp add: power_mono)
  then show ?thesis by (simp add: hdr_def)
qed

lemma length_item_enc_bound: "length (item_enc it) \<le> item_bound it"
proof (induction it)
  case (Str b)
  then show ?case using length_hdr_le [of "0x80" "0xB7" "length b"] by simp
next
  case (Lst its)
  have "length (items_enc its) \<le> sum_list (map item_bound its)"
    using Lst by (induction its) (auto simp: add_mono)
  then show ?case using length_hdr_le [of "0xC0" "0xF7" "length (items_enc its)"] by (simp add: Let_def)
qed

definition sample_recorded :: Substate where
  "sample_recorded =
     (sample_substate [(3, 4), (1, 2)])\<lparr>Result := \<lparr>res_Status = 1, res_Bloom = replicate 256 0,
        res_Logs = [\<lparr>lg_Address = 8, lg_Topics = [5], lg_Data = [1], lg_BlockNumber = 5, lg_TxHash = 77, lg_TxIndex = 0,
          lg_BlockHash = 78, lg_Index = 0, lg_Removed = False\<rparr>], res_ContractAddress = 0, res_GasUsed = 21\<rparr>\<rparr>"

definition sample_hash :: "bytes \<Rightarrow> Hash" where
  "sample_hash c = of_nat (be_val c)"

lemmas sample_defs = sample_recorded_def sample_substate_def NewSubstate_def NewSubstateEnv_def NewSubstateMessage_def
  sample_account_def

lemma sample_recorded_ok:
  "substate_ok sample_recorded" "recordable sample_hash sample_recorded" "substate_codes sample_recorded = [[96]]"
  "collision_free sample_hash (set (substate_codes sample_recorded))"
proof -
  show "substate_ok sample_recorded" by (simp add: sample_defs substate_ok_def alloc_ok_def gomap_ok_def)
  show "recordable sample_hash sample_recorded" by (simp add: sample_defs recordable_def balances_ok_def)
  show c: "substate_codes sample_recorded = [[96]]" by (simp add: sample_defs substate_codes_def alloc_codes_def)
  show "collision_free sample_hash (set (substate_codes sample_recorded))"
    unfolding c collision_free_def by (simp add: sample_hash_def be_val_def)
qed

lemma sample_recorded_size: "encoded_size sample_hash sample_recorded < 2 ^ 64"
proof -
  obtain i u where iu: "NewSubstateAllocRLP sample_hash (InputAlloc sample_recorded) = Inr i"
      "NewSubstateAllocRLP sample_hash (OutputAlloc sample_recorded) = Inr u"
    and r: "NewSubstateRLP sample_hash sample_recorded = Inr (rlp_of sample_hash sample_recorded i u,
      sample_recorded\<lparr>ss_Message := snd (NewSubstateMessageRLP sample_hash (ss_Message sample_recorded))\<rparr>)"
    using NewSubstateRLP_storable [OF sample_recorded_ok(1,2)] by blast
  have i: "i = \<lparr>al_Addresses = [7], al_Accounts = [\<lparr>ar_Nonce = 1, ar_Balance = 10, ar_CodeHash = 96, ar_Storage = [(1, 2), (3, 4)]\<rparr>]\<rparr>"
    using iu(1) by (simp add: NewSubstateAllocRLP_def NewSubstateAccountRLP_def SubstateAccount_CodeHash_def sample_defs
        sample_hash_def be_val_def mget_def key_less_def)
  have u: "u = \<lparr>al_Addresses = [], al_Accounts = []\<rparr>"
    using iu(2) by (simp add: NewSubstateAllocRLP_def sample_defs)
  have "item_bound (item_of substateT (layout_val env_val message_val (rlp_of sample_hash sample_recorded i u))) < 2 ^ 64"
    unfolding i u
    by (simp add: rlp_of_def NewSubstateEnvRLP_def NewSubstateMessageRLP_def NewSubstateResultRLP_def sample_defs
        substateT_def layoutT_def layout_val_def allocT_def alloc_val_def accountT_def account_val_def envT_def envFields_def
        env_val_def env_vals_def messageT_def messageFields_def message_val_def message_vals_def resultT_def result_val_def
        accessListT_def accessList_val_def logT_def log_val_def hash_val_def address_val_def pair_val_def nil_or_def min_be.simps)
  then show ?thesis
    using r length_item_enc_bound [of "item_of substateT (layout_val env_val message_val (rlp_of sample_hash sample_recorded i u))"]
    by (simp add: encoded_size_def)
qed

lemma sample_stored:
  "\<exists>db' s' g. PutSubstate sample_hash 5 0 sample_recorded db_New = Inr (db', s') \<and> HasSubstate db' 5 0 \<and>
    GetSubstate sample_hash db' 5 0 = Inr g \<and> substate_view g = substate_view sample_recorded"
  by (rule stored_read_back)
     (use sample_recorded_ok sample_recorded_size in \<open>simp_all add: db_New_def\<close>)

theorem PutSubstate_GetSubstate_witness:
  "\<exists>db' s' g. PutSubstate sample_hash 5 0 sample_recorded db_New = Inr (db', s') \<and> HasSubstate db' 5 0 \<and>
    GetSubstate sample_hash db' 5 0 = Inr g \<and> substate_view g = substate_view sample_recorded"
  by (rule PutSubstate_GetSubstate)
     (use sample_recorded_ok sample_recorded_size in \<open>simp_all add: db_New_def\<close>)

section \<open>Older layouts\<close>

text \<open>A decoder that reports an error on an item, and a struct with a missing or a failing field.\<close>

definition fails :: "decoder \<Rightarrow> item \<Rightarrow> bool" where
  "fails dec it \<longleftrightarrow> (\<forall>s rest. at_item s it rest \<longrightarrow> (\<exists>e. dec s = Inl e \<and> e \<noteq> EOL))"

lemma fields_loop_missing:
  "length its = length vs \<Longrightarrow> length its < length fs \<Longrightarrow> (\<And>i. i < length its \<Longrightarrow> decodes (fs ! i) (vs ! i) (its ! i)) \<Longrightarrow>
   (\<And>f s. f \<in> set fs \<Longrightarrow> at_end s \<Longrightarrow> f s = Inl EOL) \<Longrightarrow> at_items s its rest \<Longrightarrow>
   at_end (advance (length (items_enc its)) s) \<Longrightarrow> fields_loop fs s = Inl (decodeError ''too few elements'')"
proof (induction its vs arbitrary: s fs rule: list_induct2)
  case Nil
  then obtain f fs' where fs: "fs = f # fs'" by (cases fs) auto
  have "s = advance 0 s" using Nil.prems(4) by (simp add: at_items_def advance_0)
  then have "at_end s" using Nil.prems(5) by simp
  then have "f s = Inl EOL" using Nil.prems(3) fs by simp
  then show ?case using fs by simp
next
  case (Cons it its v vs)
  then obtain f fs' where fs: "fs = f # fs'" by (cases fs) auto
  note at = at_items_Cons [OF Cons.prems(4)]
  let ?s = "advance (length (item_enc it)) s"
  have "decodes f v it" using Cons.prems(2) [of 0] fs by simp
  then have f: "f s = Inr (v, ?s)" using at(1) unfolding decodes_def by blast
  have "fields_loop fs' ?s = Inl (decodeError ''too few elements'')"
  proof (rule Cons.IH)
    show "length its < length fs'" using Cons.prems(1) fs by simp
    show "decodes (fs' ! i) (vs ! i) (its ! i)" if "i < length its" for i
      using Cons.prems(2) [of "Suc i"] that fs by simp
    show "f' s' = Inl EOL" if "f' \<in> set fs'" "at_end s'" for f' s' using Cons.prems(3) that fs by simp
    show "at_items ?s its rest" by (rule at(2))
    show "at_end (advance (length (items_enc its)) ?s)" using Cons.prems(5) by (simp add: advance_advance)
  qed
  then show ?case using fs f by simp
qed

lemma fields_loop_fails:
  "length its = length vs \<Longrightarrow> i < length its \<Longrightarrow> length fs = length its \<Longrightarrow>
   (\<And>j. j < i \<Longrightarrow> decodes (fs ! j) (vs ! j) (its ! j)) \<Longrightarrow> fails (fs ! i) (its ! i) \<Longrightarrow> at_items s its rest \<Longrightarrow>
   \<exists>e. fields_loop fs s = Inl e \<and> e \<noteq> EOL"
proof (induction its vs arbitrary: s fs i rule: list_induct2)
  case (Cons it its v vs)
  then obtain f fs' where fs: "fs = f # fs'" by (cases fs) auto
  note at = at_items_Cons [OF Cons.prems(5)]
  let ?s = "advance (length (item_enc it)) s"
  show ?case
  proof (cases i)
    case 0
    then obtain e where "f s = Inl e" "e \<noteq> EOL" using Cons.prems(4) at(1) fs unfolding fails_def by auto
    then show ?thesis using fs by simp
  next
    case (Suc j)
    have "decodes f v it" using Cons.prems(3) [of 0] fs Suc by simp
    then have f: "f s = Inr (v, ?s)" using at(1) unfolding decodes_def by blast
    have "\<exists>e. fields_loop fs' ?s = Inl e \<and> e \<noteq> EOL"
    proof (rule Cons.IH)
      show "j < length its" "length fs' = length its" using Cons.prems(1,2) fs Suc by simp_all
      show "decodes (fs' ! k) (vs ! k) (its ! k)" if "k < j" for k
        using Cons.prems(3) [of "Suc k"] that fs Suc by simp
      show "fails (fs' ! j) (its ! j)" using Cons.prems(4) fs Suc by simp
      show "at_items ?s its rest" by (rule at(2))
    qed
    then show ?thesis using fs f by auto
  qed
qed simp

lemma struct_missing:
  assumes "length vs < length ts" and "list_all2 storable (take (length vs) ts) vs"
  shows "fails (makeDecoder (StructT ts)) (item_of (StructT (take (length vs) ts)) (ListV vs))"
  unfolding fails_def
proof (intro allI impI)
  let ?its = "map (\<lambda>(f, x). f x) (zip (map item_of (take (length vs) ts)) vs)"
  fix s rest assume "at_item s (item_of (StructT (take (length vs) ts)) (ListV vs)) rest"
  then have at: "at_item s (Lst ?its) rest" by simp
  note L = Stream_List_item [OF at]
  let ?s = "enter (item_head (Lst ?its)) (length (items_enc ?its)) s"
  have "fields_loop (map makeDecoder ts) ?s = Inl (decodeError ''too few elements'')"
  proof (rule fields_loop_missing [where vs = vs and its = ?its])
    show "length ?its = length vs" "length ?its < length (map makeDecoder ts)" using assms(1) by simp_all
    show "decodes (map makeDecoder ts ! i) (vs ! i) (?its ! i)" if "i < length ?its" for i
      using that assms(1) list_all2_nthD2 [OF assms(2), of i] makeDecoder_decodes [of "ts ! i" "vs ! i"] by simp
    show "f s = Inl EOL" if "f \<in> set (map makeDecoder ts)" "at_end s" for f s
      using that makeDecoder_at_end by auto
    show "at_items ?s ?its rest" by (rule L(2))
    show "at_end (advance (length (items_enc ?its)) ?s)" by (simp add: at_end_def enter_def)
  qed
  then show "\<exists>e. makeDecoder (StructT ts) s = Inl e \<and> e \<noteq> EOL"
    using L(1) by (simp add: makeStructDecoder_def wrapped_def)
qed

lemma struct_fails:
  assumes "i < length vs" and "length ts = length vs" and "length its = length vs"
    and "\<And>j. j < i \<Longrightarrow> storable (ts ! j) (vs ! j) \<and> its ! j = item_of (ts ! j) (vs ! j)" and "fails (makeDecoder (ts ! i)) (its ! i)"
  shows "fails (makeDecoder (StructT ts)) (Lst its)"
  unfolding fails_def
proof (intro allI impI)
  fix s rest assume at: "at_item s (Lst its) rest"
  note L = Stream_List_item [OF at]
  let ?s = "enter (item_head (Lst its)) (length (items_enc its)) s"
  have "\<exists>e. fields_loop (map makeDecoder ts) ?s = Inl e \<and> e \<noteq> EOL"
  proof (rule fields_loop_fails [where vs = vs and its = its and i = i])
    show "length its = length vs" "i < length its" "length (map makeDecoder ts) = length its" using assms(1-3) by simp_all
    show "decodes (map makeDecoder ts ! j) (vs ! j) (its ! j)" if "j < i" for j
      using that assms(1,2) assms(4) [OF that] makeDecoder_decodes [of "ts ! j" "vs ! j"] by simp
    show "fails (map makeDecoder ts ! i) (its ! i)" using assms(1,2,5) by simp
    show "at_items ?s its rest" by (rule L(2))
  qed
  then show "\<exists>e. makeDecoder (StructT ts) s = Inl e \<and> e \<noteq> EOL"
    using L(1) by (auto simp: makeStructDecoder_def wrapped_def)
qed

lemma DecodeBytes_fails:
  assumes "fails (makeDecoder t) it" and "length (item_enc it) < uint64_max_size"
  shows "\<exists>e. DecodeBytes t (item_enc it) = Inl e"
proof -
  have "at_item (Stream_Reset (item_enc it)) it []"
    using assms(2) by (simp add: at_item_def room_def Stream_Reset_def)
  then obtain e where "makeDecoder t (Stream_Reset (item_enc it)) = Inl e" using assms(1) unfolding fails_def by blast
  then show ?thesis by (simp add: DecodeBytes_def)
qed

lemma envT_rejects_legacy:
  assumes "storable legacyEnvT (legacyEnv_val e)"
  shows "fails (makeDecoder envT) (item_of legacyEnvT (legacyEnv_val e))"
proof -
  have take: "take (length (env_vals e)) (envFields @ [NilPtrT StringK hashT]) = envFields"
    by (simp add: env_vals_def envFields_def)
  have "list_all2 storable envFields (env_vals e)" using assms by (simp add: storable_env storable_env_vals)
  then show ?thesis
    using struct_missing [of "env_vals e" "envFields @ [NilPtrT StringK hashT]"] take
    by (simp add: envT_def legacyEnvT_def legacyEnv_val_def env_vals_def envFields_def)
qed

lemma berlinMessageT_rejects_legacy:
  assumes "storable legacyMessageT (legacyMessage_val m)"
  shows "fails (makeDecoder berlinMessageT) (item_of legacyMessageT (legacyMessage_val m))"
proof -
  have take: "take (length (message_vals m)) (messageFields @ [accessListT]) = messageFields"
    by (simp add: messageFields_def)
  have "list_all2 storable messageFields (message_vals m)"
    using assms by (simp add: storable_message storable_message_vals)
  then show ?thesis
    using struct_missing [of "message_vals m" "messageFields @ [accessListT]"] take
    unfolding berlinMessageT_def legacyMessageT_def legacyMessage_val_def by (simp add: messageFields_def)
qed

lemma layout_items:
  assumes "env (sr_Env r) \<noteq> NilV" and "msg (sr_Message r) \<noteq> NilV"
  shows "item_of (layoutT t u) (layout_val env msg r) =
    Lst [item_of allocT (alloc_val (sr_InputAlloc r)), item_of allocT (alloc_val (sr_OutputAlloc r)),
      item_of t (env (sr_Env r)), item_of u (msg (sr_Message r)), item_of resultT (result_val (sr_Result r))]"
  using assms by (simp add: layoutT_def layout_val_def)

text \<open>A layout whose environment, or whose message after a good environment, is rejected.\<close>

lemma layout_rejects:
  assumes "storable (layoutT t u) (layout_val env msg r)" and "env (sr_Env r) \<noteq> NilV" "msg (sr_Message r) \<noteq> NilV"
    and "fails (makeDecoder t') (item_of t (env (sr_Env r))) \<or>
      t' = t \<and> fails (makeDecoder u') (item_of u (msg (sr_Message r)))"
  shows "fails (makeDecoder (layoutT t' u')) (item_of (layoutT t u) (layout_val env msg r))"
proof -
  let ?vs = "[alloc_val (sr_InputAlloc r), alloc_val (sr_OutputAlloc r), env (sr_Env r), msg (sr_Message r), result_val (sr_Result r)]"
  let ?its = "[item_of allocT (alloc_val (sr_InputAlloc r)), item_of allocT (alloc_val (sr_OutputAlloc r)),
      item_of t (env (sr_Env r)), item_of u (msg (sr_Message r)), item_of resultT (result_val (sr_Result r))]"
  let ?ts = "[allocT, allocT, PtrT t', PtrT u', PtrT resultT]"
  have st: "storable allocT (alloc_val (sr_InputAlloc r))" "storable allocT (alloc_val (sr_OutputAlloc r))"
      "storable t (env (sr_Env r))"
    using assms(1-3) by (simp_all add: storable_layout storable_alloc)
  have "fails (makeDecoder (StructT ?ts)) (Lst ?its)"
    using assms(4)
  proof
    assume f: "fails (makeDecoder t') (item_of t (env (sr_Env r)))"
    show ?thesis
    proof (rule struct_fails [where vs = ?vs and i = 2])
      show "storable (?ts ! j) (?vs ! j) \<and> ?its ! j = item_of (?ts ! j) (?vs ! j)" if "j < 2" for j
        using that st by (cases j) (auto simp: less_Suc_eq)
    qed (use f in simp_all)
  next
    assume f: "t' = t \<and> fails (makeDecoder u') (item_of u (msg (sr_Message r)))"
    show ?thesis
    proof (rule struct_fails [where vs = ?vs and i = 3])
      show "storable (?ts ! j) (?vs ! j) \<and> ?its ! j = item_of (?ts ! j) (?vs ! j)" if "j < 3" for j
        using that st f assms(2) by (cases j rule: nat.exhaust; cases "j - 1"; auto simp: less_Suc_eq numeral_eq_Suc)
    qed (use f in simp_all)
  qed
  then show ?thesis unfolding layout_items [of env r msg, OF assms(2,3)] unfolding layoutT_def .
qed

definition stored_logs :: "('e, 'm) layout \<Rightarrow> ('e, 'm) layout" where
  "stored_logs r = r\<lparr>sr_Result := (sr_Result r)\<lparr>rr_Logs := map log_stored (rr_Logs (sr_Result r))\<rparr>\<rparr>"

lemma decode_as_item:
  assumes "storable t v" and "length (item_enc (item_of t v)) < uint64_max_size" and "conv v = Some x"
  shows "decode_as t conv (item_enc (item_of t v)) = Inr x"
  using DecodeBytes_item [OF assms(1,2)] assms(3) by (simp add: decode_as_def del: item_enc.simps)

lemma decode_as_fails:
  assumes "fails (makeDecoder t) it" and "length (item_enc it) < uint64_max_size"
  shows "\<exists>e. decode_as t conv (item_enc it) = Inl e"
  using DecodeBytes_fails [OF assms] by (auto simp: decode_as_def)

text \<open>
  C27: records in the older layouts are read by the older layouts: bytes written in the layout
  used between Berlin and London are rejected by the current layout and read through
  \<open>setBerlinRLP\<close>, bytes written before Berlin are rejected by both and read through
  \<open>setLegacyRLP\<close>; in both cases the fee caps are the gas price and there is no base fee. A
  record of the Berlin layout loses its access list.
\<close>

theorem decode_substate_older:
  "(storable berlinSubstateT (layout_val legacyEnv_val berlinMessage_val b) \<longrightarrow>
    length (item_enc (item_of berlinSubstateT (layout_val legacyEnv_val berlinMessage_val b))) < 2 ^ 64 \<longrightarrow>
    decode_substate (item_enc (item_of berlinSubstateT (layout_val legacyEnv_val berlinMessage_val b)))
      = Inr (setBerlinRLP (stored_logs b))) \<and>
   (storable legacySubstateT (layout_val legacyEnv_val legacyMessage_val l) \<longrightarrow>
    length (item_enc (item_of legacySubstateT (layout_val legacyEnv_val legacyMessage_val l))) < 2 ^ 64 \<longrightarrow>
    decode_substate (item_enc (item_of legacySubstateT (layout_val legacyEnv_val legacyMessage_val l)))
      = Inr (setLegacyRLP (stored_logs l))) \<and>
   mr_AccessList (sr_Message (setBerlinRLP b)) = [] \<and> mr_GasFeeCap (sr_Message (setBerlinRLP b)) = mr_GasPrice (sr_Message b) \<and>
   er_BaseFee (sr_Env (setBerlinRLP b)) = None \<and> mr_AccessList (sr_Message (setLegacyRLP l)) = [] \<and>
   mr_GasTipCap (sr_Message (setLegacyRLP l)) = mr_GasPrice (sr_Message l) \<and> er_BaseFee (sr_Env (setLegacyRLP l)) = None"
proof (intro conjI impI)
  let ?bv = "layout_val legacyEnv_val berlinMessage_val b"
  assume st: "storable berlinSubstateT ?bv" and "length (item_enc (item_of berlinSubstateT ?bv)) < 2 ^ 64"
  then have len: "length (item_enc (item_of berlinSubstateT ?bv)) < uint64_max_size" by simp
  have "storable legacyEnvT (legacyEnv_val (sr_Env b))" using st by (simp add: berlinSubstateT_def storable_layout)
  then have "fails (makeDecoder substateT) (item_of berlinSubstateT ?bv)"
    using st unfolding substateT_def berlinSubstateT_def
    by (intro layout_rejects) (simp_all add: envT_rejects_legacy)
  then obtain e where "decode_as substateT (val_layout val_env val_message) (item_enc (item_of berlinSubstateT ?bv)) = Inl e"
    using decode_as_fails [OF _ len] by blast
  moreover have "decode_as berlinSubstateT (val_layout val_legacyEnv val_berlinMessage) (item_enc (item_of berlinSubstateT ?bv))
      = Inr (stored_logs b)"
    using st len by (rule decode_as_item) (simp add: stored_logs_def val_layout_val)
  ultimately show "decode_substate (item_enc (item_of berlinSubstateT ?bv)) = Inr (setBerlinRLP (stored_logs b))"
    by (simp add: decode_substate_def del: item_enc.simps)
next
  let ?lv = "layout_val legacyEnv_val legacyMessage_val l"
  assume st: "storable legacySubstateT ?lv" and "length (item_enc (item_of legacySubstateT ?lv)) < 2 ^ 64"
  then have len: "length (item_enc (item_of legacySubstateT ?lv)) < uint64_max_size" by simp
  have parts: "storable legacyEnvT (legacyEnv_val (sr_Env l))" "storable legacyMessageT (legacyMessage_val (sr_Message l))"
    using st by (simp_all add: legacySubstateT_def storable_layout)
  have f1: "fails (makeDecoder substateT) (item_of legacySubstateT ?lv)"
    using st parts unfolding substateT_def legacySubstateT_def
    by (intro layout_rejects) (simp_all add: envT_rejects_legacy)
  have f2: "fails (makeDecoder berlinSubstateT) (item_of legacySubstateT ?lv)"
    using st parts unfolding berlinSubstateT_def legacySubstateT_def
    by (intro layout_rejects) (simp_all add: berlinMessageT_rejects_legacy)
  obtain e where "decode_as substateT (val_layout val_env val_message) (item_enc (item_of legacySubstateT ?lv)) = Inl e"
    using decode_as_fails [OF f1 len] by blast
  moreover obtain e' where
      "decode_as berlinSubstateT (val_layout val_legacyEnv val_berlinMessage) (item_enc (item_of legacySubstateT ?lv)) = Inl e'"
    using decode_as_fails [OF f2 len] by blast
  moreover have "decode_as legacySubstateT (val_layout val_legacyEnv val_legacyMessage) (item_enc (item_of legacySubstateT ?lv))
      = Inr (stored_logs l)"
    using st len by (rule decode_as_item) (simp add: stored_logs_def val_layout_val)
  ultimately show "decode_substate (item_enc (item_of legacySubstateT ?lv)) = Inr (setLegacyRLP (stored_logs l))"
    by (simp add: decode_substate_def del: item_enc.simps)
qed (simp_all add: setBerlinRLP_def setLegacyRLP_def Message_setBerlinRLP_def Message_setLegacyRLP_def Env_setLegacyRLP_def)

definition sample_alloc_rlp :: SubstateAllocRLP where
  "sample_alloc_rlp = \<lparr>al_Addresses = [7], al_Accounts = [\<lparr>ar_Nonce = 1, ar_Balance = 10, ar_CodeHash = 96, ar_Storage = [(1, 2)]\<rparr>]\<rparr>"

definition sample_berlin :: berlinSubstateRLP where
  "sample_berlin =
     \<lparr>sr_InputAlloc = sample_alloc_rlp, sr_OutputAlloc = \<lparr>al_Addresses = [], al_Accounts = []\<rparr>,
      sr_Env = \<lparr>er_Coinbase = 9, er_Difficulty = 2, er_GasLimit = 30, er_Number = 5, er_Timestamp = 6, er_BlockHashes = []\<rparr>,
      sr_Message = \<lparr>mr_Nonce = 0, mr_CheckNonce = True, mr_GasPrice = 3, mr_Gas = 21, mr_From = 7, mr_To = Some 8, mr_Value = 0,
        mr_Data = [], mr_InitCodeHash = None, mr_AccessList = [(8, [1])]\<rparr>,
      sr_Result = \<lparr>rr_Status = 1, rr_Bloom = replicate 256 0, rr_Logs = [], rr_ContractAddress = 0, rr_GasUsed = 21\<rparr>\<rparr>"

theorem decode_substate_older_witness:
  "mr_AccessList (sr_Message sample_berlin) \<noteq> [] \<and>
   decode_substate (item_enc (item_of berlinSubstateT (layout_val legacyEnv_val berlinMessage_val sample_berlin)))
     = Inr (setBerlinRLP (stored_logs sample_berlin)) \<and> mr_AccessList (sr_Message (setBerlinRLP sample_berlin)) = []"
proof -
  have st: "storable berlinSubstateT (layout_val legacyEnv_val berlinMessage_val sample_berlin)"
    by (simp add: sample_berlin_def sample_alloc_rlp_def berlinSubstateT_def storable_layout storable_env storable_message alloc_storable_def)
  have "item_bound (item_of berlinSubstateT (layout_val legacyEnv_val berlinMessage_val sample_berlin)) < 2 ^ 64"
    by (simp add: sample_berlin_def sample_alloc_rlp_def berlinSubstateT_def layoutT_def layout_val_def allocT_def alloc_val_def
        accountT_def account_val_def legacyEnvT_def envFields_def legacyEnv_val_def env_vals_def berlinMessageT_def messageFields_def
        berlinMessage_val_def message_vals_def resultT_def result_val_def accessListT_def accessList_val_def
        hash_val_def address_val_def pair_val_def nil_or_def min_be.simps)
  then have "length (item_enc (item_of berlinSubstateT (layout_val legacyEnv_val berlinMessage_val sample_berlin))) < 2 ^ 64"
    using length_item_enc_bound le_less_trans by blast
  with st decode_substate_older [of sample_berlin] show ?thesis by (simp add: sample_berlin_def del: item_enc.simps)
qed

section \<open>The other substates\<close>

definition codes_ok :: "(bytes \<Rightarrow> Hash) \<Rightarrow> SubstateDB \<Rightarrow> bool" where
  "codes_ok keccak db \<longleftrightarrow> (\<forall>h c. db_lookup db (Stage1CodeKey h) = Some c \<longrightarrow> keccak c = h)"

definition codes_in :: "SubstateDB \<Rightarrow> bytes set" where
  "codes_in db = {c. \<exists>h. db_lookup db (Stage1CodeKey h) = Some c}"

definition codes_kept :: "(bytes \<Rightarrow> Hash) \<Rightarrow> SubstateDB \<Rightarrow> SubstateDB \<Rightarrow> bool" where
  "codes_kept keccak db db' \<longleftrightarrow> (\<forall>h c. GetCode keccak db h = Inr c \<longrightarrow> GetCode keccak db' h = Inr c)"

lemma PutCodes_InrD:
  "PutCodes keccak alloc db = Inr db' \<Longrightarrow> db \<noteq> None \<Longrightarrow> db' = code_writes keccak (alloc_codes alloc) db"
proof (induction alloc arbitrary: db)
  case Nil
  then show ?case by (simp add: PutCodes_def alloc_codes_def code_writes_def)
next
  case (Cons x alloc)
  obtain addr a where x: "x = (addr, Some a)" using Cons.prems(1) by (cases x) (auto simp: PutCodes_def split: option.splits)
  let ?db = "code_writes keccak [acc_Code a] db"
  have "?db \<noteq> None" using Cons.prems(2) by (rule code_writes_open)
  moreover have "PutCodes keccak alloc ?db = Inr db'"
    using Cons.prems x by (simp add: PutCodes_def PutCode_open)
  ultimately have "db' = code_writes keccak (alloc_codes alloc) ?db" using Cons.IH by blast
  then show ?case
    using x code_writes_append [of keccak "[acc_Code a]" "alloc_codes alloc" db] by (simp add: alloc_codes_def)
qed

lemma PutSubstate_InrD:
  assumes "PutSubstate keccak block tx s db = Inr (db', s')" and "db \<noteq> None"
  shows "\<exists>v. db' = db_write (Stage1SubstateKey block tx) v (code_writes keccak (substate_codes s) db)"
proof -
  obtain db1 db2 db3 r v where 1: "PutCodes keccak (InputAlloc s) db = Inr db1" "PutCodes keccak (OutputAlloc s) db1 = Inr db2"
      "(if msg_To (ss_Message s) = None then PutCode keccak (msg_Data (ss_Message s)) db2 else Inr db2) = Inr db3"
      "or_panic ''record-replay: error putting substate'' (db_Put (Stage1SubstateKey block tx) v db3) = Inr db'"
    using assms(1) by (auto simp: PutSubstate_def elim!: go_bind_InrE)
  have db1: "db1 = code_writes keccak (alloc_codes (InputAlloc s)) db" using PutCodes_InrD [OF 1(1) assms(2)] .
  then have o1: "db1 \<noteq> None" using code_writes_open [OF assms(2)] by simp
  have db2: "db2 = code_writes keccak (alloc_codes (OutputAlloc s)) db1" using PutCodes_InrD [OF 1(2) o1] .
  then have o2: "db2 \<noteq> None" using code_writes_open [OF o1] by simp
  have db3: "db3 = code_writes keccak (substate_codes s) db"
    using 1(3) PutCode_open [OF o2, of keccak] db1 db2
    by (auto simp: substate_codes_def code_writes_append code_writes_def split: if_splits)
  then have "db3 \<noteq> None" using code_writes_open [OF assms(2)] by simp
  then show ?thesis using 1(4) db3 by (auto simp: or_panic_def db_Put_open)
qed

lemma code_writes_lookup_other: "db \<noteq> None \<Longrightarrow> db_lookup (code_writes keccak cs db) (Stage1SubstateKey b t) = db_lookup db (Stage1SubstateKey b t)"
  unfolding code_writes_def
  by (rule memdb.get_fold_other [where key = "\<lambda>c. Stage1CodeKey (keccak c)" and val = "\<lambda>c. c"]) auto

lemma code_writes_lookup:
  assumes "db \<noteq> None" and "db_lookup (code_writes keccak cs db) (Stage1CodeKey h) = Some c"
  shows "db_lookup db (Stage1CodeKey h) = Some c \<or> c \<in> set cs \<and> keccak c = h"
  using assms
proof (induction cs arbitrary: db)
  case Nil
  then show ?case by (simp add: code_writes_def)
next
  case (Cons x cs)
  have "db_lookup (code_writes keccak cs (code_writes keccak [x] db)) (Stage1CodeKey h) = Some c"
    using Cons.prems(2) code_writes_append [of keccak "[x]" cs db] by simp
  from Cons.IH [OF code_writes_open [OF Cons.prems(1)] this]
  show ?case
  proof
    assume "db_lookup (code_writes keccak [x] db) (Stage1CodeKey h) = Some c"
    then show ?thesis
      using memdb.get_put [OF Cons.prems(1), of "Stage1CodeKey (keccak x)" x "Stage1CodeKey h"]
      by (auto simp: code_writes_def split: if_splits)
  qed auto
qed

lemma put_codes_kept:
  assumes "db \<noteq> None" and "codes_ok keccak db" and "collision_free keccak (set cs \<union> codes_in db)"
  shows "codes_kept keccak db (db_write (Stage1SubstateKey b t) v (code_writes keccak cs db))"
  unfolding codes_kept_def
proof (intro allI impI)
  let ?db = "db_write (Stage1SubstateKey b t) v (code_writes keccak cs db)"
  fix h c assume g: "GetCode keccak db h = Inr c"
  have open': "code_writes keccak cs db \<noteq> None" "?db \<noteq> None"
    using code_writes_open [OF assms(1)] memdb.opened_put by blast+
  show "GetCode keccak ?db h = Inr c"
  proof (cases "h = keccak []")
    case True
    then show ?thesis using g assms(1) open'(2) by (simp add: GetCode_open)
  next
    case False
    then have l: "db_lookup db (Stage1CodeKey h) = Some c"
      using g assms(1) by (auto simp: GetCode_open split: option.splits)
    have hc: "keccak c = h" using l assms(2) by (simp add: codes_ok_def)
    have "db_lookup (code_writes keccak cs db) (Stage1CodeKey h) = Some c"
      unfolding code_writes_def
    proof (rule memdb.get_fold_kept [where key = "\<lambda>c. Stage1CodeKey (keccak c)" and val = "\<lambda>c. c"])
      fix x assume "x \<in> set (filter (\<lambda>c. c \<noteq> []) cs)" and "Stage1CodeKey (keccak x) = Stage1CodeKey h"
      then have "x \<in> insert [] (set cs \<union> codes_in db)" "keccak x = keccak c" using hc by auto
      moreover have "c \<in> insert [] (set cs \<union> codes_in db)" using l by (auto simp: codes_in_def)
      ultimately show "x = c" using assms(3) unfolding collision_free_def inj_on_def by blast
    qed (use assms(1) l in auto)
    then show ?thesis using False open' by (simp add: GetCode_open lookup_after_put)
  qed
qed

text \<open>Reading a serialised substate with more code at hand gives the same substate.\<close>

lemma account_kept:
  "codes_kept keccak db db' \<Longrightarrow> SubstateAccount_SetRLP keccak db r = Inr a \<Longrightarrow> SubstateAccount_SetRLP keccak db' r = Inr a"
  by (auto simp: SubstateAccount_SetRLP_def codes_kept_def elim!: go_bind_InrE)

lemma go_fold_mono:
  assumes "go_fold f xs s = Inr s'" and "\<And>x s s'. f x s = Inr s' \<Longrightarrow> g x s = Inr s'"
  shows "go_fold g xs s = Inr s'"
  using assms(1)
proof (induction xs arbitrary: s)
  case (Cons x xs)
  then obtain t where "f x s = Inr t" "go_fold f xs t = Inr s'" by (auto elim!: go_bind_InrE)
  then show ?case using assms(2) Cons.IH by simp
qed simp

lemma alloc_kept:
  assumes "codes_kept keccak db db'" and "SubstateAlloc_SetRLP keccak db r = Inr a"
  shows "SubstateAlloc_SetRLP keccak db' r = Inr a"
  using assms(2) unfolding SubstateAlloc_SetRLP_def
  by (rule go_fold_mono) (auto elim!: go_bind_InrE dest: account_kept [OF assms(1)])

lemma message_kept:
  assumes "codes_kept keccak db db'" and "SubstateMessage_SetRLP keccak db r = Inr a"
  shows "SubstateMessage_SetRLP keccak db' r = Inr a"
  using assms by (auto simp: SubstateMessage_SetRLP_def codes_kept_def elim!: go_bind_InrE split: option.splits if_splits)

lemma substate_kept:
  assumes "codes_kept keccak db db'" and "Substate_SetRLP keccak db r = Inr a"
  shows "Substate_SetRLP keccak db' r = Inr a"
  using assms(2) unfolding Substate_SetRLP_def
  by (auto elim!: go_bind_InrE dest!: alloc_kept [OF assms(1)] message_kept [OF assms(1)])

lemma GetSubstate_kept:
  assumes "codes_kept keccak db db'" and "db_Get db' (Stage1SubstateKey b t) = db_Get db (Stage1SubstateKey b t)"
    and "GetSubstate keccak db b t = Inr g"
  shows "GetSubstate keccak db' b t = Inr g"
  using assms(2,3) substate_kept [OF assms(1)] unfolding GetSubstate_def by (auto elim!: go_bind_InrE)

lemma delete_lookup:
  assumes "db \<noteq> None"
  shows "\<exists>db'. DeleteSubstate block tx db = Inr db' \<and> db' \<noteq> None \<and> \<not> HasSubstate db' block tx \<and>
    (\<forall>k. k \<noteq> Stage1SubstateKey block tx \<longrightarrow> db_Get db' k = db_Get db k)"
proof -
  obtain m where "db = Some m" using assms by blast
  then show ?thesis
    by (simp add: DeleteSubstate_def db_Delete_def or_panic_def HasSubstate_def db_Has_def mhas_def db_Get_def delete_conv')
qed

lemma codes_kept_same:
  "(\<And>h. db_Get db' (Stage1CodeKey h) = db_Get db (Stage1CodeKey h)) \<Longrightarrow> codes_kept keccak db db'"
  by (simp add: codes_kept_def GetCode_def)

lemma codes_kept_trans: "codes_kept keccak db db' \<Longrightarrow> codes_kept keccak db' db'' \<Longrightarrow> codes_kept keccak db db''"
  by (simp add: codes_kept_def)

text \<open>
  Deleting a substate, from any database: the code store is as it was, and so is every other substate, read or
  not.
\<close>

lemma GetSubstate_same:
  assumes "\<And>h. GetCode keccak db' h = GetCode keccak db h"
    and "db_Get db' (Stage1SubstateKey b t) = db_Get db (Stage1SubstateKey b t)"
  shows "GetSubstate keccak db' b t = GetSubstate keccak db b t"
proof -
  have "SubstateAccount_SetRLP keccak db' = SubstateAccount_SetRLP keccak db"
    by (intro ext) (simp add: SubstateAccount_SetRLP_def assms(1))
  moreover have "SubstateMessage_SetRLP keccak db' = SubstateMessage_SetRLP keccak db"
    by (intro ext) (simp add: SubstateMessage_SetRLP_def assms(1) cong: if_cong option.case_cong)
  ultimately have "Substate_SetRLP keccak db' = Substate_SetRLP keccak db"
    by (intro ext) (simp add: Substate_SetRLP_def SubstateAlloc_SetRLP_def)
  then show ?thesis by (simp add: GetSubstate_def assms(2))
qed

lemma DeleteSubstate_only:
  assumes "db \<noteq> None"
  shows "\<exists>db'. DeleteSubstate block tx db = Inr db' \<and> db' \<noteq> None \<and> \<not> HasSubstate db' block tx \<and>
    (codes_ok keccak db \<longrightarrow> codes_ok keccak db') \<and> (\<forall>h. GetCode keccak db' h = GetCode keccak db h) \<and>
    (\<forall>b t. (b, t) \<noteq> (block, tx) \<longrightarrow> HasSubstate db' b t = HasSubstate db b t \<and>
       GetSubstate keccak db' b t = GetSubstate keccak db b t)"
proof -
  from delete_lookup [OF assms, of block tx] obtain db' where d: "DeleteSubstate block tx db = Inr db'" "db' \<noteq> None"
    "\<not> HasSubstate db' block tx" "\<And>k. k \<noteq> Stage1SubstateKey block tx \<Longrightarrow> db_Get db' k = db_Get db k" by blast
  have code: "db_Get db' (Stage1CodeKey h) = db_Get db (Stage1CodeKey h)" for h using d(4) keys_differ(2) by blast
  have gc: "GetCode keccak db' h = GetCode keccak db h" for h by (simp add: GetCode_def code)
  have "db_lookup db' (Stage1CodeKey h) = db_lookup db (Stage1CodeKey h)" for h by (simp add: db_lookup_def code)
  then have "codes_ok keccak db \<longrightarrow> codes_ok keccak db'" by (simp add: codes_ok_def)
  moreover have sub: "db_Get db' (Stage1SubstateKey b t) = db_Get db (Stage1SubstateKey b t)" if "(b, t) \<noteq> (block, tx)" for b t
    using that by (intro d(4)) auto
  moreover have "HasSubstate db' b t = HasSubstate db b t" if "(b, t) \<noteq> (block, tx)" for b t
    using sub [OF that] d(2) assms
    by (auto simp: HasSubstate_def db_Has_def db_Get_def mhas_def split: option.splits)
  ultimately show ?thesis using d(1-3) gc GetSubstate_same [of keccak db' db] by blast
qed

text \<open>
  C23: storing and deleting substates does not touch the others. As long as every code in the
  database is stored under its own hash and no two codes at hand collide, \<open>PutSubstate\<close> keeps
  that invariant and every other substate that could be read is read with the same result
  afterwards, although codes are shared and written again. \<open>DeleteSubstate\<close>, of any substate and from any open
  database, never fails, removes that substate, keeps the invariant and every code, and leaves every other
  substate as it was, those that cannot be read included; so do the two in turn.
\<close>

theorem PutSubstate_frame:
  assumes "db \<noteq> None" and "codes_ok keccak db" and "collision_free keccak (set (substate_codes s) \<union> codes_in db)"
    and "PutSubstate keccak block tx s db = Inr (db', s')"
  shows "codes_ok keccak db' \<and>
    (\<forall>b t g. (b, t) \<noteq> (block, tx) \<longrightarrow> GetSubstate keccak db b t = Inr g \<longrightarrow> GetSubstate keccak db' b t = Inr g) \<and>
    (\<forall>d \<in> {db, db'}. \<forall>b' t'. \<exists>d'. DeleteSubstate b' t' d = Inr d' \<and> \<not> HasSubstate d' b' t' \<and> codes_ok keccak d' \<and>
      (\<forall>h. GetCode keccak d' h = GetCode keccak d h) \<and>
      (\<forall>b t. (b, t) \<noteq> (b', t') \<longrightarrow> HasSubstate d' b t = HasSubstate d b t \<and>
         GetSubstate keccak d' b t = GetSubstate keccak d b t)) \<and>
    (\<exists>db''. DeleteSubstate block tx db' = Inr db'' \<and> \<not> HasSubstate db'' block tx \<and>
      (\<forall>b t g. (b, t) \<noteq> (block, tx) \<longrightarrow> GetSubstate keccak db b t = Inr g \<longrightarrow> GetSubstate keccak db'' b t = Inr g))"
proof -
  obtain v where db': "db' = db_write (Stage1SubstateKey block tx) v (code_writes keccak (substate_codes s) db)"
    using PutSubstate_InrD [OF assms(4,1)] by blast
  let ?db1 = "code_writes keccak (substate_codes s) db"
  have open1: "?db1 \<noteq> None" using assms(1) by (rule code_writes_open)
  then have open2: "db' \<noteq> None" unfolding db' by (rule memdb.opened_put)
  have kept: "codes_kept keccak db db'" unfolding db' using assms(1-3) by (rule put_codes_kept)
  have get: "db_Get db' (Stage1SubstateKey b t) = db_Get db (Stage1SubstateKey b t)" if "(b, t) \<noteq> (block, tx)" for b t
  proof -
    have "db_lookup db' (Stage1SubstateKey b t) = db_lookup ?db1 (Stage1SubstateKey b t)"
      using memdb.get_put [OF open1, of "Stage1SubstateKey block tx" v "Stage1SubstateKey b t"] that by (auto simp: db')
    then show ?thesis
      using code_writes_lookup_other [OF assms(1)] by (simp add: db_Get_lookup [OF open2] db_Get_lookup [OF assms(1)])
  qed
  have inv: "codes_ok keccak db'"
    unfolding codes_ok_def
  proof (intro allI impI)
    fix h c assume "db_lookup db' (Stage1CodeKey h) = Some c"
    then have "db_lookup ?db1 (Stage1CodeKey h) = Some c" unfolding db' using lookup_after_put [OF open1] by simp
    from code_writes_lookup [OF assms(1) this] show "keccak c = h" using assms(2) by (auto simp: codes_ok_def)
  qed
  have others: "GetSubstate keccak db' b t = Inr g"
    if "(b, t) \<noteq> (block, tx)" "GetSubstate keccak db b t = Inr g" for b t g
    using GetSubstate_kept [OF kept get [OF that(1)] that(2)] .
  have del: "\<exists>d'. DeleteSubstate b' t' d = Inr d' \<and> \<not> HasSubstate d' b' t' \<and> codes_ok keccak d' \<and>
      (\<forall>h. GetCode keccak d' h = GetCode keccak d h) \<and>
      (\<forall>b t. (b, t) \<noteq> (b', t') \<longrightarrow> HasSubstate d' b t = HasSubstate d b t \<and>
         GetSubstate keccak d' b t = GetSubstate keccak d b t)" if "d \<in> {db, db'}" for d b' t'
    using DeleteSubstate_only [of d b' t' keccak] that assms(1,2) open2 inv by blast
  have "\<exists>db''. DeleteSubstate block tx db' = Inr db'' \<and> \<not> HasSubstate db'' block tx \<and>
      (\<forall>b t g. (b, t) \<noteq> (block, tx) \<longrightarrow> GetSubstate keccak db b t = Inr g \<longrightarrow> GetSubstate keccak db'' b t = Inr g)"
    using del [of db' block tx] others by fastforce
  with inv others del show ?thesis by blast
qed

theorem PutSubstate_frame_witness:
  "\<exists>db1 s1 db2 s2. PutSubstate sample_hash 5 0 sample_recorded db_New = Inr (db1, s1) \<and>
     PutSubstate sample_hash 5 1 sample_recorded db1 = Inr (db2, s2) \<and>
     (\<exists>g db3. GetSubstate sample_hash db1 5 0 = Inr g \<and> GetSubstate sample_hash db2 5 0 = Inr g \<and>
        DeleteSubstate 5 1 db2 = Inr db3 \<and> codes_ok sample_hash db3 \<and> \<not> HasSubstate db3 5 1 \<and>
        HasSubstate db3 5 0 \<and> GetSubstate sample_hash db3 5 0 = Inr g)"
proof -
  have size: "encoded_size sample_hash sample_recorded < uint64_max_size" using sample_recorded_size by simp
  have new: "db_New \<noteq> None" by (simp add: db_New_def)
  obtain db1 s1 g where 1: "PutSubstate sample_hash 5 0 sample_recorded db_New = Inr (db1, s1)"
    and g: "HasSubstate db1 5 0" "GetSubstate sample_hash db1 5 0 = Inr g"
    using sample_stored by blast
  then obtain v where v: "db1 = db_write (Stage1SubstateKey 5 0) v (code_writes sample_hash [[96]] db_New)"
    using PutSubstate_InrD [OF 1 new] sample_recorded_ok(3) by auto
  then have open1: "db1 \<noteq> None" using code_writes_open [OF new] memdb.opened_put by blast
  obtain db2 s2 where 2: "PutSubstate sample_hash 5 1 sample_recorded db1 = Inr (db2, s2)"
    using PutSubstate_open [OF sample_recorded_ok(1,2) size open1, of 5 1] by blast
  have look: "db_lookup db1 (Stage1CodeKey h) = Some c \<Longrightarrow> c = [96] \<and> h = 96" for h c
    unfolding v using lookup_after_put [OF code_writes_open [OF new]] code_writes_lookup [OF new, of sample_hash "[[96]]" h c]
    by (auto simp: db_New_def db_lookup_def db_Get_def sample_hash_def be_val_def)
  have ok: "codes_ok sample_hash db1" using look by (fastforce simp: codes_ok_def sample_hash_def be_val_def)
  have "codes_in db1 \<subseteq> {[96]}" using look by (auto simp: codes_in_def)
  then have cf: "collision_free sample_hash (set (substate_codes sample_recorded) \<union> codes_in db1)"
    using sample_recorded_ok(3,4) unfolding collision_free_def by (auto intro: inj_on_subset)
  note frame = PutSubstate_frame [OF open1 ok cf 2]
  have kept: "\<forall>b t g. (b, t) \<noteq> (5, 1) \<longrightarrow> GetSubstate sample_hash db1 b t = Inr g \<longrightarrow> GetSubstate sample_hash db2 b t = Inr g"
    using frame by (elim conjE)
  have "\<forall>d \<in> {db1, db2}. \<forall>b' t'. \<exists>d'. DeleteSubstate b' t' d = Inr d' \<and> \<not> HasSubstate d' b' t' \<and> codes_ok sample_hash d' \<and>
      (\<forall>h. GetCode sample_hash d' h = GetCode sample_hash d h) \<and>
      (\<forall>b t. (b, t) \<noteq> (b', t') \<longrightarrow> HasSubstate d' b t = HasSubstate d b t \<and>
         GetSubstate sample_hash d' b t = GetSubstate sample_hash d b t)"
    using frame by (elim conjE)
  from this [rule_format, of db2 5 1] obtain db3 where del: "DeleteSubstate 5 1 db2 = Inr db3" "\<not> HasSubstate db3 5 1"
      "codes_ok sample_hash db3" "\<forall>b t. (b, t) \<noteq> (5, 1) \<longrightarrow> HasSubstate db3 b t = HasSubstate db2 b t \<and>
         GetSubstate sample_hash db3 b t = GetSubstate sample_hash db2 b t"
    by auto
  have o: "(5 :: uint64, 0 :: uint64) \<noteq> (5, 1)" by simp
  then have g2: "GetSubstate sample_hash db2 5 0 = Inr g" using kept g(2) by blast
  then have "HasSubstate db2 5 0"
    by (auto simp: HasSubstate_def GetSubstate_def or_panic_def db_Has_def db_Get_def mhas_def split: option.splits)
  then have "HasSubstate db3 5 0" "GetSubstate sample_hash db3 5 0 = Inr g" using del(4) g2 o by simp_all
  then show ?thesis using 1 2 g(2) g2 del(1-3) by blast
qed

section \<open>The substates of a block\<close>

lemma DecodeStage1SubstateKey_InrD:
  assumes "DecodeStage1SubstateKey key = Inr (b, tx)"
  shows "key = Stage1SubstateKey b tx"
proof -
  let ?r = "drop 2 key"
  have key: "length key = 18" "take 2 key = stage1SubstatePrefix" "b = of_nat (be_val (take 8 ?r))" "tx = of_nat (be_val (take 8 (drop 8 ?r)))"
    using assms by (auto simp: DecodeStage1SubstateKey_def stage1SubstatePrefix_def Let_def numeral_2_eq_2 split: if_splits)
  have w: "be_bytes 8 (unat (of_nat (be_val bs) :: uint64)) = bs" if "length bs = 8" for bs
    using be_bytes_be_val [of bs] unat_of_be_val [where 'a = 64, of bs] that by simp
  have "be_bytes 8 (unat b) = take 8 ?r" "be_bytes 8 (unat tx) = take 8 (drop 8 ?r)"
    using key(1) w by (simp_all add: key(3,4))
  moreover have "key = take 2 key @ take 8 ?r @ take 8 (drop 8 ?r)"
  proof -
    have "key = take 2 key @ take 8 ?r @ drop 8 ?r" by (metis append_take_drop_id)
    moreover have "take 8 (drop 8 ?r) = drop 8 ?r" using key(1) by simp
    ultimately show ?thesis by simp
  qed
  ultimately show ?thesis unfolding Stage1SubstateKey_def using key(2) by simp
qed

lemma in_fst_image: "k \<in> fst ` S \<longleftrightarrow> (\<exists>v. (k, v) \<in> S)"
  by force

lemma bytes_less_prefix: "\<not> bytes_less (p @ x) p"
  by (induction p) auto

lemma bytes_less_prefix': "take (length p) k = p \<Longrightarrow> \<not> bytes_less k p"
  using bytes_less_prefix [of p "drop (length p) k"] by (metis append_take_drop_id)

lemma iterator_entries:
  assumes "gomap_ok m"
  shows "(k, v) \<in> set (db_NewIterator (Some m) p []) \<longleftrightarrow> map_of m k = Some v \<and> take (length p) k = p"
    and "distinct (map fst (db_NewIterator (Some m) p []))"
proof -
  have "k \<in> set (mkeys m) \<and> v = mget [] m k \<longleftrightarrow> map_of m k = Some v"
    using map_of_mget [of m k "[]"] unfolding mhas_iff [symmetric] by (auto simp: mhas_def mget_def split: option.splits)
  then show "(k, v) \<in> set (db_NewIterator (Some m) p []) \<longleftrightarrow> map_of m k = Some v \<and> take (length p) k = p"
    unfolding db_NewIterator_def Let_def by (auto dest: bytes_less_prefix')
  show "distinct (map fst (db_NewIterator (Some m) p []))"
    using assms by (simp add: db_NewIterator_def Let_def gomap_ok_def comp_def)
qed

definition block_step where
  "block_step keccak db block = (\<lambda>(key, v) txSubstate.
         case DecodeStage1SubstateKey key of
           Inl err \<Rightarrow> Inl (ExplicitPanic ''record-replay: invalid substate key found'')
         | Inr (b, tx) \<Rightarrow>
             if block \<noteq> b then Inl (ExplicitPanic ''record-replay: GetBlockSubstates iterated another block'')
             else go_bind (or_panic ''error decoding substateRLP'' (decode_substate v)) (\<lambda>substateRLP.
                  go_bind (Substate_SetRLP keccak db substateRLP) (\<lambda>substate.
                    Inr (mput tx substate txSubstate))))"

lemma block_step_InrD:
  assumes "block_step keccak db block (key, v) m = Inr m'" and "db_Get db key = Inr v"
  shows "\<exists>tx g. key = Stage1SubstateKey block tx \<and> GetSubstate keccak db block tx = Inr g \<and> m' = mput tx g m"
proof -
  obtain tx where "DecodeStage1SubstateKey key = Inr (block, tx)"
    using assms(1) by (auto simp: block_step_def split: sum.splits prod.splits if_splits)
  moreover from this have "key = Stage1SubstateKey block tx" by (rule DecodeStage1SubstateKey_InrD)
  ultimately show ?thesis
    using assms by (auto simp: block_step_def GetSubstate_def or_panic_def elim!: go_bind_InrE split: sum.splits)
qed

lemma block_fold:
  assumes "go_fold (block_step keccak db block) xs m = Inr m'" and "\<And>k v. (k, v) \<in> set xs \<Longrightarrow> db_Get db k = Inr v"
    and "distinct (map fst xs)"
  shows "if Stage1SubstateKey block tx \<in> fst ` set xs
    then \<exists>g. map_of m' tx = Some g \<and> GetSubstate keccak db block tx = Inr g else map_of m' tx = map_of m tx"
  using assms
proof (induction xs arbitrary: m)
  case (Cons x xs)
  obtain k v where x: "x = (k, v)" by (cases x)
  from Cons.prems(1) obtain m1 where 1: "block_step keccak db block (k, v) m = Inr m1"
      "go_fold (block_step keccak db block) xs m1 = Inr m'" using x by (auto elim!: go_bind_InrE)
  have "db_Get db k = Inr v" using Cons.prems(2) x by simp
  from block_step_InrD [OF 1(1) this] obtain tx' g where k: "k = Stage1SubstateKey block tx'"
      "GetSubstate keccak db block tx' = Inr g" "m1 = mput tx' g m" by blast
  have IH: "if Stage1SubstateKey block tx \<in> fst ` set xs
      then \<exists>g. map_of m' tx = Some g \<and> GetSubstate keccak db block tx = Inr g else map_of m' tx = map_of m1 tx"
    using Cons.IH [OF 1(2)] Cons.prems(2,3) by simp
  show ?case
  proof (cases "tx = tx'")
    case True
    have "Stage1SubstateKey block tx \<notin> fst ` set xs" using Cons.prems(3) x k(1) True by simp
    then have "map_of m' tx = map_of m1 tx" using IH by simp
    then show ?thesis using x k True by (simp add: update_conv')
  next
    case False
    then show ?thesis using IH x k by (simp add: update_conv')
  qed
qed simp

lemma block_step_total:
  assumes "GetSubstate keccak db block tx = Inr g" and "db_Get db (Stage1SubstateKey block tx) = Inr v"
  shows "block_step keccak db block (Stage1SubstateKey block tx, v) m = Inr (mput tx g m)"
  using assms by (auto simp: block_step_def GetSubstate_def or_panic_def elim!: go_bind_InrE split: sum.splits)

lemma block_fold_returns:
  assumes "\<And>k v. (k, v) \<in> set xs \<Longrightarrow> db_Get db k = Inr v"
  shows "(\<exists>m'. go_fold (block_step keccak db block) xs m = Inr m') \<longleftrightarrow>
    (\<forall>k \<in> fst ` set xs. \<exists>tx g. k = Stage1SubstateKey block tx \<and> GetSubstate keccak db block tx = Inr g)"
  using assms
proof (induction xs arbitrary: m)
  case (Cons x xs)
  obtain k v where x: "x = (k, v)" by (cases x)
  have get: "db_Get db k = Inr v" using Cons.prems x by simp
  have IH: "(\<exists>m'. go_fold (block_step keccak db block) xs m = Inr m') \<longleftrightarrow>
    (\<forall>k \<in> fst ` set xs. \<exists>tx g. k = Stage1SubstateKey block tx \<and> GetSubstate keccak db block tx = Inr g)" for m
    using Cons.IH Cons.prems by simp
  have "(\<exists>m1. block_step keccak db block (k, v) m = Inr m1) \<longleftrightarrow>
      (\<exists>tx g. k = Stage1SubstateKey block tx \<and> GetSubstate keccak db block tx = Inr g)"
    using block_step_InrD [OF _ get] block_step_total get by blast
  then show ?case using IH by (auto simp: x go_bind_Inr_iff)
qed simp

text \<open>
  C28: the substates of a block. \<open>GetBlockSubstates\<close> returns exactly when every key of the database that starts like a
  substate key of the block is one, and each of these substates can be read by \<open>GetSubstate\<close>; the map it then returns
  has an entry for exactly the transactions of that block that are in the database, each the substate
  \<open>GetSubstate\<close> returns for it, in whatever order the iteration meets them and although code
  and other blocks share the key space. Substate keys decode to the block and transaction they
  were made from and to nothing else, negative transaction numbers included, and no code key
  is a substate key.
\<close>

theorem GetBlockSubstates_exact:
  assumes "gomap_ok m"
  shows "((\<exists>txs. GetBlockSubstates keccak (Some m) block = Inr txs) \<longleftrightarrow>
      (\<forall>k. mhas m k \<and> take (length (Stage1SubstateBlockPrefix block)) k = Stage1SubstateBlockPrefix block \<longrightarrow>
         (\<exists>tx g. k = Stage1SubstateKey block tx \<and> GetSubstate keccak (Some m) block tx = Inr g))) \<and>
    (\<forall>txs tx. GetBlockSubstates keccak (Some m) block = Inr txs \<longrightarrow>
       (if HasSubstate (Some m) block tx
        then \<exists>g. map_of txs tx = Some g \<and> GetSubstate keccak (Some m) block tx = Inr g else map_of txs tx = None)) \<and>
    (DecodeStage1SubstateKey key = Inr (b, t) \<longleftrightarrow> key = Stage1SubstateKey b t) \<and>
    (DecodeStage1CodeKey key = Inr h \<longleftrightarrow> key = Stage1CodeKey h) \<and> Stage1CodeKey h \<noteq> Stage1SubstateKey b t"
proof (intro conjI allI impI)
  let ?it = "db_NewIterator (Some m) (Stage1SubstateBlockPrefix block) []"
  have gb: "GetBlockSubstates keccak (Some m) block = go_fold (block_step keccak (Some m) block) ?it []"
    by (simp add: GetBlockSubstates_def block_step_def)
  have mem: "(k, v) \<in> set ?it \<Longrightarrow> db_Get (Some m) k = Inr v" for k v
    using iterator_entries(1) [OF assms] by (auto simp: db_Get_def)
  have keys: "k \<in> fst ` set ?it \<longleftrightarrow>
      mhas m k \<and> take (length (Stage1SubstateBlockPrefix block)) k = Stage1SubstateBlockPrefix block" for k
    unfolding in_fst_image iterator_entries(1) [OF assms] by (auto simp: mhas_def split: option.splits)
  show "(\<exists>txs. GetBlockSubstates keccak (Some m) block = Inr txs) \<longleftrightarrow>
      (\<forall>k. mhas m k \<and> take (length (Stage1SubstateBlockPrefix block)) k = Stage1SubstateBlockPrefix block \<longrightarrow>
         (\<exists>tx g. k = Stage1SubstateKey block tx \<and> GetSubstate keccak (Some m) block tx = Inr g))"
    unfolding gb using block_fold_returns [of ?it "Some m" keccak block "[]", OF mem] unfolding Ball_def keys .
  fix txs tx
  assume "GetBlockSubstates keccak (Some m) block = Inr txs"
  then have fold: "go_fold (block_step keccak (Some m) block) ?it [] = Inr txs" by (simp only: gb)
  have "Stage1SubstateKey block tx \<in> fst ` set ?it \<longleftrightarrow> HasSubstate (Some m) block tx"
    unfolding keys by (simp add: HasSubstate_def db_Has_def Stage1SubstateBlockPrefix_def Stage1SubstateKey_def)
  then show "if HasSubstate (Some m) block tx
      then \<exists>g. map_of txs tx = Some g \<and> GetSubstate keccak (Some m) block tx = Inr g else map_of txs tx = None"
    using block_fold [OF fold mem iterator_entries(2) [OF assms], of tx] by simp
next
  show "DecodeStage1SubstateKey key = Inr (b, t) \<longleftrightarrow> key = Stage1SubstateKey b t"
    using DecodeStage1SubstateKey_InrD by auto
  show "DecodeStage1CodeKey key = Inr h \<longleftrightarrow> key = Stage1CodeKey h"
  proof
    assume d: "DecodeStage1CodeKey key = Inr h"
    then have key: "length key = 34" "take 2 key = stage1CodePrefix" "h = BytesToHash (drop 2 key)"
      by (auto simp: DecodeStage1CodeKey_def stage1CodePrefix_def Let_def numeral_2_eq_2 split: if_splits)
    then have "Hash_Bytes h = drop 2 key" by (simp add: SetBytes_id)
    then show "key = Stage1CodeKey h" using key(2) by (simp add: Stage1CodeKey_def flip: key(2))
  qed (simp add: DecodeStage1CodeKey_def Stage1CodeKey_def stage1CodePrefix_def Let_def)
  show "Stage1CodeKey h \<noteq> Stage1SubstateKey b t" by simp
qed

theorem GetBlockSubstates_exact_witness:
  "\<exists>db s' txs g. PutSubstate sample_hash 5 0 sample_recorded db_New = Inr (db, s') \<and>
     GetBlockSubstates sample_hash db 5 = Inr txs \<and> map_of txs 0 = Some g \<and>
     substate_view g = substate_view sample_recorded \<and> map_of txs 1 = None"
proof -
  obtain db s' g where p: "PutSubstate sample_hash 5 0 sample_recorded db_New = Inr (db, s')" "HasSubstate db 5 0"
    "GetSubstate sample_hash db 5 0 = Inr g" "substate_view g = substate_view sample_recorded" using sample_stored by blast
  have new: "db_New \<noteq> None" "db_New = Some []" by (simp_all add: db_New_def)
  obtain v where "db = db_write (Stage1SubstateKey 5 0) v (code_writes sample_hash [[96]] db_New)"
    using PutSubstate_InrD [OF p(1) new(1)] sample_recorded_ok(3) by auto
  then have db: "db = Some [(Stage1CodeKey 96, [96]), (Stage1SubstateKey 5 0, v)]"
    by (simp add: code_writes_def db_write_def db_Put_def new(2) sample_hash_def be_val_def keys_differ)
  let ?m = "[(Stage1CodeKey 96, [96]), (Stage1SubstateKey 5 0, v)]"
  have ok: "gomap_ok ?m" by (simp add: gomap_ok_def keys_differ)
  have "take (length (Stage1SubstateBlockPrefix 5)) (Stage1CodeKey 96) \<noteq> Stage1SubstateBlockPrefix 5"
    by (simp add: Stage1CodeKey_def Stage1SubstateBlockPrefix_def stage1CodePrefix_def stage1SubstatePrefix_def)
  then have "mhas ?m k \<and> take (length (Stage1SubstateBlockPrefix 5)) k = Stage1SubstateBlockPrefix 5 \<longrightarrow>
      (\<exists>tx g. k = Stage1SubstateKey 5 tx \<and> GetSubstate sample_hash (Some ?m) 5 tx = Inr g)" for k
    using p(3) db by (auto simp: mhas_iff)
  then obtain txs where t: "GetBlockSubstates sample_hash (Some ?m) 5 = Inr txs"
    using GetBlockSubstates_exact [OF ok, of sample_hash 5] by blast
  have "\<not> HasSubstate (Some ?m) 5 1"
    by (auto simp: HasSubstate_def db_Has_def mhas_iff keys_differ)
  moreover have "HasSubstate (Some ?m) 5 0" using p(2) db by simp
  ultimately have "map_of txs 0 = Some g" "map_of txs 1 = None"
    using GetBlockSubstates_exact [OF ok, of sample_hash 5] t p(3) db by (metis sum.inject(2))+
  then show ?thesis using p(1,4) t db by blast
qed

end
