(* ===== verification/State_DB.thy ===== *)
theory State_DB
  imports Access_List Substate_DB
begin

text \<open>
  The state a transaction runs on: \<open>core/state/statedb.go\<close>, \<open>state_object.go\<close> and \<open>journal.go\<close>, as the
  recorder and the replayer use them (no snapshot tree and no prefetcher: both are nil in a state
  opened by \<open>MakeOffTheChainStateDB\<close>). What lies below, the account trie, the storage tries and the
  code store, is read through a \<open>backend\<close>: functions from keys to bytes or to an error. State
  objects are values in the map of live objects; no operation keeps a pointer to one across another
  operation. A nil slice of code is \<open>None\<close>. Counters and timers for metrics are left out, and so is
  the memoised storage trie of an object, which is a function of its root.
\<close>

section \<open>State objects\<close>

type_synonym Trie = "bytes \<Rightarrow> string + bytes"

record backend =
  bk_Keccak256 :: "bytes \<Rightarrow> Hash"
  bk_TryGet :: Trie
  bk_OpenStorageTrie :: "Hash \<Rightarrow> Hash \<Rightarrow> string + Trie"
  bk_ContractCode :: "Hash \<Rightarrow> Hash \<Rightarrow> string + bytes"

record StateAccount =
  sa_Nonce :: uint64
  sa_Balance :: int
  sa_Root :: Hash
  sa_CodeHash :: bytes

record stateObject =
  so_address :: Address
  so_addrHash :: Hash
  so_data :: StateAccount
  so_dbErr :: "string option"
  so_code :: "bytes option"
  originStorage :: "(Hash, Hash) gomap"
  pendingStorage :: "(Hash, Hash) gomap"
  dirtyStorage :: "(Hash, Hash) gomap"
  fakeStorage :: "(Hash, Hash) gomap option"
  dirtyCode :: bool
  suicided :: bool
  so_deleted :: bool
  ResearchTouched :: "(Hash, unit) gomap"

definition emptyRoot :: Hash where
  "emptyRoot = 0x56e81f171bcc55a6ff8345e692c0f86e5b48e01b996cadc001622fb5e363b421"

definition emptyCodeHash :: "backend \<Rightarrow> bytes" where
  "emptyCodeHash db = Hash_Bytes (bk_Keccak256 db [])"

definition so_empty :: "backend \<Rightarrow> stateObject \<Rightarrow> bool" where
  "so_empty db s \<longleftrightarrow>
     sa_Nonce (so_data s) = 0 \<and> sa_Balance (so_data s) = 0 \<and> sa_CodeHash (so_data s) = emptyCodeHash db"

text \<open>
  \<open>newObject\<close> fills in the zero values of an account: a nil balance is \<open>0\<close> here, a nil code hash is
  the empty slice.
\<close>

definition newObject :: "backend \<Rightarrow> Address \<Rightarrow> StateAccount \<Rightarrow> bool \<Rightarrow> stateObject" where
  "newObject db address data nilCodeHash =
     (let data = (if nilCodeHash then data\<lparr>sa_CodeHash := emptyCodeHash db\<rparr> else data);
          data = (if sa_Root data = 0 then data\<lparr>sa_Root := emptyRoot\<rparr> else data)
      in \<lparr>so_address = address, so_addrHash = bk_Keccak256 db (Address_Bytes address), so_data = data,
          so_dbErr = None, so_code = None, originStorage = [], pendingStorage = [], dirtyStorage = [],
          fakeStorage = None, dirtyCode = False, suicided = False, so_deleted = False, ResearchTouched = []\<rparr>)"

definition so_setError :: "string \<Rightarrow> stateObject \<Rightarrow> stateObject" where
  "so_setError err s = (if so_dbErr s = None then s\<lparr>so_dbErr := Some err\<rparr> else s)"

text \<open>Opening a trie at the zero root or the empty root gives the empty trie.\<close>

definition open_trie :: "backend \<Rightarrow> Hash \<Rightarrow> Hash \<Rightarrow> string + Trie" where
  "open_trie db addrHash root =
     (if root = 0 \<or> root = emptyRoot then Inr (\<lambda>_. Inr []) else bk_OpenStorageTrie db addrHash root)"

definition getTrie :: "backend \<Rightarrow> stateObject \<Rightarrow> Trie \<times> stateObject" where
  "getTrie db s =
     (case open_trie db (so_addrHash s) (sa_Root (so_data s)) of
        Inr tr \<Rightarrow> (tr, s)
      | Inl err \<Rightarrow> (\<lambda>_. Inr [], so_setError (''can't create storage trie: '' @ err) s))"

definition so_GetCommittedState :: "backend \<Rightarrow> Hash \<Rightarrow> stateObject \<Rightarrow> Hash \<times> stateObject" where
  "so_GetCommittedState db key s =
     (case fakeStorage s of
        Some fake \<Rightarrow> (mget 0 fake key, s)
      | None \<Rightarrow>
          (case map_of (pendingStorage s) key of
             Some v \<Rightarrow> (v, s)
           | None \<Rightarrow>
               (case map_of (originStorage s) key of
                  Some v \<Rightarrow> (v, s)
                | None \<Rightarrow>
                    let (tr, s) = getTrie db s
                    in case tr (Hash_Bytes key) of
                         Inl err \<Rightarrow> (0, so_setError err s)
                       | Inr enc \<Rightarrow>
                           let (v, s) =
                             (if length enc > 0
                              then case rlp_Split enc of
                                     Inl err \<Rightarrow> (BytesToHash [], so_setError ''rlp'' s)
                                   | Inr (_, content, _) \<Rightarrow> (BytesToHash content, s)
                              else (0, s))
                           in (v, s\<lparr>originStorage := mput key v (originStorage s)\<rparr>))))"

definition so_GetState :: "backend \<Rightarrow> Hash \<Rightarrow> stateObject \<Rightarrow> Hash \<times> stateObject" where
  "so_GetState db key s =
     (let s = (if mhas (ResearchTouched s) key then s else s\<lparr>ResearchTouched := mput key () (ResearchTouched s)\<rparr>)
      in case fakeStorage s of
           Some fake \<Rightarrow> (mget 0 fake key, s)
         | None \<Rightarrow>
             (case map_of (dirtyStorage s) key of
                Some v \<Rightarrow> (v, s)
              | None \<Rightarrow> so_GetCommittedState db key s))"

definition so_setState :: "Hash \<Rightarrow> Hash \<Rightarrow> stateObject \<Rightarrow> stateObject" where
  "so_setState key v s = s\<lparr>dirtyStorage := mput key v (dirtyStorage s)\<rparr>"

definition so_SetStorage :: "(Hash, Hash) gomap \<Rightarrow> stateObject \<Rightarrow> stateObject" where
  "so_SetStorage st s =
     s\<lparr>fakeStorage := Some (fold (\<lambda>(k, v). mput k v) st (case fakeStorage s of None \<Rightarrow> [] | Some f \<Rightarrow> f))\<rparr>"

definition so_finalise :: "stateObject \<Rightarrow> stateObject" where
  "so_finalise s =
     s\<lparr>pendingStorage := fold (\<lambda>(k, v). mput k v) (dirtyStorage s) (pendingStorage s),
       dirtyStorage := [], ResearchTouched := []\<rparr>"

definition so_setBalance :: "int \<Rightarrow> stateObject \<Rightarrow> stateObject" where
  "so_setBalance amount s = s\<lparr>so_data := (so_data s)\<lparr>sa_Balance := amount\<rparr>\<rparr>"

definition so_setNonce :: "uint64 \<Rightarrow> stateObject \<Rightarrow> stateObject" where
  "so_setNonce nonce s = s\<lparr>so_data := (so_data s)\<lparr>sa_Nonce := nonce\<rparr>\<rparr>"

definition so_setCode :: "Hash \<Rightarrow> bytes option \<Rightarrow> stateObject \<Rightarrow> stateObject" where
  "so_setCode codeHash code s =
     s\<lparr>so_code := code, so_data := (so_data s)\<lparr>sa_CodeHash := Hash_Bytes codeHash\<rparr>, dirtyCode := True\<rparr>"

definition so_Code :: "backend \<Rightarrow> stateObject \<Rightarrow> bytes option \<times> stateObject" where
  "so_Code db s =
     (case so_code s of
        Some code \<Rightarrow> (Some code, s)
      | None \<Rightarrow>
          if sa_CodeHash (so_data s) = emptyCodeHash db then (None, s)
          else case bk_ContractCode db (so_addrHash s) (BytesToHash (sa_CodeHash (so_data s))) of
                 Inl err \<Rightarrow> (None, so_setError (''can't load code hash: '' @ err) s)
               | Inr code \<Rightarrow> (Some code, s\<lparr>so_code := Some code\<rparr>))"

definition so_CodeSize :: "backend \<Rightarrow> stateObject \<Rightarrow> nat \<times> stateObject" where
  "so_CodeSize db s =
     (case so_code s of
        Some code \<Rightarrow> (length code, s)
      | None \<Rightarrow>
          if sa_CodeHash (so_data s) = emptyCodeHash db then (0, s)
          else case bk_ContractCode db (so_addrHash s) (BytesToHash (sa_CodeHash (so_data s))) of
                 Inl err \<Rightarrow> (0, so_setError (''can't load code size: '' @ err) s)
               | Inr code \<Rightarrow> (length code, s))"

section \<open>The journal\<close>

datatype journalEntry =
    createObjectChange Address
  | resetObjectChange stateObject bool
  | suicideChange Address bool int
  | balanceChange Address int
  | nonceChange Address uint64
  | storageChange Address Hash Hash
  | codeChange Address "bytes option" bytes
  | refundChange uint64
  | addLogChange Hash
  | addPreimageChange Hash
  | touchChange Address
  | accessListAddAccountChange Address
  | accessListAddSlotChange Address Hash

fun dirtied :: "journalEntry \<Rightarrow> Address option" where
  "dirtied (createObjectChange a) = Some a"
| "dirtied (suicideChange a _ _) = Some a"
| "dirtied (touchChange a) = Some a"
| "dirtied (balanceChange a _) = Some a"
| "dirtied (nonceChange a _) = Some a"
| "dirtied (codeChange a _ _) = Some a"
| "dirtied (storageChange a _ _) = Some a"
| "dirtied _ = None"

record journal =
  j_entries :: "journalEntry list"
  dirties :: "(Address, int) gomap"

definition newJournal :: journal where
  "newJournal = \<lparr>j_entries = [], dirties = []\<rparr>"

definition j_append :: "journalEntry \<Rightarrow> journal \<Rightarrow> journal" where
  "j_append e j =
     j\<lparr>j_entries := j_entries j @ [e],
       dirties := (case dirtied e of None \<Rightarrow> dirties j | Some a \<Rightarrow> mincr a (dirties j))\<rparr>"

definition j_dirty :: "Address \<Rightarrow> journal \<Rightarrow> journal" where
  "j_dirty a j = j\<lparr>dirties := mincr a (dirties j)\<rparr>"

text \<open>Dropping the dirty mark of a reverted entry.\<close>

definition undirty :: "journalEntry \<Rightarrow> journal \<Rightarrow> journal" where
  "undirty e j =
     (case dirtied e of
        None \<Rightarrow> j
      | Some a \<Rightarrow>
          let n = mget 0 (dirties j) a - 1
          in j\<lparr>dirties := (if n = 0 then AList.delete a (dirties j) else mput a n (dirties j))\<rparr>)"

section \<open>The state\<close>

record StateDB =
  sd_db :: backend
  stateObjects :: "(Address, stateObject) gomap"
  stateObjectsPending :: "(Address, unit) gomap"
  stateObjectsDirty :: "(Address, unit) gomap"
  sd_dbErr :: "string option"
  sd_refund :: uint64
  sd_thash :: Hash
  sd_txIndex :: nat
  sd_logs :: "(Hash, Log list) gomap"
  sd_logSize :: uint64
  preimages :: "(Hash, bytes) gomap"
  sd_accessList :: accessList
  sd_journal :: journal
  validRevisions :: "(nat \<times> nat) list"
  nextRevisionId :: nat
  ResearchPreAlloc :: SubstateAlloc
  ResearchPostAlloc :: SubstateAlloc
  ResearchBlockHashes :: "(uint64, Hash) gomap"

definition state_New :: "backend \<Rightarrow> StateDB" where
  "state_New db =
     \<lparr>sd_db = db, stateObjects = [], stateObjectsPending = [], stateObjectsDirty = [], sd_dbErr = None,
      sd_refund = 0, sd_thash = 0, sd_txIndex = 0, sd_logs = [], sd_logSize = 0, preimages = [],
      sd_accessList = newAccessList, sd_journal = newJournal, validRevisions = [], nextRevisionId = 0,
      ResearchPreAlloc = [], ResearchPostAlloc = [], ResearchBlockHashes = []\<rparr>"

definition sd_setError :: "string \<Rightarrow> StateDB \<Rightarrow> StateDB" where
  "sd_setError err s = (if sd_dbErr s = None then s\<lparr>sd_dbErr := Some err\<rparr> else s)"

definition sd_append :: "journalEntry \<Rightarrow> StateDB \<Rightarrow> StateDB" where
  "sd_append e s = s\<lparr>sd_journal := j_append e (sd_journal s)\<rparr>"

definition setStateObject :: "stateObject \<Rightarrow> StateDB \<Rightarrow> StateDB" where
  "setStateObject obj s = s\<lparr>stateObjects := mput (so_address obj) obj (stateObjects s)\<rparr>"

text \<open>\<open>types.StateAccount\<close> as it is stored in the account trie.\<close>

definition stateAccountT :: rlp_type where
  "stateAccountT = StructT [UintT 64, BigIntT, hashT, BytesT]"

definition val_stateAccount :: "rlp_val \<Rightarrow> StateAccount option" where
  "val_stateAccount v =
     (case v of
        ListV [UintV nonce, BigV balance, root, BytesV codeHash] \<Rightarrow>
          map_option (\<lambda>root. \<lparr>sa_Nonce = nonce, sa_Balance = balance, sa_Root = root, sa_CodeHash = codeHash\<rparr>)
            (val_hash root)
      | _ \<Rightarrow> None)"

definition getDeletedStateObject :: "Address \<Rightarrow> StateDB \<Rightarrow> stateObject option \<times> StateDB" where
  "getDeletedStateObject addr s =
     (case map_of (stateObjects s) addr of
        Some obj \<Rightarrow> (Some obj, s)
      | None \<Rightarrow>
          (case bk_TryGet (sd_db s) (Address_Bytes addr) of
             Inl err \<Rightarrow> (None, sd_setError (''getDeleteStateObject error: '' @ err) s)
           | Inr enc \<Rightarrow>
               if length enc = 0 then (None, s)
               else case decode_as stateAccountT val_stateAccount enc of
                      Inl err \<Rightarrow> (None, s)
                    | Inr data \<Rightarrow>
                        let obj = newObject (sd_db s) addr data False
                        in (Some obj, setStateObject obj s)))"

text \<open>
  The accounts a transaction reads are recorded the first time they are looked up, before they can
  be changed: with their contents, or as nil when they do not exist.
\<close>

definition record_pre :: "Address \<Rightarrow> stateObject option \<Rightarrow> StateDB \<Rightarrow> stateObject option \<times> StateDB" where
  "record_pre addr found s =
     (if mhas (ResearchPreAlloc s) addr then (found, s)
      else case found of
             None \<Rightarrow> (None, s\<lparr>ResearchPreAlloc := mput addr None (ResearchPreAlloc s)\<rparr>)
           | Some obj \<Rightarrow>
               let (code, obj) = so_Code (sd_db s) obj
               in (Some obj,
                   (setStateObject obj s)\<lparr>ResearchPreAlloc :=
                      mput addr (Some (NewSubstateAccount (sa_Nonce (so_data obj)) (sa_Balance (so_data obj))
                                         (case code of None \<Rightarrow> [] | Some c \<Rightarrow> c)))
                        (ResearchPreAlloc s)\<rparr>))"

definition getStateObject :: "Address \<Rightarrow> StateDB \<Rightarrow> stateObject option \<times> StateDB" where
  "getStateObject addr s =
     (let (found, s) = getDeletedStateObject addr s
      in record_pre addr (case found of Some obj \<Rightarrow> if so_deleted obj then None else Some obj | None \<Rightarrow> None) s)"

definition zeroAccount :: StateAccount where
  "zeroAccount = \<lparr>sa_Nonce = 0, sa_Balance = 0, sa_Root = 0, sa_CodeHash = []\<rparr>"

definition createObject :: "Address \<Rightarrow> StateDB \<Rightarrow> stateObject \<times> stateObject option \<times> StateDB" where
  "createObject addr s =
     (let (prev, s) = getDeletedStateObject addr s;
          newobj = newObject (sd_db s) addr zeroAccount True;
          s = sd_append (case prev of None \<Rightarrow> createObjectChange addr | Some p \<Rightarrow> resetObjectChange p False) s;
          s = setStateObject newobj s
      in (newobj, (case prev of Some p \<Rightarrow> if so_deleted p then None else Some p | None \<Rightarrow> None), s))"

definition GetOrNewStateObject :: "Address \<Rightarrow> StateDB \<Rightarrow> stateObject \<times> StateDB" where
  "GetOrNewStateObject addr s =
     (case getStateObject addr s of
        (Some obj, s) \<Rightarrow> (obj, s)
      | (None, s) \<Rightarrow> (case createObject addr s of (obj, _, s) \<Rightarrow> (obj, s)))"

section \<open>Reading\<close>

definition Exist :: "Address \<Rightarrow> StateDB \<Rightarrow> bool \<times> StateDB" where
  "Exist addr s = (case getStateObject addr s of (obj, s) \<Rightarrow> (obj \<noteq> None, s))"

definition Empty :: "Address \<Rightarrow> StateDB \<Rightarrow> bool \<times> StateDB" where
  "Empty addr s =
     (case getStateObject addr s of (obj, s) \<Rightarrow>
        (case obj of None \<Rightarrow> True | Some so \<Rightarrow> so_empty (sd_db s) so, s))"

definition GetBalance :: "Address \<Rightarrow> StateDB \<Rightarrow> int \<times> StateDB" where
  "GetBalance addr s =
     (case getStateObject addr s of (obj, s) \<Rightarrow> (case obj of None \<Rightarrow> 0 | Some so \<Rightarrow> sa_Balance (so_data so), s))"

definition GetNonce :: "Address \<Rightarrow> StateDB \<Rightarrow> uint64 \<times> StateDB" where
  "GetNonce addr s =
     (case getStateObject addr s of (obj, s) \<Rightarrow> (case obj of None \<Rightarrow> 0 | Some so \<Rightarrow> sa_Nonce (so_data so), s))"

text \<open>Reading through an object that may cache what it reads.\<close>

definition read_object :: "'a \<Rightarrow> (stateObject \<Rightarrow> 'a \<times> stateObject) \<Rightarrow> Address \<Rightarrow> StateDB \<Rightarrow> 'a \<times> StateDB" where
  "read_object z f addr s =
     (case getStateObject addr s of
        (None, s) \<Rightarrow> (z, s)
      | (Some obj, s) \<Rightarrow> (case f obj of (v, obj) \<Rightarrow> (v, setStateObject obj s)))"

definition sd_GetCode :: "Address \<Rightarrow> StateDB \<Rightarrow> bytes option \<times> StateDB" where
  "sd_GetCode addr s = read_object None (so_Code (sd_db s)) addr s"

definition GetCodeSize :: "Address \<Rightarrow> StateDB \<Rightarrow> nat \<times> StateDB" where
  "GetCodeSize addr s = read_object 0 (so_CodeSize (sd_db s)) addr s"

definition GetCodeHash :: "Address \<Rightarrow> StateDB \<Rightarrow> Hash \<times> StateDB" where
  "GetCodeHash addr s =
     (case getStateObject addr s of (obj, s) \<Rightarrow>
        (case obj of None \<Rightarrow> 0 | Some so \<Rightarrow> BytesToHash (sa_CodeHash (so_data so)), s))"

definition GetState :: "Address \<Rightarrow> Hash \<Rightarrow> StateDB \<Rightarrow> Hash \<times> StateDB" where
  "GetState addr key s = read_object 0 (so_GetState (sd_db s) key) addr s"

definition GetCommittedState :: "Address \<Rightarrow> Hash \<Rightarrow> StateDB \<Rightarrow> Hash \<times> StateDB" where
  "GetCommittedState addr key s = read_object 0 (so_GetCommittedState (sd_db s) key) addr s"

definition HasSuicided :: "Address \<Rightarrow> StateDB \<Rightarrow> bool \<times> StateDB" where
  "HasSuicided addr s =
     (case getStateObject addr s of (obj, s) \<Rightarrow> (case obj of None \<Rightarrow> False | Some so \<Rightarrow> suicided so, s))"

section \<open>Writing\<close>

definition so_SetBalance :: "int \<Rightarrow> stateObject \<Rightarrow> StateDB \<Rightarrow> StateDB" where
  "so_SetBalance amount so s =
     setStateObject (so_setBalance amount so) (sd_append (balanceChange (so_address so) (sa_Balance (so_data so))) s)"

definition ripemd :: Address where
  "ripemd = 3"

definition so_touch :: "stateObject \<Rightarrow> StateDB \<Rightarrow> StateDB" where
  "so_touch so s =
     (let s = sd_append (touchChange (so_address so)) s
      in if so_address so = ripemd then s\<lparr>sd_journal := j_dirty (so_address so) (sd_journal s)\<rparr> else s)"

definition so_AddBalance :: "int \<Rightarrow> stateObject \<Rightarrow> StateDB \<Rightarrow> StateDB" where
  "so_AddBalance amount so s =
     (if amount = 0 then if so_empty (sd_db s) so then so_touch so s else s
      else so_SetBalance (sa_Balance (so_data so) + amount) so s)"

definition so_SubBalance :: "int \<Rightarrow> stateObject \<Rightarrow> StateDB \<Rightarrow> StateDB" where
  "so_SubBalance amount so s =
     (if amount = 0 then s else so_SetBalance (sa_Balance (so_data so) - amount) so s)"

definition so_SetNonce :: "uint64 \<Rightarrow> stateObject \<Rightarrow> StateDB \<Rightarrow> StateDB" where
  "so_SetNonce nonce so s =
     setStateObject (so_setNonce nonce so) (sd_append (nonceChange (so_address so) (sa_Nonce (so_data so))) s)"

definition so_SetCode :: "Hash \<Rightarrow> bytes option \<Rightarrow> stateObject \<Rightarrow> StateDB \<Rightarrow> StateDB" where
  "so_SetCode codeHash code so s =
     (let (prevcode, so) = so_Code (sd_db s) so;
          s = sd_append (codeChange (so_address so) prevcode (sa_CodeHash (so_data so))) s
      in setStateObject (so_setCode codeHash code so) s)"

definition so_SetState :: "Hash \<Rightarrow> Hash \<Rightarrow> stateObject \<Rightarrow> StateDB \<Rightarrow> StateDB" where
  "so_SetState key v so s =
     (case fakeStorage so of
        Some fake \<Rightarrow> setStateObject (so\<lparr>fakeStorage := Some (mput key v fake)\<rparr>) s
      | None \<Rightarrow>
          let (prev, so) = so_GetState (sd_db s) key so
          in if prev = v then setStateObject so s
             else setStateObject (so_setState key v so) (sd_append (storageChange (so_address so) key prev) s))"

definition sd_AddBalance :: "Address \<Rightarrow> int \<Rightarrow> StateDB \<Rightarrow> StateDB" where
  "sd_AddBalance addr amount s = (case GetOrNewStateObject addr s of (so, s) \<Rightarrow> so_AddBalance amount so s)"

definition sd_SubBalance :: "Address \<Rightarrow> int \<Rightarrow> StateDB \<Rightarrow> StateDB" where
  "sd_SubBalance addr amount s = (case GetOrNewStateObject addr s of (so, s) \<Rightarrow> so_SubBalance amount so s)"

definition sd_SetBalance :: "Address \<Rightarrow> int \<Rightarrow> StateDB \<Rightarrow> StateDB" where
  "sd_SetBalance addr amount s = (case GetOrNewStateObject addr s of (so, s) \<Rightarrow> so_SetBalance amount so s)"

definition sd_SetNonce :: "Address \<Rightarrow> uint64 \<Rightarrow> StateDB \<Rightarrow> StateDB" where
  "sd_SetNonce addr nonce s = (case GetOrNewStateObject addr s of (so, s) \<Rightarrow> so_SetNonce nonce so s)"

definition sd_SetCode :: "Address \<Rightarrow> bytes option \<Rightarrow> StateDB \<Rightarrow> StateDB" where
  "sd_SetCode addr code s =
     (case GetOrNewStateObject addr s of (so, s) \<Rightarrow>
        so_SetCode (bk_Keccak256 (sd_db s) (case code of None \<Rightarrow> [] | Some c \<Rightarrow> c)) code so s)"

definition sd_SetState :: "Address \<Rightarrow> Hash \<Rightarrow> Hash \<Rightarrow> StateDB \<Rightarrow> StateDB" where
  "sd_SetState addr key v s = (case GetOrNewStateObject addr s of (so, s) \<Rightarrow> so_SetState key v so s)"

definition sd_SetStorage :: "Address \<Rightarrow> (Hash, Hash) gomap \<Rightarrow> StateDB \<Rightarrow> StateDB" where
  "sd_SetStorage addr st s =
     (case GetOrNewStateObject addr s of (so, s) \<Rightarrow> setStateObject (so_SetStorage st so) s)"

definition Suicide :: "Address \<Rightarrow> StateDB \<Rightarrow> bool \<times> StateDB" where
  "Suicide addr s =
     (case getStateObject addr s of
        (None, s) \<Rightarrow> (False, s)
      | (Some so, s) \<Rightarrow>
          (True,
           setStateObject (so_setBalance 0 (so\<lparr>suicided := True\<rparr>))
             (sd_append (suicideChange addr (suicided so) (sa_Balance (so_data so))) s)))"

definition CreateAccount :: "Address \<Rightarrow> StateDB \<Rightarrow> StateDB" where
  "CreateAccount addr s =
     (case createObject addr s of
        (newObj, Some prev, s) \<Rightarrow> setStateObject (so_setBalance (sa_Balance (so_data prev)) newObj) s
      | (newObj, None, s) \<Rightarrow> s)"

definition AddLog :: "Log \<Rightarrow> StateDB \<Rightarrow> Log \<times> StateDB" where
  "AddLog log s =
     (let s = sd_append (addLogChange (sd_thash s)) s;
          log = log\<lparr>lg_TxHash := sd_thash s, lg_TxIndex := sd_txIndex s, lg_Index := unat (sd_logSize s)\<rparr>
      in (log, s\<lparr>sd_logs := mput (sd_thash s) (mget [] (sd_logs s) (sd_thash s) @ [log]) (sd_logs s),
                sd_logSize := sd_logSize s + 1\<rparr>))"

definition GetLogs :: "Hash \<Rightarrow> Hash \<Rightarrow> StateDB \<Rightarrow> Log list \<times> StateDB" where
  "GetLogs h blockHash s =
     (case map_of (sd_logs s) h of
        None \<Rightarrow> ([], s)
      | Some logs \<Rightarrow>
          let logs = map (\<lambda>l. l\<lparr>lg_BlockHash := blockHash\<rparr>) logs
          in (logs, s\<lparr>sd_logs := mput h logs (sd_logs s)\<rparr>))"

definition AddPreimage :: "Hash \<Rightarrow> bytes \<Rightarrow> StateDB \<Rightarrow> StateDB" where
  "AddPreimage h preimage s =
     (if mhas (preimages s) h then s
      else (sd_append (addPreimageChange h) s)\<lparr>preimages := mput h preimage (preimages s)\<rparr>)"

definition AddRefund :: "uint64 \<Rightarrow> StateDB \<Rightarrow> StateDB" where
  "AddRefund gas s = (sd_append (refundChange (sd_refund s)) s)\<lparr>sd_refund := sd_refund s + gas\<rparr>"

definition SubRefund :: "uint64 \<Rightarrow> StateDB \<Rightarrow> StateDB go" where
  "SubRefund gas s =
     (let s = sd_append (refundChange (sd_refund s)) s
      in if gas > sd_refund s then Inl (ExplicitPanic ''Refund counter below zero'')
         else Inr (s\<lparr>sd_refund := sd_refund s - gas\<rparr>))"

definition AddAddressToAccessList :: "Address \<Rightarrow> StateDB \<Rightarrow> StateDB" where
  "AddAddressToAccessList addr s =
     (case AddAddress addr (sd_accessList s) of (changed, al) \<Rightarrow>
        let s = s\<lparr>sd_accessList := al\<rparr>
        in if changed then sd_append (accessListAddAccountChange addr) s else s)"

definition AddSlotToAccessList :: "Address \<Rightarrow> Hash \<Rightarrow> StateDB \<Rightarrow> StateDB go" where
  "AddSlotToAccessList addr slot s =
     go_bind (AddSlot addr slot (sd_accessList s)) (\<lambda>((addrMod, slotMod), al).
       let s = s\<lparr>sd_accessList := al\<rparr>;
           s = (if addrMod then sd_append (accessListAddAccountChange addr) s else s)
       in Inr (if slotMod then sd_append (accessListAddSlotChange addr slot) s else s))"

definition PrepareAccessList :: "Address \<Rightarrow> Address option \<Rightarrow> Address list \<Rightarrow> AccessList \<Rightarrow> StateDB \<Rightarrow> StateDB go" where
  "PrepareAccessList sender dst precompiles l s =
     (let s = AddAddressToAccessList sender s;
          s = (case dst of None \<Rightarrow> s | Some a \<Rightarrow> AddAddressToAccessList a s);
          s = fold AddAddressToAccessList precompiles s
      in go_fold (\<lambda>(address, storageKeys) s.
           go_fold (AddSlotToAccessList address) storageKeys (AddAddressToAccessList address s)) l s)"

section \<open>Reverting\<close>

definition on_object :: "Address \<Rightarrow> (stateObject \<Rightarrow> stateObject) \<Rightarrow> StateDB \<Rightarrow> StateDB go" where
  "on_object addr f s =
     (case getStateObject addr s of
        (None, s) \<Rightarrow> Inl NilDereference
      | (Some so, s) \<Rightarrow> Inr (setStateObject (f so) s))"

fun entry_revert :: "journalEntry \<Rightarrow> StateDB \<Rightarrow> StateDB go" where
  "entry_revert (createObjectChange a) s =
     Inr (s\<lparr>stateObjects := AList.delete a (stateObjects s), stateObjectsDirty := AList.delete a (stateObjectsDirty s)\<rparr>)"
| "entry_revert (resetObjectChange prev prevdestruct) s = Inr (setStateObject prev s)"
| "entry_revert (suicideChange a prev prevbalance) s =
     (case getStateObject a s of
        (None, s) \<Rightarrow> Inr s
      | (Some so, s) \<Rightarrow> Inr (setStateObject (so_setBalance prevbalance (so\<lparr>suicided := prev\<rparr>)) s))"
| "entry_revert (touchChange a) s = Inr s"
| "entry_revert (balanceChange a prev) s = on_object a (so_setBalance prev) s"
| "entry_revert (nonceChange a prev) s = on_object a (so_setNonce prev) s"
| "entry_revert (codeChange a prevcode prevhash) s = on_object a (so_setCode (BytesToHash prevhash) prevcode) s"
| "entry_revert (storageChange a key prevalue) s = on_object a (so_setState key prevalue) s"
| "entry_revert (refundChange prev) s = Inr (s\<lparr>sd_refund := prev\<rparr>)"
| "entry_revert (addLogChange txhash) s =
     (let logs = mget [] (sd_logs s) txhash
      in if length logs = 0 then Inl IndexOutOfRange
         else Inr (s\<lparr>sd_logs := (if length logs = 1 then AList.delete txhash (sd_logs s)
                                 else mput txhash (butlast logs) (sd_logs s)),
                     sd_logSize := sd_logSize s - 1\<rparr>))"
| "entry_revert (addPreimageChange h) s = Inr (s\<lparr>preimages := AList.delete h (preimages s)\<rparr>)"
| "entry_revert (accessListAddAccountChange a) s = Inr (s\<lparr>sd_accessList := DeleteAddress a (sd_accessList s)\<rparr>)"
| "entry_revert (accessListAddSlotChange a slot) s =
     go_bind (DeleteSlot a slot (sd_accessList s)) (\<lambda>al. Inr (s\<lparr>sd_accessList := al\<rparr>))"

definition journal_revert :: "nat \<Rightarrow> StateDB \<Rightarrow> StateDB go" where
  "journal_revert snapshot s =
     go_bind
       (go_fold (\<lambda>e s. go_bind (entry_revert e s) (\<lambda>s. Inr (s\<lparr>sd_journal := undirty e (sd_journal s)\<rparr>)))
          (rev (drop snapshot (j_entries (sd_journal s)))) s)
       (\<lambda>s. Inr (s\<lparr>sd_journal := (sd_journal s)\<lparr>j_entries := take snapshot (j_entries (sd_journal s))\<rparr>\<rparr>))"

definition sd_Snapshot :: "StateDB \<Rightarrow> nat \<times> StateDB" where
  "sd_Snapshot s =
     (let i = nextRevisionId s
      in (i, s\<lparr>nextRevisionId := i + 1, validRevisions := validRevisions s @ [(i, length (j_entries (sd_journal s)))]\<rparr>))"

text \<open>\<open>sort.Search\<close> finds the first revision whose identifier is at least the one asked for.\<close>

definition search_revision :: "(nat \<times> nat) list \<Rightarrow> nat \<Rightarrow> nat" where
  "search_revision revs revid = length (takeWhile (\<lambda>r. fst r < revid) revs)"

definition RevertToSnapshot :: "nat \<Rightarrow> StateDB \<Rightarrow> StateDB go" where
  "RevertToSnapshot revid s =
     (let idx = search_revision (validRevisions s) revid
      in if idx = length (validRevisions s) \<or> fst (validRevisions s ! idx) \<noteq> revid
         then Inl (ExplicitPanic ''revision id cannot be reverted'')
         else go_bind (journal_revert (snd (validRevisions s ! idx)) s) (\<lambda>s.
                Inr (s\<lparr>validRevisions := take idx (validRevisions s)\<rparr>)))"

section \<open>Transactions\<close>

definition clearJournalAndRefund :: "StateDB \<Rightarrow> StateDB" where
  "clearJournalAndRefund s =
     (let s = (if length (j_entries (sd_journal s)) > 0 then s\<lparr>sd_journal := newJournal, sd_refund := 0\<rparr> else s)
      in s\<lparr>validRevisions := []\<rparr>)"

definition sd_Prepare :: "Hash \<Rightarrow> nat \<Rightarrow> StateDB \<Rightarrow> StateDB" where
  "sd_Prepare thash ti s =
     s\<lparr>sd_thash := thash, sd_txIndex := ti, ResearchPreAlloc := [], ResearchPostAlloc := [],
       ResearchBlockHashes := [],
       stateObjects := map (\<lambda>(a, obj). (a, obj\<lparr>ResearchTouched := []\<rparr>)) (stateObjects s),
       sd_accessList := newAccessList\<rparr>"

text \<open>
  The first loop of \<open>Finalise\<close>: nil accounts leave the record, the others get the committed values of
  the slots that were touched, and are copied as the result so far.
\<close>

definition touched_storage ::
    "(Hash \<Rightarrow> stateObject \<Rightarrow> Hash \<times> stateObject) \<Rightarrow> stateObject \<Rightarrow> SubstateAccount \<Rightarrow> SubstateAccount \<times> stateObject" where
  "touched_storage get obj sa =
     fold (\<lambda>key (sa, obj). case get key obj of (v, obj) \<Rightarrow> (sa\<lparr>acc_Storage := mput key v (acc_Storage sa)\<rparr>, obj))
       (mkeys (ResearchTouched obj)) (sa, obj)"

definition finalise_pre :: "Address \<times> SubstateAccount option \<Rightarrow> StateDB \<Rightarrow> StateDB go" where
  "finalise_pre p s =
     (case p of (addr, account) \<Rightarrow>
        (case account of
           None \<Rightarrow> Inr (s\<lparr>ResearchPreAlloc := AList.delete addr (ResearchPreAlloc s)\<rparr>)
         | Some sa \<Rightarrow>
             (case map_of (stateObjects s) addr of
                None \<Rightarrow> Inl NilDereference
              | Some obj \<Rightarrow>
                  (case touched_storage (so_GetCommittedState (sd_db s)) obj sa of (sa, obj) \<Rightarrow>
                     Inr ((setStateObject obj s)
                       \<lparr>ResearchPreAlloc := mput addr (Some sa) (ResearchPreAlloc s),
                        ResearchPostAlloc := mput addr (Some (SubstateAccount_Copy sa)) (ResearchPostAlloc s)\<rparr>)))))"

definition finalise_dirty :: "bool \<Rightarrow> Address \<Rightarrow> StateDB \<Rightarrow> StateDB" where
  "finalise_dirty deleteEmptyObjects addr s =
     (case map_of (stateObjects s) addr of
        None \<Rightarrow> s
      | Some obj \<Rightarrow>
          let s =
            (if suicided obj \<or> deleteEmptyObjects \<and> so_empty (sd_db s) obj
             then (setStateObject (obj\<lparr>so_deleted := True\<rparr>) s)
                    \<lparr>ResearchPostAlloc := AList.delete addr (ResearchPostAlloc s)\<rparr>
             else let (code, obj) = so_Code (sd_db s) obj;
                      sa = NewSubstateAccount (sa_Nonce (so_data obj)) (sa_Balance (so_data obj))
                             (case code of None \<Rightarrow> [] | Some c \<Rightarrow> c);
                      (sa, obj) = touched_storage (so_GetState (sd_db s)) obj sa
                  in (setStateObject (so_finalise obj) s)
                       \<lparr>ResearchPostAlloc := mput addr (Some sa) (ResearchPostAlloc s)\<rparr>)
          in s\<lparr>stateObjectsPending := mput addr () (stateObjectsPending s),
               stateObjectsDirty := mput addr () (stateObjectsDirty s)\<rparr>)"

definition Finalise :: "bool \<Rightarrow> StateDB \<Rightarrow> StateDB go" where
  "Finalise deleteEmptyObjects s =
     go_bind (go_fold finalise_pre (ResearchPreAlloc s) s) (\<lambda>s.
       Inr (clearJournalAndRefund (fold (finalise_dirty deleteEmptyObjects) (mkeys (dirties (sd_journal s))) s)))"

end
