(* ===== verification/State_World.thy ===== *)
theory State_World
  imports State_DB
begin

text \<open>
  What a state means: a \<open>world\<close> of accounts given by functions, without caches, journal and revision
  stack. \<open>state_view\<close> is the abstraction function. The theory shows how the view of an object changes
  under the operations of \<open>state_object.go\<close>, that looking up an account does not change the world, and
  that reverting a journal entry is a function of the world.
\<close>

section \<open>Accounts and worlds\<close>

record account =
  a_address :: Address
  a_addrHash :: Hash
  a_data :: StateAccount
  a_code :: "bytes option"
  a_committed :: "Hash \<Rightarrow> Hash"
  a_current :: "Hash \<Rightarrow> Hash"
  a_suicided :: bool
  a_deleted :: bool
  a_fake :: bool

record world =
  w_db :: backend
  w_accounts :: "Address \<Rightarrow> account option"
  w_refund :: uint64
  w_thash :: Hash
  w_txIndex :: nat
  w_logs :: "Hash \<Rightarrow> Log list"
  w_logSize :: uint64
  w_preimages :: "Hash \<rightharpoonup> bytes"
  w_accessList :: accessList

definition load_code :: "backend \<Rightarrow> Hash \<Rightarrow> bytes \<Rightarrow> bytes option \<Rightarrow> bytes option" where
  "load_code db addrHash codeHash cached =
     (case cached of
        Some c \<Rightarrow> Some c
      | None \<Rightarrow>
          if codeHash = emptyCodeHash db then None
          else case bk_ContractCode db addrHash (BytesToHash codeHash) of Inl _ \<Rightarrow> None | Inr c \<Rightarrow> Some c)"

definition trie_value :: "backend \<Rightarrow> Hash \<Rightarrow> Hash \<Rightarrow> Hash \<Rightarrow> Hash" where
  "trie_value db addrHash root key =
     (case (case open_trie db addrHash root of Inr tr \<Rightarrow> tr | Inl _ \<Rightarrow> (\<lambda>_. Inr [])) (Hash_Bytes key) of
        Inl _ \<Rightarrow> 0
      | Inr enc \<Rightarrow>
          if length enc > 0 then (case rlp_Split enc of Inl _ \<Rightarrow> BytesToHash [] | Inr (_, content, _) \<Rightarrow> BytesToHash content)
          else 0)"

definition committed_value :: "backend \<Rightarrow> stateObject \<Rightarrow> Hash \<Rightarrow> Hash" where
  "committed_value db s key =
     (case fakeStorage s of
        Some fake \<Rightarrow> mget 0 fake key
      | None \<Rightarrow>
          (case map_of (pendingStorage s) key of
             Some v \<Rightarrow> v
           | None \<Rightarrow>
               (case map_of (originStorage s) key of
                  Some v \<Rightarrow> v
                | None \<Rightarrow> trie_value db (so_addrHash s) (sa_Root (so_data s)) key)))"

definition current_value :: "backend \<Rightarrow> stateObject \<Rightarrow> Hash \<Rightarrow> Hash" where
  "current_value db s key =
     (case fakeStorage s of
        Some fake \<Rightarrow> mget 0 fake key
      | None \<Rightarrow> (case map_of (dirtyStorage s) key of Some v \<Rightarrow> v | None \<Rightarrow> committed_value db s key))"

definition obj_view :: "backend \<Rightarrow> stateObject \<Rightarrow> account" where
  "obj_view db s =
     \<lparr>a_address = so_address s, a_addrHash = so_addrHash s, a_data = so_data s,
      a_code = load_code db (so_addrHash s) (sa_CodeHash (so_data s)) (so_code s),
      a_committed = committed_value db s, a_current = current_value db s,
      a_suicided = suicided s, a_deleted = so_deleted s, a_fake = (fakeStorage s \<noteq> None)\<rparr>"

definition load_object :: "backend \<Rightarrow> Address \<Rightarrow> stateObject option" where
  "load_object db addr =
     (case bk_TryGet db (Address_Bytes addr) of
        Inl _ \<Rightarrow> None
      | Inr enc \<Rightarrow>
          if length enc = 0 then None
          else case decode_as stateAccountT val_stateAccount enc of
                 Inl _ \<Rightarrow> None
               | Inr data \<Rightarrow> Some (newObject db addr data False))"

definition live :: "StateDB \<Rightarrow> Address \<Rightarrow> stateObject option" where
  "live s addr =
     (case map_of (stateObjects s) addr of Some obj \<Rightarrow> Some obj | None \<Rightarrow> load_object (sd_db s) addr)"

definition state_view :: "StateDB \<Rightarrow> world" where
  "state_view s =
     \<lparr>w_db = sd_db s, w_accounts = (\<lambda>a. map_option (obj_view (sd_db s)) (live s a)), w_refund = sd_refund s,
      w_thash = sd_thash s, w_txIndex = sd_txIndex s, w_logs = mget [] (sd_logs s), w_logSize = sd_logSize s,
      w_preimages = map_of (preimages s), w_accessList = sd_accessList s\<rparr>"

text \<open>The account the operations see: objects deleted in an earlier transaction are absent.\<close>

definition acct :: "world \<Rightarrow> Address \<Rightarrow> account option" where
  "acct w a = (case w_accounts w a of Some x \<Rightarrow> if a_deleted x then None else Some x | None \<Rightarrow> None)"

section \<open>Views of changed objects\<close>

lemma committed_value_cong:
  assumes "fakeStorage s = fakeStorage t" "pendingStorage s = pendingStorage t" "originStorage s = originStorage t"
    "so_addrHash s = so_addrHash t" "sa_Root (so_data s) = sa_Root (so_data t)"
  shows "committed_value db s = committed_value db t"
  unfolding committed_value_def assms ..

lemma current_value_cong:
  assumes "fakeStorage s = fakeStorage t" "pendingStorage s = pendingStorage t" "originStorage s = originStorage t"
    "so_addrHash s = so_addrHash t" "sa_Root (so_data s) = sa_Root (so_data t)" "dirtyStorage s = dirtyStorage t"
  shows "current_value db s = current_value db t"
  unfolding current_value_def assms committed_value_cong [OF assms(1-5)] ..

lemma obj_view_cong:
  assumes "fakeStorage s = fakeStorage t" "pendingStorage s = pendingStorage t" "originStorage s = originStorage t"
    "so_addrHash s = so_addrHash t" "dirtyStorage s = dirtyStorage t" "so_data s = so_data t" "so_address s = so_address t"
    "suicided s = suicided t" "so_deleted s = so_deleted t"
    "load_code db (so_addrHash t) (sa_CodeHash (so_data t)) (so_code s) =
     load_code db (so_addrHash t) (sa_CodeHash (so_data t)) (so_code t)"
  shows "obj_view db s = obj_view db t"
  using committed_value_cong [OF assms(1-4)] current_value_cong [OF assms(1-4)] assms by (simp add: obj_view_def)

lemma so_setError_simps [simp]: "obj_view db (so_setError e s) = obj_view db s"
  "so_address (so_setError e s) = so_address s" "so_data (so_setError e s) = so_data s"
  "so_addrHash (so_setError e s) = so_addrHash s" "pendingStorage (so_setError e s) = pendingStorage s"
  "originStorage (so_setError e s) = originStorage s" "dirtyStorage (so_setError e s) = dirtyStorage s"
  "fakeStorage (so_setError e s) = fakeStorage s" "so_code (so_setError e s) = so_code s"
  "so_deleted (so_setError e s) = so_deleted s" "suicided (so_setError e s) = suicided s"
  "ResearchTouched (so_setError e s) = ResearchTouched s"
  by (simp_all add: so_setError_def, intro impI obj_view_cong, simp_all)

lemma committed_values [simp]:
  "committed_value db (so_setBalance b s) = committed_value db s" "current_value db (so_setBalance b s) = current_value db s"
  "committed_value db (so_setNonce n s) = committed_value db s" "current_value db (so_setNonce n s) = current_value db s"
  "committed_value db (so_setCode h c s) = committed_value db s" "current_value db (so_setCode h c s) = current_value db s"
  "committed_value db (so_setState k v s) = committed_value db s"
  "committed_value db (s\<lparr>suicided := d\<rparr>) = committed_value db s" "current_value db (s\<lparr>suicided := d\<rparr>) = current_value db s"
  by (rule committed_value_cong current_value_cong;
      simp add: so_setBalance_def so_setNonce_def so_setCode_def so_setState_def)+

lemma obj_view_setBalance: "obj_view db (so_setBalance b s) = (obj_view db s)\<lparr>a_data := (so_data s)\<lparr>sa_Balance := b\<rparr>\<rparr>"
  by (simp add: obj_view_def) (simp add: so_setBalance_def)

lemma obj_view_setNonce: "obj_view db (so_setNonce n s) = (obj_view db s)\<lparr>a_data := (so_data s)\<lparr>sa_Nonce := n\<rparr>\<rparr>"
  by (simp add: obj_view_def) (simp add: so_setNonce_def)

lemma obj_view_setCode:
  "obj_view db (so_setCode h c s) = (obj_view db s)
     \<lparr>a_data := (so_data s)\<lparr>sa_CodeHash := Hash_Bytes h\<rparr>, a_code := load_code db (so_addrHash s) (Hash_Bytes h) c\<rparr>"
  by (simp add: obj_view_def) (simp add: so_setCode_def)

lemma obj_view_setState:
  assumes "fakeStorage s = None"
  shows "obj_view db (so_setState k v s) = (obj_view db s)\<lparr>a_current := (current_value db s)(k := v)\<rparr>"
proof -
  have "current_value db (so_setState k v s) = (current_value db s)(k := v)"
    using assms by (auto simp: current_value_def fun_eq_iff split: option.splits) (simp_all add: so_setState_def map_of_mput)
  then show ?thesis by (simp add: obj_view_def) (simp add: so_setState_def)
qed

lemma obj_view_suicided: "obj_view db (s\<lparr>suicided := b\<rparr>) = (obj_view db s)\<lparr>a_suicided := b\<rparr>"
  by (simp add: obj_view_def)

lemma obj_view_touched: "obj_view db (s\<lparr>ResearchTouched := t\<rparr>) = obj_view db s"
  by (rule obj_view_cong) simp_all

lemma so_Code_view:
  assumes "so_Code db s = (c, s')"
  shows "c = a_code (obj_view db s)" "obj_view db s' = obj_view db s"
proof -
  consider (cached) d where "so_code s = Some d" | (none) "so_code s = None" "sa_CodeHash (so_data s) = emptyCodeHash db"
    | (load) "so_code s = None" "sa_CodeHash (so_data s) \<noteq> emptyCodeHash db" by (cases "so_code s") auto
  then have "c = a_code (obj_view db s) \<and> obj_view db s' = obj_view db s"
  proof cases
    case cached
    then have "c = Some d" "s' = s" using assms by (auto simp: so_Code_def)
    with cached show ?thesis by (simp add: obj_view_def load_code_def)
  next
    case none
    then show ?thesis using assms by (simp add: so_Code_def obj_view_def load_code_def)
  next
    case load
    show ?thesis
    proof (cases "bk_ContractCode db (so_addrHash s) (BytesToHash (sa_CodeHash (so_data s)))")
      case (Inl e)
      then show ?thesis using assms load by (auto simp: so_Code_def) (simp add: obj_view_def load_code_def)
    next
      case (Inr d)
      then have e: "c = Some d" "s' = s\<lparr>so_code := Some d\<rparr>" using assms load by (auto simp: so_Code_def)
      have "obj_view db s' = obj_view db s" unfolding e using load Inr by (intro obj_view_cong) (simp_all add: load_code_def)
      moreover have "a_code (obj_view db s) = Some d" using load Inr by (simp add: obj_view_def load_code_def)
      ultimately show ?thesis using e(1) by simp
    qed
  qed
  then show "c = a_code (obj_view db s)" "obj_view db s' = obj_view db s" by simp_all
qed

lemma so_CodeSize_view:
  assumes "so_CodeSize db s = (n, s')"
  shows "n = (case a_code (obj_view db s) of None \<Rightarrow> 0 | Some c \<Rightarrow> length c)" "obj_view db s' = obj_view db s"
proof -
  have "n = (case a_code (obj_view db s) of None \<Rightarrow> 0 | Some c \<Rightarrow> length c) \<and> obj_view db s' = obj_view db s"
  proof (cases "so_code s")
    case (Some d)
    then show ?thesis using assms by (auto simp: so_CodeSize_def obj_view_def load_code_def)
  next
    case None
    then have c: "a_code (obj_view db s) = load_code db (so_addrHash s) (sa_CodeHash (so_data s)) None"
      by (simp add: obj_view_def)
    show ?thesis
      unfolding c using assms None
      by (auto simp: so_CodeSize_def load_code_def split: if_splits sum.splits)
  qed
  then show "n = (case a_code (obj_view db s) of None \<Rightarrow> 0 | Some c \<Rightarrow> length c)" "obj_view db s' = obj_view db s"
    by simp_all
qed

lemma getTrie_view:
  "fst (getTrie db s) = (case open_trie db (so_addrHash s) (sa_Root (so_data s)) of Inr tr \<Rightarrow> tr | Inl _ \<Rightarrow> (\<lambda>_. Inr []))"
  "snd (getTrie db s) = s \<or> (\<exists>e. snd (getTrie db s) = so_setError e s)"
  by (auto simp: getTrie_def split: sum.splits)

text \<open>Caching the value the trie has does not change the view.\<close>

lemma obj_view_cached:
  assumes "fakeStorage s = None" "map_of (pendingStorage s) k = None" "map_of (originStorage s) k = None"
    "v = trie_value db (so_addrHash s) (sa_Root (so_data s)) k"
  shows "obj_view db (s\<lparr>originStorage := mput k v (originStorage s)\<rparr>) = obj_view db s"
proof -
  define t where "t = s\<lparr>originStorage := mput k v (originStorage s)\<rparr>"
  have t: "fakeStorage t = None" "pendingStorage t = pendingStorage s" "originStorage t = mput k v (originStorage s)"
    "so_addrHash t = so_addrHash s" "so_data t = so_data s" "dirtyStorage t = dirtyStorage s"
    using assms(1) by (simp_all add: t_def)
  have "committed_value db t key = committed_value db s key" for key
    unfolding committed_value_def t map_of_mput using assms by (cases "key = k") (simp_all split: option.split)
  then have c: "committed_value db t = committed_value db s" by (rule ext)
  have "current_value db t = current_value db s"
    unfolding current_value_def t assms(1) c ..
  with c t show ?thesis unfolding t_def [symmetric] by (simp add: obj_view_def assms(1)) (simp add: t_def)
qed

lemma so_GetCommittedState_view:
  assumes "so_GetCommittedState db k s = (v, s')"
  shows "v = committed_value db s k" "obj_view db s' = obj_view db s"
    "so_address s' = so_address s" "ResearchTouched s' = ResearchTouched s"
proof -
  have "v = committed_value db s k \<and> obj_view db s' = obj_view db s \<and> so_address s' = so_address s \<and>
    ResearchTouched s' = ResearchTouched s"
  proof (cases "fakeStorage s = None \<and> map_of (pendingStorage s) k = None \<and> map_of (originStorage s) k = None")
    case False
    then have "v = committed_value db s k \<and> s' = s"
      using assms by (auto simp: so_GetCommittedState_def committed_value_def split: option.splits)
    then show ?thesis by simp
  next
    case True
    obtain tr t where g: "getTrie db s = (tr, t)" by (cases "getTrie db s")
    have tr: "tr = (case open_trie db (so_addrHash s) (sa_Root (so_data s)) of Inr tr \<Rightarrow> tr | Inl _ \<Rightarrow> (\<lambda>_. Inr []))"
      and t: "t = s \<or> (\<exists>e. t = so_setError e s)" using getTrie_view [of db s] g by simp_all
    have tf: "fakeStorage t = None" "map_of (pendingStorage t) k = None" "map_of (originStorage t) k = None"
      "so_addrHash t = so_addrHash s" "so_data t = so_data s" "obj_view db t = obj_view db s"
      "so_address t = so_address s" "ResearchTouched t = ResearchTouched s"
      using t True by auto
    let ?v = "trie_value db (so_addrHash s) (sa_Root (so_data s)) k"
    have cv: "committed_value db s k = ?v" using True by (simp add: committed_value_def)
    have run: "so_GetCommittedState db k s =
        (case tr (Hash_Bytes k) of
           Inl err \<Rightarrow> (0, so_setError err t)
         | Inr enc \<Rightarrow>
             let (v, s) = (if length enc > 0
                then case rlp_Split enc of
                       Inl err \<Rightarrow> (BytesToHash [], so_setError ''rlp'' t)
                     | Inr (_, content, _) \<Rightarrow> (BytesToHash content, t)
                else (0, t))
             in (v, s\<lparr>originStorage := mput k v (originStorage s)\<rparr>))"
      using True g by (simp add: so_GetCommittedState_def)
    have "v = ?v \<and> (s' = t \<or> (\<exists>e. s' = so_setError e t) \<or>
        (\<exists>u. (u = t \<or> (\<exists>e. u = so_setError e t)) \<and> s' = u\<lparr>originStorage := mput k ?v (originStorage u)\<rparr>))"
      using assms unfolding run tr trie_value_def
      by (auto split: sum.splits if_splits prod.splits)
    moreover have "obj_view db (u\<lparr>originStorage := mput k ?v (originStorage u)\<rparr>) = obj_view db s"
      if "u = t \<or> (\<exists>e. u = so_setError e t)" for u
      using that tf obj_view_cached [of u k ?v db] by auto
    ultimately show ?thesis using tf cv by auto
  qed
  then show "v = committed_value db s k" "obj_view db s' = obj_view db s" "so_address s' = so_address s"
    "ResearchTouched s' = ResearchTouched s" by simp_all
qed

lemma obj_view_simps [simp]:
  "a_address (obj_view db s) = so_address s" "a_addrHash (obj_view db s) = so_addrHash s"
  "a_data (obj_view db s) = so_data s" "a_committed (obj_view db s) = committed_value db s"
  "a_current (obj_view db s) = current_value db s" "a_suicided (obj_view db s) = suicided s"
  "a_deleted (obj_view db s) = so_deleted s" "a_fake (obj_view db s) \<longleftrightarrow> fakeStorage s \<noteq> None"
  by (simp_all add: obj_view_def)

lemma so_GetState_view:
  assumes "so_GetState db k s = (v, s')"
  shows "v = current_value db s k" "obj_view db s' = obj_view db s"
    "ResearchTouched s' = (if mhas (ResearchTouched s) k then ResearchTouched s else mput k () (ResearchTouched s))"
proof -
  define t where "t = (if mhas (ResearchTouched s) k then s else s\<lparr>ResearchTouched := mput k () (ResearchTouched s)\<rparr>)"
  have t: "obj_view db t = obj_view db s" "fakeStorage t = fakeStorage s" "dirtyStorage t = dirtyStorage s"
    "ResearchTouched t = (if mhas (ResearchTouched s) k then ResearchTouched s else mput k () (ResearchTouched s))"
    by (simp_all add: t_def obj_view_touched)
  from t(1) have c: "committed_value db t = committed_value db s" by (metis obj_view_simps(4))
  have "v = current_value db s k \<and> obj_view db s' = obj_view db t \<and> ResearchTouched s' = ResearchTouched t"
  proof (cases "fakeStorage s = None \<and> map_of (dirtyStorage s) k = None")
    case False
    then have "v = current_value db s k \<and> s' = t"
      using assms t(2,3) unfolding so_GetState_def t_def [symmetric] Let_def current_value_def
      by (auto split: option.splits)
    then show ?thesis by simp
  next
    case True
    then have g: "so_GetCommittedState db k t = (v, s')"
      using assms t(2,3) unfolding so_GetState_def t_def [symmetric] Let_def by simp
    have "current_value db s k = committed_value db s k" using True by (simp add: current_value_def)
    then show ?thesis using so_GetCommittedState_view [OF g] c by simp
  qed
  then show "v = current_value db s k" "obj_view db s' = obj_view db s"
    "ResearchTouched s' = (if mhas (ResearchTouched s) k then ResearchTouched s else mput k () (ResearchTouched s))"
    using t by simp_all
qed

section \<open>Looking up accounts\<close>

text \<open>
  A world is well formed when accounts are stored under their address with a code hash of full length
  and no debugging storage, and absent accounts are absent below. The backend has to hold code hashes
  of full length.
\<close>

definition backend_ok :: "backend \<Rightarrow> bool" where
  "backend_ok db \<longleftrightarrow> (\<forall>a obj. load_object db a = Some obj \<longrightarrow> length (sa_CodeHash (so_data obj)) = 32)"

definition world_ok :: "world \<Rightarrow> bool" where
  "world_ok w \<longleftrightarrow>
     (\<forall>a x. w_accounts w a = Some x \<longrightarrow> a_address x = a \<and> length (sa_CodeHash (a_data x)) = 32 \<and> \<not> a_fake x) \<and>
     (\<forall>a. w_accounts w a = None \<longrightarrow> load_object (w_db w) a = None) \<and>
     backend_ok (w_db w)"

definition quiet_step :: "StateDB \<Rightarrow> StateDB \<Rightarrow> bool" where
  "quiet_step s s' \<longleftrightarrow> state_view s' = state_view s \<and> sd_journal s' = sd_journal s \<and>
     validRevisions s' = validRevisions s \<and> nextRevisionId s' = nextRevisionId s"

lemma quiet_step_refl [simp]: "quiet_step s s"
  by (simp add: quiet_step_def)

lemma quiet_step_trans: "quiet_step s t \<Longrightarrow> quiet_step t u \<Longrightarrow> quiet_step s u"
  by (simp add: quiet_step_def)

lemma state_view_simps [simp]:
  "w_db (state_view s) = sd_db s" "w_refund (state_view s) = sd_refund s" "w_thash (state_view s) = sd_thash s"
  "w_txIndex (state_view s) = sd_txIndex s" "w_logSize (state_view s) = sd_logSize s"
  "w_accessList (state_view s) = sd_accessList s" "w_preimages (state_view s) = map_of (preimages s)"
  "w_logs (state_view s) = mget [] (sd_logs s)"
  "w_accounts (state_view s) a = map_option (obj_view (sd_db s)) (live s a)"
  by (simp_all add: state_view_def)

lemma live_cong:
  assumes "stateObjects s = stateObjects t" "sd_db s = sd_db t"
  shows "live s = live t"
  unfolding live_def assms ..

lemma state_view_cong:
  assumes "stateObjects s = stateObjects t" "sd_db s = sd_db t" "sd_refund s = sd_refund t" "sd_thash s = sd_thash t"
    "sd_txIndex s = sd_txIndex t" "sd_logs s = sd_logs t" "sd_logSize s = sd_logSize t" "preimages s = preimages t"
    "sd_accessList s = sd_accessList t"
  shows "state_view s = state_view t"
  unfolding state_view_def live_def assms ..

lemma setStateObject_simps [simp]:
  "sd_db (setStateObject obj s) = sd_db s" "sd_journal (setStateObject obj s) = sd_journal s"
  "validRevisions (setStateObject obj s) = validRevisions s" "nextRevisionId (setStateObject obj s) = nextRevisionId s"
  "sd_refund (setStateObject obj s) = sd_refund s" "sd_accessList (setStateObject obj s) = sd_accessList s"
  "ResearchPreAlloc (setStateObject obj s) = ResearchPreAlloc s"
  "live (setStateObject obj s) = (live s)(so_address obj \<mapsto> obj)"
  by (simp_all add: setStateObject_def)
    (auto simp: live_def map_of_mput fun_eq_iff split: option.splits)

lemma view_setStateObject:
  "state_view (setStateObject obj s) =
     (state_view s)\<lparr>w_accounts := (w_accounts (state_view s))(so_address obj \<mapsto> obj_view (sd_db s) obj)\<rparr>"
  by (auto simp: state_view_def) (simp_all add: setStateObject_def)

lemma view_setStateObject_same:
  assumes "live s (so_address obj) = Some obj'" and "obj_view (sd_db s) obj = obj_view (sd_db s) obj'"
  shows "state_view (setStateObject obj s) = state_view s"
proof -
  have "(w_accounts (state_view s))(so_address obj \<mapsto> obj_view (sd_db s) obj) = w_accounts (state_view s)"
    using assms by (auto simp: fun_eq_iff)
  then show ?thesis unfolding view_setStateObject by simp
qed

lemma sd_append_simps [simp]:
  "state_view (sd_append e s) = state_view s" "validRevisions (sd_append e s) = validRevisions s"
  "nextRevisionId (sd_append e s) = nextRevisionId s" "sd_db (sd_append e s) = sd_db s"
  "j_entries (sd_journal (sd_append e s)) = j_entries (sd_journal s) @ [e]"
  "live (sd_append e s) = live s" "ResearchPreAlloc (sd_append e s) = ResearchPreAlloc s"
  "stateObjects (sd_append e s) = stateObjects s" "sd_thash (sd_append e s) = sd_thash s"
  "sd_logs (sd_append e s) = sd_logs s" "sd_logSize (sd_append e s) = sd_logSize s"
  "sd_refund (sd_append e s) = sd_refund s" "sd_txIndex (sd_append e s) = sd_txIndex s"
  "preimages (sd_append e s) = preimages s" "sd_accessList (sd_append e s) = sd_accessList s"
  by (rule state_view_cong live_cong; simp add: sd_append_def)
    (simp_all add: sd_append_def j_append_def, (rule live_cong; simp))

lemma sd_setError_simps [simp]:
  "state_view (sd_setError e s) = state_view s" "sd_journal (sd_setError e s) = sd_journal s"
  "validRevisions (sd_setError e s) = validRevisions s" "nextRevisionId (sd_setError e s) = nextRevisionId s"
  "live (sd_setError e s) = live s" "ResearchPreAlloc (sd_setError e s) = ResearchPreAlloc s"
  "sd_db (sd_setError e s) = sd_db s" "stateObjects (sd_setError e s) = stateObjects s"
  by (simp_all add: sd_setError_def) (auto intro: state_view_cong live_cong)

lemma load_object_address: "load_object db a = Some obj \<Longrightarrow> so_address obj = a"
  by (auto simp: load_object_def newObject_def Let_def split: sum.splits if_splits)

lemma world_okD:
  assumes "world_ok (state_view s)" and "live s a = Some obj"
  shows "so_address obj = a" "length (sa_CodeHash (so_data obj)) = 32" "fakeStorage obj = None"
proof -
  have "w_accounts (state_view s) a = Some (obj_view (sd_db s) obj)" using assms(2) by simp
  with assms(1) have "a_address (obj_view (sd_db s) obj) = a \<and> length (sa_CodeHash (a_data (obj_view (sd_db s) obj))) = 32 \<and>
      \<not> a_fake (obj_view (sd_db s) obj)"
    unfolding world_ok_def by blast
  then show "so_address obj = a" "length (sa_CodeHash (so_data obj)) = 32" "fakeStorage obj = None" by simp_all
qed

lemma getDeletedStateObject_live:
  assumes "getDeletedStateObject a s = (r, s')"
  shows "r = live s a" "live s' = live s" "quiet_step s s'" "ResearchPreAlloc s' = ResearchPreAlloc s" "sd_db s' = sd_db s"
proof -
  have "r = live s a \<and> live s' = live s \<and> quiet_step s s' \<and> ResearchPreAlloc s' = ResearchPreAlloc s \<and> sd_db s' = sd_db s"
  proof (cases "\<exists>obj. map_of (stateObjects s) a = None \<and> load_object (sd_db s) a = Some obj")
    case True
    then obtain obj where o: "map_of (stateObjects s) a = None" "load_object (sd_db s) a = Some obj" by blast
    then have e: "r = Some obj" "s' = setStateObject obj s"
      using assms by (auto simp: getDeletedStateObject_def load_object_def Let_def split: sum.splits if_splits)
    have a: "so_address obj = a" using o(2) by (rule load_object_address)
    have l: "live s a = Some obj" using o by (simp add: live_def)
    then have "(live s)(a \<mapsto> obj) = live s" by (rule fun_upd_idem)
    moreover have "state_view s' = state_view s" unfolding e using l a by (intro view_setStateObject_same) simp_all
    ultimately show ?thesis using e l a by (simp add: quiet_step_def)
  next
    case False
    have "r = live s a \<and> (s' = s \<or> (\<exists>e. s' = sd_setError e s))"
    proof (cases "map_of (stateObjects s) a")
      case None
      with False have l: "load_object (sd_db s) a = None" by auto
      then have "live s a = None" using None by (simp add: live_def)
      moreover have "r = None \<and> (s' = s \<or> (\<exists>e. s' = sd_setError e s))"
        using assms None l by (auto simp: getDeletedStateObject_def load_object_def split: sum.splits if_splits)
      ultimately show ?thesis by simp
    next
      case (Some obj)
      then have "r = Some obj" "s' = s" using assms by (auto simp: getDeletedStateObject_def)
      with Some show ?thesis by (simp add: live_def)
    qed
    then show ?thesis by (auto simp: quiet_step_def)
  qed
  then show "r = live s a" "live s' = live s" "quiet_step s s'" "ResearchPreAlloc s' = ResearchPreAlloc s" "sd_db s' = sd_db s"
    by simp_all
qed

lemma preAlloc_view [simp]:
  "state_view (s\<lparr>ResearchPreAlloc := p\<rparr>) = state_view s" "live (s\<lparr>ResearchPreAlloc := p\<rparr>) = live s"
  by (rule state_view_cong live_cong; simp)+

lemma getStateObject_view:
  assumes "world_ok (state_view s)" and "getStateObject a s = (r, s')"
  shows "quiet_step s s'" "sd_db s' = sd_db s" "map_option (obj_view (sd_db s)) r = acct (state_view s) a"
    "\<And>obj. r = Some obj \<Longrightarrow> so_address obj = a \<and> live s' a = Some obj"
proof -
  obtain f t where g: "getDeletedStateObject a s = (f, t)" by (cases "getDeletedStateObject a s")
  note d = getDeletedStateObject_live [OF g]
  let ?r = "case f of Some obj \<Rightarrow> if so_deleted obj then None else Some obj | None \<Rightarrow> None"
  have rec: "record_pre a ?r t = (r, s')" using assms(2) g by (simp add: getStateObject_def)
  have acct: "acct (state_view s) a = map_option (obj_view (sd_db s)) ?r"
    unfolding d(1) by (simp add: acct_def split: option.split)
  have "quiet_step t s' \<and> sd_db s' = sd_db s \<and> map_option (obj_view (sd_db s)) r = acct (state_view s) a \<and>
      (\<forall>obj. r = Some obj \<longrightarrow> so_address obj = a \<and> live s' a = Some obj)"
  proof (cases ?r)
    case None
    then have "r = None \<and> (s' = t \<or> (\<exists>p. s' = t\<lparr>ResearchPreAlloc := p\<rparr>))"
      using rec by (auto simp: record_pre_def split: if_splits)
    then show ?thesis using acct None d(5) by (auto simp: quiet_step_def)
  next
    case (Some obj)
    then have l: "live s a = Some obj" "live t a = Some obj" using d(1,2) by (auto split: option.splits if_splits)
    have addr: "so_address obj = a" by (rule world_okD(1) [OF assms(1) l(1)])
    show ?thesis
    proof (cases "mhas (ResearchPreAlloc t) a")
      case True
      then have "r = Some obj" "s' = t" using rec Some by (simp_all add: record_pre_def)
      then show ?thesis using acct Some d(5) addr l by simp
    next
      case False
      obtain c obj' where k: "so_Code (sd_db t) obj = (c, obj')" by (cases "so_Code (sd_db t) obj")
      note v = so_Code_view [OF k]
      have addr': "so_address obj' = a" using arg_cong [OF v(2), of a_address] addr by simp
      from False k have e: "r = Some obj'" "\<exists>p. s' = (setStateObject obj' t)\<lparr>ResearchPreAlloc := p\<rparr>"
        using rec Some by (auto simp: record_pre_def)
      have "state_view (setStateObject obj' t) = state_view t"
        using l(2) v(2) addr' by (intro view_setStateObject_same) simp_all
      then show ?thesis using e acct Some v(2) d(5) addr' by (auto simp: quiet_step_def)
    qed
  qed
  then show "quiet_step s s'" "sd_db s' = sd_db s" "map_option (obj_view (sd_db s)) r = acct (state_view s) a"
    "\<And>obj. r = Some obj \<Longrightarrow> so_address obj = a \<and> live s' a = Some obj"
    using quiet_step_trans [OF d(3)] by simp_all
qed

end
