(* ===== verification/State_Revert.thy ===== *)
theory State_Revert
  imports State_World
begin

text \<open>
  Snapshots of a state are copies of its world. The operations of \<open>StateDB\<close> are compared with an
  abstract machine that has no journal: it keeps the world, and \<open>Snapshot\<close> and \<open>RevertToSnapshot\<close> save
  and restore a copy of it. The two give the same answers to every sequence of operations.
\<close>

section \<open>Reverting as a function of the world\<close>

definition a_put :: "Address \<Rightarrow> account \<Rightarrow> world \<Rightarrow> world" where
  "a_put a x w = w\<lparr>w_accounts := (w_accounts w)(a \<mapsto> x)\<rparr>"

definition a_on :: "Address \<Rightarrow> (account \<Rightarrow> account) \<Rightarrow> world \<Rightarrow> world option" where
  "a_on a f w = map_option (\<lambda>x. a_put a (f x) w) (acct w a)"

definition set_balance :: "int \<Rightarrow> account \<Rightarrow> account" where
  "set_balance b x = x\<lparr>a_data := (a_data x)\<lparr>sa_Balance := b\<rparr>\<rparr>"

definition set_nonce :: "uint64 \<Rightarrow> account \<Rightarrow> account" where
  "set_nonce n x = x\<lparr>a_data := (a_data x)\<lparr>sa_Nonce := n\<rparr>\<rparr>"

definition set_code :: "backend \<Rightarrow> Hash \<Rightarrow> bytes option \<Rightarrow> account \<Rightarrow> account" where
  "set_code db h c x =
     x\<lparr>a_data := (a_data x)\<lparr>sa_CodeHash := Hash_Bytes h\<rparr>, a_code := load_code db (a_addrHash x) (Hash_Bytes h) c\<rparr>"

definition set_slot :: "Hash \<Rightarrow> Hash \<Rightarrow> account \<Rightarrow> account" where
  "set_slot k v x = x\<lparr>a_current := (a_current x)(k := v)\<rparr>"

fun a_revert :: "journalEntry \<Rightarrow> world \<Rightarrow> world option" where
  "a_revert (createObjectChange a) w =
     Some (w\<lparr>w_accounts := (w_accounts w)(a := map_option (obj_view (w_db w)) (load_object (w_db w) a))\<rparr>)"
| "a_revert (resetObjectChange prev prevdestruct) w = Some (a_put (so_address prev) (obj_view (w_db w) prev) w)"
| "a_revert (suicideChange a prev b) w =
     (case acct w a of None \<Rightarrow> Some w | Some x \<Rightarrow> Some (a_put a (set_balance b (x\<lparr>a_suicided := prev\<rparr>)) w))"
| "a_revert (touchChange a) w = Some w"
| "a_revert (balanceChange a b) w = a_on a (set_balance b) w"
| "a_revert (nonceChange a n) w = a_on a (set_nonce n) w"
| "a_revert (codeChange a c h) w = a_on a (set_code (w_db w) (BytesToHash h) c) w"
| "a_revert (storageChange a k v) w = a_on a (set_slot k v) w"
| "a_revert (refundChange r) w = Some (w\<lparr>w_refund := r\<rparr>)"
| "a_revert (addLogChange h) w =
     (if w_logs w h = [] then None
      else Some (w\<lparr>w_logs := (w_logs w)(h := butlast (w_logs w h)), w_logSize := w_logSize w - 1\<rparr>))"
| "a_revert (addPreimageChange h) w = Some (w\<lparr>w_preimages := (w_preimages w)(h := None)\<rparr>)"
| "a_revert (accessListAddAccountChange a) w = Some (w\<lparr>w_accessList := DeleteAddress a (w_accessList w)\<rparr>)"
| "a_revert (accessListAddSlotChange a k) w =
     (case DeleteSlot a k (w_accessList w) of Inl _ \<Rightarrow> None | Inr al \<Rightarrow> Some (w\<lparr>w_accessList := al\<rparr>))"

definition a_undo :: "journalEntry list \<Rightarrow> world \<Rightarrow> world option" where
  "a_undo es w = foldr (\<lambda>e r. Option.bind r (a_revert e)) es (Some w)"

lemma a_undo_Nil [simp]: "a_undo [] w = Some w"
  by (simp add: a_undo_def)

lemma foldr_None: "foldr (\<lambda>e r. Option.bind r (a_revert e)) es None = None"
  by (induction es) simp_all

lemma a_undo_append: "a_undo (xs @ ys) w = Option.bind (a_undo ys w) (a_undo xs)"
  by (cases "a_undo ys w") (simp_all add: a_undo_def foldr_None)

lemma a_undo_snoc: "a_undo (xs @ [e]) w = Option.bind (a_revert e w) (a_undo xs)"
  by (simp add: a_undo_append) (simp add: a_undo_def)

definition entry_ok :: "journalEntry \<Rightarrow> bool" where
  "entry_ok e = (case e of
     resetObjectChange prev _ \<Rightarrow> length (sa_CodeHash (so_data prev)) = 32 \<and> fakeStorage prev = None | _ \<Rightarrow> True)"

definition account_ok :: "Address \<Rightarrow> account \<Rightarrow> bool" where
  "account_ok a x \<longleftrightarrow> a_address x = a \<and> length (sa_CodeHash (a_data x)) = 32 \<and> \<not> a_fake x"

lemma length_Hash_Bytes: "length (Hash_Bytes h) = 32"
  by (simp add: length_word_bytes)

lemma world_ok_put: "world_ok w \<Longrightarrow> account_ok a x \<Longrightarrow> world_ok (a_put a x w)"
  by (simp add: world_ok_def a_put_def account_ok_def)

lemma acct_ok:
  assumes "world_ok w" and "acct w a = Some x"
  shows "account_ok a x" "\<not> a_deleted x" "w_accounts w a = Some x"
proof -
  show w: "w_accounts w a = Some x" and "\<not> a_deleted x"
    using assms(2) by (auto simp: acct_def split: option.splits if_splits)
  from w assms(1) show "account_ok a x" unfolding world_ok_def account_ok_def by blast
qed

lemma account_ok_set [simp]:
  "account_ok a (set_balance b x) \<longleftrightarrow> account_ok a x" "account_ok a (set_nonce n x) \<longleftrightarrow> account_ok a x"
  "account_ok a x \<Longrightarrow> account_ok a (set_code db h c x)" "account_ok a (set_slot k v x) \<longleftrightarrow> account_ok a x"
  "account_ok a (x\<lparr>a_suicided := b'\<rparr>) \<longleftrightarrow> account_ok a x"
  by (simp_all add: account_ok_def set_balance_def set_nonce_def set_code_def set_slot_def length_Hash_Bytes)

lemma world_ok_on:
  assumes "world_ok w" and "\<And>x. account_ok a x \<Longrightarrow> account_ok a (f x)" and "a_on a f w = Some w'"
  shows "world_ok w'"
  using assms acct_ok(1) [OF assms(1)] by (auto simp: a_on_def intro: world_ok_put)

lemma a_revert_ok:
  assumes "world_ok w" and "entry_ok e" and "a_revert e w = Some w'"
  shows "world_ok w'"
proof (cases e)
  case (createObjectChange a)
  have "length (sa_CodeHash (so_data obj)) = 32 \<and> so_address obj = a \<and> fakeStorage obj = None"
    if "load_object (w_db w) a = Some obj" for obj
  proof -
    have "fakeStorage obj = None"
      using that by (auto simp: load_object_def newObject_def Let_def split: sum.splits if_splits)
    with that assms(1) show ?thesis
      unfolding world_ok_def backend_ok_def using load_object_address by blast
  qed
  with assms(1,3) createObjectChange show ?thesis
    by (auto simp: world_ok_def split: if_splits)
next
  case (suicideChange a p b)
  with assms acct_ok(1) [OF assms(1), of a] show ?thesis
    by (auto split: option.splits intro: world_ok_put)
next
  case (resetObjectChange prev d)
  with assms show ?thesis
    by (auto simp: entry_ok_def account_ok_def intro: world_ok_put)
next
  case (balanceChange a b)
  then show ?thesis using world_ok_on [OF assms(1), of a "set_balance b"] assms(3) by simp
next
  case (nonceChange a n)
  then show ?thesis using world_ok_on [OF assms(1), of a "set_nonce n"] assms(3) by simp
next
  case (codeChange a c h)
  then show ?thesis using world_ok_on [OF assms(1), of a "set_code (w_db w) (BytesToHash h) c"] assms(3) by simp
next
  case (storageChange a k v)
  then show ?thesis using world_ok_on [OF assms(1), of a "set_slot k v"] assms(3) by simp
qed (use assms in \<open>auto simp: world_ok_def split: if_splits sum.splits\<close>)

section \<open>The journal refines reverting\<close>

lemma on_object_view:
  assumes "world_ok (state_view s)"
    and "\<And>obj. fakeStorage obj = None \<Longrightarrow> obj_view (sd_db s) (f obj) = g (obj_view (sd_db s) obj)"
    and "\<And>obj. so_address (f obj) = so_address obj"
  shows "case on_object a f s of
      Inl _ \<Rightarrow> a_on a g (state_view s) = None
    | Inr s' \<Rightarrow> a_on a g (state_view s) = Some (state_view s') \<and> sd_journal s' = sd_journal s \<and>
        validRevisions s' = validRevisions s \<and> nextRevisionId s' = nextRevisionId s"
proof -
  obtain r t where g: "getStateObject a s = (r, t)" by (cases "getStateObject a s")
  note v = getStateObject_view [OF assms(1) g]
  have q: "state_view t = state_view s" "sd_journal t = sd_journal s" "validRevisions t = validRevisions s"
    "nextRevisionId t = nextRevisionId s" using v(1) by (simp_all add: quiet_step_def)
  show ?thesis
  proof (cases r)
    case None
    then show ?thesis using g v(3) by (simp add: on_object_def a_on_def)
  next
    case (Some obj)
    then have l: "so_address obj = a" "live t a = Some obj" using v(4) by simp_all
    have "fakeStorage obj = None" using world_okD(3) [of t a obj] l(2) assms(1) q(1) by simp
    then have "state_view (setStateObject (f obj) t) = a_put a (g (obj_view (sd_db s) obj)) (state_view s)"
      unfolding view_setStateObject a_put_def using q(1) v(2) l(1) assms(2,3) by simp
    then show ?thesis using Some g v(3) q by (simp add: on_object_def a_on_def flip: v(3))
  qed
qed

lemma view_setters:
  "obj_view db (so_setBalance b obj) = set_balance b (obj_view db obj)"
  "obj_view db (so_setNonce n obj) = set_nonce n (obj_view db obj)"
  "obj_view db (so_setCode h c obj) = set_code db h c (obj_view db obj)"
  "fakeStorage obj = None \<Longrightarrow> obj_view db (so_setState k v obj) = set_slot k v (obj_view db obj)"
  by (simp_all add: obj_view_setBalance obj_view_setNonce obj_view_setCode obj_view_setState set_balance_def
      set_nonce_def set_code_def set_slot_def)

lemma setter_simps [simp]:
  "so_address (so_setBalance b obj) = so_address obj" "so_address (so_setNonce n obj) = so_address obj"
  "so_address (so_setCode h c obj) = so_address obj" "so_address (so_setState k v obj) = so_address obj"
  by (simp_all add: so_setBalance_def so_setNonce_def so_setCode_def so_setState_def)

definition same_frame :: "StateDB \<Rightarrow> StateDB \<Rightarrow> bool" where
  "same_frame s s' \<longleftrightarrow> sd_journal s' = sd_journal s \<and> validRevisions s' = validRevisions s \<and>
     nextRevisionId s' = nextRevisionId s"

lemma view_delete_object:
  "state_view (s\<lparr>stateObjects := AList.delete a (stateObjects s), stateObjectsDirty := d\<rparr>) =
     (state_view s)\<lparr>w_accounts := (w_accounts (state_view s))
        (a := map_option (obj_view (sd_db s)) (load_object (sd_db s) a))\<rparr>"
proof -
  let ?t = "s\<lparr>stateObjects := AList.delete a (stateObjects s), stateObjectsDirty := d\<rparr>"
  have "live ?t = (live s)(a := load_object (sd_db s) a)"
    by (auto simp: live_def fun_eq_iff delete_conv' split: option.splits)
  then show ?thesis by (auto simp: state_view_def)
qed

lemma view_updates [simp]:
  "state_view (s\<lparr>sd_refund := r\<rparr>) = (state_view s)\<lparr>w_refund := r\<rparr>"
  "state_view (s\<lparr>preimages := p\<rparr>) = (state_view s)\<lparr>w_preimages := map_of p\<rparr>"
  "state_view (s\<lparr>sd_accessList := al\<rparr>) = (state_view s)\<lparr>w_accessList := al\<rparr>"
  "state_view (s\<lparr>sd_logs := l, sd_logSize := n\<rparr>) = (state_view s)\<lparr>w_logs := mget [] l, w_logSize := n\<rparr>"
  "state_view (s\<lparr>sd_journal := j\<rparr>) = state_view s"
  "state_view (s\<lparr>validRevisions := v\<rparr>) = state_view s"
  "state_view (s\<lparr>nextRevisionId := i, validRevisions := v\<rparr>) = state_view s"
proof -
  have l: "live (s\<lparr>sd_refund := r\<rparr>) = live s" "live (s\<lparr>preimages := p\<rparr>) = live s"
    "live (s\<lparr>sd_accessList := al\<rparr>) = live s" "live (s\<lparr>sd_logs := l, sd_logSize := n\<rparr>) = live s"
    "live (s\<lparr>sd_journal := j\<rparr>) = live s" "live (s\<lparr>validRevisions := v\<rparr>) = live s"
    "live (s\<lparr>nextRevisionId := i, validRevisions := v\<rparr>) = live s"
    by (rule live_cong; simp)+
  show "state_view (s\<lparr>sd_refund := r\<rparr>) = (state_view s)\<lparr>w_refund := r\<rparr>"
    "state_view (s\<lparr>preimages := p\<rparr>) = (state_view s)\<lparr>w_preimages := map_of p\<rparr>"
    "state_view (s\<lparr>sd_accessList := al\<rparr>) = (state_view s)\<lparr>w_accessList := al\<rparr>"
    "state_view (s\<lparr>sd_logs := l, sd_logSize := n\<rparr>) = (state_view s)\<lparr>w_logs := mget [] l, w_logSize := n\<rparr>"
    "state_view (s\<lparr>sd_journal := j\<rparr>) = state_view s" "state_view (s\<lparr>validRevisions := v\<rparr>) = state_view s"
    "state_view (s\<lparr>nextRevisionId := i, validRevisions := v\<rparr>) = state_view s"
    by (simp_all add: state_view_def l)
qed

lemma entry_revert_view:
  assumes "world_ok (state_view s)"
  shows "case entry_revert e s of
      Inl _ \<Rightarrow> a_revert e (state_view s) = None
    | Inr s' \<Rightarrow> a_revert e (state_view s) = Some (state_view s') \<and> same_frame s s'"
proof (cases e)
  case (createObjectChange a)
  then show ?thesis by (simp add: view_delete_object same_frame_def)
next
  case (resetObjectChange prev d)
  then show ?thesis by (simp add: view_setStateObject a_put_def same_frame_def)
next
  case (suicideChange a p b)
  obtain r t where g: "getStateObject a s = (r, t)" by (cases "getStateObject a s")
  note v = getStateObject_view [OF assms g]
  have q: "state_view t = state_view s" "same_frame s t" using v(1) by (simp_all add: quiet_step_def same_frame_def)
  show ?thesis
  proof (cases r)
    case None
    then show ?thesis using suicideChange g v(3) q by simp
  next
    case (Some obj)
    then have "state_view (setStateObject (so_setBalance b (obj\<lparr>suicided := p\<rparr>)) t) =
        a_put a (set_balance b ((obj_view (sd_db s) obj)\<lparr>a_suicided := p\<rparr>)) (state_view s)"
      unfolding view_setStateObject using v(2,4) q by (simp add: view_setters obj_view_suicided a_put_def)
    then show ?thesis using Some suicideChange g q by (simp add: same_frame_def flip: v(3))
  qed
next
  case (balanceChange a b)
  then show ?thesis
    using on_object_view [OF assms, of "so_setBalance b" "set_balance b" a]
    by (simp add: view_setters same_frame_def split: sum.splits)
next
  case (nonceChange a n)
  then show ?thesis
    using on_object_view [OF assms, of "so_setNonce n" "set_nonce n" a]
    by (simp add: view_setters same_frame_def split: sum.splits)
next
  case (codeChange a c h)
  then show ?thesis
    using on_object_view [OF assms, of "so_setCode (BytesToHash h) c" "set_code (sd_db s) (BytesToHash h) c" a]
    by (simp add: view_setters same_frame_def split: sum.splits)
next
  case (storageChange a k v)
  then show ?thesis
    using on_object_view [OF assms, of "so_setState k v" "set_slot k v" a]
    by (simp add: view_setters same_frame_def split: sum.splits)
next
  case (addLogChange h)
  let ?l = "mget [] (sd_logs s) h"
  have "mget [] (if length ?l = 1 then AList.delete h (sd_logs s) else mput h (butlast ?l) (sd_logs s)) =
      (mget [] (sd_logs s))(h := butlast ?l)"
  proof (cases "length ?l = 1")
    case True
    then obtain x where "?l = [x]" by (auto simp: length_Suc_conv)
    then show ?thesis by (auto simp: fun_eq_iff mget_def delete_conv')
  qed (auto simp: fun_eq_iff gomap_simps)
  then show ?thesis using addLogChange by (simp add: Let_def same_frame_def)
next
  case (addPreimageChange h)
  then show ?thesis by (simp add: same_frame_def delete_conv')
next
  case (accessListAddSlotChange a k)
  then show ?thesis by (cases "DeleteSlot a k (sd_accessList s)") (simp_all add: same_frame_def)
qed (simp_all add: same_frame_def)

text \<open>Reverting a suffix of the journal.\<close>

lemma undo_run:
  assumes "world_ok (state_view s)" and "\<forall>e \<in> set es. entry_ok e"
  shows "case go_fold (\<lambda>e s. go_bind (entry_revert e s) (\<lambda>s. Inr (s\<lparr>sd_journal := undirty e (sd_journal s)\<rparr>))) (rev es) s of
      Inl _ \<Rightarrow> a_undo es (state_view s) = None
    | Inr s' \<Rightarrow> a_undo es (state_view s) = Some (state_view s') \<and> j_entries (sd_journal s') = j_entries (sd_journal s) \<and>
        validRevisions s' = validRevisions s \<and> nextRevisionId s' = nextRevisionId s"
  using assms
proof (induction es arbitrary: s rule: rev_induct)
  case (snoc e es)
  show ?case
  proof (cases "entry_revert e s")
    case (Inl p)
    then show ?thesis using entry_revert_view [OF snoc.prems(1), of e] by (simp add: a_undo_snoc)
  next
    case (Inr t)
    let ?t = "t\<lparr>sd_journal := undirty e (sd_journal t)\<rparr>"
    have v: "a_revert e (state_view s) = Some (state_view ?t)" "same_frame s t"
      using entry_revert_view [OF snoc.prems(1), of e] Inr by simp_all
    have "world_ok (state_view ?t)" using a_revert_ok [OF snoc.prems(1) _ v(1)] snoc.prems(2) by simp
    note IH = snoc.IH [OF this]
    have "j_entries (sd_journal ?t) = j_entries (sd_journal s)"
      using v(2) by (auto simp: same_frame_def undirty_def Let_def split: option.splits)
    with IH snoc.prems(2) v Inr show ?thesis
      by (simp add: a_undo_snoc same_frame_def split: sum.splits)
  qed
qed simp

end
