(* ===== verification/State_Refine.thy ===== *)
theory State_Refine
  imports State_Revert
begin

text \<open>
  The operations of \<open>StateDB\<close> on the world, one by one, and the comparison with the machine that saves
  copies: every operation appends to the journal what is needed to undo it.
\<close>

section \<open>Journalled steps\<close>

abbreviation entries :: "StateDB \<Rightarrow> journalEntry list" where
  "entries s \<equiv> j_entries (sd_journal s)"

definition good :: "StateDB \<Rightarrow> bool" where
  "good s \<longleftrightarrow> world_ok (state_view s) \<and> al_ok (sd_accessList s)"

text \<open>A step appends entries whose undoing gives the world before it.\<close>

definition logged :: "StateDB \<Rightarrow> StateDB \<Rightarrow> bool" where
  "logged s s' \<longleftrightarrow> good s' \<and> validRevisions s' = validRevisions s \<and> nextRevisionId s' = nextRevisionId s \<and>
     (\<exists>es. entries s' = entries s @ es \<and> (\<forall>e \<in> set es. entry_ok e) \<and>
       a_undo es (state_view s') = Some (state_view s))"

lemma logged_refl: "good s \<Longrightarrow> logged s s"
  by (simp add: logged_def)

lemma logged_trans:
  assumes "logged s t" and "logged t u"
  shows "logged s u"
proof -
  from assms(1) obtain es where es: "entries t = entries s @ es" "\<forall>e \<in> set es. entry_ok e"
    "a_undo es (state_view t) = Some (state_view s)" unfolding logged_def by blast
  from assms(2) obtain fs where fs: "entries u = entries t @ fs" "\<forall>e \<in> set fs. entry_ok e"
    "a_undo fs (state_view u) = Some (state_view t)" unfolding logged_def by blast
  have "entries u = entries s @ (es @ fs)" "\<forall>e \<in> set (es @ fs). entry_ok e"
    "a_undo (es @ fs) (state_view u) = Some (state_view s)"
    using es fs by (auto simp: a_undo_append)
  then show ?thesis using assms unfolding logged_def by (intro conjI exI [of _ "es @ fs"]) simp_all
qed

lemma al_ok_view: "state_view s' = state_view s \<Longrightarrow> sd_accessList s' = sd_accessList s"
  by (metis state_view_simps(6))

lemma logged_quiet: "good s \<Longrightarrow> quiet_step s s' \<Longrightarrow> logged s s'"
  using al_ok_view [of s' s] by (simp add: logged_def good_def quiet_step_def)

lemma logged_entry:
  assumes "good s'" and "entries s' = entries s @ [e]" and "validRevisions s' = validRevisions s"
    and "nextRevisionId s' = nextRevisionId s" and "entry_ok e" and "a_revert e (state_view s') = Some (state_view s)"
  shows "logged s s'"
  unfolding logged_def using assms by (intro conjI exI [of _ "[e]"]) (simp_all add: a_undo_def)

text \<open>Writing an object after appending the entry that restores it.\<close>

lemma logged_write:
  assumes "good s" and "account_ok (so_address obj) (obj_view (sd_db s) obj)" and "entry_ok e"
    and "a_revert e (a_put (so_address obj) (obj_view (sd_db s) obj) (state_view s)) = Some (state_view s)"
  shows "logged s (setStateObject obj (sd_append e s))"
    "state_view (setStateObject obj (sd_append e s)) = a_put (so_address obj) (obj_view (sd_db s) obj) (state_view s)"
proof -
  show v: "state_view (setStateObject obj (sd_append e s)) = a_put (so_address obj) (obj_view (sd_db s) obj) (state_view s)"
    by (simp add: view_setStateObject a_put_def)
  have "good (setStateObject obj (sd_append e s))"
    using assms(1,2) v by (simp add: good_def world_ok_put)
  then show "logged s (setStateObject obj (sd_append e s))"
    using assms(3,4) v by (intro logged_entry [of _ _ e]) simp_all
qed

section \<open>Creating accounts\<close>

definition fresh_account :: "backend \<Rightarrow> Address \<Rightarrow> account" where
  "fresh_account db a =
     \<lparr>a_address = a, a_addrHash = bk_Keccak256 db (Address_Bytes a),
      a_data = \<lparr>sa_Nonce = 0, sa_Balance = 0, sa_Root = emptyRoot, sa_CodeHash = emptyCodeHash db\<rparr>,
      a_code = None, a_committed = (\<lambda>_. 0), a_current = (\<lambda>_. 0), a_suicided = False, a_deleted = False, a_fake = False\<rparr>"

lemma newObject_view: "obj_view db (newObject db a zeroAccount True) = fresh_account db a"
proof -
  define n where "n = newObject db a zeroAccount True"
  have n: "fakeStorage n = None" "pendingStorage n = []" "originStorage n = []" "dirtyStorage n = []"
    "so_addrHash n = bk_Keccak256 db (Address_Bytes a)" "so_address n = a" "so_code n = None" "suicided n = False"
    "so_deleted n = False"
    "so_data n = \<lparr>sa_Nonce = 0, sa_Balance = 0, sa_Root = emptyRoot, sa_CodeHash = emptyCodeHash db\<rparr>"
    by (simp_all add: n_def newObject_def zeroAccount_def Let_def)
  have c: "committed_value db n = (\<lambda>_. 0)"
    unfolding committed_value_def n by (simp add: trie_value_def open_trie_def)
  have "current_value db n = (\<lambda>_. 0)" unfolding current_value_def n c by simp
  with c show ?thesis
    unfolding n_def [symmetric] obj_view_def n fresh_account_def load_code_def by simp
qed

lemma fresh_account_ok: "account_ok a (fresh_account db a)"
  by (simp add: account_ok_def fresh_account_def emptyCodeHash_def length_Hash_Bytes)

lemma newObject_address [simp]: "so_address (newObject db a d b) = a"
  by (simp add: newObject_def Let_def)

lemma a_put_same: "w_accounts w a = Some x \<Longrightarrow> a_put a x w = w"
  by (simp add: a_put_def fun_upd_idem)

lemma a_put_put [simp]: "a_put a x (a_put a y w) = a_put a x w"
  by (simp add: a_put_def)

lemma a_put_simps [simp]: "w_accounts (a_put a x w) = (w_accounts w)(a \<mapsto> x)" "w_db (a_put a x w) = w_db w"
  by (simp_all add: a_put_def)

lemma acct_put: "\<not> a_deleted x \<Longrightarrow> acct (a_put a x w) a = Some x"
  by (simp add: acct_def)

lemma a_put_remove: "w_accounts w a = None \<Longrightarrow> (a_put a x w)\<lparr>w_accounts := (w_accounts (a_put a x w))(a := None)\<rparr> = w"
  by (simp add: a_put_def fun_upd_idem)

lemma createObject_view:
  assumes "good s" and "createObject a s = (obj, prev, s')"
  shows "logged s s'" "state_view s' = a_put a (fresh_account (sd_db s) a) (state_view s)"
    "obj_view (sd_db s) obj = fresh_account (sd_db s) a" "so_address obj = a" "live s' a = Some obj" "sd_db s' = sd_db s"
    "map_option (obj_view (sd_db s)) prev = acct (state_view s) a"
proof -
  obtain p t where g: "getDeletedStateObject a s = (p, t)" by (cases "getDeletedStateObject a s")
  note d = getDeletedStateObject_live [OF g]
  have t: "good t" "logged s t" "state_view t = state_view s"
    using logged_quiet [OF assms(1) d(3)] d(3) by (simp_all add: logged_def quiet_step_def)
  define e where "e = (case p of None \<Rightarrow> createObjectChange a | Some p \<Rightarrow> resetObjectChange p False)"
  have r: "obj = newObject (sd_db s) a zeroAccount True" "s' = setStateObject obj (sd_append e t)"
    "prev = (case p of Some p \<Rightarrow> if so_deleted p then None else Some p | None \<Rightarrow> None)"
    using assms(2) g d(5) by (auto simp: createObject_def e_def Let_def)
  show o: "obj_view (sd_db s) obj = fresh_account (sd_db s) a" "so_address obj = a" "live s' a = Some obj"
    "sd_db s' = sd_db s"
    using r d(5) by (simp_all add: newObject_view)
  show "map_option (obj_view (sd_db s)) prev = acct (state_view s) a"
    unfolding r(3) d(1) by (simp add: acct_def split: option.split)
  have ok: "world_ok (state_view t)" using t(1) by (simp add: good_def)
  have e: "entry_ok e \<and> a_revert e (a_put a (fresh_account (sd_db s) a) (state_view t)) = Some (state_view t)"
  proof (cases p)
    case None
    then have n: "w_accounts (state_view t) a = None" using d(1,2) by simp
    with ok have "load_object (sd_db t) a = None" unfolding world_ok_def by simp
    then show ?thesis using None a_put_remove [OF n] by (simp add: e_def entry_ok_def)
  next
    case (Some q)
    then have l: "live t a = Some q" using d(1,2) by simp
    then show ?thesis using Some world_okD [OF ok l] by (simp add: e_def entry_ok_def a_put_same)
  qed
  have "logged t s'" "state_view s' = a_put a (fresh_account (sd_db s) a) (state_view t)"
    using logged_write [of t obj e] t(1) o e d(5) fresh_account_ok r(2) by simp_all
  then show "logged s s'" "state_view s' = a_put a (fresh_account (sd_db s) a) (state_view s)"
    using logged_trans [OF t(2)] t(3) by simp_all
qed

definition a_get :: "Address \<Rightarrow> world \<Rightarrow> account" where
  "a_get a w = (case acct w a of Some x \<Rightarrow> x | None \<Rightarrow> fresh_account (w_db w) a)"

lemma GetOrNew_view:
  assumes "good s" and "GetOrNewStateObject a s = (obj, s')"
  shows "logged s s'" "state_view s' = a_put a (a_get a (state_view s)) (state_view s)" "sd_db s' = sd_db s"
    "obj_view (sd_db s) obj = a_get a (state_view s)" "so_address obj = a" "live s' a = Some obj"
proof -
  have ok: "world_ok (state_view s)" using assms(1) by (simp add: good_def)
  obtain r t where g: "getStateObject a s = (r, t)" by (cases "getStateObject a s")
  note v = getStateObject_view [OF ok g]
  have t: "logged s t" "state_view t = state_view s" "good t"
    using logged_quiet [OF assms(1) v(1)] v(1) by (simp_all add: logged_def quiet_step_def)
  have "logged s s' \<and> state_view s' = a_put a (a_get a (state_view s)) (state_view s) \<and> sd_db s' = sd_db s \<and>
    obj_view (sd_db s) obj = a_get a (state_view s) \<and> so_address obj = a \<and> live s' a = Some obj"
  proof (cases r)
    case (Some q)
    then have e: "obj = q" "s' = t" using assms(2) g by (simp_all add: GetOrNewStateObject_def)
    have x: "acct (state_view s) a = Some (obj_view (sd_db s) q)" using v(3) Some by simp
    then have "a_get a (state_view s) = obj_view (sd_db s) q" by (simp add: a_get_def)
    then show ?thesis using e t v(2,4) Some a_put_same [OF acct_ok(3) [OF ok x]] by simp
  next
    case None
    obtain o' p u where c: "createObject a t = (o', p, u)" by (cases "createObject a t")
    have e: "obj = o'" "s' = u" using assms(2) g None c by (simp_all add: GetOrNewStateObject_def)
    have "a_get a (state_view s) = fresh_account (sd_db s) a" using v(3) None by (simp add: a_get_def)
    then show ?thesis using createObject_view [OF t(3) c] e v(2) logged_trans [OF t(1)] t(2) by simp
  qed
  then show "logged s s'" "state_view s' = a_put a (a_get a (state_view s)) (state_view s)" "sd_db s' = sd_db s"
    "obj_view (sd_db s) obj = a_get a (state_view s)" "so_address obj = a" "live s' a = Some obj" by simp_all
qed

section \<open>Writing\<close>

lemma set_undo [simp]:
  "set_balance (sa_Balance (a_data x)) (set_balance b x) = x" "set_nonce (sa_Nonce (a_data x)) (set_nonce n x) = x"
  "set_slot k (a_current x k) (set_slot k v x) = x"
  by (simp_all add: set_balance_def set_nonce_def set_slot_def)

lemma set_code_undo:
  assumes "length (sa_CodeHash (a_data x)) = 32"
    and "load_code db (a_addrHash x) (sa_CodeHash (a_data x)) (a_code x) = a_code x"
  shows "set_code db (BytesToHash (sa_CodeHash (a_data x))) (a_code x) (set_code db h c x) = x"
  using assms by (simp add: set_code_def SetBytes_id)

lemma set_simps [simp]:
  "a_deleted (set_balance b x) = a_deleted x" "a_deleted (set_nonce n x) = a_deleted x"
  "a_deleted (set_code db h c x) = a_deleted x" "a_deleted (set_slot k v x) = a_deleted x"
  by (simp_all add: set_balance_def set_nonce_def set_code_def set_slot_def)

lemma a_on_undo:
  assumes "w_accounts w a = Some x" and "\<not> a_deleted y" and "f y = x"
  shows "a_on a f (a_put a y w) = Some w"
  using assms by (simp add: a_on_def acct_put a_put_same)

text \<open>An account that was looked up or created, written back with a change that its entry undoes.\<close>

lemma a_get_ok:
  assumes "world_ok w"
  shows "account_ok a (a_get a w)" "\<not> a_deleted (a_get a w)"
  using acct_ok [OF assms, of a] fresh_account_ok [of a "w_db w"]
  by (auto simp: a_get_def fresh_account_def split: option.split)

lemma logged_change:
  assumes "good s" and "GetOrNewStateObject a s = (obj, t)" and "so_address obj' = a"
    and "account_ok a (obj_view (sd_db s) obj')" and "entry_ok e"
    and "a_revert e (a_put a (obj_view (sd_db s) obj') (state_view t)) = Some (state_view t)"
  shows "logged s (setStateObject obj' (sd_append e t)) \<and>
    state_view (setStateObject obj' (sd_append e t)) = a_put a (obj_view (sd_db s) obj') (state_view s)"
proof -
  note g = GetOrNew_view [OF assms(1,2)]
  have t: "good t" using g(1) by (simp add: logged_def)
  have "logged t (setStateObject obj' (sd_append e t))"
    "state_view (setStateObject obj' (sd_append e t)) = a_put a (obj_view (sd_db s) obj') (state_view t)"
    using logged_write [OF t, of obj' e] assms(3-6) g(3) by simp_all
  then show ?thesis using logged_trans [OF g(1)] g(2) by simp
qed

lemma GetOrNew_account:
  assumes "good s" and "GetOrNewStateObject a s = (obj, t)"
  shows "w_accounts (state_view t) a = Some (a_get a (state_view s))" "account_ok a (a_get a (state_view s))"
    "\<not> a_deleted (a_get a (state_view s))" "fakeStorage obj = None" "so_data obj = a_data (a_get a (state_view s))"
proof -
  note g = GetOrNew_view [OF assms]
  have ok: "world_ok (state_view s)" using assms(1) by (simp add: good_def)
  show "w_accounts (state_view t) a = Some (a_get a (state_view s))" unfolding g(2) by simp
  show k: "account_ok a (a_get a (state_view s))" "\<not> a_deleted (a_get a (state_view s))" by (rule a_get_ok [OF ok])+
  show "fakeStorage obj = None" using k(1) unfolding g(4) [symmetric] account_ok_def by simp
  show "so_data obj = a_data (a_get a (state_view s))" unfolding g(4) [symmetric] by simp
qed

definition a_change :: "Address \<Rightarrow> (account \<Rightarrow> account) \<Rightarrow> world \<Rightarrow> world" where
  "a_change a f w = a_put a (f (a_get a w)) w"

lemma SetBalance_view:
  assumes "good s" and "GetOrNewStateObject a s = (obj, t)"
  shows "logged s (so_SetBalance b obj t) \<and> state_view (so_SetBalance b obj t) = a_change a (set_balance b) (state_view s)"
proof -
  note g = GetOrNew_view [OF assms] and x = GetOrNew_account [OF assms]
  show ?thesis
    using logged_change [OF assms, of "so_setBalance b obj" "balanceChange a (sa_Balance (so_data obj))"] g(4,5) x
      a_on_undo [OF x(1)]
    by (simp add: so_SetBalance_def view_setters a_change_def entry_ok_def)
qed

lemma sd_SetBalance_view:
  "good s \<Longrightarrow> logged s (sd_SetBalance a b s) \<and> state_view (sd_SetBalance a b s) = a_change a (set_balance b) (state_view s)"
  using SetBalance_view by (simp add: sd_SetBalance_def split: prod.split)

lemma set_balance_same: "set_balance (sa_Balance (a_data x)) x = x"
  by (simp add: set_balance_def)

lemma GetOrNew_logged:
  assumes "good s" and "GetOrNewStateObject a s = (obj, t)"
  shows "logged s t \<and> state_view t = a_change a (\<lambda>x. set_balance (sa_Balance (a_data x)) x) (state_view s)"
  using GetOrNew_view [OF assms] by (simp add: a_change_def set_balance_same)

lemma a_change_balance:
  "sa_Balance (a_data (a_get a w)) = b \<Longrightarrow> a_change a (\<lambda>x. set_balance (sa_Balance (a_data x) + c) x) w =
     a_change a (set_balance (b + c)) w"
  by (simp add: a_change_def)

lemma touch_logged:
  assumes "good s"
  shows "logged s (so_touch obj s) \<and> state_view (so_touch obj s) = state_view s"
proof -
  have "entries (so_touch obj s) = entries s @ [touchChange (so_address obj)]"
    "state_view (so_touch obj s) = state_view s" "validRevisions (so_touch obj s) = validRevisions s"
    "nextRevisionId (so_touch obj s) = nextRevisionId s"
    by (simp_all add: so_touch_def Let_def j_dirty_def)
  moreover from this(2) have "good (so_touch obj s)" using assms al_ok_view [of "so_touch obj s" s] by (simp add: good_def)
  ultimately show ?thesis
    by (intro conjI logged_entry [of "so_touch obj s" s "touchChange (so_address obj)"]) (simp_all add: entry_ok_def)
qed

lemma sd_AddBalance_view:
  assumes "good s"
  shows "logged s (sd_AddBalance a b s) \<and>
    state_view (sd_AddBalance a b s) = a_change a (\<lambda>x. set_balance (sa_Balance (a_data x) + b) x) (state_view s)"
proof -
  obtain obj t where g: "GetOrNewStateObject a s = (obj, t)" by (cases "GetOrNewStateObject a s")
  have d: "so_data obj = a_data (a_get a (state_view s))" by (rule GetOrNew_account(5) [OF assms g])
  have r: "sd_AddBalance a b s = so_AddBalance b obj t" using g by (simp add: sd_AddBalance_def)
  show ?thesis
  proof (cases "b = 0")
    case True
    have l: "logged s t" "state_view t = a_change a (\<lambda>x. set_balance (sa_Balance (a_data x)) x) (state_view s)"
      using GetOrNew_logged [OF assms g] by simp_all
    then have "good t" by (simp add: logged_def)
    with l touch_logged [of t obj] logged_trans [OF l(1)] show ?thesis
      unfolding r so_AddBalance_def using True by auto
  next
    case False
    then show ?thesis
      unfolding r so_AddBalance_def using SetBalance_view [OF assms g] d by (simp add: a_change_def)
  qed
qed

lemma sd_SubBalance_view:
  assumes "good s"
  shows "logged s (sd_SubBalance a b s) \<and>
    state_view (sd_SubBalance a b s) = a_change a (\<lambda>x. set_balance (sa_Balance (a_data x) - b) x) (state_view s)"
proof -
  obtain obj t where g: "GetOrNewStateObject a s = (obj, t)" by (cases "GetOrNewStateObject a s")
  have d: "so_data obj = a_data (a_get a (state_view s))" by (rule GetOrNew_account(5) [OF assms g])
  show ?thesis
    using GetOrNew_logged [OF assms g] SetBalance_view [OF assms g] d g
    by (simp add: sd_SubBalance_def so_SubBalance_def a_change_def)
qed

lemma sd_SetNonce_view:
  assumes "good s"
  shows "logged s (sd_SetNonce a n s) \<and> state_view (sd_SetNonce a n s) = a_change a (set_nonce n) (state_view s)"
proof -
  obtain obj t where g: "GetOrNewStateObject a s = (obj, t)" by (cases "GetOrNewStateObject a s")
  note v = GetOrNew_view [OF assms g] and x = GetOrNew_account [OF assms g]
  show ?thesis
    using logged_change [OF assms g, of "so_setNonce n obj" "nonceChange a (sa_Nonce (so_data obj))"] v(4,5) x
      a_on_undo [OF x(1)] g
    by (simp add: sd_SetNonce_def so_SetNonce_def view_setters a_change_def entry_ok_def)
qed

lemma load_code_idem: "load_code db h c (load_code db h c d) = load_code db h c d"
  by (simp add: load_code_def split: option.split sum.split)

lemma load_code_empty: "load_code db h (emptyCodeHash db) None = None"
  by (simp add: load_code_def)

lemma sd_SetCode_view:
  assumes "good s"
  shows "logged s (sd_SetCode a c s) \<and>
    state_view (sd_SetCode a c s) =
      a_change a (set_code (sd_db s) (bk_Keccak256 (sd_db s) (case c of None \<Rightarrow> [] | Some c \<Rightarrow> c)) c) (state_view s)"
proof -
  obtain obj t where g: "GetOrNewStateObject a s = (obj, t)" by (cases "GetOrNewStateObject a s")
  note v = GetOrNew_view [OF assms g] and x = GetOrNew_account [OF assms g]
  obtain pc obj' where k: "so_Code (sd_db t) obj = (pc, obj')" by (cases "so_Code (sd_db t) obj")
  note kv = so_Code_view [OF k]
  have o: "obj_view (sd_db s) obj' = a_get a (state_view s)" using kv(2) v(3,4) by simp
  have f: "so_address obj' = a" "so_data obj' = a_data (a_get a (state_view s))"
    using arg_cong [OF o, of a_address] arg_cong [OF o, of a_data] x(2) by (simp_all add: account_ok_def)
  have p: "pc = a_code (a_get a (state_view s))" using kv(1) v(3,4) by simp
  let ?h = "bk_Keccak256 (sd_db s) (case c of None \<Rightarrow> [] | Some c \<Rightarrow> c)"
  let ?x = "a_get a (state_view s)"
  have "load_code (sd_db s) (a_addrHash ?x) (sa_CodeHash (a_data ?x)) (a_code ?x) = a_code ?x"
    unfolding o [symmetric] by (simp add: load_code_idem obj_view_def)
  then have u: "set_code (sd_db s) (BytesToHash (sa_CodeHash (a_data ?x))) (a_code ?x) (set_code (sd_db s) ?h c ?x) = ?x"
    using x(2) by (intro set_code_undo) (simp_all add: account_ok_def)
  have "a_on a (set_code (sd_db s) (BytesToHash (sa_CodeHash (a_data ?x))) (a_code ?x))
      (a_put a (set_code (sd_db s) ?h c ?x) (state_view t)) = Some (state_view t)"
    by (rule a_on_undo [OF x(1)]) (use u x(3) in simp_all)
  then show ?thesis
    using logged_change [OF assms g, of "so_setCode ?h c obj'" "codeChange a pc (sa_CodeHash (so_data obj'))"]
      g k o f p v(3) x
    by (simp add: sd_SetCode_def so_SetCode_def view_setters a_change_def entry_ok_def)
qed

lemma sd_SetState_view:
  assumes "good s"
  shows "logged s (sd_SetState a k v s) \<and> state_view (sd_SetState a k v s) = a_change a (set_slot k v) (state_view s)"
proof -
  obtain obj t where g: "GetOrNewStateObject a s = (obj, t)" by (cases "GetOrNewStateObject a s")
  note n = GetOrNew_view [OF assms g] and x = GetOrNew_account [OF assms g]
  obtain p obj' where k: "so_GetState (sd_db t) k obj = (p, obj')" by (cases "so_GetState (sd_db t) k obj")
  note kv = so_GetState_view [OF k]
  have o: "obj_view (sd_db s) obj' = a_get a (state_view s)" using kv(2) n(3,4) by simp
  have f: "so_address obj' = a" "fakeStorage obj' = None"
    using arg_cong [OF o, of a_address] arg_cong [OF o, of a_fake] x(2) by (simp_all add: account_ok_def)
  have p: "p = a_current (a_get a (state_view s)) k" using kv(1) n(3) arg_cong [OF n(4), of a_current] by simp
  have r: "sd_SetState a k v s = (if p = v then setStateObject obj' t
      else setStateObject (so_setState k v obj') (sd_append (storageChange a k p) t))"
    using g k x(4) f(1) by (simp add: sd_SetState_def so_SetState_def)
  show ?thesis
  proof (cases "p = v")
    case True
    have sv: "state_view (setStateObject obj' t) = state_view t"
      by (rule view_setStateObject_same [of t obj' obj]) (use n(3,4,6) f(1) o in simp_all)
    then have "quiet_step t (setStateObject obj' t)" by (simp add: quiet_step_def)
    then have "logged s (setStateObject obj' t)" using n(1) logged_trans logged_quiet by (metis logged_def)
    moreover have "set_slot k v (a_get a (state_view s)) = a_get a (state_view s)"
      using p True by (simp add: set_slot_def)
    ultimately show ?thesis unfolding r using True sv n(2) by (simp add: a_change_def)
  next
    case False
    then show ?thesis
      using logged_change [OF assms g, of "so_setState k v obj'" "storageChange a k p"] a_on_undo [OF x(1)] o f p x
      unfolding r by (simp add: view_setters a_change_def entry_ok_def)
  qed
qed

lemma Suicide_view:
  assumes "good s" and "Suicide a s = (b, s')"
  shows "logged s s' \<and> (b \<longleftrightarrow> acct (state_view s) a \<noteq> None) \<and> state_view s' =
    (case acct (state_view s) a of None \<Rightarrow> state_view s
     | Some x \<Rightarrow> a_put a (set_balance 0 (x\<lparr>a_suicided := True\<rparr>)) (state_view s))"
proof -
  have ok: "world_ok (state_view s)" using assms(1) by (simp add: good_def)
  obtain r t where g: "getStateObject a s = (r, t)" by (cases "getStateObject a s")
  note v = getStateObject_view [OF ok g]
  have t: "logged s t" "state_view t = state_view s" "good t"
    using logged_quiet [OF assms(1) v(1)] v(1) by (simp_all add: logged_def quiet_step_def)
  show ?thesis
  proof (cases r)
    case None
    then show ?thesis using assms(2) g v(3) t by (simp add: Suicide_def)
  next
    case (Some obj)
    define x where "x = obj_view (sd_db s) obj"
    have x: "acct (state_view s) a = Some x" using v(3) Some by (simp add: x_def)
    note k = acct_ok [OF ok x]
    let ?obj = "so_setBalance 0 (obj\<lparr>suicided := True\<rparr>)"
    let ?e = "suicideChange a (suicided obj) (sa_Balance (so_data obj))"
    have e: "b = True" "s' = setStateObject ?obj (sd_append ?e t)"
      using assms(2) g Some by (simp_all add: Suicide_def)
    have o: "obj_view (sd_db t) ?obj = set_balance 0 (x\<lparr>a_suicided := True\<rparr>)" "so_address ?obj = a"
      using v(2,4) Some by (simp_all add: view_setters obj_view_suicided x_def)
    have "set_balance (sa_Balance (so_data obj)) ((set_balance 0 (x\<lparr>a_suicided := True\<rparr>))\<lparr>a_suicided := suicided obj\<rparr>) = x"
      by (simp add: set_balance_def x_def)
    then have "a_revert ?e (a_put a (set_balance 0 (x\<lparr>a_suicided := True\<rparr>)) (state_view t)) = Some (state_view t)"
      using k t(2) by (simp add: acct_put a_put_same)
    then have "a_revert ?e (a_put (so_address ?obj) (obj_view (sd_db t) ?obj) (state_view t)) = Some (state_view t)"
      unfolding o .
    moreover have "account_ok (so_address ?obj) (obj_view (sd_db t) ?obj)" unfolding o using k(1) by simp
    moreover have "entry_ok ?e" by (simp add: entry_ok_def)
    ultimately have "logged t s'" "state_view s' = a_put a (set_balance 0 (x\<lparr>a_suicided := True\<rparr>)) (state_view t)"
      unfolding e(2) using logged_write [OF t(3)] o by metis+
    then show ?thesis using e(1) x t(2) logged_trans [OF t(1)] by simp
  qed
qed

text \<open>
  The balance carried over by \<open>CreateAccount\<close> is written without a journal entry of its own; the entry
  of the new object covers it.
\<close>

lemma createObject_entry:
  assumes "good s" and "createObject a s = (obj, prev, s')" and "account_ok a y" and "good s''"
    and "state_view s'' = a_put a y (state_view s)" and "sd_journal s'' = sd_journal s'"
    and "validRevisions s'' = validRevisions s'" and "nextRevisionId s'' = nextRevisionId s'"
  shows "logged s s''"
proof -
  note c = createObject_view [OF assms(1,2)]
  obtain p t where g: "getDeletedStateObject a s = (p, t)" by (cases "getDeletedStateObject a s")
  note d = getDeletedStateObject_live [OF g]
  define e where "e = (case p of None \<Rightarrow> createObjectChange a | Some p \<Rightarrow> resetObjectChange p False)"
  have r: "sd_journal s' = sd_journal (sd_append e t)"
    using assms(2) g by (auto simp: createObject_def e_def Let_def)
  have ok: "world_ok (state_view s)" using assms(1) by (simp add: good_def)
  have "entry_ok e \<and> a_revert e (a_put a y (state_view s)) = Some (state_view s)"
  proof (cases p)
    case None
    then have n: "w_accounts (state_view s) a = None" using d(1) by simp
    with ok have "load_object (sd_db s) a = None" unfolding world_ok_def by simp
    then show ?thesis using None a_put_remove [OF n] by (simp add: e_def entry_ok_def)
  next
    case (Some q)
    then have l: "live s a = Some q" using d(1) by simp
    then show ?thesis using Some world_okD [OF ok l] by (simp add: e_def entry_ok_def a_put_same)
  qed
  moreover have "entries s'' = entries s @ [e]" using assms(6) r d(3) by (simp add: quiet_step_def)
  moreover have "validRevisions s'' = validRevisions s" "nextRevisionId s'' = nextRevisionId s"
    using assms(7,8) c(1) by (simp_all add: logged_def)
  ultimately show ?thesis using assms(4,5) by (intro logged_entry [of s'' s e]) simp_all
qed

lemma CreateAccount_view:
  assumes "good s"
  shows "logged s (CreateAccount a s) \<and> state_view (CreateAccount a s) =
    a_put a (set_balance (case acct (state_view s) a of None \<Rightarrow> 0 | Some x \<Rightarrow> sa_Balance (a_data x))
      (fresh_account (sd_db s) a)) (state_view s)"
proof -
  obtain obj prev t where c: "createObject a s = (obj, prev, t)" by (cases "createObject a s")
  note v = createObject_view [OF assms c]
  show ?thesis
  proof (cases prev)
    case None
    then have "acct (state_view s) a = None" using v(7) by simp
    moreover have "set_balance 0 (fresh_account (sd_db s) a) = fresh_account (sd_db s) a"
      by (simp add: set_balance_def fresh_account_def)
    ultimately show ?thesis using None c v by (simp add: CreateAccount_def)
  next
    case (Some q)
    define b where "b = sa_Balance (so_data q)"
    have x: "acct (state_view s) a = Some (obj_view (sd_db s) q)" using v(7) Some by simp
    let ?t = "setStateObject (so_setBalance b obj) t"
    have e: "CreateAccount a s = ?t" using c Some by (simp add: CreateAccount_def b_def)
    have w: "state_view ?t = a_put a (set_balance b (fresh_account (sd_db s) a)) (state_view s)"
      unfolding view_setStateObject using v(2,3,4,6) by (simp add: view_setters a_put_def)
    have y: "account_ok a (set_balance b (fresh_account (sd_db s) a))" using fresh_account_ok by simp
    have "good ?t" using v(1) w world_ok_put [OF _ y] assms by (simp add: good_def logged_def)
    then have "logged s ?t" using createObject_entry [OF assms c y _ w] by simp
    then show ?thesis unfolding e using w x by (simp add: b_def)
  qed
qed

section \<open>Logs, preimages, refunds and the access list\<close>

lemma world_ok_other [simp]:
  "world_ok (w\<lparr>w_refund := r\<rparr>) = world_ok w" "world_ok (w\<lparr>w_logs := l, w_logSize := n\<rparr>) = world_ok w"
  "world_ok (w\<lparr>w_preimages := p\<rparr>) = world_ok w" "world_ok (w\<lparr>w_accessList := al\<rparr>) = world_ok w"
  by (simp_all add: world_ok_def)

definition stamped :: "world \<Rightarrow> Log \<Rightarrow> Log" where
  "stamped w l = l\<lparr>lg_TxHash := w_thash w, lg_TxIndex := w_txIndex w, lg_Index := unat (w_logSize w)\<rparr>"

lemma AddLog_view:
  assumes "good s" and "AddLog l s = (l', s')"
  shows "logged s s' \<and> l' = stamped (state_view s) l \<and> state_view s' = (state_view s)
    \<lparr>w_logs := (mget [] (sd_logs s))(sd_thash s := mget [] (sd_logs s) (sd_thash s) @ [l']), w_logSize := sd_logSize s + 1\<rparr>"
proof -
  let ?t = "sd_append (addLogChange (sd_thash s)) s"
  have e: "l' = stamped (state_view s) l"
    "s' = ?t\<lparr>sd_logs := mput (sd_thash s) (mget [] (sd_logs s) (sd_thash s) @ [l']) (sd_logs s), sd_logSize := sd_logSize s + 1\<rparr>"
    using assms(2) by (auto simp: AddLog_def Let_def stamped_def)
  have m: "mget [] (mput h l m) = (mget [] m)(h := l)" for h l and m :: "(Hash, Log list) gomap"
    by (auto simp: fun_eq_iff gomap_simps)
  have v: "state_view s' = (state_view s)
    \<lparr>w_logs := (mget [] (sd_logs s))(sd_thash s := mget [] (sd_logs s) (sd_thash s) @ [l']), w_logSize := sd_logSize s + 1\<rparr>"
    unfolding e(2) by (simp add: m)
  have "a_revert (addLogChange (sd_thash s)) (state_view s') = Some (state_view s)"
    unfolding v by (simp add: fun_upd_idem state_view_def)
  moreover have "good s'" using assms(1) v unfolding good_def by (simp add: e(2))
  ultimately have "logged s s'"
    by (intro logged_entry [of s' s "addLogChange (sd_thash s)"]) (simp_all add: e(2) entry_ok_def)
  with e(1) v show ?thesis by blast
qed

lemma AddPreimage_view:
  assumes "good s"
  shows "logged s (AddPreimage h b s) \<and> state_view (AddPreimage h b s) =
    (if w_preimages (state_view s) h = None then (state_view s)\<lparr>w_preimages := (w_preimages (state_view s))(h \<mapsto> b)\<rparr>
     else state_view s)"
proof (cases "mhas (preimages s) h")
  case True
  then show ?thesis using logged_refl [OF assms] by (auto simp: AddPreimage_def mhas_map_of)
next
  case False
  let ?s = "(sd_append (addPreimageChange h) s)\<lparr>preimages := mput h b (preimages s)\<rparr>"
  have n: "map_of (preimages s) h = None" using False by (simp add: mhas_map_of)
  have e: "AddPreimage h b s = ?s" using False by (simp add: AddPreimage_def)
  have v: "state_view ?s = (state_view s)\<lparr>w_preimages := (map_of (preimages s))(h \<mapsto> b)\<rparr>" by (simp add: map_of_mput)
  have "a_revert (addPreimageChange h) (state_view ?s) = Some (state_view s)"
    unfolding v using n by (simp add: fun_upd_idem state_view_def)
  moreover have "good ?s" using assms v by (simp add: good_def)
  ultimately have "logged s ?s"
    by (intro logged_entry [of ?s s "addPreimageChange h"]) (simp_all add: entry_ok_def)
  with e v n show ?thesis by simp
qed

lemma refund_logged:
  assumes "good s"
  shows "logged s ((sd_append (refundChange (sd_refund s)) s)\<lparr>sd_refund := r\<rparr>)"
    "state_view ((sd_append (refundChange (sd_refund s)) s)\<lparr>sd_refund := r\<rparr>) = (state_view s)\<lparr>w_refund := r\<rparr>"
proof -
  let ?s = "(sd_append (refundChange (sd_refund s)) s)\<lparr>sd_refund := r\<rparr>"
  show v: "state_view ?s = (state_view s)\<lparr>w_refund := r\<rparr>" by simp
  have "good ?s" using assms v by (simp add: good_def)
  moreover have "a_revert (refundChange (sd_refund s)) (state_view ?s) = Some (state_view s)"
    unfolding v by (simp add: state_view_def)
  ultimately show "logged s ?s"
    by (intro logged_entry [of ?s s "refundChange (sd_refund s)"]) (simp_all add: entry_ok_def)
qed

lemma AddAddressToAccessList_view:
  assumes "good s"
  shows "logged s (AddAddressToAccessList a s) \<and>
    state_view (AddAddressToAccessList a s) = (state_view s)\<lparr>w_accessList := snd (AddAddress a (sd_accessList s))\<rparr>"
proof -
  obtain c al where g: "AddAddress a (sd_accessList s) = (c, al)" by (cases "AddAddress a (sd_accessList s)")
  have ok: "al_ok (sd_accessList s)" using assms by (simp add: good_def)
  note v = AddAddress_abs [OF ok g]
  show ?thesis
  proof (cases c)
    case True
    let ?s = "sd_append (accessListAddAccountChange a) (s\<lparr>sd_accessList := al\<rparr>)"
    have e: "AddAddressToAccessList a s = ?s" using g True by (simp add: AddAddressToAccessList_def)
    have w: "state_view ?s = (state_view s)\<lparr>w_accessList := al\<rparr>" by simp
    have "good ?s" using assms w v(1) by (simp add: good_def)
    moreover have "a_revert (accessListAddAccountChange a) (state_view ?s) = Some (state_view s)"
      unfolding w using v(4) True by (simp add: state_view_def)
    ultimately have "logged s ?s"
      by (intro logged_entry [of ?s s "accessListAddAccountChange a"]) (simp_all add: entry_ok_def)
    then show ?thesis using e w g by simp
  next
    case False
    then have "AddAddressToAccessList a s = s" "snd (AddAddress a (sd_accessList s)) = sd_accessList s"
      using g v(5) by (simp_all add: AddAddressToAccessList_def)
    then show ?thesis using logged_refl [OF assms] by (simp add: state_view_def)
  qed
qed

lemma AddSlotToAccessList_view:
  assumes "good s"
  shows "\<exists>r al s'. AddSlot a k (sd_accessList s) = Inr (r, al) \<and> AddSlotToAccessList a k s = Inr s' \<and>
    logged s s' \<and> state_view s' = (state_view s)\<lparr>w_accessList := al\<rparr>"
proof -
  have ok: "al_ok (sd_accessList s)" using assms by (simp add: good_def)
  obtain ac sc al where g: "AddSlot a k (sd_accessList s) = Inr ((ac, sc), al)" and al: "al_ok al"
    and u: "if sc then \<exists>d. DeleteSlot a k al = Inr d \<and> (if ac then DeleteAddress a d else d) = sd_accessList s
            else \<not> ac \<and> al = sd_accessList s"
    using AddSlot_abs [OF ok, of a k] by blast
  let ?t = "s\<lparr>sd_accessList := al\<rparr>"
  let ?es = "(if ac then [accessListAddAccountChange a] else []) @ (if sc then [accessListAddSlotChange a k] else [])"
  let ?s = "let s = (if ac then sd_append (accessListAddAccountChange a) ?t else ?t)
            in if sc then sd_append (accessListAddSlotChange a k) s else s"
  have r: "AddSlotToAccessList a k s = Inr ?s" using g by (simp add: AddSlotToAccessList_def Let_def)
  have w: "state_view ?s = (state_view s)\<lparr>w_accessList := al\<rparr>" by (simp add: Let_def)
  have f: "entries ?s = entries s @ ?es" "validRevisions ?s = validRevisions s" "nextRevisionId ?s = nextRevisionId s"
    "sd_accessList ?s = al"
    by (simp_all add: Let_def)
  have "good ?s" using assms w al f(4) by (simp add: good_def)
  moreover have "a_undo ?es (state_view ?s) = Some (state_view s)"
    unfolding w using u by (cases ac; cases sc) (auto simp: a_undo_def state_view_def)
  moreover have "\<forall>e \<in> set ?es. entry_ok e" by (auto simp: entry_ok_def)
  ultimately have "logged s ?s" unfolding logged_def using f by blast
  with g r w show ?thesis by blast
qed

section \<open>Reading\<close>

definition a_read :: "'a \<Rightarrow> (account \<Rightarrow> 'a) \<Rightarrow> Address \<Rightarrow> world \<Rightarrow> 'a" where
  "a_read z f a w = (case acct w a of None \<Rightarrow> z | Some x \<Rightarrow> f x)"

lemma getStateObject_read:
  assumes "good s" and "getStateObject a s = (r, s')"
  shows "logged s s'" "state_view s' = state_view s" "sd_db s' = sd_db s"
    "(case r of None \<Rightarrow> z | Some obj \<Rightarrow> f (obj_view (sd_db s) obj)) = a_read z f a (state_view s)"
proof -
  have ok: "world_ok (state_view s)" using assms(1) by (simp add: good_def)
  note v = getStateObject_view [OF ok assms(2)]
  show "logged s s'" "state_view s' = state_view s" "sd_db s' = sd_db s"
    using logged_quiet [OF assms(1) v(1)] v(1,2) by (simp_all add: quiet_step_def)
  show "(case r of None \<Rightarrow> z | Some obj \<Rightarrow> f (obj_view (sd_db s) obj)) = a_read z f a (state_view s)"
    unfolding a_read_def v(3) [symmetric] by (simp split: option.split)
qed

lemma read_object_view:
  assumes "good s" and "read_object z f a s = (v, s')"
    and "\<And>obj v obj'. f obj = (v, obj') \<Longrightarrow> v = h (obj_view (sd_db s) obj) \<and> obj_view (sd_db s) obj' = obj_view (sd_db s) obj"
  shows "logged s s' \<and> state_view s' = state_view s \<and> v = a_read z h a (state_view s)"
proof -
  obtain r t where g: "getStateObject a s = (r, t)" by (cases "getStateObject a s")
  note q = getStateObject_read [OF assms(1) g]
  have ok: "world_ok (state_view s)" using assms(1) by (simp add: good_def)
  note w = getStateObject_view [OF ok g]
  show ?thesis
  proof (cases r)
    case None
    then show ?thesis using assms(2) g q(1,2) q(4) [of z h] by (simp add: read_object_def)
  next
    case (Some obj)
    obtain u obj' where f: "f obj = (u, obj')" by (cases "f obj")
    note k = assms(3) [OF f]
    have e: "v = u" "s' = setStateObject obj' t" using assms(2) g Some f by (simp_all add: read_object_def)
    have l: "so_address obj = a" "live t a = Some obj" using w(4) Some by simp_all
    have "so_address obj' = a" using arg_cong [OF conjunct2 [OF k], of a_address] l by simp
    then have sv: "state_view s' = state_view t" unfolding e(2)
      by (intro view_setStateObject_same [of t obj' obj]) (use l k q(3) in simp_all)
    then have "quiet_step t s'" by (simp add: quiet_step_def e(2))
    moreover have "good t" using q(1) by (simp add: logged_def)
    ultimately have "logged s s'" using logged_trans [OF q(1)] logged_quiet by blast
    then show ?thesis using sv q(2) q(4) [of z h] Some k e(1) by simp
  qed
qed

end
