(* ===== verification/State_Machine.thy ===== *)
theory State_Machine
  imports State_Refine
begin

text \<open>
  Sequences of operations. \<open>exec_op\<close> runs one operation of \<open>StateDB\<close>; \<open>a_exec\<close> is the machine that
  keeps worlds and saves copies of them. The main theorem says that the two answer alike.
\<close>

section \<open>Operations and answers\<close>

datatype state_op =
    OpAddLog Log
  | OpAddPreimage Hash bytes
  | OpAddRefund uint64
  | OpSubRefund uint64
  | OpGetRefund
  | OpExist Address
  | OpEmpty Address
  | OpGetBalance Address
  | OpGetNonce Address
  | OpGetCode Address
  | OpGetCodeSize Address
  | OpGetCodeHash Address
  | OpGetState Address Hash
  | OpGetCommittedState Address Hash
  | OpHasSuicided Address
  | OpAddBalance Address int
  | OpSubBalance Address int
  | OpSetBalance Address int
  | OpSetNonce Address uint64
  | OpSetCode Address "bytes option"
  | OpSetState Address Hash Hash
  | OpSuicide Address
  | OpCreateAccount Address
  | OpAddAddress Address
  | OpAddSlot Address Hash
  | OpAddressInAccessList Address
  | OpSlotInAccessList Address Hash
  | OpSnapshot
  | OpRevert nat
  | OpRecordHash uint64 Hash

datatype op_answer =
    Done
  | ABool bool
  | ABools bool bool
  | ABig int
  | AWord uint64
  | ANat nat
  | AHash Hash
  | ACode "bytes option"
  | ALog Log

definition answering :: "('a \<Rightarrow> op_answer) \<Rightarrow> 'a \<times> StateDB \<Rightarrow> (op_answer \<times> StateDB) go" where
  "answering f r = Inr (f (fst r), snd r)"

definition silent :: "StateDB \<Rightarrow> (op_answer \<times> StateDB) go" where
  "silent s = Inr (Done, s)"

fun exec_op :: "state_op \<Rightarrow> StateDB \<Rightarrow> (op_answer \<times> StateDB) go" where
  "exec_op (OpAddLog l) s = answering ALog (AddLog l s)"
| "exec_op (OpAddPreimage h b) s = silent (AddPreimage h b s)"
| "exec_op (OpAddRefund gas) s = silent (AddRefund gas s)"
| "exec_op (OpSubRefund gas) s = go_bind (SubRefund gas s) silent"
| "exec_op OpGetRefund s = answering AWord (sd_refund s, s)"
| "exec_op (OpExist a) s = answering ABool (Exist a s)"
| "exec_op (OpEmpty a) s = answering ABool (Empty a s)"
| "exec_op (OpGetBalance a) s = answering ABig (GetBalance a s)"
| "exec_op (OpGetNonce a) s = answering AWord (GetNonce a s)"
| "exec_op (OpGetCode a) s = answering ACode (sd_GetCode a s)"
| "exec_op (OpGetCodeSize a) s = answering ANat (GetCodeSize a s)"
| "exec_op (OpGetCodeHash a) s = answering AHash (GetCodeHash a s)"
| "exec_op (OpGetState a k) s = answering AHash (GetState a k s)"
| "exec_op (OpGetCommittedState a k) s = answering AHash (GetCommittedState a k s)"
| "exec_op (OpHasSuicided a) s = answering ABool (HasSuicided a s)"
| "exec_op (OpAddBalance a b) s = silent (sd_AddBalance a b s)"
| "exec_op (OpSubBalance a b) s = silent (sd_SubBalance a b s)"
| "exec_op (OpSetBalance a b) s = silent (sd_SetBalance a b s)"
| "exec_op (OpSetNonce a n) s = silent (sd_SetNonce a n s)"
| "exec_op (OpSetCode a c) s = silent (sd_SetCode a c s)"
| "exec_op (OpSetState a k v) s = silent (sd_SetState a k v s)"
| "exec_op (OpSuicide a) s = answering ABool (Suicide a s)"
| "exec_op (OpCreateAccount a) s = silent (CreateAccount a s)"
| "exec_op (OpAddAddress a) s = silent (AddAddressToAccessList a s)"
| "exec_op (OpAddSlot a k) s = go_bind (AddSlotToAccessList a k s) silent"
| "exec_op (OpAddressInAccessList a) s = answering ABool (ContainsAddress (sd_accessList s) a, s)"
| "exec_op (OpSlotInAccessList a k) s =
     go_bind (AL_Contains (sd_accessList s) a k) (\<lambda>(x, y). Inr (ABools x y, s))"
| "exec_op OpSnapshot s = answering ANat (sd_Snapshot s)"
| "exec_op (OpRevert i) s = go_bind (RevertToSnapshot i s) silent"
| "exec_op (OpRecordHash n h) s = silent (s\<lparr>ResearchBlockHashes := mput n h (ResearchBlockHashes s)\<rparr>)"

primrec exec_ops :: "state_op list \<Rightarrow> StateDB \<Rightarrow> (op_answer list \<times> StateDB) go" where
  "exec_ops [] s = Inr ([], s)"
| "exec_ops (x # xs) s =
     go_bind (exec_op x s) (\<lambda>(r, s). go_bind (exec_ops xs s) (\<lambda>(rs, s). Inr (r # rs, s)))"

section \<open>The machine that saves copies\<close>

definition a_empty :: "backend \<Rightarrow> account \<Rightarrow> bool" where
  "a_empty db x \<longleftrightarrow> sa_Nonce (a_data x) = 0 \<and> sa_Balance (a_data x) = 0 \<and> sa_CodeHash (a_data x) = emptyCodeHash db"

fun a_basic :: "state_op \<Rightarrow> world \<Rightarrow> (op_answer \<times> world) option" where
  "a_basic (OpAddLog l) w =
     Some (ALog (stamped w l),
       w\<lparr>w_logs := (w_logs w)(w_thash w := w_logs w (w_thash w) @ [stamped w l]), w_logSize := w_logSize w + 1\<rparr>)"
| "a_basic (OpAddPreimage h b) w =
     Some (Done, if w_preimages w h = None then w\<lparr>w_preimages := (w_preimages w)(h \<mapsto> b)\<rparr> else w)"
| "a_basic (OpAddRefund gas) w = Some (Done, w\<lparr>w_refund := w_refund w + gas\<rparr>)"
| "a_basic (OpSubRefund gas) w =
     (if gas > w_refund w then None else Some (Done, w\<lparr>w_refund := w_refund w - gas\<rparr>))"
| "a_basic OpGetRefund w = Some (AWord (w_refund w), w)"
| "a_basic (OpExist a) w = Some (ABool (acct w a \<noteq> None), w)"
| "a_basic (OpEmpty a) w = Some (ABool (a_read True (a_empty (w_db w)) a w), w)"
| "a_basic (OpGetBalance a) w = Some (ABig (a_read 0 (\<lambda>x. sa_Balance (a_data x)) a w), w)"
| "a_basic (OpGetNonce a) w = Some (AWord (a_read 0 (\<lambda>x. sa_Nonce (a_data x)) a w), w)"
| "a_basic (OpGetCode a) w = Some (ACode (a_read None a_code a w), w)"
| "a_basic (OpGetCodeSize a) w =
     Some (ANat (a_read 0 (\<lambda>x. case a_code x of None \<Rightarrow> 0 | Some c \<Rightarrow> length c) a w), w)"
| "a_basic (OpGetCodeHash a) w = Some (AHash (a_read 0 (\<lambda>x. BytesToHash (sa_CodeHash (a_data x))) a w), w)"
| "a_basic (OpGetState a k) w = Some (AHash (a_read 0 (\<lambda>x. a_current x k) a w), w)"
| "a_basic (OpGetCommittedState a k) w = Some (AHash (a_read 0 (\<lambda>x. a_committed x k) a w), w)"
| "a_basic (OpHasSuicided a) w = Some (ABool (a_read False a_suicided a w), w)"
| "a_basic (OpAddBalance a b) w = Some (Done, a_change a (\<lambda>x. set_balance (sa_Balance (a_data x) + b) x) w)"
| "a_basic (OpSubBalance a b) w = Some (Done, a_change a (\<lambda>x. set_balance (sa_Balance (a_data x) - b) x) w)"
| "a_basic (OpSetBalance a b) w = Some (Done, a_change a (set_balance b) w)"
| "a_basic (OpSetNonce a n) w = Some (Done, a_change a (set_nonce n) w)"
| "a_basic (OpSetCode a c) w =
     Some (Done, a_change a (set_code (w_db w) (bk_Keccak256 (w_db w) (case c of None \<Rightarrow> [] | Some c \<Rightarrow> c)) c) w)"
| "a_basic (OpSetState a k v) w = Some (Done, a_change a (set_slot k v) w)"
| "a_basic (OpSuicide a) w =
     Some (ABool (acct w a \<noteq> None),
       case acct w a of None \<Rightarrow> w | Some x \<Rightarrow> a_put a (set_balance 0 (x\<lparr>a_suicided := True\<rparr>)) w)"
| "a_basic (OpCreateAccount a) w =
     Some (Done, a_put a (set_balance (a_read 0 (\<lambda>x. sa_Balance (a_data x)) a w) (fresh_account (w_db w) a)) w)"
| "a_basic (OpAddAddress a) w = Some (Done, w\<lparr>w_accessList := snd (AddAddress a (w_accessList w))\<rparr>)"
| "a_basic (OpAddSlot a k) w =
     (case AddSlot a k (w_accessList w) of Inl _ \<Rightarrow> None | Inr (r, al) \<Rightarrow> Some (Done, w\<lparr>w_accessList := al\<rparr>))"
| "a_basic (OpAddressInAccessList a) w = Some (ABool (a \<in> fst (al_abs (w_accessList w))), w)"
| "a_basic (OpSlotInAccessList a k) w =
     Some (ABools (a \<in> fst (al_abs (w_accessList w))) ((a, k) \<in> snd (al_abs (w_accessList w))), w)"
| "a_basic OpSnapshot w = None"
| "a_basic (OpRevert i) w = None"
| "a_basic (OpRecordHash n h) w = Some (Done, w)"

record machine =
  m_world :: world
  m_saved :: "(nat \<times> world) list"
  m_next :: nat

fun a_exec :: "state_op \<Rightarrow> machine \<Rightarrow> (op_answer \<times> machine) option" where
  "a_exec OpSnapshot m =
     Some (ANat (m_next m), m\<lparr>m_saved := m_saved m @ [(m_next m, m_world m)], m_next := m_next m + 1\<rparr>)"
| "a_exec (OpRevert i) m =
     (case map_of (m_saved m) i of
        None \<Rightarrow> None
      | Some w \<Rightarrow> Some (Done, m\<lparr>m_world := w, m_saved := takeWhile (\<lambda>r. fst r \<noteq> i) (m_saved m)\<rparr>))"
| "a_exec x m = map_option (\<lambda>(r, w). (r, m\<lparr>m_world := w\<rparr>)) (a_basic x (m_world m))"

primrec a_execs :: "state_op list \<Rightarrow> machine \<Rightarrow> (op_answer list \<times> machine) option" where
  "a_execs [] m = Some ([], m)"
| "a_execs (x # xs) m =
     Option.bind (a_exec x m) (\<lambda>(r, m). map_option (\<lambda>(rs, m). (r # rs, m)) (a_execs xs m))"

section \<open>One operation\<close>

definition matches :: "state_op \<Rightarrow> StateDB \<Rightarrow> bool" where
  "matches x s \<longleftrightarrow>
     (case exec_op x s of
        Inl _ \<Rightarrow> a_basic x (state_view s) = None
      | Inr (r, s') \<Rightarrow> a_basic x (state_view s) = Some (r, state_view s') \<and> logged s s')"

lemma matches_silent:
  assumes "exec_op x s = silent s'" and "a_basic x (state_view s) = Some (Done, w)" and "logged s s' \<and> state_view s' = w"
  shows "matches x s"
  using assms by (simp add: matches_def silent_def)

lemma matches_answering:
  assumes "exec_op x s = answering f r" and "a_basic x (state_view s) = Some (f (fst r), w)"
    and "logged s (snd r) \<and> state_view (snd r) = w"
  shows "matches x s"
  using assms by (simp add: matches_def answering_def)

lemma matches_read:
  assumes "good s" and "getStateObject a s = (r, t)" and "exec_op x s = answering f (v, t)"
    and "a_basic x (state_view s) = Some (f v, state_view s)"
  shows "matches x s"
  by (rule matches_answering [OF assms(3)]) (use assms(4) getStateObject_read [OF assms(1,2)] in simp_all)

lemma matches_read_object:
  assumes "good s" and "exec_op x s = answering f (read_object z g a s)"
    and "a_basic x (state_view s) = Some (f (a_read z h a (state_view s)), state_view s)"
    and "\<And>obj v obj'. g obj = (v, obj') \<Longrightarrow> v = h (obj_view (sd_db s) obj) \<and> obj_view (sd_db s) obj' = obj_view (sd_db s) obj"
  shows "matches x s"
proof -
  obtain v t where r: "read_object z g a s = (v, t)" by (cases "read_object z g a s")
  show ?thesis
    by (rule matches_answering [OF assms(2)]) (use assms(3) read_object_view [OF assms(1) r assms(4)] r in simp_all)
qed

lemma read_matches:
  assumes "good s"
  shows "matches (OpExist a) s" "matches (OpEmpty a) s" "matches (OpGetBalance a) s" "matches (OpGetNonce a) s"
    "matches (OpGetCodeHash a) s" "matches (OpHasSuicided a) s"
proof -
  obtain r t where g: "getStateObject a s = (r, t)" by (cases "getStateObject a s")
  note q = getStateObject_read [OF assms g]
  have e: "acct (state_view s) a \<noteq> None \<longleftrightarrow> r \<noteq> None"
    using q(4) [of False "\<lambda>_. True"] by (auto simp: a_read_def split: option.splits)
  show "matches (OpExist a) s"
    by (rule matches_read [OF assms g, of _ ABool "r \<noteq> None"]) (use g e in \<open>simp_all add: Exist_def\<close>)
  show "matches (OpEmpty a) s"
    by (rule matches_read [OF assms g, of _ ABool "case r of None \<Rightarrow> True | Some so \<Rightarrow> so_empty (sd_db s) so"])
      (use g q(3) q(4) [of True "a_empty (sd_db s)"] in
        \<open>simp_all add: Empty_def a_empty_def so_empty_def split: option.splits\<close>)
  show "matches (OpGetBalance a) s"
    by (rule matches_read [OF assms g, of _ ABig "case r of None \<Rightarrow> 0 | Some so \<Rightarrow> sa_Balance (so_data so)"])
      (use g q(4) [of 0 "\<lambda>x. sa_Balance (a_data x)"] in \<open>simp_all add: GetBalance_def split: option.splits\<close>)
  show "matches (OpGetNonce a) s"
    by (rule matches_read [OF assms g, of _ AWord "case r of None \<Rightarrow> 0 | Some so \<Rightarrow> sa_Nonce (so_data so)"])
      (use g q(4) [of 0 "\<lambda>x. sa_Nonce (a_data x)"] in \<open>simp_all add: GetNonce_def split: option.splits\<close>)
  show "matches (OpGetCodeHash a) s"
    by (rule matches_read [OF assms g, of _ AHash "case r of None \<Rightarrow> 0 | Some so \<Rightarrow> BytesToHash (sa_CodeHash (so_data so))"])
      (use g q(4) [of 0 "\<lambda>x. BytesToHash (sa_CodeHash (a_data x))"] in \<open>simp_all add: GetCodeHash_def split: option.splits\<close>)
  show "matches (OpHasSuicided a) s"
    by (rule matches_read [OF assms g, of _ ABool "case r of None \<Rightarrow> False | Some so \<Rightarrow> suicided so"])
      (use g q(4) [of False a_suicided] in \<open>simp_all add: HasSuicided_def split: option.splits\<close>)
qed

lemma read_object_matches:
  assumes "good s"
  shows "matches (OpGetCode a) s" "matches (OpGetCodeSize a) s" "matches (OpGetState a k) s"
    "matches (OpGetCommittedState a k) s"
proof -
  show "matches (OpGetCode a) s"
    by (rule matches_read_object [OF assms, of _ ACode None "so_Code (sd_db s)" a a_code])
      (auto simp: sd_GetCode_def dest: so_Code_view)
  show "matches (OpGetCodeSize a) s"
    by (rule matches_read_object [OF assms, of _ ANat 0 "so_CodeSize (sd_db s)" a
          "\<lambda>x. case a_code x of None \<Rightarrow> 0 | Some c \<Rightarrow> length c"])
      (auto simp: GetCodeSize_def dest: so_CodeSize_view)
  show "matches (OpGetState a k) s"
    by (rule matches_read_object [OF assms, of _ AHash 0 "so_GetState (sd_db s) k" a "\<lambda>x. a_current x k"])
      (auto simp: GetState_def dest: so_GetState_view)
  show "matches (OpGetCommittedState a k) s"
    by (rule matches_read_object [OF assms, of _ AHash 0 "so_GetCommittedState (sd_db s) k" a "\<lambda>x. a_committed x k"])
      (auto simp: GetCommittedState_def dest: so_GetCommittedState_view)
qed

lemma write_matches:
  assumes "good s"
  shows "matches (OpAddBalance a b) s" "matches (OpSubBalance a b) s" "matches (OpSetBalance a b) s"
    "matches (OpSetNonce a n) s" "matches (OpSetCode a c) s" "matches (OpSetState a k v) s"
    "matches (OpCreateAccount a) s" "matches (OpAddPreimage h d) s" "matches (OpAddAddress a) s"
  by (rule matches_silent [OF exec_op.simps(16)], simp, rule sd_AddBalance_view [OF assms],
      rule matches_silent [OF exec_op.simps(17)], simp, rule sd_SubBalance_view [OF assms],
      rule matches_silent [OF exec_op.simps(18)], simp, rule sd_SetBalance_view [OF assms],
      rule matches_silent [OF exec_op.simps(19)], simp, rule sd_SetNonce_view [OF assms],
      rule matches_silent [OF exec_op.simps(20)], simp, rule sd_SetCode_view [OF assms],
      rule matches_silent [OF exec_op.simps(21)], simp, rule sd_SetState_view [OF assms],
      rule matches_silent [OF exec_op.simps(23)], simp add: a_read_def, rule CreateAccount_view [OF assms],
      rule matches_silent [OF exec_op.simps(2)], simp, rule AddPreimage_view [OF assms, simplified],
      rule matches_silent [OF exec_op.simps(24)], simp, rule AddAddressToAccessList_view [OF assms, simplified])

lemma other_matches:
  assumes "good s"
  shows "matches (OpAddLog l) s" "matches (OpAddRefund gas) s" "matches (OpSubRefund gas) s" "matches OpGetRefund s"
    "matches (OpSuicide a) s" "matches (OpAddSlot a k) s" "matches (OpAddressInAccessList a) s"
    "matches (OpSlotInAccessList a k) s" "matches (OpRecordHash n h) s"
proof -
  have al: "al_ok (sd_accessList s)" using assms by (simp add: good_def)
  obtain l' s1 where "AddLog l s = (l', s1)" by (cases "AddLog l s")
  then show "matches (OpAddLog l) s"
    using AddLog_view [OF assms] by (simp add: matches_def answering_def)
  show "matches (OpAddRefund gas) s"
    using refund_logged [OF assms] by (simp add: matches_def silent_def AddRefund_def)
  show "matches (OpSubRefund gas) s"
    using refund_logged [OF assms] by (simp add: matches_def silent_def SubRefund_def Let_def)
  show "matches OpGetRefund s" using logged_refl [OF assms] by (simp add: matches_def answering_def)
  obtain b s2 where "Suicide a s = (b, s2)" by (cases "Suicide a s")
  then show "matches (OpSuicide a) s"
    using Suicide_view [OF assms] by (simp add: matches_def answering_def)
  show "matches (OpAddSlot a k) s"
    using AddSlotToAccessList_view [OF assms, of a k] by (auto simp: matches_def silent_def)
  show "matches (OpAddressInAccessList a) s"
    using logged_refl [OF assms] by (simp add: matches_def answering_def ContainsAddress_def al_abs_def mhas_iff)
  show "matches (OpSlotInAccessList a k) s"
    using logged_refl [OF assms] AL_Contains_abs [OF al, of a k] by (simp add: matches_def)
  let ?s = "s\<lparr>ResearchBlockHashes := mput n h (ResearchBlockHashes s)\<rparr>"
  have v: "state_view ?s = state_view s" by (rule state_view_cong) simp_all
  then have "logged s ?s" by (intro logged_quiet [OF assms]) (simp add: quiet_step_def)
  then show "matches (OpRecordHash n h) s" using v by (simp add: matches_def silent_def)
qed

lemma exec_matches:
  assumes "good s" and "x \<noteq> OpSnapshot" and "\<nexists>i. x = OpRevert i"
  shows "matches x s"
  using assms read_matches [OF assms(1)] read_object_matches [OF assms(1)] write_matches [OF assms(1)]
    other_matches [OF assms(1)]
  by (cases x) simp_all

section \<open>Revisions and saved copies\<close>

text \<open>Undoing the journal down to a valid revision gives the copy saved under its identifier.\<close>

definition saved_by :: "StateDB \<Rightarrow> nat \<times> nat \<Rightarrow> nat \<times> world \<Rightarrow> bool" where
  "saved_by s r c \<longleftrightarrow> fst r = fst c \<and> snd r \<le> length (entries s) \<and>
     a_undo (drop (snd r) (entries s)) (state_view s) = Some (snd c) \<and>
     world_ok (snd c) \<and> al_ok (w_accessList (snd c))"

definition revisions_ok :: "StateDB \<Rightarrow> bool" where
  "revisions_ok s \<longleftrightarrow>
     sorted_wrt (\<lambda>r r'. fst r < fst r' \<and> snd r \<le> snd r') (validRevisions s) \<and>
     (\<forall>r \<in> set (validRevisions s). fst r < nextRevisionId s \<and> snd r \<le> length (entries s)) \<and>
     (\<forall>e \<in> set (entries s). entry_ok e)"

definition simulates :: "StateDB \<Rightarrow> machine \<Rightarrow> bool" where
  "simulates s m \<longleftrightarrow> good s \<and> revisions_ok s \<and> m_world m = state_view s \<and> m_next m = nextRevisionId s \<and>
     list_all2 (saved_by s) (validRevisions s) (m_saved m)"

lemma saved_by_logged:
  assumes "logged s s'" and "saved_by s r c"
  shows "saved_by s' r c"
proof -
  from assms(1) obtain es where es: "entries s' = entries s @ es" "a_undo es (state_view s') = Some (state_view s)"
    unfolding logged_def by blast
  with assms(2) show ?thesis by (simp add: saved_by_def a_undo_append)
qed

lemma simulates_logged:
  assumes "simulates s m" and "logged s s'"
  shows "simulates s' (m\<lparr>m_world := state_view s'\<rparr>)"
proof -
  from assms(2) obtain es where es: "entries s' = entries s @ es" "\<forall>e \<in> set es. entry_ok e"
    and f: "good s'" "validRevisions s' = validRevisions s" "nextRevisionId s' = nextRevisionId s"
    unfolding logged_def by blast
  have "revisions_ok s'" using assms(1) es f unfolding simulates_def revisions_ok_def by auto
  moreover have "list_all2 (saved_by s') (validRevisions s') (m_saved m)"
    using assms(1) f(2) list_all2_mono [OF _ saved_by_logged [OF assms(2)]] unfolding simulates_def by auto
  ultimately show ?thesis using assms(1) f unfolding simulates_def by simp
qed

lemma simulates_snapshot:
  assumes "simulates s m"
  shows "\<exists>m'. a_exec OpSnapshot m = Some (ANat (fst (sd_Snapshot s)), m') \<and> simulates (snd (sd_Snapshot s)) m'"
proof -
  let ?s = "snd (sd_Snapshot s)"
  have v: "state_view ?s = state_view s" by (rule state_view_cong) (simp_all add: sd_Snapshot_def Let_def)
  have e: "entries ?s = entries s" "state_view ?s = state_view s" "sd_accessList ?s = sd_accessList s"
    "validRevisions ?s = validRevisions s @ [(nextRevisionId s, length (entries s))]"
    "nextRevisionId ?s = nextRevisionId s + 1"
    using v by (simp_all add: sd_Snapshot_def Let_def)
  have g: "good s" "good ?s" using assms e by (simp_all add: simulates_def good_def)
  have "saved_by ?s r c" if "saved_by s r c" for r c
    using that by (simp add: saved_by_def e)
  then have "list_all2 (saved_by ?s) (validRevisions s) (m_saved m)"
    using assms list_all2_mono unfolding simulates_def by blast
  moreover have "saved_by ?s (nextRevisionId s, length (entries s)) (nextRevisionId s, state_view s)"
    using g(1) by (simp add: saved_by_def e good_def)
  ultimately have "list_all2 (saved_by ?s) (validRevisions ?s) (m_saved m @ [(nextRevisionId s, state_view s)])"
    unfolding e(4) by (intro list_all2_appendI) simp_all
  moreover have "revisions_ok ?s" using assms by (auto simp: revisions_ok_def simulates_def e sorted_wrt_append less_Suc_eq)
  moreover have "fst (sd_Snapshot s) = nextRevisionId s" by (simp add: sd_Snapshot_def Let_def)
  ultimately show ?thesis using assms g(2) by (simp add: simulates_def e)
qed

text \<open>The binary search finds a revision exactly when its identifier is valid.\<close>

lemma search_revision_found:
  assumes "sorted_wrt (\<lambda>r r'. fst r < fst r' \<and> snd r \<le> snd r') revs"
  shows "case map_of revs i of
      None \<Rightarrow> search_revision revs i = length revs \<or> fst (revs ! search_revision revs i) \<noteq> i
    | Some n \<Rightarrow> search_revision revs i < length revs \<and> revs ! search_revision revs i = (i, n) \<and>
        take (search_revision revs i) revs = takeWhile (\<lambda>r. fst r \<noteq> i) revs \<and>
        (\<forall>r \<in> set (takeWhile (\<lambda>r. fst r \<noteq> i) revs). snd r \<le> n)"
  using assms
proof (induction revs)
  case (Cons r revs)
  obtain j n where r: "r = (j, n)" by (cases r)
  have later: "j < fst q" "n \<le> snd q" if "q \<in> set revs" for q using Cons.prems that r by auto
  show ?case
  proof (cases "j < i")
    case True
    have "n \<le> k" if "map_of revs i = Some k" for k using later(2) [of "(i, k)"] map_of_SomeD [OF that] by simp
    then show ?thesis using Cons True r by (auto simp: search_revision_def split: option.splits)
  next
    case False
    then have "map_of revs i = None" if "i \<noteq> j"
      using later(1) that by (auto simp: map_of_eq_None_iff)
    then show ?thesis using False r by (auto simp: search_revision_def split: option.splits)
  qed
qed (simp add: search_revision_def)

lemma list_all2_map_of:
  assumes "list_all2 P xs ys" and "\<And>x y. P x y \<Longrightarrow> fst x = fst y"
  shows "case map_of xs i of
      None \<Rightarrow> map_of ys i = None
    | Some n \<Rightarrow> (\<exists>w. map_of ys i = Some w \<and> P (i, n) (i, w)) \<and>
        list_all2 P (takeWhile (\<lambda>r. fst r \<noteq> i) xs) (takeWhile (\<lambda>r. fst r \<noteq> i) ys)"
  using assms(1)
proof (induction rule: list_all2_induct)
  case (Cons x xs y ys)
  then have "fst x = fst y" by (intro assms(2))
  with Cons show ?case by (cases x; cases y) (auto split: option.splits if_splits)
qed simp

lemma simulates_revert:
  assumes "simulates s m"
  shows "case RevertToSnapshot i s of
      Inl _ \<Rightarrow> a_exec (OpRevert i) m = None
    | Inr s' \<Rightarrow> \<exists>m'. a_exec (OpRevert i) m = Some (Done, m') \<and> simulates s' m'"
proof -
  let ?revs = "validRevisions s" let ?idx = "search_revision ?revs i"
  have g: "good s" "revisions_ok s" "list_all2 (saved_by s) ?revs (m_saved m)" "m_next m = nextRevisionId s"
    using assms by (simp_all add: simulates_def)
  have sorted: "sorted_wrt (\<lambda>r r'. fst r < fst r' \<and> snd r \<le> snd r') ?revs" using g(2) by (simp add: revisions_ok_def)
  note found = search_revision_found [OF sorted, of i]
  have same: "case map_of ?revs i of
      None \<Rightarrow> map_of (m_saved m) i = None
    | Some n \<Rightarrow> (\<exists>w. map_of (m_saved m) i = Some w \<and> saved_by s (i, n) (i, w)) \<and>
        list_all2 (saved_by s) (takeWhile (\<lambda>r. fst r \<noteq> i) ?revs) (takeWhile (\<lambda>r. fst r \<noteq> i) (m_saved m))"
    by (rule list_all2_map_of [OF g(3)]) (simp add: saved_by_def)
  show ?thesis
  proof (cases "map_of ?revs i")
    case None
    then show ?thesis using found same by (simp add: RevertToSnapshot_def Let_def)
  next
    case (Some n)
    then obtain w where w: "map_of (m_saved m) i = Some w" "saved_by s (i, n) (i, w)"
      and rest: "list_all2 (saved_by s) (takeWhile (\<lambda>r. fst r \<noteq> i) ?revs) (takeWhile (\<lambda>r. fst r \<noteq> i) (m_saved m))"
      using same by auto
    have idx: "?idx < length ?revs" "?revs ! ?idx = (i, n)" "take ?idx ?revs = takeWhile (\<lambda>r. fst r \<noteq> i) ?revs"
      "\<forall>r \<in> set (takeWhile (\<lambda>r. fst r \<noteq> i) ?revs). snd r \<le> n" using found Some by simp_all
    have u: "n \<le> length (entries s)" "a_undo (drop n (entries s)) (state_view s) = Some w" "world_ok w" "al_ok (w_accessList w)"
      using w(2) by (simp_all add: saved_by_def)
    have "\<forall>e \<in> set (drop n (entries s)). entry_ok e" using g(2) set_drop_subset unfolding revisions_ok_def by fast
    moreover have "world_ok (state_view s)" using g(1) by (simp add: good_def)
    ultimately obtain t where t: "go_fold (\<lambda>e s. go_bind (entry_revert e s) (\<lambda>s. Inr (s\<lparr>sd_journal := undirty e (sd_journal s)\<rparr>)))
          (rev (drop n (entries s))) s = Inr t" "state_view t = w" "entries t = entries s"
        "validRevisions t = ?revs" "nextRevisionId t = nextRevisionId s"
      using undo_run [of s "drop n (entries s)"] u(2) by (auto split: sum.splits)
    define s' where "s' = t\<lparr>sd_journal := (sd_journal t)\<lparr>j_entries := take n (entries t)\<rparr>, validRevisions := take ?idx (validRevisions t)\<rparr>"
    have r: "RevertToSnapshot i s = Inr s'"
      using idx(1,2) t(1) by (simp add: RevertToSnapshot_def Let_def journal_revert_def s'_def)
    have f: "state_view s' = w" "entries s' = take n (entries s)" "validRevisions s' = takeWhile (\<lambda>r. fst r \<noteq> i) ?revs"
      "nextRevisionId s' = nextRevisionId s"
      using t idx(3) state_view_cong [of s' t] by (simp_all add: s'_def)
    have a: "sd_accessList s' = w_accessList w" using arg_cong [OF f(1), of w_accessList] by simp
    have older: "saved_by s' q c" if "q \<in> set (takeWhile (\<lambda>r. fst r \<noteq> i) ?revs)" and k: "saved_by s q c" for q c
    proof -
      have q: "snd q \<le> n" using idx(4) that(1) by blast
      have "drop (snd q) (entries s) = drop (snd q) (take n (entries s)) @ drop n (entries s)"
        using q u(1) by (metis append_take_drop_id drop_append diff_is_0_eq drop_0 length_take min.absorb2)
      then have "a_undo (drop (snd q) (take n (entries s))) w = Some (snd c)"
        using k u(2) by (simp add: saved_by_def a_undo_append)
      then show ?thesis using k q u(1) by (simp add: saved_by_def f)
    qed
    have "list_all2 (saved_by s') (validRevisions s') (takeWhile (\<lambda>r. fst r \<noteq> i) (m_saved m))"
      unfolding f(3) using rest by (rule list.rel_mono_strong) (rule older)
    moreover have "revisions_ok s'"
    proof -
      have "sorted_wrt (\<lambda>r r'. fst r < fst r' \<and> snd r \<le> snd r') (validRevisions s')"
        unfolding f(3) idx(3) [symmetric] by (rule sorted_wrt_take [OF sorted])
      moreover have "\<forall>r \<in> set (validRevisions s'). fst r < nextRevisionId s' \<and> snd r \<le> length (entries s')"
        using g(2) idx(4) u(1) unfolding revisions_ok_def f by (auto dest: set_takeWhileD)
      moreover have "\<forall>e \<in> set (entries s'). entry_ok e"
        using g(2) set_take_subset unfolding revisions_ok_def f by fast
      ultimately show ?thesis by (simp add: revisions_ok_def)
    qed
    ultimately have "simulates s' (m\<lparr>m_world := w, m_saved := takeWhile (\<lambda>r. fst r \<noteq> i) (m_saved m)\<rparr>)"
      using f a g(4) u(3,4) by (simp add: simulates_def good_def)
    then show ?thesis using r w(1) by simp
  qed
qed

lemma exec_simulates:
  assumes "simulates s m"
  shows "case exec_op x s of
      Inl _ \<Rightarrow> a_exec x m = None
    | Inr (r, s') \<Rightarrow> \<exists>m'. a_exec x m = Some (r, m') \<and> simulates s' m'"
proof (cases "x = OpSnapshot \<or> (\<exists>i. x = OpRevert i)")
  case True
  then consider "x = OpSnapshot" | i where "x = OpRevert i" by blast
  then show ?thesis
  proof cases
    case 1
    then show ?thesis using simulates_snapshot [OF assms] by (simp add: answering_def del: a_exec.simps)
  next
    case 2
    then show ?thesis
      using simulates_revert [OF assms, of i]
      by (cases "RevertToSnapshot i s") (simp_all add: silent_def del: a_exec.simps)
  qed
next
  case False
  have "good s" "m_world m = state_view s" using assms by (simp_all add: simulates_def)
  then have k: "matches x s" using exec_matches False by blast
  have "a_exec x m = map_option (\<lambda>(r, w). (r, m\<lparr>m_world := w\<rparr>)) (a_basic x (state_view s))"
    using False \<open>m_world m = state_view s\<close> by (cases x) simp_all
  then show ?thesis
    using k simulates_logged [OF assms] unfolding matches_def by (auto split: sum.splits)
qed

lemma execs_simulate:
  assumes "simulates s m"
  shows "case exec_ops xs s of
      Inl _ \<Rightarrow> a_execs xs m = None
    | Inr (rs, s') \<Rightarrow> \<exists>m'. a_execs xs m = Some (rs, m') \<and> simulates s' m'"
  using assms
proof (induction xs arbitrary: s m)
  case (Cons x xs)
  show ?case
  proof (cases "exec_op x s")
    case (Inl e)
    then show ?thesis using exec_simulates [OF Cons.prems, of x] by simp
  next
    case (Inr y)
    then obtain r t m' where y: "y = (r, t)" "a_exec x m = Some (r, m')" "simulates t m'"
      using exec_simulates [OF Cons.prems, of x] by (cases y) auto
    then show ?thesis using Inr Cons.IH [OF y(3)] by (auto split: sum.splits)
  qed
qed simp

section \<open>The refinement\<close>

definition fresh_machine :: "StateDB \<Rightarrow> machine" where
  "fresh_machine s = \<lparr>m_world = state_view s, m_saved = [], m_next = nextRevisionId s\<rparr>"

lemma simulates_fresh: "good s \<Longrightarrow> entries s = [] \<Longrightarrow> validRevisions s = [] \<Longrightarrow> simulates s (fresh_machine s)"
  by (simp add: simulates_def fresh_machine_def revisions_ok_def)

lemma good_New: "backend_ok db \<Longrightarrow> good (state_New db)"
proof -
  assume ok: "backend_ok db"
  have "live (state_New db) = load_object db" by (simp add: live_def state_New_def fun_eq_iff)
  moreover have "fakeStorage obj = None" if "load_object db a = Some obj" for a obj
    using that by (auto simp: load_object_def newObject_def Let_def split: sum.splits if_splits)
  ultimately show ?thesis
    using ok load_object_address [of db] al_ok_new
    by (auto simp: good_def world_ok_def backend_ok_def) (simp_all add: state_New_def)
qed

text \<open>
  C8: snapshots of a state are copies of it. From a state at the start of a transaction, every
  sequence of reads, writes, snapshots and reverts gives the answers of a machine that has no journal
  and no caches, saves a copy of its world at every \<open>Snapshot\<close> and puts the copy back at
  \<open>RevertToSnapshot\<close>; it panics exactly when that machine has no answer (an unknown revision, or a refund
  below zero), and ends in a state with that machine's world.
\<close>

theorem snapshots_are_copies:
  assumes "good s" and "entries s = []" and "validRevisions s = []"
  shows "case exec_ops xs s of
      Inl _ \<Rightarrow> a_execs xs (fresh_machine s) = None
    | Inr (rs, s') \<Rightarrow> \<exists>m. a_execs xs (fresh_machine s) = Some (rs, m) \<and> m_world m = state_view s'"
  using execs_simulate [OF simulates_fresh [OF assms], of xs]
  by (auto simp: simulates_def split: sum.splits)

definition sample_backend :: backend where
  "sample_backend = \<lparr>bk_Keccak256 = (\<lambda>b. of_nat (length b + 7)), bk_TryGet = (\<lambda>_. Inr []),
     bk_OpenStorageTrie = (\<lambda>_ _. Inl ''missing''), bk_ContractCode = (\<lambda>_ _. Inl ''not found'')\<rparr>"

lemma sample_backend_ok: "backend_ok sample_backend"
  by (simp add: backend_ok_def load_object_def sample_backend_def)

definition sample_ops :: "state_op list" where
  "sample_ops = [OpAddBalance 1 5, OpSnapshot, OpSetState 1 2 3, OpSuicide 1, OpGetBalance 1, OpRevert 0, OpGetBalance 1,
     OpGetState 1 2]"

lemma sample_world: "w_accounts (state_view (state_New sample_backend)) = (\<lambda>_. None)"
  by (simp add: fun_eq_iff live_def state_New_def load_object_def sample_backend_def)

lemma sample_machine_run:
  "map_option fst (a_execs sample_ops (fresh_machine (state_New sample_backend))) =
     Some [Done, ANat 0, Done, ABool True, ABig 0, Done, ABig 5, AHash 0]"
proof -
  have "nextRevisionId (state_New sample_backend) = 0" by (simp add: state_New_def)
  then show ?thesis
    by (simp add: sample_ops_def fresh_machine_def a_change_def a_get_def a_read_def acct_def a_put_def sample_world
        set_balance_def set_slot_def fresh_account_def)
qed

theorem snapshots_are_copies_witness:
  "\<exists>s'. exec_ops sample_ops (state_New sample_backend) =
     Inr ([Done, ANat 0, Done, ABool True, ABig 0, Done, ABig 5, AHash 0], s')"
proof -
  have "entries (state_New sample_backend) = []" "validRevisions (state_New sample_backend) = []"
    by (simp_all add: state_New_def newJournal_def)
  note k = snapshots_are_copies [OF good_New [OF sample_backend_ok] this, of sample_ops]
  show ?thesis
    using k sample_machine_run by (auto split: sum.splits)
qed

end
