(* ===== verification/State_Record.thy ===== *)
theory State_Record
  imports State_Machine
begin

text \<open>
  What a transaction leaves in \<open>ResearchPreAlloc\<close> and \<open>ResearchPostAlloc\<close>: the accounts it looked up,
  with their contents before the transaction, and the storage slots it read or wrote.
\<close>

section \<open>Accounts an operation looks up\<close>

fun op_addr :: "state_op \<Rightarrow> Address option" where
  "op_addr (OpExist a) = Some a"
| "op_addr (OpEmpty a) = Some a"
| "op_addr (OpGetBalance a) = Some a"
| "op_addr (OpGetNonce a) = Some a"
| "op_addr (OpGetCode a) = Some a"
| "op_addr (OpGetCodeSize a) = Some a"
| "op_addr (OpGetCodeHash a) = Some a"
| "op_addr (OpGetState a k) = Some a"
| "op_addr (OpGetCommittedState a k) = Some a"
| "op_addr (OpHasSuicided a) = Some a"
| "op_addr (OpAddBalance a b) = Some a"
| "op_addr (OpSubBalance a b) = Some a"
| "op_addr (OpSetBalance a b) = Some a"
| "op_addr (OpSetNonce a n) = Some a"
| "op_addr (OpSetCode a c) = Some a"
| "op_addr (OpSetState a k v) = Some a"
| "op_addr (OpSuicide a) = Some a"
| "op_addr (OpCreateAccount a) = Some a"
| "op_addr _ = None"

fun op_slot :: "state_op \<Rightarrow> Hash set" where
  "op_slot (OpGetState a k) = {k}"
| "op_slot (OpSetState a k v) = {k}"
| "op_slot _ = {}"

text \<open>An account is created explicitly only after it was looked up, as \<open>evm.Call\<close> and \<open>evm.create\<close> do.\<close>

fun guarded :: "Address set \<Rightarrow> state_op list \<Rightarrow> bool" where
  "guarded A [] = True"
| "guarded A (x # xs) = ((\<forall>a. x = OpCreateAccount a \<longrightarrow> a \<in> A) \<and> guarded (A \<union> set_option (op_addr x)) xs)"

section \<open>One lookup\<close>

definition pre_entry :: "world \<Rightarrow> Address \<Rightarrow> SubstateAccount option" where
  "pre_entry w a =
     map_option (\<lambda>x. NewSubstateAccount (sa_Nonce (a_data x)) (sa_Balance (a_data x))
                       (case a_code x of None \<Rightarrow> [] | Some c \<Rightarrow> c)) (acct w a)"

definition recorded_at :: "Address \<Rightarrow> StateDB \<Rightarrow> SubstateAlloc" where
  "recorded_at a s =
     (if mhas (ResearchPreAlloc s) a then ResearchPreAlloc s
      else mput a (pre_entry (state_view s) a) (ResearchPreAlloc s))"

definition touched :: "stateObject option \<Rightarrow> Hash set" where
  "touched r = (case r of None \<Rightarrow> {} | Some obj \<Rightarrow> set (mkeys (ResearchTouched obj)))"

fun entry_addr :: "journalEntry \<Rightarrow> Address option" where
  "entry_addr (createObjectChange a) = Some a"
| "entry_addr (resetObjectChange prev d) = Some (so_address prev)"
| "entry_addr (suicideChange a _ _) = Some a"
| "entry_addr (touchChange a) = Some a"
| "entry_addr (balanceChange a _) = Some a"
| "entry_addr (nonceChange a _) = Some a"
| "entry_addr (storageChange a _ _) = Some a"
| "entry_addr (codeChange a _ _) = Some a"
| "entry_addr _ = None"

fun creates :: "journalEntry \<Rightarrow> bool" where
  "creates (createObjectChange a) = True"
| "creates (resetObjectChange prev d) = True"
| "creates _ = False"

text \<open>
  A step that looks up one account: what it records, the entries it appends, which objects it may
  change, and the slots it touches.
\<close>

definition tracked :: "Address \<Rightarrow> Hash set \<Rightarrow> StateDB \<Rightarrow> StateDB \<Rightarrow> bool" where
  "tracked a K s s' \<longleftrightarrow>
     ResearchPreAlloc s' = recorded_at a s \<and>
     (\<exists>es. entries s' = entries s @ es \<and>
        (\<forall>e \<in> set es. (entry_addr e = Some a \<or> entry_addr e = None) \<and> (creates e \<longrightarrow> acct (state_view s) a = None) \<and>
           (\<forall>b. e = createObjectChange b \<longrightarrow> live s b = None))) \<and>
     (\<forall>b. mhas (stateObjects s) b \<longrightarrow> mhas (stateObjects s') b) \<and>
     (\<forall>b. b \<noteq> a \<longrightarrow> live s' b = live s b) \<and>
     (acct (state_view s) a \<noteq> None \<longrightarrow> mhas (stateObjects s') a \<and> touched (live s' a) = touched (live s a) \<union> K)"

lemma mhas_setStateObject [simp]: "mhas (stateObjects (setStateObject obj s)) b \<longleftrightarrow> b = so_address obj \<or> mhas (stateObjects s) b"
  by (simp add: setStateObject_def mhas_mput)

lemma so_Code_touched: "so_Code db obj = (c, obj') \<Longrightarrow> ResearchTouched obj' = ResearchTouched obj"
  by (auto simp: so_Code_def split: option.splits if_splits sum.splits)

lemma so_CodeSize_touched: "so_CodeSize db obj = (c, obj') \<Longrightarrow> ResearchTouched obj' = ResearchTouched obj"
  by (auto simp: so_CodeSize_def split: option.splits if_splits sum.splits)

lemma getDeleted_objects:
  assumes "getDeletedStateObject a s = (r, s')"
  shows "mhas (stateObjects s) b \<Longrightarrow> mhas (stateObjects s') b" "r = Some obj \<Longrightarrow> so_address obj = a \<Longrightarrow> mhas (stateObjects s') a"
  using assms
  by (auto simp: getDeletedStateObject_def mhas_map_of Let_def split: option.splits sum.splits if_splits)
    (auto simp: setStateObject_def map_of_mput)

lemma getStateObject_tracked:
  assumes "good s" and "getStateObject a s = (r, s')"
  shows "tracked a {} s s'"
proof -
  have ok: "world_ok (state_view s)" using assms(1) by (simp add: good_def)
  obtain f t where g: "getDeletedStateObject a s = (f, t)" by (cases "getDeletedStateObject a s")
  note d = getDeletedStateObject_live [OF g] and o = getDeleted_objects [OF g]
  let ?r = "case f of Some obj \<Rightarrow> if so_deleted obj then None else Some obj | None \<Rightarrow> None"
  have rec: "record_pre a ?r t = (r, s')" using assms(2) g by (simp add: getStateObject_def)
  have acct: "acct (state_view s) a = map_option (obj_view (sd_db s)) ?r"
    unfolding d(1) by (simp add: acct_def split: option.split)
  have j: "entries t = entries s" using d(3) by (simp add: quiet_step_def)
  show ?thesis
  proof (cases ?r)
    case None
    then have "ResearchPreAlloc s' = recorded_at a s" "entries s' = entries s" "live s' = live s" "stateObjects s' = stateObjects t"
      using rec d(2,4) acct j by (auto simp: record_pre_def recorded_at_def pre_entry_def split: if_splits)
    then show ?thesis using acct None o(1) by (simp add: tracked_def)
  next
    case (Some obj)
    then have l: "live s a = Some obj" "f = Some obj" using d(1) by (auto split: option.splits if_splits)
    have addr: "so_address obj = a" by (rule world_okD(1) [OF ok l(1)])
    have here: "mhas (stateObjects t) a" using o(2) [OF l(2) addr] .
    show ?thesis
    proof (cases "mhas (ResearchPreAlloc t) a")
      case True
      then have "s' = t" using rec Some by (simp add: record_pre_def)
      then show ?thesis using True d(2,4) j o(1) here by (simp add: tracked_def recorded_at_def)
    next
      case False
      obtain c obj' where k: "so_Code (sd_db t) obj = (c, obj')" by (cases "so_Code (sd_db t) obj")
      note v = so_Code_view [OF k]
      have addr': "so_address obj' = a" using arg_cong [OF v(2), of a_address] addr by simp
      have data: "so_data obj' = so_data obj" using arg_cong [OF v(2), of a_data] by simp
      let ?p = "mput a (Some (NewSubstateAccount (sa_Nonce (so_data obj')) (sa_Balance (so_data obj'))
          (case c of None \<Rightarrow> [] | Some c \<Rightarrow> c))) (ResearchPreAlloc t)"
      have s': "s' = (setStateObject obj' t)\<lparr>ResearchPreAlloc := ?p\<rparr>" using False k rec Some by (simp add: record_pre_def)
      have "?p = recorded_at a s"
        using False acct Some d(4,5) v(1) data by (simp add: recorded_at_def pre_entry_def)
      then show ?thesis
        using l(1) so_Code_touched [OF k] addr' d(2) j o(1)
        by (simp add: tracked_def s' touched_def)
    qed
  qed
qed

lemma tracked_step:
  assumes "tracked a K s t" and "ResearchPreAlloc s' = ResearchPreAlloc t" and "entries s' = entries t @ es"
    and "\<forall>e \<in> set es. \<not> creates e \<and> (entry_addr e = Some a \<or> entry_addr e = None)"
    and "\<And>b. mhas (stateObjects t) b \<Longrightarrow> mhas (stateObjects s') b" and "\<And>b. b \<noteq> a \<Longrightarrow> live s' b = live t b"
    and "acct (state_view s) a \<noteq> None \<Longrightarrow> touched (live s' a) = touched (live t a) \<union> K'"
  shows "tracked a (K \<union> K') s s'"
proof -
  from assms(1) obtain fs where fs: "entries t = entries s @ fs"
    "\<forall>e \<in> set fs. (entry_addr e = Some a \<or> entry_addr e = None) \<and> (creates e \<longrightarrow> acct (state_view s) a = None) \<and>
       (\<forall>b. e = createObjectChange b \<longrightarrow> live s b = None)"
    unfolding tracked_def by blast
  have "\<forall>b. e \<noteq> createObjectChange b" if "\<not> creates e" for e using that by auto
  then have "\<forall>e \<in> set (fs @ es). (entry_addr e = Some a \<or> entry_addr e = None) \<and>
      (creates e \<longrightarrow> acct (state_view s) a = None) \<and> (\<forall>b. e = createObjectChange b \<longrightarrow> live s b = None)"
    using fs(2) assms(4) by auto
  then have "\<exists>es. entries s' = entries s @ es \<and> (\<forall>e \<in> set es. (entry_addr e = Some a \<or> entry_addr e = None) \<and>
      (creates e \<longrightarrow> acct (state_view s) a = None) \<and> (\<forall>b. e = createObjectChange b \<longrightarrow> live s b = None))"
    using assms(3) fs(1) by (intro exI [of _ "fs @ es"]) simp
  then show ?thesis using assms unfolding tracked_def by (simp add: Un_assoc)
qed

lemma createObject_tracked:
  assumes "createObject a s = (obj, prev, s')"
  shows "ResearchPreAlloc s' = ResearchPreAlloc s" "\<exists>e. entries s' = entries s @ [e] \<and> creates e \<and>
      (world_ok (state_view s) \<longrightarrow> entry_addr e = Some a) \<and> (\<forall>b. e = createObjectChange b \<longrightarrow> b = a \<and> live s a = None)"
    "mhas (stateObjects s) b \<Longrightarrow> mhas (stateObjects s') b" "b \<noteq> a \<Longrightarrow> live s' b = live s b" "mhas (stateObjects s') a"
proof -
  obtain p t where g: "getDeletedStateObject a s = (p, t)" by (cases "getDeletedStateObject a s")
  note d = getDeletedStateObject_live [OF g]
  define e where "e = (case p of None \<Rightarrow> createObjectChange a | Some p \<Rightarrow> resetObjectChange p False)"
  have r: "obj = newObject (sd_db s) a zeroAccount True" "s' = setStateObject obj (sd_append e t)"
    using assms g d(5) by (auto simp: createObject_def e_def Let_def)
  show "ResearchPreAlloc s' = ResearchPreAlloc s" "b \<noteq> a \<Longrightarrow> live s' b = live s b" "mhas (stateObjects s') a"
    using r d(2,4) by simp_all
  show "mhas (stateObjects s) b \<Longrightarrow> mhas (stateObjects s') b" using r getDeleted_objects(1) [OF g] by simp
  have "entries s' = entries s @ [e]" using r d(3) by (simp add: quiet_step_def)
  moreover have "creates e" by (simp add: e_def split: option.split)
  moreover have "entry_addr e = Some a" if "world_ok (state_view s)"
    using world_okD(1) [OF that, of a] d(1) by (auto simp: e_def split: option.split)
  moreover have "b = a \<and> live s a = None" if "e = createObjectChange b" for b
    using that d(1) by (simp add: e_def split: option.splits)
  ultimately show "\<exists>e. entries s' = entries s @ [e] \<and> creates e \<and>
      (world_ok (state_view s) \<longrightarrow> entry_addr e = Some a) \<and> (\<forall>b. e = createObjectChange b \<longrightarrow> b = a \<and> live s a = None)"
    by blast
qed

lemma GetOrNew_tracked:
  assumes "good s" and "GetOrNewStateObject a s = (obj, s')"
  shows "tracked a {} s s'"
proof -
  have ok: "world_ok (state_view s)" using assms(1) by (simp add: good_def)
  obtain r t where g: "getStateObject a s = (r, t)" by (cases "getStateObject a s")
  note v = getStateObject_view [OF ok g] and k = getStateObject_tracked [OF assms(1) g]
  show ?thesis
  proof (cases r)
    case (Some q)
    then show ?thesis using assms(2) g k by (simp add: GetOrNewStateObject_def)
  next
    case None
    obtain o' p u where c: "createObject a t = (o', p, u)" by (cases "createObject a t")
    have e: "s' = u" using assms(2) g None c by (simp add: GetOrNewStateObject_def)
    have n: "acct (state_view s) a = None" using v(3) None by simp
    have sv: "state_view t = state_view s" "sd_db t = sd_db s" using v(1,2) by (simp_all add: quiet_step_def)
    have l: "live s a = None" if "live t a = None"
      using arg_cong [OF sv(1), of "\<lambda>w. w_accounts w a"] that by simp
    note ct = createObject_tracked [OF c]
    obtain e' where e': "entries u = entries t @ [e']" "entry_addr e' = Some a" "creates e'"
      "\<forall>b. e' = createObjectChange b \<longrightarrow> b = a \<and> live t a = None" using ct(2) ok sv(1) by auto
    from k obtain fs where fs: "entries t = entries s @ fs"
      "\<forall>e \<in> set fs. (entry_addr e = Some a \<or> entry_addr e = None) \<and> (creates e \<longrightarrow> acct (state_view s) a = None) \<and>
         (\<forall>b. e = createObjectChange b \<longrightarrow> live s b = None)"
      unfolding tracked_def by blast
    have "\<forall>e \<in> set (fs @ [e']). (entry_addr e = Some a \<or> entry_addr e = None) \<and>
        (creates e \<longrightarrow> acct (state_view s) a = None) \<and> (\<forall>b. e = createObjectChange b \<longrightarrow> live s b = None)"
      using fs(2) e' n l by auto
    then have "\<exists>es. entries s' = entries s @ es \<and> (\<forall>e \<in> set es. (entry_addr e = Some a \<or> entry_addr e = None) \<and>
        (creates e \<longrightarrow> acct (state_view s) a = None) \<and> (\<forall>b. e = createObjectChange b \<longrightarrow> live s b = None))"
      using e'(1) fs(1) e by (intro exI [of _ "fs @ [e']"]) simp
    then show ?thesis using k ct n e unfolding tracked_def by simp
  qed
qed

text \<open>Writing back an object whose touched slots grow by \<open>K\<close>.\<close>

lemma tracked_write:
  assumes "tracked a K s t" and "so_address obj = a"
    and "set (mkeys (ResearchTouched obj)) = touched (live t a) \<union> K'"
  shows "tracked a (K \<union> K') s (setStateObject obj t)"
    "\<not> creates e \<Longrightarrow> entry_addr e = Some a \<Longrightarrow> tracked a (K \<union> K') s (setStateObject obj (sd_append e t))"
proof -
  show "tracked a (K \<union> K') s (setStateObject obj t)"
    by (rule tracked_step [OF assms(1), of _ "[]"]) (use assms(2,3) in \<open>simp_all add: touched_def\<close>)
  show "tracked a (K \<union> K') s (setStateObject obj (sd_append e t))" if "\<not> creates e" "entry_addr e = Some a"
    by (rule tracked_step [OF assms(1), of _ "[e]"]) (use assms(2,3) that in \<open>simp_all add: touched_def\<close>)
qed

lemma read_object_tracked:
  assumes "good s" and "read_object z f a s = (v, s')"
    and "\<And>obj v obj'. f obj = (v, obj') \<Longrightarrow> so_address obj' = so_address obj \<and>
      set (mkeys (ResearchTouched obj')) = set (mkeys (ResearchTouched obj)) \<union> K"
  shows "tracked a K s s'"
proof -
  have ok: "world_ok (state_view s)" using assms(1) by (simp add: good_def)
  obtain r t where g: "getStateObject a s = (r, t)" by (cases "getStateObject a s")
  note w = getStateObject_view [OF ok g] and k = getStateObject_tracked [OF assms(1) g]
  show ?thesis
  proof (cases r)
    case None
    then have "acct (state_view s) a = None" using w(3) by simp
    then show ?thesis using k assms(2) g None by (simp add: read_object_def tracked_def)
  next
    case (Some obj)
    obtain u obj' where f: "f obj = (u, obj')" by (cases "f obj")
    have e: "s' = setStateObject obj' t" using assms(2) g Some f by (simp add: read_object_def)
    show ?thesis
      unfolding e using tracked_write(1) [OF k, of obj' K] assms(3) [OF f] w(4) Some by (simp add: touched_def)
  qed
qed

section \<open>Operations\<close>

lemma view_address: "obj_view db x = obj_view db y \<Longrightarrow> so_address x = so_address y"
  using obj_view_simps(1) by metis

lemma getState_touched:
  assumes "so_GetState db k obj = (v, obj')"
  shows "so_address obj' = so_address obj \<and> set (mkeys (ResearchTouched obj')) = set (mkeys (ResearchTouched obj)) \<union> {k}"
  using so_GetState_view [OF assms] view_address [OF so_GetState_view(2) [OF assms]]
  by (auto simp: mhas_iff set_mkeys_mput simp del: set_map)

lemma same_touched:
  "so_Code db obj = (c, obj') \<Longrightarrow> so_address obj' = so_address obj \<and> set (mkeys (ResearchTouched obj')) = set (mkeys (ResearchTouched obj)) \<union> {}"
  "so_CodeSize db obj = (n, obj') \<Longrightarrow> so_address obj' = so_address obj \<and> set (mkeys (ResearchTouched obj')) = set (mkeys (ResearchTouched obj)) \<union> {}"
  "so_GetCommittedState db k obj = (v, obj') \<Longrightarrow> so_address obj' = so_address obj \<and> set (mkeys (ResearchTouched obj')) = set (mkeys (ResearchTouched obj)) \<union> {}"
  by (simp_all add: so_Code_touched so_CodeSize_touched so_GetCommittedState_view view_address [OF so_Code_view(2)]
      view_address [OF so_CodeSize_view(2)])

lemma setter_touched [simp]:
  "ResearchTouched (so_setBalance b obj) = ResearchTouched obj" "ResearchTouched (so_setNonce n obj) = ResearchTouched obj"
  "ResearchTouched (so_setCode h c obj) = ResearchTouched obj" "ResearchTouched (so_setState k v obj) = ResearchTouched obj"
  by (simp_all add: so_setBalance_def so_setNonce_def so_setCode_def so_setState_def)

lemma read_ops_tracked:
  assumes "good s" and "op_addr x = Some a" and "exec_op x s = Inr (r, s')"
    and "x \<in> {OpExist a, OpEmpty a, OpGetBalance a, OpGetNonce a, OpGetCodeHash a, OpHasSuicided a}"
  shows "tracked a (op_slot x) s s'"
proof -
  obtain q t where g: "getStateObject a s = (q, t)" by (cases "getStateObject a s")
  have "s' = t" using assms(3,4) g
    by (auto simp: answering_def Exist_def Empty_def GetBalance_def GetNonce_def GetCodeHash_def HasSuicided_def)
  then show ?thesis using getStateObject_tracked [OF assms(1) g] assms(4) by auto
qed

lemma read_object_ops_tracked:
  assumes "good s" and "exec_op x s = Inr (r, s')"
    and "x \<in> {OpGetCode a, OpGetCodeSize a, OpGetState a k, OpGetCommittedState a k}"
  shows "tracked a (op_slot x) s s'"
proof -
  obtain c1 t1 where 1: "read_object None (so_Code (sd_db s)) a s = (c1, t1)" by (cases "read_object None (so_Code (sd_db s)) a s")
  obtain c2 t2 where 2: "read_object 0 (so_CodeSize (sd_db s)) a s = (c2, t2)" by (cases "read_object 0 (so_CodeSize (sd_db s)) a s")
  obtain c3 t3 where 3: "read_object 0 (so_GetState (sd_db s) k) a s = (c3, t3)" by (cases "read_object 0 (so_GetState (sd_db s) k) a s")
  obtain c4 t4 where 4: "read_object 0 (so_GetCommittedState (sd_db s) k) a s = (c4, t4)"
    by (cases "read_object 0 (so_GetCommittedState (sd_db s) k) a s")
  note t = read_object_tracked [OF assms(1) 1 same_touched(1)] read_object_tracked [OF assms(1) 2 same_touched(2)]
    read_object_tracked [OF assms(1) 3 getState_touched] read_object_tracked [OF assms(1) 4 same_touched(3)]
  show ?thesis using assms(2,3) t 1 2 3 4
    by (auto simp: answering_def sd_GetCode_def GetCodeSize_def GetState_def GetCommittedState_def)
qed

lemma SetBalance_tracked:
  assumes "good s" and "GetOrNewStateObject a s = (obj, t)"
  shows "tracked a {} s (so_SetBalance b obj t)"
  unfolding so_SetBalance_def
  using tracked_write(2) [OF GetOrNew_tracked [OF assms], of "so_setBalance b obj" "{}" "balanceChange a (sa_Balance (so_data obj))"]
    GetOrNew_view(5,6) [OF assms]
  by (simp add: touched_def)

lemma touch_tracked:
  assumes "tracked a K s t" and "so_address obj = a"
  shows "tracked a K s (so_touch obj t)"
proof -
  have "stateObjects (so_touch obj t) = stateObjects t" "sd_db (so_touch obj t) = sd_db t"
    by (simp_all add: so_touch_def Let_def)
  then have l: "live (so_touch obj t) = live t" by (rule live_cong)
  have "tracked a (K \<union> {}) s (so_touch obj t)"
    by (rule tracked_step [OF assms(1), of _ "[touchChange a]"])
      (use assms(2) l in \<open>simp_all add: so_touch_def Let_def j_dirty_def\<close>)
  then show ?thesis by simp
qed

lemma write_ops_tracked:
  assumes "good s" and "exec_op x s = Inr (r, s')"
    and "x \<in> {OpAddBalance a b, OpSubBalance a b, OpSetBalance a b, OpSetNonce a n, OpSetCode a c, OpSetState a k v}"
  shows "tracked a (op_slot x) s s'"
proof -
  obtain obj t where g: "GetOrNewStateObject a s = (obj, t)" by (cases "GetOrNewStateObject a s")
  note o = GetOrNew_tracked [OF assms(1) g] and v = GetOrNew_view [OF assms(1) g] and x = GetOrNew_account [OF assms(1) g]
  note bal = SetBalance_tracked [OF assms(1) g]
  have tl: "touched (live t a) = set (mkeys (ResearchTouched obj))" using v(6) by (simp add: touched_def)
  from assms(3) consider (add) "x = OpAddBalance a b" | (sub) "x = OpSubBalance a b" | (set) "x = OpSetBalance a b"
    | (nonce) "x = OpSetNonce a n" | (code) "x = OpSetCode a c" | (state) "x = OpSetState a k v" by auto
  then show ?thesis
  proof cases
    case add
    then have "s' = so_AddBalance b obj t" using assms(2) g by (simp add: silent_def sd_AddBalance_def)
    then show ?thesis using add o bal touch_tracked [OF o v(5)] by (simp add: so_AddBalance_def)
  next
    case sub
    then have "s' = so_SubBalance b obj t" using assms(2) g by (simp add: silent_def sd_SubBalance_def)
    then show ?thesis using sub o bal by (simp add: so_SubBalance_def)
  next
    case set
    then show ?thesis using assms(2) g bal by (auto simp: silent_def sd_SetBalance_def)
  next
    case nonce
    then have "s' = so_SetNonce n obj t" using assms(2) g by (simp add: silent_def sd_SetNonce_def)
    then show ?thesis
      using nonce tracked_write(2) [OF o, of "so_setNonce n obj" "{}" "nonceChange a (sa_Nonce (so_data obj))"] tl v(5)
      by (simp add: so_SetNonce_def)
  next
    case code
    obtain pc obj' where k: "so_Code (sd_db t) obj = (pc, obj')" by (cases "so_Code (sd_db t) obj")
    let ?h = "bk_Keccak256 (sd_db t) (case c of None \<Rightarrow> [] | Some c \<Rightarrow> c)"
    have "s' = setStateObject (so_setCode ?h c obj') (sd_append (codeChange (so_address obj') pc (sa_CodeHash (so_data obj'))) t)"
      using assms(2) code g k by (simp add: silent_def sd_SetCode_def so_SetCode_def)
    then show ?thesis
      using code tracked_write(2) [OF o, of "so_setCode ?h c obj'" "{}" "codeChange a pc (sa_CodeHash (so_data obj'))"]
        same_touched(1) [OF k] tl v(5) by simp
  next
    case state
    obtain p obj' where k: "so_GetState (sd_db t) k obj = (p, obj')" by (cases "so_GetState (sd_db t) k obj")
    note kt = getState_touched [OF k]
    have "s' = (if p = v then setStateObject obj' t
        else setStateObject (so_setState k v obj') (sd_append (storageChange a k p) t))"
      using assms(2) state g k x(4) kt v(5) by (auto simp: silent_def sd_SetState_def so_SetState_def)
    then show ?thesis
      using state tracked_write(1) [OF o, of obj' "{k}"]
        tracked_write(2) [OF o, of "so_setState k v obj'" "{k}" "storageChange a k p"] kt tl v(5) by simp
  qed
qed

lemma Suicide_tracked:
  assumes "good s" and "Suicide a s = (b, s')"
  shows "tracked a {} s s'"
proof -
  have ok: "world_ok (state_view s)" using assms(1) by (simp add: good_def)
  obtain r t where g: "getStateObject a s = (r, t)" by (cases "getStateObject a s")
  note v = getStateObject_view [OF ok g] and k = getStateObject_tracked [OF assms(1) g]
  show ?thesis
  proof (cases r)
    case None
    then show ?thesis using assms(2) g k by (simp add: Suicide_def)
  next
    case (Some obj)
    let ?e = "suicideChange a (suicided obj) (sa_Balance (so_data obj))"
    have "s' = setStateObject (so_setBalance 0 (obj\<lparr>suicided := True\<rparr>)) (sd_append ?e t)"
      using assms(2) g Some by (simp add: Suicide_def)
    then show ?thesis
      using tracked_write(2) [OF k, of "so_setBalance 0 (obj\<lparr>suicided := True\<rparr>)" "{}" ?e] v(4) Some
      by (simp add: touched_def)
  qed
qed

lemma exec_tracked:
  assumes "good s" and "op_addr x = Some a" and "x \<noteq> OpCreateAccount a" and "exec_op x s = Inr (r, s')"
  shows "tracked a (op_slot x) s s'"
proof (cases "x = OpSuicide a")
  case True
  then show ?thesis
    using Suicide_tracked [OF assms(1)] assms(4) by (cases "Suicide a s") (auto simp: answering_def)
next
  case False
  then show ?thesis
    using assms read_ops_tracked [OF assms(1,2,4)] read_object_ops_tracked [OF assms(1,4), of a]
      write_ops_tracked [OF assms(1,4), of a]
    by (cases x) simp_all
qed

text \<open>Operations on no account leave the objects and the record alone.\<close>

definition aside :: "StateDB \<Rightarrow> StateDB \<Rightarrow> bool" where
  "aside s s' \<longleftrightarrow> ResearchPreAlloc s' = ResearchPreAlloc s \<and> stateObjects s' = stateObjects s \<and> live s' = live s \<and>
     (\<exists>es. entries s' = entries s @ es \<and> (\<forall>e \<in> set es. entry_addr e = None \<and> \<not> creates e))"

lemma asideI:
  assumes "ResearchPreAlloc s' = ResearchPreAlloc s" "stateObjects s' = stateObjects s" "sd_db s' = sd_db s"
    "entries s' = entries s @ es" "\<forall>e \<in> set es. entry_addr e = None \<and> \<not> creates e"
  shows "aside s s'"
  unfolding aside_def using assms live_cong [OF assms(2,3)] by blast

lemma exec_aside:
  assumes "op_addr x = None" and "\<nexists>i. x = OpRevert i" and "exec_op x s = Inr (r, s')"
  shows "aside s s'"
proof (cases x)
  case (OpAddLog l)
  then have "s' = snd (AddLog l s)" using assms(3) by (simp add: answering_def)
  then show ?thesis by (intro asideI [of _ _ "[addLogChange (sd_thash s)]"]) (simp_all add: AddLog_def Let_def)
next
  case (OpAddPreimage h b)
  then have "s' = AddPreimage h b s" using assms(3) by (simp add: silent_def)
  then show ?thesis
    by (intro asideI [of _ _ "if mhas (preimages s) h then [] else [addPreimageChange h]"]) (simp_all add: AddPreimage_def)
next
  case (OpAddRefund g)
  then have "s' = AddRefund g s" using assms(3) by (simp add: silent_def)
  then show ?thesis by (intro asideI [of _ _ "[refundChange (sd_refund s)]"]) (simp_all add: AddRefund_def)
next
  case (OpSubRefund g)
  then have "SubRefund g s = Inr s'" using assms(3) by (auto simp: silent_def elim: go_bind_InrE)
  then show ?thesis
    by (intro asideI [of _ _ "[refundChange (sd_refund s)]"]) (auto simp: SubRefund_def Let_def split: if_splits)
next
  case (OpAddAddress a)
  then have "s' = AddAddressToAccessList a s" using assms(3) by (simp add: silent_def)
  then show ?thesis
    by (intro asideI [of _ _ "if fst (AddAddress a (sd_accessList s)) then [accessListAddAccountChange a] else []"])
      (auto simp: AddAddressToAccessList_def Let_def split: prod.splits)
next
  case (OpAddSlot a k)
  then have "AddSlotToAccessList a k s = Inr s'" using assms(3) by (auto simp: silent_def elim: go_bind_InrE)
  then obtain ac sc al where "s' = (let s = s\<lparr>sd_accessList := al\<rparr>;
       s = (if ac then sd_append (accessListAddAccountChange a) s else s)
       in if sc then sd_append (accessListAddSlotChange a k) s else s)"
    by (auto simp: AddSlotToAccessList_def Let_def elim!: go_bind_InrE)
  then show ?thesis
    by (intro asideI [of _ _ "(if ac then [accessListAddAccountChange a] else []) @ (if sc then [accessListAddSlotChange a k] else [])"])
      (auto simp: Let_def)
next
  case OpSnapshot
  then have "s' = snd (sd_Snapshot s)" using assms(3) by (simp add: answering_def)
  then show ?thesis by (intro asideI [of _ _ "[]"]) (simp_all add: sd_Snapshot_def Let_def)
next
  case (OpSlotInAccessList a k)
  then have "s' = s" using assms(3) by (auto elim!: go_bind_InrE)
  then show ?thesis by (intro asideI [of _ _ "[]"]) simp_all
qed (use assms in \<open>auto simp: answering_def silent_def intro!: asideI [of _ _ "[]"]\<close>)

section \<open>Reverting\<close>

lemma getStateObject_known:
  assumes "mhas (ResearchPreAlloc s) a" and "getStateObject a s = (r, s')"
  shows "ResearchPreAlloc s' = ResearchPreAlloc s" "live s' = live s" "sd_db s' = sd_db s" "entries s' = entries s"
    "mhas (stateObjects s) b \<Longrightarrow> mhas (stateObjects s') b" "r = Some obj \<Longrightarrow> live s a = Some obj"
proof -
  obtain f t where g: "getDeletedStateObject a s = (f, t)" by (cases "getDeletedStateObject a s")
  note d = getDeletedStateObject_live [OF g]
  have e: "r = (case f of Some obj \<Rightarrow> if so_deleted obj then None else Some obj | None \<Rightarrow> None)" "s' = t"
    using assms(2) g d(4) assms(1) by (simp_all add: getStateObject_def record_pre_def)
  show "ResearchPreAlloc s' = ResearchPreAlloc s" "live s' = live s" "sd_db s' = sd_db s" "entries s' = entries s"
    using e(2) d by (simp_all add: quiet_step_def)
  show "mhas (stateObjects s) b \<Longrightarrow> mhas (stateObjects s') b" using e(2) getDeleted_objects(1) [OF g] by simp
  show "r = Some obj \<Longrightarrow> live s a = Some obj" using e(1) d(1) by (auto split: option.splits if_splits)
qed

text \<open>What undoing one entry retains, when the account of the entry is already recorded.\<close>

definition settled :: "Address option \<Rightarrow> StateDB \<Rightarrow> StateDB \<Rightarrow> bool" where
  "settled r s s' \<longleftrightarrow> ResearchPreAlloc s' = ResearchPreAlloc s \<and> sd_db s' = sd_db s \<and>
     (\<forall>b. mhas (stateObjects s) b \<longrightarrow> mhas (stateObjects s') b) \<and>
     (\<forall>b. r \<noteq> Some b \<longrightarrow> live s' b = live s b) \<and> (\<forall>b. touched (live s' b) = touched (live s b))"

lemma settled_write:
  assumes "world_ok (state_view s)" and "mhas (ResearchPreAlloc s) a" and "getStateObject a s = (Some obj, t)"
    and "so_address (f obj) = so_address obj" and "ResearchTouched (f obj) = ResearchTouched obj"
  shows "settled (Some a) s (setStateObject (f obj) t)"
proof -
  note k = getStateObject_known [OF assms(2,3)]
  have "so_address obj = a" by (rule world_okD(1) [OF assms(1) k(6) [OF refl]])
  then show ?thesis
    unfolding settled_def using k assms(4,5) k(6) [OF refl] by (simp add: touched_def)
qed

lemma settled_on_object:
  assumes "world_ok (state_view s)" and "mhas (ResearchPreAlloc s) a" and "on_object a f s = Inr s'"
    and "\<And>obj. so_address (f obj) = so_address obj" and "\<And>obj. ResearchTouched (f obj) = ResearchTouched obj"
  shows "settled (Some a) s s'"
proof -
  obtain r t where g: "getStateObject a s = (r, t)" by (cases "getStateObject a s")
  with assms(3) obtain obj where o: "r = Some obj" "s' = setStateObject (f obj) t"
    by (cases r) (simp_all add: on_object_def)
  show ?thesis
    unfolding o(2) by (rule settled_write [OF assms(1,2)]) (use g o(1) assms(4,5) in simp_all)
qed

lemma settled_same: "ResearchPreAlloc s' = ResearchPreAlloc s \<Longrightarrow> stateObjects s' = stateObjects s \<Longrightarrow> sd_db s' = sd_db s \<Longrightarrow> settled r s s'"
  using live_cong [of s' s] by (simp add: settled_def)

lemma entry_revert_settled:
  assumes "world_ok (state_view s)" and "entry_revert e s = Inr s'" and "\<not> creates e"
    and "\<And>a. entry_addr e = Some a \<Longrightarrow> mhas (ResearchPreAlloc s) a"
  shows "settled (entry_addr e) s s'"
proof (cases e)
  case (suicideChange a p b)
  obtain r t where g: "getStateObject a s = (r, t)" by (cases "getStateObject a s")
  have m: "mhas (ResearchPreAlloc s) a" using assms(4) suicideChange by simp
  show ?thesis
  proof (cases r)
    case None
    then have "s' = t" using assms(2) suicideChange g by simp
    then show ?thesis unfolding settled_def using getStateObject_known [OF m g] by simp
  next
    case (Some obj)
    then show ?thesis
      using settled_write [OF assms(1) m, of obj t "\<lambda>obj. so_setBalance b (obj\<lparr>suicided := p\<rparr>)"] g assms(2) suicideChange by simp
  qed
next
  case (balanceChange a b)
  then show ?thesis using settled_on_object [OF assms(1), of a "so_setBalance b"] assms(2,4) by simp
next
  case (nonceChange a b)
  then show ?thesis using settled_on_object [OF assms(1), of a "so_setNonce b"] assms(2,4) by simp
next
  case (codeChange a c h)
  then show ?thesis using settled_on_object [OF assms(1), of a "so_setCode (BytesToHash h) c"] assms(2,4) by simp
next
  case (storageChange a k v)
  then show ?thesis using settled_on_object [OF assms(1), of a "so_setState k v"] assms(2,4) by simp
qed (use assms(2,3) in \<open>auto simp: Let_def elim!: go_bind_InrE split: if_splits intro!: settled_same\<close>)

lemma delete_object:
  "mhas (AList.delete a m) b \<longleftrightarrow> b \<noteq> a \<and> mhas m b"
  "b \<noteq> a \<Longrightarrow> live (s\<lparr>stateObjects := AList.delete a (stateObjects s), stateObjectsDirty := d\<rparr>) b = live s b"
  by (simp_all add: mhas_map_of delete_conv' live_def split: option.split)

lemma creates_revert:
  assumes "entry_revert e s = Inr s'" and "creates e"
  shows "ResearchPreAlloc s' = ResearchPreAlloc s" "sd_db s' = sd_db s"
    "mhas (stateObjects s) b \<Longrightarrow> e \<noteq> createObjectChange b \<Longrightarrow> mhas (stateObjects s') b"
    "entry_addr e \<noteq> Some b \<Longrightarrow> live s' b = live s b"
proof -
  have "ResearchPreAlloc s' = ResearchPreAlloc s \<and> sd_db s' = sd_db s \<and>
      (mhas (stateObjects s) b \<longrightarrow> e \<noteq> createObjectChange b \<longrightarrow> mhas (stateObjects s') b) \<and>
      (entry_addr e \<noteq> Some b \<longrightarrow> live s' b = live s b)"
    using assms by (cases e) (auto simp: delete_object)
  then show "ResearchPreAlloc s' = ResearchPreAlloc s" "sd_db s' = sd_db s"
    "mhas (stateObjects s) b \<Longrightarrow> e \<noteq> createObjectChange b \<Longrightarrow> mhas (stateObjects s') b"
    "entry_addr e \<noteq> Some b \<Longrightarrow> live s' b = live s b" by blast+
qed

section \<open>Accounts stay accounts\<close>

text \<open>An account that is not created again stays, and retains its committed storage.\<close>

definition retains :: "Address \<Rightarrow> world \<Rightarrow> world \<Rightarrow> bool" where
  "retains a w w' \<longleftrightarrow> (\<forall>x. acct w a = Some x \<longrightarrow> (\<exists>x'. acct w' a = Some x' \<and> a_committed x' = a_committed x))"

lemma retains_refl [simp]: "retains a w w"
  by (simp add: retains_def)

lemma retains_same: "w_accounts w' a = w_accounts w a \<Longrightarrow> retains a w w'"
  by (simp add: retains_def acct_def)

lemma committed_set [simp]:
  "a_committed (set_balance b x) = a_committed x" "a_committed (set_nonce n x) = a_committed x"
  "a_committed (set_code db h c x) = a_committed x" "a_committed (set_slot k v x) = a_committed x"
  "a_deleted (set_balance b x) = a_deleted x" "a_deleted (set_nonce n x) = a_deleted x"
  "a_deleted (set_code db h c x) = a_deleted x" "a_deleted (set_slot k v x) = a_deleted x"
  by (simp_all add: set_balance_def set_nonce_def set_code_def set_slot_def)

lemma retains_put:
  assumes "acct w b = Some y" and "a_committed y' = a_committed y" and "a_deleted y' = a_deleted y"
  shows "retains a w (a_put b y' w)"
  using assms by (auto simp: retains_def acct_def a_put_def split: option.splits if_splits)

lemma retains_aside [simp]:
  "retains a w (w\<lparr>w_logs := l, w_logSize := n\<rparr>)" "retains a w (w\<lparr>w_preimages := p\<rparr>)"
  "retains a w (w\<lparr>w_refund := r\<rparr>)" "retains a w (w\<lparr>w_accessList := al\<rparr>)"
  by (rule retains_same; simp)+

lemma retains_other: "b \<noteq> a \<Longrightarrow> retains a w (a_put b y w)"
  by (rule retains_same) (simp add: a_put_def)

lemma retains_change:
  assumes "\<And>x. a_committed (f x) = a_committed x" and "\<And>x. a_deleted (f x) = a_deleted x"
  shows "retains a w (a_change b f w)"
  using assms by (auto simp: retains_def acct_def a_change_def a_get_def a_put_def split: option.splits if_splits)

lemma retains_on:
  assumes "a_on b f w = Some w'" and "\<And>x. a_committed (f x) = a_committed x" and "\<And>x. a_deleted (f x) = a_deleted x"
  shows "retains a w w'"
  using assms retains_put [of w b] by (auto simp: a_on_def)

lemma a_revert_retains:
  assumes "a_revert e w = Some w'" and "creates e \<Longrightarrow> entry_addr e \<noteq> Some a"
  shows "retains a w w'"
proof (cases e)
  case (suicideChange b p n)
  then show ?thesis
    using assms(1) by (auto split: option.splits intro: retains_put)
next
  case (balanceChange b n)
  then show ?thesis using assms(1) retains_on [of b "set_balance n"] by simp
next
  case (nonceChange b n)
  then show ?thesis using assms(1) retains_on [of b "set_nonce n"] by simp
next
  case (codeChange b c h)
  then show ?thesis using assms(1) retains_on [of b "set_code (w_db w) (BytesToHash h) c"] by simp
next
  case (storageChange b k v)
  then show ?thesis using assms(1) retains_on [of b "set_slot k v"] by simp
qed (use assms in \<open>auto simp: a_put_def split: if_splits sum.splits intro!: retains_same\<close>)

lemma a_basic_retains:
  assumes "a_basic x w = Some (r, w')" and "x \<noteq> OpCreateAccount a"
  shows "retains a w w'"
  using assms
  by (cases x) (auto split: if_splits sum.splits option.splits intro!: retains_change intro: retains_put retains_other)

section \<open>The invariant\<close>

text \<open>
  \<open>w0\<close> is the world before the transaction, \<open>A\<close> the accounts looked up, \<open>C\<close> the accounts created
  explicitly, \<open>T\<close> the slots read or written.
\<close>

definition record_inv :: "world \<Rightarrow> Address set \<Rightarrow> StateDB \<Rightarrow> bool" where
  "record_inv w0 A s \<longleftrightarrow> world_ok (state_view s) \<and> sd_db s = w_db w0 \<and> gomap_ok (ResearchPreAlloc s) \<and>
     dom (map_of (ResearchPreAlloc s)) = A \<and>
     (\<forall>a \<in> A. map_of (ResearchPreAlloc s) a = Some (pre_entry w0 a)) \<and>
     (\<forall>a. a \<notin> A \<longrightarrow> w_accounts (state_view s) a = w_accounts w0 a) \<and>
     (\<forall>a \<in> A. acct w0 a \<noteq> None \<longrightarrow> mhas (stateObjects s) a)"

definition entries_inv :: "world \<Rightarrow> Address set \<Rightarrow> journalEntry list \<Rightarrow> bool" where
  "entries_inv w0 A es \<longleftrightarrow>
     (\<forall>e \<in> set es. entry_ok e \<and> set_option (entry_addr e) \<subseteq> A \<and> (\<forall>b. e = createObjectChange b \<longrightarrow> acct w0 b = None))"

definition slots_inv :: "world \<Rightarrow> Address set \<Rightarrow> (Address \<Rightarrow> Hash set) \<Rightarrow> StateDB \<Rightarrow> bool" where
  "slots_inv w0 C T s \<longleftrightarrow>
     (\<forall>a. a \<notin> C \<longrightarrow> acct w0 a \<noteq> None \<longrightarrow> touched (live s a) = T a \<and> retains a w0 (state_view s))"

definition created_inv :: "world \<Rightarrow> Address set \<Rightarrow> journalEntry list \<Rightarrow> bool" where
  "created_inv w0 C es \<longleftrightarrow> (\<forall>e \<in> set es. \<forall>a. creates e \<longrightarrow> entry_addr e = Some a \<longrightarrow> a \<in> C \<or> acct w0 a = None)"

lemma retains_trans: "retains a u v \<Longrightarrow> retains a v w \<Longrightarrow> retains a u w"
  unfolding retains_def by metis

lemma view_live: "sd_db s' = sd_db s \<Longrightarrow> live s' b = live s b \<Longrightarrow> w_accounts (state_view s') b = w_accounts (state_view s) b"
  by simp

lemma record_inv_revert:
  assumes "record_inv w0 A s" and "entries_inv w0 A [e]" and "entry_revert e s = Inr s'"
  shows "record_inv w0 A s'"
proof -
  have ok: "world_ok (state_view s)" and e: "entry_ok e" using assms(1,2) by (simp_all add: record_inv_def entries_inv_def)
  have v: "a_revert e (state_view s) = Some (state_view s')" using entry_revert_view [OF ok, of e] assms(3) by simp
  have ok': "world_ok (state_view s')" by (rule a_revert_ok [OF ok e v])
  have m: "mhas (ResearchPreAlloc s) a \<and> a \<in> A" if "entry_addr e = Some a" for a
    using assms(1,2) that unfolding record_inv_def entries_inv_def mhas_map_of by auto
  have k: "ResearchPreAlloc s' = ResearchPreAlloc s \<and> sd_db s' = sd_db s \<and>
      (\<forall>b. mhas (stateObjects s) b \<longrightarrow> e \<noteq> createObjectChange b \<longrightarrow> mhas (stateObjects s') b) \<and>
      (\<forall>b. entry_addr e \<noteq> Some b \<longrightarrow> live s' b = live s b)"
  proof (cases "creates e")
    case True
    then show ?thesis using creates_revert [OF assms(3)] by blast
  next
    case False
    then show ?thesis using entry_revert_settled [OF ok assms(3) False] m unfolding settled_def by blast
  qed
  have "w_accounts (state_view s') a = w_accounts w0 a" if "a \<notin> A" for a
  proof -
    have "entry_addr e \<noteq> Some a" using m that by blast
    then have "w_accounts (state_view s') a = w_accounts (state_view s) a" using k by (intro view_live) blast+
    then show ?thesis using assms(1) that unfolding record_inv_def by metis
  qed
  moreover have "mhas (stateObjects s') a" if "a \<in> A" "acct w0 a \<noteq> None" for a
  proof -
    have "e \<noteq> createObjectChange a" using that(2) assms(2) unfolding entries_inv_def by auto
    moreover have "mhas (stateObjects s) a" using assms(1) that unfolding record_inv_def by blast
    ultimately show ?thesis using k by blast
  qed
  ultimately show ?thesis using assms(1) ok' k unfolding record_inv_def by simp
qed

lemma slots_inv_revert:
  assumes "record_inv w0 A s" and "entries_inv w0 A [e]" and "slots_inv w0 C T s" and "created_inv w0 C [e]"
    and "entry_revert e s = Inr s'"
  shows "slots_inv w0 C T s'"
proof -
  have ok: "world_ok (state_view s)" using assms(1) by (simp add: record_inv_def)
  have v: "a_revert e (state_view s) = Some (state_view s')" using entry_revert_view [OF ok, of e] assms(5) by simp
  have "touched (live s' a) = T a \<and> retains a w0 (state_view s')" if a: "a \<notin> C" "acct w0 a \<noteq> None" for a
  proof -
    have c: "entry_addr e \<noteq> Some a" if "creates e" using assms(4) that a unfolding created_inv_def by auto
    have "touched (live s' a) = touched (live s a)"
    proof (cases "creates e")
      case True
      then show ?thesis using creates_revert(4) [OF assms(5) True c] by simp
    next
      case False
      have "mhas (ResearchPreAlloc s) b" if "entry_addr e = Some b" for b
        using assms(1,2) that unfolding record_inv_def entries_inv_def mhas_map_of by auto
      then show ?thesis using entry_revert_settled [OF ok assms(5) False] unfolding settled_def by blast
    qed
    moreover have "retains a (state_view s) (state_view s')" by (rule a_revert_retains [OF v c])
    ultimately show ?thesis using assms(3) a retains_trans unfolding slots_inv_def by metis
  qed
  then show ?thesis unfolding slots_inv_def by blast
qed

lemma inv_mono:
  assumes "set es' \<subseteq> set es"
  shows "entries_inv w0 A es \<Longrightarrow> entries_inv w0 A es'" "created_inv w0 C es \<Longrightarrow> created_inv w0 C es'"
  unfolding entries_inv_def created_inv_def by (rule ballI, drule subsetD [OF assms], drule bspec, assumption, assumption)+

lemma record_inv_cong:
  assumes "state_view s' = state_view s" "ResearchPreAlloc s' = ResearchPreAlloc s" "stateObjects s' = stateObjects s" "sd_db s' = sd_db s"
  shows "record_inv w0 A s' = record_inv w0 A s"
  by (simp only: record_inv_def assms)

lemma undo_inv:
  assumes "record_inv w0 A s" and "entries_inv w0 A es" and "slots_inv w0 C T s" and "created_inv w0 C es"
    and "go_fold (\<lambda>e s. go_bind (entry_revert e s) (\<lambda>s. Inr (s\<lparr>sd_journal := undirty e (sd_journal s)\<rparr>))) (rev es) s = Inr s'"
  shows "record_inv w0 A s' \<and> slots_inv w0 C T s'"
  using assms
proof (induction es arbitrary: s rule: rev_induct)
  case (snoc e es)
  then obtain t where t: "entry_revert e s = Inr t"
    "go_fold (\<lambda>e s. go_bind (entry_revert e s) (\<lambda>s. Inr (s\<lparr>sd_journal := undirty e (sd_journal s)\<rparr>))) (rev es)
       (t\<lparr>sd_journal := undirty e (sd_journal t)\<rparr>) = Inr s'"
    by (auto elim!: go_bind_InrE)
  have e: "entries_inv w0 A [e]" "entries_inv w0 A es" "created_inv w0 C [e]" "created_inv w0 C es"
    using snoc.prems by (simp_all add: entries_inv_def created_inv_def)
  let ?t = "t\<lparr>sd_journal := undirty e (sd_journal t)\<rparr>"
  have l: "live ?t = live t" by (rule live_cong) simp_all
  have "record_inv w0 A ?t"
    using record_inv_revert [OF snoc.prems(1) e(1) t(1)] record_inv_cong [of ?t t] by simp
  moreover have "slots_inv w0 C T ?t"
    using slots_inv_revert [OF snoc.prems(1) e(1) snoc.prems(3) e(3) t(1)] unfolding slots_inv_def by (simp add: l)
  ultimately show ?case using snoc.IH [OF _ e(2) _ e(4) t(2)] by blast
qed simp

definition run_inv :: "world \<Rightarrow> Address set \<Rightarrow> Address set \<Rightarrow> (Address \<Rightarrow> Hash set) \<Rightarrow> StateDB \<Rightarrow> bool" where
  "run_inv w0 A C T s \<longleftrightarrow> (\<exists>m. simulates s m) \<and> record_inv w0 A s \<and> entries_inv w0 A (entries s) \<and>
     slots_inv w0 C T s \<and> created_inv w0 C (entries s)"

lemma run_inv_simulates:
  assumes "run_inv w0 A C T s" and "exec_op x s = Inr (r, s')"
  shows "\<exists>m. simulates s' m" "good s" "world_ok (state_view s')" "sd_db s' = sd_db s \<Longrightarrow> sd_db s' = w_db w0"
proof -
  from assms(1) obtain m where m: "simulates s m" unfolding run_inv_def by blast
  then show n: "\<exists>m. simulates s' m" and "good s" using exec_simulates [OF m, of x] assms(2) by (auto simp: simulates_def)
  then show "world_ok (state_view s')" by (auto simp: simulates_def good_def)
  show "sd_db s' = sd_db s \<Longrightarrow> sd_db s' = w_db w0" using assms(1) by (simp add: run_inv_def record_inv_def)
qed

lemma run_inv_entry_ok: "\<exists>m. simulates s m \<Longrightarrow> e \<in> set (entries s) \<Longrightarrow> entry_ok e"
  by (auto simp: simulates_def revisions_ok_def)

lemma run_inv_revert:
  assumes "run_inv w0 A C T s" and "exec_op (OpRevert i) s = Inr (r, s')"
  shows "run_inv w0 A C T s'"
proof -
  from assms(2) have "RevertToSnapshot i s = Inr s'" by (auto simp: silent_def elim!: go_bind_InrE)
  then obtain n t k where t: "go_fold (\<lambda>e s. go_bind (entry_revert e s) (\<lambda>s. Inr (s\<lparr>sd_journal := undirty e (sd_journal s)\<rparr>)))
        (rev (drop n (entries s))) s = Inr t"
    and s': "s' = t\<lparr>sd_journal := (sd_journal t)\<lparr>j_entries := take n (entries t)\<rparr>, validRevisions := k\<rparr>"
    by (auto simp: RevertToSnapshot_def journal_revert_def Let_def split: if_splits elim!: go_bind_InrE)
  have sub: "entries_inv w0 A (drop n (entries s))" "created_inv w0 C (drop n (entries s))"
    using assms(1) inv_mono [OF set_drop_subset] unfolding run_inv_def by blast+
  have inv: "record_inv w0 A t" "slots_inv w0 C T t"
    using undo_inv [OF _ sub(1) _ sub(2) t] assms(1) unfolding run_inv_def by blast+
  have ok: "world_ok (state_view s)" "\<forall>e \<in> set (drop n (entries s)). entry_ok e"
    using assms(1) sub(1) by (simp_all add: run_inv_def record_inv_def entries_inv_def)
  have e: "entries t = entries s" using undo_run [OF ok] t by (simp split: sum.splits)
  have l: "live s' = live t" "state_view s' = state_view t"
    unfolding s' by (rule live_cong state_view_cong; simp)+
  have "record_inv w0 A s'" using inv(1) record_inv_cong [OF l(2)] by (simp add: s')
  moreover have "slots_inv w0 C T s'" using inv(2) unfolding slots_inv_def l .
  moreover have "set (entries s') \<subseteq> set (entries s)" using e set_take_subset [of n "entries s"] by (simp add: s')
  then have "entries_inv w0 A (entries s')" "created_inv w0 C (entries s')"
    using assms(1) inv_mono unfolding run_inv_def by blast+
  ultimately show ?thesis using run_inv_simulates(1) [OF assms] unfolding run_inv_def by blast
qed

lemma run_inv_aside:
  assumes "run_inv w0 A C T s" and "exec_op x s = Inr (r, s')" and "op_addr x = None" and "\<nexists>i. x = OpRevert i"
    and "sd_db s' = sd_db s"
  shows "run_inv w0 A C T s'"
proof -
  note m = run_inv_simulates [OF assms(1,2)]
  have "aside s s'" by (rule exec_aside [OF assms(3,4,2)])
  then obtain es where a: "ResearchPreAlloc s' = ResearchPreAlloc s" "stateObjects s' = stateObjects s" "live s' = live s"
    "entries s' = entries s @ es" "\<forall>e \<in> set es. entry_addr e = None \<and> \<not> creates e" unfolding aside_def by blast
  have w: "w_accounts (state_view s') = w_accounts (state_view s)" using a(3) assms(5) by (simp add: fun_eq_iff)
  have "record_inv w0 A s'" using assms(1) m(3) unfolding run_inv_def record_inv_def by (simp only: a assms(5) w) blast
  moreover have "slots_inv w0 C T s'"
  proof -
    have "retains b w0 (state_view s') = retains b w0 (state_view s)" for b
      unfolding retains_def acct_def w ..
    then show ?thesis using assms(1) unfolding run_inv_def slots_inv_def a(3) by blast
  qed
  moreover have "entries_inv w0 A (entries s')"
    using assms(1) a(4,5) run_inv_entry_ok [OF m(1)] unfolding run_inv_def entries_inv_def by (auto simp: a(4))
  moreover have "created_inv w0 C (entries s')"
    using assms(1) a(4,5) unfolding run_inv_def created_inv_def by auto
  ultimately show ?thesis using m(1) unfolding run_inv_def by blast
qed

lemma record_inv_tracked:
  assumes "record_inv w0 A s" and "tracked a K s s'" and "world_ok (state_view s')" and "sd_db s' = sd_db s"
  shows "record_inv w0 (insert a A) s'"
proof -
  have p: "ResearchPreAlloc s' = recorded_at a s" using assms(2) unfolding tracked_def by blast
  have e: "pre_entry (state_view s) a = pre_entry w0 a \<and> acct (state_view s) a = acct w0 a" if "a \<notin> A"
  proof -
    have "w_accounts (state_view s) a = w_accounts w0 a" using assms(1) that unfolding record_inv_def by blast
    then show ?thesis by (simp only: pre_entry_def acct_def)
  qed
  have d: "mhas (ResearchPreAlloc s) b \<longleftrightarrow> b \<in> A" for b
    using assms(1) unfolding record_inv_def mhas_map_of by blast
  have "map_of (recorded_at a s) b = (if b \<in> insert a A then Some (pre_entry w0 b) else None)" for b
    using assms(1) e d [of b] d [of a] unfolding record_inv_def
    by (auto simp: recorded_at_def map_of_mput mhas_map_of)
  then have m: "map_of (ResearchPreAlloc s') b = (if b \<in> insert a A then Some (pre_entry w0 b) else None)" for b
    using p by simp
  have "w_accounts (state_view s') b = w_accounts w0 b" if "b \<notin> insert a A" for b
  proof -
    have "live s' b = live s b" using assms(2) that unfolding tracked_def by blast
    then show ?thesis using view_live [OF assms(4)] that assms(1) unfolding record_inv_def by (metis insertCI)
  qed
  moreover have "mhas (stateObjects s') b" if "b \<in> insert a A" "acct w0 b \<noteq> None" for b
  proof (cases "b \<in> A")
    case True
    then show ?thesis using assms(1,2) that(2) unfolding record_inv_def tracked_def by blast
  next
    case False
    then show ?thesis using assms(2) that e unfolding tracked_def by auto
  qed
  moreover have "dom (map_of (ResearchPreAlloc s')) = insert a A" using m by (auto simp: dom_def)
  moreover have "gomap_ok (ResearchPreAlloc s')" using assms(1) unfolding record_inv_def p recorded_at_def by simp
  ultimately show ?thesis
    using assms(1,3,4) m unfolding record_inv_def by simp
qed

lemma live_None:
  assumes "record_inv w0 A s" and "live s b = None"
  shows "acct w0 b = None"
proof (rule ccontr)
  assume n: "acct w0 b \<noteq> None"
  show False
  proof (cases "b \<in> A")
    case True
    then have "mhas (stateObjects s) b" using assms(1) n unfolding record_inv_def by blast
    then show False using assms(2) by (auto simp: live_def mhas_map_of)
  next
    case False
    then have "w_accounts (state_view s) b = w_accounts w0 b" using assms(1) unfolding record_inv_def by blast
    then show False using n assms(2) by (simp add: acct_def)
  qed
qed

lemma a_revert_db: "a_revert e w = Some w' \<Longrightarrow> w_db w' = w_db w"
  by (cases e) (auto simp: a_put_def a_on_def split: option.splits if_splits sum.splits)

lemma a_undo_db: "a_undo es w = Some w' \<Longrightarrow> w_db w' = w_db w"
  by (induction es arbitrary: w rule: rev_induct) (auto simp: a_undo_snoc bind_eq_Some_conv a_revert_db)

lemma logged_db:
  assumes "logged s s'"
  shows "sd_db s' = sd_db s"
proof -
  from assms obtain es where "a_undo es (state_view s') = Some (state_view s)" unfolding logged_def by blast
  from a_undo_db [OF this] show ?thesis by simp
qed

lemma exec_logged:
  assumes "good s" and "exec_op x s = Inr (r, s')" and "\<nexists>i. x = OpRevert i"
  shows "sd_db s' = sd_db s" "x \<noteq> OpSnapshot \<Longrightarrow> a_basic x (state_view s) = Some (r, state_view s')"
proof -
  have m: "a_basic x (state_view s) = Some (r, state_view s') \<and> logged s s'" if "x \<noteq> OpSnapshot"
    using exec_matches [OF assms(1) that assms(3)] assms(2) by (simp add: matches_def)
  show "sd_db s' = sd_db s"
  proof (cases "x = OpSnapshot")
    case True
    then show ?thesis using assms(2) by (auto simp: answering_def sd_Snapshot_def Let_def)
  qed (use m logged_db in blast)
  show "x \<noteq> OpSnapshot \<Longrightarrow> a_basic x (state_view s) = Some (r, state_view s')" using m by blast
qed

lemma slots_inv_tracked:
  assumes "slots_inv w0 C T s" and "tracked a K s s'" and "sd_db s' = sd_db s" and "retains a (state_view s) (state_view s')"
  shows "slots_inv w0 C (T(a := T a \<union> K)) s'"
proof -
  have "touched (live s' b) = (T(a := T a \<union> K)) b \<and> retains b w0 (state_view s')" if b: "b \<notin> C" "acct w0 b \<noteq> None" for b
  proof -
    have i: "touched (live s b) = T b" "retains b w0 (state_view s)" using assms(1) b unfolding slots_inv_def by blast+
    show ?thesis
    proof (cases "b = a")
      case True
      have "acct (state_view s) a \<noteq> None" using i(2) b(2) True unfolding retains_def by auto
      then have "touched (live s' a) = touched (live s a) \<union> K" using assms(2) unfolding tracked_def by blast
      then show ?thesis using True i retains_trans [OF _ assms(4)] by simp
    next
      case False
      then have "live s' b = live s b" using assms(2) unfolding tracked_def by blast
      then show ?thesis using False i retains_trans [OF i(2) retains_same [OF view_live [OF assms(3)]]] by simp
    qed
  qed
  then show ?thesis unfolding slots_inv_def by blast
qed

lemma run_inv_tracked:
  assumes "run_inv w0 A C T s" and "exec_op x s = Inr (r, s')" and "op_addr x = Some a" and "x \<noteq> OpCreateAccount a"
  shows "run_inv w0 (insert a A) C (T(a := T a \<union> op_slot x)) s'"
proof -
  note m = run_inv_simulates [OF assms(1,2)]
  have x: "\<nexists>i. x = OpRevert i" "x \<noteq> OpSnapshot" using assms(3) by auto
  have "x \<noteq> OpCreateAccount b" for b using assms(3,4) by auto
  note l = exec_logged [OF m(2) assms(2) x(1)] and t = exec_tracked [OF m(2) assms(3,4,2)]
  have i: "record_inv w0 A s" "slots_inv w0 C T s" "entries_inv w0 A (entries s)" "created_inv w0 C (entries s)"
    using assms(1) unfolding run_inv_def by blast+
  from t obtain es where es: "entries s' = entries s @ es"
    "\<forall>e \<in> set es. (entry_addr e = Some a \<or> entry_addr e = None) \<and> (creates e \<longrightarrow> acct (state_view s) a = None) \<and>
      (\<forall>b. e = createObjectChange b \<longrightarrow> live s b = None)" unfolding tracked_def by blast
  have "record_inv w0 (insert a A) s'" by (rule record_inv_tracked [OF i(1) t m(3) l(1)])
  moreover have "slots_inv w0 C (T(a := T a \<union> op_slot x)) s'"
    by (rule slots_inv_tracked [OF i(2) t l(1)]) (rule a_basic_retains [OF l(2) [OF x(2)] assms(4)])
  moreover have "entries_inv w0 (insert a A) (entries s')"
    using i(3) es(2) run_inv_entry_ok [OF m(1)] live_None [OF i(1)] unfolding entries_inv_def es(1) by auto
  moreover have "created_inv w0 C (entries s')"
  proof -
    have "a \<in> C \<or> acct w0 a = None" if "acct (state_view s) a = None"
      using i(2) that unfolding slots_inv_def retains_def by auto
    then show ?thesis using i(4) es(2) unfolding created_inv_def es(1) by fastforce
  qed
  ultimately show ?thesis using m(1) unfolding run_inv_def by blast
qed

lemma run_inv_create:
  assumes "run_inv w0 A C T s" and "exec_op (OpCreateAccount a) s = Inr (r, s')" and "a \<in> A"
  shows "run_inv w0 A (insert a C) T s'"
proof -
  note m = run_inv_simulates [OF assms(1,2)] and l = exec_logged [OF run_inv_simulates(2) [OF assms(1,2)] assms(2)]
  have i: "record_inv w0 A s" "slots_inv w0 C T s" "entries_inv w0 A (entries s)" "created_inv w0 C (entries s)"
    using assms(1) unfolding run_inv_def by blast+
  obtain obj p t where c: "createObject a s = (obj, p, t)" by (cases "createObject a s")
  note k = createObject_tracked [OF c]
  have o: "so_address obj = a" using c by (auto simp: createObject_def newObject_def Let_def split: prod.splits option.splits)
  have s': "s' = (case p of Some q \<Rightarrow> setStateObject (so_setBalance (sa_Balance (so_data q)) obj) t | None \<Rightarrow> t)"
    using assms(2) c by (auto simp: silent_def CreateAccount_def split: option.splits)
  have f: "ResearchPreAlloc s' = ResearchPreAlloc s" "entries s' = entries t"
    "\<And>b. mhas (stateObjects s) b \<Longrightarrow> mhas (stateObjects s') b" "\<And>b. b \<noteq> a \<Longrightarrow> live s' b = live s b"
    using s' k(1,3,4) o by (auto split: option.splits)
  have "world_ok (state_view s)" using i(1) unfolding record_inv_def by blast
  then obtain e where e: "entries s' = entries s @ [e]" "entry_addr e = Some a" "\<forall>b. e = createObjectChange b \<longrightarrow> b = a \<and> live s a = None"
    using k(2) f(2) by auto
  have w: "w_accounts (state_view s') b = w_accounts (state_view s) b" if "b \<noteq> a" for b
    by (rule view_live [OF l(1) f(4) [OF that]]) simp
  have "record_inv w0 A s'"
    unfolding record_inv_def
  proof (intro conjI)
    show "\<forall>b. b \<notin> A \<longrightarrow> w_accounts (state_view s') b = w_accounts w0 b"
      using i(1) assms(3) w unfolding record_inv_def by metis
    show "\<forall>b \<in> A. acct w0 b \<noteq> None \<longrightarrow> mhas (stateObjects s') b" using i(1) f(3) unfolding record_inv_def by blast
  qed (use i(1) m(3) l(1) in \<open>simp_all add: f record_inv_def\<close>)
  moreover have "slots_inv w0 (insert a C) T s'"
  proof -
    have "retains b w0 (state_view s')" if "retains b w0 (state_view s)" "b \<noteq> a" for b
      by (rule retains_trans [OF that(1) retains_same [OF w [OF that(2)]]])
    then show ?thesis using i(2) f(4) unfolding slots_inv_def by auto
  qed
  moreover have "entries_inv w0 A (entries s')"
    using i(3) e run_inv_entry_ok [OF m(1)] live_None [OF i(1)] assms(3) unfolding entries_inv_def e(1) by auto
  moreover have "created_inv w0 (insert a C) (entries s')" using i(4) e(2) unfolding created_inv_def e(1) by auto
  ultimately show ?thesis using m(1) unfolding run_inv_def by blast
qed

section \<open>Runs\<close>

definition looked_up :: "state_op list \<Rightarrow> Address set" where
  "looked_up xs = (\<Union>x \<in> set xs. set_option (op_addr x))"

definition created :: "state_op list \<Rightarrow> Address set" where
  "created xs = {a. OpCreateAccount a \<in> set xs}"

definition slots_used :: "state_op list \<Rightarrow> Address \<Rightarrow> Hash set" where
  "slots_used xs a = (\<Union>x \<in> set xs. if op_addr x = Some a then op_slot x else {})"

lemma run_inv_step:
  assumes "run_inv w0 A C T s" and "exec_op x s = Inr (r, s')" and "\<forall>a. x = OpCreateAccount a \<longrightarrow> a \<in> A"
  shows "run_inv w0 (A \<union> looked_up [x]) (C \<union> created [x]) (\<lambda>a. T a \<union> slots_used [x] a) s'"
proof (cases "op_addr x")
  case None
  then have e: "looked_up [x] = {}" "created [x] = {}" "slots_used [x] = (\<lambda>_. {})"
    by (auto simp: looked_up_def created_def slots_used_def fun_eq_iff)
  have "run_inv w0 A C T s'"
  proof (cases "\<exists>i. x = OpRevert i")
    case True
    then show ?thesis using run_inv_revert assms(1,2) by blast
  next
    case False
    then show ?thesis
      using run_inv_aside [OF assms(1,2) None False] exec_logged(1) [OF run_inv_simulates(2) [OF assms(1,2)] assms(2) False] by blast
  qed
  then show ?thesis by (simp add: e)
next
  case (Some a)
  then have l: "looked_up [x] = {a}" by (simp add: looked_up_def)
  show ?thesis
  proof (cases "x = OpCreateAccount a")
    case True
    then have "created [x] = {a}" "slots_used [x] = (\<lambda>_. {})" by (auto simp: created_def slots_used_def fun_eq_iff)
    then show ?thesis
      using True run_inv_create [OF assms(1), of a r s'] assms(2,3) l by (simp add: insert_absorb)
  next
    case False
    then have "created [x] = {}" using Some by (auto simp: created_def)
    moreover have "(\<lambda>b. T b \<union> slots_used [x] b) = T(a := T a \<union> op_slot x)"
      using Some by (auto simp: slots_used_def fun_eq_iff)
    ultimately show ?thesis using run_inv_tracked [OF assms(1,2) Some False] by (simp add: l)
  qed
qed

lemma run_inv_run:
  assumes "run_inv w0 A C T s" and "exec_ops xs s = Inr (rs, s')" and "guarded A xs"
  shows "run_inv w0 (A \<union> looked_up xs) (C \<union> created xs) (\<lambda>a. T a \<union> slots_used xs a) s'"
  using assms
proof (induction xs arbitrary: A C T s rs)
  case Nil
  then show ?case by (simp add: looked_up_def created_def slots_used_def)
next
  case (Cons x xs)
  then obtain r t rs' where t: "exec_op x s = Inr (r, t)" "exec_ops xs t = Inr (rs', s')"
    by (auto elim!: go_bind_InrE)
  have g: "\<forall>a. x = OpCreateAccount a \<longrightarrow> a \<in> A" "guarded (A \<union> looked_up [x]) xs"
    using Cons.prems(3) by (simp_all add: looked_up_def)
  have "looked_up (x # xs) = looked_up [x] \<union> looked_up xs" "created (x # xs) = created [x] \<union> created xs"
    "slots_used (x # xs) = (\<lambda>a. slots_used [x] a \<union> slots_used xs a)"
    by (auto simp: looked_up_def created_def slots_used_def fun_eq_iff)
  then show ?case
    using Cons.IH [OF run_inv_step [OF Cons.prems(1) t(1) g(1)] t(2) g(2)] by (simp add: Un_assoc)
qed

text \<open>A state at the start of a transaction, with nothing recorded.\<close>

definition unrecorded :: "StateDB \<Rightarrow> bool" where
  "unrecorded s \<longleftrightarrow> good s \<and> entries s = [] \<and> validRevisions s = [] \<and> ResearchPreAlloc s = [] \<and>
     (\<forall>a. touched (live s a) = {})"

lemma run_inv_start: "unrecorded s \<Longrightarrow> run_inv (state_view s) {} {} (\<lambda>_. {}) s"
  using simulates_fresh [of s]
  by (auto simp: unrecorded_def run_inv_def record_inv_def entries_inv_def slots_inv_def created_inv_def good_def)

lemma run_inv_from_start:
  assumes "unrecorded s" and "exec_ops xs s = Inr (rs, s')" and "guarded {} xs"
  shows "run_inv (state_view s) (looked_up xs) (created xs) (slots_used xs) s'"
  using run_inv_run [OF run_inv_start [OF assms(1)] assms(2,3)] by simp

end
