(* ===== verification/State_Finalise.thy ===== *)
theory State_Finalise
  imports State_Record
begin

text \<open>
  The record that \<open>Finalise\<close> completes at the end of a transaction: the input accounts with the committed
  values of the slots that were touched, and the output accounts as the transaction left them.
\<close>

section \<open>Touched slots\<close>





section \<open>The first loop\<close>










section \<open>The second loop\<close>





section \<open>Finalise\<close>

lemma clear_allocs [simp]:
  "ResearchPreAlloc (clearJournalAndRefund s) = ResearchPreAlloc s"
  "ResearchPostAlloc (clearJournalAndRefund s) = ResearchPostAlloc s"
  by (simp_all add: clearJournalAndRefund_def Let_def)



section \<open>Dirty accounts\<close>
























section \<open>Whole transactions\<close>
















definition sample_object :: stateObject where
  "sample_object = (newObject sample_backend 1 (zeroAccount\<lparr>sa_Balance := 7\<rparr>) True)\<lparr>pendingStorage := [(2, 9)]\<rparr>"

definition sample_state :: StateDB where
  "sample_state = (state_New sample_backend)\<lparr>stateObjects := [(1, sample_object)]\<rparr>"


lemma sample_object_simps:
  "so_address sample_object = 1" "ResearchTouched sample_object = []" "fakeStorage sample_object = None"
  "sa_Balance (so_data sample_object) = 7" "sa_Nonce (so_data sample_object) = 0" "so_code sample_object = None"
  "sa_CodeHash (so_data sample_object) = emptyCodeHash sample_backend" "pendingStorage sample_object = [(2, 9)]"
  "dirtyStorage sample_object = []" "suicided sample_object = False" "so_deleted sample_object = False"
  by (simp_all add: sample_object_def newObject_def zeroAccount_def Let_def)






text \<open>A slot read before its account is created anew is in neither record.\<close>

lemma recreated_slots_lost:
  "case exec_ops [OpGetState 1 2, OpCreateAccount 1] sample_state of
     Inl e \<Rightarrow> False
   | Inr (rs, s') \<Rightarrow>
      (case Finalise False s' of
         Inl e \<Rightarrow> False
       | Inr t \<Rightarrow> ResearchPreAlloc t = [(1, Some (NewSubstateAccount 0 7 []))] \<and>
                  ResearchPostAlloc t = [(1, Some (NewSubstateAccount 0 7 []))])"
proof -
  have db: "sd_db sample_state = sample_backend" "stateObjects sample_state = [(1, sample_object)]"
    "ResearchPreAlloc sample_state = []" "ResearchPostAlloc sample_state = []" "sd_journal sample_state = newJournal"
    by (simp_all add: sample_state_def state_New_def)
  have c: "so_Code sample_backend sample_object = (None, sample_object)"
    by (simp add: so_Code_def sample_object_simps)
  let ?obj = "sample_object\<lparr>ResearchTouched := [(2, ())]\<rparr>"
  let ?s = "sample_state\<lparr>ResearchPreAlloc := [(1, Some (NewSubstateAccount 0 7 []))], stateObjects := [(1, ?obj)]\<rparr>"
  have g: "GetState 1 2 sample_state = (9, ?s)"
    by (simp add: GetState_def read_object_def getStateObject_def getDeletedStateObject_def record_pre_def db c
        sample_object_simps so_GetState_def so_GetCommittedState_def setStateObject_def Let_def)
  show ?thesis
    by (simp add: answering_def silent_def g CreateAccount_def createObject_def getDeletedStateObject_def db
        sample_object_simps newObject_def Let_def setStateObject_def sd_append_def j_append_def newJournal_def so_setBalance_def
        Finalise_def finalise_pre_def touched_storage_def SubstateAccount_Copy_def NewSubstateAccount_def
        clearJournalAndRefund_def)
qed


end
