(* ===== verification/Evm_Call.thy ===== *)
theory Evm_Call
  imports State_Machine Call_Tree
begin

text \<open>
  Calls between contracts and the tree recorded of them: \<open>core/vm/evm.go\<close>, the frame handling of
  \<open>core/vm/interpreter.go\<close>, \<open>core/vm/contract.go\<close> and \<open>core/evm.go\<close>. The state is the \<open>StateDB\<close> of \<open>State_DB\<close>.
  The instructions of a contract are a parameter: a \<open>frame\<close> is what one activation of a code does to
  its surroundings, the operations it asks of the state, the logs it emits and the calls it makes, each
  with how it goes on after the answer, up to its end. The tracer (\<open>Config.Debug\<close>) is off.
\<close>

section \<open>Contracts and frames\<close>

datatype vm_err =
    ErrOutOfGas
  | ErrCodeStoreOutOfGas
  | ErrDepth
  | ErrInsufficientBalance
  | ErrContractAddressCollision
  | ErrExecutionReverted
  | ErrMaxCodeSizeExceeded
  | ErrInvalidCode
  | ErrWriteProtection
  | ErrNonceUintOverflow
  | ErrInvalidJump
  | ErrReturnDataOutOfBounds
  | ErrGasUintOverflow
  | ErrStackUnderflow nat nat
  | ErrStackOverflow nat nat
  | ErrInvalidOpCode byte
  | ErrOther string

text \<open>\<open>params.Rules\<close>: the rule changes in force at a block.\<close>

record Rules =
  IsHomestead :: bool
  IsEIP150 :: bool
  IsEIP158 :: bool
  IsByzantium :: bool
  IsConstantinople :: bool
  IsPetersburg :: bool
  IsIstanbul :: bool
  IsBerlin :: bool
  IsLondon :: bool

record Contract =
  CallerAddress :: Address
  c_self :: Address
  c_Code :: bytes
  c_CodeHash :: Hash
  c_CodeAddr :: Address
  c_Gas :: uint64
  c_value :: "int option"

datatype ContractRef = AccountRef Address | ContractRef Contract

fun Ref_Address :: "ContractRef \<Rightarrow> Address" where
  "Ref_Address (AccountRef a) = a"
| "Ref_Address (ContractRef c) = c_self c"

text \<open>A new contract. The table of jump analyses that it shares with its caller is modelled apart, with \<open>isCode\<close>.\<close>

definition NewContract :: "ContractRef \<Rightarrow> Address \<Rightarrow> int option \<Rightarrow> uint64 \<Rightarrow> Contract" where
  "NewContract caller object v gas =
     \<lparr>CallerAddress = Ref_Address caller, c_self = object, c_Code = [], c_CodeHash = 0, c_CodeAddr = 0,
      c_Gas = gas, c_value = v\<rparr>"

definition AsDelegate :: "ContractRef \<Rightarrow> Contract \<Rightarrow> Contract go" where
  "AsDelegate caller c =
     (case caller of
        ContractRef parent \<Rightarrow> Inr (c\<lparr>CallerAddress := CallerAddress parent, c_value := c_value parent\<rparr>)
      | AccountRef _ \<Rightarrow> Inl TypeAssertion)"

definition SetCallCode :: "Address \<Rightarrow> Hash \<Rightarrow> bytes \<Rightarrow> Contract \<Rightarrow> Contract" where
  "SetCallCode addr h code c = c\<lparr>c_Code := code, c_CodeHash := h, c_CodeAddr := addr\<rparr>"

definition UseGas :: "uint64 \<Rightarrow> uint64 \<Rightarrow> bool \<times> uint64" where
  "UseGas gas have = (if have < gas then (False, have) else (True, have - gas))"

datatype call_req =
    ReqCall Address bytes uint64 int
  | ReqCallCode Address bytes uint64 int
  | ReqDelegateCall Address bytes uint64
  | ReqStaticCall Address bytes uint64
  | ReqCreate bytes uint64 int
  | ReqCreate2 bytes uint64 int Hash

datatype call_res = CallRes (cr_ret: "bytes option") (cr_addr: Address) (cr_gas: uint64) (cr_err: "vm_err option")

text \<open>
  A frame ends when the loop of \<open>Run\<close> is left after an instruction (\<open>Halt\<close>, with the result, the error and
  the gas that is left), or when \<open>Run\<close> returns before one, for want of gas or stack (\<open>Abort\<close>). It may also panic.
\<close>

datatype frame =
    Halt "bytes option" "vm_err option" uint64
  | Abort vm_err uint64
  | Op state_op "op_answer \<Rightarrow> frame"
  | Emit "Hash list" bytes uint64 frame
  | DoCall call_req "call_res \<Rightarrow> frame"
  | Crash go_panic

record precompiled =
  RequiredGas :: "bytes \<Rightarrow> uint64"
  pc_Run :: "bytes \<Rightarrow> bytes option \<times> vm_err option"

record evm_env =
  ee_rules :: Rules
  ee_BlockNumber :: uint64
  ee_precompiled :: "Address \<Rightarrow> precompiled"
  ee_code :: "Contract \<Rightarrow> bytes \<Rightarrow> bool \<Rightarrow> frame"

record EVM =
  evm_StateDB :: StateDB
  evm_depth :: nat
  in_readOnly :: bool
  CallStack :: "InternalTx list"
  ExTx :: ExternalTx

definition NewEVM :: "StateDB \<Rightarrow> EVM" where
  "NewEVM statedb =
     \<lparr>evm_StateDB = statedb, evm_depth = 0, in_readOnly = False, CallStack = [],
      ExTx = \<lparr>ex_BlockNumber = 0, ex_Timestamp = 0, ex_TxIndex = 0, ex_InTxs = []\<rparr>\<rparr>"

definition CallCreateDepth :: nat where
  "CallCreateDepth = 1024"

definition MaxCodeSize :: nat where
  "MaxCodeSize = 24576"

definition CreateDataGas :: uint64 where
  "CreateDataGas = 200"

section \<open>Access to the state\<close>

definition ask :: "(StateDB \<Rightarrow> 'a \<times> StateDB) \<Rightarrow> EVM \<Rightarrow> 'a \<times> EVM" where
  "ask f evm = (case f (evm_StateDB evm) of (r, s) \<Rightarrow> (r, evm\<lparr>evm_StateDB := s\<rparr>))"

definition tell :: "(StateDB \<Rightarrow> StateDB) \<Rightarrow> EVM \<Rightarrow> EVM" where
  "tell f evm = evm\<lparr>evm_StateDB := f (evm_StateDB evm)\<rparr>"

definition CanTransfer :: "Address \<Rightarrow> int \<Rightarrow> StateDB \<Rightarrow> bool \<times> StateDB" where
  "CanTransfer addr amount s = (case GetBalance addr s of (b, s) \<Rightarrow> (b \<ge> amount, s))"

definition Transfer :: "Address \<Rightarrow> Address \<Rightarrow> int \<Rightarrow> StateDB \<Rightarrow> StateDB" where
  "Transfer sender recipient amount s = sd_AddBalance recipient amount (sd_SubBalance sender amount s)"

definition code_bytes :: "bytes option \<Rightarrow> bytes" where
  "code_bytes c = (case c of None \<Rightarrow> [] | Some c \<Rightarrow> c)"

text \<open>The precompiled contracts are at the addresses from 1 to 4, 8 or 9.\<close>

definition ActivePrecompiles :: "Rules \<Rightarrow> Address list" where
  "ActivePrecompiles rules =
     (if IsBerlin rules then [1, 2, 3, 4, 5, 6, 7, 8, 9]
      else if IsIstanbul rules then [1, 2, 3, 4, 5, 6, 7, 8, 9]
      else if IsByzantium rules then [1, 2, 3, 4, 5, 6, 7, 8]
      else [1, 2, 3, 4])"

definition precompile :: "evm_env \<Rightarrow> Address \<Rightarrow> precompiled option" where
  "precompile env addr =
     (if addr \<in> set (ActivePrecompiles (ee_rules env)) then Some (ee_precompiled env addr) else None)"

definition RunPrecompiledContract :: "precompiled \<Rightarrow> bytes \<Rightarrow> uint64 \<Rightarrow> bytes option \<times> vm_err option \<times> uint64" where
  "RunPrecompiledContract p input suppliedGas =
     (let gasCost = RequiredGas p input
      in if suppliedGas < gasCost then (None, Some ErrOutOfGas, 0)
         else let (output, err) = pc_Run p input in (output, err, suppliedGas - gasCost))"

definition CreateAddress :: "(bytes \<Rightarrow> Hash) \<Rightarrow> Address \<Rightarrow> uint64 \<Rightarrow> Address" where
  "CreateAddress keccak b nonce =
     (let data = (case EncodeToBytes (StructT [ByteArrayT 20, UintT 64]) (ListV [BytesV (Address_Bytes b), UintV nonce]) of
                    Inr data \<Rightarrow> data | Inl _ \<Rightarrow> [])
      in BytesToAddress (drop 12 (Hash_Bytes (keccak data))))"

definition CreateAddress2 :: "(bytes \<Rightarrow> Hash) \<Rightarrow> Address \<Rightarrow> Hash \<Rightarrow> Hash \<Rightarrow> Address" where
  "CreateAddress2 keccak b salt inithash =
     BytesToAddress (drop 12 (Hash_Bytes (keccak ([0xff] @ Address_Bytes b @ Hash_Bytes salt @ Hash_Bytes inithash))))"

section \<open>The call stack\<close>

definition itx_append :: "InternalTx \<Rightarrow> InternalTx \<Rightarrow> InternalTx" where
  "itx_append child parent =
     InternalTx (itx_From parent) (itx_To parent) (IsContract parent) (itx_Value parent) (CallType parent) (Input parent)
       (Events parent) (InTxs parent @ [child])"

definition itx_set_events :: "Event list \<Rightarrow> InternalTx \<Rightarrow> InternalTx" where
  "itx_set_events evs t =
     InternalTx (itx_From t) (itx_To t) (IsContract t) (itx_Value t) (CallType t) (Input t) evs (InTxs t)"

definition push_frame :: "InternalTx \<Rightarrow> EVM \<Rightarrow> EVM" where
  "push_frame t evm = evm\<lparr>CallStack := CallStack evm @ [t]\<rparr>"

definition add_leaf :: "InternalTx \<Rightarrow> EVM \<Rightarrow> EVM go" where
  "add_leaf t evm =
     (let n = length (CallStack evm)
      in if n = 0 then Inl IndexOutOfRange
         else Inr (evm\<lparr>CallStack := (CallStack evm)[n - 1 := itx_append t (CallStack evm ! (n - 1))]\<rparr>))"

definition pop_frame :: "EVM \<Rightarrow> EVM go" where
  "pop_frame evm =
     (let n = length (CallStack evm); st = CallStack evm
      in if n > 1 then Inr (evm\<lparr>CallStack := take (n - 1) (st[n - 2 := itx_append (st ! (n - 1)) (st ! (n - 2))])\<rparr>)
         else if n = 0 then Inl IndexOutOfRange
         else Inr (evm\<lparr>ExTx := (ExTx evm)\<lparr>ex_InTxs := ex_InTxs (ExTx evm) @ [st ! 0]\<rparr>, CallStack := take (n - 1) st\<rparr>))"

definition set_events :: "Event list \<Rightarrow> EVM \<Rightarrow> EVM go" where
  "set_events evs evm =
     (let n = length (CallStack evm)
      in if n = 0 then Inl IndexOutOfRange
         else Inr (evm\<lparr>CallStack := (CallStack evm)[n - 1 := itx_set_events evs (CallStack evm ! (n - 1))]\<rparr>))"

section \<open>Running a frame\<close>

type_synonym frame_res = "bytes option \<times> vm_err option \<times> uint64"
type_synonym run_fn = "Contract \<Rightarrow> bytes \<Rightarrow> bool \<Rightarrow> EVM \<Rightarrow> (frame_res \<times> EVM) go"
type_synonym call_fn = "ContractRef \<Rightarrow> call_req \<Rightarrow> EVM \<Rightarrow> (call_res \<times> EVM) go"

definition zero_event :: Event where
  "zero_event = \<lparr>ev_Address = 0, Topics = [], ev_Data = [], ev_Index = 0\<rparr>"

definition makeLogSu :: "evm_env \<Rightarrow> Address \<Rightarrow> Hash list \<Rightarrow> bytes \<Rightarrow> EVM \<Rightarrow> Event \<times> EVM" where
  "makeLogSu env self topics d evm =
     (case ask (AddLog \<lparr>lg_Address = self, lg_Topics = topics, lg_Data = d, lg_BlockNumber = ee_BlockNumber env,
                 lg_TxHash = 0, lg_TxIndex = 0, lg_BlockHash = 0, lg_Index = 0, lg_Removed = False\<rparr>) evm of
        (log, evm) \<Rightarrow> (\<lparr>ev_Address = self, Topics = topics, ev_Data = d, ev_Index = lg_Index log\<rparr>, evm))"

text \<open>
  The loop of \<open>Run\<close>. The events are put into the record of the frame when the loop is left after an
  instruction; a log in a read-only frame adds an empty event before it fails.
\<close>

primrec run_frame :: "evm_env \<Rightarrow> call_fn \<Rightarrow> Contract \<Rightarrow> frame \<Rightarrow> Event list \<Rightarrow> EVM \<Rightarrow> (frame_res \<times> EVM) go" where
  "run_frame env call c (Halt ret err gas) events evm =
     go_bind (set_events events evm) (\<lambda>evm. Inr ((ret, err, gas), evm))"
| "run_frame env call c (Abort err gas) events evm = Inr ((None, Some err, gas), evm)"
| "run_frame env call c (Op x k) events evm =
     go_bind (exec_op x (evm_StateDB evm)) (\<lambda>(r, s). run_frame env call c (k r) events (evm\<lparr>evm_StateDB := s\<rparr>))"
| "run_frame env call c (Emit topics d gas k) events evm =
     (if in_readOnly evm
      then go_bind (set_events (events @ [zero_event]) evm) (\<lambda>evm. Inr ((None, Some ErrWriteProtection, gas), evm))
      else case makeLogSu env (c_self c) topics d evm of (event, evm) \<Rightarrow> run_frame env call c k (events @ [event]) evm)"
| "run_frame env call c (DoCall req k) events evm =
     go_bind (call (ContractRef c) req evm) (\<lambda>(r, evm). run_frame env call c (k r) events evm)"
| "run_frame env call c (Crash p) events evm = Inl p"

definition evm_Run :: "evm_env \<Rightarrow> call_fn \<Rightarrow> run_fn" where
  "evm_Run env call contract input readOnly evm =
     (let old = in_readOnly evm;
          evm = evm\<lparr>evm_depth := evm_depth evm + 1, in_readOnly := readOnly \<or> old\<rparr>
      in go_bind
           (if length (c_Code contract) = 0 then Inr ((None, None, c_Gas contract), evm)
            else run_frame env call contract (ee_code env contract input (in_readOnly evm)) [] evm)
           (\<lambda>(r, evm). Inr (r, evm\<lparr>evm_depth := evm_depth evm - 1,
              in_readOnly := (if readOnly \<and> \<not> old then False else in_readOnly evm)\<rparr>)))"

section \<open>Calls\<close>

text \<open>The end of a call: an error takes the state back to the snapshot, and all gas unless the code reverted.\<close>

definition finish_call :: "nat \<Rightarrow> frame_res \<Rightarrow> EVM \<Rightarrow> (call_res \<times> EVM) go" where
  "finish_call snapshot r evm =
     (case r of (ret, err, gas) \<Rightarrow>
        if err \<noteq> None
        then go_bind (RevertToSnapshot snapshot (evm_StateDB evm)) (\<lambda>s.
               Inr (CallRes ret 0 (if err \<noteq> Some ErrExecutionReverted then 0 else gas) err, evm\<lparr>evm_StateDB := s\<rparr>))
        else Inr (CallRes ret 0 gas err, evm))"

text \<open>Running the code of a contract in a frame of its own on the call stack.\<close>

definition run_recorded :: "run_fn \<Rightarrow> Contract \<Rightarrow> bytes \<Rightarrow> bool \<Rightarrow> EVM \<Rightarrow> (frame_res \<times> EVM) go" where
  "run_recorded run contract input readOnly evm =
     go_bind (run contract input readOnly evm) (\<lambda>(r, evm). go_bind (pop_frame evm) (\<lambda>evm. Inr (r, evm)))"

definition evm_Call :: "evm_env \<Rightarrow> run_fn \<Rightarrow> ContractRef \<Rightarrow> Address \<Rightarrow> bytes \<Rightarrow> uint64 \<Rightarrow> int \<Rightarrow> EVM \<Rightarrow> (call_res \<times> EVM) go" where
  "evm_Call env run caller addr input gas v evm =
     (if evm_depth evm > CallCreateDepth then Inr (CallRes None 0 gas (Some ErrDepth), evm)
      else let (can, evm) = (if v = 0 then (True, evm) else ask (CanTransfer (Ref_Address caller) v) evm)
      in if \<not> can then Inr (CallRes None 0 gas (Some ErrInsufficientBalance), evm)
      else let (snapshot, evm) = ask sd_Snapshot evm;
               p = precompile env addr;
               (ex, evm) = ask (Exist addr) evm
      in if \<not> ex \<and> p = None \<and> IsEIP158 (ee_rules env) \<and> v = 0 then Inr (CallRes None 0 gas None, evm)
      else let evm = (if ex then evm else tell (CreateAccount addr) evm);
               evm = tell (Transfer (Ref_Address caller) addr v) evm
      in go_bind
           (case p of
              Some p \<Rightarrow> Inr (RunPrecompiledContract p input gas, evm)
            | None \<Rightarrow>
                let (code, evm) = ask (sd_GetCode addr) evm
                in if length (code_bytes code) = 0
                   then go_bind (add_leaf (InternalTx (Ref_Address caller) addr False (Some v) ''Call'' input [] []) evm)
                          (\<lambda>evm. Inr ((None, None, gas), evm))
                   else let evm = push_frame (InternalTx (Ref_Address caller) addr True (Some v) ''Call'' input [] []) evm;
                            (h, evm) = ask (GetCodeHash addr) evm;
                            contract = SetCallCode addr h (code_bytes code) (NewContract caller addr (Some v) gas)
                        in run_recorded run contract input False evm)
           (\<lambda>(r, evm). finish_call snapshot r evm))"

definition evm_CallCode :: "evm_env \<Rightarrow> run_fn \<Rightarrow> ContractRef \<Rightarrow> Address \<Rightarrow> bytes \<Rightarrow> uint64 \<Rightarrow> int \<Rightarrow> EVM \<Rightarrow> (call_res \<times> EVM) go" where
  "evm_CallCode env run caller addr input gas v evm =
     (if evm_depth evm > CallCreateDepth then Inr (CallRes None 0 gas (Some ErrDepth), evm)
      else let (can, evm) = ask (CanTransfer (Ref_Address caller) v) evm
      in if \<not> can then Inr (CallRes None 0 gas (Some ErrInsufficientBalance), evm)
      else let (snapshot, evm) = ask sd_Snapshot evm
      in go_bind
           (case precompile env addr of
              Some p \<Rightarrow> Inr (RunPrecompiledContract p input gas, evm)
            | None \<Rightarrow>
                let evm = push_frame (InternalTx (Ref_Address caller) addr True (Some v) ''CallCode'' input [] []) evm;
                    (h, evm) = ask (GetCodeHash addr) evm;
                    (code, evm) = ask (sd_GetCode addr) evm;
                    contract = SetCallCode addr h (code_bytes code) (NewContract caller (Ref_Address caller) (Some v) gas)
                in run_recorded run contract input False evm)
           (\<lambda>(r, evm). finish_call snapshot r evm))"

definition evm_DelegateCall :: "evm_env \<Rightarrow> run_fn \<Rightarrow> ContractRef \<Rightarrow> Address \<Rightarrow> bytes \<Rightarrow> uint64 \<Rightarrow> EVM \<Rightarrow> (call_res \<times> EVM) go" where
  "evm_DelegateCall env run caller addr input gas evm =
     (if evm_depth evm > CallCreateDepth then Inr (CallRes None 0 gas (Some ErrDepth), evm)
      else let (snapshot, evm) = ask sd_Snapshot evm
      in go_bind
           (case precompile env addr of
              Some p \<Rightarrow> Inr (RunPrecompiledContract p input gas, evm)
            | None \<Rightarrow>
                let evm = push_frame (InternalTx (Ref_Address caller) addr True None ''DelegateCall'' input [] []) evm
                in go_bind (AsDelegate caller (NewContract caller (Ref_Address caller) None gas)) (\<lambda>contract.
                     let (h, evm) = ask (GetCodeHash addr) evm;
                         (code, evm) = ask (sd_GetCode addr) evm
                     in run_recorded run (SetCallCode addr h (code_bytes code) contract) input False evm))
           (\<lambda>(r, evm). finish_call snapshot r evm))"

definition evm_StaticCall :: "evm_env \<Rightarrow> run_fn \<Rightarrow> ContractRef \<Rightarrow> Address \<Rightarrow> bytes \<Rightarrow> uint64 \<Rightarrow> EVM \<Rightarrow> (call_res \<times> EVM) go" where
  "evm_StaticCall env run caller addr input gas evm =
     (if evm_depth evm > CallCreateDepth then Inr (CallRes None 0 gas (Some ErrDepth), evm)
      else let (snapshot, evm) = ask sd_Snapshot evm;
               evm = tell (sd_AddBalance addr 0) evm
      in go_bind
           (case precompile env addr of
              Some p \<Rightarrow> Inr (RunPrecompiledContract p input gas, evm)
            | None \<Rightarrow>
                let evm = push_frame (InternalTx (Ref_Address caller) addr True None ''StaticCall'' input [] []) evm;
                    (h, evm) = ask (GetCodeHash addr) evm;
                    (code, evm) = ask (sd_GetCode addr) evm;
                    contract = SetCallCode addr h (code_bytes code) (NewContract caller addr (Some 0) gas)
                in run_recorded run contract input True evm)
           (\<lambda>(r, evm). finish_call snapshot r evm))"

definition code_collision :: "StateDB \<Rightarrow> Hash \<Rightarrow> bool" where
  "code_collision s h \<longleftrightarrow> h \<noteq> 0 \<and> h \<noteq> bk_Keccak256 (sd_db s) []"

text \<open>The checks on the code that a creation returned, and the price of storing it.\<close>

definition check_created :: "Rules \<Rightarrow> frame_res \<Rightarrow> frame_res" where
  "check_created rules r =
     (case r of (ret, err, gas) \<Rightarrow>
        let code = code_bytes ret;
            err = (if err = None \<and> IsEIP158 rules \<and> length code > MaxCodeSize then Some ErrMaxCodeSizeExceeded else err);
            err = (if err = None \<and> length code \<ge> 1 \<and> hd code = 0xEF \<and> IsLondon rules then Some ErrInvalidCode else err)
        in (ret, err, gas))"

definition store_created :: "Address \<Rightarrow> frame_res \<Rightarrow> EVM \<Rightarrow> frame_res \<times> EVM" where
  "store_created address r evm =
     (case r of (ret, err, gas) \<Rightarrow>
        if err = None
        then case UseGas (of_nat (length (code_bytes ret)) * CreateDataGas) gas of
               (True, gas) \<Rightarrow> ((ret, err, gas), tell (sd_SetCode address ret) evm)
             | (False, gas) \<Rightarrow> ((ret, Some ErrCodeStoreOutOfGas, gas), evm)
        else ((ret, err, gas), evm))"

definition finish_create :: "Rules \<Rightarrow> Address \<Rightarrow> nat \<Rightarrow> frame_res \<Rightarrow> EVM \<Rightarrow> (call_res \<times> EVM) go" where
  "finish_create rules address snapshot r evm =
     (case r of (ret, err, gas) \<Rightarrow>
        if err \<noteq> None \<and> (IsHomestead rules \<or> err \<noteq> Some ErrCodeStoreOutOfGas)
        then go_bind (RevertToSnapshot snapshot (evm_StateDB evm)) (\<lambda>s.
               Inr (CallRes ret address (if err \<noteq> Some ErrExecutionReverted then 0 else gas) err, evm\<lparr>evm_StateDB := s\<rparr>))
        else Inr (CallRes ret address gas err, evm))"

definition evm_create :: "evm_env \<Rightarrow> run_fn \<Rightarrow> ContractRef \<Rightarrow> bytes \<Rightarrow> Hash \<Rightarrow> uint64 \<Rightarrow> int \<Rightarrow> Address \<Rightarrow> EVM \<Rightarrow> (call_res \<times> EVM) go" where
  "evm_create env run caller code h gas v address evm =
     (let rules = ee_rules env; from = Ref_Address caller
      in if evm_depth evm > CallCreateDepth then Inr (CallRes None 0 gas (Some ErrDepth), evm)
      else let (can, evm) = ask (CanTransfer from v) evm
      in if \<not> can then Inr (CallRes None 0 gas (Some ErrInsufficientBalance), evm)
      else let (nonce, evm) = ask (GetNonce from) evm
      in if nonce + 1 < nonce then Inr (CallRes None 0 gas (Some ErrNonceUintOverflow), evm)
      else let evm = tell (sd_SetNonce from (nonce + 1)) evm;
               evm = (if IsBerlin rules then tell (AddAddressToAccessList address) evm else evm);
               (contractHash, evm) = ask (GetCodeHash address) evm;
               (there, evm) = ask (GetNonce address) evm
      in if there \<noteq> 0 \<or> code_collision (evm_StateDB evm) contractHash
         then Inr (CallRes None 0 0 (Some ErrContractAddressCollision), evm)
      else let (snapshot, evm) = ask sd_Snapshot evm;
               evm = tell (CreateAccount address) evm;
               evm = (if IsEIP158 rules then tell (sd_SetNonce address 1) evm else evm);
               evm = tell (Transfer from address v) evm;
               contract = SetCallCode address h code (NewContract caller address (Some v) gas);
               evm = push_frame (InternalTx from address True (Some v) ''Create'' [] [] []) evm
      in go_bind (run_recorded run contract [] False evm) (\<lambda>(r, evm).
           case store_created address (check_created rules r) evm of
             (r, evm) \<Rightarrow> finish_create rules address snapshot r evm))"

definition evm_Create :: "evm_env \<Rightarrow> run_fn \<Rightarrow> ContractRef \<Rightarrow> bytes \<Rightarrow> uint64 \<Rightarrow> int \<Rightarrow> EVM \<Rightarrow> (call_res \<times> EVM) go" where
  "evm_Create env run caller code gas v evm =
     (let (nonce, evm) = ask (GetNonce (Ref_Address caller)) evm;
          contractAddr = CreateAddress (bk_Keccak256 (sd_db (evm_StateDB evm))) (Ref_Address caller) nonce
      in evm_create env run caller code 0 gas v contractAddr evm)"

definition evm_Create2 :: "evm_env \<Rightarrow> run_fn \<Rightarrow> ContractRef \<Rightarrow> bytes \<Rightarrow> uint64 \<Rightarrow> int \<Rightarrow> Hash \<Rightarrow> EVM \<Rightarrow> (call_res \<times> EVM) go" where
  "evm_Create2 env run caller code gas endowment salt evm =
     (let keccak = bk_Keccak256 (sd_db (evm_StateDB evm)); h = keccak code;
          contractAddr = CreateAddress2 keccak (Ref_Address caller) salt h
      in evm_create env run caller code h gas endowment contractAddr evm)"

fun evm_request :: "evm_env \<Rightarrow> run_fn \<Rightarrow> call_fn" where
  "evm_request env run caller (ReqCall addr input gas v) evm = evm_Call env run caller addr input gas v evm"
| "evm_request env run caller (ReqCallCode addr input gas v) evm = evm_CallCode env run caller addr input gas v evm"
| "evm_request env run caller (ReqDelegateCall addr input gas) evm = evm_DelegateCall env run caller addr input gas evm"
| "evm_request env run caller (ReqStaticCall addr input gas) evm = evm_StaticCall env run caller addr input gas evm"
| "evm_request env run caller (ReqCreate code gas v) evm = evm_Create env run caller code gas v evm"
| "evm_request env run caller (ReqCreate2 code gas v salt) evm = evm_Create2 env run caller code gas v salt evm"

text \<open>
  Calls within calls. The number bounds how deep the recursion may go, and the first argument answers beyond
  it; the depth check of every call keeps the recursion below \<open>CallCreateDepth + 2\<close>, so that it is never asked.
\<close>

primrec evm_calls_from :: "call_fn \<Rightarrow> nat \<Rightarrow> evm_env \<Rightarrow> call_fn" where
  "evm_calls_from beyond 0 env = beyond"
| "evm_calls_from beyond (Suc n) env = evm_request env (evm_Run env (evm_calls_from beyond n env))"

definition evm_calls :: "evm_env \<Rightarrow> call_fn" where
  "evm_calls env = evm_calls_from (\<lambda>caller req evm. Inl (ExplicitPanic ''too deep'')) (CallCreateDepth + 2) env"

end
