(* ===== verification/Evm_Record.thy ===== *)
theory Evm_Record
  imports Evm_Call
begin

text \<open>
  The call stack is balanced: whatever a contract does, a call leaves the stack as it found it, with at
  most one entry added to the calls of the frame that made it.
\<close>

section \<open>Frames and their records\<close>

definition core :: "EVM \<Rightarrow> nat \<times> bool \<times> InternalTx list \<times> ExternalTx" where
  "core evm = (evm_depth evm, in_readOnly evm, CallStack evm, ExTx evm)"

lemma core_state [simp]: "core (evm\<lparr>evm_StateDB := s\<rparr>) = core evm"
  by (simp add: core_def)

lemma core_tell [simp]: "core (tell f evm) = core evm"
  by (simp add: tell_def)

lemma core_ask: "ask f evm = (r, evm') \<Longrightarrow> core evm' = core evm"
  by (auto simp: ask_def split: prod.splits)

text \<open>A record with other events and more calls.\<close>

definition grown :: "Event list \<Rightarrow> InternalTx list \<Rightarrow> InternalTx \<Rightarrow> InternalTx" where
  "grown evs ts t =
     InternalTx (itx_From t) (itx_To t) (IsContract t) (itx_Value t) (CallType t) (Input t) evs (InTxs t @ ts)"

lemma grown_same: "grown (Events t) [] t = t"
  by (cases t) (simp add: grown_def)

lemma grown_grown [simp]: "grown evs ts (grown evs' ts' t) = grown evs (ts' @ ts) t"
  by (simp add: grown_def)

lemma grown_simps [simp]: "Events (grown evs ts t) = evs" "InTxs (grown evs ts t) = InTxs t @ ts"
  by (simp_all add: grown_def)

lemma itx_append_grown: "itx_append u t = grown (Events t) [u] t"
  by (simp add: itx_append_def grown_def)

lemma itx_set_events_grown: "itx_set_events evs t = grown evs [] t"
  by (simp add: itx_set_events_def grown_def)

text \<open>What a call adds: to the frame on top of the stack, or to the external transaction.\<close>

definition recorded :: "InternalTx list \<Rightarrow> EVM \<Rightarrow> EVM \<Rightarrow> bool" where
  "recorded ts evm evm' \<longleftrightarrow> evm_depth evm' = evm_depth evm \<and> in_readOnly evm' = in_readOnly evm \<and>
     (if CallStack evm = []
      then CallStack evm' = [] \<and> ExTx evm' = (ExTx evm)\<lparr>ex_InTxs := ex_InTxs (ExTx evm) @ ts\<rparr>
      else CallStack evm' = butlast (CallStack evm) @ [grown (Events (last (CallStack evm))) ts (last (CallStack evm))] \<and>
        ExTx evm' = ExTx evm)"

text \<open>What running a frame does to its own record, on top of the stack.\<close>

definition ran :: "Event list \<Rightarrow> InternalTx list \<Rightarrow> EVM \<Rightarrow> EVM \<Rightarrow> bool" where
  "ran evs ts evm evm' \<longleftrightarrow> evm_depth evm' = evm_depth evm \<and> in_readOnly evm' = in_readOnly evm \<and> ExTx evm' = ExTx evm \<and>
     CallStack evm' = butlast (CallStack evm) @ [grown evs ts (last (CallStack evm))]"

lemma recorded_Nil: "core evm' = core evm \<Longrightarrow> recorded [] evm evm'"
  by (simp add: recorded_def core_def grown_same)

lemma recorded_core: "recorded ts evm evm1 \<Longrightarrow> core evm2 = core evm1 \<Longrightarrow> recorded ts evm evm2"
  by (auto simp: recorded_def core_def)

lemma recorded_from: "core evm1 = core evm \<Longrightarrow> recorded ts evm1 evm' = recorded ts evm evm'"
  by (simp add: recorded_def core_def)

lemma stack_cases:
  assumes "CallStack evm \<noteq> []"
  obtains st t where "CallStack evm = st @ [t]"
  using assms by (cases "CallStack evm" rule: rev_cases) auto

lemma add_leaf_recorded:
  assumes "add_leaf t evm1 = Inr evm'" and "core evm1 = core evm"
  shows "recorded [t] evm evm' \<and> CallStack evm \<noteq> []"
proof -
  have c: "CallStack evm1 = CallStack evm" "ExTx evm1 = ExTx evm" "evm_depth evm1 = evm_depth evm" "in_readOnly evm1 = in_readOnly evm"
    using assms(2) by (simp_all add: core_def)
  have "CallStack evm \<noteq> []" using assms(1) c(1) by (auto simp: add_leaf_def Let_def split: if_splits)
  then obtain st u where "CallStack evm = st @ [u]" by (rule stack_cases)
  then show ?thesis
    using assms(1) c by (auto simp: add_leaf_def Let_def recorded_def itx_append_grown)
qed

lemma set_events_ran:
  assumes "set_events evs evm = Inr evm'" and "CallStack evm \<noteq> []"
  shows "ran evs [] evm evm'"
proof -
  obtain st u where "CallStack evm = st @ [u]" using assms(2) by (rule stack_cases)
  then show ?thesis using assms(1) by (auto simp: set_events_def Let_def ran_def itx_set_events_grown)
qed

lemma pop_frame_recorded:
  assumes "pop_frame evm2 = Inr evm'" and "ran evs ts (push_frame t evm) evm2"
  shows "recorded [grown evs ts t] evm evm'"
proof -
  have s: "CallStack evm2 = CallStack evm @ [grown evs ts t]" "ExTx evm2 = ExTx evm" "evm_depth evm2 = evm_depth evm"
    "in_readOnly evm2 = in_readOnly evm" using assms(2) by (simp_all add: ran_def push_frame_def)
  show ?thesis
  proof (cases "CallStack evm = []")
    case True
    then show ?thesis using assms(1) s by (auto simp: pop_frame_def Let_def recorded_def)
  next
    case False
    then obtain st u where st: "CallStack evm = st @ [u]" by (rule stack_cases)
    have "(st @ [u, x])[length st := y] = st @ [y, x]" "(st @ [u, x]) ! length st = u" "(st @ [u, x]) ! Suc (length st) = x" for x y
      by (simp_all add: nth_append list_update_append)
    then show ?thesis using assms(1) s st by (auto simp: pop_frame_def Let_def recorded_def itx_append_grown)
  qed
qed

section \<open>Frames\<close>

definition run_ok :: "run_fn \<Rightarrow> bool" where
  "run_ok run \<longleftrightarrow> (\<forall>c input ro evm r evm'. CallStack evm \<noteq> [] \<longrightarrow> run c input ro evm = Inr (r, evm') \<longrightarrow> (\<exists>evs ts. ran evs ts evm evm'))"

definition call_ok :: "call_fn \<Rightarrow> bool" where
  "call_ok call \<longleftrightarrow> (\<forall>caller req evm r evm'. call caller req evm = Inr (r, evm') \<longrightarrow> (\<exists>ts. recorded ts evm evm'))"

lemma ran_start:
  assumes "ran evs ts evm1 evm'" and "core evm1 = core evm"
  shows "ran evs ts evm evm'"
  using assms by (simp add: ran_def core_def)

lemma ran_recorded:
  assumes "recorded us evm evm1" and "ran evs ts evm1 evm'" and "CallStack evm \<noteq> []"
  shows "ran evs (us @ ts) evm evm'"
  using assms by (auto simp: recorded_def ran_def)

lemma run_frame_ran:
  assumes "call_ok call" and "run_frame env call c f events evm = Inr (r, evm')" and "CallStack evm \<noteq> []"
  shows "\<exists>evs ts. ran evs ts evm evm'"
  using assms(2,3)
proof (induction f arbitrary: events evm)
  case (Halt ret err gas)
  then show ?case using set_events_ran by (fastforce elim!: go_bind_InrE)
next
  case (Abort err gas)
  then show ?case
    by (intro exI [of _ "Events (last (CallStack evm))"] exI [of _ "[]"]) (simp add: ran_def grown_same)
next
  case (Op x k)
  then obtain a s where k: "run_frame env call c (k a) events (evm\<lparr>evm_StateDB := s\<rparr>) = Inr (r, evm')"
    by (auto elim!: go_bind_InrE)
  from Op.IH [OF _ k] Op.prems(2) obtain evs ts where "ran evs ts (evm\<lparr>evm_StateDB := s\<rparr>) evm'" by auto
  then have "ran evs ts evm evm'" by (rule ran_start) simp
  then show ?case by blast
next
  case (Emit topics d gas k)
  show ?case
  proof (cases "in_readOnly evm")
    case True
    then show ?thesis using Emit.prems set_events_ran by (fastforce elim!: go_bind_InrE)
  next
    case False
    obtain e evm1 where m: "makeLogSu env (c_self c) topics d evm = (e, evm1)" by (cases "makeLogSu env (c_self c) topics d evm")
    then have e: "core evm1 = core evm" using core_ask by (auto simp: makeLogSu_def split: prod.splits)
    then have "CallStack evm1 \<noteq> []" using Emit.prems(2) by (simp add: core_def)
    then obtain evs ts where "ran evs ts evm1 evm'" using Emit.IH [of "events @ [e]" evm1] Emit.prems(1) False m by auto
    then show ?thesis using ran_start [OF _ e] by blast
  qed
next
  case (DoCall req k)
  then obtain a evm1 where k: "call (ContractRef c) req evm = Inr (a, evm1)" "run_frame env call c (k a) events evm1 = Inr (r, evm')"
    by (auto elim!: go_bind_InrE)
  then obtain us where u: "recorded us evm evm1" using assms(1) unfolding call_ok_def by blast
  then have "CallStack evm1 \<noteq> []" using DoCall.prems(2) by (simp add: recorded_def)
  then show ?case using DoCall.IH [OF _ k(2)] ran_recorded [OF u _ DoCall.prems(2)] by blast
qed simp

lemma evm_Run_E:
  assumes "evm_Run env call c input ro evm = Inr (r, evm')"
  obtains evm0 evm1 where "evm0 = evm\<lparr>evm_depth := evm_depth evm + 1, in_readOnly := ro \<or> in_readOnly evm\<rparr>"
    "c_Code c = [] \<and> r = (None, None, c_Gas c) \<and> evm1 = evm0 \<or>
     c_Code c \<noteq> [] \<and> run_frame env call c (ee_code env c input (in_readOnly evm0)) [] evm0 = Inr (r, evm1)"
    "evm' = evm1\<lparr>evm_depth := evm_depth evm1 - 1, in_readOnly := (if ro \<and> \<not> in_readOnly evm then False else in_readOnly evm1)\<rparr>"
proof -
  define evm0 where e0: "evm0 = evm\<lparr>evm_depth := evm_depth evm + 1, in_readOnly := ro \<or> in_readOnly evm\<rparr>"
  let ?m = "if length (c_Code c) = 0 then Inr ((None, None, c_Gas c), evm0)
      else run_frame env call c (ee_code env c input (in_readOnly evm0)) [] evm0"
  have "go_bind ?m (\<lambda>(r, evm1). Inr (r, evm1\<lparr>evm_depth := evm_depth evm1 - 1,
      in_readOnly := (if ro \<and> \<not> in_readOnly evm then False else in_readOnly evm1)\<rparr>)) = Inr (r, evm')"
    using assms unfolding evm_Run_def Let_def e0 .
  then obtain evm1 where "?m = Inr (r, evm1)"
    "evm' = evm1\<lparr>evm_depth := evm_depth evm1 - 1, in_readOnly := (if ro \<and> \<not> in_readOnly evm then False else in_readOnly evm1)\<rparr>"
    by (elim go_bind_InrE) (simp split: prod.splits)
  then show thesis using that [OF e0] by (cases "c_Code c") auto
qed

lemma evm_Run_ok:
  assumes "call_ok call"
  shows "run_ok (evm_Run env call)"
proof -
  have "\<exists>evs ts. ran evs ts evm evm'" if n: "CallStack evm \<noteq> []" and r: "evm_Run env call c input ro evm = Inr (r, evm')" for c input ro evm r evm'
    using r
  proof (cases rule: evm_Run_E)
    case (1 evm0 evm1)
    have "\<exists>evs ts. ran evs ts evm0 evm1"
      using 1(2)
    proof (elim disjE conjE)
      assume "evm1 = evm0"
      then show ?thesis by (intro exI [of _ "Events (last (CallStack evm0))"] exI [of _ "[]"]) (use n 1(1) in \<open>simp add: ran_def grown_same\<close>)
    next
      assume "run_frame env call c (ee_code env c input (in_readOnly evm0)) [] evm0 = Inr (r, evm1)"
      then show ?thesis by (rule run_frame_ran [OF assms]) (use n 1(1) in simp)
    qed
    then obtain evs ts where "ran evs ts evm0 evm1" by blast
    then have "ran evs ts evm evm'" using 1(1,3) by (auto simp: ran_def)
    then show ?thesis by blast
  qed
  then show ?thesis unfolding run_ok_def by blast
qed

section \<open>Calls\<close>

text \<open>A record of a request: who called whom, how, with what input and value.\<close>

definition record_of :: "ContractRef \<Rightarrow> call_req \<Rightarrow> InternalTx \<Rightarrow> bool" where
  "record_of caller req t \<longleftrightarrow> itx_From t = Ref_Address caller \<and>
     (case req of
        ReqCall addr input gas v \<Rightarrow> itx_To t = addr \<and> CallType t = ''Call'' \<and> Input t = input \<and> itx_Value t = Some v
      | ReqCallCode addr input gas v \<Rightarrow> itx_To t = addr \<and> CallType t = ''CallCode'' \<and> Input t = input \<and> itx_Value t = Some v
      | ReqDelegateCall addr input gas \<Rightarrow> itx_To t = addr \<and> CallType t = ''DelegateCall'' \<and> Input t = input \<and> itx_Value t = None
      | ReqStaticCall addr input gas \<Rightarrow> itx_To t = addr \<and> CallType t = ''StaticCall'' \<and> Input t = input \<and> itx_Value t = None
      | ReqCreate code gas v \<Rightarrow> CallType t = ''Create'' \<and> Input t = [] \<and> itx_Value t = Some v
      | ReqCreate2 code gas v salt \<Rightarrow> CallType t = ''Create'' \<and> Input t = [] \<and> itx_Value t = Some v)"

lemma record_of_grown [simp]: "record_of caller req (grown evs ts t) = record_of caller req t"
  by (simp add: record_of_def grown_def split: call_req.splits)

text \<open>At most one record, and one that fits the request.\<close>

definition one_record :: "ContractRef \<Rightarrow> call_req \<Rightarrow> EVM \<Rightarrow> EVM \<Rightarrow> bool" where
  "one_record caller req evm evm' \<longleftrightarrow> recorded [] evm evm' \<or> (\<exists>t. record_of caller req t \<and> recorded [t] evm evm')"

lemma one_record_Nil: "core evm' = core evm \<Longrightarrow> one_record caller req evm evm'"
  by (simp add: one_record_def recorded_Nil)

lemma one_record_core: "one_record caller req evm evm1 \<Longrightarrow> core evm2 = core evm1 \<Longrightarrow> one_record caller req evm evm2"
  unfolding one_record_def using recorded_core by blast

lemma run_recorded_one:
  assumes "run_ok run" and "run_recorded run c input ro evm2 = Inr (r, evm')" and "core evm2 = core (push_frame t evm1)"
    and "core evm1 = core evm" and "record_of caller req t"
  shows "one_record caller req evm evm'"
proof -
  from assms(2) obtain evm3 where r: "run c input ro evm2 = Inr (r, evm3)" "pop_frame evm3 = Inr evm'"
    by (auto simp: run_recorded_def elim!: go_bind_InrE)
  have e: "core evm2 = core (push_frame t evm)" using assms(3,4) by (simp add: core_def push_frame_def)
  then have "CallStack evm2 \<noteq> []" by (simp add: core_def push_frame_def)
  then obtain evs ts where "ran evs ts evm2 evm3" using assms(1) r(1) unfolding run_ok_def by blast
  then have "ran evs ts (push_frame t evm) evm3" using e by (rule ran_start)
  from pop_frame_recorded [OF r(2) this] assms(5) show ?thesis unfolding one_record_def by auto
qed

lemma finish_call_core: "finish_call n r evm = Inr (x, evm') \<Longrightarrow> core evm' = core evm"
  by (auto simp: finish_call_def split: prod.splits if_splits elim!: go_bind_InrE)

lemma finish_create_core: "finish_create rules a n r evm = Inr (x, evm') \<Longrightarrow> core evm' = core evm"
  by (auto simp: finish_create_def split: prod.splits if_splits elim!: go_bind_InrE)

lemma store_created_core: "store_created a r evm = (x, evm') \<Longrightarrow> core evm' = core evm"
  by (auto simp: store_created_def split: prod.splits if_splits bool.splits)

text \<open>The part between the snapshot and the end: a precompiled contract, or a frame.\<close>

definition call_body :: "run_fn \<Rightarrow> precompiled option \<Rightarrow> bytes \<Rightarrow> uint64 \<Rightarrow> EVM \<Rightarrow> Contract \<Rightarrow> bool \<Rightarrow> EVM \<Rightarrow> (frame_res \<times> EVM) go" where
  "call_body run p input gas evm1 c ro evm2 =
     (case p of Some q \<Rightarrow> Inr (RunPrecompiledContract q input gas, evm1) | None \<Rightarrow> run_recorded run c input ro evm2)"

lemma call_body_one:
  assumes "run_ok run" and "call_body run p input gas evm1 c ro evm2 = Inr (r1, evm3)"
    and "finish_call n r1 evm3 = Inr (r, evm')" and "core evm1 = core evm" and "core evm2 = core (push_frame t evm1)"
    and "record_of caller req t"
  shows "one_record caller req evm evm'"
proof -
  have "one_record caller req evm evm3"
  proof (cases p)
    case None
    then show ?thesis using run_recorded_one [OF assms(1) _ assms(5,4,6)] assms(2) by (simp add: call_body_def)
  next
    case (Some q)
    then have "evm3 = evm1" using assms(2) by (simp add: call_body_def)
    then show ?thesis using assms(4) by (simp add: one_record_Nil)
  qed
  then show ?thesis using one_record_core finish_call_core [OF assms(3)] by blast
qed

text \<open>How each kind of call goes: refused at once, or run between a snapshot and its end.\<close>

lemma evm_CallCode_E:
  assumes "evm_CallCode env run caller addr input gas v evm = Inr (r, evm')"
  obtains (refused) can where "evm' = evm \<or> ask (CanTransfer (Ref_Address caller) v) evm = (can, evm')" "cr_err r \<noteq> None" "cr_gas r = gas"
  | (run) can evm1 n evm2 h evm3 code evm4 r1 evm5 where
    "ask (CanTransfer (Ref_Address caller) v) evm = (can, evm1)" "ask sd_Snapshot evm1 = (n, evm2)"
    "ask (GetCodeHash addr) (push_frame (InternalTx (Ref_Address caller) addr True (Some v) ''CallCode'' input [] []) evm2) = (h, evm3)"
    "ask (sd_GetCode addr) evm3 = (code, evm4)"
    "call_body run (precompile env addr) input gas evm2
         (SetCallCode addr h (code_bytes code) (NewContract caller (Ref_Address caller) (Some v) gas)) False evm4 = Inr (r1, evm5)"
    "finish_call n r1 evm5 = Inr (r, evm')"
proof -
  obtain can evm1 where 1: "ask (CanTransfer (Ref_Address caller) v) evm = (can, evm1)" by (cases "ask (CanTransfer (Ref_Address caller) v) evm")
  obtain n evm2 where 2: "ask sd_Snapshot evm1 = (n, evm2)" by (cases "ask sd_Snapshot evm1")
  let ?t = "InternalTx (Ref_Address caller) addr True (Some v) ''CallCode'' input [] []"
  obtain h evm3 where 3: "ask (GetCodeHash addr) (push_frame ?t evm2) = (h, evm3)" by (cases "ask (GetCodeHash addr) (push_frame ?t evm2)")
  obtain code evm4 where 4: "ask (sd_GetCode addr) evm3 = (code, evm4)" by (cases "ask (sd_GetCode addr) evm3")
  show thesis
  proof (cases "evm_depth evm > CallCreateDepth \<or> \<not> can")
    case True
    then show thesis using assms 1 by (intro refused [of can]) (auto simp: evm_CallCode_def split: if_splits)
  next
    case False
    then show thesis
      using assms 1 2 3 4 run [OF 1 2 3 4]
      by (auto simp: evm_CallCode_def call_body_def Let_def elim!: go_bind_InrE split: option.splits)
  qed
qed

lemma evm_DelegateCall_E:
  assumes "evm_DelegateCall env run caller addr input gas evm = Inr (r, evm')"
  obtains (refused) "evm' = evm" "cr_err r \<noteq> None" "cr_gas r = gas"
  | (run) n evm2 h evm3 code evm4 c r1 evm5 where "ask sd_Snapshot evm = (n, evm2)"
    "ask (GetCodeHash addr) (push_frame (InternalTx (Ref_Address caller) addr True None ''DelegateCall'' input [] []) evm2) = (h, evm3)"
    "ask (sd_GetCode addr) evm3 = (code, evm4)" "call_body run (precompile env addr) input gas evm2 c False evm4 = Inr (r1, evm5)"
    "precompile env addr = None \<Longrightarrow> c_Gas c = gas" "finish_call n r1 evm5 = Inr (r, evm')"
proof -
  obtain n evm2 where 2: "ask sd_Snapshot evm = (n, evm2)" by (cases "ask sd_Snapshot evm")
  let ?t = "InternalTx (Ref_Address caller) addr True None ''DelegateCall'' input [] []"
  obtain h evm3 where 3: "ask (GetCodeHash addr) (push_frame ?t evm2) = (h, evm3)" by (cases "ask (GetCodeHash addr) (push_frame ?t evm2)")
  obtain code evm4 where 4: "ask (sd_GetCode addr) evm3 = (code, evm4)" by (cases "ask (sd_GetCode addr) evm3")
  show thesis
  proof (cases "evm_depth evm > CallCreateDepth")
    case True
    then show thesis using assms by (intro refused) (auto simp: evm_DelegateCall_def)
  next
    case False
    then show thesis
      using assms 2 3 4 run [OF 2 3 4]
      by (auto simp: evm_DelegateCall_def call_body_def Let_def AsDelegate_def NewContract_def SetCallCode_def
          elim!: go_bind_InrE split: option.splits ContractRef.splits)
  qed
qed

lemma evm_StaticCall_E:
  assumes "evm_StaticCall env run caller addr input gas evm = Inr (r, evm')"
  obtains (refused) "evm' = evm" "cr_err r \<noteq> None" "cr_gas r = gas"
  | (run) n evm1 evm2 h evm3 code evm4 r1 evm5 where "ask sd_Snapshot evm = (n, evm1)" "evm2 = tell (sd_AddBalance addr 0) evm1"
    "ask (GetCodeHash addr) (push_frame (InternalTx (Ref_Address caller) addr True None ''StaticCall'' input [] []) evm2) = (h, evm3)"
    "ask (sd_GetCode addr) evm3 = (code, evm4)"
    "call_body run (precompile env addr) input gas evm2
       (SetCallCode addr h (code_bytes code) (NewContract caller addr (Some 0) gas)) True evm4 = Inr (r1, evm5)"
    "finish_call n r1 evm5 = Inr (r, evm')"
proof -
  obtain n evm1 where 1: "ask sd_Snapshot evm = (n, evm1)" by (cases "ask sd_Snapshot evm")
  define evm2 where 2: "evm2 = tell (sd_AddBalance addr 0) evm1"
  let ?t = "InternalTx (Ref_Address caller) addr True None ''StaticCall'' input [] []"
  obtain h evm3 where 3: "ask (GetCodeHash addr) (push_frame ?t evm2) = (h, evm3)" by (cases "ask (GetCodeHash addr) (push_frame ?t evm2)")
  obtain code evm4 where 4: "ask (sd_GetCode addr) evm3 = (code, evm4)" by (cases "ask (sd_GetCode addr) evm3")
  show thesis
  proof (cases "evm_depth evm > CallCreateDepth")
    case True
    then show thesis using assms by (intro refused) (auto simp: evm_StaticCall_def)
  next
    case False
    then show thesis
      using assms 1 3 4 run [OF 1 2 3 4]
      by (auto simp: evm_StaticCall_def call_body_def Let_def 2 elim!: go_bind_InrE split: option.splits)
  qed
qed

text \<open>\<open>evm.Call\<close>: it also ends early on an account that does not exist, and makes a leaf of one without code.\<close>

lemma evm_Call_E:
  assumes "evm_Call env run caller addr input gas v evm = Inr (r, evm')"
  obtains (refused) can where "evm' = evm \<or> ask (CanTransfer (Ref_Address caller) v) evm = (can, evm')" "cr_err r \<noteq> None" "cr_gas r = gas"
  | (absent) can evm1 n evm2 ex where "evm1 = evm \<or> ask (CanTransfer (Ref_Address caller) v) evm = (can, evm1)"
    "ask sd_Snapshot evm1 = (n, evm2)" "ask (Exist addr) evm2 = (ex, evm')" "r = CallRes None 0 gas None"
  | (run) can evm1 n evm2 ex evm3 evm4 code evm5 h evm6 r1 evm7 where
    "evm1 = evm \<or> ask (CanTransfer (Ref_Address caller) v) evm = (can, evm1)"
    "ask sd_Snapshot evm1 = (n, evm2)" "ask (Exist addr) evm2 = (ex, evm3)"
    "evm4 = tell (Transfer (Ref_Address caller) addr v) (if ex then evm3 else tell (CreateAccount addr) evm3)"
    "ask (sd_GetCode addr) evm4 = (code, evm5)"
    "ask (GetCodeHash addr) (push_frame (InternalTx (Ref_Address caller) addr True (Some v) ''Call'' input [] []) evm5) = (h, evm6)"
    "precompile env addr = None \<and> code_bytes code = [] \<and> r1 = (None, None, gas) \<and>
       add_leaf (InternalTx (Ref_Address caller) addr False (Some v) ''Call'' input [] []) evm5 = Inr evm7 \<or>
     (precompile env addr = None \<longrightarrow> code_bytes code \<noteq> []) \<and>
       call_body run (precompile env addr) input gas evm4
         (SetCallCode addr h (code_bytes code) (NewContract caller addr (Some v) gas)) False evm6 = Inr (r1, evm7)"
    "finish_call n r1 evm7 = Inr (r, evm')"
proof -
  obtain can evm1 where 1: "(if v = 0 then (True, evm) else ask (CanTransfer (Ref_Address caller) v) evm) = (can, evm1)"
    by (cases "if v = 0 then (True, evm) else ask (CanTransfer (Ref_Address caller) v) evm")
  then have one: "evm1 = evm \<or> ask (CanTransfer (Ref_Address caller) v) evm = (can, evm1)" by (simp split: if_splits)
  obtain n evm2 where 2: "ask sd_Snapshot evm1 = (n, evm2)" by (cases "ask sd_Snapshot evm1")
  obtain ex evm3 where 3: "ask (Exist addr) evm2 = (ex, evm3)" by (cases "ask (Exist addr) evm2")
  define evm4 where 4: "evm4 = tell (Transfer (Ref_Address caller) addr v) (if ex then evm3 else tell (CreateAccount addr) evm3)"
  obtain code evm5 where 5: "ask (sd_GetCode addr) evm4 = (code, evm5)" by (cases "ask (sd_GetCode addr) evm4")
  let ?t = "InternalTx (Ref_Address caller) addr True (Some v) ''Call'' input [] []"
  obtain h evm6 where 6: "ask (GetCodeHash addr) (push_frame ?t evm5) = (h, evm6)" by (cases "ask (GetCodeHash addr) (push_frame ?t evm5)")
  consider (a) "evm_depth evm > CallCreateDepth \<or> \<not> can"
    | (b) "\<not> evm_depth evm > CallCreateDepth" "can" "\<not> ex \<and> precompile env addr = None \<and> IsEIP158 (ee_rules env) \<and> v = 0"
    | (c) "\<not> evm_depth evm > CallCreateDepth" "can" "\<not> (\<not> ex \<and> precompile env addr = None \<and> IsEIP158 (ee_rules env) \<and> v = 0)" by blast
  then show thesis
  proof cases
    case a
    then show thesis using assms 1 one by (intro refused [of can]) (auto simp: evm_Call_def split: if_splits)
  next
    case b
    have "r = CallRes None 0 gas None" "evm' = evm3" using assms 1 2 3 b by (simp_all add: evm_Call_def Let_def)
    then show thesis using absent [OF one 2, of ex] 3 by blast
  next
    case c
    have "go_bind
           (case precompile env addr of
              Some p \<Rightarrow> Inr (RunPrecompiledContract p input gas, evm4)
            | None \<Rightarrow> if length (code_bytes code) = 0
                   then go_bind (add_leaf (InternalTx (Ref_Address caller) addr False (Some v) ''Call'' input [] []) evm5)
                          (\<lambda>evm. Inr ((None, None, gas), evm))
                   else run_recorded run (SetCallCode addr h (code_bytes code) (NewContract caller addr (Some v) gas)) input False evm6)
           (\<lambda>(r, evm). finish_call n r evm) = Inr (r, evm')"
      using assms 1 2 3 5 6 c by (simp add: evm_Call_def Let_def 4 split: option.splits if_splits)
    then show thesis
      using run [OF one 2 3 4 5 6]
      by (auto simp: call_body_def elim!: go_bind_InrE split: option.splits if_splits)
  qed
qed

definition create_prelude :: "Rules \<Rightarrow> Address \<Rightarrow> Address \<Rightarrow> int \<Rightarrow> EVM \<Rightarrow> EVM" where
  "create_prelude rules from address v evm =
     (let evm = tell (CreateAccount address) evm;
          evm = (if IsEIP158 rules then tell (sd_SetNonce address 1) evm else evm)
      in tell (Transfer from address v) evm)"

lemma evm_create_E:
  assumes "evm_create env run caller code h gas v address evm = Inr (r, evm')"
  obtains can evm1 nonce evm2 evm3 ch evm4 there evm5 n evm6 where
    "ask (CanTransfer (Ref_Address caller) v) evm = (can, evm1)" "ask (GetNonce (Ref_Address caller)) evm1 = (nonce, evm2)"
    "evm3 = (if IsBerlin (ee_rules env) then tell (AddAddressToAccessList address) else id) (tell (sd_SetNonce (Ref_Address caller) (nonce + 1)) evm2)"
    "ask (GetCodeHash address) evm3 = (ch, evm4)" "ask (GetNonce address) evm4 = (there, evm5)" "ask sd_Snapshot evm5 = (n, evm6)"
    "cr_err r \<noteq> None \<and> evm' \<in> {evm, evm1, evm2, evm5} \<and> cr_gas r \<le> gas \<or>
     (\<exists>r1 evm8 r2 evm9. run_recorded run (SetCallCode address h code (NewContract caller address (Some v) gas)) [] False
          (push_frame (InternalTx (Ref_Address caller) address True (Some v) ''Create'' [] [] [])
             (create_prelude (ee_rules env) (Ref_Address caller) address v evm6)) = Inr (r1, evm8) \<and>
        store_created address (check_created (ee_rules env) r1) evm8 = (r2, evm9) \<and>
        finish_create (ee_rules env) address n r2 evm9 = Inr (r, evm'))"
proof -
  let ?from = "Ref_Address caller" and ?rules = "ee_rules env"
  obtain can evm1 where 1: "ask (CanTransfer ?from v) evm = (can, evm1)" by (cases "ask (CanTransfer ?from v) evm")
  obtain nonce evm2 where 2: "ask (GetNonce ?from) evm1 = (nonce, evm2)" by (cases "ask (GetNonce ?from) evm1")
  define evm3 where 3: "evm3 = (if IsBerlin ?rules then tell (AddAddressToAccessList address) else id) (tell (sd_SetNonce ?from (nonce + 1)) evm2)"
  obtain ch evm4 where 4: "ask (GetCodeHash address) evm3 = (ch, evm4)" by (cases "ask (GetCodeHash address) evm3")
  obtain there evm5 where 5: "ask (GetNonce address) evm4 = (there, evm5)" by (cases "ask (GetNonce address) evm4")
  obtain n evm6 where 6: "ask sd_Snapshot evm5 = (n, evm6)" by (cases "ask sd_Snapshot evm5")
  have b: "(if IsBerlin ?rules then tell (AddAddressToAccessList address) (tell (sd_SetNonce ?from (nonce + 1)) evm2)
      else tell (sd_SetNonce ?from (nonce + 1)) evm2) = evm3" by (simp add: 3)
  show thesis
  proof (rule that [OF 1 2 3 4 5 6])
    show "cr_err r \<noteq> None \<and> evm' \<in> {evm, evm1, evm2, evm5} \<and> cr_gas r \<le> gas \<or>
     (\<exists>r1 evm8 r2 evm9. run_recorded run (SetCallCode address h code (NewContract caller address (Some v) gas)) [] False
          (push_frame (InternalTx ?from address True (Some v) ''Create'' [] [] []) (create_prelude ?rules ?from address v evm6)) = Inr (r1, evm8) \<and>
        store_created address (check_created ?rules r1) evm8 = (r2, evm9) \<and> finish_create ?rules address n r2 evm9 = Inr (r, evm'))"
    proof (cases "evm_depth evm > CallCreateDepth \<or> \<not> can \<or> nonce + 1 < nonce \<or> there \<noteq> 0 \<or> code_collision (evm_StateDB evm5) ch")
      case True
      then show ?thesis using assms 1 2 4 5 b by (auto simp: evm_create_def Let_def split: if_splits)
    next
      case False
      then have "go_bind (run_recorded run (SetCallCode address h code (NewContract caller address (Some v) gas)) [] False
          (push_frame (InternalTx ?from address True (Some v) ''Create'' [] [] []) (create_prelude ?rules ?from address v evm6)))
          (\<lambda>(r, evm). case store_created address (check_created ?rules r) evm of
             (r, evm) \<Rightarrow> finish_create ?rules address n r evm) = Inr (r, evm')"
        using assms 1 2 4 5 6 b by (simp add: evm_create_def Let_def create_prelude_def)
      then show ?thesis by (auto elim!: go_bind_InrE split: prod.splits)
    qed
  qed
qed

lemma evm_CallCode_one:
  assumes "run_ok run" and "evm_CallCode env run caller addr input gas v evm = Inr (r, evm')"
  shows "one_record caller (ReqCallCode addr input gas v) evm evm'"
  using assms(2)
proof (cases rule: evm_CallCode_E)
  case (refused can)
  then show ?thesis by (auto intro: one_record_Nil dest: core_ask)
next
  case (run can evm1 n evm2 h evm3 code evm4 r1 evm5)
  note c = core_ask [OF run(1)] core_ask [OF run(2)] core_ask [OF run(3)] core_ask [OF run(4)]
  show ?thesis
    by (rule call_body_one [OF assms(1) run(5,6), where t = "InternalTx (Ref_Address caller) addr True (Some v) ''CallCode'' input [] []"])
      (use c in \<open>simp_all add: record_of_def\<close>)
qed

lemma evm_DelegateCall_one:
  assumes "run_ok run" and "evm_DelegateCall env run caller addr input gas evm = Inr (r, evm')"
  shows "one_record caller (ReqDelegateCall addr input gas) evm evm'"
  using assms(2)
proof (cases rule: evm_DelegateCall_E)
  case refused
  then show ?thesis by (auto intro: one_record_Nil)
next
  case (run n evm2 h evm3 code evm4 c r1 evm5)
  note c = core_ask [OF run(1)] core_ask [OF run(2)] core_ask [OF run(3)]
  show ?thesis
    by (rule call_body_one [OF assms(1) run(4,6), where t = "InternalTx (Ref_Address caller) addr True None ''DelegateCall'' input [] []"])
      (use c in \<open>simp_all add: record_of_def\<close>)
qed

lemma evm_StaticCall_one:
  assumes "run_ok run" and "evm_StaticCall env run caller addr input gas evm = Inr (r, evm')"
  shows "one_record caller (ReqStaticCall addr input gas) evm evm'"
  using assms(2)
proof (cases rule: evm_StaticCall_E)
  case refused
  then show ?thesis by (auto intro: one_record_Nil)
next
  case (run n evm1 evm2 h evm3 code evm4 r1 evm5)
  note c = core_ask [OF run(1)] core_ask [OF run(3)] core_ask [OF run(4)]
  show ?thesis
    by (rule call_body_one [OF assms(1) run(5,6), where t = "InternalTx (Ref_Address caller) addr True None ''StaticCall'' input [] []"])
      (use c run(2) in \<open>simp_all add: record_of_def\<close>)
qed

lemma evm_Call_one:
  assumes "run_ok run" and "evm_Call env run caller addr input gas v evm = Inr (r, evm')"
  shows "one_record caller (ReqCall addr input gas v) evm evm'"
  using assms(2)
proof (cases rule: evm_Call_E)
  case (refused can)
  then show ?thesis by (auto intro: one_record_Nil dest: core_ask)
next
  case (absent can evm1 n evm2 ex)
  have "core evm1 = core evm" using absent(1) core_ask by auto
  then show ?thesis using core_ask [OF absent(2)] core_ask [OF absent(3)] by (simp add: one_record_Nil)
next
  case (run can evm1 n evm2 ex evm3 evm4 code evm5 h evm6 r1 evm7)
  have "core evm1 = core evm" using run(1) core_ask by auto
  then have c: "core evm4 = core evm" "core evm5 = core evm"
    using core_ask [OF run(2)] core_ask [OF run(3)] core_ask [OF run(5)] run(4) by simp_all
  let ?req = "ReqCall addr input gas v"
  show ?thesis
    using run(7)
  proof (elim disjE conjE)
    assume "add_leaf (InternalTx (Ref_Address caller) addr False (Some v) ''Call'' input [] []) evm5 = Inr evm7"
    from add_leaf_recorded [OF this c(2)] have "one_record caller ?req evm evm7" by (auto simp: one_record_def record_of_def)
    then show ?thesis using one_record_core finish_call_core [OF run(8)] by blast
  next
    let ?t = "InternalTx (Ref_Address caller) addr True (Some v) ''Call'' input [] []"
    assume b: "call_body run (precompile env addr) input gas evm4
         (SetCallCode addr h (code_bytes code) (NewContract caller addr (Some v) gas)) False evm6 = Inr (r1, evm7)"
    have "core evm6 = core (push_frame ?t evm4)" using core_ask [OF run(6)] c by (simp add: core_def push_frame_def)
    then show ?thesis by (rule call_body_one [OF assms(1) b run(8) c(1)]) (simp add: record_of_def)
  qed
qed

lemma evm_create_one:
  assumes "run_ok run" and "evm_create env run caller code h gas v address evm = Inr (r, evm')"
    and "req = ReqCreate c1 g1 v \<or> req = ReqCreate2 c1 g1 v salt"
  shows "one_record caller req evm evm'"
  using assms(2)
proof (cases rule: evm_create_E)
  case (1 can evm1 nonce evm2 evm3 ch evm4 there evm5 n evm6)
  have "core evm3 = core evm2" using 1(3) by simp
  then have c: "core evm1 = core evm" "core evm2 = core evm" "core evm5 = core evm" "core evm6 = core evm"
    using core_ask [OF 1(1)] core_ask [OF 1(2)] core_ask [OF 1(4)] core_ask [OF 1(5)] core_ask [OF 1(6)] by simp_all
  from 1(7) show ?thesis
  proof (elim disjE conjE exE)
    assume "evm' \<in> {evm, evm1, evm2, evm5}"
    then show ?thesis using c by (auto intro: one_record_Nil)
  next
    let ?e = "create_prelude (ee_rules env) (Ref_Address caller) address v evm6"
    let ?t = "InternalTx (Ref_Address caller) address True (Some v) ''Create'' [] [] []"
    fix r1 evm8 r2 evm9
    assume k: "run_recorded run (SetCallCode address h code (NewContract caller address (Some v) gas)) [] False (push_frame ?t ?e) = Inr (r1, evm8)"
      and st: "store_created address (check_created (ee_rules env) r1) evm8 = (r2, evm9)"
      and f: "finish_create (ee_rules env) address n r2 evm9 = Inr (r, evm')"
    have "core ?e = core evm" using c(4) by (simp add: create_prelude_def Let_def)
    moreover have "record_of caller req ?t" using assms(3) by (auto simp: record_of_def)
    ultimately have "one_record caller req evm evm8" using run_recorded_one [OF assms(1) k refl] by blast
    then show ?thesis using one_record_core store_created_core [OF st] finish_create_core [OF f] by metis
  qed
qed

lemma evm_request_one:
  assumes "run_ok run" and "evm_request env run caller req evm = Inr (r, evm')"
  shows "one_record caller req evm evm'"
proof (cases req)
  case (ReqCreate code gas v)
  obtain nonce evm1 where a: "ask (GetNonce (Ref_Address caller)) evm = (nonce, evm1)" by (cases "ask (GetNonce (Ref_Address caller)) evm")
  have "one_record caller req evm1 evm'"
    by (rule evm_create_one [OF assms(1)]) (use assms(2) a ReqCreate in \<open>auto simp: evm_Create_def Let_def\<close>)
  then show ?thesis using recorded_from [OF core_ask [OF a]] by (simp add: one_record_def)
next
  case (ReqCreate2 code gas v salt)
  show ?thesis
    by (rule evm_create_one [OF assms(1)]) (use assms(2) ReqCreate2 in \<open>auto simp: evm_Create2_def Let_def\<close>)
qed (use assms evm_Call_one evm_CallCode_one evm_DelegateCall_one evm_StaticCall_one in auto)

lemma evm_calls_from_ok: "call_ok beyond \<Longrightarrow> call_ok (evm_calls_from beyond n env)"
proof (induction n)
  case (Suc n)
  have "\<exists>ts. recorded ts evm evm'" if "evm_calls_from beyond (Suc n) env caller req evm = Inr (r, evm')" for caller req evm r evm'
    using evm_request_one [OF evm_Run_ok [OF Suc.IH [OF Suc.prems]]] that unfolding one_record_def by fastforce
  then show ?case unfolding call_ok_def by blast
qed simp

lemma panic_ok: "call_ok (\<lambda>caller req evm. Inl p)"
  by (simp add: call_ok_def)

section \<open>The depth of calls\<close>

lemma run_frame_depth:
  assumes "call_ok call" and "\<And>caller req e. evm_depth e = d \<Longrightarrow> call caller req e = call' caller req e" and "evm_depth evm = d"
  shows "run_frame env call c f events evm = run_frame env call' c f events evm"
  using assms(3)
proof (induction f arbitrary: events evm)
  case (Op x k)
  then show ?case by (auto cong: go_bind_cong split: prod.splits)
next
  case (Emit topics data gas k)
  have "evm_depth (snd (makeLogSu env (c_self c) topics data evm)) = d"
    using Emit.prems by (simp add: makeLogSu_def ask_def split_beta)
  then show ?case using Emit.IH by (simp add: split_beta)
next
  case (DoCall req k)
  have "run_frame env call c (k a) events e = run_frame env call' c (k a) events e"
    if a: "call (ContractRef c) req evm = Inr (a, e)" for a e
  proof -
    obtain ts where "recorded ts evm e" using assms(1) a unfolding call_ok_def by blast
    then show ?thesis using DoCall by (intro DoCall.IH) (auto simp: recorded_def)
  qed
  then show ?case using assms(2) [OF DoCall.prems] by (cases "call' (ContractRef c) req evm") auto
qed simp_all

lemma evm_Run_depth:
  assumes "call_ok call" and "\<And>caller req e. evm_depth e = evm_depth evm + 1 \<Longrightarrow> call caller req e = call' caller req e"
  shows "evm_Run env call c input ro evm = evm_Run env call' c input ro evm"
  using run_frame_depth [OF assms(1), where d = "evm_depth evm + 1" and call' = call'] assms(2)
  by (simp add: evm_Run_def Let_def)

lemma depth_simps [simp]:
  "evm_depth (snd (ask f evm)) = evm_depth evm" "evm_depth (tell g evm) = evm_depth evm" "evm_depth (push_frame t evm) = evm_depth evm"
  by (simp_all add: ask_def tell_def push_frame_def split_beta)

lemma evm_request_depth:
  assumes "\<And>c input ro e. evm_depth e = evm_depth evm \<Longrightarrow> run c input ro e = run' c input ro e"
  shows "evm_request env run caller req evm = evm_request env run' caller req evm"
proof -
  have r: "run_recorded run c input ro e = run_recorded run' c input ro e" if "evm_depth e = evm_depth evm" for c input ro e
    using assms [OF that] by (simp add: run_recorded_def)
  have create: "evm_create env run caller code h gas v a evm1 = evm_create env run' caller code h gas v a evm1"
    if "evm_depth evm1 = evm_depth evm" for code h gas v a evm1
    using that r by (simp add: evm_create_def Let_def split_beta cong: if_cong)
  show ?thesis
    by (cases req) (simp_all add: evm_Call_def evm_CallCode_def evm_DelegateCall_def evm_StaticCall_def evm_Create_def evm_Create2_def
        Let_def split_beta r create cong: if_cong option.case_cong go_bind_cong)
qed

lemma evm_request_deep:
  assumes "evm_depth evm > CallCreateDepth"
  shows "evm_request env run caller req evm = evm_request env run' caller req evm"
  using assms
  by (cases req) (simp_all add: evm_Call_def evm_CallCode_def evm_DelegateCall_def evm_StaticCall_def evm_Create_def evm_Create2_def
      evm_create_def Let_def split_beta)

lemma evm_calls_from_depth:
  assumes "call_ok beyond" and "evm_depth evm + n \<ge> CallCreateDepth + 2" and "n > 0"
  shows "evm_calls_from beyond (n + k) env caller req evm = evm_calls_from beyond' n env caller req evm"
  using assms(2,3)
proof (induction n arbitrary: evm caller req)
  case (Suc n)
  show ?case
  proof (cases "evm_depth evm > CallCreateDepth")
    case True
    then show ?thesis using evm_request_deep by simp
  next
    case False
    then have n: "CallCreateDepth + 2 \<le> evm_depth evm + 1 + n" "n > 0" using Suc.prems(1) by simp_all
    have d: "evm_Run env (evm_calls_from beyond (n + k) env) c input ro e = evm_Run env (evm_calls_from beyond' n env) c input ro e"
      if "evm_depth e = evm_depth evm" for c input ro e
    proof (rule evm_Run_depth [OF evm_calls_from_ok [OF assms(1)]])
      fix caller req and e' :: EVM assume "evm_depth e' = evm_depth e + 1"
      then show "evm_calls_from beyond (n + k) env caller req e' = evm_calls_from beyond' n env caller req e'"
        by (intro Suc.IH) (use n that in simp_all)
    qed
    have "evm_request env (evm_Run env (evm_calls_from beyond (n + k) env)) caller req evm =
        evm_request env (evm_Run env (evm_calls_from beyond' n env)) caller req evm"
      by (rule evm_request_depth) (rule d)
    then show ?thesis by simp
  qed
qed simp

section \<open>A sample\<close>

text \<open>A contract that writes a slot, emits a log and returns, or reverts when called with an input.\<close>

definition sample_contract :: stateObject where
  "sample_contract = (newObject sample_backend 17 (zeroAccount\<lparr>sa_Nonce := 1\<rparr>) True)\<lparr>so_code := Some [1]\<rparr>"

definition sample_db :: StateDB where
  "sample_db = (state_New sample_backend)\<lparr>stateObjects := [(17, sample_contract)],
     ResearchPreAlloc := [(17, Some (NewSubstateAccount 1 0 [1]))]\<rparr>"

definition sample_env :: evm_env where
  "sample_env = \<lparr>ee_rules = \<lparr>IsHomestead = True, IsEIP150 = True, IsEIP158 = True, IsByzantium = True, IsConstantinople = False,
     IsPetersburg = False, IsIstanbul = False, IsBerlin = False, IsLondon = False\<rparr>,
     ee_BlockNumber = 7, ee_precompiled = (\<lambda>_. \<lparr>RequiredGas = (\<lambda>_. 0), pc_Run = (\<lambda>_. (None, None))\<rparr>),
     ee_code = (\<lambda>c input ro. if input = [] then Emit [5] [] 4 (Halt (Some [6]) None 3)
       else Op (OpSetState (c_self c) 2 3) (\<lambda>_. Halt None (Some ErrExecutionReverted) 3))\<rparr>"

lemma sample_precompile: "precompile sample_env 17 = None"
  by (simp add: precompile_def ActivePrecompiles_def sample_env_def)

lemma sample_contract_simps:
  "so_address sample_contract = 17" "so_deleted sample_contract = False" "so_code sample_contract = Some [1]"
  "fakeStorage sample_contract = None" "sa_Nonce (so_data sample_contract) = 1"
  by (simp_all add: sample_contract_def newObject_def zeroAccount_def Let_def)

definition holds_contract :: "stateObject \<Rightarrow> StateDB \<Rightarrow> bool" where
  "holds_contract obj t \<longleftrightarrow> stateObjects t = [(17, obj)] \<and> mhas (ResearchPreAlloc t) 17 \<and> so_address obj = 17 \<and> \<not> so_deleted obj \<and>
     so_code obj = Some [1] \<and> fakeStorage obj = None \<and> sa_Nonce (so_data obj) \<noteq> 0"

lemma contract_object:
  assumes "holds_contract obj t"
  shows "getStateObject 17 t = (Some obj, t)" "GetOrNewStateObject 17 t = (obj, t)"
  using assms
  by (simp_all add: holds_contract_def getStateObject_def getDeletedStateObject_def record_pre_def GetOrNewStateObject_def)

lemma contract_balance:
  assumes "holds_contract obj t"
  shows "sd_SubBalance 17 0 t = t" "sd_AddBalance 17 0 t = t"
  using assms contract_object [OF assms]
  by (simp_all add: holds_contract_def sd_SubBalance_def sd_AddBalance_def so_SubBalance_def so_AddBalance_def so_empty_def)

lemma contract_steps:
  assumes "holds_contract obj t"
  shows "Exist 17 t = (True, t)" "Transfer 17 17 0 t = t" "sd_GetCode 17 t = (Some [1], t)"
    "\<exists>h. GetCodeHash 17 t = (h, t)"
proof -
  note g = contract_object [OF assms]
  then show "Exist 17 t = (True, t)" "\<exists>h. GetCodeHash 17 t = (h, t)" by (simp_all add: Exist_def GetCodeHash_def)
  show "Transfer 17 17 0 t = t" by (simp add: Transfer_def contract_balance [OF assms])
  have "setStateObject obj t = t" using assms by (simp add: holds_contract_def setStateObject_def)
  then show "sd_GetCode 17 t = (Some [1], t)"
    using g assms by (simp add: holds_contract_def sd_GetCode_def read_object_def so_Code_def)
qed

lemma sample_holds: "holds_contract sample_contract sample_db"
  by (simp add: holds_contract_def sample_contract_simps sample_db_def mhas_def)

lemma holds_snapshot: "holds_contract obj t \<Longrightarrow> holds_contract obj (snd (sd_Snapshot t))"
  by (simp add: holds_contract_def sd_Snapshot_def Let_def)

lemma sample_start_db: "simulates sample_db (fresh_machine sample_db)"
proof (rule simulates_fresh)
  have "live sample_db = [17 \<mapsto> sample_contract]"
    by (auto simp: live_def sample_db_def state_New_def load_object_def sample_backend_def fun_eq_iff)
  moreover have "length (sa_CodeHash (so_data sample_contract)) = 32"
    by (simp add: sample_contract_def newObject_def zeroAccount_def Let_def emptyCodeHash_def length_Hash_Bytes)
  ultimately show "good sample_db"
    using sample_backend_ok al_ok_new
    by (auto simp: good_def world_ok_def sample_contract_simps)
      (simp_all add: sample_db_def state_New_def load_object_def sample_backend_def)
qed (simp_all add: sample_db_def state_New_def newJournal_def)

lemma contract_Call:
  assumes "holds_contract obj (evm_StateDB evm)" and "evm_depth evm \<le> CallCreateDepth" and "precompile env 17 = None"
  obtains c where "evm_Call env run (AccountRef 17) 17 input gas 0 evm =
      go_bind (run_recorded run c input False (push_frame (InternalTx 17 17 True (Some 0) ''Call'' input [] [])
          (evm\<lparr>evm_StateDB := snd (sd_Snapshot (evm_StateDB evm))\<rparr>)))
        (\<lambda>(r, evm'). finish_call (fst (sd_Snapshot (evm_StateDB evm))) r evm')"
    "c_Code c = [1]" "c_self c = 17" "c_Gas c = gas"
proof -
  obtain n t where sn: "sd_Snapshot (evm_StateDB evm) = (n, t)" by (cases "sd_Snapshot (evm_StateDB evm)")
  have "holds_contract obj t" using holds_snapshot [OF assms(1)] sn by simp
  note st = contract_steps [OF this]
  obtain h where h: "GetCodeHash 17 t = (h, t)" using st(4) by blast
  let ?c = "SetCallCode 17 h [1] (NewContract (AccountRef 17) 17 (Some 0) gas)"
  have "evm_Call env run (AccountRef 17) 17 input gas 0 evm =
      go_bind (run_recorded run ?c input False (push_frame (InternalTx 17 17 True (Some 0) ''Call'' input [] [])
        (evm\<lparr>evm_StateDB := t\<rparr>))) (\<lambda>(r, evm'). finish_call n r evm')"
    using sn st h assms(2,3)
    by (cases evm) (simp add: evm_Call_def ask_def tell_def Let_def code_bytes_def push_frame_def)
  then show thesis using that [of ?c] sn by (simp add: SetCallCode_def NewContract_def)
qed

lemma sample_Call:
  obtains c evm1 where "evm_Call sample_env run (AccountRef 17) 17 input gas 0 (NewEVM sample_db) =
      go_bind (run_recorded run c input False (push_frame (InternalTx 17 17 True (Some 0) ''Call'' input [] []) evm1))
        (\<lambda>(r, evm). finish_call 0 r evm)"
    "evm1 = (NewEVM sample_db)\<lparr>evm_StateDB := snd (sd_Snapshot sample_db)\<rparr>" "c_Code c = [1]" "c_self c = 17"
proof -
  have "fst (sd_Snapshot sample_db) = 0" by (simp add: sd_Snapshot_def Let_def sample_db_def state_New_def)
  then show thesis
    using contract_Call [of sample_contract "NewEVM sample_db" sample_env run input gas thesis] that sample_holds sample_precompile
    by (simp add: NewEVM_def)
qed

lemma evm_calls_unfold:
  "evm_calls env = evm_request env (evm_Run env (evm_calls_from (\<lambda>caller req evm. Inl (ExplicitPanic ''too deep'')) (Suc CallCreateDepth) env))"
  by (simp add: evm_calls_def)

lemma evm_calls_one:
  assumes "evm_calls env caller req evm = Inr (r, evm')"
  shows "one_record caller req evm evm'"
  using evm_request_one [OF evm_Run_ok [OF evm_calls_from_ok [OF panic_ok]]] assms unfolding evm_calls_unfold by blast

section \<open>The main properties\<close>

text \<open>
  Calls end. However the code of the contracts behaves, a chain of calls within calls is never deeper than
  the limit: the bound of the recursion is enough from depth 0 on, since neither a higher bound nor what would be
  answered beyond it changes anything.
\<close>

theorem evm_calls_end:
  assumes "evm_depth evm + n \<ge> CallCreateDepth + 2" and "n > 0"
  shows "evm_calls_from beyond n env caller req evm = evm_calls env caller req evm"
proof -
  let ?p = "\<lambda>(caller :: ContractRef) (req :: call_req) (evm :: EVM). Inl (ExplicitPanic ''too deep'') :: (call_res \<times> EVM) go"
  have "evm_calls_from ?p (max n (CallCreateDepth + 2)) env caller req evm = evm_calls_from b m env caller req evm"
    if "evm_depth evm + m \<ge> CallCreateDepth + 2" "m > 0" "m \<le> max n (CallCreateDepth + 2)" for m b
    using evm_calls_from_depth [OF panic_ok that(1,2), where k = "max n (CallCreateDepth + 2) - m" and beyond' = b] that(3) by simp
  from this [of n beyond] this [of "CallCreateDepth + 2" ?p] assms show ?thesis by (simp add: evm_calls_def)
qed

theorem evm_calls_end_witness:
  "evm_calls_from (\<lambda>caller req evm. Inl NilDereference) 2000 sample_env (AccountRef 17) (ReqCall 17 [] 10 0) (NewEVM sample_db) =
     evm_calls sample_env (AccountRef 17) (ReqCall 17 [] 10 0) (NewEVM sample_db)"
  by (rule evm_calls_end) (simp_all add: NewEVM_def CallCreateDepth_def)

text \<open>
  C15: the recorded tree is balanced. A call leaves the depth, the read-only mode and the call stack as they were,
  except that at most one record is added to the calls of the frame on top of the stack, or to the external
  transaction when the stack is empty, and that record has the caller, the recipient, the kind, the input and
  the value of the request.
\<close>

theorem evm_calls_recorded:
  assumes "evm_calls env caller req evm = Inr (r, evm')"
  shows "\<exists>ts. length ts \<le> 1 \<and> (\<forall>t \<in> set ts. record_of caller req t) \<and> recorded ts evm evm'"
  using evm_calls_one [OF assms] unfolding one_record_def by (auto intro: exI [of _ "[]"] exI [of _ "[_]"])

theorem evm_calls_recorded_witness:
  "\<exists>r evm' t. evm_calls sample_env (AccountRef 17) (ReqCall 17 [] 10 0) (NewEVM sample_db) = Inr (r, evm') \<and>
     record_of (AccountRef 17) (ReqCall 17 [] 10 0) t \<and> recorded [t] (NewEVM sample_db) evm' \<and> map ev_Address (Events t) = [17]"
proof -
  let ?n = "evm_calls_from (\<lambda>caller req evm. Inl (ExplicitPanic ''too deep'')) (Suc CallCreateDepth) sample_env"
  obtain c evm1 where c: "evm_Call sample_env (evm_Run sample_env ?n) (AccountRef 17) 17 [] 10 0 (NewEVM sample_db) =
      go_bind (run_recorded (evm_Run sample_env ?n) c [] False (push_frame (InternalTx 17 17 True (Some 0) ''Call'' [] [] []) evm1))
        (\<lambda>(r, evm). finish_call 0 r evm)"
    "evm1 = (NewEVM sample_db)\<lparr>evm_StateDB := snd (sd_Snapshot sample_db)\<rparr>" "c_Code c = [1]" "c_self c = 17"
    by (rule sample_Call)
  have "\<exists>r evm' t. evm_calls sample_env (AccountRef 17) (ReqCall 17 [] 10 0) (NewEVM sample_db) = Inr (r, evm') \<and>
      ex_InTxs (ExTx evm') = [t] \<and> map ev_Address (Events t) = [17]"
    unfolding evm_calls_unfold using c
    by (simp add: run_recorded_def evm_Run_def sample_env_def makeLogSu_def ask_def split_beta set_events_def pop_frame_def push_frame_def
        NewEVM_def Let_def finish_call_def itx_set_events_def)
  then obtain r evm' t where e: "evm_calls sample_env (AccountRef 17) (ReqCall 17 [] 10 0) (NewEVM sample_db) = Inr (r, evm')"
    "ex_InTxs (ExTx evm') = [t]" "map ev_Address (Events t) = [17]" by (elim exE conjE)
  obtain ts where "\<forall>t \<in> set ts. record_of (AccountRef 17) (ReqCall 17 [] 10 0) t" "recorded ts (NewEVM sample_db) evm'"
    using evm_calls_recorded [OF e(1)] by blast
  moreover from this have "ts = [t]" using e(2) by (simp add: recorded_def NewEVM_def)
  ultimately show ?thesis using e by auto
qed

end
