(* ===== verification/Evm_Revert.thy ===== *)
theory Evm_Revert
  imports Evm_Record
begin

text \<open>
  A call that fails leaves no trace in the world: its own snapshot is still valid when it ends, whatever the
  contract and the contracts it called did in between.
\<close>

section \<open>What the code of a contract may do\<close>

text \<open>No instruction takes a snapshot or goes back to one.\<close>

fun plain_op :: "state_op \<Rightarrow> bool" where
  "plain_op OpSnapshot = False"
| "plain_op (OpRevert i) = False"
| "plain_op _ = True"

primrec opcode_frame :: "frame \<Rightarrow> bool" where
  "opcode_frame (Halt ret err gas) = True"
| "opcode_frame (Abort err gas) = True"
| "opcode_frame (Op x k) = (plain_op x \<and> (\<forall>a. opcode_frame (k a)))"
| "opcode_frame (Emit topics d gas k) = opcode_frame k"
| "opcode_frame (DoCall req k) = (\<forall>r. opcode_frame (k r))"
| "opcode_frame (Crash p) = True"

definition opcodes :: "evm_env \<Rightarrow> bool" where
  "opcodes env \<longleftrightarrow> (\<forall>c input ro. opcode_frame (ee_code env c input ro))"

section \<open>Steps of the machine\<close>

text \<open>A step of the state under which the saved worlds stay, and one that changes nothing.\<close>

definition moves :: "StateDB \<Rightarrow> StateDB \<Rightarrow> bool" where
  "moves s s' \<longleftrightarrow> (\<forall>m. simulates s m \<longrightarrow> (\<exists>m'. simulates s' m' \<and> m_saved m' = m_saved m))"

definition looks :: "StateDB \<Rightarrow> StateDB \<Rightarrow> bool" where
  "looks s s' \<longleftrightarrow> (\<forall>m. simulates s m \<longrightarrow> (\<exists>m'. simulates s' m' \<and> m_saved m' = m_saved m \<and> m_world m' = m_world m))"

definition safe :: "StateDB \<Rightarrow> StateDB \<Rightarrow> bool" where
  "safe s s' \<longleftrightarrow> (\<forall>m. simulates s m \<longrightarrow> (\<exists>m' l. simulates s' m' \<and> m_saved m' = m_saved m @ l))"

lemma looks_moves: "looks s s' \<Longrightarrow> moves s s'"
  unfolding looks_def moves_def by blast

lemma moves_safe: "moves s s' \<Longrightarrow> safe s s'"
  unfolding moves_def safe_def by (metis append_Nil2)

lemma moves_refl [simp]: "moves s s"
  unfolding moves_def by blast

lemma looks_refl [simp]: "looks s s"
  unfolding looks_def by blast

lemma moves_trans: "moves s t \<Longrightarrow> moves t u \<Longrightarrow> moves s u"
  unfolding moves_def by metis

lemma looks_trans: "looks s t \<Longrightarrow> looks t u \<Longrightarrow> looks s u"
  unfolding looks_def by metis

lemma safe_trans: "safe s t \<Longrightarrow> safe t u \<Longrightarrow> safe s u"
  unfolding safe_def by (metis append_assoc)

lemma plain_exec:
  assumes "plain_op x" and "exec_op x s = Inr (r, s')" and "simulates s m"
  obtains w where "a_basic x (m_world m) = Some (r, w)" "simulates s' (m\<lparr>m_world := w\<rparr>)"
proof -
  have "\<exists>m'. a_exec x m = Some (r, m') \<and> simulates s' m'" using exec_simulates [OF assms(3), of x] assms(2) by simp
  moreover have "a_exec x m = map_option (\<lambda>(r, w). (r, m\<lparr>m_world := w\<rparr>)) (a_basic x (m_world m))"
    using assms(1) by (cases x) simp_all
  ultimately show thesis using that by auto
qed

lemma plain_moves: "plain_op x \<Longrightarrow> exec_op x s = Inr (r, s') \<Longrightarrow> moves s s'"
  unfolding moves_def using plain_exec by (metis machine.select_convs(2) machine.update_convs(1) machine.surjective)

lemma plain_looks:
  assumes "plain_op x" and "exec_op x s = Inr (r, s')" and "\<And>w r w'. a_basic x w = Some (r, w') \<Longrightarrow> w' = w"
  shows "looks s s'"
proof -
  have "\<exists>m'. simulates s' m' \<and> m_saved m' = m_saved m \<and> m_world m' = m_world m" if k: "simulates s m" for m
  proof -
    obtain w where "a_basic x (m_world m) = Some (r, w)" "simulates s' (m\<lparr>m_world := w\<rparr>)"
      using plain_exec [OF assms(1,2) k] .
    then show ?thesis using assms(3) by (intro exI [of _ "m\<lparr>m_world := w\<rparr>"]) auto
  qed
  then show ?thesis unfolding looks_def by blast
qed

lemma looks_reads:
  "looks s (snd (GetBalance a s))" "looks s (snd (GetNonce a s))" "looks s (snd (Exist a s))" "looks s (snd (sd_GetCode a s))"
  "looks s (snd (GetCodeHash a s))" "looks s (snd (CanTransfer a v s))"
  using plain_looks [of "OpGetBalance a" s] plain_looks [of "OpGetNonce a" s] plain_looks [of "OpExist a" s]
    plain_looks [of "OpGetCode a" s] plain_looks [of "OpGetCodeHash a" s]
  by (auto simp: answering_def CanTransfer_def split_beta)

lemma moves_writes:
  "moves s (sd_AddBalance a b s)" "moves s (sd_SubBalance a b s)" "moves s (sd_SetNonce a n s)" "moves s (sd_SetCode a c s)"
  "moves s (CreateAccount a s)" "moves s (AddAddressToAccessList a s)" "moves s (snd (AddLog l s))"
  using plain_moves [of "OpAddBalance a b" s] plain_moves [of "OpSubBalance a b" s] plain_moves [of "OpSetNonce a n" s]
    plain_moves [of "OpSetCode a c" s] plain_moves [of "OpCreateAccount a" s] plain_moves [of "OpAddAddress a" s]
    plain_moves [of "OpAddLog l" s]
  by (auto simp: silent_def answering_def)

lemma moves_Transfer: "moves s (Transfer a b v s)"
  unfolding Transfer_def by (rule moves_trans [OF moves_writes(2) moves_writes(1)])

section \<open>Snapshots\<close>

lemma saved_below:
  assumes "simulates s m" and "(i, w) \<in> set (m_saved m)"
  shows "i < m_next m"
proof -
  have a: "list_all2 (saved_by s) (validRevisions s) (m_saved m)" "m_next m = nextRevisionId s"
    "\<forall>r \<in> set (validRevisions s). fst r < nextRevisionId s"
    using assms(1) by (auto simp: simulates_def revisions_ok_def)
  obtain j where j: "j < length (m_saved m)" "m_saved m ! j = (i, w)" using assms(2) by (auto simp: in_set_conv_nth)
  then have "j < length (validRevisions s)" "saved_by s (validRevisions s ! j) (i, w)"
    using list_all2_lengthD [OF a(1)] list_all2_nthD2 [OF a(1), of j] by auto
  then show ?thesis using a(2,3) by (auto simp: saved_by_def)
qed

lemma snapshot_saves:
  assumes "simulates s m" and "sd_Snapshot s = (n, s')"
  obtains m' where "simulates s' m'" "m_saved m' = m_saved m @ [(n, m_world m)]" "n \<notin> fst ` set (m_saved m)"
proof -
  obtain m' where m': "a_exec OpSnapshot m = Some (ANat n, m')" "simulates s' m'"
    using simulates_snapshot [OF assms(1)] assms(2) by auto
  then have "n = m_next m" "m_saved m' = m_saved m @ [(n, m_world m)]" by auto
  then show thesis using that [OF m'(2)] saved_below [OF assms(1)] by fastforce
qed

lemma revert_restores:
  assumes "simulates s m" and "m_saved m = l1 @ [(n, w)] @ l2" and "n \<notin> fst ` set l1"
  obtains s' m' where "RevertToSnapshot n s = Inr s'" "simulates s' m'" "m_world m' = w" "m_saved m' = l1"
proof -
  have "map_of l1 n = None" using assms(3) by (simp add: map_of_eq_None_iff)
  then have "map_of (m_saved m) n = Some w" using assms(2) by (simp add: map_add_def)
  then have a: "a_exec (OpRevert n) m = Some (Done, m\<lparr>m_world := w, m_saved := takeWhile (\<lambda>r. fst r \<noteq> n) (m_saved m)\<rparr>)"
    by simp
  have "takeWhile (\<lambda>r. fst r \<noteq> n) (m_saved m) = l1"
    using assms(2,3) by (subst assms(2), subst takeWhile_append2) (auto simp: image_iff)
  then show thesis
    using simulates_revert [OF assms(1), of n] a that by (auto split: sum.splits)
qed

section \<open>Frames\<close>

lemma state_push [simp]: "evm_StateDB (push_frame t evm) = evm_StateDB evm"
  by (simp add: push_frame_def)

lemma state_stack:
  "set_events evs evm = Inr evm' \<Longrightarrow> evm_StateDB evm' = evm_StateDB evm"
  "pop_frame evm = Inr evm' \<Longrightarrow> evm_StateDB evm' = evm_StateDB evm"
  "add_leaf t evm = Inr evm' \<Longrightarrow> evm_StateDB evm' = evm_StateDB evm"
  by (auto simp: set_events_def pop_frame_def add_leaf_def Let_def split: if_splits)

lemma state_ask: "ask f evm = (r, evm') \<Longrightarrow> f (evm_StateDB evm) = (r, evm_StateDB evm')"
  by (auto simp: ask_def split: prod.splits)

lemma state_tell [simp]: "evm_StateDB (tell f evm) = f (evm_StateDB evm)"
  by (simp add: tell_def)

lemma ask_looks: "ask f evm = (r, evm') \<Longrightarrow> (\<And>s. looks s (snd (f s))) \<Longrightarrow> looks (evm_StateDB evm) (evm_StateDB evm')"
proof -
  assume "ask f evm = (r, evm')" and l: "\<And>s. looks s (snd (f s))"
  then have "evm_StateDB evm' = snd (f (evm_StateDB evm))" using state_ask by fastforce
  then show ?thesis using l by simp
qed

lemma ask_reads:
  "ask (GetBalance a) evm = (b, evm') \<Longrightarrow> looks (evm_StateDB evm) (evm_StateDB evm')"
  "ask (GetNonce a) evm = (n, evm') \<Longrightarrow> looks (evm_StateDB evm) (evm_StateDB evm')"
  "ask (Exist a) evm = (ex, evm') \<Longrightarrow> looks (evm_StateDB evm) (evm_StateDB evm')"
  "ask (sd_GetCode a) evm = (c, evm') \<Longrightarrow> looks (evm_StateDB evm) (evm_StateDB evm')"
  "ask (GetCodeHash a) evm = (h, evm') \<Longrightarrow> looks (evm_StateDB evm) (evm_StateDB evm')"
  "ask (CanTransfer a v) evm = (ex, evm') \<Longrightarrow> looks (evm_StateDB evm) (evm_StateDB evm')"
  by (erule ask_looks, rule looks_reads)+

definition run_safe :: "run_fn \<Rightarrow> bool" where
  "run_safe run \<longleftrightarrow> (\<forall>c input ro evm r evm'. run c input ro evm = Inr (r, evm') \<longrightarrow> safe (evm_StateDB evm) (evm_StateDB evm'))"

definition call_safe :: "call_fn \<Rightarrow> bool" where
  "call_safe call \<longleftrightarrow> (\<forall>caller req evm r evm'. call caller req evm = Inr (r, evm') \<longrightarrow> safe (evm_StateDB evm) (evm_StateDB evm'))"

lemma safe_refl [simp]: "safe s s"
  by (rule moves_safe) simp

lemma run_frame_safe:
  assumes "call_safe call" and "opcode_frame f" and "run_frame env call c f events evm = Inr (r, evm')"
  shows "safe (evm_StateDB evm) (evm_StateDB evm')"
  using assms(2,3)
proof (induction f arbitrary: events evm)
  case (Halt ret err gas)
  then show ?case by (auto elim!: go_bind_InrE dest: state_stack)
next
  case (Op x k)
  then obtain a s where k: "exec_op x (evm_StateDB evm) = Inr (a, s)" "run_frame env call c (k a) events (evm\<lparr>evm_StateDB := s\<rparr>) = Inr (r, evm')"
    by (auto elim!: go_bind_InrE)
  have "safe (evm_StateDB evm) s" using plain_moves [OF _ k(1)] Op.prems(1) moves_safe by simp
  moreover have "safe s (evm_StateDB evm')" using Op.IH [OF _ _ k(2)] Op.prems(1) by simp
  ultimately show ?case by (rule safe_trans)
next
  case (Emit topics d gas k)
  show ?case
  proof (cases "in_readOnly evm")
    case True
    then show ?thesis using Emit.prems by (auto elim!: go_bind_InrE dest: state_stack)
  next
    case False
    obtain e evm1 where m: "makeLogSu env (c_self c) topics d evm = (e, evm1)" by (cases "makeLogSu env (c_self c) topics d evm")
    then obtain l where "evm_StateDB evm1 = snd (AddLog l (evm_StateDB evm))"
      by (auto simp: makeLogSu_def ask_def split_beta)
    then have "safe (evm_StateDB evm) (evm_StateDB evm1)" using moves_writes(7) moves_safe by simp
    moreover have "safe (evm_StateDB evm1) (evm_StateDB evm')" using Emit.IH [of "events @ [e]" evm1] Emit.prems False m by simp
    ultimately show ?thesis by (rule safe_trans)
  qed
next
  case (DoCall req k)
  then obtain a evm1 where k: "call (ContractRef c) req evm = Inr (a, evm1)" "run_frame env call c (k a) events evm1 = Inr (r, evm')"
    by (auto elim!: go_bind_InrE)
  have "safe (evm_StateDB evm) (evm_StateDB evm1)" using assms(1) k(1) unfolding call_safe_def by blast
  moreover have "safe (evm_StateDB evm1) (evm_StateDB evm')" using DoCall.IH [OF _ _ k(2)] DoCall.prems(1) by simp
  ultimately show ?case by (rule safe_trans)
qed auto

lemma evm_Run_safe:
  assumes "opcodes env" and "call_safe call"
  shows "run_safe (evm_Run env call)"
proof -
  have "safe (evm_StateDB evm) (evm_StateDB evm')" if r: "evm_Run env call c input ro evm = Inr (r, evm')" for c input ro evm r evm'
    using r
  proof (cases rule: evm_Run_E)
    case (1 evm0 evm1)
    have "safe (evm_StateDB evm0) (evm_StateDB evm1)"
      using 1(2)
    proof (elim disjE conjE)
      assume "run_frame env call c (ee_code env c input (in_readOnly evm0)) [] evm0 = Inr (r, evm1)"
      then show ?thesis by (rule run_frame_safe [OF assms(2), rotated]) (use assms(1) in \<open>simp add: opcodes_def\<close>)
    qed simp
    then show ?thesis using 1(1,3) by simp
  qed
  then show ?thesis unfolding run_safe_def by blast
qed

section \<open>Calls\<close>

text \<open>The saved worlds stay, and an error takes the world back to where the call began.\<close>

definition undone :: "EVM \<Rightarrow> call_res \<Rightarrow> EVM \<Rightarrow> bool" where
  "undone evm r evm' \<longleftrightarrow> (\<forall>m. simulates (evm_StateDB evm) m \<longrightarrow>
     (\<exists>m' l. simulates (evm_StateDB evm') m' \<and> m_saved m' = m_saved m @ l \<and> (cr_err r \<noteq> None \<longrightarrow> m_world m' = m_world m)))"

lemma undone_looks: "looks (evm_StateDB evm) (evm_StateDB evm') \<Longrightarrow> undone evm r evm'"
  unfolding undone_def looks_def by (metis append_Nil2)

lemma undone_after_looks:
  assumes "looks (evm_StateDB evm) (evm_StateDB evm1)" and "undone evm1 r evm'"
  shows "undone evm r evm'"
  using assms unfolding undone_def looks_def by metis

lemma undone_finish:
  assumes "ask sd_Snapshot evm = (n, evm1)" and "safe (evm_StateDB evm1) (evm_StateDB evm2)" and "finish_call n r1 evm2 = Inr (r, evm')"
  shows "undone evm r evm'"
proof -
  have "\<exists>m' l. simulates (evm_StateDB evm') m' \<and> m_saved m' = m_saved m @ l \<and> (cr_err r \<noteq> None \<longrightarrow> m_world m' = m_world m)"
    if m: "simulates (evm_StateDB evm) m" for m
  proof -
    obtain m1 where m1: "simulates (evm_StateDB evm1) m1" "m_saved m1 = m_saved m @ [(n, m_world m)]" "n \<notin> fst ` set (m_saved m)"
      using snapshot_saves [OF m state_ask [OF assms(1)]] .
    obtain m2 l where m2: "simulates (evm_StateDB evm2) m2" "m_saved m2 = m_saved m1 @ l"
      using assms(2) m1(1) unfolding safe_def by blast
    obtain ret err gas where r1: "r1 = (ret, err, gas)" by (cases r1)
    show ?thesis
    proof (cases err)
      case None
      then have "evm' = evm2" "cr_err r = None" using assms(3) r1 by (auto simp: finish_call_def)
      then show ?thesis using m2 m1(2) by auto
    next
      case (Some e)
      obtain s' m' where "RevertToSnapshot n (evm_StateDB evm2) = Inr s'" "simulates s' m'" "m_world m' = m_world m" "m_saved m' = m_saved m"
        using revert_restores [OF m2(1), of "m_saved m" n "m_world m" l] m2(2) m1(2,3) by auto
      then show ?thesis using assms(3) r1 Some by (auto simp: finish_call_def)
    qed
  qed
  then show ?thesis unfolding undone_def by blast
qed

lemma call_body_safe:
  assumes "run_safe run" and "call_body run p input gas evm1 c ro evm2 = Inr (r, evm')" and "safe (evm_StateDB evm1) (evm_StateDB evm2)"
  shows "safe (evm_StateDB evm1) (evm_StateDB evm')"
proof (cases p)
  case None
  then obtain evm3 where "run c input ro evm2 = Inr (r, evm3)" "pop_frame evm3 = Inr evm'"
    using assms(2) by (auto simp: call_body_def run_recorded_def elim!: go_bind_InrE)
  then have "safe (evm_StateDB evm2) (evm_StateDB evm')" using assms(1) state_stack(2) unfolding run_safe_def by metis
  then show ?thesis using assms(3) safe_trans by blast
next
  case (Some q)
  then show ?thesis using assms(2) by (simp add: call_body_def)
qed

lemma evm_CallCode_undone:
  assumes "run_safe run" and "evm_CallCode env run caller addr input gas v evm = Inr (r, evm')"
  shows "undone evm r evm'"
  using assms(2)
proof (cases rule: evm_CallCode_E)
  case (refused can)
  then show ?thesis using undone_looks [of evm evm'] ask_reads(6) by auto
next
  case (run can evm1 n evm2 h evm3 code evm4 r1 evm5)
  have "safe (evm_StateDB evm2) (evm_StateDB evm4)"
    using ask_reads(5) [OF run(3)] ask_reads(4) [OF run(4)] looks_trans looks_moves moves_safe by fastforce
  then have "safe (evm_StateDB evm2) (evm_StateDB evm5)" by (rule call_body_safe [OF assms(1) run(5)])
  then have "undone evm1 r evm'" using undone_finish run(2,6) by blast
  then show ?thesis using undone_after_looks ask_reads(6) [OF run(1)] by blast
qed

lemma evm_DelegateCall_undone:
  assumes "run_safe run" and "evm_DelegateCall env run caller addr input gas evm = Inr (r, evm')"
  shows "undone evm r evm'"
  using assms(2)
proof (cases rule: evm_DelegateCall_E)
  case refused
  then show ?thesis by (simp add: undone_looks)
next
  case (run n evm2 h evm3 code evm4 c r1 evm5)
  have "safe (evm_StateDB evm2) (evm_StateDB evm4)"
    using ask_reads(5) [OF run(2)] ask_reads(4) [OF run(3)] looks_trans looks_moves moves_safe by fastforce
  then have "safe (evm_StateDB evm2) (evm_StateDB evm5)" by (rule call_body_safe [OF assms(1) run(4)])
  then show ?thesis using undone_finish run(1,6) by blast
qed

lemma evm_StaticCall_undone:
  assumes "run_safe run" and "evm_StaticCall env run caller addr input gas evm = Inr (r, evm')"
  shows "undone evm r evm'"
  using assms(2)
proof (cases rule: evm_StaticCall_E)
  case refused
  then show ?thesis by (simp add: undone_looks)
next
  case (run n evm1 evm2 h evm3 code evm4 r1 evm5)
  have "safe (evm_StateDB evm1) (evm_StateDB evm2)" using run(2) moves_writes(1) moves_safe by simp
  moreover have "safe (evm_StateDB evm2) (evm_StateDB evm4)"
    using ask_reads(5) [OF run(3)] ask_reads(4) [OF run(4)] looks_trans looks_moves moves_safe by fastforce
  then have "safe (evm_StateDB evm2) (evm_StateDB evm5)" by (rule call_body_safe [OF assms(1) run(5)])
  ultimately show ?thesis using undone_finish [OF run(1) _ run(6)] safe_trans by blast
qed

lemma evm_Call_undone:
  assumes "run_safe run" and "evm_Call env run caller addr input gas v evm = Inr (r, evm')"
  shows "undone evm r evm'"
  using assms(2)
proof (cases rule: evm_Call_E)
  case (refused can)
  then show ?thesis using undone_looks [of evm evm'] ask_reads(6) by auto
next
  case (absent can evm1 n evm2 ex)
  have "looks (evm_StateDB evm) (evm_StateDB evm1)" using absent(1) ask_reads(6) by auto
  moreover have "safe (evm_StateDB evm2) (evm_StateDB evm')" using ask_reads(3) [OF absent(3)] looks_moves moves_safe by blast
  then have "undone evm1 r evm'" by (rule undone_finish [OF absent(2), where ?r1.0 = "(None, None, gas)"]) (simp add: finish_call_def absent(4))
  ultimately show ?thesis by (rule undone_after_looks)
next
  case (run can evm1 n evm2 ex evm3 evm4 code evm5 h evm6 r1 evm7)
  have l: "looks (evm_StateDB evm) (evm_StateDB evm1)" using run(1) ask_reads(6) by auto
  have "safe (evm_StateDB evm2) (evm_StateDB evm3)" using ask_reads(3) [OF run(3)] looks_moves moves_safe by blast
  moreover have "safe (evm_StateDB evm3) (evm_StateDB evm4)"
    using run(4) moves_trans [OF moves_writes(5) moves_Transfer] moves_Transfer moves_safe by auto
  ultimately have s4: "safe (evm_StateDB evm2) (evm_StateDB evm4)" by (rule safe_trans)
  have s5: "safe (evm_StateDB evm4) (evm_StateDB evm5)" "safe (evm_StateDB evm5) (evm_StateDB evm6)"
    using ask_reads(4) [OF run(5)] ask_reads(5) [OF run(6)] looks_moves moves_safe by fastforce+
  have "safe (evm_StateDB evm4) (evm_StateDB evm7)"
    using run(7)
  proof (elim disjE conjE)
    assume "add_leaf (InternalTx (Ref_Address caller) addr False (Some v) ''Call'' input [] []) evm5 = Inr evm7"
    then show ?thesis using s5(1) state_stack(3) by metis
  qed (rule call_body_safe [OF assms(1) _ safe_trans [OF s5]])
  then have "undone evm1 r evm'" using undone_finish [OF run(2) _ run(8)] safe_trans [OF s4] by blast
  then show ?thesis using l undone_after_looks by blast
qed

section \<open>Creations\<close>

text \<open>A creation that fails has used up a nonce of its creator, and keeps its address in the access list.\<close>

definition bumped :: "Rules \<Rightarrow> Address \<Rightarrow> Address \<Rightarrow> world \<Rightarrow> world" where
  "bumped rules from address w =
     (let w = a_change from (set_nonce (a_read 0 (\<lambda>x. sa_Nonce (a_data x)) from w + 1)) w
      in if IsBerlin rules then w\<lparr>w_accessList := snd (AddAddress address (w_accessList w))\<rparr> else w)"

lemma bump_run:
  assumes "simulates s m" and "GetNonce from s = (nonce, s1)"
    and "s2 = (if IsBerlin rules then AddAddressToAccessList address else id) (sd_SetNonce from (nonce + 1) s1)"
  shows "simulates s2 (m\<lparr>m_world := bumped rules from address (m_world m)\<rparr>)"
proof -
  have "exec_op (OpGetNonce from) s = Inr (AWord nonce, s1)" using assms(2) by (simp add: answering_def)
  from plain_exec [OF _ this assms(1)] have n: "nonce = a_read 0 (\<lambda>x. sa_Nonce (a_data x)) from (m_world m)" "simulates s1 m"
    by auto
  let ?w = "a_change from (set_nonce (nonce + 1)) (m_world m)"
  have "exec_op (OpSetNonce from (nonce + 1)) s1 = Inr (Done, sd_SetNonce from (nonce + 1) s1)" by (simp add: silent_def)
  from plain_exec [OF _ this n(2)] have w: "simulates (sd_SetNonce from (nonce + 1) s1) (m\<lparr>m_world := ?w\<rparr>)" by auto
  have "exec_op (OpAddAddress address) (sd_SetNonce from (nonce + 1) s1) =
      Inr (Done, AddAddressToAccessList address (sd_SetNonce from (nonce + 1) s1))" by (simp add: silent_def)
  from plain_exec [OF _ this w] have "simulates (AddAddressToAccessList address (sd_SetNonce from (nonce + 1) s1))
      (m\<lparr>m_world := ?w\<lparr>w_accessList := snd (AddAddress address (w_accessList ?w))\<rparr>\<rparr>)" by auto
  then show ?thesis using w assms(3) n(1) by (simp add: bumped_def Let_def)
qed

definition creation_undone :: "Rules \<Rightarrow> Address \<Rightarrow> Address \<Rightarrow> EVM \<Rightarrow> call_res \<Rightarrow> EVM \<Rightarrow> bool" where
  "creation_undone rules from address evm r evm' \<longleftrightarrow> (\<forall>m. simulates (evm_StateDB evm) m \<longrightarrow>
     (\<exists>m' l. simulates (evm_StateDB evm') m' \<and> m_saved m' = m_saved m @ l \<and>
        (cr_err r \<noteq> None \<and> IsHomestead rules \<longrightarrow> m_world m' \<in> {m_world m, bumped rules from address (m_world m)})))"

lemma finish_create_restores:
  assumes "simulates (evm_StateDB evm1) m1" and "m_saved m1 = l1 @ [(n, w)] @ l" and "n \<notin> fst ` set l1"
    and "finish_create rules address n r1 evm1 = Inr (r, evm')"
  shows "\<exists>m' l'. simulates (evm_StateDB evm') m' \<and> m_saved m' = l1 @ l' \<and> (cr_err r \<noteq> None \<and> IsHomestead rules \<longrightarrow> m_world m' = w)"
proof -
  obtain ret err gas where r1: "r1 = (ret, err, gas)" by (cases r1)
  show ?thesis
  proof (cases "err \<noteq> None \<and> (IsHomestead rules \<or> err \<noteq> Some ErrCodeStoreOutOfGas)")
    case True
    obtain s' m' where "RevertToSnapshot n (evm_StateDB evm1) = Inr s'" "simulates s' m'" "m_world m' = w" "m_saved m' = l1"
      using revert_restores [OF assms(1-3)] .
    then show ?thesis using assms(4) r1 True by (auto simp: finish_create_def)
  next
    case False
    then have "evm' = evm1" "cr_err r = err" using assms(4) r1 by (auto simp: finish_create_def)
    then show ?thesis using assms(1,2) False by auto
  qed
qed

lemma create_prelude_moves: "moves (evm_StateDB evm) (evm_StateDB (create_prelude rules from address v evm))"
  using moves_trans [OF moves_trans [OF moves_writes(5) moves_writes(3)] moves_Transfer] moves_trans [OF moves_writes(5) moves_Transfer]
  by (simp add: create_prelude_def Let_def)

lemma store_created_moves: "store_created a r evm = (r', evm') \<Longrightarrow> moves (evm_StateDB evm) (evm_StateDB evm')"
  by (auto simp: store_created_def intro: moves_writes(4) split: prod.splits if_splits bool.splits)

lemma run_recorded_safe:
  assumes "run_safe run" and "run_recorded run c input ro evm = Inr (r, evm')"
  shows "safe (evm_StateDB evm) (evm_StateDB evm')"
  using call_body_safe [OF assms(1), where p = None and ?evm1.0 = evm and ?evm2.0 = evm] assms(2) by (simp add: call_body_def)

lemma evm_create_undone:
  assumes "run_safe run" and "evm_create env run caller code h gas v address evm = Inr (r, evm')"
  shows "creation_undone (ee_rules env) (Ref_Address caller) address evm r evm'"
  using assms(2)
proof (cases rule: evm_create_E)
  case (1 can evm1 nonce evm2 evm3 ch evm4 there evm5 n evm6)
  let ?from = "Ref_Address caller" and ?rules = "ee_rules env"
  let ?e = "create_prelude ?rules ?from address v evm6" and ?t = "InternalTx ?from address True (Some v) ''Create'' [] [] []"
  have "\<exists>m' l. simulates (evm_StateDB evm') m' \<and> m_saved m' = m_saved m @ l \<and>
      (cr_err r \<noteq> None \<and> IsHomestead ?rules \<longrightarrow> m_world m' \<in> {m_world m, bumped ?rules ?from address (m_world m)})"
    if m: "simulates (evm_StateDB evm) m" for m
  proof -
    obtain m1 where m1: "simulates (evm_StateDB evm1) m1" "m_saved m1 = m_saved m" "m_world m1 = m_world m"
      using ask_reads(6) [OF 1(1)] m unfolding looks_def by blast
    obtain m2 where m2: "simulates (evm_StateDB evm2) m2" "m_saved m2 = m_saved m" "m_world m2 = m_world m"
      using ask_reads(2) [OF 1(2)] m1 unfolding looks_def by metis
    define m3 where "m3 = m1\<lparr>m_world := bumped ?rules ?from address (m_world m1)\<rparr>"
    have "simulates (evm_StateDB evm3) m3"
      unfolding m3_def by (rule bump_run [OF m1(1) state_ask [OF 1(2)]]) (use 1(3) in simp)
    moreover have "looks (evm_StateDB evm3) (evm_StateDB evm5)"
      using ask_reads(5) [OF 1(4)] ask_reads(2) [OF 1(5)] looks_trans by blast
    ultimately obtain m5 where m5: "simulates (evm_StateDB evm5) m5" "m_saved m5 = m_saved m"
      "m_world m5 = bumped ?rules ?from address (m_world m)"
      using m1 unfolding looks_def m3_def by fastforce
    from 1(7) show ?thesis
    proof (elim disjE conjE exE)
      assume "evm' \<in> {evm, evm1, evm2, evm5}"
      then show ?thesis using m m1 m2 m5 by (auto intro: exI [of _ "[]"])
    next
      fix r1 evm8 r2 evm9
      assume k: "run_recorded run (SetCallCode address h code (NewContract caller address (Some v) gas)) [] False (push_frame ?t ?e) = Inr (r1, evm8)"
        and st: "store_created address (check_created ?rules r1) evm8 = (r2, evm9)"
        and f: "finish_create ?rules address n r2 evm9 = Inr (r, evm')"
      obtain m6 where m6: "simulates (evm_StateDB evm6) m6" "m_saved m6 = m_saved m5 @ [(n, m_world m5)]" "n \<notin> fst ` set (m_saved m5)"
        using snapshot_saves [OF m5(1) state_ask [OF 1(6)]] .
      have "safe (evm_StateDB evm6) (evm_StateDB evm8)"
        using safe_trans [OF moves_safe [OF create_prelude_moves]] run_recorded_safe [OF assms(1) k] by simp
      then have "safe (evm_StateDB evm6) (evm_StateDB evm9)" using safe_trans moves_safe [OF store_created_moves [OF st]] by blast
      then obtain m9 l where m9: "simulates (evm_StateDB evm9) m9" "m_saved m9 = m_saved m5 @ [(n, m_world m5)] @ l"
        using m6(1,2) unfolding safe_def by fastforce
      from finish_create_restores [OF m9 m6(3) f] show ?thesis using m5 by auto
    qed
  qed
  then show ?thesis unfolding creation_undone_def by blast
qed

section \<open>Calls within calls\<close>

fun is_create :: "call_req \<Rightarrow> bool" where
  "is_create (ReqCreate code gas v) = True"
| "is_create (ReqCreate2 code gas v salt) = True"
| "is_create _ = False"

lemma evm_request_undone:
  assumes "run_safe run" and "evm_request env run caller req evm = Inr (r, evm')"
  shows "if is_create req then \<exists>address. creation_undone (ee_rules env) (Ref_Address caller) address evm r evm' else undone evm r evm'"
proof (cases req)
  case (ReqCreate code gas v)
  obtain nonce evm1 where a: "ask (GetNonce (Ref_Address caller)) evm = (nonce, evm1)" by (cases "ask (GetNonce (Ref_Address caller)) evm")
  then obtain address where "evm_create env run caller code 0 gas v address evm1 = Inr (r, evm')"
    using assms(2) ReqCreate by (auto simp: evm_Create_def Let_def)
  then have c: "creation_undone (ee_rules env) (Ref_Address caller) address evm1 r evm'" by (rule evm_create_undone [OF assms(1)])
  have "creation_undone (ee_rules env) (Ref_Address caller) address evm r evm'"
    using c ask_reads(2) [OF a] unfolding creation_undone_def looks_def by metis
  then show ?thesis using ReqCreate by auto
next
  case (ReqCreate2 code gas v salt)
  then obtain address h where "evm_create env run caller code h gas v address evm = Inr (r, evm')"
    using assms(2) by (auto simp: evm_Create2_def Let_def)
  from evm_create_undone [OF assms(1) this] show ?thesis using ReqCreate2 by auto
qed (use assms evm_Call_undone evm_CallCode_undone evm_DelegateCall_undone evm_StaticCall_undone in auto)

lemma undone_safe: "undone evm r evm' \<Longrightarrow> safe (evm_StateDB evm) (evm_StateDB evm')"
  "creation_undone rules from address evm r evm' \<Longrightarrow> safe (evm_StateDB evm) (evm_StateDB evm')"
  unfolding undone_def creation_undone_def safe_def by blast+

lemma evm_calls_from_safe: "opcodes env \<Longrightarrow> call_safe beyond \<Longrightarrow> call_safe (evm_calls_from beyond n env)"
proof (induction n)
  case (Suc n)
  have r: "run_safe (evm_Run env (evm_calls_from beyond n env))" by (rule evm_Run_safe [OF Suc.prems(1) Suc.IH [OF Suc.prems]])
  have "safe (evm_StateDB evm) (evm_StateDB evm')" if "evm_calls_from beyond (Suc n) env caller req evm = Inr (x, evm')" for caller req evm x evm'
    using evm_request_undone [OF r] that undone_safe by (cases "is_create req") fastforce+
  then show ?case unfolding call_safe_def by blast
qed simp

text \<open>
  C16: a failed call leaves no trace. Whatever the code of the contracts does, except for taking snapshots itself,
  a call that returns an error leaves accounts, storage, logs, refunds and the access list as they were before the
  call, including all that calls within it did; a failed creation (from Homestead on) leaves at most the nonce of
  the creator one higher and the address of the contract in the access list.
\<close>

theorem failed_calls_restore:
  assumes "opcodes env" and "simulates (evm_StateDB evm) m" and "evm_calls env caller req evm = Inr (r, evm')" and "cr_err r \<noteq> None"
  shows "if is_create req
    then IsHomestead (ee_rules env) \<longrightarrow> (\<exists>address. state_view (evm_StateDB evm') \<in>
      {state_view (evm_StateDB evm), bumped (ee_rules env) (Ref_Address caller) address (state_view (evm_StateDB evm))})
    else state_view (evm_StateDB evm') = state_view (evm_StateDB evm)"
proof -
  let ?p = "\<lambda>(caller :: ContractRef) (req :: call_req) (evm :: EVM). Inl (ExplicitPanic ''too deep'') :: (call_res \<times> EVM) go"
  have p: "call_safe ?p" by (simp add: call_safe_def)
  have "evm_calls env = evm_request env (evm_Run env (evm_calls_from ?p (Suc CallCreateDepth) env))"
    by (simp add: evm_calls_def)
  then have "evm_request env (evm_Run env (evm_calls_from ?p (Suc CallCreateDepth) env)) caller req evm = Inr (r, evm')"
    using assms(3) by (simp only:)
  note u = evm_request_undone [OF evm_Run_safe [OF assms(1) evm_calls_from_safe [OF assms(1) p]] this]
  have w: "m_world m' = state_view s" if "simulates s m'" for s m' using that by (simp add: simulates_def)
  show ?thesis
  proof (cases "is_create req")
    case True
    then obtain address where "creation_undone (ee_rules env) (Ref_Address caller) address evm r evm'" using u by auto
    then obtain m' where "simulates (evm_StateDB evm') m'"
      "IsHomestead (ee_rules env) \<longrightarrow> m_world m' \<in> {m_world m, bumped (ee_rules env) (Ref_Address caller) address (m_world m)}"
      using assms(2,4) unfolding creation_undone_def by blast
    then show ?thesis using True w [of "evm_StateDB evm'" m'] w [OF assms(2)] by auto
  next
    case False
    then obtain m' where "simulates (evm_StateDB evm') m'" "m_world m' = m_world m"
      using u assms(2,4) unfolding undone_def by auto
    then show ?thesis using False w [of "evm_StateDB evm'" m'] w [OF assms(2)] by simp
  qed
qed

lemma sample_opcodes: "opcodes sample_env"
  by (simp add: opcodes_def sample_env_def)

theorem failed_calls_restore_witness:
  "\<exists>r evm'. evm_calls sample_env (AccountRef 17) (ReqCall 17 [1] 10 0) (NewEVM sample_db) = Inr (r, evm') \<and>
     cr_err r = Some ErrExecutionReverted \<and> state_view (evm_StateDB evm') = state_view sample_db"
proof -
  let ?n = "evm_calls_from (\<lambda>caller req evm. Inl (ExplicitPanic ''too deep'')) (Suc CallCreateDepth) sample_env"
  obtain c evm1 where c: "evm_Call sample_env (evm_Run sample_env ?n) (AccountRef 17) 17 [1] 10 0 (NewEVM sample_db) =
      go_bind (run_recorded (evm_Run sample_env ?n) c [1] False (push_frame (InternalTx 17 17 True (Some 0) ''Call'' [1] [] []) evm1))
        (\<lambda>(r, evm). finish_call 0 r evm)"
    "evm1 = (NewEVM sample_db)\<lparr>evm_StateDB := snd (sd_Snapshot sample_db)\<rparr>" "c_Code c = [1]" "c_self c = 17"
    by (rule sample_Call)
  let ?t = "snd (sd_Snapshot sample_db)" and ?u = "sd_SetState 17 2 3 (snd (sd_Snapshot sample_db))"
  have n: "sd_Snapshot sample_db = (0, ?t)" by (simp add: sd_Snapshot_def Let_def sample_db_def state_New_def)
  obtain m1 where m1: "simulates ?t m1" "m_saved m1 = [] @ [(0, state_view sample_db)] @ []"
    using snapshot_saves [OF sample_start_db n] by (auto simp: fresh_machine_def)
  have "moves ?t ?u" by (rule plain_moves [of "OpSetState 17 2 3"]) (simp_all add: silent_def)
  then obtain m2 where m2: "simulates ?u m2" "m_saved m2 = [] @ [(0, state_view sample_db)] @ []" using m1 unfolding moves_def by metis
  obtain s' m' where r: "RevertToSnapshot 0 ?u = Inr s'" using revert_restores [OF m2] by auto
  have "\<exists>evm'. evm_calls sample_env (AccountRef 17) (ReqCall 17 [1] 10 0) (NewEVM sample_db) =
      Inr (CallRes None 0 3 (Some ErrExecutionReverted), evm')"
    unfolding evm_calls_unfold using c r
    by (simp add: run_recorded_def evm_Run_def sample_env_def silent_def set_events_def pop_frame_def push_frame_def NewEVM_def Let_def finish_call_def)
  then obtain evm' where e: "evm_calls sample_env (AccountRef 17) (ReqCall 17 [1] 10 0) (NewEVM sample_db) =
      Inr (CallRes None 0 3 (Some ErrExecutionReverted), evm')" by blast
  have "simulates (evm_StateDB (NewEVM sample_db)) (fresh_machine sample_db)" using sample_start_db by (simp add: NewEVM_def)
  from failed_calls_restore [OF sample_opcodes this e] have "state_view (evm_StateDB evm') = state_view sample_db" by (simp add: NewEVM_def)
  then show ?thesis using e by auto
qed

end
