(* ===== verification/Evm_Gas.thy ===== *)
theory Evm_Gas
  imports Evm_Revert
begin

text \<open>
  The gas of the calls of \<open>core/vm/evm.go\<close>: whatever the contracts do, a call or creation gives back at most the gas it
  was given. The hypothesis on the code of contracts, that the interpreter only takes gas off a frame, is \<open>gas_sound\<close>.
\<close>

definition MaxUint64 :: uint64 where
  "MaxUint64 = - 1"

text \<open>The gas a request passes on.\<close>

fun req_gas :: "call_req \<Rightarrow> uint64" where
  "req_gas (ReqCall addr input gas v) = gas"
| "req_gas (ReqCallCode addr input gas v) = gas"
| "req_gas (ReqDelegateCall addr input gas) = gas"
| "req_gas (ReqStaticCall addr input gas) = gas"
| "req_gas (ReqCreate code gas v) = gas"
| "req_gas (ReqCreate2 code gas v salt) = gas"

text \<open>The code of a contract ends with at most the gas it was given, when no call gives
  back more than was passed on.\<close>

primrec frame_gas :: "uint64 \<Rightarrow> frame \<Rightarrow> bool" where
  "frame_gas g (Halt ret err gas) = (gas \<le> g)"
| "frame_gas g (Abort err gas) = (gas \<le> g)"
| "frame_gas g (Op x k) = (\<forall>a. frame_gas g (k a))"
| "frame_gas g (Emit topics d gas k) = (gas \<le> g \<and> frame_gas g k)"
| "frame_gas g (DoCall req k) = (\<forall>r. cr_gas r \<le> req_gas req \<longrightarrow> frame_gas g (k r))"
| "frame_gas g (Crash p) = True"

definition gas_sound :: "evm_env \<Rightarrow> bool" where
  "gas_sound env \<longleftrightarrow> (\<forall>c input ro. frame_gas (c_Gas c) (ee_code env c input ro))"

definition call_gas :: "call_fn \<Rightarrow> bool" where
  "call_gas call \<longleftrightarrow> (\<forall>caller req evm r evm'. call caller req evm = Inr (r, evm') \<longrightarrow> cr_gas r \<le> req_gas req)"

lemma call_gasI: "(\<And>caller req evm r evm'. call caller req evm = Inr (r, evm') \<Longrightarrow> cr_gas r \<le> req_gas req) \<Longrightarrow> call_gas call"
  unfolding call_gas_def by blast

lemma run_frame_gas:
  assumes "call_gas call" and "frame_gas g f" and "run_frame env call c f events evm = Inr ((ret, err, gas), evm')"
  shows "gas \<le> g"
  using assms(2,3)
proof (induction f arbitrary: events evm)
  case (Emit topics d gas' k)
  then show ?case by (auto elim!: go_bind_InrE split: if_splits prod.splits)
next
  case (Op x k)
  then obtain a s where "run_frame env call c (k a) events (evm\<lparr>evm_StateDB := s\<rparr>) = Inr ((ret, err, gas), evm')"
    by (auto elim!: go_bind_InrE)
  then show ?case using Op.IH [of "k a"] Op.prems(1) by simp
next
  case (DoCall req k)
  then obtain a evm1 where "call (ContractRef c) req evm = Inr (a, evm1)" "run_frame env call c (k a) events evm1 = Inr ((ret, err, gas), evm')"
    by (auto elim!: go_bind_InrE)
  moreover from this(1) have "cr_gas a \<le> req_gas req" using assms(1) unfolding call_gas_def by blast
  ultimately show ?case using DoCall.IH [of "k a"] DoCall.prems(1) by simp
qed (auto elim!: go_bind_InrE)

definition run_gas :: "run_fn \<Rightarrow> bool" where
  "run_gas run \<longleftrightarrow> (\<forall>c input ro evm ret err gas evm'. run c input ro evm = Inr ((ret, err, gas), evm') \<longrightarrow> gas \<le> c_Gas c)"

lemma evm_Run_gas:
  assumes "gas_sound env" and "call_gas call"
  shows "run_gas (evm_Run env call)"
proof -
  have "gas \<le> c_Gas c" if r: "evm_Run env call c input ro evm = Inr ((ret, err, gas), evm')" for c input ro evm ret err gas evm'
    using r
  proof (cases rule: evm_Run_E)
    case (1 evm0 evm1)
    from 1(2) show ?thesis
    proof (elim disjE conjE)
      assume "run_frame env call c (ee_code env c input (in_readOnly evm0)) [] evm0 = Inr ((ret, err, gas), evm1)"
      then show ?thesis by (rule run_frame_gas [OF assms(2), rotated]) (use assms(1) in \<open>simp add: gas_sound_def\<close>)
    qed simp
  qed
  then show ?thesis unfolding run_gas_def by blast
qed

lemma sub_le: "(b :: 'a :: len word) \<le> a \<Longrightarrow> a - b \<le> a"
  by (simp add: word_sub_le)

lemma RunPrecompiledContract_gas: "RunPrecompiledContract p input gas = (ret, err, gas') \<Longrightarrow> gas' \<le> gas"
  by (auto simp: RunPrecompiledContract_def Let_def not_less intro: sub_le split: if_splits prod.splits)

lemma finish_call_gas: "finish_call n (ret, err, gas) evm = Inr (r, evm') \<Longrightarrow> cr_gas r \<le> gas"
  by (auto simp: finish_call_def split: if_splits elim!: go_bind_InrE)

lemma run_recorded_gas:
  assumes "run_gas run" and "run_recorded run c input ro evm = Inr ((ret, err, gas), evm')"
  shows "gas \<le> c_Gas c"
proof -
  obtain evm1 where "run c input ro evm = Inr ((ret, err, gas), evm1)"
    using assms(2) by (auto simp: run_recorded_def elim!: go_bind_InrE)
  then show ?thesis using assms(1) unfolding run_gas_def by blast
qed

lemma call_body_gas:
  assumes "run_gas run" and "call_body run p input gas evm1 c ro evm2 = Inr (r1, evm3)" and "finish_call n r1 evm3 = Inr (r, evm')"
    and "p = None \<Longrightarrow> c_Gas c = gas"
  shows "cr_gas r \<le> gas"
proof -
  obtain ret err g where r1: "r1 = (ret, err, g)" by (cases r1)
  have "g \<le> gas"
    using assms(2,4) run_recorded_gas [OF assms(1)] RunPrecompiledContract_gas r1
    by (cases p) (auto simp: call_body_def)
  then show ?thesis using finish_call_gas [of n ret err g evm3 r evm'] assms(3) r1 by simp
qed

lemma finish_create_gas: "finish_create rules a n (ret, err, gas) evm = Inr (r, evm') \<Longrightarrow> cr_gas r \<le> gas"
  by (auto simp: finish_create_def split: if_splits elim!: go_bind_InrE)

lemma store_created_gas:
  "store_created a (check_created rules (ret, err, gas)) evm = ((ret', err', gas'), evm') \<Longrightarrow> gas' \<le> gas"
  by (auto simp: store_created_def check_created_def UseGas_def Let_def not_less intro: sub_le split: if_splits prod.splits bool.splits)

lemma evm_create_gas:
  assumes "run_gas run" and "evm_create env run caller code h gas v address evm = Inr (r, evm')"
  shows "cr_gas r \<le> gas"
  using assms(2)
proof (cases rule: evm_create_E)
  case (1 can evm1 nonce evm2 evm3 ch evm4 there evm5 n evm6)
  from 1(7) show ?thesis
  proof (elim disjE conjE exE)
    fix r1 evm8 r2 evm9
    assume k: "run_recorded run (SetCallCode address h code (NewContract caller address (Some v) gas)) [] False
          (push_frame (InternalTx (Ref_Address caller) address True (Some v) ''Create'' [] [] [])
             (create_prelude (ee_rules env) (Ref_Address caller) address v evm6)) = Inr (r1, evm8)"
      and st: "store_created address (check_created (ee_rules env) r1) evm8 = (r2, evm9)"
      and f: "finish_create (ee_rules env) address n r2 evm9 = Inr (r, evm')"
    obtain ret err g ret' err' g' where r: "r1 = (ret, err, g)" "r2 = (ret', err', g')" by (cases r1; cases r2)
    have "g \<le> gas" using run_recorded_gas [OF assms(1)] k r by (fastforce simp: SetCallCode_def NewContract_def)
    moreover have "g' \<le> g" using store_created_gas st r by simp
    moreover have "cr_gas r \<le> g'" using finish_create_gas f r by simp
    ultimately show ?thesis by simp
  qed
qed

lemma evm_request_gas:
  assumes "run_gas run" and "evm_request env run caller req evm = Inr (r, evm')"
  shows "cr_gas r \<le> req_gas req"
proof (cases req)
  case (ReqCall addr input gas v)
  then have "evm_Call env run caller addr input gas v evm = Inr (r, evm')" using assms(2) by simp
  then show ?thesis
  proof (cases rule: evm_Call_E)
    case (run can evm1 n evm2 ex evm3 evm4 code evm5 h evm6 r1 evm7)
    from run(7) have "cr_gas r \<le> gas"
    proof (elim disjE conjE)
      assume "r1 = (None, None, gas)"
      then show ?thesis using finish_call_gas run(8) by simp
    next
      assume "call_body run (precompile env addr) input gas evm4
         (SetCallCode addr h (code_bytes code) (NewContract caller addr (Some v) gas)) False evm6 = Inr (r1, evm7)"
      then show ?thesis by (rule call_body_gas [OF assms(1) _ run(8)]) (simp add: SetCallCode_def NewContract_def)
    qed
    then show ?thesis using ReqCall by simp
  qed (use ReqCall in simp_all)
next
  case (ReqCallCode addr input gas v)
  then have "evm_CallCode env run caller addr input gas v evm = Inr (r, evm')" using assms(2) by simp
  then show ?thesis
  proof (cases rule: evm_CallCode_E)
    case (run can evm1 n evm2 h evm3 code evm4 r1 evm5)
    have "cr_gas r \<le> gas" by (rule call_body_gas [OF assms(1) run(5,6)]) (simp add: SetCallCode_def NewContract_def)
    then show ?thesis using ReqCallCode by simp
  qed (use ReqCallCode in simp)
next
  case (ReqDelegateCall addr input gas)
  then have "evm_DelegateCall env run caller addr input gas evm = Inr (r, evm')" using assms(2) by simp
  then show ?thesis
  proof (cases rule: evm_DelegateCall_E)
    case (run n evm2 h evm3 code evm4 c r1 evm5)
    have "cr_gas r \<le> gas" by (rule call_body_gas [OF assms(1) run(4,6)]) (rule run(5))
    then show ?thesis using ReqDelegateCall by simp
  qed (use ReqDelegateCall in simp)
next
  case (ReqStaticCall addr input gas)
  then have "evm_StaticCall env run caller addr input gas evm = Inr (r, evm')" using assms(2) by simp
  then show ?thesis
  proof (cases rule: evm_StaticCall_E)
    case (run n evm1 evm2 h evm3 code evm4 r1 evm5)
    have "cr_gas r \<le> gas" by (rule call_body_gas [OF assms(1) run(5,6)]) (simp add: SetCallCode_def NewContract_def)
    then show ?thesis using ReqStaticCall by simp
  qed (use ReqStaticCall in simp)
next
  case (ReqCreate code gas v)
  then show ?thesis using assms(2) evm_create_gas [OF assms(1)] by (auto simp: evm_Create_def Let_def split: prod.splits)
next
  case (ReqCreate2 code gas v salt)
  then show ?thesis using assms(2) evm_create_gas [OF assms(1)] by (auto simp: evm_Create2_def Let_def split: prod.splits)
qed

lemma evm_calls_from_gas: "gas_sound env \<Longrightarrow> call_gas beyond \<Longrightarrow> call_gas (evm_calls_from beyond n env)"
proof (induction n)
  case (Suc n)
  then have "run_gas (evm_Run env (evm_calls_from beyond n env))" by (intro evm_Run_gas) simp_all
  then show ?case by (intro call_gasI) (simp add: evm_request_gas)
qed simp

lemma evm_calls_gas:
  assumes "gas_sound env" and "evm_calls env caller req evm = Inr (r, evm')"
  shows "cr_gas r \<le> req_gas req"
proof -
  have "call_gas (evm_calls env)"
    unfolding evm_calls_def by (rule evm_calls_from_gas [OF assms(1)]) (simp add: call_gas_def)
  then show ?thesis using assms(2) unfolding call_gas_def by blast
qed

end
