(* ===== verification/Evm_Payment.thy ===== *)
theory Evm_Payment
  imports Evm_Gas
begin

text \<open>
  The call of an account without code, at the top of a transaction (\<open>core/vm/evm.go\<close>, \<open>Call\<close>). The record of such a call is
  appended to the frame on top of the call stack, and at the top of a transaction there is none.
\<close>

definition codeless :: "world \<Rightarrow> Address \<Rightarrow> bool" where
  "codeless w a \<longleftrightarrow> a_read None a_code a w \<in> {None, Some []}"

definition keeps_codeless :: "Address \<Rightarrow> StateDB \<Rightarrow> StateDB \<Rightarrow> bool" where
  "keeps_codeless a s s' \<longleftrightarrow> (good s \<and> codeless (state_view s) a \<longrightarrow> good s' \<and> codeless (state_view s') a)"

lemma keeps_codeless_trans: "keeps_codeless a s t \<Longrightarrow> keeps_codeless a t u \<Longrightarrow> keeps_codeless a s u"
  by (simp add: keeps_codeless_def)

lemma fresh_codeless: "a_code (fresh_account db b) = None" "\<not> a_deleted (fresh_account db b)"
  by (simp_all add: fresh_account_def load_code_empty)

lemma codeless_put:
  assumes "codeless w a" and "b = a \<Longrightarrow> a_deleted x \<or> a_code x \<in> {None, Some []}"
  shows "codeless (a_put b x w) a"
  using assms by (auto simp: codeless_def a_read_def acct_def split: option.splits if_splits)

lemma codeless_get: "codeless w a \<Longrightarrow> a_code (a_get a w) \<in> {None, Some []}"
  by (auto simp: codeless_def a_read_def a_get_def fresh_codeless split: option.splits)

lemma codeless_balance: "codeless w a \<Longrightarrow> codeless (a_change b (\<lambda>x. set_balance (f x) x) w) a"
  unfolding a_change_def by (rule codeless_put) (use codeless_get in \<open>auto simp: set_balance_def\<close>)

lemma basic_exec:
  assumes "good s" and "plain_op x" and "exec_op x s = Inr (r, s')"
  shows "a_basic x (state_view s) = Some (r, state_view s')" "good s'"
proof -
  have "matches x s" by (rule exec_matches [OF assms(1)]) (use assms(2) in auto)
  then show "a_basic x (state_view s) = Some (r, state_view s')" "good s'"
    using assms(3) by (simp_all add: matches_def logged_def)
qed

lemma keeps_exec:
  assumes "plain_op x" and "exec_op x s = Inr (r, s')" and "\<And>w r w'. a_basic x w = Some (r, w') \<Longrightarrow> codeless w a \<Longrightarrow> codeless w' a"
  shows "keeps_codeless a s s'"
  using basic_exec [OF _ assms(1,2)] assms(3) unfolding keeps_codeless_def by blast

lemma basic_balance:
  assumes "good s"
  shows "fst (CanTransfer b v s) = (a_read 0 (\<lambda>x. sa_Balance (a_data x)) b (state_view s) \<ge> v)"
    "state_view (snd (CanTransfer b v s)) = state_view s" "good (snd (CanTransfer b v s))"
proof -
  have e: "exec_op (OpGetBalance b) s = Inr (ABig (fst (GetBalance b s)), snd (GetBalance b s))" by (simp add: answering_def)
  have k: "a_read 0 (\<lambda>x. sa_Balance (a_data x)) b (state_view s) = fst (GetBalance b s) \<and> state_view s = state_view (snd (GetBalance b s))"
    using basic_exec(1) [OF assms _ e] unfolding a_basic.simps option.inject prod.inject op_answer.inject plain_op.simps by blast
  show "fst (CanTransfer b v s) = (a_read 0 (\<lambda>x. sa_Balance (a_data x)) b (state_view s) \<ge> v)"
    unfolding CanTransfer_def split_beta fst_conv conjunct1 [OF k] ..
  show "state_view (snd (CanTransfer b v s)) = state_view s"
    unfolding CanTransfer_def split_beta snd_conv by (rule conjunct2 [OF k, symmetric])
  show "good (snd (CanTransfer b v s))" using basic_exec(2) [OF assms _ e] by (simp add: CanTransfer_def split_beta)
qed

lemma basic_exist:
  assumes "good s"
  shows "fst (Exist b s) = (acct (state_view s) b \<noteq> None)" "state_view (snd (Exist b s)) = state_view s" "good (snd (Exist b s))"
proof -
  have e: "exec_op (OpExist b) s = Inr (ABool (fst (Exist b s)), snd (Exist b s))" by (simp add: answering_def)
  have k: "(acct (state_view s) b \<noteq> None) = fst (Exist b s) \<and> state_view s = state_view (snd (Exist b s))"
    using basic_exec(1) [OF assms _ e] unfolding a_basic.simps option.inject prod.inject op_answer.inject plain_op.simps by blast
  show "fst (Exist b s) = (acct (state_view s) b \<noteq> None)" "state_view (snd (Exist b s)) = state_view s"
    by (rule conjunct1 [OF k, symmetric], rule conjunct2 [OF k, symmetric])
  show "good (snd (Exist b s))" using basic_exec(2) [OF assms _ e] by simp
qed

lemma snapshot_view [simp]: "state_view (snd (sd_Snapshot s)) = state_view s" "good (snd (sd_Snapshot s)) = good s"
proof -
  show "state_view (snd (sd_Snapshot s)) = state_view s"
    by (rule state_view_cong) (simp_all add: sd_Snapshot_def Let_def)
  then show "good (snd (sd_Snapshot s)) = good s" unfolding good_def by (simp only:) (simp add: sd_Snapshot_def Let_def)
qed

lemma keeps_writes: "keeps_codeless a s (CreateAccount b s)" "keeps_codeless a s (Transfer b c v s)"
proof -
  show "keeps_codeless a s (CreateAccount b s)"
    by (rule keeps_exec [of "OpCreateAccount b"]) (auto simp: silent_def set_balance_def fresh_codeless intro!: codeless_put)
  have "keeps_codeless a s (sd_SubBalance b v s)" for s
    by (rule keeps_exec [of "OpSubBalance b v"]) (auto simp: silent_def intro: codeless_balance)
  moreover have "keeps_codeless a s (sd_AddBalance c v s)" for s
    by (rule keeps_exec [of "OpAddBalance c v"]) (auto simp: silent_def intro: codeless_balance)
  ultimately show "keeps_codeless a s (Transfer b c v s)" unfolding Transfer_def using keeps_codeless_trans by blast
qed

lemma codeless_read:
  assumes "good s" and "codeless (state_view s) a"
  shows "length (code_bytes (fst (sd_GetCode a s))) = 0"
proof -
  have e: "exec_op (OpGetCode a) s = Inr (ACode (fst (sd_GetCode a s)), snd (sd_GetCode a s))" by (simp add: answering_def)
  have "a_read None a_code a (state_view s) = fst (sd_GetCode a s)"
    using basic_exec(1) [OF assms(1) _ e] unfolding a_basic.simps option.inject prod.inject op_answer.inject plain_op.simps by blast
  then have "fst (sd_GetCode a s) \<in> {None, Some []}" using assms(2) by (simp only: codeless_def)
  then show ?thesis by (auto simp: code_bytes_def)
qed

text \<open>
  C18: a transaction that pays an account without code cannot be run. When the call stack is empty, the recipient has
  no code and is not precompiled, and the value can be paid, the call indexes the call stack at \<open>-1\<close> and panics, except
  when no value is sent to an account that does not exist.
\<close>

theorem plain_payment_panics:
  assumes "CallStack evm = []" and "evm_depth evm \<le> CallCreateDepth" and "good (evm_StateDB evm)"
    and "codeless (state_view (evm_StateDB evm)) addr" and "precompile env addr = None"
    and "acct (state_view (evm_StateDB evm)) addr \<noteq> None \<or> v \<noteq> 0"
    and "v = 0 \<or> v \<le> a_read 0 (\<lambda>x. sa_Balance (a_data x)) (Ref_Address caller) (state_view (evm_StateDB evm))"
  shows "evm_calls env caller (ReqCall addr input gas v) evm = Inl IndexOutOfRange"
proof -
  define s1 where "s1 = (if v = 0 then evm_StateDB evm else snd (CanTransfer (Ref_Address caller) v (evm_StateDB evm)))"
  define s2 where "s2 = snd (sd_Snapshot s1)"
  define s3 where "s3 = snd (Exist addr s2)"
  define s4 where "s4 = (if fst (Exist addr s2) then s3 else CreateAccount addr s3)"
  define s5 where "s5 = Transfer (Ref_Address caller) addr v s4"
  have can: "v \<noteq> 0 \<Longrightarrow> fst (CanTransfer (Ref_Address caller) v (evm_StateDB evm))"
    using basic_balance(1) [OF assms(3)] assms(7) by simp
  have s1: "state_view s1 = state_view (evm_StateDB evm)" "good s1"
    using basic_balance(2,3) [OF assms(3)] assms(3) by (simp_all only: s1_def split: if_split) simp_all
  have s2: "state_view s2 = state_view (evm_StateDB evm)" "good s2" using s1 by (simp_all only: s2_def snapshot_view)
  have s3: "state_view s3 = state_view (evm_StateDB evm)" "good s3"
    unfolding s3_def using basic_exist(2,3) [OF s2(2)] s2(1) by simp_all
  have ex: "fst (Exist addr s2) \<or> v \<noteq> 0" using basic_exist(1) [OF s2(2)] s2(1) assms(6) by (simp only:)
  have "codeless (state_view s3) addr" using assms(4) s3(1) by (simp only:)
  then have "good s4 \<and> codeless (state_view s4) addr"
    using s3(2) keeps_writes(1) [of addr s3 addr] unfolding s4_def keeps_codeless_def by (simp split: if_split)
  then have "good s5 \<and> codeless (state_view s5) addr"
    using keeps_writes(2) [of addr s4 "Ref_Address caller" addr v] unfolding s5_def keeps_codeless_def by blast
  then have code: "length (code_bytes (fst (sd_GetCode addr s5))) = 0" using codeless_read by blast
  note defs = s1_def s2_def s3_def s4_def s5_def
  show ?thesis
    using assms(1,2,5) can ex code
    by (cases "v = 0"; cases "fst (Exist addr s2)")
      (simp_all add: evm_calls_unfold evm_Call_def Let_def ask_def tell_def split_beta add_leaf_def defs)
qed

text \<open>An account that exists and has no code.\<close>

lemma sample_backend_db: "w_db (state_view (state_New sample_backend)) = sample_backend"
  by (simp add: state_New_def)

theorem plain_payment_panics_witness:
  "evm_calls sample_env (AccountRef 17) (ReqCall 18 [] 10 0) (NewEVM (CreateAccount 18 (state_New sample_backend))) = Inl IndexOutOfRange"
proof (rule plain_payment_panics)
  let ?s = "CreateAccount 18 (state_New sample_backend)"
  have g: "good (state_New sample_backend)" by (rule good_New [OF sample_backend_ok])
  have e: "exec_op (OpCreateAccount 18) (state_New sample_backend) = Inr (Done, ?s)" by (simp add: silent_def)
  note b = basic_exec [OF g _ e]
  show "good (evm_StateDB (NewEVM ?s))" using b(2) by (simp add: NewEVM_def)
  have w: "state_view ?s = a_put 18 (set_balance 0 (fresh_account sample_backend 18)) (state_view (state_New sample_backend))"
    using b(1) sample_world sample_backend_db by (simp add: a_read_def acct_def)
  show "codeless (state_view (evm_StateDB (NewEVM ?s))) 18"
    by (simp add: NewEVM_def w codeless_def a_read_def acct_put set_balance_def fresh_codeless)
  show "acct (state_view (evm_StateDB (NewEVM ?s))) 18 \<noteq> None \<or> (0 :: int) \<noteq> 0"
    by (simp add: NewEVM_def w acct_put set_balance_def fresh_codeless)
qed (simp_all add: NewEVM_def CallCreateDepth_def precompile_def ActivePrecompiles_def sample_env_def)

end
