(* ===== verification/State_Transition.thy ===== *)
theory State_Transition
  imports Evm_Payment
begin

text \<open>
  Applying a message: \<open>core/state_transition.go\<close> and the gas pool of \<open>core/gaspool.go\<close>. The gas of a message is
  bought, the intrinsic gas is taken off, the call or creation is run, unused gas is paid back and the miner
  is paid. \<open>TransitionDb\<close> checks the nonce of the sender; \<open>TransitionDbTest\<close> does not.
\<close>

section \<open>Gas\<close>

datatype tx_err =
    ErrNonceTooHigh
  | ErrNonceTooLow
  | ErrNonceMax
  | ErrSenderNoEOA
  | ErrFeeCapVeryHigh
  | ErrTipVeryHigh
  | ErrTipAboveFeeCap
  | ErrFeeCapTooLow
  | ErrInsufficientFunds
  | ErrGasLimitReached
  | ErrGasUintOverflow
  | ErrIntrinsicGas
  | ErrInsufficientFundsForTransfer
  | ErrCallStackLength nat

definition AddGas :: "uint64 \<Rightarrow> uint64 \<Rightarrow> uint64 go" where
  "AddGas amount gp =
     (if gp > MaxUint64 - amount then Inl (ExplicitPanic ''gas pool pushed above uint64'') else Inr (gp + amount))"

definition SubGas :: "uint64 \<Rightarrow> uint64 \<Rightarrow> tx_err + uint64" where
  "SubGas amount gp = (if gp < amount then Inl ErrGasLimitReached else Inr (gp - amount))"

definition StorageKeys :: "AccessList \<Rightarrow> nat" where
  "StorageKeys al = sum_list (map (\<lambda>t. length (snd t)) al)"

definition IntrinsicGas :: "bytes \<Rightarrow> AccessList \<Rightarrow> bool \<Rightarrow> bool \<Rightarrow> bool \<Rightarrow> tx_err + uint64" where
  "IntrinsicGas data accessList isContractCreation isHomestead isEIP2028 =
     (let gas = (if isContractCreation \<and> isHomestead then 53000 else 21000)
      in go_bind
           (if length data > 0
            then let nz = of_nat (length (filter (\<lambda>b. b \<noteq> 0) data));
                     nonZeroGas = (if isEIP2028 then 16 else 68)
                 in if (MaxUint64 - gas) div nonZeroGas < nz then Inl ErrGasUintOverflow
                    else let gas = gas + nz * nonZeroGas;
                             z = of_nat (length data) - nz
                         in if (MaxUint64 - gas) div 4 < z then Inl ErrGasUintOverflow
                            else Inr (gas + z * 4)
            else Inr gas)
           (\<lambda>gas. Inr (gas + of_nat (length accessList) * 2400 + of_nat (StorageKeys accessList) * 1900)))"

section \<open>The state of a transition\<close>

record block_ctx =
  bc_Coinbase :: Address
  bc_BaseFee :: "int option"
  bc_NoBaseFee :: bool

record StateTransition =
  st_evm :: EVM
  st_gp :: uint64
  st_gas :: uint64
  st_initialGas :: uint64

definition NewStateTransition :: "EVM \<Rightarrow> uint64 \<Rightarrow> StateTransition" where
  "NewStateTransition evm gp = \<lparr>st_evm = evm, st_gp = gp, st_gas = 0, st_initialGas = 0\<rparr>"

definition gasUsed :: "StateTransition \<Rightarrow> uint64" where
  "gasUsed st = st_initialGas st - st_gas st"

definition st_ask :: "(StateDB \<Rightarrow> 'a \<times> StateDB) \<Rightarrow> StateTransition \<Rightarrow> 'a \<times> StateTransition" where
  "st_ask f st = (case ask f (st_evm st) of (r, evm) \<Rightarrow> (r, st\<lparr>st_evm := evm\<rparr>))"

definition st_tell :: "(StateDB \<Rightarrow> StateDB) \<Rightarrow> StateTransition \<Rightarrow> StateTransition" where
  "st_tell f st = st\<lparr>st_evm := tell f (st_evm st)\<rparr>"

type_synonym checked = "(tx_err option \<times> StateTransition) go"

text \<open>
  The fee cap of a message is a number: the branch of \<open>buyGas\<close> for a message without one (a nil \<open>gasFeeCap\<close>, where the
  price is checked in its place) is not taken by the messages built from transactions and from records.
\<close>

definition buyGas :: "Message \<Rightarrow> StateTransition \<Rightarrow> tx_err option \<times> StateTransition" where
  "buyGas msg st =
     (let mgval = uint (m_gasLimit msg) * m_gasPrice msg;
          balanceCheck = uint (m_gasLimit msg) * m_gasFeeCap msg + m_amount msg;
          (have, st) = st_ask (GetBalance (m_from msg)) st
      in if have < balanceCheck then (Some ErrInsufficientFunds, st)
         else case SubGas (m_gasLimit msg) (st_gp st) of
                Inl err \<Rightarrow> (Some err, st)
              | Inr gp \<Rightarrow>
                  (None, st_tell (sd_SubBalance (m_from msg) mgval)
                     (st\<lparr>st_gp := gp, st_gas := st_gas st + m_gasLimit msg, st_initialGas := m_gasLimit msg\<rparr>)))"

text \<open>The sender is an account without code.\<close>

definition check_sender :: "Message \<Rightarrow> StateTransition \<Rightarrow> tx_err option \<times> StateTransition" where
  "check_sender msg st =
     (let (codeHash, st) = st_ask (GetCodeHash (m_from msg)) st
      in if code_collision (evm_StateDB (st_evm st)) codeHash then (Some ErrSenderNoEOA, st) else (None, st))"

definition check_nonce :: "Message \<Rightarrow> StateTransition \<Rightarrow> tx_err option \<times> StateTransition" where
  "check_nonce msg st =
     (let (stNonce, st) = st_ask (GetNonce (m_from msg)) st
      in if stNonce < m_nonce msg then (Some ErrNonceTooHigh, st)
         else if stNonce > m_nonce msg then (Some ErrNonceTooLow, st)
         else if stNonce + 1 < stNonce then (Some ErrNonceMax, st)
         else (None, st))"

text \<open>The fee caps of the message, since London.\<close>

definition check_fees :: "evm_env \<Rightarrow> block_ctx \<Rightarrow> Message \<Rightarrow> tx_err option go" where
  "check_fees env bc msg =
     (if IsLondon (ee_rules env) \<and> (\<not> bc_NoBaseFee bc \<or> m_gasFeeCap msg \<noteq> 0 \<or> m_gasTipCap msg \<noteq> 0)
      then if BitLen (nat \<bar>m_gasFeeCap msg\<bar>) > 256 then Inr (Some ErrFeeCapVeryHigh)
           else if BitLen (nat \<bar>m_gasTipCap msg\<bar>) > 256 then Inr (Some ErrTipVeryHigh)
           else if m_gasFeeCap msg < m_gasTipCap msg then Inr (Some ErrTipAboveFeeCap)
           else case bc_BaseFee bc of
                  None \<Rightarrow> Inl NilDereference
                | Some baseFee \<Rightarrow> if m_gasFeeCap msg < baseFee then Inr (Some ErrFeeCapTooLow) else Inr None
      else Inr None)"

definition after_fees :: "evm_env \<Rightarrow> block_ctx \<Rightarrow> Message \<Rightarrow> StateTransition \<Rightarrow> checked" where
  "after_fees env bc msg st =
     go_bind (check_fees env bc msg) (\<lambda>err. case err of Some e \<Rightarrow> Inr (Some e, st) | None \<Rightarrow> Inr (buyGas msg st))"

definition preCheckSu :: "evm_env \<Rightarrow> block_ctx \<Rightarrow> Message \<Rightarrow> StateTransition \<Rightarrow> checked" where
  "preCheckSu env bc msg st =
     (let (err, st) = (if m_isFake msg then (None, st) else check_sender msg st)
      in case err of Some e \<Rightarrow> Inr (Some e, st) | None \<Rightarrow> after_fees env bc msg st)"

definition preCheck :: "evm_env \<Rightarrow> block_ctx \<Rightarrow> Message \<Rightarrow> StateTransition \<Rightarrow> checked" where
  "preCheck env bc msg st =
     (let (err, st) =
        (if m_isFake msg then (None, st)
         else let (err, st) = check_nonce msg st
              in case err of Some e \<Rightarrow> (Some e, st) | None \<Rightarrow> check_sender msg st)
      in case err of Some e \<Rightarrow> Inr (Some e, st) | None \<Rightarrow> after_fees env bc msg st)"

definition refundGas :: "Message \<Rightarrow> uint64 \<Rightarrow> StateTransition \<Rightarrow> StateTransition go" where
  "refundGas msg refundQuotient st =
     (let refund = gasUsed st div refundQuotient;
          refund = (if refund > sd_refund (evm_StateDB (st_evm st)) then sd_refund (evm_StateDB (st_evm st)) else refund);
          st = st\<lparr>st_gas := st_gas st + refund\<rparr>;
          st = st_tell (sd_AddBalance (m_from msg) (uint (st_gas st) * m_gasPrice msg)) st
      in go_bind (AddGas (st_gas st) (st_gp st)) (\<lambda>gp. Inr (st\<lparr>st_gp := gp\<rparr>)))"

record ExecutionResult =
  UsedGas :: uint64
  er_Err :: "vm_err option"
  ReturnData :: "bytes option"

type_synonym applied = "((tx_err + ExecutionResult) \<times> StateTransition) go"

text \<open>The call or creation itself.\<close>

definition run_message :: "evm_env \<Rightarrow> Message \<Rightarrow> StateTransition \<Rightarrow> (call_res \<times> StateTransition) go" where
  "run_message env msg st =
     go_bind
       (case m_to msg of
          None \<Rightarrow> evm_calls env (AccountRef (m_from msg)) (ReqCreate (m_data msg) (st_gas st) (m_amount msg)) (st_evm st)
        | Some to \<Rightarrow>
            let (nonce, evm) = ask (GetNonce (m_from msg)) (st_evm st);
                evm = tell (sd_SetNonce (m_from msg) (nonce + 1)) evm
            in evm_calls env (AccountRef (m_from msg)) (ReqCall to (m_data msg) (st_gas st) (m_amount msg)) evm)
       (\<lambda>(r, evm). Inr (r, st\<lparr>st_evm := evm, st_gas := cr_gas r\<rparr>))"

definition effective_tip :: "evm_env \<Rightarrow> block_ctx \<Rightarrow> Message \<Rightarrow> int go" where
  "effective_tip env bc msg =
     (if IsLondon (ee_rules env)
      then case bc_BaseFee bc of
             None \<Rightarrow> Inl NilDereference
           | Some baseFee \<Rightarrow> Inr (min (m_gasTipCap msg) (m_gasFeeCap msg - baseFee))
      else Inr (m_gasPrice msg))"

definition pay_miner :: "evm_env \<Rightarrow> block_ctx \<Rightarrow> Message \<Rightarrow> StateTransition \<Rightarrow> StateTransition go" where
  "pay_miner env bc msg st =
     go_bind (effective_tip env bc msg)
       (\<lambda>effectiveTip. Inr (st_tell (sd_AddBalance (bc_Coinbase bc) (uint (gasUsed st) * effectiveTip)) st))"

text \<open>The last step: a call stack that is not empty is an error.\<close>

definition message_result :: "call_res \<Rightarrow> StateTransition \<Rightarrow> tx_err + ExecutionResult" where
  "message_result r st =
     (let n = length (CallStack (st_evm st))
      in if n > 0 then Inl (ErrCallStackLength n) else Inr \<lparr>UsedGas = gasUsed st, er_Err = cr_err r, ReturnData = cr_ret r\<rparr>)"

definition finish_message :: "evm_env \<Rightarrow> block_ctx \<Rightarrow> Message \<Rightarrow> call_res \<Rightarrow> StateTransition \<Rightarrow> applied" where
  "finish_message env bc msg r st =
     go_bind (refundGas msg (if IsLondon (ee_rules env) then 5 else 2) st) (\<lambda>st.
     go_bind (pay_miner env bc msg st) (\<lambda>st. Inr (message_result r st, st)))"

definition after_check :: "evm_env \<Rightarrow> block_ctx \<Rightarrow> Message \<Rightarrow> StateTransition \<Rightarrow> applied" where
  "after_check env bc msg st =
     (let rules = ee_rules env
      in case IntrinsicGas (m_data msg) (m_accessList msg) (m_to msg = None) (IsHomestead rules) (IsIstanbul rules) of
           Inl err \<Rightarrow> Inr (Inl err, st)
         | Inr gas \<Rightarrow>
             if st_gas st < gas then Inr (Inl ErrIntrinsicGas, st)
             else let st = st\<lparr>st_gas := st_gas st - gas\<rparr>;
                      (can, st) = (if m_amount msg > 0 then st_ask (CanTransfer (m_from msg) (m_amount msg)) st else (True, st))
             in if \<not> can then Inr (Inl ErrInsufficientFundsForTransfer, st)
             else go_bind
                    (if IsBerlin rules
                     then go_bind (PrepareAccessList (m_from msg) (m_to msg) (ActivePrecompiles rules) (m_accessList msg)
                            (evm_StateDB (st_evm st))) (\<lambda>s. Inr (st\<lparr>st_evm := (st_evm st)\<lparr>evm_StateDB := s\<rparr>\<rparr>))
                     else Inr st)
                    (\<lambda>st. go_bind (run_message env msg st) (\<lambda>(r, st). finish_message env bc msg r st)))"

definition transition :: "(StateTransition \<Rightarrow> checked) \<Rightarrow> evm_env \<Rightarrow> block_ctx \<Rightarrow> Message \<Rightarrow> StateTransition \<Rightarrow> applied" where
  "transition check env bc msg st =
     go_bind (check st) (\<lambda>(err, st). case err of Some e \<Rightarrow> Inr (Inl e, st) | None \<Rightarrow> after_check env bc msg st)"

definition TransitionDb :: "evm_env \<Rightarrow> block_ctx \<Rightarrow> Message \<Rightarrow> StateTransition \<Rightarrow> applied" where
  "TransitionDb env bc msg = transition (preCheck env bc msg) env bc msg"

definition TransitionDbTest :: "evm_env \<Rightarrow> block_ctx \<Rightarrow> Message \<Rightarrow> StateTransition \<Rightarrow> applied" where
  "TransitionDbTest env bc msg = transition (preCheckSu env bc msg) env bc msg"

definition ApplyMessage :: "evm_env \<Rightarrow> block_ctx \<Rightarrow> EVM \<Rightarrow> Message \<Rightarrow> uint64 \<Rightarrow> applied" where
  "ApplyMessage env bc evm msg gp = TransitionDb env bc msg (NewStateTransition evm gp)"

definition ApplyMessageTest :: "evm_env \<Rightarrow> block_ctx \<Rightarrow> EVM \<Rightarrow> Message \<Rightarrow> uint64 \<Rightarrow> applied" where
  "ApplyMessageTest env bc evm msg gp = TransitionDbTest env bc msg (NewStateTransition evm gp)"

section \<open>The steps of a transition\<close>

lemma st_ask_same:
  "st_ask f st = (r, st') \<Longrightarrow> st_gp st' = st_gp st \<and> st_gas st' = st_gas st \<and> st_initialGas st' = st_initialGas st \<and>
     core (st_evm st') = core (st_evm st)"
  using core_ask by (auto simp: st_ask_def split: prod.splits)

lemma st_tell_same [simp]:
  "st_gp (st_tell f st) = st_gp st" "st_gas (st_tell f st) = st_gas st" "st_initialGas (st_tell f st) = st_initialGas st"
  "core (st_evm (st_tell f st)) = core (st_evm st)"
  by (simp_all add: st_tell_def)

text \<open>What a passed check leaves: the gas is bought.\<close>

definition bought :: "Message \<Rightarrow> StateTransition \<Rightarrow> StateTransition \<Rightarrow> bool" where
  "bought msg st st1 \<longleftrightarrow> m_gasLimit msg \<le> st_gp st \<and> st_gp st1 = st_gp st - m_gasLimit msg \<and>
     st_gas st1 = st_gas st + m_gasLimit msg \<and> st_initialGas st1 = m_gasLimit msg \<and> core (st_evm st1) = core (st_evm st)"

lemma buyGas_bought:
  assumes "buyGas msg st = (None, st1)"
  shows "bought msg st st1"
proof -
  obtain b st0 where a: "st_ask (GetBalance (m_from msg)) st = (b, st0)" by (cases "st_ask (GetBalance (m_from msg)) st")
  show ?thesis
    using assms a st_ask_same [OF a]
    by (auto simp: buyGas_def Let_def SubGas_def bought_def split: if_splits)
qed

lemma after_fees_bought:
  assumes "after_fees env bc msg st = Inr (None, st1)"
  shows "bought msg st st1"
  using assms buyGas_bought by (auto simp: after_fees_def elim!: go_bind_InrE split: option.splits)

lemma bought_from:
  assumes "bought msg st0 st1" and "st_gp st0 = st_gp st" "st_gas st0 = st_gas st" "core (st_evm st0) = core (st_evm st)"
  shows "bought msg st st1"
  using assms by (simp add: bought_def)

lemma after_fees_from:
  assumes "after_fees env bc msg st0 = Inr (None, st1)" and "st_gp st0 = st_gp st \<and> st_gas st0 = st_gas st \<and> core (st_evm st0) = core (st_evm st)"
  shows "bought msg st st1"
  using bought_from [OF after_fees_bought [OF assms(1)]] assms(2) by blast

lemma check_sender_same: "check_sender msg st = (e, st') \<Longrightarrow> st_gp st' = st_gp st \<and> st_gas st' = st_gas st \<and> core (st_evm st') = core (st_evm st)"
  using st_ask_same by (fastforce simp: check_sender_def Let_def split: prod.splits if_splits)

lemma check_nonce_same: "check_nonce msg st = (e, st') \<Longrightarrow> st_gp st' = st_gp st \<and> st_gas st' = st_gas st \<and> core (st_evm st') = core (st_evm st)"
  using st_ask_same by (fastforce simp: check_nonce_def Let_def split: prod.splits if_splits)

lemma preCheck_bought:
  "preCheckSu env bc msg st = Inr (None, st1) \<Longrightarrow> bought msg st st1"
  "preCheck env bc msg st = Inr (None, st1) \<Longrightarrow> bought msg st st1"
proof -
  obtain e st0 where s: "check_sender msg st = (e, st0)" by (cases "check_sender msg st")
  show "preCheckSu env bc msg st = Inr (None, st1) \<Longrightarrow> bought msg st st1"
    using s check_sender_same [OF s]
    by (auto simp: preCheckSu_def Let_def intro: after_fees_from split: if_splits option.splits)
  obtain e1 st2 where n: "check_nonce msg st = (e1, st2)" by (cases "check_nonce msg st")
  obtain e2 st3 where s2: "check_sender msg st2 = (e2, st3)" by (cases "check_sender msg st2")
  show "preCheck env bc msg st = Inr (None, st1) \<Longrightarrow> bought msg st st1"
    using n s2 check_nonce_same [OF n] check_sender_same [OF s2]
    by (auto simp: preCheck_def Let_def intro: after_fees_from split: if_splits option.splits)
qed

text \<open>The request a message makes of the machine.\<close>

definition message_req :: "Message \<Rightarrow> uint64 \<Rightarrow> call_req" where
  "message_req msg gas =
     (case m_to msg of None \<Rightarrow> ReqCreate (m_data msg) gas (m_amount msg) | Some to \<Rightarrow> ReqCall to (m_data msg) gas (m_amount msg))"

lemma run_message_E:
  assumes "run_message env msg st = Inr (r, st1)"
  obtains evm0 where "evm_calls env (AccountRef (m_from msg)) (message_req msg (st_gas st)) evm0 = Inr (r, st_evm st1)"
    "core evm0 = core (st_evm st)" "st_gas st1 = cr_gas r" "st_gp st1 = st_gp st" "st_initialGas st1 = st_initialGas st"
proof (cases "m_to msg")
  case None
  then show thesis using assms that [of "st_evm st"] by (auto simp: run_message_def message_req_def elim!: go_bind_InrE)
next
  case (Some to)
  obtain n evm1 where a: "ask (GetNonce (m_from msg)) (st_evm st) = (n, evm1)" by (cases "ask (GetNonce (m_from msg)) (st_evm st)")
  show thesis
    using assms Some a core_ask [OF a] that [of "tell (sd_SetNonce (m_from msg) (n + 1)) evm1"]
    by (auto simp: run_message_def message_req_def Let_def elim!: go_bind_InrE)
qed

lemma after_check_E:
  assumes "after_check env bc msg st = Inr (out, st')"
  obtains (refused) e where "out = Inl e" "\<forall>n. e \<noteq> ErrCallStackLength n"
  | (run) g st0 st1 r st2 where
    "IntrinsicGas (m_data msg) (m_accessList msg) (m_to msg = None) (IsHomestead (ee_rules env)) (IsIstanbul (ee_rules env)) = Inr g"
    "g \<le> st_gas st" "st_gas st1 = st_gas st - g" "st_gp st1 = st_gp st" "st_initialGas st1 = st_initialGas st"
    "core (st_evm st1) = core (st_evm st)" "run_message env msg st1 = Inr (r, st2)" "finish_message env bc msg r st2 = Inr (out, st')"
    "(if m_amount msg > 0 then st_ask (CanTransfer (m_from msg) (m_amount msg)) (st\<lparr>st_gas := st_gas st - g\<rparr>)
      else (True, st\<lparr>st_gas := st_gas st - g\<rparr>)) = (True, st0)"
    "(if IsBerlin (ee_rules env)
      then go_bind (PrepareAccessList (m_from msg) (m_to msg) (ActivePrecompiles (ee_rules env)) (m_accessList msg)
              (evm_StateDB (st_evm st0))) (\<lambda>s. Inr (st0\<lparr>st_evm := (st_evm st0)\<lparr>evm_StateDB := s\<rparr>\<rparr>))
      else Inr st0) = Inr st1"
proof -
  let ?i = "IntrinsicGas (m_data msg) (m_accessList msg) (m_to msg = None) (IsHomestead (ee_rules env)) (IsIstanbul (ee_rules env))"
  show thesis
  proof (cases ?i)
    case (Inl e)
    have "e = ErrGasUintOverflow"
      using Inl by (auto simp: IntrinsicGas_def Let_def go_bind_def split: if_splits sum.splits)
    then show thesis using assms Inl by (intro refused [of e]) (simp_all add: after_check_def Let_def)
  next
    case (Inr g)
    let ?st = "st\<lparr>st_gas := st_gas st - g\<rparr>"
    obtain can st1 where c: "(if m_amount msg > 0 then st_ask (CanTransfer (m_from msg) (m_amount msg)) ?st else (True, ?st)) = (can, st1)"
      by (cases "if m_amount msg > 0 then st_ask (CanTransfer (m_from msg) (m_amount msg)) ?st else (True, ?st)")
    have same: "st_gp st1 = st_gp st \<and> st_gas st1 = st_gas st - g \<and> st_initialGas st1 = st_initialGas st \<and> core (st_evm st1) = core (st_evm st)"
      using c st_ask_same [of "CanTransfer (m_from msg) (m_amount msg)" ?st can st1] by (auto split: if_splits)
    show thesis
    proof (cases "st_gas st < g \<or> \<not> can")
      case True
      then show thesis using assms Inr c
        by (intro refused [of "if st_gas st < g then ErrIntrinsicGas else ErrInsufficientFundsForTransfer"])
          (auto simp: after_check_def Let_def split: if_splits)
    next
      case False
      let ?p = "if IsBerlin (ee_rules env)
          then go_bind (PrepareAccessList (m_from msg) (m_to msg) (ActivePrecompiles (ee_rules env)) (m_accessList msg)
                  (evm_StateDB (st_evm st1))) (\<lambda>s. Inr (st1\<lparr>st_evm := (st_evm st1)\<lparr>evm_StateDB := s\<rparr>\<rparr>))
          else Inr st1"
      have "go_bind ?p (\<lambda>st. go_bind (run_message env msg st) (\<lambda>(r, st). finish_message env bc msg r st)) = Inr (out, st')"
        using assms Inr c False by (simp add: after_check_def Let_def)
      then obtain st1' where p: "?p = Inr st1'"
        and f: "go_bind (run_message env msg st1') (\<lambda>(r, st). finish_message env bc msg r st) = Inr (out, st')" by (rule go_bind_InrE)
      have "core (st_evm st1') = core (st_evm st1) \<and> st_gas st1' = st_gas st1 \<and> st_gp st1' = st_gp st1 \<and> st_initialGas st1' = st_initialGas st1"
        using p by (auto split: if_splits elim!: go_bind_InrE)
      moreover obtain r st2 where "run_message env msg st1' = Inr (r, st2)" "finish_message env bc msg r st2 = Inr (out, st')"
        using f by (auto elim!: go_bind_InrE)
      moreover have "(if m_amount msg > 0 then st_ask (CanTransfer (m_from msg) (m_amount msg)) ?st else (True, ?st)) = (True, st1)"
        using c False by simp
      ultimately show thesis using run [OF Inr, of st1' r st2 st1] same False p by (simp add: not_less)
    qed
  qed
qed

lemma finish_message_E:
  assumes "finish_message env bc msg r st = Inr (out, st')" and "CallStack (st_evm st) = []"
  obtains refund where "refund \<le> gasUsed st div (if IsLondon (ee_rules env) then 5 else 2)" "st_gas st' = st_gas st + refund"
    "st_gp st' = st_gp st + st_gas st'" "st_initialGas st' = st_initialGas st" "core (st_evm st') = core (st_evm st)"
    "out = Inr \<lparr>UsedGas = gasUsed st', er_Err = cr_err r, ReturnData = cr_ret r\<rparr>"
    "\<exists>tip. effective_tip env bc msg = Inr tip \<and> evm_StateDB (st_evm st') =
       sd_AddBalance (bc_Coinbase bc) (uint (gasUsed st') * tip)
         (sd_AddBalance (m_from msg) (uint (st_gas st') * m_gasPrice msg) (evm_StateDB (st_evm st)))"
proof -
  define q :: uint64 where "q = (if IsLondon (ee_rules env) then 5 else 2)"
  define refund where "refund = min (gasUsed st div q) (sd_refund (evm_StateDB (st_evm st)))"
  have m: "(if gasUsed st div q > sd_refund (evm_StateDB (st_evm st)) then sd_refund (evm_StateDB (st_evm st)) else gasUsed st div q) = refund"
    by (auto simp: refund_def min_def)
  define st1 where "st1 = st_tell (sd_AddBalance (m_from msg) (uint (st_gas st + refund) * m_gasPrice msg)) (st\<lparr>st_gas := st_gas st + refund\<rparr>)"
  have "refundGas msg q st = go_bind (AddGas (st_gas st1) (st_gp st1)) (\<lambda>gp. Inr (st1\<lparr>st_gp := gp\<rparr>))"
    unfolding refundGas_def Let_def m by (simp add: st1_def)
  with assms(1) obtain st3 where b: "go_bind (AddGas (st_gas st1) (st_gp st1)) (\<lambda>gp. Inr (st1\<lparr>st_gp := gp\<rparr>)) = Inr st3"
    and p: "pay_miner env bc msg st3 = Inr st'" and o: "out = message_result r st'"
    unfolding finish_message_def q_def [symmetric] by (auto elim!: go_bind_InrE)
  have g: "st_gp st3 = st_gp st1 + st_gas st1" "st_gas st3 = st_gas st1" "st_initialGas st3 = st_initialGas st1" "core (st_evm st3) = core (st_evm st1)"
    using b by (auto simp: AddGas_def elim!: go_bind_InrE split: if_splits)
  have s2: "st_gp st' = st_gp st3" "st_gas st' = st_gas st1" "st_initialGas st' = st_initialGas st1" "core (st_evm st') = core (st_evm st1)"
    using p g by (auto simp: pay_miner_def elim!: go_bind_InrE)
  have "gasUsed st' = gasUsed st3" using s2 g by (simp add: gasUsed_def)
  then have db: "\<exists>tip. effective_tip env bc msg = Inr tip \<and> evm_StateDB (st_evm st') =
       sd_AddBalance (bc_Coinbase bc) (uint (gasUsed st') * tip)
         (sd_AddBalance (m_from msg) (uint (st_gas st1) * m_gasPrice msg) (evm_StateDB (st_evm st)))"
    using p b by (auto simp: pay_miner_def st1_def st_tell_def tell_def elim!: go_bind_InrE)
  have c: "core (st_evm st') = core (st_evm st)" using s2(4) by (simp add: st1_def)
  then have "CallStack (st_evm st') = []" using assms(2) by (simp add: core_def)
  then have "out = Inr \<lparr>UsedGas = gasUsed st', er_Err = cr_err r, ReturnData = cr_ret r\<rparr>" using o by (simp add: message_result_def)
  then show thesis
    unfolding q_def by (intro that [of refund]) (use c g(1) s2 db in \<open>simp_all add: st1_def refund_def q_def\<close>)
qed

text \<open>The arithmetic of the gas: no wrap-around, and at least half of what was burnt stays used.\<close>

lemma gas_account:
  fixes L g left refund q :: uint64
  assumes "g \<le> L" and "left \<le> L - g" and "refund \<le> (L - left) div q" and "q = 5 \<or> q = 2"
  shows "L - (left + refund) \<le> L" "(unat q - 1) * unat g \<le> unat q * unat (L - (left + refund))" "unat (L - (left + refund)) = unat L - unat left - unat refund"
proof -
  have a: "unat (L - g) = unat L - unat g" using assms(1) by (simp add: unat_sub)
  have b: "unat left \<le> unat L - unat g" using assms(2) a by (simp add: word_le_nat_alt)
  have gl: "unat g \<le> unat L" using assms(1) by (simp add: word_le_nat_alt)
  have "left \<le> L" using b by (simp add: word_le_nat_alt)
  then have x: "unat (L - left) = unat L - unat left" by (simp add: unat_sub)
  have d: "unat refund \<le> (unat L - unat left) div unat q" using assms(3) x by (simp add: word_le_nat_alt unat_div)
  have "(unat L - unat left) div unat q \<le> (unat L - unat left) div 2" using assms(4) by (auto intro: div_le_mono2)
  then have r: "unat refund \<le> (unat L - unat left) div 2" using d by simp
  then have sum: "unat left + unat refund \<le> unat L" using b by linarith
  then have u: "unat (left + refund) = unat left + unat refund"
    using unsigned_less [where 'a = nat, of L] by (simp add: unat_word_ariths)
  then have le: "left + refund \<le> L" using sum by (simp add: word_le_nat_alt)
  then show "L - (left + refund) \<le> L" by (rule sub_le)
  show e: "unat (L - (left + refund)) = unat L - unat left - unat refund" using le u by (simp add: unat_sub)
  define x where "x = unat L - unat left"
  have "unat q * unat refund \<le> x" using d unfolding x_def by (metis dual_order.trans mult_le_mono2 times_div_less_eq_dividend)
  moreover have "unat g \<le> x" using b gl by (simp add: x_def)
  ultimately show "(unat q - 1) * unat g \<le> unat q * unat (L - (left + refund))"
    unfolding e x_def [symmetric] using assms(4) by auto
qed

text \<open>What a message may leave behind, by its outcome.\<close>

definition accounted :: "evm_env \<Rightarrow> Message \<Rightarrow> uint64 \<Rightarrow> ExternalTx \<Rightarrow> tx_err + ExecutionResult \<Rightarrow> StateTransition \<Rightarrow> bool" where
  "accounted env msg gp ex out st' \<longleftrightarrow>
     (case out of
        Inl e \<Rightarrow> \<forall>n. e \<noteq> ErrCallStackLength n
      | Inr res \<Rightarrow>
          (\<exists>g ts. IntrinsicGas (m_data msg) (m_accessList msg) (m_to msg = None) (IsHomestead (ee_rules env)) (IsIstanbul (ee_rules env)) = Inr g \<and>
             UsedGas res \<le> m_gasLimit msg \<and> m_gasLimit msg \<le> gp \<and> st_gp st' = gp - UsedGas res \<and>
             (if IsLondon (ee_rules env) then 4 * unat g \<le> 5 * unat (UsedGas res) else unat g \<le> 2 * unat (UsedGas res)) \<and>
             CallStack (st_evm st') = [] \<and> ExTx (st_evm st') = ex\<lparr>ex_InTxs := ex_InTxs ex @ ts\<rparr> \<and> length ts \<le> 1 \<and>
             (\<forall>t \<in> set ts. record_of (AccountRef (m_from msg)) (message_req msg (m_gasLimit msg - g)) t)))"

lemma message_req_gas [simp]: "req_gas (message_req msg gas) = gas"
  by (simp add: message_req_def split: option.split)

lemma one_record_list:
  assumes "one_record caller req evm evm'"
  shows "\<exists>ts. length ts \<le> 1 \<and> (\<forall>t \<in> set ts. record_of caller req t) \<and> recorded ts evm evm'"
  using assms unfolding one_record_def by (auto intro: exI [of _ "[]"] exI [of _ "[_]"])

lemma run_account:
  assumes "gas_sound env" and "CallStack (st_evm st) = []" and "st_gas st = 0" and b: "bought msg st st1"
    and i: "IntrinsicGas (m_data msg) (m_accessList msg) (m_to msg = None) (IsHomestead (ee_rules env)) (IsIstanbul (ee_rules env)) = Inr g"
    and g: "g \<le> st_gas st1" and s2: "st_gas st2 = st_gas st1 - g" "st_gp st2 = st_gp st1" "st_initialGas st2 = st_initialGas st1"
    "core (st_evm st2) = core (st_evm st1)" and r: "run_message env msg st2 = Inr (r, st3)" and f: "finish_message env bc msg r st3 = Inr (out, st')"
  shows "accounted env msg (st_gp st) (ExTx (st_evm st)) out st'"
proof -
  define L where "L = m_gasLimit msg"
  have L: "L \<le> st_gp st" "st_gp st1 = st_gp st - L" "st_gas st1 = L" "st_initialGas st1 = L" "core (st_evm st1) = core (st_evm st)"
    using b assms(3) by (simp_all add: bought_def L_def)
  from r obtain evm0 where e: "evm_calls env (AccountRef (m_from msg)) (message_req msg (st_gas st2)) evm0 = Inr (r, st_evm st3)"
    "core evm0 = core (st_evm st2)" "st_gas st3 = cr_gas r" "st_gp st3 = st_gp st2" "st_initialGas st3 = st_initialGas st2"
    by (rule run_message_E)
  have c0: "core evm0 = core (st_evm st)" using e(2) s2(4) L(5) by simp
  then have evm0: "CallStack evm0 = []" "ExTx evm0 = ExTx (st_evm st)" using assms(2) by (simp_all add: core_def)
  have "one_record (AccountRef (m_from msg)) (message_req msg (L - g)) evm0 (st_evm st3)"
    using evm_calls_one [OF e(1)] s2(1) L(3) by simp
  then obtain ts where ts: "length ts \<le> 1" "\<forall>t \<in> set ts. record_of (AccountRef (m_from msg)) (message_req msg (L - g)) t"
    and rec: "recorded ts evm0 (st_evm st3)"
    using one_record_list by blast
  have st3: "CallStack (st_evm st3) = []" "ExTx (st_evm st3) = (ExTx (st_evm st))\<lparr>ex_InTxs := ex_InTxs (ExTx (st_evm st)) @ ts\<rparr>"
    using rec evm0 by (simp_all add: recorded_def)
  have left: "st_gas st3 \<le> L - g" using evm_calls_gas [OF assms(1) e(1)] e(3) s2(1) L(3) by simp
  have i3: "st_initialGas st3 = L" using e(5) s2(3) L(4) by simp
  from f st3(1) obtain refund where fin: "refund \<le> gasUsed st3 div (if IsLondon (ee_rules env) then 5 else 2)" "st_gas st' = st_gas st3 + refund"
    "st_gp st' = st_gp st3 + st_gas st'" "st_initialGas st' = st_initialGas st3" "core (st_evm st') = core (st_evm st3)"
    "out = Inr \<lparr>UsedGas = gasUsed st', er_Err = cr_err r, ReturnData = cr_ret r\<rparr>"
    by (rule finish_message_E)
  have used: "gasUsed st' = L - (st_gas st3 + refund)" using fin(2,4) i3 by (simp add: gasUsed_def)
  note acc = gas_account [of g L "st_gas st3" refund "if IsLondon (ee_rules env) then 5 else 2"]
  have gL: "g \<le> L" using g L(3) by simp
  have rf: "refund \<le> (L - st_gas st3) div (if IsLondon (ee_rules env) then 5 else 2)" using fin(1) i3 by (simp add: gasUsed_def)
  have "CallStack (st_evm st') = []" "ExTx (st_evm st') = ExTx (st_evm st3)" using fin(5) st3(1) by (simp_all add: core_def)
  moreover have "st_gp st' = st_gp st - gasUsed st'" using fin(2,3) e(4) s2(2) L(2) used by simp
  ultimately show ?thesis
    unfolding accounted_def fin(6) using i ts st3(2) L(1) acc(1,2) [OF gL left rf] used
    by (auto simp: L_def split: if_splits)
qed

lemma transition_account:
  assumes "gas_sound env" and "CallStack (st_evm st) = []" and "st_gas st = 0"
    and "transition check env bc msg st = Inr (out, st')"
    and "\<And>e st1. check st = Inr (Some e, st1) \<Longrightarrow> \<forall>n. e \<noteq> ErrCallStackLength n"
    and "\<And>st1. check st = Inr (None, st1) \<Longrightarrow> bought msg st st1"
  shows "accounted env msg (st_gp st) (ExTx (st_evm st)) out st'"
proof -
  from assms(4) obtain err st1 where c: "check st = Inr (err, st1)"
    and n: "(case err of Some e \<Rightarrow> Inr (Inl e, st1) | None \<Rightarrow> after_check env bc msg st1) = Inr (out, st')"
    by (auto simp: transition_def elim!: go_bind_InrE)
  show ?thesis
  proof (cases err)
    case (Some e)
    then show ?thesis using n assms(5) c by (auto simp: accounted_def)
  next
    case None
    then have b: "bought msg st st1" and a: "after_check env bc msg st1 = Inr (out, st')" using n c assms(6) by simp_all
    from a show ?thesis
    proof (cases rule: after_check_E)
      case (refused e)
      then show ?thesis by (simp add: accounted_def)
    next
      case (run g st2' st2 r st3)
      show ?thesis
        using run_account [OF assms(1,2,3) b run(1-8)] by simp
    qed
  qed
qed

lemma SubGas_err: "SubGas a gp = Inl e \<Longrightarrow> e = ErrGasLimitReached"
  by (simp add: SubGas_def split: if_splits)

lemma buyGas_err: "buyGas msg st = (Some e, st1) \<Longrightarrow> \<forall>n. e \<noteq> ErrCallStackLength n"
  using SubGas_err by (fastforce simp: buyGas_def Let_def split: prod.splits if_splits sum.splits)

lemma after_fees_err: "after_fees env bc msg st = Inr (Some e, st1) \<Longrightarrow> \<forall>n. e \<noteq> ErrCallStackLength n"
  using buyGas_err
  by (auto simp: after_fees_def check_fees_def go_bind_def split: sum.splits option.splits if_splits)

lemma check_err:
  "check_sender msg st = (Some e, st1) \<Longrightarrow> \<forall>n. e \<noteq> ErrCallStackLength n"
  "check_nonce msg st = (Some e, st1) \<Longrightarrow> \<forall>n. e \<noteq> ErrCallStackLength n"
  by (auto simp: check_sender_def check_nonce_def Let_def split: prod.splits if_splits)

lemma preCheck_err:
  "preCheckSu env bc msg st = Inr (Some e, st1) \<Longrightarrow> \<forall>n. e \<noteq> ErrCallStackLength n"
  "preCheck env bc msg st = Inr (Some e, st1) \<Longrightarrow> \<forall>n. e \<noteq> ErrCallStackLength n"
  using after_fees_err check_err
  by (auto simp: preCheckSu_def preCheck_def Let_def split: prod.splits if_splits option.splits)

lemma ApplyMessage_account:
  assumes "gas_sound env" and "CallStack evm = []"
    and "ApplyMessage env bc evm msg gp = Inr (out, st') \<or> ApplyMessageTest env bc evm msg gp = Inr (out, st')"
  shows "accounted env msg gp (ExTx evm) out st'"
  using assms(3)
proof
  assume "ApplyMessage env bc evm msg gp = Inr (out, st')"
  then have "transition (preCheck env bc msg) env bc msg (NewStateTransition evm gp) = Inr (out, st')"
    by (simp only: ApplyMessage_def TransitionDb_def)
  from transition_account [OF assms(1) _ _ this preCheck_err(2) preCheck_bought(2)] assms(2)
  show ?thesis by (simp add: NewStateTransition_def)
next
  assume "ApplyMessageTest env bc evm msg gp = Inr (out, st')"
  then have "transition (preCheckSu env bc msg) env bc msg (NewStateTransition evm gp) = Inr (out, st')"
    by (simp only: ApplyMessageTest_def TransitionDbTest_def)
  from transition_account [OF assms(1) _ _ this preCheck_err(1) preCheck_bought(1)] assms(2)
  show ?thesis by (simp add: NewStateTransition_def)
qed

section \<open>The main property\<close>

text \<open>
  C11: the gas of a message adds up. When the interpreter makes no gas and the call stack is empty, a message, with or
  without the check of the nonce, never ends with the error that the call stack is not empty. When it runs, the gas used
  is at most its limit, the gas pool is lower by just the gas used, at least half (four fifths since London) of the
  intrinsic gas is used, the call stack is empty again, and at most one record, of the call or creation that the
  message asks for, is added to the external transaction.
\<close>

theorem applied_messages_add_up:
  assumes "gas_sound env" and "CallStack evm = []"
    and "ApplyMessage env bc evm msg gp = Inr (out, st') \<or> ApplyMessageTest env bc evm msg gp = Inr (out, st')"
  shows "case out of
      Inl e \<Rightarrow> \<forall>n. e \<noteq> ErrCallStackLength n
    | Inr res \<Rightarrow>
        (\<exists>g ts. IntrinsicGas (m_data msg) (m_accessList msg) (m_to msg = None) (IsHomestead (ee_rules env)) (IsIstanbul (ee_rules env)) = Inr g \<and>
           UsedGas res \<le> m_gasLimit msg \<and> m_gasLimit msg \<le> gp \<and> st_gp st' = gp - UsedGas res \<and>
           (if IsLondon (ee_rules env) then 4 * unat g \<le> 5 * unat (UsedGas res) else unat g \<le> 2 * unat (UsedGas res)) \<and>
           CallStack (st_evm st') = [] \<and> ExTx (st_evm st') = (ExTx evm)\<lparr>ex_InTxs := ex_InTxs (ExTx evm) @ ts\<rparr> \<and> length ts \<le> 1 \<and>
           (\<forall>t \<in> set ts. record_of (AccountRef (m_from msg)) (message_req msg (m_gasLimit msg - g)) t))"
  using ApplyMessage_account [OF assms] unfolding accounted_def .

text \<open>A message to the contract of the sample, and code that keeps the gas it is given.\<close>

definition gas_env :: evm_env where
  "gas_env = sample_env\<lparr>ee_code := (\<lambda>c input ro. if input = [] then Emit [5] [] (c_Gas c) (Halt (Some [6]) None (c_Gas c))
     else Op (OpSetState (c_self c) 2 3) (\<lambda>_. Halt None (Some ErrExecutionReverted) (c_Gas c)))\<rparr>"

definition sample_message :: "bytes \<Rightarrow> Message" where
  "sample_message d = \<lparr>m_from = 17, m_to = Some 17, m_nonce = 1, m_amount = 0, m_gasLimit = 30000, m_gasPrice = 0, m_gasFeeCap = 0,
     m_gasTipCap = 0, m_data = d, m_accessList = [], m_isFake = True\<rparr>"

definition sample_block :: block_ctx where
  "sample_block = \<lparr>bc_Coinbase = 17, bc_BaseFee = None, bc_NoBaseFee = False\<rparr>"

lemma gas_env_sound: "gas_sound gas_env"
  by (simp add: gas_sound_def gas_env_def)

lemma gas_env_precompile: "precompile gas_env 17 = None"
  by (simp add: precompile_def ActivePrecompiles_def gas_env_def sample_env_def)

lemma holds_nonce:
  assumes "holds_contract obj t" and "n \<noteq> 0"
  shows "\<exists>obj'. holds_contract obj' (sd_SetNonce 17 n t)"
  using assms contract_object [OF assms(1)]
  by (auto simp: holds_contract_def sd_SetNonce_def so_SetNonce_def so_setNonce_def Let_def setStateObject_def sd_append_def)

lemma holds_log: "holds_contract obj t \<Longrightarrow> holds_contract obj (snd (AddLog l t))"
  by (simp add: holds_contract_def AddLog_def Let_def sd_append_def)

lemma gas_env_rules [simp]:
  "IsHomestead (ee_rules gas_env) = True" "IsIstanbul (ee_rules gas_env) = False" "IsBerlin (ee_rules gas_env) = False"
  "IsLondon (ee_rules gas_env) = False"
  by (simp_all add: gas_env_def sample_env_def)

lemma sample_message_simps [simp]:
  "m_from (sample_message d) = 17" "m_to (sample_message d) = Some 17" "m_amount (sample_message d) = 0"
  "m_gasLimit (sample_message d) = 30000" "m_gasPrice (sample_message d) = 0" "m_gasFeeCap (sample_message d) = 0"
  "m_data (sample_message d) = d" "m_accessList (sample_message d) = []" "m_isFake (sample_message d) = True"
  by (simp_all add: sample_message_def)

lemma go_bind_assoc: "go_bind (go_bind m f) g = go_bind m (\<lambda>x. go_bind (f x) g)"
  by (simp add: go_bind_def split: sum.split)

lemma sample_intrinsic: "IntrinsicGas [] [] False True False = Inr 21000" "IntrinsicGas [1] [] False True False = Inr 21068"
  by (simp_all add: IntrinsicGas_def StorageKeys_def MaxUint64_def Let_def)

lemma sample_applied:
  assumes "IntrinsicGas d [] False True False = Inr g" and "\<not> 30000 < g"
  shows "ApplyMessageTest gas_env bc (NewEVM sample_db) (sample_message d) 100000 =
     go_bind (evm_calls gas_env (AccountRef 17) (ReqCall 17 d (30000 - g) 0) (NewEVM (sd_SetNonce 17 2 sample_db)))
       (\<lambda>x. finish_message gas_env bc (sample_message d) (fst x)
          \<lparr>st_evm = snd x, st_gp = 70000, st_gas = cr_gas (fst x), st_initialGas = 30000\<rparr>)"
proof -
  note o = contract_object [OF sample_holds] and b = contract_balance [OF sample_holds]
  have bal: "GetBalance 17 sample_db = (0, sample_db)" "GetNonce 17 sample_db = (1, sample_db)"
    using o by (simp_all add: GetBalance_def GetNonce_def sample_contract_def newObject_def zeroAccount_def Let_def)
  have "preCheckSu gas_env bc (sample_message d) (NewStateTransition (NewEVM sample_db) 100000) =
     Inr (None, \<lparr>st_evm = NewEVM sample_db, st_gp = 70000, st_gas = 30000, st_initialGas = 30000\<rparr>)"
    using bal b
    by (simp add: preCheckSu_def after_fees_def check_fees_def buyGas_def st_ask_def ask_def
        SubGas_def NewStateTransition_def NewEVM_def st_tell_def tell_def)
  then show ?thesis
    using bal assms
    by (simp add: ApplyMessageTest_def TransitionDbTest_def transition_def after_check_def
        run_message_def ask_def tell_def NewEVM_def go_bind_assoc split_beta Let_def)
qed

lemma sample_finish:
  assumes "holds_contract obj (evm_StateDB evm)" and "sd_refund (evm_StateDB evm) = 0" and "CallStack evm = []"
  shows "finish_message gas_env sample_block (sample_message d) r \<lparr>st_evm = evm, st_gp = 70000, st_gas = 9000, st_initialGas = 30000\<rparr> =
    Inr (Inr \<lparr>UsedGas = 21000, er_Err = cr_err r, ReturnData = cr_ret r\<rparr>,
      \<lparr>st_evm = evm, st_gp = 79000, st_gas = 9000, st_initialGas = 30000\<rparr>)"
  using assms contract_balance [OF assms(1)]
  by (simp add: finish_message_def refundGas_def pay_miner_def effective_tip_def message_result_def st_tell_def tell_def AddGas_def MaxUint64_def
      gasUsed_def sample_block_def Let_def)

theorem applied_messages_add_up_witness:
  "\<exists>res st' t. ApplyMessageTest gas_env sample_block (NewEVM sample_db) (sample_message []) 100000 = Inr (Inr res, st') \<and>
     UsedGas res = 21000 \<and> er_Err res = None \<and> st_gp st' = 79000 \<and> CallStack (st_evm st') = [] \<and>
     ex_InTxs (ExTx (st_evm st')) = [t] \<and> record_of (AccountRef 17) (ReqCall 17 [] 9000 0) t"
proof -
  let ?s = "sd_SetNonce 17 2 sample_db" and ?run = "evm_Run gas_env (evm_calls_from (\<lambda>caller req evm. Inl (ExplicitPanic ''too deep'')) (Suc CallCreateDepth) gas_env)"
  obtain obj where h: "holds_contract obj ?s" using holds_nonce [OF sample_holds, of 2] by auto
  obtain c where c: "evm_Call gas_env ?run (AccountRef 17) 17 [] 9000 0 (NewEVM ?s) =
      go_bind (run_recorded ?run c [] False (push_frame (InternalTx 17 17 True (Some 0) ''Call'' [] [] [])
          ((NewEVM ?s)\<lparr>evm_StateDB := snd (sd_Snapshot ?s)\<rparr>))) (\<lambda>(r, evm'). finish_call (fst (sd_Snapshot ?s)) r evm')"
    "c_Code c = [1]" "c_self c = 17" "c_Gas c = 9000"
    using contract_Call [of obj "NewEVM ?s" gas_env ?run "[]" 9000] h gas_env_precompile by (auto simp: NewEVM_def)
  have "\<exists>r evm' l. evm_calls gas_env (AccountRef 17) (ReqCall 17 [] 9000 0) (NewEVM ?s) = Inr (r, evm') \<and> cr_gas r = 9000 \<and>
      cr_err r = None \<and> CallStack evm' = [] \<and> evm_StateDB evm' = snd (AddLog l (snd (sd_Snapshot ?s))) \<and>
      length (ex_InTxs (ExTx evm')) = 1"
    unfolding evm_calls_unfold using c
    by (simp add: run_recorded_def evm_Run_def gas_env_def makeLogSu_def ask_def split_beta set_events_def pop_frame_def push_frame_def
        NewEVM_def Let_def finish_call_def itx_set_events_def) blast
  then obtain r evm' l where r: "evm_calls gas_env (AccountRef 17) (ReqCall 17 [] 9000 0) (NewEVM ?s) = Inr (r, evm')" "cr_gas r = 9000"
    "cr_err r = None" "CallStack evm' = []" "evm_StateDB evm' = snd (AddLog l (snd (sd_Snapshot ?s)))" "length (ex_InTxs (ExTx evm')) = 1"
    by (elim exE conjE)
  have "holds_contract obj (evm_StateDB evm')" using r(5) holds_log [OF holds_snapshot [OF h]] by simp
  moreover have "sd_refund ?s = 0"
    using contract_object [OF sample_holds] by (simp add: sd_SetNonce_def so_SetNonce_def) (simp add: sample_db_def state_New_def)
  then have "sd_refund (evm_StateDB evm') = 0" using r(5) by (simp add: AddLog_def sd_Snapshot_def Let_def)
  ultimately have f: "ApplyMessageTest gas_env sample_block (NewEVM sample_db) (sample_message []) 100000 =
      Inr (Inr \<lparr>UsedGas = 21000, er_Err = None, ReturnData = cr_ret r\<rparr>, \<lparr>st_evm = evm', st_gp = 79000, st_gas = 9000, st_initialGas = 30000\<rparr>)"
    using sample_applied [OF sample_intrinsic(1)] r(1-4) sample_finish by simp
  from applied_messages_add_up [OF gas_env_sound _ disjI2 [OF f]]
  obtain ts where ts: "ex_InTxs (ExTx evm') = ts" "\<forall>t \<in> set ts. record_of (AccountRef 17) (message_req (sample_message []) 9000) t"
    by (auto simp: NewEVM_def sample_intrinsic)
  moreover obtain t where "ex_InTxs (ExTx evm') = [t]" using r(6) by (auto simp: length_Suc_conv)
  ultimately show ?thesis using f r(4) by (auto simp: message_req_def)
qed

end
