(* ===== verification/Failed_Message.thy ===== *)
theory Failed_Message
  imports State_Transition
begin

text \<open>
  What a transaction costs when the call it makes fails (\<open>core/state_transition.go\<close>): the sender pays the gas used and its
  nonce goes up, the miner is paid, and nothing else changes.
\<close>

section \<open>Worlds of a state database\<close>

definition stands :: "StateDB \<Rightarrow> world \<Rightarrow> bool" where
  "stands s w \<longleftrightarrow> (\<exists>m. simulates s m \<and> m_world m = w)"

lemma stands_view: "stands s w \<Longrightarrow> state_view s = w"
  by (auto simp: stands_def simulates_def)

lemma stands_looks: "looks s s' \<Longrightarrow> stands s w \<Longrightarrow> stands s' w"
  unfolding stands_def looks_def by metis

lemma stands_write:
  assumes "plain_op x" and "exec_op x s = Inr (r, s')" and "stands s w" and "a_basic x w = Some (r', w')"
  shows "stands s' w'"
proof -
  obtain m where m: "simulates s m" "m_world m = w" using assms(3) unfolding stands_def by blast
  obtain w1 where "a_basic x (m_world m) = Some (r, w1)" "simulates s' (m\<lparr>m_world := w1\<rparr>)" using plain_exec [OF assms(1,2) m(1)] .
  then show ?thesis using assms(4) m(2) unfolding stands_def by (intro exI [of _ "m\<lparr>m_world := w1\<rparr>"]) simp
qed

lemma nonce_read:
  assumes "stands s w"
  shows "fst (GetNonce a s) = a_read 0 (\<lambda>x. sa_Nonce (a_data x)) a w"
proof -
  obtain m where m: "simulates s m" "m_world m = w" using assms unfolding stands_def by blast
  have e: "exec_op (OpGetNonce a) s = Inr (AWord (fst (GetNonce a s)), snd (GetNonce a s))" by (simp add: answering_def)
  have "plain_op (OpGetNonce a)" by simp
  from plain_exec [OF this e m(1)] obtain w1 where "a_basic (OpGetNonce a) (m_world m) = Some (AWord (fst (GetNonce a s)), w1)" .
  then show ?thesis using m(2) by auto
qed

lemma stands_writes:
  assumes "stands s w"
  shows "stands (sd_AddBalance a b s) (a_change a (\<lambda>x. set_balance (sa_Balance (a_data x) + b) x) w)"
    "stands (sd_SubBalance a b s) (a_change a (\<lambda>x. set_balance (sa_Balance (a_data x) - b) x) w)"
    "stands (sd_SetNonce a n s) (a_change a (set_nonce n) w)"
  using stands_write [OF _ _ assms, of "OpAddBalance a b"] stands_write [OF _ _ assms, of "OpSubBalance a b"]
    stands_write [OF _ _ assms, of "OpSetNonce a n"]
  by (auto simp: silent_def)

text \<open>Worlds that differ in the access list alone.\<close>

definition relisted :: "world \<Rightarrow> world \<Rightarrow> bool" where
  "relisted w w' \<longleftrightarrow> (\<exists>al. w' = w\<lparr>w_accessList := al\<rparr>)"

definition relists :: "StateDB \<Rightarrow> StateDB \<Rightarrow> bool" where
  "relists s s' \<longleftrightarrow> (\<forall>w. stands s w \<longrightarrow> (\<exists>w'. stands s' w' \<and> relisted w w'))"

lemma relisted_refl [simp]: "relisted w w"
  unfolding relisted_def by (rule exI [of _ "w_accessList w"]) simp

lemma relisted_trans: "relisted w1 w2 \<Longrightarrow> relisted w2 w3 \<Longrightarrow> relisted w1 w3"
  by (auto simp: relisted_def)

lemma relists_refl [simp]: "relists s s"
  unfolding relists_def using relisted_refl by blast

lemma relists_trans: "relists s t \<Longrightarrow> relists t u \<Longrightarrow> relists s u"
  unfolding relists_def using relisted_trans by blast

lemma relists_looks: "looks s s' \<Longrightarrow> relists s s'"
  unfolding relists_def using stands_looks relisted_refl by blast

lemma relists_write:
  assumes "plain_op x" and "exec_op x s = Inr (r, s')" and "\<And>w r w'. a_basic x w = Some (r, w') \<Longrightarrow> relisted w w'"
  shows "relists s s'"
  unfolding relists_def
proof (intro allI impI)
  fix w
  assume s: "stands s w"
  then obtain m where m: "simulates s m" "m_world m = w" unfolding stands_def by blast
  obtain w1 where "a_basic x (m_world m) = Some (r, w1)" using plain_exec [OF assms(1,2) m(1)] .
  then show "\<exists>w'. stands s' w' \<and> relisted w w'" using stands_write [OF assms(1,2) s] assms(3) m(2) by blast
qed

lemma relists_address: "relists s (AddAddressToAccessList a s)"
  by (rule relists_write [of "OpAddAddress a"]) (auto simp: silent_def relisted_def)

lemma relists_slot: "AddSlotToAccessList a k s = Inr s' \<Longrightarrow> relists s s'"
  by (rule relists_write [of "OpAddSlot a k"]) (auto simp: silent_def relisted_def split: sum.splits)

lemma relists_fold: "relists s (fold AddAddressToAccessList xs s)"
  by (induction xs arbitrary: s) (auto intro: relists_trans [OF relists_address])

lemma relists_go_fold:
  assumes "\<And>x s s'. f x s = Inr s' \<Longrightarrow> relists s s'" and "go_fold f xs s = Inr s'"
  shows "relists s s'"
  using assms(2)
proof (induction xs arbitrary: s)
  case (Cons x xs)
  then obtain t where "f x s = Inr t" "go_fold f xs t = Inr s'" by (auto elim!: go_bind_InrE)
  then show ?case using relists_trans [OF assms(1) Cons.IH] by blast
qed simp

lemma relists_prepare:
  assumes "PrepareAccessList sender dst precompiles l s = Inr s'"
  shows "relists s s'"
proof -
  have slots: "relists s s'" if "go_fold (AddSlotToAccessList a) ks s = Inr s'" for a ks s s'
    using relists_go_fold [OF relists_slot that] .
  define s1 where "s1 = AddAddressToAccessList sender s"
  define s2 where "s2 = (case dst of None \<Rightarrow> s1 | Some a \<Rightarrow> AddAddressToAccessList a s1)"
  have "relists s s2" unfolding s2_def s1_def
    by (simp add: relists_address relists_trans [OF relists_address relists_address] split: option.split)
  moreover have "go_fold (\<lambda>(a, ks) s. go_fold (AddSlotToAccessList a) ks (AddAddressToAccessList a s)) l
      (fold AddAddressToAccessList precompiles s2) = Inr s'"
    unfolding s2_def s1_def using assms by (simp add: PrepareAccessList_def Let_def)
  then have "relists (fold AddAddressToAccessList precompiles s2) s'"
    by (rule relists_go_fold [rotated]) (auto intro: relists_trans [OF relists_address slots] split: prod.splits)
  ultimately show ?thesis using relists_trans relists_fold by blast
qed

section \<open>The world along a transition\<close>

abbreviation st_db :: "StateTransition \<Rightarrow> StateDB" where
  "st_db st \<equiv> evm_StateDB (st_evm st)"

lemma st_ask_looks:
  assumes "st_ask f st = (r, st')" and "\<And>s. looks s (snd (f s))"
  shows "looks (st_db st) (st_db st')"
  using assms(1) assms(2) [of "st_db st"] by (auto simp: st_ask_def ask_def split: prod.splits)

definition charged :: "Message \<Rightarrow> world \<Rightarrow> world" where
  "charged msg = a_change (m_from msg) (\<lambda>x. set_balance (sa_Balance (a_data x) - uint (m_gasLimit msg) * m_gasPrice msg) x)"

lemma buyGas_stands:
  assumes "buyGas msg st = (None, st1)" and "stands (st_db st) w"
  shows "stands (st_db st1) (charged msg w)"
proof -
  obtain b st0 where a: "st_ask (GetBalance (m_from msg)) st = (b, st0)" by (cases "st_ask (GetBalance (m_from msg)) st")
  then have "stands (st_db st0) w" using st_ask_looks [OF a looks_reads(1)] stands_looks assms(2) by blast
  from stands_writes(2) [OF this] show ?thesis
    using assms(1) a by (auto simp: buyGas_def Let_def SubGas_def charged_def st_tell_def tell_def split: if_splits)
qed

lemma after_fees_stands:
  assumes "after_fees env bc msg st = Inr (None, st1)" and "stands (st_db st) w"
  shows "stands (st_db st1) (charged msg w)"
  using assms buyGas_stands by (auto simp: after_fees_def elim!: go_bind_InrE split: option.splits)

lemma check_looks:
  "check_sender msg st = (e, st') \<Longrightarrow> looks (st_db st) (st_db st')"
  "check_nonce msg st = (e, st') \<Longrightarrow> looks (st_db st) (st_db st')"
  using st_ask_looks [OF _ looks_reads(5)] st_ask_looks [OF _ looks_reads(2)]
  by (fastforce simp: check_sender_def check_nonce_def Let_def split: prod.splits if_splits)+

lemma preCheck_stands:
  assumes "stands (st_db st) w"
  shows "preCheckSu env bc msg st = Inr (None, st1) \<Longrightarrow> stands (st_db st1) (charged msg w)"
    "preCheck env bc msg st = Inr (None, st1) \<Longrightarrow> stands (st_db st1) (charged msg w)"
proof -
  obtain e st0 where s: "check_sender msg st = (e, st0)" by (cases "check_sender msg st")
  have s0: "stands (st_db st0) w" by (rule stands_looks [OF check_looks(1) [OF s] assms])
  show "preCheckSu env bc msg st = Inr (None, st1) \<Longrightarrow> stands (st_db st1) (charged msg w)"
    using s s0 assms by (auto simp: preCheckSu_def Let_def intro: after_fees_stands split: if_splits option.splits)
  obtain e1 st2 where n: "check_nonce msg st = (e1, st2)" by (cases "check_nonce msg st")
  obtain e2 st3 where s2: "check_sender msg st2 = (e2, st3)" by (cases "check_sender msg st2")
  have s3: "stands (st_db st3) w"
    by (rule stands_looks [OF check_looks(1) [OF s2] stands_looks [OF check_looks(2) [OF n] assms]])
  show "preCheck env bc msg st = Inr (None, st1) \<Longrightarrow> stands (st_db st1) (charged msg w)"
    using n s2 s3 assms by (auto simp: preCheck_def Let_def intro: after_fees_stands split: if_splits option.splits)
qed

lemma failed_call_stands:
  assumes "opcodes env" and "evm_calls env caller (ReqCall to input gas v) evm = Inr (r, evm')" and "cr_err r \<noteq> None"
    and "stands (evm_StateDB evm) w"
  shows "stands (evm_StateDB evm') w"
proof -
  have p: "call_safe (\<lambda>caller req evm. Inl (ExplicitPanic ''too deep''))" by (simp add: call_safe_def)
  have "undone evm r evm'"
    using evm_request_undone [OF evm_Run_safe [OF assms(1) evm_calls_from_safe [OF assms(1) p]]] assms(2)
    unfolding evm_calls_unfold by fastforce
  then show ?thesis using assms(3,4) unfolding undone_def stands_def by blast
qed

text \<open>The nonce and the balance of the sender, after its gas was bought, its nonce raised and gas was paid back.\<close>

lemma a_get_change: "\<not> a_deleted (f (a_get a w)) \<Longrightarrow> a_get a (a_change a f w) = f (a_get a w)"
  by (simp add: a_change_def a_get_def acct_put)

lemma a_get_live: "\<not> a_deleted (a_get a w)"
  by (simp add: a_get_def acct_def fresh_codeless split: option.splits)

lemma a_read_get: "a_read 0 (\<lambda>x. sa_Nonce (a_data x)) a w = sa_Nonce (a_data (a_get a w))"
  by (simp add: a_read_def a_get_def fresh_account_def newObject_def zeroAccount_def split: option.split)

lemma relisted_simps:
  "relisted w w' \<Longrightarrow> a_get a w' = a_get a w" "relisted w w' \<Longrightarrow> w_accounts w' = w_accounts w" "relisted w w' \<Longrightarrow> w_logs w' = w_logs w"
  by (auto simp: relisted_def a_get_def acct_def split: option.split)

lemma a_change_other: "a \<noteq> b \<Longrightarrow> w_accounts (a_change b f w) a = w_accounts w a" "w_accounts (a_change a f w) a = Some (f (a_get a w))"
  "w_logs (a_change b f w) = w_logs w"
  by (simp_all add: a_change_def a_put_def)

lemma a_get_other: "a \<noteq> b \<Longrightarrow> a_get a (a_change b f w) = a_get a w"
  by (simp add: a_change_def a_put_def a_get_def acct_def split: option.split)

definition gas_paid :: "Address \<Rightarrow> Address \<Rightarrow> int \<Rightarrow> int \<Rightarrow> world \<Rightarrow> world \<Rightarrow> bool" where
  "gas_paid sender coinbase cost reward w w' \<longleftrightarrow>
     (\<forall>a. a \<noteq> sender \<and> a \<noteq> coinbase \<longrightarrow> w_accounts w' a = w_accounts w a) \<and> w_logs w' = w_logs w \<and>
     (sender \<noteq> coinbase \<longrightarrow> w_accounts w' sender =
        Some (set_nonce (sa_Nonce (a_data (a_get sender w)) + 1) (set_balance (sa_Balance (a_data (a_get sender w)) - cost) (a_get sender w)))) \<and>
     (sender \<noteq> coinbase \<longrightarrow> w_accounts w' coinbase =
        Some (set_balance (sa_Balance (a_data (a_get coinbase w)) + reward) (a_get coinbase w))) \<and>
     (sender = coinbase \<longrightarrow> w_accounts w' sender =
        Some (set_nonce (sa_Nonce (a_data (a_get sender w)) + 1)
          (set_balance (sa_Balance (a_data (a_get sender w)) - cost + reward) (a_get sender w))))"

lemma gas_paidI:
  assumes "relisted (charged msg w) w2" and "n = sa_Nonce (a_data (a_get (m_from msg) w2)) + 1"
    and "w' = a_change coinbase (\<lambda>x. set_balance (sa_Balance (a_data x) + reward) x)
      (a_change (m_from msg) (\<lambda>x. set_balance (sa_Balance (a_data x) + left * m_gasPrice msg) x) (a_change (m_from msg) (set_nonce n) w2))"
  shows "gas_paid (m_from msg) coinbase ((uint (m_gasLimit msg) - left) * m_gasPrice msg) reward w w'"
proof -
  let ?a = "m_from msg"
  let ?x = "a_get ?a w" and ?repay = "\<lambda>x. set_balance (sa_Balance (a_data x) + left * m_gasPrice msg) x"
  let ?y = "?repay (set_nonce n (a_get ?a w2))"
  have g: "a_get ?a w2 = set_balance (sa_Balance (a_data ?x) - uint (m_gasLimit msg) * m_gasPrice msg) ?x"
    unfolding relisted_simps(1) [OF assms(1)] charged_def by (rule a_get_change) (simp add: set_balance_def a_get_live)
  have g2: "a_get ?a (a_change ?a (set_nonce n) w2) = set_nonce n (a_get ?a w2)"
    by (rule a_get_change) (simp add: set_nonce_def a_get_live)
  have g3: "a_get ?a (a_change ?a ?repay (a_change ?a (set_nonce n) w2)) = ?y"
    unfolding g2 [symmetric] by (rule a_get_change) (simp add: set_balance_def a_get_live)
  have y: "?y = set_nonce (sa_Nonce (a_data ?x) + 1)
      (set_balance (sa_Balance (a_data ?x) - (uint (m_gasLimit msg) - left) * m_gasPrice msg) ?x)"
    unfolding assms(2) g by (simp add: set_balance_def set_nonce_def algebra_simps)
  have "w_accounts w' a = w_accounts w a" if "a \<noteq> ?a" "a \<noteq> coinbase" for a
    using that unfolding assms(3) by (simp add: a_change_other relisted_simps(2) [OF assms(1)] charged_def)
  moreover have "w_logs w' = w_logs w"
    unfolding assms(3) by (simp add: a_change_other relisted_simps(3) [OF assms(1)] charged_def)
  moreover have "w_accounts w' ?a = Some ?y" if "?a \<noteq> coinbase"
    using that unfolding assms(3) by (simp add: a_change_other g2)
  moreover have "w_accounts w' coinbase = Some (set_balance (sa_Balance (a_data (a_get coinbase w)) + reward) (a_get coinbase w))"
    if "?a \<noteq> coinbase"
    using that unfolding assms(3) charged_def
    by (simp add: a_change_other a_get_other relisted_simps(1) [OF assms(1)] charged_def)
  moreover have "w_accounts w' ?a = Some (set_balance (sa_Balance (a_data ?y) + reward) ?y)" if "?a = coinbase"
    using that g3 unfolding assms(3) by (simp add: a_change_other)
  ultimately show ?thesis
    unfolding gas_paid_def y by (simp add: set_balance_def set_nonce_def)
qed

lemma run_failed:
  assumes "opcodes env" and "stands (st_db st1) (charged msg w)" and "m_to msg = Some to" and "CallStack (st_evm st3) = []"
    and c: "(if m_amount msg > 0 then st_ask (CanTransfer (m_from msg) (m_amount msg)) (st1\<lparr>st_gas := st_gas st1 - g\<rparr>)
      else (True, st1\<lparr>st_gas := st_gas st1 - g\<rparr>)) = (True, st0)"
    and p: "(if IsBerlin (ee_rules env)
      then go_bind (PrepareAccessList (m_from msg) (m_to msg) (ActivePrecompiles (ee_rules env)) (m_accessList msg)
              (evm_StateDB (st_evm st0))) (\<lambda>s. Inr (st0\<lparr>st_evm := (st_evm st0)\<lparr>evm_StateDB := s\<rparr>\<rparr>))
      else Inr st0) = Inr st2"
    and r: "run_message env msg st2 = Inr (r, st3)" and f: "finish_message env bc msg r st3 = Inr (Inr res, st')" and e: "er_Err res \<noteq> None"
  shows "\<exists>tip. effective_tip env bc msg = Inr tip \<and> gas_paid (m_from msg) (bc_Coinbase bc)
    ((uint (m_gasLimit msg) - uint (st_gas st')) * m_gasPrice msg) (uint (UsedGas res) * tip) w (state_view (st_db st'))"
proof -
  have "looks (st_db st1) (st_db st0)"
    using c st_ask_looks [of "CanTransfer (m_from msg) (m_amount msg)" "st1\<lparr>st_gas := st_gas st1 - g\<rparr>" True st0] looks_reads(6)
    by (auto split: if_splits)
  moreover have "relists (st_db st0) (st_db st2)"
    using p relists_prepare by (auto split: if_splits elim!: go_bind_InrE)
  ultimately obtain w2 where w2: "stands (st_db st2) w2" "relisted (charged msg w) w2"
    using assms(2) stands_looks unfolding relists_def by blast
  obtain n evm1 where a: "ask (GetNonce (m_from msg)) (st_evm st2) = (n, evm1)" by (cases "ask (GetNonce (m_from msg)) (st_evm st2)")
  have n: "GetNonce (m_from msg) (st_db st2) = (n, evm_StateDB evm1)" using a by (auto simp: ask_def split: prod.splits)
  have s1: "stands (evm_StateDB evm1) w2" using stands_looks [OF looks_reads(2) [of "st_db st2" "m_from msg"] w2(1)] n by simp
  have nonce: "n = sa_Nonce (a_data (a_get (m_from msg) w2))"
    using nonce_read [OF w2(1), of "m_from msg"] n a_read_get by simp
  let ?evm = "tell (sd_SetNonce (m_from msg) (n + 1)) evm1"
  have s2: "stands (evm_StateDB ?evm) (a_change (m_from msg) (set_nonce (n + 1)) w2)"
    using stands_writes(3) [OF s1] by (simp add: tell_def)
  have call: "evm_calls env (AccountRef (m_from msg)) (ReqCall to (m_data msg) (st_gas st2) (m_amount msg)) ?evm = Inr (r, st_evm st3)"
    using r a assms(3) by (auto simp: run_message_def Let_def elim!: go_bind_InrE)
  from f assms(4) obtain tip where fin: "Inr res = (Inr \<lparr>UsedGas = gasUsed st', er_Err = cr_err r, ReturnData = cr_ret r\<rparr> :: tx_err + ExecutionResult)"
    "effective_tip env bc msg = Inr tip"
    "st_db st' = sd_AddBalance (bc_Coinbase bc) (uint (gasUsed st') * tip) (sd_AddBalance (m_from msg) (uint (st_gas st') * m_gasPrice msg) (st_db st3))"
    by (elim finish_message_E exE conjE) blast
  then have "cr_err r \<noteq> None" using e by auto
  then have "stands (st_db st3) (a_change (m_from msg) (set_nonce (n + 1)) w2)" by (rule failed_call_stands [OF assms(1) call _ s2])
  from stands_writes(1) [OF stands_writes(1) [OF this]] have "stands (st_db st')
      (a_change (bc_Coinbase bc) (\<lambda>x. set_balance (sa_Balance (a_data x) + uint (gasUsed st') * tip) x)
        (a_change (m_from msg) (\<lambda>x. set_balance (sa_Balance (a_data x) + uint (st_gas st') * m_gasPrice msg) x)
          (a_change (m_from msg) (set_nonce (n + 1)) w2)))" unfolding fin(3) .
  from gas_paidI [OF w2(2) _ stands_view [OF this]] show ?thesis using fin(1,2) by (simp add: nonce)
qed

lemma gas_left:
  fixes L g used :: uint64
  assumes "used = L - g" and "used \<le> L"
  shows "uint L - uint g = uint used"
proof -
  have "g = L - used" using assms(1) by simp
  then have "uint g = uint L - uint used" using assms(2) by (simp add: uint_sub_lem [THEN iffD1] word_le_def)
  then show ?thesis by simp
qed

lemma transition_failed:
  assumes "opcodes env" and "gas_sound env" and "CallStack (st_evm st) = []" and "st_gas st = 0" and "stands (st_db st) w" and "m_to msg = Some to"
    and t: "transition check env bc msg st = Inr (Inr res, st')" and e: "er_Err res \<noteq> None"
    and err: "\<And>e st1. check st = Inr (Some e, st1) \<Longrightarrow> \<forall>n. e \<noteq> ErrCallStackLength n"
    and buy: "\<And>st1. check st = Inr (None, st1) \<Longrightarrow> bought msg st st1"
    and sta: "\<And>st1. check st = Inr (None, st1) \<Longrightarrow> stands (st_db st1) (charged msg w)"
  shows "\<exists>tip. effective_tip env bc msg = Inr tip \<and>
    gas_paid (m_from msg) (bc_Coinbase bc) (uint (UsedGas res) * m_gasPrice msg) (uint (UsedGas res) * tip) w (state_view (st_db st'))"
proof -
  have "accounted env msg (st_gp st) (ExTx (st_evm st)) (Inr res) st'"
    by (rule transition_account [OF assms(2,3,4) t]) (use err buy in blast)+
  then have used: "UsedGas res \<le> m_gasLimit msg" by (auto simp: accounted_def)
  from t obtain st1 where c: "check st = Inr (None, st1)" and a: "after_check env bc msg st1 = Inr (Inr res, st')"
    by (auto simp: transition_def elim!: go_bind_InrE split: option.splits)
  note b = buy [OF c] and s = sta [OF c]
  from a show ?thesis
  proof (cases rule: after_check_E)
    case (run g st0 st2 r st3)
    from run(7) obtain evm0 where "evm_calls env (AccountRef (m_from msg)) (message_req msg (st_gas st2)) evm0 = Inr (r, st_evm st3)"
      "core evm0 = core (st_evm st2)" "st_initialGas st3 = st_initialGas st2" by (rule run_message_E)
    moreover from this(2) have "CallStack evm0 = []" using run(6) b assms(3) by (simp add: bought_def core_def)
    ultimately have st3: "CallStack (st_evm st3) = []" "st_initialGas st3 = m_gasLimit msg"
      using evm_calls_one run(5) b by (fastforce simp: one_record_def recorded_def bought_def)+
    from run(8) st3(1) have "UsedGas res = gasUsed st'" "st_initialGas st' = st_initialGas st3" by (auto elim: finish_message_E)
    then have "uint (m_gasLimit msg) - uint (st_gas st') = uint (UsedGas res)"
      using gas_left used st3(2) by (simp add: gasUsed_def)
    then show ?thesis using run_failed [OF assms(1) s assms(6) st3(1) run(9,10,7,8) e] by simp
  qed simp
qed

text \<open>
  C10: a failed transaction costs its gas and nothing else. When the call of a message ends with an error, whatever the
  contracts did before, every account but those of the sender and the miner is as it was and no log is left. The
  sender has paid just the gas used at the gas price and has its nonce one higher; the miner has got the gas used at the
  effective tip (the gas price before London, since then the tip cap or what the fee cap leaves above the base
  fee); the rest of both accounts, code and storage included, is as it was. A sender that is the miner has
  both changes. An account that is not there yet counts as a fresh one.
\<close>

theorem failed_messages_cost_gas:
  assumes "opcodes env" and "gas_sound env" and "CallStack evm = []" and "simulates (evm_StateDB evm) m" and "m_to msg = Some to"
    and "ApplyMessage env bc evm msg gp = Inr (Inr res, st') \<or> ApplyMessageTest env bc evm msg gp = Inr (Inr res, st')"
    and "er_Err res \<noteq> None" and "w = state_view (evm_StateDB evm)" and "w' = state_view (evm_StateDB (st_evm st'))"
  shows "\<exists>tip. effective_tip env bc msg = Inr tip \<and>
    (\<forall>a. a \<noteq> m_from msg \<and> a \<noteq> bc_Coinbase bc \<longrightarrow> w_accounts w' a = w_accounts w a) \<and> w_logs w' = w_logs w \<and>
    (m_from msg \<noteq> bc_Coinbase bc \<longrightarrow> w_accounts w' (m_from msg) =
       Some (set_nonce (sa_Nonce (a_data (a_get (m_from msg) w)) + 1)
         (set_balance (sa_Balance (a_data (a_get (m_from msg) w)) - uint (UsedGas res) * m_gasPrice msg) (a_get (m_from msg) w)))) \<and>
    (m_from msg \<noteq> bc_Coinbase bc \<longrightarrow> w_accounts w' (bc_Coinbase bc) =
       Some (set_balance (sa_Balance (a_data (a_get (bc_Coinbase bc) w)) + uint (UsedGas res) * tip) (a_get (bc_Coinbase bc) w))) \<and>
    (m_from msg = bc_Coinbase bc \<longrightarrow> w_accounts w' (m_from msg) =
       Some (set_nonce (sa_Nonce (a_data (a_get (m_from msg) w)) + 1)
         (set_balance (sa_Balance (a_data (a_get (m_from msg) w)) - uint (UsedGas res) * m_gasPrice msg + uint (UsedGas res) * tip)
           (a_get (m_from msg) w))))"
proof -
  let ?st = "NewStateTransition evm gp"
  have s: "stands (st_db ?st) w" using assms(4,8) by (auto simp: stands_def simulates_def NewStateTransition_def)
  have st: "CallStack (st_evm ?st) = []" "st_gas ?st = 0" using assms(3) by (simp_all add: NewStateTransition_def)
  from assms(6) have "\<exists>tip. effective_tip env bc msg = Inr tip \<and>
    gas_paid (m_from msg) (bc_Coinbase bc) (uint (UsedGas res) * m_gasPrice msg) (uint (UsedGas res) * tip) w (state_view (st_db st'))"
  proof
    assume "ApplyMessage env bc evm msg gp = Inr (Inr res, st')"
    then have "transition (preCheck env bc msg) env bc msg ?st = Inr (Inr res, st')" by (simp only: ApplyMessage_def TransitionDb_def)
    from transition_failed [OF assms(1,2) st s assms(5) this assms(7) preCheck_err(2) preCheck_bought(2) preCheck_stands(2) [OF s]]
    show ?thesis .
  next
    assume "ApplyMessageTest env bc evm msg gp = Inr (Inr res, st')"
    then have "transition (preCheckSu env bc msg) env bc msg ?st = Inr (Inr res, st')" by (simp only: ApplyMessageTest_def TransitionDbTest_def)
    from transition_failed [OF assms(1,2) st s assms(5) this assms(7) preCheck_err(1) preCheck_bought(1) preCheck_stands(1) [OF s]]
    show ?thesis .
  qed
  then show ?thesis unfolding gas_paid_def assms(9) .
qed

text \<open>A message that writes a slot and reverts.\<close>

lemma gas_env_opcodes: "opcodes gas_env"
  by (simp add: opcodes_def gas_env_def)

lemma sample_reverts:
  assumes "holds_contract obj s" and "simulates s m"
  shows "\<exists>evm'. evm_calls gas_env (AccountRef 17) (ReqCall 17 [1] gas 0) (NewEVM s) = Inr (CallRes None 0 gas (Some ErrExecutionReverted), evm')"
proof -
  let ?run = "evm_Run gas_env (evm_calls_from (\<lambda>caller req evm. Inl (ExplicitPanic ''too deep'')) (Suc CallCreateDepth) gas_env)"
  obtain n t where n: "sd_Snapshot s = (n, t)" by (cases "sd_Snapshot s")
  obtain c where c: "evm_Call gas_env ?run (AccountRef 17) 17 [1] gas 0 (NewEVM s) =
      go_bind (run_recorded ?run c [1] False (push_frame (InternalTx 17 17 True (Some 0) ''Call'' [1] [] [])
          ((NewEVM s)\<lparr>evm_StateDB := t\<rparr>))) (\<lambda>(r, evm'). finish_call n r evm')"
    "c_Code c = [1]" "c_self c = 17" "c_Gas c = gas"
    using contract_Call [of obj "NewEVM s" gas_env ?run "[1]" gas] assms(1) gas_env_precompile n by (auto simp: NewEVM_def)
  obtain m1 where m1: "simulates t m1" "m_saved m1 = m_saved m @ [(n, m_world m)] @ []" "n \<notin> fst ` set (m_saved m)"
    using snapshot_saves [OF assms(2) n] by auto
  have "moves t (sd_SetState 17 2 3 t)" by (rule plain_moves [of "OpSetState 17 2 3"]) (simp_all add: silent_def)
  then obtain m2 where m2: "simulates (sd_SetState 17 2 3 t) m2" "m_saved m2 = m_saved m @ [(n, m_world m)] @ []"
    using m1(1,2) unfolding moves_def by metis
  obtain s' where "RevertToSnapshot n (sd_SetState 17 2 3 t) = Inr s'" using revert_restores [OF m2 m1(3)] by auto
  then show ?thesis
    unfolding evm_calls_unfold using c
    by (simp add: run_recorded_def evm_Run_def gas_env_def silent_def set_events_def pop_frame_def push_frame_def NewEVM_def Let_def finish_call_def)
qed

lemma sample_finish_any:
  assumes "sd_refund (evm_StateDB evm) = 0" and "CallStack evm = []" and "g \<le> 30000"
  shows "\<exists>st'. finish_message gas_env bc msg r \<lparr>st_evm = evm, st_gp = 70000, st_gas = g, st_initialGas = 30000\<rparr> =
    Inr (Inr \<lparr>UsedGas = 30000 - g, er_Err = cr_err r, ReturnData = cr_ret r\<rparr>, st')"
proof -
  have "unat g \<le> 30000" using assms(3) by (simp add: word_le_nat_alt)
  then have "\<not> 70000 > MaxUint64 - g" by (simp add: MaxUint64_def word_less_nat_alt unat_sub unsigned_minus_1_eq_mask mask_eq_exp_minus_1)
  moreover have "(if (30000 - g) div 2 > 0 then 0 else (30000 - g) div 2) = 0" by (simp add: word_gt_0)
  ultimately show ?thesis
    using assms(1,2)
    by (simp add: finish_message_def refundGas_def pay_miner_def effective_tip_def message_result_def st_tell_def tell_def AddGas_def gasUsed_def
        Let_def word_gt_0)
qed

text \<open>The contract of the sample with money of its own, and a message of its that pays two for a unit of gas.\<close>

definition funded_db :: StateDB where
  "funded_db = sd_AddBalance 17 100000 sample_db"

definition paid_message :: Message where
  "paid_message = (sample_message [1])\<lparr>m_gasPrice := 2, m_gasFeeCap := 2\<rparr>"

lemma holds_paid:
  assumes "holds_contract obj t" and "b \<noteq> 0" and "x = sa_Balance (so_data obj)"
  shows "\<exists>obj'. holds_contract obj' (sd_AddBalance 17 b t) \<and> sa_Balance (so_data obj') = x + b \<and> sa_Nonce (so_data obj') = sa_Nonce (so_data obj)"
    "\<exists>obj'. holds_contract obj' (sd_SubBalance 17 b t) \<and> sa_Balance (so_data obj') = x - b \<and> sa_Nonce (so_data obj') = sa_Nonce (so_data obj)"
  using assms contract_object [OF assms(1)]
  by (auto simp: holds_contract_def sd_AddBalance_def so_AddBalance_def sd_SubBalance_def so_SubBalance_def so_SetBalance_def so_setBalance_def
      Let_def setStateObject_def sd_append_def)

lemma paid_applied:
  assumes "holds_contract obj s" and "sa_Balance (so_data obj) = 100000" and "sa_Nonce (so_data obj) = 1"
  shows "ApplyMessageTest gas_env bc (NewEVM s) paid_message 100000 =
     go_bind (evm_calls gas_env (AccountRef 17) (ReqCall 17 [1] 8932 0) (NewEVM (sd_SetNonce 17 2 (sd_SubBalance 17 60000 s))))
       (\<lambda>x. finish_message gas_env bc paid_message (fst x)
          \<lparr>st_evm = snd x, st_gp = 70000, st_gas = cr_gas (fst x), st_initialGas = 30000\<rparr>)"
proof -
  let ?s = "sd_SubBalance 17 60000 s"
  have m: "m_from paid_message = 17" "m_to paid_message = Some 17" "m_amount paid_message = 0" "m_gasLimit paid_message = 30000"
    "m_gasPrice paid_message = 2" "m_gasFeeCap paid_message = 2" "m_data paid_message = [1]" "m_accessList paid_message = []"
    "m_isFake paid_message = True" by (simp_all add: paid_message_def sample_message_def)
  obtain obj' where o: "holds_contract obj' ?s" "sa_Nonce (so_data obj') = 1" using holds_paid(2) [OF assms(1), of 60000] assms(3) by auto
  have bal: "GetBalance 17 s = (100000, s)" "GetNonce 17 ?s = (1, ?s)"
    using contract_object [OF assms(1)] contract_object [OF o(1)] assms(2) o(2) by (simp_all add: GetBalance_def GetNonce_def)
  have "preCheckSu gas_env bc paid_message (NewStateTransition (NewEVM s) 100000) =
     Inr (None, \<lparr>st_evm = NewEVM ?s, st_gp = 70000, st_gas = 30000, st_initialGas = 30000\<rparr>)"
    using bal(1)
    by (simp add: preCheckSu_def after_fees_def check_fees_def buyGas_def st_ask_def ask_def m
        SubGas_def NewStateTransition_def NewEVM_def st_tell_def tell_def)
  then show ?thesis
    using bal(2) sample_intrinsic(2)
    by (simp add: ApplyMessageTest_def TransitionDbTest_def transition_def after_check_def m
        run_message_def ask_def tell_def NewEVM_def go_bind_assoc split_beta Let_def)
qed

theorem failed_messages_cost_gas_witness:
  "\<exists>res st'. ApplyMessageTest gas_env (sample_block\<lparr>bc_Coinbase := 19\<rparr>) (NewEVM funded_db) paid_message 100000 = Inr (Inr res, st') \<and>
     er_Err res = Some ErrExecutionReverted \<and> UsedGas res = 21068 \<and>
     w_accounts (state_view (evm_StateDB (st_evm st'))) 17 = Some (set_nonce 2 (set_balance 57864 (a_get 17 (state_view funded_db)))) \<and>
     w_accounts (state_view (evm_StateDB (st_evm st'))) 19 = Some (set_balance 42136 (fresh_account sample_backend 19))"
proof -
  let ?s = "sd_SetNonce 17 2 (sd_SubBalance 17 60000 funded_db)" and ?bc = "sample_block\<lparr>bc_Coinbase := 19\<rparr>"
  have z: "sa_Balance (so_data sample_contract) = 0" by (simp add: sample_contract_def newObject_def zeroAccount_def Let_def)
  obtain obj0 where h0: "holds_contract obj0 funded_db" "sa_Balance (so_data obj0) = 100000" "sa_Nonce (so_data obj0) = 1"
    using holds_paid(1) [OF sample_holds, of 100000] z by (auto simp: funded_db_def sample_contract_simps)
  obtain obj1 where "holds_contract obj1 (sd_SubBalance 17 60000 funded_db)" using holds_paid(2) [OF h0(1), of 60000] by auto
  from holds_nonce [OF this, of 2] obtain obj where h: "holds_contract obj ?s" by auto
  let ?v = "state_view sample_db" and ?fund = "\<lambda>x. set_balance (sa_Balance (a_data x) + 100000) x"
  have "stands sample_db ?v" using sample_start_db by (auto simp: stands_def fresh_machine_def)
  from stands_writes(1) [OF this, of 17 100000] have w0: "stands funded_db (a_change 17 ?fund ?v)" unfolding funded_db_def .
  note v0 = stands_view [OF w0]
  obtain m0 where m0: "simulates funded_db m0" using w0 unfolding stands_def by blast
  have rf: "w_refund (a_change a g u) = w_refund u" for a g u by (simp add: a_change_def a_put_def)
  obtain W where w: "stands ?s W" "w_refund W = w_refund ?v"
    by (rule that [OF stands_writes(3) [OF stands_writes(2) [OF w0]]]) (simp only: rf)
  obtain m where m: "simulates ?s m" using w(1) unfolding stands_def by blast
  obtain evm' where e: "evm_calls gas_env (AccountRef 17) (ReqCall 17 [1] 8932 0) (NewEVM ?s) =
      Inr (CallRes None 0 8932 (Some ErrExecutionReverted), evm')" using sample_reverts [OF h m] by blast
  have "stands (evm_StateDB evm') W" by (rule failed_call_stands [OF gas_env_opcodes e]) (simp_all add: NewEVM_def w(1))
  then have "w_refund (state_view (evm_StateDB evm')) = w_refund ?v" using stands_view w(2) by simp
  moreover have "w_refund ?v = 0" by (simp add: sample_db_def state_New_def)
  ultimately have "sd_refund (evm_StateDB evm') = 0" by simp
  moreover have "CallStack evm' = []" using evm_calls_one [OF e] by (auto simp: one_record_def recorded_def NewEVM_def)
  ultimately obtain st' where f: "ApplyMessageTest gas_env ?bc (NewEVM funded_db) paid_message 100000 =
      Inr (Inr \<lparr>UsedGas = 21068, er_Err = Some ErrExecutionReverted, ReturnData = None\<rparr>, st')"
    using paid_applied [OF h0, of ?bc] e sample_finish_any [of evm' 8932 ?bc paid_message "CallRes None 0 8932 (Some ErrExecutionReverted)"]
    by auto
  have live: "live sample_db 17 = Some sample_contract" "live sample_db 19 = None" "w_db ?v = sample_backend"
    by (simp_all add: live_def sample_db_def state_New_def load_object_def sample_backend_def)
  have "a_get 17 (a_change 17 ?fund ?v) = ?fund (a_get 17 ?v)" by (rule a_get_change) (simp add: set_balance_def a_get_live)
  moreover have "sa_Nonce (a_data (a_get 17 ?v)) = 1" "sa_Balance (a_data (a_get 17 ?v)) = 0"
    using live(1) z by (simp_all add: a_get_def acct_def sample_contract_simps)
  ultimately have a17: "sa_Nonce (a_data (a_get 17 (state_view funded_db))) = 1" "sa_Balance (a_data (a_get 17 (state_view funded_db))) = 100000"
    unfolding v0 by (simp_all add: set_balance_def)
  have a19: "a_get 19 (state_view funded_db) = fresh_account sample_backend 19"
    unfolding v0 using live(2,3) by (simp add: a_get_other) (simp add: a_get_def acct_def)
  have p: "m_from paid_message = 17" "m_to paid_message = Some 17" "m_gasPrice paid_message = 2"
    by (simp_all add: paid_message_def sample_message_def)
  have "effective_tip gas_env ?bc paid_message = Inr 2" by (simp add: effective_tip_def p)
  with failed_messages_cost_gas [OF gas_env_opcodes gas_env_sound _ _ p(2) disjI2 [OF f] _ refl refl, of m0] m0 a17 a19 p
  have "w_accounts (state_view (evm_StateDB (st_evm st'))) 17 = Some (set_nonce 2 (set_balance 57864 (a_get 17 (state_view funded_db)))) \<and>
     w_accounts (state_view (evm_StateDB (st_evm st'))) 19 = Some (set_balance 42136 (fresh_account sample_backend 19))"
    by (simp add: NewEVM_def) (simp add: fresh_account_def)
  then show ?thesis using f by auto
qed

end
