(* ===== verification/Code_Bitmap.thy ===== *)
theory Code_Bitmap
  imports Common_Types
begin

unbundle bit_operations_syntax

text \<open>
  Which bytes of a contract are instructions: \<open>core/vm/analysis.go\<close>. The arguments of the \<open>PUSH\<close> instructions are
  marked in a bit vector, up to sixteen at a time; a jump may only go to a byte that is not marked.
\<close>

type_synonym bitvec = bytes

definition byte_store :: "nat \<Rightarrow> byte \<Rightarrow> bytes \<Rightarrow> bytes go" where
  "byte_store i x b = (if i < length b then Inr (b[i := x]) else Inl IndexOutOfRange)"

definition byte_or :: "nat \<Rightarrow> byte \<Rightarrow> bytes \<Rightarrow> bytes go" where
  "byte_or i x b = go_bind (go_index b i) (\<lambda>y. byte_store i (y OR x) b)"

definition bits_set1 :: "nat \<Rightarrow> bitvec \<Rightarrow> bitvec go" where
  "bits_set1 pos bits = byte_or (pos div 8) (push_bit (pos mod 8) 1) bits"

definition bits_setN :: "16 word \<Rightarrow> nat \<Rightarrow> bitvec \<Rightarrow> bitvec go" where
  "bits_setN flag pos bits =
     (let a = push_bit (pos mod 8) flag
      in go_bind (byte_or (pos div 8) (ucast a) bits) (\<lambda>bits.
           let b = ucast (drop_bit 8 a) :: byte
           in if b \<noteq> 0 then byte_store (pos div 8 + 1) b bits else Inr bits))"

definition bits_set8 :: "nat \<Rightarrow> bitvec \<Rightarrow> bitvec go" where
  "bits_set8 pos bits =
     (let a = push_bit (pos mod 8) 0xFF :: byte
      in go_bind (byte_or (pos div 8) a bits) (\<lambda>bits. byte_store (pos div 8 + 1) (NOT a) bits))"

definition bits_set16 :: "nat \<Rightarrow> bitvec \<Rightarrow> bitvec go" where
  "bits_set16 pos bits =
     (let a = push_bit (pos mod 8) 0xFF :: byte
      in go_bind (byte_or (pos div 8) a bits) (\<lambda>bits.
         go_bind (byte_store (pos div 8 + 1) 0xFF bits) (\<lambda>bits.
         byte_store (pos div 8 + 2) (NOT a) bits)))"

definition codeSegment :: "nat \<Rightarrow> bitvec \<Rightarrow> bool go" where
  "codeSegment pos bits = go_bind (go_index bits (pos div 8)) (\<lambda>b. Inr (drop_bit (pos mod 8) b AND 1 = 0))"

definition PUSH1 :: byte where "PUSH1 = 0x60"
definition PUSH32 :: byte where "PUSH32 = 0x7f"

text \<open>The two inner loops, by sixteen and by eight.\<close>

fun set_sixteens :: "nat \<Rightarrow> nat \<Rightarrow> bitvec \<Rightarrow> (nat \<times> nat \<times> bitvec) go" where
  "set_sixteens numbits pc bits =
     (if numbits \<ge> 16 then go_bind (bits_set16 pc bits) (\<lambda>bits. set_sixteens (numbits - 16) (pc + 16) bits)
      else Inr (numbits, pc, bits))"

fun set_eights :: "nat \<Rightarrow> nat \<Rightarrow> bitvec \<Rightarrow> (nat \<times> nat \<times> bitvec) go" where
  "set_eights numbits pc bits =
     (if numbits \<ge> 8 then go_bind (bits_set8 pc bits) (\<lambda>bits. set_eights (numbits - 8) (pc + 8) bits)
      else Inr (numbits, pc, bits))"

definition set_rest :: "nat \<Rightarrow> nat \<Rightarrow> bitvec \<Rightarrow> (nat \<times> bitvec) go" where
  "set_rest numbits pc bits =
     (if numbits = 1 then go_bind (bits_set1 pc bits) (\<lambda>bits. Inr (pc + 1, bits))
      else if numbits = 2 then go_bind (bits_setN 0b11 pc bits) (\<lambda>bits. Inr (pc + 2, bits))
      else if numbits = 3 then go_bind (bits_setN 0b111 pc bits) (\<lambda>bits. Inr (pc + 3, bits))
      else if numbits = 4 then go_bind (bits_setN 0b1111 pc bits) (\<lambda>bits. Inr (pc + 4, bits))
      else if numbits = 5 then go_bind (bits_setN 0b11111 pc bits) (\<lambda>bits. Inr (pc + 5, bits))
      else if numbits = 6 then go_bind (bits_setN 0b111111 pc bits) (\<lambda>bits. Inr (pc + 6, bits))
      else if numbits = 7 then go_bind (bits_setN 0b1111111 pc bits) (\<lambda>bits. Inr (pc + 7, bits))
      else Inr (pc, bits))"

definition set_data :: "nat \<Rightarrow> nat \<Rightarrow> bitvec \<Rightarrow> (nat \<times> bitvec) go" where
  "set_data numbits pc bits =
     go_bind (set_sixteens numbits pc bits) (\<lambda>(numbits, pc, bits).
     go_bind (set_eights numbits pc bits) (\<lambda>(numbits, pc, bits). set_rest numbits pc bits))"

text \<open>
  The outer loop, with a bound on its rounds: every round moves \<open>pc\<close>, so the length of the code is enough.
\<close>

primrec codeBitmap_loop :: "nat \<Rightarrow> bytes \<Rightarrow> nat \<Rightarrow> bitvec \<Rightarrow> bitvec go" where
  "codeBitmap_loop 0 code pc bits = Inr bits"
| "codeBitmap_loop (Suc fuel) code pc bits =
     (if pc < length code
      then let op = code ! pc; pc = pc + 1
           in if op < PUSH1 \<or> op > PUSH32 then codeBitmap_loop fuel code pc bits
              else go_bind (set_data (unat (op - PUSH1 + 1)) pc bits) (\<lambda>(pc, bits). codeBitmap_loop fuel code pc bits)
      else Inr bits)"

definition codeBitmapInternal :: "bytes \<Rightarrow> bitvec \<Rightarrow> bitvec go" where
  "codeBitmapInternal code bits = codeBitmap_loop (length code) code 0 bits"

definition codeBitmap :: "bytes \<Rightarrow> bitvec go" where
  "codeBitmap code = codeBitmapInternal code (replicate (length code div 8 + 1 + 4) 0)"

section \<open>Instructions of a code\<close>

definition push_size :: "byte \<Rightarrow> nat" where
  "push_size op = (if op < PUSH1 \<or> op > PUSH32 then 0 else unat op - 0x5f)"

text \<open>The positions at which an instruction begins, from \<open>pc\<close> on.\<close>

function instructions_from :: "bytes \<Rightarrow> nat \<Rightarrow> nat list" where
  "instructions_from code pc =
     (if pc < length code then pc # instructions_from code (pc + 1 + push_size (code ! pc)) else [])"
  by auto
termination by (relation "measure (\<lambda>(code, pc). length code - pc)") auto

declare instructions_from.simps [simp del] set_sixteens.simps [simp del] set_eights.simps [simp del]

section \<open>Marked bits\<close>

definition bit_marked :: "bitvec \<Rightarrow> nat \<Rightarrow> bool" where
  "bit_marked bits p \<longleftrightarrow> bit (bits ! (p div 8)) (p mod 8)"

text \<open>A bit vector in which the \<open>n\<close> bits from \<open>pos\<close> on were set, and which was clear from there on.\<close>

definition extends :: "bitvec \<Rightarrow> nat \<Rightarrow> nat \<Rightarrow> bitvec \<Rightarrow> bool" where
  "extends bits pos n bits' \<longleftrightarrow> length bits' = length bits \<and>
     (\<forall>p < 8 * length bits. bit_marked bits' p = (bit_marked bits p \<or> pos \<le> p \<and> p < pos + n))"

definition clear_from :: "bitvec \<Rightarrow> nat \<Rightarrow> bool" where
  "clear_from bits pos \<longleftrightarrow> (\<forall>p. pos \<le> p \<and> p < 8 * length bits \<longrightarrow> \<not> bit_marked bits p)"

lemma extends_trans: "extends b p m b1 \<Longrightarrow> extends b1 (p + m) n b2 \<Longrightarrow> extends b p (m + n) b2"
  by (auto simp: extends_def)

lemma extends_clear: "extends b p n b1 \<Longrightarrow> clear_from b p \<Longrightarrow> clear_from b1 (p + n)"
  by (auto simp: extends_def clear_from_def)

lemma ones_byte: "(0xFF :: byte) = mask 8"
  by (simp add: mask_eq_exp_minus_1)

lemma bit_low: "bit (push_bit r (mask 8) :: byte) j \<longleftrightarrow> r \<le> j \<and> j < 8"
  by (auto simp: bit_simps)

lemma extendsI:
  assumes "length bits' = length bits"
    and "\<And>j t. j < length bits \<Longrightarrow> t < 8 \<Longrightarrow> bit (bits' ! j) t = (bit (bits ! j) t \<or> pos \<le> 8 * j + t \<and> 8 * j + t < pos + n)"
  shows "extends bits pos n bits'"
proof -
  have "bit_marked bits' p = (bit_marked bits p \<or> pos \<le> p \<and> p < pos + n)" if "p < 8 * length bits" for p
    using assms(2) [of "p div 8" "p mod 8"] that by (simp add: bit_marked_def less_mult_imp_div_less mult.commute)
  then show ?thesis using assms(1) by (simp add: extends_def)
qed

lemma clear_bit:
  assumes "clear_from bits pos" and "j < length bits" and "t < 8" and "pos \<le> 8 * j + t"
  shows "\<not> bit (bits ! j) t"
  using assms(1) [unfolded clear_from_def, rule_format, of "8 * j + t"] assms(2-4) by (simp add: bit_marked_def)

lemma set8_ok:
  assumes "clear_from bits pos" and "pos div 8 + 1 < length bits"
  shows "\<exists>bits'. bits_set8 pos bits = Inr bits' \<and> extends bits pos 8 bits'"
proof -
  define i r where "i = pos div 8" and "r = pos mod 8"
  have pos: "pos = 8 * i + r" "r < 8" by (simp_all add: i_def r_def)
  define bits' where "bits' = bits[i := bits ! i OR push_bit r (mask 8), i + 1 := NOT (push_bit r (mask 8))]"
  have "bits_set8 pos bits = Inr bits'"
    using assms(2) by (simp add: bits_set8_def byte_or_def byte_store_def go_index_def ones_byte bits'_def Let_def i_def r_def)
  moreover have "extends bits pos 8 bits'"
  proof (rule extendsI)
    fix j t :: nat
    assume j: "j < length bits" "t < 8"
    consider "j = i" | "j = i + 1" | "j \<noteq> i" "j \<noteq> i + 1" by blast
    then show "bit (bits' ! j) t = (bit (bits ! j) t \<or> pos \<le> 8 * j + t \<and> 8 * j + t < pos + 8)"
    proof cases
      case 2
      then have "\<not> bit (bits ! j) t" using clear_bit [OF assms(1) j] pos by simp
      then show ?thesis using 2 j pos by (auto simp: bits'_def bit_simps)
    qed (use j pos in \<open>auto simp: bits'_def bit_simps\<close>)
  qed (simp add: bits'_def)
  ultimately show ?thesis by blast
qed

lemma set16_ok:
  assumes "clear_from bits pos" and "pos div 8 + 2 < length bits"
  shows "\<exists>bits'. bits_set16 pos bits = Inr bits' \<and> extends bits pos 16 bits'"
proof -
  define i r where "i = pos div 8" and "r = pos mod 8"
  have pos: "pos = 8 * i + r" "r < 8" by (simp_all add: i_def r_def)
  define bits' where "bits' = bits[i := bits ! i OR push_bit r (mask 8), i + 1 := mask 8, i + 2 := NOT (push_bit r (mask 8))]"
  have "bits_set16 pos bits = Inr bits'"
    using assms(2) by (simp add: bits_set16_def byte_or_def byte_store_def go_index_def ones_byte bits'_def Let_def i_def r_def)
  moreover have "extends bits pos 16 bits'"
  proof (rule extendsI)
    fix j t :: nat
    assume j: "j < length bits" "t < 8"
    consider "j = i" | "j = i + 1 \<or> j = i + 2" | "j \<noteq> i" "j \<noteq> i + 1" "j \<noteq> i + 2" by blast
    then show "bit (bits' ! j) t = (bit (bits ! j) t \<or> pos \<le> 8 * j + t \<and> 8 * j + t < pos + 16)"
    proof cases
      case 2
      then have "\<not> bit (bits ! j) t" using clear_bit [OF assms(1) j] pos by auto
      then show ?thesis using 2 j pos by (auto simp: bits'_def bit_simps)
    qed (use j pos in \<open>auto simp: bits'_def bit_simps\<close>)
  qed (simp add: bits'_def)
  ultimately show ?thesis by blast
qed

lemma setN_ok:
  assumes "clear_from bits pos" and "pos div 8 + 1 < length bits" and "n \<le> 8"
  shows "\<exists>bits'. bits_setN (mask n) pos bits = Inr bits' \<and> extends bits pos n bits'"
proof -
  define i r where "i = pos div 8" and "r = pos mod 8"
  have pos: "pos = 8 * i + r" "r < 8" by (simp_all add: i_def r_def)
  define a b where "a = (ucast (push_bit r (mask n :: 16 word)) :: byte)" and "b = (ucast (drop_bit 8 (push_bit r (mask n :: 16 word))) :: byte)"
  have a: "bit a t \<longleftrightarrow> r \<le> t \<and> t < r + n" if "t < 8" for t using that assms(3) pos(2) by (auto simp: a_def bit_simps)
  have b: "bit b t \<longleftrightarrow> 8 + t < r + n" if "t < 8" for t using that assms(3) pos(2) by (auto simp: b_def bit_simps)
  define bits' where "bits' = (if b \<noteq> 0 then bits[i := bits ! i OR a, i + 1 := b] else bits[i := bits ! i OR a])"
  have "bits_setN (mask n) pos bits = Inr bits'"
    using assms(2) unfolding bits_setN_def Let_def i_def [symmetric] r_def [symmetric] a_def [symmetric] b_def [symmetric]
    by (simp add: byte_or_def byte_store_def go_index_def bits'_def)
  moreover have "extends bits pos n bits'"
  proof (rule extendsI)
    fix j t :: nat
    assume j: "j < length bits" "t < 8"
    consider "j = i" | "j = i + 1" | "j \<noteq> i" "j \<noteq> i + 1" by blast
    then show "bit (bits' ! j) t = (bit (bits ! j) t \<or> pos \<le> 8 * j + t \<and> 8 * j + t < pos + n)"
    proof cases
      case 1
      then show ?thesis using j pos a by (auto simp: bits'_def bit_simps)
    next
      case 2
      then have "\<not> bit (bits ! j) t" using clear_bit [OF assms(1) j] pos by simp
      moreover have "b = 0 \<Longrightarrow> \<not> 8 + t < r + n" using b [OF j(2)] by auto
      ultimately show ?thesis using 2 j pos b [OF j(2)] by (auto simp: bits'_def)
    next
      case 3
      then show ?thesis using j pos assms(3) by (auto simp: bits'_def)
    qed
  qed (simp add: bits'_def)
  ultimately show ?thesis by blast
qed

lemma set1_ok:
  assumes "pos div 8 < length bits"
  shows "\<exists>bits'. bits_set1 pos bits = Inr bits' \<and> extends bits pos 1 bits'"
proof -
  define i r where "i = pos div 8" and "r = pos mod 8"
  have pos: "pos = 8 * i + r" "r < 8" by (simp_all add: i_def r_def)
  define bits' where "bits' = bits[i := bits ! i OR push_bit r 1]"
  have "bits_set1 pos bits = Inr bits'"
    using assms by (simp add: bits_set1_def byte_or_def byte_store_def go_index_def bits'_def i_def r_def)
  moreover have "extends bits pos 1 bits'"
  proof (rule extendsI)
    fix j t :: nat
    assume j: "j < length bits" "t < 8"
    then show "bit (bits' ! j) t = (bit (bits ! j) t \<or> pos \<le> 8 * j + t \<and> 8 * j + t < pos + 1)"
      using pos by (cases "j = i") (auto simp: bits'_def bit_simps)
  qed (simp add: bits'_def)
  ultimately show ?thesis by blast
qed

lemma extends_refl [simp]: "extends b p 0 b"
  by (auto simp: extends_def)

lemma extends_length: "extends b p n b' \<Longrightarrow> length b' = length b"
  by (simp add: extends_def)

lemma div8: "(x + 16) div 8 = x div 8 + 2" "(x + 8) div 8 = x div 8 + 1" "(x + 8 * y) div 8 = x div 8 + y" "(x + 16 * y) div 8 = x div 8 + 2 * y"
  "(x + 16) div 16 = x div 16 + 1" for x y :: nat
  by simp_all

lemma set_sixteens_ok:
  "clear_from bits pc \<Longrightarrow> pc div 8 + numbits div 8 < length bits \<Longrightarrow>
    \<exists>bits'. set_sixteens numbits pc bits = Inr (numbits mod 16, pc + 16 * (numbits div 16), bits') \<and> extends bits pc (16 * (numbits div 16)) bits'"
proof (induction numbits pc bits rule: set_sixteens.induct)
  case (1 numbits pc bits)
  show ?case
  proof (cases "numbits \<ge> 16")
    case True
    define m where "m = numbits - 16"
    have n: "numbits = m + 16" using True by (simp add: m_def)
    have "pc div 8 + 2 < length bits" using 1(3) by (simp add: n div8)
    then obtain b where b: "bits_set16 pc bits = Inr b" "extends bits pc 16 b" using set16_ok [OF 1(2)] by blast
    moreover have "(pc + 16) div 8 + m div 8 < length b" using 1(3) extends_length [OF b(2)] by (simp add: n div8)
    ultimately obtain b' where b': "set_sixteens m (pc + 16) b = Inr (m mod 16, pc + 16 + 16 * (m div 16), b')"
      "extends b (pc + 16) (16 * (m div 16)) b'"
      using 1(1) [OF True, of b] extends_clear [OF b(2) 1(2)] by (auto simp: m_def)
    then show ?thesis using b extends_trans [OF b(2) b'(2)] by (subst set_sixteens.simps) (simp add: n div8 ac_simps)
  next
    case False
    then show ?thesis by (subst set_sixteens.simps) simp
  qed
qed

lemma set_eights_ok:
  "clear_from bits pc \<Longrightarrow> pc div 8 + numbits div 8 < length bits \<Longrightarrow>
    \<exists>bits'. set_eights numbits pc bits = Inr (numbits mod 8, pc + 8 * (numbits div 8), bits') \<and> extends bits pc (8 * (numbits div 8)) bits'"
proof (induction numbits pc bits rule: set_eights.induct)
  case (1 numbits pc bits)
  show ?case
  proof (cases "numbits \<ge> 8")
    case True
    define m where "m = numbits - 8"
    have n: "numbits = m + 8" using True by (simp add: m_def)
    have "pc div 8 + 1 < length bits" using 1(3) by (simp add: n div8)
    then obtain b where b: "bits_set8 pc bits = Inr b" "extends bits pc 8 b" using set8_ok [OF 1(2)] by blast
    moreover have "(pc + 8) div 8 + m div 8 < length b" using 1(3) extends_length [OF b(2)] by (simp add: n div8)
    ultimately obtain b' where b': "set_eights m (pc + 8) b = Inr (m mod 8, pc + 8 + 8 * (m div 8), b')"
      "extends b (pc + 8) (8 * (m div 8)) b'"
      using 1(1) [OF True, of b] extends_clear [OF b(2) 1(2)] by (auto simp: m_def)
    then show ?thesis using b extends_trans [OF b(2) b'(2)] by (subst set_eights.simps) (simp add: n div8 ac_simps)
  next
    case False
    then show ?thesis by (subst set_eights.simps) simp
  qed
qed

lemma masks: "(0b11 :: 16 word) = mask 2" "(0b111 :: 16 word) = mask 3" "(0b1111 :: 16 word) = mask 4" "(0b11111 :: 16 word) = mask 5"
  "(0b111111 :: 16 word) = mask 6" "(0b1111111 :: 16 word) = mask 7"
  by (simp_all add: mask_eq_exp_minus_1)

lemma set_rest_ok:
  assumes "clear_from bits pc" and "numbits > 0 \<Longrightarrow> pc div 8 + 1 < length bits" and "numbits < 8"
  shows "\<exists>bits'. set_rest numbits pc bits = Inr (pc + numbits, bits') \<and> extends bits pc numbits bits'"
proof -
  have one: "numbits = 1 \<Longrightarrow> ?thesis" using set1_ok [of pc bits] assms(2) by (auto simp: set_rest_def)
  have many: "?thesis" if "numbits \<in> {2, 3, 4, 5, 6, 7}"
    using setN_ok [OF assms(1) assms(2), of numbits] that unfolding set_rest_def masks by auto
  consider "numbits = 0" | "numbits = 1" | "numbits \<in> {2, 3, 4, 5, 6, 7}" using assms(3) by fastforce
  then show ?thesis by cases (use one many in \<open>auto simp: set_rest_def\<close>)
qed

lemma set_data_ok:
  assumes "clear_from bits pc" and "pc div 8 + 5 \<le> length bits" and "n \<le> 32"
  shows "\<exists>bits'. set_data n pc bits = Inr (pc + n, bits') \<and> extends bits pc n bits'"
proof -
  define q m where "q = n div 16" and "m = n mod 16"
  have n: "n = 16 * q + m" "m < 16" by (simp_all add: q_def m_def)
  have "n div 8 \<le> 32 div 8" using assms(3) by (rule div_le_mono)
  then have len: "pc div 8 + n div 8 < length bits" using assms(2) by simp
  obtain b1 where b1: "set_sixteens n pc bits = Inr (m, pc + 16 * q, b1)" "extends bits pc (16 * q) b1"
    using set_sixteens_ok [OF assms(1) len] by (auto simp: q_def m_def)
  have n8: "n div 8 = 2 * q + m div 8" using n by simp
  have "(pc + 16 * q) div 8 + m div 8 < length b1" using len n8 extends_length [OF b1(2)] by simp
  then obtain b2 where b2: "set_eights m (pc + 16 * q) b1 = Inr (m mod 8, pc + 16 * q + 8 * (m div 8), b2)"
    "extends b1 (pc + 16 * q) (8 * (m div 8)) b2"
    using set_eights_ok [OF extends_clear [OF b1(2) assms(1)]] by blast
  have c2: "clear_from b2 (pc + 16 * q + 8 * (m div 8))" using extends_clear [OF b2(2) extends_clear [OF b1(2) assms(1)]] .
  have "(pc + 16 * q + 8 * (m div 8)) div 8 + 1 < length b2" if "m mod 8 > 0"
  proof -
    have "n \<noteq> 32" using that by (auto simp: m_def)
    then have "n div 8 \<le> 31 div 8" using assms(3) by (intro div_le_mono) simp
    then show ?thesis using assms(2) n8 extends_length [OF b1(2)] extends_length [OF b2(2)] by simp
  qed
  then obtain b3 where b3: "set_rest (m mod 8) (pc + 16 * q + 8 * (m div 8)) b2 = Inr (pc + 16 * q + 8 * (m div 8) + m mod 8, b3)"
    "extends b2 (pc + 16 * q + 8 * (m div 8)) (m mod 8) b3"
    using set_rest_ok [OF c2, of "m mod 8"] by auto
  have e: "extends bits pc (16 * q + 8 * (m div 8) + m mod 8) b3"
    using extends_trans [OF extends_trans [OF b1(2) b2(2)], of "m mod 8" b3] b3(2) by (simp add: add.assoc)
  have "16 * q + 8 * (m div 8) + m mod 8 = n" using n(1) by simp
  then show ?thesis using b1(1) b2(1) b3(1) e by (auto simp: set_data_def add.assoc)
qed

lemma push_bits: "\<not> (op < PUSH1 \<or> op > PUSH32) \<Longrightarrow> unat (op - PUSH1 + 1) = push_size op \<and> push_size op \<le> 32"
  by (auto simp: push_size_def PUSH1_def PUSH32_def not_less word_le_nat_alt unat_word_ariths unat_sub)

text \<open>The marked bits are the positions before \<open>pc\<close> at which no instruction begins.\<close>

lemma instructions_ge: "p \<in> set (instructions_from code pc) \<Longrightarrow> pc \<le> p"
  by (induction code pc rule: instructions_from.induct) (subst (asm) instructions_from.simps, fastforce split: if_splits)

lemma codeBitmap_loop_ok:
  assumes "clear_from bits pc" and "length bits = length code div 8 + 5" and "length code - pc \<le> fuel"
  shows "\<exists>bits'. codeBitmap_loop fuel code pc bits = Inr bits' \<and> length bits' = length bits \<and>
    (\<forall>p < length code. bit_marked bits' p = (if p < pc then bit_marked bits p else p \<notin> set (instructions_from code pc)))"
  using assms
proof (induction fuel arbitrary: pc bits)
  case 0
  then show ?case by simp
next
  case (Suc fuel)
  show ?case
  proof (cases "pc < length code")
    case False
    then show ?thesis by simp
  next
    case pc: True
    define n where "n = push_size (code ! pc)"
    obtain b where b: "extends bits (pc + 1) n b" "codeBitmap_loop (Suc fuel) code pc bits = codeBitmap_loop fuel code (pc + 1 + n) b"
    proof (cases "code ! pc < PUSH1 \<or> code ! pc > PUSH32")
      case True
      then show thesis using that [of bits] pc by (simp add: n_def push_size_def)
    next
      case False
      have "clear_from bits (pc + 1)" using Suc.prems(1) by (simp add: clear_from_def)
      moreover have "(pc + 1) div 8 \<le> length code div 8" using pc by (intro div_le_mono) simp
      ultimately obtain b where "set_data n (pc + 1) bits = Inr (pc + 1 + n, b)" "extends bits (pc + 1) n b"
        using set_data_ok [of bits "pc + 1" n] push_bits [OF False] Suc.prems(2) by (auto simp: n_def)
      then show thesis using that [of b] pc False push_bits [OF False] by (simp add: n_def)
    qed
    have "clear_from bits (pc + 1)" using Suc.prems(1) by (simp add: clear_from_def)
    then have "clear_from b (pc + 1 + n)" by (rule extends_clear [OF b(1)])
    then obtain b' where b': "codeBitmap_loop fuel code (pc + 1 + n) b = Inr b'" "length b' = length b"
      "\<forall>p < length code. bit_marked b' p = (if p < pc + 1 + n then bit_marked b p else p \<notin> set (instructions_from code (pc + 1 + n)))"
      using Suc.IH [of b "pc + 1 + n"] Suc.prems(2,3) extends_length [OF b(1)] pc by force
    have "bit_marked b' p = (if p < pc then bit_marked bits p else p \<notin> set (instructions_from code pc))" if p: "p < length code" for p
    proof -
      have "length code \<le> 8 * length bits" using Suc.prems(2) by simp
      then have m: "bit_marked b p = (bit_marked bits p \<or> pc + 1 \<le> p \<and> p < pc + 1 + n)" using b(1) p by (simp add: extends_def)
      have nm: "pc \<le> p \<Longrightarrow> \<not> bit_marked bits p" using Suc.prems(1) \<open>length code \<le> 8 * length bits\<close> p by (simp add: clear_from_def)
      have i: "p \<in> set (instructions_from code pc) \<longleftrightarrow> p = pc \<or> p \<in> set (instructions_from code (pc + 1 + n))"
        using pc by (subst instructions_from.simps) (simp add: n_def)
      have "p \<in> set (instructions_from code (pc + 1 + n)) \<Longrightarrow> pc + 1 + n \<le> p" by (rule instructions_ge)
      then show ?thesis using b'(3) p m nm i by auto
    qed
    then show ?thesis using b(2) b'(1,2) extends_length [OF b(1)] by auto
  qed
qed

text \<open>
  The marking of code is exact. For every code, the marking never writes outside the bit vector, whatever argument
  bytes are missing at the end of the code, and a position is taken for code exactly when an instruction begins there.
\<close>

lemma codeBitmap_exact:
  "\<exists>bits. codeBitmap code = Inr bits \<and>
     (\<forall>pos < length code. codeSegment pos bits = Inr (pos \<in> set (instructions_from code 0)))"
proof -
  let ?b = "replicate (length code div 8 + 1 + 4) (0 :: byte)"
  have "clear_from ?b 0" by (auto simp: clear_from_def bit_marked_def nth_append less_mult_imp_div_less mult.commute)
  then obtain bits where b: "codeBitmap code = Inr bits" "length bits = length code div 8 + 5"
    "\<forall>p < length code. bit_marked bits p = (p \<notin> set (instructions_from code 0))"
    using codeBitmap_loop_ok [of ?b 0 code "length code"] by (auto simp: codeBitmap_def codeBitmapInternal_def)
  have "codeSegment pos bits = Inr (pos \<in> set (instructions_from code 0))" if "pos < length code" for pos
  proof -
    have "pos div 8 < length bits" using that b(2) div_le_mono [of pos "length code" 8] by simp
    moreover have "(drop_bit (pos mod 8) x AND 1 = 0) = (\<not> bit x (pos mod 8))" for x :: byte
      by (simp add: and_one_eq bit_iff_odd_drop_bit odd_iff_mod_2_eq_one)
    ultimately show ?thesis using b(3) that by (simp add: codeSegment_def go_index_def bit_marked_def)
  qed
  then show ?thesis using b(1) by blast
qed

end
