(* ===== verification/Evm_Machine.thy ===== *)
theory Evm_Machine
  imports Evm_Gas Code_Bitmap
begin

text \<open>
  The state of one activation of a contract: \<open>core/vm/memory.go\<close>, \<open>stack.go\<close>, \<open>common.go\<close>, \<open>gas.go\<close>, the code access of
  \<open>contract.go\<close> and the overflow checks of \<open>common/math\<close>. A stack is a list with its top first. Values of
  \<open>holiman/uint256\<close> are 256-bit words, with the conversions that library documents; its arithmetic is a parameter.
\<close>

section \<open>Values\<close>

type_synonym uint256 = "256 word"

definition Uint64 :: "uint256 \<Rightarrow> uint64" where
  "Uint64 x = ucast x"

definition IsUint64 :: "uint256 \<Rightarrow> bool" where
  "IsUint64 x \<longleftrightarrow> unat x < 2 ^ 64"

definition Uint64WithOverflow :: "uint256 \<Rightarrow> uint64 \<times> bool" where
  "Uint64WithOverflow x = (Uint64 x, \<not> IsUint64 x)"

definition Bytes20 :: "uint256 \<Rightarrow> Address" where
  "Bytes20 x = ucast x"

definition u_SetBytes :: "bytes \<Rightarrow> uint256" where
  "u_SetBytes b = of_nat (be_val b)"

definition FromBig :: "int \<Rightarrow> uint256" where
  "FromBig i = word_of_int i"

record uint256_lib =
  u_Add :: "uint256 \<Rightarrow> uint256 \<Rightarrow> uint256"
  u_Sub :: "uint256 \<Rightarrow> uint256 \<Rightarrow> uint256"
  u_Mul :: "uint256 \<Rightarrow> uint256 \<Rightarrow> uint256"
  u_Div :: "uint256 \<Rightarrow> uint256 \<Rightarrow> uint256"
  u_SDiv :: "uint256 \<Rightarrow> uint256 \<Rightarrow> uint256"
  u_Mod :: "uint256 \<Rightarrow> uint256 \<Rightarrow> uint256"
  u_SMod :: "uint256 \<Rightarrow> uint256 \<Rightarrow> uint256"
  u_Exp :: "uint256 \<Rightarrow> uint256 \<Rightarrow> uint256"
  u_ExtendSign :: "uint256 \<Rightarrow> uint256 \<Rightarrow> uint256"
  u_Not :: "uint256 \<Rightarrow> uint256"
  u_Lt :: "uint256 \<Rightarrow> uint256 \<Rightarrow> bool"
  u_Gt :: "uint256 \<Rightarrow> uint256 \<Rightarrow> bool"
  u_Slt :: "uint256 \<Rightarrow> uint256 \<Rightarrow> bool"
  u_Sgt :: "uint256 \<Rightarrow> uint256 \<Rightarrow> bool"
  u_And :: "uint256 \<Rightarrow> uint256 \<Rightarrow> uint256"
  u_Or :: "uint256 \<Rightarrow> uint256 \<Rightarrow> uint256"
  u_Xor :: "uint256 \<Rightarrow> uint256 \<Rightarrow> uint256"
  u_Byte :: "uint256 \<Rightarrow> uint256 \<Rightarrow> uint256"
  u_AddMod :: "uint256 \<Rightarrow> uint256 \<Rightarrow> uint256 \<Rightarrow> uint256"
  u_MulMod :: "uint256 \<Rightarrow> uint256 \<Rightarrow> uint256 \<Rightarrow> uint256"
  u_Lsh :: "uint256 \<Rightarrow> nat \<Rightarrow> uint256"
  u_Rsh :: "uint256 \<Rightarrow> nat \<Rightarrow> uint256"
  u_SRsh :: "uint256 \<Rightarrow> nat \<Rightarrow> uint256"
  u_Sign :: "uint256 \<Rightarrow> int"
  u_BitLen :: "uint256 \<Rightarrow> nat"

section \<open>Overflow checks\<close>

definition SafeAdd :: "uint64 \<Rightarrow> uint64 \<Rightarrow> uint64 \<times> bool" where
  "SafeAdd x y = (x + y, unat x + unat y \<ge> 2 ^ 64)"

definition SafeMul :: "uint64 \<Rightarrow> uint64 \<Rightarrow> uint64 \<times> bool" where
  "SafeMul x y = (x * y, unat x * unat y \<ge> 2 ^ 64)"

section \<open>Common functions\<close>

definition calcMemSize64WithUint :: "uint256 \<Rightarrow> uint64 \<Rightarrow> uint64 \<times> bool" where
  "calcMemSize64WithUint off length64 =
     (if length64 = 0 then (0, False)
      else let (offset64, overflow) = Uint64WithOverflow off
           in if overflow then (0, True)
              else let val = offset64 + length64 in (val, val < offset64))"

definition calcMemSize64 :: "uint256 \<Rightarrow> uint256 \<Rightarrow> uint64 \<times> bool" where
  "calcMemSize64 off l = (if \<not> IsUint64 l then (0, True) else calcMemSize64WithUint off (Uint64 l))"

text \<open>\<open>b[lo:hi]\<close>, for bounds of type \<open>int\<close>.\<close>

definition go_slice :: "int \<Rightarrow> int \<Rightarrow> bytes \<Rightarrow> bytes go" where
  "go_slice lo hi b =
     (if 0 \<le> lo \<and> lo \<le> hi \<and> hi \<le> int (length b) then Inr (take (nat (hi - lo)) (drop (nat lo) b)) else Inl IndexOutOfRange)"

definition getData :: "bytes \<Rightarrow> uint64 \<Rightarrow> uint64 \<Rightarrow> bytes go" where
  "getData data start sz =
     (let len = of_nat (length data) :: uint64;
          start = (if start > len then len else start);
          fin = start + sz;
          fin = (if fin > len then len else fin)
      in go_bind (go_slice (uint start) (uint fin) data) (\<lambda>d. Inr (RightPadBytes d (nat (sint sz)))))"

definition toWordSize :: "uint64 \<Rightarrow> uint64" where
  "toWordSize sz = (if sz > MaxUint64 - 31 then MaxUint64 div 32 + 1 else (sz + 31) div 32)"

section \<open>Memory\<close>

record Memory =
  store :: bytes
  lastGasCost :: uint64

definition NewMemory :: Memory where
  "NewMemory = \<lparr>store = [], lastGasCost = 0\<rparr>"

definition copy_at :: "nat \<Rightarrow> nat \<Rightarrow> bytes \<Rightarrow> bytes \<Rightarrow> bytes" where
  "copy_at lo n src dst = take lo dst @ take n src @ drop (lo + min n (length src)) dst"

definition mem_Set :: "uint64 \<Rightarrow> uint64 \<Rightarrow> bytes \<Rightarrow> Memory \<Rightarrow> Memory go" where
  "mem_Set off sz value m =
     (if sz > 0
      then if off + sz > of_nat (length (store m)) then Inl (ExplicitPanic ''invalid memory: store empty'')
           else go_bind (go_slice (uint off) (uint (off + sz)) (store m)) (\<lambda>_.
                  Inr (m\<lparr>store := copy_at (unat off) (unat sz) value (store m)\<rparr>))
      else Inr m)"

definition mem_Set32 :: "uint64 \<Rightarrow> uint256 \<Rightarrow> Memory \<Rightarrow> Memory go" where
  "mem_Set32 off val m =
     (if off + 32 > of_nat (length (store m)) then Inl (ExplicitPanic ''invalid memory: store empty'')
      else go_bind (go_slice (uint off) (uint (off + 32)) (store m)) (\<lambda>_.
             Inr (m\<lparr>store := copy_at (unat off) 32 (Hash_Bytes val) (store m)\<rparr>)))"

definition mem_Resize :: "uint64 \<Rightarrow> Memory \<Rightarrow> Memory" where
  "mem_Resize sz m =
     (if of_nat (length (store m)) < sz
      then m\<lparr>store := store m @ replicate (unat (sz - of_nat (length (store m)))) 0\<rparr> else m)"

text \<open>\<open>GetCopy\<close> and \<open>GetPtr\<close>, of offsets and sizes as \<open>int64\<close>; a slice past the length of the memory is taken to panic, also where the array behind it
  is longer. The interpreter resizes the memory before it reads, so that this does not happen there.\<close>

definition mem_Get :: "uint64 \<Rightarrow> uint64 \<Rightarrow> Memory \<Rightarrow> bytes option go" where
  "mem_Get off sz m =
     (if sint sz = 0 then Inr None
      else if int (length (store m)) > sint off
      then go_bind (go_slice (sint off) (sint off + sint sz) (store m)) (\<lambda>b. Inr (Some b))
      else Inr None)"

section \<open>Code\<close>

definition STOP :: byte where "STOP = 0"
definition JUMPDEST :: byte where "JUMPDEST = 0x5b"

definition GetOp :: "bytes \<Rightarrow> uint64 \<Rightarrow> byte" where
  "GetOp code n = (if unat n < length code then code ! unat n else STOP)"

text \<open>
  \<open>isCode\<close> keeps the analysis of the code in the contract, and for code with a hash also in the table \<open>jumpdests\<close> that
  \<open>NewContract\<close> shares with the calling contract. As long as the table has under each hash the analysis of the code with
  that hash, the answer is the one of a new analysis, and the table stays that way; so \<open>validJumpdest\<close>, and the contracts
  of the rest of the model, do without the cache.
\<close>

record jump_cache =
  c_analysis :: "bitvec option"
  c_jumpdests :: "(Hash, bitvec) gomap"

definition isCode :: "Hash \<Rightarrow> bytes \<Rightarrow> uint64 \<Rightarrow> jump_cache \<Rightarrow> (bool \<times> jump_cache) go" where
  "isCode codeHash code udest c =
     go_bind
       (case c_analysis c of
          Some analysis \<Rightarrow> Inr (analysis, c)
        | None \<Rightarrow>
            if codeHash \<noteq> 0
            then case map_of (c_jumpdests c) codeHash of
                   Some analysis \<Rightarrow> Inr (analysis, c\<lparr>c_analysis := Some analysis\<rparr>)
                 | None \<Rightarrow> go_bind (codeBitmap code) (\<lambda>analysis.
                     Inr (analysis, c\<lparr>c_analysis := Some analysis, c_jumpdests := mput codeHash analysis (c_jumpdests c)\<rparr>))
            else go_bind (codeBitmap code) (\<lambda>analysis. Inr (analysis, c\<lparr>c_analysis := Some analysis\<rparr>)))
       (\<lambda>(analysis, c). go_bind (codeSegment (unat udest) analysis) (\<lambda>b. Inr (b, c)))"

definition jump_cache_ok :: "(Hash \<Rightarrow> bytes) \<Rightarrow> bytes \<Rightarrow> jump_cache \<Rightarrow> bool" where
  "jump_cache_ok code_at code c \<longleftrightarrow> (\<forall>bits. c_analysis c = Some bits \<longrightarrow> codeBitmap code = Inr bits) \<and>
     (\<forall>h bits. map_of (c_jumpdests c) h = Some bits \<longrightarrow> codeBitmap (code_at h) = Inr bits)"

lemma isCode_recomputes:
  assumes "jump_cache_ok code_at code c" and "codeHash \<noteq> 0 \<longrightarrow> code_at codeHash = code"
  shows "\<exists>c'. isCode codeHash code udest c = go_bind (codeBitmap code) (\<lambda>bits. go_bind (codeSegment (unat udest) bits) (\<lambda>b. Inr (b, c'))) \<and>
    jump_cache_ok code_at code c'"
proof (cases "codeBitmap code")
  case (Inl e)
  then show ?thesis using assms by (auto simp: isCode_def jump_cache_ok_def split: option.split)
next
  case (Inr bits)
  define c' where "c' = (if c_analysis c \<noteq> None then c
    else if codeHash \<noteq> 0 \<and> map_of (c_jumpdests c) codeHash = None then c\<lparr>c_analysis := Some bits, c_jumpdests := mput codeHash bits (c_jumpdests c)\<rparr> else c\<lparr>c_analysis := Some bits\<rparr>)"
  have "isCode codeHash code udest c = go_bind (codeSegment (unat udest) bits) (\<lambda>b. Inr (b, c'))"
    using assms Inr by (auto simp: isCode_def jump_cache_ok_def c'_def split: option.split)
  moreover have "jump_cache_ok code_at code c'"
    using assms Inr by (auto simp: jump_cache_ok_def c'_def update_conv' split: if_splits)
  ultimately show ?thesis using Inr by auto
qed

definition validJumpdest :: "bytes \<Rightarrow> uint256 \<Rightarrow> bool go" where
  "validJumpdest code dest =
     (let (udest, overflow) = Uint64WithOverflow dest
      in if overflow \<or> unat udest \<ge> length code then Inr False
         else if code ! unat udest \<noteq> JUMPDEST then Inr False
         else go_bind (codeBitmap code) (\<lambda>bits. codeSegment (unat udest) bits))"

section \<open>Call gas\<close>

definition callGas :: "bool \<Rightarrow> uint64 \<Rightarrow> uint64 \<Rightarrow> uint256 \<Rightarrow> vm_err + uint64" where
  "callGas isEip150 availableGas base callCost =
     (let gas = (availableGas - base) - (availableGas - base) div 64
      in if isEip150 \<and> (\<not> IsUint64 callCost \<or> gas < Uint64 callCost) then Inr gas
         else if \<not> IsUint64 callCost then Inl ErrGasUintOverflow
         else Inr (Uint64 callCost))"

section \<open>Scopes\<close>

text \<open>
  What the instructions of an activation share: the program counter, stack, memory and gas, the return data of the last
  call and the gas set aside for the next one.
\<close>

record scope =
  s_pc :: uint64
  s_stack :: "uint256 list"
  s_mem :: Memory
  s_gas :: uint64
  s_returnData :: bytes
  s_callGasTemp :: uint64

record interp_env =
  ie_rules :: Rules
  ie_lib :: uint256_lib
  ie_keccak :: "bytes \<Rightarrow> Hash"
  ie_Origin :: Address
  ie_GasPrice :: int
  ie_GetHash :: "uint64 \<Rightarrow> Hash"
  ie_Coinbase :: Address
  ie_GasLimit :: uint64
  ie_BlockNumber :: int
  ie_Time :: int
  ie_Difficulty :: int
  ie_BaseFee :: "int option"
  ie_ChainID :: int
  ie_EnablePreimageRecording :: bool

record ctx =
  x_env :: interp_env
  x_contract :: Contract
  x_input :: bytes
  x_readOnly :: bool

text \<open>
  How an instruction ends: the loop goes on, or it is left with a result and an error (none for the stop token), or it panics.
  Instructions ask the state and make calls; they are written with what follows as an argument.
\<close>

datatype exec = Next scope | Stopped "bytes option" "vm_err option" scope | Panicked go_panic

type_synonym executionFunc = "ctx \<Rightarrow> scope \<Rightarrow> (exec \<Rightarrow> frame) \<Rightarrow> frame"

definition pure_op :: "(ctx \<Rightarrow> scope \<Rightarrow> exec) \<Rightarrow> executionFunc" where
  "pure_op f x s k = k (f x s)"

fun of_go :: "scope go \<Rightarrow> exec" where
  "of_go (Inl p) = Panicked p"
| "of_go (Inr s) = Next s"

text \<open>The answers of the state.\<close>

fun ans_big :: "op_answer \<Rightarrow> int" where "ans_big (ABig i) = i" | "ans_big _ = 0"
fun ans_bool :: "op_answer \<Rightarrow> bool" where "ans_bool (ABool b) = b" | "ans_bool _ = False"
fun ans_bools :: "op_answer \<Rightarrow> bool \<times> bool" where "ans_bools (ABools a b) = (a, b)" | "ans_bools _ = (False, False)"
fun ans_nat :: "op_answer \<Rightarrow> nat" where "ans_nat (ANat n) = n" | "ans_nat _ = 0"
fun ans_hash :: "op_answer \<Rightarrow> Hash" where "ans_hash (AHash h) = h" | "ans_hash _ = 0"
fun ans_code :: "op_answer \<Rightarrow> bytes option" where "ans_code (ACode c) = c" | "ans_code _ = None"

end
