(* ===== verification/Evm_Instructions.thy ===== *)
theory Evm_Instructions
  imports Evm_Machine
begin

text \<open>
  The instructions: \<open>core/vm/instructions.go\<close> and the instructions of \<open>eips.go\<close>, one definition each.
\<close>

section \<open>Arithmetic, comparison and bits\<close>

definition un_op :: "(uint256 \<Rightarrow> uint256) \<Rightarrow> scope \<Rightarrow> exec" where
  "un_op f s = (case s_stack s of x # st \<Rightarrow> Next (s\<lparr>s_stack := f x # st\<rparr>) | _ \<Rightarrow> Panicked IndexOutOfRange)"

definition bin_op :: "(uint256 \<Rightarrow> uint256 \<Rightarrow> uint256) \<Rightarrow> scope \<Rightarrow> exec" where
  "bin_op f s = (case s_stack s of x # y # st \<Rightarrow> Next (s\<lparr>s_stack := f x y # st\<rparr>) | _ \<Rightarrow> Panicked IndexOutOfRange)"

definition ter_op :: "(uint256 \<Rightarrow> uint256 \<Rightarrow> uint256 \<Rightarrow> uint256) \<Rightarrow> scope \<Rightarrow> exec" where
  "ter_op f s = (case s_stack s of x # y # z # st \<Rightarrow> Next (s\<lparr>s_stack := f x y z # st\<rparr>) | _ \<Rightarrow> Panicked IndexOutOfRange)"

definition push_op :: "uint256 \<Rightarrow> scope \<Rightarrow> exec" where
  "push_op v s = Next (s\<lparr>s_stack := v # s_stack s\<rparr>)"

definition truth :: "bool \<Rightarrow> uint256" where
  "truth b = (if b then 1 else 0)"

abbreviation lib :: "ctx \<Rightarrow> uint256_lib" where
  "lib x \<equiv> ie_lib (x_env x)"

definition opAdd :: "ctx \<Rightarrow> scope \<Rightarrow> exec" where "opAdd x = bin_op (u_Add (lib x))"
definition opSub :: "ctx \<Rightarrow> scope \<Rightarrow> exec" where "opSub x = bin_op (u_Sub (lib x))"
definition opMul :: "ctx \<Rightarrow> scope \<Rightarrow> exec" where "opMul x = bin_op (u_Mul (lib x))"
definition opDiv :: "ctx \<Rightarrow> scope \<Rightarrow> exec" where "opDiv x = bin_op (u_Div (lib x))"
definition opSdiv :: "ctx \<Rightarrow> scope \<Rightarrow> exec" where "opSdiv x = bin_op (u_SDiv (lib x))"
definition opMod :: "ctx \<Rightarrow> scope \<Rightarrow> exec" where "opMod x = bin_op (u_Mod (lib x))"
definition opSmod :: "ctx \<Rightarrow> scope \<Rightarrow> exec" where "opSmod x = bin_op (u_SMod (lib x))"
definition opExp :: "ctx \<Rightarrow> scope \<Rightarrow> exec" where "opExp x = bin_op (u_Exp (lib x))"
definition opSignExtend :: "ctx \<Rightarrow> scope \<Rightarrow> exec" where "opSignExtend x = bin_op (\<lambda>ext num. u_ExtendSign (lib x) num ext)"
definition opNot :: "ctx \<Rightarrow> scope \<Rightarrow> exec" where "opNot x = un_op (u_Not (lib x))"
definition opLt :: "ctx \<Rightarrow> scope \<Rightarrow> exec" where "opLt x = bin_op (\<lambda>a b. truth (u_Lt (lib x) a b))"
definition opGt :: "ctx \<Rightarrow> scope \<Rightarrow> exec" where "opGt x = bin_op (\<lambda>a b. truth (u_Gt (lib x) a b))"
definition opSlt :: "ctx \<Rightarrow> scope \<Rightarrow> exec" where "opSlt x = bin_op (\<lambda>a b. truth (u_Slt (lib x) a b))"
definition opSgt :: "ctx \<Rightarrow> scope \<Rightarrow> exec" where "opSgt x = bin_op (\<lambda>a b. truth (u_Sgt (lib x) a b))"
definition opEq :: "ctx \<Rightarrow> scope \<Rightarrow> exec" where "opEq x = bin_op (\<lambda>a b. truth (a = b))"
definition opIszero :: "ctx \<Rightarrow> scope \<Rightarrow> exec" where "opIszero x = un_op (\<lambda>a. truth (a = 0))"
definition opAnd :: "ctx \<Rightarrow> scope \<Rightarrow> exec" where "opAnd x = bin_op (u_And (lib x))"
definition opOr :: "ctx \<Rightarrow> scope \<Rightarrow> exec" where "opOr x = bin_op (u_Or (lib x))"
definition opXor :: "ctx \<Rightarrow> scope \<Rightarrow> exec" where "opXor x = bin_op (u_Xor (lib x))"
definition opByte :: "ctx \<Rightarrow> scope \<Rightarrow> exec" where "opByte x = bin_op (\<lambda>th val. u_Byte (lib x) val th)"
definition opAddmod :: "ctx \<Rightarrow> scope \<Rightarrow> exec" where "opAddmod x = ter_op (\<lambda>a b z. if z = 0 then 0 else u_AddMod (lib x) a b z)"
definition opMulmod :: "ctx \<Rightarrow> scope \<Rightarrow> exec" where "opMulmod x = ter_op (u_MulMod (lib x))"
definition opSHL :: "ctx \<Rightarrow> scope \<Rightarrow> exec" where "opSHL x = bin_op (\<lambda>shift v. if shift < 256 then u_Lsh (lib x) v (unat (Uint64 shift)) else 0)"
definition opSHR :: "ctx \<Rightarrow> scope \<Rightarrow> exec" where "opSHR x = bin_op (\<lambda>shift v. if shift < 256 then u_Rsh (lib x) v (unat (Uint64 shift)) else 0)"
definition opSAR :: "ctx \<Rightarrow> scope \<Rightarrow> exec" where
  "opSAR x = bin_op (\<lambda>shift v.
     if shift > 256 then if u_Sign (lib x) v \<ge> 0 then 0 else - 1
     else u_SRsh (lib x) v (unat (Uint64 shift)))"

section \<open>Environment\<close>

definition opAddress :: "ctx \<Rightarrow> scope \<Rightarrow> exec" where "opAddress x = push_op (u_SetBytes (Address_Bytes (c_self (x_contract x))))"
definition opOrigin :: "ctx \<Rightarrow> scope \<Rightarrow> exec" where "opOrigin x = push_op (u_SetBytes (Address_Bytes (ie_Origin (x_env x))))"
definition opCaller :: "ctx \<Rightarrow> scope \<Rightarrow> exec" where "opCaller x = push_op (u_SetBytes (Address_Bytes (CallerAddress (x_contract x))))"
definition opCallValue :: "ctx \<Rightarrow> scope \<Rightarrow> exec" where
  "opCallValue x s = (case c_value (x_contract x) of None \<Rightarrow> Panicked NilDereference | Some v \<Rightarrow> push_op (FromBig v) s)"
definition opCallDataLoad :: "ctx \<Rightarrow> scope \<Rightarrow> exec" where
  "opCallDataLoad x s =
     (case s_stack s of
        v # st \<Rightarrow>
          (let (off, overflow) = Uint64WithOverflow v
           in if overflow then Next (s\<lparr>s_stack := 0 # st\<rparr>)
              else of_go (go_bind (getData (x_input x) off 32) (\<lambda>data. Inr (s\<lparr>s_stack := u_SetBytes data # st\<rparr>))))
      | _ \<Rightarrow> Panicked IndexOutOfRange)"
definition opCallDataSize :: "ctx \<Rightarrow> scope \<Rightarrow> exec" where "opCallDataSize x = push_op (ucast (of_nat (length (x_input x)) :: uint64))"

definition clamped :: "uint256 \<Rightarrow> uint64" where
  "clamped x = (case Uint64WithOverflow x of (v, overflow) \<Rightarrow> if overflow then MaxUint64 else v)"

text \<open>Copying \<open>data\<close> into the memory, for the three instructions that do.\<close>

definition copy_op :: "bytes \<Rightarrow> uint256 \<Rightarrow> uint256 \<Rightarrow> uint256 \<Rightarrow> scope \<Rightarrow> exec" where
  "copy_op data memOffset dataOffset l s =
     of_go (go_bind (getData data (clamped dataOffset) (Uint64 l)) (\<lambda>d.
       go_bind (mem_Set (Uint64 memOffset) (Uint64 l) d (s_mem s)) (\<lambda>m. Inr (s\<lparr>s_mem := m\<rparr>))))"

definition opCallDataCopy :: "ctx \<Rightarrow> scope \<Rightarrow> exec" where
  "opCallDataCopy x s =
     (case s_stack s of
        memOffset # dataOffset # l # st \<Rightarrow> copy_op (x_input x) memOffset dataOffset l (s\<lparr>s_stack := st\<rparr>)
      | _ \<Rightarrow> Panicked IndexOutOfRange)"
definition opReturnDataSize :: "ctx \<Rightarrow> scope \<Rightarrow> exec" where "opReturnDataSize x s = push_op (ucast (of_nat (length (s_returnData s)) :: uint64)) s"
definition opReturnDataCopy :: "ctx \<Rightarrow> scope \<Rightarrow> exec" where
  "opReturnDataCopy x s =
     (case s_stack s of
        memOffset # dataOffset # l # st \<Rightarrow>
          (let s = s\<lparr>s_stack := st\<rparr>; (offset64, overflow) = Uint64WithOverflow dataOffset
           in if overflow then Stopped None (Some ErrReturnDataOutOfBounds) s
              else let (end64, overflow) = Uint64WithOverflow (u_Add (lib x) dataOffset l)
              in if overflow \<or> of_nat (length (s_returnData s)) < end64 then Stopped None (Some ErrReturnDataOutOfBounds) s
                 else of_go (go_bind (go_slice (uint offset64) (uint end64) (s_returnData s)) (\<lambda>d.
                        go_bind (mem_Set (Uint64 memOffset) (Uint64 l) d (s_mem s)) (\<lambda>m. Inr (s\<lparr>s_mem := m\<rparr>)))))
      | _ \<Rightarrow> Panicked IndexOutOfRange)"
definition opCodeSize :: "ctx \<Rightarrow> scope \<Rightarrow> exec" where "opCodeSize x = push_op (ucast (of_nat (length (c_Code (x_contract x))) :: uint64))"
definition opCodeCopy :: "ctx \<Rightarrow> scope \<Rightarrow> exec" where
  "opCodeCopy x s =
     (case s_stack s of
        memOffset # codeOffset # l # st \<Rightarrow> copy_op (c_Code (x_contract x)) memOffset codeOffset l (s\<lparr>s_stack := st\<rparr>)
      | _ \<Rightarrow> Panicked IndexOutOfRange)"
definition opGasprice :: "ctx \<Rightarrow> scope \<Rightarrow> exec" where "opGasprice x = push_op (FromBig (ie_GasPrice (x_env x)))"
definition opCoinbase :: "ctx \<Rightarrow> scope \<Rightarrow> exec" where "opCoinbase x = push_op (u_SetBytes (Address_Bytes (ie_Coinbase (x_env x))))"
definition opTimestamp :: "ctx \<Rightarrow> scope \<Rightarrow> exec" where "opTimestamp x = push_op (FromBig (ie_Time (x_env x)))"
definition opNumber :: "ctx \<Rightarrow> scope \<Rightarrow> exec" where "opNumber x = push_op (FromBig (ie_BlockNumber (x_env x)))"
definition opDifficulty :: "ctx \<Rightarrow> scope \<Rightarrow> exec" where "opDifficulty x = push_op (FromBig (ie_Difficulty (x_env x)))"
definition opGasLimit :: "ctx \<Rightarrow> scope \<Rightarrow> exec" where "opGasLimit x = push_op (ucast (ie_GasLimit (x_env x)))"
definition opChainID :: "ctx \<Rightarrow> scope \<Rightarrow> exec" where "opChainID x = push_op (FromBig (ie_ChainID (x_env x)))"
definition opBaseFee :: "ctx \<Rightarrow> scope \<Rightarrow> exec" where
  "opBaseFee x s = (case ie_BaseFee (x_env x) of None \<Rightarrow> Panicked NilDereference | Some v \<Rightarrow> push_op (FromBig v) s)"

section \<open>Stack, memory and flow\<close>

definition opPop :: "ctx \<Rightarrow> scope \<Rightarrow> exec" where
  "opPop x s = (case s_stack s of _ # st \<Rightarrow> Next (s\<lparr>s_stack := st\<rparr>) | _ \<Rightarrow> Panicked IndexOutOfRange)"
definition opMload :: "ctx \<Rightarrow> scope \<Rightarrow> exec" where
  "opMload x s =
     (case s_stack s of
        v # st \<Rightarrow> of_go (go_bind (mem_Get (Uint64 v) 32 (s_mem s)) (\<lambda>b. Inr (s\<lparr>s_stack := u_SetBytes (code_bytes b) # st\<rparr>)))
      | _ \<Rightarrow> Panicked IndexOutOfRange)"
definition opMstore :: "ctx \<Rightarrow> scope \<Rightarrow> exec" where
  "opMstore x s =
     (case s_stack s of
        mStart # val # st \<Rightarrow> of_go (go_bind (mem_Set32 (Uint64 mStart) val (s_mem s)) (\<lambda>m. Inr (s\<lparr>s_stack := st, s_mem := m\<rparr>)))
      | _ \<Rightarrow> Panicked IndexOutOfRange)"
definition opMstore8 :: "ctx \<Rightarrow> scope \<Rightarrow> exec" where
  "opMstore8 x s =
     (case s_stack s of
        off # val # st \<Rightarrow>
          of_go (go_bind (byte_store (unat (Uint64 off)) (ucast (Uint64 val)) (store (s_mem s))) (\<lambda>b.
            Inr (s\<lparr>s_stack := st, s_mem := (s_mem s)\<lparr>store := b\<rparr>\<rparr>)))
      | _ \<Rightarrow> Panicked IndexOutOfRange)"

definition jump_to :: "ctx \<Rightarrow> uint256 \<Rightarrow> scope \<Rightarrow> exec" where
  "jump_to x pos s =
     (case validJumpdest (c_Code (x_contract x)) pos of
        Inl p \<Rightarrow> Panicked p
      | Inr valid \<Rightarrow> if \<not> valid then Stopped None (Some ErrInvalidJump) s else Next (s\<lparr>s_pc := Uint64 pos - 1\<rparr>))"
definition opJump :: "ctx \<Rightarrow> scope \<Rightarrow> exec" where
  "opJump x s = (case s_stack s of pos # st \<Rightarrow> jump_to x pos (s\<lparr>s_stack := st\<rparr>) | _ \<Rightarrow> Panicked IndexOutOfRange)"
definition opJumpi :: "ctx \<Rightarrow> scope \<Rightarrow> exec" where
  "opJumpi x s =
     (case s_stack s of
        pos # cond # st \<Rightarrow> if cond \<noteq> 0 then jump_to x pos (s\<lparr>s_stack := st\<rparr>) else Next (s\<lparr>s_stack := st\<rparr>)
      | _ \<Rightarrow> Panicked IndexOutOfRange)"
definition opJumpdest :: "ctx \<Rightarrow> scope \<Rightarrow> exec" where "opJumpdest x s = Next s"
definition opPc :: "ctx \<Rightarrow> scope \<Rightarrow> exec" where "opPc x s = push_op (ucast (s_pc s)) s"
definition opMsize :: "ctx \<Rightarrow> scope \<Rightarrow> exec" where "opMsize x s = push_op (ucast (of_nat (length (store (s_mem s))) :: uint64)) s"
definition opGas :: "ctx \<Rightarrow> scope \<Rightarrow> exec" where "opGas x s = push_op (ucast (s_gas s)) s"

definition opPush1 :: "ctx \<Rightarrow> scope \<Rightarrow> exec" where
  "opPush1 x s =
     (let code = c_Code (x_contract x); pc = s_pc s + 1; s = s\<lparr>s_pc := pc\<rparr>
      in push_op (if unat pc < length code then ucast (code ! unat pc) else 0) s)"
definition makePush :: "uint64 \<Rightarrow> nat \<Rightarrow> ctx \<Rightarrow> scope \<Rightarrow> exec" where
  "makePush sz pushByteSize x s =
     (let code = c_Code (x_contract x); codeLen = int (length code);
          startMin = (if sint (s_pc s + 1) < codeLen then sint (s_pc s + 1) else codeLen);
          endMin = (if startMin + int pushByteSize < codeLen then startMin + int pushByteSize else codeLen)
      in of_go (go_bind (go_slice startMin endMin code) (\<lambda>b.
           Inr (s\<lparr>s_stack := u_SetBytes (RightPadBytes b pushByteSize) # s_stack s, s_pc := s_pc s + sz\<rparr>))))"
definition makeDup :: "nat \<Rightarrow> ctx \<Rightarrow> scope \<Rightarrow> exec" where
  "makeDup sz x s =
     (if 0 < sz \<and> sz \<le> length (s_stack s) then push_op (s_stack s ! (sz - 1)) s else Panicked IndexOutOfRange)"
definition makeSwap :: "nat \<Rightarrow> ctx \<Rightarrow> scope \<Rightarrow> exec" where
  "makeSwap sz x s =
     (let st = s_stack s; n = sz + 1
      in if n \<le> length st then Next (s\<lparr>s_stack := st[n - 1 := st ! 0, 0 := st ! (n - 1)]\<rparr>) else Panicked IndexOutOfRange)"

definition opReturn :: "ctx \<Rightarrow> scope \<Rightarrow> exec" where
  "opReturn x s =
     (case s_stack s of
        off # sz # st \<Rightarrow>
          (case mem_Get (Uint64 off) (Uint64 sz) (s_mem s) of
             Inl p \<Rightarrow> Panicked p
           | Inr ret \<Rightarrow> Stopped ret None (s\<lparr>s_stack := st\<rparr>))
      | _ \<Rightarrow> Panicked IndexOutOfRange)"
definition opRevert :: "ctx \<Rightarrow> scope \<Rightarrow> exec" where
  "opRevert x s =
     (case s_stack s of
        off # sz # st \<Rightarrow>
          (case mem_Get (Uint64 off) (Uint64 sz) (s_mem s) of
             Inl p \<Rightarrow> Panicked p
           | Inr ret \<Rightarrow> Stopped ret (Some ErrExecutionReverted) (s\<lparr>s_stack := st, s_returnData := code_bytes ret\<rparr>))
      | _ \<Rightarrow> Panicked IndexOutOfRange)"
definition opUndefined :: "ctx \<Rightarrow> scope \<Rightarrow> exec" where
  "opUndefined x s =
     (case go_index (c_Code (x_contract x)) (unat (s_pc s)) of
        Inl p \<Rightarrow> Panicked p
      | Inr b \<Rightarrow> Stopped None (Some (ErrInvalidOpCode b)) s)"
definition opStop :: "ctx \<Rightarrow> scope \<Rightarrow> exec" where "opStop x s = Stopped None None s"


section \<open>Access to the state\<close>

fun or_crash :: "'a go \<Rightarrow> ('a \<Rightarrow> frame) \<Rightarrow> frame" where
  "or_crash (Inl p) k = Crash p"
| "or_crash (Inr v) k = k v"

definition opKeccak256 :: executionFunc where
  "opKeccak256 x s k =
     (case s_stack s of
        off # sz # st \<Rightarrow>
          or_crash (mem_Get (Uint64 off) (Uint64 sz) (s_mem s)) (\<lambda>data.
            let hash = ie_keccak (x_env x) (code_bytes data);
                s = s\<lparr>s_stack := u_SetBytes (Hash_Bytes hash) # st\<rparr>
            in if ie_EnablePreimageRecording (x_env x) then Op (OpAddPreimage hash (code_bytes data)) (\<lambda>_. k (Next s)) else k (Next s))
      | _ \<Rightarrow> Crash IndexOutOfRange)"

definition opBalance :: executionFunc where
  "opBalance x s k =
     (case s_stack s of
        slot # st \<Rightarrow> Op (OpGetBalance (Bytes20 slot)) (\<lambda>r. k (Next (s\<lparr>s_stack := FromBig (ans_big r) # st\<rparr>)))
      | _ \<Rightarrow> Crash IndexOutOfRange)"

definition opSelfBalance :: executionFunc where
  "opSelfBalance x s k =
     Op (OpGetBalance (c_self (x_contract x))) (\<lambda>r. k (Next (s\<lparr>s_stack := FromBig (ans_big r) # s_stack s\<rparr>)))"

definition opExtCodeSize :: executionFunc where
  "opExtCodeSize x s k =
     (case s_stack s of
        slot # st \<Rightarrow> Op (OpGetCodeSize (Bytes20 slot)) (\<lambda>r. k (Next (s\<lparr>s_stack := ucast (of_nat (ans_nat r) :: uint64) # st\<rparr>)))
      | _ \<Rightarrow> Crash IndexOutOfRange)"

definition opExtCodeCopy :: executionFunc where
  "opExtCodeCopy x s k =
     (case s_stack s of
        a # memOffset # codeOffset # l # st \<Rightarrow>
          Op (OpGetCode (Bytes20 a)) (\<lambda>r. k (copy_op (code_bytes (ans_code r)) memOffset codeOffset l (s\<lparr>s_stack := st\<rparr>)))
      | _ \<Rightarrow> Crash IndexOutOfRange)"

definition opExtCodeHash :: executionFunc where
  "opExtCodeHash x s k =
     (case s_stack s of
        slot # st \<Rightarrow>
          Op (OpEmpty (Bytes20 slot)) (\<lambda>r.
            if ans_bool r then k (Next (s\<lparr>s_stack := 0 # st\<rparr>))
            else Op (OpGetCodeHash (Bytes20 slot)) (\<lambda>r. k (Next (s\<lparr>s_stack := u_SetBytes (Hash_Bytes (ans_hash r)) # st\<rparr>))))
      | _ \<Rightarrow> Crash IndexOutOfRange)"

text \<open>The hash that was read is recorded under the number, cut to 64 bits, when the instruction returns.\<close>

definition opBlockhash :: executionFunc where
  "opBlockhash x s k =
     (case s_stack s of
        num # st \<Rightarrow>
          (let (num64, overflow) = Uint64WithOverflow num;
               upper = word_of_int (ie_BlockNumber (x_env x)) :: uint64;
               lower = (if upper < 257 then 0 else upper - 256);
               v = (if overflow then 0
                    else if num64 \<ge> lower \<and> num64 < upper then u_SetBytes (Hash_Bytes (ie_GetHash (x_env x) num64)) else 0)
           in Op (OpRecordHash num64 v) (\<lambda>_. k (Next (s\<lparr>s_stack := v # st\<rparr>))))
      | _ \<Rightarrow> Crash IndexOutOfRange)"

definition opSload :: executionFunc where
  "opSload x s k =
     (case s_stack s of
        loc # st \<Rightarrow>
          Op (OpGetState (c_self (x_contract x)) loc) (\<lambda>r. k (Next (s\<lparr>s_stack := u_SetBytes (Hash_Bytes (ans_hash r)) # st\<rparr>)))
      | _ \<Rightarrow> Crash IndexOutOfRange)"

definition opSstore :: executionFunc where
  "opSstore x s k =
     (if x_readOnly x then k (Stopped None (Some ErrWriteProtection) s)
      else case s_stack s of
        loc # val # st \<Rightarrow> Op (OpSetState (c_self (x_contract x)) loc val) (\<lambda>_. k (Next (s\<lparr>s_stack := st\<rparr>)))
      | _ \<Rightarrow> Crash IndexOutOfRange)"

definition opSelfdestruct :: executionFunc where
  "opSelfdestruct x s k =
     (if x_readOnly x then k (Stopped None (Some ErrWriteProtection) s)
      else case s_stack s of
        beneficiary # st \<Rightarrow>
          Op (OpGetBalance (c_self (x_contract x))) (\<lambda>r.
            Op (OpAddBalance (Bytes20 beneficiary) (ans_big r)) (\<lambda>_.
              Op (OpSuicide (c_self (x_contract x))) (\<lambda>_. k (Stopped None None (s\<lparr>s_stack := st\<rparr>)))))
      | _ \<Rightarrow> Crash IndexOutOfRange)"

text \<open>
  \<open>makeLogSu\<close>: in a read-only frame it fails before it takes anything from the stack.
\<close>

definition log_op :: "nat \<Rightarrow> executionFunc" where
  "log_op n x s k =
     (if x_readOnly x then Emit [] [] (s_gas s) (k (Stopped None (Some ErrWriteProtection) s))
      else case s_stack s of
        mStart # mSize # st \<Rightarrow>
          if length st < n then Crash IndexOutOfRange
          else or_crash (mem_Get (Uint64 mStart) (Uint64 mSize) (s_mem s)) (\<lambda>d.
                 Emit (take n st) (code_bytes d) (s_gas s) (k (Next (s\<lparr>s_stack := drop n st\<rparr>))))
      | _ \<Rightarrow> Crash IndexOutOfRange)"

section \<open>Creations and calls\<close>

definition CallStipend :: uint64 where "CallStipend = 2300"

text \<open>The result of a creation: what is pushed is the new address, or zero if \<open>failed\<close>.\<close>

definition created :: "bool \<Rightarrow> call_res \<Rightarrow> scope \<Rightarrow> scope" where
  "created failed r s =
     s\<lparr>s_stack := (if failed then 0 else u_SetBytes (Address_Bytes (cr_addr r))) # s_stack s, s_gas := s_gas s + cr_gas r,
       s_returnData := (if cr_err r = Some ErrExecutionReverted then code_bytes (cr_ret r) else [])\<rparr>"

definition opCreate :: executionFunc where
  "opCreate x s k =
     (if x_readOnly x then k (Stopped None (Some ErrWriteProtection) s)
      else case s_stack s of
        val # off # sz # st \<Rightarrow>
          or_crash (mem_Get (Uint64 off) (Uint64 sz) (s_mem s)) (\<lambda>input.
            let rules = ie_rules (x_env x);
                gas = (if IsEIP150 rules then s_gas s - s_gas s div 64 else s_gas s);
                s = s\<lparr>s_stack := st, s_gas := snd (UseGas gas (s_gas s))\<rparr>
            in DoCall (ReqCreate (code_bytes input) gas (uint val)) (\<lambda>r.
                 k (Next (created (IsHomestead rules \<and> cr_err r = Some ErrCodeStoreOutOfGas
                                   \<or> cr_err r \<noteq> None \<and> cr_err r \<noteq> Some ErrCodeStoreOutOfGas) r s))))
      | _ \<Rightarrow> Crash IndexOutOfRange)"

definition opCreate2 :: executionFunc where
  "opCreate2 x s k =
     (if x_readOnly x then k (Stopped None (Some ErrWriteProtection) s)
      else case s_stack s of
        endowment # off # sz # salt # st \<Rightarrow>
          or_crash (mem_Get (Uint64 off) (Uint64 sz) (s_mem s)) (\<lambda>input.
            let gas = s_gas s - s_gas s div 64;
                s = s\<lparr>s_stack := st, s_gas := snd (UseGas gas (s_gas s))\<rparr>
            in DoCall (ReqCreate2 (code_bytes input) gas (uint endowment) salt) (\<lambda>r. k (Next (created (cr_err r \<noteq> None) r s))))
      | _ \<Rightarrow> Crash IndexOutOfRange)"

text \<open>What follows a call, the same in the four instructions.\<close>

definition called :: "uint256 \<Rightarrow> uint256 \<Rightarrow> scope \<Rightarrow> call_res \<Rightarrow> (exec \<Rightarrow> frame) \<Rightarrow> frame" where
  "called retOffset retSize s r k =
     or_crash (if cr_err r = None \<or> cr_err r = Some ErrExecutionReverted
               then mem_Set (Uint64 retOffset) (Uint64 retSize) (code_bytes (cr_ret r)) (s_mem s) else Inr (s_mem s)) (\<lambda>m.
       k (Next (s\<lparr>s_stack := truth (cr_err r = None) # s_stack s, s_mem := m, s_gas := s_gas s + cr_gas r,
                   s_returnData := code_bytes (cr_ret r)\<rparr>)))"

definition opCall :: executionFunc where
  "opCall x s k =
     (case s_stack s of
        temp # addr # val # inOffset # inSize # retOffset # retSize # st \<Rightarrow>
          or_crash (mem_Get (Uint64 inOffset) (Uint64 inSize) (s_mem s)) (\<lambda>args.
            if x_readOnly x \<and> val \<noteq> 0 then k (Stopped None (Some ErrWriteProtection) (s\<lparr>s_stack := st\<rparr>))
            else let gas = (if val \<noteq> 0 then s_callGasTemp s + CallStipend else s_callGasTemp s)
                 in DoCall (ReqCall (Bytes20 addr) (code_bytes args) gas (uint val)) (\<lambda>r.
                      called retOffset retSize (s\<lparr>s_stack := st\<rparr>) r k))
      | _ \<Rightarrow> Crash IndexOutOfRange)"

definition opCallCode :: executionFunc where
  "opCallCode x s k =
     (case s_stack s of
        temp # addr # val # inOffset # inSize # retOffset # retSize # st \<Rightarrow>
          or_crash (mem_Get (Uint64 inOffset) (Uint64 inSize) (s_mem s)) (\<lambda>args.
            let gas = (if val \<noteq> 0 then s_callGasTemp s + CallStipend else s_callGasTemp s)
            in DoCall (ReqCallCode (Bytes20 addr) (code_bytes args) gas (uint val)) (\<lambda>r.
                 called retOffset retSize (s\<lparr>s_stack := st\<rparr>) r k))
      | _ \<Rightarrow> Crash IndexOutOfRange)"

definition opDelegateCall :: executionFunc where
  "opDelegateCall x s k =
     (case s_stack s of
        temp # addr # inOffset # inSize # retOffset # retSize # st \<Rightarrow>
          or_crash (mem_Get (Uint64 inOffset) (Uint64 inSize) (s_mem s)) (\<lambda>args.
            DoCall (ReqDelegateCall (Bytes20 addr) (code_bytes args) (s_callGasTemp s)) (\<lambda>r.
              called retOffset retSize (s\<lparr>s_stack := st\<rparr>) r k))
      | _ \<Rightarrow> Crash IndexOutOfRange)"

definition opStaticCall :: executionFunc where
  "opStaticCall x s k =
     (case s_stack s of
        temp # addr # inOffset # inSize # retOffset # retSize # st \<Rightarrow>
          or_crash (mem_Get (Uint64 inOffset) (Uint64 inSize) (s_mem s)) (\<lambda>args.
            DoCall (ReqStaticCall (Bytes20 addr) (code_bytes args) (s_callGasTemp s)) (\<lambda>r.
              called retOffset retSize (s\<lparr>s_stack := st\<rparr>) r k))
      | _ \<Rightarrow> Crash IndexOutOfRange)"

end
