(* ===== verification/Gas_Table.thy ===== *)
theory Gas_Table
  imports Evm_Instructions
begin

text \<open>
  The cost of instructions that depends on their operands: \<open>core/vm/gas_table.go\<close>, \<open>operations_acl.go\<close> and \<open>memory_table.go\<close>.
  A gas function returns the cost or an error; it may change the memory's last fee, the gas of the contract, the gas set
  aside for a call, and the state. Like the instructions these functions have what follows as an argument.
\<close>

datatype gas_fault = GasPanic go_panic | GasErr vm_err

datatype gas_res = GasCost uint64 scope | NoGas vm_err scope

type_synonym gasFunc = "ctx \<Rightarrow> scope \<Rightarrow> uint64 \<Rightarrow> (gas_res \<Rightarrow> frame) \<Rightarrow> frame"
type_synonym 'a metered = "gas_fault + 'a"

definition Back :: "nat \<Rightarrow> uint256 list \<Rightarrow> uint256 metered" where
  "Back n st = (if n < length st then Inr (st ! n) else Inl (GasPanic IndexOutOfRange))"

definition checked :: "uint64 \<times> bool \<Rightarrow> uint64 metered" where
  "checked r = (if snd r then Inl (GasErr ErrGasUintOverflow) else Inr (fst r))"

fun meter :: "scope \<Rightarrow> 'a metered \<Rightarrow> (gas_res \<Rightarrow> frame) \<Rightarrow> ('a \<Rightarrow> frame) \<Rightarrow> frame" where
  "meter s (Inl (GasPanic p)) k f = Crash p"
| "meter s (Inl (GasErr e)) k f = k (NoGas e s)"
| "meter s (Inr v) k f = f v"

text \<open>A gas function that only computes.\<close>

definition pure_gas :: "(ctx \<Rightarrow> scope \<Rightarrow> uint64 \<Rightarrow> (uint64 \<times> scope) metered) \<Rightarrow> gasFunc" where
  "pure_gas f x s memorySize k = meter s (f x s memorySize) k (\<lambda>(gas, s). k (GasCost gas s))"

section \<open>Memory sizes\<close>

type_synonym memorySizeFunc = "uint256 list \<Rightarrow> (uint64 \<times> bool) go"

definition mem_range :: "nat \<Rightarrow> nat \<Rightarrow> memorySizeFunc" where
  "mem_range i j st = go_bind (go_index st i) (\<lambda>off. go_bind (go_index st j) (\<lambda>l. Inr (calcMemSize64 off l)))"

definition mem_fixed :: "nat \<Rightarrow> uint64 \<Rightarrow> memorySizeFunc" where
  "mem_fixed i n st = go_bind (go_index st i) (\<lambda>off. Inr (calcMemSize64WithUint off n))"

definition memoryKeccak256 :: memorySizeFunc where "memoryKeccak256 = mem_range 0 1"
definition memoryCallDataCopy :: memorySizeFunc where "memoryCallDataCopy = mem_range 0 2"
definition memoryReturnDataCopy :: memorySizeFunc where "memoryReturnDataCopy = mem_range 0 2"
definition memoryCodeCopy :: memorySizeFunc where "memoryCodeCopy = mem_range 0 2"
definition memoryExtCodeCopy :: memorySizeFunc where "memoryExtCodeCopy = mem_range 1 3"
definition memoryMLoad :: memorySizeFunc where "memoryMLoad = mem_fixed 0 32"
definition memoryMStore8 :: memorySizeFunc where "memoryMStore8 = mem_fixed 0 1"
definition memoryMStore :: memorySizeFunc where "memoryMStore = mem_fixed 0 32"
definition memoryCreate :: memorySizeFunc where "memoryCreate = mem_range 1 2"
definition memoryCreate2 :: memorySizeFunc where "memoryCreate2 = mem_range 1 2"
definition memoryReturn :: memorySizeFunc where "memoryReturn = mem_range 0 1"
definition memoryRevert :: memorySizeFunc where "memoryRevert = mem_range 0 1"
definition memoryLog :: memorySizeFunc where "memoryLog = mem_range 0 1"

text \<open>The larger of two ranges, for results and arguments of a call.\<close>

definition mem_ranges :: "memorySizeFunc \<Rightarrow> memorySizeFunc \<Rightarrow> memorySizeFunc" where
  "mem_ranges f g st =
     go_bind (f st) (\<lambda>(x, overflow). if overflow then Inr (0, True)
       else go_bind (g st) (\<lambda>(y, overflow). if overflow then Inr (0, True) else Inr (if x > y then x else y, False)))"

definition memoryCall :: memorySizeFunc where "memoryCall = mem_ranges (mem_range 5 6) (mem_range 3 4)"
definition memoryDelegateCall :: memorySizeFunc where "memoryDelegateCall = mem_ranges (mem_range 4 5) (mem_range 2 3)"
definition memoryStaticCall :: memorySizeFunc where "memoryStaticCall = mem_ranges (mem_range 4 5) (mem_range 2 3)"

section \<open>Memory and copying\<close>

definition MemoryGas :: uint64 where "MemoryGas = 3"
definition QuadCoeffDiv :: uint64 where "QuadCoeffDiv = 512"
definition CopyGas :: uint64 where "CopyGas = 3"
definition Keccak256WordGas :: uint64 where "Keccak256WordGas = 6"
definition LogGas :: uint64 where "LogGas = 375"
definition LogTopicGas :: uint64 where "LogTopicGas = 375"
definition LogDataGas :: uint64 where "LogDataGas = 8"
definition ExpGas :: uint64 where "ExpGas = 10"
definition ExpByteFrontier :: uint64 where "ExpByteFrontier = 10"
definition ExpByteEIP158 :: uint64 where "ExpByteEIP158 = 50"

definition memoryGasCost :: "Memory \<Rightarrow> uint64 \<Rightarrow> vm_err + uint64 \<times> Memory" where
  "memoryGasCost m newMemSize =
     (if newMemSize = 0 then Inr (0, m)
      else if newMemSize > 0x1FFFFFFFE0 then Inl ErrGasUintOverflow
      else let newMemSizeWords = toWordSize newMemSize;
               newMemSize = newMemSizeWords * 32
      in if newMemSize > of_nat (length (store m))
         then let square = newMemSizeWords * newMemSizeWords;
                  linCoef = newMemSizeWords * MemoryGas;
                  quadCoef = square div QuadCoeffDiv;
                  newTotalFee = linCoef + quadCoef
              in Inr (newTotalFee - lastGasCost m, m\<lparr>lastGasCost := newTotalFee\<rparr>)
         else Inr (0, m))"

definition mem_cost :: "scope \<Rightarrow> uint64 \<Rightarrow> (uint64 \<times> scope) metered" where
  "mem_cost s memorySize =
     (case memoryGasCost (s_mem s) memorySize of
        Inl e \<Rightarrow> Inl (GasErr e) | Inr (gas, m) \<Rightarrow> Inr (gas, s\<lparr>s_mem := m\<rparr>))"

text \<open>The fee for the memory and one per word of the operand at \<open>pos\<close>.\<close>

definition word_cost :: "nat \<Rightarrow> uint64 \<Rightarrow> scope \<Rightarrow> uint64 \<Rightarrow> (uint64 \<times> scope) metered" where
  "word_cost pos perWord s memorySize =
     go_bind (mem_cost s memorySize) (\<lambda>(gas, s).
     go_bind (Back pos (s_stack s)) (\<lambda>l.
     go_bind (checked (Uint64WithOverflow l)) (\<lambda>words.
     go_bind (checked (SafeMul (toWordSize words) perWord)) (\<lambda>words.
     go_bind (checked (SafeAdd gas words)) (\<lambda>gas. Inr (gas, s))))))"

definition memoryCopierGas :: "nat \<Rightarrow> gasFunc" where
  "memoryCopierGas stackpos = pure_gas (\<lambda>x. word_cost stackpos CopyGas)"

definition gasCallDataCopy :: gasFunc where "gasCallDataCopy = memoryCopierGas 2"
definition gasCodeCopy :: gasFunc where "gasCodeCopy = memoryCopierGas 2"
definition gasExtCodeCopy :: gasFunc where "gasExtCodeCopy = memoryCopierGas 3"
definition gasReturnDataCopy :: gasFunc where "gasReturnDataCopy = memoryCopierGas 2"

definition gasKeccak256 :: gasFunc where
  "gasKeccak256 = pure_gas (\<lambda>x. word_cost 1 Keccak256WordGas)"

definition gasCreate2 :: gasFunc where
  "gasCreate2 = pure_gas (\<lambda>x. word_cost 2 Keccak256WordGas)"

definition pureMemoryGascost :: gasFunc where
  "pureMemoryGascost = pure_gas (\<lambda>x. mem_cost)"

definition makeGasLog :: "uint64 \<Rightarrow> gasFunc" where
  "makeGasLog n = pure_gas (\<lambda>x s memorySize.
     go_bind (Back 1 (s_stack s)) (\<lambda>l.
     go_bind (checked (Uint64WithOverflow l)) (\<lambda>requestedSize.
     go_bind (mem_cost s memorySize) (\<lambda>(gas, s).
     go_bind (checked (SafeAdd gas LogGas)) (\<lambda>gas.
     go_bind (checked (SafeAdd gas (n * LogTopicGas))) (\<lambda>gas.
     go_bind (checked (SafeMul requestedSize LogDataGas)) (\<lambda>memorySizeGas.
     go_bind (checked (SafeAdd gas memorySizeGas)) (\<lambda>gas. Inr (gas, s)))))))))"

definition exp_cost :: "uint64 \<Rightarrow> ctx \<Rightarrow> scope \<Rightarrow> uint64 \<Rightarrow> (uint64 \<times> scope) metered" where
  "exp_cost perByte x s memorySize =
     go_bind (Back 1 (s_stack s)) (\<lambda>e.
       let expByteLen = of_nat ((u_BitLen (lib x) e + 7) div 8) in
     go_bind (checked (SafeAdd (expByteLen * perByte) ExpGas)) (\<lambda>gas. Inr (gas, s)))"

definition gasExpFrontier :: gasFunc where "gasExpFrontier = pure_gas (exp_cost ExpByteFrontier)"
definition gasExpEIP158 :: gasFunc where "gasExpEIP158 = pure_gas (exp_cost ExpByteEIP158)"

section \<open>Storage\<close>

definition SstoreSetGas :: uint64 where "SstoreSetGas = 20000"
definition SstoreResetGas :: uint64 where "SstoreResetGas = 5000"
definition SstoreClearGas :: uint64 where "SstoreClearGas = 5000"
definition SstoreRefundGas :: uint64 where "SstoreRefundGas = 15000"
definition NetSstoreNoopGas :: uint64 where "NetSstoreNoopGas = 200"
definition NetSstoreInitGas :: uint64 where "NetSstoreInitGas = 20000"
definition NetSstoreCleanGas :: uint64 where "NetSstoreCleanGas = 5000"
definition NetSstoreDirtyGas :: uint64 where "NetSstoreDirtyGas = 200"
definition NetSstoreClearRefund :: uint64 where "NetSstoreClearRefund = 15000"
definition NetSstoreResetRefund :: uint64 where "NetSstoreResetRefund = 4800"
definition NetSstoreResetClearRefund :: uint64 where "NetSstoreResetClearRefund = 19800"
definition SstoreSentryGasEIP2200 :: uint64 where "SstoreSentryGasEIP2200 = 2300"
definition SstoreSetGasEIP2200 :: uint64 where "SstoreSetGasEIP2200 = 20000"
definition SstoreResetGasEIP2200 :: uint64 where "SstoreResetGasEIP2200 = 5000"
definition SstoreClearsScheduleRefundEIP2200 :: uint64 where "SstoreClearsScheduleRefundEIP2200 = 15000"
definition SloadGasEIP2200 :: uint64 where "SloadGasEIP2200 = 800"
definition ColdAccountAccessCostEIP2929 :: uint64 where "ColdAccountAccessCostEIP2929 = 2600"
definition ColdSloadCostEIP2929 :: uint64 where "ColdSloadCostEIP2929 = 2100"
definition WarmStorageReadCostEIP2929 :: uint64 where "WarmStorageReadCostEIP2929 = 100"
definition SstoreClearsScheduleRefundEIP3529 :: uint64 where
  "SstoreClearsScheduleRefundEIP3529 = SstoreResetGasEIP2200 - ColdSloadCostEIP2929 + 1900"

definition then_op :: "state_op \<Rightarrow> bool \<Rightarrow> frame \<Rightarrow> frame" where
  "then_op x b f = (if b then Op x (\<lambda>_. f) else f)"

text \<open>The refunds of a slot that was written before, in the order of the code.\<close>

definition dirty_refunds :: "Hash \<Rightarrow> Hash \<Rightarrow> Hash \<Rightarrow> uint64 \<Rightarrow> uint64 \<Rightarrow> uint64 \<Rightarrow> frame \<Rightarrow> frame" where
  "dirty_refunds original current val clearing reset_clear reset f =
     then_op (OpSubRefund clearing) (original \<noteq> 0 \<and> current = 0)
     (then_op (OpAddRefund clearing) (original \<noteq> 0 \<and> current \<noteq> 0 \<and> val = 0)
     (then_op (OpAddRefund reset_clear) (original = val \<and> original = 0)
     (then_op (OpAddRefund reset) (original = val \<and> original \<noteq> 0) f)))"

definition gasSStore :: gasFunc where
  "gasSStore x s memorySize k =
     meter s (go_bind (Back 1 (s_stack s)) (\<lambda>y. go_bind (Back 0 (s_stack s)) (\<lambda>loc. Inr (y, loc)))) k (\<lambda>(y, loc).
       let rules = ie_rules (x_env x); self = c_self (x_contract x) in
       Op (OpGetState self loc) (\<lambda>r.
         let current = ans_hash r
         in if IsPetersburg rules \<or> \<not> IsConstantinople rules
            then if current = 0 \<and> u_Sign (lib x) y \<noteq> 0 then k (GasCost SstoreSetGas s)
                 else if current \<noteq> 0 \<and> u_Sign (lib x) y = 0
                 then Op (OpAddRefund SstoreRefundGas) (\<lambda>_. k (GasCost SstoreClearGas s))
                 else k (GasCost SstoreResetGas s)
            else if current = y then k (GasCost NetSstoreNoopGas s)
            else Op (OpGetCommittedState self loc) (\<lambda>r.
              let original = ans_hash r
              in if original = current
                 then if original = 0 then k (GasCost NetSstoreInitGas s)
                      else then_op (OpAddRefund NetSstoreClearRefund) (y = 0) (k (GasCost NetSstoreCleanGas s))
                 else dirty_refunds original current y NetSstoreClearRefund NetSstoreResetClearRefund NetSstoreResetRefund
                        (k (GasCost NetSstoreDirtyGas s)))))"

definition gasSStoreEIP2200 :: gasFunc where
  "gasSStoreEIP2200 x s memorySize k =
     (if s_gas s \<le> SstoreSentryGasEIP2200 then k (NoGas (ErrOther ''not enough gas for reentrancy sentry'') s)
      else meter s (go_bind (Back 1 (s_stack s)) (\<lambda>y. go_bind (Back 0 (s_stack s)) (\<lambda>loc. Inr (y, loc)))) k (\<lambda>(y, loc).
        let self = c_self (x_contract x) in
        Op (OpGetState self loc) (\<lambda>r.
          let current = ans_hash r
          in if current = y then k (GasCost SloadGasEIP2200 s)
             else Op (OpGetCommittedState self loc) (\<lambda>r.
               let original = ans_hash r
               in if original = current
                  then if original = 0 then k (GasCost SstoreSetGasEIP2200 s)
                       else then_op (OpAddRefund SstoreClearsScheduleRefundEIP2200) (y = 0) (k (GasCost SstoreResetGasEIP2200 s))
                  else dirty_refunds original current y SstoreClearsScheduleRefundEIP2200
                         (SstoreSetGasEIP2200 - SloadGasEIP2200) (SstoreResetGasEIP2200 - SloadGasEIP2200)
                         (k (GasCost SloadGasEIP2200 s))))))"

definition makeGasSStoreFunc :: "uint64 \<Rightarrow> gasFunc" where
  "makeGasSStoreFunc clearingRefund x s memorySize k =
     (if s_gas s \<le> SstoreSentryGasEIP2200 then k (NoGas (ErrOther ''not enough gas for reentrancy sentry'') s)
      else meter s (go_bind (Back 1 (s_stack s)) (\<lambda>y. go_bind (Back 0 (s_stack s)) (\<lambda>slot. Inr (y, slot)))) k (\<lambda>(y, slot).
        let self = c_self (x_contract x) in
        Op (OpGetState self slot) (\<lambda>r.
          let current = ans_hash r;
              charge = (\<lambda>cost.
                if current = y then k (GasCost (cost + WarmStorageReadCostEIP2929) s)
                else Op (OpGetCommittedState self slot) (\<lambda>r.
                  let original = ans_hash r
                  in if original = current
                     then if original = 0 then k (GasCost (cost + SstoreSetGasEIP2200) s)
                          else then_op (OpAddRefund clearingRefund) (y = 0)
                                 (k (GasCost (cost + (SstoreResetGasEIP2200 - ColdSloadCostEIP2929)) s))
                     else dirty_refunds original current y clearingRefund (SstoreSetGasEIP2200 - WarmStorageReadCostEIP2929)
                            ((SstoreResetGasEIP2200 - ColdSloadCostEIP2929) - WarmStorageReadCostEIP2929)
                            (k (GasCost (cost + WarmStorageReadCostEIP2929) s))))
          in Op (OpSlotInAccessList self slot) (\<lambda>r.
               let (addrPresent, slotPresent) = ans_bools r
               in if slotPresent then charge 0
                  else Op (OpAddSlot self slot) (\<lambda>_.
                    if \<not> addrPresent
                    then Crash (ExplicitPanic ''impossible case: address was not present in access list during sstore op'')
                    else charge ColdSloadCostEIP2929)))))"

definition gasSStoreEIP2929 :: gasFunc where "gasSStoreEIP2929 = makeGasSStoreFunc SstoreClearsScheduleRefundEIP2200"
definition gasSStoreEIP3529 :: gasFunc where "gasSStoreEIP3529 = makeGasSStoreFunc SstoreClearsScheduleRefundEIP3529"

definition gasSLoadEIP2929 :: gasFunc where
  "gasSLoadEIP2929 x s memorySize k =
     meter s (Back 0 (s_stack s)) k (\<lambda>loc.
       Op (OpSlotInAccessList (c_self (x_contract x)) loc) (\<lambda>r.
         if \<not> snd (ans_bools r)
         then Op (OpAddSlot (c_self (x_contract x)) loc) (\<lambda>_. k (GasCost ColdSloadCostEIP2929 s))
         else k (GasCost WarmStorageReadCostEIP2929 s)))"

section \<open>Accounts\<close>

definition gasExtCodeCopyEIP2929 :: gasFunc where
  "gasExtCodeCopyEIP2929 x s memorySize k =
     gasExtCodeCopy x s memorySize (\<lambda>res. case res of
       NoGas e s \<Rightarrow> k (NoGas e s)
     | GasCost gas s \<Rightarrow>
         meter s (Back 0 (s_stack s)) k (\<lambda>a.
           Op (OpAddressInAccessList (Bytes20 a)) (\<lambda>r.
             if \<not> ans_bool r
             then Op (OpAddAddress (Bytes20 a)) (\<lambda>_.
                    meter s (checked (SafeAdd gas (ColdAccountAccessCostEIP2929 - WarmStorageReadCostEIP2929))) k (\<lambda>gas. k (GasCost gas s)))
             else k (GasCost gas s))))"

definition gasEip2929AccountCheck :: gasFunc where
  "gasEip2929AccountCheck x s memorySize k =
     meter s (Back 0 (s_stack s)) k (\<lambda>a.
       Op (OpAddressInAccessList (Bytes20 a)) (\<lambda>r.
         if \<not> ans_bool r
         then Op (OpAddAddress (Bytes20 a)) (\<lambda>_. k (GasCost (ColdAccountAccessCostEIP2929 - WarmStorageReadCostEIP2929) s))
         else k (GasCost 0 s)))"

definition SelfdestructGasEIP150 :: uint64 where "SelfdestructGasEIP150 = 5000"
definition CreateBySelfdestructGas :: uint64 where "CreateBySelfdestructGas = 25000"
definition SelfdestructRefundGas :: uint64 where "SelfdestructRefundGas = 24000"

definition refund_suicide :: "bool \<Rightarrow> Address \<Rightarrow> frame \<Rightarrow> frame" where
  "refund_suicide enabled self f =
     (if enabled then Op (OpHasSuicided self) (\<lambda>r. then_op (OpAddRefund SelfdestructRefundGas) (\<not> ans_bool r) f) else f)"

text \<open>The charge for a beneficiary that has to be created: it is empty and there is value to send.\<close>

definition empty_charge :: "Address \<Rightarrow> Address \<Rightarrow> uint64 \<Rightarrow> (uint64 \<Rightarrow> frame) \<Rightarrow> frame" where
  "empty_charge address self gas f =
     Op (OpEmpty address) (\<lambda>r.
       if ans_bool r
       then Op (OpGetBalance self) (\<lambda>b. f (if ans_big b \<noteq> 0 then gas + CreateBySelfdestructGas else gas))
       else f gas)"

definition gasSelfdestruct :: gasFunc where
  "gasSelfdestruct x s memorySize k =
     (let rules = ie_rules (x_env x); self = c_self (x_contract x);
          settle = (\<lambda>gas. refund_suicide True self (k (GasCost gas s)))
      in if IsEIP150 rules
         then meter s (Back 0 (s_stack s)) k (\<lambda>a.
                if IsEIP158 rules then empty_charge (Bytes20 a) self SelfdestructGasEIP150 settle
                else Op (OpExist (Bytes20 a)) (\<lambda>r.
                  settle (if \<not> ans_bool r then SelfdestructGasEIP150 + CreateBySelfdestructGas else SelfdestructGasEIP150)))
         else settle 0)"

definition makeSelfdestructGasFn :: "bool \<Rightarrow> gasFunc" where
  "makeSelfdestructGasFn refundsEnabled x s memorySize k =
     meter s (Back 0 (s_stack s)) k (\<lambda>a.
       let self = c_self (x_contract x); address = Bytes20 a;
           settle = (\<lambda>gas. refund_suicide refundsEnabled self (k (GasCost gas s)))
       in Op (OpAddressInAccessList address) (\<lambda>r.
            if \<not> ans_bool r
            then Op (OpAddAddress address) (\<lambda>_. empty_charge address self ColdAccountAccessCostEIP2929 settle)
            else empty_charge address self 0 settle))"

definition gasSelfdestructEIP2929 :: gasFunc where "gasSelfdestructEIP2929 = makeSelfdestructGasFn True"
definition gasSelfdestructEIP3529 :: gasFunc where "gasSelfdestructEIP3529 = makeSelfdestructGasFn False"

section \<open>Calls\<close>

definition CallValueTransferGas :: uint64 where "CallValueTransferGas = 9000"
definition CallNewAccountGas :: uint64 where "CallNewAccountGas = 25000"

text \<open>The gas passed on to a call, set aside and added to its cost.\<close>

definition call_share :: "ctx \<Rightarrow> uint64 \<times> scope \<Rightarrow> (uint64 \<times> scope) metered" where
  "call_share x r =
     (case r of (gas, s) \<Rightarrow>
        go_bind (Back 0 (s_stack s)) (\<lambda>cost.
        go_bind (case callGas (IsEIP150 (ie_rules (x_env x))) (s_gas s) gas cost of Inl e \<Rightarrow> Inl (GasErr e) | Inr g \<Rightarrow> Inr g) (\<lambda>temp.
        go_bind (checked (SafeAdd gas temp)) (\<lambda>gas. Inr (gas, s\<lparr>s_callGasTemp := temp\<rparr>)))))"

definition gasCall :: gasFunc where
  "gasCall x s memorySize k =
     meter s (go_bind (Back 2 (s_stack s)) (\<lambda>v. go_bind (Back 1 (s_stack s)) (\<lambda>a. Inr (v, a)))) k (\<lambda>(v, a).
       let rules = ie_rules (x_env x); transfersValue = (v \<noteq> 0); address = Bytes20 a;
           charge = (\<lambda>new_account.
             let gas = (if new_account then CallNewAccountGas else 0);
                 gas = (if transfersValue then gas + CallValueTransferGas else gas)
             in meter s (go_bind (mem_cost s memorySize) (\<lambda>(memoryGas, s).
                         go_bind (checked (SafeAdd gas memoryGas)) (\<lambda>gas. call_share x (gas, s)))) k (\<lambda>(gas, s). k (GasCost gas s)))
       in if IsEIP158 rules
          then if transfersValue then Op (OpEmpty address) (\<lambda>r. charge (ans_bool r)) else charge False
          else Op (OpExist address) (\<lambda>r. charge (\<not> ans_bool r)))"

definition gasCallCode :: gasFunc where
  "gasCallCode = pure_gas (\<lambda>x s memorySize.
     go_bind (mem_cost s memorySize) (\<lambda>(memoryGas, s).
     go_bind (Back 2 (s_stack s)) (\<lambda>v.
     go_bind (checked (SafeAdd (if u_Sign (lib x) v \<noteq> 0 then CallValueTransferGas else 0) memoryGas)) (\<lambda>gas. call_share x (gas, s)))))"

definition gasDelegateCall :: gasFunc where
  "gasDelegateCall = pure_gas (\<lambda>x s memorySize. go_bind (mem_cost s memorySize) (call_share x))"

definition gasStaticCall :: gasFunc where
  "gasStaticCall = pure_gas (\<lambda>x s memorySize. go_bind (mem_cost s memorySize) (call_share x))"

definition makeCallVariantGasCallEIP2929 :: "gasFunc \<Rightarrow> gasFunc" where
  "makeCallVariantGasCallEIP2929 oldCalculator x s memorySize k =
     meter s (Back 1 (s_stack s)) k (\<lambda>a.
       let coldCost = ColdAccountAccessCostEIP2929 - WarmStorageReadCostEIP2929 in
       Op (OpAddressInAccessList (Bytes20 a)) (\<lambda>r.
         if ans_bool r then oldCalculator x s memorySize k
         else Op (OpAddAddress (Bytes20 a)) (\<lambda>_.
           case UseGas coldCost (s_gas s) of (ok, left) \<Rightarrow>
             if \<not> ok then k (NoGas ErrOutOfGas s)
             else oldCalculator x (s\<lparr>s_gas := left\<rparr>) memorySize (\<lambda>res. case res of
               NoGas e s \<Rightarrow> k (NoGas e s)
             | GasCost gas s \<Rightarrow> k (GasCost (gas + coldCost) (s\<lparr>s_gas := s_gas s + coldCost\<rparr>))))))"

definition gasCallEIP2929 :: gasFunc where "gasCallEIP2929 = makeCallVariantGasCallEIP2929 gasCall"
definition gasDelegateCallEIP2929 :: gasFunc where "gasDelegateCallEIP2929 = makeCallVariantGasCallEIP2929 gasDelegateCall"
definition gasStaticCallEIP2929 :: gasFunc where "gasStaticCallEIP2929 = makeCallVariantGasCallEIP2929 gasStaticCall"
definition gasCallCodeEIP2929 :: gasFunc where "gasCallCodeEIP2929 = makeCallVariantGasCallEIP2929 gasCallCode"

end
