(* ===== verification/Jump_Table.thy ===== *)
theory Jump_Table
  imports Gas_Table
begin

text \<open>
  The tables of instructions of the forks: \<open>core/vm/jump_table.go\<close>, \<open>stack_table.go\<close>, the changes of \<open>eips.go\<close>, and the
  choice between the tables in \<open>interpreter.go\<close>.
\<close>

section \<open>Opcodes and constants\<close>

abbreviation ADD :: byte where "ADD \<equiv> 0x1"
abbreviation MUL :: byte where "MUL \<equiv> 0x2"
abbreviation SUB :: byte where "SUB \<equiv> 0x3"
abbreviation DIV :: byte where "DIV \<equiv> 0x4"
abbreviation SDIV :: byte where "SDIV \<equiv> 0x5"
abbreviation MOD :: byte where "MOD \<equiv> 0x6"
abbreviation SMOD :: byte where "SMOD \<equiv> 0x7"
abbreviation ADDMOD :: byte where "ADDMOD \<equiv> 0x8"
abbreviation MULMOD :: byte where "MULMOD \<equiv> 0x9"
abbreviation EXP :: byte where "EXP \<equiv> 0xa"
abbreviation SIGNEXTEND :: byte where "SIGNEXTEND \<equiv> 0xb"
abbreviation LT :: byte where "LT \<equiv> 0x10"
abbreviation GT :: byte where "GT \<equiv> 0x11"
abbreviation SLT :: byte where "SLT \<equiv> 0x12"
abbreviation SGT :: byte where "SGT \<equiv> 0x13"
abbreviation EQ :: byte where "EQ \<equiv> 0x14"
abbreviation ISZERO :: byte where "ISZERO \<equiv> 0x15"
abbreviation AND_op :: byte where "AND_op \<equiv> 0x16"
abbreviation OR_op :: byte where "OR_op \<equiv> 0x17"
abbreviation XOR_op :: byte where "XOR_op \<equiv> 0x18"
abbreviation NOT_op :: byte where "NOT_op \<equiv> 0x19"
abbreviation BYTE :: byte where "BYTE \<equiv> 0x1a"
abbreviation SHL :: byte where "SHL \<equiv> 0x1b"
abbreviation SHR :: byte where "SHR \<equiv> 0x1c"
abbreviation SAR :: byte where "SAR \<equiv> 0x1d"
abbreviation KECCAK256 :: byte where "KECCAK256 \<equiv> 0x20"
abbreviation ADDRESS :: byte where "ADDRESS \<equiv> 0x30"
abbreviation BALANCE :: byte where "BALANCE \<equiv> 0x31"
abbreviation ORIGIN :: byte where "ORIGIN \<equiv> 0x32"
abbreviation CALLER :: byte where "CALLER \<equiv> 0x33"
abbreviation CALLVALUE :: byte where "CALLVALUE \<equiv> 0x34"
abbreviation CALLDATALOAD :: byte where "CALLDATALOAD \<equiv> 0x35"
abbreviation CALLDATASIZE :: byte where "CALLDATASIZE \<equiv> 0x36"
abbreviation CALLDATACOPY :: byte where "CALLDATACOPY \<equiv> 0x37"
abbreviation CODESIZE :: byte where "CODESIZE \<equiv> 0x38"
abbreviation CODECOPY :: byte where "CODECOPY \<equiv> 0x39"
abbreviation GASPRICE :: byte where "GASPRICE \<equiv> 0x3a"
abbreviation EXTCODESIZE :: byte where "EXTCODESIZE \<equiv> 0x3b"
abbreviation EXTCODECOPY :: byte where "EXTCODECOPY \<equiv> 0x3c"
abbreviation RETURNDATASIZE :: byte where "RETURNDATASIZE \<equiv> 0x3d"
abbreviation RETURNDATACOPY :: byte where "RETURNDATACOPY \<equiv> 0x3e"
abbreviation EXTCODEHASH :: byte where "EXTCODEHASH \<equiv> 0x3f"
abbreviation BLOCKHASH :: byte where "BLOCKHASH \<equiv> 0x40"
abbreviation COINBASE :: byte where "COINBASE \<equiv> 0x41"
abbreviation TIMESTAMP :: byte where "TIMESTAMP \<equiv> 0x42"
abbreviation NUMBER :: byte where "NUMBER \<equiv> 0x43"
abbreviation DIFFICULTY :: byte where "DIFFICULTY \<equiv> 0x44"
abbreviation GASLIMIT :: byte where "GASLIMIT \<equiv> 0x45"
abbreviation CHAINID :: byte where "CHAINID \<equiv> 0x46"
abbreviation SELFBALANCE :: byte where "SELFBALANCE \<equiv> 0x47"
abbreviation BASEFEE :: byte where "BASEFEE \<equiv> 0x48"
abbreviation POP :: byte where "POP \<equiv> 0x50"
abbreviation MLOAD :: byte where "MLOAD \<equiv> 0x51"
abbreviation MSTORE :: byte where "MSTORE \<equiv> 0x52"
abbreviation MSTORE8 :: byte where "MSTORE8 \<equiv> 0x53"
abbreviation SLOAD :: byte where "SLOAD \<equiv> 0x54"
abbreviation SSTORE :: byte where "SSTORE \<equiv> 0x55"
abbreviation JUMP :: byte where "JUMP \<equiv> 0x56"
abbreviation JUMPI :: byte where "JUMPI \<equiv> 0x57"
abbreviation PC :: byte where "PC \<equiv> 0x58"
abbreviation MSIZE :: byte where "MSIZE \<equiv> 0x59"
abbreviation GAS :: byte where "GAS \<equiv> 0x5a"
abbreviation CREATE :: byte where "CREATE \<equiv> 0xf0"
abbreviation CALL :: byte where "CALL \<equiv> 0xf1"
abbreviation CALLCODE :: byte where "CALLCODE \<equiv> 0xf2"
abbreviation RETURN :: byte where "RETURN \<equiv> 0xf3"
abbreviation DELEGATECALL :: byte where "DELEGATECALL \<equiv> 0xf4"
abbreviation CREATE2 :: byte where "CREATE2 \<equiv> 0xf5"
abbreviation STATICCALL :: byte where "STATICCALL \<equiv> 0xfa"
abbreviation REVERT :: byte where "REVERT \<equiv> 0xfd"
abbreviation SELFDESTRUCT :: byte where "SELFDESTRUCT \<equiv> 0xff"

definition GasQuickStep :: uint64 where "GasQuickStep = 2"
definition GasFastestStep :: uint64 where "GasFastestStep = 3"
definition GasFastStep :: uint64 where "GasFastStep = 5"
definition GasMidStep :: uint64 where "GasMidStep = 8"
definition GasSlowStep :: uint64 where "GasSlowStep = 10"
definition GasExtStep :: uint64 where "GasExtStep = 20"
definition Keccak256Gas :: uint64 where "Keccak256Gas = 30"
definition BalanceGasFrontier :: uint64 where "BalanceGasFrontier = 20"
definition BalanceGasEIP150 :: uint64 where "BalanceGasEIP150 = 400"
definition BalanceGasEIP1884 :: uint64 where "BalanceGasEIP1884 = 700"
definition ExtcodeSizeGasFrontier :: uint64 where "ExtcodeSizeGasFrontier = 20"
definition ExtcodeSizeGasEIP150 :: uint64 where "ExtcodeSizeGasEIP150 = 700"
definition ExtcodeCopyBaseFrontier :: uint64 where "ExtcodeCopyBaseFrontier = 20"
definition ExtcodeCopyBaseEIP150 :: uint64 where "ExtcodeCopyBaseEIP150 = 700"
definition ExtcodeHashGasConstantinople :: uint64 where "ExtcodeHashGasConstantinople = 400"
definition ExtcodeHashGasEIP1884 :: uint64 where "ExtcodeHashGasEIP1884 = 700"
definition SloadGasFrontier :: uint64 where "SloadGasFrontier = 50"
definition SloadGasEIP150 :: uint64 where "SloadGasEIP150 = 200"
definition SloadGasEIP1884 :: uint64 where "SloadGasEIP1884 = 800"
definition JumpdestGas :: uint64 where "JumpdestGas = 1"
definition CreateGas :: uint64 where "CreateGas = 32000"
definition Create2Gas :: uint64 where "Create2Gas = 32000"
definition CallGasFrontier :: uint64 where "CallGasFrontier = 40"
definition CallGasEIP150 :: uint64 where "CallGasEIP150 = 700"
definition StackLimit :: nat where "StackLimit = 1024"

lemmas price_defs = GasQuickStep_def GasFastestStep_def GasFastStep_def GasMidStep_def GasSlowStep_def GasExtStep_def Keccak256Gas_def
  BalanceGasFrontier_def BalanceGasEIP150_def BalanceGasEIP1884_def ExtcodeSizeGasFrontier_def ExtcodeSizeGasEIP150_def
  ExtcodeCopyBaseFrontier_def ExtcodeCopyBaseEIP150_def ExtcodeHashGasConstantinople_def ExtcodeHashGasEIP1884_def
  SloadGasFrontier_def SloadGasEIP150_def SloadGasEIP1884_def SloadGasEIP2200_def JumpdestGas_def CreateGas_def Create2Gas_def
  CallGasFrontier_def CallGasEIP150_def WarmStorageReadCostEIP2929_def SelfdestructGasEIP150_def

section \<open>Operations\<close>

text \<open>For a log, \<open>execute\<close> is the field \<open>executeLog\<close>, the one the loop calls.\<close>

record operation =
  execute :: executionFunc
  constantGas :: uint64
  dynamicGas :: "gasFunc option"
  op_minStack :: nat
  op_maxStack :: nat
  memorySize :: "memorySizeFunc option"

definition maxStack :: "nat \<Rightarrow> nat \<Rightarrow> nat" where
  "maxStack pop push = StackLimit + pop - push"

definition minStack :: "nat \<Rightarrow> nat \<Rightarrow> nat" where
  "minStack pops push = pops"

definition minSwapStack :: "nat \<Rightarrow> nat" where "minSwapStack n = minStack n n"
definition maxSwapStack :: "nat \<Rightarrow> nat" where "maxSwapStack n = maxStack n n"
definition minDupStack :: "nat \<Rightarrow> nat" where "minDupStack n = minStack n (n + 1)"
definition maxDupStack :: "nat \<Rightarrow> nat" where "maxDupStack n = maxStack n (n + 1)"

definition fixed_cost :: "executionFunc \<Rightarrow> uint64 \<Rightarrow> nat \<Rightarrow> nat \<Rightarrow> operation" where
  "fixed_cost f gas pops push =
     \<lparr>execute = f, constantGas = gas, dynamicGas = None, op_minStack = minStack pops push, op_maxStack = maxStack pops push,
      memorySize = None\<rparr>"

definition dynamic_cost :: "executionFunc \<Rightarrow> uint64 \<Rightarrow> gasFunc \<Rightarrow> nat \<Rightarrow> nat \<Rightarrow> memorySizeFunc option \<Rightarrow> operation" where
  "dynamic_cost f gas d pops push m =
     \<lparr>execute = f, constantGas = gas, dynamicGas = Some d, op_minStack = minStack pops push, op_maxStack = maxStack pops push,
      memorySize = m\<rparr>"

type_synonym JumpTable = "byte \<Rightarrow> operation"

text \<open>Other names for \<open>pureMemoryGascost\<close>.\<close>

abbreviation "gasReturn \<equiv> pureMemoryGascost"
abbreviation "gasRevert \<equiv> pureMemoryGascost"
abbreviation "gasMLoad \<equiv> pureMemoryGascost"
abbreviation "gasMStore8 \<equiv> pureMemoryGascost"
abbreviation "gasMStore \<equiv> pureMemoryGascost"
abbreviation "gasCreate \<equiv> pureMemoryGascost"

section \<open>The first table\<close>

definition frontier_arithmetic :: "(byte \<times> operation) list" where
  "frontier_arithmetic =
    [(STOP, fixed_cost (pure_op opStop) 0 0 0),
     (ADD, fixed_cost (pure_op opAdd) GasFastestStep 2 1),
     (MUL, fixed_cost (pure_op opMul) GasFastStep 2 1),
     (SUB, fixed_cost (pure_op opSub) GasFastestStep 2 1),
     (DIV, fixed_cost (pure_op opDiv) GasFastStep 2 1),
     (SDIV, fixed_cost (pure_op opSdiv) GasFastStep 2 1),
     (MOD, fixed_cost (pure_op opMod) GasFastStep 2 1),
     (SMOD, fixed_cost (pure_op opSmod) GasFastStep 2 1),
     (ADDMOD, fixed_cost (pure_op opAddmod) GasMidStep 3 1),
     (MULMOD, fixed_cost (pure_op opMulmod) GasMidStep 3 1),
     (EXP, dynamic_cost (pure_op opExp) 0 gasExpFrontier 2 1 None),
     (SIGNEXTEND, fixed_cost (pure_op opSignExtend) GasFastStep 2 1),
     (LT, fixed_cost (pure_op opLt) GasFastestStep 2 1),
     (GT, fixed_cost (pure_op opGt) GasFastestStep 2 1),
     (SLT, fixed_cost (pure_op opSlt) GasFastestStep 2 1),
     (SGT, fixed_cost (pure_op opSgt) GasFastestStep 2 1),
     (EQ, fixed_cost (pure_op opEq) GasFastestStep 2 1),
     (ISZERO, fixed_cost (pure_op opIszero) GasFastestStep 1 1),
     (AND_op, fixed_cost (pure_op opAnd) GasFastestStep 2 1),
     (XOR_op, fixed_cost (pure_op opXor) GasFastestStep 2 1),
     (OR_op, fixed_cost (pure_op opOr) GasFastestStep 2 1),
     (NOT_op, fixed_cost (pure_op opNot) GasFastestStep 1 1),
     (BYTE, fixed_cost (pure_op opByte) GasFastestStep 2 1),
     (KECCAK256, dynamic_cost opKeccak256 Keccak256Gas gasKeccak256 2 1 (Some memoryKeccak256))]"

definition frontier_context :: "(byte \<times> operation) list" where
  "frontier_context =
    [(ADDRESS, fixed_cost (pure_op opAddress) GasQuickStep 0 1),
     (BALANCE, fixed_cost opBalance BalanceGasFrontier 1 1),
     (ORIGIN, fixed_cost (pure_op opOrigin) GasQuickStep 0 1),
     (CALLER, fixed_cost (pure_op opCaller) GasQuickStep 0 1),
     (CALLVALUE, fixed_cost (pure_op opCallValue) GasQuickStep 0 1),
     (CALLDATALOAD, fixed_cost (pure_op opCallDataLoad) GasFastestStep 1 1),
     (CALLDATASIZE, fixed_cost (pure_op opCallDataSize) GasQuickStep 0 1),
     (CALLDATACOPY, dynamic_cost (pure_op opCallDataCopy) GasFastestStep gasCallDataCopy 3 0 (Some memoryCallDataCopy)),
     (CODESIZE, fixed_cost (pure_op opCodeSize) GasQuickStep 0 1),
     (CODECOPY, dynamic_cost (pure_op opCodeCopy) GasFastestStep gasCodeCopy 3 0 (Some memoryCodeCopy)),
     (GASPRICE, fixed_cost (pure_op opGasprice) GasQuickStep 0 1),
     (EXTCODESIZE, fixed_cost opExtCodeSize ExtcodeSizeGasFrontier 1 1),
     (EXTCODECOPY, dynamic_cost opExtCodeCopy ExtcodeCopyBaseFrontier gasExtCodeCopy 4 0 (Some memoryExtCodeCopy)),
     (BLOCKHASH, fixed_cost opBlockhash GasExtStep 1 1),
     (COINBASE, fixed_cost (pure_op opCoinbase) GasQuickStep 0 1),
     (TIMESTAMP, fixed_cost (pure_op opTimestamp) GasQuickStep 0 1),
     (NUMBER, fixed_cost (pure_op opNumber) GasQuickStep 0 1),
     (DIFFICULTY, fixed_cost (pure_op opDifficulty) GasQuickStep 0 1),
     (GASLIMIT, fixed_cost (pure_op opGasLimit) GasQuickStep 0 1)]"

definition frontier_storage :: "(byte \<times> operation) list" where
  "frontier_storage =
    [(POP, fixed_cost (pure_op opPop) GasQuickStep 1 0),
     (MLOAD, dynamic_cost (pure_op opMload) GasFastestStep gasMLoad 1 1 (Some memoryMLoad)),
     (MSTORE, dynamic_cost (pure_op opMstore) GasFastestStep gasMStore 2 0 (Some memoryMStore)),
     (MSTORE8, dynamic_cost (pure_op opMstore8) GasFastestStep gasMStore8 2 0 (Some memoryMStore8)),
     (SLOAD, fixed_cost opSload SloadGasFrontier 1 1),
     (SSTORE, dynamic_cost opSstore 0 gasSStore 2 0 None),
     (JUMP, fixed_cost (pure_op opJump) GasMidStep 1 0),
     (JUMPI, fixed_cost (pure_op opJumpi) GasSlowStep 2 0),
     (PC, fixed_cost (pure_op opPc) GasQuickStep 0 1),
     (MSIZE, fixed_cost (pure_op opMsize) GasQuickStep 0 1),
     (GAS, fixed_cost (pure_op opGas) GasQuickStep 0 1),
     (JUMPDEST, fixed_cost (pure_op opJumpdest) JumpdestGas 0 0)]"

definition frontier_push :: "(byte \<times> operation) list" where
  "frontier_push = (PUSH1, fixed_cost (pure_op opPush1) GasFastestStep 0 1) #
     map (\<lambda>n. (PUSH1 + of_nat (n - 1), fixed_cost (pure_op (makePush (of_nat n) n)) GasFastestStep 0 1)) [2..<33]"

definition frontier_dup :: "(byte \<times> operation) list" where
  "frontier_dup =
     map (\<lambda>n. (0x80 + of_nat (n - 1),
       \<lparr>execute = pure_op (makeDup n), constantGas = GasFastestStep, dynamicGas = None, op_minStack = minDupStack n,
        op_maxStack = maxDupStack n, memorySize = None\<rparr>)) [1..<17]"

definition frontier_swap :: "(byte \<times> operation) list" where
  "frontier_swap =
     map (\<lambda>n. (0x90 + of_nat (n - 1),
       \<lparr>execute = pure_op (makeSwap n), constantGas = GasFastestStep, dynamicGas = None, op_minStack = minSwapStack (n + 1),
        op_maxStack = maxSwapStack (n + 1), memorySize = None\<rparr>)) [1..<17]"

definition frontier_log :: "(byte \<times> operation) list" where
  "frontier_log =
     map (\<lambda>n. (0xa0 + of_nat n, dynamic_cost (log_op n) 0 (makeGasLog (of_nat n)) (n + 2) 0 (Some memoryLog))) [0..<5]"

definition frontier_system :: "(byte \<times> operation) list" where
  "frontier_system =
    [(CREATE, dynamic_cost opCreate CreateGas gasCreate 3 1 (Some memoryCreate)),
     (CALL, dynamic_cost opCall CallGasFrontier gasCall 7 1 (Some memoryCall)),
     (CALLCODE, dynamic_cost opCallCode CallGasFrontier gasCallCode 7 1 (Some memoryCall)),
     (RETURN, dynamic_cost (pure_op opReturn) 0 gasReturn 2 0 (Some memoryReturn)),
     (SELFDESTRUCT, dynamic_cost opSelfdestruct 0 gasSelfdestruct 1 0 None)]"

definition undefined_op :: operation where
  "undefined_op =
     \<lparr>execute = pure_op opUndefined, constantGas = 0, dynamicGas = None, op_minStack = 0, op_maxStack = maxStack 0 0,
      memorySize = None\<rparr>"

definition newFrontierInstructionSet :: JumpTable where
  "newFrontierInstructionSet b =
     (case map_of (frontier_arithmetic @ frontier_context @ frontier_storage @ frontier_system @ frontier_push @ frontier_dup
        @ frontier_swap @ frontier_log) b of
        None \<Rightarrow> undefined_op | Some o1 \<Rightarrow> o1)"

section \<open>Changes of later forks\<close>

definition newHomesteadInstructionSet :: JumpTable where
  "newHomesteadInstructionSet = newFrontierInstructionSet
     (DELEGATECALL := dynamic_cost opDelegateCall CallGasFrontier gasDelegateCall 6 1 (Some memoryDelegateCall))"

definition set_gas :: "byte \<Rightarrow> uint64 \<Rightarrow> JumpTable \<Rightarrow> JumpTable" where
  "set_gas b gas jt = jt(b := (jt b)\<lparr>constantGas := gas\<rparr>)"

definition set_dynamic :: "byte \<Rightarrow> gasFunc \<Rightarrow> JumpTable \<Rightarrow> JumpTable" where
  "set_dynamic b f jt = jt(b := (jt b)\<lparr>dynamicGas := Some f\<rparr>)"

definition newTangerineWhistleInstructionSet :: JumpTable where
  "newTangerineWhistleInstructionSet =
     (set_gas DELEGATECALL CallGasEIP150 \<circ> set_gas CALLCODE CallGasEIP150 \<circ> set_gas CALL CallGasEIP150
      \<circ> set_gas EXTCODECOPY ExtcodeCopyBaseEIP150 \<circ> set_gas SLOAD SloadGasEIP150 \<circ> set_gas EXTCODESIZE ExtcodeSizeGasEIP150
      \<circ> set_gas BALANCE BalanceGasEIP150) newHomesteadInstructionSet"

definition newSpuriousDragonInstructionSet :: JumpTable where
  "newSpuriousDragonInstructionSet = set_dynamic EXP gasExpEIP158 newTangerineWhistleInstructionSet"

definition newByzantiumInstructionSet :: JumpTable where
  "newByzantiumInstructionSet = newSpuriousDragonInstructionSet
     (STATICCALL := dynamic_cost opStaticCall CallGasEIP150 gasStaticCall 6 1 (Some memoryStaticCall),
      RETURNDATASIZE := fixed_cost (pure_op opReturnDataSize) GasQuickStep 0 1,
      RETURNDATACOPY := dynamic_cost (pure_op opReturnDataCopy) GasFastestStep gasReturnDataCopy 3 0 (Some memoryReturnDataCopy),
      REVERT := dynamic_cost (pure_op opRevert) 0 gasRevert 2 0 (Some memoryRevert))"

definition newConstantinopleInstructionSet :: JumpTable where
  "newConstantinopleInstructionSet = newByzantiumInstructionSet
     (SHL := fixed_cost (pure_op opSHL) GasFastestStep 2 1,
      SHR := fixed_cost (pure_op opSHR) GasFastestStep 2 1,
      SAR := fixed_cost (pure_op opSAR) GasFastestStep 2 1,
      EXTCODEHASH := fixed_cost opExtCodeHash ExtcodeHashGasConstantinople 1 1,
      CREATE2 := dynamic_cost opCreate2 Create2Gas gasCreate2 4 1 (Some memoryCreate2))"

definition enable1344 :: "JumpTable \<Rightarrow> JumpTable" where
  "enable1344 jt = jt(CHAINID := fixed_cost (pure_op opChainID) GasQuickStep 0 1)"

definition enable1884 :: "JumpTable \<Rightarrow> JumpTable" where
  "enable1884 jt =
     (set_gas EXTCODEHASH ExtcodeHashGasEIP1884 (set_gas BALANCE BalanceGasEIP1884 (set_gas SLOAD SloadGasEIP1884 jt)))
     (SELFBALANCE := fixed_cost opSelfBalance GasFastStep 0 1)"

definition enable2200 :: "JumpTable \<Rightarrow> JumpTable" where
  "enable2200 jt = set_dynamic SSTORE gasSStoreEIP2200 (set_gas SLOAD SloadGasEIP2200 jt)"

definition enable2929 :: "JumpTable \<Rightarrow> JumpTable" where
  "enable2929 =
     set_dynamic SELFDESTRUCT gasSelfdestructEIP2929 \<circ> set_gas SELFDESTRUCT SelfdestructGasEIP150
     \<circ> set_dynamic DELEGATECALL gasDelegateCallEIP2929 \<circ> set_gas DELEGATECALL WarmStorageReadCostEIP2929
     \<circ> set_dynamic STATICCALL gasStaticCallEIP2929 \<circ> set_gas STATICCALL WarmStorageReadCostEIP2929
     \<circ> set_dynamic CALLCODE gasCallCodeEIP2929 \<circ> set_gas CALLCODE WarmStorageReadCostEIP2929
     \<circ> set_dynamic CALL gasCallEIP2929 \<circ> set_gas CALL WarmStorageReadCostEIP2929
     \<circ> set_dynamic BALANCE gasEip2929AccountCheck \<circ> set_gas BALANCE WarmStorageReadCostEIP2929
     \<circ> set_dynamic EXTCODEHASH gasEip2929AccountCheck \<circ> set_gas EXTCODEHASH WarmStorageReadCostEIP2929
     \<circ> set_dynamic EXTCODESIZE gasEip2929AccountCheck \<circ> set_gas EXTCODESIZE WarmStorageReadCostEIP2929
     \<circ> set_dynamic EXTCODECOPY gasExtCodeCopyEIP2929 \<circ> set_gas EXTCODECOPY WarmStorageReadCostEIP2929
     \<circ> set_dynamic SLOAD gasSLoadEIP2929 \<circ> set_gas SLOAD 0
     \<circ> set_dynamic SSTORE gasSStoreEIP2929"

definition enable3529 :: "JumpTable \<Rightarrow> JumpTable" where
  "enable3529 = set_dynamic SELFDESTRUCT gasSelfdestructEIP3529 \<circ> set_dynamic SSTORE gasSStoreEIP3529"

definition enable3198 :: "JumpTable \<Rightarrow> JumpTable" where
  "enable3198 jt = jt(BASEFEE := fixed_cost (pure_op opBaseFee) GasQuickStep 0 1)"

definition newIstanbulInstructionSet :: JumpTable where
  "newIstanbulInstructionSet = (enable2200 \<circ> enable1884 \<circ> enable1344) newConstantinopleInstructionSet"

definition newBerlinInstructionSet :: JumpTable where
  "newBerlinInstructionSet = enable2929 newIstanbulInstructionSet"

definition newLondonInstructionSet :: JumpTable where
  "newLondonInstructionSet = (enable3198 \<circ> enable3529) newBerlinInstructionSet"

text \<open>The table for the rules of a block, without extra EIPs.\<close>

definition NewEVMInterpreter :: "Rules \<Rightarrow> JumpTable" where
  "NewEVMInterpreter rules =
     (if IsLondon rules then newLondonInstructionSet
      else if IsBerlin rules then newBerlinInstructionSet
      else if IsIstanbul rules then newIstanbulInstructionSet
      else if IsConstantinople rules then newConstantinopleInstructionSet
      else if IsByzantium rules then newByzantiumInstructionSet
      else if IsEIP158 rules then newSpuriousDragonInstructionSet
      else if IsEIP150 rules then newTangerineWhistleInstructionSet
      else if IsHomestead rules then newHomesteadInstructionSet
      else newFrontierInstructionSet)"

text \<open>\<open>validate\<close>: the loop takes it that an operation with a memory size has a dynamic cost.\<close>

definition validate :: "JumpTable \<Rightarrow> bool" where
  "validate jt \<longleftrightarrow> list_all (\<lambda>b. memorySize (jt b) \<noteq> None \<longrightarrow> dynamicGas (jt b) \<noteq> None) (map word_of_nat [0..<256])"

end
