(* ===== verification/Evm_Interp.thy ===== *)
theory Evm_Interp
  imports Jump_Table
begin

text \<open>
  The loop of \<open>EVMInterpreter.Run\<close> in \<open>core/vm/interpreter.go\<close>: one step takes an instruction from the code, checks the
  stack, pays for it and executes it. The result is the frame of \<open>Evm_Call\<close>, so that the calls of \<open>core/vm/evm.go\<close> run the
  code they find. The loop is bounded by the gas of the contract; that this is enough is shown in \<open>Interp_Sound\<close>.
\<close>

definition after_exec :: "(scope \<Rightarrow> frame) \<Rightarrow> exec \<Rightarrow> frame" where
  "after_exec go_on e =
     (case e of
        Next s \<Rightarrow> go_on (s\<lparr>s_pc := s_pc s + 1\<rparr>)
      | Stopped ret err s \<Rightarrow> Halt ret err (s_gas s)
      | Panicked p \<Rightarrow> Crash p)"

text \<open>The dynamic cost for a memory of the given size, and the execution once it is paid.\<close>

definition charge_dynamic :: "operation \<Rightarrow> gasFunc \<Rightarrow> ctx \<Rightarrow> (scope \<Rightarrow> frame) \<Rightarrow> scope \<Rightarrow> uint64 \<Rightarrow> frame" where
  "charge_dynamic o1 f x go_on s n =
     f x s n (\<lambda>res. case res of
       NoGas e s \<Rightarrow> Abort ErrOutOfGas (s_gas s)
     | GasCost dynamicCost s \<Rightarrow>
         (case UseGas dynamicCost (s_gas s) of (ok, left) \<Rightarrow>
            if \<not> ok then Abort ErrOutOfGas (s_gas s)
            else execute o1 x (s\<lparr>s_gas := left, s_mem := (if n > 0 then mem_Resize n (s_mem s) else s_mem s)\<rparr>) (after_exec go_on)))"

definition memory_needed :: "operation \<Rightarrow> scope \<Rightarrow> (uint64 \<Rightarrow> frame) \<Rightarrow> frame" where
  "memory_needed o1 s k =
     (case memorySize o1 of
        None \<Rightarrow> k 0
      | Some m \<Rightarrow>
          or_crash (m (s_stack s)) (\<lambda>(memSize, overflow).
            if overflow then Abort ErrGasUintOverflow (s_gas s)
            else case SafeMul (toWordSize memSize) 32 of (n, overflow) \<Rightarrow>
              if overflow then Abort ErrGasUintOverflow (s_gas s) else k n))"

definition interp_step :: "JumpTable \<Rightarrow> ctx \<Rightarrow> (scope \<Rightarrow> frame) \<Rightarrow> scope \<Rightarrow> frame" where
  "interp_step jt x go_on s =
     (let o1 = jt (GetOp (c_Code (x_contract x)) (s_pc s)); sLen = length (s_stack s)
      in if sLen < op_minStack o1 then Abort (ErrStackUnderflow sLen (op_minStack o1)) (s_gas s)
         else if sLen > op_maxStack o1 then Abort (ErrStackOverflow sLen (op_maxStack o1)) (s_gas s)
         else case UseGas (constantGas o1) (s_gas s) of (ok, left) \<Rightarrow>
           if \<not> ok then Abort ErrOutOfGas (s_gas s)
           else let s = s\<lparr>s_gas := left\<rparr>
                in case dynamicGas o1 of
                     None \<Rightarrow> execute o1 x s (after_exec go_on)
                   | Some f \<Rightarrow> memory_needed o1 s (charge_dynamic o1 f x go_on s))"

definition out_of_steps :: go_panic where
  "out_of_steps = ExplicitPanic ''out of steps''"

primrec interp :: "JumpTable \<Rightarrow> ctx \<Rightarrow> nat \<Rightarrow> scope \<Rightarrow> frame" where
  "interp jt x 0 s = Crash out_of_steps"
| "interp jt x (Suc n) s = interp_step jt x (interp jt x n) s"

definition new_scope :: "uint64 \<Rightarrow> scope" where
  "new_scope gas = \<lparr>s_pc = 0, s_stack = [], s_mem = NewMemory, s_gas = gas, s_returnData = [], s_callGasTemp = 0\<rparr>"

definition code_frame :: "interp_env \<Rightarrow> Contract \<Rightarrow> bytes \<Rightarrow> bool \<Rightarrow> frame" where
  "code_frame ie c input readOnly =
     interp (NewEVMInterpreter (ie_rules ie)) \<lparr>x_env = ie, x_contract = c, x_input = input, x_readOnly = readOnly\<rparr>
       (Suc (unat (c_Gas c))) (new_scope (c_Gas c))"

definition vm_env :: "interp_env \<Rightarrow> (Address \<Rightarrow> precompiled) \<Rightarrow> evm_env" where
  "vm_env ie pre =
     \<lparr>ee_rules = ie_rules ie, ee_BlockNumber = word_of_int (ie_BlockNumber ie), ee_precompiled = pre, ee_code = code_frame ie\<rparr>"

end
