(* ===== verification/Interp_Memory.thy ===== *)
theory Interp_Memory
  imports Evm_Interp
begin

text \<open>
  The memory of an activation: its size is always a number of words, the fee kept with it is the fee of that size, and an
  access that stays within the size the gas was computed for does not panic.
\<close>

section \<open>Checked arithmetic\<close>

lemma unat64: "unat (a :: uint64) < 2 ^ 64"
  using unsigned_less [where 'a = nat, of a] by simp

lemma SafeAdd_exact: "SafeAdd a b = (c, False) \<longleftrightarrow> unat c = unat a + unat b"
proof
  assume "SafeAdd a b = (c, False)"
  then show "unat c = unat a + unat b" by (auto simp: SafeAdd_def unat_word_ariths)
next
  assume k: "unat c = unat a + unat b"
  then have "unat a + unat b < 2 ^ 64" using unat64 [of c] by simp
  moreover from this have "c = a + b" using k by (simp add: word_unat_eq_iff unat_word_ariths)
  ultimately show "SafeAdd a b = (c, False)" by (simp add: SafeAdd_def)
qed

lemma SafeMul_exact: "SafeMul a b = (c, False) \<longleftrightarrow> unat c = unat a * unat b"
proof
  assume "SafeMul a b = (c, False)"
  then show "unat c = unat a * unat b" by (auto simp: SafeMul_def unat_word_ariths)
next
  assume k: "unat c = unat a * unat b"
  then have "unat a * unat b < 2 ^ 64" using unat64 [of c] by simp
  moreover from this have "c = a * b" using k by (simp add: word_unat_eq_iff unat_word_ariths)
  ultimately show "SafeMul a b = (c, False)" by (simp add: SafeMul_def)
qed

lemma checked_Inr: "checked r = Inr c \<longleftrightarrow> r = (c, False)"
  by (cases r) (auto simp: checked_def)

lemma checked_add [simp]: "checked (SafeAdd a b) = Inr c \<longleftrightarrow> unat c = unat a + unat b"
  by (simp add: checked_Inr SafeAdd_exact)

lemma checked_mul [simp]: "checked (SafeMul a b) = Inr c \<longleftrightarrow> unat c = unat a * unat b"
  by (simp add: checked_Inr SafeMul_exact)

lemma UseGas_ok: "UseGas a b = (True, c) \<longleftrightarrow> unat c + unat a = unat b"
proof
  assume "UseGas a b = (True, c)"
  then show "unat c + unat a = unat b" by (auto simp: UseGas_def unat_sub_if' word_le_nat_alt not_less split: if_splits)
next
  assume k: "unat c + unat a = unat b"
  then have "a \<le> b" by (simp add: word_le_nat_alt)
  moreover from this have "c = b - a" using k by (simp add: word_unat_eq_iff unat_sub_if' word_le_nat_alt)
  ultimately show "UseGas a b = (True, c)" by (simp add: UseGas_def not_less)
qed

lemma unat_toWordSize: "unat (toWordSize n) = (unat n + 31) div 32"
proof (cases "n > MaxUint64 - 31")
  case True
  then have "2 ^ 64 - 31 \<le> unat n" by (simp add: MaxUint64_def word_less_nat_alt)
  then have "(unat n + 31) div 32 = 2 ^ 59" using unat64 [of n] by simp
  moreover have "unat (toWordSize n) = 2 ^ 59" using True by (simp add: toWordSize_def MaxUint64_def unat_word_ariths)
  ultimately show ?thesis by simp
next
  case False
  then have "unat n + 31 < 2 ^ 64" by (simp add: MaxUint64_def word_less_nat_alt not_less)
  then have "unat (n + 31) = unat n + 31" by (simp add: unat_word_ariths)
  then show ?thesis using False by (simp add: toWordSize_def unat_div)
qed


lemma memory_size_exact:
  assumes "SafeMul (toWordSize m) 32 = (n, False)"
  shows "32 dvd unat n" and "unat m \<le> unat n"
  using assms by (simp_all add: SafeMul_exact unat_toWordSize)

section \<open>Size and fee\<close>

definition fee_of :: "nat \<Rightarrow> nat" where
  "fee_of w = 3 * w + w * w div 512"

definition mem_ok :: "Memory \<Rightarrow> bool" where
  "mem_ok m \<longleftrightarrow> (\<exists>w. length (store m) = 32 * w \<and> w < 2 ^ 32 \<and> unat (lastGasCost m) = fee_of w)"

lemma mem_ok_new: "mem_ok NewMemory"
  by (simp add: mem_ok_def NewMemory_def fee_of_def)

lemma fee_of_mono: "v \<le> w \<Longrightarrow> fee_of v \<le> fee_of w"
  unfolding fee_of_def by (intro add_mono mult_le_mono div_le_mono) simp_all

lemma fee_of_small: "w < 2 ^ 32 \<Longrightarrow> fee_of w < 2 ^ 56"
proof -
  assume "w < 2 ^ 32"
  then have "fee_of w \<le> fee_of (2 ^ 32 - 1)" by (intro fee_of_mono) simp
  also have "\<dots> < 2 ^ 56" by (simp add: fee_of_def)
  finally show ?thesis .
qed

lemma mem_ok_length: "mem_ok m \<Longrightarrow> length (store m) < 2 ^ 37"
  by (auto simp: mem_ok_def)

lemma mem_ok_store: "mem_ok m \<Longrightarrow> length b = length (store m) \<Longrightarrow> mem_ok (m\<lparr>store := b\<rparr>)"
  by (simp add: mem_ok_def)

lemma length_of_nat64: "mem_ok m \<Longrightarrow> unat (of_nat (length (store m)) :: uint64) = length (store m)"
  using mem_ok_length [of m] by (simp add: unat_of_nat)

definition resized :: "uint64 \<Rightarrow> Memory \<Rightarrow> Memory" where
  "resized n m = (if n > 0 then mem_Resize n m else m)"

lemma lastGasCost_resized [simp]: "lastGasCost (resized n m) = lastGasCost m"
  by (simp add: resized_def mem_Resize_def)

lemma resized_length: "mem_ok m \<Longrightarrow> length (store (resized n (m\<lparr>lastGasCost := f\<rparr>))) = max (unat n) (length (store m))"
  using length_of_nat64 [of m] by (auto simp: resized_def mem_Resize_def unat_sub_if' word_less_nat_alt word_le_nat_alt not_less)

text \<open>
  Growing the memory to \<open>n\<close> bytes, a number of words, costs the difference of the fees, and the memory is well-formed again once it
  is resized.
\<close>

lemma memoryGasCost_grows:
  assumes "mem_ok m" and "32 dvd unat n" and "memoryGasCost m n = Inr (gas, m')"
  shows "mem_ok (resized n m')" and "unat n \<le> length (store (resized n m'))"
    and "unat gas + unat (lastGasCost m) = unat (lastGasCost m')" and "unat gas < 2 ^ 56"
proof -
  obtain w where w: "length (store m) = 32 * w" "w < 2 ^ 32" "unat (lastGasCost m) = fee_of w" using assms(1) by (auto simp: mem_ok_def)
  have len: "unat (of_nat (length (store m)) :: uint64) = length (store m)" by (rule length_of_nat64 [OF assms(1)])
  have "mem_ok (resized n m') \<and> unat n \<le> length (store (resized n m')) \<and> unat gas + unat (lastGasCost m) = unat (lastGasCost m')
    \<and> unat gas < 2 ^ 56"
  proof (cases "unat n \<le> length (store m)")
    case True
    have "resized n m = m" using True len by (simp add: resized_def mem_Resize_def word_less_nat_alt)
    moreover have "gas = 0 \<and> m' = m"
      using assms(3) True len assms(2) unat_toWordSize [of n]
      by (auto simp: memoryGasCost_def Let_def word_less_nat_alt unat_word_ariths split: if_splits)
    ultimately show ?thesis using assms(1) True by simp
  next
    case False
    obtain v where v: "unat n = 32 * v" using assms(2) by (auto elim: dvdE)
    have n: "n \<noteq> 0" "\<not> n > 0x1FFFFFFFE0" using assms(3) False by (auto simp: memoryGasCost_def split: if_splits)
    then have v32: "v < 2 ^ 32" using v by (simp add: word_less_nat_alt)
    let ?w = "toWordSize n"
    have tw: "unat ?w = v" using v by (simp add: unat_toWordSize)
    have "v * v < 2 ^ 64" using mult_strict_mono [OF v32 v32] by simp
    then have sq: "unat (?w * ?w) = v * v" using tw by (simp add: unat_word_ariths)
    have "unat (?w * MemoryGas + ?w * ?w div QuadCoeffDiv) = fee_of v"
      using tw sq v32 fee_of_small [OF v32] by (simp add: unat_word_ariths unat_div fee_of_def MemoryGas_def QuadCoeffDiv_def)
    moreover have "?w * 32 > of_nat (length (store m))"
      using False v tw v32 len by (simp add: word_less_nat_alt unat_word_ariths)
    ultimately obtain f where f: "unat f = fee_of v" "m' = m\<lparr>lastGasCost := f\<rparr>" "gas = f - lastGasCost m"
      using assms(3) n by (auto simp: memoryGasCost_def Let_def)
    have "w \<le> v" using False v w by simp
    then have le: "fee_of w \<le> fee_of v" by (rule fee_of_mono)
    then have "unat gas = fee_of v - fee_of w" using f w by (simp add: unat_sub_if')
    moreover have "length (store (resized n m')) = 32 * v" using resized_length [OF assms(1)] f False v by simp
    ultimately show ?thesis using f w le v v32 fee_of_small [OF v32] by (auto simp: mem_ok_def)
  qed
  then show "mem_ok (resized n m')" "unat n \<le> length (store (resized n m'))"
    "unat gas + unat (lastGasCost m) = unat (lastGasCost m')" "unat gas < 2 ^ 56" by blast+
qed

section \<open>Accesses\<close>

text \<open>The range of an access is inside the memory.\<close>

definition covers :: "Memory \<Rightarrow> uint64 \<Rightarrow> uint64 \<Rightarrow> bool" where
  "covers m off l \<longleftrightarrow> l = 0 \<or> unat off + unat l \<le> length (store m)"

lemma covers_add: "mem_ok m \<Longrightarrow> covers m off l \<Longrightarrow> l \<noteq> 0 \<Longrightarrow> unat (off + l) = unat off + unat l"
  using mem_ok_length [of m] by (simp add: covers_def unat_word_ariths)

lemma go_slice_ok: "lo \<le> hi \<Longrightarrow> hi \<le> length b \<Longrightarrow> go_slice (int lo) (int hi) b = Inr (take (hi - lo) (drop lo b))"
  by (simp add: go_slice_def flip: of_nat_diff)

lemma go_slice_uint:
  "unat (lo :: uint64) \<le> unat (hi :: uint64) \<Longrightarrow> unat hi \<le> length b \<Longrightarrow>
    go_slice (uint lo) (uint hi) b = Inr (take (unat hi - unat lo) (drop (unat lo) b))"
  using go_slice_ok [of "unat lo" "unat hi" b] by simp

lemma sint_small:
  assumes "unat (a :: uint64) < 2 ^ 63"
  shows "sint a = int (unat a)"
proof -
  have "uint a < 2 ^ 63" using assms by (metis of_nat_less_iff of_nat_numeral of_nat_power uint_nat)
  moreover have "- (2 ^ 63) \<le> uint a" by (rule order_trans [of _ 0]) simp_all
  ultimately show ?thesis by (simp add: sint_uint signed_take_bit_int_eq_self)
qed

lemma mem_Get_ok:
  assumes "mem_ok m" and "covers m off l"
  shows "\<exists>b. mem_Get off l m = Inr b"
proof (cases "l = 0")
  case False
  have "unat off + unat l < 2 ^ 37" using mem_ok_length [OF assms(1)] assms(2) False by (simp add: covers_def)
  then have "sint off = int (unat off)" "sint l = int (unat l)" by (simp_all add: sint_small)
  then show ?thesis using assms(2) False go_slice_ok [of "unat off" "unat off + unat l" "store m"]
    by (simp add: mem_Get_def covers_def)
qed (simp add: mem_Get_def)

lemma length_copy_at: "lo + n \<le> length dst \<Longrightarrow> length (copy_at lo n src dst) = length dst"
  by (simp add: copy_at_def)

lemma mem_Set_ok:
  assumes "mem_ok m" and "covers m off l"
  shows "\<exists>m'. mem_Set off l v m = Inr m' \<and> mem_ok m' \<and> lastGasCost m' = lastGasCost m"
proof (cases "l = 0")
  case False
  have u: "unat (off + l) = unat off + unat l" by (rule covers_add [OF assms False])
  have le: "unat off + unat l \<le> length (store m)" using assms(2) False by (simp add: covers_def)
  have "\<not> off + l > of_nat (length (store m))" using u le length_of_nat64 [OF assms(1)] by (simp add: word_less_nat_alt)
  moreover have "go_slice (uint off) (uint (off + l)) (store m) = Inr (take (unat l) (drop (unat off) (store m)))"
    using go_slice_uint [of off "off + l" "store m"] le u by simp
  ultimately have "mem_Set off l v m = Inr (m\<lparr>store := copy_at (unat off) (unat l) v (store m)\<rparr>)"
    using False by (simp add: mem_Set_def word_neq_0_conv)
  then show ?thesis using mem_ok_store [OF assms(1)] length_copy_at [OF le] by auto
qed (use assms in \<open>simp add: mem_Set_def\<close>)

lemma mem_Set32_ok:
  assumes "mem_ok m" and "covers m off 32"
  shows "\<exists>m'. mem_Set32 off v m = Inr m' \<and> mem_ok m' \<and> lastGasCost m' = lastGasCost m"
proof -
  have u: "unat (off + 32) = unat off + 32" using covers_add [OF assms] by simp
  have le: "unat off + 32 \<le> length (store m)" using assms(2) by (simp add: covers_def)
  have "\<not> off + 32 > of_nat (length (store m))" using u le length_of_nat64 [OF assms(1)] by (simp add: word_less_nat_alt)
  moreover have "go_slice (uint off) (uint (off + 32)) (store m) = Inr (take 32 (drop (unat off) (store m)))"
    using go_slice_uint [of off "off + 32" "store m"] le u by simp
  ultimately have "mem_Set32 off v m = Inr (m\<lparr>store := copy_at (unat off) 32 (Hash_Bytes v) (store m)\<rparr>)" by (simp add: mem_Set32_def)
  then show ?thesis using mem_ok_store [OF assms(1)] length_copy_at [OF le] by auto
qed

lemma getData_ok:
  assumes "length d < 2 ^ 63" and "unat l < 2 ^ 37"
  shows "\<exists>b. getData d off l = Inr b"
proof -
  define len :: uint64 where "len = of_nat (length d)"
  define lo where "lo = (if off > len then len else off)"
  define hi where "hi = (if lo + l > len then len else lo + l)"
  have len: "unat len = length d" using assms(1) by (simp add: len_def unat_of_nat)
  then have lo: "unat lo \<le> length d" by (auto simp: lo_def word_less_nat_alt)
  then have "unat (lo + l) = unat lo + unat l" using assms by (simp add: unat_word_ariths)
  then have "unat lo \<le> unat hi" "unat hi \<le> length d" using lo len by (auto simp: hi_def word_less_nat_alt)
  then have "go_slice (uint lo) (uint hi) d = Inr (take (unat hi - unat lo) (drop (unat lo) d))" by (rule go_slice_uint)
  then show ?thesis unfolding getData_def Let_def len_def [symmetric] lo_def [symmetric] hi_def [symmetric] by simp
qed

lemma getData_cases: "getData d off l = Inl p \<Longrightarrow> p = IndexOutOfRange"
  by (auto simp: getData_def Let_def go_slice_def split: if_splits)

section \<open>Needed sizes\<close>

lemma unat_add_no_overflow: "\<not> a + b < (a :: uint64) \<Longrightarrow> unat (a + b) = unat a + unat b"
  using unat64 [of a] unat64 [of b] by (auto simp: word_less_nat_alt unat_word_ariths mod_if split: if_splits)

lemma calc_fixed: "calcMemSize64WithUint off l = (n, False) \<Longrightarrow> unat n \<le> length (store m) \<Longrightarrow> covers m (Uint64 off) l"
  using unat_add_no_overflow [of "Uint64 off" l]
  by (auto simp: calcMemSize64WithUint_def Uint64WithOverflow_def Let_def covers_def split: if_splits)

lemma calc_range: "calcMemSize64 off l = (n, False) \<Longrightarrow> unat n \<le> length (store m) \<Longrightarrow> covers m (Uint64 off) (Uint64 l)"
  by (auto simp: calcMemSize64_def intro: calc_fixed split: if_splits)

end
