(* ===== verification/Interp_Frames.thy ===== *)
theory Interp_Frames
  imports Interp_Memory
begin

text \<open>
  What the loop of the interpreter relies on: a contract for an instruction, one for a gas function, and the invariant of a
  scope they keep. If all operations of a table fulfil their contracts, the frame of every code is sound: it ends, with at most
  the gas it was given, and does not panic but for the cases named in \<open>harmless\<close>.
\<close>

section \<open>Sound frames\<close>

definition impossible_case :: go_panic where
  "impossible_case = ExplicitPanic ''impossible case: address was not present in access list during sstore op''"

text \<open>
  The panics that are left: reading the value of a call or the base fee of a block where it is nil, and the check in the
  code of storage costs. With \<open>full\<close> the answers of the state are not restricted, and a code of more
  than \<open>2^63\<close> bytes, which Go cannot hold, may be sliced outside its bounds.
\<close>

definition harmless :: "bool \<Rightarrow> ctx \<Rightarrow> go_panic \<Rightarrow> bool" where
  "harmless full x p \<longleftrightarrow>
     p = NilDereference \<and> (c_value (x_contract x) = None \<or> ie_BaseFee (x_env x) = None)
     \<or> p = impossible_case \<or> full \<and> p = IndexOutOfRange"

definition fits :: "op_answer \<Rightarrow> bool" where
  "fits a \<longleftrightarrow> length (code_bytes (ans_code a)) < 2 ^ 63"

primrec sound :: "bool \<Rightarrow> ctx \<Rightarrow> uint64 \<Rightarrow> frame \<Rightarrow> bool" where
  "sound full x g (Halt ret err gas) = (gas \<le> g)"
| "sound full x g (Abort err gas) = (gas \<le> g)"
| "sound full x g (Op c k) = (\<forall>a. full \<or> fits a \<longrightarrow> sound full x g (k a))"
| "sound full x g (Emit topics d gas k) = (gas \<le> g \<and> sound full x g k)"
| "sound full x g (DoCall req k) = (\<forall>r. cr_gas r \<le> req_gas req \<longrightarrow> sound full x g (k r))"
| "sound full x g (Crash p) = harmless full x p"

text \<open>
  The hypotheses on the library of 256-bit integers and on the rules, which the fork order of the chain configuration
  gives, and on the length of the slices.
\<close>

definition uint256_sound :: "uint256_lib \<Rightarrow> bool" where
  "uint256_sound l \<longleftrightarrow> (\<forall>a b. u_Add l a b = a + b) \<and> (\<forall>v. u_Sign l v = 0 \<longleftrightarrow> v = 0)"

definition rules_ordered :: "Rules \<Rightarrow> bool" where
  "rules_ordered rules \<longleftrightarrow> (IsBerlin rules \<or> IsLondon rules \<longrightarrow> IsEIP150 rules)"

definition ready :: "bool \<Rightarrow> ctx \<Rightarrow> bool" where
  "ready full x \<longleftrightarrow>
     uint256_sound (lib x) \<and> rules_ordered (ie_rules (x_env x))
     \<and> (full \<or> length (c_Code (x_contract x)) < 2 ^ 63 \<and> length (x_input x) < 2 ^ 63)"

section \<open>Contracts\<close>

text \<open>The gas a call may give back beyond what the scope has.\<close>

definition credit :: "byte \<Rightarrow> scope \<Rightarrow> nat" where
  "credit b s =
     (if b = CALL \<or> b = CALLCODE then unat (s_callGasTemp s) + (if s_stack s ! 2 \<noteq> 0 then 2300 else 0)
      else if b = DELEGATECALL \<or> b = STATICCALL then unat (s_callGasTemp s) else 0)"

definition paid :: "scope \<Rightarrow> nat" where
  "paid s = unat (s_gas s) + unat (lastGasCost (s_mem s))"

definition prepared :: "ctx \<Rightarrow> uint64 \<Rightarrow> byte \<Rightarrow> nat \<Rightarrow> nat \<Rightarrow> memorySizeFunc option \<Rightarrow> scope \<Rightarrow> bool" where
  "prepared x g b pops push ms s \<longleftrightarrow>
     pops \<le> length (s_stack s) \<and> length (s_stack s) + push \<le> StackLimit + pops \<and> mem_ok (s_mem s)
     \<and> paid s + credit b s \<le> unat g \<and> (b \<noteq> STOP \<longrightarrow> unat (s_pc s) < length (c_Code (x_contract x)))
     \<and> (\<forall>f. ms = Some f \<longrightarrow> (\<exists>n. f (s_stack s) = Inr (n, False) \<and> unat n \<le> length (store (s_mem s))))"

fun exec_post :: "bool \<Rightarrow> ctx \<Rightarrow> byte \<Rightarrow> bool \<Rightarrow> scope \<Rightarrow> exec \<Rightarrow> bool" where
  "exec_post full x b halts s (Next s') \<longleftrightarrow>
     \<not> halts \<and> mem_ok (s_mem s') \<and> length (s_stack s') \<le> StackLimit \<and> paid s' \<le> paid s + credit b s"
| "exec_post full x b halts s (Stopped ret err s') \<longleftrightarrow> s_gas s' \<le> s_gas s"
| "exec_post full x b halts s (Panicked p) \<longleftrightarrow> harmless full x p"

definition exec_ok ::
    "bool \<Rightarrow> ctx \<Rightarrow> uint64 \<Rightarrow> byte \<Rightarrow> nat \<Rightarrow> nat \<Rightarrow> memorySizeFunc option \<Rightarrow> bool \<Rightarrow> executionFunc \<Rightarrow> bool" where
  "exec_ok full x g b pops push ms halts f \<longleftrightarrow>
     (\<forall>s k. prepared x g b pops push ms s \<longrightarrow> (\<forall>e. exec_post full x b halts s e \<longrightarrow> sound full x g (k e)) \<longrightarrow> sound full x g (f x s k))"

fun gas_post :: "byte \<Rightarrow> nat \<Rightarrow> scope \<Rightarrow> uint64 \<Rightarrow> gas_res \<Rightarrow> bool" where
  "gas_post b low s n (GasCost d s') \<longleftrightarrow>
     s_stack s' = s_stack s \<and> s_pc s' = s_pc s \<and> s_gas s' = s_gas s
     \<and> mem_ok (resized n (s_mem s')) \<and> unat n \<le> length (store (resized n (s_mem s')))
     \<and> credit b s' + low + unat (lastGasCost (s_mem s')) \<le> unat d + unat (lastGasCost (s_mem s))"
| "gas_post b low s n (NoGas e s') \<longleftrightarrow> s_gas s' \<le> s_gas s"

definition gas_ok :: "bool \<Rightarrow> ctx \<Rightarrow> uint64 \<Rightarrow> byte \<Rightarrow> nat \<Rightarrow> bool \<Rightarrow> nat \<Rightarrow> gasFunc \<Rightarrow> bool" where
  "gas_ok full x g b pops uses low f \<longleftrightarrow>
     (\<forall>s n k. pops \<le> length (s_stack s) \<longrightarrow> mem_ok (s_mem s) \<longrightarrow> 32 dvd unat n \<longrightarrow> (\<not> uses \<longrightarrow> n = 0) \<longrightarrow>
       (\<forall>r. gas_post b low s n r \<longrightarrow> sound full x g (k r)) \<longrightarrow> sound full x g (f x s n k))"

text \<open>An operation that fulfils its contracts, and makes the gas less unless it ends the frame.\<close>

definition op_ok :: "bool \<Rightarrow> ctx \<Rightarrow> uint64 \<Rightarrow> byte \<Rightarrow> operation \<Rightarrow> bool" where
  "op_ok full x g b o1 \<longleftrightarrow>
     (\<exists>pops push halts.
        op_minStack o1 = pops \<and> op_maxStack o1 = maxStack pops push \<and> push \<le> StackLimit + pops
        \<and> exec_ok full x g b pops push (memorySize o1) halts (execute o1)
        \<and> (\<forall>m st p. memorySize o1 = Some m \<longrightarrow> pops \<le> length st \<longrightarrow> m st \<noteq> Inl p)
        \<and> (case dynamicGas o1 of
             None \<Rightarrow> memorySize o1 = None \<and> (\<forall>s. credit b s = 0) \<and> (halts \<or> 0 < unat (constantGas o1))
           | Some f \<Rightarrow> (\<exists>low. gas_ok full x g b pops (memorySize o1 \<noteq> None) low f \<and> (halts \<or> 0 < low + unat (constantGas o1)))))"

section \<open>The step and the loop\<close>

definition scope_ok :: "uint64 \<Rightarrow> scope \<Rightarrow> bool" where
  "scope_ok g s \<longleftrightarrow> mem_ok (s_mem s) \<and> paid s \<le> unat g \<and> length (s_stack s) \<le> StackLimit"

lemma scope_ok_gas: "scope_ok g s \<Longrightarrow> s_gas s \<le> g"
  by (simp add: scope_ok_def paid_def word_le_nat_alt)

lemma resized_gas [simp]: "(if n > 0 then mem_Resize n m else m) = resized n m"
  by (simp add: resized_def)

lemma GetOp_inside: "GetOp code n \<noteq> STOP \<Longrightarrow> unat n < length code"
  by (auto simp: GetOp_def split: if_splits)

text \<open>Executing an operation whose cost has been taken off: the scope left is good and has less gas.\<close>

lemma execute_sound:
  assumes "exec_ok full x g b pops push ms halts (execute o1)" and "prepared x g b pops push ms s"
    and "halts \<or> paid s + credit b s < p" and "p \<le> unat g"
    and "\<And>s'. scope_ok g s' \<Longrightarrow> paid s' < p \<Longrightarrow> sound full x g (go_on s')"
  shows "sound full x g (execute o1 x s (after_exec go_on))"
proof -
  have "sound full x g (after_exec go_on e)" if e: "exec_post full x b halts s e" for e
  proof (cases e)
    case (Next s')
    then have "scope_ok g (s'\<lparr>s_pc := s_pc s' + 1\<rparr>)" "paid (s'\<lparr>s_pc := s_pc s' + 1\<rparr>) < p"
      using e assms(2-4) by (auto simp: scope_ok_def paid_def prepared_def)
    then show ?thesis using assms(5) Next by (simp add: after_exec_def)
  next
    case (Stopped ret err s')
    have "unat (s_gas s) \<le> unat g" using assms(2) by (simp add: prepared_def paid_def)
    then show ?thesis using e Stopped by (auto simp: after_exec_def word_le_nat_alt)
  qed (use e in \<open>simp add: after_exec_def\<close>)
  then show ?thesis using assms(1,2) unfolding exec_ok_def by blast
qed

lemma charge_dynamic_sound:
  assumes "exec_ok full x g b pops push ms halts (execute o1)" and "gas_ok full x g b pops (ms \<noteq> None) low f"
    and "pops \<le> length (s_stack s)" and "length (s_stack s) + push \<le> StackLimit + pops" and "mem_ok (s_mem s)"
    and "b \<noteq> STOP \<longrightarrow> unat (s_pc s) < length (c_Code (x_contract x))"
    and "32 dvd unat n" and "\<forall>m. ms = Some m \<longrightarrow> (\<exists>n'. m (s_stack s) = Inr (n', False) \<and> unat n' \<le> unat n)" and "ms = None \<longrightarrow> n = 0"
    and "halts \<or> paid s < p + low" and "paid s \<le> p" and "p \<le> unat g"
    and "\<And>s'. scope_ok g s' \<Longrightarrow> paid s' < p \<Longrightarrow> sound full x g (go_on s')"
  shows "sound full x g (charge_dynamic o1 f x go_on s n)"
proof -
  let ?K = "\<lambda>res. case res of
       NoGas e s \<Rightarrow> Abort ErrOutOfGas (s_gas s)
     | GasCost dynamicCost s \<Rightarrow>
         (case UseGas dynamicCost (s_gas s) of (ok, left) \<Rightarrow>
            if \<not> ok then Abort ErrOutOfGas (s_gas s)
            else execute o1 x (s\<lparr>s_gas := left, s_mem := resized n (s_mem s)\<rparr>) (after_exec go_on))"
  have g: "unat (s_gas s) \<le> unat g" using assms(11,12) by (simp add: paid_def)
  have "sound full x g (?K r)" if r: "gas_post b low s n r" for r
  proof (cases r)
    case (GasCost d s1)
    obtain ok left where u: "UseGas d (s_gas s1) = (ok, left)" by fastforce
    show ?thesis
    proof (cases ok)
      case True
      let ?s = "s1\<lparr>s_gas := left, s_mem := resized n (s_mem s1)\<rparr>"
      have left: "unat left + unat d = unat (s_gas s)" using u True r GasCost by (simp add: UseGas_ok)
      have c: "credit b ?s = credit b s1" by (simp add: credit_def)
      then have pd: "paid ?s + credit b ?s + low \<le> paid s" using left r GasCost by (simp add: paid_def)
      have "prepared x g b pops push ms ?s"
        using assms(3,4,6,8,11,12) pd r GasCost by (fastforce simp: prepared_def)
      moreover have "halts \<or> paid ?s + credit b ?s < p" using pd assms(10) by linarith
      ultimately have "sound full x g (execute o1 x ?s (after_exec go_on))"
        by (rule execute_sound [OF assms(1) _ _ assms(12,13)])
      then show ?thesis using u True GasCost by simp
    next
      case False
      then show ?thesis using u g r GasCost by (simp add: word_le_nat_alt)
    qed
  next
    case (NoGas e s1)
    then show ?thesis using r g by (auto simp: word_le_nat_alt)
  qed
  then show ?thesis using assms(2,3,5,7,9) unfolding gas_ok_def charge_dynamic_def resized_gas by blast
qed

lemma memory_needed_sound:
  assumes "s_gas s \<le> g"
    and "\<And>n. 32 dvd unat n \<Longrightarrow> \<forall>m. memorySize o1 = Some m \<longrightarrow> (\<exists>n'. m (s_stack s) = Inr (n', False) \<and> unat n' \<le> unat n) \<Longrightarrow>
      memorySize o1 = None \<longrightarrow> n = 0 \<Longrightarrow> sound full x g (k n)"
    and "\<And>m p. memorySize o1 = Some m \<Longrightarrow> m (s_stack s) = Inl p \<Longrightarrow> harmless full x p"
  shows "sound full x g (memory_needed o1 s k)"
proof (cases "memorySize o1")
  case None
  then show ?thesis using assms(2) [of 0] by (simp add: memory_needed_def)
next
  case (Some m)
  show ?thesis
  proof (cases "m (s_stack s)")
    case (Inl p)
    then show ?thesis using assms(3) Some by (simp add: memory_needed_def)
  next
    case (Inr r)
    obtain memSize overflow where r: "r = (memSize, overflow)" by (cases r)
    obtain n over where n: "SafeMul (toWordSize memSize) 32 = (n, over)" by fastforce
    have "sound full x g (k n)" if "\<not> overflow" "\<not> over"
      using that memory_size_exact [of memSize n] n Inr r Some by (intro assms(2)) auto
    then show ?thesis using assms(1) Some Inr r n by (simp add: memory_needed_def)
  qed
qed

lemma interp_step_sound:
  assumes "op_ok full x g b (jt (GetOp (c_Code (x_contract x)) (s_pc s)))" and "GetOp (c_Code (x_contract x)) (s_pc s) = STOP \<longrightarrow> b = STOP"
    and "scope_ok g s"
    and go: "\<And>s'. scope_ok g s' \<Longrightarrow> paid s' < paid s \<Longrightarrow> sound full x g (go_on s')"
  shows "sound full x g (interp_step jt x go_on s)"
proof -
  define o1 where "o1 = jt (GetOp (c_Code (x_contract x)) (s_pc s))"
  obtain pops push halts where o1: "op_minStack o1 = pops" "op_maxStack o1 = maxStack pops push" "push \<le> StackLimit + pops"
      "exec_ok full x g b pops push (memorySize o1) halts (execute o1)"
      "\<forall>m st p. memorySize o1 = Some m \<longrightarrow> pops \<le> length st \<longrightarrow> m st \<noteq> Inl p"
    and d: "case dynamicGas o1 of
             None \<Rightarrow> memorySize o1 = None \<and> (\<forall>s. credit b s = 0) \<and> (halts \<or> 0 < unat (constantGas o1))
           | Some f \<Rightarrow> (\<exists>low. gas_ok full x g b pops (memorySize o1 \<noteq> None) low f \<and> (halts \<or> 0 < low + unat (constantGas o1)))"
    using assms(1) unfolding op_ok_def o1_def by blast
  have gas: "s_gas s \<le> g" by (rule scope_ok_gas [OF assms(3)])
  have pc: "b \<noteq> STOP \<longrightarrow> unat (s_pc s) < length (c_Code (x_contract x))" using GetOp_inside assms(2) by blast
  have g: "paid s \<le> unat g" "mem_ok (s_mem s)" using assms(3) by (simp_all add: scope_ok_def)
  obtain ok left where u: "UseGas (constantGas o1) (s_gas s) = (ok, left)" by fastforce
  let ?s = "s\<lparr>s_gas := left\<rparr>"
  have step: "interp_step jt x go_on s =
      (if length (s_stack s) < pops then Abort (ErrStackUnderflow (length (s_stack s)) pops) (s_gas s)
       else if length (s_stack s) > maxStack pops push then Abort (ErrStackOverflow (length (s_stack s)) (maxStack pops push)) (s_gas s)
       else if \<not> ok then Abort ErrOutOfGas (s_gas s)
       else case dynamicGas o1 of
              None \<Rightarrow> execute o1 x ?s (after_exec go_on)
            | Some f \<Rightarrow> memory_needed o1 ?s (charge_dynamic o1 f x go_on ?s))"
    using u unfolding interp_step_def Let_def o1_def [symmetric] o1(1,2) by simp
  consider (bad) "length (s_stack s) < pops \<or> length (s_stack s) > maxStack pops push \<or> \<not> ok"
    | (good) "pops \<le> length (s_stack s)" "length (s_stack s) + push \<le> StackLimit + pops" "ok"
    using o1(3) by (cases ok) (force simp: maxStack_def)+
  then show ?thesis
  proof cases
    case bad
    then show ?thesis using gas by (auto simp: step split: if_splits)
  next
    case good
    have left: "unat left + unat (constantGas o1) = unat (s_gas s)" using u good(3) by (simp add: UseGas_ok)
    then have pd: "paid ?s + unat (constantGas o1) = paid s" by (simp add: paid_def)
    have over: "\<not> length (s_stack s) > maxStack pops push" using good(2) by (simp add: maxStack_def)
    show ?thesis
    proof (cases "dynamicGas o1")
      case None
      then have n: "memorySize o1 = None" "\<And>s. credit b s = 0" "halts \<or> 0 < unat (constantGas o1)" using d by auto
      have p: "prepared x g b pops push (memorySize o1) ?s"
        using good g pc pd n(1,2) by (auto simp: prepared_def)
      moreover have "halts \<or> paid ?s + credit b ?s < paid s" using pd n(2,3) by auto
      ultimately have "sound full x g (execute o1 x ?s (after_exec go_on))"
        by (rule execute_sound [OF o1(4) _ _ g(1) go])
      then show ?thesis using step None good over by simp
    next
      case (Some f)
      then obtain low where low: "gas_ok full x g b pops (memorySize o1 \<noteq> None) low f" "halts \<or> 0 < low + unat (constantGas o1)"
        using d by auto
      have charge: "sound full x g (charge_dynamic o1 f x go_on ?s n)"
        if "32 dvd unat n" "\<forall>m. memorySize o1 = Some m \<longrightarrow> (\<exists>n'. m (s_stack s) = Inr (n', False) \<and> unat n' \<le> unat n)"
          "memorySize o1 = None \<longrightarrow> n = 0" for n
        by (rule charge_dynamic_sound [OF o1(4) low(1), where p = "paid s"])
          (use that good g pc pd low(2) go in auto)
      have "left \<le> g" using left gas by (simp add: word_le_nat_alt)
      then have "s_gas ?s \<le> g" by simp
      then have "sound full x g (memory_needed o1 ?s (charge_dynamic o1 f x go_on ?s))" by (rule memory_needed_sound) (use charge o1(5) good(1) in auto)
      then show ?thesis using step Some good over by simp
    qed
  qed
qed

text \<open>
  A table is good if every operation fulfils its contracts for some opcode; an operation that is not defined yet need not follow
  the contract of the call it will be.
\<close>

definition table_ok :: "bool \<Rightarrow> ctx \<Rightarrow> uint64 \<Rightarrow> JumpTable \<Rightarrow> bool" where
  "table_ok full x g jt \<longleftrightarrow> (\<forall>b. \<exists>c. (b = STOP \<longrightarrow> c = STOP) \<and> op_ok full x g c (jt b))"

lemma interp_sound:
  assumes "table_ok full x g jt" and "scope_ok g s" and "paid s < n"
  shows "sound full x g (interp jt x n s)"
  using assms(2,3)
proof (induction n arbitrary: s)
  case (Suc n)
  obtain c where "GetOp (c_Code (x_contract x)) (s_pc s) = STOP \<longrightarrow> c = STOP"
      "op_ok full x g c (jt (GetOp (c_Code (x_contract x)) (s_pc s)))"
    using assms(1) unfolding table_ok_def by blast
  then have "sound full x g (interp_step jt x (interp jt x n) s)"
    by (intro interp_step_sound [where b = c]) (use Suc in auto)
  then show ?case by simp
qed simp

end
