(* ===== verification/Interp_Exec.thy ===== *)
theory Interp_Exec
  imports Interp_Frames
begin

text \<open>The contracts of the instructions.\<close>

section \<open>Instructions on the stack\<close>

definition calm :: "nat \<Rightarrow> nat \<Rightarrow> (scope \<Rightarrow> exec) \<Rightarrow> bool" where
  "calm pops push h \<longleftrightarrow>
     (\<forall>s. pops \<le> length (s_stack s) \<longrightarrow>
       (\<exists>s'. h s = Next s' \<and> s_mem s' = s_mem s \<and> s_gas s' = s_gas s \<and> length (s_stack s') + pops = length (s_stack s) + push))"

lemma exec_pureI:
  "(\<And>s. prepared x g b pops push ms s \<Longrightarrow> exec_post full x b halts s (f x s)) \<Longrightarrow> exec_ok full x g b pops push ms halts (pure_op f)"
  by (simp add: exec_ok_def pure_op_def)

lemma calm_exec: "calm pops push (f x) \<Longrightarrow> exec_ok full x g b pops push ms False (pure_op f)"
proof (rule exec_pureI)
  fix s assume "calm pops push (f x)" and p: "prepared x g b pops push ms s"
  then obtain s' where "f x s = Next s'" "s_mem s' = s_mem s" "s_gas s' = s_gas s" "length (s_stack s') + pops = length (s_stack s) + push"
    unfolding calm_def prepared_def by blast
  then show "exec_post full x b False s (f x s)" using p by (auto simp: prepared_def paid_def)
qed

lemma calm_un: "calm (Suc 0) (Suc 0) (un_op f)"
  by (auto simp: calm_def un_op_def split: list.splits)

lemma calm_bin: "calm 2 (Suc 0) (bin_op f)"
  by (auto simp: calm_def bin_op_def split: list.splits)

lemma calm_ter: "calm 3 (Suc 0) (ter_op f)"
  by (auto simp: calm_def ter_op_def split: list.splits)

lemma calm_push: "calm 0 (Suc 0) (push_op v)"
  by (auto simp: calm_def push_op_def)

lemma calm_push_of: "(\<And>s. f s = push_op (v s) s) \<Longrightarrow> calm 0 (Suc 0) f"
  using calm_push by (simp add: calm_def)

lemma calm_dup: "0 < n \<Longrightarrow> calm n (Suc n) (makeDup n x)"
  by (auto simp: calm_def makeDup_def push_op_def)

lemma calm_swap: "calm (Suc n) (Suc n) (makeSwap n x)"
  by (auto simp: calm_def makeSwap_def Let_def)

lemmas calm_intros = calm_un calm_bin calm_ter calm_push calm_dup calm_swap

lemmas arithmetic_defs = opAdd_def opSub_def opMul_def opDiv_def opSdiv_def opMod_def opSmod_def opExp_def opSignExtend_def opNot_def
  opLt_def opGt_def opSlt_def opSgt_def opEq_def opIszero_def opAnd_def opOr_def opXor_def opByte_def opAddmod_def opMulmod_def
  opSHL_def opSHR_def opSAR_def

lemmas context_defs = opAddress_def opOrigin_def opCaller_def opCallDataSize_def opCodeSize_def opGasprice_def opCoinbase_def opTimestamp_def
  opNumber_def opDifficulty_def opGasLimit_def opChainID_def

lemma calm_reads: "calm 0 (Suc 0) (opReturnDataSize x)" "calm 0 (Suc 0) (opPc x)" "calm 0 (Suc 0) (opMsize x)" "calm 0 (Suc 0) (opGas x)"
  by (rule calm_push_of, simp add: opReturnDataSize_def opPc_def opMsize_def opGas_def)+

lemma calm_pop: "calm (Suc 0) 0 (opPop x)"
  by (auto simp: calm_def opPop_def split: list.splits)

lemma calm_jumpdest: "calm 0 0 (opJumpdest x)"
  by (simp add: calm_def opJumpdest_def)

lemma calm_push1: "calm 0 (Suc 0) (opPush1 x)"
  by (simp add: calm_def opPush1_def Let_def push_op_def)

section \<open>Instructions that read the contract\<close>

lemma exec_CallValue: "exec_ok full x g b 0 (Suc 0) ms False (pure_op opCallValue)"
  by (rule exec_pureI) (auto simp: opCallValue_def push_op_def harmless_def prepared_def paid_def split: option.splits)

lemma exec_BaseFee: "exec_ok full x g b 0 (Suc 0) ms False (pure_op opBaseFee)"
  by (rule exec_pureI) (auto simp: opBaseFee_def push_op_def harmless_def prepared_def paid_def split: option.splits)

lemma exec_Stop: "exec_ok full x g b 0 0 ms True (pure_op opStop)"
  by (rule exec_pureI) (simp add: opStop_def)

lemma exec_Undefined: "b \<noteq> STOP \<Longrightarrow> exec_ok full x g b 0 0 ms True (pure_op opUndefined)"
  by (rule exec_pureI) (simp add: opUndefined_def prepared_def go_index_def)

lemma getData_sound:
  assumes "full \<or> length d < 2 ^ 63" and "unat l < 2 ^ 37"
  obtains (ok) v where "getData d off l = Inr v" | (crash) "getData d off l = Inl IndexOutOfRange" "full"
proof (cases "getData d off l")
  case (Inl p)
  then show ?thesis using getData_ok [of d l off] getData_cases assms crash by (metis sum.distinct(1))
qed (rule ok)

lemma exec_CallDataLoad: "ready full x \<Longrightarrow> exec_ok full x g b (Suc 0) (Suc 0) ms False (pure_op opCallDataLoad)"
proof (rule exec_pureI)
  fix s assume r: "ready full x" and p: "prepared x g b (Suc 0) (Suc 0) ms s"
  then obtain v st where st: "s_stack s = v # st" by (cases "s_stack s") (auto simp: prepared_def)
  have "full \<or> length (x_input x) < 2 ^ 63" using r by (auto simp: ready_def)
  then show "exec_post full x b False s (opCallDataLoad x s)"
    by (cases rule: getData_sound [of _ _ 32 "Uint64 v"])
      (use p st in \<open>auto simp: opCallDataLoad_def Uint64WithOverflow_def prepared_def paid_def harmless_def\<close>)
qed

lemma validJumpdest_total: "\<exists>v. validJumpdest code dest = Inr v"
  using codeBitmap_exact [of code] by (auto simp: validJumpdest_def Uint64WithOverflow_def)

lemma exec_jump_to:
  assumes "mem_ok (s_mem s)" "length (s_stack s) \<le> StackLimit" "paid s \<le> paid s0 + credit b s0" "s_gas s \<le> s_gas s0"
  shows "exec_post full x b False s0 (jump_to x pos s)"
proof -
  obtain v where "validJumpdest (c_Code (x_contract x)) pos = Inr v" using validJumpdest_total by blast
  then show ?thesis using assms by (simp add: jump_to_def paid_def)
qed

lemma exec_Jump: "exec_ok full x g b (Suc 0) 0 ms False (pure_op opJump)"
  by (rule exec_pureI) (auto simp: opJump_def prepared_def paid_def split: list.splits intro!: exec_jump_to)

lemma exec_Jumpi: "exec_ok full x g b 2 0 ms False (pure_op opJumpi)"
  by (rule exec_pureI) (auto simp: opJumpi_def prepared_def paid_def split: list.splits intro!: exec_jump_to)

lemma exec_makePush:
  assumes "ready full x" and "b \<noteq> STOP"
  shows "exec_ok full x g b 0 (Suc 0) ms False (pure_op (makePush n m))"
proof (rule exec_pureI)
  fix s assume p: "prepared x g b 0 (Suc 0) ms s"
  define code where "code = c_Code (x_contract x)"
  define lo where "lo = (if sint (s_pc s + 1) < int (length code) then sint (s_pc s + 1) else int (length code))"
  define hi where "hi = (if lo + int m < int (length code) then lo + int m else int (length code))"
  have e: "makePush n m x s = of_go (go_bind (go_slice lo hi code) (\<lambda>b.
           Inr (s\<lparr>s_stack := u_SetBytes (RightPadBytes b m) # s_stack s, s_pc := s_pc s + n\<rparr>)))"
    by (simp add: makePush_def Let_def code_def lo_def hi_def)
  have pc: "unat (s_pc s) < length code" using p assms(2) by (simp add: prepared_def code_def)
  show "exec_post full x b False s (makePush n m x s)"
  proof (cases "go_slice lo hi code")
    case (Inl q)
    then have "q = IndexOutOfRange" by (auto simp: go_slice_def split: if_splits)
    moreover have "full"
    proof (rule ccontr)
      assume "\<not> full"
      then have l: "length code < 2 ^ 63" using assms(1) by (simp add: ready_def code_def)
      then have u: "unat (s_pc s + 1) = unat (s_pc s) + 1" using pc by (simp add: unat_word_ariths)
      have "0 \<le> sint (s_pc s + 1)"
      proof (cases "unat (s_pc s) + 1 < 2 ^ 63")
        case True
        then show ?thesis using sint_small [of "s_pc s + 1"] u by simp
      next
        case False
        then show ?thesis using l pc by simp
      qed
      then show False using Inl by (auto simp: go_slice_def lo_def hi_def split: if_splits)
    qed
    ultimately show ?thesis using e Inl by (simp add: harmless_def)
  next
    case (Inr d)
    then show ?thesis using e p by (simp add: prepared_def paid_def)
  qed
qed


section \<open>Instructions on the memory\<close>

lemma stack1: "Suc 0 \<le> length xs \<Longrightarrow> \<exists>a st. xs = a # st"
  by (cases xs) auto

lemma stack2: "2 \<le> length xs \<Longrightarrow> \<exists>a b st. xs = a # b # st"
  using stack1 [of xs] stack1 [of "tl xs"] by auto

lemma stack3: "3 \<le> length xs \<Longrightarrow> \<exists>a b c st. xs = a # b # c # st"
  using stack2 [of xs] stack1 [of "drop 2 xs"] by auto

lemma stack4: "4 \<le> length xs \<Longrightarrow> \<exists>a b c d st. xs = a # b # c # d # st"
  using stack2 [of xs] stack2 [of "drop 2 xs"] by auto

lemma stack6: "6 \<le> length xs \<Longrightarrow> \<exists>a b c d e f st. xs = a # b # c # d # e # f # st"
  using stack4 [of xs] stack2 [of "drop 4 xs"] by auto

lemma stack7: "7 \<le> length xs \<Longrightarrow> \<exists>a b c d e f h st. xs = a # b # c # d # e # f # h # st"
  using stack6 [of xs] stack1 [of "drop 6 xs"] by auto

lemma prepared_range:
  assumes "prepared x g b pops push (Some (mem_range i j)) s"
  shows "covers (s_mem s) (Uint64 (s_stack s ! i)) (Uint64 (s_stack s ! j))" and "IsUint64 (s_stack s ! j)"
proof -
  obtain n where n: "mem_range i j (s_stack s) = Inr (n, False)" "unat n \<le> length (store (s_mem s))"
    using assms unfolding prepared_def by blast
  then have c: "calcMemSize64 (s_stack s ! i) (s_stack s ! j) = (n, False)"
    by (auto simp: mem_range_def go_bind_Inr_iff go_index_def split: if_splits)
  then show "covers (s_mem s) (Uint64 (s_stack s ! i)) (Uint64 (s_stack s ! j))" using n(2) by (rule calc_range)
  show "IsUint64 (s_stack s ! j)" using c by (auto simp: calcMemSize64_def split: if_splits)
qed

lemma prepared_fixed:
  assumes "prepared x g b pops push (Some (mem_fixed i l)) s"
  shows "covers (s_mem s) (Uint64 (s_stack s ! i)) l"
proof -
  obtain n where n: "mem_fixed i l (s_stack s) = Inr (n, False)" "unat n \<le> length (store (s_mem s))"
    using assms unfolding prepared_def by blast
  then have "calcMemSize64WithUint (s_stack s ! i) l = (n, False)"
    by (auto simp: mem_fixed_def go_bind_Inr_iff go_index_def split: if_splits)
  then show ?thesis using n(2) by (rule calc_fixed)
qed

lemma prepared_ranges:
  assumes "prepared x g b pops push (Some (mem_ranges (mem_range i j) (mem_range k l))) s"
  shows "prepared x g b pops push (Some (mem_range i j)) s" and "prepared x g b pops push (Some (mem_range k l)) s"
proof -
  obtain n where n: "mem_ranges (mem_range i j) (mem_range k l) (s_stack s) = Inr (n, False)" "unat n \<le> length (store (s_mem s))"
    using assms unfolding prepared_def by blast
  then have "\<exists>n1 n2. mem_range i j (s_stack s) = Inr (n1, False) \<and> unat n1 \<le> length (store (s_mem s))
    \<and> mem_range k l (s_stack s) = Inr (n2, False) \<and> unat n2 \<le> length (store (s_mem s))"
    by (auto simp: mem_ranges_def go_bind_Inr_iff word_less_nat_alt split: prod.splits if_splits)
  then show "prepared x g b pops push (Some (mem_range i j)) s" "prepared x g b pops push (Some (mem_range k l)) s"
    using assms by (auto simp: prepared_def)
qed

lemma covers_small: "mem_ok m \<Longrightarrow> covers m off l \<Longrightarrow> unat l < 2 ^ 37"
  using mem_ok_length [of m] by (auto simp: covers_def)

lemma prepared_stack: "prepared x g b pops push ms s \<Longrightarrow> pops \<le> length (s_stack s)"
  by (simp add: prepared_def)

lemma prepared_mem: "prepared x g b pops push ms s \<Longrightarrow> mem_ok (s_mem s)"
  by (simp add: prepared_def)

lemma exec_Mload: "exec_ok full x g b (Suc 0) (Suc 0) (Some memoryMLoad) False (pure_op opMload)"
proof (rule exec_pureI)
  fix s assume p: "prepared x g b (Suc 0) (Suc 0) (Some memoryMLoad) s"
  obtain v st where st: "s_stack s = v # st" using stack1 [OF prepared_stack [OF p]] by blast
  then have "covers (s_mem s) (Uint64 v) 32" using prepared_fixed p unfolding memoryMLoad_def by fastforce
  then obtain d where "mem_Get (Uint64 v) 32 (s_mem s) = Inr d" using mem_Get_ok prepared_mem [OF p] by blast
  then show "exec_post full x b False s (opMload x s)" using p st by (simp add: opMload_def prepared_def paid_def)
qed

lemma exec_Mstore: "exec_ok full x g b 2 0 (Some memoryMStore) False (pure_op opMstore)"
proof (rule exec_pureI)
  fix s assume p: "prepared x g b 2 0 (Some memoryMStore) s"
  then obtain v w st where st: "s_stack s = v # w # st" using stack2 [OF prepared_stack [OF p]] by blast
  then have "covers (s_mem s) (Uint64 v) 32" using prepared_fixed p unfolding memoryMStore_def by fastforce
  then obtain m where "mem_Set32 (Uint64 v) w (s_mem s) = Inr m" "mem_ok m" "lastGasCost m = lastGasCost (s_mem s)"
    using mem_Set32_ok prepared_mem [OF p] by blast
  then show "exec_post full x b False s (opMstore x s)" using p st by (simp add: opMstore_def prepared_def paid_def)
qed

lemma exec_Mstore8: "exec_ok full x g b 2 0 (Some memoryMStore8) False (pure_op opMstore8)"
proof (rule exec_pureI)
  fix s assume p: "prepared x g b 2 0 (Some memoryMStore8) s"
  then obtain v w st where st: "s_stack s = v # w # st" using stack2 [OF prepared_stack [OF p]] by blast
  then have "covers (s_mem s) (Uint64 v) 1" using prepared_fixed p unfolding memoryMStore8_def by fastforce
  then have "unat (Uint64 v) < length (store (s_mem s))" by (simp add: covers_def)
  then show "exec_post full x b False s (opMstore8 x s)"
    using p st by (simp add: opMstore8_def byte_store_def prepared_def paid_def mem_ok_store)
qed

text \<open>Copying into a range the memory covers, from data that may be too long for Go only with \<open>full\<close>.\<close>

lemma exec_copy:
  assumes "full \<or> length d < 2 ^ 63" and "mem_ok (s_mem s)" and "covers (s_mem s) (Uint64 mo) (Uint64 l)"
    and "length (s_stack s) \<le> StackLimit" and "s_gas s = s_gas s0" and "s_mem s = s_mem s0"
  shows "exec_post full x b False s0 (copy_op d mo off l s)"
proof (cases rule: getData_sound [OF assms(1) covers_small [OF assms(2,3)], of "clamped off"])
  case (1 v)
  obtain m where "mem_Set (Uint64 mo) (Uint64 l) v (s_mem s) = Inr m" "mem_ok m" "lastGasCost m = lastGasCost (s_mem s)"
    using mem_Set_ok [OF assms(2,3)] by blast
  then show ?thesis using 1 assms(4-6) by (simp add: copy_op_def paid_def)
qed (simp add: copy_op_def harmless_def)

lemma exec_CallDataCopy: "ready full x \<Longrightarrow> exec_ok full x g b 3 0 (Some memoryCallDataCopy) False (pure_op opCallDataCopy)"
proof (rule exec_pureI)
  fix s assume r: "ready full x" and p: "prepared x g b 3 0 (Some memoryCallDataCopy) s"
  then obtain u v w st where st: "s_stack s = u # v # w # st" using stack3 [OF prepared_stack [OF p]] by blast
  then have "covers (s_mem s) (Uint64 u) (Uint64 w)" using prepared_range(1) p unfolding memoryCallDataCopy_def by fastforce
  then show "exec_post full x b False s (opCallDataCopy x s)"
    using p st r by (auto simp: opCallDataCopy_def prepared_def ready_def intro!: exec_copy)
qed

lemma exec_CodeCopy: "ready full x \<Longrightarrow> exec_ok full x g b 3 0 (Some memoryCodeCopy) False (pure_op opCodeCopy)"
proof (rule exec_pureI)
  fix s assume r: "ready full x" and p: "prepared x g b 3 0 (Some memoryCodeCopy) s"
  then obtain u v w st where st: "s_stack s = u # v # w # st" using stack3 [OF prepared_stack [OF p]] by blast
  then have "covers (s_mem s) (Uint64 u) (Uint64 w)" using prepared_range(1) p unfolding memoryCodeCopy_def by fastforce
  then show "exec_post full x b False s (opCodeCopy x s)"
    using p st r by (auto simp: opCodeCopy_def prepared_def ready_def intro!: exec_copy)
qed


lemma prepared_Get:
  assumes "prepared x g b pops push (Some (mem_range i j)) s"
  obtains d where "mem_Get (Uint64 (s_stack s ! i)) (Uint64 (s_stack s ! j)) (s_mem s) = Inr d"
  using mem_Get_ok [OF prepared_mem [OF assms] prepared_range(1) [OF assms]] that by blast

lemma exec_Return: "exec_ok full x g b 2 0 (Some memoryReturn) True (pure_op opReturn)"
proof (rule exec_pureI)
  fix s assume p: "prepared x g b 2 0 (Some memoryReturn) s"
  then obtain v w st where st: "s_stack s = v # w # st" using stack2 [OF prepared_stack [OF p]] by blast
  obtain d where "mem_Get (Uint64 v) (Uint64 w) (s_mem s) = Inr d"
    using prepared_Get [OF p [unfolded memoryReturn_def]] st by auto
  then show "exec_post full x b True s (opReturn x s)" using st by (simp add: opReturn_def)
qed

lemma exec_Revert: "exec_ok full x g b 2 0 (Some memoryRevert) True (pure_op opRevert)"
proof (rule exec_pureI)
  fix s assume p: "prepared x g b 2 0 (Some memoryRevert) s"
  then obtain v w st where st: "s_stack s = v # w # st" using stack2 [OF prepared_stack [OF p]] by blast
  obtain d where "mem_Get (Uint64 v) (Uint64 w) (s_mem s) = Inr d"
    using prepared_Get [OF p [unfolded memoryRevert_def]] st by auto
  then show "exec_post full x b True s (opRevert x s)" using st by (simp add: opRevert_def)
qed

lemma unat_Uint64: "IsUint64 v \<Longrightarrow> unat (Uint64 v) = unat v"
  by (simp add: Uint64_def IsUint64_def unsigned_ucast_eq take_bit_nat_eq_self_iff)

lemma returned_slice:
  assumes "IsUint64 off" and "IsUint64 l" and "unat (Uint64 l) < 2 ^ 37" and "IsUint64 (off + l)"
    and "\<not> of_nat (length d) < Uint64 (off + l)"
  shows "go_slice (uint (Uint64 off)) (uint (Uint64 (off + l))) d
    = Inr (take (unat (Uint64 (off + l)) - unat (Uint64 off)) (drop (unat (Uint64 off)) d))"
proof (rule go_slice_uint)
  have "unat (off + l) = unat off + unat l"
    using assms(1-3) by (simp add: unat_word_ariths IsUint64_def unat_Uint64)
  then show "unat (Uint64 off) \<le> unat (Uint64 (off + l))" using assms(1,4) by (simp add: unat_Uint64)
  have "unat (of_nat (length d) :: uint64) \<le> length d" by (simp add: unat_of_nat)
  then show "unat (Uint64 (off + l)) \<le> length d" using assms(5) by (simp add: word_less_nat_alt)
qed

lemma exec_ReturnDataCopy:
  "ready full x \<Longrightarrow> exec_ok full x g b 3 0 (Some memoryReturnDataCopy) False (pure_op opReturnDataCopy)"
proof (rule exec_pureI)
  fix s assume r: "ready full x" and p: "prepared x g b 3 0 (Some memoryReturnDataCopy) s"
  then obtain u v w st where st: "s_stack s = u # v # w # st" using stack3 [OF prepared_stack [OF p]] by blast
  have c: "covers (s_mem s) (Uint64 u) (Uint64 w)" and w: "IsUint64 w"
    using prepared_range [OF p [unfolded memoryReturnDataCopy_def]] st by simp_all
  let ?d = "s_returnData s"
  have add: "u_Add (lib x) v w = v + w" using r by (simp add: ready_def uint256_sound_def)
  show "exec_post full x b False s (opReturnDataCopy x s)"
  proof (cases "IsUint64 v \<and> IsUint64 (v + w) \<and> \<not> of_nat (length ?d) < Uint64 (v + w)")
    case True
    then have "go_slice (uint (Uint64 v)) (uint (Uint64 (v + w))) ?d
      = Inr (take (unat (Uint64 (v + w)) - unat (Uint64 v)) (drop (unat (Uint64 v)) ?d))"
      using returned_slice w covers_small [OF prepared_mem [OF p] c] by blast
    moreover obtain m where "mem_Set (Uint64 u) (Uint64 w) (take (unat (Uint64 (v + w)) - unat (Uint64 v)) (drop (unat (Uint64 v)) ?d)) (s_mem s) = Inr m"
        "mem_ok m" "lastGasCost m = lastGasCost (s_mem s)"
      using mem_Set_ok [OF prepared_mem [OF p] c] by blast
    ultimately show ?thesis using True st p by (simp add: opReturnDataCopy_def Uint64WithOverflow_def Let_def add prepared_def paid_def)
  next
    case False
    then show ?thesis using st by (auto simp: opReturnDataCopy_def Uint64WithOverflow_def Let_def add)
  qed
qed

section \<open>Instructions that ask the state\<close>

lemma exec_okI:
  "(\<And>s k. prepared x g b pops push ms s \<Longrightarrow> (\<And>e. exec_post full x b halts s e \<Longrightarrow> sound full x g (k e)) \<Longrightarrow> sound full x g (f x s k)) \<Longrightarrow>
    exec_ok full x g b pops push ms halts f"
  by (simp add: exec_ok_def)

lemma exec_Balance: "exec_ok full x g b (Suc 0) (Suc 0) ms False opBalance"
  by (rule exec_okI) (auto simp: opBalance_def prepared_def paid_def split: list.splits)

lemma exec_SelfBalance: "exec_ok full x g b 0 (Suc 0) ms False opSelfBalance"
  by (rule exec_okI) (auto simp: opSelfBalance_def prepared_def paid_def)

lemma exec_ExtCodeSize: "exec_ok full x g b (Suc 0) (Suc 0) ms False opExtCodeSize"
  by (rule exec_okI) (auto simp: opExtCodeSize_def prepared_def paid_def split: list.splits)

lemma exec_ExtCodeHash: "exec_ok full x g b (Suc 0) (Suc 0) ms False opExtCodeHash"
  by (rule exec_okI) (auto simp: opExtCodeHash_def prepared_def paid_def split: list.splits)

lemma exec_Blockhash: "exec_ok full x g b (Suc 0) (Suc 0) ms False opBlockhash"
  by (rule exec_okI) (auto simp: opBlockhash_def Let_def prepared_def paid_def split: list.splits prod.splits)

lemma exec_Sload: "exec_ok full x g b (Suc 0) (Suc 0) ms False opSload"
  by (rule exec_okI) (auto simp: opSload_def prepared_def paid_def split: list.splits)

lemma exec_Sstore: "exec_ok full x g b 2 0 ms False opSstore"
  by (rule exec_okI) (auto simp: opSstore_def prepared_def paid_def split: list.splits)

lemma exec_Selfdestruct: "exec_ok full x g b (Suc 0) 0 ms True opSelfdestruct"
  by (rule exec_okI) (auto simp: opSelfdestruct_def prepared_def paid_def split: list.splits)

lemma exec_ExtCodeCopy: "exec_ok full x g b 4 0 (Some memoryExtCodeCopy) False opExtCodeCopy"
proof (rule exec_okI)
  fix s k assume p: "prepared x g b 4 0 (Some memoryExtCodeCopy) s"
    and k: "\<And>e. exec_post full x b False s e \<Longrightarrow> sound full x g (k e)"
  obtain a u v w st where st: "s_stack s = a # u # v # w # st" using stack4 [OF prepared_stack [OF p]] by blast
  have "covers (s_mem s) (Uint64 u) (Uint64 w)" using prepared_range [OF p [unfolded memoryExtCodeCopy_def]] st by simp
  then have "exec_post full x b False s (copy_op (code_bytes (ans_code r)) u v w (s\<lparr>s_stack := st\<rparr>))" if "full \<or> fits r" for r
    using that p st by (intro exec_copy) (auto simp: fits_def prepared_def)
  then show "sound full x g (opExtCodeCopy x s k)" using st k by (simp add: opExtCodeCopy_def)
qed

lemma exec_Keccak256: "exec_ok full x g b 2 (Suc 0) (Some memoryKeccak256) False opKeccak256"
proof (rule exec_okI)
  fix s k assume p: "prepared x g b 2 (Suc 0) (Some memoryKeccak256) s"
    and k: "\<And>e. exec_post full x b False s e \<Longrightarrow> sound full x g (k e)"
  obtain v w st where st: "s_stack s = v # w # st" using stack2 [OF prepared_stack [OF p]] by blast
  obtain d where "mem_Get (Uint64 v) (Uint64 w) (s_mem s) = Inr d"
    using prepared_Get [OF p [unfolded memoryKeccak256_def]] st by auto
  moreover have "sound full x g (k (Next (s\<lparr>s_stack := h # st\<rparr>)))" for h
    by (rule k) (use p st in \<open>simp add: prepared_def paid_def\<close>)
  ultimately show "sound full x g (opKeccak256 x s k)" using st by (simp add: opKeccak256_def Let_def)
qed

lemma exec_log: "exec_ok full x g b (n + 2) 0 (Some memoryLog) False (log_op n)"
proof (rule exec_okI)
  fix s k assume p: "prepared x g b (n + 2) 0 (Some memoryLog) s"
    and k: "\<And>e. exec_post full x b False s e \<Longrightarrow> sound full x g (k e)"
  have "2 \<le> length (s_stack s)" using prepared_stack [OF p] by simp
  then obtain v w st where st: "s_stack s = v # w # st" using stack2 by blast
  have g: "s_gas s \<le> g" using p by (simp add: prepared_def paid_def word_le_nat_alt)
  obtain d where "mem_Get (Uint64 v) (Uint64 w) (s_mem s) = Inr d"
    using prepared_Get [OF p [unfolded memoryLog_def]] st by auto
  then show "sound full x g (log_op n x s k)" using st p g by (auto simp: log_op_def prepared_def paid_def intro!: k)
qed

section \<open>Creations and calls\<close>

lemma unat_add64: "unat (a :: uint64) + unat b < 2 ^ 64 \<Longrightarrow> unat (a + b) = unat a + unat b"
  by (simp add: unat_word_ariths)

lemma share_split: "unat (gas :: uint64) \<le> unat have' \<Longrightarrow> unat (snd (UseGas gas have')) + unat gas = unat have'"
  by (auto simp: UseGas_def word_less_nat_alt unat_sub_if' word_le_nat_alt)

text \<open>A creation gives back at most the gas that was set apart for it.\<close>

lemma created_sound:
  assumes "prepared x g b pops (Suc 0) ms s" and "length st + pops = length (s_stack s)" and "unat gas \<le> unat (s_gas s)" and "cr_gas r \<le> gas"
  shows "exec_post full x b False s (Next (created failed r (s\<lparr>s_stack := st, s_gas := snd (UseGas gas (s_gas s))\<rparr>)))"
proof -
  let ?left = "snd (UseGas gas (s_gas s))"
  have "unat ?left + unat (cr_gas r) \<le> unat (s_gas s)" using share_split [OF assms(3)] assms(4) by (simp add: word_le_nat_alt)
  moreover from this have "unat (?left + cr_gas r) = unat ?left + unat (cr_gas r)" using unat64 [of "s_gas s"] by (intro unat_add64) simp
  ultimately show ?thesis using assms(1,2) by (simp add: created_def prepared_def paid_def)
qed

lemma share_le: "unat (gas - gas div 64 :: uint64) \<le> unat gas"
  by (simp add: unat_sub_if' unat_div)

lemma exec_Create: "exec_ok full x g b 3 (Suc 0) (Some memoryCreate) False opCreate"
proof (rule exec_okI)
  fix s k assume p: "prepared x g b 3 (Suc 0) (Some memoryCreate) s"
    and k: "\<And>e. exec_post full x b False s e \<Longrightarrow> sound full x g (k e)"
  obtain u v w st where st: "s_stack s = u # v # w # st" using stack3 [OF prepared_stack [OF p]] by blast
  obtain d where "mem_Get (Uint64 v) (Uint64 w) (s_mem s) = Inr d"
    using prepared_Get [OF p [unfolded memoryCreate_def]] st by auto
  then show "sound full x g (opCreate x s k)"
    using st share_le by (auto simp: opCreate_def Let_def intro!: k created_sound [OF p])
qed

lemma exec_Create2: "exec_ok full x g b 4 (Suc 0) (Some memoryCreate2) False opCreate2"
proof (rule exec_okI)
  fix s k assume p: "prepared x g b 4 (Suc 0) (Some memoryCreate2) s"
    and k: "\<And>e. exec_post full x b False s e \<Longrightarrow> sound full x g (k e)"
  obtain u v w y st where st: "s_stack s = u # v # w # y # st" using stack4 [OF prepared_stack [OF p]] by blast
  obtain d where "mem_Get (Uint64 v) (Uint64 w) (s_mem s) = Inr d"
    using prepared_Get [OF p [unfolded memoryCreate2_def]] st by auto
  then show "sound full x g (opCreate2 x s k)"
    using st share_le by (auto simp: opCreate2_def Let_def intro!: k created_sound [OF p])
qed

text \<open>A call gives back at most its gas, which is the credit of the instruction.\<close>

lemma called_sound:
  assumes "prepared x g b pops (Suc 0) ms s" and "length st + pops = length (s_stack s)" and "unat gas \<le> credit b s" and "cr_gas r \<le> gas"
    and "covers (s_mem s) (Uint64 ro) (Uint64 rs)"
    and k: "\<And>e. exec_post full x b False s e \<Longrightarrow> sound full x g (k e)"
  shows "sound full x g (called ro rs (s\<lparr>s_stack := st\<rparr>) r k)"
proof -
  obtain m where m: "(if cr_err r = None \<or> cr_err r = Some ErrExecutionReverted
      then mem_Set (Uint64 ro) (Uint64 rs) (code_bytes (cr_ret r)) (s_mem s) else Inr (s_mem s)) = Inr m"
      "mem_ok m" "lastGasCost m = lastGasCost (s_mem s)"
    using mem_Set_ok [OF prepared_mem [OF assms(1)] assms(5)] prepared_mem [OF assms(1)] by (metis (full_types))
  have "unat (cr_gas r) \<le> credit b s" using assms(3,4) by (simp add: word_le_nat_alt)
  moreover from this have "unat (s_gas s + cr_gas r) = unat (s_gas s) + unat (cr_gas r)"
    using assms(1) unat64 [of g] by (intro unat_add64) (simp add: prepared_def paid_def)
  ultimately show ?thesis using m assms(1,2) by (auto simp: called_def prepared_def paid_def intro!: k)
qed

lemma stipend: "prepared x g b pops push ms s \<Longrightarrow> b = CALL \<or> b = CALLCODE \<Longrightarrow>
    unat (if s_stack s ! 2 \<noteq> 0 then s_callGasTemp s + CallStipend else s_callGasTemp s) \<le> credit b s"
  using unat64 [of g] by (auto simp: prepared_def credit_def CallStipend_def unat_word_ariths)

lemma exec_Call: "exec_ok full x g CALL 7 (Suc 0) (Some memoryCall) False opCall"
proof (rule exec_okI)
  fix s k assume p: "prepared x g CALL 7 (Suc 0) (Some memoryCall) s"
    and k: "\<And>e. exec_post full x CALL False s e \<Longrightarrow> sound full x g (k e)"
  obtain a b c d e f h st where st: "s_stack s = a # b # c # d # e # f # h # st" using stack7 [OF prepared_stack [OF p]] by blast
  note r = prepared_ranges [OF p [unfolded memoryCall_def]]
  obtain i where "mem_Get (Uint64 d) (Uint64 e) (s_mem s) = Inr i" using prepared_Get [OF r(2)] st by auto
  then show "sound full x g (opCall x s k)"
    using st stipend [OF p] prepared_range(1) [OF r(1)] by (auto simp: opCall_def Let_def intro!: k called_sound [OF p])
qed

lemma exec_CallCode: "exec_ok full x g CALLCODE 7 (Suc 0) (Some memoryCall) False opCallCode"
proof (rule exec_okI)
  fix s k assume p: "prepared x g CALLCODE 7 (Suc 0) (Some memoryCall) s"
    and k: "\<And>e. exec_post full x CALLCODE False s e \<Longrightarrow> sound full x g (k e)"
  obtain a b c d e f h st where st: "s_stack s = a # b # c # d # e # f # h # st" using stack7 [OF prepared_stack [OF p]] by blast
  note r = prepared_ranges [OF p [unfolded memoryCall_def]]
  obtain i where "mem_Get (Uint64 d) (Uint64 e) (s_mem s) = Inr i" using prepared_Get [OF r(2)] st by auto
  then show "sound full x g (opCallCode x s k)"
    using st stipend [OF p] prepared_range(1) [OF r(1)] by (auto simp: opCallCode_def Let_def intro!: k called_sound [OF p])
qed

lemma exec_DelegateCall: "exec_ok full x g DELEGATECALL 6 (Suc 0) (Some memoryDelegateCall) False opDelegateCall"
proof (rule exec_okI)
  fix s k assume p: "prepared x g DELEGATECALL 6 (Suc 0) (Some memoryDelegateCall) s"
    and k: "\<And>e. exec_post full x DELEGATECALL False s e \<Longrightarrow> sound full x g (k e)"
  obtain a b c d e f st where st: "s_stack s = a # b # c # d # e # f # st" using stack6 [OF prepared_stack [OF p]] by blast
  note r = prepared_ranges [OF p [unfolded memoryDelegateCall_def]]
  obtain i where "mem_Get (Uint64 c) (Uint64 d) (s_mem s) = Inr i" using prepared_Get [OF r(2)] st by auto
  then show "sound full x g (opDelegateCall x s k)"
    using st prepared_range(1) [OF r(1)] by (auto simp: opDelegateCall_def credit_def intro!: k called_sound [OF p])
qed

lemma exec_StaticCall: "exec_ok full x g STATICCALL 6 (Suc 0) (Some memoryStaticCall) False opStaticCall"
proof (rule exec_okI)
  fix s k assume p: "prepared x g STATICCALL 6 (Suc 0) (Some memoryStaticCall) s"
    and k: "\<And>e. exec_post full x STATICCALL False s e \<Longrightarrow> sound full x g (k e)"
  obtain a b c d e f st where st: "s_stack s = a # b # c # d # e # f # st" using stack6 [OF prepared_stack [OF p]] by blast
  note r = prepared_ranges [OF p [unfolded memoryStaticCall_def]]
  obtain i where "mem_Get (Uint64 c) (Uint64 d) (s_mem s) = Inr i" using prepared_Get [OF r(2)] st by auto
  then show "sound full x g (opStaticCall x s k)"
    using st prepared_range(1) [OF r(1)] by (auto simp: opStaticCall_def credit_def intro!: k called_sound [OF p])
qed

end
