(* ===== verification/Interp_Cost.thy ===== *)
theory Interp_Cost
  imports Interp_Exec
begin

text \<open>The contracts of the gas functions.\<close>

section \<open>Functions that only compute\<close>

definition no_panic :: "'a metered \<Rightarrow> bool" where
  "no_panic r \<longleftrightarrow> (\<forall>p. r \<noteq> Inl (GasPanic p))"

lemma no_panic_bind: "no_panic r \<Longrightarrow> (\<And>v. r = Inr v \<Longrightarrow> no_panic (f v)) \<Longrightarrow> no_panic (go_bind r f)"
  by (cases r) (auto simp: no_panic_def)

lemma no_panic_Inr: "no_panic (Inr v)"
  by (simp add: no_panic_def)

lemma no_panic_Err: "no_panic (Inl (GasErr e))"
  by (simp add: no_panic_def)

lemma no_panic_checked: "no_panic (checked r)"
  by (simp add: no_panic_def checked_def)

lemma no_panic_Back: "i < length st \<Longrightarrow> no_panic (Back i st)"
  by (simp add: no_panic_def Back_def)

lemma no_panic_mem_cost: "no_panic (mem_cost s n)"
  by (simp add: no_panic_def mem_cost_def split: sum.splits)

lemmas no_panic_intros = no_panic_bind no_panic_Inr no_panic_Err no_panic_checked no_panic_Back no_panic_mem_cost

lemma Back_Inr: "Back i st = Inr v \<longleftrightarrow> i < length st \<and> st ! i = v"
  by (auto simp: Back_def)

lemma meter_sound:
  assumes "no_panic r" and "\<And>e. sound full x g (k (NoGas e s))" and "\<And>v. r = Inr v \<Longrightarrow> sound full x g (f v)"
  shows "sound full x g (meter s r k f)"
proof (cases r)
  case (Inl q)
  then show ?thesis using assms(1,2) by (cases q) (auto simp: no_panic_def)
qed (use assms(3) in simp)

lemma gas_okI:
  "(\<And>s n k. pops \<le> length (s_stack s) \<Longrightarrow> mem_ok (s_mem s) \<Longrightarrow> 32 dvd unat n \<Longrightarrow> (\<not> uses \<longrightarrow> n = 0) \<Longrightarrow>
       (\<And>r. gas_post b low s n r \<Longrightarrow> sound full x g (k r)) \<Longrightarrow> sound full x g (f x s n k)) \<Longrightarrow> gas_ok full x g b pops uses low f"
  by (simp add: gas_ok_def)

lemma gas_pureI:
  assumes "\<And>s n. pops \<le> length (s_stack s) \<Longrightarrow> no_panic (f x s n)"
    and "\<And>s n d s'. pops \<le> length (s_stack s) \<Longrightarrow> mem_ok (s_mem s) \<Longrightarrow> 32 dvd unat n \<Longrightarrow> (\<not> uses \<longrightarrow> n = 0) \<Longrightarrow>
       f x s n = Inr (d, s') \<Longrightarrow> gas_post b low s n (GasCost d s')"
  shows "gas_ok full x g b pops uses low (pure_gas f)"
  by (rule gas_okI) (auto simp: pure_gas_def intro!: meter_sound assms split: prod.splits)

section \<open>Memory\<close>

text \<open>The scope after the memory fee is computed.\<close>

definition enlarged :: "uint64 \<Rightarrow> scope \<Rightarrow> uint64 \<Rightarrow> scope \<Rightarrow> bool" where
  "enlarged n s gas s' \<longleftrightarrow>
     s_stack s' = s_stack s \<and> s_pc s' = s_pc s \<and> s_gas s' = s_gas s
     \<and> mem_ok (resized n (s_mem s')) \<and> unat n \<le> length (store (resized n (s_mem s')))
     \<and> unat gas + unat (lastGasCost (s_mem s)) = unat (lastGasCost (s_mem s')) \<and> unat gas < 2 ^ 56"

lemma mem_cost_enlarged: "mem_ok (s_mem s) \<Longrightarrow> 32 dvd unat n \<Longrightarrow> mem_cost s n = Inr (gas, s') \<Longrightarrow> enlarged n s gas s'"
  using memoryGasCost_grows [of "s_mem s" n gas] by (auto simp: mem_cost_def enlarged_def split: sum.splits)

lemma enlarged_post: "enlarged n s gas s' \<Longrightarrow> credit b s' + low + unat gas \<le> unat d \<Longrightarrow> gas_post b low s n (GasCost d s')"
  by (auto simp: enlarged_def)

definition plain :: "byte \<Rightarrow> bool" where
  "plain b \<longleftrightarrow> b \<noteq> CALL \<and> b \<noteq> CALLCODE \<and> b \<noteq> DELEGATECALL \<and> b \<noteq> STATICCALL"

lemma plain_credit [simp]: "plain b \<Longrightarrow> credit b s = 0"
  by (simp add: plain_def credit_def)

lemma word_cost_no_panic: "i < length (s_stack s) \<Longrightarrow> no_panic (word_cost i w s n)"
  unfolding word_cost_def
  by (auto simp: mem_cost_def split: prod.splits sum.splits intro!: no_panic_intros)

lemma word_cost_enlarged:
  assumes "mem_ok (s_mem s)" "32 dvd unat n" "word_cost i w s n = Inr (d, s')"
  obtains gas where "enlarged n s gas s'" "unat gas \<le> unat d"
proof -
  obtain gas s1 where m: "mem_cost s n = Inr (gas, s1)" and "s' = s1" "unat gas \<le> unat d"
    using assms(3) by (auto simp: word_cost_def go_bind_Inr_iff)
  then show ?thesis using mem_cost_enlarged [OF assms(1,2) m] that by blast
qed

lemma gas_word: "plain b \<Longrightarrow> i < pops \<Longrightarrow> gas_ok full x g b pops uses 0 (pure_gas (\<lambda>x. word_cost i w))"
proof (rule gas_pureI)
  fix s n d s' assume "plain b" "mem_ok (s_mem s)" "32 dvd unat n" "word_cost i w s n = Inr (d, s')"
  moreover from this(2-4) obtain gas where "enlarged n s gas s'" "unat gas \<le> unat d" by (rule word_cost_enlarged)
  ultimately show "gas_post b 0 s n (GasCost d s')" by (intro enlarged_post) auto
qed (simp add: word_cost_no_panic)

lemma gas_CallDataCopy: "plain b \<Longrightarrow> gas_ok full x g b 3 uses 0 gasCallDataCopy"
  unfolding gasCallDataCopy_def memoryCopierGas_def by (rule gas_word) simp_all

lemma gas_CodeCopy: "plain b \<Longrightarrow> gas_ok full x g b 3 uses 0 gasCodeCopy"
  unfolding gasCodeCopy_def memoryCopierGas_def by (rule gas_word) simp_all

lemma gas_ReturnDataCopy: "plain b \<Longrightarrow> gas_ok full x g b 3 uses 0 gasReturnDataCopy"
  unfolding gasReturnDataCopy_def memoryCopierGas_def by (rule gas_word) simp_all

lemma gas_ExtCodeCopy: "plain b \<Longrightarrow> gas_ok full x g b 4 uses 0 gasExtCodeCopy"
  unfolding gasExtCodeCopy_def memoryCopierGas_def by (rule gas_word) simp_all

lemma gas_Keccak256: "plain b \<Longrightarrow> gas_ok full x g b 2 uses 0 gasKeccak256"
  unfolding gasKeccak256_def by (rule gas_word) simp_all

lemma gas_Create2: "plain b \<Longrightarrow> gas_ok full x g b 4 uses 0 gasCreate2"
  unfolding gasCreate2_def by (rule gas_word) simp_all

lemma gas_memory: "plain b \<Longrightarrow> gas_ok full x g b pops uses 0 pureMemoryGascost"
  unfolding pureMemoryGascost_def
  by (rule gas_pureI) (auto simp del: gas_post.simps intro!: no_panic_intros enlarged_post [OF mem_cost_enlarged])

lemma gas_log:
  assumes "plain b"
  shows "gas_ok full x g b (m + 2) uses 375 (makeGasLog l)"
  unfolding makeGasLog_def
proof (rule gas_pureI)
  fix s n d s'
  assume "mem_ok (s_mem s)" "32 dvd unat n"
    and r: "go_bind (Back 1 (s_stack s)) (\<lambda>la.
     go_bind (checked (Uint64WithOverflow la)) (\<lambda>requestedSize.
     go_bind (mem_cost s n) (\<lambda>(gas, s).
     go_bind (checked (SafeAdd gas LogGas)) (\<lambda>gas.
     go_bind (checked (SafeAdd gas (l * LogTopicGas))) (\<lambda>gas.
     go_bind (checked (SafeMul requestedSize LogDataGas)) (\<lambda>memorySizeGas.
     go_bind (checked (SafeAdd gas memorySizeGas)) (\<lambda>gas. Inr (gas, s)))))))) = Inr (d, s')"
  moreover from r obtain gas where m: "mem_cost s n = Inr (gas, s')" and "unat gas + 375 \<le> unat d"
    by (auto simp: go_bind_Inr_iff LogGas_def)
  ultimately show "gas_post b 375 s n (GasCost d s')"
    using assms by (intro enlarged_post [OF mem_cost_enlarged [OF _ _ m]]) simp_all
qed (auto intro!: no_panic_intros split: prod.splits)

lemma gas_exp: "plain b \<Longrightarrow> gas_ok full x g b 2 False 10 (pure_gas (exp_cost w))"
  by (rule gas_pureI)
    (auto simp: exp_cost_def Let_def go_bind_Inr_iff ExpGas_def resized_def intro!: no_panic_intros)

section \<open>Storage and accounts\<close>

lemma same_scope: "mem_ok (s_mem s) \<Longrightarrow> credit b s + low \<le> unat d \<Longrightarrow> gas_post b low s 0 (GasCost d s)"
  by (simp add: resized_def)

lemma sound_OpI: "(\<And>a. sound full x g (k a)) \<Longrightarrow> sound full x g (Op c k)"
  by simp

lemma then_op_sound: "sound full x g f \<Longrightarrow> sound full x g (then_op c b f)"
  by (simp add: then_op_def)

lemma dirty_refunds_sound: "sound full x g f \<Longrightarrow> sound full x g (dirty_refunds a b c d e h f)"
  by (simp add: dirty_refunds_def then_op_sound)

lemmas sstore_defs = SstoreSetGas_def SstoreClearGas_def SstoreResetGas_def NetSstoreNoopGas_def NetSstoreInitGas_def NetSstoreCleanGas_def
  NetSstoreDirtyGas_def SloadGasEIP2200_def SstoreSetGasEIP2200_def SstoreResetGasEIP2200_def WarmStorageReadCostEIP2929_def
  ColdSloadCostEIP2929_def ColdAccountAccessCostEIP2929_def


text \<open>A gas function that leaves the scope and costs at least \<open>low\<close>.\<close>

lemma gas_stateI:
  assumes "plain b" and "\<And>s k. pops \<le> length (s_stack s) \<Longrightarrow> (\<And>e. sound full x g (k (NoGas e s))) \<Longrightarrow>
      (\<And>d. low \<le> unat d \<Longrightarrow> sound full x g (k (GasCost d s))) \<Longrightarrow> sound full x g (f x s 0 k)"
  shows "gas_ok full x g b pops False low f"
proof (rule gas_okI)
  fix s n k assume s: "pops \<le> length (s_stack s)" "mem_ok (s_mem s)" "\<not> False \<longrightarrow> n = 0"
    and k: "\<And>r. gas_post b low s n r \<Longrightarrow> sound full x g (k r)"
  then have n: "n = 0" by simp
  have "sound full x g (k (GasCost d s))" if "low \<le> unat d" for d
    using k [unfolded n, OF same_scope, OF s(2)] that assms(1) by simp
  then show "sound full x g (f x s n k)" using assms(2) [OF s(1)] k unfolding n by simp
qed

lemmas state_intros = sound_OpI then_op_sound dirty_refunds_sound meter_sound no_panic_intros

lemma gas_SStore: "plain b \<Longrightarrow> gas_ok full x g b 2 False 100 gasSStore"
  by (rule gas_stateI)
    (auto simp: gasSStore_def Let_def sstore_defs simp del: sound.simps(3) intro!: state_intros)

lemma gas_SStoreEIP2200: "plain b \<Longrightarrow> gas_ok full x g b 2 False 100 gasSStoreEIP2200"
  by (rule gas_stateI)
    (auto simp: gasSStoreEIP2200_def Let_def sstore_defs simp del: sound.simps(3) intro!: state_intros)

lemma gas_SStoreFunc: "plain b \<Longrightarrow> gas_ok full x g b 2 False 100 (makeGasSStoreFunc r)"
  by (rule gas_stateI)
    (auto simp: makeGasSStoreFunc_def Let_def sstore_defs harmless_def impossible_case_def simp del: sound.simps(3)
      intro!: state_intros split: prod.splits)

lemma gas_SLoad: "plain b \<Longrightarrow> gas_ok full x g b (Suc 0) False 100 gasSLoadEIP2929"
  by (rule gas_stateI)
    (auto simp: gasSLoadEIP2929_def sstore_defs simp del: sound.simps(3) intro!: state_intros)

lemma gas_AccountCheck: "plain b \<Longrightarrow> gas_ok full x g b (Suc 0) False 0 gasEip2929AccountCheck"
  by (rule gas_stateI)
    (auto simp: gasEip2929AccountCheck_def simp del: sound.simps(3) intro!: state_intros)

lemma refund_suicide_sound: "sound full x g f \<Longrightarrow> sound full x g (refund_suicide e a f)"
  by (simp add: refund_suicide_def then_op_sound)

lemma empty_charge_sound: "(\<And>d. sound full x g (f d)) \<Longrightarrow> sound full x g (empty_charge a b d f)"
  unfolding empty_charge_def by (auto simp del: sound.simps(3) intro!: sound_OpI)

lemma gas_Selfdestruct: "plain b \<Longrightarrow> gas_ok full x g b (Suc 0) False 0 gasSelfdestruct"
  by (rule gas_stateI)
    (auto simp: gasSelfdestruct_def Let_def simp del: sound.simps(3) intro!: state_intros refund_suicide_sound empty_charge_sound)

lemma gas_SelfdestructFn: "plain b \<Longrightarrow> gas_ok full x g b (Suc 0) False 0 (makeSelfdestructGasFn r)"
  by (rule gas_stateI)
    (auto simp: makeSelfdestructGasFn_def Let_def simp del: sound.simps(3) intro!: state_intros refund_suicide_sound empty_charge_sound)

lemma gas_ExtCodeCopyEIP2929:
  assumes "plain b"
  shows "gas_ok full x g b 4 uses 0 gasExtCodeCopyEIP2929"
proof (rule gas_okI)
  fix s n k assume s: "4 \<le> length (s_stack s)" "mem_ok (s_mem s)" "32 dvd unat n" "\<not> uses \<longrightarrow> n = 0"
    and k: "\<And>r. gas_post b 0 s n r \<Longrightarrow> sound full x g (k r)"
  let ?K = "\<lambda>res. case res of
       NoGas e s \<Rightarrow> k (NoGas e s)
     | GasCost gas s \<Rightarrow>
         meter s (Back 0 (s_stack s)) k (\<lambda>a.
           Op (OpAddressInAccessList (Bytes20 a)) (\<lambda>r.
             if \<not> ans_bool r
             then Op (OpAddAddress (Bytes20 a)) (\<lambda>_.
                    meter s (checked (SafeAdd gas (ColdAccountAccessCostEIP2929 - WarmStorageReadCostEIP2929))) k (\<lambda>gas. k (GasCost gas s)))
             else k (GasCost gas s)))"
  have "sound full x g (?K r)" if r: "gas_post b 0 s n r" for r
  proof (cases r)
    case (GasCost d s1)
    have s1: "s_stack s1 = s_stack s" "s_gas s1 = s_gas s" using r GasCost by simp_all
    have "sound full x g (k (NoGas e s1))" for e by (rule k) (simp add: s1)
    moreover have "sound full x g (k (GasCost d' s1))" if "unat d \<le> unat d'" for d'
      by (rule k) (use r GasCost that in auto)
    ultimately show ?thesis using GasCost s(1) s1(1)
      by (auto simp del: sound.simps(3) intro!: state_intros)
  qed (use r k in simp)
  then show "sound full x g (gasExtCodeCopyEIP2929 x s n k)"
    using gas_ExtCodeCopy [OF assms, of full x g uses] s unfolding gas_ok_def gasExtCodeCopyEIP2929_def by blast
qed

section \<open>Calls\<close>

text \<open>The cost of a call leaves room for the surcharge of a cold account, by the rule that a call gets at most all but one 64th.\<close>

definition capped :: "ctx \<Rightarrow> gas_res \<Rightarrow> bool" where
  "capped x r \<longleftrightarrow> (IsEIP150 (ie_rules (x_env x)) \<longrightarrow> (\<forall>d s. r = GasCost d s \<longrightarrow> unat d + 2500 < 2 ^ 64))"

definition call_gas_ok :: "bool \<Rightarrow> ctx \<Rightarrow> uint64 \<Rightarrow> byte \<Rightarrow> nat \<Rightarrow> gasFunc \<Rightarrow> bool" where
  "call_gas_ok full x g b pops f \<longleftrightarrow>
     (\<forall>s n k. pops \<le> length (s_stack s) \<longrightarrow> mem_ok (s_mem s) \<longrightarrow> 32 dvd unat n \<longrightarrow>
       (\<forall>r. gas_post b 0 s n r \<and> capped x r \<longrightarrow> sound full x g (k r)) \<longrightarrow> sound full x g (f x s n k))"

lemma call_gas_okI:
  "(\<And>s n k. pops \<le> length (s_stack s) \<Longrightarrow> mem_ok (s_mem s) \<Longrightarrow> 32 dvd unat n \<Longrightarrow>
       (\<And>r. gas_post b 0 s n r \<Longrightarrow> capped x r \<Longrightarrow> sound full x g (k r)) \<Longrightarrow> sound full x g (f x s n k)) \<Longrightarrow> call_gas_ok full x g b pops f"
  by (simp add: call_gas_ok_def)

lemma call_gas_ok_gas: "call_gas_ok full x g b pops f \<Longrightarrow> gas_ok full x g b pops uses 0 f"
  by (simp add: call_gas_ok_def gas_ok_def)

lemma all_but_64th: "unat (a - a div 64 :: uint64) \<le> 2 ^ 64 - 2 ^ 58"
proof -
  have "n - n div 64 \<le> 2 ^ 64 - 2 ^ 58" if "n < 2 ^ 64" for n :: nat using that by simp
  then show ?thesis using unat64 [of a] by (simp add: unat_sub_if' unat_div)
qed

lemma callGas_capped: "callGas e a base c = Inr t \<Longrightarrow> e \<Longrightarrow> unat t \<le> 2 ^ 64 - 2 ^ 58"
  using all_but_64th [of "a - base"] by (auto simp: callGas_def Let_def word_less_nat_alt split: if_splits)

lemma call_share_no_panic: "s_stack s \<noteq> [] \<Longrightarrow> no_panic (call_share x (gas, s))"
  by (auto simp: call_share_def intro!: no_panic_intros split: sum.splits)

lemma call_share_Inr:
  assumes "call_share x (gas, s) = Inr (d, s')"
  obtains t where "s' = s\<lparr>s_callGasTemp := t\<rparr>" "unat d = unat gas + unat t"
    "IsEIP150 (ie_rules (x_env x)) \<longrightarrow> unat t \<le> 2 ^ 64 - 2 ^ 58"
proof -
  obtain c t where c: "callGas (IsEIP150 (ie_rules (x_env x))) (s_gas s) gas c = Inr t" and "s' = s\<lparr>s_callGasTemp := t\<rparr>" "unat d = unat gas + unat t"
    using assms by (auto simp: call_share_def go_bind_Inr_iff split: sum.splits) (metis sum.exhaust)
  then show ?thesis using that callGas_capped [OF c] by blast
qed

text \<open>The fee for the memory and \<open>base\<close>, then the share of the call.\<close>

lemma call_share_post:
  assumes "enlarged n s fee s1" and "unat gas = base + unat fee" and "base < 2 ^ 20" and "call_share x (gas, s1) = Inr (d, s2)"
    and "\<And>t. credit b (s1\<lparr>s_callGasTemp := t\<rparr>) \<le> base + unat t"
  shows "gas_post b 0 s n (GasCost d s2)" and "capped x (GasCost d s2)"
proof -
  obtain t where t: "s2 = s1\<lparr>s_callGasTemp := t\<rparr>" "unat d = unat gas + unat t"
    "IsEIP150 (ie_rules (x_env x)) \<longrightarrow> unat t \<le> 2 ^ 64 - 2 ^ 58"
    using call_share_Inr [OF assms(4)] by blast
  show "gas_post b 0 s n (GasCost d s2)" using assms(1,2) assms(5) [of t] t(1,2) by (simp add: enlarged_def)
  have "unat d + 2500 < 2 ^ 64" if "IsEIP150 (ie_rules (x_env x))"
    using t(2,3) that assms(1-3) by (simp add: enlarged_def)
  then show "capped x (GasCost d s2)" by (simp add: capped_def)
qed

lemma credit_temp:
  "credit CALL (s\<lparr>s_callGasTemp := t\<rparr>) = unat t + (if s_stack s ! 2 \<noteq> 0 then 2300 else 0)"
  "credit CALLCODE (s\<lparr>s_callGasTemp := t\<rparr>) = unat t + (if s_stack s ! 2 \<noteq> 0 then 2300 else 0)"
  "credit DELEGATECALL (s\<lparr>s_callGasTemp := t\<rparr>) = unat t" "credit STATICCALL (s\<lparr>s_callGasTemp := t\<rparr>) = unat t"
  by (simp_all add: credit_def)


lemma call_pure_sound:
  assumes "no_panic r" and "\<And>d s'. r = Inr (d, s') \<Longrightarrow> gas_post b 0 s n (GasCost d s') \<and> capped x (GasCost d s')"
    and k: "\<And>r. gas_post b 0 s n r \<Longrightarrow> capped x r \<Longrightarrow> sound full x g (k r)"
  shows "sound full x g (meter s r k (\<lambda>(gas, s). k (GasCost gas s)))"
proof (rule meter_sound [OF assms(1)])
  show "sound full x g (k (NoGas e s))" for e by (rule k) (simp_all add: capped_def)
  show "sound full x g (case v of (gas, s) \<Rightarrow> k (GasCost gas s))" if "r = Inr v" for v
    using assms(2) k that by (cases v) auto
qed

lemma enlarged_stack: "enlarged n s fee s1 \<Longrightarrow> s_stack s1 = s_stack s"
  by (simp add: enlarged_def)

lemma call_cost_post:
  assumes "mem_ok (s_mem s)" "32 dvd unat n" "base < (2 ^ 20 :: nat)"
    and "go_bind (mem_cost s n) (\<lambda>(fee, s). go_bind (checked (SafeAdd gas fee)) (\<lambda>gas. call_share x (gas, s))) = Inr (d, s')"
    and "unat gas = base" and "\<And>s1 t. s_stack s1 = s_stack s \<Longrightarrow> credit b (s1\<lparr>s_callGasTemp := t\<rparr>) \<le> base + unat t"
  shows "gas_post b 0 s n (GasCost d s') \<and> capped x (GasCost d s')"
proof -
  obtain fee s1 total where m: "mem_cost s n = Inr (fee, s1)" and c: "call_share x (total, s1) = Inr (d, s')" "unat total = base + unat fee"
    using assms(4,5) by (auto simp: go_bind_Inr_iff)
  have e: "enlarged n s fee s1" by (rule mem_cost_enlarged [OF assms(1,2) m])
  show ?thesis using call_share_post [OF e c(2) assms(3) c(1)] assms(6) [OF enlarged_stack [OF e]] by blast
qed

lemma call_cost_no_panic:
  "s_stack s \<noteq> [] \<Longrightarrow> no_panic (go_bind (mem_cost s n) (\<lambda>(fee, s). go_bind (checked (SafeAdd gas fee)) (\<lambda>gas. call_share x (gas, s))))"
  by (auto intro!: no_panic_intros call_share_no_panic simp: mem_cost_def split: prod.splits sum.splits)

lemma gas_Call: "call_gas_ok full x g CALL 7 gasCall"
proof (rule call_gas_okI)
  fix s n k assume s: "7 \<le> length (s_stack s)" "mem_ok (s_mem s)" "32 dvd unat n"
    and k: "\<And>r. gas_post CALL 0 s n r \<Longrightarrow> capped x r \<Longrightarrow> sound full x g (k r)"
  let ?v = "s_stack s ! 2"
  have st: "s_stack s \<noteq> []" using s(1) by auto
  have c: "sound full x g (meter s (go_bind (mem_cost s n) (\<lambda>(memoryGas, s).
        go_bind (checked (SafeAdd gas memoryGas)) (\<lambda>gas. call_share x (gas, s)))) k (\<lambda>(gas, s). k (GasCost gas s)))"
    if "unat gas < 2 ^ 20" "?v \<noteq> 0 \<longrightarrow> 2300 \<le> unat gas" for gas
    by (rule call_pure_sound [OF call_cost_no_panic [OF st] call_cost_post [OF s(2,3) that(1) _ refl] k])
      (use that(2) in \<open>auto simp: credit_temp\<close>)
  have "go_bind (Back 2 (s_stack s)) (\<lambda>v. go_bind (Back 1 (s_stack s)) (\<lambda>a. Inr (v, a))) = Inr (?v, s_stack s ! 1)"
    using s(1) by (simp add: Back_def)
  then show "sound full x g (gasCall x s n k)"
    by (auto simp: gasCall_def Let_def CallNewAccountGas_def CallValueTransferGas_def simp del: sound.simps(3) intro!: sound_OpI c)
qed


lemma gas_CallCode: "uint256_sound (lib x) \<Longrightarrow> call_gas_ok full x g CALLCODE 7 gasCallCode"
proof (rule call_gas_okI)
  fix s n k assume l: "uint256_sound (lib x)" and s: "7 \<le> length (s_stack s)" "mem_ok (s_mem s)" "32 dvd unat n"
    and k: "\<And>r. gas_post CALLCODE 0 s n r \<Longrightarrow> capped x r \<Longrightarrow> sound full x g (k r)"
  let ?gas = "if u_Sign (lib x) (s_stack s ! 2) \<noteq> 0 then CallValueTransferGas else 0"
  have st: "s_stack s \<noteq> []" using s(1) by auto
  have b: "go_bind (mem_cost s n) (\<lambda>(fee, s). go_bind (Back 2 (s_stack s)) (\<lambda>v.
       go_bind (checked (SafeAdd (if u_Sign (lib x) v \<noteq> 0 then CallValueTransferGas else 0) fee)) (\<lambda>gas. call_share x (gas, s))))
    = go_bind (mem_cost s n) (\<lambda>(fee, s). go_bind (checked (SafeAdd ?gas fee)) (\<lambda>gas. call_share x (gas, s)))"
    using s(1) by (auto simp: mem_cost_def Back_def split: sum.splits)
  show "sound full x g (gasCallCode x s n k)"
    unfolding gasCallCode_def pure_gas_def b
    by (rule call_pure_sound [OF call_cost_no_panic [OF st] call_cost_post [OF s(2,3)] k])
      (use l in \<open>auto simp: uint256_sound_def credit_temp CallValueTransferGas_def\<close>)
qed

lemma gas_quiet_call:
  assumes "b = DELEGATECALL \<or> b = STATICCALL"
  shows "call_gas_ok full x g b 6 (pure_gas (\<lambda>x s n. go_bind (mem_cost s n) (call_share x)))"
proof (rule call_gas_okI)
  fix s n k assume s: "6 \<le> length (s_stack s)" "mem_ok (s_mem s)" "32 dvd unat n"
    and k: "\<And>r. gas_post b 0 s n r \<Longrightarrow> capped x r \<Longrightarrow> sound full x g (k r)"
  have st: "s_stack s \<noteq> []" using s(1) by auto
  have "no_panic (go_bind (mem_cost s n) (call_share x))"
    using st by (auto intro!: no_panic_intros call_share_no_panic simp: mem_cost_def split: sum.splits)
  moreover have "gas_post b 0 s n (GasCost d s') \<and> capped x (GasCost d s')" if r: "go_bind (mem_cost s n) (call_share x) = Inr (d, s')" for d s'
  proof -
    obtain fee s1 where m: "mem_cost s n = Inr (fee, s1)" "call_share x (fee, s1) = Inr (d, s')" using r by (auto simp: go_bind_Inr_iff)
    have "credit b (s1\<lparr>s_callGasTemp := t\<rparr>) \<le> 0 + unat t" for t using assms by (auto simp: credit_temp)
    then show ?thesis using call_share_post [OF mem_cost_enlarged [OF s(2,3) m(1)] _ _ m(2), of 0 b] by simp
  qed
  ultimately show "sound full x g (pure_gas (\<lambda>x s n. go_bind (mem_cost s n) (call_share x)) x s n k)"
    unfolding pure_gas_def by (rule call_pure_sound) (use k in auto)
qed

lemma gas_DelegateCall: "call_gas_ok full x g DELEGATECALL 6 gasDelegateCall"
  unfolding gasDelegateCall_def by (rule gas_quiet_call) simp

lemma gas_StaticCall: "call_gas_ok full x g STATICCALL 6 gasStaticCall"
  unfolding gasStaticCall_def by (rule gas_quiet_call) simp

text \<open>
  The surcharge for a cold account is taken off before the old calculation, so that the call gets its share of the rest, and added again
  after it; neither addition wraps around.
\<close>

lemma gas_variant:
  assumes old: "call_gas_ok full x g b pops old" and "2 \<le> pops" and "IsEIP150 (ie_rules (x_env x))"
  shows "gas_ok full x g b pops uses 0 (makeCallVariantGasCallEIP2929 old)"
proof (rule gas_okI)
  fix s n k assume s: "pops \<le> length (s_stack s)" "mem_ok (s_mem s)" "32 dvd unat n"
    and k: "\<And>r. gas_post b 0 s n r \<Longrightarrow> sound full x g (k r)"
  let ?cold = "ColdAccountAccessCostEIP2929 - WarmStorageReadCostEIP2929"
  have cold: "unat ?cold = 2500" by (simp add: sstore_defs)
  obtain ok left where u: "UseGas ?cold (s_gas s) = (ok, left)" by fastforce
  let ?s = "s\<lparr>s_gas := left\<rparr>"
  let ?K = "\<lambda>res. case res of NoGas e s \<Rightarrow> k (NoGas e s)
     | GasCost gas s \<Rightarrow> k (GasCost (gas + ?cold) (s\<lparr>s_gas := s_gas s + ?cold\<rparr>))"
  have no: "sound full x g (k (NoGas e s))" for e by (rule k) simp
  have warm: "sound full x g (old x s n k)" using old s k unfolding call_gas_ok_def by blast
  have charged: "sound full x g (old x ?s n ?K)" if ok: "ok"
  proof -
    have left: "unat left + 2500 = unat (s_gas s)" using u ok cold by (simp add: UseGas_ok)
    have "sound full x g (?K r)" if r: "gas_post b 0 ?s n r" "capped x r" for r
    proof (cases r)
      case (GasCost d s1)
      have d: "unat (d + ?cold) = unat d + 2500" using r(2) GasCost assms(3) cold by (simp add: capped_def unat_word_ariths)
      have "s_gas s1 + ?cold = s_gas s" using r(1) GasCost left cold unat64 [of "s_gas s"] by (simp add: word_unat_eq_iff unat_word_ariths)
      moreover have "credit b (s1\<lparr>s_gas := v\<rparr>) = credit b s1" for v by (simp add: credit_def)
      ultimately show ?thesis using r(1) GasCost d by (auto intro!: k)
    next
      case (NoGas e s1)
      then have "s_gas s1 \<le> s_gas s" using r(1) left by (simp add: word_le_nat_alt)
      then show ?thesis using NoGas by (auto intro!: k)
    qed
    then show ?thesis using old s unfolding call_gas_ok_def by simp
  qed
  show "sound full x g (makeCallVariantGasCallEIP2929 old x s n k)"
    unfolding makeCallVariantGasCallEIP2929_def Let_def u prod.case
    using s(1) assms(2) by (auto simp del: sound.simps(3) intro!: meter_sound no_panic_Back no sound_OpI warm charged)
qed

end
