(* ===== verification/Interp_Sound.thy ===== *)
theory Interp_Sound
  imports Interp_Cost
begin

text \<open>
  The tables of all forks fulfil the contracts, so that the code of every contract runs to an end within its gas.
\<close>

section \<open>Operations\<close>

definition needs :: "nat \<Rightarrow> memorySizeFunc option \<Rightarrow> bool" where
  "needs pops ms \<longleftrightarrow> (\<forall>m st p. ms = Some m \<longrightarrow> pops \<le> length st \<longrightarrow> m st \<noteq> Inl p)"

lemma needs_None: "needs pops None"
  by (simp add: needs_def)

lemma mem_range_total: "i < length st \<Longrightarrow> j < length st \<Longrightarrow> mem_range i j st = Inr (calcMemSize64 (st ! i) (st ! j))"
  by (simp add: mem_range_def go_index_def)

lemma needs_range: "i < pops \<Longrightarrow> j < pops \<Longrightarrow> needs pops (Some (mem_range i j))"
  by (simp add: needs_def mem_range_total)

lemma needs_fixed: "i < pops \<Longrightarrow> needs pops (Some (mem_fixed i n))"
  by (simp add: needs_def mem_fixed_def go_index_def)

lemma needs_ranges: "i < pops \<Longrightarrow> j < pops \<Longrightarrow> k < pops \<Longrightarrow> l < pops \<Longrightarrow> needs pops (Some (mem_ranges (mem_range i j) (mem_range k l)))"
  by (simp add: needs_def mem_ranges_def mem_range_total split: prod.splits)

lemmas memory_defs = memoryKeccak256_def memoryCallDataCopy_def memoryReturnDataCopy_def memoryCodeCopy_def memoryExtCodeCopy_def
  memoryMLoad_def memoryMStore8_def memoryMStore_def memoryCreate_def memoryCreate2_def memoryReturn_def memoryRevert_def memoryLog_def
  memoryCall_def memoryDelegateCall_def memoryStaticCall_def

lemma fixed_ok:
  "plain b \<Longrightarrow> exec_ok full x g b pops push None halts f \<Longrightarrow> halts \<or> 0 < unat gas \<Longrightarrow> push \<le> StackLimit + pops \<Longrightarrow>
    op_ok full x g b (fixed_cost f gas pops push)"
  unfolding op_ok_def fixed_cost_def minStack_def by (intro exI [of _ pops] exI [of _ push] exI [of _ halts]) simp

lemma calm_ok:
  "plain b \<Longrightarrow> calm pops push (f x) \<Longrightarrow> 0 < unat gas \<Longrightarrow> push \<le> StackLimit + pops \<Longrightarrow>
    op_ok full x g b (fixed_cost (pure_op f) gas pops push)"
  by (rule fixed_ok) (auto intro: calm_exec)

lemma dynamic_ok:
  "exec_ok full x g b pops push (Some m) halts f \<Longrightarrow> gas_ok full x g b pops True low d \<Longrightarrow> halts \<or> 0 < low + unat gas \<Longrightarrow>
    needs pops (Some m) \<Longrightarrow> push \<le> StackLimit + pops \<Longrightarrow> op_ok full x g b (dynamic_cost f gas d pops push (Some m))"
  unfolding op_ok_def dynamic_cost_def minStack_def needs_def
  by (intro exI [of _ pops] exI [of _ push] exI [of _ halts]) auto

lemma stateful_ok:
  "exec_ok full x g b pops push None halts f \<Longrightarrow> gas_ok full x g b pops False low d \<Longrightarrow> halts \<or> 0 < low + unat gas \<Longrightarrow>
    push \<le> StackLimit + pops \<Longrightarrow> op_ok full x g b (dynamic_cost f gas d pops push None)"
  unfolding op_ok_def dynamic_cost_def minStack_def
  by (intro exI [of _ pops] exI [of _ push] exI [of _ halts]) auto

lemma needs_memory:
  "needs 2 (Some memoryKeccak256)" "needs 3 (Some memoryCallDataCopy)" "needs 3 (Some memoryReturnDataCopy)" "needs 3 (Some memoryCodeCopy)"
  "needs 4 (Some memoryExtCodeCopy)" "needs (Suc 0) (Some memoryMLoad)" "needs 2 (Some memoryMStore8)" "needs 2 (Some memoryMStore)"
  "needs 3 (Some memoryCreate)" "needs 4 (Some memoryCreate2)" "needs 2 (Some memoryReturn)" "needs 2 (Some memoryRevert)"
  "needs (Suc (Suc n)) (Some memoryLog)" "needs 7 (Some memoryCall)" "needs 6 (Some memoryDelegateCall)" "needs 6 (Some memoryStaticCall)"
  by (simp_all add: memory_defs needs_range needs_fixed needs_ranges)

lemmas calm_simps = calm_un calm_bin calm_ter calm_push calm_reads calm_pop calm_jumpdest calm_push1 arithmetic_defs context_defs

section \<open>The tables\<close>

definition rows_ok :: "bool \<Rightarrow> ctx \<Rightarrow> uint64 \<Rightarrow> (byte \<times> operation) list \<Rightarrow> bool" where
  "rows_ok full x g rows \<longleftrightarrow> list_all (\<lambda>(b, o1). op_ok full x g b o1) rows"

lemma rows_okD: "rows_ok full x g rows \<Longrightarrow> (b, o1) \<in> set rows \<Longrightarrow> op_ok full x g b o1"
  by (auto simp: rows_ok_def list_all_iff)

lemma rows_ok_map:
  assumes "\<And>n. i \<le> n \<Longrightarrow> n < j \<Longrightarrow> op_ok full x g (f n) (h n)"
  shows "rows_ok full x g (map (\<lambda>n. (f n, h n)) [i..<j])"
  using assms unfolding rows_ok_def list_all_iff by auto

lemma exp_op_ok: "op_ok full x g EXP (dynamic_cost (pure_op opExp) gas (pure_gas (exp_cost w)) 2 1 None)"
  by (rule stateful_ok [where halts = False, OF _ gas_exp])
    (auto simp: plain_def calm_simps StackLimit_def intro!: calm_exec)

lemmas row_simps = calm_simps price_defs plain_def StackLimit_def needs_memory

lemma arithmetic_ok: "rows_ok full x g frontier_arithmetic"
proof -
  have "op_ok full x g STOP (fixed_cost (pure_op opStop) 0 0 0)"
    by (rule fixed_ok [where halts = True]) (auto simp: exec_Stop plain_def STOP_def)
  moreover have "op_ok full x g EXP (dynamic_cost (pure_op opExp) 0 gasExpFrontier 2 1 None)"
    unfolding gasExpFrontier_def by (rule exp_op_ok)
  moreover have "op_ok full x g KECCAK256 (dynamic_cost opKeccak256 Keccak256Gas gasKeccak256 2 1 (Some memoryKeccak256))"
    by (rule dynamic_ok [where halts = False, OF _ gas_Keccak256]) (simp_all add: row_simps exec_Keccak256)
  ultimately show ?thesis
    by (simp add: rows_ok_def frontier_arithmetic_def calm_ok row_simps)
qed

lemma context_ok: "ready full x \<Longrightarrow> rows_ok full x g frontier_context"
proof -
  assume r: "ready full x"
  have "op_ok full x g BALANCE (fixed_cost opBalance BalanceGasFrontier 1 1)"
    "op_ok full x g CALLVALUE (fixed_cost (pure_op opCallValue) GasQuickStep 0 1)"
    "op_ok full x g CALLDATALOAD (fixed_cost (pure_op opCallDataLoad) GasFastestStep 1 1)"
    "op_ok full x g EXTCODESIZE (fixed_cost opExtCodeSize ExtcodeSizeGasFrontier 1 1)"
    "op_ok full x g BLOCKHASH (fixed_cost opBlockhash GasExtStep 1 1)"
    using r by (auto simp: row_simps exec_Balance exec_CallValue exec_CallDataLoad exec_ExtCodeSize exec_Blockhash
        intro!: fixed_ok [where halts = False])
  moreover have
    "op_ok full x g CALLDATACOPY (dynamic_cost (pure_op opCallDataCopy) GasFastestStep gasCallDataCopy 3 0 (Some memoryCallDataCopy))"
    "op_ok full x g CODECOPY (dynamic_cost (pure_op opCodeCopy) GasFastestStep gasCodeCopy 3 0 (Some memoryCodeCopy))"
    "op_ok full x g EXTCODECOPY (dynamic_cost opExtCodeCopy ExtcodeCopyBaseFrontier gasExtCodeCopy 4 0 (Some memoryExtCodeCopy))"
    using r by (auto simp: row_simps exec_CallDataCopy exec_CodeCopy exec_ExtCodeCopy
        intro!: dynamic_ok [where halts = False] gas_CallDataCopy gas_CodeCopy gas_ExtCodeCopy)
  ultimately show ?thesis
    by (simp add: rows_ok_def frontier_context_def calm_ok row_simps)
qed


lemma storage_ok: "ready full x \<Longrightarrow> rows_ok full x g frontier_storage"
proof -
  assume "ready full x"
  have "op_ok full x g SLOAD (fixed_cost opSload SloadGasFrontier 1 1)"
    "op_ok full x g JUMP (fixed_cost (pure_op opJump) GasMidStep 1 0)"
    "op_ok full x g JUMPI (fixed_cost (pure_op opJumpi) GasSlowStep 2 0)"
    by (auto simp: row_simps exec_Sload exec_Jump exec_Jumpi intro!: fixed_ok [where halts = False])
  moreover have "op_ok full x g MLOAD (dynamic_cost (pure_op opMload) GasFastestStep gasMLoad 1 1 (Some memoryMLoad))"
    "op_ok full x g MSTORE (dynamic_cost (pure_op opMstore) GasFastestStep gasMStore 2 0 (Some memoryMStore))"
    "op_ok full x g MSTORE8 (dynamic_cost (pure_op opMstore8) GasFastestStep gasMStore8 2 0 (Some memoryMStore8))"
    by (auto simp: row_simps exec_Mload exec_Mstore exec_Mstore8 intro!: dynamic_ok [where halts = False] gas_memory)
  moreover have "op_ok full x g SSTORE (dynamic_cost opSstore 0 gasSStore 2 0 None)"
    by (rule stateful_ok [where halts = False, OF exec_Sstore gas_SStore]) (simp_all add: row_simps)
  ultimately show ?thesis by (simp add: rows_ok_def frontier_storage_def calm_ok row_simps JUMPDEST_def)
qed

lemma plain_low: "unat b < 240 \<Longrightarrow> plain b"
  by (auto simp: plain_def)

lemma push_opcode: "n < 33 \<Longrightarrow> unat (PUSH1 + of_nat (n - 1) :: byte) = 96 + (n - 1)"
  by (simp add: PUSH1_def unat_word_ariths unat_of_nat)

lemma push_ok: "ready full x \<Longrightarrow> rows_ok full x g frontier_push"
proof -
  assume r: "ready full x"
  have "op_ok full x g (PUSH1 + of_nat (n - 1)) (fixed_cost (pure_op (makePush (of_nat n) n)) GasFastestStep 0 1)" if "n < 33" for n
  proof (rule fixed_ok [where halts = False])
    have "unat (PUSH1 + of_nat (n - 1) :: byte) = 96 + (n - 1)" by (rule push_opcode [OF that])
    then have "plain (PUSH1 + of_nat (n - 1))" "PUSH1 + of_nat (n - 1) \<noteq> STOP" using that by (auto simp: STOP_def intro!: plain_low)
    then show "plain (PUSH1 + of_nat (n - 1))"
      and "exec_ok full x g (PUSH1 + of_nat (n - 1)) 0 1 None False (pure_op (makePush (of_nat n) n))"
      using exec_makePush [OF r] by simp_all
  qed (simp_all add: row_simps)
  moreover have "op_ok full x g PUSH1 (fixed_cost (pure_op opPush1) GasFastestStep 0 1)"
    by (simp add: calm_ok row_simps PUSH1_def)
  moreover have "rows_ok full x g (map (\<lambda>n. (PUSH1 + of_nat (n - 1), fixed_cost (pure_op (makePush (of_nat n) n)) GasFastestStep 0 1)) [2..<33])"
    by (rule rows_ok_map) (rule calculation(1))
  ultimately show ?thesis unfolding frontier_push_def rows_ok_def list.pred_inject prod.case by blast
qed

lemma dup_ok: "rows_ok full x g frontier_dup"
proof -
  have "op_ok full x g (0x80 + of_nat (n - 1)) (fixed_cost (pure_op (makeDup n)) GasFastestStep n (n + 1))" if "1 \<le> n" "n < 17" for n
  proof (rule calm_ok)
    show "plain (0x80 + of_nat (n - 1))" using that by (intro plain_low) (simp add: unat_word_ariths unat_of_nat)
  qed (use that in \<open>simp_all add: calm_dup row_simps\<close>)
  then show ?thesis
    unfolding frontier_dup_def minDupStack_def maxDupStack_def fixed_cost_def by (rule rows_ok_map)
qed

lemma swap_ok: "rows_ok full x g frontier_swap"
proof -
  have "op_ok full x g (0x90 + of_nat (n - 1)) (fixed_cost (pure_op (makeSwap n)) GasFastestStep (n + 1) (n + 1))" if "1 \<le> n" "n < 17" for n
  proof (rule calm_ok)
    show "plain (0x90 + of_nat (n - 1))" using that by (intro plain_low) (simp add: unat_word_ariths unat_of_nat)
  qed (use that in \<open>simp_all add: calm_swap row_simps\<close>)
  then show ?thesis
    unfolding frontier_swap_def minSwapStack_def maxSwapStack_def fixed_cost_def by (rule rows_ok_map)
qed

lemma log_ok: "rows_ok full x g frontier_log"
proof -
  have "op_ok full x g (0xa0 + of_nat n) (dynamic_cost (log_op n) 0 (makeGasLog (of_nat n)) (n + 2) 0 (Some memoryLog))" if "n < 5" for n
  proof (rule dynamic_ok [where halts = False, OF exec_log gas_log])
    show "plain (0xa0 + of_nat n)" using that by (intro plain_low) (simp add: unat_word_ariths unat_of_nat)
  qed (simp_all add: row_simps)
  then show ?thesis unfolding frontier_log_def by (rule rows_ok_map)
qed

text \<open>The rows of calls, for any constant cost above zero.\<close>

lemma call_rows:
  assumes "ready full x" and "0 < unat gas"
  shows "op_ok full x g CALL (dynamic_cost opCall gas gasCall 7 1 (Some memoryCall))"
    and "op_ok full x g CALLCODE (dynamic_cost opCallCode gas gasCallCode 7 1 (Some memoryCall))"
    and "op_ok full x g DELEGATECALL (dynamic_cost opDelegateCall gas gasDelegateCall 6 1 (Some memoryDelegateCall))"
    and "op_ok full x g STATICCALL (dynamic_cost opStaticCall gas gasStaticCall 6 1 (Some memoryStaticCall))"
  using assms exec_Call exec_CallCode exec_DelegateCall exec_StaticCall
  by (auto simp: row_simps ready_def
      intro!: dynamic_ok [where halts = False] call_gas_ok_gas gas_Call gas_CallCode gas_DelegateCall gas_StaticCall)

lemma system_ok: "ready full x \<Longrightarrow> rows_ok full x g frontier_system"
proof -
  assume r: "ready full x"
  have "op_ok full x g CREATE (dynamic_cost opCreate CreateGas gasCreate 3 1 (Some memoryCreate))"
    by (rule dynamic_ok [where halts = False, OF _ gas_memory]) (simp_all add: row_simps exec_Create)
  moreover have "op_ok full x g RETURN (dynamic_cost (pure_op opReturn) 0 gasReturn 2 0 (Some memoryReturn))"
    by (rule dynamic_ok [where halts = True, OF _ gas_memory]) (simp_all add: row_simps exec_Return)
  moreover have "op_ok full x g SELFDESTRUCT (dynamic_cost opSelfdestruct 0 gasSelfdestruct 1 0 None)"
    by (rule stateful_ok [where halts = True and low = 0]) (simp_all add: row_simps exec_Selfdestruct gas_Selfdestruct)
  ultimately show ?thesis using call_rows(1,2) [OF r] by (simp add: rows_ok_def frontier_system_def row_simps)
qed

lemma frontier_ok:
  assumes r: "ready full x"
  shows "table_ok full x g newFrontierInstructionSet"
  unfolding table_ok_def
proof
  fix b
  let ?rows = "frontier_arithmetic @ frontier_context @ frontier_storage @ frontier_system @ frontier_push @ frontier_dup
        @ frontier_swap @ frontier_log"
  have rows: "rows_ok full x g ?rows"
    using arithmetic_ok context_ok [OF r] storage_ok [OF r] system_ok [OF r] push_ok [OF r] dup_ok swap_ok log_ok by (simp add: rows_ok_def)
  show "\<exists>c. (b = STOP \<longrightarrow> c = STOP) \<and> op_ok full x g c (newFrontierInstructionSet b)"
  proof (cases "map_of ?rows b")
    case (Some o1)
    then show ?thesis using rows_okD [OF rows map_of_SomeD [OF Some]] by (intro exI [of _ b]) (simp add: newFrontierInstructionSet_def)
  next
    case None
    then have "b \<notin> fst ` set ?rows" by (simp only: map_of_eq_None_iff) simp
    then have "b \<noteq> STOP" by (auto simp: frontier_arithmetic_def)
    moreover have "op_ok full x g 1 undefined_op"
    proof -
      have "undefined_op = fixed_cost (pure_op opUndefined) 0 0 0" by (simp add: undefined_op_def fixed_cost_def minStack_def)
      moreover have "op_ok full x g 1 (fixed_cost (pure_op opUndefined) 0 0 0)"
        by (rule fixed_ok [where halts = True]) (simp_all add: row_simps STOP_def exec_Undefined)
      ultimately show ?thesis by simp
    qed
    ultimately show ?thesis unfolding newFrontierInstructionSet_def None by auto
  qed
qed


section \<open>The later forks\<close>

lemma upd_ok: "table_ok full x g jt \<Longrightarrow> op_ok full x g b o1 \<Longrightarrow> table_ok full x g (jt(b := o1))"
  by (auto simp: table_ok_def)

lemma op_ok_gas:
  assumes "op_ok full x g b o1" and "0 < unat gas"
  shows "op_ok full x g b (o1\<lparr>constantGas := gas\<rparr>)"
proof -
  obtain pops push halts where o1: "op_minStack o1 = pops" "op_maxStack o1 = maxStack pops push" "push \<le> StackLimit + pops"
      "exec_ok full x g b pops push (memorySize o1) halts (execute o1)"
      "\<forall>m st p. memorySize o1 = Some m \<longrightarrow> pops \<le> length st \<longrightarrow> m st \<noteq> Inl p"
      "case dynamicGas o1 of
         None \<Rightarrow> memorySize o1 = None \<and> (\<forall>s. credit b s = 0) \<and> (halts \<or> 0 < unat (constantGas o1))
       | Some f \<Rightarrow> (\<exists>low. gas_ok full x g b pops (memorySize o1 \<noteq> None) low f \<and> (halts \<or> 0 < low + unat (constantGas o1)))"
    using assms(1) unfolding op_ok_def by blast
  then show ?thesis unfolding op_ok_def
    by (intro exI [of _ pops] exI [of _ push] exI [of _ halts]) (use assms(2) in \<open>auto split: option.splits\<close>)
qed

lemma set_gas_ok:
  assumes "table_ok full x g jt" and "0 < unat gas"
  shows "table_ok full x g (set_gas b gas jt)"
  unfolding table_ok_def
proof
  fix b'
  obtain c where c: "b' = STOP \<longrightarrow> c = STOP" "op_ok full x g c (jt b')" using assms(1) unfolding table_ok_def by blast
  have "op_ok full x g c (set_gas b gas jt b')"
    by (cases "b' = b") (use c(2) op_ok_gas [OF c(2) assms(2)] in \<open>simp_all add: set_gas_def\<close>)
  then show "\<exists>c. (b' = STOP \<longrightarrow> c = STOP) \<and> op_ok full x g c (set_gas b gas jt b')" using c(1) by blast
qed

text \<open>What an operation does, apart from its cost.\<close>

definition shape :: "operation \<Rightarrow> executionFunc \<Rightarrow> nat \<Rightarrow> nat \<Rightarrow> memorySizeFunc option \<Rightarrow> bool" where
  "shape o1 f pops push ms \<longleftrightarrow> execute o1 = f \<and> op_minStack o1 = minStack pops push \<and> op_maxStack o1 = maxStack pops push \<and> memorySize o1 = ms"

lemma shape_fixed [simp]: "shape (fixed_cost f gas pops push) f pops push None"
  by (simp add: shape_def fixed_cost_def)

lemma shape_dynamic [simp]: "shape (dynamic_cost f gas d pops push ms) f pops push ms"
  by (simp add: shape_def dynamic_cost_def)

lemma shape_set_gas [simp]: "shape (set_gas b gas jt b') f pops push ms = shape (jt b') f pops push ms"
  by (simp add: set_gas_def shape_def)

lemma shape_set_dynamic [simp]: "shape (set_dynamic b d jt b') f pops push ms = shape (jt b') f pops push ms"
  by (simp add: set_dynamic_def shape_def)

lemma upd_dynamic:
  "table_ok full x g jt \<Longrightarrow> shape (jt b) f pops push ms \<Longrightarrow> (\<And>gas. op_ok full x g b (dynamic_cost f gas d pops push ms)) \<Longrightarrow>
    table_ok full x g (set_dynamic b d jt)"
proof -
  assume t: "table_ok full x g jt" and s: "shape (jt b) f pops push ms" and o1: "\<And>gas. op_ok full x g b (dynamic_cost f gas d pops push ms)"
  have "(jt b)\<lparr>dynamicGas := Some d\<rparr> = dynamic_cost f (constantGas (jt b)) d pops push ms"
    using s by (cases "jt b") (simp add: shape_def dynamic_cost_def)
  then show ?thesis using upd_ok [OF t o1] by (simp add: set_dynamic_def)
qed

lemma upd_both:
  "table_ok full x g jt \<Longrightarrow> shape (jt b) f pops push ms \<Longrightarrow> op_ok full x g b (dynamic_cost f gas d pops push ms) \<Longrightarrow>
    table_ok full x g (set_dynamic b d (set_gas b gas jt))"
proof -
  assume t: "table_ok full x g jt" and s: "shape (jt b) f pops push ms" and o1: "op_ok full x g b (dynamic_cost f gas d pops push ms)"
  have "(jt b)\<lparr>constantGas := gas, dynamicGas := Some d\<rparr> = dynamic_cost f gas d pops push ms"
    using s by (cases "jt b") (simp add: shape_def dynamic_cost_def)
  moreover have "set_dynamic b d (set_gas b gas jt) = jt(b := (jt b)\<lparr>constantGas := gas, dynamicGas := Some d\<rparr>)"
    by (simp add: set_dynamic_def set_gas_def)
  ultimately show ?thesis using upd_ok [OF t o1] by simp
qed

lemma homestead_ok: "ready full x \<Longrightarrow> table_ok full x g newHomesteadInstructionSet"
  unfolding newHomesteadInstructionSet_def by (intro upd_ok frontier_ok call_rows) (simp_all add: price_defs)

lemma tangerine_ok: "ready full x \<Longrightarrow> table_ok full x g newTangerineWhistleInstructionSet"
  unfolding newTangerineWhistleInstructionSet_def o_apply by (intro set_gas_ok homestead_ok) (simp_all add: price_defs)

text \<open>The operations that get another dynamic cost later.\<close>

lemma frontier_shapes:
  "shape (newFrontierInstructionSet EXP) (pure_op opExp) 2 1 None" "shape (newFrontierInstructionSet SSTORE) opSstore 2 0 None"
  "shape (newFrontierInstructionSet SLOAD) opSload 1 1 None" "shape (newFrontierInstructionSet BALANCE) opBalance 1 1 None"
  "shape (newFrontierInstructionSet EXTCODESIZE) opExtCodeSize 1 1 None"
  "shape (newFrontierInstructionSet EXTCODECOPY) opExtCodeCopy 4 0 (Some memoryExtCodeCopy)"
  "shape (newFrontierInstructionSet CALL) opCall 7 1 (Some memoryCall)" "shape (newFrontierInstructionSet CALLCODE) opCallCode 7 1 (Some memoryCall)"
  "shape (newFrontierInstructionSet SELFDESTRUCT) opSelfdestruct 1 0 None"
  by (simp_all add: newFrontierInstructionSet_def frontier_arithmetic_def frontier_context_def frontier_storage_def frontier_system_def
      STOP_def JUMPDEST_def del: One_nat_def)


lemma spurious_ok: "ready full x \<Longrightarrow> table_ok full x g newSpuriousDragonInstructionSet"
  unfolding newSpuriousDragonInstructionSet_def gasExpEIP158_def
proof (rule upd_dynamic [OF tangerine_ok])
  show "shape (newTangerineWhistleInstructionSet EXP) (pure_op opExp) 2 1 None"
    using frontier_shapes(1) by (simp add: newTangerineWhistleInstructionSet_def newHomesteadInstructionSet_def)
  show "op_ok full x g EXP (dynamic_cost (pure_op opExp) gas (pure_gas (exp_cost ExpByteEIP158)) 2 1 None)" for gas
    by (rule exp_op_ok)
qed

lemma byzantium_ok: "ready full x \<Longrightarrow> table_ok full x g newByzantiumInstructionSet"
proof -
  assume r: "ready full x"
  have "op_ok full x g RETURNDATACOPY
      (dynamic_cost (pure_op opReturnDataCopy) GasFastestStep gasReturnDataCopy 3 0 (Some memoryReturnDataCopy))"
    by (rule dynamic_ok [where halts = False, OF exec_ReturnDataCopy [OF r] gas_ReturnDataCopy]) (simp_all add: row_simps)
  moreover have "op_ok full x g REVERT (dynamic_cost (pure_op opRevert) 0 gasRevert 2 0 (Some memoryRevert))"
    by (rule dynamic_ok [where halts = True, OF exec_Revert gas_memory]) (simp_all add: row_simps)
  moreover have "op_ok full x g RETURNDATASIZE (fixed_cost (pure_op opReturnDataSize) GasQuickStep 0 1)"
    by (simp add: calm_ok row_simps)
  ultimately show ?thesis
    unfolding newByzantiumInstructionSet_def by (intro upd_ok spurious_ok call_rows r) (simp_all add: price_defs)
qed

lemma constantinople_ok: "ready full x \<Longrightarrow> table_ok full x g newConstantinopleInstructionSet"
proof -
  assume r: "ready full x"
  have "op_ok full x g SHL (fixed_cost (pure_op opSHL) GasFastestStep 2 1)" "op_ok full x g SHR (fixed_cost (pure_op opSHR) GasFastestStep 2 1)"
    "op_ok full x g SAR (fixed_cost (pure_op opSAR) GasFastestStep 2 1)"
    by (simp_all add: calm_ok row_simps)
  moreover have "op_ok full x g EXTCODEHASH (fixed_cost opExtCodeHash ExtcodeHashGasConstantinople 1 1)"
    by (rule fixed_ok [where halts = False]) (simp_all add: row_simps exec_ExtCodeHash)
  moreover have "op_ok full x g CREATE2 (dynamic_cost opCreate2 Create2Gas gasCreate2 4 1 (Some memoryCreate2))"
    by (rule dynamic_ok [where halts = False, OF _ gas_Create2]) (simp_all add: row_simps exec_Create2)
  ultimately show ?thesis unfolding newConstantinopleInstructionSet_def by (intro upd_ok byzantium_ok r)
qed

lemmas shape_defs = newTangerineWhistleInstructionSet_def newHomesteadInstructionSet_def newSpuriousDragonInstructionSet_def
  newByzantiumInstructionSet_def newConstantinopleInstructionSet_def enable1344_def enable1884_def

lemma constantinople_shapes:
  "shape (newConstantinopleInstructionSet SSTORE) opSstore 2 0 None"
  "shape (newConstantinopleInstructionSet SLOAD) opSload 1 1 None" "shape (newConstantinopleInstructionSet BALANCE) opBalance 1 1 None"
  "shape (newConstantinopleInstructionSet EXTCODESIZE) opExtCodeSize 1 1 None"
  "shape (newConstantinopleInstructionSet EXTCODEHASH) opExtCodeHash 1 1 None"
  "shape (newConstantinopleInstructionSet EXTCODECOPY) opExtCodeCopy 4 0 (Some memoryExtCodeCopy)"
  "shape (newConstantinopleInstructionSet CALL) opCall 7 1 (Some memoryCall)" "shape (newConstantinopleInstructionSet CALLCODE) opCallCode 7 1 (Some memoryCall)"
  "shape (newConstantinopleInstructionSet DELEGATECALL) opDelegateCall 6 1 (Some memoryDelegateCall)"
  "shape (newConstantinopleInstructionSet STATICCALL) opStaticCall 6 1 (Some memoryStaticCall)"
  "shape (newConstantinopleInstructionSet SELFDESTRUCT) opSelfdestruct 1 0 None"
  using frontier_shapes by (simp_all add: shape_defs del: One_nat_def)


lemma sstore_op_ok:
  assumes "gas_ok full x g SSTORE 2 False 100 d"
  shows "op_ok full x g SSTORE (dynamic_cost opSstore gas d 2 0 None)"
  by (rule stateful_ok [where halts = False, OF exec_Sstore assms]) (simp_all add: row_simps)

lemma selfdestruct_op_ok: "op_ok full x g SELFDESTRUCT (dynamic_cost opSelfdestruct gas (makeSelfdestructGasFn r) 1 0 None)"
  by (rule stateful_ok [where halts = True and low = 0]) (simp_all add: row_simps exec_Selfdestruct gas_SelfdestructFn)

lemma plain_ops: "plain SSTORE" "plain SLOAD" "plain BALANCE" "plain EXTCODESIZE" "plain EXTCODEHASH" "plain EXTCODECOPY"
  by (simp_all add: plain_def)

lemma istanbul_ok: "ready full x \<Longrightarrow> table_ok full x g newIstanbulInstructionSet"
proof -
  assume r: "ready full x"
  have "op_ok full x g CHAINID (fixed_cost (pure_op opChainID) GasQuickStep 0 1)" by (simp add: calm_ok row_simps)
  moreover have "op_ok full x g SELFBALANCE (fixed_cost opSelfBalance GasFastStep 0 1)"
    by (rule fixed_ok [where halts = False]) (simp_all add: row_simps exec_SelfBalance)
  ultimately have "table_ok full x g (enable1884 (enable1344 newConstantinopleInstructionSet))"
    unfolding enable1884_def enable1344_def by (intro upd_ok set_gas_ok constantinople_ok r) (simp_all add: price_defs)
  then have "table_ok full x g (set_gas SLOAD SloadGasEIP2200 (enable1884 (enable1344 newConstantinopleInstructionSet)))"
    by (rule set_gas_ok) (simp add: price_defs)
  moreover have "shape (set_gas SLOAD SloadGasEIP2200 (enable1884 (enable1344 newConstantinopleInstructionSet)) SSTORE) opSstore 2 0 None"
    using constantinople_shapes(1) by (simp add: enable1884_def enable1344_def)
  ultimately show ?thesis
    unfolding newIstanbulInstructionSet_def enable2200_def o_apply
    by (rule upd_dynamic) (intro sstore_op_ok gas_SStoreEIP2200 plain_ops)
qed

lemma istanbul_shapes:
  "shape (newIstanbulInstructionSet SSTORE) opSstore 2 0 None"
  "shape (newIstanbulInstructionSet SLOAD) opSload 1 1 None" "shape (newIstanbulInstructionSet BALANCE) opBalance 1 1 None"
  "shape (newIstanbulInstructionSet EXTCODESIZE) opExtCodeSize 1 1 None" "shape (newIstanbulInstructionSet EXTCODEHASH) opExtCodeHash 1 1 None"
  "shape (newIstanbulInstructionSet EXTCODECOPY) opExtCodeCopy 4 0 (Some memoryExtCodeCopy)"
  "shape (newIstanbulInstructionSet CALL) opCall 7 1 (Some memoryCall)" "shape (newIstanbulInstructionSet CALLCODE) opCallCode 7 1 (Some memoryCall)"
  "shape (newIstanbulInstructionSet DELEGATECALL) opDelegateCall 6 1 (Some memoryDelegateCall)"
  "shape (newIstanbulInstructionSet STATICCALL) opStaticCall 6 1 (Some memoryStaticCall)"
  "shape (newIstanbulInstructionSet SELFDESTRUCT) opSelfdestruct 1 0 None"
  using constantinople_shapes
  by (simp_all add: newIstanbulInstructionSet_def enable1344_def enable1884_def enable2200_def del: One_nat_def)

lemma variant_rows:
  assumes "ready full x" and "IsEIP150 (ie_rules (x_env x))" and "0 < unat gas"
  shows "op_ok full x g CALL (dynamic_cost opCall gas gasCallEIP2929 7 1 (Some memoryCall))"
    and "op_ok full x g CALLCODE (dynamic_cost opCallCode gas gasCallCodeEIP2929 7 1 (Some memoryCall))"
    and "op_ok full x g DELEGATECALL (dynamic_cost opDelegateCall gas gasDelegateCallEIP2929 6 1 (Some memoryDelegateCall))"
    and "op_ok full x g STATICCALL (dynamic_cost opStaticCall gas gasStaticCallEIP2929 6 1 (Some memoryStaticCall))"
  unfolding gasCallEIP2929_def gasCallCodeEIP2929_def gasDelegateCallEIP2929_def gasStaticCallEIP2929_def
  using assms exec_Call exec_CallCode exec_DelegateCall exec_StaticCall
  by (auto simp: row_simps ready_def
      intro!: dynamic_ok [where halts = False] gas_variant gas_Call gas_CallCode gas_DelegateCall gas_StaticCall)

lemma account_rows:
  "op_ok full x g SLOAD (dynamic_cost opSload 0 gasSLoadEIP2929 1 1 None)"
  "op_ok full x g BALANCE (dynamic_cost opBalance WarmStorageReadCostEIP2929 gasEip2929AccountCheck 1 1 None)"
  "op_ok full x g EXTCODESIZE (dynamic_cost opExtCodeSize WarmStorageReadCostEIP2929 gasEip2929AccountCheck 1 1 None)"
  "op_ok full x g EXTCODEHASH (dynamic_cost opExtCodeHash WarmStorageReadCostEIP2929 gasEip2929AccountCheck 1 1 None)"
  "op_ok full x g EXTCODECOPY (dynamic_cost opExtCodeCopy WarmStorageReadCostEIP2929 gasExtCodeCopyEIP2929 4 0 (Some memoryExtCodeCopy))"
proof -
  show "op_ok full x g SLOAD (dynamic_cost opSload 0 gasSLoadEIP2929 1 1 None)"
    by (rule stateful_ok [where halts = False and low = 100]) (simp_all add: row_simps exec_Sload gas_SLoad)
  show "op_ok full x g BALANCE (dynamic_cost opBalance WarmStorageReadCostEIP2929 gasEip2929AccountCheck 1 1 None)"
    "op_ok full x g EXTCODESIZE (dynamic_cost opExtCodeSize WarmStorageReadCostEIP2929 gasEip2929AccountCheck 1 1 None)"
    "op_ok full x g EXTCODEHASH (dynamic_cost opExtCodeHash WarmStorageReadCostEIP2929 gasEip2929AccountCheck 1 1 None)"
    by (rule stateful_ok [where halts = False and low = 0];
        simp add: row_simps exec_Balance exec_ExtCodeSize exec_ExtCodeHash gas_AccountCheck)+
  show "op_ok full x g EXTCODECOPY (dynamic_cost opExtCodeCopy WarmStorageReadCostEIP2929 gasExtCodeCopyEIP2929 4 0 (Some memoryExtCodeCopy))"
    by (rule dynamic_ok [where halts = False and low = 0]) (simp_all add: row_simps exec_ExtCodeCopy gas_ExtCodeCopyEIP2929)
qed

lemma berlin_ok: "ready full x \<Longrightarrow> IsEIP150 (ie_rules (x_env x)) \<Longrightarrow> table_ok full x g newBerlinInstructionSet"
proof -
  assume r: "ready full x" "IsEIP150 (ie_rules (x_env x))"
  have w: "0 < unat WarmStorageReadCostEIP2929" by (simp add: WarmStorageReadCostEIP2929_def)
  have "table_ok full x g (set_dynamic SSTORE gasSStoreEIP2929 newIstanbulInstructionSet)"
    unfolding gasSStoreEIP2929_def
    by (rule upd_dynamic [OF istanbul_ok [OF r(1)] istanbul_shapes(1) sstore_op_ok [OF gas_SStoreFunc [OF plain_ops(1)]]])
  note t = upd_both [OF this _ account_rows(1)]
  note t = upd_both [OF t _ account_rows(5)]
  note t = upd_both [OF t _ account_rows(3)]
  note t = upd_both [OF t _ account_rows(4)]
  note t = upd_both [OF t _ account_rows(2)]
  note t = upd_both [OF t _ variant_rows(1) [OF r w]]
  note t = upd_both [OF t _ variant_rows(2) [OF r w]]
  note t = upd_both [OF t _ variant_rows(4) [OF r w]]
  note t = upd_both [OF t _ variant_rows(3) [OF r w]]
  note t = upd_both [OF t _ selfdestruct_op_ok [where r = True, folded gasSelfdestructEIP2929_def]]
  show ?thesis
    unfolding newBerlinInstructionSet_def enable2929_def o_apply
    by (rule t) (use istanbul_shapes in \<open>simp_all del: One_nat_def\<close>)
qed

lemma london_ok: "ready full x \<Longrightarrow> IsEIP150 (ie_rules (x_env x)) \<Longrightarrow> table_ok full x g newLondonInstructionSet"
proof -
  assume r: "ready full x" "IsEIP150 (ie_rules (x_env x))"
  have s: "shape (newBerlinInstructionSet SSTORE) opSstore 2 0 None" "shape (newBerlinInstructionSet SELFDESTRUCT) opSelfdestruct 1 0 None"
    using istanbul_shapes by (simp_all add: newBerlinInstructionSet_def enable2929_def del: One_nat_def)
  have "table_ok full x g (set_dynamic SSTORE gasSStoreEIP3529 newBerlinInstructionSet)"
    unfolding gasSStoreEIP3529_def
    by (rule upd_dynamic [OF berlin_ok [OF r] s(1) sstore_op_ok [OF gas_SStoreFunc [OF plain_ops(1)]]])
  then have "table_ok full x g (enable3529 newBerlinInstructionSet)"
    unfolding enable3529_def o_apply gasSelfdestructEIP3529_def
    by (rule upd_dynamic [OF _ _ selfdestruct_op_ok]) (use s(2) in \<open>simp_all del: One_nat_def\<close>)
  moreover have "op_ok full x g BASEFEE (fixed_cost (pure_op opBaseFee) GasQuickStep 0 1)"
    by (rule fixed_ok [where halts = False]) (simp_all add: row_simps exec_BaseFee)
  ultimately show ?thesis unfolding newLondonInstructionSet_def enable3198_def o_apply by (rule upd_ok)
qed

lemma tables_ok: "ready full x \<Longrightarrow> table_ok full x g (NewEVMInterpreter (ie_rules (x_env x)))"
  using london_ok berlin_ok istanbul_ok constantinople_ok byzantium_ok spurious_ok tangerine_ok homestead_ok frontier_ok
  by (auto simp: NewEVMInterpreter_def ready_def rules_ordered_def)

section \<open>Frames of code\<close>

lemma new_scope_ok: "scope_ok g (new_scope g)" and paid_new_scope: "paid (new_scope g) = unat g"
  using mem_ok_new by (simp_all add: scope_ok_def paid_def new_scope_def NewMemory_def)

lemma code_frame_sound:
  assumes "ready full \<lparr>x_env = ie, x_contract = c, x_input = input, x_readOnly = ro\<rparr>"
  shows "sound full \<lparr>x_env = ie, x_contract = c, x_input = input, x_readOnly = ro\<rparr> (c_Gas c) (code_frame ie c input ro)"
  unfolding code_frame_def
  by (rule interp_sound [OF _ new_scope_ok]) (use tables_ok [OF assms, of "c_Gas c"] in \<open>simp_all add: paid_new_scope\<close>)

lemma sound_frame_gas: "sound True x g f \<Longrightarrow> frame_gas g f"
  by (induction f) simp_all

lemma vm_env_gas_sound:
  assumes "uint256_sound (ie_lib ie)" and "rules_ordered (ie_rules ie)"
  shows "gas_sound (vm_env ie pre)"
  using code_frame_sound [of True ie] sound_frame_gas assms by (fastforce simp: gas_sound_def vm_env_def ready_def)

end
