(* ===== verification/Interp_Kept.thy ===== *)
theory Interp_Kept
  imports Jump_Table Evm_Interp
begin

text \<open>
  What the code of a contract asks of its surroundings: no instruction takes snapshots, and in a read-only frame
  none changes an account, creates a contract or sends value.
\<close>

section \<open>Frames\<close>

fun writing :: "state_op \<Rightarrow> bool" where
  "writing (OpAddLog l) = True"
| "writing (OpAddBalance a v) = True"
| "writing (OpSubBalance a v) = True"
| "writing (OpSetBalance a v) = True"
| "writing (OpSetNonce a n) = True"
| "writing (OpSetCode a c) = True"
| "writing (OpSetState a k v) = True"
| "writing (OpSuicide a) = True"
| "writing (OpCreateAccount a) = True"
| "writing _ = False"

fun quiet_req :: "call_req \<Rightarrow> bool" where
  "quiet_req (ReqCall addr input gas v) = (v = 0)"
| "quiet_req (ReqCreate code gas v) = False"
| "quiet_req (ReqCreate2 code gas v salt) = False"
| "quiet_req _ = True"

primrec kept :: "bool \<Rightarrow> frame \<Rightarrow> bool" where
  "kept ro (Halt ret err gas) = True"
| "kept ro (Abort err gas) = True"
| "kept ro (Op c k) = (plain_op c \<and> (ro \<longrightarrow> \<not> writing c) \<and> (\<forall>a. kept ro (k a)))"
| "kept ro (Emit topics d gas k) = kept ro k"
| "kept ro (DoCall req k) = ((ro \<longrightarrow> quiet_req req) \<and> (\<forall>r. kept ro (k r)))"
| "kept ro (Crash p) = True"

lemma kept_opcode_frame: "kept ro f \<Longrightarrow> opcode_frame f"
  by (induction f) simp_all

section \<open>Instructions\<close>

definition exec_kept :: "executionFunc \<Rightarrow> bool" where
  "exec_kept f \<longleftrightarrow> (\<forall>x s k. (\<forall>e. kept (x_readOnly x) (k e)) \<longrightarrow> kept (x_readOnly x) (f x s k))"

definition gas_kept :: "gasFunc \<Rightarrow> bool" where
  "gas_kept f \<longleftrightarrow> (\<forall>x s n k. (\<forall>r. kept (x_readOnly x) (k r)) \<longrightarrow> kept (x_readOnly x) (f x s n k))"

lemma kept_or_crash: "(\<And>v. kept ro (k v)) \<Longrightarrow> kept ro (or_crash r k)"
  by (cases r) simp_all

lemma kept_meter: "(\<And>r. kept ro (k r)) \<Longrightarrow> (\<And>v. kept ro (f v)) \<Longrightarrow> kept ro (meter s r k f)"
  by (cases "(s, r, k, f)" rule: meter.cases) simp_all

lemma kept_called: "(\<And>e. kept ro (k e)) \<Longrightarrow> kept ro (called a b s r k)"
  unfolding called_def by (rule kept_or_crash)

lemma exec_kept_pure [simp]: "exec_kept (pure_op f)"
  by (simp add: exec_kept_def pure_op_def)

lemma exec_kept_state [simp]:
  "exec_kept opKeccak256" "exec_kept opBalance" "exec_kept opSelfBalance" "exec_kept opExtCodeSize" "exec_kept opExtCodeCopy"
  "exec_kept opExtCodeHash" "exec_kept opBlockhash" "exec_kept opSload" "exec_kept opSstore" "exec_kept opSelfdestruct" "exec_kept (log_op n)"
  by (auto simp: exec_kept_def opKeccak256_def opBalance_def opSelfBalance_def opExtCodeSize_def opExtCodeCopy_def opExtCodeHash_def
      opBlockhash_def opSload_def opSstore_def opSelfdestruct_def log_op_def Let_def split: list.splits prod.splits intro!: kept_or_crash)

lemma exec_kept_calls [simp]:
  "exec_kept opCreate" "exec_kept opCreate2" "exec_kept opCall" "exec_kept opCallCode" "exec_kept opDelegateCall" "exec_kept opStaticCall"
  by (auto simp: exec_kept_def opCreate_def opCreate2_def opCall_def opCallCode_def opDelegateCall_def opStaticCall_def Let_def
      split: list.splits intro!: kept_or_crash kept_called)

section \<open>Gas functions\<close>

lemma kept_then_op: "plain_op c \<Longrightarrow> \<not> writing c \<Longrightarrow> kept ro f \<Longrightarrow> kept ro (then_op c b f)"
  by (simp add: then_op_def)

lemma kept_dirty: "kept ro f \<Longrightarrow> kept ro (dirty_refunds a b c d e h f)"
  by (simp add: dirty_refunds_def kept_then_op)

lemma kept_suicide: "kept ro f \<Longrightarrow> kept ro (refund_suicide e a f)"
  by (simp add: refund_suicide_def kept_then_op)

lemma kept_empty: "(\<And>d. kept ro (f d)) \<Longrightarrow> kept ro (empty_charge a b d f)"
  by (simp add: empty_charge_def)

lemmas kept_intros = kept_meter kept_then_op kept_dirty kept_suicide kept_empty

lemma gas_kept_pure [simp]: "gas_kept (pure_gas f)"
  by (auto simp: gas_kept_def pure_gas_def intro!: kept_intros split: prod.splits)

lemma gas_kept_names [simp]:
  "gas_kept gasCallDataCopy" "gas_kept gasCodeCopy" "gas_kept gasExtCodeCopy" "gas_kept gasReturnDataCopy" "gas_kept gasKeccak256"
  "gas_kept gasCreate2" "gas_kept pureMemoryGascost" "gas_kept (makeGasLog n)" "gas_kept gasExpFrontier" "gas_kept gasExpEIP158"
  "gas_kept gasCallCode" "gas_kept gasDelegateCall" "gas_kept gasStaticCall"
  by (simp_all add: gasCallDataCopy_def gasCodeCopy_def gasExtCodeCopy_def gasReturnDataCopy_def memoryCopierGas_def gasKeccak256_def
      gasCreate2_def pureMemoryGascost_def makeGasLog_def gasExpFrontier_def gasExpEIP158_def gasCallCode_def gasDelegateCall_def
      gasStaticCall_def)

lemma gas_kept_storage [simp]:
  "gas_kept gasSStore" "gas_kept gasSStoreEIP2200" "gas_kept (makeGasSStoreFunc r)" "gas_kept gasSLoadEIP2929"
  by (auto simp: gas_kept_def gasSStore_def gasSStoreEIP2200_def makeGasSStoreFunc_def gasSLoadEIP2929_def Let_def
      intro!: kept_intros split: prod.splits)

lemma gas_kept_accounts [simp]:
  "gas_kept gasEip2929AccountCheck" "gas_kept gasSelfdestruct" "gas_kept (makeSelfdestructGasFn b)" "gas_kept gasCall"
  by (auto simp: gas_kept_def gasEip2929AccountCheck_def gasSelfdestruct_def makeSelfdestructGasFn_def gasCall_def Let_def
      intro!: kept_intros)

lemma gas_kept_ExtCodeCopy [simp]: "gas_kept gasExtCodeCopyEIP2929"
proof -
  have "kept (x_readOnly x) (gasExtCodeCopyEIP2929 x s n k)" if k: "\<And>r. kept (x_readOnly x) (k r)" for x s n k
    unfolding gasExtCodeCopyEIP2929_def
    by (rule gas_kept_names(3) [unfolded gas_kept_def, rule_format]) (auto simp: k split: gas_res.splits intro!: kept_intros)
  then show ?thesis by (simp add: gas_kept_def)
qed

lemma gas_kept_variant [simp]: "gas_kept f \<Longrightarrow> gas_kept (makeCallVariantGasCallEIP2929 f)"
  by (auto simp: gas_kept_def makeCallVariantGasCallEIP2929_def Let_def intro!: kept_intros split: prod.splits gas_res.splits)

section \<open>Tables\<close>

definition op_kept :: "operation \<Rightarrow> bool" where
  "op_kept o1 \<longleftrightarrow> exec_kept (execute o1) \<and> (\<forall>f. dynamicGas o1 = Some f \<longrightarrow> gas_kept f)"

definition table_kept :: "JumpTable \<Rightarrow> bool" where
  "table_kept jt \<longleftrightarrow> (\<forall>b. op_kept (jt b))"

lemma op_kept_fixed [simp]: "exec_kept f \<Longrightarrow> op_kept (fixed_cost f gas pops push)"
  by (simp add: op_kept_def fixed_cost_def)

lemma op_kept_dynamic [simp]: "exec_kept f \<Longrightarrow> gas_kept d \<Longrightarrow> op_kept (dynamic_cost f gas d pops push m)"
  by (simp add: op_kept_def dynamic_cost_def)

lemma op_kept_record:
  "exec_kept f \<Longrightarrow> op_kept \<lparr>execute = f, constantGas = gas, dynamicGas = None, op_minStack = i, op_maxStack = j, memorySize = m\<rparr>"
  by (simp add: op_kept_def)

lemma table_kept_upd: "table_kept jt \<Longrightarrow> op_kept o1 \<Longrightarrow> table_kept (jt(b := o1))"
  by (simp add: table_kept_def)

lemma table_kept_gas: "table_kept jt \<Longrightarrow> table_kept (set_gas b gas jt)"
  by (simp add: table_kept_def set_gas_def op_kept_def)

lemma table_kept_dynamic: "table_kept jt \<Longrightarrow> gas_kept f \<Longrightarrow> table_kept (set_dynamic b f jt)"
  by (simp add: table_kept_def set_dynamic_def op_kept_def)

lemma frontier_kept: "table_kept newFrontierInstructionSet"
proof -
  let ?rows = "frontier_arithmetic @ frontier_context @ frontier_storage @ frontier_system @ frontier_push @ frontier_dup
        @ frontier_swap @ frontier_log"
  have rows: "\<forall>r \<in> set ?rows. op_kept (snd r)"
    unfolding frontier_arithmetic_def frontier_context_def frontier_storage_def frontier_system_def frontier_push_def frontier_dup_def
      frontier_swap_def frontier_log_def
    by (auto simp: op_kept_record)
  have "op_kept (case map_of ?rows b of None \<Rightarrow> undefined_op | Some o1 \<Rightarrow> o1)" for b
  proof (cases "map_of ?rows b")
    case (Some o1)
    then show ?thesis using rows map_of_SomeD [OF Some] by (simp only: option.case) force
  qed (simp only: option.case undefined_op_def op_kept_record exec_kept_pure)
  then show ?thesis unfolding table_kept_def newFrontierInstructionSet_def by blast
qed

lemmas kept_updates = table_kept_upd table_kept_gas table_kept_dynamic

lemma homestead_kept: "table_kept newHomesteadInstructionSet"
  unfolding newHomesteadInstructionSet_def by (intro kept_updates frontier_kept) simp

lemma tangerine_kept: "table_kept newTangerineWhistleInstructionSet"
  unfolding newTangerineWhistleInstructionSet_def o_apply by (intro kept_updates homestead_kept)

lemma spurious_kept: "table_kept newSpuriousDragonInstructionSet"
  unfolding newSpuriousDragonInstructionSet_def by (intro kept_updates tangerine_kept) simp

lemma byzantium_kept: "table_kept newByzantiumInstructionSet"
  unfolding newByzantiumInstructionSet_def by (intro kept_updates spurious_kept) simp_all

lemma constantinople_kept: "table_kept newConstantinopleInstructionSet"
  unfolding newConstantinopleInstructionSet_def by (intro kept_updates byzantium_kept) simp_all

lemma istanbul_kept: "table_kept newIstanbulInstructionSet"
  unfolding newIstanbulInstructionSet_def enable1344_def enable1884_def enable2200_def o_apply
  by (intro kept_updates constantinople_kept) simp_all

lemma berlin_kept: "table_kept newBerlinInstructionSet"
  unfolding newBerlinInstructionSet_def enable2929_def o_apply gasSelfdestructEIP2929_def gasDelegateCallEIP2929_def gasStaticCallEIP2929_def
    gasCallCodeEIP2929_def gasCallEIP2929_def gasSStoreEIP2929_def
  by (intro kept_updates istanbul_kept) simp_all

lemma london_kept: "table_kept newLondonInstructionSet"
  unfolding newLondonInstructionSet_def enable3529_def enable3198_def o_apply gasSelfdestructEIP3529_def gasSStoreEIP3529_def
  by (intro kept_updates berlin_kept) simp_all

lemma tables_kept: "table_kept (NewEVMInterpreter rules)"
  by (simp add: NewEVMInterpreter_def london_kept berlin_kept istanbul_kept constantinople_kept byzantium_kept spurious_kept
      tangerine_kept homestead_kept frontier_kept)

section \<open>The loop\<close>

lemma kept_after_exec: "(\<And>s. kept ro (go_on s)) \<Longrightarrow> kept ro (after_exec go_on e)"
  by (simp add: after_exec_def split: exec.splits)

lemma kept_memory_needed: "(\<And>n. kept ro (k n)) \<Longrightarrow> kept ro (memory_needed o1 s k)"
  by (auto simp: memory_needed_def split: option.splits prod.splits intro!: kept_or_crash)

lemma kept_charge:
  assumes "exec_kept (execute o1)" and "gas_kept f" and "\<And>s. kept (x_readOnly x) (go_on s)"
  shows "kept (x_readOnly x) (charge_dynamic o1 f x go_on s n)"
  unfolding charge_dynamic_def
proof (rule assms(2) [unfolded gas_kept_def, rule_format])
  fix r
  have "kept (x_readOnly x) (execute o1 x s' (after_exec go_on))" for s'
    by (rule assms(1) [unfolded exec_kept_def, rule_format]) (rule kept_after_exec [OF assms(3)])
  then show "kept (x_readOnly x) (case r of NoGas e s \<Rightarrow> Abort ErrOutOfGas (s_gas s)
     | GasCost dynamicCost s \<Rightarrow>
         (case UseGas dynamicCost (s_gas s) of (ok, left) \<Rightarrow>
            if \<not> ok then Abort ErrOutOfGas (s_gas s)
            else execute o1 x (s\<lparr>s_gas := left, s_mem := (if n > 0 then mem_Resize n (s_mem s) else s_mem s)\<rparr>) (after_exec go_on)))"
    by (auto split: gas_res.splits prod.splits)
qed

lemma interp_kept: "table_kept jt \<Longrightarrow> kept (x_readOnly x) (interp jt x n s)"
proof (induction n arbitrary: s)
  case (Suc n)
  let ?o = "jt (GetOp (c_Code (x_contract x)) (s_pc s))"
  have o1: "exec_kept (execute ?o)" "\<And>f. dynamicGas ?o = Some f \<Longrightarrow> gas_kept f"
    using Suc.prems by (auto simp: table_kept_def op_kept_def)
  have "kept (x_readOnly x) (execute ?o x s' (after_exec (interp jt x n)))" for s'
    by (rule o1(1) [unfolded exec_kept_def, rule_format]) (rule kept_after_exec [OF Suc.IH [OF Suc.prems]])
  moreover have "kept (x_readOnly x) (memory_needed ?o s' (charge_dynamic ?o f x (interp jt x n) s'))" if "dynamicGas ?o = Some f" for f s'
    by (rule kept_memory_needed) (rule kept_charge [OF o1(1) o1(2) [OF that] Suc.IH [OF Suc.prems]])
  ultimately show ?case by (auto simp: interp_step_def Let_def split: prod.splits option.splits)
qed simp

lemma code_frame_kept: "kept ro (code_frame ie c input ro)"
  unfolding code_frame_def
  using interp_kept [OF tables_kept, where x = "\<lparr>x_env = ie, x_contract = c, x_input = input, x_readOnly = ro\<rparr>"]
  by (simp del: interp.simps)

lemma vm_env_opcodes: "opcodes (vm_env ie pre)"
  by (simp add: opcodes_def vm_env_def kept_opcode_frame [OF code_frame_kept])

end
