(* ===== verification/Vm_Frames.thy ===== *)
theory Vm_Frames
  imports Interp_Sound Interp_Kept
begin

text \<open>
  What a run of the interpreter guarantees: where a jump may go, that the loop ends, what it gives back of its gas, and which panics
  are left. A sample of the parameters shows that they can be as required.
\<close>

section \<open>Jumps\<close>

text \<open>
  C17: a jump goes only to an instruction. \<open>validJumpdest\<close> never panics, and accepts a destination exactly when it is a position
  of the code at which an instruction begins, as reading the code from its start gives them, and that instruction is
  \<open>JUMPDEST\<close>: a byte inside the data of a push is never accepted, and no destination beyond 64 bits.
\<close>

theorem validJumpdest_exact:
  "validJumpdest code dest =
     Inr (unat dest < 2 ^ 64 \<and> unat dest < length code \<and> code ! unat dest = JUMPDEST \<and> unat dest \<in> set (instructions_from code 0))"
proof -
  obtain bits where b: "codeBitmap code = Inr bits"
    "\<And>pos. pos < length code \<Longrightarrow> codeSegment pos bits = Inr (pos \<in> set (instructions_from code 0))"
    using codeBitmap_exact [of code] by blast
  show ?thesis
  proof (cases "IsUint64 dest")
    case True
    then have "unat dest < 2 ^ 64" by (simp add: IsUint64_def)
    moreover from this have "unat (Uint64 dest) = unat dest" by (simp add: Uint64_def unsigned_ucast_eq take_bit_nat_eq_self)
    ultimately show ?thesis using True b by (auto simp: validJumpdest_def Uint64WithOverflow_def Let_def)
  next
    case False
    then show ?thesis by (simp add: validJumpdest_def Uint64WithOverflow_def IsUint64_def)
  qed
qed

section \<open>A sample\<close>

definition sample_uint256 :: uint256_lib where
  "sample_uint256 =
     \<lparr>u_Add = (+), u_Sub = (-), u_Mul = (*), u_Div = (div), u_SDiv = (div), u_Mod = (mod), u_SMod = (mod), u_Exp = (\<lambda>a b. a ^ unat b),
      u_ExtendSign = (\<lambda>a b. a), u_Not = (\<lambda>a. - 1 - a), u_Lt = (<), u_Gt = (>), u_Slt = (<s), u_Sgt = (\<lambda>a b. b <s a),
      u_And = and, u_Or = or, u_Xor = xor, u_Byte = (\<lambda>a b. 0), u_AddMod = (\<lambda>a b c. (a + b) mod c),
      u_MulMod = (\<lambda>a b c. a * b mod c), u_Lsh = (\<lambda>a n. push_bit n a), u_Rsh = (\<lambda>a n. drop_bit n a), u_SRsh = (\<lambda>a n. signed_drop_bit n a),
      u_Sign = sgn \<circ> sint, u_BitLen = (\<lambda>a. 256)\<rparr>"

definition sample_interp :: interp_env where
  "sample_interp =
     \<lparr>ie_rules = \<lparr>IsHomestead = True, IsEIP150 = True, IsEIP158 = True, IsByzantium = True, IsConstantinople = True,
        IsPetersburg = True, IsIstanbul = True, IsBerlin = True, IsLondon = True\<rparr>,
      ie_lib = sample_uint256, ie_keccak = (\<lambda>b. of_nat (length b)), ie_Origin = 3, ie_GasPrice = 1, ie_GetHash = (\<lambda>n. 0), ie_Coinbase = 5,
      ie_GasLimit = 30000000, ie_BlockNumber = 13000000, ie_Time = 1630000000, ie_Difficulty = 1, ie_BaseFee = Some 7, ie_ChainID = 1,
      ie_EnablePreimageRecording = False\<rparr>"

lemma sample_uint256_sound: "uint256_sound (ie_lib sample_interp)"
  by (simp add: uint256_sound_def sample_interp_def sample_uint256_def sgn_0_0 signed_eq_0_iff)

lemma sample_rules_ordered: "rules_ordered (ie_rules sample_interp)"
  by (simp add: rules_ordered_def sample_interp_def)

lemma london_same:
  assumes "b \<notin> {EXP, BALANCE, EXTCODESIZE, EXTCODECOPY, RETURNDATASIZE, RETURNDATACOPY, EXTCODEHASH, CHAINID, SELFBALANCE, BASEFEE, SHL, SHR,
    SAR, SLOAD, SSTORE, CREATE2, CALL, CALLCODE, DELEGATECALL, STATICCALL, REVERT, SELFDESTRUCT}"
  shows "newLondonInstructionSet b = newFrontierInstructionSet b"
  using assms
  by (simp add: newLondonInstructionSet_def enable3198_def enable3529_def newBerlinInstructionSet_def enable2929_def newIstanbulInstructionSet_def
      enable2200_def enable1884_def enable1344_def newConstantinopleInstructionSet_def newByzantiumInstructionSet_def
      newSpuriousDragonInstructionSet_def newTangerineWhistleInstructionSet_def newHomesteadInstructionSet_def set_gas_def set_dynamic_def)

lemma first_rows: "map_of (frontier_arithmetic @ frontier_context) b = Some o1 \<Longrightarrow> newFrontierInstructionSet b = o1"
  by (auto simp: newFrontierInstructionSet_def map_of_append map_add_def split: option.splits)

lemma table_simps:
  "newLondonInstructionSet STOP = fixed_cost (pure_op opStop) 0 0 0" "newLondonInstructionSet ADD = fixed_cost (pure_op opAdd) GasFastestStep 2 1"
  "newLondonInstructionSet ADDRESS = fixed_cost (pure_op opAddress) GasQuickStep 0 1"
proof -
  have "newFrontierInstructionSet STOP = fixed_cost (pure_op opStop) 0 0 0"
    "newFrontierInstructionSet ADD = fixed_cost (pure_op opAdd) GasFastestStep 2 1"
    "newFrontierInstructionSet ADDRESS = fixed_cost (pure_op opAddress) GasQuickStep 0 1"
    by (rule first_rows, simp add: frontier_arithmetic_def frontier_context_def STOP_def)+
  then show "newLondonInstructionSet STOP = fixed_cost (pure_op opStop) 0 0 0"
    "newLondonInstructionSet ADD = fixed_cost (pure_op opAdd) GasFastestStep 2 1"
    "newLondonInstructionSet ADDRESS = fixed_cost (pure_op opAddress) GasQuickStep 0 1"
    using london_same [of STOP] london_same [of ADD] london_same [of ADDRESS] by (simp_all add: STOP_def)
qed

text \<open>A code that takes its own address and stops.\<close>

definition sample_code :: Contract where
  "sample_code = (NewContract (AccountRef 3) 17 (Some 0) 10)\<lparr>c_Code := [ADDRESS, STOP]\<rparr>"

lemma sample_code_simps: "c_Code sample_code = [ADDRESS, STOP]" "c_Gas sample_code = 10" "c_self sample_code = 17" "c_value sample_code = Some 0"
  by (simp_all add: sample_code_def NewContract_def)

lemma sample_frame: "code_frame sample_interp sample_code [] ro = Halt None None 8"
proof -
  let ?x = "\<lparr>x_env = sample_interp, x_contract = sample_code, x_input = [], x_readOnly = ro\<rparr>"
  have t: "NewEVMInterpreter (ie_rules sample_interp) = newLondonInstructionSet" by (simp add: NewEVMInterpreter_def sample_interp_def)
  have two: "interp_step newLondonInstructionSet ?x k (s\<lparr>s_pc := 1, s_stack := [w], s_gas := 8\<rparr>) = Halt None None 8" for k s w
    by (simp add: interp_step_def GetOp_def sample_code_simps table_simps fixed_cost_def minStack_def maxStack_def StackLimit_def UseGas_def
        pure_op_def opStop_def after_exec_def Let_def)
  have one: "interp_step newLondonInstructionSet ?x k (new_scope 10) = k ((new_scope 10)\<lparr>s_pc := 1, s_stack := [u_SetBytes (Address_Bytes 17)], s_gas := 8\<rparr>)" for k
    by (simp add: interp_step_def GetOp_def sample_code_simps table_simps fixed_cost_def minStack_def maxStack_def StackLimit_def UseGas_def
        new_scope_def pure_op_def opAddress_def push_op_def after_exec_def GasQuickStep_def Let_def)
  have n: "Suc (unat (10 :: uint64)) = Suc (Suc 9)" by simp
  show ?thesis unfolding code_frame_def t sample_code_simps(2) n interp.simps one two ..
qed

definition sample_precompiled :: "Address \<Rightarrow> precompiled" where
  "sample_precompiled a = \<lparr>RequiredGas = (\<lambda>input. 15), pc_Run = (\<lambda>input. (Some input, None))\<rparr>"

section \<open>The loop\<close>

text \<open>
  C13: the loop of the interpreter ends and is safe. Whatever the code, the input and the rules, however the state answers
  (with codes of less than \<open>2 ^ 63\<close> bytes), and as long as no call gives back more gas than it was passed, a run leaves at most the
  gas it was given, and does not need more steps than that gas. It never reads the stack or the memory out of bounds; it panics only
  when a nil value or base fee is read, or in the check that the storage cost makes of the access list.
\<close>

theorem code_frames_end:
  assumes "uint256_sound (ie_lib ie)" and "rules_ordered (ie_rules ie)" and "length (c_Code c) < 2 ^ 63" and "length input < 2 ^ 63"
  shows "sound False \<lparr>x_env = ie, x_contract = c, x_input = input, x_readOnly = ro\<rparr> (c_Gas c) (code_frame ie c input ro)"
  by (rule code_frame_sound) (use assms in \<open>simp add: ready_def\<close>)

theorem code_frames_end_witness:
  "code_frame sample_interp sample_code [] False = Halt None None 8 \<and>
   sound False \<lparr>x_env = sample_interp, x_contract = sample_code, x_input = [], x_readOnly = False\<rparr> 10 (code_frame sample_interp sample_code [] False)"
  using code_frames_end [OF sample_uint256_sound sample_rules_ordered, of sample_code "[]" False] sample_frame by (simp add: sample_code_simps)

end
