(* ===== verification/Static_Call.thy ===== *)
theory Static_Call
  imports Failed_Message Vm_Frames
begin

text \<open>
  Static calls (\<open>evm.StaticCall\<close> in \<open>core/vm/evm.go\<close>): the flag \<open>readOnly\<close> of the interpreter is kept through all calls within
  them, so that the world is the same after them, as far as contracts can see it.
\<close>

section \<open>Worlds that read the same\<close>

definition frozen :: "world \<Rightarrow> world \<Rightarrow> bool" where
  "frozen w w' \<longleftrightarrow> w_db w' = w_db w \<and> (\<forall>a. a_get a w' = a_get a w) \<and> w_logs w' = w_logs w"

lemma frozen_refl [simp]: "frozen w w"
  by (simp add: frozen_def)

lemma frozen_trans: "frozen u v \<Longrightarrow> frozen v w \<Longrightarrow> frozen u w"
  by (simp add: frozen_def)

lemma frozen_put: "frozen w (a_put a (a_get a w) w)"
  using a_get_live [of a w] by (auto simp: frozen_def a_get_def a_put_def acct_def split: option.splits)

lemma set_balance_own: "set_balance (sa_Balance (a_data x)) x = x"
  by (simp add: set_balance_def)

lemma frozen_balance: "frozen w (a_change a (\<lambda>x. set_balance (sa_Balance (a_data x)) x) w)"
  using frozen_put [of w a] by (simp add: a_change_def set_balance_own)

lemma frozen_new: "acct w a = None \<Longrightarrow> frozen w (a_put a (set_balance 0 (fresh_account (w_db w) a)) w)"
  using frozen_put [of w a]
  by (simp add: a_get_def set_balance_def fresh_account_def newObject_def zeroAccount_def obj_view_def)

lemma frozen_basic:
  assumes "a_basic x w = Some (r, w')" and "\<not> writing x"
  shows "frozen w w'"
  using assms by (cases x) (auto simp: frozen_def a_get_def acct_def split: option.splits if_splits sum.splits prod.splits)

section \<open>Steps that keep the world\<close>

definition still :: "StateDB \<Rightarrow> StateDB \<Rightarrow> bool" where
  "still s s' \<longleftrightarrow> (\<forall>w. stands s w \<longrightarrow> (\<exists>w'. stands s' w' \<and> frozen w w'))"

lemma still_refl [simp]: "still s s"
  unfolding still_def using frozen_refl by blast

lemma still_trans: "still s t \<Longrightarrow> still t u \<Longrightarrow> still s u"
  unfolding still_def using frozen_trans by blast

lemma still_looks: "looks s s' \<Longrightarrow> still s s'"
  unfolding still_def using stands_looks frozen_refl by blast

lemma still_exec:
  assumes "plain_op x" and "exec_op x s = Inr (r, s')" and "\<not> writing x"
  shows "still s s'"
  unfolding still_def
proof (intro allI impI)
  fix w
  assume s: "stands s w"
  then obtain m where m: "simulates s m" "m_world m = w" unfolding stands_def by blast
  obtain w1 where "a_basic x (m_world m) = Some (r, w1)" using plain_exec [OF assms(1,2) m(1)] .
  then show "\<exists>w'. stands s' w' \<and> frozen w w'" using stands_write [OF assms(1,2) s] frozen_basic assms(3) m(2) by blast
qed

lemma still_AddBalance: "still s (sd_AddBalance a 0 s)"
  unfolding still_def using stands_writes(1) [of s _ a 0] frozen_balance by fastforce

lemma still_Transfer: "still s (Transfer a b 0 s)"
proof -
  have "still s (sd_SubBalance a 0 s)" unfolding still_def using stands_writes(2) [of s _ a 0] frozen_balance by fastforce
  then show ?thesis unfolding Transfer_def by (rule still_trans [OF _ still_AddBalance])
qed

lemma exist_read:
  assumes "stands s w"
  shows "fst (Exist a s) = (acct w a \<noteq> None)"
proof -
  obtain m where m: "simulates s m" "m_world m = w" using assms unfolding stands_def by blast
  have e: "exec_op (OpExist a) s = Inr (ABool (fst (Exist a s)), snd (Exist a s))" by (simp add: answering_def)
  have "plain_op (OpExist a)" by simp
  from plain_exec [OF this e m(1)] obtain w1 where "a_basic (OpExist a) (m_world m) = Some (ABool (fst (Exist a s)), w1)" .
  then show ?thesis using m(2) by auto
qed

lemma still_Create:
  assumes "Exist a s = (False, s1)"
  shows "still s (CreateAccount a s1)"
  unfolding still_def
proof (intro allI impI)
  fix w
  assume s: "stands s w"
  then have n: "acct w a = None" using exist_read [OF s, of a] assms by simp
  have "stands s1 w" using stands_looks [OF looks_reads(3) [of s a] s] assms by simp
  then have "stands (CreateAccount a s1) (a_put a (set_balance 0 (fresh_account (w_db w) a)) w)"
    using stands_write [of "OpCreateAccount a" s1 Done "CreateAccount a s1" w] n by (simp add: silent_def a_read_def)
  then show "\<exists>w'. stands (CreateAccount a s1) w' \<and> frozen w w'" using frozen_new [OF n] by blast
qed

lemma still_Snapshot:
  assumes "sd_Snapshot s = (n, s')"
  shows "still s s'"
  unfolding still_def
proof (intro allI impI)
  fix w
  assume "stands s w"
  then obtain m where m: "simulates s m" "m_world m = w" unfolding stands_def by blast
  obtain m' where m': "a_exec OpSnapshot m = Some (ANat n, m')" "simulates s' m'" using simulates_snapshot [OF m(1)] assms by auto
  then have "m_world m' = w" using m(2) by auto
  then show "\<exists>w'. stands s' w' \<and> frozen w w'" using m'(2) unfolding stands_def by auto
qed

section \<open>Steps of the virtual machine\<close>

definition steady :: "EVM \<Rightarrow> EVM \<Rightarrow> bool" where
  "steady evm evm' \<longleftrightarrow> in_readOnly evm' = in_readOnly evm \<and> still (evm_StateDB evm) (evm_StateDB evm')"

lemma steady_refl [simp]: "steady evm evm"
  by (simp add: steady_def)

lemma steady_trans: "steady a b \<Longrightarrow> steady b c \<Longrightarrow> steady a c"
  unfolding steady_def using still_trans by auto

lemma steady_stack:
  "steady evm (push_frame t evm)" "set_events evs evm = Inr evm' \<Longrightarrow> steady evm evm'" "pop_frame evm = Inr evm' \<Longrightarrow> steady evm evm'"
  "add_leaf t evm = Inr evm' \<Longrightarrow> steady evm evm'"
  by (auto simp: steady_def push_frame_def set_events_def pop_frame_def add_leaf_def Let_def split: if_splits)

lemma ask_readOnly: "ask f evm = (r, evm') \<Longrightarrow> in_readOnly evm' = in_readOnly evm"
  by (auto simp: ask_def split: prod.splits)

lemma steady_ask:
  "ask (Exist a) evm = (ex, evm') \<Longrightarrow> steady evm evm'" "ask (sd_GetCode a) evm = (c, evm') \<Longrightarrow> steady evm evm'"
  "ask (GetCodeHash a) evm = (h, evm') \<Longrightarrow> steady evm evm'" "ask (CanTransfer a v) evm = (ok, evm') \<Longrightarrow> steady evm evm'"
  "ask sd_Snapshot evm = (n, evm') \<Longrightarrow> steady evm evm'"
  using ask_reads still_looks ask_readOnly still_Snapshot state_ask unfolding steady_def by metis+

lemma steady_tell: "still (evm_StateDB evm) (f (evm_StateDB evm)) \<Longrightarrow> steady evm (tell f evm)"
  by (simp add: steady_def tell_def)

definition run_steady :: "run_fn \<Rightarrow> bool" where
  "run_steady run \<longleftrightarrow> (\<forall>c input ro evm r evm'. ro \<or> in_readOnly evm \<longrightarrow> run c input ro evm = Inr (r, evm') \<longrightarrow> steady evm evm')"

definition call_steady :: "call_fn \<Rightarrow> bool" where
  "call_steady call \<longleftrightarrow> (\<forall>caller req evm r evm'.
     in_readOnly evm \<and> quiet_req req \<longrightarrow> call caller req evm = Inr (r, evm') \<longrightarrow> steady evm evm')"

lemma run_frame_steady:
  assumes "call_steady call" and "kept True f" and "in_readOnly evm" and "run_frame env call c f events evm = Inr (r, evm')"
  shows "steady evm evm'"
  using assms(2-)
proof (induction f arbitrary: events evm)
  case (Op x k)
  then obtain a s where k: "exec_op x (evm_StateDB evm) = Inr (a, s)" "run_frame env call c (k a) events (evm\<lparr>evm_StateDB := s\<rparr>) = Inr (r, evm')"
    by (auto elim!: go_bind_InrE)
  have "steady evm (evm\<lparr>evm_StateDB := s\<rparr>)" using still_exec [OF _ k(1)] Op.prems(1) by (simp add: steady_def)
  moreover have "steady (evm\<lparr>evm_StateDB := s\<rparr>) evm'" using Op.IH [OF _ _ _ k(2)] Op.prems(1,2) by simp
  ultimately show ?case by (rule steady_trans)
next
  case (DoCall req k)
  then obtain a evm1 where k: "call (ContractRef c) req evm = Inr (a, evm1)" "run_frame env call c (k a) events evm1 = Inr (r, evm')"
    by (auto elim!: go_bind_InrE)
  have c: "steady evm evm1" using assms(1) k(1) DoCall.prems(1,2) unfolding call_steady_def by fastforce
  then have "steady evm1 evm'" using DoCall.IH [OF _ _ _ k(2)] DoCall.prems(1,2) by (simp add: steady_def)
  with c show ?case by (rule steady_trans)
qed (auto elim!: go_bind_InrE dest: steady_stack(2))

definition quiet_code :: "evm_env \<Rightarrow> bool" where
  "quiet_code env \<longleftrightarrow> (\<forall>c input. kept True (ee_code env c input True))"

lemma evm_Run_steady:
  assumes "quiet_code env" and "call_steady call"
  shows "run_steady (evm_Run env call)"
proof -
  have "steady evm evm'" if "ro \<or> in_readOnly evm" and r: "evm_Run env call c input ro evm = Inr (r, evm')" for c input ro evm r evm'
    using r
  proof (cases rule: evm_Run_E)
    case (1 evm0 evm1)
    have o1: "in_readOnly evm0" using that(1) 1(1) by auto
    have "steady evm0 evm1"
      using 1(2)
    proof (elim disjE conjE)
      assume "run_frame env call c (ee_code env c input (in_readOnly evm0)) [] evm0 = Inr (r, evm1)"
      then show ?thesis by (rule run_frame_steady [OF assms(2) _ o1, rotated]) (use assms(1) o1 in \<open>simp add: quiet_code_def\<close>)
    qed simp
    then show ?thesis using 1(1,3) that(1) by (auto simp: steady_def)
  qed
  then show ?thesis unfolding run_steady_def by blast
qed

section \<open>Calls\<close>

lemma steady_body:
  assumes "run_steady run" and "call_body run p input gas evm1 c ro evm2 = Inr (r, evm')" and "steady evm1 evm2" and "ro \<or> in_readOnly evm2"
  shows "steady evm1 evm'"
proof (cases p)
  case None
  then obtain evm3 where "run c input ro evm2 = Inr (r, evm3)" "pop_frame evm3 = Inr evm'"
    using assms(2) by (auto simp: call_body_def run_recorded_def elim!: go_bind_InrE)
  then have "steady evm2 evm3" "steady evm3 evm'" using assms(1,4) steady_stack(3) unfolding run_steady_def by blast+
  then show ?thesis using assms(3) steady_trans by blast
qed (use assms(2) in \<open>simp add: call_body_def\<close>)

lemma steady_finish:
  assumes "steady evm evm1" and "finish_call n r1 evm1 = Inr (r, evm')" and "undone evm r evm'"
  shows "steady evm evm'"
proof (cases "cr_err r")
  case None
  then show ?thesis using assms(1,2) by (auto simp: finish_call_def elim!: go_bind_InrE split: prod.splits if_splits)
next
  case (Some e)
  have "in_readOnly evm' = in_readOnly evm1" using assms(2) by (auto simp: finish_call_def elim!: go_bind_InrE split: prod.splits if_splits)
  moreover have "still (evm_StateDB evm) (evm_StateDB evm')"
    using assms(3) Some frozen_refl unfolding undone_def still_def stands_def by (metis option.distinct(1))
  ultimately show ?thesis using assms(1) by (simp add: steady_def)
qed

lemma StaticCall_steady:
  assumes "run_safe run" and "run_steady run" and "evm_StaticCall env run caller addr input gas evm = Inr (r, evm')"
  shows "steady evm evm'"
  using assms(3)
proof (cases rule: evm_StaticCall_E)
  case (run n evm1 evm2 h evm3 code evm4 r1 evm5)
  have "steady evm evm2" using steady_trans [OF steady_ask(5) [OF run(1)]] steady_tell [of evm1] still_AddBalance unfolding run(2) by blast
  moreover have "steady evm2 evm4"
    using steady_trans [OF steady_trans [OF steady_stack(1) steady_ask(3) [OF run(3)]] steady_ask(2) [OF run(4)]] .
  then have "steady evm2 evm5" by (rule steady_body [OF assms(2) run(5)]) simp
  ultimately have "steady evm evm5" by (rule steady_trans)
  then show ?thesis using steady_finish run(6) evm_StaticCall_undone [OF assms(1,3)] by blast
qed simp

lemma CallCode_steady:
  assumes "run_safe run" and "run_steady run" and "evm_CallCode env run caller addr input gas v evm = Inr (r, evm')" and "in_readOnly evm"
  shows "steady evm evm'"
  using assms(3)
proof (cases rule: evm_CallCode_E)
  case (refused can)
  then show ?thesis using steady_ask(4) by auto
next
  case (run can evm1 n evm2 h evm3 code evm4 r1 evm5)
  have b: "steady evm evm2" by (rule steady_trans [OF steady_ask(4) [OF run(1)] steady_ask(5) [OF run(2)]])
  moreover have "steady evm2 evm4"
    using steady_trans [OF steady_trans [OF steady_stack(1) steady_ask(3) [OF run(3)]] steady_ask(2) [OF run(4)]] .
  then have "steady evm2 evm5" by (rule steady_body [OF assms(2) run(5)]) (use b \<open>steady evm2 evm4\<close> assms(4) in \<open>simp add: steady_def\<close>)
  ultimately have "steady evm evm5" by (rule steady_trans)
  then show ?thesis using steady_finish run(6) evm_CallCode_undone [OF assms(1,3)] by blast
qed

lemma DelegateCall_steady:
  assumes "run_safe run" and "run_steady run" and "evm_DelegateCall env run caller addr input gas evm = Inr (r, evm')" and "in_readOnly evm"
  shows "steady evm evm'"
  using assms(3)
proof (cases rule: evm_DelegateCall_E)
  case (run n evm2 h evm3 code evm4 c r1 evm5)
  have b: "steady evm evm2" by (rule steady_ask(5) [OF run(1)])
  moreover have "steady evm2 evm4"
    using steady_trans [OF steady_trans [OF steady_stack(1) steady_ask(3) [OF run(2)]] steady_ask(2) [OF run(3)]] .
  then have "steady evm2 evm5" by (rule steady_body [OF assms(2) run(4)]) (use b \<open>steady evm2 evm4\<close> assms(4) in \<open>simp add: steady_def\<close>)
  ultimately have "steady evm evm5" by (rule steady_trans)
  then show ?thesis using steady_finish run(6) evm_DelegateCall_undone [OF assms(1,3)] by blast
qed simp

lemma steady_prelude:
  assumes "ask (Exist addr) evm = (ex, evm1)"
  shows "steady evm (tell (Transfer a addr 0) (if ex then evm1 else tell (CreateAccount addr) evm1))"
proof -
  have "steady evm (if ex then evm1 else tell (CreateAccount addr) evm1)"
    using steady_ask(1) [OF assms] still_Create [of addr "evm_StateDB evm" "evm_StateDB evm1"] state_ask [OF assms] ask_readOnly [OF assms]
    by (auto simp: steady_def tell_def)
  then show ?thesis by (rule steady_trans) (rule steady_tell, rule still_Transfer)
qed

lemma Call_steady:
  assumes "run_safe run" and "run_steady run" and "evm_Call env run caller addr input gas 0 evm = Inr (r, evm')" and "in_readOnly evm"
  shows "steady evm evm'"
  using assms(3)
proof (cases rule: evm_Call_E)
  case (refused can)
  then show ?thesis using steady_ask(4) by auto
next
  case (absent can evm1 n evm2 ex)
  then have "steady evm evm1" using steady_ask(4) by auto
  then show ?thesis using steady_trans steady_ask(5) [OF absent(2)] steady_ask(1) [OF absent(3)] by blast
next
  case (run can evm1 n evm2 ex evm3 evm4 code evm5 h evm6 r1 evm7)
  have "steady evm evm1" using run(1) steady_ask(4) by auto
  then have b: "steady evm evm4"
    using steady_trans [OF steady_trans [OF _ steady_ask(5) [OF run(2)]] steady_prelude [OF run(3)]] unfolding run(4) by blast
  have c: "steady evm4 evm5" "steady evm5 evm6"
    using steady_ask(2) [OF run(5)] steady_trans [OF steady_stack(1) steady_ask(3) [OF run(6)]] by auto
  then have ro: "in_readOnly evm6" using b assms(4) by (simp add: steady_def)
  have "steady evm4 evm7"
    using run(7)
  proof (elim disjE conjE)
    assume "add_leaf (InternalTx (Ref_Address caller) addr False (Some 0) ''Call'' input [] []) evm5 = Inr evm7"
    then show ?thesis using steady_trans [OF c(1)] steady_stack(4) by blast
  next
    assume "call_body run (precompile env addr) input gas evm4
        (SetCallCode addr h (code_bytes code) (NewContract caller addr (Some 0) gas)) False evm6 = Inr (r1, evm7)"
    then show ?thesis by (rule steady_body [OF assms(2) _ steady_trans [OF c]]) (simp add: ro)
  qed
  then have "steady evm evm7" using b steady_trans by blast
  then show ?thesis using steady_finish run(8) evm_Call_undone [OF assms(1,3)] by blast
qed

lemma request_steady:
  assumes "run_safe run" and "run_steady run" and "evm_request env run caller req evm = Inr (r, evm')" and "quiet_req req" and "in_readOnly evm"
  shows "steady evm evm'"
  using assms Call_steady [OF assms(1,2)] CallCode_steady [OF assms(1,2)] DelegateCall_steady [OF assms(1,2)] StaticCall_steady [OF assms(1,2)]
  by (cases req) auto

section \<open>The code of contracts, as the calls rely on it\<close>

text \<open>
  What the calls of \<open>core/vm/evm.go\<close> take for granted of the interpreter: no instruction takes snapshots, and a read-only run asks
  for nothing that writes.
\<close>

locale contract_code =
  fixes env :: evm_env
  assumes code_opcodes: "opcodes env"
    and code_quiet: "quiet_code env"
begin

lemma from_steady:
  assumes "call_safe beyond" and "call_steady beyond"
  shows "call_steady (evm_calls_from beyond n env)"
proof (induction n)
  case (Suc n)
  have "run_steady (evm_Run env (evm_calls_from beyond n env))" by (rule evm_Run_steady [OF code_quiet Suc.IH])
  moreover have "run_safe (evm_Run env (evm_calls_from beyond n env))"
    by (rule evm_Run_safe [OF code_opcodes evm_calls_from_safe [OF code_opcodes assms(1)]])
  ultimately show ?case using request_steady unfolding call_steady_def evm_calls_from.simps by blast
qed (use assms in simp)

lemma run_ok:
  defines "p \<equiv> \<lambda>(caller :: ContractRef) (req :: call_req) (evm :: EVM). Inl (ExplicitPanic ''too deep'') :: (call_res \<times> EVM) go"
  shows "run_safe (evm_Run env (evm_calls_from p n env))" and "run_steady (evm_Run env (evm_calls_from p n env))"
proof -
  have p: "call_safe p" "call_steady p" by (simp_all add: p_def call_safe_def call_steady_def)
  show "run_safe (evm_Run env (evm_calls_from p n env))" by (rule evm_Run_safe [OF code_opcodes evm_calls_from_safe [OF code_opcodes p(1)]])
  show "run_steady (evm_Run env (evm_calls_from p n env))" by (rule evm_Run_steady [OF code_quiet from_steady [OF p]])
qed

lemma static_steady: "evm_calls env caller (ReqStaticCall addr input gas) evm = Inr (r, evm') \<Longrightarrow> steady evm evm'"
  using StaticCall_steady [OF run_ok] unfolding evm_calls_unfold evm_request.simps by blast

lemma read_only_steady: "evm_calls env caller req evm = Inr (r, evm') \<Longrightarrow> quiet_req req \<Longrightarrow> in_readOnly evm \<Longrightarrow> steady evm evm'"
  using request_steady [OF run_ok] unfolding evm_calls_unfold by blast

end

lemma vm_env_quiet: "quiet_code (vm_env ie pre)"
  by (simp add: quiet_code_def vm_env_def code_frame_kept)

interpretation vm: contract_code "vm_env ie pre" for ie pre
  by unfold_locales (rule vm_env_opcodes vm_env_quiet)+

text \<open>
  C14: a static call changes nothing. Whatever code it runs and whatever that code calls, with every instruction, gas
  function and jump table of the interpreter, once a static call is over each account has the balance, nonce, code and storage it
  had before, none has been destroyed, and no log was added.
\<close>

theorem static_calls_keep:
  assumes "simulates (evm_StateDB evm) m" and "evm_calls (vm_env ie pre) caller (ReqStaticCall addr input gas) evm = Inr (r, evm')"
  shows "(\<forall>a. a_get a (state_view (evm_StateDB evm')) = a_get a (state_view (evm_StateDB evm))) \<and>
    w_logs (state_view (evm_StateDB evm')) = w_logs (state_view (evm_StateDB evm))"
proof -
  have "still (evm_StateDB evm) (evm_StateDB evm')" using vm.static_steady [OF assms(2)] unfolding steady_def by blast
  moreover have s: "stands (evm_StateDB evm) (state_view (evm_StateDB evm))" using assms(1) by (auto simp: stands_def simulates_def)
  ultimately obtain w' where "stands (evm_StateDB evm') w'" "frozen (state_view (evm_StateDB evm)) w'" unfolding still_def by blast
  then show ?thesis using stands_view by (auto simp: frozen_def)
qed

text \<open>A static call of a contract whose only instruction finds no operands on the stack.\<close>

lemma sample_add_frame:
  assumes "c_Code c = [ADD]"
  shows "code_frame sample_interp c input ro = Abort (ErrStackUnderflow 0 2) (c_Gas c)"
proof -
  have "NewEVMInterpreter (ie_rules sample_interp) = newLondonInstructionSet" by (simp add: NewEVMInterpreter_def sample_interp_def)
  then show ?thesis
    using assms by (simp add: code_frame_def interp_step_def GetOp_def new_scope_def table_simps fixed_cost_def minStack_def Let_def)
qed

lemma contract_Static:
  assumes "holds_contract obj (evm_StateDB evm)" and "evm_depth evm \<le> CallCreateDepth" and "precompile env 17 = None"
  obtains c where "evm_StaticCall env run (AccountRef 17) 17 input gas evm =
      go_bind (run_recorded run c input True (push_frame (InternalTx 17 17 True None ''StaticCall'' input [] [])
          (evm\<lparr>evm_StateDB := snd (sd_Snapshot (evm_StateDB evm))\<rparr>)))
        (\<lambda>(r, evm'). finish_call (fst (sd_Snapshot (evm_StateDB evm))) r evm')"
    "c_Code c = [1]" "c_Gas c = gas"
proof -
  obtain n t where sn: "sd_Snapshot (evm_StateDB evm) = (n, t)" by (cases "sd_Snapshot (evm_StateDB evm)")
  have h: "holds_contract obj t" using holds_snapshot [OF assms(1)] sn by simp
  obtain k where k: "GetCodeHash 17 t = (k, t)" using contract_steps(4) [OF h] by blast
  let ?c = "SetCallCode 17 k [1] (NewContract (AccountRef 17) 17 (Some 0) gas)"
  have "evm_StaticCall env run (AccountRef 17) 17 input gas evm =
      go_bind (run_recorded run ?c input True (push_frame (InternalTx 17 17 True None ''StaticCall'' input [] [])
        (evm\<lparr>evm_StateDB := t\<rparr>))) (\<lambda>(r, evm'). finish_call n r evm')"
    using sn k contract_steps(3) [OF h] contract_balance(2) [OF h] assms(2,3)
    by (cases evm) (simp add: evm_StaticCall_def ask_def tell_def Let_def code_bytes_def push_frame_def)
  then show thesis using that [of ?c] sn by (simp add: SetCallCode_def NewContract_def)
qed

lemma sample_static:
  "\<exists>evm'. evm_calls (vm_env sample_interp sample_precompiled) (AccountRef 17) (ReqStaticCall 17 [] 10) (NewEVM sample_db) =
     Inr (CallRes None 0 0 (Some (ErrStackUnderflow 0 2)), evm')"
proof -
  let ?vm = "vm_env sample_interp sample_precompiled"
  let ?run = "evm_Run ?vm (evm_calls_from (\<lambda>caller req evm. Inl (ExplicitPanic ''too deep'')) (Suc CallCreateDepth) ?vm)"
  obtain t where n: "sd_Snapshot sample_db = (0, t)" by (simp add: sd_Snapshot_def Let_def sample_db_def state_New_def)
  obtain m1 where m1: "simulates t m1" "m_saved m1 = [] @ [(0, state_view sample_db)] @ []"
    using snapshot_saves [OF sample_start_db n] by (auto simp: fresh_machine_def)
  obtain s' where r: "RevertToSnapshot 0 t = Inr s'" using revert_restores [OF m1] by auto
  have p: "precompile ?vm 17 = None" by (simp add: precompile_def vm_env_def ActivePrecompiles_def)
  obtain c where c: "evm_StaticCall ?vm ?run (AccountRef 17) 17 [] 10 (NewEVM sample_db) =
      go_bind (run_recorded ?run c [] True (push_frame (InternalTx 17 17 True None ''StaticCall'' [] [] []) ((NewEVM sample_db)\<lparr>evm_StateDB := t\<rparr>)))
        (\<lambda>(r, evm'). finish_call 0 r evm')" "c_Code c = [1]"
    using contract_Static [of sample_contract "NewEVM sample_db" ?vm ?run "[]" 10] sample_holds p n by (auto simp: NewEVM_def)
  have f: "ee_code ?vm c [] True = Abort (ErrStackUnderflow 0 2) (c_Gas c)" using sample_add_frame [OF c(2)] by (simp add: vm_env_def)
  show ?thesis
    unfolding evm_calls_unfold evm_request.simps c(1)
    using r c(2) f by (simp add: run_recorded_def evm_Run_def pop_frame_def push_frame_def NewEVM_def Let_def finish_call_def)
qed

theorem static_calls_keep_witness:
  "\<exists>r evm'. evm_calls (vm_env sample_interp sample_precompiled) (AccountRef 17) (ReqStaticCall 17 [] 10) (NewEVM sample_db) = Inr (r, evm') \<and>
     a_get 17 (state_view (evm_StateDB evm')) = a_get 17 (state_view sample_db)"
proof -
  obtain r evm' where e: "evm_calls (vm_env sample_interp sample_precompiled) (AccountRef 17) (ReqStaticCall 17 [] 10) (NewEVM sample_db) = Inr (r, evm')"
    using sample_static by blast
  have "simulates (evm_StateDB (NewEVM sample_db)) (fresh_machine sample_db)" using sample_start_db by (simp add: NewEVM_def)
  from static_calls_keep [OF this e] show ?thesis using e by (auto simp: NewEVM_def)
qed

end
