(* ===== verification/Vm_Return.thy ===== *)
theory Vm_Return
  imports Failed_Message Vm_Frames
begin

text \<open>
  Applying a message comes to an end: with the interpreter as the code of the contracts, neither the bound on the steps of its
  loop nor the one on the depth of the calls is ever reached.
\<close>

definition limit :: "go_panic \<Rightarrow> bool" where
  "limit p \<longleftrightarrow> p = out_of_steps \<or> p = ExplicitPanic ''too deep''"

definition returns :: "'a go \<Rightarrow> bool" where
  "returns r \<longleftrightarrow> (\<forall>p. r = Inl p \<longrightarrow> \<not> limit p)"

lemma returns_simps [simp]: "returns (Inr x)" "returns (Inl p) = (\<not> limit p)"
  by (simp_all add: returns_def)

lemma limit_simps [simp]: "\<not> limit IndexOutOfRange" "\<not> limit NilDereference" "\<not> limit TypeAssertion"
  "limit (ExplicitPanic m) \<longleftrightarrow> m = ''out of steps'' \<or> m = ''too deep''"
  by (simp_all add: limit_def out_of_steps_def)

lemma returns_bind [intro!]: "returns m \<Longrightarrow> (\<And>x. m = Inr x \<Longrightarrow> returns (f x)) \<Longrightarrow> returns (go_bind m f)"
  by (cases m) simp_all

lemma returns_fold [intro!]: "(\<And>x s. returns (f x s)) \<Longrightarrow> returns (go_fold f xs s)"
  by (induction xs arbitrary: s) auto

section \<open>The state\<close>

lemma returns_index [simp]: "returns (go_index xs i)" "returns (slot_index xs j)"
  by (simp_all add: go_index_def slot_index_def)

lemma returns_lists [simp]:
  "returns (AddSlot a k al)" "returns (DeleteSlot a k al)" "returns (AL_Contains al a k)"
  by (auto simp: AddSlot_def DeleteSlot_def AL_Contains_def Let_def split: option.splits prod.splits)

lemma returns_AddSlot [simp]: "returns (AddSlotToAccessList a k s)"
  by (auto simp: AddSlotToAccessList_def Let_def split: prod.splits)

lemma returns_entry [simp]: "returns (entry_revert e s)"
  by (cases e) (auto simp: on_object_def Let_def split: prod.splits option.splits)

lemma returns_revert [simp]: "returns (RevertToSnapshot n s)"
  by (auto simp: RevertToSnapshot_def journal_revert_def Let_def)

lemma returns_exec [simp]: "returns (exec_op x s)"
  by (cases x) (auto simp: answering_def silent_def SubRefund_def Let_def split: prod.splits)

lemma returns_prepare [simp]: "returns (PrepareAccessList a b ps l s)"
  by (auto simp: PrepareAccessList_def Let_def split: prod.splits)

section \<open>Calls\<close>

lemma returns_stack [simp]: "returns (set_events evs evm)" "returns (pop_frame evm)" "returns (add_leaf t evm)"
  by (simp_all add: set_events_def pop_frame_def add_leaf_def Let_def)

definition call_returns :: "call_fn \<Rightarrow> bool" where
  "call_returns call \<longleftrightarrow> (\<forall>caller req evm. returns (call caller req evm))"

definition run_returns :: "run_fn \<Rightarrow> bool" where
  "run_returns run \<longleftrightarrow> (\<forall>c input ro evm. returns (run c input ro evm))"

lemma harmless_limit: "harmless full x p \<Longrightarrow> \<not> limit p"
  by (auto simp: harmless_def impossible_case_def)

lemma returns_frame:
  assumes "call_returns call" and "call_gas call"
  shows "sound True x g f \<Longrightarrow> returns (run_frame env call c f events evm)"
proof (induction f arbitrary: events evm)
  case (DoCall req k)
  have "returns (run_frame env call c (k r) events evm1)" if "call (ContractRef c) req evm = Inr (r, evm1)" for r evm1
  proof -
    have "cr_gas r \<le> req_gas req" using assms(2) that unfolding call_gas_def by blast
    then show ?thesis using DoCall by simp
  qed
  then show ?case using assms(1) unfolding call_returns_def by auto
qed (use harmless_limit in \<open>auto split: prod.splits\<close>)

definition steps_sound :: "evm_env \<Rightarrow> bool" where
  "steps_sound env \<longleftrightarrow> (\<forall>c input ro. \<exists>x. sound True x (c_Gas c) (ee_code env c input ro))"

lemma returns_Run:
  assumes "steps_sound env" and "call_returns call" and "call_gas call"
  shows "run_returns (evm_Run env call)"
proof -
  have "returns (run_frame env call c (ee_code env c input ro) events evm)" for c input ro events evm
    using returns_frame [OF assms(2,3)] assms(1) unfolding steps_sound_def by blast
  then show ?thesis by (auto simp: run_returns_def evm_Run_def Let_def)
qed

lemma returns_finish [simp]: "returns (finish_call n r evm)" "returns (finish_create rules a n r evm)"
  by (auto simp: finish_call_def finish_create_def split: prod.splits)

lemma returns_recorded: "run_returns run \<Longrightarrow> returns (run_recorded run c input ro evm)"
  by (auto simp: run_recorded_def run_returns_def)

lemma returns_create: "run_returns run \<Longrightarrow> returns (evm_create env run caller code h gas v a evm)"
  by (auto simp: evm_create_def Let_def split_beta returns_recorded)

lemma returns_calls:
  assumes "run_returns run"
  shows "returns (evm_Call env run caller addr input gas v evm)" "returns (evm_CallCode env run caller addr input gas v evm)"
    "returns (evm_DelegateCall env run caller addr input gas evm)" "returns (evm_StaticCall env run caller addr input gas evm)"
  by (auto simp: evm_Call_def evm_CallCode_def evm_DelegateCall_def evm_StaticCall_def AsDelegate_def Let_def split_beta
      returns_recorded [OF assms] split: option.split ContractRef.split)

lemma returns_request: "run_returns run \<Longrightarrow> returns (evm_request env run caller req evm)"
  by (cases req) (simp_all add: returns_calls returns_create evm_Create_def evm_Create2_def Let_def split_beta)

lemma returns_from:
  assumes "steps_sound env" and "gas_sound env" and "call_returns beyond" and "call_gas beyond"
  shows "call_returns (evm_calls_from beyond n env)"
proof (induction n)
  case (Suc n)
  have "run_returns (evm_Run env (evm_calls_from beyond n env))"
    by (rule returns_Run [OF assms(1) Suc.IH evm_calls_from_gas [OF assms(2,4)]])
  then show ?case by (simp add: call_returns_def returns_request)
qed (use assms in simp)

text \<open>At depth 0 the bound on the depth of calls is not reached, so that what is answered beyond it does not matter.\<close>

lemma returns_evm_calls:
  assumes "steps_sound env" and "gas_sound env"
  shows "returns (evm_calls env caller req evm)"
proof -
  let ?b = "\<lambda>(caller :: ContractRef) (req :: call_req) (evm :: EVM). Inl NilDereference :: (call_res \<times> EVM) go"
  have "evm_calls env caller req evm = evm_calls_from ?b (CallCreateDepth + 2) env caller req evm"
    using evm_calls_from_depth [OF panic_ok, where k = 0 and n = "CallCreateDepth + 2" and beyond' = ?b] by (simp add: evm_calls_def)
  moreover have "call_returns ?b" "call_gas ?b" by (simp_all add: call_returns_def call_gas_def)
  from returns_from [OF assms this] have "call_returns (evm_calls_from ?b (CallCreateDepth + 2) env)" .
  ultimately show ?thesis unfolding call_returns_def by (simp only:)
qed

section \<open>Messages\<close>

lemma returns_check [simp]: "returns (preCheck env bc msg st)" "returns (preCheckSu env bc msg st)"
  by (auto simp: preCheck_def preCheckSu_def after_fees_def check_fees_def Let_def split_beta split: option.split)

lemma returns_finish_message [simp]: "returns (finish_message env bc msg r st)"
  by (auto simp: finish_message_def refundGas_def pay_miner_def effective_tip_def AddGas_def Let_def split: option.split)

lemma returns_transition:
  assumes "steps_sound env" and "gas_sound env" and "\<And>st. returns (check st)"
  shows "returns (transition check env bc msg st)"
proof -
  have "returns (run_message env msg st)" for st
    using returns_evm_calls [OF assms(1,2)] by (auto simp: run_message_def Let_def split_beta split: option.split)
  then show ?thesis using assms(3) by (auto simp: transition_def after_check_def Let_def split_beta split: option.split sum.split)
qed

lemma vm_env_steps_sound:
  assumes "uint256_sound (ie_lib ie)" and "rules_ordered (ie_rules ie)"
  shows "steps_sound (vm_env ie pre)"
  using code_frame_sound [of True ie] assms by (fastforce simp: steps_sound_def vm_env_def ready_def)

text \<open>
  C12: applying a message comes to an end. With the interpreter running the code of the contracts, whatever that
  code is, neither the loop over the instructions nor the calls within calls go on without bound: the steps that the gas allows and the depth
  of calls that the machine allows are enough for every message, in every state.
\<close>

theorem messages_end:
  assumes "uint256_sound (ie_lib ie)" and "rules_ordered (ie_rules ie)"
  shows "ApplyMessage (vm_env ie pre) bc evm msg gp \<noteq> Inl out_of_steps \<and>
    ApplyMessage (vm_env ie pre) bc evm msg gp \<noteq> Inl (ExplicitPanic ''too deep'') \<and>
    ApplyMessageTest (vm_env ie pre) bc evm msg gp \<noteq> Inl out_of_steps \<and>
    ApplyMessageTest (vm_env ie pre) bc evm msg gp \<noteq> Inl (ExplicitPanic ''too deep'')"
proof -
  have "returns (transition check (vm_env ie pre) bc msg st)" if "\<And>st. returns (check st)" for check st
    using returns_transition [OF vm_env_steps_sound [OF assms] vm_env_gas_sound [OF assms] that] .
  then have "returns (ApplyMessage (vm_env ie pre) bc evm msg gp)" "returns (ApplyMessageTest (vm_env ie pre) bc evm msg gp)"
    by (simp_all add: ApplyMessage_def ApplyMessageTest_def TransitionDb_def TransitionDbTest_def)
  then show ?thesis by (auto simp: returns_def limit_def)
qed

theorem messages_end_witness:
  "uint256_sound (ie_lib sample_interp) \<and> rules_ordered (ie_rules sample_interp) \<and>
   ApplyMessage (vm_env sample_interp sample_precompiled) sample_block (NewEVM sample_db) (sample_message [1]) 100000 \<noteq> Inl out_of_steps \<and>
   ApplyMessageTest (vm_env sample_interp sample_precompiled) sample_block (NewEVM sample_db) (sample_message [1]) 100000 \<noteq> Inl out_of_steps"
  using messages_end [OF sample_uint256_sound sample_rules_ordered] sample_uint256_sound sample_rules_ordered by blast

end
