(* ===== verification/Abi_Pack.thy ===== *)
theory Abi_Pack
  imports Abi_Decode Defi_Config
begin

text \<open>
  Packing of arguments into call data, the way back of \<open>Abi_Decode\<close>: \<open>accounts/abi/pack.go\<close>,
  \<open>error_handling.go\<close>, the reflection helpers of \<open>reflect.go\<close> it needs, \<open>Type.pack\<close> of
  \<open>type.go\<close>, \<open>Arguments.Pack\<close> of \<open>argument.go\<close> and \<open>ABI.Pack\<close> of \<open>abi.go\<close>. A value under
  reflection is a \<open>go_value\<close>: slices and arrays carry the kind of their element type, a struct
  its fields with their names and their \<open>abi\<close> tags (fields are not embedded, element types
  are not named types). Error returns and panics are left values. The round trip says that
  what was unpacked can be packed again and unpacks to itself.
\<close>

section \<open>Values under reflection\<close>

datatype go_kind =
    KInvalid
  | KBool
  | KString
  | KUint nat
  | KInt nat
  | KPtr
  | KSlice
  | KArray
  | KStruct
  | KOther nat

text \<open>
  \<open>RUint\<close> and \<open>RInt\<close> carry their width (\<open>0\<close> for Go's \<open>uint\<close> and \<open>int\<close>), \<open>RBig\<close> is a
  \<open>*big.Int\<close> that is not \<open>nil\<close>, \<open>RPtr\<close> any other pointer that is not, \<open>RInvalid\<close> the
  reflection of a \<open>nil\<close> interface, \<open>ROther\<close> a value of a kind the encoder never accepts.
\<close>

datatype go_value =
    RInvalid
  | RBool bool
  | RString bytes
  | RUint nat nat
  | RInt nat int
  | RBig int
  | RPtr go_value
  | RNil
  | RSlice go_kind "go_value list"
  | RArray go_kind "go_value list"
  | RStruct "(string \<times> string option \<times> go_value) list"
  | ROther nat

datatype pack_error =
    TypeErr
  | NotByteSlice
  | UnknownElement
  | FieldNotFound
  | EmptyTag
  | TagMapped
  | TagNotFound
  | PurelyUnderscored
  | MultipleVariables
  | MultipleOutputs
  | ArgumentCount
  | MethodNotFound
  | PackPanic

type_synonym 'a pack_res = "pack_error + 'a"

fun kind_of :: "go_value \<Rightarrow> go_kind" where
  "kind_of RInvalid = KInvalid"
| "kind_of (RBool _) = KBool"
| "kind_of (RString _) = KString"
| "kind_of (RUint w _) = KUint w"
| "kind_of (RInt w _) = KInt w"
| "kind_of (RBig _) = KPtr"
| "kind_of (RPtr _) = KPtr"
| "kind_of RNil = KPtr"
| "kind_of (RSlice _ _) = KSlice"
| "kind_of (RArray _ _) = KArray"
| "kind_of (RStruct _) = KStruct"
| "kind_of (ROther k) = KOther k"

text \<open>Dereferencing a \<open>nil\<close> pointer gives an invalid value, whose \<open>Type\<close> panics.\<close>

fun indirect :: "go_value \<Rightarrow> go_value pack_res" where
  "indirect (RPtr v) = indirect v"
| "indirect RNil = Inl PackPanic"
| "indirect v = Inr v"

definition reflectIntType :: "bool \<Rightarrow> nat \<Rightarrow> go_kind" where
  "reflectIntType uns sz =
     (if sz \<in> {8, 16, 32, 64} then if uns then KUint sz else KInt sz else KPtr)"

text \<open>\<open>GetType().Kind()\<close>.\<close>

fun type_kind :: "abi_type \<Rightarrow> go_kind" where
  "type_kind (IntTy sz) = reflectIntType False sz"
| "type_kind (UintTy sz) = reflectIntType True sz"
| "type_kind BoolTy = KBool"
| "type_kind StringTy = KString"
| "type_kind (SliceTy _) = KSlice"
| "type_kind (ArrayTy _ _) = KArray"
| "type_kind (TupleTy _ _) = KStruct"
| "type_kind AddressTy = KArray"
| "type_kind (FixedBytesTy _) = KArray"
| "type_kind BytesTy = KSlice"
| "type_kind HashTy = KArray"
| "type_kind FixedPointTy = KArray"
| "type_kind FunctionTy = KArray"

section \<open>Type checks\<close>

fun is_seq_type :: "abi_type \<Rightarrow> bool" where
  "is_seq_type (SliceTy _) = True"
| "is_seq_type (ArrayTy _ _) = True"
| "is_seq_type _ = False"

fun seq_parts :: "go_value \<Rightarrow> (go_kind \<times> go_value list) option" where
  "seq_parts (RSlice k vs) = Some (k, vs)"
| "seq_parts (RArray k vs) = Some (k, vs)"
| "seq_parts _ = None"

definition typeErr_of :: "go_value \<Rightarrow> pack_error" where
  "typeErr_of v = (if v = RInvalid then PackPanic else TypeErr)"

definition elem_kind_check :: "abi_type \<Rightarrow> go_kind \<Rightarrow> unit pack_res" where
  "elem_kind_check e k = (if k \<noteq> type_kind e then Inl TypeErr else Inr ())"

fun sliceTypeCheck :: "abi_type \<Rightarrow> go_value \<Rightarrow> unit pack_res" where
  "sliceTypeCheck (SliceTy e) v =
     (case seq_parts v of
        None \<Rightarrow> Inl (typeErr_of v)
      | Some (k, vs) \<Rightarrow>
          if is_seq_type e \<and> vs \<noteq> [] then sliceTypeCheck e (hd vs) else elem_kind_check e k)"
| "sliceTypeCheck (ArrayTy n e) v =
     (case seq_parts v of
        None \<Rightarrow> Inl (typeErr_of v)
      | Some (k, vs) \<Rightarrow>
          if length vs \<noteq> n then Inl TypeErr
          else if is_seq_type e \<and> vs \<noteq> [] then sliceTypeCheck e (hd vs) else elem_kind_check e k)"
| "sliceTypeCheck _ v = Inl PackPanic"

definition typeCheck :: "abi_type \<Rightarrow> go_value \<Rightarrow> unit pack_res" where
  "typeCheck t v =
     (if is_seq_type t then sliceTypeCheck t v
      else if type_kind t \<noteq> kind_of v then Inl TypeErr
      else case (t, seq_parts v) of
             (FixedBytesTy n, Some (_, vs)) \<Rightarrow> if n \<noteq> length vs then Inl TypeErr else Inr ()
           | _ \<Rightarrow> Inr ())"

section \<open>Words and elements\<close>

definition U256Bytes :: "int \<Rightarrow> bytes" where
  "U256Bytes n = be_bytes 32 (nat (n AND (2 ^ 256 - 1)))"

fun packNum :: "go_value \<Rightarrow> bytes pack_res" where
  "packNum (RUint _ n) = Inr (U256Bytes (int n))"
| "packNum (RInt _ i) = Inr (U256Bytes i)"
| "packNum (RBig i) = Inr (U256Bytes i)"
| "packNum _ = Inl PackPanic"

text \<open>\<open>packNum(reflect.ValueOf(n))\<close> of a length or an offset.\<close>

definition pack_len :: "nat \<Rightarrow> bytes" where
  "pack_len n = U256Bytes (int n)"

definition packBytesSlice :: "bytes \<Rightarrow> nat \<Rightarrow> bytes" where
  "packBytesSlice b l = pack_len l @ RightPadBytes b ((l + 31) div 32 * 32)"

fun byte_of :: "go_value \<Rightarrow> byte" where
  "byte_of (RUint _ n) = of_nat n"
| "byte_of _ = 0"

text \<open>\<open>reflect.Copy\<close> and \<open>Value.Bytes\<close> panic unless the elements are bytes.\<close>

fun mustArrayToByteSlice :: "go_value \<Rightarrow> go_value pack_res" where
  "mustArrayToByteSlice (RArray k vs) = (if k = KUint 8 then Inr (RSlice k vs) else Inl PackPanic)"
| "mustArrayToByteSlice v = Inr v"

fun reflect_Bytes :: "go_value \<Rightarrow> bytes pack_res" where
  "reflect_Bytes (RSlice k vs) = (if k = KUint 8 then Inr (map byte_of vs) else Inl PackPanic)"
| "reflect_Bytes _ = Inl PackPanic"

definition packElement :: "abi_type \<Rightarrow> go_value \<Rightarrow> bytes pack_res" where
  "packElement t v =
     (case t of
        IntTy _ \<Rightarrow> packNum v
      | UintTy _ \<Rightarrow> packNum v
      | StringTy \<Rightarrow> (case v of RString s \<Rightarrow> Inr (packBytesSlice s (length s)) | _ \<Rightarrow> Inl PackPanic)
      | AddressTy \<Rightarrow>
          go_bind (mustArrayToByteSlice v) (\<lambda>v.
            go_bind (reflect_Bytes v) (\<lambda>b. Inr (LeftPadBytes b 32)))
      | BoolTy \<Rightarrow>
          (case v of RBool b \<Rightarrow> Inr (be_bytes 32 (if b then 1 else 0)) | _ \<Rightarrow> Inl PackPanic)
      | BytesTy \<Rightarrow>
          go_bind (mustArrayToByteSlice v) (\<lambda>v.
            case v of
              RSlice k vs \<Rightarrow>
                if k \<noteq> KUint 8 then Inl NotByteSlice
                else Inr (packBytesSlice (map byte_of vs) (length vs))
            | _ \<Rightarrow> Inl NotByteSlice)
      | FixedBytesTy _ \<Rightarrow>
          go_bind (mustArrayToByteSlice v) (\<lambda>v.
            go_bind (reflect_Bytes v) (\<lambda>b. Inr (RightPadBytes b 32)))
      | FunctionTy \<Rightarrow>
          go_bind (mustArrayToByteSlice v) (\<lambda>v.
            go_bind (reflect_Bytes v) (\<lambda>b. Inr (RightPadBytes b 32)))
      | _ \<Rightarrow> Inl UnknownElement)"

section \<open>Names of struct fields\<close>

text \<open>
  \<open>strings.ToUpper\<close> of a one-byte string: a byte that is not ASCII is not valid UTF-8 on its
  own and becomes the replacement character.
\<close>

definition ToUpper_first :: "char \<Rightarrow> string" where
  "ToUpper_first c =
     (if char_in (CHR ''a'') (CHR ''z'') c then [char_of (of_char c - 32 :: nat)]
      else if (of_char c :: nat) < 128 then [c]
      else [CHR 0xEF, CHR 0xBF, CHR 0xBD])"

fun capitalise :: "string \<Rightarrow> string" where
  "capitalise [] = []"
| "capitalise (c # cs) = ToUpper_first c @ cs"

definition ToCamelCase :: "string \<Rightarrow> string" where
  "ToCamelCase s = concat (map capitalise (Split s (CHR ''_'')))"

text \<open>
  \<open>overloadedArgName\<close>: the candidates after the first are tried in turn; one of the first
  \<open>length names + 1\<close> is free (\<open>overloadedArgName_found\<close>).
\<close>

definition overloadedArgName :: "string \<Rightarrow> string list \<Rightarrow> string option" where
  "overloadedArgName rawName names =
     (let fieldName = ToCamelCase rawName
      in if fieldName = [] then None
         else if fieldName \<notin> set names then Some fieldName
         else find (\<lambda>n. n \<notin> set names)
                (map (\<lambda>idx. fieldName @ show_nat idx) [0..<length names + 1]))"

text \<open>The field names \<open>NewType\<close> gives to the components of a tuple, in order.\<close>

fun tuple_fields :: "string list \<Rightarrow> string list \<Rightarrow> string list option" where
  "tuple_fields names [] = Some []"
| "tuple_fields names (r # rs) =
     (case overloadedArgName r names of
        None \<Rightarrow> None
      | Some n \<Rightarrow> map_option ((#) n) (tuple_fields (names @ [n]) rs))"

definition FieldByName :: "(string \<times> string option \<times> go_value) list \<Rightarrow> string \<Rightarrow> go_value option" where
  "FieldByName fs n = map_option snd (map_of fs n)"

text \<open>
  \<open>mapArgNamesToStructFields\<close>. The two Go maps are functions with the zero value \<open>''''\<close> for
  an absent key, which is how the source reads them.
\<close>

type_synonym name_maps = "(string \<Rightarrow> string) \<times> (string \<Rightarrow> string)"

definition pair_names :: "string \<Rightarrow> string \<Rightarrow> name_maps \<Rightarrow> name_maps" where
  "pair_names arg field m = ((fst m)(arg := field), (snd m)(field := arg))"

fun match_tag :: "string \<Rightarrow> string \<Rightarrow> string list \<Rightarrow> name_maps \<Rightarrow> bool \<Rightarrow> (name_maps \<times> bool) pack_res" where
  "match_tag field tag [] m found = Inr (m, found)"
| "match_tag field tag (arg # args) m found =
     (if arg = tag
      then if fst m arg \<noteq> [] then Inl TagMapped
           else match_tag field tag args (pair_names arg field m) True
      else match_tag field tag args m found)"

definition tag_step :: "string list \<Rightarrow> string \<times> string option \<times> go_value \<Rightarrow> name_maps \<Rightarrow> name_maps pack_res" where
  "tag_step argNames f m =
     (let field = fst f
      in if take 1 field \<noteq> concat (map ToUpper_first (take 1 field)) then Inr m
         else case fst (snd f) of
                None \<Rightarrow> Inr m
              | Some tag \<Rightarrow>
                  if tag = [] then Inl EmptyTag
                  else go_bind (match_tag field tag argNames m False) (\<lambda>(m, found).
                         if \<not> found then Inl TagNotFound else Inr m))"

definition name_step ::
    "(string \<times> string option \<times> go_value) list \<Rightarrow> string \<Rightarrow> name_maps \<Rightarrow> name_maps pack_res" where
  "name_step fs argName m =
     (let field = ToCamelCase argName
      in if field = [] then Inl PurelyUnderscored
         else if fst m argName \<noteq> []
         then if fst m argName \<noteq> field \<and> snd m field = [] \<and> FieldByName fs field \<noteq> None
              then Inl MultipleVariables else Inr m
         else if snd m field \<noteq> [] then Inl MultipleOutputs
         else if FieldByName fs field \<noteq> None then Inr (pair_names argName field m)
         else Inr (fst m, (snd m)(field := argName)))"

definition mapArgNamesToStructFields ::
    "string list \<Rightarrow> (string \<times> string option \<times> go_value) list \<Rightarrow> (string \<Rightarrow> string) pack_res" where
  "mapArgNamesToStructFields argNames fs =
     go_bind (go_fold (tag_step argNames) fs ((\<lambda>_. []), (\<lambda>_. []))) (\<lambda>m.
       go_bind (go_fold (name_step fs) argNames m) (\<lambda>m. Inr (fst m)))"

section \<open>The encoder\<close>

text \<open>
  The loops return what they append to \<open>ret\<close> and to \<open>tail\<close>; a dynamic element puts its
  offset into the head and itself into the tail.
\<close>

definition head_tail :: "bool \<Rightarrow> nat \<Rightarrow> bytes \<Rightarrow> bytes \<times> bytes \<Rightarrow> bytes \<times> bytes" where
  "head_tail dyn offset val rest =
     (if dyn then (pack_len offset @ fst rest, val @ snd rest) else (val @ fst rest, snd rest))"

function pack :: "abi_type \<Rightarrow> go_value \<Rightarrow> bytes pack_res"
  and pack_elems :: "abi_type \<Rightarrow> go_value list \<Rightarrow> nat \<Rightarrow> (bytes \<times> bytes) pack_res"
  and pack_fields ::
    "abi_type list \<Rightarrow> string list \<Rightarrow> (string \<Rightarrow> string) \<Rightarrow> (string \<times> string option \<times> go_value) list \<Rightarrow>
       nat \<Rightarrow> (bytes \<times> bytes) pack_res" where
  "pack t v =
     go_bind (indirect v) (\<lambda>v.
       go_bind (typeCheck t v) (\<lambda>_.
         case t of
           SliceTy e \<Rightarrow>
             (case seq_parts v of
                None \<Rightarrow> Inl PackPanic
              | Some (_, vs) \<Rightarrow>
                  go_bind (pack_elems e vs (if isDynamicType e then getTypeSize e * length vs else 0))
                    (\<lambda>(ret, tail). Inr (pack_len (length vs) @ ret @ tail)))
         | ArrayTy _ e \<Rightarrow>
             (case seq_parts v of
                None \<Rightarrow> Inl PackPanic
              | Some (_, vs) \<Rightarrow>
                  go_bind (pack_elems e vs (if isDynamicType e then getTypeSize e * length vs else 0))
                    (\<lambda>(ret, tail). Inr (ret @ tail)))
         | TupleTy names elems \<Rightarrow>
             (case v of
                RStruct fs \<Rightarrow>
                  go_bind (mapArgNamesToStructFields names fs) (\<lambda>fieldmap.
                    go_bind (pack_fields elems names fieldmap fs (sum_list (map getTypeSize elems)))
                      (\<lambda>(ret, tail). Inr (ret @ tail)))
              | _ \<Rightarrow> Inl PackPanic)
         | _ \<Rightarrow> packElement t v))"
| "pack_elems e [] offset = Inr ([], [])"
| "pack_elems e (v # vs) offset =
     go_bind (pack e v) (\<lambda>val.
       go_bind (pack_elems e vs (if isDynamicType e then offset + length val else offset)) (\<lambda>rest.
         Inr (head_tail (isDynamicType e) offset val rest)))"
| "pack_fields [] names fieldmap fs offset = Inr ([], [])"
| "pack_fields (e # es) [] fieldmap fs offset = Inl PackPanic"
| "pack_fields (e # es) (r # rs) fieldmap fs offset =
     (case FieldByName fs (fieldmap r) of
        None \<Rightarrow> Inl FieldNotFound
      | Some v \<Rightarrow>
          go_bind (pack e v) (\<lambda>val.
            go_bind (pack_fields es rs fieldmap fs (if isDynamicType e then offset + length val else offset)) (\<lambda>rest.
              Inr (head_tail (isDynamicType e) offset val rest))))"
  by pat_completeness auto
termination
  by (relation "measures
        [\<lambda>x. case x of Inl (t, v) \<Rightarrow> 2 * size t
                 | Inr (Inl (e, vs, k)) \<Rightarrow> 2 * size e + 1
                 | Inr (Inr (es, rs, m, fs, k)) \<Rightarrow> 2 * size_list size es + 1,
         \<lambda>x. case x of Inl _ \<Rightarrow> 0 | Inr (Inl (e, vs, k)) \<Rightarrow> length vs | Inr (Inr (es, rs, m, fs, k)) \<Rightarrow> length es]")
    auto

declare pack.simps [simp del]

fun pack_args :: "Argument list \<Rightarrow> go_value list \<Rightarrow> nat \<Rightarrow> (bytes \<times> bytes) pack_res" where
  "pack_args (a # as) (v # vs) offset =
     go_bind (pack (arg_Type a) v) (\<lambda>val.
       go_bind (pack_args as vs (if isDynamicType (arg_Type a) then offset + length val else offset)) (\<lambda>rest.
         Inr (head_tail (isDynamicType (arg_Type a)) offset val rest)))"
| "pack_args _ _ offset = Inr ([], [])"

definition Pack :: "Argument list \<Rightarrow> go_value list \<Rightarrow> bytes pack_res" where
  "Pack arguments args =
     (if length args \<noteq> length arguments then Inl ArgumentCount
      else go_bind (pack_args arguments args (sum_list (map (\<lambda>a. getTypeSize (arg_Type a)) arguments)))
             (\<lambda>(ret, variableInput). Inr (ret @ variableInput)))"

record packing_ABI = ABI +
  Constructor :: Method

definition ABI_Pack :: "packing_ABI \<Rightarrow> string \<Rightarrow> go_value list \<Rightarrow> bytes pack_res" where
  "ABI_Pack abi name args =
     (if name = [] then Pack (m_Inputs (Constructor abi)) args
      else case map_of (Methods abi) name of
             None \<Rightarrow> Inl MethodNotFound
           | Some m \<Rightarrow> go_bind (Pack (m_Inputs m) args) (\<lambda>arguments. Inr (m_ID m @ arguments)))"

section \<open>Decoded values under reflection\<close>

text \<open>
  Packable types: arrays and tuples are not empty, fixed byte arrays fit into a word, and the
  field names of a tuple stay distinct when they are turned into Go names.
\<close>

definition names_ok :: "string list \<Rightarrow> bool" where
  "names_ok names \<longleftrightarrow> distinct (map ToCamelCase names) \<and> [] \<notin> set (map ToCamelCase names)"

primrec packable :: "abi_type \<Rightarrow> bool" where
  "packable (IntTy n) = True"
| "packable (UintTy n) = True"
| "packable BoolTy = True"
| "packable StringTy = True"
| "packable (SliceTy e) = packable e"
| "packable (ArrayTy n e) = (0 < n \<and> packable e)"
| "packable (TupleTy names es) =
     (es \<noteq> [] \<and> length names = length es \<and> names_ok names \<and> list_all id (map packable es))"
| "packable AddressTy = True"
| "packable (FixedBytesTy n) = (n \<le> 32)"
| "packable BytesTy = True"
| "packable HashTy = False"
| "packable FixedPointTy = False"
| "packable FunctionTy = True"

definition rbytes :: "bytes \<Rightarrow> go_value list" where
  "rbytes b = map (\<lambda>x. RUint 8 (unat x)) b"

text \<open>\<open>reflect.ValueOf\<close> of what the decoder returns for a type.\<close>

primrec reflect_value :: "abi_type \<Rightarrow> abi_value \<Rightarrow> go_value" where
  "reflect_value (IntTy n) v = (case v of VInt w k \<Rightarrow> RInt w k | VBig i \<Rightarrow> RBig i | _ \<Rightarrow> RInvalid)"
| "reflect_value (UintTy n) v = (case v of VUint w k \<Rightarrow> RUint w k | VBig i \<Rightarrow> RBig i | _ \<Rightarrow> RInvalid)"
| "reflect_value BoolTy v = (case v of VBool b \<Rightarrow> RBool b | _ \<Rightarrow> RInvalid)"
| "reflect_value StringTy v = (case v of VString s \<Rightarrow> RString s | _ \<Rightarrow> RInvalid)"
| "reflect_value (SliceTy e) v =
     (case v of VSlice vs \<Rightarrow> RSlice (type_kind e) (map (reflect_value e) vs) | _ \<Rightarrow> RInvalid)"
| "reflect_value (ArrayTy n e) v =
     (case v of VArray vs \<Rightarrow> RArray (type_kind e) (map (reflect_value e) vs) | _ \<Rightarrow> RInvalid)"
| "reflect_value (TupleTy names es) v =
     (case (v, tuple_fields [] names) of
        (VTuple vs, Some ns) \<Rightarrow>
          RStruct (zip ns (map (Pair None) (map2 (\<lambda>f v. f v) (map reflect_value es) vs)))
      | _ \<Rightarrow> RInvalid)"
| "reflect_value AddressTy v =
     (case v of VAddress a \<Rightarrow> RArray (KUint 8) (rbytes (Address_Bytes a)) | _ \<Rightarrow> RInvalid)"
| "reflect_value (FixedBytesTy n) v =
     (case v of VFixedBytes b \<Rightarrow> RArray (KUint 8) (rbytes b) | _ \<Rightarrow> RInvalid)"
| "reflect_value BytesTy v = (case v of VBytes b \<Rightarrow> RSlice (KUint 8) (rbytes b) | _ \<Rightarrow> RInvalid)"
| "reflect_value HashTy v =
     (case v of VHash h \<Rightarrow> RArray (KUint 8) (rbytes (Hash_Bytes h)) | _ \<Rightarrow> RInvalid)"
| "reflect_value FixedPointTy v = RInvalid"
| "reflect_value FunctionTy v =
     (case v of VFunction f \<Rightarrow> RArray (KUint 8) (rbytes f) | _ \<Rightarrow> RInvalid)"

abbreviation reflect_values :: "abi_type list \<Rightarrow> abi_value list \<Rightarrow> go_value list" where
  "reflect_values ts vs \<equiv> map2 (\<lambda>f v. f v) (map reflect_value ts) vs"

lemma map_byte_of_rbytes [simp]: "map byte_of (rbytes b) = b"
  by (induction b) (simp_all add: rbytes_def)

lemma length_rbytes [simp]: "length (rbytes b) = length b"
  by (simp add: rbytes_def)

lemma tuple_fields_camel:
  assumes "distinct (names @ map ToCamelCase rs)" and "[] \<notin> set (map ToCamelCase rs)"
  shows "tuple_fields names rs = Some (map ToCamelCase rs)"
  using assms
proof (induction rs arbitrary: names)
  case (Cons r rs)
  have "overloadedArgName r names = Some (ToCamelCase r)"
    using Cons.prems by (auto simp: overloadedArgName_def Let_def)
  with Cons.IH [of "names @ [ToCamelCase r]"] Cons.prems show ?case by auto
qed simp

lemma tuple_fields_ok: "names_ok names \<Longrightarrow> tuple_fields [] names = Some (map ToCamelCase names)"
  by (rule tuple_fields_camel) (auto simp: names_ok_def)

lemma reflect_value_kind:
  assumes "packable t" and "val_ok t v"
  shows "kind_of (reflect_value t v) = type_kind t" and "indirect (reflect_value t v) = Inr (reflect_value t v)"
  using assms
  by (cases t; auto simp: reflectIntType_def tuple_fields_ok split: abi_value.splits)+

lemma reflect_value_sliceTypeCheck:
  "packable t \<Longrightarrow> val_ok t v \<Longrightarrow> is_seq_type t \<Longrightarrow> sliceTypeCheck t (reflect_value t v) = Inr ()"
proof (induction t arbitrary: v)
  case (SliceTy e)
  then show ?case by (auto simp: elem_kind_check_def hd_map list_all_iff split: abi_value.splits)
next
  case (ArrayTy n e)
  then show ?case by (auto simp: elem_kind_check_def hd_map list_all_iff split: abi_value.splits)
qed auto

lemma reflect_value_typeCheck:
  assumes "packable t" and "val_ok t v"
  shows "typeCheck t (reflect_value t v) = Inr ()"
  using reflect_value_sliceTypeCheck [OF assms] reflect_value_kind(1) [OF assms] assms
  by (cases t) (auto simp: typeCheck_def split: abi_value.splits)

lemma FieldByName_camel:
  assumes "map fst fs = map ToCamelCase names" and "names_ok names" and "i < length names"
  shows "FieldByName fs (ToCamelCase (names ! i)) = Some (snd (snd (fs ! i)))"
proof -
  have l: "length fs = length names" using assms(1) by (metis length_map)
  have "fst (fs ! i) = ToCamelCase (names ! i)"
    using assms(1,3) l by (metis nth_map)
  then have "(ToCamelCase (names ! i), snd (fs ! i)) \<in> set fs"
    using assms(3) l by (metis nth_mem prod.collapse)
  moreover have "distinct (map fst fs)" using assms(1,2) by (simp add: names_ok_def)
  ultimately show ?thesis by (simp add: FieldByName_def)
qed

lemma tag_rounds_untagged:
  "\<forall>f \<in> set fs. fst (snd f) = None \<Longrightarrow> go_fold (tag_step names) fs m = Inr m"
  by (induction fs) (auto simp: tag_step_def Let_def)

lemma name_rounds:
  assumes "distinct (map ToCamelCase ns)" and "[] \<notin> set (map ToCamelCase ns)"
    and "\<And>n. n \<in> set ns \<Longrightarrow> FieldByName fs (ToCamelCase n) \<noteq> None"
    and "\<And>n. n \<in> set ns \<Longrightarrow> fst m n = [] \<and> snd m (ToCamelCase n) = []"
  shows "\<exists>m'. go_fold (name_step fs) ns m = Inr m' \<and>
           (\<forall>n. fst m' n = (if n \<in> set ns then ToCamelCase n else fst m n))"
  using assms
proof (induction ns arbitrary: m)
  case (Cons n ns)
  let ?m = "pair_names n (ToCamelCase n) m"
  have "name_step fs n m = Inr ?m" using Cons.prems by (auto simp: name_step_def Let_def)
  moreover have "\<exists>m'. go_fold (name_step fs) ns ?m = Inr m' \<and>
      (\<forall>k. fst m' k = (if k \<in> set ns then ToCamelCase k else fst ?m k))"
    using Cons.prems by (intro Cons.IH) (auto simp: pair_names_def, metis image_eqI)
  ultimately show ?case by (auto simp: pair_names_def)
qed simp

lemma mapArgNames_camel:
  assumes "map fst fs = map ToCamelCase names" and "names_ok names" and "\<forall>f \<in> set fs. fst (snd f) = None"
  shows "\<exists>m. mapArgNamesToStructFields names fs = Inr m \<and> (\<forall>n \<in> set names. m n = ToCamelCase n)"
proof -
  have "FieldByName fs (ToCamelCase n) \<noteq> None" if "n \<in> set names" for n
    using that FieldByName_camel [OF assms(1,2)] by (auto simp: in_set_conv_nth)
  then have "\<exists>m. go_fold (name_step fs) names (\<lambda>_. [], \<lambda>_. []) = Inr m \<and>
      (\<forall>n. fst m n = (if n \<in> set names then ToCamelCase n else fst (\<lambda>_::string. []::string, \<lambda>_::string. []::string) n))"
    using assms(2) by (intro name_rounds) (auto simp: names_ok_def)
  then show ?thesis using tag_rounds_untagged [OF assms(3)]
    by (auto simp: mapArgNamesToStructFields_def)
qed

section \<open>What a word encodes\<close>

lemma U256Bytes_mod: "U256Bytes n = be_bytes 32 (nat (n mod 2 ^ 256))"
  using take_bit_eq_mask [of 256 n] by (simp add: U256Bytes_def take_bit_eq_mod mask_eq_exp_minus_1)

lemma length_U256Bytes [simp]: "length (U256Bytes n) = 32"
  by (simp add: U256Bytes_def)

lemma be_val_U256Bytes: "int (be_val (U256Bytes n)) = n mod 2 ^ 256"
proof -
  have "nat (n mod 2 ^ 256) < 256 ^ 32"
    using pos_mod_bound [of "2 ^ 256" n] by (simp add: nat_less_iff)
  then show ?thesis by (simp add: U256Bytes_mod be_val_be_bytes)
qed

lemma length_pack_len [simp]: "length (pack_len n) = 32"
  by (simp add: pack_len_def)

lemma be_val_pack_len: "n < 2 ^ 63 \<Longrightarrow> be_val (pack_len n) = n"
  using be_val_U256Bytes [of "int n"] unfolding pack_len_def by simp

lemma be_val_drop: "k \<le> length b \<Longrightarrow> be_val (drop (length b - k) b) = be_val b mod 256 ^ k"
proof (induction k arbitrary: b)
  case (Suc k)
  then obtain b' x where b: "b = b' @ [x]" by (cases b rule: rev_cases) auto
  have "unat x < 256" using word_unat_less [of x] by simp
  then have "(be_val b' * 256 + unat x) mod (256 * 256 ^ k) = 256 * (be_val b' mod 256 ^ k) + unat x"
    by (simp add: mod_mult2_eq)
  with Suc.IH [of b'] Suc.prems show ?case by (simp add: b mult.commute)
qed simp

lemma int_mod_mod_256: "k \<le> 256 \<Longrightarrow> (i :: int) mod 2 ^ 256 mod 2 ^ k = i mod 2 ^ k"
  by (intro mod_mod_cancel le_imp_power_dvd)

lemma signed_of_mod:
  assumes "0 < w" and "- (2 ^ (w - 1)) \<le> k" and "k < 2 ^ (w - 1)" and "int n = k mod 2 ^ w"
  shows "signed_of w n = k"
proof -
  have w: "(2::int) ^ w = 2 * 2 ^ (w - 1)" using assms(1) by (cases w) auto
  show ?thesis
  proof (cases "0 \<le> k")
    case True
    then have "int n = k" using assms(3,4) w by simp
    then show ?thesis using assms(3)
      by (simp add: signed_of_def) (metis of_nat_less_iff of_nat_numeral of_nat_power)
  next
    case False
    then have "(k + 2 ^ w) mod 2 ^ w = k + 2 ^ w" using assms(2,3) w by (intro mod_pos_pos_trivial) auto
    then have n: "int n = k + 2 ^ w" using assms(4) by simp
    have "\<not> n < 2 ^ (w - 1)"
    proof
      assume "n < 2 ^ (w - 1)"
      then have "int n < 2 ^ (w - 1)" by (metis of_nat_less_iff of_nat_numeral of_nat_power)
      with n w assms(2) show False by simp
    qed
    with n show ?thesis by (simp add: signed_of_def)
  qed
qed

lemma word_tail:
  assumes "w \<in> {8, 16, 32, 64}"
  shows "int (be_val (drop (length (U256Bytes i) - w div 8) (U256Bytes i))) = i mod 2 ^ w"
proof -
  have k: "w div 8 \<le> 32" "(256::int) ^ (w div 8) = 2 ^ w" "w \<le> 256" using assms by auto
  have "be_val (drop (length (U256Bytes i) - w div 8) (U256Bytes i)) = be_val (U256Bytes i) mod 256 ^ (w div 8)"
    using k(1) by (intro be_val_drop) simp
  then have "int (be_val (drop (length (U256Bytes i) - w div 8) (U256Bytes i))) = i mod 2 ^ 256 mod 2 ^ w"
    using k(2) be_val_U256Bytes [of i] by (simp add: zmod_int)
  then show ?thesis using int_mod_mod_256 [OF k(3)] by simp
qed

lemma ReadInteger_Uint:
  assumes "val_ok (UintTy n) v"
  shows "\<exists>i. packNum (reflect_value (UintTy n) v) = Inr (U256Bytes i) \<and> ReadInteger (UintTy n) (U256Bytes i) = v"
proof (cases "n \<in> {8, 16, 32, 64}")
  case True
  then obtain k where v: "v = VUint n k" "k < 2 ^ n" using assms by (auto split: abi_value.splits)
  have "int k mod 2 ^ n = int k" using v(2) by (metis mod_less of_nat_mod of_nat_numeral of_nat_power)
  then have "be_val (drop (length (U256Bytes (int k)) - n div 8) (U256Bytes (int k))) = k"
    using word_tail [OF True, of "int k"] by (metis of_nat_eq_iff)
  then have "ReadInteger (UintTy n) (U256Bytes (int k)) = v"
    using True unfolding ReadInteger_def v(1) by (simp only: abi_type.case if_True)
  then show ?thesis using v(1) by (intro exI [of _ "int k"]) simp
next
  case False
  then obtain i where v: "v = VBig i" "0 \<le> i" "i < 2 ^ 256" using assms by (auto split: abi_value.splits)
  then show ?thesis using False be_val_U256Bytes [of i]
    by (intro exI [of _ i]) (simp add: ReadInteger_def)
qed

lemma ReadInteger_Int:
  assumes "val_ok (IntTy n) v"
  shows "\<exists>i. packNum (reflect_value (IntTy n) v) = Inr (U256Bytes i) \<and> ReadInteger (IntTy n) (U256Bytes i) = v"
proof (cases "n \<in> {8, 16, 32, 64}")
  case True
  then obtain k where v: "v = VInt n k" "- (2 ^ (n - 1)) \<le> k" "k < 2 ^ (n - 1)"
    using assms by (auto split: abi_value.splits)
  have "0 < n" using True by auto
  from signed_of_mod [OF this v(2,3) word_tail [OF True]]
  have "ReadInteger (IntTy n) (U256Bytes k) = v"
    using True unfolding ReadInteger_def v(1) by (simp only: abi_type.case if_True)
  then show ?thesis using v(1) by (intro exI [of _ k]) simp
next
  case False
  then obtain i where v: "v = VBig i" "- (2 ^ 255) \<le> i" "i < 2 ^ 255"
    using assms by (auto split: abi_value.splits)
  have "(i + 2 ^ 256) mod 2 ^ 256 = i + 2 ^ 256" if "i < 0"
    using that v(2) by (intro mod_pos_pos_trivial) auto
  then have r: "i mod 2 ^ 256 = (if i < 0 then i + 2 ^ 256 else i)" using v(3) by auto
  moreover have "bit (i mod 2 ^ 256) 255 \<longleftrightarrow> i < 0"
    using bit_255_iff [of "i mod 2 ^ 256"] r v(2,3) by auto
  ultimately show ?thesis using False v(1) be_val_U256Bytes [of i]
    by (intro exI [of _ i]) (simp add: ReadInteger_def Let_def)
qed

section \<open>Heads and tails\<close>

text \<open>
  The three encoding loops lay out their parts in the same way; \<open>parts_layout\<close> is that list of
  heads and tails, and \<open>reads_back\<close> says that a part is read back wherever it stands: in place
  for a static type, through the offset in its head for a dynamic one.
\<close>

fun parts_layout :: "(bool \<times> bytes) list \<Rightarrow> nat \<Rightarrow> bytes \<times> bytes" where
  "parts_layout [] offset = ([], [])"
| "parts_layout ((d, b) # xs) offset = head_tail d offset b (parts_layout xs (if d then offset + length b else offset))"

definition reads_back :: "abi_type \<Rightarrow> bytes \<Rightarrow> abi_value \<Rightarrow> bool" where
  "reads_back t enc v \<longleftrightarrow>
     (if isDynamicType t
      then 32 \<le> length enc \<and>
        (\<forall>index pre suf. length (pre @ enc @ suf) < 2 ^ 63 \<longrightarrow> index + 32 \<le> length (pre @ enc @ suf) \<longrightarrow>
           be_val (abi_word (pre @ enc @ suf) index) = length pre \<longrightarrow>
           toGoType index t (pre @ enc @ suf) = Inr v)
      else length enc = getTypeSize t \<and>
        (\<forall>pre suf. length (pre @ enc @ suf) < 2 ^ 63 \<longrightarrow> toGoType (length pre) t (pre @ enc @ suf) = Inr v))"

lemma reads_back_size: "reads_back t enc v \<Longrightarrow> isDynamicType t \<or> length enc = getTypeSize t"
  by (simp add: reads_back_def split: if_splits)

abbreviation part :: "abi_type \<Rightarrow> bytes \<Rightarrow> bool \<times> bytes" where
  "part t enc \<equiv> (isDynamicType t, enc)"

lemma getTypeSize_dynamic: "isDynamicType t \<Longrightarrow> getTypeSize t = 32"
  by (cases t) auto

lemma dvd_sum_list: "\<forall>x \<in> set xs. d dvd x \<Longrightarrow> (d :: nat) dvd sum_list xs"
  by (induction xs) auto

lemma getTypeSize_packable: "packable t \<Longrightarrow> 32 \<le> getTypeSize t \<and> 32 dvd getTypeSize t"
proof (induction t)
  case (TupleTy names es)
  have "32 dvd sum_list (map getTypeSize es)"
    using TupleTy by (intro dvd_sum_list) (auto simp: list_all_iff)
  moreover have "getTypeSize (hd es) \<le> sum_list (map getTypeSize es)" and "32 \<le> getTypeSize (hd es)"
    using TupleTy by (auto simp: list_all_iff intro!: member_le_sum_list)
  ultimately show ?case by auto
next
  case (ArrayTy n e)
  then have "1 * 32 \<le> n * getTypeSize e" by (intro mult_le_mono) auto
  with ArrayTy show ?case by auto
qed auto

lemma abi_word_at: "length w = 32 \<Longrightarrow> abi_word (pre @ w @ suf) (length pre) = w"
  by (simp add: abi_word_def)

text \<open>One step of a decoding loop over a parts_layout: the part at the head is read, and what is left is the parts_layout of the other parts.\<close>

lemma layout_step:
  assumes "reads_back t enc v" and "L = parts_layout xs (if isDynamicType t then off + length enc else off)"
    and "head_tail (isDynamicType t) off enc L = (ret, tail)" and "B = hp @ ret @ tp @ tail @ suf"
    and "isDynamicType t \<longrightarrow> length (hp @ ret @ tp) = off" and "length B < 2 ^ 63"
  shows "toGoType (length hp) t B = Inr v" (is ?A)
    and "\<exists>hp' tp'. B = hp' @ fst L @ tp' @ snd L @ suf \<and> length hp' = length hp + getTypeSize t \<and>
           length (hp' @ fst L @ tp') = length (hp @ ret @ tp) + (if isDynamicType t then length enc else 0)" (is ?C)
proof -
  have "?A \<and> ?C"
  proof (cases "isDynamicType t")
    case True
    then have rt: "ret = pack_len off @ fst L" "tail = enc @ snd L" using assms(3) by (auto simp: head_tail_def)
    have B: "B = (hp @ ret @ tp) @ enc @ (snd L @ suf)" using assms(4) rt by simp
    have off: "length (hp @ ret @ tp) = off" using True assms(5) by simp
    have "abi_word B (length hp) = pack_len off" using assms(4) rt by (simp add: abi_word_def)
    then have "be_val (abi_word B (length hp)) = off"
      using B off assms(6) by (simp only: be_val_pack_len length_append)
    moreover have "length hp + 32 \<le> length B" using assms(4) rt by simp
    ultimately have ?A using assms(1,6) True B off unfolding reads_back_def by (metis (no_types, lifting))
    moreover have ?C using rt assms(4) True getTypeSize_dynamic [OF True]
      by (intro exI [of _ "hp @ pack_len off"] exI [of _ "tp @ enc"]) simp
    ultimately show ?thesis ..
  next
    case False
    then have rt: "ret = enc @ fst L" "tail = snd L" using assms(3) by (auto simp: head_tail_def)
    have B: "B = hp @ enc @ (fst L @ tp @ snd L @ suf)" using assms(4) rt by simp
    have ?A using assms(1,6) False B unfolding reads_back_def by auto
    moreover have ?C using rt B False assms(1)
      by (intro exI [of _ "hp @ enc"] exI [of _ tp]) (auto simp: reads_back_def)
    ultimately show ?thesis ..
  qed
  then show ?A and ?C by auto
qed

lemma unpack_elems_layout:
  assumes "list_all2 (reads_back e) encs vs" and "parts_layout (map (part e) encs) off = (ret, tail)"
    and "B = hp @ ret @ tp @ tail @ suf" and "isDynamicType e \<longrightarrow> length (hp @ ret @ tp) = off"
    and "length B < 2 ^ 63"
  shows "unpack_elems (length hp) e B (length vs) = Inr vs"
  using assms
proof (induction encs vs arbitrary: off ret tail hp tp rule: list_all2_induct)
  case (Cons enc encs v vs)
  let ?L = "parts_layout (map (part e) encs) (if isDynamicType e then off + length enc else off)"
  note step = layout_step [OF Cons.hyps(1) refl, of off "map (part e) encs" ret tail B hp tp suf]
  have "head_tail (isDynamicType e) off enc ?L = (ret, tail)" using Cons.prems(1) by simp
  note st = step [OF this Cons.prems(2,3,4)]
  then obtain hp' tp' where *: "B = hp' @ fst ?L @ tp' @ snd ?L @ suf" "length hp' = length hp + getTypeSize e"
    "length (hp' @ fst ?L @ tp') = length (hp @ ret @ tp) + (if isDynamicType e then length enc else 0)" by blast
  have "unpack_elems (length hp') e B (length vs) = Inr vs"
    using *(1,3) Cons.prems(3,4) by (intro Cons.IH [of _ "fst ?L" "snd ?L" hp' tp']) auto
  with st(1) *(2) show ?case by simp
qed simp

lemma virtualArgs_step_size:
  "packable t \<Longrightarrow> virtualArgs_step t + 1 = int (getTypeSize t div 32)"
  using getTypeSize_dynamic [of t] by (cases t) (auto simp: virtualArgs_step_def)

lemma forTupleUnpack_layout:
  assumes "list_all2 (\<lambda>t (enc, v). packable t \<and> reads_back t enc v) ts (zip encs vs)"
    and "length encs = length vs" and "parts_layout (map2 part ts encs) off = (ret, tail)"
    and "B = hp @ ret @ tp @ tail @ suf" and "length (hp @ ret @ tp) = off"
    and "length B < 2 ^ 63" and "int (length hp) = (int index + va) * 32"
  shows "forTupleUnpack ts B index va = Inr vs"
  using assms
proof (induction ts arbitrary: encs vs off ret tail hp tp index va)
  case (Cons t ts)
  then obtain enc encs' v vs' where e: "encs = enc # encs'" "vs = v # vs'"
    by (cases encs; cases vs) auto
  let ?o = "if isDynamicType t then off + length enc else off"
  let ?L = "parts_layout (map2 part ts encs') ?o"
  have t: "packable t" and d: "reads_back t enc v" using Cons.prems(1) by (auto simp: e)
  have "head_tail (isDynamicType t) off enc ?L = (ret, tail)" using Cons.prems(3) by (simp add: e)
  note st = layout_step [OF d refl this Cons.prems(4) impI [OF Cons.prems(5)] Cons.prems(6)]
  then obtain hp' tp' where *: "B = hp' @ fst ?L @ tp' @ snd ?L @ suf" "length hp' = length hp + getTypeSize t"
    "length (hp' @ fst ?L @ tp') = length (hp @ ret @ tp) + (if isDynamicType t then length enc else 0)" by blast
  have sz: "int (getTypeSize t) = (virtualArgs_step t + 1) * 32"
    using virtualArgs_step_size [OF t] getTypeSize_packable [OF t] by (auto elim: dvdE)
  have "forTupleUnpack ts B (index + 1) (va + virtualArgs_step t) = Inr vs'"
  proof (rule Cons.IH [of encs' vs' ?o "fst ?L" "snd ?L" hp' tp'])
    show "length (hp' @ fst ?L @ tp') = ?o" using *(3) Cons.prems(5) by simp
    show "int (length hp') = (int (index + 1) + (va + virtualArgs_step t)) * 32"
      using Cons.prems(7) sz by (simp add: *(2) algebra_simps)
  qed (use *(1) Cons.prems(1,2,6) in \<open>auto simp: e\<close>)
  moreover have "nat (int index + va) * 32 = length hp"
    using arg_cong [OF Cons.prems(7), of nat] by (simp add: nat_mult_distrib mult.commute)
  ultimately show ?case using st(1) by (simp add: e)
qed auto

lemma length_layout:
  assumes "list_all2 (\<lambda>t enc. isDynamicType t \<or> length enc = getTypeSize t) ts encs"
  shows "length (fst (parts_layout (map2 part ts encs) off)) = sum_list (map getTypeSize ts)"
  using assms
  by (induction ts encs arbitrary: off rule: list_all2_induct)
    (auto simp: head_tail_def getTypeSize_dynamic)

lemma length_layout_elems:
  assumes "list_all2 (reads_back e) encs vs" and "parts_layout (map (part e) encs) off = (ret, tail)"
  shows "length ret = length vs * getTypeSize e"
  using assms
proof (induction encs vs arbitrary: off ret tail rule: list_all2_induct)
  case (Cons enc encs v vs)
  obtain r t where "parts_layout (map (part e) encs) (if isDynamicType e then off + length enc else off) = (r, t)"
    by fastforce
  with Cons.IH [OF this] Cons show ?case
    by (auto simp: head_tail_def reads_back_def getTypeSize_dynamic split: if_splits)
qed simp

lemma layout_static_tail: "\<forall>x \<in> set xs. \<not> fst x \<Longrightarrow> snd (parts_layout xs off) = []"
  by (induction xs off rule: parts_layout.induct) (auto simp: head_tail_def)

section \<open>Every type is read back\<close>

lemma reads_back_leaf:
  assumes "length w = 32" and "\<not> isDynamicType t" and "getTypeSize t = 32"
    and "\<And>i B. abi_word B i = w \<Longrightarrow> i + 32 \<le> length B \<Longrightarrow> toGoType i t B = Inr v"
  shows "reads_back t w v"
  using assms abi_word_at [OF assms(1)] by (simp add: reads_back_def)

lemma lengthPrefixPointsTo_at:
  assumes "B = pre @ pack_len l @ body @ suf" and "length B < 2 ^ 63" and "l \<le> length body"
    and "be_val (abi_word B index) = length pre"
  shows "lengthPrefixPointsTo index B = Inr (length pre + 32, l)"
proof -
  have l: "l < 2 ^ 63" using assms(1-3) by simp
  have "abi_word B (length pre) = pack_len l" using assms(1) by (simp add: abi_word_def)
  then have "be_val (abi_word B (length pre)) = l" by (simp only: be_val_pack_len [OF l])
  then show ?thesis using assms by (simp add: lengthPrefixPointsTo_def Let_def)
qed

lemma length_RightPadBytes: "length (RightPadBytes b n) = max n (length b)"
  by (simp add: RightPadBytes_def)

lemma take_RightPadBytes: "k \<le> length b \<Longrightarrow> take k (RightPadBytes b n) = take k b"
  by (simp add: RightPadBytes_def)

lemma reads_back_text:
  assumes "t = StringTy \<and> v = VString s \<or> t = BytesTy \<and> v = VBytes s"
  shows "reads_back t (packBytesSlice s (length s)) v"
proof -
  have "toGoType index t B = Inr v"
    if B: "B = pre @ packBytesSlice s (length s) @ suf" "length B < 2 ^ 63" "index + 32 \<le> length B"
      "be_val (abi_word B index) = length pre" for B index pre suf
  proof -
    have "lengthPrefixPointsTo index B = Inr (length pre + 32, length s)"
      using B by (intro lengthPrefixPointsTo_at [of _ _ _ "RightPadBytes s ((length s + 31) div 32 * 32)" suf])
        (simp_all add: packBytesSlice_def length_RightPadBytes)
    then show ?thesis using assms B(1,3)
      by (auto simp: toGoType.simps tail_begin_def packBytesSlice_def take_RightPadBytes length_RightPadBytes)
  qed
  then show ?thesis using assms by (auto simp: reads_back_def packBytesSlice_def)
qed

lemma reads_back_slice:
  assumes "list_all2 (reads_back e) encs vs" and "packable e"
    and "parts_layout (map (part e) encs) (if isDynamicType e then getTypeSize e * length vs else 0) = (ret, tail)"
  shows "reads_back (SliceTy e) (pack_len (length vs) @ ret @ tail) (VSlice vs)"
proof -
  have lr: "length ret = length vs * getTypeSize e" by (rule length_layout_elems [OF assms(1,3)])
  have ge: "32 * length vs \<le> length ret" using getTypeSize_packable [OF assms(2)] by (simp add: lr)
  have "toGoType index (SliceTy e) B = Inr (VSlice vs)"
    if B: "B = pre @ (pack_len (length vs) @ ret @ tail) @ suf" "length B < 2 ^ 63" "index + 32 \<le> length B"
      "be_val (abi_word B index) = length pre" for B index pre suf
  proof -
    have "lengthPrefixPointsTo index B = Inr (length pre + 32, length vs)"
      using B ge by (intro lengthPrefixPointsTo_at [of _ _ _ "ret @ tail" suf]) auto
    moreover have "unpack_elems (length ([]::bytes)) e (ret @ tail @ suf) (length vs) = Inr vs"
      using B(1,2) lr
      by (intro unpack_elems_layout [OF assms(1,3), of _ "[]" "[]" suf]) (auto simp: getTypeSize_dynamic)
    ultimately show ?thesis using B(1,3) ge by (simp add: toGoType.simps tail_begin_def)
  qed
  then show ?thesis by (auto simp: reads_back_def)
qed

lemma be_val_low_word:
  assumes "length w = 32" and "be_val w < 2 ^ 63"
  shows "be_val (drop (length w - 8) w) = be_val w"
  using be_val_drop [of 8 w] assms by simp

lemma reads_back_array:
  assumes "list_all2 (reads_back e) encs vs" and "packable e" and "vs \<noteq> []"
    and "parts_layout (map (part e) encs) (if isDynamicType e then getTypeSize e * length vs else 0) = (ret, tail)"
  shows "reads_back (ArrayTy (length vs) e) (ret @ tail) (VArray vs)"
proof -
  note sz = getTypeSize_packable [OF assms(2)]
  have lr: "length ret = length vs * getTypeSize e" by (rule length_layout_elems [OF assms(1,4)])
  have ge: "32 * length vs \<le> length ret" using sz by (simp add: lr)
  have ge32: "32 \<le> length ret" using ge assms(3) by (cases vs) auto
  have elems: "unpack_elems 0 e (ret @ tail @ suf) (length vs) = Inr vs" if "length (ret @ tail @ suf) < 2 ^ 63" for suf
    using unpack_elems_layout [OF assms(1,4), of "ret @ tail @ suf" "[]" "[]" suf] that lr
    by (auto simp: getTypeSize_dynamic)
  show ?thesis
  proof (cases "isDynamicType e")
    case True
    have "toGoType index (ArrayTy (length vs) e) B = Inr (VArray vs)"
      if B: "B = pre @ (ret @ tail) @ suf" "length B < 2 ^ 63" "index + 32 \<le> length B"
        "be_val (abi_word B index) = length pre" for B index pre suf
    proof -
      have l: "length (abi_word B index) = 32" using B(3) by (rule length_abi_word)
      have "be_val (drop (length (abi_word B index) - 8) (abi_word B index)) = length pre"
        using be_val_low_word [OF l] B by simp
      then show ?thesis using B elems [of suf] ge True by (simp add: toGoType.simps tail_begin_def Let_def)
    qed
    then show ?thesis using True ge32 by (auto simp: reads_back_def)
  next
    case False
    then have "tail = []" using layout_static_tail [of "map (part e) encs"] assms(4) by (auto dest: arg_cong [of _ _ snd])
    moreover have "length ret = getTypeSize (ArrayTy (length vs) e)" using lr False by (cases e) auto
    moreover have "toGoType (length pre) (ArrayTy (length vs) e) (pre @ ret @ suf) = Inr (VArray vs)"
      if "length (pre @ ret @ suf) < 2 ^ 63" for pre suf
      using that elems [of suf] ge ge32 False \<open>tail = []\<close> by (simp add: toGoType.simps tail_begin_def Let_def)
    ultimately show ?thesis using False by (auto simp: reads_back_def)
  qed
qed

lemma reads_back_tuple:
  assumes "list_all2 (\<lambda>t (enc, v). packable t \<and> reads_back t enc v) es (zip encs vs)" and "length encs = length vs"
    and "es \<noteq> []" and "parts_layout (map2 part es encs) (sum_list (map getTypeSize es)) = (ret, tail)"
  shows "reads_back (TupleTy names es) (ret @ tail) (VTuple vs)"
proof -
  let ?t = "TupleTy names es"
  have le: "length es = length encs" using assms(1,2) by (auto dest: list_all2_lengthD)
  have "list_all2 (\<lambda>t enc. isDynamicType t \<or> length enc = getTypeSize t) es encs"
    using assms(1,2) le reads_back_size by (fastforce simp: list_all2_conv_all_nth)
  from length_layout [OF this, of "sum_list (map getTypeSize es)"]
  have lr: "length ret = sum_list (map getTypeSize es)" by (simp add: assms(4))
  have "packable (hd es)" using assms(1,3) by (cases es; cases "zip encs vs") auto
  then have "32 \<le> getTypeSize (hd es)" using getTypeSize_packable by blast
  also have "\<dots> \<le> sum_list (map getTypeSize es)" using assms(3) by (auto intro!: member_le_sum_list)
  finally have ge32: "32 \<le> length ret" by (simp add: lr)
  have fields: "forTupleUnpack es (ret @ tail @ suf) 0 0 = Inr vs" if "length (ret @ tail @ suf) < 2 ^ 63" for suf
    using that lr by (intro forTupleUnpack_layout [OF assms(1,2,4), of _ "[]" "[]" suf]) auto
  show ?thesis
  proof (cases "isDynamicType ?t")
    case True
    have "toGoType index ?t B = Inr (VTuple vs)"
      if B: "B = pre @ (ret @ tail) @ suf" "length B < 2 ^ 63" "index + 32 \<le> length B"
        "be_val (abi_word B index) = length pre" for B index pre suf
      using B fields [of suf] True
      by (simp add: toGoType.simps tail_begin_def tuplePointsTo_def Let_def)
    then show ?thesis using True ge32 by (auto simp: reads_back_def simp del: isDynamicType.simps)
  next
    case False
    have "snd (parts_layout (map2 part es encs) (sum_list (map getTypeSize es))) = []"
      using False by (intro layout_static_tail) (auto simp: list_ex_iff dest!: set_zip_leftD)
    then have "tail = []" by (simp add: assms(4))
    moreover have "toGoType (length pre) ?t (pre @ ret @ suf) = Inr (VTuple vs)"
      if "length (pre @ ret @ suf) < 2 ^ 63" for pre suf
      using that fields [of suf] ge32 False \<open>tail = []\<close> by (simp add: toGoType.simps tail_begin_def Let_def)
    ultimately show ?thesis using False lr by (auto simp: reads_back_def)
  qed
qed

lemma pack_elems_layout:
  assumes "list_all2 (\<lambda>v enc. pack e v = Inr enc) vs encs"
  shows "pack_elems e vs off = Inr (parts_layout (map (part e) encs) off)"
  using assms by (induction vs encs arbitrary: off rule: list_all2_induct) auto

lemma pack_fields_layout:
  assumes "length ns = length es" and "length encs = length es"
    and "\<And>i. i < length es \<Longrightarrow> \<exists>v. FieldByName fs (fm (ns ! i)) = Some v \<and> pack (es ! i) v = Inr (encs ! i)"
  shows "pack_fields es ns fm fs off = Inr (parts_layout (map2 part es encs) off)"
  using assms
proof (induction es arbitrary: ns encs off)
  case (Cons e es)
  then obtain n ns' enc encs' where e: "ns = n # ns'" "encs = enc # encs'" by (cases ns; cases encs) auto
  have "pack_fields es ns' fm fs off' = Inr (parts_layout (map2 part es encs') off')" for off'
  proof (rule Cons.IH)
    show "\<exists>v. FieldByName fs (fm (ns' ! i)) = Some v \<and> pack (es ! i) v = Inr (encs' ! i)" if "i < length es" for i
      using Cons.prems(3) [of "Suc i"] that by (simp add: e)
  qed (use Cons.prems(1,2) in \<open>simp_all add: e\<close>)
  with Cons.prems(3) [of 0] show ?case by (auto simp: e)
qed simp

lemma reads_back_address: "reads_back AddressTy (LeftPadBytes (Address_Bytes a) 32) (VAddress a)"
proof (rule reads_back_leaf)
  have l: "length (Address_Bytes a) = 20" by (simp add: Address_Bytes_def)
  then show "length (LeftPadBytes (Address_Bytes a) 32) = 32" by (simp add: LeftPadBytes_def)
  have "BytesToAddress (LeftPadBytes (Address_Bytes a) 32) = BytesToAddress (Address_Bytes a)"
    using l by (simp add: BytesToAddress_def LeftPadBytes_def SetBytes_def)
  moreover have "BytesToAddress (Address_Bytes a) = a"
    by simp
  ultimately show "toGoType i AddressTy B = Inr (VAddress a)"
    if "abi_word B i = LeftPadBytes (Address_Bytes a) 32" "i + 32 \<le> length B" for i B
    using that by (simp add: toGoType.simps tail_begin_def)
qed simp_all

lemma reads_back_bool: "reads_back BoolTy (be_bytes 32 (if b then 1 else 0)) (VBool b)"
proof (rule reads_back_leaf)
  have "readBool (be_bytes 32 1) = Inr True" and "readBool (be_bytes 32 0) = Inr False" by code_simp+
  then show "toGoType i BoolTy B = Inr (VBool b)"
    if "abi_word B i = be_bytes 32 (if b then 1 else 0)" "i + 32 \<le> length B" for i B
    using that by (cases b) (simp_all add: toGoType.simps tail_begin_def)
qed simp_all

lemma take_drop_word: "n \<le> 32 \<Longrightarrow> take n (drop i B) = take n (abi_word B i)"
  by (simp add: abi_word_def min_def)

lemma reads_back_fixed: "length b = n \<Longrightarrow> n \<le> 32 \<Longrightarrow> reads_back (FixedBytesTy n) (RightPadBytes b 32) (VFixedBytes b)"
  by (rule reads_back_leaf)
    (auto simp: length_RightPadBytes toGoType.simps tail_begin_def ReadFixedBytes_def take_drop_word take_RightPadBytes)

lemma reads_back_function:
  assumes "length f = 24"
  shows "reads_back FunctionTy (RightPadBytes f 32) (VFunction f)"
proof (rule reads_back_leaf)
  have "RightPadBytes f 32 = f @ replicate 8 0" using assms by (simp add: RightPadBytes_def)
  then have "readFunctionType (RightPadBytes f 32) = Inr f"
    using assms be_val_zeros [of 8 "[]"] by (simp add: readFunctionType_def)
  then show "toGoType i FunctionTy B = Inr (VFunction f)"
    if "abi_word B i = RightPadBytes f 32" "i + 32 \<le> length B" for i B
    using that by (simp add: toGoType.simps tail_begin_def)
qed (use assms in \<open>simp_all add: length_RightPadBytes\<close>)

lemma reads_back_int:
  "ReadInteger (IntTy n) (U256Bytes i) = v \<Longrightarrow> reads_back (IntTy n) (U256Bytes i) v"
  "ReadInteger (UintTy n) (U256Bytes i) = v \<Longrightarrow> reads_back (UintTy n) (U256Bytes i) v"
  by (rule reads_back_leaf; simp add: toGoType.simps tail_begin_def)+

lemma pack_leaf:
  assumes "packable t" and "val_ok t v" and "\<not> is_seq_type t" and "\<not> is_tuple t"
  shows "pack t (reflect_value t v) = packElement t (reflect_value t v)"
  using assms by (cases t) (simp_all add: pack.simps reflect_value_kind(2) reflect_value_typeCheck del: reflect_value.simps)

lemma list_all2_choice:
  assumes "\<forall>v \<in> set vs. \<exists>enc. P v enc"
  obtains encs where "list_all2 P vs encs"
  using assms by (metis list_all2_all_nthI length_map nth_map nth_mem)

lemma pack_seq:
  assumes "\<And>v. packable e \<Longrightarrow> val_ok e v \<Longrightarrow> \<exists>enc. pack e (reflect_value e v) = Inr enc \<and> reads_back e enc v"
    and "packable e" and "list_all (val_ok e) vs"
  obtains encs where "list_all2 (reads_back e) encs vs"
    and "\<And>off. pack_elems e (map (reflect_value e) vs) off = Inr (parts_layout (map (part e) encs) off)"
proof -
  have "\<forall>v \<in> set vs. \<exists>enc. pack e (reflect_value e v) = Inr enc \<and> reads_back e enc v"
    using assms by (auto simp: list_all_iff)
  then obtain encs where e: "list_all2 (\<lambda>v enc. pack e (reflect_value e v) = Inr enc \<and> reads_back e enc v) vs encs"
    by (rule list_all2_choice)
  show ?thesis
  proof (rule that)
    show "list_all2 (reads_back e) encs vs" using e by (auto simp: list_all2_conv_all_nth)
    show "pack_elems e (map (reflect_value e) vs) off = Inr (parts_layout (map (part e) encs) off)" for off
      using e by (intro pack_elems_layout) (auto simp: list_all2_conv_all_nth)
  qed
qed

lemma pack_tuple:
  assumes ih: "\<And>e v. e \<in> set es \<Longrightarrow> packable e \<Longrightarrow> val_ok e v \<Longrightarrow> \<exists>enc. pack e (reflect_value e v) = Inr enc \<and> reads_back e enc v"
    and p: "packable (TupleTy names es)" and ok: "vals_ok es vs"
  shows "\<exists>enc. pack (TupleTy names es) (reflect_value (TupleTy names es) (VTuple vs)) = Inr enc \<and>
           reads_back (TupleTy names es) enc (VTuple vs)"
proof -
  let ?t = "TupleTy names es" and ?fs = "zip (map ToCamelCase names) (map (Pair None) (reflect_values es vs))"
  have n: "names_ok names" and l: "length names = length es" "length vs = length es"
    using p ok by (auto dest: list_all2_lengthD)
  have fst: "map fst ?fs = map ToCamelCase names" using l by simp
  have "\<forall>f \<in> set ?fs. fst (snd f) = None" by (auto dest!: set_zip_rightD)
  from mapArgNames_camel [OF fst n this] obtain fm where
    fm: "mapArgNamesToStructFields names ?fs = Inr fm" "\<forall>n \<in> set names. fm n = ToCamelCase n" by blast
  have "\<forall>i \<in> set [0..<length es]. \<exists>enc. pack (es ! i) (reflect_value (es ! i) (vs ! i)) = Inr enc \<and> reads_back (es ! i) enc (vs ! i)"
    using p ok l by (auto simp: list_all_length list_all2_conv_all_nth intro!: ih)
  then obtain encs where "list_all2 (\<lambda>i enc. pack (es ! i) (reflect_value (es ! i) (vs ! i)) = Inr enc \<and>
      reads_back (es ! i) enc (vs ! i)) [0..<length es] encs" by (rule list_all2_choice)
  then have e: "length encs = length es" "\<And>i. i < length es \<Longrightarrow>
      pack (es ! i) (reflect_value (es ! i) (vs ! i)) = Inr (encs ! i) \<and> reads_back (es ! i) (encs ! i) (vs ! i)"
    by (auto simp: list_all2_conv_all_nth)
  have pf: "pack_fields es names fm ?fs off = Inr (parts_layout (map2 part es encs) off)" for off
    using l e fm(2) FieldByName_camel [OF fst n] by (intro pack_fields_layout) auto
  obtain ret tail where L: "parts_layout (map2 part es encs) (sum_list (map getTypeSize es)) = (ret, tail)" by fastforce
  have r: "reflect_value ?t (VTuple vs) = RStruct ?fs" using n by (simp add: tuple_fields_ok)
  have "pack ?t (reflect_value ?t (VTuple vs)) = Inr (ret @ tail)"
    using reflect_value_typeCheck [OF p, of "VTuple vs"] ok fm(1) pf L unfolding r by (simp add: pack.simps)
  moreover have "reads_back ?t (ret @ tail) (VTuple vs)"
    using p l e by (intro reads_back_tuple [OF _ _ _ L]) (auto simp: list_all2_conv_all_nth list_all_length)
  ultimately show ?thesis by blast
qed

lemma pack_reads_back:
  "packable t \<Longrightarrow> val_ok t v \<Longrightarrow> \<exists>enc. pack t (reflect_value t v) = Inr enc \<and> reads_back t enc v"
proof (induction t arbitrary: v)
  case (IntTy n)
  then show ?case using ReadInteger_Int [of n v] pack_leaf [OF IntTy]
    by (auto simp: packElement_def simp del: reflect_value.simps intro: reads_back_int)
next
  case (UintTy n)
  then show ?case using ReadInteger_Uint [of n v] pack_leaf [OF UintTy]
    by (auto simp: packElement_def simp del: reflect_value.simps intro: reads_back_int)
next
  case BoolTy
  then show ?case using pack_leaf [OF BoolTy] reads_back_bool
    by (auto simp: packElement_def simp del: be_bytes.simps split: abi_value.splits)
next
  case StringTy
  then show ?case using pack_leaf [OF StringTy] by (auto simp: packElement_def reads_back_text split: abi_value.splits)
next
  case BytesTy
  then show ?case using pack_leaf [OF BytesTy] by (auto simp: packElement_def reads_back_text split: abi_value.splits)
next
  case AddressTy
  then show ?case using pack_leaf [OF AddressTy] by (auto simp: packElement_def reads_back_address split: abi_value.splits)
next
  case (FixedBytesTy n)
  then show ?case using pack_leaf [OF FixedBytesTy] by (auto simp: packElement_def reads_back_fixed split: abi_value.splits)
next
  case FunctionTy
  then show ?case using pack_leaf [OF FunctionTy] by (auto simp: packElement_def reads_back_function split: abi_value.splits)
next
  case (SliceTy e)
  then obtain vs where v: "v = VSlice vs" "list_all (val_ok e) vs" by (auto split: abi_value.splits)
  have e: "packable e" using SliceTy by simp
  obtain encs where encs: "list_all2 (reads_back e) encs vs"
    "\<And>off. pack_elems e (map (reflect_value e) vs) off = Inr (parts_layout (map (part e) encs) off)"
    using pack_seq [OF SliceTy.IH e v(2)] by metis
  obtain ret tail where L: "parts_layout (map (part e) encs) (if isDynamicType e then getTypeSize e * length vs else 0) = (ret, tail)"
    by fastforce
  have "pack (SliceTy e) (reflect_value (SliceTy e) v) = Inr (pack_len (length vs) @ ret @ tail)"
    using reflect_value_typeCheck [OF SliceTy.prems] L by (auto simp: pack.simps v(1) encs(2) split: if_splits)
  with reads_back_slice [OF encs(1) e L] show ?case by (auto simp: v(1))
next
  case (ArrayTy n e)
  then obtain vs where v: "v = VArray vs" "list_all (val_ok e) vs" "n = length vs" "vs \<noteq> []"
    by (auto split: abi_value.splits)
  have e: "packable e" using ArrayTy by simp
  obtain encs where encs: "list_all2 (reads_back e) encs vs"
    "\<And>off. pack_elems e (map (reflect_value e) vs) off = Inr (parts_layout (map (part e) encs) off)"
    using pack_seq [OF ArrayTy.IH e v(2)] by metis
  obtain ret tail where L: "parts_layout (map (part e) encs) (if isDynamicType e then getTypeSize e * length vs else 0) = (ret, tail)"
    by fastforce
  have "pack (ArrayTy n e) (reflect_value (ArrayTy n e) v) = Inr (ret @ tail)"
    using reflect_value_typeCheck [OF ArrayTy.prems] L by (auto simp: pack.simps v(1) encs(2) split: if_splits)
  with reads_back_array [OF encs(1) e v(4) L] show ?case by (auto simp: v(1,3))
next
  case (TupleTy names es)
  then show ?case using pack_tuple [of es names] by (auto simp del: reflect_value.simps packable.simps split: abi_value.splits)
qed simp_all

lemma pack_args_layout:
  assumes "list_all2 (\<lambda>a (v, enc). pack (arg_Type a) v = Inr enc) as (zip vs encs)" and "length vs = length encs"
  shows "pack_args as vs off = Inr (parts_layout (map2 part (map arg_Type as) encs) off)"
  using assms
proof (induction as arbitrary: vs encs off)
  case (Cons a as)
  then obtain v vs' enc encs' where "vs = v # vs'" "encs = enc # encs'" by (cases vs; cases encs) auto
  with Cons.prems Cons.IH [of vs' encs'] show ?case by simp
qed auto

lemma Pack_UnpackValues:
  assumes "list_all packable (map arg_Type as)" and "vals_ok (map arg_Type as) vs"
  shows "\<exists>d. Pack as (reflect_values (map arg_Type as) vs) = Inr d \<and> 32 * length as \<le> length d \<and>
           (length d < 2 ^ 63 \<longrightarrow> forTupleUnpack (map arg_Type as) d 0 0 = Inr vs)"
proof -
  let ?ts = "map arg_Type as"
  let ?rvs = "reflect_values ?ts vs"
  have l: "length vs = length as" using assms(2) by (auto dest: list_all2_lengthD)
  have ok: "\<And>i. i < length as \<Longrightarrow> packable (?ts ! i) \<and> val_ok (?ts ! i) (vs ! i)"
    using assms by (auto simp: list_all_length list_all2_conv_all_nth)
  then have "\<forall>i \<in> set [0..<length as]. \<exists>enc. pack (?ts ! i) (reflect_value (?ts ! i) (vs ! i)) = Inr enc \<and> reads_back (?ts ! i) enc (vs ! i)"
    by (intro ballI pack_reads_back) auto
  then obtain encs where "list_all2 (\<lambda>i enc. pack (?ts ! i) (reflect_value (?ts ! i) (vs ! i)) = Inr enc \<and>
      reads_back (?ts ! i) enc (vs ! i)) [0..<length as] encs" by (rule list_all2_choice)
  then have e: "length encs = length as" "\<And>i. i < length as \<Longrightarrow>
      pack (?ts ! i) (reflect_value (?ts ! i) (vs ! i)) = Inr (encs ! i) \<and> reads_back (?ts ! i) (encs ! i) (vs ! i)"
    by (auto simp: list_all2_conv_all_nth)
  obtain ret tail where L: "parts_layout (map2 part ?ts encs) (sum_list (map getTypeSize ?ts)) = (ret, tail)" by fastforce
  have pa: "pack_args as ?rvs off = Inr (parts_layout (map2 part ?ts encs) off)" for off
    using e l by (intro pack_args_layout) (auto simp: list_all2_conv_all_nth)
  have P: "Pack as ?rvs = Inr (ret @ tail)"
    using pa L l by (simp add: Pack_def comp_def)
  have "list_all2 (\<lambda>t enc. isDynamicType t \<or> length enc = getTypeSize t) ?ts encs"
    using e reads_back_size by (fastforce simp: list_all2_conv_all_nth)
  from length_layout [OF this, of "sum_list (map getTypeSize ?ts)"]
  have lr: "length ret = sum_list (map getTypeSize ?ts)" by (simp only: L fst_conv)
  have "sum_list (map (\<lambda>_. 32) as) \<le> sum_list (map getTypeSize ?ts)"
    unfolding map_map using assms(1) getTypeSize_packable by (intro sum_list_mono) (auto simp: list_all_iff)
  then have "32 * length as \<le> length (ret @ tail)" using lr by (simp add: sum_list_triv)
  moreover have "forTupleUnpack ?ts (ret @ tail) 0 0 = Inr vs" if "length (ret @ tail) < 2 ^ 63"
    using that lr e ok l
    by (intro forTupleUnpack_layout [OF _ _ L, of vs _ "[]" "[]" "[]"]) (auto simp: list_all2_conv_all_nth)
  ultimately show ?thesis using P by blast
qed

lemma ABI_Pack_reads_back:
  assumes "name \<noteq> []" and "map_of (Methods abi) name = Some m" and "length (m_ID m) = 4"
    and "\<forall>a \<in> set (m_Inputs m). packable (arg_Type a) \<and> \<not> Indexed a"
    and "vals_ok (map arg_Type (m_Inputs m)) vs"
  shows "\<exists>data. ABI_Pack abi name (reflect_values (map arg_Type (m_Inputs m)) vs) = Inr data \<and>
           take 4 data = m_ID m \<and> (length data < 2 ^ 63 \<longrightarrow> Unpack (m_Inputs m) (drop 4 data) = Inr vs)"
proof -
  let ?as = "m_Inputs m"
  have "list_all packable (map arg_Type ?as)" using assms(4) by (auto simp: list_all_iff)
  from Pack_UnpackValues [OF this assms(5)] obtain d where
    d: "Pack ?as (reflect_values (map arg_Type ?as) vs) = Inr d" "32 * length ?as \<le> length d"
      "length d < 2 ^ 63 \<longrightarrow> forTupleUnpack (map arg_Type ?as) d 0 0 = Inr vs" by blast
  have "NonIndexed ?as = ?as" using assms(4) by (simp add: NonIndexed_def)
  moreover have "?as = [] \<longrightarrow> vs = []" using assms(5) by auto
  ultimately have "length d < 2 ^ 63 \<longrightarrow> Unpack ?as d = Inr vs"
    using d(2,3) by (auto simp: Unpack_def UnpackValues_def)
  with d(1) assms(1-3) show ?thesis by (intro exI [of _ "m_ID m @ d"]) (simp add: ABI_Pack_def)
qed

text \<open>
  C20: call data made by \<open>ABI.Pack\<close> decodes to the arguments it was made from: for a method whose
  inputs have packable types, well-typed values (what \<open>Unpack\<close> returns, or what a fuzzer puts in
  their place) are always packed, the data starts with the selector of the method, and its
  arguments unpack to the same values, as long as the data has a length Go can represent.
\<close>

theorem ABI_Pack_Unpack:
  assumes "name \<noteq> []" and "map_of (Methods abi) name = Some m" and "length (m_ID m) = 4"
    and "\<forall>a \<in> set (m_Inputs m). packable (arg_Type a) \<and> \<not> Indexed a"
    and "vals_ok (map arg_Type (m_Inputs m)) vs"
  shows "\<exists>data. ABI_Pack abi name (reflect_values (map arg_Type (m_Inputs m)) vs) = Inr data \<and>
           take 4 data = m_ID m \<and> (length data < 2 ^ 63 \<longrightarrow> Unpack (m_Inputs m) (drop 4 data) = Inr vs)"
  using assms by (rule ABI_Pack_reads_back)

lemmas pack_eval = pack.simps typeCheck_def elem_kind_check_def reflectIntType_def packElement_def
  packBytesSlice_def length_RightPadBytes mapArgNamesToStructFields_def tag_step_def name_step_def
  FieldByName_def pair_names_def overloadedArgName_def head_tail_def Let_def

definition sample_packing_abi :: packing_ABI where
  "sample_packing_abi = \<lparr>Methods = [(''swap'', \<lparr>m_Name = ''swap'', m_ID = [1, 2, 3, 4], m_Inputs =
       [\<lparr>arg_Name = ''path'', arg_Type = SliceTy (UintTy 8), Indexed = False\<rparr>,
        \<lparr>arg_Name = ''opts'', arg_Type = TupleTy [''to_addr'', ''note''] [BoolTy, StringTy], Indexed = False\<rparr>],
       m_Outputs = None, StateMutability = ''nonpayable'', Payable = False\<rparr>)], abi_Events = [], Constructor = sample_method []\<rparr>"

definition sample_args :: "abi_value list" where
  "sample_args = [VSlice [VUint 8 5, VUint 8 7], VTuple [VBool True, VString [65, 66]]]"

definition sample_types :: "abi_type list" where
  "sample_types = [SliceTy (UintTy 8), TupleTy [''to_addr'', ''note''] [BoolTy, StringTy]]"

lemma sample_camel [simp]:
  "ToCamelCase ''to_addr'' = ''ToAddr''" "ToCamelCase ''note'' = ''Note''"
  "ToCamelCase ''a'' = ''A''" "ToCamelCase ''_a'' = ''A''"
  by code_simp+

lemma sample_packed_length:
  "map_sum id length (ABI_Pack sample_packing_abi ''swap'' (reflect_values sample_types sample_args)) = Inr 292"
  by (simp add: sample_packing_abi_def sample_types_def sample_args_def ABI_Pack_def Pack_def pack_eval)

theorem ABI_Pack_Unpack_witness:
  "\<exists>data m. map_of (Methods sample_packing_abi) ''swap'' = Some m \<and>
     ABI_Pack sample_packing_abi ''swap'' (reflect_values sample_types sample_args) = Inr data \<and>
     take 4 data = [1, 2, 3, 4] \<and> Unpack (m_Inputs m) (drop 4 data) = Inr sample_args"
proof -
  obtain m where m: "map_of (Methods sample_packing_abi) ''swap'' = Some m" "m_ID m = [1, 2, 3, 4]"
    "\<forall>a \<in> set (m_Inputs m). packable (arg_Type a) \<and> \<not> Indexed a" "map arg_Type (m_Inputs m) = sample_types"
    by (simp add: sample_packing_abi_def sample_types_def names_ok_def)
  have "vals_ok sample_types sample_args" by code_simp
  with ABI_Pack_Unpack [of "''swap''" sample_packing_abi m sample_args] m obtain data where
    d: "ABI_Pack sample_packing_abi ''swap'' (reflect_values sample_types sample_args) = Inr data"
      "take 4 data = [1, 2, 3, 4]" "length data < 2 ^ 63 \<longrightarrow> Unpack (m_Inputs m) (drop 4 data) = Inr sample_args" by auto
  then show ?thesis using m(1) sample_packed_length by auto
qed

section \<open>Names that collide\<close>

text \<open>
  The search of \<open>overloadedArgName\<close> ends: among the candidates it may try, one is free.
\<close>

lemma show_nat_inj: "show_nat a = show_nat b \<Longrightarrow> a = b"
  by (metis option.inject parse_show_nat)

lemma candidate_free:
  "find (\<lambda>n. n \<notin> set names) (map (\<lambda>idx. base @ show_nat idx) [0..<length names + 1]) \<noteq> None"
proof
  let ?c = "\<lambda>idx. base @ show_nat idx"
  assume "find (\<lambda>n. n \<notin> set names) (map ?c [0..<length names + 1]) = None"
  then have "?c ` {0..<length names + 1} \<subseteq> set names"
    unfolding find_None_iff set_map set_upt by blast
  then have "card (?c ` {0..<length names + 1}) \<le> card (set names)" by (intro card_mono) auto
  also have "\<dots> \<le> length names" by (rule card_length)
  also have "card (?c ` {0..<length names + 1}) = length names + 1"
    by (subst card_image) (auto intro!: inj_onI dest: show_nat_inj)
  finally show False by simp
qed

lemma find_Some_holds: "find P xs = Some x \<Longrightarrow> P x"
  by (induction xs) (auto split: if_splits)

lemma overloadedArgName_found:
  assumes "ToCamelCase rawName \<noteq> []"
  shows "\<exists>n. overloadedArgName rawName names = Some n \<and> n \<notin> set names"
proof (cases "ToCamelCase rawName \<in> set names")
  case True
  from candidate_free [of names "ToCamelCase rawName"] obtain n where
    n: "find (\<lambda>n. n \<notin> set names) (map (\<lambda>idx. ToCamelCase rawName @ show_nat idx) [0..<length names + 1]) = Some n"
    by blast
  with assms True have "overloadedArgName rawName names = Some n"
    unfolding overloadedArgName_def Let_def by (simp only: if_False not_True_eq_False)
  with find_Some_holds [OF n] show ?thesis by blast
qed (use assms in \<open>simp add: overloadedArgName_def Let_def\<close>)

text \<open>
  The fields \<open>NewType\<close> renames are not found again: a tuple with components \<open>a\<close> and \<open>_a\<close> has
  a Go type with the fields \<open>A\<close> and \<open>A0\<close>, and packing a value of that type is an error.
\<close>

lemma renamed_fields_not_packed:
  "tuple_fields [] [''a'', ''_a''] = Some [''A'', ''A0'']" (is ?A)
  "pack (TupleTy [''a'', ''_a''] [BoolTy, BoolTy])
     (reflect_value (TupleTy [''a'', ''_a''] [BoolTy, BoolTy]) (VTuple [VBool True, VBool False])) = Inl MultipleOutputs" (is ?B)
proof -
  have "show_nat 0 = ''0''" by code_simp
  then show ?A by (simp add: overloadedArgName_def upt_conv_Cons)
  then show ?B by (simp add: pack_eval del: tuple_fields.simps)
qed

end
