(* ===== verification/Seed_Pool.thy ===== *)
theory Seed_Pool
  imports Abi_Pack Tx_Collect
begin

text \<open>
  The pools of argument values of the fuzzer: \<open>hunter/fuzz/seedPool.go\<close> and \<open>args.go\<close>. A map of
  a pool may be \<open>nil\<close> (\<open>None\<close>): reading it is fine, writing it panics. The two random sources
  are a tape of draws that every operation returns shortened; all draws are possible, and a
  tape that has run out draws zero. The values a pool produces for an ABI type are values of
  that type (\<open>generateTypeInput_ok\<close>), so that \<open>Abi_Pack\<close> applies to the calls built from them.
\<close>

section \<open>Random draws\<close>

type_synonym tape = "nat list"

fun draw :: "nat \<Rightarrow> tape \<Rightarrow> nat \<times> tape" where
  "draw bound [] = (0, [])"
| "draw bound (r # rs) = (r mod bound, rs)"

text \<open>\<open>crypto/rand.Int\<close> panics unless the bound is positive.\<close>

definition rand_Int :: "nat \<Rightarrow> tape \<Rightarrow> (nat \<times> tape) go" where
  "rand_Int bound tape =
     (if bound = 0 then Inl (ExplicitPanic ''crypto/rand: argument to Int is <= 0'')
      else Inr (draw bound tape))"

definition pick :: "'a list \<Rightarrow> tape \<Rightarrow> ('a \<times> tape) go" where
  "pick xs tape =
     go_bind (rand_Int (length xs) tape) (\<lambda>(n, tape).
       go_bind (go_index xs n) (\<lambda>x. Inr (x, tape)))"

fun draws :: "nat \<Rightarrow> nat \<Rightarrow> tape \<Rightarrow> nat list \<times> tape" where
  "draws 0 bound tape = ([], tape)"
| "draws (Suc k) bound tape =
     (let (n, tape) = draw bound tape; (ns, tape) = draws k bound tape in (n # ns, tape))"

section \<open>The pool\<close>

type_synonym int64 = "64 word"

type_synonym 'k counts = "('k, nat) gomap option"

record SeedPool =
  AddressSeedMap :: "Address counts"
  AddressSeedList :: "Address list"
  UintSeedMap :: "uint64 counts"
  UintSeedList :: "uint64 list"
  IntSeedMap :: "int64 counts"
  IntSeedList :: "int64 list"
  BytesSeedMap :: "string counts"
  EtherAmountSeedMap :: "string counts"
  EtherAmountSeedList :: "string list"

definition empty_pool :: SeedPool where
  "empty_pool = \<lparr>AddressSeedMap = None, AddressSeedList = [], UintSeedMap = None, UintSeedList = [],
     IntSeedMap = None, IntSeedList = [], BytesSeedMap = None, EtherAmountSeedMap = None, EtherAmountSeedList = []\<rparr>"

definition AddressPool :: "string list" where
  "AddressPool = [''0x0000000000000000000000000000000000000000'', ''0xffffffffffffffffffffffffffffffffffffffff'']"

definition UintPool :: "string list" where
  "UintPool = [''0'', ''1'', ''2'', ''10'', ''100'', ''1000'', ''100000'', ''100000000'', ''100000000000'',
     ''1000000000000000'', ''100000000000000000000'']"

definition IntPool :: "string list" where
  "IntPool = [''-1'', ''-2'', ''-10'', ''-100'', ''-1000'', ''-100000'', ''-100000000'', ''-100000000000'',
     ''-1000000000000000'', ''-100000000000000000000'', ''0'', ''1'', ''2'', ''10'', ''100'', ''1000'',
     ''100000'', ''100000000'', ''100000000000'', ''1000000000000000'', ''100000000000000000000'']"

definition EtherPool :: "string list" where
  "EtherPool = [''0'', ''1'', ''2'', ''10'', ''100'', ''1000'', ''100000'', ''100000000'', ''100000000000'',
     ''1000000000000000'', ''1000000000000000000'', ''2000000000000000000'', ''100000000000000000000'']"

definition initSeedPool :: "SeedPool \<Rightarrow> SeedPool" where
  "initSeedPool p = p\<lparr>
     AddressSeedMap := Some (fold (\<lambda>a. mincr (HexToAddress a)) AddressPool []),
     UintSeedMap := Some (fold (\<lambda>u. mincr (word_of_int (ParseUint64 u))) UintPool []),
     IntSeedMap := Some (fold (\<lambda>i. mincr (word_of_int (ParseInt64 i))) IntPool []),
     BytesSeedMap := Some [],
     EtherAmountSeedMap := Some (fold mincr EtherPool [])\<rparr>"

text \<open>The pool returned has the keys of the maps in its lists, and no maps.\<close>

definition pool_keys :: "'k counts \<Rightarrow> 'k list" where
  "pool_keys m = (case m of None \<Rightarrow> [] | Some m \<Rightarrow> mkeys m)"

definition pool_updateMapToList :: "SeedPool \<Rightarrow> SeedPool" where
  "pool_updateMapToList p = empty_pool\<lparr>
     IntSeedList := pool_keys (IntSeedMap p),
     UintSeedList := pool_keys (UintSeedMap p),
     AddressSeedList := pool_keys (AddressSeedMap p),
     EtherAmountSeedList := pool_keys (EtherAmountSeedMap p)\<rparr>"

definition counts_incr :: "'k \<Rightarrow> 'k counts \<Rightarrow> 'k counts go" where
  "counts_incr k m =
     (case m of None \<Rightarrow> Inl (ExplicitPanic ''assignment to entry in nil map'') | Some m \<Rightarrow> Inr (Some (mincr k m)))"

section \<open>Arguments of recorded calls\<close>

record FuzzContract =
  c_Abi :: packing_ABI
  MethodCallMap :: "(string, bytes list) gomap"
  MethodList :: "string list"

definition as_big :: "abi_value \<Rightarrow> int go" where
  "as_big v = (case v of VBig i \<Rightarrow> Inr i | _ \<Rightarrow> Inl TypeAssertion)"

definition as_address :: "abi_value \<Rightarrow> Address go" where
  "as_address v = (case v of VAddress a \<Rightarrow> Inr a | _ \<Rightarrow> Inl TypeAssertion)"

text \<open>
  One argument. \<open>Int64\<close> and \<open>Uint64\<close> of a big integer keep the low bits, the second those of
  the absolute value.
\<close>

definition record_arg :: "abi_value list \<Rightarrow> nat \<times> Argument \<Rightarrow> SeedPool \<Rightarrow> SeedPool go" where
  "record_arg args ia p =
     (case arg_Type (snd ia) of
        IntTy _ \<Rightarrow>
          go_bind (go_index args (fst ia)) (\<lambda>v. go_bind (as_big v) (\<lambda>i.
            go_bind (counts_incr (word_of_int i) (IntSeedMap p)) (\<lambda>m. Inr (p\<lparr>IntSeedMap := m\<rparr>))))
      | UintTy _ \<Rightarrow>
          go_bind (go_index args (fst ia)) (\<lambda>v. go_bind (as_big v) (\<lambda>i.
            go_bind (counts_incr (word_of_int \<bar>i\<bar>) (UintSeedMap p)) (\<lambda>m. Inr (p\<lparr>UintSeedMap := m\<rparr>))))
      | AddressTy \<Rightarrow>
          go_bind (go_index args (fst ia)) (\<lambda>v. go_bind (as_address v) (\<lambda>a.
            go_bind (counts_incr a (AddressSeedMap p)) (\<lambda>m. Inr (p\<lparr>AddressSeedMap := m\<rparr>))))
      | _ \<Rightarrow> Inr p)"

definition parseMethodArgs :: "FuzzContract \<Rightarrow> bytes \<Rightarrow> SeedPool \<Rightarrow> (FuzzContract \<times> SeedPool) go" where
  "parseMethodArgs contract input p =
     (case MethodById (ABI.truncate (c_Abi contract)) input of
        Inl _ \<Rightarrow> Inr (contract, p)
      | Inr m \<Rightarrow>
          let calls = MethodCallMap contract;
              contract = contract\<lparr>MethodCallMap := mput (m_Name m) (mget [] calls (m_Name m) @ [input]) calls\<rparr>;
              args = (case Unpack (m_Inputs m) (drop 4 input) of Inl _ \<Rightarrow> [] | Inr vs \<Rightarrow> vs)
          in go_bind (go_fold (record_arg args) (enumerate 0 (NonIndexed (m_Inputs m))) p) (\<lambda>p. Inr (contract, p)))"

section \<open>Generated arguments\<close>

text \<open>The conversions of Go between integer types keep the low bits.\<close>

definition selectInt :: "SeedPool \<Rightarrow> nat \<Rightarrow> tape \<Rightarrow> (abi_value \<times> tape) go" where
  "selectInt p sz tape =
     go_bind (pick (IntSeedList p) tape) (\<lambda>(w, tape). Inr
       (if sz \<in> {8, 16, 32, 64} then VInt sz (signed_of sz (unat w mod 2 ^ sz)) else VBig (sint w), tape))"

definition selectUint :: "SeedPool \<Rightarrow> nat \<Rightarrow> tape \<Rightarrow> (abi_value \<times> tape) go" where
  "selectUint p sz tape =
     go_bind (pick (UintSeedList p) tape) (\<lambda>(w, tape). Inr
       (if sz \<in> {8, 16, 32, 64} then VUint sz (unat w mod 2 ^ sz) else VBig (uint w), tape))"

definition selectAddress :: "SeedPool \<Rightarrow> nat \<Rightarrow> Address \<Rightarrow> tape \<Rightarrow> (Address \<times> tape) go" where
  "selectAddress p rateForFrom from tape =
     go_bind (rand_Int 100 tape) (\<lambda>(r, tape).
       if r \<le> rateForFrom then Inr (from, tape) else pick (AddressSeedList p) tape)"

text \<open>\<open>None\<close> is the \<open>nil\<close> of a text that is not a decimal number.\<close>

definition SelectEtherAmount :: "SeedPool \<Rightarrow> tape \<Rightarrow> (int option \<times> tape) go" where
  "SelectEtherAmount p tape =
     go_bind (pick (EtherAmountSeedList p) tape) (\<lambda>(s, tape). Inr (SetString s, tape))"

definition letters :: bytes where
  "letters = map of_nat ([97..<123] @ [65..<91])"

definition generateString :: "tape \<Rightarrow> (bytes \<times> tape) go" where
  "generateString tape =
     go_bind (rand_Int 100 tape) (\<lambda>(n, tape).
       let (ns, tape) = draws n (length letters) tape
       in go_bind (go_fold (\<lambda>i b. go_bind (go_index letters i) (\<lambda>c. Inr (b @ [c]))) ns []) (\<lambda>b. Inr (b, tape)))"

definition rand_Read :: "nat \<Rightarrow> tape \<Rightarrow> bytes \<times> tape" where
  "rand_Read n tape = (let (ns, tape) = draws n 256 tape in (map of_nat ns, tape))"

definition generateFixBytes :: "nat \<Rightarrow> tape \<Rightarrow> bytes \<times> tape" where
  "generateFixBytes n tape =
     (if n \<in> {4, 8, 32, 64, 96, 128, 160, 192, 224, 256} then rand_Read n tape else ([], tape))"

definition generateBytes :: "tape \<Rightarrow> (bytes \<times> tape) go" where
  "generateBytes tape =
     go_bind (rand_Int 9 tape) (\<lambda>(n, tape).
       go_bind (go_index [0, 32, 64, 96, 128, 160, 192, 224, 256] n) (\<lambda>l. Inr (rand_Read l tape)))"

text \<open>The value of an argument, \<open>None\<close> for the \<open>nil\<close> of the types that are not handled.\<close>

definition generateTypeInput :: "SeedPool \<Rightarrow> abi_type \<Rightarrow> Address \<Rightarrow> tape \<Rightarrow> (abi_value option \<times> tape) go" where
  "generateTypeInput p t from tape =
     (case t of
        IntTy sz \<Rightarrow> go_bind (selectInt p sz tape) (\<lambda>(v, tape). Inr (Some v, tape))
      | UintTy sz \<Rightarrow> go_bind (selectUint p sz tape) (\<lambda>(v, tape). Inr (Some v, tape))
      | BoolTy \<Rightarrow> go_bind (pick [True, False] tape) (\<lambda>(b, tape). Inr (Some (VBool b), tape))
      | AddressTy \<Rightarrow> go_bind (selectAddress p 50 from tape) (\<lambda>(a, tape). Inr (Some (VAddress a), tape))
      | FixedBytesTy n \<Rightarrow> (let (b, tape) = generateFixBytes n tape in Inr (Some (VFixedBytes b), tape))
      | BytesTy \<Rightarrow> go_bind (generateBytes tape) (\<lambda>(b, tape). Inr (Some (VBytes b), tape))
      | StringTy \<Rightarrow> go_bind (generateString tape) (\<lambda>(s, tape). Inr (Some (VString s), tape))
      | _ \<Rightarrow> Inr (None, tape))"

section \<open>Pools that can be drawn from\<close>

definition pool_filled :: "SeedPool \<Rightarrow> bool" where
  "pool_filled p \<longleftrightarrow> IntSeedList p \<noteq> [] \<and> UintSeedList p \<noteq> [] \<and> AddressSeedList p \<noteq> [] \<and> EtherAmountSeedList p \<noteq> []"

definition pool_open :: "SeedPool \<Rightarrow> bool" where
  "pool_open p \<longleftrightarrow> (\<exists>a u i b e. AddressSeedMap p = Some a \<and> UintSeedMap p = Some u \<and> IntSeedMap p = Some i \<and>
     BytesSeedMap p = Some b \<and> EtherAmountSeedMap p = Some e \<and> a \<noteq> [] \<and> u \<noteq> [] \<and> i \<noteq> [] \<and> e \<noteq> [])"

lemma draw_less: "0 < bound \<Longrightarrow> fst (draw bound tape) < bound"
  by (cases tape) auto

lemma pick_nonempty: "xs \<noteq> [] \<Longrightarrow> \<exists>x tape'. pick xs tape = Inr (x, tape') \<and> x \<in> set xs"
  using draw_less [of "length xs" tape]
  by (auto simp: pick_def rand_Int_def go_index_def split: prod.splits)

lemma mput_nonempty [simp]: "mput k v m \<noteq> []"
  by (cases m) auto

lemma mincr_nonempty [simp]: "mincr k m \<noteq> []"
  by (simp add: mincr_def)

lemma fold_mincr_nonempty: "xs \<noteq> [] \<Longrightarrow> fold (\<lambda>x. mincr (f x)) xs m \<noteq> []"
  by (cases xs rule: rev_cases) auto

lemma initSeedPool_open: "pool_open (initSeedPool p)"
proof -
  have "fold mincr EtherPool [] \<noteq> ([] :: (string, nat) gomap)"
    using fold_mincr_nonempty [of EtherPool id "[]"] by (simp add: EtherPool_def)
  moreover have "AddressPool \<noteq> []" "UintPool \<noteq> []" "IntPool \<noteq> []"
    by (simp_all add: AddressPool_def UintPool_def IntPool_def)
  ultimately show ?thesis by (simp add: pool_open_def initSeedPool_def fold_mincr_nonempty)
qed

lemma pool_updateMapToList_filled: "pool_open p \<Longrightarrow> pool_filled (pool_updateMapToList p)"
  by (auto simp: pool_open_def pool_filled_def pool_updateMapToList_def pool_keys_def)

lemma counts_incr_Some [simp]: "counts_incr k (Some m) = Inr (Some (mincr k m))"
  by (simp add: counts_incr_def)

lemma record_arg_open: "pool_open p \<Longrightarrow> record_arg args ia p = Inr p' \<Longrightarrow> pool_open p'"
  by (auto simp: record_arg_def pool_open_def go_bind_Inr_iff split: abi_type.splits)

lemma parseMethodArgs_open:
  "parseMethodArgs c b p = Inr (c', p') \<Longrightarrow> pool_open p \<Longrightarrow> pool_open p'"
  by (auto simp: parseMethodArgs_def Let_def go_bind_Inr_iff split: sum.splits
      elim!: go_fold_invariant intro: record_arg_open)

text \<open>A filled pool has a value of the right type for every type the generator handles.\<close>

fun fuzz_scalar :: "abi_type \<Rightarrow> bool" where
  "fuzz_scalar (IntTy _) = True"
| "fuzz_scalar (UintTy _) = True"
| "fuzz_scalar AddressTy = True"
| "fuzz_scalar BoolTy = True"
| "fuzz_scalar _ = False"

definition fuzz_type :: "abi_type \<Rightarrow> bool" where
  "fuzz_type t \<longleftrightarrow> fuzz_scalar t \<or> t \<in> {StringTy, BytesTy, FixedBytesTy 4, FixedBytesTy 8, FixedBytesTy 32}"

lemma selectInt_ok:
  assumes "IntSeedList p \<noteq> []"
  shows "\<exists>v tape'. selectInt p sz tape = Inr (v, tape') \<and> val_ok (IntTy sz) v"
proof -
  obtain w tape' where w: "pick (IntSeedList p) tape = Inr (w, tape')" using pick_nonempty [OF assms] by blast
  have "- (2 ^ 63) \<le> sint w" and "sint w < 2 ^ 63" using sint_ge [of w] sint_lt [of w] by simp_all
  then have "val_ok (IntTy sz) (VBig (sint w))" if "sz \<notin> {8, 16, 32, 64}" using that by simp
  moreover have "val_ok (IntTy sz) (VInt sz (signed_of sz (unat w mod 2 ^ sz)))" if "sz \<in> {8, 16, 32, 64}"
  proof -
    have "0 < sz" and "unat w mod 2 ^ sz < 2 ^ sz" using that by auto
    from signed_of_bounds [OF this] that show ?thesis unfolding val_ok.simps by (simp only: abi_value.case)
  qed
  ultimately show ?thesis using w by (auto simp: selectInt_def simp del: val_ok.simps)
qed

lemma selectUint_ok:
  assumes "UintSeedList p \<noteq> []"
  shows "\<exists>v tape'. selectUint p sz tape = Inr (v, tape') \<and> val_ok (UintTy sz) v"
proof -
  obtain w tape' where w: "pick (UintSeedList p) tape = Inr (w, tape')" using pick_nonempty [OF assms] by blast
  have "0 \<le> uint w" and "uint w < 2 ^ 64" using uint_bounded [of w] by simp_all
  then have "val_ok (UintTy sz) (VBig (uint w))" if "sz \<notin> {8, 16, 32, 64}" using that by simp
  moreover have "val_ok (UintTy sz) (VUint sz (unat w mod 2 ^ sz))" if "sz \<in> {8, 16, 32, 64}" using that by auto
  ultimately show ?thesis using w by (auto simp: selectUint_def simp del: val_ok.simps)
qed

lemma selectAddress_ok: "AddressSeedList p \<noteq> [] \<Longrightarrow> \<exists>a tape'. selectAddress p rate from tape = Inr (a, tape')"
  using pick_nonempty [of "AddressSeedList p"] by (fastforce simp: selectAddress_def rand_Int_def split: prod.splits)

lemma length_draws: "length (fst (draws k bound tape)) = k"
  by (induction k arbitrary: tape) (auto split: prod.splits, metis fst_conv)

lemma draws_less: "0 < bound \<Longrightarrow> n \<in> set (fst (draws k bound tape)) \<Longrightarrow> n < bound"
proof (induction k arbitrary: tape)
  case (Suc k)
  then show ?case using draw_less [of bound tape] by (auto split: prod.splits) (metis fst_conv)
qed simp

lemma generateString_total: "\<exists>s tape'. generateString tape = Inr (s, tape')"
proof -
  obtain n tape1 where n: "draw 100 tape = (n, tape1)" by fastforce
  obtain ns tape2 where ns: "draws n (length letters) tape1 = (ns, tape2)" by fastforce
  have l: "0 < length letters" by (simp add: letters_def)
  have "i < length letters" if "i \<in> set ns" for i
    using draws_less [OF l, of i n tape1] that by (simp add: ns)
  then have "go_fold (\<lambda>i b. go_bind (go_index letters i) (\<lambda>c. Inr (b @ [c]))) ns [] =
      Inr (fold (\<lambda>i b. b @ [letters ! i]) ns [])"
    by (intro go_fold_total) (simp add: go_index_def)
  then show ?thesis by (simp add: generateString_def rand_Int_def n ns)
qed

lemma generateBytes_total: "\<exists>b tape'. generateBytes tape = Inr (b, tape')"
  using draw_less [of 9 tape]
  by (auto simp: generateBytes_def rand_Int_def go_index_def split: prod.splits)

lemma length_generateFixBytes: "n \<in> {4, 8, 32} \<Longrightarrow> length (fst (generateFixBytes n tape)) = n"
  using length_draws [of n 256 tape] by (auto simp: generateFixBytes_def rand_Read_def split: prod.splits)

lemma generateTypeInput_ok:
  assumes "pool_filled p" and "fuzz_type t"
  shows "\<exists>v tape'. generateTypeInput p t from tape = Inr (Some v, tape') \<and> val_ok t v"
proof -
  have f: "\<exists>v tape'. generateTypeInput p (FixedBytesTy n) from tape = Inr (Some v, tape') \<and> val_ok (FixedBytesTy n) v"
    if "n \<in> {4, 8, 32}" for n
    using length_generateFixBytes [OF that, of tape] that by (auto simp: generateTypeInput_def split: prod.splits)
  have p: "IntSeedList p \<noteq> []" "UintSeedList p \<noteq> []" "AddressSeedList p \<noteq> []"
    using assms(1) by (auto simp: pool_filled_def)
  show ?thesis
  proof (cases t)
    case (IntTy n)
    with selectInt_ok [OF p(1), of n tape] show ?thesis by (auto simp: generateTypeInput_def simp del: val_ok.simps)
  next
    case (UintTy n)
    with selectUint_ok [OF p(2), of n tape] show ?thesis by (auto simp: generateTypeInput_def simp del: val_ok.simps)
  next
    case AddressTy
    with selectAddress_ok [OF p(3), of 50 "from" tape] show ?thesis by (auto simp: generateTypeInput_def)
  next
    case BoolTy
    with pick_nonempty [of "[True, False]" tape] show ?thesis by (auto simp: generateTypeInput_def)
  next
    case StringTy
    with generateString_total [of tape] show ?thesis by (auto simp: generateTypeInput_def)
  next
    case BytesTy
    with generateBytes_total [of tape] show ?thesis by (auto simp: generateTypeInput_def)
  next
    case (FixedBytesTy n)
    with assms(2) f [of n] show ?thesis by (auto simp: fuzz_type_def)
  qed (use assms(2) in \<open>auto simp: fuzz_type_def\<close>)
qed

end
