(* ===== verification/Fuzz_Seed.thy ===== *)
theory Fuzz_Seed
  imports Seed_Pool Tx_Extract
begin

text \<open>
  The fuzzer: \<open>hunter/fuzz/seed.go\<close>, \<open>env.go\<close> and \<open>msg.go\<close>. A \<open>Seed\<close> holds the contracts of an
  application, the senders of the recorded transactions and a pool of argument values for
  each of them; a message is a call of a random method with arguments from the pool of its
  sender, or a recorded call with some of its arguments replaced. Reading an ABI file, a
  directory or a dumped file is an argument of the definitions, the content by path. What
  is written is given as the list of paths.
\<close>

section \<open>Contracts and senders\<close>

record Seed =
  SenderSeedMap :: "(Address, nat) gomap"
  SenderSeedList :: "Address list"
  ToSeedMap :: "(Address, nat) gomap"
  ToSeedList :: "Address list"
  Contracts :: "(Address, FuzzContract) gomap"
  SeedPoolMap :: "(Address, SeedPool) gomap"

definition initContract :: "(string \<Rightarrow> packing_ABI) \<Rightarrow> Address \<Rightarrow> string \<Rightarrow> Seed \<Rightarrow> Seed" where
  "initContract loadABIJSON contractAddress name seed =
     (let abi = loadABIJSON (''hunter/defi_apps/'' @ name @ ''/'' @ Address_hex contractAddress @ ''.json'')
      in seed\<lparr>Contracts := mput contractAddress
           \<lparr>c_Abi = abi, MethodCallMap = [],
            MethodList = map fst (filter (\<lambda>(key, m). StateMutability m \<noteq> ''view'') (Methods abi))\<rparr>
           (Contracts seed)\<rparr>)"

definition InitSeed :: "(string \<Rightarrow> packing_ABI) \<Rightarrow> ProxyInfo \<Rightarrow> Seed \<Rightarrow> Seed" where
  "InitSeed loadABIJSON proxyInfo seed =
     (let name = pi_Name proxyInfo;
          seed = seed\<lparr>SenderSeedMap := [], ToSeedMap := [], SeedPoolMap := [], Contracts := []\<rparr>;
          add = (\<lambda>a s. (initContract loadABIJSON a name s)\<lparr>ToSeedList := ToSeedList s @ [a]\<rparr>);
          seed = fold add (ProxyContracts proxyInfo) seed
      in fold (\<lambda>token s. if token \<noteq> HexToAddress ''0'' \<and> \<not> mhas (Contracts s) token then add token s else s)
           (LPTokens proxyInfo) seed)"

definition RemoveSender :: "nat \<Rightarrow> Seed \<Rightarrow> Seed go" where
  "RemoveSender index seed =
     (if index + 1 > length (SenderSeedList seed) then Inl IndexOutOfRange
      else Inr (seed\<lparr>SenderSeedList := take index (SenderSeedList seed) @ drop (index + 1) (SenderSeedList seed)\<rparr>))"

definition SelectSender :: "Seed \<Rightarrow> tape \<Rightarrow> ((Address \<times> nat) \<times> tape) go" where
  "SelectSender seed tape =
     go_bind (rand_Int (length (SenderSeedList seed)) tape) (\<lambda>(n, tape).
       go_bind (go_index (SenderSeedList seed) n) (\<lambda>a. Inr ((a, n), tape)))"

definition SelectTo :: "Seed \<Rightarrow> tape \<Rightarrow> (Address \<times> tape) go" where
  "SelectTo seed tape = pick (ToSeedList seed) tape"

section \<open>Learning from recorded transactions\<close>

text \<open>\<open>Value.String()\<close>, which is defined on \<open>nil\<close> too.\<close>

definition big_String :: "int option \<Rightarrow> string" where
  "big_String v = (case v of None \<Rightarrow> ''<nil>'' | Some i \<Rightarrow> show_int i)"

definition seed_call :: "InternalTx \<Rightarrow> (Address, FuzzContract) gomap \<times> SeedPool \<Rightarrow> ((Address, FuzzContract) gomap \<times> SeedPool) go" where
  "seed_call t s =
     (case map_of (fst s) (itx_To t) of
        None \<Rightarrow> Inr s
      | Some c \<Rightarrow>
          go_bind (parseMethodArgs c (Input t) (snd s)) (\<lambda>(c, p).
            go_bind (counts_incr (big_String (itx_Value t)) (EtherAmountSeedMap p)) (\<lambda>m.
              Inr (mput (itx_To t) c (fst s), p\<lparr>EtherAmountSeedMap := m\<rparr>))))"

fun ParseTxForSeedUtil ::
    "InternalTx \<Rightarrow> (Address, FuzzContract) gomap \<times> SeedPool \<Rightarrow> ((Address, FuzzContract) gomap \<times> SeedPool) go" where
  "ParseTxForSeedUtil t s = go_bind (seed_call t s) (go_fold ParseTxForSeedUtil (InTxs t))"

declare ParseTxForSeedUtil.simps [simp del]

definition sender_pool :: "Seed \<Rightarrow> Address \<Rightarrow> SeedPool" where
  "sender_pool seed a =
     (case map_of (SeedPoolMap seed) a of None \<Rightarrow> initSeedPool empty_pool | Some p \<Rightarrow> p)"

definition ParseTxForSeed :: "ExternalTx \<Rightarrow> Seed \<Rightarrow> Seed go" where
  "ParseTxForSeed ex seed =
     (case ex_InTxs ex of
        [t] \<Rightarrow>
          let sender = itx_From t; seed = seed\<lparr>SenderSeedMap := mincr sender (SenderSeedMap seed)\<rparr>
          in go_bind (ParseTxForSeedUtil t (Contracts seed, sender_pool seed sender)) (\<lambda>(cs, p).
               Inr (seed\<lparr>Contracts := cs, SeedPoolMap := mput sender p (SeedPoolMap seed)\<rparr>))
      | _ \<Rightarrow> Inr seed)"

definition seed_updateMapToList :: "Seed \<Rightarrow> Seed" where
  "seed_updateMapToList seed = seed\<lparr>SenderSeedList := SenderSeedList seed @ mkeys (SenderSeedMap seed)\<rparr>"

definition InitSeedFromFrontTxs :: "ExternalTx list \<Rightarrow> Seed \<Rightarrow> Seed go" where
  "InitSeedFromFrontTxs txs seed =
     go_bind (go_fold ParseTxForSeed txs seed) (\<lambda>seed.
       Inr (seed_updateMapToList
         (seed\<lparr>SeedPoolMap := map (\<lambda>(a, p). (a, pool_updateMapToList p)) (SeedPoolMap seed)\<rparr>)))"

section \<open>Messages\<close>

text \<open>
  A \<open>types.Message\<close> as \<open>NewMessage\<close> builds it here: the amount may be \<open>nil\<close>, the access list
  always is.
\<close>

record FuzzMessage =
  fm_from :: Address
  fm_to :: "Address option"
  fm_nonce :: uint64
  fm_amount :: "int option"
  fm_gasLimit :: uint64
  fm_gasPrice :: int
  fm_gasFeeCap :: int
  fm_gasTipCap :: int
  fm_data :: bytes
  fm_isFake :: bool

definition fuzz_message :: "Address \<Rightarrow> Address \<Rightarrow> int option \<Rightarrow> bytes \<Rightarrow> FuzzMessage" where
  "fuzz_message from to amount input = \<lparr>fm_from = from, fm_to = Some to, fm_nonce = 0, fm_amount = amount,
     fm_gasLimit = 8000000, fm_gasPrice = 350000000000, fm_gasFeeCap = 350000000000,
     fm_gasTipCap = 350000000000, fm_data = input, fm_isFake = False\<rparr>"

text \<open>\<open>InitSeedFromFrontMsg\<close> keys the pools by the recipient and drops the lists it computes.\<close>

definition learn_message :: "FuzzMessage \<Rightarrow> Seed \<Rightarrow> Seed go" where
  "learn_message msg seed =
     (case fm_to msg of
        None \<Rightarrow> Inl NilDereference
      | Some to \<Rightarrow>
          (case map_of (Contracts seed) to of
             None \<Rightarrow> Inr seed
           | Some c \<Rightarrow>
               go_bind (parseMethodArgs c (fm_data msg) (sender_pool seed to)) (\<lambda>(c, p).
                 Inr (seed\<lparr>Contracts := mput to c (Contracts seed),
                           SenderSeedMap := mincr (fm_from msg) (SenderSeedMap seed),
                           ToSeedMap := mincr to (ToSeedMap seed),
                           SeedPoolMap := mput to p (SeedPoolMap seed)\<rparr>))))"

definition InitSeedFromFrontMsg :: "FuzzMessage list \<Rightarrow> Seed \<Rightarrow> Seed go" where
  "InitSeedFromFrontMsg msgs seed =
     go_bind (go_fold learn_message msgs seed) (\<lambda>seed. Inr (seed_updateMapToList seed))"

definition zero_Method :: Method where
  "zero_Method = \<lparr>m_Name = [], m_ID = [], m_Inputs = [], m_Outputs = None, StateMutability = [], Payable = False\<rparr>"

definition reflect_arg :: "abi_type \<Rightarrow> abi_value option \<Rightarrow> go_value" where
  "reflect_arg t v = (case v of None \<Rightarrow> RInvalid | Some v \<Rightarrow> reflect_value t v)"

text \<open>\<open>Abi.Pack\<close>: an error is printed and leaves \<open>nil\<close> data, a panic is one.\<close>

definition pack_call :: "packing_ABI \<Rightarrow> string \<Rightarrow> Argument list \<Rightarrow> abi_value option list \<Rightarrow> bytes go" where
  "pack_call abi name inputs args =
     (case ABI_Pack abi name (map2 reflect_arg (map arg_Type inputs) args) of
        Inr d \<Rightarrow> Inr d
      | Inl e \<Rightarrow> if e = PackPanic then Inl (ExplicitPanic ''reflect'') else Inr [])"

fun generate_args :: "SeedPool \<Rightarrow> Address \<Rightarrow> Argument list \<Rightarrow> tape \<Rightarrow> (abi_value option list \<times> tape) go" where
  "generate_args p from [] tape = Inr ([], tape)"
| "generate_args p from (a # as) tape =
     go_bind (generateTypeInput p (arg_Type a) from tape) (\<lambda>(v, tape).
       go_bind (generate_args p from as tape) (\<lambda>(vs, tape). Inr (v # vs, tape)))"

definition generateInputData :: "Seed \<Rightarrow> FuzzContract \<Rightarrow> string \<Rightarrow> Address \<Rightarrow> tape \<Rightarrow> (bytes \<times> tape) go" where
  "generateInputData seed contract name from tape =
     (let p = mget empty_pool (SeedPoolMap seed) from;
          inputs = m_Inputs (mget zero_Method (Methods (c_Abi contract)) name)
      in go_bind (generate_args p from inputs tape) (\<lambda>(args, tape).
           go_bind (pack_call (c_Abi contract) name inputs args) (\<lambda>d. Inr (d, tape))))"

fun mutate_args ::
    "SeedPool \<Rightarrow> Address \<Rightarrow> abi_value list \<Rightarrow> nat \<Rightarrow> Argument list \<Rightarrow> tape \<Rightarrow> (abi_value option list \<times> tape) go" where
  "mutate_args p from originArgs index [] tape = Inr ([], tape)"
| "mutate_args p from originArgs index (a # as) tape =
     go_bind (if fuzz_scalar (arg_Type a) then generateTypeInput p (arg_Type a) from tape
              else go_bind (go_index originArgs index) (\<lambda>v. Inr (Some v, tape))) (\<lambda>(v, tape).
       go_bind (mutate_args p from originArgs (index + 1) as tape) (\<lambda>(vs, tape). Inr (v # vs, tape)))"

definition mutateInputData :: "Seed \<Rightarrow> FuzzContract \<Rightarrow> string \<Rightarrow> bytes \<Rightarrow> Address \<Rightarrow> tape \<Rightarrow> (bytes \<times> tape) go" where
  "mutateInputData seed contract name input from tape =
     (if length input < 4 then Inl IndexOutOfRange
      else
        let p = mget empty_pool (SeedPoolMap seed) from;
            inputs = m_Inputs (mget zero_Method (Methods (c_Abi contract)) name);
            originArgs = (case Unpack inputs (drop 4 input) of Inl _ \<Rightarrow> [] | Inr vs \<Rightarrow> vs)
        in go_bind (mutate_args p from originArgs 0 inputs tape) (\<lambda>(args, tape).
             go_bind (pack_call (c_Abi contract) name inputs args) (\<lambda>d. Inr (d, tape))))"

definition GenerateMsgWithMethod :: "Seed \<Rightarrow> Address \<Rightarrow> Address \<Rightarrow> string \<Rightarrow> tape \<Rightarrow> (FuzzMessage \<times> tape) go" where
  "GenerateMsgWithMethod seed from to name tape =
     (case map_of (Contracts seed) to of
        None \<Rightarrow> Inl NilDereference
      | Some c \<Rightarrow>
          go_bind (generateInputData seed c name from tape) (\<lambda>(d, tape).
            Inr (fuzz_message from to (Some 0) d, tape)))"

definition GenerateMsg :: "Seed \<Rightarrow> Address \<Rightarrow> Address \<Rightarrow> tape \<Rightarrow> (FuzzMessage \<times> tape) go" where
  "GenerateMsg seed from to tape =
     (case map_of (Contracts seed) to of
        None \<Rightarrow> Inl NilDereference
      | Some c \<Rightarrow>
          go_bind (pick (MethodList c) tape) (\<lambda>(name, tape).
          go_bind (if Payable (mget zero_Method (Methods (c_Abi c)) name)
                   then SelectEtherAmount (mget empty_pool (SeedPoolMap seed) from) tape
                   else Inr (Some 0, tape)) (\<lambda>(msgValue, tape).
          go_bind (case map_of (MethodCallMap c) name of
                     Some calls \<Rightarrow>
                       go_bind (pick calls tape) (\<lambda>(input, tape). mutateInputData seed c name input from tape)
                   | None \<Rightarrow> generateInputData seed c name from tape) (\<lambda>(d, tape).
            Inr (fuzz_message from to msgValue d, tape)))))"

section \<open>Files\<close>

definition LoadTxs :: "(string \<Rightarrow> string list) \<Rightarrow> (string \<Rightarrow> ExternalTx) \<Rightarrow> string \<Rightarrow> int \<Rightarrow> ExternalTx list" where
  "LoadTxs ReadDir LoadTx path block =
     (let dir = path @ ''/historyTx/proxy/''
      in map (\<lambda>f. LoadTx (dir @ f)) (filter (\<lambda>f. file_block f \<le> block) (ReadDir dir)))"

definition LoadAllocs :: "(string \<Rightarrow> string list) \<Rightarrow> (string \<Rightarrow> 'alloc) \<Rightarrow> string \<Rightarrow> int \<Rightarrow> 'alloc list" where
  "LoadAllocs ReadDir loadAlloc path block =
     (let dir = path @ ''/output/''
      in map (\<lambda>f. loadAlloc (dir @ f)) (takeWhile (\<lambda>f. file_block f < block) (ReadDir dir)))"

definition LoadMsgs :: "(string \<Rightarrow> string list) \<Rightarrow> (string \<Rightarrow> FuzzMessage) \<Rightarrow> string \<Rightarrow> int \<Rightarrow> FuzzMessage list" where
  "LoadMsgs ReadDir loadMsg path block =
     (let dir = path @ ''/proxy/''
      in map (\<lambda>f. loadMsg (dir @ f)) (takeWhile (\<lambda>f. file_block f < block) (ReadDir dir)))"

definition DumpMsgList_paths :: "FuzzMessage list \<Rightarrow> string \<Rightarrow> (string \<times> FuzzMessage) list" where
  "DumpMsgList_paths msgs path = map (\<lambda>(i, m). (path @ ''/'' @ show_nat i @ ''.json'', m)) (enumerate 0 msgs)"

record EnvCollector =
  ec_ProxyMap :: "(string, string) gomap"
  ec_StakeMap :: "(string, string) gomap"

definition env_call :: "EnvCollector \<Rightarrow> InternalTx \<Rightarrow> dump_dict \<times> dump_dict \<Rightarrow> dump_dict \<times> dump_dict" where
  "env_call ec t d =
     (let callTo = Address_hex (itx_To t)
      in (if mhas (ec_ProxyMap ec) callTo then mput callTo (mget [] (ec_ProxyMap ec) callTo) (fst d) else fst d,
          if mhas (ec_StakeMap ec) callTo \<and> CallType t \<noteq> ''StaticCall''
          then mput callTo (mget [] (ec_StakeMap ec) callTo) (snd d) else snd d))"

fun env_ParseTxTreeUtil :: "EnvCollector \<Rightarrow> InternalTx \<Rightarrow> dump_dict \<times> dump_dict \<Rightarrow> dump_dict \<times> dump_dict" where
  "env_ParseTxTreeUtil ec t d = fold (env_ParseTxTreeUtil ec) (InTxs t) (env_call ec t d)"

declare env_ParseTxTreeUtil.simps [simp del]

definition alloc_path :: "ExternalTx \<Rightarrow> string \<Rightarrow> string" where
  "alloc_path ex name =
     ''hunter/seed_and_env/'' @ name @ ''/statedb/output/'' @ show_int (ex_BlockNumber ex) @ ''_'' @ show_int (ex_TxIndex ex) @ ''.json''"

text \<open>The files the output state is written to. The second loop looks the names up in the first dictionary.\<close>

definition CollectEnv :: "EnvCollector \<Rightarrow> ExternalTx \<Rightarrow> bool \<Rightarrow> string list" where
  "CollectEnv ec ex dumpBool =
     (let (proxies, stakes) = (case ex_InTxs ex of [t] \<Rightarrow> env_ParseTxTreeUtil ec t ([], []) | _ \<Rightarrow> ([], []))
      in if dumpBool
         then map (\<lambda>p. alloc_path ex (mget [] proxies p)) (mkeys proxies) @
              map (\<lambda>s. alloc_path ex (mget [] proxies s)) (mkeys stakes)
         else [])"

definition CollectMsg :: "(string, string) gomap \<Rightarrow> (string, string) gomap \<Rightarrow> FuzzMessage \<Rightarrow> int \<Rightarrow> int \<Rightarrow> string list go" where
  "CollectMsg ProxyMap StakeMap msg blockNumber txIndex =
     (case fm_to msg of
        None \<Rightarrow> Inl NilDereference
      | Some to \<Rightarrow>
          let callTo = Address_hex to; name = mget [] ProxyMap callTo;
              file = show_int blockNumber @ ''_'' @ show_int txIndex @ ''.json''
          in Inr ((if mhas ProxyMap callTo then [''hunter/seed_and_env/'' @ name @ ''/msg/proxy/'' @ file] else []) @
                  (if mhas StakeMap callTo then [''hunter/seed_and_env/'' @ name @ ''/msg/stake/'' @ file] else [])))"

section \<open>Every sender can be drawn for\<close>

definition seed_ok :: "Seed \<Rightarrow> bool" where
  "seed_ok seed \<longleftrightarrow> set (mkeys (SenderSeedMap seed)) \<subseteq> dom (map_of (SeedPoolMap seed)) \<and>
     (\<forall>p \<in> ran (map_of (SeedPoolMap seed)). pool_open p)"

lemma seed_call_open: "seed_call t s = Inr s' \<Longrightarrow> pool_open (snd s) \<Longrightarrow> pool_open (snd s')"
  by (auto simp: seed_call_def go_bind_Inr_iff split: option.splits dest!: parseMethodArgs_open)
    (auto simp: pool_open_def)

lemma ParseTxForSeedUtil_open: "ParseTxForSeedUtil t s = Inr s' \<Longrightarrow> pool_open (snd s) \<Longrightarrow> pool_open (snd s')"
proof (induction t s arbitrary: s' rule: ParseTxForSeedUtil.induct)
  case (1 t s)
  from "1.prems"(1) obtain s1 where s1: "seed_call t s = Inr s1" "go_fold ParseTxForSeedUtil (InTxs t) s1 = Inr s'"
    by (auto simp: ParseTxForSeedUtil.simps go_bind_Inr_iff)
  have "pool_open (snd s1)" using seed_call_open [OF s1(1) "1.prems"(2)] .
  from go_fold_invariant [where P = "\<lambda>s. pool_open (snd s)", OF s1(2) this] "1.IH" [OF s1(1)]
  show ?case by blast
qed

lemma ParseTxForSeed_ok:
  assumes "ParseTxForSeed ex seed = Inr seed'" and "seed_ok seed"
  shows "seed_ok seed' \<and> SenderSeedList seed' = SenderSeedList seed"
proof (cases "\<exists>t. ex_InTxs ex = [t]")
  case True
  then obtain t where t: "ex_InTxs ex = [t]" by blast
  let ?s = "itx_From t"
  from assms(1) obtain cs p where p: "ParseTxForSeedUtil t (Contracts seed, sender_pool seed ?s) = Inr (cs, p)"
    and s': "seed' = seed\<lparr>SenderSeedMap := mincr ?s (SenderSeedMap seed), Contracts := cs,
        SeedPoolMap := mput ?s p (SeedPoolMap seed)\<rparr>"
    by (auto simp: ParseTxForSeed_def t Let_def go_bind_Inr_iff sender_pool_def)
  have "pool_open (sender_pool seed ?s)"
    using assms(2) initSeedPool_open by (auto simp: seed_ok_def sender_pool_def intro: ranI split: option.splits)
  then have "pool_open p" using ParseTxForSeedUtil_open [OF p] by simp
  then show ?thesis using assms(2)
    by (auto simp: s' seed_ok_def mincr_def update_conv' ran_def dom_update set_mkeys_mput simp flip: set_map)
next
  case False
  then have "seed' = seed" using assms(1) by (auto simp: ParseTxForSeed_def split: list.splits)
  with assms(2) show ?thesis by simp
qed

lemma InitSeedFromFrontTxs_filled:
  assumes "InitSeedFromFrontTxs txs seed = Inr seed'" and "seed_ok seed" and "SenderSeedList seed = []"
    and "from \<in> set (SenderSeedList seed')"
  shows "pool_filled (mget empty_pool (SeedPoolMap seed') from)"
proof -
  from assms(1) obtain s where s: "go_fold ParseTxForSeed txs seed = Inr s"
    and s': "seed' = seed_updateMapToList (s\<lparr>SeedPoolMap := map (\<lambda>(a, p). (a, pool_updateMapToList p)) (SeedPoolMap s)\<rparr>)"
    by (auto simp: InitSeedFromFrontTxs_def go_bind_Inr_iff)
  have "seed_ok s \<and> SenderSeedList s = []"
    by (rule go_fold_invariant [OF s]) (use assms(2,3) ParseTxForSeed_ok in auto)
  then obtain p where "map_of (SeedPoolMap s) from = Some p" "pool_open p"
    using assms(4) by (fastforce simp: s' seed_updateMapToList_def seed_ok_def intro: ranI)
  then show ?thesis
    by (auto simp: s' seed_updateMapToList_def mget_def map_of_map pool_updateMapToList_filled)
qed

lemma InitSeed_ok: "seed_ok (InitSeed loadABIJSON info seed) \<and> SenderSeedList (InitSeed loadABIJSON info seed) = SenderSeedList seed"
proof -
  let ?P = "\<lambda>s. SenderSeedMap s = [] \<and> SeedPoolMap s = [] \<and> SenderSeedList s = SenderSeedList seed"
  have "?P (InitSeed loadABIJSON info seed)"
    unfolding InitSeed_def Let_def
    by (intro fold_invariant_gen [where P = ?P]) (auto simp: initContract_def Let_def)
  then show ?thesis by (simp add: seed_ok_def)
qed

lemma learnt_pool_filled:
  assumes "InitSeedFromFrontTxs txs (InitSeed loadABIJSON info seed) = Inr seed'" and "SenderSeedList seed = []"
    and "from \<in> set (SenderSeedList seed')"
  shows "pool_filled (mget empty_pool (SeedPoolMap seed') from)"
  using InitSeedFromFrontTxs_filled [OF assms(1) _ _ assms(3)] InitSeed_ok [of loadABIJSON info seed] assms(2) by simp

section \<open>Generated calls decode\<close>

lemma reflect_args_Some: "map2 reflect_arg ts (map Some vs) = reflect_values ts vs"
  by (induction ts vs rule: list_induct2') (auto simp: reflect_arg_def)

lemma generate_args_ok:
  assumes "pool_filled p" and "\<forall>a \<in> set as. fuzz_type (arg_Type a)"
  shows "\<exists>vs tape'. generate_args p from as tape = Inr (map Some vs, tape') \<and> vals_ok (map arg_Type as) vs"
  using assms(2)
proof (induction as arbitrary: tape)
  case (Cons a as)
  obtain v tape1 where v: "generateTypeInput p (arg_Type a) from tape = Inr (Some v, tape1)" "val_ok (arg_Type a) v"
    using generateTypeInput_ok [OF assms(1), of "arg_Type a" "from" tape] Cons.prems by auto
  obtain vs tape2 where "generate_args p from as tape1 = Inr (map Some vs, tape2)" "vals_ok (map arg_Type as) vs"
    using Cons.IH [of tape1] Cons.prems by auto
  with v show ?case by (intro exI [of _ "v # vs"] exI [of _ tape2]) simp
qed simp

lemma mutate_args_ok:
  assumes "pool_filled p" and "vals_ok (map arg_Type as) (drop index vs)"
  shows "\<exists>vs' tape'. mutate_args p from vs index as tape = Inr (map Some vs', tape') \<and>
    vals_ok (map arg_Type as) vs' \<and> (\<forall>i < length as. \<not> fuzz_scalar (arg_Type (as ! i)) \<longrightarrow> vs' ! i = vs ! (index + i))"
  using assms(2)
proof (induction as arbitrary: index tape)
  case (Cons a as)
  have i: "index < length vs" using Cons.prems by (cases "index < length vs") auto
  have "drop index vs = vs ! index # drop (index + 1) vs" using Cons_nth_drop_Suc [OF i] by simp
  then have a: "val_ok (arg_Type a) (vs ! index)" and as: "vals_ok (map arg_Type as) (drop (index + 1) vs)"
    using Cons.prems by simp_all
  let ?m = "if fuzz_scalar (arg_Type a) then generateTypeInput p (arg_Type a) from tape
    else go_bind (go_index vs index) (\<lambda>v. Inr (Some v, tape))"
  have "\<exists>v tape1. ?m = Inr (Some v, tape1) \<and> val_ok (arg_Type a) v \<and> (\<not> fuzz_scalar (arg_Type a) \<longrightarrow> v = vs ! index)"
    using generateTypeInput_ok [OF assms(1), of "arg_Type a" "from" tape] i a by (auto simp: fuzz_type_def go_index_def)
  then obtain v tape1 where v: "?m = Inr (Some v, tape1)" "val_ok (arg_Type a) v"
    "\<not> fuzz_scalar (arg_Type a) \<longrightarrow> v = vs ! index" by blast
  obtain vs' tape2 where vs': "mutate_args p from vs (index + 1) as tape1 = Inr (map Some vs', tape2)"
    "vals_ok (map arg_Type as) vs'"
    "\<forall>i < length as. \<not> fuzz_scalar (arg_Type (as ! i)) \<longrightarrow> vs' ! i = vs ! (index + 1 + i)"
    using Cons.IH [OF as, of tape1] by blast
  have "mutate_args p from vs index (a # as) tape = Inr (map Some (v # vs'), tape2)"
    using v(1) vs'(1) by simp
  moreover have "\<forall>i < length (a # as). \<not> fuzz_scalar (arg_Type ((a # as) ! i)) \<longrightarrow> (v # vs') ! i = vs ! (index + i)"
    using v(3) vs'(3) by (auto simp: less_Suc_eq_0_disj)
  ultimately show ?case using v(2) vs'(2) by (intro exI [of _ "v # vs'"] exI [of _ tape2]) simp
qed simp

definition method_ok :: "Method \<Rightarrow> bool" where
  "method_ok m \<longleftrightarrow> length (m_ID m) = 4 \<and> (\<forall>a \<in> set (m_Inputs m). packable (arg_Type a) \<and> \<not> Indexed a)"

lemma pack_call_reads_back:
  assumes "name \<noteq> []" and "map_of (Methods abi) name = Some m" and "method_ok m"
    and "vals_ok (map arg_Type (m_Inputs m)) vs"
  shows "\<exists>d. pack_call abi name (m_Inputs m) (map Some vs) = Inr d \<and> take 4 d = m_ID m \<and>
           (length d < 2 ^ 63 \<longrightarrow> Unpack (m_Inputs m) (drop 4 d) = Inr vs)"
proof -
  from assms(3) have "length (m_ID m) = 4" "\<forall>a \<in> set (m_Inputs m). packable (arg_Type a) \<and> \<not> Indexed a"
    by (auto simp: method_ok_def)
  from ABI_Pack_reads_back [OF assms(1,2) this assms(4)] show ?thesis
    by (auto simp: pack_call_def reflect_args_Some)
qed

lemma unpacked_vals_ok:
  assumes "Unpack as d = Inr vs" and "\<forall>a \<in> set as. \<not> Indexed a"
  shows "vals_ok (map arg_Type as) vs"
proof -
  have "NonIndexed as = as" using assms(2) by (simp add: NonIndexed_def)
  then show ?thesis using assms(1) toGoType_ok(3) [of "map arg_Type as" d 0 0 vs]
    by (auto simp: Unpack_def UnpackValues_def split: if_splits)
qed

lemma mutateInputData_reads_back:
  assumes "pool_filled (mget empty_pool (SeedPoolMap seed) from)"
    and "name \<noteq> []" and "map_of (Methods (c_Abi c)) name = Some m" and "method_ok m"
    and "4 \<le> length input" and "Unpack (m_Inputs m) (drop 4 input) = Inr vs"
  shows "\<exists>d tape' vs'. mutateInputData seed c name input from tape = Inr (d, tape') \<and> take 4 d = m_ID m \<and>
    (length d < 2 ^ 63 \<longrightarrow> Unpack (m_Inputs m) (drop 4 d) = Inr vs') \<and> length vs' = length vs \<and>
    (\<forall>i < length vs. \<not> fuzz_scalar (arg_Type (m_Inputs m ! i)) \<longrightarrow> vs' ! i = vs ! i)"
proof -
  have ok: "vals_ok (map arg_Type (m_Inputs m)) (drop 0 vs)"
    using unpacked_vals_ok [OF assms(6)] assms(4) by (auto simp: method_ok_def)
  then have l: "length (m_Inputs m) = length vs" by (auto dest: list_all2_lengthD)
  from mutate_args_ok [OF assms(1) ok, of "from" tape] obtain vs' tape' where
    vs': "mutate_args (mget empty_pool (SeedPoolMap seed) from) from vs 0 (m_Inputs m) tape = Inr (map Some vs', tape')"
      "vals_ok (map arg_Type (m_Inputs m)) vs'"
      "\<forall>i < length vs. \<not> fuzz_scalar (arg_Type (m_Inputs m ! i)) \<longrightarrow> vs' ! i = vs ! i"
    using l by auto
  from pack_call_reads_back [OF assms(2-4) vs'(2)] obtain d where
    "pack_call (c_Abi c) name (m_Inputs m) (map Some vs') = Inr d" "take 4 d = m_ID m"
    "length d < 2 ^ 63 \<longrightarrow> Unpack (m_Inputs m) (drop 4 d) = Inr vs'" by blast
  moreover have "length vs' = length vs" using vs'(2) l by (auto dest: list_all2_lengthD)
  moreover have "mget zero_Method (Methods (c_Abi c)) name = m" using assms(3) by (simp add: mget_def)
  ultimately show ?thesis using assms(5,6) vs'(1,3)
    by (intro exI [of _ d] exI [of _ tape'] exI [of _ vs']) (simp add: mutateInputData_def)
qed

lemma generateInputData_reads_back:
  assumes "pool_filled (mget empty_pool (SeedPoolMap seed) from)"
    and "name \<noteq> []" and "map_of (Methods (c_Abi c)) name = Some m" and "method_ok m"
    and "\<forall>a \<in> set (m_Inputs m). fuzz_type (arg_Type a)"
  shows "\<exists>d tape' vs. generateInputData seed c name from tape = Inr (d, tape') \<and> take 4 d = m_ID m \<and>
    (length d < 2 ^ 63 \<longrightarrow> Unpack (m_Inputs m) (drop 4 d) = Inr vs)"
proof -
  obtain vs tape' where vs: "generate_args (mget empty_pool (SeedPoolMap seed) from) from (m_Inputs m) tape = Inr (map Some vs, tape')"
    "vals_ok (map arg_Type (m_Inputs m)) vs" using generate_args_ok [OF assms(1,5)] by blast
  have "mget zero_Method (Methods (c_Abi c)) name = m" using assms(3) by (simp add: mget_def)
  with pack_call_reads_back [OF assms(2-4) vs(2)] vs(1) show ?thesis by (fastforce simp: generateInputData_def)
qed

text \<open>
  What a contract needs for every message to it to be well formed: a method that is not a
  view, and for each of them inputs that can be packed, and recorded calls that decode or,
  where none was recorded, inputs the pools have values for.
\<close>

definition callable :: "FuzzContract \<Rightarrow> bool" where
  "callable c \<longleftrightarrow> MethodList c \<noteq> [] \<and> (\<forall>name \<in> set (MethodList c). name \<noteq> [] \<and>
     (\<exists>m. map_of (Methods (c_Abi c)) name = Some m \<and> method_ok m \<and>
        (case map_of (MethodCallMap c) name of
           None \<Rightarrow> \<forall>a \<in> set (m_Inputs m). fuzz_type (arg_Type a)
         | Some calls \<Rightarrow> calls \<noteq> [] \<and>
             (\<forall>input \<in> set calls. 4 \<le> length input \<and> (\<exists>vs. Unpack (m_Inputs m) (drop 4 input) = Inr vs)))))"

lemma SelectEtherAmount_total: "pool_filled p \<Longrightarrow> \<exists>v tape'. SelectEtherAmount p tape = Inr (v, tape')"
  using pick_nonempty [of "EtherAmountSeedList p" tape] by (auto simp: SelectEtherAmount_def pool_filled_def)

lemma GenerateMsg_reads_back:
  assumes "pool_filled (mget empty_pool (SeedPoolMap seed) from)"
    and "map_of (Contracts seed) to = Some c" and "callable c"
  shows "\<exists>msg tape' name m. GenerateMsg seed from to tape = Inr (msg, tape') \<and> fm_from msg = from \<and> fm_to msg = Some to \<and>
    name \<in> set (MethodList c) \<and> map_of (Methods (c_Abi c)) name = Some m \<and> take 4 (fm_data msg) = m_ID m \<and>
    (length (fm_data msg) < 2 ^ 63 \<longrightarrow> (\<exists>vs. Unpack (m_Inputs m) (drop 4 (fm_data msg)) = Inr vs))"
proof -
  let ?p = "mget empty_pool (SeedPoolMap seed) from"
  obtain name tape1 where n: "pick (MethodList c) tape = Inr (name, tape1)" "name \<in> set (MethodList c)"
    using pick_nonempty [of "MethodList c" tape] assms(3) by (auto simp: callable_def)
  then obtain m where m: "name \<noteq> []" "map_of (Methods (c_Abi c)) name = Some m" "method_ok m"
    "case map_of (MethodCallMap c) name of
       None \<Rightarrow> \<forall>a \<in> set (m_Inputs m). fuzz_type (arg_Type a)
     | Some calls \<Rightarrow> calls \<noteq> [] \<and>
         (\<forall>input \<in> set calls. 4 \<le> length input \<and> (\<exists>vs. Unpack (m_Inputs m) (drop 4 input) = Inr vs))"
    using assms(3) by (auto simp: callable_def)
  obtain v tape2 where v: "(if Payable (mget zero_Method (Methods (c_Abi c)) name) then SelectEtherAmount ?p tape1
      else Inr (Some 0, tape1)) = Inr (v, tape2)"
    using SelectEtherAmount_total [OF assms(1), of tape1] by (cases "Payable (mget zero_Method (Methods (c_Abi c)) name)") auto
  have "\<exists>d tape3. (case map_of (MethodCallMap c) name of
      Some calls \<Rightarrow> go_bind (pick calls tape2) (\<lambda>(input, tape). mutateInputData seed c name input from tape)
    | None \<Rightarrow> generateInputData seed c name from tape2) = Inr (d, tape3) \<and> take 4 d = m_ID m \<and>
    (length d < 2 ^ 63 \<longrightarrow> (\<exists>vs. Unpack (m_Inputs m) (drop 4 d) = Inr vs))"
  proof (cases "map_of (MethodCallMap c) name")
    case None
    with generateInputData_reads_back [OF assms(1) m(1-3), of tape2] m(4) show ?thesis by auto
  next
    case (Some calls)
    with m(4) obtain input tape3 vs where i: "pick calls tape2 = Inr (input, tape3)" "4 \<le> length input"
      "Unpack (m_Inputs m) (drop 4 input) = Inr vs" using pick_nonempty [of calls tape2] by auto
    from mutateInputData_reads_back [OF assms(1) m(1-3) i(2,3), of tape3] Some i(1) show ?thesis by auto
  qed
  then obtain d tape3 where d: "(case map_of (MethodCallMap c) name of
      Some calls \<Rightarrow> go_bind (pick calls tape2) (\<lambda>(input, tape). mutateInputData seed c name input from tape)
    | None \<Rightarrow> generateInputData seed c name from tape2) = Inr (d, tape3)" "take 4 d = m_ID m"
    "length d < 2 ^ 63 \<longrightarrow> (\<exists>vs. Unpack (m_Inputs m) (drop 4 d) = Inr vs)" by blast
  have "GenerateMsg seed from to tape = Inr (fuzz_message from to v d, tape3)"
    using n(1) v d(1) by (simp add: GenerateMsg_def assms(2))
  then show ?thesis using n(2) m(2) d(2,3)
    by (intro exI [of _ "fuzz_message from to v d"] exI [of _ tape3] exI [of _ name] exI [of _ m]) (simp add: fuzz_message_def)
qed

text \<open>
  C21: mutating a recorded call keeps what it does not replace: for a sender the fuzzer learnt from the
  recorded transactions of an application and a recorded call whose arguments decode, the new call data is produced for every
  sequence of random draws, starts with the selector of the method, and decodes to arguments that agree
  with the recorded ones wherever the type is not an integer, an address or a boolean.
\<close>

theorem mutateInputData_keeps:
  assumes "InitSeedFromFrontTxs txs (InitSeed loadABIJSON info seed\<^sub>0) = Inr seed" and "SenderSeedList seed\<^sub>0 = []"
    and "from \<in> set (SenderSeedList seed)"
    and "name \<noteq> []" and "map_of (Methods (c_Abi c)) name = Some m" and "method_ok m"
    and "4 \<le> length input" and "Unpack (m_Inputs m) (drop 4 input) = Inr vs"
  shows "\<exists>d tape' vs'. mutateInputData seed c name input from tape = Inr (d, tape') \<and> take 4 d = m_ID m \<and>
    (length d < 2 ^ 63 \<longrightarrow> Unpack (m_Inputs m) (drop 4 d) = Inr vs') \<and> length vs' = length vs \<and>
    (\<forall>i < length vs. \<not> fuzz_scalar (arg_Type (m_Inputs m ! i)) \<longrightarrow> vs' ! i = vs ! i)"
  by (rule mutateInputData_reads_back [OF learnt_pool_filled [OF assms(1-3)] assms(4-8)])

text \<open>
  C22: a message of the fuzzer is never built in vain: when the fuzzer has learnt from the recorded transactions,
  then for each of its senders, each contract whose methods it can call and every sequence of random
  draws, a message from the sender to the contract is produced without a panic, and its data is a call of one of
  the methods of the contract with arguments that decode.
\<close>

theorem GenerateMsg_decodes:
  assumes "InitSeedFromFrontTxs txs (InitSeed loadABIJSON info seed\<^sub>0) = Inr seed" and "SenderSeedList seed\<^sub>0 = []"
    and "from \<in> set (SenderSeedList seed)" and "map_of (Contracts seed) to = Some c" and "callable c"
  shows "\<exists>msg tape' name m. GenerateMsg seed from to tape = Inr (msg, tape') \<and> fm_from msg = from \<and> fm_to msg = Some to \<and>
    name \<in> set (MethodList c) \<and> map_of (Methods (c_Abi c)) name = Some m \<and> take 4 (fm_data msg) = m_ID m \<and>
    (length (fm_data msg) < 2 ^ 63 \<longrightarrow> (\<exists>vs. Unpack (m_Inputs m) (drop 4 (fm_data msg)) = Inr vs))"
  by (rule GenerateMsg_reads_back [OF learnt_pool_filled [OF assms(1-3)] assms(4,5)])

section \<open>A concrete seed\<close>

definition sample_fuzz_method :: Method where
  "sample_fuzz_method = \<lparr>m_Name = ''mint'', m_ID = [1, 2, 3, 4], m_Inputs =
     [\<lparr>arg_Name = ''on'', arg_Type = BoolTy, Indexed = False\<rparr>,
      \<lparr>arg_Name = ''tag'', arg_Type = FixedBytesTy 4, Indexed = False\<rparr>],
     m_Outputs = None, StateMutability = ''nonpayable'', Payable = False\<rparr>"

definition sample_fuzz_abi :: packing_ABI where
  "sample_fuzz_abi = \<lparr>Methods = [(''mint'', sample_fuzz_method)], abi_Events = [], Constructor = zero_Method\<rparr>"

definition sample_fuzz_contract :: FuzzContract where
  "sample_fuzz_contract = \<lparr>c_Abi = sample_fuzz_abi, MethodCallMap = [], MethodList = [''mint'']\<rparr>"

definition new_seed :: Seed where
  "new_seed = \<lparr>SenderSeedMap = [], SenderSeedList = [], ToSeedMap = [], ToSeedList = [], Contracts = [], SeedPoolMap = []\<rparr>"

definition sample_info :: ProxyInfo where
  "sample_info = \<lparr>pi_Name = ''app'', CreateAt = None, pi_Deposit = [], pi_Withdraw = [], ProxyContracts = [7], LPTokens = []\<rparr>"

definition sample_front :: "ExternalTx list" where
  "sample_front = [\<lparr>ex_BlockNumber = 1, ex_Timestamp = 0, ex_TxIndex = 0,
     ex_InTxs = [InternalTx 5 6 True (Some 0) ''Call'' [] [] []]\<rparr>]"

definition learnt_seed :: Seed where
  "learnt_seed = \<lparr>SenderSeedMap = [(5, 1)], SenderSeedList = [5], ToSeedMap = [], ToSeedList = [7],
     Contracts = [(7, sample_fuzz_contract)], SeedPoolMap = [(5, pool_updateMapToList (initSeedPool empty_pool))]\<rparr>"

lemma sample_learnt:
  "InitSeedFromFrontTxs sample_front (InitSeed (\<lambda>_. sample_fuzz_abi) sample_info new_seed) = Inr learnt_seed"
  "SenderSeedList new_seed = []" "5 \<in> set (SenderSeedList learnt_seed)"
  by (simp_all add: InitSeedFromFrontTxs_def sample_front_def new_seed_def learnt_seed_def ParseTxForSeed_def
      ParseTxForSeedUtil.simps seed_call_def sender_pool_def seed_updateMapToList_def mincr_def InitSeed_def
      initContract_def sample_info_def sample_fuzz_contract_def sample_fuzz_abi_def sample_fuzz_method_def Let_def)

definition sample_call :: bytes where
  "sample_call = [1, 2, 3, 4] @ (replicate 31 0 @ [1]) @ ([9, 8, 7, 6] @ replicate 28 0)"

lemma sample_call_decodes:
  "Unpack (m_Inputs sample_fuzz_method) (drop 4 sample_call) = Inr [VBool True, VFixedBytes [9, 8, 7, 6]]"
  by code_simp

theorem mutateInputData_keeps_witness:
  "\<exists>d tape' vs'. mutateInputData learnt_seed sample_fuzz_contract ''mint'' sample_call 5 [1] = Inr (d, tape') \<and>
     take 4 d = [1, 2, 3, 4] \<and> length vs' = 2 \<and> vs' ! 1 = VFixedBytes [9, 8, 7, 6] \<and>
     (length d < 2 ^ 63 \<longrightarrow> Unpack (m_Inputs sample_fuzz_method) (drop 4 d) = Inr vs')"
proof -
  have m: "map_of (Methods (c_Abi sample_fuzz_contract)) ''mint'' = Some sample_fuzz_method" "method_ok sample_fuzz_method"
    "m_ID sample_fuzz_method = [1, 2, 3, 4]" "\<not> fuzz_scalar (arg_Type (m_Inputs sample_fuzz_method ! 1))"
    by (simp_all add: sample_fuzz_contract_def sample_fuzz_abi_def sample_fuzz_method_def method_ok_def)
  have "4 \<le> length sample_call" by (simp add: sample_call_def)
  from mutateInputData_keeps [OF sample_learnt _ m(1,2) this sample_call_decodes, of "[1]"]
  obtain d tape' vs' where d: "mutateInputData learnt_seed sample_fuzz_contract ''mint'' sample_call 5 [1] = Inr (d, tape')"
    "take 4 d = m_ID sample_fuzz_method" "length vs' = length [VBool True, VFixedBytes [9, 8, 7, 6]]"
    "length d < 2 ^ 63 \<longrightarrow> Unpack (m_Inputs sample_fuzz_method) (drop 4 d) = Inr vs'"
    "\<forall>i < length [VBool True, VFixedBytes [9, 8, 7, 6]]. \<not> fuzz_scalar (arg_Type (m_Inputs sample_fuzz_method ! i)) \<longrightarrow>
       vs' ! i = [VBool True, VFixedBytes [9, 8, 7, 6]] ! i" by blast
  from d(5) m(4) have "vs' ! 1 = VFixedBytes [9, 8, 7, 6]" by simp
  moreover have "length vs' = 2" using d(3) by simp
  ultimately show ?thesis using d(1,2,4) m(3) by metis
qed

theorem GenerateMsg_decodes_witness:
  "\<exists>msg tape'. GenerateMsg learnt_seed 5 7 [0, 3, 4] = Inr (msg, tape') \<and> fm_from msg = 5 \<and> fm_to msg = Some 7 \<and>
     take 4 (fm_data msg) = [1, 2, 3, 4]"
proof -
  have "callable sample_fuzz_contract"
    by (simp add: callable_def sample_fuzz_contract_def sample_fuzz_abi_def sample_fuzz_method_def method_ok_def fuzz_type_def)
  moreover have "map_of (Contracts learnt_seed) 7 = Some sample_fuzz_contract" by (simp add: learnt_seed_def)
  ultimately show ?thesis
    using GenerateMsg_decodes [OF sample_learnt, of 7 sample_fuzz_contract "[0, 3, 4]"]
    by (auto simp: sample_fuzz_contract_def sample_fuzz_abi_def sample_fuzz_method_def)
qed

section \<open>What the fuzzer loses\<close>

text \<open>
  After \<open>InitSeedFromFrontMsg\<close> no pool has lists: every integer argument panics in the
  random choice, whoever sends the message.
\<close>

definition unlisted :: "Seed \<Rightarrow> bool" where
  "unlisted seed \<longleftrightarrow> (\<forall>p \<in> ran (map_of (SeedPoolMap seed)). IntSeedList p = [] \<and> UintSeedList p = [])"

lemma record_arg_lists:
  "record_arg args ia p = Inr p' \<Longrightarrow> IntSeedList p' = IntSeedList p \<and> UintSeedList p' = UintSeedList p"
  by (auto simp: record_arg_def go_bind_Inr_iff split: abi_type.splits)

lemma parseMethodArgs_lists:
  assumes "parseMethodArgs c b p = Inr (c', p')"
  shows "IntSeedList p' = IntSeedList p \<and> UintSeedList p' = UintSeedList p"
proof -
  have "IntSeedList q = IntSeedList p \<and> UintSeedList q = UintSeedList p"
    if "go_fold (record_arg args) ias p = Inr q" for args ias q
    by (rule go_fold_invariant [OF that]) (auto dest: record_arg_lists)
  with assms show ?thesis by (auto simp: parseMethodArgs_def Let_def go_bind_Inr_iff split: sum.splits)
qed

lemma learn_message_unlisted:
  assumes "learn_message msg seed = Inr seed'" and "unlisted seed"
  shows "unlisted seed'"
proof (cases "\<exists>to c. fm_to msg = Some to \<and> map_of (Contracts seed) to = Some c")
  case True
  then obtain to c where t: "fm_to msg = Some to" "map_of (Contracts seed) to = Some c" by blast
  from assms(1) obtain c' p where p: "parseMethodArgs c (fm_data msg) (sender_pool seed to) = Inr (c', p)"
    and s': "SeedPoolMap seed' = mput to p (SeedPoolMap seed)"
    by (auto simp: learn_message_def t go_bind_Inr_iff)
  have "IntSeedList (sender_pool seed to) = [] \<and> UintSeedList (sender_pool seed to) = []"
    using assms(2) by (auto simp: sender_pool_def unlisted_def initSeedPool_def empty_pool_def intro: ranI split: option.splits)
  with parseMethodArgs_lists [OF p] assms(2) show ?thesis
    unfolding unlisted_def s' by (auto simp: update_conv' ran_def split: if_splits)
next
  case False
  then have "seed' = seed" using assms(1) by (auto simp: learn_message_def split: option.splits)
  with assms(2) show ?thesis by simp
qed

lemma InitSeedFromFrontMsg_panics:
  assumes "InitSeedFromFrontMsg msgs seed\<^sub>0 = Inr seed" and "SeedPoolMap seed\<^sub>0 = []"
  shows "\<exists>e. generateTypeInput (mget empty_pool (SeedPoolMap seed) from) (UintTy sz) sender tape = Inl e"
proof -
  from assms(1) obtain s where s: "go_fold learn_message msgs seed\<^sub>0 = Inr s" "seed = seed_updateMapToList s"
    by (auto simp: InitSeedFromFrontMsg_def go_bind_Inr_iff)
  have "unlisted s" by (rule go_fold_invariant [OF s(1)]) (use assms(2) learn_message_unlisted in \<open>auto simp: unlisted_def\<close>)
  then have "UintSeedList (mget empty_pool (SeedPoolMap seed) from) = []"
    by (auto simp: s(2) seed_updateMapToList_def mget_def unlisted_def empty_pool_def intro: ranI split: option.splits)
  then show ?thesis by (simp add: generateTypeInput_def selectUint_def pick_def rand_Int_def)
qed

text \<open>
  Amounts survive their textual form, and so does the \<open>nil\<close> of a call that carries no value:
  it is counted as a text like any other and comes back as a \<open>nil\<close> amount.
\<close>

lemma SetString_show_nat: "SetString (show_nat n) = Some (int n)"
proof (cases "show_nat n")
  case (Cons c cs)
  have "digit_val c \<noteq> None" using parse_show_nat [of n] by (auto simp: Cons split: option.splits)
  then have "c \<noteq> CHR ''-''" "c \<noteq> CHR ''+''" by (auto simp: digit_val_def char_in_def)
  then show ?thesis using parse_show_nat [of n] by (simp add: SetString_def Cons)
qed simp

lemma amount_text: "SetString (big_String v) = v"
proof (cases v)
  case None
  have "SetString ''<nil>'' = None" by code_simp
  with None show ?thesis by (simp add: big_String_def)
next
  case (Some i)
  have "SetString (CHR ''-'' # show_nat k) = Some (- int k)" for k
    using parse_show_nat [of k] by (simp add: SetString_def)
  with Some SetString_show_nat [of "nat i"] show ?thesis by (simp add: big_String_def show_int_def)
qed

text \<open>An argument of a small integer type is not a \<open>*big.Int\<close>: learning from such a call panics.\<close>

lemma record_arg_small:
  assumes "arg_Type a = UintTy n" and "n \<in> {8, 16, 32, 64}" and "vals_ok [UintTy n] [v]"
  shows "record_arg [v] (0, a) p = Inl TypeAssertion"
  using assms by (auto simp: record_arg_def go_index_def as_big_def split: abi_value.splits)

text \<open>A method with a slice among its inputs cannot be called without a recorded call: packing panics.\<close>

lemma slice_argument_panics: "pack (SliceTy e) (reflect_arg (SliceTy e) None) = Inl PackPanic"
  by (simp add: pack.simps reflect_arg_def typeCheck_def typeErr_of_def)

text \<open>
  The states are listed by file name, so that a block with more digits comes first: loading
  stops there and drops the states of the earlier blocks.
\<close>

lemma LoadAllocs_drops:
  "LoadAllocs (\<lambda>_. [''10_0.json'', ''9_0.json'']) (\<lambda>f. f) path 10 = []" "file_block ''9_0.json'' = 9"
proof -
  have "file_block ''10_0.json'' = 10" and f: "file_block ''9_0.json'' = 9" by code_simp+
  then show "LoadAllocs (\<lambda>_. [''10_0.json'', ''9_0.json'']) (\<lambda>f. f) path 10 = []" and "file_block ''9_0.json'' = 9"
    by (simp_all add: LoadAllocs_def)
qed

text \<open>The state after a call of a token that is no proxy is written under an empty application name.\<close>

lemma stake_env_nameless:
  assumes "\<not> mhas (ec_ProxyMap ec) (Address_hex (itx_To t))" and "mhas (ec_StakeMap ec) (Address_hex (itx_To t))"
    and "CallType t \<noteq> ''StaticCall''" and "InTxs t = []" and "ex_InTxs ex = [t]"
  shows "CollectEnv ec ex True = [alloc_path ex []]"
  using assms by (simp add: CollectEnv_def env_ParseTxTreeUtil.simps env_call_def Let_def)

end
