(* ===== verification/Spec2Isabelle.thy ===== *)
theory Spec2Isabelle
  imports Leak_Report State_Finalise Static_Call Vm_Return Fuzz_Seed
begin

text \<open>
  DeFiWarder finds attacks on decentralised-finance applications by replaying recorded Ethereum
  transactions in a modified go-ethereum client and comparing, per user, what was deposited in an
  application with what was withdrawn from it.

  \<^bold>\<open>Parts of the program and how they interact.\<close> Transactions are replayed from a database of
  \<^emph>\<open>substates\<close> (\<open>research/\<close>): the accounts, block environment and message a transaction needs and
  the result it must have, serialised with RLP (\<open>rlp/\<close>) into a key-value store (\<open>ethdb/memorydb\<close>).
  A message is applied to a state database (\<open>core/state\<close>, extended to record the accounts and slots
  that a transaction reads and writes) by the state transition (\<open>core/state_transition.go\<close>), which buys
  gas, calls the virtual machine and pays refund and fees. The virtual machine (\<open>core/vm\<close>) makes calls
  (\<open>evm.go\<close>) that run code in the interpreter (\<open>interpreter.go\<close>), which asks the state and makes further
  calls; it is extended to record each transaction as a tree of calls and events
  (\<open>tx.go\<close>). The collector (\<open>hunter/defi/collector.go\<close>, \<open>token.go\<close>) decides which trees
  concern a configured application (\<open>defi.go\<close>) and writes them to files. The extractor
  (\<open>extractor.go\<close>) reads them back, decodes call data with the ABI (\<open>accounts/abi\<close>), and lists user
  actions, token transfers and relations between users. The checker (\<open>check.go\<close>) turns the
  transfers into running totals per user and token, joins the totals of related users and reports
  the withdrawals that exceed the deposits by a threshold. The fuzzer (\<open>hunter/fuzz\<close>) learns senders and
  argument values from recorded transactions and builds new calls from them for replay.

  \<^bold>\<open>Theories.\<close>
  \<^item> \<open>Go_Prelude\<close>: Go values (maps as association lists in iteration order, panics as the left
    summand of the result type \<open>go\<close>, stable and unstable sorting) and the generic lemmas.
  \<^item> \<open>Go_Float\<close>: \<open>big.Float\<close> with 64 bits of precision, as the totals and rates use it, with its
    rounding bounds.
  \<^item> \<open>Common_Types\<close>: \<open>common/bytes.go\<close>, \<open>common/types.go\<close>; addresses, hashes, hexadecimal forms.
  \<^item> \<open>Call_Tree\<close>: \<open>core/vm/tx.go\<close>; the recorded tree and its traversal.
  \<^item> \<open>Abi_Decode\<close>: \<open>accounts/abi\<close>; unpacking of call and event data, method lookup. \<open>Abi_Pack\<close>: \<open>pack.go\<close>,
    \<open>error_handling.go\<close>, \<open>reflect.go\<close> and the packing of \<open>type.go\<close>, \<open>argument.go\<close>, \<open>abi.go\<close>.
  \<^item> \<open>Defi_Config\<close>: \<open>hunter/defi/defi.go\<close> and the tables of \<open>token.go\<close>.
  \<^item> \<open>Tx_Collect\<close>: \<open>collector.go\<close>, the swap collector of \<open>token.go\<close>.
  \<^item> \<open>Tx_Extract\<close>, \<open>Tx_Classify\<close>: \<open>extractor.go\<close>.
  \<^item> \<open>Token_Flow\<close>, \<open>Merged_Flow\<close>: \<open>GenerateUserFlow\<close> of \<open>check.go\<close>, per token and merged with prices.
  \<^item> \<open>User_Search\<close>, \<open>Leak_Check\<close>, \<open>Leak_Report\<close>: the recursion over related users, the abnormal
    rates, \<open>CheckAttack\<close>, \<open>RecordRate\<close> and the single-transaction variants of \<open>check.go\<close>.
  \<^item> \<open>Seed_Pool\<close>: \<open>hunter/fuzz/seedPool.go\<close>, \<open>args.go\<close>; \<open>Fuzz_Seed\<close>: \<open>seed.go\<close>, \<open>env.go\<close>, \<open>msg.go\<close>.
  \<^item> \<open>Rlp_Encode\<close>, \<open>Rlp_Raw\<close>, \<open>Rlp_Decode\<close>: \<open>rlp/encode.go\<close>, \<open>raw.go\<close>, \<open>decode.go\<close>.
  \<^item> \<open>Substate\<close>: \<open>research/substate.go\<close>; \<open>Substate_Store\<close>: \<open>ethdb/memorydb\<close>,
    \<open>research/substate_rlp.go\<close>, keys and code store of \<open>substate_db.go\<close>; \<open>Substate_DB\<close>: the wire
    layouts and the remaining operations of \<open>substate_db.go\<close>.
  \<^item> \<open>Access_List\<close>: \<open>core/state/access_list.go\<close>; \<open>State_DB\<close>: \<open>state_object.go\<close>, \<open>journal.go\<close>, \<open>statedb.go\<close>.
    \<open>State_World\<close> says what a state means (a \<open>world\<close> without caches and journal), \<open>State_Revert\<close> and
    \<open>State_Refine\<close> how each operation changes it, \<open>State_Machine\<close> that any sequence of operations with
    snapshots and reverts behaves like a machine that copies worlds. \<open>State_Record\<close> and \<open>State_Finalise\<close>:
    what is recorded for the substate, and \<open>Finalise\<close>.
  \<^item> \<open>Evm_Call\<close>: \<open>core/vm/evm.go\<close>, \<open>contract.go\<close>, the frame handling of \<open>interpreter.go\<close>, \<open>core/evm.go\<close>.
    A \<open>frame\<close> is what one run of a code asks of its surroundings, and is the interface between the
    calls and the interpreter. \<open>Evm_Record\<close>: the recorded tree and the depth of calls; \<open>Evm_Revert\<close>:
    failed calls; \<open>Evm_Gas\<close>: gas of calls; \<open>Evm_Payment\<close>: payments to accounts without code.
  \<^item> \<open>State_Transition\<close>: \<open>core/state_transition.go\<close>, \<open>gaspool.go\<close>; \<open>Failed_Message\<close>: messages whose call fails.
  \<^item> \<open>Code_Bitmap\<close>: \<open>core/vm/analysis.go\<close>; \<open>Evm_Machine\<close>: \<open>memory.go\<close>, \<open>common.go\<close>, \<open>gas.go\<close>, jump destinations;
    \<open>Evm_Instructions\<close>: \<open>instructions.go\<close>, \<open>eips.go\<close>; \<open>Gas_Table\<close>: \<open>gas_table.go\<close>, \<open>operations_acl.go\<close>,
    \<open>memory_table.go\<close>; \<open>Jump_Table\<close>: \<open>jump_table.go\<close>, \<open>stack_table.go\<close> and the prices of \<open>params\<close>;
    \<open>Evm_Interp\<close>: the loop of \<open>interpreter.go\<close> (\<open>code_frame\<close>) and the machine that runs it (\<open>vm_env\<close>).
  \<^item> \<open>Interp_Memory\<close>, \<open>Interp_Frames\<close>, \<open>Interp_Exec\<close>, \<open>Interp_Cost\<close>, \<open>Interp_Sound\<close>: contracts of instructions and gas
    functions, that all of them and all tables from Frontier to London fulfil them, and that the loop over such
    a table is sound. \<open>Interp_Kept\<close>: what frames never ask for, least of all read-only ones. \<open>Vm_Frames\<close>,
    \<open>Static_Call\<close>, \<open>Vm_Return\<close>: the properties of the interpreter and of the whole machine with it; the
    locale \<open>contract_code\<close> is what the calls rely on, interpreted for every \<open>vm_env\<close>.

  \<^bold>\<open>Correspondence.\<close> A Go struct is a record whose fields keep the source's names (with a prefix
  where two structs share one), an enumeration is a datatype, a method is a function of its
  receiver, a function that writes through pointers returns the updated value. A run-time panic,
  explicit or not, is an error value. A Go map is an association list, and a property that must
  not depend on the order of iteration is stated for every order. Fixed-width integers are words,
  \<open>big.Int\<close> is \<open>int\<close>, \<open>big.Float\<close> is a dyadic number with its precision. Data from the standard
  library's CSV and JSON readers is an argument.

  \<^bold>\<open>What is shown.\<close> For detection: a report is always of a withdrawal with abnormal totals, lists
  exactly the related users that were joined, and a plain leak is always reported; the recursion
  over related users returns and reaches what the relations allow. For extraction and
  classification: the shape of actions and transfers, that each deposit and withdrawal is listed
  once, that relations carry their earliest block. For flows: order, monotonicity, independence of
  the sorting algorithm (for every function that sorts), and how far rounding moves a total. For the ABI: decoded values are well typed,
  and what is packed unpacks to itself; for the fuzzer, that its messages are calls that decode and
  its mutations keep what they do not replace. For RLP: the writer with deferred
  list headers computes the recursive encoding, decoding ends on every input and inverts
  encoding, splitting accepts exactly the canonical encodings. For the database: what is stored is
  read back, other records are untouched by storing and deleting, the records of a block are returned exactly when all
  of them can be read, older layouts are read by their own readers, comparison
  decides equality of contents. For the state: journal, snapshots and reverts refine copies of the
  world, and the records of a transaction hold exactly the accounts it looked up, before and after, and, unless an
  account is created anew, exactly the slots. For the
  virtual machine: the interpreter ends within its gas, never leaves the bounds of stack, memory
  and code, jumps only to instructions and never gives back more gas than it got; calls nest no
  deeper than the limit, restore the state when they fail, change nothing when they are static, and leave
  one record each in the tree; a message always comes to an end, its gas adds up, and a failed
  one costs its gas and nothing else. The hypotheses \<open>opcodes\<close> and \<open>gas_sound\<close> of the theorems on
  calls and messages are shown for the interpreter by \<open>vm_env_opcodes\<close> and \<open>vm_env_gas_sound\<close>.
  Several theorems pin down surprising behaviour of the code; the manifest lists them as findings.

  \<^bold>\<open>Parameters, fuel and bounds.\<close> Keccak-256 is a parameter; where the code store relies on distinct
  codes having distinct hashes the theorem says so for the codes at hand. The recursion over
  related users has fuel \<open>related_fuel\<close>, one more than the number of related addresses; every call
  marks a new one of them, and the theorems show that with this fuel a value is returned. The loop over list elements of an RLP decoder
  runs for at most one round more than the input has bytes, which is enough because every round
  but the last consumes a byte. Encodings are bounded by the range of the 64-bit size, and
  theorems that need the bound name it. The library of 256-bit integers (\<open>uint256_lib\<close>), the bodies of the
  precompiled contracts, and the tries and the code store below the state (\<open>backend\<close>) are parameters; of
  the first, addition and sign must be what they are documented to be (\<open>uint256_sound\<close>). Calls within calls have
  the bound \<open>CallCreateDepth + 2\<close>, which the depth check keeps them below (\<open>Evm_Record\<close>); the loop of the interpreter has
  one step more than the gas of the contract, which is enough because every instruction that goes on
  takes gas (\<open>Vm_Frames\<close>); the loop that marks push data runs once per byte at most. \<open>Vm_Return\<close> puts the
  first two together. The random sources of the fuzzer are a tape of draws; the theorems hold for every tape.
  Packed data is assumed to be shorter than \<open>2 ^ 63\<close> bytes where the decoder checks its lengths. The search
  for a free field name tries one name more than there are names, which is enough (\<open>candidate_free\<close>).

  \<^bold>\<open>Not modelled.\<close> Command-line front ends, file access, worker pools and printing; JSON and CSV
  decoding; of the ABI the parsing of type names and the copying of decoded values into Go structs; the statistics printed by \<open>RateLimit\<close> and
  \<open>AbnormalDetection\<close>; the RLP front ends over readers and writers, raw values and custom encoders;
  batches and the LevelDB backend; of the state database the update and commit of tries, copies of
  states, the snapshot tree and the prefetcher; of the virtual machine tracing, cancelling from another
  goroutine, extra EIPs on top of a fork, a preset jump table and the cryptography of the precompiled contracts. Rebuilding a state from
  a substate for replay needs the commit of tries and is left out with it. The rest of
  the forked client (networking, consensus, wallets) is not on the path of the analysis. Simplified are: the cache of jump
  analyses, which contracts do without after \<open>isCode_recomputes\<close> (\<open>Evm_Machine\<close>); memory slices past the length but within the
  capacity, which panic; a message without fee cap, which does not occur; counters of transfers, logs and revisions, which
  are unbounded; the sharing of slices that are sorted in place; and the backend of the substate database, which is the
  one in memory.
\<close>

end
